(* ===== verification/Prelude.thy ===== *)
theory Prelude
  imports Main "HOL-Library.Char_ord" "HOL-Library.List_Lexorder" "HOL-Library.Code_Target_Nat"
begin

text \<open>
  Shared vocabulary of the development: the \<open>Result\<close> type and its \<open>?\<close> operator, loops that
  stop at the first error, the \<open>Vec\<close> and \<open>VecDeque\<close> operations the sources use
  (position, remove, splice), checked 64-bit arithmetic, decimal printing, and the byte-level
  string operations \<open>trim\<close>, \<open>starts_with\<close> and \<open>contains\<close>.

  A Rust \<open>String\<close> is its UTF-8 bytes, so it is a \<^typ>\<open>string\<close> whose characters are bytes:
  \<open>len\<close> is \<^const>\<open>length\<close>, and the byte order of \<open>str\<close> is the order of
  \<open>List_Lexorder\<close> over \<open>Char_ord\<close>.
\<close>

named_theorems result_simps \<open>inversion of computations in the Result type\<close>
named_theorems event_simps \<open>evaluation of the event-kind tests\<close>

section \<open>Results\<close>

type_synonym ('a, 'e) result = "'e + 'a"
type_synonym u64 = nat
type_synonym i64 = int

fun and_then :: "'e + 'a \<Rightarrow> ('a \<Rightarrow> 'e + 'b) \<Rightarrow> 'e + 'b" where
  "and_then (Inl e) f = Inl e"
| "and_then (Inr x) f = f x"

text \<open>\<open>r?;\<close> followed by the rest, where the rest does not use the value.\<close>

fun and_next :: "'e + 'a \<Rightarrow> 'e + 'b \<Rightarrow> 'e + 'b" where
  "and_next (Inl e) k = Inl e"
| "and_next (Inr x) k = k"

fun map_err :: "('e \<Rightarrow> 'f) \<Rightarrow> 'e + 'a \<Rightarrow> 'f + 'a" where
  "map_err g (Inl e) = Inl (g e)"
| "map_err g (Inr x) = Inr x"

definition ok_or :: "'e \<Rightarrow> 'a option \<Rightarrow> 'e + 'a" where
  "ok_or e v = (case v of None \<Rightarrow> Inl e | Some x \<Rightarrow> Inr x)"

definition ensure :: "bool \<Rightarrow> 'e \<Rightarrow> 'e + unit" where
  "ensure b e = (if b then Inr () else Inl e)"

definition is_ok :: "'e + 'a \<Rightarrow> bool" where
  "is_ok r = (case r of Inl _ \<Rightarrow> False | Inr _ \<Rightarrow> True)"

fun try_each :: "('a \<Rightarrow> 'e + unit) \<Rightarrow> 'a list \<Rightarrow> 'e + unit" where
  "try_each f [] = Inr ()"
| "try_each f (x # xs) = and_then (f x) (\<lambda>_. try_each f xs)"

fun try_map :: "('a \<Rightarrow> 'e + 'b) \<Rightarrow> 'a list \<Rightarrow> 'e + 'b list" where
  "try_map f [] = Inr []"
| "try_map f (x # xs) = and_then (f x) (\<lambda>y. and_then (try_map f xs) (\<lambda>ys. Inr (y # ys)))"

fun try_fold :: "('s \<Rightarrow> 'a \<Rightarrow> 'e + 's) \<Rightarrow> 's \<Rightarrow> 'a list \<Rightarrow> 'e + 's" where
  "try_fold f s [] = Inr s"
| "try_fold f s (x # xs) = and_then (f s x) (\<lambda>s'. try_fold f s' xs)"

lemma and_then_cong [fundef_cong]:
  "r = r' \<Longrightarrow> (\<And>x. r' = Inr x \<Longrightarrow> f x = f' x) \<Longrightarrow> and_then r f = and_then r' f'"
  by (cases r') auto

lemma try_each_cong [fundef_cong]:
  "xs = ys \<Longrightarrow> (\<And>x. x \<in> set ys \<Longrightarrow> f x = g x) \<Longrightarrow> try_each f xs = try_each g ys"
  by (induction ys arbitrary: xs) auto

lemma and_then_Inr [simp, result_simps]:
  "(and_then r f = Inr y) = (\<exists>x. r = Inr x \<and> f x = Inr y)"
  by (cases r) auto

lemma and_then_Inl [result_simps]:
  "(and_then r f = Inl e) = (r = Inl e \<or> (\<exists>x. r = Inr x \<and> f x = Inl e))"
  by (cases r) auto

lemma and_next_Inr [simp, result_simps]: "(and_next r k = Inr y) = ((\<exists>x. r = Inr x) \<and> k = Inr y)"
  by (cases r) auto

lemma and_next_Inl [result_simps]: "(and_next r k = Inl e) = (r = Inl e \<or> ((\<exists>x. r = Inr x) \<and> k = Inl e))"
  by (cases r) auto

lemma and_then_Inr_right [simp]: "and_then r Inr = r"
  by (cases r) auto

lemma and_then_assoc: "and_then (and_then r f) g = and_then r (\<lambda>x. and_then (f x) g)"
  by (cases r) auto

lemma map_err_Inr [simp, result_simps]: "(map_err g r = Inr x) = (r = Inr x)"
  by (cases r) auto

lemma map_err_Inl [result_simps]: "(map_err g r = Inl f) = (\<exists>e. r = Inl e \<and> f = g e)"
  by (cases r) auto

lemma ok_or_Inr [simp, result_simps]: "(ok_or e v = Inr x) = (v = Some x)"
  by (simp add: ok_or_def split: option.splits)

lemma ok_or_Inl [simp, result_simps]: "(ok_or e v = Inl f) = (v = None \<and> f = e)"
  by (auto simp: ok_or_def split: option.splits)

lemma ok_or_Some [simp]: "ok_or e (Some x) = Inr x"
  by (simp add: ok_or_def)

lemma ok_or_None [simp]: "ok_or e None = Inl e"
  by (simp add: ok_or_def)

lemma ensure_Inr [simp, result_simps]: "(ensure b e = Inr u) = b"
  by (simp add: ensure_def)

lemma ensure_Inl [simp, result_simps]: "(ensure b e = Inl f) = (\<not> b \<and> f = e)"
  by (auto simp: ensure_def)

lemma ensure_True [simp]: "ensure True e = Inr ()"
  by (simp add: ensure_def)

lemma ensure_False [simp]: "ensure False e = Inl e"
  by (simp add: ensure_def)

lemma is_ok_simps [simp]: "is_ok (Inl e) = False" "is_ok (Inr x) = True"
  by (simp_all add: is_ok_def)

lemma is_ok_ex: "is_ok r = (\<exists>x. r = Inr x)"
  by (cases r) auto

lemma try_each_Inr [simp, result_simps]: "(try_each f xs = Inr u) = (\<forall>x\<in>set xs. f x = Inr ())"
  by (induction xs) auto

lemma try_map_length: "try_map f xs = Inr ys \<Longrightarrow> length ys = length xs"
  by (induction xs arbitrary: ys) auto

lemma try_fold_append:
  "try_fold f s (xs @ ys) = and_then (try_fold f s xs) (\<lambda>s'. try_fold f s' ys)"
  by (induction xs arbitrary: s) (auto simp: and_then_assoc)

text \<open>Rule for a property of the running state of a loop that stops at the first error.\<close>

lemma try_fold_invariant:
  assumes "try_fold f s xs = Inr t" and "P s"
    and "\<And>s x s'. x \<in> set xs \<Longrightarrow> P s \<Longrightarrow> f s x = Inr s' \<Longrightarrow> P s'"
  shows "P t"
  using assms
proof (induction xs arbitrary: s)
  case Nil
  then show ?case by simp
next
  case (Cons x xs)
  from Cons.prems(1) obtain s' where s': "f s x = Inr s'" "try_fold f s' xs = Inr t"
    by auto
  from s'(1) Cons.prems(2,3) have "P s'" by (metis list.set_intros(1))
  with s'(2) Cons.prems(3) show ?case
    by (intro Cons.IH [of s']) auto
qed

section \<open>Checked 64-bit arithmetic\<close>

definition u64_max :: u64 where
  "u64_max = 2 ^ 64 - 1"

definition i64_min :: i64 where
  "i64_min = - (2 ^ 63)"

definition i64_max :: i64 where
  "i64_max = 2 ^ 63 - 1"

definition checked_add_u64 :: "u64 \<Rightarrow> u64 \<Rightarrow> u64 option" where
  "checked_add_u64 a b = (if a + b \<le> u64_max then Some (a + b) else None)"

definition in_i64 :: "int \<Rightarrow> bool" where
  "in_i64 n \<longleftrightarrow> i64_min \<le> n \<and> n \<le> i64_max"

definition checked_add_i64 :: "i64 \<Rightarrow> i64 \<Rightarrow> i64 option" where
  "checked_add_i64 a b = (if in_i64 (a + b) then Some (a + b) else None)"

definition checked_sub_i64 :: "i64 \<Rightarrow> i64 \<Rightarrow> i64 option" where
  "checked_sub_i64 a b = (if in_i64 (a - b) then Some (a - b) else None)"

definition checked_mul_i64 :: "i64 \<Rightarrow> i64 \<Rightarrow> i64 option" where
  "checked_mul_i64 a b = (if in_i64 (a * b) then Some (a * b) else None)"

lemma checked_add_u64_Some [simp]:
  "(checked_add_u64 a b = Some c) = (c = a + b \<and> a + b \<le> u64_max)"
  by (auto simp: checked_add_u64_def)

lemma checked_i64_Some [simp]:
  "(checked_add_i64 a b = Some c) = (c = a + b \<and> in_i64 (a + b))"
  "(checked_sub_i64 a b = Some c) = (c = a - b \<and> in_i64 (a - b))"
  "(checked_mul_i64 a b = Some c) = (c = a * b \<and> in_i64 (a * b))"
  by (auto simp: checked_add_i64_def checked_sub_i64_def checked_mul_i64_def)

text \<open>Rust's \<open>/\<close> and \<open>%\<close> truncate towards zero; \<open>div_euclid\<close> with a positive divisor is
  Isabelle's \<open>div\<close>.\<close>

definition rust_div :: "i64 \<Rightarrow> i64 \<Rightarrow> i64" where
  "rust_div n d =
     (let q = abs n div abs d in if (n < 0) = (d < 0) then q else - q)"

lemma rust_div_nonneg [simp]: "n \<ge> 0 \<Longrightarrow> d > 0 \<Longrightarrow> rust_div n d = n div d"
  by (simp add: rust_div_def)

section \<open>Sequences\<close>

definition position :: "('a \<Rightarrow> bool) \<Rightarrow> 'a list \<Rightarrow> nat option" where
  "position P xs =
     (let n = length (takeWhile (\<lambda>x. \<not> P x) xs) in if n < length xs then Some n else None)"

definition remove_at :: "nat \<Rightarrow> 'a list \<Rightarrow> 'a list" where
  "remove_at i xs = take i xs @ drop (Suc i) xs"

definition splice_at :: "nat \<Rightarrow> nat \<Rightarrow> 'a list \<Rightarrow> 'a list \<Rightarrow> 'a list" where
  "splice_at i j ys xs = take i xs @ ys @ drop j xs"

definition find_first :: "('a \<Rightarrow> bool) \<Rightarrow> 'a list \<Rightarrow> 'a option" where
  "find_first P xs = (case filter P xs of [] \<Rightarrow> None | x # _ \<Rightarrow> Some x)"

lemma position_Some: "position P xs = Some i \<Longrightarrow> i < length xs \<and> P (xs ! i)"
  using nth_length_takeWhile [of "\<lambda>x. \<not> P x" xs]
  by (auto simp: position_def Let_def split: if_splits)

lemma position_None: "(position P xs = None) = (\<forall>x\<in>set xs. \<not> P x)"
proof -
  have "length (takeWhile (\<lambda>x. \<not> P x) xs) < length xs \<longleftrightarrow> (\<exists>x\<in>set xs. P x)"
    by (induction xs) auto
  then show ?thesis by (auto simp: position_def Let_def)
qed

lemma position_Nil [simp]: "position P [] = None"
  by (simp add: position_def)

lemma position_Cons [simp]:
  "position P (x # xs) = (if P x then Some 0 else map_option Suc (position P xs))"
  by (simp add: position_def Let_def)

lemma remove_at_set: "set (remove_at i xs) \<subseteq> set xs"
  by (auto simp: remove_at_def dest: in_set_takeD in_set_dropD)

lemma take_drop_distinct:
  assumes "distinct (map f xs)" and "i \<le> j"
  shows "distinct (map f (take i xs @ drop j xs))"
  using assms set_take_disj_set_drop_if_distinct [OF assms]
  by (simp add: take_map [symmetric] drop_map [symmetric])

lemma remove_at_distinct: "distinct (map f xs) \<Longrightarrow> distinct (map f (remove_at i xs))"
  unfolding remove_at_def by (rule take_drop_distinct) simp_all

lemma remove_at_nth_notin:
  assumes "distinct (map f xs)" and "i < length xs"
  shows "f (xs ! i) \<notin> f ` set (remove_at i xs)"
proof -
  from assms(2) have xs: "xs = take i xs @ xs ! i # drop (Suc i) xs"
    by (simp add: id_take_nth_drop)
  from assms(1) have "distinct (map f (take i xs @ xs ! i # drop (Suc i) xs))"
    using xs by simp
  then show ?thesis by (auto simp: remove_at_def)
qed

lemma find_first_Some: "find_first P xs = Some x \<Longrightarrow> x \<in> set xs \<and> P x"
  by (auto simp: find_first_def split: list.splits dest: filter_eq_ConsD)

lemma find_first_None [simp]: "(find_first P xs = None) = (\<forall>x\<in>set xs. \<not> P x)"
  by (simp add: find_first_def filter_empty_conv split: list.splits) (metis filter_empty_conv list.distinct(1))

section \<open>Ordered maps\<close>

text \<open>A \<open>BTreeMap\<close> is the list of its entries in increasing key order; reading is
  \<^const>\<open>map_of\<close>.\<close>

fun bt_insert :: "'k::linorder \<Rightarrow> 'v \<Rightarrow> ('k \<times> 'v) list \<Rightarrow> ('k \<times> 'v) list" where
  "bt_insert k v [] = [(k, v)]"
| "bt_insert k v ((k', v') # kvs) =
     (if k = k' then (k, v) # kvs
      else if k < k' then (k, v) # (k', v') # kvs
      else (k', v') # bt_insert k v kvs)"

definition bt_remove :: "'k \<Rightarrow> ('k \<times> 'v) list \<Rightarrow> ('k \<times> 'v) list" where
  "bt_remove k kvs = filter (\<lambda>(k', v). k' \<noteq> k) kvs"

definition bt_sorted :: "('k::linorder \<times> 'v) list \<Rightarrow> bool" where
  "bt_sorted kvs \<longleftrightarrow> sorted_wrt (<) (map fst kvs)"

lemma map_of_bt_insert [simp]: "map_of (bt_insert k v kvs) = (map_of kvs)(k \<mapsto> v)"
  by (induction k v kvs rule: bt_insert.induct) auto

lemma map_of_bt_remove [simp]: "map_of (bt_remove k kvs) = (map_of kvs)(k := None)"
  by (induction kvs) (auto simp: bt_remove_def fun_eq_iff)

lemma keys_bt_insert [simp]: "fst ` set (bt_insert k v kvs) = insert k (fst ` set kvs)"
  by (induction k v kvs rule: bt_insert.induct) auto

lemma bt_sorted_insert: "bt_sorted kvs \<Longrightarrow> bt_sorted (bt_insert k v kvs)"
  unfolding bt_sorted_def
proof (induction k v kvs rule: bt_insert.induct)
  case (2 k v k' v' kvs)
  then show ?case
    using keys_bt_insert [of k v kvs] by (auto simp del: keys_bt_insert)
qed simp

lemma bt_sorted_remove: "bt_sorted kvs \<Longrightarrow> bt_sorted (bt_remove k kvs)"
  by (induction kvs) (auto simp: bt_sorted_def bt_remove_def)

lemma bt_sorted_distinct: "bt_sorted kvs \<Longrightarrow> distinct (map fst kvs)"
  by (simp add: bt_sorted_def strict_sorted_iff)

lemma filter_fst_unique: "distinct (map fst kvs) \<Longrightarrow> (k, v) \<in> set kvs \<Longrightarrow> filter (\<lambda>(r, _). r = k) kvs = [(k, v)]"
proof (induction kvs)
  case (Cons kv kvs)
  have "filter (\<lambda>(r, _). r = k) kvs = []" if "k \<notin> fst ` set kvs" using that by (induction kvs) auto
  with Cons show ?case by (cases kv) (auto simp: image_iff)
qed simp

section \<open>Decimal printing\<close>

fun show_nat :: "nat \<Rightarrow> string" where
  "show_nat n =
     (if n < 10 then [char_of (48 + n)] else show_nat (n div 10) @ [char_of (48 + n mod 10)])"

declare show_nat.simps [simp del]

fun read_nat :: "string \<Rightarrow> nat" where
  "read_nat s = foldl (\<lambda>a c. a * 10 + (of_char c - 48)) 0 s"

lemma read_show_nat: "read_nat (show_nat n) = n"
proof (induction n rule: show_nat.induct)
  case (1 n)
  show ?case
  proof (cases "n < 10")
    case True
    then show ?thesis by (simp add: show_nat.simps [of n])
  next
    case False
    with 1 have "read_nat (show_nat (n div 10)) = n div 10" by simp
    with False show ?thesis by (simp add: show_nat.simps [of n])
  qed
qed

lemma show_nat_inject [simp]: "(show_nat a = show_nat b) = (a = b)"
  by (metis read_show_nat)

section \<open>Strings\<close>

text \<open>The UTF-8 encodings of the code points with the Unicode property \<open>White_Space\<close>.\<close>

definition white_space :: "string list" where
  "white_space =
     map (\<lambda>c. [char_of c]) [9, 10, 11, 12, 13, 32 :: nat]
     @ map (map char_of)
         ([[0xC2, 0x85], [0xC2, 0xA0], [0xE1, 0x9A, 0x80]]
          @ map (\<lambda>b. [0xE2, 0x80, b]) [0x80 ..< 0x8B]
          @ [[0xE2, 0x80, 0xA8], [0xE2, 0x80, 0xA9], [0xE2, 0x80, 0xAF], [0xE2, 0x81, 0x9F],
             [0xE3, 0x80, 0x80 :: nat]])"

definition strip_one :: "string list \<Rightarrow> string \<Rightarrow> string option" where
  "strip_one ws s =
     (case filter (\<lambda>w. w \<noteq> [] \<and> take (length w) s = w) ws of
        [] \<Rightarrow> None
      | w # _ \<Rightarrow> Some (drop (length w) s))"

lemma strip_one_shorter: "strip_one ws s = Some r \<Longrightarrow> length r < length s"
proof -
  assume "strip_one ws s = Some r"
  then obtain w rest where w: "filter (\<lambda>w. w \<noteq> [] \<and> take (length w) s = w) ws = w # rest"
    and r: "r = drop (length w) s"
    by (auto simp: strip_one_def split: list.splits)
  from w have "w \<noteq> []" "take (length w) s = w"
    by (auto dest: filter_eq_ConsD)
  then have "0 < length w" and "0 < length s" by auto
  with r show ?thesis by simp
qed

function trim_left :: "string list \<Rightarrow> string \<Rightarrow> string" where
  "trim_left ws s = (case strip_one ws s of None \<Rightarrow> s | Some r \<Rightarrow> trim_left ws r)"
  by pat_completeness auto
termination
  by (relation "measure (\<lambda>(ws, s). length s)") (auto dest: strip_one_shorter)

declare trim_left.simps [simp del]

definition trim_start :: "string \<Rightarrow> string" where
  "trim_start s = trim_left white_space s"

definition trim_end :: "string \<Rightarrow> string" where
  "trim_end s = rev (trim_left (map rev white_space) (rev s))"

definition trim :: "string \<Rightarrow> string" where
  "trim s = trim_end (trim_start s)"

definition blank :: "string \<Rightarrow> bool" where
  "blank s \<longleftrightarrow> trim s = []"

definition starts_with :: "string \<Rightarrow> string \<Rightarrow> bool" where
  "starts_with s p \<longleftrightarrow> take (length p) s = p"

fun contains :: "string \<Rightarrow> string \<Rightarrow> bool" where
  "contains [] p = (p = [])"
| "contains (c # s) p = (starts_with (c # s) p \<or> contains s p)"

lemma trim_left_suffix: "\<exists>p. s = p @ trim_left ws s"
proof (induction ws s rule: trim_left.induct)
  case (1 ws s)
  show ?case
  proof (cases "strip_one ws s")
    case None
    then show ?thesis by (simp add: trim_left.simps [of ws s])
  next
    case (Some r)
    then have "\<exists>n. r = drop n s"
      by (auto simp: strip_one_def split: list.splits)
    then obtain n where "r = drop n s" ..
    then have "s = take n s @ r" by simp
    moreover from 1 [OF Some] obtain p where "r = p @ trim_left ws r" by blast
    ultimately show ?thesis
      using Some by (metis append_assoc option.simps(5) trim_left.simps)
  qed
qed

lemma strip_one_trim_left: "strip_one ws (trim_left ws s) = None"
proof (induction ws s rule: trim_left.induct)
  case (1 ws s)
  then show ?case
    by (cases "strip_one ws s") (simp_all add: trim_left.simps [of ws s])
qed

lemma strip_one_None_prefix:
  assumes "strip_one ws (p @ q) = None"
  shows "strip_one ws p = None"
proof -
  have "\<not> (w \<noteq> [] \<and> take (length w) p = w)" if "w \<in> set ws" for w
  proof
    assume w: "w \<noteq> [] \<and> take (length w) p = w"
    then have "length w \<le> length p" by (metis length_take min.cobounded1 min_def)
    with w have "take (length w) (p @ q) = w" by simp
    with w that assms show False
      by (auto simp: strip_one_def filter_empty_conv split: list.splits)
  qed
  then show ?thesis by (simp add: strip_one_def)
qed

lemma trim_left_id: "strip_one ws s = None \<Longrightarrow> trim_left ws s = s"
  by (simp add: trim_left.simps)

lemma trim_idem [simp]: "trim (trim s) = trim s"
proof -
  let ?t = "trim_start s"
  obtain p where p: "rev ?t = p @ trim_left (map rev white_space) (rev ?t)"
    using trim_left_suffix by blast
  then have split: "?t = trim s @ rev p"
    by (metis rev_append rev_rev_ident trim_def trim_end_def)
  have "strip_one white_space ?t = None"
    unfolding trim_start_def by (rule strip_one_trim_left)
  then have "strip_one white_space (trim s) = None"
    using split strip_one_None_prefix by metis
  then have "trim_start (trim s) = trim s"
    unfolding trim_start_def by (rule trim_left_id)
  moreover have "strip_one (map rev white_space) (rev (trim s)) = None"
    by (simp add: trim_def trim_end_def strip_one_trim_left)
  ultimately show ?thesis
    by (simp add: trim_def [of "trim s"] trim_end_def trim_left_id)
qed

lemma trim_Nil [simp]: "trim [] = []"
  using trim_left_suffix [of "[]"] by (simp add: trim_def trim_start_def trim_end_def)

lemma blank_Nil [simp]: "blank []"
  by (simp add: blank_def)

end
