(* ===== verification/Json.thy ===== *)
theory Json
  imports Complex_Main Prelude
begin

text \<open>
  The JSON values the sources carry in every event payload and tool argument
  (\<open>serde_json::Value\<close>), with the accessors they are read through and the builder the
  \<open>json!\<close> literals use. An object is the list of its entries in the key order of the
  \<open>BTreeMap\<close> behind \<open>serde_json::Map\<close>, so that equality of values is equality of
  terms and iteration is in key order. A floating-point number of a JSON document is finite, hence
  rational.
\<close>

datatype jnum = PosInt u64 | NegInt i64 | Float rat

datatype json =
    JNull
  | JBool bool
  | JNum jnum
  | JStr string
  | JArr "json list"
  | JObj "(string \<times> json) list"

type_synonym entries = "(string \<times> json) list"

section \<open>Accessors\<close>

fun as_object :: "json \<Rightarrow> entries option" where
  "as_object (JObj kvs) = Some kvs"
| "as_object _ = None"

fun as_array :: "json \<Rightarrow> json list option" where
  "as_array (JArr xs) = Some xs"
| "as_array _ = None"

fun as_str :: "json \<Rightarrow> string option" where
  "as_str (JStr s) = Some s"
| "as_str _ = None"

fun as_bool :: "json \<Rightarrow> bool option" where
  "as_bool (JBool b) = Some b"
| "as_bool _ = None"

fun as_u64 :: "json \<Rightarrow> u64 option" where
  "as_u64 (JNum (PosInt n)) = Some n"
| "as_u64 _ = None"

fun as_i64 :: "json \<Rightarrow> i64 option" where
  "as_i64 (JNum (PosInt n)) = (if int n \<le> i64_max then Some (int n) else None)"
| "as_i64 (JNum (NegInt n)) = Some n"
| "as_i64 _ = None"

fun is_number :: "json \<Rightarrow> bool" where
  "is_number (JNum _) = True"
| "is_number _ = False"

definition is_object :: "json \<Rightarrow> bool" where
  "is_object v \<longleftrightarrow> as_object v \<noteq> None"

definition is_array :: "json \<Rightarrow> bool" where
  "is_array v \<longleftrightarrow> as_array v \<noteq> None"

definition is_string :: "json \<Rightarrow> bool" where
  "is_string v \<longleftrightarrow> as_str v \<noteq> None"

definition is_boolean :: "json \<Rightarrow> bool" where
  "is_boolean v \<longleftrightarrow> as_bool v \<noteq> None"

definition json_get :: "string \<Rightarrow> json \<Rightarrow> json option" where
  "json_get k v = Option.bind (as_object v) (\<lambda>kvs. map_of kvs k)"

definition get_str :: "string \<Rightarrow> json \<Rightarrow> string option" where
  "get_str k v = Option.bind (json_get k v) as_str"

definition get_u64 :: "string \<Rightarrow> json \<Rightarrow> u64 option" where
  "get_u64 k v = Option.bind (json_get k v) as_u64"

section \<open>Building objects\<close>

definition obj :: "entries \<Rightarrow> json" where
  "obj kvs = JObj (foldl (\<lambda>m (k, v). bt_insert k v m) [] kvs)"

abbreviation jnat :: "nat \<Rightarrow> json" where
  "jnat n \<equiv> JNum (PosInt n)"

text \<open>Every object a \<open>BTreeMap\<close> can hold has strictly increasing keys; \<^const>\<open>obj\<close>
  keeps that order, and reading back what was written works for any
  list of entries.\<close>

fun json_wf :: "json \<Rightarrow> bool" where
  "json_wf (JObj kvs) = (bt_sorted kvs \<and> list_all (\<lambda>(k, v). json_wf v) kvs)"
| "json_wf (JArr xs) = list_all json_wf xs"
| "json_wf (JNum (PosInt n)) = (n \<le> u64_max)"
| "json_wf (JNum (NegInt n)) = (i64_min \<le> n \<and> n < 0)"
| "json_wf _ = True"

lemma map_of_foldl_insert:
  "map_of (foldl (\<lambda>m (k, v). bt_insert k v m) m kvs) = map_of m ++ map_of (rev kvs)"
  by (induction kvs arbitrary: m) (auto simp: map_add_assoc [symmetric] fun_eq_iff map_add_def split: option.splits)

lemma json_get_obj: "json_get k (obj kvs) = map_of (rev kvs) k"
  by (simp add: json_get_def obj_def map_of_foldl_insert)

lemma map_of_rev_distinct: "distinct (map fst kvs) \<Longrightarrow> map_of (rev kvs) = map_of kvs"
proof (induction kvs)
  case (Cons kv kvs)
  then have "map_of (rev kvs) (fst kv) = None"
    by (simp add: map_of_eq_None_iff)
  with Cons show ?case
    by (auto simp: map_add_def fun_eq_iff split: option.splits)
qed simp

lemma json_get_obj_distinct [simp]:
  "distinct (map fst kvs) \<Longrightarrow> json_get k (obj kvs) = map_of kvs k"
  by (simp add: json_get_obj map_of_rev_distinct)

lemma bt_sorted_obj: "obj kvs = JObj m \<Longrightarrow> bt_sorted m"
proof -
  have "bt_sorted m \<Longrightarrow> bt_sorted (foldl (\<lambda>m (k, v). bt_insert k v m) m kvs)" for m
    by (induction kvs arbitrary: m) (auto intro: bt_sorted_insert)
  moreover have "bt_sorted []" by (simp add: bt_sorted_def)
  ultimately show "obj kvs = JObj m \<Longrightarrow> bt_sorted m"
    by (auto simp: obj_def)
qed

lemma as_str_Some [simp]: "(as_str v = Some s) = (v = JStr s)"
  by (cases v) auto

lemma as_object_Some [simp]: "(as_object v = Some kvs) = (v = JObj kvs)"
  by (cases v) auto

lemma as_array_Some [simp]: "(as_array v = Some xs) = (v = JArr xs)"
  by (cases v) auto

lemma as_bool_Some [simp]: "(as_bool v = Some b) = (v = JBool b)"
  by (cases v) auto

lemma as_u64_Some [simp]: "(as_u64 v = Some n) = (v = jnat n)"
  by (cases v rule: as_u64.cases) auto

end
