(* ===== verification/Protocol.thy ===== *)
theory Protocol
  imports Json
begin

text \<open>
  The wire vocabulary of \<open>src/src/protocol.rs\<close> and \<open>src/src/error.rs\<close>: the durable
  session header and event envelope, messages and their content blocks, model requests, and the
  validation every boundary applies to them. Identifiers are opaque strings. The serde decoders
  that \<open>derive(Deserialize)\<close> generates for \<open>Message\<close> and for the four workflow payloads are
  not written in the repository; they are the fields of the record \<open>codec\<close>, an argument of
  the definitions that use them.
\<close>

section \<open>Errors\<close>

record tessivum_error =
  e_code :: string
  e_message :: string
  e_phase :: string
  e_details :: json

definition tessivum_error_new :: "string \<Rightarrow> string \<Rightarrow> string \<Rightarrow> json \<Rightarrow> tessivum_error" where
  "tessivum_error_new c m p d = \<lparr>e_code = c, e_message = m, e_phase = p, e_details = d\<rparr>"

definition invalid :: "string \<Rightarrow> string \<Rightarrow> json \<Rightarrow> tessivum_error" where
  "invalid c m d = tessivum_error_new c m ''protocol'' d"

definition SESSION_FORMAT_VERSION :: u64 where
  "SESSION_FORMAT_VERSION = 0"

definition MAX_SAFE_INTEGER :: u64 where
  "MAX_SAFE_INTEGER = 9007199254740991"

section \<open>Shared field checks\<close>

definition check_safe_integer :: "string \<Rightarrow> u64 \<Rightarrow> tessivum_error + unit" where
  "check_safe_integer name v =
     (if v > MAX_SAFE_INTEGER
      then Inl (invalid ''NUMERIC_BOUND_EXCEEDED''
                  ''numeric protocol fields must fit a JavaScript safe integer''
                  (obj [(''field'', JStr name), (''value'', jnat v),
                        (''maximum'', jnat MAX_SAFE_INTEGER)]))
      else Inr ())"

definition validate_positive_optional :: "string \<Rightarrow> u64 option \<Rightarrow> tessivum_error + unit" where
  "validate_positive_optional name v =
     (case v of
        None \<Rightarrow> Inr ()
      | Some n \<Rightarrow>
          and_then (check_safe_integer name n) (\<lambda>_.
            if n = 0
            then Inl (invalid ''INVALID_POSITIVE_VALUE''
                        ''optional numeric protocol fields must be positive when present''
                        (obj [(''field'', JStr name), (''value'', jnat n)]))
            else Inr ()))"

datatype f64 = Finite rat | Infinite bool | NaN

definition validate_temperature :: "f64 option \<Rightarrow> tessivum_error + unit" where
  "validate_temperature t =
     (case t of
        None \<Rightarrow> Inr ()
      | Some (Finite _) \<Rightarrow> Inr ()
      | Some _ \<Rightarrow> Inl (invalid ''INVALID_TEMPERATURE'' ''temperature must be finite'' JNull))"

definition validate_route :: "string \<Rightarrow> string \<Rightarrow> tessivum_error + unit" where
  "validate_route provider model =
     (if blank provider \<or> blank model
      then Inl (invalid ''INVALID_LLM_ROUTE'' ''provider and model must be non-empty'' JNull)
      else Inr ())"

definition validate_nonempty :: "string \<Rightarrow> string \<Rightarrow> string \<Rightarrow> tessivum_error + unit" where
  "validate_nonempty code field v =
     (if blank v
      then Inl (invalid code ''required protocol fields must be non-empty''
                  (obj [(''field'', JStr field)]))
      else Inr ())"

definition validate_block_type :: "string \<Rightarrow> tessivum_error + unit" where
  "validate_block_type t =
     (if t \<in> set [''text'', ''reasoning'', ''image'', ''tool-call'', ''tool-result'']
      then Inr ()
      else Inl (invalid ''INVALID_STREAM_BLOCK_TYPE''
                  ''blockType must name a known content block type''
                  (obj [(''blockType'', JStr t)])))"

definition validate_stop :: "string list option \<Rightarrow> tessivum_error + unit" where
  "validate_stop stop =
     (case stop of
        None \<Rightarrow> Inr ()
      | Some ss \<Rightarrow>
          if ss = []
          then Inl (invalid ''INVALID_STOP_SEQUENCES''
                      ''empty stop sequences must be omitted'' JNull)
          else try_each (validate_nonempty ''INVALID_STOP_SEQUENCES'' ''stop'') ss)"

definition ascii_alphanumeric :: "char \<Rightarrow> bool" where
  "ascii_alphanumeric c \<longleftrightarrow>
     (let n = of_char c :: nat
      in 48 \<le> n \<and> n \<le> 57 \<or> 65 \<le> n \<and> n \<le> 90 \<or> 97 \<le> n \<and> n \<le> 122)"

definition validate_client_time_zone :: "string \<Rightarrow> tessivum_error + unit" where
  "validate_client_time_zone v =
     (if v = ''UTC'' then Inr ()
      else if v \<noteq> [] \<and> length v \<le> 64 \<and> trim v = v \<and> contains v ''/'' \<and> \<not> contains v ''..''
        \<and> list_all (\<lambda>c. ascii_alphanumeric c \<or> c \<in> set ''_+.-/'') v
      then Inr ()
      else Inl (tessivum_error_new ''INVALID_CLIENT_TIME_ZONE''
                  ''clientTimeZone must be UTC or a valid IANA Area/Location name''
                  ''protocol'' JNull))"

section \<open>Session headers\<close>

datatype session_origin = Subagent

record session_header =
  hd_version :: u64
  hd_id :: string
  hd_created_at :: u64
  hd_cwd :: "string option"
  hd_parent_session :: "string option"
  hd_seed_length :: "u64 option"
  hd_origin :: "session_origin option"
  hd_delegation_depth :: "u64 option"
  hd_agent_mode :: "string option"

definition header_validate :: "session_header \<Rightarrow> tessivum_error + unit" where
  "header_validate h =
     (if hd_version h \<noteq> SESSION_FORMAT_VERSION
      then Inl (invalid ''UNSUPPORTED_SESSION_FORMAT''
                  ''session header version is not supported''
                  (obj [(''version'', jnat (hd_version h)),
                        (''supportedVersion'', jnat SESSION_FORMAT_VERSION)]))
      else
        and_then (check_safe_integer ''createdAt'' (hd_created_at h)) (\<lambda>_.
        and_then (case hd_seed_length h of None \<Rightarrow> Inr ()
                  | Some n \<Rightarrow> check_safe_integer ''seedLength'' n) (\<lambda>_.
        case hd_delegation_depth h of None \<Rightarrow> Inr ()
        | Some n \<Rightarrow> check_safe_integer ''delegationDepth'' n)))"

text \<open>The persisted form of a header may still name a legacy preset. \<open>debug\<close> is the standard
  library's \<open>{:?}\<close> rendering of a string and \<open>data_root\<close> the displayed data data_root.\<close>

record session_header_wire =
  session_header +
  hd_agent_preset :: "string option"

definition legacy_mode_path :: "string \<Rightarrow> string \<Rightarrow> string" where
  "legacy_mode_path data_root preset = data_root @ ''/modes/'' @ preset @ ''/mode.toml''"

definition migrate_legacy_agent_preset ::
  "(string \<Rightarrow> string) \<Rightarrow> string \<Rightarrow> string \<Rightarrow> tessivum_error + string" where
  "migrate_legacy_agent_preset debug data_root preset =
     (if preset = ''standard'' then Inr ''standard''
      else if preset = ''code'' then Inr ''ptc''
      else if preset = ''minimal'' then Inr ''minimal''
      else if preset = ''cordis'' then Inr ''composition''
      else Inl (tessivum_error_new ''MODE_MIGRATION_REQUIRED''
             (''legacy agent preset '' @ debug preset @ '' must migrate to ''
               @ legacy_mode_path data_root preset)
             ''persistence''
             (obj [(''legacyPreset'', JStr preset),
                   (''expectedModePath'', JStr (legacy_mode_path data_root preset))])))"

definition header_from_wire ::
  "(string \<Rightarrow> string) \<Rightarrow> string \<Rightarrow> session_header_wire \<Rightarrow> tessivum_error + session_header" where
  "header_from_wire debug data_root w =
     (if hd_agent_mode w \<noteq> None \<and> hd_agent_preset w \<noteq> None
      then Inl (invalid ''SESSION_HEADER_MODE_CONFLICT''
                  ''session header cannot contain both agentMode and agentPreset''
                  (obj [(''fields'', JArr [JStr ''agentMode'', JStr ''agentPreset''])]))
      else
        and_then
          (case hd_agent_mode w of
             Some m \<Rightarrow> Inr (Some m)
           | None \<Rightarrow>
               (case hd_agent_preset w of
                  None \<Rightarrow> Inr None
                | Some p \<Rightarrow> and_then (migrate_legacy_agent_preset debug data_root p) (\<lambda>m. Inr (Some m))))
          (\<lambda>m. Inr (session_header.truncate w\<lparr>hd_agent_mode := m\<rparr>)))"

record session_model_selection =
  sel_provider :: string
  sel_model :: string
  sel_reasoning_effort :: "string option"

definition model_selection_validate :: "session_model_selection \<Rightarrow> tessivum_error + unit" where
  "model_selection_validate s =
     (if blank (sel_provider s) \<or> blank (sel_model s)
      then Inl (invalid ''INVALID_MODEL_SELECTION'' ''provider and model must not be blank'' JNull)
      else if (case sel_reasoning_effort s of None \<Rightarrow> False | Some v \<Rightarrow> blank v)
      then Inl (invalid ''INVALID_MODEL_SELECTION''
                  ''reasoningEffort must not be blank when present'' JNull)
      else Inr ())"

section \<open>Messages\<close>

record llm_failure =
  lf_message :: string
  lf_code :: string
  lf_status :: "nat option"
  lf_provider_retry_after_ms :: "u64 option"
  lf_request_id :: "string option"

definition llm_failure_validate :: "llm_failure \<Rightarrow> tessivum_error + unit" where
  "llm_failure_validate f =
     (if blank (lf_message f) \<or> blank (lf_code f)
      then Inl (invalid ''INVALID_LLM_FAILURE''
                  ''LLM failure message and code must be non-empty'' JNull)
      else
        and_then
          (case lf_status f of
             None \<Rightarrow> Inr ()
           | Some st \<Rightarrow>
               if \<not> (100 \<le> st \<and> st \<le> 599)
               then Inl (invalid ''INVALID_LLM_FAILURE_STATUS''
                           ''LLM failure status must be an HTTP status code''
                           (obj [(''status'', jnat st)]))
               else Inr ()) (\<lambda>_.
        and_then (validate_positive_optional ''providerRetryAfterMs''
                    (lf_provider_retry_after_ms f)) (\<lambda>_.
        case lf_request_id f of
          None \<Rightarrow> Inr ()
        | Some r \<Rightarrow> validate_nonempty ''INVALID_LLM_REQUEST_ID'' ''requestId'' r)))"

datatype content_block =
    Text string
  | Reasoning string
  | Image json
  | ToolCall (tc_id: string) (tc_name: string) (tc_arguments: string)
  | ToolResult string "content_block list" "bool option"

fun content_block_validate :: "content_block \<Rightarrow> tessivum_error + unit" where
  "content_block_validate (ToolResult tool_call_id content is_error) =
     and_then (validate_nonempty ''INVALID_TOOL_CALL_ID'' ''tool-result toolCallId'' tool_call_id)
       (\<lambda>_. try_each content_block_validate content)"
| "content_block_validate _ = Inr ()"

fun type_tag :: "content_block \<Rightarrow> string" where
  "type_tag (Text _) = ''text''"
| "type_tag (Reasoning _) = ''reasoning''"
| "type_tag (Image _) = ''image''"
| "type_tag (ToolCall _ _ _) = ''tool-call''"
| "type_tag (ToolResult _ _ _) = ''tool-result''"

record context_snapshot_section =
  sec_name :: string
  sec_text :: string

datatype context_form = Instructions | Catalog | Snapshot | Notice | Relay | Recall

datatype message_source =
    SrcGoal string u64 u64
  | SrcUser "string option"
  | SrcPlugin string "string option" "context_form option"
      "context_snapshot_section list option" "string option"
  | SrcSkillInvocation string context_form
  | SrcModel string string "json option"
  | SrcTool string

fun message_source_validate :: "message_source \<Rightarrow> tessivum_error + unit" where
  "message_source_validate (SrcPlugin plugin compaction_id form sections summary) =
     and_then (validate_nonempty ''INVALID_MESSAGE_SOURCE'' ''plugin'' plugin) (\<lambda>_.
     and_then (case compaction_id of None \<Rightarrow> Inr ()
               | Some c \<Rightarrow> validate_nonempty ''INVALID_MESSAGE_SOURCE'' ''compactionId'' c) (\<lambda>_.
     if form = Some Snapshot \<and> sections = None
     then Inl (invalid ''INVALID_MESSAGE_SOURCE''
                 ''snapshot plugin sources require sections'' JNull)
     else if form = Some Notice \<and> summary = None
     then Inl (invalid ''INVALID_MESSAGE_SOURCE''
                 ''notice plugin sources require a summary'' JNull)
     else Inr ()))"
| "message_source_validate (SrcSkillInvocation name form) =
     and_then (validate_nonempty ''INVALID_MESSAGE_SOURCE'' ''name'' name) (\<lambda>_.
     if form \<noteq> Instructions
     then Inl (invalid ''INVALID_MESSAGE_SOURCE''
                 ''skill invocation sources require instructions form'' JNull)
     else Inr ())"
| "message_source_validate (SrcModel provider model replay_state) = validate_route provider model"
| "message_source_validate (SrcTool call_id) =
     validate_nonempty ''INVALID_TOOL_CALL_ID'' ''callId'' call_id"
| "message_source_validate (SrcUser client_time_zone) =
     (case client_time_zone of None \<Rightarrow> Inr () | Some v \<Rightarrow> validate_client_time_zone v)"
| "message_source_validate (SrcGoal goal_id revision goal_round) =
     and_then (validate_nonempty ''INVALID_GOAL_SOURCE'' ''goalId'' goal_id) (\<lambda>_.
     if revision = 0 \<or> goal_round = 0
     then Inl (tessivum_error_new ''INVALID_GOAL_SOURCE''
                 ''goal message source revision and round must be positive'' ''protocol'' JNull)
     else Inr ())"

datatype message_role = System | User | Assistant

record message =
  msg_id :: string
  msg_role :: message_role
  msg_content :: "content_block list"
  msg_source :: message_source

definition message_validate :: "message \<Rightarrow> tessivum_error + unit" where
  "message_validate m =
     and_then (message_source_validate (msg_source m))
       (\<lambda>_. try_each content_block_validate (msg_content m))"

section \<open>Model calls\<close>

record token_usage =
  tu_input_tokens :: u64
  tu_output_tokens :: u64
  tu_cache_read_tokens :: "u64 option"
  tu_cache_write_tokens :: "u64 option"
  tu_reasoning_tokens :: "u64 option"

definition token_usage_validate :: "token_usage \<Rightarrow> tessivum_error + unit" where
  "token_usage_validate u =
     and_then
       (try_each (\<lambda>(name, v). check_safe_integer name v)
          [(''inputTokens'', tu_input_tokens u), (''outputTokens'', tu_output_tokens u)]) (\<lambda>_.
       try_each
         (\<lambda>(name, v). case v of None \<Rightarrow> Inr () | Some n \<Rightarrow> check_safe_integer name n)
         [(''cacheReadTokens'', tu_cache_read_tokens u),
          (''cacheWriteTokens'', tu_cache_write_tokens u),
          (''reasoningTokens'', tu_reasoning_tokens u)])"

datatype finish_reason =
    FinishStop | FinishToolCalls | FinishMaxTokens
  | FinishAborted llm_failure | FinishError llm_failure

fun finish_reason_validate :: "finish_reason \<Rightarrow> tessivum_error + unit" where
  "finish_reason_validate (FinishAborted f) = llm_failure_validate f"
| "finish_reason_validate (FinishError f) = llm_failure_validate f"
| "finish_reason_validate _ = Inr ()"

datatype stream_chunk =
    BlockStart u64 string
  | TextDelta u64 string
  | ReasoningDelta u64 string
  | ToolCallDelta u64 string "string option" string
  | BlockEnd u64 content_block
  | Usage token_usage
  | Finish finish_reason "json option"

fun stream_chunk_validate :: "stream_chunk \<Rightarrow> tessivum_error + unit" where
  "stream_chunk_validate (BlockStart index block_type) =
     and_then (check_safe_integer ''index'' index) (\<lambda>_. validate_block_type block_type)"
| "stream_chunk_validate (TextDelta index text) = check_safe_integer ''index'' index"
| "stream_chunk_validate (ReasoningDelta index text) = check_safe_integer ''index'' index"
| "stream_chunk_validate (ToolCallDelta index call name delta) = check_safe_integer ''index'' index"
| "stream_chunk_validate (BlockEnd index block) =
     and_then (check_safe_integer ''index'' index) (\<lambda>_. content_block_validate block)"
| "stream_chunk_validate (Usage usage) = token_usage_validate usage"
| "stream_chunk_validate (Finish reason replay_state) = finish_reason_validate reason"

record tool_schema =
  ts_name :: string
  ts_description :: string
  ts_parameters :: json

definition tool_schema_validate :: "tool_schema \<Rightarrow> tessivum_error + unit" where
  "tool_schema_validate t =
     and_then (validate_nonempty ''INVALID_TOOL_SCHEMA'' ''tool schema name'' (ts_name t)) (\<lambda>_.
     if \<not> is_object (ts_parameters t)
     then Inl (invalid ''INVALID_TOOL_SCHEMA'' ''tool schema parameters must be a JSON object''
                 (obj [(''field'', JStr ''parameters'')]))
     else Inr ())"

fun validate_tools_from :: "string list \<Rightarrow> tool_schema list \<Rightarrow> tessivum_error + unit" where
  "validate_tools_from prior [] = Inr ()"
| "validate_tools_from prior (t # ts) =
     and_then (tool_schema_validate t) (\<lambda>_.
     if ts_name t \<in> set prior
     then Inl (invalid ''DUPLICATE_TOOL_SCHEMA''
                 ''tool schema names must be unique within a request snapshot''
                 (obj [(''name'', JStr (ts_name t))]))
     else validate_tools_from (prior @ [ts_name t]) ts)"

definition validate_tools :: "tool_schema list \<Rightarrow> tessivum_error + unit" where
  "validate_tools ts = validate_tools_from [] ts"

record llm_call_config =
  cfg_provider :: string
  cfg_model :: string
  cfg_reasoning_effort :: "string option"
  cfg_temperature :: "f64 option"
  cfg_max_tokens :: "u64 option"
  cfg_stop :: "string list option"

definition call_config_validate :: "llm_call_config \<Rightarrow> tessivum_error + unit" where
  "call_config_validate c =
     and_then (validate_route (cfg_provider c) (cfg_model c)) (\<lambda>_.
     and_then (case cfg_reasoning_effort c of None \<Rightarrow> Inr ()
               | Some r \<Rightarrow> validate_nonempty ''INVALID_REASONING_EFFORT'' ''reasoningEffort'' r) (\<lambda>_.
     and_then (validate_temperature (cfg_temperature c)) (\<lambda>_.
     and_then (validate_positive_optional ''maxTokens'' (cfg_max_tokens c)) (\<lambda>_.
     validate_stop (cfg_stop c)))))"

record adapter_defaults =
  ad_reasoning_effort :: "bool option"
  ad_max_tokens :: "bool option"

definition adapter_defaults_validate :: "adapter_defaults \<Rightarrow> tessivum_error + unit" where
  "adapter_defaults_validate d =
     (if ad_reasoning_effort d = Some False \<or> ad_max_tokens d = Some False
      then Inl (invalid ''INVALID_ADAPTER_DEFAULTS''
                  ''adapter default markers must be true when present'' JNull)
      else if ad_reasoning_effort d = None \<and> ad_max_tokens d = None
      then Inl (invalid ''INVALID_ADAPTER_DEFAULTS''
                  ''empty adapter default markers must be omitted'' JNull)
      else Inr ())"

datatype generate_purpose = Compaction | SessionTitle

record generate_request =
  gr_provider :: string
  gr_model :: string
  gr_reasoning_effort :: "string option"
  gr_messages :: "message list"
  gr_system :: "string option"
  gr_tools :: "tool_schema list option"
  gr_temperature :: "f64 option"
  gr_max_tokens :: "u64 option"
  gr_stop :: "string list option"
  gr_session_id :: "string option"
  gr_purpose :: "generate_purpose option"

definition generate_request_validate :: "generate_request \<Rightarrow> tessivum_error + unit" where
  "generate_request_validate g =
     and_then (validate_route (gr_provider g) (gr_model g)) (\<lambda>_.
     and_then (case gr_reasoning_effort g of None \<Rightarrow> Inr ()
               | Some r \<Rightarrow> validate_nonempty ''INVALID_REASONING_EFFORT'' ''reasoningEffort'' r) (\<lambda>_.
     and_then (validate_temperature (gr_temperature g)) (\<lambda>_.
     and_then (validate_positive_optional ''maxTokens'' (gr_max_tokens g)) (\<lambda>_.
     and_then (validate_stop (gr_stop g)) (\<lambda>_.
     and_then (try_each message_validate (gr_messages g)) (\<lambda>_.
     case gr_tools g of None \<Rightarrow> Inr () | Some ts \<Rightarrow> validate_tools ts))))))"

record epoch_header =
  eh_config :: llm_call_config
  eh_adapter_defaults :: "adapter_defaults option"
  eh_system :: "string option"
  eh_tools :: "tool_schema list option"

definition epoch_header_validate :: "epoch_header \<Rightarrow> tessivum_error + unit" where
  "epoch_header_validate h =
     and_then (call_config_validate (eh_config h)) (\<lambda>_.
     and_then (case eh_adapter_defaults h of None \<Rightarrow> Inr ()
               | Some d \<Rightarrow> adapter_defaults_validate d) (\<lambda>_.
     and_then (case eh_system h of None \<Rightarrow> Inr ()
               | Some s \<Rightarrow> validate_nonempty ''INVALID_EPOCH_HEADER'' ''system'' s) (\<lambda>_.
     case eh_tools h of
       None \<Rightarrow> Inr ()
     | Some ts \<Rightarrow>
         if ts = []
         then Inl (invalid ''INVALID_EPOCH_HEADER'' ''empty tool snapshots must be omitted'' JNull)
         else validate_tools ts)))"

end
