(* ===== verification/Events.thy ===== *)
theory Events
  imports Protocol
begin

text \<open>
  The second half of \<open>src/src/protocol.rs\<close>: the append-only event envelope
  \<open>SessionEvent\<close>, the surface operation it may carry, the workflow payloads that are checked
  inside the envelope validation, and the smaller request and notification records.
\<close>

section \<open>Turn endings\<close>

datatype agent_cancel_cause = CancelUser | CancelParent | CancelHook string | CancelDisposed

datatype turn_end_cancel_cause =
  EndUser | EndParent | EndHook string | EndDisposed | EndLegacy

fun turn_end_cause_of :: "agent_cancel_cause \<Rightarrow> turn_end_cancel_cause" where
  "turn_end_cause_of CancelUser = EndUser"
| "turn_end_cause_of CancelParent = EndParent"
| "turn_end_cause_of (CancelHook reason) = EndHook reason"
| "turn_end_cause_of CancelDisposed = EndDisposed"

datatype turn_end_reason =
    TurnCompleted | TurnAborted turn_end_cancel_cause | TurnBlocked | TurnError llm_failure
  | TurnMaxTokens | TurnInterrupted

fun turn_end_reason_validate :: "turn_end_reason \<Rightarrow> tessivum_error + unit" where
  "turn_end_reason_validate (TurnError e) = llm_failure_validate e"
| "turn_end_reason_validate _ = Inr ()"

section \<open>Surface operations\<close>

datatype surface_op = SurfaceAppend | SurfaceReplace u64 u64

fun surface_op_validate :: "surface_op \<Rightarrow> tessivum_error + unit" where
  "surface_op_validate SurfaceAppend = Inr ()"
| "surface_op_validate (SurfaceReplace start stop) =
     and_then (check_safe_integer ''surfaceOp.start'' start) (\<lambda>_.
     and_then (check_safe_integer ''surfaceOp.end'' stop) (\<lambda>_.
     if start > stop
     then Inl (invalid ''INVALID_SURFACE_RANGE'' ''surface replacement start must not exceed end''
                 (obj [(''start'', jnat start), (''end'', jnat stop)]))
     else Inr ()))"

fun surface_op_to_json :: "surface_op \<Rightarrow> json" where
  "surface_op_to_json SurfaceAppend = JStr ''append''"
| "surface_op_to_json (SurfaceReplace start stop) =
     obj [(''op'', JStr ''replace''), (''start'', jnat start), (''end'', jnat stop)]"

datatype surface_op_wire = WireAppend string | WireReplace string u64 u64

fun surface_op_from_wire :: "surface_op_wire \<Rightarrow> surface_op option" where
  "surface_op_from_wire (WireAppend op) = (if op = ''append'' then Some SurfaceAppend else None)"
| "surface_op_from_wire (WireReplace op start stop) =
     (if op = ''replace'' then Some (SurfaceReplace start stop) else None)"

section \<open>Workflow payloads\<close>

datatype workflow_agent_outcome = AgentCompleted | AgentFailed | AgentCancelled
datatype workflow_stop_reason = StopCompleted | StopCancelled | StopError

record workflow_run_start = rs_run_id :: string rs_name :: string

record workflow_agent_start =
  as_run_id :: string
  as_seq :: u64
  as_label :: string
  as_phase :: "string option"
  as_child_id :: string

record workflow_agent_end =
  ae_run_id :: string
  ae_seq :: u64
  ae_outcome :: workflow_agent_outcome

record workflow_run_end = re_run_id :: string re_stop_reason :: workflow_stop_reason

text \<open>The decoders and the encoder that serde derives. The left summand of a workflow decoder is
  the text of the serde error.\<close>

record codec =
  cd_message_from :: "json \<Rightarrow> message option"
  cd_message_to :: "message \<Rightarrow> json"
  cd_run_start :: "json \<Rightarrow> string + workflow_run_start"
  cd_agent_start :: "json \<Rightarrow> string + workflow_agent_start"
  cd_agent_end :: "json \<Rightarrow> string + workflow_agent_end"
  cd_run_end :: "json \<Rightarrow> string + workflow_run_end"

definition workflow_event_data ::
  "(json \<Rightarrow> string + 'a) \<Rightarrow> string \<Rightarrow> json \<Rightarrow> tessivum_error + 'a" where
  "workflow_event_data decode event_type data =
     map_err (\<lambda>err. invalid ''INVALID_TOOL_WORKFLOW_EVENT''
                ''tool-workflow event data does not match its canonical schema''
                (obj [(''type'', JStr event_type), (''error'', JStr err)]))
       (decode data)"

definition workflow_nonempty :: "string \<Rightarrow> string \<Rightarrow> tessivum_error + unit" where
  "workflow_nonempty field v =
     (if v = []
      then Inl (invalid ''INVALID_TOOL_WORKFLOW_EVENT''
                  ''tool-workflow identity fields must not be empty'' (obj [(''field'', JStr field)]))
      else Inr ())"

definition workflow_seq_positive :: "string \<Rightarrow> u64 \<Rightarrow> tessivum_error + unit" where
  "workflow_seq_positive event_type n =
     (if n = 0
      then Inl (invalid ''INVALID_TOOL_WORKFLOW_EVENT''
                  ''tool-workflow agent sequence must be positive''
                  (obj [(''type'', JStr event_type), (''seq'', jnat n)]))
      else Inr ())"

definition validate_tool_workflow_event :: "codec \<Rightarrow> string \<Rightarrow> json \<Rightarrow> tessivum_error + unit" where
  "validate_tool_workflow_event cdc event_type data =
     (if event_type = ''tool-workflow/run-start'' then
        and_then (workflow_event_data (cd_run_start cdc) event_type data) (\<lambda>d.
        and_then (workflow_nonempty ''runId'' (rs_run_id d)) (\<lambda>_.
        workflow_nonempty ''name'' (rs_name d)))
      else if event_type = ''tool-workflow/agent-start'' then
        if json_get ''phase'' data = Some JNull
        then Inl (invalid ''INVALID_TOOL_WORKFLOW_EVENT''
                    ''tool-workflow agent phase must be omitted or a string''
                    (obj [(''type'', JStr event_type)]))
        else
          and_then (workflow_event_data (cd_agent_start cdc) event_type data) (\<lambda>d.
          and_then (workflow_nonempty ''runId'' (as_run_id d)) (\<lambda>_.
          and_then (check_safe_integer ''tool-workflow.agent-start.seq'' (as_seq d)) (\<lambda>_.
          and_then (workflow_seq_positive event_type (as_seq d)) (\<lambda>_.
          workflow_nonempty ''childId'' (as_child_id d)))))
      else if event_type = ''tool-workflow/agent-end'' then
        and_then (workflow_event_data (cd_agent_end cdc) event_type data) (\<lambda>d.
        and_then (workflow_nonempty ''runId'' (ae_run_id d)) (\<lambda>_.
        and_then (check_safe_integer ''tool-workflow.agent-end.seq'' (ae_seq d)) (\<lambda>_.
        workflow_seq_positive event_type (ae_seq d))))
      else if event_type = ''tool-workflow/run-end'' then
        and_then (workflow_event_data (cd_run_end cdc) event_type data) (\<lambda>d.
        workflow_nonempty ''runId'' (re_run_id d))
      else Inr ())"

section \<open>The event envelope\<close>

record session_event =
  ev_type :: string
  ev_seq :: u64
  ev_time :: u64
  ev_data :: json
  ev_ignorable :: "bool option"
  ev_sources :: "u64 list option"
  ev_surface_op :: "surface_op option"

definition known_event_types :: "string list" where
  "known_event_types =
     [''turn/start'', ''turn/end'', ''step/start'', ''step/end'', ''user/message'',
      ''assistant/chunk'', ''assistant/message'', ''agent/inbox/enqueued'',
      ''agent/inbox/spliced'', ''tool/call'', ''tool/result'', ''tool/code-dispatch-start'',
      ''tool/code-dispatch'', ''todo/write'', ''cordis/dynamic'', ''schedule/change'',
      ''goal/change'', ''plan/change'', ''plan/mode'', ''command/run'', ''command/done'',
      ''feedback/record'', ''permission/preset'', ''sandbox/mode'', ''approval/policy'',
      ''agent-mode/selected'', ''approval/asked'', ''approval/decided'', ''question/asked'',
      ''question/resolved'', ''job/done'', ''subagent/contained-start'',
      ''subagent/contained-end'', ''subagent/descriptor'', ''tool-workflow/run-start'',
      ''tool-workflow/agent-start'', ''tool-workflow/agent-end'', ''tool-workflow/run-end'',
      ''request/header'', ''request/context'', ''llm/retry'', ''llm/retry-started'',
      ''session/model-selected'', ''session/title'', ''web/deepseek-search-llm-request'',
      ''session/end-seed'']"

definition is_known_event_type :: "string \<Rightarrow> bool" where
  "is_known_event_type t \<longleftrightarrow> t \<in> set known_event_types"

definition is_surface_event_type :: "string \<Rightarrow> bool" where
  "is_surface_event_type t \<longleftrightarrow>
     t = ''user/message'' \<or> t = ''assistant/message'' \<or> t = ''tool/result''"

definition check_source_seq :: "u64 \<Rightarrow> u64 \<Rightarrow> tessivum_error + unit" where
  "check_source_seq seq source_seq =
     and_then (check_safe_integer ''sourceEventSeqs'' source_seq) (\<lambda>_.
     if source_seq \<ge> seq
     then Inl (invalid ''INVALID_SOURCE_EVENT_SEQS'' ''sourceEventSeqs must cite earlier events''
                 (obj [(''seq'', jnat seq), (''sourceEventSeq'', jnat source_seq)]))
     else Inr ())"

definition validate_surface_metadata :: "session_event \<Rightarrow> tessivum_error + unit" where
  "validate_surface_metadata e =
     (case ev_surface_op e of
        None \<Rightarrow> Inl (invalid ''MISSING_SURFACE_OPERATION''
                     ''surface events must declare surfaceOp'' (obj [(''type'', JStr (ev_type e))]))
      | Some op \<Rightarrow>
          and_then (surface_op_validate op) (\<lambda>_.
          and_then
            (case ev_sources e of
               None \<Rightarrow> Inr ()
             | Some ss \<Rightarrow>
                 if ev_type e \<noteq> ''assistant/message'' \<and> ss = []
                 then Inl (invalid ''INVALID_SOURCE_EVENT_SEQS''
                             ''only assistant/message may cite an empty sourceEventSeqs list''
                             (obj [(''type'', JStr (ev_type e))]))
                 else try_each (check_source_seq (ev_seq e)) ss) (\<lambda>_.
          if op \<noteq> SurfaceAppend \<and> (ev_sources e = None \<or> ev_sources e = Some [])
          then Inl (invalid ''INVALID_SURFACE_REPLACEMENT''
                      ''surface replacements must cite shadowed source events'' JNull)
          else Inr ())))"

definition event_validate :: "codec \<Rightarrow> session_event \<Rightarrow> tessivum_error + unit" where
  "event_validate cdc e =
     and_then (check_safe_integer ''seq'' (ev_seq e)) (\<lambda>_.
     and_then (check_safe_integer ''time'' (ev_time e)) (\<lambda>_.
     if ev_ignorable e = Some False
     then Inl (invalid ''INVALID_IGNORABLE_EVENT'' ''ignorable must be true when present'' JNull)
     else if \<not> is_known_event_type (ev_type e) \<and> ev_ignorable e \<noteq> Some True
     then Inl (invalid ''UNKNOWN_REQUIRED_EVENT'' ''unknown session events must be marked ignorable''
                 (obj [(''type'', JStr (ev_type e))]))
     else
       and_then (validate_tool_workflow_event cdc (ev_type e) (ev_data e)) (\<lambda>_.
       if is_surface_event_type (ev_type e) then validate_surface_metadata e
       else if ev_surface_op e \<noteq> None \<or> ev_sources e \<noteq> None
       then Inl (invalid ''INVALID_SURFACE_METADATA''
                   ''surface metadata is only valid on user/message, assistant/message, and tool/result''
                   (obj [(''type'', JStr (ev_type e))]))
       else Inr ())))"

definition migrate_legacy_agent_preset_selection ::
  "(string \<Rightarrow> string) \<Rightarrow> string \<Rightarrow> string \<times> json \<Rightarrow> tessivum_error + string \<times> json" where
  "migrate_legacy_agent_preset_selection debug data_root ev =
     (case ev of (event_type, data) \<Rightarrow>
        if event_type \<noteq> ''agent-preset/selected'' then Inr (event_type, data)
        else
          and_then
            (ok_or (invalid ''INVALID_LEGACY_AGENT_PRESET_EVENT''
                      ''legacy agent preset selection must contain agentPreset'' JNull)
               (get_str ''agentPreset'' data)) (\<lambda>preset.
          and_then (migrate_legacy_agent_preset debug data_root preset) (\<lambda>mode.
          Inr (''agent-mode/selected'', obj [(''agentMode'', JStr mode)]))))"

section \<open>Smaller records\<close>

datatype todo_status = Pending | InProgress | Completed

record todo_item =
  td_content :: string
  td_status :: todo_status

definition todo_item_validate :: "todo_item \<Rightarrow> tessivum_error + unit" where
  "todo_item_validate t =
     (if td_content t = []
      then Inl (invalid ''INVALID_TODO_ITEM'' ''todo content must be non-empty'' JNull)
      else Inr ())"

record request_context =
  rc_provider :: string
  rc_model :: string
  rc_context_window :: "u64 option"

definition request_context_validate :: "request_context \<Rightarrow> tessivum_error + unit" where
  "request_context_validate r =
     and_then (validate_route (rc_provider r) (rc_model r))
       (\<lambda>_. validate_positive_optional ''contextWindow'' (rc_context_window r))"

record session_prompt_params =
  sp_session_id :: string
  sp_content_blocks :: "content_block list"
  sp_client_time_zone :: "string option"

definition session_prompt_params_validate :: "session_prompt_params \<Rightarrow> tessivum_error + unit" where
  "session_prompt_params_validate p =
     and_then (try_each content_block_validate (sp_content_blocks p))
       (\<lambda>_. case sp_client_time_zone p of None \<Rightarrow> Inr () | Some v \<Rightarrow> validate_client_time_zone v)"

section \<open>What a valid envelope guarantees\<close>

lemma check_safe_integer_Inr [simp, result_simps]:
  "(check_safe_integer name v = Inr u) = (v \<le> MAX_SAFE_INTEGER)"
  by (auto simp: check_safe_integer_def)

lemma validate_nonempty_Inr [simp, result_simps]:
  "(validate_nonempty code field v = Inr u) = (\<not> blank v)"
  by (simp add: validate_nonempty_def)

lemma check_source_seq_Inr [simp, result_simps]:
  "(check_source_seq seq s = Inr u) = (s \<le> MAX_SAFE_INTEGER \<and> s < seq)"
  by (auto simp: check_source_seq_def)

lemma event_validate_seq: "event_validate cdc e = Inr u \<Longrightarrow> ev_seq e \<le> MAX_SAFE_INTEGER"
  by (simp add: event_validate_def)

lemma event_validate_surface_op:
  assumes "event_validate cdc e = Inr u" and "is_surface_event_type (ev_type e)"
  shows "\<exists>op. ev_surface_op e = Some op"
  using assms
  by (auto simp: event_validate_def validate_surface_metadata_def split: if_splits option.splits)

lemma event_validate_sources:
  assumes "event_validate cdc e = Inr u" and "ev_sources e = Some ss" and "s \<in> set ss"
  shows "s < ev_seq e"
proof (cases "is_surface_event_type (ev_type e)")
  case True
  with assms show ?thesis
    by (auto simp: event_validate_def validate_surface_metadata_def split: if_splits option.splits)
next
  case False
  with assms show ?thesis by (auto simp: event_validate_def split: if_splits)
qed

end
