(* ===== verification/Session_Base.thy ===== *)
theory Session_Base
  imports Events
begin

text \<open>
  The vocabulary of \<open>src/src/session.rs\<close> that every part of the session component shares: its
  error type with the stable diagnostic codes, cancellation, the next admissible sequence number,
  and the decoding of a message-producing event into an entry of the model-visible surface.

  A cancellation token is polled; it fires at some moment of its own choosing and never
  un-fires. \<open>cancel\<close> is the number of polls that still succeed (\<open>None\<close>: it never fires), so
  a theorem that holds for every \<open>cancel\<close> holds for every timing of the cancellation.
\<close>

section \<open>Errors\<close>

datatype session_error =
    Protocol tessivum_error
  | Cancelled
  | NotFound string
  | DuplicateLive string
  | AlreadyExists string
  | SequenceGap u64 u64
  | SequenceExhausted
  | HeaderIdMismatch
  | EmptySessionId
  | InvalidSeedLength u64 u64
  | InvalidSeedBoundary
  | DuplicateSeedBoundary
  | StaleSurface "u64 list" "u64 list"
  | SurfaceRange u64 u64 u64
  | MissingSourceEvent u64
  | InvalidSurfaceMessage
  | InvalidSurfaceRole
  | InvalidTurnId
  | InvalidTurnLifecycle
  | OrphanTurn
  | SeedRequiresEvents
  | InvalidInboxEvent string
  | InboxMutationOutOfOrder string
  | RawArtifactsUnsupported
  | DeleteUnsupported

fun session_error_code :: "session_error \<Rightarrow> string" where
  "session_error_code (Protocol e) = e_code e"
| "session_error_code Cancelled = ''CANCELLED''"
| "session_error_code (NotFound _) = ''SESSION_NOT_FOUND''"
| "session_error_code (DuplicateLive _) = ''DUPLICATE_LIVE_SESSION''"
| "session_error_code (AlreadyExists _) = ''SESSION_ALREADY_EXISTS''"
| "session_error_code (SequenceGap _ _) = ''NON_CONTIGUOUS_EVENT_SEQUENCE''"
| "session_error_code SequenceExhausted = ''SESSION_SEQUENCE_EXHAUSTED''"
| "session_error_code HeaderIdMismatch = ''SESSION_HEADER_ID_MISMATCH''"
| "session_error_code EmptySessionId = ''INVALID_SESSION_ID''"
| "session_error_code (InvalidSeedLength _ _) = ''INVALID_SEED_LENGTH''"
| "session_error_code InvalidSeedBoundary = ''INVALID_SEED_BOUNDARY''"
| "session_error_code DuplicateSeedBoundary = ''DUPLICATE_SEED_BOUNDARY''"
| "session_error_code (StaleSurface _ _) = ''STALE_SESSION_SURFACE''"
| "session_error_code (SurfaceRange _ _ _) = ''INVALID_SURFACE_RANGE''"
| "session_error_code (MissingSourceEvent _) = ''MISSING_SOURCE_EVENT''"
| "session_error_code InvalidSurfaceMessage = ''INVALID_SURFACE_MESSAGE''"
| "session_error_code InvalidSurfaceRole = ''INVALID_SURFACE_ROLE''"
| "session_error_code InvalidTurnId = ''INVALID_TURN_ID''"
| "session_error_code InvalidTurnLifecycle = ''INVALID_TURN_LIFECYCLE''"
| "session_error_code OrphanTurn = ''ORPHAN_TURN''"
| "session_error_code SeedRequiresEvents = ''SEED_REQUIRES_EVENTS''"
| "session_error_code (InvalidInboxEvent _) = ''INVALID_INBOX_EVENT''"
| "session_error_code (InboxMutationOutOfOrder _) = ''INBOX_MUTATION_OUT_OF_ORDER''"
| "session_error_code RawArtifactsUnsupported = ''SESSION_RAW_ARTIFACTS_UNSUPPORTED''"
| "session_error_code DeleteUnsupported = ''SESSION_DELETE_UNSUPPORTED''"

section \<open>Cancellation\<close>

type_synonym cancel = "nat option"

fun check_cancellation :: "cancel \<Rightarrow> session_error + cancel" where
  "check_cancellation None = Inr None"
| "check_cancellation (Some 0) = Inl Cancelled"
| "check_cancellation (Some (Suc n)) = Inr (Some n)"

section \<open>Sequence numbers and headers\<close>

definition next_seq :: "session_event list \<Rightarrow> session_error + u64" where
  "next_seq events =
     (if events = [] then Inr 0
      else ok_or SequenceExhausted (checked_add_u64 (ev_seq (last events)) 1))"

definition validate_header :: "session_header \<Rightarrow> session_error + unit" where
  "validate_header h =
     and_then (map_err Protocol (header_validate h)) (\<lambda>_.
     if hd_id h = [] then Inl EmptySessionId else Inr ())"

section \<open>Surface entries\<close>

record surface_message =
  sm_event_seq :: u64
  sm_message :: message
  sm_sources :: "u64 list option"

definition surface_role :: "string \<Rightarrow> message_role option" where
  "surface_role t =
     (if t = ''user/message'' then Some User
      else if t = ''assistant/message'' then Some Assistant
      else if t = ''tool/result'' then Some User
      else None)"

definition decode_surface_event ::
  "codec \<Rightarrow> session_event \<Rightarrow> session_error + surface_message option" where
  "decode_surface_event cdc e =
     (case surface_role (ev_type e) of
        None \<Rightarrow> Inr None
      | Some expected_role \<Rightarrow>
          and_then
            (if ev_type e = ''user/message'' then Inr (ev_data e)
             else ok_or InvalidSurfaceMessage (json_get ''message'' (ev_data e))) (\<lambda>data.
          and_then (ok_or InvalidSurfaceMessage (cd_message_from cdc data)) (\<lambda>msg.
          and_then (map_err (\<lambda>_. InvalidSurfaceMessage) (message_validate msg)) (\<lambda>_.
          if msg_role msg \<noteq> expected_role then Inl InvalidSurfaceRole
          else Inr (Some \<lparr>sm_event_seq = ev_seq e, sm_message = msg, sm_sources = ev_sources e\<rparr>)))))"

definition validate_seed_boundary ::
  "session_header \<Rightarrow> nat \<Rightarrow> nat \<Rightarrow> bool \<Rightarrow> session_event \<Rightarrow> session_error + unit" where
  "validate_seed_boundary h event_count seed_length end_seed_seen e =
     (if ev_type e \<noteq> ''session/end-seed'' then Inr ()
      else if end_seed_seen then Inl DuplicateSeedBoundary
      else if event_count \<noteq> seed_length \<or> hd_seed_length h = None then Inl InvalidSeedBoundary
      else Inr ())"

definition validate_sources :: "session_event \<Rightarrow> session_event list \<Rightarrow> session_error + unit" where
  "validate_sources e prior =
     (case ev_sources e of
        None \<Rightarrow> Inr ()
      | Some sources \<Rightarrow>
          try_each (\<lambda>s. if list_ex (\<lambda>p. ev_seq p = s) prior then Inr ()
                        else Inl (MissingSourceEvent s)) sources)"

definition validate_surface_operation ::
  "session_event \<Rightarrow> surface_message option \<Rightarrow> surface_message list \<Rightarrow> session_error + unit" where
  "validate_surface_operation e projection surface =
     (case projection of
        None \<Rightarrow> Inr ()
      | Some _ \<Rightarrow>
          (case ev_surface_op e of
             Some SurfaceAppend \<Rightarrow> Inr ()
           | Some (SurfaceReplace start stop) \<Rightarrow>
               if start > stop \<or> stop > length surface
               then Inl (SurfaceRange start stop (length surface))
               else Inr ()
           | None \<Rightarrow> Inl InvalidSurfaceMessage))"

text \<open>A surface event without an operation is unreachable here in the source
  (\<open>unreachable!\<close>): \<^const>\<open>validate_surface_operation\<close> has rejected it.\<close>

definition apply_surface_operation ::
  "session_event \<Rightarrow> surface_message option \<Rightarrow> surface_message list \<Rightarrow> surface_message list" where
  "apply_surface_operation e projection surface =
     (case projection of
        None \<Rightarrow> surface
      | Some p \<Rightarrow>
          (case ev_surface_op e of
             Some SurfaceAppend \<Rightarrow> surface @ [p]
           | Some (SurfaceReplace start stop) \<Rightarrow> splice_at start stop [p] surface
           | None \<Rightarrow> surface))"

definition turn_id :: "session_event \<Rightarrow> session_error + u64" where
  "turn_id e = ok_or InvalidTurnId (get_u64 ''turn'' (ev_data e))"

section \<open>Facts\<close>

lemma surface_role_None [simp]: "(surface_role t = None) = (\<not> is_surface_event_type t)"
  by (simp add: surface_role_def is_surface_event_type_def)

lemma decode_surface_event_Some:
  assumes "decode_surface_event cdc e = Inr (Some p)"
  shows "sm_event_seq p = ev_seq e" and "sm_sources p = ev_sources e"
    and "is_surface_event_type (ev_type e)" and "message_validate (sm_message p) = Inr ()"
    and "surface_role (ev_type e) = Some (msg_role (sm_message p))"
proof -
  from assms obtain r where r: "surface_role (ev_type e) = Some r"
    by (auto simp: decode_surface_event_def split: option.splits)
  then show "is_surface_event_type (ev_type e)"
    by (metis option.distinct(1) surface_role_None)
  from assms r show "sm_event_seq p = ev_seq e" and "sm_sources p = ev_sources e"
    and "message_validate (sm_message p) = Inr ()"
    and "surface_role (ev_type e) = Some (msg_role (sm_message p))"
    by (auto simp: decode_surface_event_def split: if_splits)
qed

lemma decode_surface_event_None:
  "decode_surface_event cdc e = Inr None \<Longrightarrow> \<not> is_surface_event_type (ev_type e)"
  by (auto simp: decode_surface_event_def split: option.splits if_splits)

lemma decode_non_surface:
  assumes "\<not> is_surface_event_type (ev_type e)"
  shows "decode_surface_event cdc e = Inr None"
proof -
  from assms have "surface_role (ev_type e) = None" by simp
  then show ?thesis by (simp only: decode_surface_event_def option.case)
qed

end
