(* ===== verification/Inbox_Replay.thy ===== *)
theory Inbox_Replay
  imports Session_Base
begin

text \<open>
  The durable inbox of a session (\<open>InboxReplay\<close> and \<open>replay_inbox\<close> in
  \<open>src/src/session.rs\<close>): two FIFO queues of pending messages, rebuilt from the log. Enqueue,
  range splice, edit, remove, steer and claim by a \<open>user/message\<close> are the mutations; all of them
  are checked before an event is admitted.
\<close>

section \<open>Queues\<close>

datatype inbox_target = Followup | Step

record inbox_replay =
  followups :: "message list"
  steps :: "message list"

definition empty_inbox :: inbox_replay where
  "empty_inbox = \<lparr>followups = [], steps = []\<rparr>"

fun inbox_queue :: "inbox_target \<Rightarrow> inbox_replay \<Rightarrow> message list" where
  "inbox_queue Followup i = followups i"
| "inbox_queue Step i = steps i"

fun set_queue :: "inbox_target \<Rightarrow> message list \<Rightarrow> inbox_replay \<Rightarrow> inbox_replay" where
  "set_queue Followup q i = i\<lparr>followups := q\<rparr>"
| "set_queue Step q i = i\<lparr>steps := q\<rparr>"

definition inbox_find :: "inbox_replay \<Rightarrow> string \<Rightarrow> (inbox_target \<times> nat) option" where
  "inbox_find i item_id =
     (case position (\<lambda>m. msg_id m = item_id) (followups i) of
        Some n \<Rightarrow> Some (Followup, n)
      | None \<Rightarrow> map_option (\<lambda>n. (Step, n)) (position (\<lambda>m. msg_id m = item_id) (steps i)))"

definition remove_first :: "string \<Rightarrow> message list \<Rightarrow> message list" where
  "remove_first item_id q =
     (case position (\<lambda>m. msg_id m = item_id) q of None \<Rightarrow> q | Some n \<Rightarrow> remove_at n q)"

definition inbox_remove :: "string \<Rightarrow> inbox_replay \<Rightarrow> inbox_replay" where
  "inbox_remove item_id i =
     i\<lparr>followups := remove_first item_id (followups i), steps := remove_first item_id (steps i)\<rparr>"

section \<open>Payload decoding\<close>

definition INBOX_ENQUEUED_EVENT :: string where
  "INBOX_ENQUEUED_EVENT = ''agent/inbox/enqueued''"

definition INBOX_SPLICED_EVENT :: string where
  "INBOX_SPLICED_EVENT = ''agent/inbox/spliced''"

definition is_inbox_event :: "session_event \<Rightarrow> bool" where
  "is_inbox_event e \<longleftrightarrow> ev_type e = INBOX_ENQUEUED_EVENT \<or> ev_type e = INBOX_SPLICED_EVENT"

definition inbox_target_of :: "session_event \<Rightarrow> session_error + inbox_target" where
  "inbox_target_of e =
     (case get_str ''target'' (ev_data e) of
        Some t \<Rightarrow>
          if t = ''next-turn'' then Inr Followup
          else if t = ''next-step'' then Inr Step
          else Inl (InvalidInboxEvent ''inbox target must be next-turn or next-step'')
      | None \<Rightarrow> Inl (InvalidInboxEvent ''inbox target must be next-turn or next-step''))"

definition decode_message :: "codec \<Rightarrow> string \<Rightarrow> json \<Rightarrow> session_error + message" where
  "decode_message cdc reason v =
     and_then (ok_or (InvalidInboxEvent reason) (cd_message_from cdc v)) (\<lambda>m.
     and_then (map_err (\<lambda>_. InvalidInboxEvent reason) (message_validate m)) (\<lambda>_. Inr m))"

definition inbox_message :: "codec \<Rightarrow> session_event \<Rightarrow> session_error + message" where
  "inbox_message cdc e =
     and_then (ok_or (InvalidInboxEvent ''inbox message is missing'')
                 (json_get ''message'' (ev_data e)))
       (decode_message cdc ''inbox message is invalid'')"

definition inbox_item_id :: "session_event \<Rightarrow> session_error + string" where
  "inbox_item_id e =
     and_then (ok_or (InvalidInboxEvent ''splice itemId is missing'')
                 (json_get ''itemId'' (ev_data e))) (\<lambda>v.
     ok_or (InvalidInboxEvent ''splice itemId is invalid'') (as_str v))"

section \<open>Mutations\<close>

definition apply_enqueued ::
  "codec \<Rightarrow> inbox_replay \<Rightarrow> session_event \<Rightarrow> session_error + inbox_replay" where
  "apply_enqueued cdc i e =
     and_then (inbox_target_of e) (\<lambda>target.
     and_then (inbox_message cdc e) (\<lambda>m.
     if inbox_find i (msg_id m) \<noteq> None
     then Inl (InvalidInboxEvent ''message id is already pending'')
     else Inr (set_queue target (inbox_queue target i @ [m]) i)))"

text \<open>The loop over the inserted messages of a range splice: a message may reuse the id of an entry
  the same splice removes, and no other pending or inserted id.\<close>

fun check_inserted ::
  "inbox_replay \<Rightarrow> inbox_target \<Rightarrow> nat \<Rightarrow> nat \<Rightarrow> string list \<Rightarrow> message list
     \<Rightarrow> session_error + unit" where
  "check_inserted i target start removed_count prior [] = Inr ()"
| "check_inserted i target start removed_count prior (m # ms) =
     (let found = inbox_find i (msg_id m);
          replaces_removed =
            (case found of
               None \<Rightarrow> False
             | Some (t, n) \<Rightarrow> t = target \<and> start \<le> n \<and> n < start + removed_count)
      in if found \<noteq> None \<and> \<not> replaces_removed \<or> msg_id m \<in> set prior
         then Inl (InvalidInboxEvent ''message id is already pending'')
         else check_inserted i target start removed_count (prior @ [msg_id m]) ms)"

definition apply_range_splice ::
  "codec \<Rightarrow> inbox_replay \<Rightarrow> session_event \<Rightarrow> session_error + inbox_replay" where
  "apply_range_splice cdc i e =
     and_then (inbox_target_of e) (\<lambda>target.
     and_then (ok_or (InvalidInboxEvent ''splice start is missing'')
                 (get_u64 ''start'' (ev_data e))) (\<lambda>start.
     let removed_count =
       (case get_u64 ''removedCount'' (ev_data e) of None \<Rightarrow> 0 | Some n \<Rightarrow> n)
     in
     and_then (ok_or (InvalidInboxEvent ''splice inserted is missing'')
                 (Option.bind (json_get ''inserted'' (ev_data e)) as_array)) (\<lambda>vs.
     and_then (try_map (decode_message cdc ''splice inserted message is invalid'') vs) (\<lambda>inserted.
     let queue = inbox_queue target i
     in if start > length queue \<or> removed_count > length queue - start
        then Inl (InvalidInboxEvent ''splice range is invalid'')
        else
          and_then (check_inserted i target start removed_count [] inserted) (\<lambda>_.
          Inr (set_queue target (splice_at start (start + removed_count) inserted queue) i))))))"

definition splice_item ::
  "inbox_replay \<Rightarrow> string \<Rightarrow> inbox_target \<Rightarrow> message \<Rightarrow> string \<Rightarrow> session_error + inbox_replay"
where
  "splice_item i item_id target m action =
     (case inbox_find i item_id of
        None \<Rightarrow> Inl (InboxMutationOutOfOrder item_id)
      | Some (current_target, index) \<Rightarrow>
          if action = ''steer'' then
            if current_target \<noteq> Followup \<or> target \<noteq> Step
            then Inl (InvalidInboxEvent ''steer does not move a next-turn item to next-step'')
            else if m \<noteq> followups i ! index
            then Inl (InvalidInboxEvent ''steer changes its message'')
            else Inr (i\<lparr>followups := remove_at index (followups i), steps := steps i @ [m]\<rparr>)
          else if current_target \<noteq> target
          then Inl (InvalidInboxEvent ''splice target does not match the pending item'')
          else if action = ''edit''
          then Inr (set_queue target ((inbox_queue target i)[index := m]) i)
          else if action = ''remove'' then
            if m \<noteq> inbox_queue target i ! index
            then Inl (InvalidInboxEvent ''remove changes its message'')
            else Inr (set_queue target (remove_at index (inbox_queue target i)) i)
          else Inl (InvalidInboxEvent ''unknown splice action''))"

definition apply_item_splice ::
  "codec \<Rightarrow> inbox_replay \<Rightarrow> session_event \<Rightarrow> session_error + inbox_replay" where
  "apply_item_splice cdc i e =
     and_then (inbox_item_id e) (\<lambda>item_id.
     and_then (inbox_target_of e) (\<lambda>target.
     and_then (inbox_message cdc e) (\<lambda>m.
     if msg_id m \<noteq> item_id
     then Inl (InvalidInboxEvent ''splice message id does not match itemId'')
     else
       and_then (ok_or (InvalidInboxEvent ''splice action is missing'')
                   (get_str ''action'' (ev_data e))) (\<lambda>action.
       splice_item i item_id target m action))))"

definition inbox_apply ::
  "codec \<Rightarrow> inbox_replay \<Rightarrow> session_event \<Rightarrow> session_error + inbox_replay" where
  "inbox_apply cdc i e =
     (if ev_type e = INBOX_ENQUEUED_EVENT then apply_enqueued cdc i e
      else if ev_type e = INBOX_SPLICED_EVENT then
        if json_get ''action'' (ev_data e) = None
           \<and> (json_get ''start'' (ev_data e) \<noteq> None \<or> json_get ''inserted'' (ev_data e) \<noteq> None)
        then apply_range_splice cdc i e
        else apply_item_splice cdc i e
      else if ev_type e = ''user/message'' then
        (case get_str ''id'' (ev_data e) of
           None \<Rightarrow> Inr i
         | Some item_id \<Rightarrow> Inr (inbox_remove item_id i))
      else Inr i)"

definition replay_inbox :: "codec \<Rightarrow> session_event list \<Rightarrow> session_error + inbox_replay" where
  "replay_inbox cdc events = try_fold (inbox_apply cdc) empty_inbox events"

section \<open>Pending identities\<close>

definition pending_ids :: "inbox_replay \<Rightarrow> string list" where
  "pending_ids i = map msg_id (followups i) @ map msg_id (steps i)"

definition inbox_wf :: "inbox_replay \<Rightarrow> bool" where
  "inbox_wf i \<longleftrightarrow> distinct (pending_ids i)"

lemma inbox_queue_set_queue [simp]: "inbox_queue t (set_queue t q i) = q"
  by (cases t) simp_all

lemma inbox_find_None [simp]: "(inbox_find i x = None) = (x \<notin> set (pending_ids i))"
proof -
  have p: "(position (\<lambda>m. msg_id m = x) q = None) = (x \<notin> msg_id ` set q)" for q
    by (auto simp: position_None)
  show ?thesis
    using p [of "followups i"] p [of "steps i"]
    by (auto simp: inbox_find_def pending_ids_def split: option.splits)
qed

lemma inbox_find_Some:
  "inbox_find i x = Some (t, n) \<Longrightarrow>
     n < length (inbox_queue t i) \<and> msg_id (inbox_queue t i ! n) = x"
  by (auto simp: inbox_find_def dest: position_Some split: option.splits)

lemma inbox_wf_empty: "inbox_wf empty_inbox"
  by (simp add: inbox_wf_def pending_ids_def empty_inbox_def)

text \<open>Replacing one queue keeps the identities distinct when the new queue's are distinct and none
  of them is pending in the other queue.\<close>

fun other_target :: "inbox_target \<Rightarrow> inbox_target" where
  "other_target Followup = Step"
| "other_target Step = Followup"

lemma inbox_wf_iff:
  "inbox_wf i \<longleftrightarrow>
     distinct (map msg_id (inbox_queue t i)) \<and> distinct (map msg_id (inbox_queue (other_target t) i))
     \<and> msg_id ` set (inbox_queue t i) \<inter> msg_id ` set (inbox_queue (other_target t) i) = {}"
  by (cases t) (auto simp: inbox_wf_def pending_ids_def)

lemma inbox_queue_other [simp]:
  "inbox_queue (other_target t) (set_queue t q i) = inbox_queue (other_target t) i"
  by (cases t) simp_all

lemma set_pending_ids:
  "set (pending_ids i) =
     msg_id ` set (inbox_queue t i) \<union> msg_id ` set (inbox_queue (other_target t) i)"
  by (cases t) (auto simp: pending_ids_def)

lemma inbox_wf_set_queue:
  assumes "inbox_wf i" and "distinct (map msg_id q)"
    and "msg_id ` set q \<inter> msg_id ` set (inbox_queue (other_target t) i) = {}"
  shows "inbox_wf (set_queue t q i)"
  using assms by (simp add: inbox_wf_iff [of _ t])

lemma apply_enqueued_effect:
  assumes "apply_enqueued cdc i e = Inr i'"
  shows "\<exists>t m. inbox_target_of e = Inr t \<and> inbox_message cdc e = Inr m
           \<and> msg_id m \<notin> set (pending_ids i) \<and> i' = set_queue t (inbox_queue t i @ [m]) i"
  using assms by (auto simp: apply_enqueued_def split: if_splits)

lemma apply_enqueued_wf:
  assumes "apply_enqueued cdc i e = Inr i'" and "inbox_wf i"
  shows "inbox_wf i'"
proof -
  from apply_enqueued_effect [OF assms(1)] obtain t m
    where "msg_id m \<notin> set (pending_ids i)" and i': "i' = set_queue t (inbox_queue t i @ [m]) i"
    by blast
  with assms(2) show ?thesis
    unfolding i'
    by (intro inbox_wf_set_queue) (auto simp: inbox_wf_iff [of i t] set_pending_ids [of i t])
qed

lemma check_inserted_Inr:
  assumes "check_inserted i t start n prior ms = Inr u"
  shows "distinct (map msg_id ms)" and "msg_id ` set ms \<inter> set prior = {}"
    and "\<forall>m\<in>set ms. \<forall>t' k. inbox_find i (msg_id m) = Some (t', k) \<longrightarrow>
           t' = t \<and> start \<le> k \<and> k < start + n"
  using assms
proof (induction ms arbitrary: prior)
  case (Cons m ms)
  {
    case 1
    then show ?case using Cons.IH(1,2) [of "prior @ [msg_id m]"]
      by (auto simp: Let_def split: if_splits)
  next
    case 2
    then show ?case using Cons.IH(2) [of "prior @ [msg_id m]"]
      by (auto simp: Let_def split: if_splits)
  next
    case 3
    then have "check_inserted i t start n (prior @ [msg_id m]) ms = Inr u"
      by (auto simp: Let_def split: if_splits)
    from Cons.IH(3) [OF this] 3 show ?case
      by (auto simp: Let_def split: if_splits option.splits)
  }
qed simp_all

lemma position_map_distinct:
  assumes "distinct (map f xs)" and "k < length xs"
  shows "position (\<lambda>y. f y = f (xs ! k)) xs = Some k"
proof -
  obtain j where j: "position (\<lambda>y. f y = f (xs ! k)) xs = Some j"
    using assms(2) by (metis (mono_tags) not_Some_eq nth_mem position_None)
  then have "j < length xs" "f (xs ! j) = f (xs ! k)" using position_Some by fast+
  with assms have "j = k" by (simp add: distinct_conv_nth) (metis nth_map)
  with j show ?thesis by simp
qed

lemma inbox_find_nth:
  assumes "inbox_wf i" and "k < length (inbox_queue t i)"
  shows "inbox_find i (msg_id (inbox_queue t i ! k)) = Some (t, k)"
proof -
  have d: "distinct (map msg_id (inbox_queue t i))"
    using assms(1) by (simp add: inbox_wf_iff [of i t])
  note p = position_map_distinct [OF d assms(2)]
  show ?thesis
  proof (cases t)
    case Followup
    with p show ?thesis by (simp add: inbox_find_def)
  next
    case Step
    with assms have "position (\<lambda>m. msg_id m = msg_id (steps i ! k)) (followups i) = None"
      by (auto simp: inbox_wf_def pending_ids_def position_None)
    with Step p show ?thesis by (simp add: inbox_find_def)
  qed
qed

lemma apply_range_splice_wf:
  assumes "apply_range_splice cdc i e = Inr i'" and wf: "inbox_wf i"
  shows "inbox_wf i'"
proof -
  from assms(1) obtain t start n ins where
    chk: "check_inserted i t start n [] ins = Inr ()" and
    i': "i' = set_queue t (splice_at start (start + n) ins (inbox_queue t i)) i"
    by (auto simp: apply_range_splice_def Let_def split: if_splits)
  let ?q = "inbox_queue t i"
  note c = check_inserted_Inr [OF chk]
  have d: "distinct (map msg_id ?q)" using wf by (simp add: inbox_wf_iff [of i t])
  have kept: "msg_id (?q ! k) \<notin> msg_id ` set ins"
    if "k < length ?q" and "k < start \<or> start + n \<le> k" for k
  proof
    assume "msg_id (?q ! k) \<in> msg_id ` set ins"
    then obtain m where m: "m \<in> set ins" "msg_id (?q ! k) = msg_id m" by blast
    with inbox_find_nth [OF wf that(1)] have "inbox_find i (msg_id m) = Some (t, k)" by simp
    with c(3) m(1) have "start \<le> k" "k < start + n" by blast+
    with that(2) show False by linarith
  qed
  have disj: "msg_id ` set ins \<inter> msg_id ` (set (take start ?q) \<union> set (drop (start + n) ?q)) = {}"
  proof -
    have "msg_id m \<notin> msg_id ` set ins" if "m \<in> set (take start ?q)" for m
    proof -
      from that obtain j where "j < length (take start ?q)" and "m = take start ?q ! j"
        by (metis in_set_conv_nth)
      with kept [of j] show ?thesis by simp
    qed
    moreover have "msg_id m \<notin> msg_id ` set ins" if "m \<in> set (drop (start + n) ?q)" for m
    proof -
      from that obtain j where "j < length ?q - (start + n)" and "m = ?q ! (start + n + j)"
        by (metis in_set_conv_nth length_drop nth_drop less_or_eq_imp_le nat_le_linear
            diff_is_0_eq not_less_zero)
      with kept [of "start + n + j"] show ?thesis by simp
    qed
    ultimately have out: "msg_id m \<notin> msg_id ` set ins"
      if "m \<in> set (take start ?q) \<union> set (drop (start + n) ?q)" for m
      using that by (metis Un_iff)
    show ?thesis
    proof (rule equals0I, elim IntE)
      fix x
      assume "x \<in> msg_id ` set ins"
        and "x \<in> msg_id ` (set (take start ?q) \<union> set (drop (start + n) ?q))"
      then show False using out by (elim imageE [of x msg_id "_ \<union> _"]) simp
    qed
  qed
  have td: "distinct (map msg_id (take start ?q @ drop (start + n) ?q))"
    using d by (rule take_drop_distinct) simp
  have "distinct (map msg_id (splice_at start (start + n) ins ?q))"
    using td c(1) disj by (auto simp: splice_at_def)
  moreover have "msg_id ` set (splice_at start (start + n) ins ?q)
      \<inter> msg_id ` set (inbox_queue (other_target t) i) = {}"
  proof -
    have "msg_id m \<notin> msg_id ` set (inbox_queue (other_target t) i)" if "m \<in> set ins" for m
    proof
      assume "msg_id m \<in> msg_id ` set (inbox_queue (other_target t) i)"
      then obtain k where "k < length (inbox_queue (other_target t) i)"
        "msg_id (inbox_queue (other_target t) i ! k) = msg_id m"
        by (metis imageE in_set_conv_nth)
      with inbox_find_nth [OF wf, of k "other_target t"] c(3) that
      have "other_target t = t" by (metis)
      then show False by (cases t) auto
    qed
    moreover have "msg_id ` set ?q \<inter> msg_id ` set (inbox_queue (other_target t) i) = {}"
      using wf by (simp add: inbox_wf_iff [of i t])
    ultimately show ?thesis
      by (fastforce simp: splice_at_def dest: in_set_takeD in_set_dropD)
  qed
  ultimately show ?thesis unfolding i' using wf by (intro inbox_wf_set_queue)
qed

lemma remove_first_filter:
  "distinct (map msg_id q) \<Longrightarrow> remove_first x q = filter (\<lambda>m. msg_id m \<noteq> x) q"
proof (induction q)
  case Nil
  then show ?case by (simp add: remove_first_def)
next
  case (Cons m q)
  show ?case
  proof (cases "msg_id m = x")
    case True
    with Cons.prems have "\<forall>y\<in>set q. msg_id y \<noteq> x"
      by (metis distinct.simps(2) image_eqI list.simps(9) set_map)
    then have "filter (\<lambda>m. msg_id m \<noteq> x) q = q" by (simp add: filter_id_conv)
    with True show ?thesis by (simp add: remove_first_def remove_at_def)
  next
    case False
    with Cons show ?thesis by (auto simp: remove_first_def remove_at_def split: option.splits)
  qed
qed

lemma inbox_remove_filter:
  assumes "inbox_wf i"
  shows "followups (inbox_remove x i) = filter (\<lambda>m. msg_id m \<noteq> x) (followups i)"
    and "steps (inbox_remove x i) = filter (\<lambda>m. msg_id m \<noteq> x) (steps i)"
  using assms by (auto simp: inbox_remove_def inbox_wf_def pending_ids_def remove_first_filter)

lemma inbox_remove_wf: "inbox_wf i \<Longrightarrow> inbox_wf (inbox_remove x i)"
  by (auto simp: inbox_wf_def pending_ids_def inbox_remove_filter distinct_map_filter)

lemma update_ids: "k < length q \<Longrightarrow> msg_id m = msg_id (q ! k) \<Longrightarrow>
    map msg_id (q[k := m]) = map msg_id q"
  by (metis list_update_id length_map map_update nth_map)

lemma splice_item_cases:
  assumes "splice_item i (msg_id m) t m a = Inr i'"
  obtains (steer) k where "a = ''steer''" "t = Step"
      "k < length (followups i)" "m = followups i ! k"
      "i' = i\<lparr>followups := remove_at k (followups i), steps := steps i @ [m]\<rparr>"
  | (edit) k where "a = ''edit''"
      "k < length (inbox_queue t i)" "msg_id m = msg_id (inbox_queue t i ! k)"
      "i' = set_queue t ((inbox_queue t i)[k := m]) i"
  | (remove) k where "a = ''remove''" "k < length (inbox_queue t i)" "m = inbox_queue t i ! k"
      "i' = set_queue t (remove_at k (inbox_queue t i)) i"
proof -
  from assms obtain ct k where f: "inbox_find i (msg_id m) = Some (ct, k)"
    by (cases "inbox_find i (msg_id m)") (auto simp: splice_item_def simp del: inbox_find_None)
  note k = inbox_find_Some [OF f]
  show ?thesis
  proof (cases "a = ''steer''")
    case True
    with assms f have "ct = Followup" "t = Step" "m = followups i ! k"
      "i' = i\<lparr>followups := remove_at k (followups i), steps := steps i @ [m]\<rparr>"
      by (simp_all add: splice_item_def split: if_splits)
    with True k show ?thesis by (intro steer) auto
  next
    case False
    with assms f have t: "ct = t" by (simp add: splice_item_def split: if_splits)
    show ?thesis
    proof (cases "a = ''edit''")
      case True
      with assms f t k show ?thesis by (intro edit [of k]) (auto simp: splice_item_def)
    next
      case neq: False
      with assms f t \<open>a \<noteq> ''steer''\<close> have "a = ''remove''" "m = inbox_queue t i ! k"
        "i' = set_queue t (remove_at k (inbox_queue t i)) i"
        by (simp_all add: splice_item_def split: if_splits)
      with k t show ?thesis by (intro remove [of k]) auto
    qed
  qed
qed

lemma apply_item_splice_item:
  assumes "apply_item_splice cdc i e = Inr i'"
  obtains t m a where "inbox_message cdc e = Inr m" "inbox_target_of e = Inr t"
    "get_str ''action'' (ev_data e) = Some a" "splice_item i (msg_id m) t m a = Inr i'"
  using assms by (auto simp: apply_item_splice_def split: if_splits)

lemma splice_item_wf:
  assumes "splice_item i (msg_id m) t m a = Inr i'" and wf: "inbox_wf i"
  shows "inbox_wf i'"
  using assms(1)
proof (cases rule: splice_item_cases)
  case (steer k)
  from wf have d: "distinct (map msg_id (followups i))" "distinct (map msg_id (steps i))"
    "msg_id ` set (followups i) \<inter> msg_id ` set (steps i) = {}"
    by (auto simp: inbox_wf_def pending_ids_def)
  have "msg_id m \<in> msg_id ` set (followups i)" using steer(3,4) by simp
  then have "msg_id m \<notin> msg_id ` set (steps i)" using d(3) by blast
  moreover have "msg_id ` set (remove_at k (followups i)) \<inter> msg_id ` set (steps i) = {}"
    using d(3) remove_at_set [of k "followups i"] by blast
  ultimately show ?thesis
    using d steer remove_at_distinct [OF d(1)] remove_at_nth_notin [OF d(1) steer(3)]
    by (auto simp: inbox_wf_def pending_ids_def)
next
  case (edit k)
  then have "map msg_id ((inbox_queue t i)[k := m]) = map msg_id (inbox_queue t i)"
    by (intro update_ids) auto
  moreover from this have "msg_id ` set ((inbox_queue t i)[k := m]) = msg_id ` set (inbox_queue t i)"
    by (metis set_map)
  ultimately show ?thesis
    using wf unfolding edit(4) by (intro inbox_wf_set_queue) (simp_all add: inbox_wf_iff [of i t])
next
  case (remove k)
  with wf show ?thesis
    unfolding remove(4)
    using remove_at_distinct [of msg_id "inbox_queue t i" k] remove_at_set [of k "inbox_queue t i"]
    by (intro inbox_wf_set_queue) (auto simp: inbox_wf_iff [of i t])
qed

lemma apply_item_splice_wf: "apply_item_splice cdc i e = Inr i' \<Longrightarrow> inbox_wf i \<Longrightarrow> inbox_wf i'"
  by (erule apply_item_splice_item) (rule splice_item_wf)

lemma inbox_apply_wf: "inbox_apply cdc i e = Inr i' \<Longrightarrow> inbox_wf i \<Longrightarrow> inbox_wf i'"
  by (auto simp: inbox_apply_def split: if_splits option.splits
      intro: apply_enqueued_wf apply_range_splice_wf apply_item_splice_wf inbox_remove_wf)

lemma replay_inbox_wf: "replay_inbox cdc events = Inr i \<Longrightarrow> inbox_wf i"
  unfolding replay_inbox_def
  by (erule try_fold_invariant [where P = inbox_wf]) (auto intro: inbox_wf_empty inbox_apply_wf)

lemma replay_inbox_snoc:
  "replay_inbox cdc (events @ [e]) = and_then (replay_inbox cdc events) (\<lambda>i. inbox_apply cdc i e)"
  by (cases "replay_inbox cdc events") (auto simp: replay_inbox_def try_fold_append split: sum.split)

lemma inbox_apply_other:
  "\<not> is_inbox_event e \<Longrightarrow> \<exists>i'. inbox_apply cdc i e = Inr i'"
  by (auto simp: inbox_apply_def is_inbox_event_def split: option.splits)

end
