(* ===== verification/Session_State.thy ===== *)
theory Session_State
  imports Inbox_Replay
begin

text \<open>
  The in-memory projection of one durable log (\<open>SessionState\<close>, \<open>build_state\<close> and
  \<open>Session::append_under_gate\<close> in \<open>src/src/session.rs\<close>). Rebuilding from a committed log and
  admitting one event run the same checks; \<open>admission_checks\<close> holds the part the two functions of
  the source repeat.
\<close>

section \<open>State\<close>

record session_state =
  st_events :: "session_event list"
  st_surface :: "surface_message list"
  st_seed_length :: nat
  st_end_seed_seen :: bool

definition seed_length_of :: "session_header \<Rightarrow> nat" where
  "seed_length_of h = (case hd_seed_length h of None \<Rightarrow> 0 | Some n \<Rightarrow> n)"

definition initial_state :: "session_header \<Rightarrow> session_state" where
  "initial_state h =
     \<lparr>st_events = [], st_surface = [], st_seed_length = seed_length_of h,
      st_end_seed_seen = False\<rparr>"

definition admission_checks ::
  "codec \<Rightarrow> session_header \<Rightarrow> session_state \<Rightarrow> session_event
     \<Rightarrow> session_error + surface_message option" where
  "admission_checks cdc h st e =
     and_then (map_err Protocol (event_validate cdc e)) (\<lambda>_.
     and_then (next_seq (st_events st)) (\<lambda>expected.
     and_then (ensure (ev_seq e = expected) (SequenceGap expected (ev_seq e))) (\<lambda>_.
     and_then (validate_seed_boundary h (length (st_events st)) (st_seed_length st)
                 (st_end_seed_seen st) e) (\<lambda>_.
     and_then (validate_sources e (st_events st)) (\<lambda>_.
     and_then (decode_surface_event cdc e) (\<lambda>projection.
     and_then (validate_surface_operation e projection (st_surface st)) (\<lambda>_.
     Inr projection)))))))"

definition admit ::
  "session_state \<Rightarrow> session_event \<Rightarrow> surface_message option \<Rightarrow> session_state" where
  "admit st e projection =
     st\<lparr>st_end_seed_seen := (st_end_seed_seen st \<or> ev_type e = ''session/end-seed''),
        st_surface := apply_surface_operation e projection (st_surface st),
        st_events := st_events st @ [e]\<rparr>"

definition build_step ::
  "codec \<Rightarrow> session_header \<Rightarrow> session_state \<Rightarrow> session_event \<Rightarrow> session_error + session_state" where
  "build_step cdc h st e =
     and_then (admission_checks cdc h st e) (\<lambda>projection. Inr (admit st e projection))"

definition build_state ::
  "codec \<Rightarrow> session_header \<Rightarrow> session_event list \<Rightarrow> session_error + session_state" where
  "build_state cdc h events =
     and_then (validate_header h) (\<lambda>_.
     if seed_length_of h > length events
     then Inl (InvalidSeedLength (seed_length_of h) (length events))
     else
       and_then (try_fold (build_step cdc h) (initial_state h) events) (\<lambda>st.
       and_then (replay_inbox cdc (st_events st)) (\<lambda>_.
       Inr st)))"

text \<open>The decision \<open>append_under_gate\<close> takes before it touches the persistence.\<close>

definition surface_seqs :: "session_state \<Rightarrow> u64 list" where
  "surface_seqs st = map sm_event_seq (st_surface st)"

definition append_checks ::
  "codec \<Rightarrow> session_header \<Rightarrow> session_state \<Rightarrow> session_event \<Rightarrow> u64 list option
     \<Rightarrow> session_error + surface_message option" where
  "append_checks cdc h st e expected_surface =
     and_then
       (case expected_surface of
          None \<Rightarrow> Inr ()
        | Some expected \<Rightarrow>
            ensure (surface_seqs st = expected) (StaleSurface expected (surface_seqs st))) (\<lambda>_.
     and_then (admission_checks cdc h st e) (\<lambda>projection.
     and_then
       (if is_inbox_event e
        then and_then (replay_inbox cdc (st_events st)) (\<lambda>i.
             and_then (inbox_apply cdc i e) (\<lambda>_. Inr ()))
        else Inr ()) (\<lambda>_.
     Inr projection)))"

section \<open>What the admission checks establish\<close>

lemma next_seq_Inr:
  "next_seq es = Inr n \<Longrightarrow> n = (if es = [] then 0 else Suc (ev_seq (last es)))"
  by (auto simp: next_seq_def)

lemma admission_checks_Inr:
  assumes "admission_checks cdc h st e = Inr p"
  shows "event_validate cdc e = Inr ()" and "next_seq (st_events st) = Inr (ev_seq e)"
    and "validate_sources e (st_events st) = Inr ()"
    and "decode_surface_event cdc e = Inr p"
    and "validate_surface_operation e p (st_surface st) = Inr ()"
    and "validate_seed_boundary h (length (st_events st)) (st_seed_length st)
           (st_end_seed_seen st) e = Inr ()"
  using assms by (auto simp: admission_checks_def)

lemma build_step_Inr:
  "(build_step cdc h st e = Inr st') =
     (\<exists>p. admission_checks cdc h st e = Inr p \<and> st' = admit st e p)"
  by (auto simp: build_step_def)

lemma admit_simps [simp]:
  "st_events (admit st e p) = st_events st @ [e]"
  "st_seed_length (admit st e p) = st_seed_length st"
  "st_surface (admit st e p) = apply_surface_operation e p (st_surface st)"
  "st_end_seed_seen (admit st e p) = (st_end_seed_seen st \<or> ev_type e = ''session/end-seed'')"
  by (simp_all add: admit_def)

lemma initial_state_simps [simp]:
  "st_events (initial_state h) = []" "st_surface (initial_state h) = []"
  "st_seed_length (initial_state h) = seed_length_of h"
  "st_end_seed_seen (initial_state h) = False"
  by (simp_all add: initial_state_def)

lemma try_build_events:
  "try_fold (build_step cdc h) st es = Inr st' \<Longrightarrow> st_events st' = st_events st @ es"
  by (induction es arbitrary: st) (auto simp: build_step_Inr)

lemma build_state_events: "build_state cdc h es = Inr st \<Longrightarrow> st_events st = es"
  by (auto simp: build_state_def split: if_splits dest: try_build_events)

lemma build_state_iff:
  "build_state cdc h es = Inr st \<longleftrightarrow>
     validate_header h = Inr () \<and> seed_length_of h \<le> length es
     \<and> try_fold (build_step cdc h) (initial_state h) es = Inr st
     \<and> (\<exists>i. replay_inbox cdc es = Inr i)"
  by (auto simp: build_state_def dest: try_build_events)

text \<open>Refinement of the incremental projection: admitting one more event to a rebuilt state is
  rebuilding the longer log.\<close>

lemma build_state_snoc:
  assumes "build_state cdc h es = Inr st" and "append_checks cdc h st e x = Inr p"
  shows "build_state cdc h (es @ [e]) = Inr (admit st e p)"
proof -
  from assms(1) have b: "validate_header h = Inr ()" "seed_length_of h \<le> length es"
    "try_fold (build_step cdc h) (initial_state h) es = Inr st"
    and ev: "st_events st = es"
    by (auto simp: build_state_iff build_state_events)
  from assms(1) obtain i where i: "replay_inbox cdc es = Inr i" by (auto simp: build_state_iff)
  from assms(2) have ok: "admission_checks cdc h st e = Inr p"
    by (auto simp: append_checks_def)
  have "\<exists>i'. inbox_apply cdc i e = Inr i'"
  proof (cases "is_inbox_event e")
    case True
    with assms(2) i ev show ?thesis by (auto simp: append_checks_def)
  next
    case False
    then show ?thesis by (rule inbox_apply_other)
  qed
  with i have "\<exists>i'. replay_inbox cdc (es @ [e]) = Inr i'" by (simp add: replay_inbox_snoc)
  moreover have "try_fold (build_step cdc h) (initial_state h) (es @ [e]) = Inr (admit st e p)"
    using b(3) ok by (simp add: try_fold_append build_step_def)
  ultimately show ?thesis using b by (simp add: build_state_iff)
qed

section \<open>Invariants of every rebuilt state\<close>

text \<open>The log is numbered from zero without gaps, cited sources are earlier events of the log, and
  the surface shows distinct admitted message events with the message each of them decodes to.\<close>

definition seqs_contiguous :: "session_event list \<Rightarrow> bool" where
  "seqs_contiguous es \<longleftrightarrow> map ev_seq es = [0 ..< length es]"

definition sources_earlier :: "session_event list \<Rightarrow> bool" where
  "sources_earlier es \<longleftrightarrow>
     (\<forall>k < length es. \<forall>ss. ev_sources (es ! k) = Some ss \<longrightarrow> (\<forall>s \<in> set ss. s < k))"

definition surface_sound :: "codec \<Rightarrow> session_state \<Rightarrow> bool" where
  "surface_sound cdc st \<longleftrightarrow>
     distinct (surface_seqs st) \<and>
     (\<forall>p \<in> set (st_surface st). sm_event_seq p < length (st_events st)
        \<and> decode_surface_event cdc (st_events st ! sm_event_seq p) = Inr (Some p))"

definition seed_sound :: "session_header \<Rightarrow> session_state \<Rightarrow> bool" where
  "seed_sound h st \<longleftrightarrow>
     st_seed_length st = seed_length_of h \<and>
     (\<forall>k < length (st_events st). ev_type (st_events st ! k) = ''session/end-seed'' \<longrightarrow>
        k = seed_length_of h \<and> hd_seed_length h \<noteq> None \<and> st_end_seed_seen st)"

lemma seqs_contiguous_nth: "seqs_contiguous es \<Longrightarrow> k < length es \<Longrightarrow> ev_seq (es ! k) = k"
  by (metis add_0 diff_zero length_map length_upt nth_map nth_upt seqs_contiguous_def)

lemma admission_seq:
  assumes "admission_checks cdc h st e = Inr p" and "seqs_contiguous (st_events st)"
  shows "ev_seq e = length (st_events st)"
proof (cases "st_events st = []")
  case True
  with admission_checks_Inr(2) [OF assms(1)] show ?thesis by (simp add: next_seq_def)
next
  case False
  then have "ev_seq (last (st_events st)) = length (st_events st) - 1"
    by (simp add: last_conv_nth seqs_contiguous_nth [OF assms(2)])
  with next_seq_Inr [OF admission_checks_Inr(2) [OF assms(1)]] False show ?thesis by simp
qed

lemma admission_seqs:
  "admission_checks cdc h st e = Inr p \<Longrightarrow> seqs_contiguous (st_events st) \<Longrightarrow>
     seqs_contiguous (st_events (admit st e p))"
  by (frule (1) admission_seq) (simp add: seqs_contiguous_def)

lemma admission_sources:
  assumes "admission_checks cdc h st e = Inr p" and "seqs_contiguous (st_events st)"
    and "sources_earlier (st_events st)"
  shows "sources_earlier (st_events (admit st e p))"
proof -
  from admission_seq [OF assms(1,2)] event_validate_sources [OF admission_checks_Inr(1) [OF assms(1)]]
  have "\<forall>ss. ev_sources e = Some ss \<longrightarrow> (\<forall>s \<in> set ss. s < length (st_events st))" by auto
  with assms(3) show ?thesis by (auto simp: sources_earlier_def nth_append less_Suc_eq)
qed

lemma set_apply_surface: "set (apply_surface_operation e p sf) \<subseteq> set_option p \<union> set sf"
  by (auto simp: apply_surface_operation_def splice_at_def dest: in_set_takeD in_set_dropD
      split: option.splits surface_op.splits)

lemma distinct_apply_surface:
  assumes "distinct (map f sf)" and "\<forall>q\<in>set_option p. f q \<notin> f ` set sf"
    and "validate_surface_operation e p sf = Inr ()"
  shows "distinct (map f (apply_surface_operation e p sf))"
proof (cases p)
  case None
  with assms(1) show ?thesis by (simp add: apply_surface_operation_def)
next
  case (Some q)
  show ?thesis
  proof (cases "ev_surface_op e")
    case None
    with assms(1) Some show ?thesis by (simp add: apply_surface_operation_def)
  next
    case op: (Some op)
    show ?thesis
    proof (cases op)
      case SurfaceAppend
      with assms(1,2) Some op show ?thesis by (simp add: apply_surface_operation_def)
    next
      case (SurfaceReplace a b)
      with assms(3) Some op have "a \<le> b" by (auto simp: validate_surface_operation_def split: if_splits)
      with assms(1) have "distinct (map f (take a sf @ drop b sf))" by (rule take_drop_distinct)
      with assms(2) Some op SurfaceReplace show ?thesis
        by (auto simp: apply_surface_operation_def splice_at_def dest: in_set_takeD in_set_dropD)
    qed
  qed
qed

lemma admission_surface:
  assumes ok: "admission_checks cdc h st e = Inr p" and c: "seqs_contiguous (st_events st)"
    and s: "surface_sound cdc st"
  shows "surface_sound cdc (admit st e p)"
proof -
  let ?es = "st_events st"
  note dec = admission_checks_Inr(4) [OF ok]
  have new: "sm_event_seq q = length ?es" if "p = Some q" for q
    using decode_surface_event_Some(1) dec that admission_seq [OF ok c] by metis
  have old: "sm_event_seq q < length ?es \<and>
      decode_surface_event cdc (?es ! sm_event_seq q) = Inr (Some q)" if "q \<in> set (st_surface st)" for q
    using s that by (simp add: surface_sound_def)
  have "distinct (surface_seqs (admit st e p))"
    unfolding surface_seqs_def admit_simps
  proof (rule distinct_apply_surface)
    show "distinct (map sm_event_seq (st_surface st))"
      using s by (simp add: surface_sound_def surface_seqs_def)
    show "\<forall>q\<in>set_option p. sm_event_seq q \<notin> sm_event_seq ` set (st_surface st)"
      using new old by (cases p) fastforce+
    show "validate_surface_operation e p (st_surface st) = Inr ()"
      by (rule admission_checks_Inr(5) [OF ok])
  qed
  moreover have "sm_event_seq q < length (?es @ [e]) \<and>
      decode_surface_event cdc ((?es @ [e]) ! sm_event_seq q) = Inr (Some q)"
    if "q \<in> set (st_surface (admit st e p))" for q
  proof (cases "p = Some q")
    case True
    with new [OF True] dec show ?thesis by simp
  next
    case False
    with that set_apply_surface [of e p "st_surface st"] have "q \<in> set (st_surface st)"
      by (cases p) auto
    with old [OF this] show ?thesis by (simp add: nth_append)
  qed
  ultimately show ?thesis by (simp add: surface_sound_def)
qed

lemma admission_seed:
  assumes ok: "admission_checks cdc h st e = Inr p" and s: "seed_sound h st"
  shows "seed_sound h (admit st e p)"
  using admission_checks_Inr(6) [OF ok] s
  by (auto simp: seed_sound_def validate_seed_boundary_def nth_append less_Suc_eq split: if_splits)

definition session_wf :: "codec \<Rightarrow> session_header \<Rightarrow> session_state \<Rightarrow> bool" where
  "session_wf cdc h st \<longleftrightarrow>
     seqs_contiguous (st_events st) \<and> sources_earlier (st_events st)
     \<and> surface_sound cdc st \<and> seed_sound h st"

lemma session_wf_initial: "session_wf cdc h (initial_state h)"
  by (simp add: session_wf_def seqs_contiguous_def sources_earlier_def surface_sound_def
      surface_seqs_def seed_sound_def)

lemma session_wf_admit:
  "admission_checks cdc h st e = Inr p \<Longrightarrow> session_wf cdc h st \<Longrightarrow> session_wf cdc h (admit st e p)"
  unfolding session_wf_def
  using admission_seqs admission_sources admission_surface admission_seed by blast

lemma build_state_wf:
  assumes "build_state cdc h es = Inr st"
  shows "session_wf cdc h st"
proof -
  from assms have "try_fold (build_step cdc h) (initial_state h) es = Inr st"
    by (simp add: build_state_iff)
  then show ?thesis
    by (rule try_fold_invariant [where P = "session_wf cdc h"])
      (auto simp: build_step_Inr intro: session_wf_initial session_wf_admit)
qed

lemma build_state_validated:
  assumes "build_state cdc h es = Inr st" and "e \<in> set es"
  shows "event_validate cdc e = Inr ()"
proof -
  from assms(1) have "try_fold (build_step cdc h) (initial_state h) es = Inr st"
    by (simp add: build_state_iff)
  then have "\<forall>e\<in>set (st_events st). event_validate cdc e = Inr ()"
    by (rule try_fold_invariant [where P = "\<lambda>st. \<forall>e\<in>set (st_events st). event_validate cdc e = Inr ()"])
      (auto simp: build_step_Inr dest: admission_checks_Inr(1))
  with assms build_state_events show ?thesis by blast
qed

lemma build_state_decodes:
  assumes "build_state cdc h es = Inr st" and "e \<in> set es"
  shows "\<exists>q. decode_surface_event cdc e = Inr q"
proof -
  from assms(1) have "try_fold (build_step cdc h) (initial_state h) es = Inr st"
    by (simp add: build_state_iff)
  then have "\<forall>e\<in>set (st_events st). \<exists>q. decode_surface_event cdc e = Inr q"
    by (rule try_fold_invariant [where P =
          "\<lambda>st. \<forall>e\<in>set (st_events st). \<exists>q. decode_surface_event cdc e = Inr q"])
      (auto simp: build_step_Inr, metis admission_checks_Inr(4))
  with assms build_state_events show ?thesis by blast
qed

end
