(* ===== verification/Session_Persistence.thy ===== *)
theory Session_Persistence
  imports Session_State
begin

text \<open>
  The persistence boundary of \<open>src/src/session.rs\<close>: the trait \<open>SessionPersistence\<close> as a
  record of operations over a backend state, the in-memory backend
  \<open>MemorySessionPersistence\<close>, and the contract a session relies on as two locales that the
  in-memory backend interprets. An asynchronous operation is a function of the cancellation token and
  of the backend state; it returns its result with both as it leaves them.
\<close>

section \<open>Operations with cancellation and a backend\<close>

type_synonym ('p, 'a) io = "cancel \<times> 'p \<Rightarrow> (session_error + 'a) \<times> cancel \<times> 'p"

definition io_return :: "'a \<Rightarrow> ('p, 'a) io" where
  "io_return x = (\<lambda>s. (Inr x, s))"

definition io_lift :: "session_error + 'a \<Rightarrow> ('p, 'a) io" where
  "io_lift r = (\<lambda>s. (r, s))"

definition io_bind :: "('p, 'a) io \<Rightarrow> ('a \<Rightarrow> ('p, 'b) io) \<Rightarrow> ('p, 'b) io" where
  "io_bind m f = (\<lambda>s. case m s of (Inl e, s') \<Rightarrow> (Inl e, s') | (Inr x, s') \<Rightarrow> f x s')"

definition io_poll :: "('p, unit) io" where
  "io_poll = (\<lambda>(c, p). case check_cancellation c of
                          Inl e \<Rightarrow> (Inl e, c, p)
                        | Inr c' \<Rightarrow> (Inr (), c', p))"

definition io_get :: "('p, 'p) io" where
  "io_get = (\<lambda>(c, p). (Inr p, c, p))"

definition io_put :: "'p \<Rightarrow> ('p, unit) io" where
  "io_put q = (\<lambda>(c, p). (Inr (), c, q))"

lemma io_bind_Inr:
  "io_bind m f s = (Inr y, s'') \<longleftrightarrow> (\<exists>x s'. m s = (Inr x, s') \<and> f x s' = (Inr y, s''))"
  by (auto simp: io_bind_def split: prod.splits sum.splits)

lemma io_bind_Inl:
  "io_bind m f s = (Inl e, s'') \<longleftrightarrow>
     m s = (Inl e, s'') \<or> (\<exists>x s'. m s = (Inr x, s') \<and> f x s' = (Inl e, s''))"
  by (auto simp: io_bind_def split: prod.splits sum.splits)

lemma io_bind_step: "m s = (Inr x, s') \<Longrightarrow> io_bind m f s = f x s'"
  by (simp add: io_bind_def)

lemma io_lift_eq [simp]: "io_lift r s = (r, s)"
  by (simp add: io_lift_def)

lemma io_return_eq [simp]: "io_return x s = (Inr x, s)"
  by (simp add: io_return_def)

lemma io_poll_never [simp]: "io_poll (None, p) = (Inr (), None, p)"
  by (simp add: io_poll_def)

lemma io_poll_world: "io_poll (c, p) = (r, c', p') \<Longrightarrow> p' = p"
  by (auto simp: io_poll_def split: sum.splits)

lemma io_get_eq [simp]: "io_get (c, p) = (Inr p, c, p)"
  by (simp add: io_get_def)

lemma io_put_eq [simp]: "io_put q (c, p) = (Inr (), c, q)"
  by (simp add: io_put_def)

text \<open>Reasoning about the backend only: \<open>io_inv I m\<close> says that \<open>m\<close> keeps \<open>I\<close> whether it
  succeeds, fails or is cancelled.\<close>

definition io_inv :: "('p \<Rightarrow> bool) \<Rightarrow> ('p, 'a) io \<Rightarrow> bool" where
  "io_inv I m \<longleftrightarrow> (\<forall>c p r c' p'. I p \<longrightarrow> m (c, p) = (r, c', p') \<longrightarrow> I p')"

lemma io_invD: "io_inv I m \<Longrightarrow> I p \<Longrightarrow> m (c, p) = (r, c', p') \<Longrightarrow> I p'"
  unfolding io_inv_def by blast

lemma io_inv_return [intro]: "io_inv I (io_return x)"
  by (simp add: io_inv_def)

lemma io_inv_lift [intro]: "io_inv I (io_lift r)"
  by (simp add: io_inv_def)

lemma io_inv_poll [intro]: "io_inv I io_poll"
  by (auto simp: io_inv_def dest: io_poll_world)

lemma io_inv_bind [intro]:
  assumes "io_inv I m" and "\<And>x. io_inv I (f x)"
  shows "io_inv I (io_bind m f)"
  unfolding io_inv_def
proof (intro allI impI)
  fix c p r c' p'
  assume p: "I p" and run: "io_bind m f (c, p) = (r, c', p')"
  obtain r1 c1 p1 where m: "m (c, p) = (r1, c1, p1)" by (metis prod.exhaust)
  then have p1: "I p1" using assms(1) p by (metis io_invD)
  show "I p'"
  proof (cases r1)
    case (Inl e)
    with m run p1 show ?thesis by (simp add: io_bind_def)
  next
    case (Inr x)
    with m run have "f x (c1, p1) = (r, c', p')" by (simp add: io_bind_def)
    then show ?thesis using assms(2) p1 by (metis io_invD)
  qed
qed

section \<open>The trait\<close>

record session_inspection =
  si_header :: session_header
  si_event_count :: u64
  si_next_seq :: u64
  si_flush_count :: u64

record 'p persistence =
  pe_create :: "session_header \<Rightarrow> ('p, unit) io"
  pe_append :: "string \<Rightarrow> session_event \<Rightarrow> ('p, unit) io"
  pe_create_seeded :: "session_header \<Rightarrow> session_event list \<Rightarrow> ('p, unit) io"
  pe_load :: "string \<Rightarrow> ('p, session_header option) io"
  pe_inspect :: "string \<Rightarrow> ('p, session_inspection option) io"
  pe_read_from :: "string \<Rightarrow> u64 \<Rightarrow> ('p, session_event list) io"
  pe_flush :: "string \<Rightarrow> ('p, unit) io"
  pe_delete :: "string \<Rightarrow> ('p, unit) io"
  pe_list :: "('p, session_inspection list) io"

section \<open>The in-memory backend\<close>

record memory_session =
  ms_header :: session_header
  ms_events :: "session_event list"
  ms_flush_count :: u64

type_synonym memory = "(string \<times> memory_session) list"

definition mem_create :: "session_header \<Rightarrow> (memory, unit) io" where
  "mem_create h =
     io_bind io_poll (\<lambda>_.
     io_bind (io_lift (validate_header h)) (\<lambda>_.
     io_bind io_get (\<lambda>sessions.
     if map_of sessions (hd_id h) \<noteq> None then io_lift (Inl (AlreadyExists (hd_id h)))
     else io_put (bt_insert (hd_id h)
            \<lparr>ms_header = h, ms_events = [], ms_flush_count = 0\<rparr> sessions))))"

fun check_seed_events :: "codec \<Rightarrow> nat \<Rightarrow> session_event list \<Rightarrow> session_error + unit" where
  "check_seed_events cdc expected [] = Inr ()"
| "check_seed_events cdc expected (e # es) =
     and_then (map_err Protocol (event_validate cdc e)) (\<lambda>_.
     and_then (ensure (ev_seq e = expected) (SequenceGap expected (ev_seq e))) (\<lambda>_.
     check_seed_events cdc (Suc expected) es))"

definition mem_create_seeded ::
  "codec \<Rightarrow> session_header \<Rightarrow> session_event list \<Rightarrow> (memory, unit) io" where
  "mem_create_seeded cdc h events =
     io_bind io_poll (\<lambda>_.
     io_bind (io_lift (validate_header h)) (\<lambda>_.
     io_bind (io_lift (check_seed_events cdc 0 events)) (\<lambda>_.
     io_bind io_get (\<lambda>sessions.
     if map_of sessions (hd_id h) \<noteq> None then io_lift (Inl (AlreadyExists (hd_id h)))
     else
       io_bind io_poll (\<lambda>_.
       io_put (bt_insert (hd_id h)
         \<lparr>ms_header = h, ms_events = events, ms_flush_count = 0\<rparr> sessions))))))"

definition mem_append :: "codec \<Rightarrow> string \<Rightarrow> session_event \<Rightarrow> (memory, unit) io" where
  "mem_append cdc session_id e =
     io_bind io_poll (\<lambda>_.
     io_bind (io_lift (map_err Protocol (event_validate cdc e))) (\<lambda>_.
     io_bind io_get (\<lambda>sessions.
     io_bind (io_lift (ok_or (NotFound session_id) (map_of sessions session_id))) (\<lambda>session.
     io_bind (io_lift (next_seq (ms_events session))) (\<lambda>expected.
     if ev_seq e \<noteq> expected then io_lift (Inl (SequenceGap expected (ev_seq e)))
     else io_put (bt_insert session_id
            (session\<lparr>ms_events := ms_events session @ [e]\<rparr>) sessions))))))"

definition mem_load :: "string \<Rightarrow> (memory, session_header option) io" where
  "mem_load session_id =
     io_bind io_poll (\<lambda>_.
     io_bind io_get (\<lambda>sessions.
     io_return (map_option ms_header (map_of sessions session_id))))"

definition inspect_memory_session :: "memory_session \<Rightarrow> session_error + session_inspection" where
  "inspect_memory_session s =
     and_then (next_seq (ms_events s)) (\<lambda>n.
     Inr \<lparr>si_header = ms_header s, si_event_count = length (ms_events s), si_next_seq = n,
          si_flush_count = ms_flush_count s\<rparr>)"

definition mem_inspect :: "string \<Rightarrow> (memory, session_inspection option) io" where
  "mem_inspect session_id =
     io_bind io_poll (\<lambda>_.
     io_bind io_get (\<lambda>sessions.
     case map_of sessions session_id of
       None \<Rightarrow> io_return None
     | Some s \<Rightarrow> io_bind (io_lift (inspect_memory_session s)) (\<lambda>i. io_return (Some i))))"

definition mem_read_from :: "string \<Rightarrow> u64 \<Rightarrow> (memory, session_event list) io" where
  "mem_read_from session_id from_seq =
     io_bind io_poll (\<lambda>_.
     io_bind io_get (\<lambda>sessions.
     io_bind (io_lift (ok_or (NotFound session_id) (map_of sessions session_id))) (\<lambda>session.
     io_return (filter (\<lambda>e. ev_seq e \<ge> from_seq) (ms_events session)))))"

definition mem_flush :: "string \<Rightarrow> (memory, unit) io" where
  "mem_flush session_id =
     io_bind io_poll (\<lambda>_.
     io_bind io_get (\<lambda>sessions.
     io_bind (io_lift (ok_or (NotFound session_id) (map_of sessions session_id))) (\<lambda>session.
     io_bind (io_lift (ok_or SequenceExhausted (checked_add_u64 (ms_flush_count session) 1))) (\<lambda>n.
     io_put (bt_insert session_id (session\<lparr>ms_flush_count := n\<rparr>) sessions)))))"

definition mem_delete :: "string \<Rightarrow> (memory, unit) io" where
  "mem_delete session_id =
     io_bind io_poll (\<lambda>_.
     io_bind io_get (\<lambda>sessions.
     if map_of sessions session_id = None then io_lift (Inl (NotFound session_id))
     else io_put (bt_remove session_id sessions)))"

definition mem_list :: "(memory, session_inspection list) io" where
  "mem_list =
     io_bind io_poll (\<lambda>_.
     io_bind io_get (\<lambda>sessions.
     io_lift (try_map inspect_memory_session (map snd sessions))))"

definition memory_persistence :: "codec \<Rightarrow> memory persistence" where
  "memory_persistence cdc =
     \<lparr>pe_create = mem_create, pe_append = mem_append cdc,
      pe_create_seeded = mem_create_seeded cdc, pe_load = mem_load, pe_inspect = mem_inspect,
      pe_read_from = mem_read_from, pe_flush = mem_flush, pe_delete = mem_delete,
      pe_list = mem_list\<rparr>"

definition mem_log :: "memory \<Rightarrow> string \<Rightarrow> (session_header \<times> session_event list) option" where
  "mem_log p x = map_option (\<lambda>s. (ms_header s, ms_events s)) (map_of p x)"

section \<open>The contract\<close>

text \<open>\<open>plog\<close> is the abstract content of a backend: the header and the committed events of every
  session it holds. A mutation either has its whole effect or none, and reading changes nothing.\<close>

locale atomic_persistence =
  fixes ops :: "'p persistence"
    and plog :: "'p \<Rightarrow> string \<Rightarrow> (session_header \<times> session_event list) option"
  assumes create_done:
      "pe_create ops h (c, p) = (Inr u, c', p') \<Longrightarrow>
         plog p (hd_id h) = None \<and> plog p' = (plog p)(hd_id h \<mapsto> (h, []))"
    and create_failed: "pe_create ops h (c, p) = (Inl e, c', p') \<Longrightarrow> plog p' = plog p"
    and append_done:
      "pe_append ops x ev (c, p) = (Inr u, c', p') \<Longrightarrow>
         \<exists>h es. plog p x = Some (h, es) \<and> plog p' = (plog p)(x \<mapsto> (h, es @ [ev]))"
    and append_failed: "pe_append ops x ev (c, p) = (Inl e, c', p') \<Longrightarrow> plog p' = plog p"
    and seeded_done:
      "pe_create_seeded ops h es (c, p) = (Inr u, c', p') \<Longrightarrow>
         plog p (hd_id h) = None \<and> plog p' = (plog p)(hd_id h \<mapsto> (h, es))"
    and seeded_failed: "pe_create_seeded ops h es (c, p) = (Inl e, c', p') \<Longrightarrow> plog p' = plog p"
    and load_log: "pe_load ops x (c, p) = (r, c', p') \<Longrightarrow> plog p' = plog p"
    and load_result:
      "pe_load ops x (c, p) = (Inr v, c', p') \<Longrightarrow> v = map_option fst (plog p x)"
    and read_log: "pe_read_from ops x n (c, p) = (rr, c', p') \<Longrightarrow> plog p' = plog p"
    and read_result:
      "pe_read_from ops x n (c, p) = (Inr es', c', p') \<Longrightarrow>
         \<exists>h es. plog p x = Some (h, es) \<and> es' = filter (\<lambda>e. ev_seq e \<ge> n) es"
    and flush_log: "pe_flush ops x (c, p) = (fr, c', p') \<Longrightarrow> plog p' = plog p"
    and delete_done:
      "pe_delete ops x (c, p) = (Inr u, c', p') \<Longrightarrow> plog p' = (plog p)(x := None)"
    and delete_failed: "pe_delete ops x (c, p) = (Inl e, c', p') \<Longrightarrow> plog p' = plog p"

text \<open>A backend that also makes progress: without cancellation, what is admissible is done.\<close>

locale live_persistence = atomic_persistence +
  fixes cdc :: codec
  assumes append_progress:
      "plog p x = Some (h, es) \<Longrightarrow> event_validate cdc ev = Inr () \<Longrightarrow>
         next_seq es = Inr (ev_seq ev) \<Longrightarrow>
         \<exists>p'. pe_append ops x ev (None, p) = (Inr (), None, p')"
    and load_progress: "\<exists>v p'. pe_load ops x (None, p) = (Inr v, None, p')"
    and read_progress:
      "plog p x \<noteq> None \<Longrightarrow> \<exists>es p'. pe_read_from ops x n (None, p) = (Inr es, None, p')"

lemmas io_inversion = io_bind_Inr io_bind_Inl io_lift_eq io_return_eq

interpretation mem: atomic_persistence "memory_persistence cdc" mem_log for cdc
proof (unfold_locales, goal_cases)
  case (1 h c p u c' p')
  then show ?case
    by (auto simp: memory_persistence_def mem_create_def mem_log_def fun_eq_iff
        dest!: io_poll_world simp: io_inversion split: if_splits)
next
  case (2 h c p e c' p')
  then show ?case
    by (auto simp: memory_persistence_def mem_create_def dest!: io_poll_world
        simp: io_inversion split: if_splits)
next
  case (3 x ev c p u c' p')
  then show ?case
    by (auto simp: memory_persistence_def mem_append_def mem_log_def fun_eq_iff
        dest!: io_poll_world simp: io_inversion split: if_splits)
next
  case (4 x ev c p e c' p')
  then show ?case
    by (auto simp: memory_persistence_def mem_append_def dest!: io_poll_world
        simp: io_inversion split: if_splits)
next
  case (5 h es c p u c' p')
  then show ?case
    by (auto simp: memory_persistence_def mem_create_seeded_def mem_log_def fun_eq_iff
        dest!: io_poll_world simp: io_inversion split: if_splits)
next
  case (6 h es c p e c' p')
  then show ?case
    by (auto simp: memory_persistence_def mem_create_seeded_def dest!: io_poll_world
        simp: io_inversion split: if_splits)
next
  case (7 x c p r c' p')
  then show ?case
    by (cases r) (auto simp: memory_persistence_def mem_load_def io_inversion dest!: io_poll_world)
next
  case (8 x c p v c' p')
  then show ?case
    by (auto simp: memory_persistence_def mem_load_def mem_log_def map_option.compositionality o_def
        dest!: io_poll_world simp: io_inversion)
next
  case (9 x n c p r c' p')
  then show ?case
    by (cases r) (auto simp: memory_persistence_def mem_read_from_def io_inversion dest!: io_poll_world)
next
  case (10 x n c p es' c' p')
  then show ?case
    by (auto simp: memory_persistence_def mem_read_from_def mem_log_def io_inversion
        dest!: io_poll_world)
next
  case (11 x c p r c' p')
  then show ?case
    by (cases r) (auto simp: memory_persistence_def mem_flush_def mem_log_def io_inversion fun_eq_iff
        dest!: io_poll_world)
next
  case (12 x c p u c' p')
  then show ?case
    by (auto simp: memory_persistence_def mem_delete_def mem_log_def io_inversion fun_eq_iff
        dest!: io_poll_world split: if_splits)
next
  case (13 x c p e c' p')
  then show ?case
    by (auto simp: memory_persistence_def mem_delete_def io_inversion
        dest!: io_poll_world split: if_splits)
qed

interpretation mem_live: live_persistence "memory_persistence cdc" mem_log cdc for cdc
proof (unfold_locales, goal_cases)
  case (1 p x h es ev)
  then show ?case
    by (auto simp: memory_persistence_def mem_append_def mem_log_def io_bind_def)
next
  case (2 x p)
  then show ?case
    by (auto simp: memory_persistence_def mem_load_def io_bind_def)
next
  case (3 p x n)
  then show ?case
    by (auto simp: memory_persistence_def mem_read_from_def mem_log_def io_bind_def)
qed

end
