(* ===== verification/Sessions.thy ===== *)
theory Sessions
  imports Session_Persistence
begin

text \<open>
  One live session (\<open>Session\<close> in \<open>src/src/session.rs\<close>): its header, its in-memory state and
  the broadcast of admitted events, with the append family, the conditional append and the flush.
  Writers are serialised by \<open>write_gate\<close>, so an append is one step from the acquired gate on; the
  backend append is its commit point. The lemmas about the backend are proved once, from the contract.
\<close>

section \<open>Operations\<close>

record session =
  ss_header :: session_header
  ss_state :: session_state
  ss_updates :: "session_event list"

abbreviation session_id :: "session \<Rightarrow> string" where
  "session_id s \<equiv> hd_id (ss_header s)"

abbreviation session_events :: "session \<Rightarrow> session_event list" where
  "session_events s \<equiv> st_events (ss_state s)"

definition from_committed ::
  "codec \<Rightarrow> session_header \<Rightarrow> session_event list \<Rightarrow> session_error + session" where
  "from_committed cdc h events =
     and_then (build_state cdc h events) (\<lambda>st.
     Inr \<lparr>ss_header = h, ss_state = st, ss_updates = []\<rparr>)"

definition seed_events :: "session \<Rightarrow> session_event list" where
  "seed_events s = take (st_seed_length (ss_state s)) (session_events s)"

definition live_events :: "session \<Rightarrow> session_event list" where
  "live_events s = drop (st_seed_length (ss_state s)) (session_events s)"

definition derive_messages :: "session \<Rightarrow> message list" where
  "derive_messages s = map sm_message (st_surface (ss_state s))"

definition pending_next_turn_inbox :: "codec \<Rightarrow> session \<Rightarrow> session_error + message list" where
  "pending_next_turn_inbox cdc s =
     and_then (replay_inbox cdc (session_events s)) (\<lambda>i. Inr (followups i))"

definition append_under_gate ::
  "codec \<Rightarrow> 'p persistence \<Rightarrow> session \<Rightarrow> session_event \<Rightarrow> u64 list option \<Rightarrow> ('p, session) io" where
  "append_under_gate cdc ops s e expected_surface =
     io_bind io_poll (\<lambda>_.
     io_bind (io_lift (append_checks cdc (ss_header s) (ss_state s) e expected_surface)) (\<lambda>projection.
     io_bind (pe_append ops (session_id s) e) (\<lambda>_.
     io_return (s\<lparr>ss_state := admit (ss_state s) e projection,
                  ss_updates := ss_updates s @ [e]\<rparr>))))"

definition append_inner ::
  "codec \<Rightarrow> 'p persistence \<Rightarrow> session \<Rightarrow> session_event \<Rightarrow> u64 list option \<Rightarrow> ('p, session) io" where
  "append_inner cdc ops s e expected_surface =
     io_bind io_poll (\<lambda>_. append_under_gate cdc ops s e expected_surface)"

definition session_append ::
  "codec \<Rightarrow> 'p persistence \<Rightarrow> session \<Rightarrow> session_event \<Rightarrow> ('p, session) io" where
  "session_append cdc ops s e = append_inner cdc ops s e None"

definition append_if_surface ::
  "codec \<Rightarrow> 'p persistence \<Rightarrow> session \<Rightarrow> session_event \<Rightarrow> u64 list \<Rightarrow> ('p, session) io" where
  "append_if_surface cdc ops s e expected = append_inner cdc ops s e (Some expected)"

definition append_next_if_surface ::
  "codec \<Rightarrow> 'p persistence \<Rightarrow> session \<Rightarrow> (u64 \<Rightarrow> session_event) \<Rightarrow> u64 list option
     \<Rightarrow> ('p, u64 \<times> session) io" where
  "append_next_if_surface cdc ops s build expected_surface =
     io_bind io_poll (\<lambda>_.
     io_bind io_poll (\<lambda>_.
     io_bind (io_lift (next_seq (session_events s))) (\<lambda>seq.
     io_bind (append_under_gate cdc ops s (build seq) expected_surface) (\<lambda>s'.
     io_return (seq, s')))))"

definition append_next ::
  "codec \<Rightarrow> 'p persistence \<Rightarrow> session \<Rightarrow> (u64 \<Rightarrow> session_event) \<Rightarrow> ('p, u64 \<times> session) io" where
  "append_next cdc ops s build = append_next_if_surface cdc ops s build None"

definition session_flush :: "'p persistence \<Rightarrow> session \<Rightarrow> ('p, unit) io" where
  "session_flush ops s = io_bind io_poll (\<lambda>_. pe_flush ops (session_id s))"

section \<open>The session against its log\<close>

text \<open>\<open>session_ok\<close>: the live state is exactly what rebuilding the session's own log gives.
  \<open>synced\<close>: the backend holds the session's header and log, no more and no less.\<close>

definition session_ok :: "codec \<Rightarrow> session \<Rightarrow> bool" where
  "session_ok cdc s \<longleftrightarrow> build_state cdc (ss_header s) (session_events s) = Inr (ss_state s)"

definition synced ::
  "('p \<Rightarrow> string \<Rightarrow> (session_header \<times> session_event list) option) \<Rightarrow> 'p \<Rightarrow> session \<Rightarrow> bool" where
  "synced plog p s \<longleftrightarrow> plog p (session_id s) = Some (ss_header s, session_events s)"

lemma from_committed_Inr:
  assumes "from_committed cdc h es = Inr s"
  shows "session_ok cdc s" "ss_header s = h" "session_events s = es" "ss_updates s = []"
proof -
  from assms obtain st where st: "build_state cdc h es = Inr st"
    and s: "s = \<lparr>ss_header = h, ss_state = st, ss_updates = []\<rparr>"
    by (auto simp: from_committed_def)
  from build_state_events [OF st] st s
  show "session_ok cdc s" "ss_header s = h" "session_events s = es" "ss_updates s = []"
    by (simp_all add: session_ok_def)
qed

lemma session_ok_wf: "session_ok cdc s \<Longrightarrow> session_wf cdc (ss_header s) (ss_state s)"
  unfolding session_ok_def by (rule build_state_wf)

lemma append_under_gate_Inr:
  assumes "append_under_gate cdc ops s e x (c, p) = (Inr s', c', p')"
  obtains c1 pr where
    "append_checks cdc (ss_header s) (ss_state s) e x = Inr pr"
    "pe_append ops (session_id s) e (c1, p) = (Inr (), c', p')"
    "s' = s\<lparr>ss_state := admit (ss_state s) e pr, ss_updates := ss_updates s @ [e]\<rparr>"
  using assms by (auto simp: append_under_gate_def io_inversion dest!: io_poll_world)

lemma append_under_gate_extends:
  assumes "append_under_gate cdc ops s e x (c, p) = (Inr s', c', p')"
  shows "ss_header s' = ss_header s" "session_events s' = session_events s @ [e]"
    "ss_updates s' = ss_updates s @ [e]"
  using assms by (auto elim!: append_under_gate_Inr)

lemma append_under_gate_ok:
  assumes "append_under_gate cdc ops s e x (c, p) = (Inr s', c', p')" and "session_ok cdc s"
  shows "session_ok cdc s'"
  using assms by (auto elim!: append_under_gate_Inr simp: session_ok_def intro: build_state_snoc)

text \<open>The append family reduces to \<open>append_under_gate\<close>.\<close>

lemma append_inner_cases:
  assumes "append_inner cdc ops s e x (c, p) = (r, c', p')"
  obtains c1 where "append_under_gate cdc ops s e x (c1, p) = (r, c', p')"
  | "r = Inl Cancelled" "p' = p"
  using assms
  by (cases c rule: check_cancellation.cases) (auto simp: append_inner_def io_bind_def io_poll_def)

lemma append_next_cases:
  assumes "append_next_if_surface cdc ops s build x (c, p) = (Inr (n, s'), c', p')"
  obtains c1 where "next_seq (session_events s) = Inr n"
    "append_under_gate cdc ops s (build n) x (c1, p) = (Inr s', c', p')"
  using assms
  by (auto simp: append_next_if_surface_def io_inversion dest!: io_poll_world)

context atomic_persistence
begin

lemma append_under_gate_synced:
  assumes "append_under_gate cdc ops s e x (c, p) = (Inr s', c', p')" and "synced plog p s"
  shows "synced plog p' s'" and "y \<noteq> session_id s \<Longrightarrow> plog p' y = plog p y"
proof -
  from assms(1) obtain c1 pr where
    ap: "pe_append ops (session_id s) e (c1, p) = (Inr (), c', p')" and
    s': "s' = s\<lparr>ss_state := admit (ss_state s) e pr, ss_updates := ss_updates s @ [e]\<rparr>"
    by (elim append_under_gate_Inr)
  from append_done [OF ap] assms(2)
  have "plog p' = (plog p)(session_id s \<mapsto> (ss_header s, session_events s @ [e]))"
    by (auto simp: synced_def)
  then show "synced plog p' s'" and "y \<noteq> session_id s \<Longrightarrow> plog p' y = plog p y"
    by (auto simp: s' synced_def)
qed

lemma append_under_gate_failed:
  assumes "append_under_gate cdc ops s e x (c, p) = (Inl err, c', p')"
  shows "plog p' = plog p"
  using assms append_failed
  by (auto simp: append_under_gate_def io_inversion dest!: io_poll_world)

lemma append_inner_log:
  assumes "append_inner cdc ops s e x (c, p) = (r, c', p')" and "synced plog p s"
  shows "case r of Inl _ \<Rightarrow> plog p' = plog p
         | Inr s' \<Rightarrow> synced plog p' s' \<and> (\<forall>y. y \<noteq> session_id s \<longrightarrow> plog p' y = plog p y)"
  using assms(1)
proof (cases rule: append_inner_cases)
  case (1 c1)
  then show ?thesis
    using append_under_gate_failed append_under_gate_synced [OF _ assms(2)]
    by (cases r) auto
qed simp

end

context live_persistence
begin

lemma append_under_gate_progress:
  assumes "append_checks cdc (ss_header s) (ss_state s) e x = Inr pr" and "synced plog p s"
  shows "\<exists>p'. append_under_gate cdc ops s e x (None, p) =
    (Inr (s\<lparr>ss_state := admit (ss_state s) e pr, ss_updates := ss_updates s @ [e]\<rparr>), None, p')"
proof -
  from assms(1) have "admission_checks cdc (ss_header s) (ss_state s) e = Inr pr"
    by (auto simp: append_checks_def)
  from admission_checks_Inr(1,2) [OF this] append_progress assms(2)
  obtain p' where "pe_append ops (session_id s) e (None, p) = (Inr (), None, p')"
    by (metis synced_def)
  with assms(1) show ?thesis by (simp add: append_under_gate_def io_bind_def)
qed

lemma append_progress_session:
  assumes "append_checks cdc (ss_header s) (ss_state s) e None = Inr pr" and "synced plog p s"
  shows "\<exists>p'. session_append cdc ops s e (None, p) =
    (Inr (s\<lparr>ss_state := admit (ss_state s) e pr, ss_updates := ss_updates s @ [e]\<rparr>), None, p')"
  using append_under_gate_progress [OF assms]
  by (simp add: session_append_def append_inner_def io_bind_def)

end

end
