(* ===== verification/Recovery.thy ===== *)
theory Recovery
  imports Sessions
begin

text \<open>
  Closing an interrupted turn (\<open>interrupted_turn_closers\<close> in \<open>src/src/session.rs\<close>): one pass
  over the committed log finds the open turn, its open step and the tool calls without a result; the
  closers are a synthetic result per such call, the end of the step and the end of the turn.
\<close>

section \<open>Scanning the log\<close>

record pending_call =
  pc_call_id :: string
  pc_step :: u64
  pc_call_seq :: "u64 option"

record turn_scan =
  sc_turn :: "u64 option"
  sc_step :: "u64 option"
  sc_pending :: "pending_call list"

definition no_turn :: turn_scan where
  "no_turn = \<lparr>sc_turn = None, sc_step = None, sc_pending = []\<rparr>"

definition surface_of :: "codec \<Rightarrow> session_event \<Rightarrow> session_error + surface_message" where
  "surface_of cdc e = and_then (decode_surface_event cdc e) (ok_or InvalidSurfaceMessage)"

fun called_ids :: "content_block list \<Rightarrow> string list" where
  "called_ids [] = []"
| "called_ids (ToolCall i name arguments # bs) = i # called_ids bs"
| "called_ids (_ # bs) = called_ids bs"

definition mark_called :: "string option \<Rightarrow> u64 \<Rightarrow> pending_call list \<Rightarrow> pending_call list" where
  "mark_called call_id seq pend =
     (case position (\<lambda>c. Some (pc_call_id c) = call_id) pend of
        None \<Rightarrow> pend
      | Some k \<Rightarrow> pend[k := (pend ! k)\<lparr>pc_call_seq := Some seq\<rparr>])"

fun drop_answered :: "message_source \<Rightarrow> pending_call list \<Rightarrow> pending_call list" where
  "drop_answered (SrcTool call_id) pend = filter (\<lambda>c. pc_call_id c \<noteq> call_id) pend"
| "drop_answered _ pend = pend"

definition scan_event :: "codec \<Rightarrow> turn_scan \<Rightarrow> session_event \<Rightarrow> session_error + turn_scan" where
  "scan_event cdc sc e =
     (if ev_type e = ''turn/start'' then
        and_then (turn_id e) (\<lambda>t. Inr \<lparr>sc_turn = Some t, sc_step = None, sc_pending = []\<rparr>)
      else if ev_type e = ''turn/end'' then Inr no_turn
      else if ev_type e = ''step/start'' then
        Inr (sc\<lparr>sc_step := get_u64 ''step'' (ev_data e)\<rparr>)
      else if ev_type e = ''step/end'' then Inr (sc\<lparr>sc_step := None, sc_pending := []\<rparr>)
      else if ev_type e = ''assistant/message'' then
        and_then (ok_or InvalidTurnLifecycle (get_u64 ''step'' (ev_data e))) (\<lambda>step.
        and_then (surface_of cdc e) (\<lambda>m.
        Inr (sc\<lparr>sc_pending := sc_pending sc @
               map (\<lambda>i. \<lparr>pc_call_id = i, pc_step = step, pc_call_seq = None\<rparr>)
                 (called_ids (msg_content (sm_message m)))\<rparr>)))
      else if ev_type e = ''tool/call'' then
        Inr (sc\<lparr>sc_pending :=
               mark_called (get_str ''callId'' (ev_data e)) (ev_seq e) (sc_pending sc)\<rparr>)
      else if ev_type e = ''tool/result'' then
        and_then (surface_of cdc e) (\<lambda>m.
        Inr (sc\<lparr>sc_pending := drop_answered (msg_source (sm_message m)) (sc_pending sc)\<rparr>))
      else Inr sc)"

definition scan_turns :: "codec \<Rightarrow> session_event list \<Rightarrow> session_error + turn_scan" where
  "scan_turns cdc events = try_fold (scan_event cdc) no_turn events"

section \<open>Closers\<close>

definition interrupted_message :: "pending_call \<Rightarrow> u64 \<Rightarrow> message" where
  "interrupted_message call seq =
     \<lparr>msg_id = ''interrupted-tool-result-'' @ pc_call_id call @ ''-'' @ show_nat seq,
      msg_role = User,
      msg_content =
        [ToolResult (pc_call_id call)
          [Text (if pc_call_seq call \<noteq> None
             then ''The tool call was interrupted after it was recorded, but no result was durably recorded. Its outcome is unknown. Decide whether to retry from the tool semantics: retry only if the operation is read-only or idempotent; if it may have side effects, first verify external state or ask the user. Do not retry blindly.''
             else ''The tool call was interrupted before the Harness recorded it as started. Retry it if it is still needed.'')]
          (Some True)],
      msg_source = SrcTool (pc_call_id call)\<rparr>"

definition result_closer :: "codec \<Rightarrow> u64 \<Rightarrow> u64 \<Rightarrow> pending_call \<Rightarrow> u64 \<Rightarrow> session_event" where
  "result_closer cdc turn time call seq =
     \<lparr>ev_type = ''tool/result'', ev_seq = seq, ev_time = time,
      ev_data = obj
        [(''turn'', jnat turn), (''step'', jnat (pc_step call)),
         (''message'', cd_message_to cdc (interrupted_message call seq)),
         (''error'',
          if pc_call_seq call \<noteq> None
          then obj [(''name'', JStr ''ToolOutcomeUnknownError''), (''code'', JStr ''TOOL_OUTCOME_UNKNOWN'')]
          else obj [(''name'', JStr ''ToolNotStartedError''), (''code'', JStr ''TOOL_NOT_STARTED'')])],
      ev_ignorable = None,
      ev_sources = map_option (\<lambda>n. [n]) (pc_call_seq call),
      ev_surface_op = Some SurfaceAppend\<rparr>"

definition step_closer :: "u64 \<Rightarrow> u64 \<Rightarrow> u64 \<Rightarrow> u64 \<Rightarrow> session_event" where
  "step_closer turn time step seq =
     \<lparr>ev_type = ''step/end'', ev_seq = seq, ev_time = time,
      ev_data = obj [(''turn'', jnat turn), (''step'', jnat step)],
      ev_ignorable = None, ev_sources = None, ev_surface_op = None\<rparr>"

definition turn_closer :: "u64 \<Rightarrow> u64 \<Rightarrow> u64 \<Rightarrow> session_event" where
  "turn_closer turn time seq =
     \<lparr>ev_type = ''turn/end'', ev_seq = seq, ev_time = time,
      ev_data = obj [(''turn'', jnat turn), (''reason'', obj [(''kind'', JStr ''interrupted'')]),
                     (''synthetic'', JBool True)],
      ev_ignorable = None, ev_sources = None, ev_surface_op = None\<rparr>"

fun result_closers ::
  "codec \<Rightarrow> u64 \<Rightarrow> u64 \<Rightarrow> u64 \<Rightarrow> pending_call list \<Rightarrow> session_error + session_event list \<times> u64" where
  "result_closers cdc turn time seq [] = Inr ([], seq)"
| "result_closers cdc turn time seq (call # calls) =
     and_then (ok_or SequenceExhausted (checked_add_u64 seq 1)) (\<lambda>seq'.
     and_then (result_closers cdc turn time seq' calls) (\<lambda>(es, n).
     Inr (result_closer cdc turn time call seq # es, n)))"

definition step_closers ::
  "u64 \<Rightarrow> u64 \<Rightarrow> u64 \<Rightarrow> u64 option \<Rightarrow> session_error + session_event list \<times> u64" where
  "step_closers turn time seq open_step =
     (case open_step of
        None \<Rightarrow> Inr ([], seq)
      | Some step \<Rightarrow>
          and_then (ok_or SequenceExhausted (checked_add_u64 seq 1)) (\<lambda>seq'.
          Inr ([step_closer turn time step seq], seq')))"

definition interrupted_turn_closers ::
  "codec \<Rightarrow> session_event list \<Rightarrow> session_error + session_event list" where
  "interrupted_turn_closers cdc events =
     and_then (scan_turns cdc events) (\<lambda>sc.
     case sc_turn sc of
       None \<Rightarrow> Inr []
     | Some turn \<Rightarrow>
         if events = [] then Inr []
         else
           let time = ev_time (last events)
           in and_then (ok_or SequenceExhausted (checked_add_u64 (ev_seq (last events)) 1)) (\<lambda>seq.
              and_then (result_closers cdc turn time seq (sc_pending sc)) (\<lambda>(rs, seq').
              and_then (step_closers turn time seq' (sc_step sc)) (\<lambda>(ss, seq'').
              Inr (rs @ ss @ [turn_closer turn time seq''])))))"

section \<open>Shape of the closers\<close>

lemma result_closers_Inr:
  "result_closers cdc turn time seq calls = Inr (es, n) \<Longrightarrow>
     n = seq + length calls
     \<and> es = map (\<lambda>(k, call). result_closer cdc turn time call k)
              (zip [seq ..< seq + length calls] calls)"
proof (induction calls arbitrary: seq es n)
  case (Cons call calls)
  then obtain es' where "result_closers cdc turn time (Suc seq) calls = Inr (es', n)"
    and es: "es = result_closer cdc turn time call seq # es'"
    by auto
  moreover have "[seq ..< seq + length (call # calls)] = seq # [Suc seq ..< Suc seq + length calls]"
    by (simp add: upt_conv_Cons del: upt_Suc)
  ultimately show ?case using Cons.IH [of "Suc seq" es' n] by (simp del: upt_Suc)
qed simp

lemma result_closers_ok:
  "seq + length calls \<le> u64_max \<Longrightarrow>
     \<exists>es. result_closers cdc turn time seq calls = Inr (es, seq + length calls)"
proof (induction calls arbitrary: seq)
  case (Cons call calls)
  have "Suc seq + length calls \<le> u64_max" using Cons.prems by simp
  from Cons.IH [OF this]
  obtain es where "result_closers cdc turn time (Suc seq) calls = Inr (es, Suc seq + length calls)" ..
  with Cons.prems show ?case by (simp add: checked_add_u64_def)
qed simp

lemma closers_cases:
  assumes "interrupted_turn_closers cdc es = Inr cl"
  obtains (closed) sc where "scan_turns cdc es = Inr sc" "sc_turn sc = None" "cl = []"
  | (interrupted) sc turn time n rs ss m where "scan_turns cdc es = Inr sc"
      "sc_turn sc = Some turn" "es \<noteq> []" "time = ev_time (last es)" "n = Suc (ev_seq (last es))"
      "result_closers cdc turn time n (sc_pending sc) = Inr (rs, n + length (sc_pending sc))"
      "step_closers turn time (n + length (sc_pending sc)) (sc_step sc) = Inr (ss, m)"
      "cl = rs @ ss @ [turn_closer turn time m]"
proof -
  from assms obtain sc where sc: "scan_turns cdc es = Inr sc"
    by (auto simp: interrupted_turn_closers_def)
  show ?thesis
  proof (cases "sc_turn sc")
    case None
    with assms sc show ?thesis by (intro closed) (auto simp: interrupted_turn_closers_def)
  next
    case (Some turn)
    have ne: "es \<noteq> []" using sc Some by (auto simp: scan_turns_def no_turn_def)
    with assms sc Some obtain rs k ss m where
      rs: "result_closers cdc turn (ev_time (last es)) (Suc (ev_seq (last es))) (sc_pending sc)
             = Inr (rs, k)" and
      ss: "step_closers turn (ev_time (last es)) k (sc_step sc) = Inr (ss, m)" and
      cl: "cl = rs @ ss @ [turn_closer turn (ev_time (last es)) m]"
      by (auto simp: interrupted_turn_closers_def Let_def)
    from result_closers_Inr [OF rs] have "k = Suc (ev_seq (last es)) + length (sc_pending sc)" by simp
    with sc Some ne rs ss cl show ?thesis by (intro interrupted) auto
  qed
qed

section \<open>The closers close the turn\<close>

lemma scan_event_progress:
  assumes "ev_type e \<in> {''tool/result'', ''step/end'', ''turn/end''}"
    and "decode_surface_event cdc e = Inr q"
  shows "\<exists>sc'. scan_event cdc sc e = Inr sc'"
proof (cases "ev_type e = ''tool/result''")
  case True
  then have "is_surface_event_type (ev_type e)" by (simp add: is_surface_event_type_def)
  then have "q \<noteq> None" using decode_surface_event_None assms(2) by metis
  with assms(2) have "\<exists>m. surface_of cdc e = Inr m" by (auto simp: surface_of_def)
  with True show ?thesis by (auto simp: scan_event_def)
next
  case False
  with assms(1) show ?thesis by (auto simp: scan_event_def)
qed

lemma try_scan_progress:
  assumes "\<forall>e\<in>set es. ev_type e \<in> {''tool/result'', ''step/end'', ''turn/end''}
      \<and> (\<exists>q. decode_surface_event cdc e = Inr q)"
  shows "\<exists>sc'. try_fold (scan_event cdc) sc es = Inr sc'"
  using assms
proof (induction es arbitrary: sc)
  case (Cons e es)
  then obtain sc1 where "scan_event cdc sc e = Inr sc1" using scan_event_progress by fastforce
  with Cons show ?case by auto
qed simp

lemma closer_types:
  assumes "interrupted_turn_closers cdc es = Inr cl" and "e \<in> set cl"
  shows "ev_type e \<in> {''tool/result'', ''step/end'', ''turn/end''}"
  using assms(1)
proof (cases rule: closers_cases)
  case closed
  with assms(2) show ?thesis by simp
next
  case (interrupted sc turn time n rs ss m)
  from interrupted(7) have "\<forall>e\<in>set ss. ev_type e = ''step/end''"
    by (auto simp: step_closers_def step_closer_def split: option.splits)
  moreover have "\<forall>e\<in>set rs. ev_type e = ''tool/result''"
    using result_closers_Inr [OF interrupted(6)] by (auto simp: result_closer_def)
  ultimately show ?thesis using assms(2) interrupted(8) by (auto simp: turn_closer_def)
qed

lemma closers_close:
  assumes "interrupted_turn_closers cdc es = Inr cl"
    and "\<forall>e\<in>set cl. \<exists>q. decode_surface_event cdc e = Inr q"
  shows "interrupted_turn_closers cdc (es @ cl) = Inr []"
  using assms(1)
proof (cases rule: closers_cases)
  case closed
  then show ?thesis by (simp add: interrupted_turn_closers_def)
next
  case (interrupted sc turn time n rs ss m)
  have "\<exists>sc'. try_fold (scan_event cdc) sc (rs @ ss) = Inr sc'"
    using assms interrupted(8) closer_types by (intro try_scan_progress) auto
  then obtain sc' where "try_fold (scan_event cdc) sc (rs @ ss) = Inr sc'" ..
  then have "try_fold (scan_event cdc) sc cl = Inr no_turn"
    using interrupted(8) by (auto simp: try_fold_append scan_event_def turn_closer_def)
  with interrupted(1) have "scan_turns cdc (es @ cl) = Inr no_turn"
    by (simp add: scan_turns_def try_fold_append)
  then show ?thesis by (simp add: interrupted_turn_closers_def no_turn_def)
qed

section \<open>The closers are admissible\<close>

text \<open>What the recovery relies on from the codec: decoding an encoded tool message gives the message
  back.\<close>

locale tool_message_codec =
  fixes cdc :: codec
  assumes tool_roundtrip:
    "msg_source m = SrcTool c \<Longrightarrow> cd_message_from cdc (cd_message_to cdc m) = Some m"

definition admit_next ::
  "codec \<Rightarrow> session_header \<Rightarrow> session_state \<Rightarrow> session_event \<Rightarrow> session_error + session_state" where
  "admit_next cdc h st e = and_then (append_checks cdc h st e None) (\<lambda>p. Inr (admit st e p))"

lemma admit_next_Inr:
  "append_checks cdc h st e None = Inr p \<Longrightarrow> admit_next cdc h st e = Inr (admit st e p)"
  by (simp add: admit_next_def)

lemma set_drop_answered: "set (drop_answered src pend) \<subseteq> set pend"
  by (cases src) auto

lemma scan_call_seqs:
  assumes "scan_turns cdc es = Inr sc" and "call \<in> set (sc_pending sc)" and "pc_call_seq call = Some n"
  shows "\<exists>e\<in>set es. ev_seq e = n"
proof -
  let ?P = "\<lambda>sc. \<forall>call\<in>set (sc_pending sc). \<forall>n. pc_call_seq call = Some n \<longrightarrow> (\<exists>e\<in>set es. ev_seq e = n)"
  have mark: "\<exists>e\<in>set es. ev_seq e = n"
    if "?P sc" and "e \<in> set es" and "call \<in> set (mark_called x (ev_seq e) (sc_pending sc))"
      and "pc_call_seq call = Some n" for sc e x call n
    using that set_update_subset_insert
    by (fastforce simp: mark_called_def split: option.splits dest!: position_Some)
  have "?P sc"
    using assms(1) unfolding scan_turns_def
  proof (rule try_fold_invariant)
    show "?P no_turn" by (simp add: no_turn_def)
    fix sc e sc'
    assume e: "e \<in> set es" and P: "?P sc" and step: "scan_event cdc sc e = Inr sc'"
    show "?P sc'"
    proof (cases "ev_type e = ''tool/call''")
      case True
      with step have "sc_pending sc' = mark_called (get_str ''callId'' (ev_data e)) (ev_seq e) (sc_pending sc)"
        by (auto simp: scan_event_def)
      with mark [OF P e] show ?thesis by metis
    next
      case False
      with step P show ?thesis
        using set_drop_answered
        by (auto simp: scan_event_def no_turn_def split: if_splits) blast+
    qed
  qed
  with assms(2,3) show ?thesis by blast
qed

lemma interrupted_message_valid: "\<not> blank (pc_call_id call) \<Longrightarrow> message_validate (interrupted_message call seq) = Inr ()"
  by (simp add: message_validate_def interrupted_message_def)

lemma workflow_other [simp]:
  "validate_tool_workflow_event cdc ''tool/result'' d = Inr ()"
  "validate_tool_workflow_event cdc ''step/end'' d = Inr ()"
  "validate_tool_workflow_event cdc ''turn/end'' d = Inr ()"
  by (simp_all add: validate_tool_workflow_event_def)

lemma known_closers [simp]:
  "is_known_event_type ''tool/result''" "is_known_event_type ''step/end''"
  "is_known_event_type ''turn/end''"
  by (simp_all add: is_known_event_type_def known_event_types_def)

lemma result_closer_checks:
  assumes rt: "tool_message_codec cdc" and id: "\<not> blank (pc_call_id call)"
    and next_s: "next_seq (st_events st) = Inr seq" and room: "seq \<le> MAX_SAFE_INTEGER"
    and time: "time \<le> MAX_SAFE_INTEGER"
    and src: "\<And>n. pc_call_seq call = Some n \<Longrightarrow> n < seq \<and> (\<exists>e\<in>set (st_events st). ev_seq e = n)"
  shows "\<exists>q. append_checks cdc h st (result_closer cdc turn time call seq) None = Inr (Some q)"
proof -
  let ?e = "result_closer cdc turn time call seq"
  have types: "ev_type ?e = ''tool/result''" "ev_surface_op ?e = Some SurfaceAppend" "ev_seq ?e = seq"
    by (simp_all add: result_closer_def)
  have "event_validate cdc ?e = Inr ()"
    using room time src
    by (auto simp: event_validate_def result_closer_def is_surface_event_type_def
        validate_surface_metadata_def split: option.splits)
  moreover have "validate_sources ?e (st_events st) = Inr ()"
    using src by (auto simp: validate_sources_def result_closer_def list_ex_iff split: option.splits)
  moreover have "\<exists>q. decode_surface_event cdc ?e = Inr (Some q)"
    using rt id interrupted_message_valid [OF id, of seq]
    by (simp add: decode_surface_event_def result_closer_def surface_role_def tool_message_codec_def
        interrupted_message_def)
  moreover have "validate_seed_boundary h a b c ?e = Inr ()" for a b c
    by (simp add: validate_seed_boundary_def types)
  moreover have "\<not> is_inbox_event ?e"
    by (simp add: is_inbox_event_def types INBOX_ENQUEUED_EVENT_def INBOX_SPLICED_EVENT_def)
  ultimately show ?thesis
    using next_s types
    by (auto simp: append_checks_def admission_checks_def validate_surface_operation_def)
qed

lemma plain_closer_checks:
  assumes "ev_type e \<in> {''step/end'', ''turn/end''}" and "ev_sources e = None"
    and "ev_surface_op e = None" and "ev_ignorable e = None"
    and "next_seq (st_events st) = Inr (ev_seq e)" and "ev_seq e \<le> MAX_SAFE_INTEGER"
    and "ev_time e \<le> MAX_SAFE_INTEGER"
  shows "append_checks cdc h st e None = Inr None"
proof -
  have "\<not> is_surface_event_type (ev_type e)"
    using assms(1) by (auto simp: is_surface_event_type_def)
  moreover from this have "event_validate cdc e = Inr ()"
    using assms by (auto simp: event_validate_def)
  moreover have "\<not> is_inbox_event e"
    using assms(1) by (auto simp: is_inbox_event_def INBOX_ENQUEUED_EVENT_def INBOX_SPLICED_EVENT_def)
  moreover have "validate_seed_boundary h a b c e = Inr ()" for a b c
    using assms(1) by (auto simp: validate_seed_boundary_def)
  ultimately show ?thesis
    using assms
    by (simp add: append_checks_def admission_checks_def decode_non_surface validate_sources_def
        validate_surface_operation_def)
qed

lemma next_seq_snoc: "ev_seq e \<le> MAX_SAFE_INTEGER \<Longrightarrow> next_seq (es @ [e]) = Inr (Suc (ev_seq e))"
  by (simp add: next_seq_def checked_add_u64_def MAX_SAFE_INTEGER_def u64_max_def)

lemma result_closers_admissible:
  assumes "tool_message_codec cdc" and "result_closers cdc turn time seq calls = Inr (rs, m)"
    and "\<forall>call\<in>set calls. \<not> blank (pc_call_id call) \<and> (\<forall>n. pc_call_seq call = Some n \<longrightarrow>
           n < seq \<and> (\<exists>e\<in>set (st_events st). ev_seq e = n))"
    and "next_seq (st_events st) = Inr seq" and "m \<le> MAX_SAFE_INTEGER" and "time \<le> MAX_SAFE_INTEGER"
  shows "\<exists>st'. try_fold (admit_next cdc h) st rs = Inr st' \<and> next_seq (st_events st') = Inr m"
  using assms(2-5)
proof (induction calls arbitrary: seq st rs)
  case (Cons call calls)
  from Cons.prems(1) obtain rs' where rs': "result_closers cdc turn time (Suc seq) calls = Inr (rs', m)"
    and rs: "rs = result_closer cdc turn time call seq # rs'"
    by auto
  let ?e = "result_closer cdc turn time call seq"
  have m: "m = Suc seq + length calls" using result_closers_Inr [OF rs'] by simp
  then have room: "seq \<le> MAX_SAFE_INTEGER" using Cons.prems(4) by simp
  obtain q where q: "append_checks cdc h st ?e None = Inr (Some q)"
    using result_closer_checks [OF assms(1) _ Cons.prems(3) room assms(6)] Cons.prems(2)
    by (metis list.set_intros(1))
  let ?st = "admit st ?e (Some q)"
  have n: "next_seq (st_events ?st) = Inr (Suc seq)"
    using next_seq_snoc [of ?e "st_events st"] room by (simp add: result_closer_def)
  obtain st' where "try_fold (admit_next cdc h) ?st rs' = Inr st'" "next_seq (st_events st') = Inr m"
    using Cons.IH [OF rs' _ n Cons.prems(4)] Cons.prems(2) by fastforce
  with rs admit_next_Inr [OF q] show ?case by simp
qed auto

lemma closers_admissible:
  assumes rt: "tool_message_codec cdc" and cl: "interrupted_turn_closers cdc es = Inr cl"
    and st: "build_state cdc h es = Inr st"
    and ids: "\<And>sc call. scan_turns cdc es = Inr sc \<Longrightarrow> call \<in> set (sc_pending sc) \<Longrightarrow>
           \<not> blank (pc_call_id call)"
    and room: "length es + length cl \<le> Suc MAX_SAFE_INTEGER"
  shows "\<exists>st'. try_fold (admit_next cdc h) st cl = Inr st'"
  using cl
proof (cases rule: closers_cases)
  case closed
  then show ?thesis by simp
next
  case (interrupted sc turn time n rs ss m)
  have ev: "st_events st = es" using build_state_events [OF st] .
  have wf: "seqs_contiguous es" using build_state_wf [OF st] ev by (simp add: session_wf_def)
  have len: "ev_seq (last es) = length es - 1"
    using interrupted(3) by (simp add: last_conv_nth seqs_contiguous_nth [OF wf])
  then have n: "n = length es" using interrupted(3,5) by (cases es) simp_all
  have last_ok: "event_validate cdc (last es) = Inr ()"
    using build_state_validated [OF st] interrupted(3) by simp
  then have time: "time \<le> MAX_SAFE_INTEGER" using interrupted(4) by (auto simp: event_validate_def)
  have lrs: "length rs = length (sc_pending sc)" using result_closers_Inr [OF interrupted(6)] by simp
  have m: "m = length es + length rs + length ss"
    using interrupted(7) n lrs by (auto simp: step_closers_def split: option.splits)
  have room': "m \<le> MAX_SAFE_INTEGER" using room interrupted(8) m by simp
  have nx: "next_seq (st_events st) = Inr n"
    using next_seq_snoc [of "last es" "butlast es"] event_validate_seq [OF last_ok] interrupted(3,5) ev
    by simp
  have calls: "\<forall>call\<in>set (sc_pending sc). \<not> blank (pc_call_id call) \<and>
      (\<forall>k. pc_call_seq call = Some k \<longrightarrow> k < n \<and> (\<exists>e\<in>set (st_events st). ev_seq e = k))"
    using ids [OF interrupted(1)] scan_call_seqs [OF interrupted(1)] ev n seqs_contiguous_nth [OF wf]
    by (metis in_set_conv_nth)
  have "n + length (sc_pending sc) \<le> MAX_SAFE_INTEGER" using room' m n lrs by simp
  from result_closers_admissible [OF rt interrupted(6) calls nx this time]
  obtain st1 where st1: "try_fold (admit_next cdc h) st rs = Inr st1"
    and nx1: "next_seq (st_events st1) = Inr (n + length (sc_pending sc))" by blast
  have "\<exists>st2. try_fold (admit_next cdc h) st1 ss = Inr st2 \<and> next_seq (st_events st2) = Inr m"
  proof (cases "sc_step sc")
    case None
    with interrupted(7) nx1 show ?thesis by (auto simp: step_closers_def)
  next
    case (Some step)
    let ?e = "step_closer turn time step (n + length (sc_pending sc))"
    from Some interrupted(7) have ss: "ss = [?e]" and m': "m = Suc (n + length (sc_pending sc))"
      by (auto simp: step_closers_def)
    have "append_checks cdc h st1 ?e None = Inr None"
      using nx1 room' time m' by (intro plain_closer_checks) (auto simp: step_closer_def)
    from admit_next_Inr [OF this] show ?thesis
      using ss m' room' next_seq_snoc [of ?e "st_events st1"] by (simp add: step_closer_def)
  qed
  then obtain st2 where st2: "try_fold (admit_next cdc h) st1 ss = Inr st2"
    and nx2: "next_seq (st_events st2) = Inr m" by blast
  have "append_checks cdc h st2 (turn_closer turn time m) None = Inr None"
    using nx2 room' time by (intro plain_closer_checks) (auto simp: turn_closer_def)
  from admit_next_Inr [OF this] st1 st2 interrupted(8) show ?thesis by (simp add: try_fold_append)
qed

end
