(* ===== verification/Wire_Codec.thy ===== *)
theory Wire_Codec
  imports Recovery
begin

text \<open>
  The wire format the serde attributes of \<open>src/src/protocol.rs\<close> prescribe for \<open>Message\<close> and the
  workflow payloads: tags \<open>type\<close> and \<open>kind\<close>, kebab-case variants, camelCase fields, omitted
  optional fields and no unknown fields. Only the object forms that the program writes are decoded here.
  It is the concrete codec at which the theorems over an arbitrary codec are applied, and it interprets
  the contract \<open>tool_message_codec\<close>.
\<close>

section \<open>Fields\<close>

definition fields :: "(string \<times> json option) list \<Rightarrow> json" where
  "fields kvs = obj (map (\<lambda>(k, v). (k, the v)) (filter (\<lambda>(k, v). v \<noteq> None) kvs))"

definition only_keys :: "string list \<Rightarrow> json \<Rightarrow> bool" where
  "only_keys ks v = (case as_object v of None \<Rightarrow> False | Some kvs \<Rightarrow> list_all (\<lambda>kv. fst kv \<in> set ks) kvs)"

definition opt_field :: "(json \<Rightarrow> 'a option) \<Rightarrow> string \<Rightarrow> json \<Rightarrow> 'a option option" where
  "opt_field dec k v =
     (case json_get k v of
        None \<Rightarrow> Some None
      | Some JNull \<Rightarrow> Some None
      | Some w \<Rightarrow> map_option Some (dec w))"

definition get_bool :: "json \<Rightarrow> bool option" where
  "get_bool v = as_bool v"

lemma keys_foldl_insert:
  "fst ` set (foldl (\<lambda>m (k, v). bt_insert k v m) m kvs) = fst ` set m \<union> fst ` set kvs"
  by (induction kvs arbitrary: m) (simp_all add: case_prod_beta)

lemma only_keys_obj [simp]: "only_keys ks (obj kvs) = (fst ` set kvs \<subseteq> set ks)"
proof -
  have "list_all (\<lambda>kv. fst kv \<in> set ks) m = (fst ` set m \<subseteq> set ks)" for m :: entries
    by (auto simp: list_all_iff)
  then show ?thesis by (simp add: only_keys_def obj_def keys_foldl_insert)
qed

lemma json_get_smaller: "json_get k v = Some w \<Longrightarrow> size w < size v"
proof -
  assume "json_get k v = Some w"
  then obtain kvs where v: "v = JObj kvs" and "map_of kvs k = Some w"
    by (auto simp: json_get_def bind_eq_Some_conv)
  then have kw: "(k, w) \<in> set kvs" by (simp add: map_of_SomeD)
  have "size w \<le> size_list (size_prod (\<lambda>_. 0) size) kvs"
    using kw by (induction kvs) auto
  with v show ?thesis by simp
qed

section \<open>Content blocks\<close>

fun enc_block :: "content_block \<Rightarrow> json" where
  "enc_block (Text t) = obj [(''type'', JStr ''text''), (''text'', JStr t)]"
| "enc_block (Reasoning t) = obj [(''type'', JStr ''reasoning''), (''text'', JStr t)]"
| "enc_block (Image v) = obj [(''type'', JStr ''image''), (''attachment'', v)]"
| "enc_block (ToolCall i n a) =
     obj [(''type'', JStr ''tool-call''), (''id'', JStr i), (''name'', JStr n), (''arguments'', JStr a)]"
| "enc_block (ToolResult i bs b) =
     fields [(''type'', Some (JStr ''tool-result'')), (''toolCallId'', Some (JStr i)),
             (''content'', Some (JArr (map enc_block bs))), (''isError'', map_option JBool b)]"

function dec_block :: "json \<Rightarrow> content_block option" where
  "dec_block v =
     (case get_str ''type'' v of
        None \<Rightarrow> None
      | Some t \<Rightarrow>
          if t = ''text'' \<and> only_keys [''type'', ''text''] v then map_option Text (get_str ''text'' v)
          else if t = ''reasoning'' \<and> only_keys [''type'', ''text''] v
          then map_option Reasoning (get_str ''text'' v)
          else if t = ''image'' \<and> only_keys [''type'', ''attachment''] v
          then map_option Image (json_get ''attachment'' v)
          else if t = ''tool-call'' \<and> only_keys [''type'', ''id'', ''name'', ''arguments''] v
          then Option.bind (get_str ''id'' v) (\<lambda>i.
               Option.bind (get_str ''name'' v) (\<lambda>n.
               map_option (ToolCall i n) (get_str ''arguments'' v)))
          else if t = ''tool-result'' \<and> only_keys [''type'', ''toolCallId'', ''content'', ''isError''] v
          then Option.bind (get_str ''toolCallId'' v) (\<lambda>i.
               Option.bind (opt_field as_bool ''isError'' v) (\<lambda>b.
               case json_get ''content'' v of
                 Some (JArr xs) \<Rightarrow> map_option (\<lambda>bs. ToolResult i bs b) (those (map dec_block xs))
               | _ \<Rightarrow> None))
          else None)"
  by pat_completeness auto
termination
proof (relation "measure size")
  fix v t i b u xs x
  assume "json_get ''content'' v = Some u" and "u = JArr xs" and x: "x \<in> set xs"
  then have "size (JArr xs) < size v" using json_get_smaller by blast
  moreover have "size x < size (JArr xs)" using x by (simp add: size_list_estimation' le_imp_less_Suc)
  ultimately show "(x, v) \<in> measure size" by simp
qed simp

declare dec_block.simps [simp del]

section \<open>Sources\<close>

fun enc_form :: "context_form \<Rightarrow> json" where
  "enc_form Instructions = JStr ''instructions''"
| "enc_form Catalog = JStr ''catalog''"
| "enc_form Snapshot = JStr ''snapshot''"
| "enc_form Notice = JStr ''notice''"
| "enc_form Relay = JStr ''relay''"
| "enc_form Recall = JStr ''recall''"

definition dec_form :: "json \<Rightarrow> context_form option" where
  "dec_form v =
     find_first (\<lambda>f. enc_form f = v) [Instructions, Catalog, Snapshot, Notice, Relay, Recall]"

definition enc_section :: "context_snapshot_section \<Rightarrow> json" where
  "enc_section s = obj [(''name'', JStr (sec_name s)), (''text'', JStr (sec_text s))]"

definition dec_section :: "json \<Rightarrow> context_snapshot_section option" where
  "dec_section v =
     (if only_keys [''name'', ''text''] v
      then Option.bind (get_str ''name'' v) (\<lambda>n.
           map_option (\<lambda>t. \<lparr>sec_name = n, sec_text = t\<rparr>) (get_str ''text'' v))
      else None)"

definition dec_sections :: "json \<Rightarrow> context_snapshot_section list option" where
  "dec_sections v = (case v of JArr xs \<Rightarrow> those (map dec_section xs) | _ \<Rightarrow> None)"

fun enc_source :: "message_source \<Rightarrow> json" where
  "enc_source (SrcGoal g r n) =
     obj [(''kind'', JStr ''goal''), (''goalId'', JStr g), (''revision'', jnat r), (''round'', jnat n)]"
| "enc_source (SrcUser z) =
     fields [(''kind'', Some (JStr ''user'')), (''clientTimeZone'', map_option JStr z)]"
| "enc_source (SrcPlugin p c f ss s) =
     fields [(''kind'', Some (JStr ''plugin'')), (''plugin'', Some (JStr p)),
             (''compactionId'', map_option JStr c), (''form'', map_option enc_form f),
             (''sections'', map_option (\<lambda>xs. JArr (map enc_section xs)) ss),
             (''summary'', map_option JStr s)]"
| "enc_source (SrcSkillInvocation n f) =
     obj [(''kind'', JStr ''skill-invocation''), (''name'', JStr n), (''form'', enc_form f)]"
| "enc_source (SrcModel p m r) =
     fields [(''kind'', Some (JStr ''model'')), (''provider'', Some (JStr p)),
             (''model'', Some (JStr m)), (''replayState'', r)]"
| "enc_source (SrcTool c) = obj [(''kind'', JStr ''tool''), (''callId'', JStr c)]"

definition dec_source :: "json \<Rightarrow> message_source option" where
  "dec_source v =
     (case get_str ''kind'' v of
        None \<Rightarrow> None
      | Some k \<Rightarrow>
          if k = ''goal'' \<and> only_keys [''kind'', ''goalId'', ''revision'', ''round''] v
          then Option.bind (get_str ''goalId'' v) (\<lambda>g.
               Option.bind (get_u64 ''revision'' v) (\<lambda>r.
               map_option (SrcGoal g r) (get_u64 ''round'' v)))
          else if k = ''user'' \<and> only_keys [''kind'', ''clientTimeZone''] v
          then map_option SrcUser (opt_field as_str ''clientTimeZone'' v)
          else if k = ''plugin''
            \<and> only_keys [''kind'', ''plugin'', ''compactionId'', ''form'', ''sections'', ''summary''] v
          then Option.bind (get_str ''plugin'' v) (\<lambda>p.
               Option.bind (opt_field as_str ''compactionId'' v) (\<lambda>c.
               Option.bind (opt_field dec_form ''form'' v) (\<lambda>f.
               Option.bind (opt_field dec_sections ''sections'' v) (\<lambda>ss.
               map_option (SrcPlugin p c f ss) (opt_field as_str ''summary'' v)))))
          else if k = ''skill-invocation'' \<and> only_keys [''kind'', ''name'', ''form''] v
          then Option.bind (get_str ''name'' v) (\<lambda>n.
               map_option (SrcSkillInvocation n) (Option.bind (json_get ''form'' v) dec_form))
          else if k = ''model'' \<and> only_keys [''kind'', ''provider'', ''model'', ''replayState''] v
          then Option.bind (get_str ''provider'' v) (\<lambda>p.
               Option.bind (get_str ''model'' v) (\<lambda>m.
               map_option (SrcModel p m) (opt_field Some ''replayState'' v)))
          else if k = ''tool'' \<and> only_keys [''kind'', ''callId''] v
          then map_option SrcTool (get_str ''callId'' v)
          else None)"

section \<open>Messages\<close>

fun enc_role :: "message_role \<Rightarrow> json" where
  "enc_role System = JStr ''system''"
| "enc_role User = JStr ''user''"
| "enc_role Assistant = JStr ''assistant''"

definition dec_role :: "json \<Rightarrow> message_role option" where
  "dec_role v = find_first (\<lambda>r. enc_role r = v) [System, User, Assistant]"

definition enc_message :: "message \<Rightarrow> json" where
  "enc_message m =
     obj [(''id'', JStr (msg_id m)), (''role'', enc_role (msg_role m)),
          (''content'', JArr (map enc_block (msg_content m))),
          (''source'', enc_source (msg_source m))]"

definition dec_message :: "json \<Rightarrow> message option" where
  "dec_message v =
     (if only_keys [''id'', ''role'', ''content'', ''source''] v
      then Option.bind (get_str ''id'' v) (\<lambda>i.
           Option.bind (Option.bind (json_get ''role'' v) dec_role) (\<lambda>r.
           Option.bind (Option.bind (json_get ''source'' v) dec_source) (\<lambda>s.
           case json_get ''content'' v of
             Some (JArr xs) \<Rightarrow>
               map_option (\<lambda>bs. \<lparr>msg_id = i, msg_role = r, msg_content = bs, msg_source = s\<rparr>)
                 (those (map dec_block xs))
           | _ \<Rightarrow> None)))
      else None)"

section \<open>Round trip\<close>

lemma those_map_Some: "\<forall>x\<in>set xs. f (g x) = Some x \<Longrightarrow> those (map f (map g xs)) = Some xs"
  by (induction xs) auto

lemma dec_enc_block: "dec_block (enc_block b) = Some b"
proof (induction b)
  case (ToolResult i bs b)
  then have "those (map dec_block (map enc_block bs)) = Some bs" by (simp add: those_map_Some del: map_map)
  then show ?case
    by (cases b) (simp_all add: dec_block.simps [of "obj _"] fields_def get_str_def opt_field_def)
qed (simp_all add: dec_block.simps [of "obj _"] get_str_def)

lemma dec_enc_form [simp]: "dec_form (enc_form f) = Some f"
  by (cases f) (simp_all add: dec_form_def find_first_def)

lemma enc_form_neq [simp]: "enc_form f \<noteq> JNull"
  by (cases f) simp_all

lemma dec_enc_role [simp]: "dec_role (enc_role r) = Some r"
  by (cases r) (simp_all add: dec_role_def find_first_def)

lemma dec_enc_source_tool: "dec_source (enc_source (SrcTool c)) = Some (SrcTool c)"
  by (simp add: dec_source_def get_str_def)

lemma dec_enc_message_tool:
  "msg_source m = SrcTool c \<Longrightarrow> dec_message (enc_message m) = Some m"
  using those_map_Some [of "msg_content m" dec_block enc_block] dec_enc_source_tool [of c]
  by (simp add: dec_message_def enc_message_def get_str_def dec_enc_block del: map_map)

section \<open>Workflow payloads\<close>

definition dec_run_start :: "json \<Rightarrow> string + workflow_run_start" where
  "dec_run_start v =
     (case (get_str ''runId'' v, get_str ''name'' v) of
        (Some r, Some n) \<Rightarrow>
          if only_keys [''runId'', ''name''] v then Inr \<lparr>rs_run_id = r, rs_name = n\<rparr>
          else Inl ''unknown field''
      | _ \<Rightarrow> Inl ''missing field'')"

definition dec_agent_start :: "json \<Rightarrow> string + workflow_agent_start" where
  "dec_agent_start v =
     (case (get_str ''runId'' v, get_u64 ''seq'' v, get_str ''label'' v,
            opt_field as_str ''phase'' v, get_str ''childId'' v) of
        (Some r, Some n, Some l, Some p, Some c) \<Rightarrow>
          if only_keys [''runId'', ''seq'', ''label'', ''phase'', ''childId''] v
          then Inr \<lparr>as_run_id = r, as_seq = n, as_label = l, as_phase = p, as_child_id = c\<rparr>
          else Inl ''unknown field''
      | _ \<Rightarrow> Inl ''missing field'')"

definition dec_outcome :: "string \<Rightarrow> workflow_agent_outcome option" where
  "dec_outcome s =
     (if s = ''completed'' then Some AgentCompleted else if s = ''failed'' then Some AgentFailed
      else if s = ''cancelled'' then Some AgentCancelled else None)"

definition dec_agent_end :: "json \<Rightarrow> string + workflow_agent_end" where
  "dec_agent_end v =
     (case (get_str ''runId'' v, get_u64 ''seq'' v, Option.bind (get_str ''outcome'' v) dec_outcome) of
        (Some r, Some n, Some out) \<Rightarrow>
          if only_keys [''runId'', ''seq'', ''outcome''] v
          then Inr \<lparr>ae_run_id = r, ae_seq = n, ae_outcome = out\<rparr>
          else Inl ''unknown field''
      | _ \<Rightarrow> Inl ''missing field'')"

definition dec_stop_reason :: "string \<Rightarrow> workflow_stop_reason option" where
  "dec_stop_reason s =
     (if s = ''completed'' then Some StopCompleted else if s = ''cancelled'' then Some StopCancelled
      else if s = ''error'' then Some StopError else None)"

definition dec_run_end :: "json \<Rightarrow> string + workflow_run_end" where
  "dec_run_end v =
     (case (get_str ''runId'' v, Option.bind (get_str ''stopReason'' v) dec_stop_reason) of
        (Some r, Some s) \<Rightarrow>
          if only_keys [''runId'', ''stopReason''] v then Inr \<lparr>re_run_id = r, re_stop_reason = s\<rparr>
          else Inl ''unknown field''
      | _ \<Rightarrow> Inl ''missing field'')"

definition wire_codec :: codec where
  "wire_codec =
     \<lparr>cd_message_from = dec_message, cd_message_to = enc_message, cd_run_start = dec_run_start,
      cd_agent_start = dec_agent_start, cd_agent_end = dec_agent_end, cd_run_end = dec_run_end\<rparr>"

interpretation wire: tool_message_codec wire_codec
  by unfold_locales (simp add: wire_codec_def dec_enc_message_tool)

end
