(* ===== verification/Session_Store.thy ===== *)
theory Session_Store
  imports Wire_Codec
begin

text \<open>
  The collection of live sessions (\<open>SessionStore\<close> in \<open>src/src/session.rs\<close>): creating, seeding,
  restoring, reading, listing and evicting sessions over a persistence backend, the transitions these
  operations and the appends of live sessions induce, and what holds in every reachable state. A
  resident session is shared (\<open>Arc<Session>\<close>), so an append through any handle is an update of the
  entry of the live map.
\<close>

section \<open>Operations\<close>

datatype restore_mode = RestoreLive | RestoreMetadata | RestoreCold

type_synonym live_sessions = "(string \<times> session) list"

definition ensure_not_live :: "live_sessions \<Rightarrow> string \<Rightarrow> session_error + unit" where
  "ensure_not_live live x =
     (if map_of live x \<noteq> None then Inl (DuplicateLive x) else Inr ())"

definition insert_live ::
  "live_sessions \<Rightarrow> string \<Rightarrow> session \<Rightarrow> session_error + live_sessions" where
  "insert_live live x s =
     (if map_of live x \<noteq> None then Inl (DuplicateLive x) else Inr (bt_insert x s live))"

definition store_create ::
  "codec \<Rightarrow> 'p persistence \<Rightarrow> live_sessions \<Rightarrow> session_header
     \<Rightarrow> ('p, session \<times> live_sessions) io" where
  "store_create cdc ops live h =
     io_bind io_poll (\<lambda>_.
     io_bind (io_lift (validate_header h)) (\<lambda>_.
     if seed_length_of h \<noteq> 0 then io_lift (Inl SeedRequiresEvents)
     else
       io_bind (io_lift (ensure_not_live live (hd_id h))) (\<lambda>_.
       io_bind (pe_create ops h) (\<lambda>_.
       io_bind (io_lift (from_committed cdc h [])) (\<lambda>s.
       io_bind (io_lift (insert_live live (hd_id h) s)) (\<lambda>live'.
       io_return (s, live')))))))"

definition store_create_seeded ::
  "codec \<Rightarrow> 'p persistence \<Rightarrow> live_sessions \<Rightarrow> session_header \<Rightarrow> session_event list
     \<Rightarrow> ('p, session \<times> live_sessions) io" where
  "store_create_seeded cdc ops live h seed =
     io_bind io_poll (\<lambda>_.
     io_bind (io_lift (validate_header h)) (\<lambda>_.
     if hd_seed_length h \<noteq> Some (length seed)
     then io_lift (Inl (InvalidSeedLength (seed_length_of h) (length seed)))
     else
       io_bind (io_lift (from_committed cdc h seed)) (\<lambda>s.
       io_bind (io_lift (ensure_not_live live (hd_id h))) (\<lambda>_.
       io_bind (pe_create_seeded ops h seed) (\<lambda>_.
       io_bind (io_lift (insert_live live (hd_id h) s)) (\<lambda>live'.
       io_return (s, live')))))))"

fun append_closers ::
  "codec \<Rightarrow> 'p persistence \<Rightarrow> session \<Rightarrow> session_event list \<Rightarrow> ('p, session) io" where
  "append_closers cdc ops s [] = io_return s"
| "append_closers cdc ops s (e # es) =
     io_bind (session_append cdc ops s e) (\<lambda>s'. append_closers cdc ops s' es)"

definition store_restore ::
  "codec \<Rightarrow> 'p persistence \<Rightarrow> live_sessions \<Rightarrow> string \<Rightarrow> restore_mode
     \<Rightarrow> ('p, session \<times> live_sessions) io" where
  "store_restore cdc ops live x mode =
     io_bind io_poll (\<lambda>_.
     io_bind (io_lift (ensure_not_live live x)) (\<lambda>_.
     io_bind (pe_load ops x) (\<lambda>loaded.
     io_bind (io_lift (ok_or (NotFound x) loaded)) (\<lambda>h.
     io_bind (io_lift (validate_header h)) (\<lambda>_.
     if hd_id h \<noteq> x then io_lift (Inl HeaderIdMismatch)
     else
       io_bind (pe_read_from ops x 0) (\<lambda>events.
       io_bind (io_lift (from_committed cdc h events)) (\<lambda>s.
       io_bind (io_lift (interrupted_turn_closers cdc (session_events s))) (\<lambda>closers.
       if closers \<noteq> [] \<and> mode = RestoreLive then io_lift (Inl OrphanTurn)
       else
         io_bind (if mode = RestoreCold then append_closers cdc ops s closers
                  else io_return s) (\<lambda>s'.
         io_bind (io_lift (insert_live live x s')) (\<lambda>live'.
         io_return (s', live')))))))))))"

definition store_get :: "live_sessions \<Rightarrow> string \<Rightarrow> session option" where
  "store_get live x = map_of live x"

definition store_list :: "live_sessions \<Rightarrow> session list" where
  "store_list live = map snd live"

definition store_remove :: "live_sessions \<Rightarrow> string \<Rightarrow> live_sessions" where
  "store_remove live x = bt_remove x live"

definition store_snapshot ::
  "codec \<Rightarrow> 'p persistence \<Rightarrow> live_sessions \<Rightarrow> string
     \<Rightarrow> ('p, (session_header \<times> session_event list) option) io" where
  "store_snapshot cdc ops live x =
     io_bind io_poll (\<lambda>_.
     case store_get live x of
       Some s \<Rightarrow> io_return (Some (ss_header s, session_events s))
     | None \<Rightarrow>
         io_bind (pe_load ops x) (\<lambda>loaded.
         case loaded of
           None \<Rightarrow> io_return None
         | Some h \<Rightarrow>
             io_bind (pe_read_from ops x 0) (\<lambda>events.
             io_bind (io_lift (from_committed cdc h events)) (\<lambda>s.
             io_return (Some (ss_header s, session_events s))))))"

text \<open>The deletion of a session: the durable record first, then the resident copy, the two calls with
  which the deletion of a subagent in \<open>src/src/subagent.rs\<close> ends once its own guards have passed.\<close>

definition store_delete ::
  "'p persistence \<Rightarrow> live_sessions \<Rightarrow> string \<Rightarrow> ('p, live_sessions) io" where
  "store_delete ops live x =
     io_bind (pe_delete ops x) (\<lambda>_. io_return (store_remove live x))"

section \<open>Transitions\<close>

definition live_after ::
  "live_sessions \<Rightarrow> session_error + session \<times> live_sessions \<Rightarrow> live_sessions" where
  "live_after live r = (case r of Inl _ \<Rightarrow> live | Inr (s, live') \<Rightarrow> live')"

definition updated :: "live_sessions \<Rightarrow> string \<Rightarrow> session_error + session \<Rightarrow> live_sessions" where
  "updated live x r = (case r of Inl _ \<Rightarrow> live | Inr s \<Rightarrow> bt_insert x s live)"

inductive store_step ::
  "codec \<Rightarrow> 'p persistence \<Rightarrow> live_sessions \<times> 'p \<Rightarrow> live_sessions \<times> 'p \<Rightarrow> bool"
  for cdc :: codec and ops :: "'p persistence"
  where
  create: "store_create cdc ops live h (c, p) = (r, c', p') \<Longrightarrow>
    store_step cdc ops (live, p) (live_after live r, p')"
| seeded: "store_create_seeded cdc ops live h seed (c, p) = (r, c', p') \<Longrightarrow>
    store_step cdc ops (live, p) (live_after live r, p')"
| restore: "store_restore cdc ops live x mode (c, p) = (r, c', p') \<Longrightarrow>
    store_step cdc ops (live, p) (live_after live r, p')"
| append: "store_get live x = Some s \<Longrightarrow>
    append_inner cdc ops s e expected (c, p) = (r, c', p') \<Longrightarrow>
    store_step cdc ops (live, p) (updated live x r, p')"
| append_new: "store_get live x = Some s \<Longrightarrow>
    append_next_if_surface cdc ops s build expected (c, p) = (r, c', p') \<Longrightarrow>
    store_step cdc ops (live, p) (updated live x (map_sum id snd r), p')"
| flush: "store_get live x = Some s \<Longrightarrow> session_flush ops s (c, p) = (r, c', p') \<Longrightarrow>
    store_step cdc ops (live, p) (live, p')"
| delete: "store_delete ops live x (c, p) = (r, c', p') \<Longrightarrow>
    store_step cdc ops (live, p) (case r of Inl _ \<Rightarrow> live | Inr live' \<Rightarrow> live', p')"
| evict: "store_step cdc ops (live, p) ([], p)"

inductive_cases store_stepE: "store_step cdc ops (live, p) (live', p')"

text \<open>\<open>evict\<close> is the end of the process: a new one starts with no live session over the same
  durable state.\<close>

section \<open>The invariant of the store\<close>

text \<open>Every durable log rebuilds; every live session is under its own id, is what its log rebuilds to,
  and has exactly the durable log.\<close>

type_synonym logs = "string \<Rightarrow> (session_header \<times> session_event list) option"

definition durable_ok :: "codec \<Rightarrow> logs \<Rightarrow> bool" where
  "durable_ok cdc pl \<longleftrightarrow>
     (\<forall>x h es. pl x = Some (h, es) \<longrightarrow> hd_id h = x \<and> (\<exists>st. build_state cdc h es = Inr st))"

definition live_ok :: "codec \<Rightarrow> logs \<Rightarrow> live_sessions \<Rightarrow> bool" where
  "live_ok cdc pl live \<longleftrightarrow>
     bt_sorted live \<and>
     (\<forall>x s. map_of live x = Some s \<longrightarrow>
        session_id s = x \<and> session_ok cdc s \<and> pl x = Some (ss_header s, session_events s))"

definition store_ok :: "codec \<Rightarrow> ('p \<Rightarrow> logs) \<Rightarrow> live_sessions \<times> 'p \<Rightarrow> bool" where
  "store_ok cdc plog st \<longleftrightarrow>
     durable_ok cdc (plog (snd st)) \<and> live_ok cdc (plog (snd st)) (fst st)"

lemma store_ok_live:
  assumes "store_ok cdc plog (live, p)" and "map_of live x = Some s"
  shows "session_id s = x" "session_ok cdc s" "synced plog p s"
  using assms by (auto simp: store_ok_def live_ok_def synced_def)

lemma store_ok_durable:
  assumes "store_ok cdc plog (live, p)" and "plog p x = Some (h, es)"
  obtains st where "hd_id h = x" "build_state cdc h es = Inr st"
  using assms unfolding store_ok_def durable_ok_def by (metis snd_conv)

lemma store_ok_same: "store_ok cdc plog (live, p) \<Longrightarrow> plog p' = plog p \<Longrightarrow> store_ok cdc plog (live, p')"
  by (simp add: store_ok_def)

lemma store_ok_log:
  assumes "store_ok cdc plog (live, p)" and "map_of live x = None"
    and "plog p' = (plog p)(x \<mapsto> (h, es))" and "hd_id h = x" and "build_state cdc h es = Inr st"
  shows "store_ok cdc plog (live, p')"
  using assms by (auto simp: store_ok_def durable_ok_def live_ok_def)

lemma store_ok_insert:
  assumes "store_ok cdc plog (live, p)"
    and "plog p' = (plog p)(x \<mapsto> (ss_header s, session_events s))"
    and "session_id s = x" and "session_ok cdc s"
  shows "store_ok cdc plog (bt_insert x s live, p')"
  using assms
  by (auto simp: store_ok_def durable_ok_def live_ok_def session_ok_def intro: bt_sorted_insert)

lemma store_ok_remove:
  assumes "store_ok cdc plog (live, p)" and "plog p' = (plog p)(x := None)"
  shows "store_ok cdc plog (bt_remove x live, p')"
  using assms by (auto simp: store_ok_def durable_ok_def live_ok_def bt_sorted_remove)

lemma store_ok_evict: "store_ok cdc plog (live, p) \<Longrightarrow> store_ok cdc plog ([], p)"
  by (simp add: store_ok_def live_ok_def bt_sorted_def)

lemma live_checks [simp]:
  "(ensure_not_live live x = Inr u) = (map_of live x = None)"
  "(insert_live live x s = Inr live') = (map_of live x = None \<and> live' = bt_insert x s live)"
  by (auto simp: ensure_not_live_def insert_live_def)

lemma not_live [simp]:
  "map_of live x = None \<Longrightarrow> ensure_not_live live x = Inr ()"
  "map_of live x = None \<Longrightarrow> insert_live live x s = Inr (bt_insert x s live)"
  by (simp_all add: ensure_not_live_def insert_live_def)

context atomic_persistence
begin

lemma append_inner_done:
  assumes "append_inner cdc ops s e x (c, p) = (Inr s', c', p')" and "synced plog p s"
    and "session_ok cdc s"
  shows "ss_header s' = ss_header s" "session_events s' = session_events s @ [e]"
    "session_ok cdc s'" "plog p' = (plog p)(session_id s \<mapsto> (ss_header s', session_events s'))"
proof -
  from assms(1) obtain c1 where gate: "append_under_gate cdc ops s e x (c1, p) = (Inr s', c', p')"
    by (auto elim: append_inner_cases)
  from append_under_gate_extends [OF gate] append_under_gate_ok [OF gate assms(3)]
  show "ss_header s' = ss_header s" "session_events s' = session_events s @ [e]" "session_ok cdc s'"
    by auto
  with append_under_gate_synced [OF gate assms(2)]
  show "plog p' = (plog p)(session_id s \<mapsto> (ss_header s', session_events s'))"
    by (auto simp: fun_eq_iff synced_def)
qed

lemma append_inner_failed:
  "append_inner cdc ops s e x (c, p) = (Inl err, c', p') \<Longrightarrow> plog p' = plog p"
  using append_under_gate_failed by (auto elim!: append_inner_cases)

lemma append_closers_log:
  assumes "append_closers cdc ops s es (c, p) = (r, c', p')" and "synced plog p s"
    and "session_ok cdc s"
  shows "\<exists>k st. plog p' = (plog p)(session_id s \<mapsto> (ss_header s, session_events s @ take k es))
    \<and> build_state cdc (ss_header s) (session_events s @ take k es) = Inr st
    \<and> (\<forall>s'. r = Inr s' \<longrightarrow> length es \<le> k \<and> ss_header s' = ss_header s \<and> ss_state s' = st)"
  using assms
proof (induction es arbitrary: s c p)
  case Nil
  then show ?case
    by (intro exI [of _ 0] exI [of _ "ss_state s"]) (auto simp: synced_def session_ok_def fun_eq_iff)
next
  case (Cons e es)
  obtain r1 c1 p1 where ap: "session_append cdc ops s e (c, p) = (r1, c1, p1)" by (metis prod.exhaust)
  show ?case
  proof (cases r1)
    case (Inl err)
    with ap have "plog p1 = plog p" by (auto simp: session_append_def dest: append_inner_failed)
    moreover have "r = Inl err" "p' = p1" using Cons.prems(1) ap Inl by (simp_all add: io_bind_def)
    moreover have "(plog p)(session_id s \<mapsto> (ss_header s, session_events s)) = plog p"
      using Cons.prems(2) by (simp add: synced_def fun_upd_idem)
    ultimately show ?thesis
      using Cons.prems(3)
      by (intro exI [of _ 0] exI [of _ "ss_state s"]) (simp add: session_ok_def)
  next
    case (Inr s1)
    note app = append_inner_done [OF ap [unfolded Inr session_append_def] Cons.prems(2,3)]
    have run: "append_closers cdc ops s1 es (c1, p1) = (r, c', p')"
      using Cons.prems(1) ap Inr by (simp add: io_bind_def)
    have "synced plog p1 s1" using app by (simp add: synced_def)
    from Cons.IH [OF run this app(3)] obtain k st where
      "plog p' = (plog p1)(session_id s1 \<mapsto> (ss_header s1, session_events s1 @ take k es))"
      "build_state cdc (ss_header s1) (session_events s1 @ take k es) = Inr st"
      "\<forall>s'. r = Inr s' \<longrightarrow> length es \<le> k \<and> ss_header s' = ss_header s1 \<and> ss_state s' = st"
      by blast
    then show ?thesis
      by (intro exI [of _ "Suc k"] exI [of _ st])
        (simp only: app(1,2,4) append_assoc append_Cons append_Nil take_Suc_Cons fun_upd_upd
          length_Cons Suc_le_mono simp_thms)
  qed
qed

text \<open>Before it repairs anything, a restoration only reads: it fails with the durable state
  unchanged or has rebuilt the whole committed log.\<close>

lemma restore_cases:
  assumes "store_restore cdc ops live x mode (c, p) = (r, c', p')"
  obtains (refused) err where "r = Inl err" "plog p' = plog p"
  | (rebuilt) h es s cl c1 p1 where
      "map_of live x = None" "plog p x = Some (h, es)" "hd_id h = x"
      "from_committed cdc h es = Inr s" "interrupted_turn_closers cdc es = Inr cl"
      "mode = RestoreLive \<longrightarrow> cl = []" "plog p1 = plog p"
      "io_bind (if mode = RestoreCold then append_closers cdc ops s cl else io_return s) (\<lambda>s'.
         io_bind (io_lift (insert_live live x s')) (\<lambda>live'. io_return (s', live'))) (c1, p1)
         = (r, c', p')"
proof -
  have logs: "pe_load ops y (d, q) = (v, d', q') \<Longrightarrow> plog q' = plog q"
    "pe_read_from ops y 0 (d, q) = (v', d', q') \<Longrightarrow> plog q' = plog q" for y d q v v' d' q'
    using load_log read_log by blast+
  show thesis
  proof (cases "\<exists>err. r = Inl err \<and> plog p' = plog p")
    case True
    with refused show thesis by blast
  next
    case False
    obtain c0 where poll: "io_poll (c, p) = (Inr (), c0, p)"
      using assms False
      by (cases c rule: check_cancellation.cases)
        (auto simp: store_restore_def io_bind_def io_poll_def)
    obtain v c1 p1 where load: "pe_load ops x (c0, p) = (v, c1, p1)" by (metis prod.exhaust)
    obtain es c2 p2 where read: "pe_read_from ops x 0 (c1, p1) = (es, c2, p2)" by (metis prod.exhaust)
    have p12: "plog p1 = plog p" "plog p2 = plog p" using logs load read by metis+
    note run = assms [unfolded store_restore_def]
    have live: "map_of live x = None"
      using run False poll by (auto simp: io_bind_def ensure_not_live_def split: if_splits)
    obtain h where v: "v = Inr (Some h)" and h: "hd_id h = x"
      using run False poll live load p12
      by (auto simp: io_bind_def ok_or_def split: sum.splits option.splits if_splits)

    obtain hv where hv: "validate_header h = Inr hv"
      using run False poll live load p12 v
      by (cases "validate_header h") (auto simp: io_bind_def)
    obtain evs where evs: "es = Inr evs"
      using run False poll live load p12 v h hv read by (cases es) (auto simp: io_bind_def)
    obtain s where s: "from_committed cdc h evs = Inr s"
      using run False poll live load p12 v h hv read evs
      by (cases "from_committed cdc h evs") (auto simp: io_bind_def)
    note ev = from_committed_Inr(3) [OF s]
    obtain cl where cl: "interrupted_turn_closers cdc evs = Inr cl"
      using run False poll live load p12 v h hv read evs s ev
      by (cases "interrupted_turn_closers cdc evs") (auto simp: io_bind_def)
    have mode: "mode = RestoreLive \<longrightarrow> cl = []"
      using run False poll live load p12 v h hv read evs s ev cl
      by (auto simp: io_bind_def split: if_splits)
    have "plog p x = Some (h, evs)"
      using load_result [OF load [unfolded v]] read_result [OF read [unfolded evs]] p12 by auto
    moreover have "io_bind (if mode = RestoreCold then append_closers cdc ops s cl else io_return s)
        (\<lambda>s'. io_bind (io_lift (insert_live live x s')) (\<lambda>live'. io_return (s', live'))) (c2, p2)
        = (r, c', p')"
      using run poll live load v h hv read evs s ev cl mode by (auto simp: io_bind_def)
    ultimately show thesis using rebuilt live h s cl mode p12(2) by blast
  qed
qed

lemma restore_done:
  assumes "store_restore cdc ops live x mode (c, p) = (Inr (s', live'), c', p')"
  obtains h es cl where "map_of live x = None" "plog p x = Some (h, es)" "hd_id h = x"
    "interrupted_turn_closers cdc es = Inr cl" "mode = RestoreLive \<longrightarrow> cl = []"
    "live' = bt_insert x s' live" "ss_header s' = h" "session_ok cdc s'"
    "session_events s' = (if mode = RestoreCold then es @ cl else es)"
    "plog p' = (plog p)(x \<mapsto> (h, session_events s'))"
  using assms
proof (cases rule: restore_cases)
  case (rebuilt h es s cl c1 p1)
  note s = from_committed_Inr [OF rebuilt(4)]
  have sync: "synced plog p1 s" using rebuilt(2,3,7) s by (simp add: synced_def)
  show ?thesis
  proof (cases "mode = RestoreCold")
    case True
    with rebuilt(8,1) obtain c2 where
      run: "append_closers cdc ops s cl (c1, p1) = (Inr s', c2, p')" and l: "live' = bt_insert x s' live"
      by (auto simp: io_inversion)
    from append_closers_log [OF run sync s(1)] obtain k st where
      k: "plog p' = (plog p1)(session_id s \<mapsto> (ss_header s, session_events s @ take k cl))"
      "build_state cdc (ss_header s) (session_events s @ take k cl) = Inr st"
      "length cl \<le> k" "ss_header s' = ss_header s" "ss_state s' = st"
      by blast
    with s have ev: "session_events s' = es @ cl" by (simp add: build_state_events [OF k(2)])
    with k s have "session_ok cdc s'" by (simp add: session_ok_def)
    with that [OF rebuilt(1,2,3,5,6) l] k s ev True rebuilt(3,7) show ?thesis by simp
  next
    case False
    with rebuilt(1,8) have eq: "s' = s" "live' = bt_insert x s live" "p' = p1"
      by (auto simp: io_inversion)
    have "(plog p)(x \<mapsto> (h, es)) = plog p" using rebuilt(2) by (simp add: fun_upd_idem)
    with that [OF rebuilt(1,2,3,5,6)] False s eq rebuilt(7) show ?thesis by simp
  qed
qed simp

lemma restore_failed:
  assumes "store_restore cdc ops live x mode (c, p) = (Inl err, c', p')"
  obtains "plog p' = plog p"
  | h es cl k st where "mode = RestoreCold" "map_of live x = None" "plog p x = Some (h, es)" "hd_id h = x"
      "interrupted_turn_closers cdc es = Inr cl"
      "plog p' = (plog p)(x \<mapsto> (h, es @ take k cl))" "build_state cdc h (es @ take k cl) = Inr st"
  using assms
proof (cases rule: restore_cases)
  case (rebuilt h es s cl c1 p1)
  note s = from_committed_Inr [OF rebuilt(4)]
  have sync: "synced plog p1 s" using rebuilt(2,3,7) s by (simp add: synced_def)
  from rebuilt(1,8) have cold: "mode = RestoreCold"
    and run: "append_closers cdc ops s cl (c1, p1) = (Inl err, c', p')"
    by (auto simp: io_inversion split: if_splits)
  from append_closers_log [OF run sync s(1)] s rebuilt(3,7) that(2) [OF cold rebuilt(1,2,3,5)]
  show ?thesis by auto
qed (use that in simp)

lemma create_done_store:
  assumes "store_create cdc ops live h (c, p) = (Inr (s, live'), c', p')"
  shows "map_of live (hd_id h) = None" "plog p (hd_id h) = None"
    "live' = bt_insert (hd_id h) s live" "from_committed cdc h [] = Inr s"
    "plog p' = (plog p)(hd_id h \<mapsto> (h, []))"
proof -
  from assms obtain c1 where l: "map_of live (hd_id h) = None" "live' = bt_insert (hd_id h) s live"
      "from_committed cdc h [] = Inr s"
    and pe: "pe_create ops h (c1, p) = (Inr (), c', p')"
    by (auto simp: store_create_def io_inversion split: if_splits dest!: io_poll_world)
  from create_done [OF pe] l
  show "map_of live (hd_id h) = None" "plog p (hd_id h) = None"
    "live' = bt_insert (hd_id h) s live" "from_committed cdc h [] = Inr s"
    "plog p' = (plog p)(hd_id h \<mapsto> (h, []))" by auto
qed

lemma create_failed_store:
  assumes "store_create cdc ops live h (c, p) = (Inl err, c', p')"
  shows "plog p' = plog p"
proof -
  from assms consider "p' = p" | c1 where "pe_create ops h (c1, p) = (Inl err, c', p')"
    | c1 where "pe_create ops h (c1, p) = (Inr (), c', p')" "validate_header h = Inr ()"
        "seed_length_of h = 0" "map_of live (hd_id h) = None" "\<exists>e. from_committed cdc h [] = Inl e"
    by (auto simp: store_create_def io_inversion split: if_splits dest!: io_poll_world)
  then show ?thesis
  proof cases
    case 3
    then have "build_state cdc h [] = Inr (initial_state h)"
      by (simp add: build_state_iff replay_inbox_def)
    with 3 show ?thesis by (simp add: from_committed_def)
  qed (use create_failed in auto)
qed

lemma seeded_done_store:
  assumes "store_create_seeded cdc ops live h seed (c, p) = (Inr (s, live'), c', p')"
  shows "map_of live (hd_id h) = None" "plog p (hd_id h) = None"
    "live' = bt_insert (hd_id h) s live" "from_committed cdc h seed = Inr s"
    "plog p' = (plog p)(hd_id h \<mapsto> (h, seed))"
proof -
  from assms obtain c1 where l: "map_of live (hd_id h) = None" "live' = bt_insert (hd_id h) s live"
      "from_committed cdc h seed = Inr s"
    and pe: "pe_create_seeded ops h seed (c1, p) = (Inr (), c', p')"
    by (auto simp: store_create_seeded_def io_inversion split: if_splits dest!: io_poll_world)
  from seeded_done [OF pe] l
  show "map_of live (hd_id h) = None" "plog p (hd_id h) = None"
    "live' = bt_insert (hd_id h) s live" "from_committed cdc h seed = Inr s"
    "plog p' = (plog p)(hd_id h \<mapsto> (h, seed))" by auto
qed

lemma seeded_failed_store:
  "store_create_seeded cdc ops live h seed (c, p) = (Inl err, c', p') \<Longrightarrow> plog p' = plog p"
  using seeded_failed
  by (auto simp: store_create_seeded_def io_inversion split: if_splits dest!: io_poll_world)

lemma restore_ok:
  assumes "store_ok cdc plog (live, p)" and "store_restore cdc ops live x mode (c, p) = (r, c', p')"
  shows "store_ok cdc plog (live_after live r, p')"
proof (cases r)
  case (Inl err)
  from assms(2) [unfolded Inl] show ?thesis
  proof (cases rule: restore_failed)
    case 1
    with assms(1) Inl show ?thesis by (simp add: live_after_def store_ok_same)
  next
    case (2 h es cl k st)
    with assms(1) Inl store_ok_log show ?thesis by (fastforce simp: live_after_def)
  qed
next
  case (Inr sl)
  obtain s' live' where sl: "sl = (s', live')" by fastforce
  from assms(2) [unfolded Inr sl] show ?thesis
  proof (cases rule: restore_done)
    case (1 h es cl)
    with assms(1) Inr sl store_ok_insert show ?thesis by (fastforce simp: live_after_def)
  qed
qed

lemma create_ok:
  assumes "store_ok cdc plog (live, p)" and "store_create cdc ops live h (c, p) = (r, c', p')"
  shows "store_ok cdc plog (live_after live r, p')"
proof (cases r)
  case (Inl err)
  with assms create_failed_store show ?thesis by (auto simp: live_after_def intro: store_ok_same)
next
  case (Inr sl)
  obtain s' live' where sl: "sl = (s', live')" by fastforce
  note d = create_done_store [OF assms(2) [unfolded Inr sl]]
  from d from_committed_Inr [OF d(4)] show ?thesis
    using Inr sl store_ok_insert [OF assms(1)] by (simp add: live_after_def)
qed

lemma seeded_ok:
  assumes "store_ok cdc plog (live, p)"
    and "store_create_seeded cdc ops live h seed (c, p) = (r, c', p')"
  shows "store_ok cdc plog (live_after live r, p')"
proof (cases r)
  case (Inl err)
  with assms seeded_failed_store show ?thesis by (auto simp: live_after_def intro: store_ok_same)
next
  case (Inr sl)
  obtain s' live' where sl: "sl = (s', live')" by fastforce
  note d = seeded_done_store [OF assms(2) [unfolded Inr sl]]
  from d from_committed_Inr [OF d(4)] show ?thesis
    using Inr sl store_ok_insert [OF assms(1)] by (simp add: live_after_def)
qed

lemma append_ok:
  assumes "store_ok cdc plog (live, p)" and "map_of live x = Some s"
    and "append_inner cdc ops s e ex (c, p) = (r, c', p')"
  shows "store_ok cdc plog (updated live x r, p')"
proof (cases r)
  case (Inl err)
  with assms append_inner_failed show ?thesis by (auto simp: updated_def intro: store_ok_same)
next
  case (Inr s')
  note l = store_ok_live [OF assms(1,2)]
  from append_inner_done [OF assms(3) [unfolded Inr] l(3,2)] l Inr show ?thesis
    using store_ok_insert [OF assms(1)] by (simp add: updated_def)
qed

lemma append_next_inner:
  assumes "append_next_if_surface cdc ops s build ex (c, p) = (r, c', p')"
  obtains err where "r = Inl err" "p' = p"
  | n c1 where "next_seq (session_events s) = Inr n"
      "append_under_gate cdc ops s (build n) ex (c1, p) = (map_sum id snd r, c', p')"
proof (cases "\<exists>err. r = Inl err \<and> p' = p")
  case True
  with that(1) show ?thesis by blast
next
  case False
  with assms obtain n c1 where n: "next_seq (session_events s) = Inr n" and
    run: "io_bind (append_under_gate cdc ops s (build n) ex) (\<lambda>s'. io_return (n, s')) (c1, p) = (r, c', p')"
    by (cases "next_seq (session_events s)"; cases c rule: check_cancellation.cases)
      (auto simp: append_next_if_surface_def io_bind_def io_poll_def split: sum.splits)
  from run have "append_under_gate cdc ops s (build n) ex (c1, p) = (map_sum id snd r, c', p')"
    by (auto simp: io_bind_def split: sum.splits prod.splits)
  with that(2) n show ?thesis by blast
qed

lemma gate_ok:
  assumes "store_ok cdc plog (live, p)" and "map_of live x = Some s"
    and "append_under_gate cdc ops s e ex (c, p) = (r, c', p')"
  shows "store_ok cdc plog (updated live x r, p')"
proof (cases c)
  case None
  with assms append_ok [of cdc live p x s e ex None r c' p'] show ?thesis
    by (simp add: append_inner_def io_bind_def)
next
  case (Some n)
  with assms append_ok [of cdc live p x s e ex "Some (Suc n)" r c' p'] show ?thesis
    by (simp add: append_inner_def io_bind_def io_poll_def)
qed

theorem store_step_ok:
  assumes "store_step cdc ops st st'" and "store_ok cdc plog st"
  shows "store_ok cdc plog st'"
  using assms
proof (induction rule: store_step.induct)
  case (append_new live x s build expected c p r c' p')
  from append_new.hyps(2) show ?case
  proof (cases rule: append_next_inner)
    case (1 err)
    with append_new.prems show ?thesis by (simp add: updated_def)
  next
    case (2 n c1)
    with gate_ok append_new show ?thesis by (simp add: store_get_def)
  qed
next
  case (flush live x s c p r c' p')
  then have "plog p' = plog p"
    by (cases r) (auto simp: session_flush_def io_inversion dest!: io_poll_world flush_log)
  with flush show ?case by (simp add: store_ok_same)
next
  case (delete live x c p r c' p')
  show ?case
  proof (cases r)
    case (Inl err)
    with delete have "plog p' = plog p" by (auto simp: store_delete_def io_inversion delete_failed)
    with delete Inl show ?thesis by (simp add: store_ok_same)
  next
    case (Inr live')
    with delete have "plog p' = (plog p)(x := None)" "live' = bt_remove x live"
      by (auto simp: store_delete_def io_inversion store_remove_def delete_done)
    with delete Inr show ?thesis by (simp add: store_ok_remove)
  qed
qed (auto simp: store_get_def intro: create_ok seeded_ok restore_ok append_ok store_ok_evict)

theorem store_reachable_ok:
  assumes "(store_step cdc ops)\<^sup>*\<^sup>* ([], p0) st" and "plog p0 = Map.empty"
  shows "store_ok cdc plog st"
  using assms(1)
proof (induction rule: rtranclp_induct)
  case base
  from assms(2) show ?case by (simp add: store_ok_def durable_ok_def live_ok_def bt_sorted_def)
next
  case (step st st')
  then show ?case using store_step_ok by blast
qed

lemma cold_restore_closes:
  assumes "store_restore cdc ops live x RestoreCold (c, p) = (Inr (s', live'), c', p')"
  shows "interrupted_turn_closers cdc (session_events s') = Inr []"
  using assms
proof (cases rule: restore_done)
  case (1 h es cl)
  then have "build_state cdc h (es @ cl) = Inr (ss_state s')" by (simp add: session_ok_def)
  then have "\<forall>e\<in>set cl. \<exists>q. decode_surface_event cdc e = Inr q"
    using build_state_decodes by fastforce
  with closers_close 1 show ?thesis by simp
qed

lemma live_restore_reads:
  assumes "store_restore cdc ops live x mode (c, p) = (r, c', p')" and "mode \<noteq> RestoreCold"
  shows "plog p' = plog p"
proof (cases r)
  case (Inl err)
  from assms(1) [unfolded Inl] assms(2) show ?thesis by (cases rule: restore_failed) auto
next
  case (Inr sl)
  obtain s' live' where sl: "sl = (s', live')" by fastforce
  from assms(1) [unfolded Inr sl] assms(2) show ?thesis
    by (cases rule: restore_done) (auto simp: fun_upd_idem)
qed

end

context live_persistence
begin

text \<open>Without cancellation a restoration reaches the repair of every durable log that
  \<^const>\<open>store_ok\<close> describes.\<close>

lemma restore_run:
  assumes "store_ok cdc plog (live, p)" and "map_of live x = None" and "plog p x = Some (h, es)"
    and "interrupted_turn_closers cdc es = Inr cl"
  obtains s p1 where "from_committed cdc h es = Inr s" "plog p1 = plog p" "hd_id h = x"
    "store_restore cdc ops live x mode (None, p) =
       (if cl \<noteq> [] \<and> mode = RestoreLive then io_lift (Inl OrphanTurn)
        else
          io_bind (if mode = RestoreCold then append_closers cdc ops s cl else io_return s) (\<lambda>s'.
          io_bind (io_lift (insert_live live x s')) (\<lambda>live'.
          io_return (s', live')))) (None, p1)"
proof -
  from assms(1,3) obtain st where id: "hd_id h = x" and st: "build_state cdc h es = Inr st"
    by (rule store_ok_durable)
  from st obtain s where s: "from_committed cdc h es = Inr s" by (simp add: from_committed_def)
  obtain v p0 where load: "pe_load ops x (None, p) = (Inr v, None, p0)" using load_progress by blast
  have v: "v = Some h" "plog p0 = plog p" using load_result [OF load] load_log [OF load] assms(3) by auto
  then obtain evs p1 where read: "pe_read_from ops x 0 (None, p0) = (Inr evs, None, p1)"
    using read_progress [of p0 x 0] assms(3) by auto
  have r: "evs = es" "plog p1 = plog p"
    using read_result [OF read] read_log [OF read] v assms(3) by auto
  have hv: "validate_header h = Inr ()" using st by (simp add: build_state_iff)
  show thesis
    by (rule that [OF s r(2) id])
      (use assms(2,4) id s load read v r hv from_committed_Inr(3) [OF s] in
        \<open>simp add: store_restore_def io_bind_def\<close>)
qed

lemma append_closers_progress:
  assumes "try_fold (admit_next cdc (ss_header s)) (ss_state s) es = Inr st" and "synced plog p s"
  shows "\<exists>p'. append_closers cdc ops s es (None, p) =
    (Inr (s\<lparr>ss_state := st, ss_updates := ss_updates s @ es\<rparr>), None, p')"
  using assms
proof (induction es arbitrary: s p)
  case (Cons e es)
  from Cons.prems(1) obtain st1 where "admit_next cdc (ss_header s) (ss_state s) e = Inr st1"
    and rest1: "try_fold (admit_next cdc (ss_header s)) st1 es = Inr st"
    by auto
  then obtain pr where pr: "append_checks cdc (ss_header s) (ss_state s) e None = Inr pr"
    and rest: "try_fold (admit_next cdc (ss_header s)) (admit (ss_state s) e pr) es = Inr st"
    using rest1 unfolding admit_next_def by auto
  let ?s = "s\<lparr>ss_state := admit (ss_state s) e pr, ss_updates := ss_updates s @ [e]\<rparr>"
  from append_under_gate_progress [OF pr Cons.prems(2)] obtain p1 where
    gate: "append_under_gate cdc ops s e None (None, p) = (Inr ?s, None, p1)" ..
  then have one: "session_append cdc ops s e (None, p) = (Inr ?s, None, p1)"
    by (simp add: session_append_def append_inner_def io_bind_def)
  have "synced plog p1 ?s" by (rule append_under_gate_synced(1) [OF gate Cons.prems(2)])
  from Cons.IH [OF _ this] rest one show ?case by (auto simp: io_bind_def)
qed simp

lemma cold_restore_progress:
  assumes "tool_message_codec cdc" and "store_ok cdc plog (live, p)" and "map_of live x = None"
    and "plog p x = Some (h, es)" and "interrupted_turn_closers cdc es = Inr cl"
    and "\<And>sc call. scan_turns cdc es = Inr sc \<Longrightarrow> call \<in> set (sc_pending sc) \<Longrightarrow>
           \<not> blank (pc_call_id call)"
    and "length es + length cl \<le> Suc MAX_SAFE_INTEGER"
  shows "\<exists>s' live' p'. store_restore cdc ops live x RestoreCold (None, p) = (Inr (s', live'), None, p')"
proof -
  from assms(2-5) obtain s p1 where s: "from_committed cdc h es = Inr s" and p1: "plog p1 = plog p"
    and id: "hd_id h = x"
    and run: "store_restore cdc ops live x RestoreCold (None, p) =
      io_bind (append_closers cdc ops s cl) (\<lambda>s'.
      io_bind (io_lift (insert_live live x s')) (\<lambda>live'. io_return (s', live'))) (None, p1)"
    by (elim restore_run [where mode = RestoreCold]) auto
  note s' = from_committed_Inr [OF s]
  have "build_state cdc h es = Inr (ss_state s)" using s' by (simp add: session_ok_def)
  from closers_admissible [OF assms(1,5) this _ assms(7)] assms(6)
  have "\<exists>st. try_fold (admit_next cdc h) (ss_state s) cl = Inr st" by blast
  then obtain st where "try_fold (admit_next cdc (ss_header s)) (ss_state s) cl = Inr st"
    using s'(2) by auto
  moreover have "synced plog p1 s" using s' p1 id assms(4) by (simp add: synced_def)
  ultimately obtain s'' p2 where "append_closers cdc ops s cl (None, p1) = (Inr s'', None, p2)"
    using append_closers_progress by blast
  with run assms(3) show ?thesis by (simp add: io_bind_def)
qed

lemma settled_restore_progress:
  assumes "store_ok cdc plog (live, p)" and "map_of live x = None" and "plog p x = Some (h, es)"
    and "interrupted_turn_closers cdc es = Inr []"
  shows "\<exists>s p'. store_restore cdc ops live x mode (None, p) = (Inr (s, bt_insert x s live), None, p')
    \<and> build_state cdc h es = Inr (ss_state s) \<and> ss_header s = h"
proof -
  from assms obtain s p1 where s: "from_committed cdc h es = Inr s" and
    run: "store_restore cdc ops live x mode (None, p) =
      io_bind (if mode = RestoreCold then append_closers cdc ops s [] else io_return s) (\<lambda>s'.
      io_bind (io_lift (insert_live live x s')) (\<lambda>live'. io_return (s', live'))) (None, p1)"
    by (elim restore_run [where mode = mode]) auto
  from run assms(2) from_committed_Inr [OF s] show ?thesis
    by (cases "mode = RestoreCold") (auto simp: io_bind_def session_ok_def)
qed

lemma snapshot_progress:
  assumes "store_ok cdc plog (live, p)"
  shows "\<exists>p'. store_snapshot cdc ops live x (None, p) = (Inr (plog p x), None, p')"
proof (cases "map_of live x")
  case (Some s)
  with assms show ?thesis
    by (auto simp: store_snapshot_def store_get_def store_ok_def live_ok_def io_bind_def)
next
  case None
  obtain v p0 where load: "pe_load ops x (None, p) = (Inr v, None, p0)" using load_progress by blast
  have v: "v = map_option fst (plog p x)" "plog p0 = plog p"
    using load_result [OF load] load_log [OF load] by auto
  show ?thesis
  proof (cases "plog p x")
    case None': None
    with None load v show ?thesis by (simp add: store_snapshot_def store_get_def io_bind_def)
  next
    case (Some he)
    obtain h es where he: "he = (h, es)" by fastforce
    from assms Some [unfolded he] obtain st where "build_state cdc h es = Inr st"
      by (rule store_ok_durable)
    then obtain s where s: "from_committed cdc h es = Inr s" by (simp add: from_committed_def)
    from read_progress [of p0 x 0] v Some obtain evs p1 where
      read: "pe_read_from ops x 0 (None, p0) = (Inr evs, None, p1)" by auto
    have "evs = es" using read_result [OF read] v Some he by auto
    with None Some load read v s he from_committed_Inr [OF s] show ?thesis
      by (simp add: store_snapshot_def store_get_def io_bind_def)
  qed
qed

end

end
