(* ===== verification/Session_Samples.thy ===== *)
theory Session_Samples
  imports Session_Store
begin

text \<open>
  A concrete session at the wire codec: a turn whose tool call was recorded and never answered, as a
  seeded session of the in-memory backend. The witnesses of the session properties evaluate the model on
  it. The identifier of the tool call is an argument.
\<close>

definition sample_header :: session_header where
  "sample_header =
     \<lparr>hd_version = 0, hd_id = ''s1'', hd_created_at = 1, hd_cwd = None, hd_parent_session = None,
      hd_seed_length = Some 4, hd_origin = None, hd_delegation_depth = None, hd_agent_mode = None\<rparr>"

definition sample_event :: "string \<Rightarrow> u64 \<Rightarrow> json \<Rightarrow> session_event" where
  "sample_event t n d =
     \<lparr>ev_type = t, ev_seq = n, ev_time = 5, ev_data = d, ev_ignorable = None, ev_sources = None,
      ev_surface_op = if is_surface_event_type t then Some SurfaceAppend else None\<rparr>"

definition sample_call :: "string \<Rightarrow> message" where
  "sample_call i =
     \<lparr>msg_id = ''m1'', msg_role = Assistant, msg_content = [ToolCall i ''bash'' ''{}''],
      msg_source = SrcModel ''p'' ''m'' None\<rparr>"

definition sample_log :: "string \<Rightarrow> session_event list" where
  "sample_log i =
     [sample_event ''turn/start'' 0 (obj [(''turn'', jnat 1)]),
      sample_event ''step/start'' 1 (obj [(''turn'', jnat 1), (''step'', jnat 1)]),
      sample_event ''assistant/message'' 2
        (obj [(''turn'', jnat 1), (''step'', jnat 1), (''message'', enc_message (sample_call i))]),
      sample_event ''tool/call'' 3
        (obj [(''turn'', jnat 1), (''step'', jnat 1), (''callId'', JStr i)])]"

definition sample_memory :: "string \<Rightarrow> memory" where
  "sample_memory i =
     [(''s1'', \<lparr>ms_header = sample_header, ms_events = sample_log i, ms_flush_count = 0\<rparr>)]"

definition sample_session :: "string \<Rightarrow> session" where
  "sample_session i = projr (from_committed wire_codec sample_header (sample_log i))"

definition sample_note :: "u64 \<Rightarrow> session_event" where
  "sample_note n = sample_event ''step/end'' n (obj [(''turn'', jnat 1), (''step'', jnat 1)])"

definition sample_inbox :: message where
  "sample_inbox =
     \<lparr>msg_id = ''q1'', msg_role = User, msg_content = [Text ''hello''], msg_source = SrcUser None\<rparr>"

definition sample_enqueue :: "u64 \<Rightarrow> session_event" where
  "sample_enqueue n =
     sample_event ''agent/inbox/enqueued'' n
       (obj [(''target'', JStr ''next-turn''), (''message'', enc_message sample_inbox)])"

text \<open>A session without a seed, with the events of its log before and after it was opened.\<close>

definition plain_session :: "session_event list \<Rightarrow> session_event list \<Rightarrow> session" where
  "plain_session old new = \<lparr>ss_header = sample_header\<lparr>hd_seed_length := None\<rparr>,
     ss_state = \<lparr>st_events = old @ new, st_surface = [], st_seed_length = 0, st_end_seed_seen = False\<rparr>, ss_updates = new\<rparr>"

definition plain_log :: "session_event list" where
  "plain_log = [sample_event ''turn/start'' 0 (obj [(''turn'', jnat 1)]), sample_event ''step/start'' 1 (obj [(''turn'', jnat 1), (''step'', jnat 1)])]"

definition plain_memory :: memory where
  "plain_memory = [(''s1'', \<lparr>ms_header = sample_header\<lparr>hd_seed_length := None\<rparr>, ms_events = plain_log, ms_flush_count = 0\<rparr>)]"

lemma sample_create:
  "store_create_seeded wire_codec (memory_persistence wire_codec) [] sample_header (sample_log ''c1'')
     (None, []) =
   (Inr (sample_session ''c1'', [(''s1'', sample_session ''c1'')]), None, sample_memory ''c1'')"
  by code_simp

lemma sample_create_blank:
  "store_create_seeded wire_codec (memory_persistence wire_codec) [] sample_header (sample_log [])
     (None, []) =
   (Inr (sample_session [], [(''s1'', sample_session [])]), None, sample_memory [])"
  by code_simp

lemma sample_step:
  "store_step wire_codec (memory_persistence wire_codec) ([], [])
     ([(''s1'', sample_session ''c1'')], sample_memory ''c1'')"
  using store_step.seeded [OF sample_create] by (simp add: live_after_def)

lemma sample_step_blank:
  "store_step wire_codec (memory_persistence wire_codec) ([], [])
     ([(''s1'', sample_session [])], sample_memory [])"
  using store_step.seeded [OF sample_create_blank] by (simp add: live_after_def)

lemma sample_live:
  "(store_step wire_codec (memory_persistence wire_codec))\<^sup>*\<^sup>* ([], [])
     ([(''s1'', sample_session ''c1'')], sample_memory ''c1'')"
  using sample_step by blast

lemma sample_cold:
  "(store_step wire_codec (memory_persistence wire_codec))\<^sup>*\<^sup>* ([], []) ([], sample_memory ''c1'')"
  using sample_live store_step.evict by (rule rtranclp.rtrancl_into_rtrancl)

lemma sample_cold_blank:
  "(store_step wire_codec (memory_persistence wire_codec))\<^sup>*\<^sup>* ([], []) ([], sample_memory [])"
  using sample_step_blank store_step.evict by (meson converse_rtranclp_into_rtranclp r_into_rtranclp)

end
