(* ===== verification/Session_Properties.thy ===== *)
theory Session_Properties
  imports Session_Samples
begin

text \<open>
  The properties of the session component, stated for the in-memory backend through the
  interpretations of the persistence contracts, each with the concrete session it is applied to.
\<close>

section \<open>The log and its projection\<close>

lemma admit_next_build:
  assumes "build_state cdc h es = Inr st"
  shows "admit_next cdc h st e = build_state cdc h (es @ [e])"
proof -
  note ev = build_state_events [OF assms]
  from assms obtain i where i: "validate_header h = Inr ()" "seed_length_of h \<le> length es"
    "try_fold (build_step cdc h) (initial_state h) es = Inr st" "replay_inbox cdc es = Inr i"
    by (auto simp: build_state_iff)
  have inbox: "and_then (inbox_apply cdc i e) (\<lambda>_. Inr ()) = Inr ()" if "\<not> is_inbox_event e"
    using inbox_apply_other [OF that, of cdc i] by auto
  have replay: "replay_inbox cdc (es @ [e]) = inbox_apply cdc i e"
    using i(4) by (simp add: replay_inbox_def try_fold_append)
  show ?thesis
  proof (cases "admission_checks cdc h st e")
    case (Inl err)
    with i show ?thesis
      by (simp add: admit_next_def append_checks_def build_state_def try_fold_append build_step_def)
  next
    case (Inr p)
    have fold: "try_fold (build_step cdc h) (initial_state h) (es @ [e]) = Inr (admit st e p)"
      using i(3) Inr by (simp add: try_fold_append build_step_def)
    have "build_state cdc h (es @ [e]) = and_then (inbox_apply cdc i e) (\<lambda>_. Inr (admit st e p))"
      using i(1,2) fold replay ev by (simp add: build_state_def)
    moreover have "admit_next cdc h st e =
        and_then (and_then (inbox_apply cdc i e) (\<lambda>_. Inr ())) (\<lambda>_. Inr (admit st e p))"
      using Inr i(4) ev inbox by (auto simp: admit_next_def append_checks_def and_then_assoc)
    ultimately show ?thesis by (simp add: and_then_assoc)
  qed
qed

lemma reachable_ok:
  assumes "(store_step cdc (memory_persistence cdc))\<^sup>*\<^sup>* ([], []) st"
  shows "store_ok cdc mem_log st"
  by (rule mem.store_reachable_ok [OF assms]) (simp add: mem_log_def fun_eq_iff)

text \<open>C1: In every state the store can reach from an empty backend by creations, seeded creations,
  restorations, appends, conditional appends, flushes, deletions, process restarts and any
  cancellation of these, every live session is listed under its own id, its in-memory state is what
  rebuilding its log gives, and its log is the durable log.\<close>

theorem reachable_live_refines_log:
  assumes "(store_step cdc (memory_persistence cdc))\<^sup>*\<^sup>* ([], []) (live, p)"
    and "store_get live x = Some s"
  shows "session_id s = x
    \<and> build_state cdc (ss_header s) (session_events s) = Inr (ss_state s)
    \<and> mem_log p x = Some (ss_header s, session_events s)"
  using store_ok_live [OF reachable_ok [OF assms(1)] assms(2) [unfolded store_get_def]]
  by (simp add: session_ok_def synced_def)

theorem reachable_live_refines_log_witness:
  "mem_log (sample_memory ''c1'') ''s1''
     = Some (ss_header (sample_session ''c1''), session_events (sample_session ''c1''))"
  using reachable_live_refines_log [OF sample_live, of "''s1''"] by (simp add: store_get_def)

text \<open>C2: Appending to a live session decides and computes exactly what a rebuild of the longer log
  would: the same error, or the same state.\<close>

theorem append_agrees_with_rebuild:
  assumes "build_state cdc h es = Inr st"
  shows "admit_next cdc h st e = build_state cdc h (es @ [e])"
  using assms by (rule admit_next_build)

theorem append_agrees_with_rebuild_witness:
  "admit_next wire_codec sample_header (projr (build_state wire_codec sample_header (sample_log ''c1'')))
     (sample_note 4)
   = build_state wire_codec sample_header (sample_log ''c1'' @ [sample_note 4])"
  by (rule append_agrees_with_rebuild) code_simp

text \<open>In every rebuilt state the log is numbered from zero without a gap, an event cites only
  earlier events, the surface shows distinct admitted message events with the message each of them
  decodes to, and only the event right after the seed prefix can be the seed boundary.\<close>

theorem rebuilt_state_sound:
  assumes "build_state cdc h es = Inr st"
  shows "seqs_contiguous (st_events st) \<and> sources_earlier (st_events st)
    \<and> surface_sound cdc st \<and> seed_sound h st"
  using build_state_wf [OF assms] by (simp add: session_wf_def)

theorem rebuilt_state_sound_witness:
  "surface_sound wire_codec (ss_state (sample_session ''c1''))"
proof -
  have "build_state wire_codec sample_header (sample_log ''c1'') = Inr (ss_state (sample_session ''c1''))"
    by code_simp
  from rebuilt_state_sound [OF this] show ?thesis by blast
qed

section \<open>Appending\<close>

text \<open>C5: An append through the persistence boundary is atomic, whenever it is cancelled: an error leaves
  every durable log as it was, and success has added exactly the event to the durable log, to the
  in-memory log and to the broadcast.\<close>

theorem append_atomic:
  assumes "append_inner cdc (memory_persistence cdc) s e expected (c, p) = (r, c', p')"
    and "mem_log p (session_id s) = Some (ss_header s, session_events s)"
  shows "case r of
      Inl err \<Rightarrow> mem_log p' = mem_log p
    | Inr s' \<Rightarrow> mem_log p' = (mem_log p)(session_id s \<mapsto> (ss_header s, session_events s @ [e]))
        \<and> session_events s' = session_events s @ [e] \<and> ss_updates s' = ss_updates s @ [e]"
proof (cases r)
  case (Inl err)
  with assms(1) mem.append_inner_failed show ?thesis by auto
next
  case (Inr s')
  with assms(1) obtain c1 where
    gate: "append_under_gate cdc (memory_persistence cdc) s e expected (c1, p) = (Inr s', c', p')"
    by (auto elim: append_inner_cases)
  have "synced mem_log p s" using assms(2) by (simp add: synced_def)
  from mem.append_under_gate_synced [OF gate this] append_under_gate_extends [OF gate]
  show ?thesis by (auto simp: Inr synced_def fun_eq_iff)
qed

theorem append_atomic_witness:
  "mem_log (snd (snd (append_inner wire_codec (memory_persistence wire_codec) (sample_session ''c1'')
      (sample_note 4) None (Some 2, sample_memory ''c1'')))) = mem_log (sample_memory ''c1'')"
proof -
  have "append_inner wire_codec (memory_persistence wire_codec) (sample_session ''c1'')
      (sample_note 4) None (Some 2, sample_memory ''c1'') = (Inl Cancelled, Some 0, sample_memory ''c1'')"
    by code_simp
  moreover have "mem_log (sample_memory ''c1'') (session_id (sample_session ''c1''))
      = Some (ss_header (sample_session ''c1''), session_events (sample_session ''c1''))"
    by code_simp
  ultimately show ?thesis using append_atomic by fastforce
qed

text \<open>A conditional append is admitted only against the surface its caller saw: with any other
  expectation it reports both surfaces and touches nothing.\<close>

theorem stale_surface_rejected:
  assumes "surface_seqs (ss_state s) \<noteq> expected"
  shows "append_if_surface cdc ops s e expected (None, p)
    = (Inl (StaleSurface expected (surface_seqs (ss_state s))), None, p)"
  using assms
  by (simp add: append_if_surface_def append_inner_def append_under_gate_def append_checks_def
      io_bind_def)

theorem stale_surface_rejected_witness:
  "append_if_surface wire_codec (memory_persistence wire_codec) (sample_session ''c1'') (sample_note 4) []
     (None, sample_memory ''c1'') = (Inl (StaleSurface [] [2]), None, sample_memory ''c1'')"
proof -
  have "surface_seqs (ss_state (sample_session ''c1'')) = [2]" by code_simp
  then show ?thesis
    using stale_surface_rejected [of "sample_session ''c1''" "[]" wire_codec
        "memory_persistence wire_codec" "sample_note 4" "sample_memory ''c1''"]
    by simp
qed

text \<open>The seed prefix is immutable: no admitted event changes the seed events of a session, and
  the live events grow by exactly that event.\<close>

theorem seed_prefix_immutable:
  assumes "append_inner cdc ops s e expected (c, p) = (Inr s', c', p')"
    and "build_state cdc (ss_header s) (session_events s) = Inr (ss_state s)"
  shows "seed_events s' = seed_events s \<and> live_events s' = live_events s @ [e]"
proof -
  from assms(1) obtain c1 where "append_under_gate cdc ops s e expected (c1, p) = (Inr s', c', p')"
    by (auto elim: append_inner_cases)
  then obtain pr where
    s': "s' = s\<lparr>ss_state := admit (ss_state s) e pr, ss_updates := ss_updates s @ [e]\<rparr>"
    by (elim append_under_gate_Inr)
  have "seed_length_of (ss_header s) \<le> length (session_events s)"
    using assms(2) by (simp add: build_state_iff)
  moreover have "st_seed_length (ss_state s) = seed_length_of (ss_header s)"
    using build_state_wf [OF assms(2)] by (simp add: session_wf_def seed_sound_def)
  ultimately show ?thesis by (simp add: s' seed_events_def live_events_def)
qed

theorem seed_prefix_immutable_witness:
  "\<exists>s' c' p'. append_inner wire_codec (memory_persistence wire_codec) (sample_session ''c1'')
      (sample_note 4) None (None, sample_memory ''c1'') = (Inr s', c', p')
    \<and> seed_events s' = sample_log ''c1'' \<and> live_events s' = [sample_note 4]"
proof -
  let ?run = "append_inner wire_codec (memory_persistence wire_codec) (sample_session ''c1'')
      (sample_note 4) None (None, sample_memory ''c1'')"
  have "is_ok (fst ?run)" by code_simp
  then obtain s' c' p' where run: "?run = (Inr s', c', p')"
    by (metis is_ok_ex prod.exhaust_sel)
  have ok: "build_state wire_codec (ss_header (sample_session ''c1''))
      (session_events (sample_session ''c1'')) = Inr (ss_state (sample_session ''c1''))"
    by code_simp
  have "seed_events (sample_session ''c1'') = sample_log ''c1''" "live_events (sample_session ''c1'') = []"
    by code_simp+
  with seed_prefix_immutable [OF run ok] run show ?thesis by auto
qed

end
