(* ===== verification/Recovery_Properties.thy ===== *)
theory Recovery_Properties
  imports Session_Properties
begin

text \<open>
  The properties of restoration and of the durable inbox: what a cold, a live and a metadata restore
  do to the log, that a restart loses nothing, and that pending messages keep distinct identities.
\<close>

section \<open>Restoration\<close>

text \<open>C4: A cold restoration that returns has closed the interrupted turn: the log it leaves has
  nothing left to close, it extends the log it found by the closers only, and it is durable.\<close>

theorem cold_restore_closes_turn:
  assumes "store_restore cdc (memory_persistence cdc) live x RestoreCold (c, p) = (Inr (s, live'), c', p')"
  shows "interrupted_turn_closers cdc (session_events s) = Inr []
    \<and> (\<exists>h es closers. mem_log p x = Some (h, es)
         \<and> interrupted_turn_closers cdc es = Inr closers
         \<and> session_events s = es @ closers
         \<and> mem_log p' = (mem_log p)(x \<mapsto> (h, es @ closers)))"
proof -
  from assms obtain h es cl where "mem_log p x = Some (h, es)" "interrupted_turn_closers cdc es = Inr cl"
    "session_events s = es @ cl" "mem_log p' = (mem_log p)(x \<mapsto> (h, session_events s))"
    by (auto elim: mem.restore_done)
  with mem.cold_restore_closes [OF assms] show ?thesis by auto
qed

theorem cold_restore_closes_turn_witness:
  "\<exists>s live' c' p'. store_restore wire_codec (memory_persistence wire_codec) [] ''s1'' RestoreCold
      (None, sample_memory ''c1'') = (Inr (s, live'), c', p')
    \<and> interrupted_turn_closers wire_codec (session_events s) = Inr []"
proof -
  let ?run = "store_restore wire_codec (memory_persistence wire_codec) [] ''s1'' RestoreCold
      (None, sample_memory ''c1'')"
  have "is_ok (fst ?run)" by code_simp
  then obtain s live' c' p' where run: "?run = (Inr (s, live'), c', p')"
    by (metis is_ok_ex prod.exhaust_sel)
  from cold_restore_closes_turn [OF run] run show ?thesis by auto
qed

text \<open>C3: Cold restoration succeeds. In every reachable state, a durable session that is not live,
  whose turns can be scanned, whose unanswered tool calls have identifiers and whose log has room below
  the largest safe integer, is restored by an uncancelled cold restore.\<close>

theorem cold_restore_succeeds:
  assumes "tool_message_codec cdc"
    and "(store_step cdc (memory_persistence cdc))\<^sup>*\<^sup>* ([], []) (live, p)"
    and "store_get live x = None" and "mem_log p x = Some (h, es)"
    and "scan_turns cdc es = Inr sc" and "list_all (\<lambda>call. \<not> blank (pc_call_id call)) (sc_pending sc)"
    and "interrupted_turn_closers cdc es = Inr closers"
    and "length es + length closers \<le> Suc MAX_SAFE_INTEGER"
  shows "\<exists>s live' p'. store_restore cdc (memory_persistence cdc) live x RestoreCold (None, p)
    = (Inr (s, live'), None, p')"
  using mem_live.cold_restore_progress [OF assms(1) reachable_ok [OF assms(2)] _ assms(4,7)]
    assms(3,5,6,8)
  by (auto simp: store_get_def list_all_iff)

theorem cold_restore_succeeds_witness:
  "\<exists>s live' p'. store_restore wire_codec (memory_persistence wire_codec) [] ''s1'' RestoreCold
     (None, sample_memory ''c1'') = (Inr (s, live'), None, p')"
proof (rule cold_restore_succeeds [OF wire.tool_message_codec_axioms sample_cold])
  let ?sc = "scan_turns wire_codec (sample_log ''c1'')"
  let ?cl = "interrupted_turn_closers wire_codec (sample_log ''c1'')"
  show "store_get [] ''s1'' = None" by (simp add: store_get_def)
  show "mem_log (sample_memory ''c1'') ''s1'' = Some (sample_header, sample_log ''c1'')" by code_simp
  show "?sc = Inr (projr ?sc)" by code_simp
  show "list_all (\<lambda>call. \<not> blank (pc_call_id call)) (sc_pending (projr ?sc))" by code_simp
  show "?cl = Inr (projr ?cl)" by code_simp
  show "length (sample_log ''c1'') + length (projr ?cl) \<le> Suc MAX_SAFE_INTEGER" by code_simp
qed

text \<open>Only a cold restoration repairs. A live or metadata restore leaves every durable log
  unchanged, whatever it returns, and a live restore that returns has found no interrupted turn.\<close>

theorem restore_without_repair_reads_only:
  assumes "store_restore cdc (memory_persistence cdc) live x mode (c, p) = (r, c', p')"
    and "mode \<noteq> RestoreCold"
  shows "mem_log p' = mem_log p \<and>
    (\<forall>s live'. mode = RestoreLive \<and> r = Inr (s, live') \<longrightarrow>
       interrupted_turn_closers cdc (session_events s) = Inr [])"
  using mem.live_restore_reads [OF assms] assms
  by (auto elim!: mem.restore_done)

theorem restore_without_repair_reads_only_witness:
  "mem_log (snd (snd (store_restore wire_codec (memory_persistence wire_codec) [] ''s1'' RestoreLive
     (None, sample_memory ''c1'')))) = mem_log (sample_memory ''c1'')"
proof -
  let ?run = "store_restore wire_codec (memory_persistence wire_codec) [] ''s1'' RestoreLive
     (None, sample_memory ''c1'')"
  have "?run = (fst ?run, fst (snd ?run), snd (snd ?run))" by simp
  from restore_without_repair_reads_only [OF this] show ?thesis by simp
qed

text \<open>C17: A restart loses nothing. In every reachable state, a live session without an interrupted
  turn is restored by a new process, in any mode, with the same header and the same state.\<close>

theorem restart_reproduces_session:
  assumes "(store_step cdc (memory_persistence cdc))\<^sup>*\<^sup>* ([], []) (live, p)"
    and "store_get live x = Some s"
    and "interrupted_turn_closers cdc (session_events s) = Inr []"
  shows "\<exists>s' p'. store_restore cdc (memory_persistence cdc) [] x mode (None, p)
      = (Inr (s', [(x, s')]), None, p') \<and> ss_state s' = ss_state s \<and> ss_header s' = ss_header s"
proof -
  note ok = reachable_ok [OF assms(1)]
  note s = store_ok_live [OF ok assms(2) [unfolded store_get_def]]
  have "mem_log p x = Some (ss_header s, session_events s)" using s by (simp add: synced_def)
  from mem_live.settled_restore_progress [OF store_ok_evict [OF ok] _ this assms(3), of mode] s(2)
  show ?thesis by (auto simp: session_ok_def)
qed

theorem restart_reproduces_session_witness:
  "\<exists>s p. store_restore wire_codec (memory_persistence wire_codec) [] ''s1'' RestoreCold
        (None, sample_memory ''c1'') = (Inr (s, [(''s1'', s)]), None, p)
    \<and> (\<exists>s' p'. store_restore wire_codec (memory_persistence wire_codec) [] ''s1'' RestoreLive
        (None, p) = (Inr (s', [(''s1'', s')]), None, p')
        \<and> ss_state s' = ss_state s \<and> ss_header s' = ss_header s)"
proof -
  let ?run = "store_restore wire_codec (memory_persistence wire_codec) [] ''s1'' RestoreCold
      (None, sample_memory ''c1'')"
  have "case ?run of (Inr (s, live), None, p) \<Rightarrow> live = [(''s1'', s)] | _ \<Rightarrow> False" by code_simp
  then obtain s p where run: "?run = (Inr (s, [(''s1'', s)]), None, p)" by (auto split: prod.splits sum.splits option.splits)
  have "store_step wire_codec (memory_persistence wire_codec) ([], sample_memory ''c1'')
      (live_after [] (Inr (s, [(''s1'', s)])), p)"
    using run by (rule store_step.restore)
  with sample_cold have "(store_step wire_codec (memory_persistence wire_codec))\<^sup>*\<^sup>* ([], [])
      ([(''s1'', s)], p)"
    by (simp add: live_after_def)
  moreover have "store_get [(''s1'', s)] ''s1'' = Some s" by (simp add: store_get_def)
  ultimately show ?thesis
    using restart_reproduces_session mem.cold_restore_closes [OF run] run by blast
qed

text \<open>Reading is total: in every reachable state an uncancelled snapshot of any session, live or
  durable, returns its header and its committed log, and nothing for an unknown session.\<close>

theorem snapshot_reads_log:
  assumes "(store_step cdc (memory_persistence cdc))\<^sup>*\<^sup>* ([], []) (live, p)"
  shows "\<exists>p'. store_snapshot cdc (memory_persistence cdc) live x (None, p) = (Inr (mem_log p x), None, p')"
  using mem_live.snapshot_progress [OF reachable_ok [OF assms]] .

theorem snapshot_reads_log_witness:
  "\<exists>p'. store_snapshot wire_codec (memory_persistence wire_codec) [] ''s1'' (None, sample_memory ''c1'')
     = (Inr (mem_log (sample_memory ''c1'') ''s1''), None, p')"
  by (rule snapshot_reads_log [OF sample_cold])

text \<open>A tool call with an empty identifier makes a session unrestorable. Content validation
  accepts such a call, so the log below is admitted and durable; the synthetic result that a cold
  restore must append names the identifier and is refused, so every cold restore of the session fails.\<close>

theorem blank_call_id_unrestorable:
  "(store_step wire_codec (memory_persistence wire_codec))\<^sup>*\<^sup>* ([], []) ([], sample_memory [])
   \<and> mem_log (sample_memory []) ''s1'' = Some (sample_header, sample_log [])
   \<and> fst (store_restore wire_codec (memory_persistence wire_codec) [] ''s1'' RestoreCold
       (None, sample_memory [])) = Inl InvalidSurfaceMessage"
proof -
  have "mem_log (sample_memory []) ''s1'' = Some (sample_header, sample_log [])" by code_simp
  moreover have "fst (store_restore wire_codec (memory_persistence wire_codec) [] ''s1'' RestoreCold
       (None, sample_memory [])) = Inl InvalidSurfaceMessage"
    by code_simp
  ultimately show ?thesis using sample_cold_blank by blast
qed

section \<open>The durable inbox\<close>

text \<open>No identity is pending twice: whatever sequence of enqueues, range splices, edits, removals,
  steers and claims a log records, the identities of the two replayed queues together are distinct.\<close>

theorem inbox_identities_distinct:
  assumes "replay_inbox cdc events = Inr i"
  shows "distinct (map msg_id (followups i) @ map msg_id (steps i))"
  using replay_inbox_wf [OF assms] by (simp add: inbox_wf_def pending_ids_def)

theorem inbox_identities_distinct_witness:
  "\<exists>i. replay_inbox wire_codec [sample_enqueue 0] = Inr i
     \<and> distinct (map msg_id (followups i) @ map msg_id (steps i))"
proof -
  have "replay_inbox wire_codec [sample_enqueue 0]
      = Inr \<lparr>followups = [sample_inbox], steps = []\<rparr>" by code_simp
  with inbox_identities_distinct [OF this] show ?thesis by simp
qed

text \<open>A user message claims the pending message it delivers: replaying one more
  \<open>user/message\<close> removes every entry with its id from both queues, keeps all the others in order, and
  cannot fail.\<close>

theorem user_message_claims:
  assumes "replay_inbox cdc events = Inr i" and "ev_type e = ''user/message''"
    and "get_str ''id'' (ev_data e) = Some x"
  shows "\<exists>i'. replay_inbox cdc (events @ [e]) = Inr i'
    \<and> followups i' = filter (\<lambda>m. msg_id m \<noteq> x) (followups i)
    \<and> steps i' = filter (\<lambda>m. msg_id m \<noteq> x) (steps i)"
  using inbox_remove_filter [OF replay_inbox_wf [OF assms(1)]] assms
  by (simp add: replay_inbox_def try_fold_append inbox_apply_def INBOX_ENQUEUED_EVENT_def
      INBOX_SPLICED_EVENT_def)

theorem user_message_claims_witness:
  "\<exists>i'. replay_inbox wire_codec ([sample_enqueue 0] @
       [sample_event ''user/message'' 1 (enc_message sample_inbox)]) = Inr i' \<and> followups i' = []"
proof -
  let ?e = "sample_event ''user/message'' 1 (enc_message sample_inbox)"
  have "replay_inbox wire_codec [sample_enqueue 0]
      = Inr \<lparr>followups = [sample_inbox], steps = []\<rparr>" by code_simp
  moreover have "ev_type ?e = ''user/message''" by code_simp
  moreover have "get_str ''id'' (ev_data ?e) = Some ''q1''" by code_simp
  ultimately have "\<exists>i'. replay_inbox wire_codec ([sample_enqueue 0] @ [?e]) = Inr i'
      \<and> followups i' = filter (\<lambda>m. msg_id m \<noteq> ''q1'') [sample_inbox] \<and> steps i' = []"
    using user_message_claims [of wire_codec "[sample_enqueue 0]"] by fastforce
  then show ?thesis by (auto simp: sample_inbox_def)
qed

end
