(* ===== verification/Durable_Fold.thy ===== *)
theory Durable_Fold
  imports Events
begin

text \<open>
  The shape the durable projections of a session share: a loop over the committed events that changes
  its state at the events of some kinds only. The contract \<open>durable_fold\<close> is what the components rely
  on when they append one event and read the projection again; \<open>whole_value_fold\<close> adds that a relevant
  event carries the complete new value.
\<close>

locale durable_fold =
  fixes step :: "'s \<Rightarrow> session_event \<Rightarrow> 'e + 's"
    and relevant :: "session_event \<Rightarrow> bool"
  assumes skip: "\<not> relevant e \<Longrightarrow> step s e = Inr s"
begin

lemma fold_snoc:
  "try_fold step s (es @ [e]) = and_then (try_fold step s es) (\<lambda>t. step t e)"
  by (simp add: try_fold_append)

lemma fold_relevant: "try_fold step s es = try_fold step s (filter relevant es)"
proof (induction es arbitrary: s)
  case (Cons e es)
  then show ?case by (cases "relevant e"; cases "step s e") (auto simp: skip)
qed simp

lemma fold_skip: "\<not> relevant e \<Longrightarrow> try_fold step s (es @ [e]) = try_fold step s es"
  by (metis append_Nil2 filter.simps filter_append fold_relevant)

lemma fold_untouched: "filter relevant es = [] \<Longrightarrow> try_fold step s es = Inr s"
  by (metis fold_relevant try_fold.simps(1))

end

locale whole_value_fold = durable_fold +
  assumes overwrite: "relevant e \<Longrightarrow> step s e = step t e"
begin

lemma last_wins:
  assumes "try_fold step s es = Inr v" and "filter relevant es \<noteq> []"
  shows "step t (last (filter relevant es)) = Inr v"
proof -
  let ?rs = "filter relevant es"
  from assms have "try_fold step s (butlast ?rs @ [last ?rs]) = Inr v"
    by (metis append_butlast_last_id fold_relevant)
  then obtain u where "step u (last ?rs) = Inr v" unfolding fold_snoc by auto
  moreover have "relevant (last ?rs)" using assms(2) last_in_set by fastforce
  ultimately show ?thesis using overwrite by metis
qed

end

end
