(* ===== verification/Permissions.thy ===== *)
theory Permissions
  imports Durable_Fold
begin

text \<open>
  Permission presets and their durable fold (\<open>src/src/permissions.rs\<close>), with the sandbox modes of
  \<open>src/src/sandbox.rs\<close> in their derived order and the approval policies of \<open>src/src/approval.rs\<close>.
\<close>

section \<open>Modes and presets\<close>

datatype sandbox_mode = ReadOnly | WorkspaceWrite | DangerFullAccess
datatype approval_policy = Ask | Never

fun sandbox_rank :: "sandbox_mode \<Rightarrow> nat" where
  "sandbox_rank ReadOnly = 0"
| "sandbox_rank WorkspaceWrite = 1"
| "sandbox_rank DangerFullAccess = 2"

instantiation sandbox_mode :: linorder
begin

definition less_eq_sandbox_mode :: "sandbox_mode \<Rightarrow> sandbox_mode \<Rightarrow> bool" where
  "less_eq_sandbox_mode a b \<longleftrightarrow> sandbox_rank a \<le> sandbox_rank b"

definition less_sandbox_mode :: "sandbox_mode \<Rightarrow> sandbox_mode \<Rightarrow> bool" where
  "less_sandbox_mode a b \<longleftrightarrow> sandbox_rank a < sandbox_rank b"

instance
proof
  fix a b :: sandbox_mode
  show "a \<le> b \<Longrightarrow> b \<le> a \<Longrightarrow> a = b"
    by (cases a; cases b) (simp_all add: less_eq_sandbox_mode_def)
qed (auto simp: less_eq_sandbox_mode_def less_sandbox_mode_def)

end

record permission_preset =
  pp_name :: string
  pp_sandbox :: sandbox_mode
  pp_approval :: approval_policy
  pp_description :: string

definition PRESETS :: "permission_preset list" where
  "PRESETS =
     [\<lparr>pp_name = ''read-only'', pp_sandbox = ReadOnly, pp_approval = Ask,
       pp_description = ''Keep sandbox-enforced writes read-only; supported workspace-write escalations require approval.''\<rparr>,
      \<lparr>pp_name = ''workspace-write'', pp_sandbox = WorkspaceWrite, pp_approval = Ask,
       pp_description = ''Allow sandboxed commands to write in the workspace and permitted temporary directories; capability file tools stay workspace-confined.''\<rparr>,
      \<lparr>pp_name = ''danger-full-access'', pp_sandbox = DangerFullAccess, pp_approval = Never,
       pp_description = ''Run commands without sandbox confinement or approval prompts; capability file tools stay workspace-confined.''\<rparr>]"

definition PERMISSION_SETTINGS_NAMESPACE :: string where
  "PERMISSION_SETTINGS_NAMESPACE = ''permission''"

definition DEFAULT_PERMISSION_PRESET :: string where
  "DEFAULT_PERMISSION_PRESET = ''workspace-write''"

definition CUSTOM_PERMISSION_PRESET :: string where
  "CUSTOM_PERMISSION_PRESET = ''custom''"

definition preset :: "string \<Rightarrow> permission_preset option" where
  "preset name = find_first (\<lambda>p. pp_name p = name) PRESETS"

definition preset_names :: "string list" where
  "preset_names = map pp_name PRESETS"

section \<open>Settings\<close>

record settings_registration =
  sr_namespace :: string
  sr_schema :: json
  sr_default :: json
  sr_base :: json

fun join :: "string \<Rightarrow> string list \<Rightarrow> string" where
  "join sep [] = []"
| "join sep [x] = x"
| "join sep (x # y # ys) = x @ sep @ join sep (y # ys)"

definition settings_schema :: json where
  "settings_schema =
     (let n = length preset_names; union_id = n + 1; object_id = union_id + 1;
          consts = map (\<lambda>(i, choice). (show_nat (i + 1),
                     obj [(''type'', JStr ''const''), (''value'', JStr choice)]))
                     (zip [0 ..< n] preset_names);
          refs = consts
            @ [(show_nat union_id,
                obj [(''type'', JStr ''union''), (''list'', JArr (map jnat [1 ..< n + 1]))]),
               (show_nat object_id,
                obj [(''type'', JStr ''object''),
                     (''dict'', obj [(''defaultPreset'', jnat union_id)])])]
      in obj [(''uid'', jnat object_id), (''refs'', obj refs)])"

definition settings_registration_of :: "json \<Rightarrow> settings_registration" where
  "settings_registration_of base =
     \<lparr>sr_namespace = PERMISSION_SETTINGS_NAMESPACE, sr_schema = settings_schema,
      sr_default = obj [(''defaultPreset'', JStr DEFAULT_PERMISSION_PRESET)], sr_base = base\<rparr>"

definition settings_validator :: "json \<Rightarrow> tessivum_error + unit" where
  "settings_validator v =
     (if (case as_object v of
            None \<Rightarrow> False
          | Some kvs \<Rightarrow>
              length kvs = 1
              \<and> (case get_str ''defaultPreset'' v of
                   None \<Rightarrow> False
                 | Some candidate \<Rightarrow> candidate \<in> set preset_names))
      then Inr ()
      else Inl (tessivum_error_new ''INVALID_SETTINGS_VALUE''
                  (''permission.defaultPreset must be one of '' @ join '', '' preset_names)
                  ''settings''
                  (obj [(''namespace'', JStr PERMISSION_SETTINGS_NAMESPACE),
                        (''field'', JStr ''defaultPreset'')])))"

section \<open>The durable fold\<close>

record permission_knobs =
  kn_preset :: "string option"
  kn_sandbox :: "sandbox_mode option"
  kn_approval :: "approval_policy option"

definition no_knobs :: permission_knobs where
  "no_knobs = \<lparr>kn_preset = None, kn_sandbox = None, kn_approval = None\<rparr>"

definition select_preset :: "permission_knobs \<Rightarrow> string \<Rightarrow> permission_knobs" where
  "select_preset st name = st\<lparr>kn_preset := Some name\<rparr>"

definition sandbox_mode_of :: "string \<Rightarrow> sandbox_mode option" where
  "sandbox_mode_of s =
     (if s = ''read-only'' then Some ReadOnly
      else if s = ''workspace-write'' then Some WorkspaceWrite
      else if s = ''danger-full-access'' then Some DangerFullAccess
      else None)"

definition approval_policy_of :: "string \<Rightarrow> approval_policy option" where
  "approval_policy_of s =
     (if s = ''ask'' then Some Ask else if s = ''never'' then Some Never else None)"

definition permission_apply :: "permission_knobs \<Rightarrow> session_event \<Rightarrow> permission_knobs \<times> bool" where
  "permission_apply st e =
     (if ev_type e = ''permission/preset'' then
        (case get_str ''preset'' (ev_data e) of
           None \<Rightarrow> (st, True)
         | Some name \<Rightarrow> (st\<lparr>kn_preset := Some name\<rparr>, True))
      else if ev_type e = ''sandbox/mode'' then
        (case Option.bind (get_str ''mode'' (ev_data e)) sandbox_mode_of of
           None \<Rightarrow> (st, True)
         | Some m \<Rightarrow> (st\<lparr>kn_sandbox := Some m\<rparr>, True))
      else if ev_type e = ''approval/policy'' then
        (case Option.bind (get_str ''policy'' (ev_data e)) approval_policy_of of
           None \<Rightarrow> (st, True)
         | Some p \<Rightarrow> (st\<lparr>kn_approval := Some p\<rparr>, True))
      else (st, False))"

definition permission_fold :: "session_event list \<Rightarrow> permission_knobs" where
  "permission_fold events = foldl (\<lambda>st e. fst (permission_apply st e)) no_knobs events"

definition effective_sandbox :: "permission_knobs \<Rightarrow> sandbox_mode" where
  "effective_sandbox st = (case kn_sandbox st of None \<Rightarrow> WorkspaceWrite | Some m \<Rightarrow> m)"

definition effective_approval :: "permission_knobs \<Rightarrow> approval_policy" where
  "effective_approval st = (case kn_approval st of None \<Rightarrow> Ask | Some p \<Rightarrow> p)"

definition permission_current :: "permission_knobs \<Rightarrow> string" where
  "permission_current st =
     (let sandbox = effective_sandbox st; approval = effective_approval st;
          fallback = (case find_first (\<lambda>p. pp_sandbox p = sandbox \<and> pp_approval p = approval) PRESETS of
                        None \<Rightarrow> CUSTOM_PERMISSION_PRESET
                      | Some p \<Rightarrow> pp_name p)
      in case Option.bind (kn_preset st) preset of
           Some selected \<Rightarrow>
             if pp_sandbox selected = sandbox \<and> pp_approval selected = approval
             then pp_name selected else fallback
         | None \<Rightarrow> fallback)"

definition permission_select :: "permission_knobs \<Rightarrow> json" where
  "permission_select st =
     (let current_value = permission_current st;
          options = map (\<lambda>p. obj [(''value'', JStr (pp_name p)), (''name'', JStr (pp_name p)),
                                  (''description'', JStr (pp_description p))]) PRESETS;
          custom = (if current_value = CUSTOM_PERMISSION_PRESET
                    then [obj [(''value'', JStr CUSTOM_PERMISSION_PRESET), (''name'', JStr ''Custom''),
                               (''description'', JStr ''Current sandbox and approval settings do not match a preset.'')]]
                    else [])
      in obj [(''options'', JArr (options @ custom)), (''currentValue'', JStr current_value)])"

section \<open>The model-visible snapshot\<close>

text \<open>\<open>quote\<close> stands for \<open>serde_json::to_string\<close> on a string.\<close>

fun sandbox_policy_text :: "sandbox_mode \<Rightarrow> string" where
  "sandbox_policy_text ReadOnly =
     ''Standing Tessivum sandbox policy: read-only. Sandbox-enforced operations cannot modify files without an approved workspace-write escalation. Do not refuse a required workspace modification from this policy alone: try an available tool normally and follow any denial and escalation guidance it returns.''"
| "sandbox_policy_text WorkspaceWrite =
     ''Standing Tessivum sandbox policy: workspace-write. Sandbox-enforced operations may modify files in the session workspace and permitted temporary directories.''"
| "sandbox_policy_text DangerFullAccess =
     ''Standing Tessivum sandbox policy: danger-full-access. Sandbox-enforced commands may access files outside the session workspace.''"

fun approval_policy_text :: "approval_policy \<Rightarrow> string" where
  "approval_policy_text Ask =
     ''Approval policy: ask. Operations that support escalation may ask through the configured answerers; without an available answerer, the request fails closed.''"
| "approval_policy_text Never =
     ''Approval policy: never. Actions that require approval are rejected automatically; do not request sandbox escalation (do not set `sandbox_permissions`).''"

definition file_tools_text :: string where
  "file_tools_text =
     ''Tessivum's `read`, `write`, `edit`, `read_image`, `glob`, and `grep` file tools accept workspace-relative paths and validated absolute paths contained in the session workspace. These capability file tools remain workspace-confined in every sandbox mode, including danger-full-access.''"

definition client_time_zone :: "session_event list \<Rightarrow> string option" where
  "client_time_zone events =
     find_first (\<lambda>_. True)
       (List.map_filter
          (\<lambda>e. if ev_type e = ''user/message''
               then Option.bind (json_get ''source'' (ev_data e)) (get_str ''clientTimeZone'')
               else None)
          (rev events))"

definition blank_line :: string where
  "blank_line = [char_of (10 :: nat), char_of (10 :: nat)]"

definition runtime_context ::
  "(string \<Rightarrow> string) \<Rightarrow> session_event list \<Rightarrow> string option \<Rightarrow> string" where
  "runtime_context quote events workspace =
     (let st = permission_fold events;
          workspace_text =
            (case workspace of
               None \<Rightarrow> ''Session workspace: unavailable.''
             | Some w \<Rightarrow> ''Session workspace: '' @ quote w @ ''.'');
          browser_time =
            (case client_time_zone events of
               None \<Rightarrow> ''Browser time zone for this request: unavailable. Ask the user to clarify otherwise-unqualified dates and times.''
             | Some z \<Rightarrow> ''Browser time zone for this request: '' @ z
                 @ ''. Interpret otherwise-unqualified dates and times in this zone.'')
      in ''Current Tessivum runtime context. This authoritative snapshot supersedes earlier runtime-context snapshots.''
         @ blank_line @ workspace_text @ blank_line @ sandbox_policy_text (effective_sandbox st)
         @ blank_line @ file_tools_text @ blank_line
         @ approval_policy_text (effective_approval st) @ blank_line @ browser_time)"

section \<open>Commands of the host\<close>

text \<open>The durable facts the host appends, in order, for the permission command and when it first opens a
  session (\<open>run_permission_command\<close> and \<open>pin_initial_permission\<close> in \<open>src/src/host.rs\<close>). Each
  fact is one \<open>append_next\<close> of its own, the approval fact through \<open>ApprovalService::set_policy\<close>; the
  first failing append ends the sequence.\<close>

fun sandbox_mode_name :: "sandbox_mode \<Rightarrow> string" where
  "sandbox_mode_name ReadOnly = ''read-only''"
| "sandbox_mode_name WorkspaceWrite = ''workspace-write''"
| "sandbox_mode_name DangerFullAccess = ''danger-full-access''"

fun approval_policy_name :: "approval_policy \<Rightarrow> string" where
  "approval_policy_name Ask = ''ask''"
| "approval_policy_name Never = ''never''"

type_synonym fact = "string \<times> json"

definition preset_write :: "string \<Rightarrow> fact" where
  "preset_write name = (''permission/preset'', obj [(''preset'', JStr name)])"

definition sandbox_write :: "sandbox_mode \<Rightarrow> fact" where
  "sandbox_write m = (''sandbox/mode'', obj [(''mode'', JStr (sandbox_mode_name m))])"

definition approval_write :: "approval_policy \<Rightarrow> fact" where
  "approval_write p = (''approval/policy'', obj [(''policy'', JStr (approval_policy_name p))])"

datatype command_result = CommandSuccess "string option" | CommandError string

definition run_permission_command ::
  "session_event list \<Rightarrow> string \<Rightarrow> command_result \<times> fact list" where
  "run_permission_command events raw_input =
     (let requested = trim raw_input; knobs = permission_fold events;
          available = join '', '' preset_names
      in if requested = []
         then (CommandSuccess (Some (''current preset '' @ permission_current knobs
                 @ '' (available: '' @ available @ '')'')), [])
         else case preset requested of
           None \<Rightarrow> (CommandError (''unknown preset \"'' @ requested @ ''\" (available: ''
                     @ available @ '')''), [])
         | Some spec \<Rightarrow>
             (CommandSuccess (Some (''preset '' @ requested)),
              (if permission_current knobs \<noteq> requested then [preset_write requested] else [])
              @ (if kn_sandbox knobs \<noteq> Some (pp_sandbox spec)
                 then [sandbox_write (pp_sandbox spec)] else [])
              @ (if kn_approval knobs \<noteq> Some (pp_approval spec)
                 then [approval_write (pp_approval spec)] else [])))"

definition pin_initial_permission ::
  "json \<Rightarrow> session_event list \<Rightarrow> tessivum_error + fact list" where
  "pin_initial_permission settings events =
     (let knobs = permission_fold events;
          unsupported = tessivum_error_new ''INVALID_PERMISSION_PRESET''
                          ''permission.defaultPreset must be a supported preset'' ''host'' JNull
      in if knobs = no_knobs \<and> \<not> list_ex (\<lambda>e. ev_type e = ''session/end-seed'') events
         then
           and_then (ok_or unsupported (get_str ''defaultPreset'' settings)) (\<lambda>name.
           and_then (ok_or unsupported (preset name)) (\<lambda>spec.
           Inr [preset_write name, sandbox_write (pp_sandbox spec), approval_write (pp_approval spec)]))
         else
           Inr ((if kn_preset knobs = None \<and> permission_current knobs \<noteq> CUSTOM_PERMISSION_PRESET
                 then [preset_write (permission_current knobs)] else [])
                @ (if kn_sandbox knobs = None then [sandbox_write WorkspaceWrite] else [])
                @ (if kn_approval knobs = None then [approval_write Ask] else [])))"

section \<open>The fold as a durable projection\<close>

definition is_permission_event :: "session_event \<Rightarrow> bool" where
  "is_permission_event e \<longleftrightarrow>
     ev_type e = ''permission/preset'' \<or> ev_type e = ''sandbox/mode'' \<or> ev_type e = ''approval/policy''"

definition permission_step :: "permission_knobs \<Rightarrow> session_event \<Rightarrow> unit + permission_knobs" where
  "permission_step st e = Inr (fst (permission_apply st e))"

interpretation permissions: durable_fold permission_step is_permission_event
  by unfold_locales (simp add: permission_step_def permission_apply_def is_permission_event_def)

lemma permission_fold_try: "try_fold permission_step st es
    = Inr (foldl (\<lambda>st e. fst (permission_apply st e)) st es)"
  by (induction es arbitrary: st) (simp_all add: permission_step_def)

lemma permission_apply_consumes: "snd (permission_apply st e) = is_permission_event e"
  by (auto simp: permission_apply_def is_permission_event_def split: option.splits)

text \<open>The facts one event records, as the fold reads them.\<close>

definition sandbox_fact :: "session_event \<Rightarrow> sandbox_mode option" where
  "sandbox_fact e =
     (if ev_type e = ''sandbox/mode''
      then Option.bind (get_str ''mode'' (ev_data e)) sandbox_mode_of else None)"

definition approval_fact :: "session_event \<Rightarrow> approval_policy option" where
  "approval_fact e =
     (if ev_type e = ''approval/policy''
      then Option.bind (get_str ''policy'' (ev_data e)) approval_policy_of else None)"

definition last_fact :: "('a \<Rightarrow> 'b option) \<Rightarrow> 'a list \<Rightarrow> 'b option" where
  "last_fact f xs = (case rev (List.map_filter f xs) of [] \<Rightarrow> None | y # _ \<Rightarrow> Some y)"

lemma last_fact_simps [simp]:
  "last_fact f [] = None"
  "last_fact f (xs @ [x]) = (case f x of None \<Rightarrow> last_fact f xs | Some y \<Rightarrow> Some y)"
  by (simp_all add: last_fact_def List.map_filter_def split: option.splits)

lemma last_fact_Some: "last_fact f xs = Some y \<Longrightarrow> \<exists>x\<in>set xs. f x = Some y"
  by (induction xs rule: rev_induct) (auto split: option.splits)

lemma permission_fold_snoc:
  "permission_fold (es @ [e]) = fst (permission_apply (permission_fold es) e)"
  by (simp add: permission_fold_def)

lemma permission_fold_facts:
  "kn_sandbox (permission_fold es) = last_fact sandbox_fact es
   \<and> kn_approval (permission_fold es) = last_fact approval_fact es"
proof (induction es rule: rev_induct)
  case Nil
  show ?case by (simp add: permission_fold_def no_knobs_def)
next
  case (snoc e es)
  then show ?case
    by (auto simp: permission_fold_snoc permission_apply_def sandbox_fact_def approval_fact_def
        split: option.splits)
qed

lemma preset_cases:
  assumes "p \<in> set PRESETS"
  obtains "pp_name p = ''read-only''" "pp_sandbox p = ReadOnly" "pp_approval p = Ask"
  | "pp_name p = ''workspace-write''" "pp_sandbox p = WorkspaceWrite" "pp_approval p = Ask"
  | "pp_name p = ''danger-full-access''" "pp_sandbox p = DangerFullAccess" "pp_approval p = Never"
  using assms by (auto simp: PRESETS_def)

lemma preset_Some: "preset name = Some p \<Longrightarrow> p \<in> set PRESETS \<and> pp_name p = name"
  unfolding preset_def by (drule find_first_Some) simp

lemma permission_current_cases:
  obtains p where "p \<in> set PRESETS" "permission_current st = pp_name p"
    "pp_sandbox p = effective_sandbox st" "pp_approval p = effective_approval st"
  | "permission_current st = CUSTOM_PERMISSION_PRESET"
    "\<forall>p\<in>set PRESETS. \<not> (pp_sandbox p = effective_sandbox st \<and> pp_approval p = effective_approval st)"
proof -
  let ?match = "\<lambda>p. pp_sandbox p = effective_sandbox st \<and> pp_approval p = effective_approval st"
  show ?thesis
  proof (cases "\<exists>p. Option.bind (kn_preset st) preset = Some p \<and> ?match p")
    case True
    then obtain p where p: "Option.bind (kn_preset st) preset = Some p" "?match p" by blast
    then have "p \<in> set PRESETS" by (auto simp: bind_eq_Some_conv dest: preset_Some)
    with p that(1) show ?thesis by (simp add: permission_current_def Let_def)
  next
    case False
    then have cur: "permission_current st =
        (case find_first ?match PRESETS of None \<Rightarrow> CUSTOM_PERMISSION_PRESET | Some p \<Rightarrow> pp_name p)"
      by (auto simp: permission_current_def Let_def split: option.splits)
    show ?thesis
    proof (cases "find_first ?match PRESETS")
      case None
      with cur that(2) show ?thesis by simp
    next
      case (Some p)
      with cur find_first_Some [OF Some] show ?thesis by (intro that(1) [of p]) auto
    qed
  qed
qed

section \<open>Facts the host appends\<close>

definition fact_of :: "session_event \<Rightarrow> fact" where
  "fact_of e = (ev_type e, ev_data e)"

lemma mode_names [simp]:
  "sandbox_mode_of (sandbox_mode_name m) = Some m"
  "approval_policy_of (approval_policy_name p) = Some p"
  by (cases m; simp add: sandbox_mode_of_def) (cases p; simp add: approval_policy_of_def)

lemma permission_apply_facts:
  "fact_of e = preset_write name \<Longrightarrow> fst (permission_apply st e) = st\<lparr>kn_preset := Some name\<rparr>"
  "fact_of e = sandbox_write m \<Longrightarrow> fst (permission_apply st e) = st\<lparr>kn_sandbox := Some m\<rparr>"
  "fact_of e = approval_write p \<Longrightarrow> fst (permission_apply st e) = st\<lparr>kn_approval := Some p\<rparr>"
  by (simp_all add: fact_of_def preset_write_def sandbox_write_def approval_write_def
      permission_apply_def get_str_def)

text \<open>Folding appended facts, one optional fact of each kind at a time.\<close>

lemma permission_fold_writes:
  assumes "map fact_of es' = (case a of None \<Rightarrow> [] | Some n \<Rightarrow> [preset_write n])
      @ (case b of None \<Rightarrow> [] | Some m \<Rightarrow> [sandbox_write m])
      @ (case c of None \<Rightarrow> [] | Some p \<Rightarrow> [approval_write p])"
  shows "kn_preset (permission_fold (es @ es')) = (case a of None \<Rightarrow> kn_preset (permission_fold es) | Some n \<Rightarrow> Some n)"
    and "kn_sandbox (permission_fold (es @ es')) = (case b of None \<Rightarrow> kn_sandbox (permission_fold es) | Some m \<Rightarrow> Some m)"
    and "kn_approval (permission_fold (es @ es')) = (case c of None \<Rightarrow> kn_approval (permission_fold es) | Some p \<Rightarrow> Some p)"
  using assms
  by (auto simp: permission_fold_def map_eq_append_conv permission_apply_facts
      permission_apply_facts [OF sym] split: option.splits)

lemma preset_unique:
  assumes "p \<in> set PRESETS" and "q \<in> set PRESETS" and "pp_name p = pp_name q"
  shows "p = q"
proof -
  have "distinct (map pp_name PRESETS)" by (simp add: PRESETS_def)
  with assms show ?thesis by (auto simp: distinct_map dest: inj_onD)
qed

lemma not_custom: "p \<in> set PRESETS \<Longrightarrow> pp_name p \<noteq> CUSTOM_PERMISSION_PRESET"
  by (elim preset_cases) (simp_all add: CUSTOM_PERMISSION_PRESET_def)

lemma current_preset:
  assumes "permission_current st = pp_name p" and "p \<in> set PRESETS"
  shows "effective_sandbox st = pp_sandbox p \<and> effective_approval st = pp_approval p"
proof (cases st rule: permission_current_cases)
  case (1 q)
  with assms preset_unique have "q = p" by metis
  with 1 show ?thesis by simp
next
  case 2
  with assms not_custom show ?thesis by metis
qed

lemma preset_find: "p \<in> set PRESETS \<Longrightarrow> preset (pp_name p) = Some p"
proof (cases "preset (pp_name p)")
  case None
  moreover assume "p \<in> set PRESETS"
  ultimately show ?thesis by (auto simp: preset_def)
next
  case (Some q)
  moreover assume "p \<in> set PRESETS"
  ultimately show ?thesis using preset_Some [OF Some] preset_unique by metis
qed

lemma current_selected:
  assumes "preset name = Some p" and "kn_preset st = Some name"
    and "effective_sandbox st = pp_sandbox p" and "effective_approval st = pp_approval p"
  shows "permission_current st = name"
  using assms preset_Some [OF assms(1)] by (simp add: permission_current_def)

lemma current_cong:
  assumes "kn_preset st = kn_preset st'" and "effective_sandbox st = effective_sandbox st'"
    and "effective_approval st = effective_approval st'"
  shows "permission_current st = permission_current st'"
  using assms by (simp add: permission_current_def)

text \<open>An event that carries a fact, for the concrete logs below.\<close>

definition fact_event :: "fact \<Rightarrow> session_event" where
  "fact_event f =
     \<lparr>ev_type = fst f, ev_seq = 0, ev_time = 0, ev_data = snd f, ev_ignorable = None,
      ev_sources = None, ev_surface_op = None\<rparr>"

lemma fact_of_event [simp]: "fact_of (fact_event f) = f"
  by (simp add: fact_of_def fact_event_def)

lemma facts_of_events [simp]: "map fact_of (map fact_event fs) = fs"
  by (induction fs) simp_all

section \<open>Properties\<close>

text \<open>C33: The effective policy is what the last well-formed fact of each kind says, whatever malformed,
  unknown or unrelated events surround it, and the restrictive default where there is none. So full
  access needs an explicit event that grants it.\<close>

theorem effective_policy_last_fact:
  "effective_sandbox (permission_fold es)
     = (case last_fact sandbox_fact es of None \<Rightarrow> WorkspaceWrite | Some m \<Rightarrow> m)
   \<and> effective_approval (permission_fold es)
     = (case last_fact approval_fact es of None \<Rightarrow> Ask | Some p \<Rightarrow> p)
   \<and> (effective_sandbox (permission_fold es) \<le> WorkspaceWrite
      \<or> (\<exists>e\<in>set es. ev_type e = ''sandbox/mode''
           \<and> get_str ''mode'' (ev_data e) = Some ''danger-full-access''))"
proof -
  have grant: "\<exists>e\<in>set es. ev_type e = ''sandbox/mode''
      \<and> get_str ''mode'' (ev_data e) = Some ''danger-full-access''"
    if "last_fact sandbox_fact es = Some DangerFullAccess"
    using last_fact_Some [OF that]
    by (auto simp: sandbox_fact_def sandbox_mode_of_def bind_eq_Some_conv split: if_splits)
  have "m \<le> WorkspaceWrite \<or> m = DangerFullAccess" for m
    by (cases m) (simp_all add: less_eq_sandbox_mode_def)
  with grant permission_fold_facts [of es] show ?thesis
    by (auto simp: effective_sandbox_def effective_approval_def less_eq_sandbox_mode_def
        split: option.splits)
qed

text \<open>The permission command establishes the preset it names. Once the facts it plans are appended
  to any log, with any sequence numbers and times, the effective sandbox and approval policy are those of
  the preset, and the preset is the one reported as current.\<close>

theorem permission_command_establishes:
  assumes "preset (trim raw) = Some p" and "trim raw \<noteq> []"
    and "map fact_of es' = snd (run_permission_command es raw)"
  shows "effective_sandbox (permission_fold (es @ es')) = pp_sandbox p
    \<and> effective_approval (permission_fold (es @ es')) = pp_approval p
    \<and> permission_current (permission_fold (es @ es')) = trim raw"
proof -
  let ?st = "permission_fold es" and ?st' = "permission_fold (es @ es')"
  let ?a = "if permission_current ?st \<noteq> trim raw then Some (trim raw) else None"
  let ?b = "if kn_sandbox ?st \<noteq> Some (pp_sandbox p) then Some (pp_sandbox p) else None"
  let ?c = "if kn_approval ?st \<noteq> Some (pp_approval p) then Some (pp_approval p) else None"
  have "map fact_of es' = (case ?a of None \<Rightarrow> [] | Some n \<Rightarrow> [preset_write n])
      @ (case ?b of None \<Rightarrow> [] | Some m \<Rightarrow> [sandbox_write m])
      @ (case ?c of None \<Rightarrow> [] | Some p \<Rightarrow> [approval_write p])"
    using assms by (simp add: run_permission_command_def Let_def)
  note knobs = permission_fold_writes [OF this, of es]
  have eff: "effective_sandbox ?st' = pp_sandbox p" "effective_approval ?st' = pp_approval p"
    using knobs(2,3) by (auto simp: effective_sandbox_def effective_approval_def split: if_splits)
  have "permission_current ?st' = trim raw"
  proof (cases "permission_current ?st = trim raw")
    case True
    with current_preset [of ?st p] preset_Some [OF assms(1)] eff
    have "permission_current ?st' = permission_current ?st"
      using knobs(1) by (intro current_cong) simp_all
    with True show ?thesis by simp
  next
    case False
    with knobs(1) eff current_selected [OF assms(1)] show ?thesis by simp
  qed
  with eff show ?thesis by simp
qed

theorem permission_command_establishes_witness:
  "permission_current (permission_fold ([] @ map fact_event
      (snd (run_permission_command [] '' read-only '')))) = ''read-only''"
proof -
  have trim: "trim '' read-only '' = ''read-only''" by code_simp
  have "preset (trim '' read-only '') = Some (hd PRESETS)" unfolding trim by code_simp
  from permission_command_establishes [OF this _ facts_of_events, of "[]"] trim show ?thesis by simp
qed

text \<open>Opening a session pins its policy without changing it. After the planned facts, sandbox mode
  and approval policy are explicit; a session that had any fact, or came from a seed, keeps its effective
  policy, and a fresh one gets the policy of the configured preset.\<close>

theorem pin_initial_permission_explicit:
  assumes "pin_initial_permission settings es = Inr facts" and "map fact_of es' = facts"
  shows "kn_sandbox (permission_fold (es @ es')) = Some (effective_sandbox (permission_fold (es @ es')))
    \<and> kn_approval (permission_fold (es @ es')) = Some (effective_approval (permission_fold (es @ es')))
    \<and> (if permission_fold es = no_knobs \<and> \<not> list_ex (\<lambda>e. ev_type e = ''session/end-seed'') es
       then \<exists>name p. get_str ''defaultPreset'' settings = Some name \<and> preset name = Some p
              \<and> effective_sandbox (permission_fold (es @ es')) = pp_sandbox p
              \<and> effective_approval (permission_fold (es @ es')) = pp_approval p
       else effective_sandbox (permission_fold (es @ es')) = effective_sandbox (permission_fold es)
              \<and> effective_approval (permission_fold (es @ es')) = effective_approval (permission_fold es))"
proof (cases "permission_fold es = no_knobs \<and> \<not> list_ex (\<lambda>e. ev_type e = ''session/end-seed'') es")
  case True
  with assms(1) obtain name p where np: "get_str ''defaultPreset'' settings = Some name"
      "preset name = Some p"
    and facts: "facts = [preset_write name, sandbox_write (pp_sandbox p), approval_write (pp_approval p)]"
    by (auto simp: pin_initial_permission_def Let_def)
  have "map fact_of es' = (case Some name of None \<Rightarrow> [] | Some n \<Rightarrow> [preset_write n])
      @ (case Some (pp_sandbox p) of None \<Rightarrow> [] | Some m \<Rightarrow> [sandbox_write m])
      @ (case Some (pp_approval p) of None \<Rightarrow> [] | Some p \<Rightarrow> [approval_write p])"
    using assms(2) facts by simp
  from permission_fold_writes [OF this, of es] True np show ?thesis
    by (simp add: effective_sandbox_def effective_approval_def)
next
  case False
  let ?st = "permission_fold es"
  let ?a = "if kn_preset ?st = None \<and> permission_current ?st \<noteq> CUSTOM_PERMISSION_PRESET
    then Some (permission_current ?st) else None"
  let ?b = "if kn_sandbox ?st = None then Some WorkspaceWrite else None"
  let ?c = "if kn_approval ?st = None then Some Ask else None"
  have "facts = (case ?a of None \<Rightarrow> [] | Some n \<Rightarrow> [preset_write n])
      @ (case ?b of None \<Rightarrow> [] | Some m \<Rightarrow> [sandbox_write m])
      @ (case ?c of None \<Rightarrow> [] | Some p \<Rightarrow> [approval_write p])"
    using assms(1) False by (auto simp: pin_initial_permission_def Let_def)
  note knobs = permission_fold_writes [OF assms(2) [unfolded this], of es]
  from False show ?thesis
    unfolding if_not_P [OF False] effective_sandbox_def effective_approval_def knobs(2,3)
    by (auto split: option.splits)
qed

theorem pin_initial_permission_explicit_witness:
  "\<exists>facts. pin_initial_permission (obj [(''defaultPreset'', JStr ''read-only'')]) [] = Inr facts
     \<and> kn_sandbox (permission_fold ([] @ map fact_event facts)) = Some ReadOnly"
proof -
  let ?settings = "obj [(''defaultPreset'', JStr ''read-only'')]"
  let ?facts = "[preset_write ''read-only'', sandbox_write ReadOnly, approval_write Ask]"
  have run: "pin_initial_permission ?settings [] = Inr ?facts" by code_simp
  have "effective_sandbox (permission_fold ([] @ map fact_event ?facts)) = ReadOnly" by code_simp
  with pin_initial_permission_explicit [OF run facts_of_events] run show ?thesis by simp
qed

text \<open>The reported preset is truthful: a preset name is reported exactly when the effective
  sandbox and approval policy are those of that preset, and \<open>custom\<close> when they are those of none.\<close>

theorem permission_current_truthful:
  "case preset (permission_current st) of
     Some p \<Rightarrow> pp_sandbox p = effective_sandbox st \<and> pp_approval p = effective_approval st
   | None \<Rightarrow> permission_current st = CUSTOM_PERMISSION_PRESET
       \<and> \<not> list_ex (\<lambda>p. pp_sandbox p = effective_sandbox st \<and> pp_approval p = effective_approval st) PRESETS"
proof (cases st rule: permission_current_cases)
  case (1 p)
  with preset_find [OF 1(1)] show ?thesis by simp
next
  case 2
  have "preset CUSTOM_PERMISSION_PRESET = None"
    using preset_Some not_custom by (cases "preset CUSTOM_PERMISSION_PRESET") blast+
  with 2 show ?thesis by (simp add: list_ex_iff)
qed

end
