(* ===== verification/Tool_Scope.thy ===== *)
theory Tool_Scope
  imports Protocol
begin

text \<open>
  The access policy of a tool runtime view (\<open>ToolAccess\<close>, \<open>ToolRestrictions\<close> and \<open>ToolScope\<close>
  in \<open>src/src/tools.rs\<close>). A \<open>BTreeSet\<close> is the sorted list of its elements.
\<close>

section \<open>Access\<close>

datatype tool_access = Allow | Deny | AskFirst

fun access_rank :: "tool_access \<Rightarrow> nat" where
  "access_rank Deny = 0"
| "access_rank AskFirst = 1"
| "access_rank Allow = 2"

instantiation tool_access :: linorder
begin

definition less_eq_tool_access :: "tool_access \<Rightarrow> tool_access \<Rightarrow> bool" where
  "less_eq_tool_access a b \<longleftrightarrow> access_rank a \<le> access_rank b"

definition less_tool_access :: "tool_access \<Rightarrow> tool_access \<Rightarrow> bool" where
  "less_tool_access a b \<longleftrightarrow> access_rank a < access_rank b"

instance
proof
  fix a b :: tool_access
  show "a \<le> b \<Longrightarrow> b \<le> a \<Longrightarrow> a = b"
    by (cases a; cases b) (simp_all add: less_eq_tool_access_def)
qed (auto simp: less_eq_tool_access_def less_tool_access_def)

end

section \<open>Restrictions\<close>

definition tool_error :: "string \<Rightarrow> string \<Rightarrow> json \<Rightarrow> tessivum_error" where
  "tool_error c m d = tessivum_error_new c m ''tools'' d"

type_synonym name_set = "string list"

definition set_insert :: "string \<Rightarrow> name_set \<Rightarrow> name_set" where
  "set_insert x xs = insort_insert x xs"

record tool_restrictions =
  tr_allow :: "name_set option"
  tr_deny :: name_set
  tr_ask :: name_set

definition no_restrictions :: tool_restrictions where
  "no_restrictions = \<lparr>tr_allow = None, tr_deny = [], tr_ask = []\<rparr>"

definition allow_only :: "string list \<Rightarrow> tool_restrictions" where
  "allow_only names = no_restrictions\<lparr>tr_allow := Some (foldr set_insert names [])\<rparr>"

definition restrict_allow :: "string \<Rightarrow> tool_restrictions \<Rightarrow> tool_restrictions" where
  "restrict_allow name r =
     r\<lparr>tr_allow := Some (set_insert name (case tr_allow r of None \<Rightarrow> [] | Some xs \<Rightarrow> xs))\<rparr>"

definition restrict_deny :: "string \<Rightarrow> tool_restrictions \<Rightarrow> tool_restrictions" where
  "restrict_deny name r = r\<lparr>tr_deny := set_insert name (tr_deny r)\<rparr>"

definition restrict_ask :: "string \<Rightarrow> tool_restrictions \<Rightarrow> tool_restrictions" where
  "restrict_ask name r = r\<lparr>tr_ask := set_insert name (tr_ask r)\<rparr>"

definition allow_names :: "tool_restrictions \<Rightarrow> string list" where
  "allow_names r = (case tr_allow r of None \<Rightarrow> [] | Some xs \<Rightarrow> xs)"

definition restrictions_validate :: "tool_restrictions \<Rightarrow> tessivum_error + unit" where
  "restrictions_validate r =
     and_then
       (try_each (\<lambda>name. ensure (\<not> blank name)
           (tool_error ''INVALID_TOOL_RESTRICTION'' ''tool restriction names must not be blank''
              (obj [(''name'', JStr name)])))
          (allow_names r @ tr_deny r @ tr_ask r)) (\<lambda>_.
     case find_first (\<lambda>name. name \<in> set (tr_ask r)) (tr_deny r) of
       None \<Rightarrow> Inr ()
     | Some name \<Rightarrow>
         Inl (tool_error ''INVALID_TOOL_RESTRICTION''
                ''a tool cannot be both denied and approval-gated'' (obj [(''name'', JStr name)])))"

section \<open>Scopes\<close>

record tool_scope =
  sp_default :: tool_access
  sp_named :: "(string \<times> tool_access) list"

definition scope_root :: tool_scope where
  "scope_root = \<lparr>sp_default = Allow, sp_named = []\<rparr>"

definition scope_access :: "tool_scope \<Rightarrow> string \<Rightarrow> tool_access" where
  "scope_access s name = (case map_of (sp_named s) name of None \<Rightarrow> sp_default s | Some a \<Rightarrow> a)"

definition broadens :: "json \<Rightarrow> tessivum_error" where
  "broadens d =
     tool_error ''TOOL_RESTRICTION_BROADENS_SCOPE''
       ''tool restrictions may only narrow parent visibility'' d"

definition requested_access :: "tool_restrictions \<Rightarrow> string \<Rightarrow> tool_access \<Rightarrow> tool_access" where
  "requested_access r name parent =
     (if name \<in> set (tr_deny r) then Deny
      else if name \<in> set (tr_ask r) then AskFirst
      else case tr_allow r of
             Some allow \<Rightarrow> if name \<in> set allow then Allow else Deny
           | None \<Rightarrow> parent)"

fun narrow_names ::
  "tool_scope \<Rightarrow> tool_restrictions \<Rightarrow> tool_access \<Rightarrow> string list \<Rightarrow> (string \<times> tool_access) list
     \<Rightarrow> tessivum_error + (string \<times> tool_access) list" where
  "narrow_names s r dflt [] named = Inr named"
| "narrow_names s r dflt (name # names) named =
     (let parent = scope_access s name; requested = requested_access r name parent
      in if access_rank requested > access_rank parent
         then Inl (broadens (obj [(''name'', JStr name)]))
         else narrow_names s r dflt names
                (if requested \<noteq> dflt then bt_insert name requested named else named))"

definition narrowed :: "tool_scope \<Rightarrow> tool_restrictions \<Rightarrow> tessivum_error + tool_scope" where
  "narrowed s r =
     and_then (restrictions_validate r) (\<lambda>_.
     let dflt = (if tr_allow r \<noteq> None then Deny else sp_default s)
     in if access_rank dflt > access_rank (sp_default s) then Inl (broadens JNull)
        else
          let names = foldr set_insert
                (map fst (sp_named s) @ allow_names r @ tr_deny r @ tr_ask r) []
          in and_then (narrow_names s r dflt names []) (\<lambda>named.
             Inr \<lparr>sp_default = dflt, sp_named = named\<rparr>))"

section \<open>What narrowing computes\<close>

lemma set_foldr_insert [simp]: "set (foldr set_insert xs ys) = set xs \<union> set ys"
  by (induction xs) (auto simp: set_insert_def set_insort_insert)

lemma narrow_names_Inr:
  assumes "narrow_names s r dflt names named = Inr out"
  shows "\<forall>n\<in>set names. requested_access r n (scope_access s n) \<le> scope_access s n"
    and "map_of out n = (if n \<in> set names
           then (let a = requested_access r n (scope_access s n)
                 in if a \<noteq> dflt then Some a else map_of named n)
           else map_of named n)"
  using assms
  by (induction s r dflt names named arbitrary: out rule: narrow_names.induct)
    (auto simp: Let_def less_eq_tool_access_def split: if_splits)

lemma narrowed_access:
  assumes "narrowed s r = Inr s'"
  shows "scope_access s' n = requested_access r n (scope_access s n)"
    and "requested_access r n (scope_access s n) \<le> scope_access s n"
proof -
  let ?dflt = "if tr_allow r \<noteq> None then Deny else sp_default s"
  let ?names = "foldr set_insert (map fst (sp_named s) @ allow_names r @ tr_deny r @ tr_ask r) []"
  from assms obtain named where n: "narrow_names s r ?dflt ?names [] = Inr named"
    and s': "s' = \<lparr>sp_default = ?dflt, sp_named = named\<rparr>"
    and d: "access_rank ?dflt \<le> access_rank (sp_default s)"
    by (auto simp: narrowed_def Let_def split: if_splits)
  note ok = narrow_names_Inr [OF n]
  have out: "requested_access r n (scope_access s n) = ?dflt \<and> scope_access s n = sp_default s"
    if "n \<notin> set ?names"
  proof -
    from that have "map_of (sp_named s) n = None" by (auto simp: map_of_eq_None_iff)
    then have "scope_access s n = sp_default s" by (simp add: scope_access_def)
    with that show ?thesis by (auto simp: requested_access_def allow_names_def split: option.splits)
  qed
  show "scope_access s' n = requested_access r n (scope_access s n)"
    using ok(2) [of n] out by (cases "n \<in> set ?names") (auto simp: s' scope_access_def Let_def)
  show "requested_access r n (scope_access s n) \<le> scope_access s n"
    using ok(1) out d by (cases "n \<in> set ?names") (auto simp: less_eq_tool_access_def)
qed

section \<open>Properties\<close>

text \<open>C15: A derived view never has more access than its parent. When narrowing succeeds, the access to
  every tool, named or not, is exactly what the restrictions ask for, and never above the parent's: a
  denied tool stays denied, an approval-gated one is never directly allowed.\<close>

theorem narrowing_never_broadens:
  assumes "narrowed s r = Inr s'"
  shows "scope_access s' n = requested_access r n (scope_access s n)
    \<and> scope_access s' n \<le> scope_access s n"
  using narrowed_access [OF assms, of n] by simp

theorem narrowing_never_broadens_witness:
  "\<exists>s'. narrowed scope_root (restrict_deny ''bash'' (allow_only [''read'', ''bash''])) = Inr s'
     \<and> scope_access s' ''bash'' = Deny \<and> scope_access s' ''write'' = Deny \<and> scope_access s' ''read'' = Allow"
proof -
  let ?r = "restrict_deny ''bash'' (allow_only [''read'', ''bash''])"
  have run: "narrowed scope_root ?r
      = Inr \<lparr>sp_default = Deny, sp_named = [(''read'', Allow)]\<rparr>" by code_simp
  have req: "requested_access ?r ''bash'' (scope_access scope_root ''bash'') = Deny"
    "requested_access ?r ''write'' (scope_access scope_root ''write'') = Deny"
    "requested_access ?r ''read'' (scope_access scope_root ''read'') = Allow" by code_simp+
  from run narrowing_never_broadens [OF run, of "''bash''"] narrowing_never_broadens [OF run, of "''write''"]
    narrowing_never_broadens [OF run, of "''read''"] req
  show ?thesis by auto
qed

end
