(* ===== verification/Tool_Schema.thy ===== *)
theory Tool_Schema
  imports Tool_Scope
begin

text \<open>
  The JSON-schema subset of the tool boundary (\<open>validate_schema\<close> and \<open>validate_instance\<close> in
  \<open>src/src/tools.rs\<close>). A schema is checked when a tool is registered; checking arguments against it
  relies on that through several \<open>expect\<close> calls, so a failing \<open>expect\<close> is a value here
  (\<open>Panic\<close>) and never reaching one is a theorem. \<open>debug\<close> stands for the \<open>{:?}\<close> rendering of a
  string.
\<close>

section \<open>Schemas\<close>

definition schema_error :: "string \<Rightarrow> string \<Rightarrow> tessivum_error" where
  "schema_error path m = tool_error ''INVALID_TOOL_SCHEMA'' m (obj [(''path'', JStr path)])"

definition argument_error :: "string \<Rightarrow> string \<Rightarrow> tessivum_error" where
  "argument_error path m = tool_error ''INVALID_TOOL_ARGUMENTS'' m (obj [(''path'', JStr path)])"

definition supported_types :: "string list" where
  "supported_types =
     [''object'', ''array'', ''string'', ''number'', ''integer'', ''boolean'', ''null'']"

definition is_supported_type :: "string \<Rightarrow> bool" where
  "is_supported_type t \<longleftrightarrow> t \<in> set supported_types"

definition supported_keywords :: "string list" where
  "supported_keywords =
     [''type'', ''properties'', ''required'', ''additionalProperties'', ''items'', ''enum'', ''oneOf'',
      ''description'']"

definition value_has_type :: "json \<Rightarrow> string \<Rightarrow> bool" where
  "value_has_type v t =
     (if t = ''object'' then is_object v
      else if t = ''array'' then is_array v
      else if t = ''string'' then is_string v
      else if t = ''number'' then is_number v
      else if t = ''integer'' then as_i64 v \<noteq> None \<or> as_u64 v \<noteq> None
      else if t = ''boolean'' then is_boolean v
      else if t = ''null'' then v = JNull
      else False)"

definition schema_type :: "string \<Rightarrow> entries \<Rightarrow> tessivum_error + string option" where
  "schema_type path kvs =
     (case map_of kvs ''type'' of
        Some (JStr t) \<Rightarrow>
          if is_supported_type t then Inr (Some t) else Inl (schema_error path ''type is not supported'')
      | Some _ \<Rightarrow> Inl (schema_error path ''type must be a string'')
      | None \<Rightarrow> Inr None)"

definition check_enum :: "string \<Rightarrow> entries \<Rightarrow> string option \<Rightarrow> tessivum_error + unit" where
  "check_enum path kvs type_name =
     (case map_of kvs ''enum'' of
        None \<Rightarrow> Inr ()
      | Some (JArr vs) \<Rightarrow>
          if vs = [] then Inl (schema_error path ''enum must not be empty'')
          else try_each (\<lambda>v. case type_name of
                   None \<Rightarrow> Inr ()
                 | Some t \<Rightarrow> ensure (value_has_type v t)
                     (schema_error path ''enum value does not match type'')) vs
      | Some _ \<Rightarrow> Inl (schema_error path ''enum must be an array''))"

fun check_required ::
  "string \<Rightarrow> entries \<Rightarrow> string list \<Rightarrow> json list \<Rightarrow> tessivum_error + unit" where
  "check_required path properties names [] = Inr ()"
| "check_required path properties names (v # vs) =
     (case v of
        JStr name \<Rightarrow>
          if name \<in> set names then Inl (schema_error path ''required entries must be unique'')
          else if map_of properties name = None
          then Inl (schema_error path ''required property is not declared'')
          else check_required path properties (name # names) vs
      | _ \<Rightarrow> Inl (schema_error path ''required entries must be strings''))"

definition check_object_tail :: "string \<Rightarrow> entries \<Rightarrow> entries \<Rightarrow> tessivum_error + unit" where
  "check_object_tail path kvs properties =
     and_then
       (case map_of kvs ''required'' of
          None \<Rightarrow> Inr ()
        | Some (JArr required) \<Rightarrow> check_required path properties [] required
        | Some _ \<Rightarrow> Inl (schema_error path ''required must be an array'')) (\<lambda>_.
     case map_of kvs ''additionalProperties'' of
       None \<Rightarrow> Inr ()
     | Some v \<Rightarrow> ensure (is_boolean v) (schema_error path ''additionalProperties must be a boolean''))"

lemma map_of_smaller: "map_of kvs k = Some v \<Longrightarrow> size v < size (JObj kvs)"
  using map_of_SomeD by (fastforce simp: size_list_estimation' le_imp_less_Suc)

lemma element_smaller: "v \<in> set vs \<Longrightarrow> size v < size (JArr vs)"
  by (simp add: size_list_estimation' le_imp_less_Suc)

lemma entry_smaller: "(k, v) \<in> set kvs \<Longrightarrow> size v < size (JObj kvs)"
proof -
  assume "(k, v) \<in> set kvs"
  then have "size v \<le> size_list (size_prod (\<lambda>_. 0) size) kvs" by (induction kvs) auto
  then show ?thesis by simp
qed

function validate_schema ::
  "(string \<Rightarrow> string) \<Rightarrow> json \<Rightarrow> string \<Rightarrow> tessivum_error + unit" where
  "validate_schema debug schema path =
     (case schema of
        JObj kvs \<Rightarrow>
          and_then (try_each (\<lambda>key. ensure (key \<in> set supported_keywords)
              (schema_error path (''unsupported keyword '' @ debug key))) (map fst kvs)) (\<lambda>_.
          if (case map_of kvs ''description'' of None \<Rightarrow> False | Some v \<Rightarrow> \<not> is_string v)
          then Inl (schema_error path ''description must be a string'')
          else
            and_then (schema_type path kvs) (\<lambda>type_name.
            if type_name = None \<and> map_of kvs ''oneOf'' = None
            then Inl (schema_error path ''schema requires type or oneOf'')
            else
              and_next
                (case map_of kvs ''oneOf'' of
                   None \<Rightarrow> Inr ()
                 | Some (JArr options) \<Rightarrow>
                     if options = [] then Inl (schema_error path ''oneOf must not be empty'')
                     else try_each (\<lambda>(option, index).
                            validate_schema debug option
                              (path @ ''.oneOf['' @ show_nat index @ '']''))
                            (zip options [0 ..< length options])
                 | Some _ \<Rightarrow> Inl (schema_error path ''oneOf must be an array''))
              (and_next (check_enum path kvs type_name)
              (
              if type_name = Some ''object'' then
                (case map_of kvs ''properties'' of
                   Some (JObj properties) \<Rightarrow>
                     and_next (try_each (\<lambda>(name, s).
                         validate_schema debug s (path @ ''.properties.'' @ name)) properties)
                       (check_object_tail path kvs properties)
                 | Some _ \<Rightarrow> Inl (schema_error path ''properties must be an object'')
                 | None \<Rightarrow> Inl (schema_error path ''object schemas require properties''))
              else if type_name = Some ''array'' then
                (case map_of kvs ''items'' of
                   None \<Rightarrow> Inl (schema_error path ''array schemas require items'')
                 | Some items \<Rightarrow> validate_schema debug items (path @ ''.items''))
              else
                try_each (\<lambda>key. ensure (map_of kvs key = None)
                    (schema_error path (key @ '' is not valid here'')))
                  [''properties'', ''required'', ''additionalProperties'', ''items'']))))
      | _ \<Rightarrow> Inl (schema_error path ''schema must be an object''))"
  by pat_completeness auto
termination
  by (relation "measure (\<lambda>(debug, schema, path). size schema)")
    (auto dest!: map_of_smaller set_zip_leftD element_smaller entry_smaller)

declare validate_schema.simps [simp del]

section \<open>Instances\<close>

datatype tool_fault = Panic | Fault tessivum_error

text \<open>The number of options a value matches; a panic inside the filter propagates.\<close>

fun count_ok :: "('a \<Rightarrow> tool_fault + unit) \<Rightarrow> 'a list \<Rightarrow> tool_fault + nat" where
  "count_ok f [] = Inr 0"
| "count_ok f (x # xs) =
     (case f x of
        Inl Panic \<Rightarrow> Inl Panic
      | Inl (Fault e) \<Rightarrow> count_ok f xs
      | Inr _ \<Rightarrow> map_sum id Suc (count_ok f xs))"

lemma count_ok_cong [fundef_cong]:
  "xs = ys \<Longrightarrow> (\<And>x. x \<in> set ys \<Longrightarrow> f x = g x) \<Longrightarrow> count_ok f xs = count_ok g ys"
proof (induction ys arbitrary: xs)
  case (Cons y ys)
  then have "f y = g y" "count_ok f ys = count_ok g ys" by simp_all
  with Cons.prems(1) show ?case by (simp split: sum.splits tool_fault.splits)
qed simp

fun exactly_one :: "string \<Rightarrow> tool_fault + nat \<Rightarrow> tool_fault + unit" where
  "exactly_one path (Inl e) = Inl e"
| "exactly_one path (Inr n) =
     ensure (n = 1) (Fault (argument_error path ''value must match exactly one oneOf option''))"

definition check_type :: "string \<Rightarrow> entries \<Rightarrow> json \<Rightarrow> tool_fault + unit" where
  "check_type path kvs v =
     (case Option.bind (map_of kvs ''type'') as_str of
        None \<Rightarrow> Inr ()
      | Some t \<Rightarrow> ensure (value_has_type v t) (Fault (argument_error path (''expected '' @ t))))"

definition check_in_enum :: "string \<Rightarrow> entries \<Rightarrow> json \<Rightarrow> tool_fault + unit" where
  "check_in_enum path kvs v =
     (case Option.bind (map_of kvs ''enum'') as_array of
        None \<Rightarrow> Inr ()
      | Some vs \<Rightarrow> ensure (v \<in> set vs) (Fault (argument_error path ''value is not in enum'')))"

definition check_present :: "string \<Rightarrow> entries \<Rightarrow> entries \<Rightarrow> tool_fault + unit" where
  "check_present path kvs flds =
     try_each (\<lambda>r. case as_str r of
          None \<Rightarrow> Inl Panic
        | Some name \<Rightarrow> ensure (map_of flds name \<noteq> None)
            (Fault (argument_error (path @ ''.'' @ name) ''property is required'')))
       (case Option.bind (map_of kvs ''required'') as_array of None \<Rightarrow> [] | Some rs \<Rightarrow> rs)"

definition additional_allowed :: "entries \<Rightarrow> bool" where
  "additional_allowed kvs =
     (case Option.bind (map_of kvs ''additionalProperties'') as_bool of None \<Rightarrow> True | Some b \<Rightarrow> b)"

function validate_instance :: "json \<Rightarrow> json \<Rightarrow> string \<Rightarrow> tool_fault + unit" where
  "validate_instance schema v path =
     (case schema of
        JObj kvs \<Rightarrow>
          and_next
            (case Option.bind (map_of kvs ''oneOf'') as_array of
               None \<Rightarrow> Inr ()
             | Some options \<Rightarrow>
                 exactly_one path (count_ok (\<lambda>option. validate_instance option v path) options))
          (and_next (check_type path kvs v)
          (and_next (check_in_enum path kvs v)
          (if Option.bind (map_of kvs ''type'') as_str = Some ''object'' then
             (case as_object v of
                None \<Rightarrow> Inl Panic
              | Some flds \<Rightarrow>
                  (case Option.bind (map_of kvs ''properties'') as_object of
                     None \<Rightarrow> Inl Panic
                   | Some properties \<Rightarrow>
                       and_next (check_present path kvs flds)
                         (try_each (\<lambda>(name, w).
                            case map_of properties name of
                              Some s \<Rightarrow> validate_instance s w (path @ ''.'' @ name)
                            | None \<Rightarrow> ensure (additional_allowed kvs)
                                (Fault (argument_error (path @ ''.'' @ name)
                                   ''additional property is not allowed''))) flds)))
           else if Option.bind (map_of kvs ''type'') as_str = Some ''array'' then
             (case map_of kvs ''items'' of
                None \<Rightarrow> Inl Panic
              | Some items \<Rightarrow>
                  (case as_array v of
                     None \<Rightarrow> Inl Panic
                   | Some vs \<Rightarrow>
                       try_each (\<lambda>(w, index).
                           validate_instance items w (path @ ''['' @ show_nat index @ '']''))
                         (zip vs [0 ..< length vs])))
           else Inr ())))
      | _ \<Rightarrow> Inl Panic)"
  by pat_completeness auto
termination
  by (relation "measure (\<lambda>(schema, v, path). size schema)")
    (auto simp: bind_eq_Some_conv dest!: map_of_smaller element_smaller)

declare validate_instance.simps [simp del]

section \<open>The reference reading of a schema\<close>

text \<open>What it means for a value to conform to a schema, without paths, error order or panics.\<close>

function conforms :: "json \<Rightarrow> json \<Rightarrow> bool" where
  "conforms schema v =
     (case schema of
        JObj kvs \<Rightarrow>
          (case Option.bind (map_of kvs ''oneOf'') as_array of
             None \<Rightarrow> True
           | Some options \<Rightarrow> length (filter (\<lambda>s. conforms s v) options) = 1)
          \<and> (case Option.bind (map_of kvs ''type'') as_str of
               None \<Rightarrow> True | Some t \<Rightarrow> value_has_type v t)
          \<and> (case Option.bind (map_of kvs ''enum'') as_array of
               None \<Rightarrow> True | Some vs \<Rightarrow> v \<in> set vs)
          \<and> (if map_of kvs ''type'' = Some (JStr ''object'') then
               (case as_object v of
                  None \<Rightarrow> False
                | Some flds \<Rightarrow>
                    (case Option.bind (map_of kvs ''properties'') as_object of
                       None \<Rightarrow> False
                     | Some properties \<Rightarrow>
                         (case Option.bind (map_of kvs ''required'') as_array of
                            None \<Rightarrow> True
                          | Some rs \<Rightarrow> list_all (\<lambda>r. \<exists>name\<in>set (map fst flds). r = JStr name) rs)
                         \<and> list_all (\<lambda>(name, w). case map_of properties name of
                               Some s \<Rightarrow> conforms s w | None \<Rightarrow> additional_allowed kvs) flds))
             else if map_of kvs ''type'' = Some (JStr ''array'') then
               (case map_of kvs ''items'' of
                  None \<Rightarrow> False
                | Some items \<Rightarrow>
                    (case as_array v of
                       None \<Rightarrow> False
                     | Some vs \<Rightarrow> list_all (\<lambda>w. conforms items w) vs))
             else True)
      | _ \<Rightarrow> False)"
  by pat_completeness auto
termination
  by (relation "measure (\<lambda>(schema, v). size schema)")
    (auto simp: bind_eq_Some_conv dest!: map_of_smaller element_smaller)

declare conforms.simps [simp del]

section \<open>A registered schema never panics\<close>

definition schema_ok :: "(string \<Rightarrow> string) \<Rightarrow> json \<Rightarrow> bool" where
  "schema_ok debug schema \<longleftrightarrow> (\<exists>path. validate_schema debug schema path = Inr ())"

lemma count_ok_filter:
  "\<forall>x\<in>set xs. f x \<noteq> Inl Panic \<Longrightarrow> count_ok f xs = Inr (length (filter (\<lambda>x. f x = Inr ()) xs))"
  by (induction xs) (auto split: sum.splits tool_fault.splits)

lemma no_panic_each: "\<forall>x\<in>set xs. f x \<noteq> Inl Panic \<Longrightarrow> try_each f xs \<noteq> Inl Panic"
  by (induction xs) (auto simp: and_then_Inl)

lemma no_panic_next: "r \<noteq> Inl Panic \<Longrightarrow> k \<noteq> Inl Panic \<Longrightarrow> and_next r k \<noteq> Inl Panic"
  by (cases r) auto

lemma no_panic_ensure [simp]: "ensure b (Fault e) \<noteq> Inl Panic"
  by (simp add: ensure_def)

lemma no_panic_checks [simp]:
  "check_type path kvs v \<noteq> Inl Panic" "check_in_enum path kvs v \<noteq> Inl Panic"
  "exactly_one path (Inr n) \<noteq> Inl Panic"
  by (auto simp: check_type_def check_in_enum_def split: option.splits)

lemma check_required_strings:
  "check_required path properties names vs = Inr () \<Longrightarrow> v \<in> set vs \<Longrightarrow> \<exists>name. v = JStr name"
  by (induction path properties names vs rule: check_required.induct)
    (auto split: json.splits if_splits)

lemma schema_ok_object: "schema_ok debug schema \<Longrightarrow> \<exists>kvs. schema = JObj kvs"
  by (cases schema) (simp_all add: schema_ok_def validate_schema.simps)

lemma schema_ok_cases:
  assumes "schema_ok debug (JObj kvs)"
  obtains path type_name where "schema_type path kvs = Inr type_name"
    "\<And>options s. map_of kvs ''oneOf'' = Some (JArr options) \<Longrightarrow> s \<in> set options \<Longrightarrow> schema_ok debug s"
    "type_name = Some ''object'' \<Longrightarrow> \<exists>properties. map_of kvs ''properties'' = Some (JObj properties)
       \<and> (\<forall>(n, s)\<in>set properties. schema_ok debug s) \<and> check_object_tail path kvs properties = Inr ()"
    "type_name = Some ''array'' \<Longrightarrow> \<exists>items. map_of kvs ''items'' = Some items \<and> schema_ok debug items"
proof -
  from assms obtain path where v: "validate_schema debug (JObj kvs) path = Inr ()"
    by (auto simp: schema_ok_def)
  then obtain type_name where t: "schema_type path kvs = Inr type_name"
    by (auto simp: validate_schema.simps [of debug "JObj kvs"] split: if_splits)
  note v' = v [unfolded validate_schema.simps [of debug "JObj kvs"]]
  have one: "schema_ok debug s" if o: "map_of kvs ''oneOf'' = Some (JArr options)"
    and s: "s \<in> set options" for options s
  proof -
    from s obtain k where "(s, k) \<in> set (zip options [0 ..< length options])"
      by (metis in_set_impl_in_set_zip1 length_upt diff_zero)
    with v' t o show ?thesis by (auto simp: schema_ok_def split: if_splits)
  qed
  have obj: "\<exists>properties. map_of kvs ''properties'' = Some (JObj properties)
       \<and> (\<forall>(n, s)\<in>set properties. schema_ok debug s) \<and> check_object_tail path kvs properties = Inr ()"
    if "type_name = Some ''object''"
    using v' t that by (auto simp: schema_ok_def split: if_splits option.splits json.splits)
  have arr: "\<exists>items. map_of kvs ''items'' = Some items \<and> schema_ok debug items"
    if "type_name = Some ''array''"
    using v' t that by (auto simp: schema_ok_def split: if_splits option.splits)
  show ?thesis using that [OF t] one obj arr by blast
qed

lemma check_type_conforms:
  "(check_type path kvs v = Inr ()) =
     (case Option.bind (map_of kvs ''type'') as_str of None \<Rightarrow> True | Some t \<Rightarrow> value_has_type v t)"
  by (simp add: check_type_def split: option.splits)

lemma check_in_enum_conforms:
  "(check_in_enum path kvs v = Inr ()) =
     (case Option.bind (map_of kvs ''enum'') as_array of None \<Rightarrow> True | Some vs \<Rightarrow> v \<in> set vs)"
  by (simp add: check_in_enum_def split: option.splits)

lemma each_agrees:
  assumes "\<And>x. x \<in> set xs \<Longrightarrow> f x \<noteq> Inl Panic \<and> (f x = Inr ()) = P x"
  shows "try_each f xs \<noteq> Inl Panic \<and> (try_each f xs = Inr ()) = list_all P xs"
  using assms by (auto simp: list_all_iff intro!: no_panic_each)

lemma check_present_conforms:
  assumes "check_object_tail path' kvs properties = Inr ()"
  shows "check_present path kvs flds \<noteq> Inl Panic"
    and "(check_present path kvs flds = Inr ()) =
      (case Option.bind (map_of kvs ''required'') as_array of
         None \<Rightarrow> True
       | Some rs \<Rightarrow> list_all (\<lambda>r. \<exists>name\<in>set (map fst flds). r = JStr name) rs)"
proof -
  let ?rs = "case Option.bind (map_of kvs ''required'') as_array of None \<Rightarrow> [] | Some rs \<Rightarrow> rs"
  have str: "\<exists>name. r = JStr name" if "r \<in> set ?rs" for r
  proof (cases "Option.bind (map_of kvs ''required'') as_array")
    case (Some rs)
    then have "map_of kvs ''required'' = Some (JArr rs)" by (auto simp: bind_eq_Some_conv)
    with assms have "check_required path' properties [] rs = Inr ()" by (simp add: check_object_tail_def)
    with that Some check_required_strings show ?thesis by fastforce
  qed (use that in simp)
  have "try_each (\<lambda>r. case as_str r of None \<Rightarrow> Inl Panic
        | Some name \<Rightarrow> ensure (map_of flds name \<noteq> None)
            (Fault (argument_error (path @ ''.'' @ name) ''property is required''))) ?rs \<noteq> Inl Panic
     \<and> (try_each (\<lambda>r. case as_str r of None \<Rightarrow> Inl Panic
        | Some name \<Rightarrow> ensure (map_of flds name \<noteq> None)
            (Fault (argument_error (path @ ''.'' @ name) ''property is required''))) ?rs = Inr ())
        = list_all (\<lambda>r. \<exists>name\<in>set (map fst flds). r = JStr name) ?rs"
    by (rule each_agrees) (use str in \<open>fastforce simp: map_of_eq_None_iff\<close>)
  then show "check_present path kvs flds \<noteq> Inl Panic"
    and "(check_present path kvs flds = Inr ()) =
      (case Option.bind (map_of kvs ''required'') as_array of
         None \<Rightarrow> True
       | Some rs \<Rightarrow> list_all (\<lambda>r. \<exists>name\<in>set (map fst flds). r = JStr name) rs)"
    by (auto simp: check_present_def split: option.splits)
qed

text \<open>One argument check against a validated schema, given that the checks against the schemas inside
  it behave.\<close>

abbreviation agrees :: "json \<Rightarrow> json \<Rightarrow> string \<Rightarrow> bool" where
  "agrees s v path \<equiv>
     validate_instance s v path \<noteq> Inl Panic \<and> (validate_instance s v path = Inr ()) = conforms s v"

lemma oneOf_agrees:
  assumes "\<And>s. s \<in> set options \<Longrightarrow> agrees s v path"
  shows "exactly_one path (count_ok (\<lambda>s. validate_instance s v path) options) \<noteq> Inl Panic"
    and "(exactly_one path (count_ok (\<lambda>s. validate_instance s v path) options) = Inr ()) =
      (length (filter (\<lambda>s. conforms s v) options) = 1)"
proof -
  have "filter (\<lambda>s. validate_instance s v path = Inr ()) options = filter (\<lambda>s. conforms s v) options"
    using assms by (intro filter_cong) auto
  then have c: "count_ok (\<lambda>s. validate_instance s v path) options
      = Inr (length (filter (\<lambda>s. conforms s v) options))"
    using count_ok_filter [of options "\<lambda>s. validate_instance s v path"] assms by auto
  show "exactly_one path (count_ok (\<lambda>s. validate_instance s v path) options) \<noteq> Inl Panic"
    and "(exactly_one path (count_ok (\<lambda>s. validate_instance s v path) options) = Inr ()) =
      (length (filter (\<lambda>s. conforms s v) options) = 1)"
    unfolding c by simp_all
qed

lemma items_agree:
  assumes "\<And>w p. agrees items w p"
  shows "try_each (\<lambda>(w, index). validate_instance items w (path @ ''['' @ show_nat index @ '']''))
       (zip vs [0 ..< length vs]) \<noteq> Inl Panic
    \<and> (try_each (\<lambda>(w, index). validate_instance items w (path @ ''['' @ show_nat index @ '']''))
       (zip vs [0 ..< length vs]) = Inr ()) = list_all (conforms items) vs"
proof -
  have "list_all (\<lambda>(w, k). conforms items w) xs = list_all (conforms items) (map fst xs)"
    for xs :: "(json \<times> nat) list"
    by (auto simp: list_all_iff)
  then have "list_all (\<lambda>(w, k). conforms items w) (zip vs [0 ..< length vs]) = list_all (conforms items) vs"
    by (simp add: map_fst_zip)
  moreover have "try_each (\<lambda>(w, index). validate_instance items w (path @ ''['' @ show_nat index @ '']''))
       (zip vs [0 ..< length vs]) \<noteq> Inl Panic
    \<and> (try_each (\<lambda>(w, index). validate_instance items w (path @ ''['' @ show_nat index @ '']''))
       (zip vs [0 ..< length vs]) = Inr ())
      = list_all (\<lambda>(w, k). conforms items w) (zip vs [0 ..< length vs])"
    by (rule each_agrees) (use assms in auto)
  ultimately show ?thesis by simp
qed

lemma properties_agree:
  assumes "\<And>name s w p. map_of properties name = Some s \<Longrightarrow> agrees s w p"
  shows "try_each (\<lambda>(name, w). case map_of properties name of
          Some s \<Rightarrow> validate_instance s w (path @ ''.'' @ name)
        | None \<Rightarrow> ensure b (Fault (argument_error (path @ ''.'' @ name) m))) flds \<noteq> Inl Panic
    \<and> (try_each (\<lambda>(name, w). case map_of properties name of
          Some s \<Rightarrow> validate_instance s w (path @ ''.'' @ name)
        | None \<Rightarrow> ensure b (Fault (argument_error (path @ ''.'' @ name) m))) flds = Inr ())
      = list_all (\<lambda>(name, w). case map_of properties name of Some s \<Rightarrow> conforms s w | None \<Rightarrow> b) flds"
  by (rule each_agrees) (use assms in \<open>auto split: option.splits\<close>)

lemma next_agrees:
  assumes "r \<noteq> Inl Panic" and "(r = Inr ()) = P" and "P \<Longrightarrow> k \<noteq> Inl Panic \<and> (k = Inr ()) = Q"
  shows "and_next r k \<noteq> Inl Panic \<and> (and_next r k = Inr ()) = (P \<and> Q)"
  using assms by (cases r) auto

lemma validate_instance_agrees: "schema_ok debug schema \<Longrightarrow> agrees schema v path"
proof (induction "size schema" arbitrary: schema v path rule: less_induct)
  case less
  from schema_ok_object [OF less.prems] obtain kvs where schema: "schema = JObj kvs" ..
  from less.prems [unfolded schema] obtain path' type_name where
    t: "schema_type path' kvs = Inr type_name" and
    one: "\<And>options s. map_of kvs ''oneOf'' = Some (JArr options) \<Longrightarrow> s \<in> set options \<Longrightarrow> schema_ok debug s" and
    ob: "type_name = Some ''object'' \<Longrightarrow> \<exists>properties. map_of kvs ''properties'' = Some (JObj properties)
       \<and> (\<forall>(n, s)\<in>set properties. schema_ok debug s) \<and> check_object_tail path' kvs properties = Inr ()" and
    ar: "type_name = Some ''array'' \<Longrightarrow> \<exists>items. map_of kvs ''items'' = Some items \<and> schema_ok debug items"
    by (rule schema_ok_cases) blast
  have ty: "Option.bind (map_of kvs ''type'') as_str = type_name"
    using t by (auto simp: schema_type_def split: option.splits json.splits if_splits)
  have tyq: "(map_of kvs ''type'' = Some (JStr u)) = (type_name = Some u)" for u
    using ty by (auto simp: bind_eq_Some_conv)
  have sub: "agrees s w p" if "schema_ok debug s" "size s < size schema" for s w p
    using less.hyps that by blast
  have one': "agrees s v path" if "Option.bind (map_of kvs ''oneOf'') as_array = Some options"
    "s \<in> set options" for options s
  proof -
    from that(1) have o: "map_of kvs ''oneOf'' = Some (JArr options)" by (auto simp: bind_eq_Some_conv)
    with map_of_smaller [OF this] element_smaller [OF that(2)] one [OF o that(2)] show ?thesis
      by (intro sub) (auto simp: schema)
  qed
  let ?body = "if type_name = Some ''object'' then
      (case as_object v of None \<Rightarrow> Inl Panic
       | Some flds \<Rightarrow> (case Option.bind (map_of kvs ''properties'') as_object of None \<Rightarrow> Inl Panic
           | Some properties \<Rightarrow> and_next (check_present path kvs flds)
               (try_each (\<lambda>(name, w). case map_of properties name of
                    Some s \<Rightarrow> validate_instance s w (path @ ''.'' @ name)
                  | None \<Rightarrow> ensure (additional_allowed kvs) (Fault (argument_error (path @ ''.'' @ name)
                       ''additional property is not allowed''))) flds)))
    else if type_name = Some ''array'' then
      (case map_of kvs ''items'' of None \<Rightarrow> Inl Panic
       | Some items \<Rightarrow> (case as_array v of None \<Rightarrow> Inl Panic
           | Some vs \<Rightarrow> try_each (\<lambda>(w, index). validate_instance items w (path @ ''['' @ show_nat index @ '']''))
               (zip vs [0 ..< length vs])))
    else Inr ()"
  let ?spec = "if map_of kvs ''type'' = Some (JStr ''object'') then
      (case as_object v of None \<Rightarrow> False
       | Some flds \<Rightarrow> (case Option.bind (map_of kvs ''properties'') as_object of None \<Rightarrow> False
           | Some properties \<Rightarrow>
               (case Option.bind (map_of kvs ''required'') as_array of None \<Rightarrow> True
                | Some rs \<Rightarrow> list_all (\<lambda>r. \<exists>name\<in>set (map fst flds). r = JStr name) rs)
               \<and> list_all (\<lambda>(name, w). case map_of properties name of
                    Some s \<Rightarrow> conforms s w | None \<Rightarrow> additional_allowed kvs) flds))
    else if map_of kvs ''type'' = Some (JStr ''array'') then
      (case map_of kvs ''items'' of None \<Rightarrow> False
       | Some items \<Rightarrow> (case as_array v of None \<Rightarrow> False | Some vs \<Rightarrow> list_all (\<lambda>w. conforms items w) vs))
    else True"
  have body: "?body \<noteq> Inl Panic \<and> (?body = Inr ()) = ?spec"
    if typed: "case type_name of None \<Rightarrow> True | Some t \<Rightarrow> value_has_type v t"
  proof -
    consider "type_name = Some ''object''" | "type_name = Some ''array''"
      | "type_name \<noteq> Some ''object''" "type_name \<noteq> Some ''array''" by blast
    then show ?thesis
    proof cases
      case 1
      from ob [OF 1] obtain properties where
        pr: "map_of kvs ''properties'' = Some (JObj properties)"
          "\<forall>(n, s)\<in>set properties. schema_ok debug s" "check_object_tail path' kvs properties = Inr ()"
        by blast
      from 1 typed obtain flds where v: "v = JObj flds"
        by (auto simp: value_has_type_def is_object_def)
      have "agrees s w p" if "map_of properties name = Some s" for name s w p
        using that pr(2) map_of_SomeD [OF that] map_of_smaller [OF that] map_of_smaller [OF pr(1)]
        by (intro sub) (auto simp: schema)
      note props = properties_agree [OF this, where path = path and b = "additional_allowed kvs"
          and m = "''additional property is not allowed''" and flds = flds]
      from next_agrees [OF check_present_conforms [OF pr(3), of path flds] props] 1 pr(1) v
      show ?thesis by (simp add: tyq)
    next
      case 2
      from ar [OF 2] obtain items where it: "map_of kvs ''items'' = Some items" "schema_ok debug items"
        by blast
      from 2 typed obtain vs where v: "v = JArr vs"
        by (auto simp: value_has_type_def is_array_def)
      have "agrees items w p" for w p
        using it map_of_smaller [OF it(1)] by (intro sub) (auto simp: schema)
      from items_agree [OF this, of path vs] 2 it v show ?thesis by (simp add: tyq)
    next
      case 3
      then show ?thesis by (simp add: tyq)
    qed
  qed
  let ?one = "case Option.bind (map_of kvs ''oneOf'') as_array of None \<Rightarrow> Inr ()
    | Some options \<Rightarrow> exactly_one path (count_ok (\<lambda>option. validate_instance option v path) options)"
  have first: "?one \<noteq> Inl Panic"
    "(?one = Inr ()) = (case Option.bind (map_of kvs ''oneOf'') as_array of None \<Rightarrow> True
      | Some options \<Rightarrow> length (filter (\<lambda>s. conforms s v) options) = 1)"
    using oneOf_agrees [OF one'] by (simp_all split: option.splits)
  have inst: "validate_instance schema v path =
      and_next ?one (and_next (check_type path kvs v) (and_next (check_in_enum path kvs v) ?body))"
    by (simp add: schema validate_instance.simps [of "JObj kvs"] ty)
  have spec: "conforms schema v =
     ((case Option.bind (map_of kvs ''oneOf'') as_array of None \<Rightarrow> True
      | Some options \<Rightarrow> length (filter (\<lambda>s. conforms s v) options) = 1)
      \<and> ((case type_name of None \<Rightarrow> True | Some t \<Rightarrow> value_has_type v t)
      \<and> ((case Option.bind (map_of kvs ''enum'') as_array of None \<Rightarrow> True | Some vs \<Rightarrow> v \<in> set vs)
      \<and> ?spec)))"
    by (simp add: schema conforms.simps [of "JObj kvs"] ty)
  note type' = check_type_conforms [of path kvs v, unfolded ty]
  show ?case
    unfolding inst spec
    by (intro next_agrees first no_panic_checks type' check_in_enum_conforms body)
qed

section \<open>Properties\<close>

text \<open>C16: Checking arguments against a schema that registration accepted reaches none of the
  \<open>expect\<close> calls, whatever the arguments are, and accepts exactly the values that conform to the
  schema; the path only labels the error.\<close>

theorem registered_schema_decides:
  assumes "validate_schema debug schema path = Inr ()"
  shows "validate_instance schema v path' \<noteq> Inl Panic
    \<and> (validate_instance schema v path' = Inr ()) = conforms schema v"
  using validate_instance_agrees [of debug schema v path'] assms by (auto simp: schema_ok_def)

definition sample_schema :: json where
  "sample_schema =
     obj [(''type'', JStr ''object''), (''additionalProperties'', JBool False),
          (''required'', JArr [JStr ''plan'']),
          (''properties'', obj [(''plan'', obj [(''type'', JStr ''string'')])])]"

theorem registered_schema_decides_witness:
  "conforms sample_schema (obj [(''plan'', JStr ''x'')])
   \<and> \<not> conforms sample_schema (obj [(''plan'', JBool True)])"
proof -
  have ok: "validate_schema id sample_schema ''$'' = Inr ()" by code_simp
  have "validate_instance sample_schema (obj [(''plan'', JStr ''x'')]) ''$'' = Inr ()" by code_simp
  moreover have "validate_instance sample_schema (obj [(''plan'', JBool True)]) ''$'' \<noteq> Inr ()" by code_simp
  ultimately show ?thesis using registered_schema_decides [OF ok] by blast
qed

end
