(* ===== verification/Tool_Runtime.thy ===== *)
theory Tool_Runtime
  imports Tool_Schema Session_Base
begin

text \<open>
  The tool registry and the execution of one call (\<open>ToolRuntime\<close>, \<open>ToolRegistration\<close> and
  \<open>ToolObserverRegistration\<close> in \<open>src/src/tools.rs\<close>). Handlers, approvals and observers are supplied
  by other components: a handler and an approval are functions, an observer is its identity, and what is
  called with what is recorded in the trace that every operation returns. The rendering of a string
  with \<open>{:?}\<close> and of a JSON value with \<open>{}\<close> are the fields of \<open>formats\<close>.
\<close>

section \<open>Calls and outputs\<close>

record tool_run_context =
  cx_session :: string
  cx_call :: string

record tool_output =
  to_content :: "content_block list"
  to_is_error :: bool
  to_meta :: json

definition into_content_block :: "tool_output \<Rightarrow> string \<Rightarrow> content_block" where
  "into_content_block out call = ToolResult call (to_content out) (Some (to_is_error out))"

definition output_failure :: "string \<Rightarrow> string \<Rightarrow> json \<Rightarrow> tool_output" where
  "output_failure code m details =
     \<lparr>to_content = [Text m], to_is_error = True,
      to_meta = obj [(''code'', JStr code), (''details'', details)]\<rparr>"

definition handler_failure :: "tessivum_error \<Rightarrow> tool_output" where
  "handler_failure e =
     \<lparr>to_content = [Text (if starts_with (e_message e) ''Error: '' then e_message e
                           else ''Error: '' @ e_message e)],
      to_is_error = True,
      to_meta = obj [(''code'', JStr (e_code e)), (''phase'', JStr (e_phase e)),
                     (''details'', e_details e)]\<rparr>"

text \<open>A handler or an approval is code of its own: \<open>None\<close> when it panics or never returns.\<close>

type_synonym handler = "tool_run_context \<Rightarrow> json \<Rightarrow> (tessivum_error + tool_output) option"
type_synonym approval = "tool_run_context \<Rightarrow> tool_schema \<Rightarrow> json \<Rightarrow> (tessivum_error + bool option) option"

record formats =
  fm_debug :: "string \<Rightarrow> string"
  fm_json :: "json \<Rightarrow> string"

section \<open>The registry\<close>

record tool_definition =
  df_name :: string
  df_description :: string
  df_parameters :: json
  df_handler :: handler

definition definition_schema :: "tool_definition \<Rightarrow> tool_schema" where
  "definition_schema d =
     \<lparr>ts_name = df_name d, ts_description = df_description d, ts_parameters = df_parameters d\<rparr>"

record registered_tool =
  rt_id :: u64
  rt_definition :: tool_definition

record runtime_state =
  rs_next_id :: u64
  rs_tools :: "(string \<times> registered_tool) list"
  rs_approval :: "approval option"
  rs_result_observers :: "(u64 \<times> unit) list"
  rs_change_observers :: "(u64 \<times> unit) list"

definition runtime_new :: runtime_state where
  "runtime_new =
     \<lparr>rs_next_id = 1, rs_tools = [], rs_approval = None, rs_result_observers = [],
      rs_change_observers = []\<rparr>"

datatype tool_change = Registered tool_schema | Removed string

datatype action =
    AskApproval tool_run_context tool_schema json
  | RunHandler string tool_run_context json
  | NotifyResult u64 tool_run_context tool_output
  | NotifyChange u64 tool_change

record tool_registration =
  rg_name :: string
  rg_id :: u64
  rg_closed :: bool

definition succ_id :: "u64 \<Rightarrow> u64" where
  "succ_id n = (case checked_add_u64 n 1 of None \<Rightarrow> 1 | Some m \<Rightarrow> m)"

definition notify_change :: "runtime_state \<Rightarrow> tool_change \<Rightarrow> action list" where
  "notify_change st change = map (\<lambda>(id, _). NotifyChange id change) (rs_change_observers st)"

definition notify_result :: "runtime_state \<Rightarrow> tool_run_context \<Rightarrow> tool_output \<Rightarrow> action list" where
  "notify_result st cx out = map (\<lambda>(id, _). NotifyResult id cx out) (rs_result_observers st)"

definition validate_definition :: "formats \<Rightarrow> tool_definition \<Rightarrow> tessivum_error + unit" where
  "validate_definition fm d =
     (if blank (df_name d)
      then Inl (tool_error ''INVALID_TOOL_NAME'' ''tool name must not be blank'' JNull)
      else validate_schema (fm_debug fm) (df_parameters d) ''$'')"

definition insert_tool :: "tool_definition \<Rightarrow> runtime_state \<Rightarrow> runtime_state" where
  "insert_tool d st =
     st\<lparr>rs_next_id := succ_id (rs_next_id st),
        rs_tools := bt_insert (df_name d) \<lparr>rt_id = rs_next_id st, rt_definition = d\<rparr> (rs_tools st)\<rparr>"

definition runtime_register ::
  "formats \<Rightarrow> runtime_state \<Rightarrow> tool_definition
     \<Rightarrow> tessivum_error + (tool_registration \<times> runtime_state \<times> action list)" where
  "runtime_register fm st d =
     and_then (validate_definition fm d) (\<lambda>_.
     if map_of (rs_tools st) (df_name d) \<noteq> None
     then Inl (tool_error ''DUPLICATE_TOOL_NAME'' ''a tool with this name is already registered''
                 (obj [(''name'', JStr (df_name d))]))
     else
       let st' = insert_tool d st
       in Inr (\<lparr>rg_name = df_name d, rg_id = rs_next_id st, rg_closed = False\<rparr>, st',
               notify_change st' (Registered (definition_schema d))))"

fun check_definitions :: "formats \<Rightarrow> string list \<Rightarrow> tool_definition list \<Rightarrow> tessivum_error + unit" where
  "check_definitions fm names [] = Inr ()"
| "check_definitions fm names (d # ds) =
     and_then (validate_definition fm d) (\<lambda>_.
     if df_name d \<in> set names
     then Inl (tool_error ''DUPLICATE_TOOL_NAME'' ''replacement contains duplicate tool names''
                 (obj [(''name'', JStr (df_name d))]))
     else check_definitions fm (df_name d # names) ds)"

definition current_registration :: "runtime_state \<Rightarrow> tool_registration \<Rightarrow> bool" where
  "current_registration st r \<longleftrightarrow>
     (case map_of (rs_tools st) (rg_name r) of None \<Rightarrow> False | Some t \<Rightarrow> rt_id t = rg_id r)"

fun insert_all ::
  "tool_definition list \<Rightarrow> runtime_state
     \<Rightarrow> tool_registration list \<times> tool_change list \<times> runtime_state" where
  "insert_all [] st = ([], [], st)"
| "insert_all (d # ds) st =
     (let (rs, cs, st') = insert_all ds (insert_tool d st)
      in (\<lparr>rg_name = df_name d, rg_id = rs_next_id st, rg_closed = False\<rparr> # rs,
          Registered (definition_schema d) # cs, st'))"

definition runtime_replace ::
  "formats \<Rightarrow> runtime_state \<Rightarrow> tool_registration list \<Rightarrow> tool_definition list
     \<Rightarrow> tessivum_error + (tool_registration list \<times> runtime_state \<times> action list)" where
  "runtime_replace fm st prior ds =
     and_then (check_definitions fm [] ds) (\<lambda>_.
     let sorted_ds = sort_key df_name ds;
         removed = foldr set_insert (map rg_name (filter (current_registration st) prior)) []
     in case find_first (\<lambda>n. map_of (rs_tools st) n \<noteq> None \<and> n \<notin> set removed)
               (map df_name sorted_ds) of
          Some name \<Rightarrow>
            Inl (tool_error ''DUPLICATE_TOOL_NAME''
                   ''a replacement tool name is already registered outside the replaced set''
                   (obj [(''name'', JStr name)]))
        | None \<Rightarrow>
            let (rs, cs, st') = insert_all sorted_ds
                  (st\<lparr>rs_tools := foldl (\<lambda>ts n. bt_remove n ts) (rs_tools st) removed\<rparr>)
            in Inr (rs, st', concat (map (notify_change st') (map Removed removed @ cs))))"

text \<open>Closing a handle. \<open>alive\<close> says whether the runtime still exists (\<open>Weak::upgrade\<close>).\<close>

definition registration_close ::
  "bool \<Rightarrow> runtime_state \<Rightarrow> tool_registration
     \<Rightarrow> bool \<times> tool_registration \<times> runtime_state \<times> action list" where
  "registration_close alive st r =
     (if rg_closed r then (False, r, st, [])
      else if \<not> alive then (False, r\<lparr>rg_closed := True\<rparr>, st, [])
      else if current_registration st r then
        let st' = st\<lparr>rs_tools := bt_remove (rg_name r) (rs_tools st)\<rparr>
        in (True, r\<lparr>rg_closed := True\<rparr>, st', notify_change st' (Removed (rg_name r)))
      else (False, r\<lparr>rg_closed := True\<rparr>, st, []))"

definition runtime_schemas :: "tool_scope \<Rightarrow> runtime_state \<Rightarrow> tool_schema list" where
  "runtime_schemas scope st =
     map (definition_schema \<circ> rt_definition)
       (filter (\<lambda>t. scope_access scope (df_name (rt_definition t)) \<noteq> Deny) (map snd (rs_tools st)))"

datatype observer_kind = ResultObserver | ChangeObserver

definition observe :: "observer_kind \<Rightarrow> runtime_state \<Rightarrow> u64 \<times> runtime_state" where
  "observe kind st =
     (let i = rs_next_id st; st' = st\<lparr>rs_next_id := succ_id i\<rparr>
      in case kind of
           ResultObserver \<Rightarrow> (i, st'\<lparr>rs_result_observers := bt_insert i () (rs_result_observers st')\<rparr>)
         | ChangeObserver \<Rightarrow> (i, st'\<lparr>rs_change_observers := bt_insert i () (rs_change_observers st')\<rparr>))"

definition observer_close ::
  "bool \<Rightarrow> observer_kind \<Rightarrow> u64 \<Rightarrow> bool \<Rightarrow> runtime_state \<Rightarrow> bool \<times> runtime_state" where
  "observer_close alive kind i was_closed st =
     (if was_closed \<or> \<not> alive then (False, st)
      else case kind of
             ResultObserver \<Rightarrow> (map_of (rs_result_observers st) i \<noteq> None,
               st\<lparr>rs_result_observers := bt_remove i (rs_result_observers st)\<rparr>)
           | ChangeObserver \<Rightarrow> (map_of (rs_change_observers st) i \<noteq> None,
               st\<lparr>rs_change_observers := bt_remove i (rs_change_observers st)\<rparr>))"

section \<open>Execution\<close>

fun is_cancelled :: "cancel \<Rightarrow> bool \<times> cancel" where
  "is_cancelled None = (False, None)"
| "is_cancelled (Some 0) = (True, Some 0)"
| "is_cancelled (Some (Suc n)) = (False, Some n)"

definition cancelled_output :: tool_output where
  "cancelled_output = output_failure ''CANCELLED'' ''tool call was cancelled'' JNull"

definition invalid_arguments :: "formats \<Rightarrow> string \<Rightarrow> tool_definition \<Rightarrow> tessivum_error \<Rightarrow> tessivum_error" where
  "invalid_arguments fm name d e =
     e\<lparr>e_message :=
         ''Invalid arguments for '' @ fm_debug fm name @ '' at ''
         @ (case get_str ''path'' (e_details e) of None \<Rightarrow> ''$'' | Some p \<Rightarrow> p)
         @ '': '' @ e_message e @ ''.'' @ [char_of (10 :: nat)]
         @ ''Expected arguments (JSON Schema):'' @ [char_of (10 :: nat)]
         @ fm_json fm (df_parameters d)\<rparr>"

text \<open>The output, \<open>None\<close> when the call panics or never returns, and the trace of the calls to approvals, handlers and observers in order.\<close>

definition settle ::
  "runtime_state \<Rightarrow> tool_run_context \<Rightarrow> action list \<Rightarrow> tool_output \<Rightarrow> tool_output option \<times> action list" where
  "settle st cx tr out = (Some out, tr @ notify_result st cx out)"

definition run_handler ::
  "runtime_state \<Rightarrow> tool_run_context \<Rightarrow> cancel \<Rightarrow> action list \<Rightarrow> string \<Rightarrow> tool_definition \<Rightarrow> json
     \<Rightarrow> tool_output option \<times> action list" where
  "run_handler st cx c tr name d args =
     (let tr' = tr @ [RunHandler name cx args]
      in case df_handler d cx args of
           None \<Rightarrow> (None, tr')
         | Some r \<Rightarrow> settle st cx tr' (if fst (is_cancelled c) then cancelled_output
             else case r of Inr out \<Rightarrow> out | Inl e \<Rightarrow> handler_failure e))"

definition ask_approval ::
  "runtime_state \<Rightarrow> tool_run_context \<Rightarrow> tool_definition \<Rightarrow> json \<Rightarrow> bool option \<times> action list" where
  "ask_approval st cx d args =
     (case rs_approval st of
        None \<Rightarrow> (Some False, [])
      | Some approve \<Rightarrow>
          (map_option (\<lambda>answer. answer = Inr (Some True)) (approve cx (definition_schema d) args),
           [AskApproval cx (definition_schema d) args]))"

definition runtime_execute ::
  "formats \<Rightarrow> tool_scope \<Rightarrow> runtime_state \<Rightarrow> tool_run_context \<Rightarrow> cancel \<Rightarrow> string \<Rightarrow> json
     \<Rightarrow> tool_output option \<times> action list" where
  "runtime_execute fm scope st cx c name args =
     (let (stop, c1) = is_cancelled c
      in if stop then settle st cx [] cancelled_output
         else case map_of (rs_tools st) name of
           None \<Rightarrow> settle st cx [] (output_failure ''TOOL_NOT_FOUND''
                     ''requested tool is not registered'' (obj [(''name'', JStr name)]))
         | Some tool \<Rightarrow>
             let d = rt_definition tool; access = scope_access scope name
             in if access = Deny
                then settle st cx [] (output_failure ''TOOL_DENIED''
                       ''tool is not visible in this scope'' (obj [(''name'', JStr name)]))
                else case validate_instance (df_parameters d) args ''$'' of
                  Inl Panic \<Rightarrow> (None, [])
                | Inl (Fault e) \<Rightarrow> settle st cx [] (handler_failure (invalid_arguments fm name d e))
                | Inr _ \<Rightarrow>
                    if access = AskFirst then
                      case ask_approval st cx d args of
                        (None, tr) \<Rightarrow> (None, tr)
                      | (Some approved, tr) \<Rightarrow>
                          (let (stop', c2) = is_cancelled c1
                           in if stop' then settle st cx tr cancelled_output
                              else if \<not> approved
                              then settle st cx tr (output_failure ''TOOL_APPROVAL_DENIED''
                                     ''tool call was not approved'' (obj [(''name'', JStr name)]))
                              else run_handler st cx c2 tr name d args)
                    else run_handler st cx c1 [] name d args)"

section \<open>States of a runtime\<close>

inductive runtime_step :: "formats \<Rightarrow> runtime_state \<Rightarrow> runtime_state \<Rightarrow> bool" for fm :: formats
  where
  register: "runtime_register fm st d = Inr (r, st', tr) \<Longrightarrow> runtime_step fm st st'"
| replace: "runtime_replace fm st prior ds = Inr (rs, st', tr) \<Longrightarrow> runtime_step fm st st'"
| close_tool: "registration_close alive st r = (b, r', st', tr) \<Longrightarrow> runtime_step fm st st'"
| set_approval: "runtime_step fm st (st\<lparr>rs_approval := a\<rparr>)"
| observe: "observe kind st = (i, st') \<Longrightarrow> runtime_step fm st st'"
| unobserve: "observer_close alive kind i b st = (b', st') \<Longrightarrow> runtime_step fm st st'"

definition registry_ok :: "formats \<Rightarrow> runtime_state \<Rightarrow> bool" where
  "registry_ok fm st \<longleftrightarrow>
     bt_sorted (rs_tools st) \<and>
     (\<forall>n t. map_of (rs_tools st) n = Some t \<longrightarrow>
        df_name (rt_definition t) = n \<and> validate_definition fm (rt_definition t) = Inr ())"

lemma registry_ok_new: "registry_ok fm runtime_new"
  by (simp add: registry_ok_def runtime_new_def bt_sorted_def)

lemma insert_tool_tools [simp]:
  "map_of (rs_tools (insert_tool d st)) =
     (map_of (rs_tools st))(df_name d \<mapsto> \<lparr>rt_id = rs_next_id st, rt_definition = d\<rparr>)"
  by (simp add: insert_tool_def)

lemma registry_ok_insert:
  "registry_ok fm st \<Longrightarrow> validate_definition fm d = Inr () \<Longrightarrow> registry_ok fm (insert_tool d st)"
  by (auto simp: registry_ok_def insert_tool_def bt_sorted_insert)

lemma registry_ok_remove:
  "registry_ok fm st \<Longrightarrow> registry_ok fm (st\<lparr>rs_tools := bt_remove n (rs_tools st)\<rparr>)"
  by (auto simp: registry_ok_def bt_sorted_remove split: if_splits)

lemma check_definitions_Inr:
  "check_definitions fm names ds = Inr () \<Longrightarrow>
     (\<forall>d\<in>set ds. validate_definition fm d = Inr () \<and> df_name d \<notin> set names) \<and> distinct (map df_name ds)"
  by (induction fm names ds rule: check_definitions.induct) (auto split: if_splits)

lemma insert_all_ok:
  "insert_all ds st = (rs, cs, st') \<Longrightarrow> registry_ok fm st \<Longrightarrow>
     \<forall>d\<in>set ds. validate_definition fm d = Inr () \<Longrightarrow> registry_ok fm st'"
  by (induction ds st arbitrary: rs cs rule: insert_all.induct)
    (auto simp: Let_def registry_ok_insert split: prod.splits)

lemma remove_all: "map_of (foldl (\<lambda>ts n. bt_remove n ts) ts ns) n
    = (if n \<in> set ns then None else map_of ts n)"
  by (induction ns arbitrary: ts) auto

lemma remove_all_sorted: "bt_sorted ts \<Longrightarrow> bt_sorted (foldl (\<lambda>ts n. bt_remove n ts) ts ns)"
  by (induction ns arbitrary: ts) (auto simp: bt_sorted_remove)

lemma runtime_replace_Inr:
  assumes "runtime_replace fm st prior ds = Inr (rs, st', tr)"
  obtains removed cs where
    "check_definitions fm [] ds = Inr ()"
    "set removed = rg_name ` {r \<in> set prior. current_registration st r}"
    "\<forall>d\<in>set ds. map_of (rs_tools st) (df_name d) \<noteq> None \<longrightarrow> df_name d \<in> set removed"
    "insert_all (sort_key df_name ds)
       (st\<lparr>rs_tools := foldl (\<lambda>ts n. bt_remove n ts) (rs_tools st) removed\<rparr>) = (rs, cs, st')"
    "tr = concat (map (notify_change st') (map Removed removed @ cs))"
proof -
  let ?removed = "foldr set_insert (map rg_name (filter (current_registration st) prior)) []"
  from assms obtain cs where "check_definitions fm [] ds = Inr ()"
    "find_first (\<lambda>n. map_of (rs_tools st) n \<noteq> None \<and> n \<notin> set ?removed)
       (map df_name (sort_key df_name ds)) = None"
    "insert_all (sort_key df_name ds)
       (st\<lparr>rs_tools := foldl (\<lambda>ts n. bt_remove n ts) (rs_tools st) ?removed\<rparr>) = (rs, cs, st')"
    "tr = concat (map (notify_change st') (map Removed ?removed @ cs))"
    by (auto simp: runtime_replace_def Let_def split: option.splits prod.splits)
  then show ?thesis by (intro that [of ?removed cs]) auto
qed

lemma registry_step_ok:
  assumes "runtime_step fm st st'" and "registry_ok fm st"
  shows "registry_ok fm st'"
  using assms
proof (induction rule: runtime_step.induct)
  case (register st d r st' tr)
  then show ?case by (auto simp: runtime_register_def Let_def registry_ok_insert split: if_splits)
next
  case (replace st prior ds rs st' tr)
  from replace.hyps obtain removed cs where
    c: "check_definitions fm [] ds = Inr ()" and
    ins: "insert_all (sort_key df_name ds)
       (st\<lparr>rs_tools := foldl (\<lambda>ts n. bt_remove n ts) (rs_tools st) removed\<rparr>) = (rs, cs, st')"
    by (rule runtime_replace_Inr)
  have "registry_ok fm (st\<lparr>rs_tools := foldl (\<lambda>ts n. bt_remove n ts) (rs_tools st) removed\<rparr>)"
    using replace.prems by (auto simp: registry_ok_def remove_all remove_all_sorted split: if_splits)
  with insert_all_ok [OF ins] check_definitions_Inr [OF c] show ?case by simp
next
  case (close_tool alive st r b r' st' tr)
  then show ?case
    by (auto simp: registration_close_def Let_def registry_ok_remove split: if_splits)
next
  case (set_approval st a)
  then show ?case by (simp add: registry_ok_def)
next
  case (observe kind st i st')
  then show ?case by (cases kind) (auto simp: observe_def registry_ok_def Let_def)
next
  case (unobserve alive kind i b st b' st')
  then show ?case by (cases kind) (auto simp: observer_close_def registry_ok_def split: if_splits)
qed

lemma registry_reachable_ok:
  assumes "(runtime_step fm)\<^sup>*\<^sup>* runtime_new st"
  shows "registry_ok fm st"
  using assms by (induction rule: rtranclp_induct) (auto intro: registry_ok_new registry_step_ok)

text \<open>The cases of an execution, each with its trace: it settles without the handler, it runs the handler, it dies in the approval, or the
  validation panics.\<close>

definition after_handler ::
  "runtime_state \<Rightarrow> tool_run_context \<Rightarrow> tool_definition \<Rightarrow> json \<Rightarrow> tool_output option \<Rightarrow> action list \<Rightarrow> bool" where
  "after_handler st cx d args r post \<longleftrightarrow>
     (case r of Some out \<Rightarrow> post = notify_result st cx out | None \<Rightarrow> post = [] \<and> df_handler d cx args = None)"

lemma run_handler_effect: "\<exists>r post. run_handler st cx c tr name d args = (r, tr @ RunHandler name cx args # post) \<and> after_handler st cx d args r post"
  by (auto simp: run_handler_def settle_def after_handler_def Let_def split: option.splits)

lemma ask_approval_trace: "ask_approval st cx d args = (b, pre) \<Longrightarrow> pre = [] \<or> pre = [AskApproval cx (definition_schema d) args]"
  by (auto simp: ask_approval_def split: option.splits)

lemma ask_approval_stuck: "ask_approval st cx d args = (None, pre) \<Longrightarrow>
    pre = [AskApproval cx (definition_schema d) args] \<and> (\<exists>approve. rs_approval st = Some approve \<and> approve cx (definition_schema d) args = None)"
  by (auto simp: ask_approval_def split: option.splits)

lemma execute_cases:
  assumes "runtime_execute fm scope st cx c name args = (r, tr)"
  obtains (refused) pre out where "r = Some out" "tr = pre @ notify_result st cx out"
      "pre = [] \<or> (\<exists>d. pre = [AskApproval cx (definition_schema d) args])"
  | (ran) pre tool post where "map_of (rs_tools st) name = Some tool"
      "validate_instance (df_parameters (rt_definition tool)) args ''$'' = Inr ()"
      "scope_access scope name = Allow \<and> pre = [] \<or>
       scope_access scope name = AskFirst
         \<and> ask_approval st cx (rt_definition tool) args = (Some True, pre)"
      "tr = pre @ RunHandler name cx args # post" "after_handler st cx (rt_definition tool) args r post"
  | (stuck) tool where "r = None" "map_of (rs_tools st) name = Some tool" "ask_approval st cx (rt_definition tool) args = (None, tr)"
  | (panicked) tool where "r = None" "tr = []" "map_of (rs_tools st) name = Some tool"
      "validate_instance (df_parameters (rt_definition tool)) args ''$'' = Inl Panic"
proof (cases "fst (is_cancelled c)")
  case True
  with assms refused [of _ "[]"] show ?thesis
    by (auto simp: runtime_execute_def settle_def case_prod_beta)
next
  case False
  obtain c1 where c1: "is_cancelled c = (False, c1)" using False by (metis prod.collapse)
  show ?thesis
  proof (cases "map_of (rs_tools st) name")
    case None
    with assms c1 refused [of _ "[]"] show ?thesis by (auto simp: runtime_execute_def settle_def)
  next
    case tool: (Some tool)
    let ?d = "rt_definition tool"
    let ?v = "validate_instance (df_parameters ?d) args ''$''"
    consider (denied) "scope_access scope name = Deny" | (panic) "scope_access scope name \<noteq> Deny" "?v = Inl Panic"
      | (fault) e where "scope_access scope name \<noteq> Deny" "?v = Inl (Fault e)"
      | (allowed) "scope_access scope name = Allow" "?v = Inr ()" | (asked) "scope_access scope name = AskFirst" "?v = Inr ()"
      by (cases "scope_access scope name"; cases ?v rule: sum.exhaust) (auto intro: tool_fault.exhaust)
    then show ?thesis
    proof cases
      case allowed
      obtain r' post where "run_handler st cx c1 [] name ?d args = (r', [] @ RunHandler name cx args # post)" "after_handler st cx ?d args r' post"
        using run_handler_effect by blast
      with assms c1 tool allowed ran [OF tool, of "[]" post] show ?thesis by (auto simp: runtime_execute_def)
    next
      case asked
      obtain b pre where ask: "ask_approval st cx ?d args = (b, pre)" by (rule prod.exhaust)
      note pre = ask_approval_trace [OF ask]
      obtain stop c2 where c2: "is_cancelled c1 = (stop, c2)" by (rule prod.exhaust)
      obtain r' post where handler: "run_handler st cx c2 pre name ?d args = (r', pre @ RunHandler name cx args # post)" "after_handler st cx ?d args r' post"
        using run_handler_effect by blast
      show ?thesis
      proof (cases b)
        case None
        with assms c1 tool asked ask stuck [OF _ tool] show ?thesis by (auto simp: runtime_execute_def)
      next
        case (Some approved)
        show ?thesis
        proof (cases "stop \<or> \<not> approved")
          case True
          with assms c1 tool asked ask c2 Some refused [of _ pre] pre show ?thesis
            by (auto simp: runtime_execute_def settle_def split: if_splits)
        next
          case False
          with assms c1 tool asked ask c2 Some handler ran [OF tool, of pre post] show ?thesis by (auto simp: runtime_execute_def)
        qed
      qed
    qed (use assms c1 tool refused [of _ "[]"] panicked [OF _ _ tool] in \<open>auto simp: runtime_execute_def settle_def Let_def\<close>)
  qed
qed

lemma validation_never_panics:
  assumes "registry_ok fm st" "map_of (rs_tools st) name = Some tool"
  shows "validate_instance (df_parameters (rt_definition tool)) args ''$'' \<noteq> Inl Panic"
  using assms validate_instance_agrees [of "fm_debug fm" "df_parameters (rt_definition tool)" args "''$''"]
  by (auto simp: registry_ok_def validate_definition_def schema_ok_def split: if_splits)

section \<open>Replacing and closing\<close>

lemma insert_all_tools:
  assumes "insert_all ds st = (rs, cs, st')" and "distinct (map df_name ds)"
  shows "map_option rt_definition (map_of (rs_tools st') n) =
      (case find_first (\<lambda>d. df_name d = n) ds of
         Some d \<Rightarrow> Some d
       | None \<Rightarrow> map_option rt_definition (map_of (rs_tools st) n))
    \<and> map rg_name rs = map df_name ds"
  using assms
proof (induction ds st arbitrary: rs cs st' rule: insert_all.induct)
  case (2 d ds st)
  obtain rs1 cs1 where run: "insert_all ds (insert_tool d st) = (rs1, cs1, st')"
    and rs: "rs = \<lparr>rg_name = df_name d, rg_id = rs_next_id st, rg_closed = False\<rparr> # rs1"
    using 2(2) by (auto simp: Let_def split: prod.splits)
  have dist: "distinct (map df_name ds)" "df_name d \<notin> df_name ` set ds" using 2(3) by auto
  note IH = 2(1) [OF run dist(1)]
  show ?case
  proof (cases "df_name d = n")
    case True
    with dist(2) have "find_first (\<lambda>d. df_name d = n) ds = None" by (simp add: image_iff) metis
    with True IH rs show ?thesis by (simp add: find_first_def)
  next
    case False
    with IH rs show ?thesis by (simp add: find_first_def split: list.splits)
  qed
qed (simp add: find_first_def)

lemma find_first_sort:
  assumes "distinct (map f xs)"
  shows "find_first (\<lambda>x. f x = n) (sort_key f xs) = find_first (\<lambda>x. f x = n) xs"
proof -
  have "filter (\<lambda>x. f x = n) (sort_key f xs) = filter (\<lambda>x. f x = n) xs"
    by (metis (mono_tags, lifting) filter_sort sort_key_stable)
  then show ?thesis by (simp add: find_first_def)
qed

section \<open>Properties\<close>

text \<open>C6: Every call settles exactly once unless the handler or the approval it runs panics or never returns. In every state a runtime can
  reach, through any sequence of registrations, replacements, closed handles, approvals and observers, executing any call under any
  scope, with any cancellation, either returns an output, after which every result observer has been notified once, with that
  output and after everything else, and the handler was called at most once; or it dies in exactly the handler or the
  approval of the requested tool, and then no result observer is ever notified. The validation of arguments never panics.\<close>

theorem execute_settles_once:
  assumes "(runtime_step fm)\<^sup>*\<^sup>* runtime_new st"
  shows "case runtime_execute fm scope st cx c name args of
      (Some out, tr) \<Rightarrow> \<exists>pre. tr = pre @ notify_result st cx out
        \<and> length (filter (\<lambda>a. case a of RunHandler _ _ _ \<Rightarrow> True | _ \<Rightarrow> False) pre) \<le> 1
        \<and> \<not> list_ex (\<lambda>a. case a of NotifyResult _ _ _ \<Rightarrow> True | _ \<Rightarrow> False) pre
    | (None, tr) \<Rightarrow> \<not> list_ex (\<lambda>a. case a of NotifyResult _ _ _ \<Rightarrow> True | _ \<Rightarrow> False) tr
        \<and> (\<exists>tool. map_of (rs_tools st) name = Some tool
             \<and> (last tr = RunHandler name cx args \<and> df_handler (rt_definition tool) cx args = None
                \<or> tr = [AskApproval cx (definition_schema (rt_definition tool)) args]
                  \<and> (\<exists>approve. rs_approval st = Some approve \<and> approve cx (definition_schema (rt_definition tool)) args = None)))"
proof -
  obtain r tr where run: "runtime_execute fm scope st cx c name args = (r, tr)" by (rule prod.exhaust)
  then show ?thesis
  proof (cases rule: execute_cases)
    case (refused pre out)
    with run show ?thesis by auto
  next
    case (ran pre tool post)
    from ran(3) have pre: "pre = [] \<or> pre = [AskApproval cx (definition_schema (rt_definition tool)) args]"
      using ask_approval_trace by blast
    show ?thesis
    proof (cases r)
      case None
      with run ran pre show ?thesis by (auto simp: after_handler_def)
    next
      case (Some out)
      with ran(4, 5) have "tr = (pre @ [RunHandler name cx args]) @ notify_result st cx out" by (simp add: after_handler_def)
      moreover have "length (filter (\<lambda>a. case a of RunHandler _ _ _ \<Rightarrow> True | _ \<Rightarrow> False) (pre @ [RunHandler name cx args])) \<le> 1
          \<and> \<not> list_ex (\<lambda>a. case a of NotifyResult _ _ _ \<Rightarrow> True | _ \<Rightarrow> False) (pre @ [RunHandler name cx args])" using pre by auto
      ultimately show ?thesis using run Some by auto
    qed
  next
    case (stuck tool)
    with run ask_approval_stuck [OF stuck(3)] show ?thesis by auto
  next
    case (panicked tool)
    with validation_never_panics [OF registry_reachable_ok [OF assms]] show ?thesis by blast
  qed
qed

definition sample_tool :: tool_definition where
  "sample_tool =
     \<lparr>df_name = ''plan'', df_description = ''d'', df_parameters = sample_schema,
      df_handler = (\<lambda>cx args. if args = JNull then None else Some (Inr \<lparr>to_content = [Text ''done''], to_is_error = False, to_meta = JNull\<rparr>))\<rparr>"

definition sample_formats :: formats where
  "sample_formats = \<lparr>fm_debug = id, fm_json = (\<lambda>_. [])\<rparr>"

definition sample_runtime :: runtime_state where
  "sample_runtime = insert_tool sample_tool runtime_new"

lemma sample_runtime_reachable: "(runtime_step sample_formats)\<^sup>*\<^sup>* runtime_new sample_runtime"
proof -
  have "validate_definition sample_formats sample_tool = Inr ()" by code_simp
  then have "runtime_register sample_formats runtime_new sample_tool = Inr
      (\<lparr>rg_name = df_name sample_tool, rg_id = rs_next_id runtime_new, rg_closed = False\<rparr>, sample_runtime,
       notify_change sample_runtime (Registered (definition_schema sample_tool)))"
    by (simp add: runtime_register_def runtime_new_def sample_runtime_def Let_def)
  then show ?thesis using runtime_step.register by blast
qed

theorem execute_settles_once_witness:
  "(runtime_step sample_formats)\<^sup>*\<^sup>* runtime_new sample_runtime
   \<and> (\<exists>out tr pre. runtime_execute sample_formats scope_root sample_runtime
      \<lparr>cx_session = ''s'', cx_call = ''c''\<rparr> (Some 3) ''plan'' (obj [(''plan'', JStr ''x'')]) = (Some out, tr)
      \<and> tr = pre @ notify_result sample_runtime \<lparr>cx_session = ''s'', cx_call = ''c''\<rparr> out)"
proof -
  let ?run = "runtime_execute sample_formats scope_root sample_runtime \<lparr>cx_session = ''s'', cx_call = ''c''\<rparr> (Some 3) ''plan'' (obj [(''plan'', JStr ''x'')])"
  have "fst ?run \<noteq> None" by code_simp
  then obtain out tr where "?run = (Some out, tr)" by (cases ?run) auto
  with execute_settles_once [OF sample_runtime_reachable, where scope = scope_root and cx = "\<lparr>cx_session = ''s'', cx_call = ''c''\<rparr>"
      and c = "Some 3" and name = "''plan''" and args = "obj [(''plan'', JStr ''x'')]"] sample_runtime_reachable show ?thesis by auto
qed

text \<open>C7: A handler runs only with authority. If a handler was called, then it is the handler of the
  requested tool with the arguments of the call, the arguments conform to the tool's schema, and the
  scope either allows the tool or asks first and the configured approval said yes to exactly this call.\<close>

theorem handler_runs_only_authorised:
  assumes "registry_ok fm st"
    and "runtime_execute fm scope st cx c name args = (r, tr)"
    and "RunHandler n cx' a \<in> set tr"
  shows "n = name \<and> cx' = cx \<and> a = args \<and>
    (\<exists>tool. map_of (rs_tools st) name = Some tool
       \<and> conforms (df_parameters (rt_definition tool)) args
       \<and> (scope_access scope name = Allow
          \<or> scope_access scope name = AskFirst
            \<and> (\<exists>approve. rs_approval st = Some approve
                 \<and> approve cx (definition_schema (rt_definition tool)) args = Some (Inr (Some True)))))"
  using assms(2)
proof (cases rule: execute_cases)
  case (refused pre out)
  with assms(3) show ?thesis by (auto simp: notify_result_def)
next
  case (stuck tool)
  with ask_approval_stuck [OF stuck(3)] assms(3) show ?thesis by simp
next
  case (panicked tool)
  with assms(3) show ?thesis by simp
next
  case (ran pre tool post)
  have "schema_ok (fm_debug fm) (df_parameters (rt_definition tool))"
    using assms(1) ran(1) by (auto simp: registry_ok_def validate_definition_def schema_ok_def split: if_splits)
  with ran(2) have "conforms (df_parameters (rt_definition tool)) args"
    using validate_instance_agrees by blast
  moreover from ran(3) have "RunHandler n cx' a \<notin> set pre"
    by (auto simp: ask_approval_def split: option.splits)
  moreover from ran(5) have "RunHandler n cx' a \<notin> set post"
    by (auto simp: after_handler_def notify_result_def split: option.splits)
  ultimately show ?thesis using assms(3) ran(1, 3, 4)
    by (auto simp: ask_approval_def split: option.splits)
qed

theorem handler_runs_only_authorised_witness:
  "\<exists>out tr. runtime_execute sample_formats scope_root sample_runtime
      \<lparr>cx_session = ''s'', cx_call = ''c''\<rparr> None ''plan'' (obj [(''plan'', JStr ''x'')]) = (Some out, tr)
    \<and> conforms sample_schema (obj [(''plan'', JStr ''x'')])"
proof -
  let ?cx = "\<lparr>cx_session = ''s'', cx_call = ''c''\<rparr>" and ?args = "obj [(''plan'', JStr ''x'')]"
  let ?out = "\<lparr>to_content = [Text ''done''], to_is_error = False, to_meta = JNull\<rparr>"
  have run: "runtime_execute sample_formats scope_root sample_runtime ?cx None ''plan'' ?args
      = (Some ?out, [RunHandler ''plan'' ?cx ?args])"
    by code_simp
  have "map_of (rs_tools sample_runtime) ''plan'' = Some \<lparr>rt_id = 1, rt_definition = sample_tool\<rparr>"
    by (simp add: sample_runtime_def insert_tool_def runtime_new_def sample_tool_def)
  with handler_runs_only_authorised [OF registry_reachable_ok [OF sample_runtime_reachable] run,
      of "''plan''" ?cx ?args] run
  show ?thesis by (auto simp: sample_tool_def)
qed

text \<open>Replacing tools is all or nothing and touches only what it owns. After a successful replacement
  every replacement definition is registered, the registrations that were named and still current are
  gone, and every other tool is exactly as before.\<close>

theorem replace_exact:
  assumes "runtime_replace fm st prior ds = Inr (rs, st', tr)"
  shows "map_option rt_definition (map_of (rs_tools st') n) =
      (case find_first (\<lambda>d. df_name d = n) ds of
         Some d \<Rightarrow> Some d
       | None \<Rightarrow> if list_ex (\<lambda>r. rg_name r = n \<and> current_registration st r) prior then None
                 else map_option rt_definition (map_of (rs_tools st) n))
    \<and> map rg_name rs = sort (map df_name ds)"
proof -
  from assms obtain removed cs where
    c: "check_definitions fm [] ds = Inr ()" and
    rem: "set removed = rg_name ` {r \<in> set prior. current_registration st r}" and
    ins: "insert_all (sort_key df_name ds)
       (st\<lparr>rs_tools := foldl (\<lambda>ts n. bt_remove n ts) (rs_tools st) removed\<rparr>) = (rs, cs, st')"
    by (rule runtime_replace_Inr)
  have dist: "distinct (map df_name ds)" using check_definitions_Inr [OF c] by simp
  then have "distinct (map df_name (sort_key df_name ds))" by (simp add: distinct_map)
  note tools = insert_all_tools [OF ins this]
  have "map df_name (sort_key df_name ds) = sort (map df_name ds)"
    using dist by (intro sorted_distinct_set_unique) (simp_all add: distinct_map)
  moreover have "(n \<in> set removed) = list_ex (\<lambda>r. rg_name r = n \<and> current_registration st r) prior"
    using rem by (auto simp: list_ex_iff)
  ultimately show ?thesis
    using tools [of n]
    by (cases "find_first (\<lambda>d. df_name d = n) ds") 
      (simp_all add: find_first_sort [OF dist] remove_all del: find_first_None)
qed

theorem replace_exact_witness:
  "\<exists>rs st' tr. runtime_replace sample_formats sample_runtime
       [\<lparr>rg_name = ''plan'', rg_id = 1, rg_closed = False\<rparr>] [sample_tool\<lparr>df_name := ''todo''\<rparr>] = Inr (rs, st', tr)
     \<and> map_of (rs_tools st') ''plan'' = None \<and> map rg_name rs = [''todo'']"
proof -
  let ?run = "runtime_replace sample_formats sample_runtime
       [\<lparr>rg_name = ''plan'', rg_id = 1, rg_closed = False\<rparr>] [sample_tool\<lparr>df_name := ''todo''\<rparr>]"
  have "is_ok ?run" by code_simp
  then obtain rs st' tr where run: "?run = Inr (rs, st', tr)" by (auto simp: is_ok_ex)
  have "current_registration sample_runtime \<lparr>rg_name = ''plan'', rg_id = 1, rg_closed = False\<rparr>" by code_simp
  with replace_exact [OF run, of "''plan''"] run show ?thesis
    by (simp add: find_first_def sample_tool_def)
qed

text \<open>A handle closes only its own registration, and only once: a handle whose tool was replaced or
  removed in the meantime changes nothing, every other tool is untouched, and closing again does nothing.\<close>

theorem close_only_own:
  "case registration_close alive st r of (b, r', st', tr) \<Rightarrow>
     b = (alive \<and> \<not> rg_closed r \<and> current_registration st r)
     \<and> map_of (rs_tools st') = (if b then (map_of (rs_tools st))(rg_name r := None) else map_of (rs_tools st))
     \<and> (b \<or> tr = []) \<and> rg_closed r'
     \<and> registration_close alive' st'' r' = (False, r', st'', [])"
  by (auto simp: registration_close_def Let_def)

end
