(* ===== verification/Planning.thy ===== *)
theory Planning
  imports Durable_Fold Tool_Runtime Session_Store
begin

text \<open>
  Plan mode and the whole-list todo snapshot (\<open>src/src/planning.rs\<close>): the folds that project them from
  the log, the service operations that append to it, and the two model tools. The decoders and
  encoders serde derives for the payloads are the fields of \<open>planning_codec\<close>; what the service relies on is
  the contract \<open>planning_payloads\<close>, interpreted by the wire format. The agent a service belongs to is
  seen through its id and whether it is disposed.
\<close>

section \<open>Data\<close>

datatype plan_mode = Normal | Plan

definition plan_active :: "plan_mode \<Rightarrow> bool" where
  "plan_active m \<longleftrightarrow> m = Plan"

datatype planning_error =
    NotLive | PlanningCancelled | TooManyTodos | TodoTooLong | InvalidTodo | InvalidReplay
  | NotInPlanMode | InvalidPlan | SessionFailed session_error

fun planning_error_code :: "planning_error \<Rightarrow> string" where
  "planning_error_code NotLive = ''PLAN_NOT_LIVE''"
| "planning_error_code PlanningCancelled = ''CANCELLED''"
| "planning_error_code TooManyTodos = ''INVALID_TODO_SNAPSHOT''"
| "planning_error_code TodoTooLong = ''INVALID_TODO_SNAPSHOT''"
| "planning_error_code InvalidTodo = ''INVALID_TODO_SNAPSHOT''"
| "planning_error_code InvalidReplay = ''INVALID_PLAN_REPLAY''"
| "planning_error_code NotInPlanMode = ''PLAN_MODE_INACTIVE''"
| "planning_error_code InvalidPlan = ''INVALID_PLAN''"
| "planning_error_code (SessionFailed _) = ''PLAN_EVENT_APPEND_FAILED''"

text \<open>\<open>show\<close> renders a session error.\<close>

fun planning_error_text :: "(session_error \<Rightarrow> string) \<Rightarrow> planning_error \<Rightarrow> string" where
  "planning_error_text show NotLive = ''planning service is not owned by its live agent''"
| "planning_error_text show PlanningCancelled = ''planning operation was cancelled''"
| "planning_error_text show TooManyTodos = ''todo snapshot has more than 256 items''"
| "planning_error_text show TodoTooLong = ''todo content exceeds 4096 bytes''"
| "planning_error_text show InvalidTodo = ''todo content must be a unique non-empty string''"
| "planning_error_text show InvalidReplay = ''durable planning payload is invalid''"
| "planning_error_text show NotInPlanMode = ''exit_plan_mode is only available in plan mode''"
| "planning_error_text show InvalidPlan =
     ''exit_plan_mode requires a non-empty markdown plan starting with a # heading''"
| "planning_error_text show (SessionFailed e) = show e"

definition planning_tool_error :: "(session_error \<Rightarrow> string) \<Rightarrow> planning_error \<Rightarrow> tessivum_error" where
  "planning_tool_error show e =
     tessivum_error_new (planning_error_code e) (planning_error_text show e) ''planning'' JNull"

record planning_codec =
  pc_mode_from :: "json \<Rightarrow> bool option"
  pc_mode_to :: "bool \<Rightarrow> json"
  pc_todos_from :: "json \<Rightarrow> todo_item list option"
  pc_todos_to :: "todo_item list \<Rightarrow> json"
  pc_plan_from :: "json \<Rightarrow> string option"
  pc_output :: "todo_item list \<Rightarrow> nat \<times> nat \<times> nat \<Rightarrow> string"

section \<open>Todos and headings\<close>

fun normalize_from :: "string list \<Rightarrow> todo_item list \<Rightarrow> planning_error + todo_item list" where
  "normalize_from seen [] = Inr []"
| "normalize_from seen (t # ts) =
     (let content = trim (td_content t); t' = t\<lparr>td_content := content\<rparr>
      in if content = [] \<or> length content > 4096 \<or> content \<in> set seen
         then Inl (if length content > 4096 then TodoTooLong else InvalidTodo)
         else
           and_then (map_err (\<lambda>_. InvalidTodo) (todo_item_validate t')) (\<lambda>_.
           and_then (normalize_from (content # seen) ts) (\<lambda>ts'. Inr (t' # ts'))))"

definition normalize_todos :: "todo_item list \<Rightarrow> planning_error + todo_item list" where
  "normalize_todos todos =
     (if length todos > 256 then Inl TooManyTodos else normalize_from [] todos)"

definition has_plan_heading :: "string \<Rightarrow> bool" where
  "has_plan_heading plan =
     (case trim plan of
        [] \<Rightarrow> False
      | c # line \<Rightarrow>
          c = CHR ''#''
          \<and> (case strip_one white_space line of None \<Rightarrow> False | Some title \<Rightarrow> trim title \<noteq> []))"

definition todo_counts :: "todo_item list \<Rightarrow> nat \<times> nat \<times> nat" where
  "todo_counts todos =
     foldl (\<lambda>(p, i, c) t. case td_status t of
              Pending \<Rightarrow> (p + 1, i, c) | InProgress \<Rightarrow> (p, i + 1, c) | Completed \<Rightarrow> (p, i, c + 1))
       (0, 0, 0) todos"

section \<open>Folds\<close>

definition plan_mode_step ::
  "planning_codec \<Rightarrow> plan_mode \<Rightarrow> session_event \<Rightarrow> planning_error + plan_mode" where
  "plan_mode_step pc mode e =
     (if ev_type e = ''plan/mode'' then
        and_then (ok_or InvalidReplay (pc_mode_from pc (ev_data e))) (\<lambda>active.
        Inr (if active then Plan else Normal))
      else Inr mode)"

definition fold_plan_mode :: "planning_codec \<Rightarrow> session_event list \<Rightarrow> planning_error + plan_mode" where
  "fold_plan_mode pc events = try_fold (plan_mode_step pc) Normal events"

definition todos_step ::
  "planning_codec \<Rightarrow> todo_item list option \<Rightarrow> session_event \<Rightarrow> planning_error + todo_item list option" where
  "todos_step pc todos e =
     (if ev_type e = ''todo/write'' then
        and_then (ok_or InvalidReplay (pc_todos_from pc (ev_data e))) (\<lambda>written.
        and_then (normalize_todos written) (\<lambda>ts. Inr (Some ts)))
      else if ev_type e = ''turn/start'' then Inr None
      else Inr todos)"

definition fold_todos ::
  "planning_codec \<Rightarrow> session_event list \<Rightarrow> planning_error + todo_item list option" where
  "fold_todos pc events = try_fold (todos_step pc) None events"

section \<open>The service\<close>

record planning_agent =
  pa_id :: string
  pa_disposed :: bool

type_synonym ('p, 'a) planning_io = "cancel \<times> 'p \<Rightarrow> (planning_error + 'a) \<times> cancel \<times> 'p"

definition require_live :: "planning_agent \<Rightarrow> session \<Rightarrow> planning_error + unit" where
  "require_live ag s = ensure (\<not> pa_disposed ag \<and> pa_id ag = session_id s) NotLive"

definition planning_new :: "planning_codec \<Rightarrow> planning_agent \<Rightarrow> session \<Rightarrow> planning_error + unit" where
  "planning_new pc ag s =
     and_then (require_live ag s) (\<lambda>_.
     and_then (fold_plan_mode pc (session_events s)) (\<lambda>_.
     and_then (fold_todos pc (session_events s)) (\<lambda>_. Inr ())))"

definition planning_mode :: "planning_codec \<Rightarrow> session \<Rightarrow> plan_mode" where
  "planning_mode pc s =
     (case fold_plan_mode pc (session_events s) of Inl _ \<Rightarrow> Normal | Inr m \<Rightarrow> m)"

definition planning_todos :: "planning_codec \<Rightarrow> session \<Rightarrow> todo_item list" where
  "planning_todos pc s =
     (case fold_todos pc (session_events s) of Inr (Some ts) \<Rightarrow> ts | _ \<Rightarrow> [])"

definition planning_append ::
  "codec \<Rightarrow> 'p persistence \<Rightarrow> session \<Rightarrow> string \<Rightarrow> json \<Rightarrow> ('p, session) planning_io" where
  "planning_append cdc ops s event_type data w =
     (case io_bind (io_lift (next_seq (session_events s))) (\<lambda>n.
           session_append cdc ops s
             \<lparr>ev_type = event_type, ev_seq = n, ev_time = 0, ev_data = data, ev_ignorable = None,
              ev_sources = None, ev_surface_op = None\<rparr>) w of
        (r, w') \<Rightarrow> (map_err SessionFailed r, w'))"

definition planning_set_mode ::
  "planning_codec \<Rightarrow> codec \<Rightarrow> 'p persistence \<Rightarrow> planning_agent \<Rightarrow> session \<Rightarrow> plan_mode
     \<Rightarrow> ('p, session) planning_io" where
  "planning_set_mode pc cdc ops ag s mode w =
     (case require_live ag s of
        Inl e \<Rightarrow> (Inl e, w)
      | Inr _ \<Rightarrow>
          (case check_cancellation (fst w) of
             Inl _ \<Rightarrow> (Inl PlanningCancelled, w)
           | Inr c \<Rightarrow> planning_append cdc ops s ''plan/mode'' (pc_mode_to pc (plan_active mode)) (c, snd w)))"

definition planning_write_todos ::
  "planning_codec \<Rightarrow> codec \<Rightarrow> 'p persistence \<Rightarrow> planning_agent \<Rightarrow> session \<Rightarrow> todo_item list
     \<Rightarrow> ('p, todo_item list \<times> session) planning_io" where
  "planning_write_todos pc cdc ops ag s todos w =
     (case require_live ag s of
        Inl e \<Rightarrow> (Inl e, w)
      | Inr _ \<Rightarrow>
          (case check_cancellation (fst w) of
             Inl _ \<Rightarrow> (Inl PlanningCancelled, w)
           | Inr c \<Rightarrow>
               (case normalize_todos todos of
                  Inl e \<Rightarrow> (Inl e, c, snd w)
                | Inr ts \<Rightarrow>
                    (case planning_append cdc ops s ''todo/write'' (pc_todos_to pc ts) (c, snd w) of
                       (Inl e, w') \<Rightarrow> (Inl e, w')
                     | (Inr s', w') \<Rightarrow> (Inr (ts, s'), w')))))"

definition validate_exit_plan ::
  "planning_codec \<Rightarrow> planning_agent \<Rightarrow> session \<Rightarrow> string \<Rightarrow> planning_error + unit" where
  "validate_exit_plan pc ag s plan =
     and_then (require_live ag s) (\<lambda>_.
     and_then (ensure (plan_active (planning_mode pc s)) NotInPlanMode) (\<lambda>_.
     ensure (has_plan_heading plan) InvalidPlan))"

definition exit_plan_mode ::
  "planning_codec \<Rightarrow> codec \<Rightarrow> 'p persistence \<Rightarrow> planning_agent \<Rightarrow> session \<Rightarrow> string
     \<Rightarrow> ('p, session) planning_io" where
  "exit_plan_mode pc cdc ops ag s plan w =
     (case validate_exit_plan pc ag s plan of
        Inl e \<Rightarrow> (Inl e, w)
      | Inr _ \<Rightarrow> planning_set_mode pc cdc ops ag s Normal w)"

section \<open>The model tools\<close>

type_synonym planning_router = "(string \<times> planning_agent \<times> session) list"

definition router_insert :: "planning_agent \<Rightarrow> session \<Rightarrow> planning_router \<Rightarrow> planning_router" where
  "router_insert ag s router = bt_insert (pa_id ag) (ag, s) router"

definition router_remove :: "string \<Rightarrow> planning_router \<Rightarrow> planning_router" where
  "router_remove x router = bt_remove x router"

definition router_service :: "planning_router \<Rightarrow> string \<Rightarrow> planning_error + planning_agent \<times> session" where
  "router_service router x = ok_or NotLive (map_of router x)"

record question_option =
  qo_label :: string
  qo_description :: "string option"

record question_item =
  qi_id :: string
  qi_question :: string
  qi_detail :: "string option"
  qi_header :: "string option"
  qi_options :: "question_option list option"
  qi_multi_select :: "bool option"
  qi_intent_approve :: "string option"

record answer_item =
  an_id :: string
  an_selected :: "string list"
  an_custom :: "string option"

definition plan_review_question :: "string \<Rightarrow> question_item" where
  "plan_review_question plan =
     \<lparr>qi_id = ''plan-review'', qi_question = ''Approve this plan and leave plan mode?'',
      qi_detail = Some plan, qi_header = Some ''Plan review'',
      qi_options = Some
        [\<lparr>qo_label = ''Approve'', qo_description = Some ''Leave plan mode; carry out the plan from your next step.''\<rparr>,
         \<lparr>qo_label = ''Keep planning'', qo_description = Some ''Stay in plan mode; revise and present the plan again.''\<rparr>],
      qi_multi_select = None, qi_intent_approve = Some ''Approve''\<rparr>"

definition plan_approved :: "answer_item list \<Rightarrow> bool" where
  "plan_approved answers =
     (case answers of
        [a] \<Rightarrow> an_id a = ''plan-review'' \<and> an_selected a = [''Approve''] \<and> an_custom a = None
      | _ \<Rightarrow> False)"

text \<open>\<open>ask\<close> is the question registry of the host. The tool itself writes nothing: its output carries
  \<open>deferredPlanExit\<close>, on which the agent loop leaves plan mode after the turn.\<close>

definition exit_plan_mode_run ::
  "planning_codec \<Rightarrow> (session_error \<Rightarrow> string) \<Rightarrow> planning_router
     \<Rightarrow> (tool_run_context \<Rightarrow> question_item list \<Rightarrow> tessivum_error + answer_item list)
     \<Rightarrow> tool_run_context \<Rightarrow> json \<Rightarrow> tessivum_error + tool_output" where
  "exit_plan_mode_run pc show router ask cx args =
     and_then (ok_or (tessivum_error_new ''INVALID_PLAN'' ''exit_plan_mode tool input is invalid''
                  ''planning'' JNull) (pc_plan_from pc args)) (\<lambda>plan.
     and_then (map_err (planning_tool_error show) (router_service router (cx_session cx))) (\<lambda>(ag, s).
     and_then (map_err (planning_tool_error show) (validate_exit_plan pc ag s plan)) (\<lambda>_.
     and_then
       (map_err (\<lambda>e. if e_code e = ''ASK_CANCELLED''
            then tessivum_error_new ''PLAN_REVIEW_DISMISSED''
                   ''The user dismissed the plan review to speak instead; stay in plan mode and wait for their message.''
                   ''planning'' JNull
            else e) (ask cx [plan_review_question plan])) (\<lambda>answers.
     if \<not> plan_approved answers
     then Inl (tessivum_error_new ''PLAN_REVIEW_DECLINED''
                 ''The user chose to keep planning; revise the plan and present it again.'' ''planning'' JNull)
     else Inr \<lparr>to_content = [Text (''Plan approved '' @ map char_of [0xE2, 0x80, 0x94 :: nat]
                  @ '' plan mode exited; carry out the plan starting with your next step.'')],
               to_is_error = False, to_meta = obj [(''deferredPlanExit'', JBool True)]\<rparr>))))"

definition todo_write_run ::
  "planning_codec \<Rightarrow> (session_error \<Rightarrow> string) \<Rightarrow> codec \<Rightarrow> 'p persistence \<Rightarrow> planning_router
     \<Rightarrow> tool_run_context \<Rightarrow> json \<Rightarrow> cancel \<times> 'p \<Rightarrow> (tessivum_error + tool_output \<times> session) \<times> cancel \<times> 'p" where
  "todo_write_run pc show cdc ops router cx args w =
     (case pc_todos_from pc args of
        None \<Rightarrow> (Inl (tessivum_error_new ''INVALID_TODO_SNAPSHOT'' ''todo_write tool input is invalid''
                    ''planning'' JNull), w)
      | Some todos \<Rightarrow>
          (case router_service router (cx_session cx) of
             Inl e \<Rightarrow> (Inl (planning_tool_error show e), w)
           | Inr (ag, s) \<Rightarrow>
               (case planning_write_todos pc cdc ops ag s todos w of
                  (Inl e, w') \<Rightarrow> (Inl (planning_tool_error show e), w')
                | (Inr (ts, s'), w') \<Rightarrow>
                    (Inr (\<lparr>to_content = [Text (pc_output pc ts (todo_counts ts))], to_is_error = False,
                           to_meta = JNull\<rparr>, s'), w'))))"

section \<open>Normalisation\<close>

definition todos_normal :: "todo_item list \<Rightarrow> bool" where
  "todos_normal ts \<longleftrightarrow>
     length ts \<le> 256 \<and> distinct (map td_content ts)
     \<and> list_all (\<lambda>t. td_content t \<noteq> [] \<and> length (td_content t) \<le> 4096
                     \<and> trim (td_content t) = td_content t) ts"

lemma normalize_from_Inr:
  assumes "normalize_from seen ts = Inr ts'"
  shows "ts' = map (\<lambda>t. t\<lparr>td_content := trim (td_content t)\<rparr>) ts
    \<and> distinct (map td_content ts') \<and> set (map td_content ts') \<inter> set seen = {}
    \<and> list_all (\<lambda>t. td_content t \<noteq> [] \<and> length (td_content t) \<le> 4096
                     \<and> trim (td_content t) = td_content t) ts'
    \<and> normalize_from seen ts' = Inr ts'"
  using assms
proof (induction seen ts arbitrary: ts' rule: normalize_from.induct)
  case (2 seen t ts)
  let ?c = "trim (td_content t)"
  from "2.prems" obtain us where us: "normalize_from (?c # seen) ts = Inr us"
    and ts': "ts' = t\<lparr>td_content := ?c\<rparr> # us"
    and ok: "?c \<noteq> []" "length ?c \<le> 4096" "?c \<notin> set seen"
    by (auto simp: Let_def split: if_splits)
  have v: "map_err (\<lambda>_. InvalidTodo) (todo_item_validate (t\<lparr>td_content := ?c\<rparr>)) = Inr ()"
    using ok(1) by (simp add: todo_item_validate_def)
  have nok: "\<not> (?c = [] \<or> 4096 < length ?c \<or> ?c \<in> set seen)" using ok by simp
  note IH = "2.IH" [OF refl refl nok v us]
  have head: "ts' = map (\<lambda>t. t\<lparr>td_content := trim (td_content t)\<rparr>) (t # ts)"
    using IH ts' by simp
  have "distinct (map td_content us) \<and> set (map td_content us) \<inter> set (?c # seen) = {}
    \<and> normalize_from (?c # seen) us = Inr us
    \<and> list_all (\<lambda>t. td_content t \<noteq> [] \<and> length (td_content t) \<le> 4096
                     \<and> trim (td_content t) = td_content t) us"
    using IH by blast
  then show ?case
    unfolding head [symmetric] using ok v by (auto simp: ts' Let_def)
qed simp

lemma normalize_todos_Inr:
  assumes "normalize_todos ts = Inr ts'"
  shows "todos_normal ts'" "ts' = map (\<lambda>t. t\<lparr>td_content := trim (td_content t)\<rparr>) ts"
    "normalize_todos ts' = Inr ts'"
proof -
  from assms have n: "normalize_from [] ts = Inr ts'" "length ts \<le> 256"
    by (auto simp: normalize_todos_def split: if_splits)
  from normalize_from_Inr [OF n(1)] n(2)
  show "todos_normal ts'" "ts' = map (\<lambda>t. t\<lparr>td_content := trim (td_content t)\<rparr>) ts"
    "normalize_todos ts' = Inr ts'"
    by (auto simp: todos_normal_def normalize_todos_def)
qed

section \<open>The folds as durable projections\<close>

interpretation plan_mode_fold: whole_value_fold "plan_mode_step pc" "\<lambda>e. ev_type e = ''plan/mode''" for pc
  by unfold_locales (auto simp: plan_mode_step_def)

interpretation todos_fold: whole_value_fold "todos_step pc"
    "\<lambda>e. ev_type e = ''todo/write'' \<or> ev_type e = ''turn/start''" for pc
  by unfold_locales (auto simp: todos_step_def)

locale planning_payloads =
  fixes pc :: planning_codec
  assumes mode_roundtrip: "pc_mode_from pc (pc_mode_to pc b) = Some b"
    and todos_roundtrip: "pc_todos_from pc (pc_todos_to pc ts) = Some ts"
begin

lemma fold_mode_written:
  assumes "fold_plan_mode pc es = Inr m" and "ev_type e = ''plan/mode''"
    and "ev_data e = pc_mode_to pc (plan_active mode)"
  shows "fold_plan_mode pc (es @ [e]) = Inr mode"
  using assms
  by (cases mode) (simp_all add: fold_plan_mode_def plan_mode_fold.fold_snoc plan_mode_step_def
      mode_roundtrip plan_active_def)

lemma fold_todos_written:
  assumes "fold_todos pc es = Inr x" and "normalize_todos ts = Inr ts'"
    and "ev_type e = ''todo/write''" and "ev_data e = pc_todos_to pc ts'"
  shows "fold_todos pc (es @ [e]) = Inr (Some ts')"
  using assms normalize_todos_Inr(3) [OF assms(2)]
  by (simp add: fold_todos_def todos_fold.fold_snoc todos_step_def todos_roundtrip)

end

lemma planning_append_Inr:
  assumes "planning_append cdc ops s t d (c, p) = (Inr s', c', p')"
  obtains e where "session_events s' = session_events s @ [e]" "ev_type e = t" "ev_data e = d"
    "session_append cdc ops s e (c, p) = (Inr s', c', p')"
proof -
  from assms obtain n where run: "session_append cdc ops s
      \<lparr>ev_type = t, ev_seq = n, ev_time = 0, ev_data = d, ev_ignorable = None,
       ev_sources = None, ev_surface_op = None\<rparr> (c, p) = (Inr s', c', p')" (is "session_append _ _ _ ?e _ = _")
    by (auto simp: planning_append_def io_bind_Inr split: prod.splits)
  from run [unfolded session_append_def] obtain c1 where
    "append_under_gate cdc ops s ?e None (c1, p) = (Inr s', c', p')"
    by (auto elim: append_inner_cases)
  from append_under_gate_extends(2) [OF this] run show ?thesis by (intro that [of ?e]) simp_all
qed

section \<open>The wire format of the payloads\<close>

text \<open>What the derived decoders accept: an object with the declared fields, the positional array form,
  and for a unit variant its name or the one-entry object. \<open>render\<close> is \<open>serde_json::to_string\<close> of
  the tool output.\<close>

fun enc_status :: "todo_status \<Rightarrow> string" where
  "enc_status Pending = ''pending''"
| "enc_status InProgress = ''in_progress''"
| "enc_status Completed = ''completed''"

definition status_of :: "string \<Rightarrow> todo_status option" where
  "status_of s = find_first (\<lambda>x. enc_status x = s) [Pending, InProgress, Completed]"

fun dec_status :: "json \<Rightarrow> todo_status option" where
  "dec_status (JStr s) = status_of s"
| "dec_status (JObj [(k, JNull)]) = status_of k"
| "dec_status _ = None"

definition todo_of :: "json option \<Rightarrow> json option \<Rightarrow> todo_item option" where
  "todo_of content status =
     Option.bind (Option.bind content as_str) (\<lambda>c.
     map_option (\<lambda>st. \<lparr>td_content = c, td_status = st\<rparr>) (Option.bind status dec_status))"

fun dec_todo :: "json \<Rightarrow> todo_item option" where
  "dec_todo (JObj kvs) = todo_of (map_of kvs ''content'') (map_of kvs ''status'')"
| "dec_todo (JArr [c, st]) = todo_of (Some c) (Some st)"
| "dec_todo _ = None"

definition enc_todo :: "todo_item \<Rightarrow> json" where
  "enc_todo t = JObj [(''content'', JStr (td_content t)), (''status'', JStr (enc_status (td_status t)))]"

fun sole_field :: "string \<Rightarrow> json \<Rightarrow> json option" where
  "sole_field name (JObj [(k, v)]) = (if k = name then Some v else None)"
| "sole_field name (JArr [v]) = Some v"
| "sole_field name _ = None"

definition wire_planning ::
  "(todo_item list \<Rightarrow> nat \<times> nat \<times> nat \<Rightarrow> string) \<Rightarrow> planning_codec" where
  "wire_planning render =
     \<lparr>pc_mode_from = (\<lambda>v. Option.bind (sole_field ''active'' v) as_bool),
      pc_mode_to = (\<lambda>b. JObj [(''active'', JBool b)]),
      pc_todos_from = (\<lambda>v. Option.bind (Option.bind (sole_field ''todos'' v) as_array)
                              (\<lambda>xs. those (map dec_todo xs))),
      pc_todos_to = (\<lambda>ts. JObj [(''todos'', JArr (map enc_todo ts))]),
      pc_plan_from = (\<lambda>v. Option.bind (sole_field ''plan'' v) as_str),
      pc_output = render\<rparr>"

lemma dec_enc_todo: "dec_todo (enc_todo t) = Some t"
  by (cases "td_status t") (simp_all add: enc_todo_def todo_of_def status_of_def find_first_def)

interpretation wire_planning: planning_payloads "wire_planning render" for render
proof
  show "pc_mode_from (wire_planning render) (pc_mode_to (wire_planning render) b) = Some b" for b
    by (simp add: wire_planning_def)
  show "pc_todos_from (wire_planning render) (pc_todos_to (wire_planning render) ts) = Some ts" for ts
    using those_map_Some [of ts dec_todo enc_todo]
    by (simp add: wire_planning_def dec_enc_todo del: map_map)
qed

section \<open>Properties\<close>

text \<open>What is written is what is read. A successful todo write returns the normalised list (trimmed,
  distinct, non-empty, at most 4096 bytes each and 256 in all, with the given statuses), appends exactly one
  event, and the todo list read back from the log is that list.\<close>

theorem written_todos_are_read:
  assumes "planning_payloads pc" and "fold_todos pc (session_events s) = Inr before"
    and "planning_write_todos pc cdc ops ag s todos (c, p) = (Inr (ts, s'), c', p')"
  shows "planning_todos pc s' = ts \<and> todos_normal ts
    \<and> ts = map (\<lambda>t. t\<lparr>td_content := trim (td_content t)\<rparr>) todos
    \<and> (\<exists>e. session_events s' = session_events s @ [e])"
proof -
  from assms(3) obtain c1 where n: "normalize_todos todos = Inr ts"
    and ap: "planning_append cdc ops s ''todo/write'' (pc_todos_to pc ts) (c1, p) = (Inr s', c', p')"
    by (auto simp: planning_write_todos_def split: sum.splits prod.splits)
  from ap obtain e where e: "session_events s' = session_events s @ [e]" "ev_type e = ''todo/write''"
    "ev_data e = pc_todos_to pc ts"
    by (rule planning_append_Inr)
  from planning_payloads.fold_todos_written [OF assms(1,2) n e(2,3)] e(1)
  have "planning_todos pc s' = ts" by (simp add: planning_todos_def)
  with normalize_todos_Inr [OF n] e(1) show ?thesis by blast
qed

definition sample_todos :: "todo_item list" where
  "sample_todos = [\<lparr>td_content = '' a '', td_status = Pending\<rparr>, \<lparr>td_content = ''b'', td_status = Completed\<rparr>]"

definition planning_header :: session_header where
  "planning_header =
     \<lparr>hd_version = 0, hd_id = ''s1'', hd_created_at = 1, hd_cwd = None, hd_parent_session = None,
      hd_seed_length = None, hd_origin = None, hd_delegation_depth = None, hd_agent_mode = None\<rparr>"

definition planning_memory :: memory where
  "planning_memory = [(''s1'', \<lparr>ms_header = planning_header, ms_events = [], ms_flush_count = 0\<rparr>)]"

definition planning_session :: session where
  "planning_session =
     \<lparr>ss_header = planning_header, ss_state = initial_state planning_header, ss_updates = []\<rparr>"

definition planning_owner :: planning_agent where
  "planning_owner = \<lparr>pa_id = ''s1'', pa_disposed = False\<rparr>"

theorem written_todos_are_read_witness:
  "\<exists>ts s' c' p'. planning_write_todos (wire_planning (\<lambda>_ _. [])) wire_codec
       (memory_persistence wire_codec) planning_owner planning_session sample_todos (None, planning_memory)
       = (Inr (ts, s'), c', p')
     \<and> planning_todos (wire_planning (\<lambda>_ _. [])) s' = ts \<and> todos_normal ts"
proof -
  let ?pc = "wire_planning (\<lambda>_ _. [])"
  let ?run = "planning_write_todos ?pc wire_codec
       (memory_persistence wire_codec) planning_owner planning_session sample_todos (None, planning_memory)"
  have "is_ok (fst ?run)" by code_simp
  then obtain ts s' c' p' where run: "?run = (Inr (ts, s'), c', p')"
    by (metis is_ok_ex prod.exhaust_sel)
  have "fold_todos ?pc (session_events planning_session) = Inr None" by code_simp
  from written_todos_are_read [OF wire_planning.planning_payloads_axioms this run] run show ?thesis
    by blast
qed

text \<open>The todo list belongs to its turn: once a later turn has started, no todo list stands, whatever
  was written before.\<close>

theorem todos_retire_at_turn_start:
  assumes "fold_todos pc es = Inr before" and "ev_type e = ''turn/start''"
  shows "fold_todos pc (es @ [e]) = Inr None"
  using assms by (simp add: fold_todos_def todos_fold.fold_snoc todos_step_def)

theorem todos_retire_at_turn_start_witness:
  "fold_todos (wire_planning (\<lambda>_ _. [])) ([] @ [\<lparr>ev_type = ''turn/start'', ev_seq = 0, ev_time = 0,
     ev_data = JNull, ev_ignorable = None, ev_sources = None, ev_surface_op = None\<rparr>]) = Inr None"
  by (rule todos_retire_at_turn_start [of _ _ None]) (simp_all add: fold_todos_def)

text \<open>Plan mode is left only from plan mode and with a plan. When \<open>exit_plan_mode\<close> returns, the session
  was in plan mode, the plan starts with a titled heading, and the mode read from the new log is normal.\<close>

theorem exit_plan_mode_guarded:
  assumes "planning_payloads pc" and "fold_plan_mode pc (session_events s) = Inr mode"
    and "exit_plan_mode pc cdc ops ag s plan (c, p) = (Inr s', c', p')"
  shows "mode = Plan \<and> has_plan_heading plan \<and> planning_mode pc s' = Normal
    \<and> \<not> pa_disposed ag \<and> pa_id ag = session_id s"
proof -
  from assms(3) have v: "validate_exit_plan pc ag s plan = Inr ()"
    and run: "planning_set_mode pc cdc ops ag s Normal (c, p) = (Inr s', c', p')"
    by (auto simp: exit_plan_mode_def split: sum.splits)
  from run obtain c1 where
    "planning_append cdc ops s ''plan/mode'' (pc_mode_to pc (plan_active Normal)) (c1, p) = (Inr s', c', p')"
    by (auto simp: planning_set_mode_def split: sum.splits)
  then obtain e where e: "session_events s' = session_events s @ [e]" "ev_type e = ''plan/mode''"
    "ev_data e = pc_mode_to pc (plan_active Normal)"
    by (rule planning_append_Inr)
  from planning_payloads.fold_mode_written [OF assms(1,2) e(2,3)] e(1) v assms(2) show ?thesis
    by (auto simp: planning_mode_def validate_exit_plan_def require_live_def plan_active_def)
qed

definition plan_started :: "(planning_error + session) \<times> cancel \<times> memory" where
  "plan_started =
     planning_set_mode (wire_planning (\<lambda>_ _. [])) wire_codec (memory_persistence wire_codec)
       planning_owner planning_session Plan (None, planning_memory)"

theorem exit_plan_mode_guarded_witness:
  "\<exists>s' c' p'. exit_plan_mode (wire_planning (\<lambda>_ _. [])) wire_codec (memory_persistence wire_codec)
       planning_owner (projr (fst plan_started)) ''# Plan'' (snd plan_started) = (Inr s', c', p')
     \<and> planning_mode (wire_planning (\<lambda>_ _. [])) s' = Normal"
proof -
  let ?pc = "wire_planning (\<lambda>_ _. [])" and ?s = "projr (fst plan_started)"
  let ?run = "exit_plan_mode ?pc wire_codec (memory_persistence wire_codec) planning_owner ?s ''# Plan''
      (snd plan_started)"
  have "is_ok (fst ?run)" by code_simp
  then obtain s' c' p' where run: "?run = (Inr s', c', p')" by (metis is_ok_ex prod.exhaust_sel)
  have "fold_plan_mode ?pc (session_events ?s) = Inr Plan" by code_simp
  moreover obtain c p where cp: "snd plan_started = (c, p)" by fastforce
  ultimately show ?thesis
    using exit_plan_mode_guarded [OF wire_planning.planning_payloads_axioms _ run [unfolded cp]] run
    by blast
qed

end
