(* ===== verification/Calendar.thy ===== *)
theory Calendar
  imports Prelude
begin

text \<open>
  The UTC calendar of the schedule tools (the last part of \<open>src/src/schedule.rs\<close>): civil dates from and to
  day numbers, and instants from and to their fixed-width RFC 3339 form. The reference is the Gregorian
  calendar stated day by day (\<open>leap\<close>, \<open>days_in_month\<close>, \<open>next_day\<close>), and the
  closed-form conversions are shown to agree with it on every day number. The sources compute in
  \<open>i64\<close>; for the years 1 to 9999 every intermediate value is below \<open>2 ^ 49\<close>, so plain integers
  agree with them.
\<close>

section \<open>Definitions\<close>

definition MIN_INSTANT_MS :: i64 where
  "MIN_INSTANT_MS = -62135596800000"

definition MAX_INSTANT_MS :: i64 where
  "MAX_INSTANT_MS = 253402300799999"

record calendar =
  cal_year :: i64
  cal_month :: i64
  cal_day :: i64
  cal_hour :: i64
  cal_minute :: i64
  cal_second :: i64
  cal_millis :: i64

definition is_ascii_digit :: "char \<Rightarrow> bool" where
  "is_ascii_digit c \<longleftrightarrow> 48 \<le> (of_char c :: nat) \<and> (of_char c :: nat) \<le> 57"

fun digits_from :: "i64 \<Rightarrow> string \<Rightarrow> i64 option" where
  "digits_from acc [] = Some acc"
| "digits_from acc (c # cs) =
     (if is_ascii_digit c then digits_from (acc * 10 + (int (of_char c) - 48)) cs else None)"

definition digits :: "string \<Rightarrow> i64 option" where
  "digits bytes = digits_from 0 bytes"

definition days_from_civil :: "i64 \<Rightarrow> i64 \<Rightarrow> i64 \<Rightarrow> i64" where
  "days_from_civil y month day =
     (let year = y - (if month \<le> 2 then 1 else 0);
          era = rust_div (if year \<ge> 0 then year else year - 399) 400;
          year_of_era = year - era * 400;
          day_of_year = rust_div (153 * (month + (if month > 2 then -3 else 9)) + 2) 5 + day - 1
      in era * 146097 + year_of_era * 365 + rust_div year_of_era 4 - rust_div year_of_era 100
           + day_of_year - 719468)"

definition civil_from_days :: "i64 \<Rightarrow> i64 \<times> i64 \<times> i64" where
  "civil_from_days n =
     (let days = n + 719468;
          era = rust_div (if days \<ge> 0 then days else days - 146096) 146097;
          day_of_era = days - era * 146097;
          year_of_era = rust_div (day_of_era - rust_div day_of_era 1460 + rust_div day_of_era 36524
                                    - rust_div day_of_era 146096) 365;
          year = year_of_era + era * 400;
          day_of_year = day_of_era
            - (365 * year_of_era + rust_div year_of_era 4 - rust_div year_of_era 100);
          month_prime = rust_div (5 * day_of_year + 2) 153;
          day = day_of_year - rust_div (153 * month_prime + 2) 5 + 1;
          month = month_prime + (if month_prime < 10 then 3 else -9)
      in (year + (if month \<le> 2 then 1 else 0), month, day))"

definition calendar_millis :: "calendar \<Rightarrow> i64 option" where
  "calendar_millis f =
     (if \<not> (1 \<le> cal_year f \<and> cal_year f \<le> 9999) \<or> \<not> (1 \<le> cal_month f \<and> cal_month f \<le> 12)
         \<or> \<not> (0 \<le> cal_hour f \<and> cal_hour f \<le> 23) \<or> \<not> (0 \<le> cal_minute f \<and> cal_minute f \<le> 59)
         \<or> \<not> (0 \<le> cal_second f \<and> cal_second f \<le> 59) \<or> \<not> (0 \<le> cal_millis f \<and> cal_millis f \<le> 999)
      then None
      else
        let days = days_from_civil (cal_year f) (cal_month f) (cal_day f)
        in Option.bind (checked_mul_i64 days 86400000) (\<lambda>start.
           Option.bind
             (checked_add_i64 start (cal_hour f * 3600000 + cal_minute f * 60000
                + cal_second f * 1000 + cal_millis f)) (\<lambda>millis.
           if civil_from_days days = (cal_year f, cal_month f, cal_day f)
              \<and> MIN_INSTANT_MS \<le> millis \<and> millis \<le> MAX_INSTANT_MS
           then Some millis else None)))"

text \<open>\<open>{n:0w}\<close> of a non-negative number: its decimal digits, filled with zeros on the left.\<close>

definition pad :: "nat \<Rightarrow> i64 \<Rightarrow> string" where
  "pad w n = (let s = show_nat (nat n) in replicate (w - length s) CHR ''0'' @ s)"

text \<open>\<open>day\<close> is a remainder, so \<open>/\<close> and \<open>%\<close> are \<open>div\<close> and \<open>mod\<close> here.\<close>

definition format_instant :: "i64 \<Rightarrow> string option" where
  "format_instant millis =
     (if \<not> (MIN_INSTANT_MS \<le> millis \<and> millis \<le> MAX_INSTANT_MS) then None
      else
        let days = millis div 86400000;
            day = millis mod 86400000
        in case civil_from_days days of (year, month, date) \<Rightarrow>
             Some (pad 4 year @ ''-'' @ pad 2 month @ ''-'' @ pad 2 date @ ''T''
                   @ pad 2 (day div 3600000) @ '':'' @ pad 2 (day div 60000 mod 60) @ '':''
                   @ pad 2 (day div 1000 mod 60) @ ''.'' @ pad 3 (day mod 1000) @ ''Z''))"

definition slice :: "nat \<Rightarrow> nat \<Rightarrow> string \<Rightarrow> string" where
  "slice i j s = take (j - i) (drop i s)"

definition parse_instant :: "string \<Rightarrow> i64 option" where
  "parse_instant s =
     (if length s \<noteq> 24 \<or> s ! 4 \<noteq> CHR ''-'' \<or> s ! 7 \<noteq> CHR ''-'' \<or> s ! 10 \<noteq> CHR ''T''
         \<or> s ! 13 \<noteq> CHR '':'' \<or> s ! 16 \<noteq> CHR '':'' \<or> s ! 19 \<noteq> CHR ''.'' \<or> s ! 23 \<noteq> CHR ''Z''
      then None
      else
        Option.bind (digits (slice 0 4 s)) (\<lambda>year.
        Option.bind (digits (slice 5 7 s)) (\<lambda>month.
        Option.bind (digits (slice 8 10 s)) (\<lambda>day.
        Option.bind (digits (slice 11 13 s)) (\<lambda>hour.
        Option.bind (digits (slice 14 16 s)) (\<lambda>minute.
        Option.bind (digits (slice 17 19 s)) (\<lambda>second.
        Option.bind (digits (slice 20 23 s)) (\<lambda>ms.
        Option.bind
          (calendar_millis \<lparr>cal_year = year, cal_month = month, cal_day = day, cal_hour = hour,
             cal_minute = minute, cal_second = second, cal_millis = ms\<rparr>) (\<lambda>millis.
        if format_instant millis = Some s then Some millis else None)))))))))"

section \<open>The Gregorian calendar\<close>

definition leap :: "i64 \<Rightarrow> bool" where
  "leap y \<longleftrightarrow> 4 dvd y \<and> (\<not> 100 dvd y \<or> 400 dvd y)"

definition days_in_month :: "i64 \<Rightarrow> i64 \<Rightarrow> i64" where
  "days_in_month y m =
     (if m = 2 then (if leap y then 29 else 28)
      else if m = 4 \<or> m = 6 \<or> m = 9 \<or> m = 11 then 30 else 31)"

fun real_date :: "i64 \<times> i64 \<times> i64 \<Rightarrow> bool" where
  "real_date (y, m, d) \<longleftrightarrow> 1 \<le> m \<and> m \<le> 12 \<and> 1 \<le> d \<and> d \<le> days_in_month y m"

fun next_day :: "i64 \<times> i64 \<times> i64 \<Rightarrow> i64 \<times> i64 \<times> i64" where
  "next_day (y, m, d) =
     (if d < days_in_month y m then (y, m, d + 1)
      else if m < 12 then (y, m + 1, 1)
      else (y + 1, 1, 1))"

section \<open>Years and days of an era\<close>

lemma floor_by_rust_div:
  assumes "0 < d" and "e = d - 1"
  shows "rust_div (if 0 \<le> n then n else n - e) d = n div d"
proof (cases "0 \<le> n")
  case False
  define q r where "q = n div d" and "r = n mod d"
  then have n: "n = d * q + r" and r: "0 \<le> r" "r < d" using assms(1) by simp_all
  have "(d - 1 - n) div d = (d * (- q) + (d - 1 - r)) div d" using n by (simp add: algebra_simps)
  also have "\<dots> = - q" using r assms by (subst div_mult_self4) (auto simp: div_pos_pos_trivial)
  finally show ?thesis using False assms by (simp add: rust_div_def q_def)
qed (use assms in simp)

text \<open>A year of the era (starting in March) is \<open>100 a + 4 b + c\<close>; it has 366 days when February of the
  following civil year has 29.\<close>

definition year_len :: "i64 \<Rightarrow> i64" where
  "year_len y = (if leap (y + 1) then 366 else 365)"

definition year_start :: "i64 \<Rightarrow> i64" where
  "year_start y = y * 365 + y div 4 - y div 100"

lemma dvd_in_first_period:
  assumes "0 < t" "t \<le> (n :: int)"
  shows "n dvd n * k + t \<longleftrightarrow> t = n"
  using assms by (auto simp: dvd_add_right_iff dest: zdvd_imp_le)

lemma year_len_parts:
  assumes "0 \<le> a" "a \<le> 3" "0 \<le> b" "b \<le> 24" "0 \<le> c" "c \<le> 3"
  shows "year_len (100 * a + 4 * b + c) = (if c = 3 \<and> (b < 24 \<or> a = 3) then 366 else 365)"
proof -
  have "(4 dvd 4 * (25 * a + b) + (c + 1)) = (c + 1 = 4)" using assms by (intro dvd_in_first_period) auto
  then have "(4 dvd 100 * a + 4 * b + c + 1) = (c = 3)" by (simp add: algebra_simps)
  moreover have "(100 dvd 100 * a + (4 * b + 4)) = (4 * b + 4 = 100)"
    using assms by (intro dvd_in_first_period) auto
  then have "c = 3 \<Longrightarrow> (100 dvd 100 * a + 4 * b + c + 1) = (b = 24)" by (simp add: algebra_simps)
  moreover have "(400 dvd 400 * 0 + (100 * a + 100)) = (100 * a + 100 = 400)"
    using assms by (intro dvd_in_first_period) auto
  then have "c = 3 \<Longrightarrow> b = 24 \<Longrightarrow> (400 dvd 100 * a + 4 * b + c + 1) = (a = 3)" by (simp add: algebra_simps)
  ultimately show ?thesis using assms by (auto simp: year_len_def leap_def)
qed

lemma year_start_parts:
  assumes "0 \<le> a" "a \<le> 3" "0 \<le> b" "b \<le> 24" "0 \<le> c" "c \<le> 3"
  shows "year_start (100 * a + 4 * b + c) = 36524 * a + 1461 * b + 365 * c"
proof -
  have "(100 * a + 4 * b + c) div 4 = 25 * a + b"
    by (rule int_div_pos_eq [where r = c]) (use assms in auto)
  moreover have "(100 * a + 4 * b + c) div 100 = a"
    by (rule int_div_pos_eq [where r = "4 * b + c"]) (use assms in auto)
  ultimately show ?thesis by (simp add: year_start_def)
qed

lemma year_of_era_parts:
  assumes "0 \<le> y" "y \<le> 399"
  obtains a b c :: i64 where "y = 100 * a + 4 * b + c" "0 \<le> a" "a \<le> 3" "0 \<le> b" "b \<le> 24" "0 \<le> c" "c \<le> 3"
proof (rule that)
  show "y = 100 * (y div 100) + 4 * (y mod 100 div 4) + y mod 100 mod 4" by simp
  have y: "0 \<le> y mod 100" "y mod 100 < 100" by simp_all
  then have "y mod 100 div 4 < 25" by (simp add: div_less_iff_less_mult)
  then show "y mod 100 div 4 \<le> 24" by simp
  show "0 \<le> y mod 100 div 4" using y by simp
  have "y div 100 < 4" using assms by (simp add: div_less_iff_less_mult)
  then show "y div 100 \<le> 3" by simp
  have "y mod 100 mod 4 < 4" by simp
  then show "y mod 100 mod 4 \<le> 3" by simp
qed (use assms in simp_all)

text \<open>The quotient formula finds the year of a day of the era.\<close>

lemma year_of_day_of_era:
  assumes "0 \<le> y" "y \<le> 399" "0 \<le> doy" "doy < year_len y"
  defines "doe \<equiv> year_start y + doy"
  shows "(doe - doe div 1460 + doe div 36524 - doe div 146096) div 365 = y"
    and "0 \<le> doe" and "doe \<le> 146096"
proof -
  obtain a b c :: i64 where y: "y = 100 * a + 4 * b + c"
    and abc: "0 \<le> a" "a \<le> 3" "0 \<le> b" "b \<le> 24" "0 \<le> c" "c \<le> 3"
    using year_of_era_parts [OF assms(1,2)] .
  have doe: "doe = 36524 * a + 1461 * b + 365 * c + doy"
    using year_start_parts [OF abc] y by (simp add: doe_def)
  have doy: "doy \<le> 365" "doy = 365 \<Longrightarrow> c = 3 \<and> (b < 24 \<or> a = 3)"
    using assms(4) year_len_parts [OF abc] y by (auto split: if_splits)
  show "0 \<le> doe" using doe abc assms(3) by simp
  show le: "doe \<le> 146096" using doe abc doy by linarith
  define r where "r = (24 * a + b + 365 * c + doy) div 1460"
  have q1: "doe div 1460 = 25 * a + b + r"
  proof -
    have "doe = 1460 * (25 * a + b) + (24 * a + b + 365 * c + doy)" using doe by simp
    then show ?thesis by (simp add: r_def)
  qed
  have q23: "doe div 36524 - doe div 146096 = a"
  proof (cases "doe = 146096")
    case True
    then have "a = 3" using doe abc doy by linarith
    with True show ?thesis by simp
  next
    case False
    then have "1461 * b + 365 * c + doy < 36524" using doe abc doy le by linarith
    then have "doe div 36524 = a" using doe abc assms(3) by (simp add: div_pos_pos_trivial)
    moreover have "doe div 146096 = 0" using False le doe abc assms(3) by (simp add: div_pos_pos_trivial)
    ultimately show ?thesis by simp
  qed
  have r: "0 \<le> doy - r" "doy - r \<le> 364"
  proof -
    define x where "x = 24 * a + b + 365 * c + doy"
    have x: "0 \<le> x" "x < 2920" "1460 \<le> x \<Longrightarrow> 269 \<le> doy" "doy = 365 \<Longrightarrow> 1460 \<le> x"
      using abc doy assms(3) unfolding x_def by auto
    have "r = 1" if "1460 \<le> x"
      unfolding r_def x_def [symmetric] by (rule int_div_pos_eq [where r = "x - 1460"]) (use x that in auto)
    moreover have "r = 0" if "x < 1460" using x that by (simp add: r_def x_def [symmetric])
    ultimately have "r = 0 \<or> r = 1 \<and> 269 \<le> doy" and "doy = 365 \<Longrightarrow> r = 1"
      using x by (cases "x < 1460"; simp)+
    then show "0 \<le> doy - r" "doy - r \<le> 364" using assms(3) doy(1) by (cases "doy = 365"; force)+
  qed
  have "doe - doe div 1460 + doe div 36524 - doe div 146096 = 365 * y + (doy - r)"
    using doe q1 q23 y by simp
  then show "(doe - doe div 1460 + doe div 36524 - doe div 146096) div 365 = y"
    using r by (simp add: div_pos_pos_trivial)
qed

text \<open>Every day of the era lies in one of its years.\<close>

lemma day_of_era_split:
  assumes "0 \<le> doe" "doe \<le> 146096"
  obtains y doy where "0 \<le> y" "y \<le> 399" "0 \<le> doy" "doy < year_len y" "doe = year_start y + doy"
proof -
  define a where "a = min 3 (doe div 36524)"
  define m where "m = doe - 36524 * a"
  define b where "b = m div 1461"
  define n where "n = m - 1461 * b"
  define c where "c = min 3 (n div 365)"
  have a: "0 \<le> a" "a \<le> 3" "0 \<le> m" "m < 36524 \<or> a = 3 \<and> m = 36524"
  proof -
    have *: "doe = 36524 * (doe div 36524) + doe mod 36524" "0 \<le> doe mod 36524" "doe mod 36524 < 36524"
      by simp_all
    show "0 \<le> a" "a \<le> 3" using assms by (auto simp: a_def)
    show "0 \<le> m" using * assms by (auto simp: m_def a_def min_def)
    show "m < 36524 \<or> a = 3 \<and> m = 36524" using * assms by (auto simp: m_def a_def min_def)
  qed
  have n: "m = 1461 * b + n" "n = m mod 1461"
    unfolding n_def b_def by (simp_all add: minus_mult_div_eq_mod)
  have b: "0 \<le> b" "b \<le> 24" "0 \<le> n" "n \<le> 1460" "b = 24 \<Longrightarrow> n = 1460 \<Longrightarrow> a = 3"
  proof -
    have "0 \<le> n" "n < 1461" using n(2) by simp_all
    then show "0 \<le> n" "n \<le> 1460" by simp_all
    show "0 \<le> b" using a(3) by (simp add: b_def)
    show "b \<le> 24" "b = 24 \<Longrightarrow> n = 1460 \<Longrightarrow> a = 3" using n(1) a(4) \<open>0 \<le> n\<close> by linarith+
  qed
  have c: "0 \<le> c" "c \<le> 3" "0 \<le> n - 365 * c" "n - 365 * c < 365 \<or> c = 3 \<and> n = 1460"
  proof -
    have *: "n = 365 * (n div 365) + n mod 365" "0 \<le> n mod 365" "n mod 365 < 365" by simp_all
    show "0 \<le> c" "c \<le> 3" using b by (auto simp: c_def)
    show "0 \<le> n - 365 * c" using * b by (auto simp: c_def min_def)
    show "n - 365 * c < 365 \<or> c = 3 \<and> n = 1460" using * b by (auto simp: c_def min_def)
  qed
  show ?thesis
  proof (rule that)
    let ?y = "100 * a + 4 * b + c"
    show "0 \<le> ?y" "?y \<le> 399" using a b c by simp_all
    show "n - 365 * c < year_len ?y"
      using year_len_parts [OF a(1,2) b(1,2) c(1,2)] b c by auto
    show "doe = year_start ?y + (n - 365 * c)"
      using year_start_parts [OF a(1,2) b(1,2) c(1,2)] by (simp add: n_def m_def)
  qed (use c in simp)
qed

section \<open>Months\<close>

text \<open>The months of a year that starts in March have the lengths of a fixed pattern: the day of the year
  where month \<open>mp\<close> starts is \<open>(153 mp + 2) div 5\<close>.\<close>

definition month_start :: "i64 \<Rightarrow> i64" where
  "month_start mp = (153 * mp + 2) div 5"

definition month_at :: "i64 \<Rightarrow> i64" where
  "month_at mp = mp + (if mp < 10 then 3 else -9)"

lemma month_prime_cases:
  assumes "0 \<le> mp" "mp \<le> (11 :: int)"
  shows "mp = 0 \<or> mp = 1 \<or> mp = 2 \<or> mp = 3 \<or> mp = 4 \<or> mp = 5 \<or> mp = 6 \<or> mp = 7 \<or> mp = 8 \<or> mp = 9
    \<or> mp = 10 \<or> mp = 11"
  using assms by presburger

lemma month_of_day_of_year:
  assumes "0 \<le> mp" "mp \<le> 11" "month_start mp \<le> doy" "doy < month_start (mp + 1)"
  shows "(5 * doy + 2) div 153 = mp"
proof -
  have "153 * mp - 2 \<le> 5 * month_start mp" "5 * month_start (mp + 1) \<le> 153 * (mp + 1) + 2"
    unfolding month_start_def using month_prime_cases [OF assms(1,2)] by auto
  with assms(3,4) show ?thesis
    by (intro int_div_pos_eq [where r = "5 * doy + 2 - 153 * mp"]) auto
qed

lemma day_of_year_split:
  assumes "0 \<le> doy" "doy \<le> 365"
  obtains mp where "0 \<le> mp" "mp \<le> 11" "month_start mp \<le> doy" "doy < month_start (mp + 1)"
proof -
  have "doy < 31 \<or> 31 \<le> doy \<and> doy < 61 \<or> 61 \<le> doy \<and> doy < 92 \<or> 92 \<le> doy \<and> doy < 122
    \<or> 122 \<le> doy \<and> doy < 153 \<or> 153 \<le> doy \<and> doy < 184 \<or> 184 \<le> doy \<and> doy < 214
    \<or> 214 \<le> doy \<and> doy < 245 \<or> 245 \<le> doy \<and> doy < 275 \<or> 275 \<le> doy \<and> doy < 306
    \<or> 306 \<le> doy \<and> doy < 337 \<or> 337 \<le> doy \<and> doy \<le> 365"
    using assms by linarith
  moreover note that [of 0, unfolded month_start_def, simplified]
  ultimately show ?thesis
    using that [of 1] that [of 2] that [of 3] that [of 4] that [of 5] that [of 6] that [of 7]
      that [of 8] that [of 9] that [of 10] that [of 11] assms
    unfolding month_start_def by (simp, argo)
qed

text \<open>The length of a month, for February up to the end of the year.\<close>

lemma days_in_month_at:
  assumes "0 \<le> mp" "mp \<le> 11"
  shows "days_in_month (y + (if month_at mp \<le> 2 then 1 else 0)) (month_at mp)
    = (if mp = 11 then year_len y - 337 else month_start (mp + 1) - month_start mp)"
  using month_prime_cases [OF assms]
  by (elim disjE) (simp_all add: days_in_month_def month_at_def month_start_def year_len_def)

section \<open>Day numbers and civil dates\<close>

text \<open>The March-based coordinates of a date: era, year of the era, month and day of the month.\<close>

definition civil_at :: "i64 \<Rightarrow> i64 \<Rightarrow> i64 \<Rightarrow> i64 \<times> i64 \<times> i64" where
  "civil_at y mp d = (y + (if month_at mp \<le> 2 then 1 else 0), month_at mp, d)"

definition day_number :: "i64 \<Rightarrow> i64 \<Rightarrow> i64 \<Rightarrow> i64" where
  "day_number y mp d = (y div 400) * 146097 + year_start (y mod 400) + month_start mp + d - 1 - 719468"

definition on_calendar :: "i64 \<Rightarrow> i64 \<Rightarrow> i64 \<Rightarrow> bool" where
  "on_calendar y mp d \<longleftrightarrow> 0 \<le> mp \<and> mp \<le> 11 \<and> 1 \<le> d \<and> month_start mp + d \<le> month_start (mp + 1)
     \<and> month_start mp + d \<le> year_len y"

lemma year_len_mod: "year_len (y mod 400) = year_len y"
proof -
  have "(k dvd y mod 400 + 1) = (k dvd y + 1)" if "k dvd 400" for k
    using that by (metis dvd_mod_iff mod_add_left_eq)
  from this [of 4] this [of 100] this [of 400] show ?thesis by (simp add: year_len_def leap_def)
qed

lemma real_date_civil_at:
  assumes "0 \<le> mp" "mp \<le> 11"
  shows "real_date (civil_at y mp d) = on_calendar y mp d"
proof -
  have "year_len y = 365 \<or> year_len y = 366" by (simp add: year_len_def)
  then show ?thesis
    using month_prime_cases [OF assms] days_in_month_at [OF assms, of y]
    by (elim disjE) (simp_all add: civil_at_def on_calendar_def month_at_def month_start_def, auto)
qed

lemma civil_at_complete:
  assumes "1 \<le> m" "m \<le> 12"
  obtains y' mp where "0 \<le> mp" "mp \<le> 11" "(y, m, d) = civil_at y' mp d"
  using assms that [of "m - 3" y] that [of "m + 9" "y - 1"]
  by (cases "3 \<le> m") (simp_all add: civil_at_def month_at_def)

lemma days_from_civil_at:
  assumes "0 \<le> mp" "mp \<le> 11" and "(y, m, d) = civil_at y' mp d'"
  shows "days_from_civil y m d = day_number y' mp d'"
proof -
  have m: "m = month_at mp" "y - (if m \<le> 2 then 1 else 0) = y'" "d = d'"
    using assms(3) by (simp_all add: civil_at_def)
  have mp: "m + (if m > 2 then -3 else 9) = mp" using assms m(1) by (simp add: month_at_def)
  have era: "rust_div (if 0 \<le> y' then y' else y' - 399) 400 = y' div 400"
    by (rule floor_by_rust_div) simp_all
  have yoe: "y' - y' div 400 * 400 = y' mod 400" by (simp add: minus_div_mult_eq_mod)
  show ?thesis
    unfolding days_from_civil_def m(2) mp Let_def era yoe m(3)
    using assms(1) by (simp add: day_number_def year_start_def month_start_def)
qed

lemma civil_from_day_number:
  assumes "on_calendar y mp d"
  shows "civil_from_days (day_number y mp d) = civil_at y mp d"
proof -
  define yoe doy where "yoe = y mod 400" and "doy = month_start mp + d - 1"
  define doe where "doe = year_start yoe + doy"
  have on: "0 \<le> mp" "mp \<le> 11" "1 \<le> d" "doy < month_start (mp + 1)" "doy < year_len yoe"
    using assms by (auto simp: on_calendar_def doy_def yoe_def year_len_mod)
  have start: "0 \<le> month_start mp" using on(1) by (simp add: month_start_def)
  have yoe: "0 \<le> yoe" "yoe \<le> 399" using pos_mod_bound [of 400 y] by (simp_all add: yoe_def)
  have doy: "0 \<le> doy" "month_start mp \<le> doy" using on(3) start by (simp_all add: doy_def)
  note y = year_of_day_of_era [OF yoe doy(1) on(5), folded doe_def]
  have days: "day_number y mp d + 719468 = 146097 * (y div 400) + doe"
    by (simp add: day_number_def doe_def yoe_def doy_def)
  have "(day_number y mp d + 719468) div 146097 = y div 400"
    by (rule int_div_pos_eq [OF days]) (use y in auto)
  then have era: "rust_div (if 0 \<le> day_number y mp d + 719468 then day_number y mp d + 719468
      else day_number y mp d + 719468 - 146096) 146097 = y div 400"
    by (subst floor_by_rust_div) simp_all
  have doe: "day_number y mp d + 719468 - y div 400 * 146097 = doe" using days by simp
  have q: "0 \<le> doe - doe div 1460 + doe div 36524 - doe div 146096"
    using y by (metis yoe(1) pos_imp_zdiv_nonneg_iff zero_less_numeral)
  have "rust_div (doe - rust_div doe 1460 + rust_div doe 36524 - rust_div doe 146096) 365 = yoe"
    using y q by simp
  moreover have "doe - (365 * yoe + rust_div yoe 4 - rust_div yoe 100) = doy"
    using yoe by (simp add: doe_def year_start_def)
  moreover have "rust_div (5 * doy + 2) 153 = mp"
    using month_of_day_of_year [OF on(1,2) doy(2) on(4)] doy by simp
  moreover have "doy - rust_div (153 * mp + 2) 5 + 1 = d"
    using on(1) by (simp add: doy_def month_start_def)
  moreover have "yoe + y div 400 * 400 = y" by (simp add: yoe_def)
  ultimately show ?thesis
    unfolding civil_from_days_def Let_def era doe by (simp add: civil_at_def month_at_def)
qed

lemma day_number_complete:
  obtains y mp d where "on_calendar y mp d" "n = day_number y mp d"
proof -
  define z where "z = n + 719468"
  have z: "0 \<le> z mod 146097" "z mod 146097 \<le> 146096"
    using pos_mod_bound [of 146097 z] by simp_all
  then obtain yoe doy where yoe: "0 \<le> yoe" "yoe \<le> 399" and doy: "0 \<le> doy" "doy < year_len yoe"
    and doe: "z mod 146097 = year_start yoe + doy"
    by (rule day_of_era_split)
  from doy have "doy \<le> 365" by (simp add: year_len_def split: if_splits)
  with doy(1) obtain mp where mp: "0 \<le> mp" "mp \<le> 11" "month_start mp \<le> doy" "doy < month_start (mp + 1)"
    by (rule day_of_year_split)
  define y where "y = 400 * (z div 146097) + yoe"
  have y: "y mod 400 = yoe" "y div 400 = z div 146097" using yoe by (simp_all add: y_def)
  show ?thesis
  proof (rule that)
    show "on_calendar y mp (doy - month_start mp + 1)"
      using mp doy y(1) year_len_mod [of y] by (simp add: on_calendar_def)
    have "n = z div 146097 * 146097 + z mod 146097 - 719468" by (simp add: z_def)
    then show "n = day_number y mp (doy - month_start mp + 1)"
      unfolding day_number_def y doe by simp
  qed
qed

lemma civil_from_days_real:
  shows "real_date (civil_from_days n)"
    and "civil_from_days n = (y, m, d) \<Longrightarrow> days_from_civil y m d = n"
proof -
  obtain y' mp d' where on: "on_calendar y' mp d'" and n: "n = day_number y' mp d'"
    by (rule day_number_complete)
  from on have mp: "0 \<le> mp" "mp \<le> 11" by (simp_all add: on_calendar_def)
  from civil_from_day_number [OF on] n have civil: "civil_from_days n = civil_at y' mp d'" by simp
  show "real_date (civil_from_days n)" using civil on real_date_civil_at [OF mp] by simp
  show "civil_from_days n = (y, m, d) \<Longrightarrow> days_from_civil y m d = n"
    using civil days_from_civil_at [OF mp] n by simp
qed

lemma civil_from_days_from_civil:
  assumes "1 \<le> m" "m \<le> 12"
  shows "(civil_from_days (days_from_civil y m d) = (y, m, d)) = real_date (y, m, d)"
proof
  assume "civil_from_days (days_from_civil y m d) = (y, m, d)"
  then show "real_date (y, m, d)" using civil_from_days_real(1) by metis
next
  assume real: "real_date (y, m, d)"
  obtain y' mp where mp: "0 \<le> mp" "mp \<le> 11" and at: "(y, m, d) = civil_at y' mp d"
    using assms by (rule civil_at_complete)
  from real at real_date_civil_at [OF mp] have "on_calendar y' mp d" by metis
  then show "civil_from_days (days_from_civil y m d) = (y, m, d)"
    using civil_from_day_number days_from_civil_at [OF mp at] at by simp
qed

text \<open>The next day, in both coordinates.\<close>

lemma div_Suc:
  assumes "0 < (k :: int)"
  shows "(y + 1) div k = y div k + (if k dvd y + 1 then 1 else 0)"
proof (cases "k dvd y + 1")
  case True
  then obtain q where q: "y + 1 = k * q" by (elim dvdE)
  then have "y = k * (q - 1) + (k - 1)" by (simp add: algebra_simps)
  then have "y div k = q - 1" by (rule int_div_pos_eq) (use assms in auto)
  with q True assms show ?thesis by simp
next
  case False
  have "0 \<le> y mod k" "y mod k < k" using assms by simp_all
  moreover have "y mod k + 1 \<noteq> k" using False by (metis mod_add_left_eq dvd_eq_mod_eq_0 mod_self)
  ultimately have "(y + 1) div k = y div k"
    by (intro int_div_pos_eq [where r = "y mod k + 1"]) auto
  with False show ?thesis by simp
qed

lemma year_start_Suc:
  assumes "0 \<le> y" "y \<le> 398"
  shows "year_start (y + 1) = year_start y + year_len y"
proof -
  have "\<not> 400 dvd y + 1" using assms by (auto dest: zdvd_imp_le)
  moreover have "100 dvd y + 1 \<Longrightarrow> 4 dvd y + 1" by (rule dvd_trans [of _ 100]) simp_all
  ultimately show ?thesis
    by (auto simp: year_start_def year_len_def leap_def div_Suc)
qed

lemma day_number_new_year: "day_number (y + 1) 0 1 = day_number y 11 (year_len y - 337) + 1"
proof (cases "y mod 400 = 399")
  case True
  then have "y + 1 = 400 * (y div 400 + 1)" using mult_div_mod_eq [of 400 y] by simp
  then have d: "400 dvd y + 1" by (rule dvdI)
  then have "4 dvd y + 1" by (rule dvd_trans [rotated]) simp
  with d have len: "year_len y = 366" by (simp add: year_len_def leap_def)
  from d have mod: "(y + 1) mod 400 = 0" by simp
  from d have "(y + 1) div 400 = y div 400 + 1" by (simp add: div_Suc)
  then show ?thesis by (simp add: day_number_def True len mod year_start_def month_start_def)
next
  case False
  have b: "0 \<le> y mod 400" "y mod 400 < 400" by simp_all
  with False have le: "y mod 400 \<le> 398" by simp
  have mod: "(y + 1) mod 400 = y mod 400 + 1"
    by (rule int_mod_pos_eq [where q = "y div 400"]) (use b le in auto)
  then have "\<not> 400 dvd y + 1" using b by (simp add: dvd_eq_mod_eq_0)
  then have "(y + 1) div 400 = y div 400" by (simp add: div_Suc)
  then show ?thesis
    using year_start_Suc [OF b(1) le] year_len_mod [of y] mod
    by (simp add: day_number_def month_start_def)
qed

lemma next_day_at:
  assumes "on_calendar y mp d"
  obtains y' mp' d' where "on_calendar y' mp' d'" "next_day (civil_at y mp d) = civil_at y' mp' d'"
    "day_number y' mp' d' = day_number y mp d + 1"
proof -
  have mp: "0 \<le> mp" "mp \<le> 11" using assms by (simp_all add: on_calendar_def)
  have len: "year_len z = 365 \<or> year_len z = 366" for z by (simp add: year_len_def)
  let ?last = "days_in_month (y + (if month_at mp \<le> 2 then 1 else 0)) (month_at mp)"
  have d: "d \<le> ?last" using assms real_date_civil_at [OF mp, of y d] by (simp add: civil_at_def)
  show ?thesis
  proof (cases "d < ?last")
    case True
    show ?thesis
    proof (rule that)
      have "real_date (civil_at y mp (d + 1))"
        using True assms real_date_civil_at [OF mp, of y d] by (simp add: civil_at_def)
      then show "on_calendar y mp (d + 1)" using real_date_civil_at [OF mp] by simp
      show "next_day (civil_at y mp d) = civil_at y mp (d + 1)" using True by (simp add: civil_at_def)
    qed (simp add: day_number_def)
  next
    case False
    with d have last: "d = ?last" by simp
    note last' = last [unfolded days_in_month_at [OF mp]]
    show ?thesis
    proof (cases "mp = 11")
      case True
      show ?thesis
      proof (rule that)
        show "on_calendar (y + 1) 0 1" using len [of "y + 1"] by (auto simp: on_calendar_def month_start_def)
        show "next_day (civil_at y mp d) = civil_at (y + 1) 0 1"
          using last True by (simp add: civil_at_def month_at_def)
        show "day_number (y + 1) 0 1 = day_number y mp d + 1"
          using day_number_new_year last' True by simp
      qed
    next
      case neq: False
      show ?thesis
      proof (rule that)
        show "on_calendar y (mp + 1) 1"
          using len [of y] neq month_prime_cases [OF mp]
          by (elim disjE) (simp_all add: on_calendar_def month_start_def)
        show "next_day (civil_at y mp d) = civil_at y (mp + 1) 1"
          using last neq mp by (auto simp: civil_at_def month_at_def)
        show "day_number y (mp + 1) 1 = day_number y mp d + 1"
          using last' neq by (simp add: day_number_def)
      qed
    qed
  qed
qed

lemma civil_from_days_Suc: "civil_from_days (n + 1) = next_day (civil_from_days n)"
proof -
  obtain y mp d where on: "on_calendar y mp d" and n: "n = day_number y mp d"
    by (rule day_number_complete)
  from on obtain y' mp' d' where on': "on_calendar y' mp' d'"
    and eq: "next_day (civil_at y mp d) = civil_at y' mp' d'" "day_number y' mp' d' = day_number y mp d + 1"
    by (rule next_day_at)
  from civil_from_day_number [OF on'] civil_from_day_number [OF on] n eq show ?thesis by simp
qed

section \<open>The four-digit years\<close>

lemma year_bounds:
  assumes r: "0 \<le> r" "r \<le> 399" and doy: "0 \<le> doy" "doy < year_len r"
    and t: "t = 146097 * e + year_start r + doy"
    and y: "y = 400 * e + r + (if 306 \<le> doy then 1 else 0)"
  shows "(1 \<le> y \<and> y \<le> 9999) = (306 \<le> t \<and> t \<le> (3652364 :: int))"
proof -
  note doe = year_of_day_of_era(2,3) [OF r doy]
  have start: "year_start r = 365 * r + r div 4 - r div 100" by (simp add: year_start_def)
  have q: "0 \<le> r div 4" "r div 4 \<le> 99" "0 \<le> r div 100" "r div 100 \<le> r div 4"
    using r zdiv_mono1 [of r 399 4] by (simp_all add: zdiv_mono2)
  have le365: "doy \<le> 365" using doy by (simp add: year_len_def split: if_splits)
  consider (neg) "e \<le> -1" | (first) "e = 0" | (mid) "1 \<le> e" "e \<le> 23" | (last) "e = 24" | (late) "25 \<le> e"
    by linarith
  then show ?thesis
  proof cases
    case first
    show ?thesis
    proof (cases "r = 0")
      case True
      then show ?thesis using first t y doy le365 by (auto simp: year_start_def)
    next
      case False
      then show ?thesis using first t y r doy q start doe by auto
    qed
  next
    case last
    show ?thesis
    proof (cases "r = 399")
      case True
      then show ?thesis using last t y doy by (auto simp: year_start_def)
    next
      case False
      then show ?thesis using last t y r doy q start le365 by auto
    qed
  qed (use t y r doe in auto)
qed

lemma civil_year_range:
  assumes "civil_from_days n = (y, m, d)"
  shows "(1 \<le> y \<and> y \<le> 9999) = (-719162 \<le> n \<and> n \<le> 2932896)"
proof -
  obtain y' mp d' where on: "on_calendar y' mp d'" and n: "n = day_number y' mp d'"
    by (rule day_number_complete)
  define doy where "doy = month_start mp + d' - 1"
  have mp: "0 \<le> mp" "mp \<le> 11" using on by (simp_all add: on_calendar_def)
  have b: "0 \<le> y' mod 400" "y' mod 400 < 400" by simp_all
  have "0 \<le> month_start mp" using mp by (simp add: month_start_def)
  then have doy: "0 \<le> doy" "doy < year_len (y' mod 400)"
    using on year_len_mod [of y'] by (simp_all add: on_calendar_def doy_def)
  have late: "(306 \<le> doy) = (10 \<le> mp)"
    using on month_prime_cases [OF mp] by (elim disjE) (simp_all add: on_calendar_def doy_def month_start_def)
  from civil_from_day_number [OF on] n assms have "y = y' + (if 10 \<le> mp then 1 else 0)"
    using mp by (simp add: civil_at_def month_at_def split: if_splits)
  then have "y = 400 * (y' div 400) + y' mod 400 + (if 306 \<le> doy then 1 else 0)" by (simp add: late)
  from year_bounds [OF b(1) _ doy _ this, of "n + 719468"] b(2) n show ?thesis
    by (simp add: day_number_def doy_def) linarith
qed

lemma real_date_range:
  assumes "real_date (y, m, d)" "1 \<le> y" "y \<le> 9999"
  shows "-719162 \<le> days_from_civil y m d" "days_from_civil y m d \<le> 2932896"
proof -
  from assms(1) have "civil_from_days (days_from_civil y m d) = (y, m, d)"
    using civil_from_days_from_civil by simp
  from civil_year_range [OF this] assms(2,3) show "-719162 \<le> days_from_civil y m d" "days_from_civil y m d \<le> 2932896"
    by simp_all
qed

section \<open>Instants\<close>

definition time_of_day :: "calendar \<Rightarrow> i64" where
  "time_of_day f = cal_hour f * 3600000 + cal_minute f * 60000 + cal_second f * 1000 + cal_millis f"

definition real_time :: "calendar \<Rightarrow> bool" where
  "real_time f \<longleftrightarrow> 0 \<le> cal_hour f \<and> cal_hour f \<le> 23 \<and> 0 \<le> cal_minute f \<and> cal_minute f \<le> 59
     \<and> 0 \<le> cal_second f \<and> cal_second f \<le> 59 \<and> 0 \<le> cal_millis f \<and> cal_millis f \<le> 999"

lemma real_time_bounds: "real_time f \<Longrightarrow> 0 \<le> time_of_day f \<and> time_of_day f \<le> 86399999"
  by (auto simp: real_time_def time_of_day_def)

lemma calendar_millis_Some:
  "calendar_millis f = Some ms \<longleftrightarrow>
     1 \<le> cal_year f \<and> cal_year f \<le> 9999 \<and> real_date (cal_year f, cal_month f, cal_day f) \<and> real_time f
     \<and> ms = days_from_civil (cal_year f) (cal_month f) (cal_day f) * 86400000 + time_of_day f"
proof (cases "1 \<le> cal_year f \<and> cal_year f \<le> 9999 \<and> 1 \<le> cal_month f \<and> cal_month f \<le> 12 \<and> real_time f")
  case False
  then show ?thesis by (auto simp: calendar_millis_def real_time_def)
next
  case True
  let ?n = "days_from_civil (cal_year f) (cal_month f) (cal_day f)"
  have civil: "(civil_from_days ?n = (cal_year f, cal_month f, cal_day f))
      = real_date (cal_year f, cal_month f, cal_day f)"
    using True by (intro civil_from_days_from_civil) simp_all
  show ?thesis
  proof (cases "real_date (cal_year f, cal_month f, cal_day f)")
    case real: True
    have n: "-719162 \<le> ?n" "?n \<le> 2932896" using real_date_range [OF real] True by simp_all
    have t: "0 \<le> time_of_day f" "time_of_day f \<le> 86399999" using real_time_bounds True by simp_all
    have mul: "checked_mul_i64 ?n 86400000 = Some (?n * 86400000)"
      using n by (simp add: in_i64_def i64_min_def i64_max_def)
    have add: "checked_add_i64 (?n * 86400000) (time_of_day f) = Some (?n * 86400000 + time_of_day f)"
      using n t by (simp add: in_i64_def i64_min_def i64_max_def)
    have range: "MIN_INSTANT_MS \<le> ?n * 86400000 + time_of_day f" "?n * 86400000 + time_of_day f \<le> MAX_INSTANT_MS"
      using n t by (simp_all add: MIN_INSTANT_MS_def MAX_INSTANT_MS_def)
    have "calendar_millis f = Some (?n * 86400000 + time_of_day f)"
      unfolding calendar_millis_def time_of_day_def [symmetric] Let_def mul bind.simps add
      using True real range civil by (simp add: real_time_def del: real_date.simps)
    then show ?thesis using True real by auto
  next
    case unreal: False
    with civil have "calendar_millis f = None"
      by (auto simp: calendar_millis_def Let_def bind_eq_None_conv)
    with unreal show ?thesis by auto
  qed
qed

section \<open>Fixed-width decimals\<close>

lemma digits_from_append:
  "digits_from acc (xs @ ys) = Option.bind (digits_from acc xs) (\<lambda>a. digits_from a ys)"
  by (induction acc xs rule: digits_from.induct) simp_all

lemma digit_char:
  assumes "k < (10 :: nat)"
  shows "is_ascii_digit (char_of (48 + k))" "int (of_char (char_of (48 + k) :: char)) - 48 = int k"
  using assms by (simp_all add: is_ascii_digit_def of_char_mod_256)

lemma digits_from_show_nat:
  "digits_from acc (show_nat n) = Some (acc * 10 ^ length (show_nat n) + int n)"
proof (induction n arbitrary: acc rule: show_nat.induct)
  case (1 n)
  show ?case
  proof (cases "n < 10")
    case True
    then show ?thesis using digit_char [of n] by (simp add: show_nat.simps [of n])
  next
    case False
    have "digits_from acc (show_nat n)
        = Some ((acc * 10 ^ length (show_nat (n div 10)) + int (n div 10)) * 10 + int (n mod 10))"
      using False 1 digit_char [of "n mod 10"] by (simp add: show_nat.simps [of n] digits_from_append)
    also have "\<dots> = Some (acc * 10 ^ length (show_nat n) + int n)"
    proof -
      have "n = n div 10 * 10 + n mod 10" by simp
      then have "int n = int (n div 10) * 10 + int (n mod 10)"
        by (metis of_nat_add of_nat_mult of_nat_numeral)
      then show ?thesis using False by (simp add: show_nat.simps [of n] algebra_simps)
    qed
    finally show ?thesis .
  qed
qed

lemma length_show_nat:
  assumes "n < 10 ^ w" and "0 < w"
  shows "length (show_nat n) \<le> w"
  using assms
proof (induction w arbitrary: n)
  case (Suc w)
  show ?case
  proof (cases "n < 10")
    case True
    then show ?thesis by (simp add: show_nat.simps)
  next
    case False
    with Suc.prems have "0 < w" by (cases w) auto
    moreover from Suc.prems have "n div 10 < 10 ^ w" by (simp add: div_less_iff_less_mult mult.commute)
    ultimately have "length (show_nat (n div 10)) \<le> w" by (intro Suc.IH)
    with False show ?thesis by (simp add: show_nat.simps [of n])
  qed
qed simp

lemma digits_from_zeros: "digits_from 0 (replicate k CHR ''0'' @ s) = digits_from 0 s"
  by (induction k) (simp_all add: is_ascii_digit_def)

lemma pad_digits:
  assumes "0 \<le> n" "n < 10 ^ w" "0 < w"
  shows "length (pad w n) = w" and "digits (pad w n) = Some n"
proof -
  have "nat n < 10 ^ w" using assms by (simp add: nat_less_iff)
  from length_show_nat [OF this assms(3)] show "length (pad w n) = w" by (simp add: pad_def Let_def)
  show "digits (pad w n) = Some n"
    using assms(1) by (simp add: digits_def pad_def Let_def digits_from_zeros digits_from_show_nat)
qed

section \<open>Printing and parsing instants\<close>

text \<open>The calendar fields of an instant.\<close>

definition instant_fields :: "i64 \<Rightarrow> calendar" where
  "instant_fields ms =
     (let day = ms mod 86400000
      in case civil_from_days (ms div 86400000) of (y, m, d) \<Rightarrow>
           \<lparr>cal_year = y, cal_month = m, cal_day = d, cal_hour = day div 3600000,
            cal_minute = day div 60000 mod 60, cal_second = day div 1000 mod 60, cal_millis = day mod 1000\<rparr>)"

definition print_fields :: "calendar \<Rightarrow> string" where
  "print_fields f =
     pad 4 (cal_year f) @ ''-'' @ pad 2 (cal_month f) @ ''-'' @ pad 2 (cal_day f) @ ''T''
     @ pad 2 (cal_hour f) @ '':'' @ pad 2 (cal_minute f) @ '':'' @ pad 2 (cal_second f) @ ''.''
     @ pad 3 (cal_millis f) @ ''Z''"

lemma format_instant_fields:
  "format_instant ms =
     (if MIN_INSTANT_MS \<le> ms \<and> ms \<le> MAX_INSTANT_MS then Some (print_fields (instant_fields ms)) else None)"
  by (simp add: format_instant_def print_fields_def instant_fields_def Let_def split: prod.splits)

lemma time_of_day_parts:
  assumes "0 \<le> (t :: int)" "t < 86400000"
  shows "t div 3600000 * 3600000 + t div 60000 mod 60 * 60000 + t div 1000 mod 60 * 1000 + t mod 1000 = t"
    and "t div 3600000 \<le> 23"
proof -
  define s m where "s = t div 1000" and "m = s div 60"
  have q: "t div 1000 = s" "t div 60000 = m" "t div 3600000 = m div 60"
    by (simp_all add: m_def s_def div_mult2_eq [symmetric])
  have "t = s * 1000 + t mod 1000" "s = m * 60 + s mod 60" "m = m div 60 * 60 + m mod 60"
    by (simp_all only: s_def m_def div_mult_mod_eq)
  then show "t div 3600000 * 3600000 + t div 60000 mod 60 * 60000 + t div 1000 mod 60 * 1000 + t mod 1000 = t"
    unfolding q by linarith
  show "t div 3600000 \<le> 23" using zdiv_mono1 [of t 86399999 3600000] assms by simp
qed

lemma mod_le_pred: "0 < (b :: int) \<Longrightarrow> b = c + 1 \<Longrightarrow> a mod b \<le> c"
  using pos_mod_bound [of b a] by simp

lemma instant_fields_real:
  assumes "MIN_INSTANT_MS \<le> ms" "ms \<le> MAX_INSTANT_MS"
  shows "calendar_millis (instant_fields ms) = Some ms"
proof -
  obtain y m d where c: "civil_from_days (ms div 86400000) = (y, m, d)" by (metis prod_cases3)
  have days: "-719162 \<le> ms div 86400000" "ms div 86400000 \<le> 2932896"
    using zdiv_mono1 [OF assms(1), of 86400000] zdiv_mono1 [OF assms(2), of 86400000]
    by (simp_all add: MIN_INSTANT_MS_def MAX_INSTANT_MS_def)
  have y: "1 \<le> y" "y \<le> 9999" using civil_year_range [OF c] days by simp_all
  have t: "0 \<le> ms mod 86400000" "ms mod 86400000 < 86400000" by simp_all
  have f: "instant_fields ms = \<lparr>cal_year = y, cal_month = m, cal_day = d, cal_hour = ms mod 86400000 div 3600000,
      cal_minute = ms mod 86400000 div 60000 mod 60, cal_second = ms mod 86400000 div 1000 mod 60,
      cal_millis = ms mod 86400000 mod 1000\<rparr>"
    by (simp add: instant_fields_def Let_def c)
  have time: "real_time (instant_fields ms)" "time_of_day (instant_fields ms) = ms mod 86400000"
    unfolding f real_time_def time_of_day_def calendar.simps
    by (intro conjI time_of_day_parts [OF t] mod_le_pred; simp)+
  have date: "real_date (y, m, d)" "days_from_civil y m d = ms div 86400000"
    using civil_from_days_real(1) [of "ms div 86400000"] civil_from_days_real(2) [OF c] c by simp_all
  have "cal_year (instant_fields ms) = y" "cal_month (instant_fields ms) = m" "cal_day (instant_fields ms) = d"
    by (simp_all add: f)
  then show ?thesis
    unfolding calendar_millis_Some using date time y by (simp only: div_mult_mod_eq simp_thms)
qed

text \<open>A printed date parses back to its fields, whatever the fixed-width numbers in it are.\<close>

lemma print_fields_layout:
  assumes "length y = 4" "length mo = 2" "length d = 2" "length h = 2" "length mi = 2" "length se = 2" "length ms = 3"
  defines "s \<equiv> y @ ''-'' @ mo @ ''-'' @ d @ ''T'' @ h @ '':'' @ mi @ '':'' @ se @ ''.'' @ ms @ ''Z''"
  shows "length s = 24 \<and> s ! 4 = CHR ''-'' \<and> s ! 7 = CHR ''-'' \<and> s ! 10 = CHR ''T'' \<and> s ! 13 = CHR '':''
      \<and> s ! 16 = CHR '':'' \<and> s ! 19 = CHR ''.'' \<and> s ! 23 = CHR ''Z''"
    and "slice 0 4 s = y" "slice 5 7 s = mo" "slice 8 10 s = d" "slice 11 13 s = h" "slice 14 16 s = mi"
      "slice 17 19 s = se" "slice 20 23 s = ms"
  unfolding s_def using assms(1-7) by (simp_all add: nth_append slice_def)

lemma parse_print_fields:
  assumes "calendar_millis f = Some ms" and "format_instant ms = Some (print_fields f)"
  shows "parse_instant (print_fields f) = Some ms"
proof -
  note c = assms(1) [unfolded calendar_millis_Some real_time_def, simplified]
  have day: "0 \<le> cal_day f" "cal_day f < 100"
    using c by (auto simp: days_in_month_def split: if_splits)
  note pads = pad_digits [of "cal_year f" 4] pad_digits [of "cal_month f" 2] pad_digits [of "cal_day f" 2]
    pad_digits [of "cal_hour f" 2] pad_digits [of "cal_minute f" 2] pad_digits [of "cal_second f" 2]
    pad_digits [of "cal_millis f" 3]
  have len: "length (pad 4 (cal_year f)) = 4" "length (pad 2 (cal_month f)) = 2" "length (pad 2 (cal_day f)) = 2"
    "length (pad 2 (cal_hour f)) = 2" "length (pad 2 (cal_minute f)) = 2" "length (pad 2 (cal_second f)) = 2"
    "length (pad 3 (cal_millis f)) = 3"
    and val: "digits (pad 4 (cal_year f)) = Some (cal_year f)" "digits (pad 2 (cal_month f)) = Some (cal_month f)"
    "digits (pad 2 (cal_day f)) = Some (cal_day f)" "digits (pad 2 (cal_hour f)) = Some (cal_hour f)"
    "digits (pad 2 (cal_minute f)) = Some (cal_minute f)" "digits (pad 2 (cal_second f)) = Some (cal_second f)"
    "digits (pad 3 (cal_millis f)) = Some (cal_millis f)"
    using c day pads by simp_all
  note layout = print_fields_layout [OF len, folded print_fields_def]
  have f: "\<lparr>cal_year = cal_year f, cal_month = cal_month f, cal_day = cal_day f, cal_hour = cal_hour f,
      cal_minute = cal_minute f, cal_second = cal_second f, cal_millis = cal_millis f\<rparr> = f"
    by simp
  show ?thesis
    unfolding parse_instant_def layout(2-) val bind.simps f using layout(1) assms by simp
qed

lemma parse_instant_Some: "parse_instant s = Some ms \<longleftrightarrow> format_instant ms = Some s"
proof
  assume "parse_instant s = Some ms"
  then show "format_instant ms = Some s"
    by (auto simp: parse_instant_def bind_eq_Some_conv split: if_splits)
next
  assume f: "format_instant ms = Some s"
  then have "calendar_millis (instant_fields ms) = Some ms" and s: "s = print_fields (instant_fields ms)"
    by (auto simp: format_instant_fields instant_fields_real split: if_splits)
  with f show "parse_instant s = Some ms" by (simp add: parse_print_fields)
qed

lemma format_instant_Some_iff: "(\<exists>s. format_instant ms = Some s) \<longleftrightarrow> MIN_INSTANT_MS \<le> ms \<and> ms \<le> MAX_INSTANT_MS"
  by (simp add: format_instant_fields)

lemma format_instant_inject: "format_instant a = Some s \<Longrightarrow> format_instant b = Some s \<Longrightarrow> a = b"
  by (metis parse_instant_Some option.inject)

section \<open>Properties\<close>

text \<open>C38: The closed-form calendar is the Gregorian calendar. Day number 0 is 1 January 1970, each following
  day number is the next calendar day (month lengths and leap years included), every result is a real
  date, the inverse conversion gives the day number back, and a triple survives the round trip exactly
  when it is a real date.\<close>

theorem civil_calendar_is_gregorian:
  "civil_from_days 0 = (1970, 1, 1)
   \<and> (\<forall>n. civil_from_days (n + 1) = next_day (civil_from_days n)
        \<and> real_date (civil_from_days n)
        \<and> (\<lambda>(y, m, d). days_from_civil y m d) (civil_from_days n) = n)
   \<and> (\<forall>y m d. real_date (y, m, d)
        = (1 \<le> m \<and> m \<le> 12 \<and> civil_from_days (days_from_civil y m d) = (y, m, d)))"
proof (intro conjI allI impI)
  show "civil_from_days 0 = (1970, 1, 1)" by code_simp
  show "(\<lambda>(y, m, d). days_from_civil y m d) (civil_from_days n) = n" for n
    using civil_from_days_real(2) [of n] by (simp split: prod.splits)
  show "real_date (y, m, d) = (1 \<le> m \<and> m \<le> 12 \<and> civil_from_days (days_from_civil y m d) = (y, m, d))" for y m d
    using civil_from_days_from_civil [of m y d] by auto
qed (simp_all only: civil_from_days_Suc civil_from_days_real(1))

text \<open>Instants print and parse without loss: an instant has a printed form exactly when it lies in the
  years 1 to 9999, and the parser accepts exactly the printed forms, each with the instant it was
  printed from.\<close>

theorem instants_roundtrip:
  "((\<exists>s. format_instant ms = Some s) = (MIN_INSTANT_MS \<le> ms \<and> ms \<le> MAX_INSTANT_MS))
   \<and> (parse_instant s = Some ms) = (format_instant ms = Some s)"
  using format_instant_Some_iff parse_instant_Some by simp

end
