(* ===== verification/Schedule.thy ===== *)
theory Schedule
  imports Calendar Durable_Fold Protocol
begin

text \<open>
  Reminders of a session (\<open>src/src/schedule.rs\<close>): the record of a reminder and its JSON form, the
  projection of the session log onto the active reminders, the choice of what is due, and the
  arithmetic of fixed-rate rules. The regular expressions and the time-zone database are third-party
  code: their results are the fields of \<open>time_oracle\<close>. Where the sources \<open>expect\<close> a value or slice a string, the
  result is an option whose \<open>None\<close> is the panic.
\<close>

section \<open>Data\<close>

definition MIN_EVERY_SECONDS :: i64 where
  "MIN_EVERY_SECONDS = 300"

datatype schedule_kind = After | At | Every

record schedule =
  sr_id :: string
  sr_kind :: schedule_kind
  sr_prompt :: string
  sr_scheduled_at :: string
  sr_scheduled_ms :: i64
  sr_after_seconds :: "i64 option"
  sr_every_seconds :: "i64 option"

record folded =
  fo_active :: "schedule list"
  fo_seen :: "string list"

datatype due_decision = Wait "i64 option" | OneShot schedule | EveryDue "schedule list"

text \<open>What \<open>to_ambiguous_timestamp\<close> answers: the local time is skipped by a gap, or its earlier reading
  is an instant (\<open>None\<close> when that is out of range).\<close>

datatype local_reading = Gap | Earlier "i64 option"

text \<open>\<open>or_offset\<close>, \<open>or_date\<close> and \<open>or_time\<close> are the capture groups 1, 2, \<open>\<dots>\<close> of the three expressions;
  \<open>or_zone\<close> is \<open>TimeZone::get\<close>, \<open>or_datetime\<close> is \<open>DateTime::new\<close> (whether it accepts the fields), and
  \<open>or_reading\<close> the reading of the fields in a zone.\<close>

record 'z time_oracle =
  or_offset :: "string \<Rightarrow> string option list option"
  or_date :: "string \<Rightarrow> string option list option"
  or_time :: "string \<Rightarrow> string option list option"
  or_zone :: "string \<Rightarrow> 'z option"
  or_datetime :: "calendar \<Rightarrow> bool"
  or_reading :: "'z \<Rightarrow> calendar \<Rightarrow> local_reading"

section \<open>Results and errors\<close>

definition schedule_error :: "string \<Rightarrow> string \<Rightarrow> json" where
  "schedule_error code message = obj [(''code'', JStr code), (''message'', JStr message)]"

definition internal_error :: json where
  "internal_error = schedule_error ''internal_error'' ''The schedule operation failed.''"

definition persistence_error :: "string \<Rightarrow> string option \<Rightarrow> json" where
  "persistence_error operation ident =
     obj ([(''code'', JStr ''persistence_uncertain''),
           (''message'', JStr ''Schedule persistence is uncertain; retry with schedule_list before relying on this result.''),
           (''operation'', JStr operation)]
          @ (case ident of None \<Rightarrow> [] | Some x \<Rightarrow> [(''id'', JStr x)]))"

definition schedule_cancelled :: tessivum_error where
  "schedule_cancelled = tessivum_error_new ''CANCELLED'' ''tool call was cancelled'' ''schedule'' JNull"

definition time_out_of_range :: json where
  "time_out_of_range =
     schedule_error ''time_out_of_range''
       ''The scheduled time must be representable as a four-digit-year RFC 3339 UTC instant.''"

text \<open>\<open>as_f64\<close> is reached for a float, and for an integer above \<open>i64::MAX\<close>, whose float is far above the
  safe range too.\<close>

fun json_f64 :: "json \<Rightarrow> rat option" where
  "json_f64 (JNum (PosInt n)) = Some (of_nat n)"
| "json_f64 (JNum (NegInt n)) = Some (of_int n)"
| "json_f64 (JNum (Float r)) = Some r"
| "json_f64 _ = None"

definition safe_integer :: "json \<Rightarrow> i64 option" where
  "safe_integer v =
     (case as_i64 v of
        Some n \<Rightarrow> Some n
      | None \<Rightarrow> Option.bind (json_f64 v) (\<lambda>r.
          if of_int \<lfloor>r\<rfloor> = r \<and> \<bar>r\<bar> \<le> of_nat MAX_SAFE_INTEGER then Some \<lfloor>r\<rfloor> else None))"

definition json_i64 :: "i64 option \<Rightarrow> json" where
  "json_i64 v =
     (case v of None \<Rightarrow> JNull
      | Some n \<Rightarrow> if n \<ge> 0 then JNum (PosInt (nat n)) else JNum (NegInt n))"

section \<open>Times of a rule\<close>

text \<open>\<open>str::parse::<i64>\<close>: an optional sign and at least one ASCII digit, in range.\<close>

definition parse_i64 :: "string \<Rightarrow> i64 option" where
  "parse_i64 s =
     (case s of
        [] \<Rightarrow> None
      | c # cs \<Rightarrow>
          (let (sign, body) = (if c = CHR ''-'' then (-1, cs) else if c = CHR ''+'' then (1, cs) else (1, s))
           in if body = [] then None
              else Option.bind (digits body) (\<lambda>n. if in_i64 (sign * n) then Some (sign * n) else None)))"

text \<open>UTF-8: a byte \<open>10xxxxxx\<close> continues a character, and a slice may only start and end at a boundary.\<close>

definition continuation_byte :: "char \<Rightarrow> bool" where
  "continuation_byte c \<longleftrightarrow> 0x80 \<le> (of_char c :: nat) \<and> (of_char c :: nat) < 0xC0"

definition char_count :: "string \<Rightarrow> nat" where
  "char_count s = length (filter (\<lambda>c. \<not> continuation_byte c) s)"

definition char_boundary :: "string \<Rightarrow> nat \<Rightarrow> bool" where
  "char_boundary s i \<longleftrightarrow> i \<le> length s \<and> (i < length s \<longrightarrow> \<not> continuation_byte (s ! i))"

definition str_slice :: "nat \<Rightarrow> nat \<Rightarrow> string \<Rightarrow> string option" where
  "str_slice i j s = (if i \<le> j \<and> char_boundary s i \<and> char_boundary s j then Some (slice i j s) else None)"

text \<open>\<open>format!("{:0<3}", s)\<close> read back as a number; \<open>None\<close> is the failed \<open>expect\<close>.\<close>

definition fraction_millis :: "string option \<Rightarrow> i64 option" where
  "fraction_millis capture =
     (case capture of
        None \<Rightarrow> Some 0
      | Some s \<Rightarrow> parse_i64 (s @ replicate (3 - char_count s) CHR ''0''))"

definition group_at :: "string option list \<Rightarrow> nat \<Rightarrow> string option" where
  "group_at groups i = (if 1 \<le> i \<and> i \<le> length groups then groups ! (i - 1) else None)"

definition group_number :: "string option list \<Rightarrow> i64 \<Rightarrow> nat \<Rightarrow> i64" where
  "group_number groups d i =
     (case Option.bind (group_at groups i) parse_i64 of None \<Rightarrow> d | Some n \<Rightarrow> n)"

definition invalid_rule :: "string \<Rightarrow> json" where
  "invalid_rule message = schedule_error ''invalid_rule'' message"

text \<open>The offset of an instant: \<open>None\<close> is the panic of a slice inside a character.\<close>

definition apply_offset :: "i64 \<Rightarrow> string \<Rightarrow> (json + i64) option" where
  "apply_offset local_ms zone =
     (if zone = ''Z'' then Some (Inr local_ms)
      else
        Option.bind (str_slice 1 3 zone) (\<lambda>hh.
        Option.bind (str_slice 4 6 zone) (\<lambda>mm.
        let offset_hour = (case parse_i64 hh of None \<Rightarrow> 24 | Some n \<Rightarrow> n);
            offset_minute = (case parse_i64 mm of None \<Rightarrow> 60 | Some n \<Rightarrow> n)
        in if offset_hour > 23 \<or> offset_minute > 59 \<or> zone = ''-00:00''
           then Some (Inl (invalid_rule ''The at numeric offset is invalid.''))
           else
             let offset = (offset_hour * 60 + offset_minute) * 60000
             in Some (ok_or time_out_of_range
                  (checked_sub_i64 local_ms (if starts_with zone ''+'' then offset else - offset))))))"

definition parse_offset_instant :: "'z time_oracle \<Rightarrow> string \<Rightarrow> (json + i64) option" where
  "parse_offset_instant oc value =
     (case or_offset oc value of
        None \<Rightarrow> Some (Inl (invalid_rule ''at must use YYYY-MM-DDTHH:mm:ss with optional 1-3 digit fractional seconds and an explicit Z or numeric offset.''))
      | Some groups \<Rightarrow>
          Option.bind (fraction_millis (group_at groups 7)) (\<lambda>fraction.
          case calendar_millis
                 \<lparr>cal_year = group_number groups 0 1, cal_month = group_number groups 0 2,
                  cal_day = group_number groups 0 3, cal_hour = group_number groups 24 4,
                  cal_minute = group_number groups 60 5, cal_second = group_number groups 60 6,
                  cal_millis = fraction\<rparr> of
            None \<Rightarrow> Some (Inl (invalid_rule ''The at value must be a real ISO calendar date and time.''))
          | Some local_ms \<Rightarrow>
              Option.bind (group_at groups 8) (\<lambda>zone. apply_offset local_ms zone)))"

definition local_fields_error :: json where
  "local_fields_error =
     invalid_rule ''Local at requires date YYYY-MM-DD and time HH:mm:ss with optional one-to-three digit milliseconds.''"

definition parse_local_fields :: "'z time_oracle \<Rightarrow> string \<Rightarrow> string \<Rightarrow> (json + calendar) option" where
  "parse_local_fields oc date time =
     (case or_date oc date of
        None \<Rightarrow> Some (Inl local_fields_error)
      | Some d \<Rightarrow>
          (case or_time oc time of
             None \<Rightarrow> Some (Inl local_fields_error)
           | Some t \<Rightarrow>
               Option.bind (fraction_millis (group_at t 4)) (\<lambda>fraction.
               Some (Inr \<lparr>cal_year = group_number d (-1) 1, cal_month = group_number d (-1) 2,
                          cal_day = group_number d (-1) 3, cal_hour = group_number t (-1) 1,
                          cal_minute = group_number t (-1) 2, cal_second = group_number t (-1) 3,
                          cal_millis = fraction\<rparr>))))"

definition valid_zone_name :: "string \<Rightarrow> bool" where
  "valid_zone_name name \<longleftrightarrow>
     contains name ''/'' \<and> \<not> starts_with name ''/'' \<and> \<not> contains name ''..''
     \<and> list_all (\<lambda>c. ascii_alphanumeric c \<or> c \<in> set ''/_+.-'') name"

text \<open>The rest of \<open>resolve_local_at\<close> once the fields are read.\<close>

definition resolve_zone :: "'z time_oracle \<Rightarrow> string \<Rightarrow> calendar \<Rightarrow> json + i64" where
  "resolve_zone oc zone f =
     (let invalid_zone = schedule_error ''invalid_time_zone''
            ''time_zone must be UTC or a valid IANA Area/Location name.''
      in and_then (ok_or (invalid_rule ''The local at value must be a real ISO calendar date and time.'')
             (calendar_millis f)) (\<lambda>_.
         and_then (ensure (zone = ''UTC'' \<or> valid_zone_name zone) invalid_zone) (\<lambda>_.
         and_then (ok_or invalid_zone (or_zone oc zone)) (\<lambda>z.
         and_then (ensure (or_datetime oc f) time_out_of_range) (\<lambda>_.
         case or_reading oc z f of
           Gap \<Rightarrow> Inl (invalid_rule ''The local at time does not exist in the selected time zone.'')
         | Earlier instant \<Rightarrow> ok_or time_out_of_range instant)))))"

definition resolve_local_at :: "'z time_oracle \<Rightarrow> entries \<Rightarrow> (json + i64) option" where
  "resolve_local_at oc kvs =
     (let get_string = (\<lambda>k. Option.bind (map_of kvs k) as_str);
          not_strings = invalid_rule ''Local at date and time must be strings.''
      in if length kvs \<noteq> 3
         then Some (Inl (invalid_rule ''Local at must contain exactly date, time, and time_zone.''))
         else
           case get_string ''date'' of None \<Rightarrow> Some (Inl not_strings)
           | Some date \<Rightarrow>
               (case get_string ''time'' of None \<Rightarrow> Some (Inl not_strings)
                | Some time \<Rightarrow>
                    (case get_string ''time_zone'' of
                       None \<Rightarrow> Some (Inl (schedule_error ''invalid_time_zone'' ''time_zone must be a string.''))
                     | Some zone \<Rightarrow>
                         map_option (\<lambda>fs. and_then fs (resolve_zone oc zone)) (parse_local_fields oc date time))))"

section \<open>Records\<close>

definition record_new ::
  "string \<Rightarrow> schedule_kind \<Rightarrow> string \<Rightarrow> i64 \<Rightarrow> i64 option \<Rightarrow> i64 option \<Rightarrow> i64 \<Rightarrow> json + schedule" where
  "record_new ident kind prompt target after every now =
     and_then (ensure (target > now)
         (schedule_error ''not_future'' ''The scheduled time must be strictly in the future.'')) (\<lambda>_.
     and_then (ok_or time_out_of_range (format_instant target)) (\<lambda>stamp.
     Inr \<lparr>sr_id = ident, sr_kind = kind, sr_prompt = prompt, sr_scheduled_at = stamp, sr_scheduled_ms = target,
          sr_after_seconds = after, sr_every_seconds = every\<rparr>))"

definition delayed_target :: "i64 \<Rightarrow> i64 \<Rightarrow> json + i64" where
  "delayed_target seconds now =
     ok_or time_out_of_range
       (Option.bind (checked_mul_i64 seconds 1000) (\<lambda>ms. checked_add_i64 now ms))"

definition record_after :: "string \<Rightarrow> string \<Rightarrow> i64 \<Rightarrow> i64 \<Rightarrow> json + schedule" where
  "record_after ident prompt seconds now =
     and_then (delayed_target seconds now) (\<lambda>target.
     record_new ident After prompt target (Some seconds) None now)"

definition record_every :: "string \<Rightarrow> string \<Rightarrow> i64 \<Rightarrow> i64 \<Rightarrow> json + schedule" where
  "record_every ident prompt seconds now =
     and_then (delayed_target seconds now) (\<lambda>target.
     record_new ident Every prompt target None (Some seconds) now)"

definition record_at :: "'z time_oracle \<Rightarrow> string \<Rightarrow> string \<Rightarrow> json \<Rightarrow> i64 \<Rightarrow> (json + schedule) option" where
  "record_at oc ident prompt input now =
     map_option (\<lambda>target. and_then target (\<lambda>t. record_new ident At prompt t None None now))
       (case input of
          JStr value \<Rightarrow> parse_offset_instant oc value
        | JObj kvs \<Rightarrow> resolve_local_at oc kvs
        | _ \<Rightarrow> Some (Inl (invalid_rule ''at must be an explicit-offset string or local calendar object.'')))"

definition record_value :: "schedule \<Rightarrow> json" where
  "record_value r =
     (case sr_kind r of
        After \<Rightarrow> obj [(''id'', JStr (sr_id r)), (''kind'', JStr ''after''), (''prompt'', JStr (sr_prompt r)),
                     (''afterSeconds'', json_i64 (sr_after_seconds r)), (''scheduledAt'', JStr (sr_scheduled_at r))]
      | At \<Rightarrow> obj [(''id'', JStr (sr_id r)), (''kind'', JStr ''at''), (''prompt'', JStr (sr_prompt r)),
                  (''scheduledAt'', JStr (sr_scheduled_at r))]
      | Every \<Rightarrow> obj [(''id'', JStr (sr_id r)), (''kind'', JStr ''every''), (''prompt'', JStr (sr_prompt r)),
                     (''everySeconds'', json_i64 (sr_every_seconds r)), (''scheduledAt'', JStr (sr_scheduled_at r))])"

definition record_view :: "schedule \<Rightarrow> i64 \<Rightarrow> json" where
  "record_view r now =
     (case record_value r of
        JObj kvs \<Rightarrow>
          JObj (bt_insert ''deliveryMode'' (JStr ''session-local'')
            (bt_insert ''state'' (JStr (if now \<ge> sr_scheduled_ms r then ''overdue'' else ''scheduled'')) kvs))
      | v \<Rightarrow> v)"

definition valid_id :: "string \<Rightarrow> unit + string" where
  "valid_id s = (if s \<noteq> [] \<and> trim s = s then Inr s else Inl ())"

definition decode_record :: "json \<Rightarrow> unit + schedule" where
  "decode_record v =
     and_then (ok_or () (as_object v)) (\<lambda>kvs.
     let str = (\<lambda>k. Option.bind (map_of kvs k) as_str);
         int = (\<lambda>k. Option.bind (map_of kvs k) as_i64)
     in
     and_then
       (if str ''kind'' = Some ''after'' \<and> length kvs = 5 then Inr After
        else if str ''kind'' = Some ''at'' \<and> length kvs = 4 then Inr At
        else if str ''kind'' = Some ''every'' \<and> length kvs = 5 then Inr Every
        else Inl ()) (\<lambda>kind.
     and_then (and_then (ok_or () (str ''id'')) valid_id) (\<lambda>id.
     and_then (and_then (ok_or () (str ''prompt'')) valid_id) (\<lambda>prompt.
     and_then (ok_or () (str ''scheduledAt'')) (\<lambda>stamp.
     and_then (ok_or () (parse_instant stamp)) (\<lambda>ms.
     and_then
       (if kind = After then
          and_then (ok_or () (int ''afterSeconds'')) (\<lambda>s.
          and_then (ensure (s > 0 \<and> s \<le> of_nat MAX_SAFE_INTEGER) ()) (\<lambda>_. Inr (Some s)))
        else Inr None) (\<lambda>after.
     and_then
       (if kind = Every then
          and_then (ok_or () (int ''everySeconds'')) (\<lambda>s.
          and_then (ensure (s \<ge> MIN_EVERY_SECONDS \<and> s \<le> of_nat MAX_SAFE_INTEGER
                            \<and> checked_mul_i64 s 1000 \<noteq> None) ()) (\<lambda>_. Inr (Some s)))
        else Inr None) (\<lambda>every.
     Inr \<lparr>sr_id = id, sr_kind = kind, sr_prompt = prompt, sr_scheduled_at = stamp, sr_scheduled_ms = ms,
          sr_after_seconds = after, sr_every_seconds = every\<rparr>))))))))"

section \<open>Fixed-rate rules\<close>

definition every_interval :: "schedule \<Rightarrow> i64 option" where
  "every_interval r = Option.bind (sr_every_seconds r) (\<lambda>s. checked_mul_i64 s 1000)"

text \<open>\<open>accepted - scheduled_ms\<close> is a plain subtraction of two printable instants; the interval of a decoded
  record is positive, so \<open>div_euclid\<close> is \<open>div\<close>.\<close>

definition every_occurrence :: "schedule \<Rightarrow> i64 \<Rightarrow> string option" where
  "every_occurrence r accepted =
     Option.bind (every_interval r) (\<lambda>interval.
     if accepted < sr_scheduled_ms r then None
     else
       Option.bind (checked_mul_i64 ((accepted - sr_scheduled_ms r) div interval) interval) (\<lambda>elapsed.
       Option.bind (checked_add_i64 (sr_scheduled_ms r) elapsed) format_instant))"

definition every_next :: "schedule \<Rightarrow> i64 \<Rightarrow> schedule option option" where
  "every_next r accepted =
     Option.bind (every_interval r) (\<lambda>interval.
     if accepted < sr_scheduled_ms r then None
     else
       let steps = (accepted - sr_scheduled_ms r) div interval
       in Option.bind (checked_add_i64 steps 1) (\<lambda>n.
          Option.bind (checked_mul_i64 n interval) (\<lambda>elapsed.
          Option.bind (checked_add_i64 (sr_scheduled_ms r) elapsed) (\<lambda>next_ms.
          case format_instant next_ms of
            None \<Rightarrow> Some None
          | Some stamp \<Rightarrow> Some (Some (r\<lparr>sr_scheduled_ms := next_ms, sr_scheduled_at := stamp\<rparr>))))))"

section \<open>The projection of the log\<close>

record schedule_fold =
  sf_active :: "(string \<times> schedule) list"
  sf_order :: "string list"
  sf_seen :: "string list"

definition no_schedules :: schedule_fold where
  "no_schedules = \<lparr>sf_active = [], sf_order = [], sf_seen = []\<rparr>"

definition fold_create :: "schedule_fold \<Rightarrow> entries \<Rightarrow> unit + schedule_fold" where
  "fold_create fs kvs =
     and_then (ensure (length kvs = 3) ()) (\<lambda>_.
     and_then (ok_or () (map_of kvs ''schedule'')) (\<lambda>v.
     and_then (decode_record v) (\<lambda>r.
     and_then (ensure (sr_id r \<notin> set (sf_seen fs) \<and> map_of (sf_active fs) (sr_id r) = None) ()) (\<lambda>_.
     and_then (ok_or () (get_str ''id'' v)) (\<lambda>ident.
     Inr \<lparr>sf_active = bt_insert (sr_id r) r (sf_active fs), sf_order = sf_order fs @ [ident],
          sf_seen = insort_insert (sr_id r) (sf_seen fs)\<rparr>)))))"

definition fold_delete :: "schedule_fold \<Rightarrow> entries \<Rightarrow> unit + schedule_fold" where
  "fold_delete fs kvs =
     and_then (ensure (length kvs = 3) ()) (\<lambda>_.
     and_then (and_then (ok_or () (get_str ''id'' (JObj kvs))) valid_id) (\<lambda>ident.
     and_then (ensure (map_of (sf_active fs) ident \<noteq> None) ()) (\<lambda>_.
     Inr (fs\<lparr>sf_active := bt_remove ident (sf_active fs)\<rparr>))))"

definition fold_dispatch :: "schedule_fold \<Rightarrow> entries \<Rightarrow> unit + schedule_fold" where
  "fold_dispatch fs kvs =
     and_then (and_then (ok_or () (get_str ''id'' (JObj kvs))) valid_id) (\<lambda>ident.
     and_then (ok_or () (map_of (sf_active fs) ident)) (\<lambda>r.
     let rest = bt_remove ident (sf_active fs)
     in if sr_kind r = Every then
          and_then (ensure (length kvs = 4) ()) (\<lambda>_.
          and_then (ok_or () (get_str ''acceptedAt'' (JObj kvs))) (\<lambda>stamp.
          and_then (ok_or () (parse_instant stamp)) (\<lambda>accepted.
          and_then (ok_or () (every_next r accepted)) (\<lambda>successor.
          Inr (fs\<lparr>sf_active := (case successor of None \<Rightarrow> rest | Some r' \<Rightarrow> bt_insert ident r' rest)\<rparr>)))))
        else
          and_then (ensure (length kvs = 3) ()) (\<lambda>_. Inr (fs\<lparr>sf_active := rest\<rparr>))))"

definition schedule_step :: "schedule_fold \<Rightarrow> session_event \<Rightarrow> unit + schedule_fold" where
  "schedule_step fs e =
     (if ev_type e \<noteq> ''schedule/change'' then Inr fs
      else
        and_then (ok_or () (as_object (ev_data e))) (\<lambda>kvs.
        and_then (ensure (get_u64 ''version'' (ev_data e) = Some 1) ()) (\<lambda>_.
        if get_str ''operation'' (ev_data e) = Some ''create'' then fold_create fs kvs
        else if get_str ''operation'' (ev_data e) = Some ''delete'' then fold_delete fs kvs
        else if get_str ''operation'' (ev_data e) = Some ''dispatch'' then fold_dispatch fs kvs
        else Inl ())))"

fun collect_active :: "string list \<Rightarrow> (string \<times> schedule) list \<Rightarrow> schedule list" where
  "collect_active [] active = []"
| "collect_active (x # xs) active =
     (case map_of active x of
        None \<Rightarrow> collect_active xs active
      | Some r \<Rightarrow> r # collect_active xs (bt_remove x active))"

definition finish_fold :: "schedule_fold \<Rightarrow> folded" where
  "finish_fold fs = \<lparr>fo_active = collect_active (sf_order fs) (sf_active fs), fo_seen = sf_seen fs\<rparr>"

definition fold_schedules :: "session_header \<Rightarrow> session_event list \<Rightarrow> unit + folded" where
  "fold_schedules h events =
     (let seed_length = (case hd_seed_length h of None \<Rightarrow> 0 | Some n \<Rightarrow> n)
      in and_then (ensure (seed_length \<le> length events) ()) (\<lambda>_.
         and_then (try_fold schedule_step no_schedules (drop seed_length events)) (\<lambda>fs.
         Inr (finish_fold fs))))"

section \<open>Choosing an id and what is due\<close>

definition schedule_name :: "nat \<Rightarrow> string" where
  "schedule_name n = ''schedule-'' @ show_nat n"

definition saturating_succ :: "nat \<Rightarrow> nat" where
  "saturating_succ n = min (n + 1) u64_max"

text \<open>The loop of \<open>allocate_id\<close>; \<open>None\<close> when it does not end.\<close>

partial_function (option) allocate_from :: "string list \<Rightarrow> nat \<Rightarrow> string option" where
  "allocate_from seen number =
     (if schedule_name number \<notin> set seen then Some (schedule_name number)
      else allocate_from seen (saturating_succ number))"

declare allocate_from.simps [code]

definition allocate_id :: "folded \<Rightarrow> string option" where
  "allocate_id f = allocate_from (fo_seen f) (saturating_succ (length (fo_seen f)))"

definition due :: "bool \<Rightarrow> i64 \<Rightarrow> folded \<Rightarrow> schedule list" where
  "due repeating now f =
     sort_key sr_scheduled_ms
       (filter (\<lambda>r. (sr_kind r = Every) = repeating \<and> sr_scheduled_ms r \<le> now) (fo_active f))"

definition earliest :: "i64 list \<Rightarrow> i64 option" where
  "earliest xs = (case xs of [] \<Rightarrow> None | x # ys \<Rightarrow> Some (foldl min x ys))"

definition decide :: "folded \<Rightarrow> i64 \<Rightarrow> due_decision" where
  "decide f now =
     (case due False now f of
        r # _ \<Rightarrow> OneShot r
      | [] \<Rightarrow>
          (let every = due True now f
           in if every \<noteq> [] then EveryDue every
              else Wait (earliest (map sr_scheduled_ms (filter (\<lambda>r. sr_scheduled_ms r > now) (fo_active f))))))"

section \<open>Stored records\<close>

definition seconds_ok :: "schedule \<Rightarrow> bool" where
  "seconds_ok r \<longleftrightarrow>
     (case sr_kind r of
        After \<Rightarrow> sr_every_seconds r = None
                 \<and> (\<exists>s. sr_after_seconds r = Some s \<and> 0 < s \<and> s \<le> of_nat MAX_SAFE_INTEGER)
      | At \<Rightarrow> sr_after_seconds r = None \<and> sr_every_seconds r = None
      | Every \<Rightarrow> sr_after_seconds r = None
                 \<and> (\<exists>s. sr_every_seconds r = Some s \<and> MIN_EVERY_SECONDS \<le> s \<and> s \<le> of_nat MAX_SAFE_INTEGER))"

definition trimmed :: "string \<Rightarrow> bool" where
  "trimmed s \<longleftrightarrow> s \<noteq> [] \<and> trim s = s"

text \<open>What every stored reminder satisfies.\<close>

definition record_ok :: "schedule \<Rightarrow> bool" where
  "record_ok r \<longleftrightarrow> trimmed (sr_id r) \<and> trimmed (sr_prompt r)
     \<and> format_instant (sr_scheduled_ms r) = Some (sr_scheduled_at r) \<and> seconds_ok r"

lemma valid_id_Inr [simp, result_simps]: "(valid_id s = Inr t) = (t = s \<and> trimmed s)"
  by (auto simp: valid_id_def trimmed_def)

lemma safe_seconds_in_range:
  assumes "0 < s" "s \<le> of_nat MAX_SAFE_INTEGER"
  shows "in_i64 (s * 1000)" "s \<le> i64_max"
  using assms by (simp_all add: in_i64_def i64_min_def i64_max_def MAX_SAFE_INTEGER_def)

lemma decode_record_ok: "decode_record v = Inr r \<Longrightarrow> record_ok r"
  by (auto simp: decode_record_def Let_def record_ok_def seconds_ok_def parse_instant_Some split: if_splits)

lemma as_i64_json_i64: "in_i64 n \<Longrightarrow> as_i64 (json_i64 (Some n)) = Some n"
  by (simp add: json_i64_def in_i64_def)

lemma obj_JObj: "obj kvs = JObj (foldl (\<lambda>m (k, v). bt_insert k v m) [] kvs)"
  by (simp add: obj_def)

lemma decode_record_value:
  assumes "record_ok r"
  shows "decode_record (record_value r) = Inr r"
proof -
  have ids: "valid_id (sr_id r) = Inr (sr_id r)" "valid_id (sr_prompt r) = Inr (sr_prompt r)"
    and ms: "parse_instant (sr_scheduled_at r) = Some (sr_scheduled_ms r)"
    using assms by (simp_all add: record_ok_def parse_instant_Some)
  show ?thesis
  proof (cases "sr_kind r")
    case After
    then obtain s where s: "sr_after_seconds r = Some s" "0 < s" "s \<le> of_nat MAX_SAFE_INTEGER" "sr_every_seconds r = None"
      using assms by (auto simp: record_ok_def seconds_ok_def)
    have i: "in_i64 s" using s safe_seconds_in_range [of s] by (simp add: in_i64_def i64_min_def)
    show ?thesis
      using After s ids ms as_i64_json_i64 [OF i]
      by (simp add: record_value_def decode_record_def obj_def)
  next
    case At
    then show ?thesis
      using assms ids ms by (simp add: record_value_def decode_record_def obj_def record_ok_def seconds_ok_def)
  next
    case Every
    then obtain s where s: "sr_every_seconds r = Some s" "MIN_EVERY_SECONDS \<le> s" "s \<le> of_nat MAX_SAFE_INTEGER"
      "sr_after_seconds r = None"
      using assms by (auto simp: record_ok_def seconds_ok_def)
    have pos: "0 < s" using s(2) by (simp add: MIN_EVERY_SECONDS_def)
    have i: "in_i64 s" using s pos safe_seconds_in_range [of s] by (simp add: in_i64_def i64_min_def)
    have m: "checked_mul_i64 s 1000 \<noteq> None" using safe_seconds_in_range [OF pos s(3)] by (simp add: checked_mul_i64_def)
    show ?thesis
      using Every s ids ms m as_i64_json_i64 [OF i]
      by (simp add: record_value_def decode_record_def obj_def)
  qed
qed

section \<open>Fixed-rate arithmetic\<close>

lemma every_interval_ok:
  assumes "record_ok r" "sr_kind r = Every"
  obtains i where "every_interval r = Some i" "300000 \<le> i" "i \<le> 9007199254740991000"
    "sr_every_seconds r = Some (i div 1000)" "i mod 1000 = 0"
proof -
  obtain s where s: "sr_every_seconds r = Some s" "300 \<le> s" "s \<le> of_nat MAX_SAFE_INTEGER"
    using assms by (auto simp: record_ok_def seconds_ok_def MIN_EVERY_SECONDS_def)
  show ?thesis
    by (rule that [of "s * 1000"])
      (use s safe_seconds_in_range [of s] in \<open>simp_all add: every_interval_def MAX_SAFE_INTEGER_def\<close>)
qed

lemma latest_multiple:
  assumes "0 < (i :: int)" "0 \<le> d"
  shows "0 \<le> d div i * i" "d div i * i \<le> d" "d < d div i * i + i"
proof -
  have "d = d div i * i + d mod i" "0 \<le> d mod i" "d mod i < i" using assms by simp_all
  then show "d div i * i \<le> d" "d < d div i * i + i" by linarith+
  show "0 \<le> d div i * i" using assms by (simp add: pos_imp_zdiv_nonneg_iff)
qed

lemma instant_small: "MIN_INSTANT_MS \<le> n \<Longrightarrow> n \<le> MAX_INSTANT_MS \<Longrightarrow> -62135596800000 \<le> n \<and> n \<le> 253402300799999"
  by (simp add: MIN_INSTANT_MS_def MAX_INSTANT_MS_def)

lemma every_occurrence_value:
  assumes "record_ok r" "sr_kind r = Every" "sr_scheduled_ms r \<le> accepted" "accepted \<le> MAX_INSTANT_MS"
    and i: "every_interval r = Some i"
  defines "m \<equiv> sr_scheduled_ms r + (accepted - sr_scheduled_ms r) div i * i"
  shows "every_occurrence r accepted = format_instant m \<and> format_instant m \<noteq> None
    \<and> sr_scheduled_ms r \<le> m \<and> m \<le> accepted \<and> accepted < m + i"
proof -
  have pos: "0 < i" using every_interval_ok [OF assms(1,2)] i by (metis option.inject order_less_le_trans zero_less_numeral)
  have lo: "MIN_INSTANT_MS \<le> sr_scheduled_ms r"
    using assms(1) format_instant_Some_iff [of "sr_scheduled_ms r"] by (auto simp: record_ok_def)
  note l = latest_multiple [OF pos, of "accepted - sr_scheduled_ms r"]
  have le: "sr_scheduled_ms r \<le> m" "m \<le> accepted" "accepted < m + i" using l assms(3) by (simp_all add: m_def)
  have "in_i64 ((accepted - sr_scheduled_ms r) div i * i)" "in_i64 m"
    using l le lo assms(3,4) by (simp_all add: in_i64_def i64_min_def i64_max_def MIN_INSTANT_MS_def MAX_INSTANT_MS_def m_def)
  then have "every_occurrence r accepted = format_instant m"
    using i assms(3) by (simp add: every_occurrence_def checked_mul_i64_def checked_add_i64_def m_def)
  moreover have "format_instant m \<noteq> None" using le lo assms(4) by (simp add: format_instant_fields)
  ultimately show ?thesis using le by simp
qed

lemma every_next_value:
  assumes "record_ok r" "sr_kind r = Every" "sr_scheduled_ms r \<le> accepted" "accepted \<le> MAX_INSTANT_MS"
    and i: "every_interval r = Some i"
  defines "m \<equiv> sr_scheduled_ms r + ((accepted - sr_scheduled_ms r) div i + 1) * i"
  shows "every_next r accepted = Some (map_option (\<lambda>s. r\<lparr>sr_scheduled_ms := m, sr_scheduled_at := s\<rparr>) (format_instant m))
    \<and> accepted < m \<and> m - i \<le> accepted"
proof -
  obtain i' where "every_interval r = Some i'" "300000 \<le> i'" "i' \<le> 9007199254740991000"
    using every_interval_ok [OF assms(1,2)] .
  with i have pos: "300000 \<le> i" "i \<le> 9007199254740991000" by simp_all
  have lo: "MIN_INSTANT_MS \<le> sr_scheduled_ms r"
    using assms(1) format_instant_Some_iff [of "sr_scheduled_ms r"] by (auto simp: record_ok_def)
  let ?q = "(accepted - sr_scheduled_ms r) div i"
  have l: "0 \<le> ?q * i" "?q * i \<le> accepted - sr_scheduled_ms r" "accepted - sr_scheduled_ms r < ?q * i + i"
    using latest_multiple [of i "accepted - sr_scheduled_ms r"] pos assms(3) by simp_all
  have q: "0 \<le> ?q" using pos assms(3) by (simp add: pos_imp_zdiv_nonneg_iff)
  have qi: "?q \<le> ?q * i" using mult_left_mono [of 1 i ?q] q pos by simp
  have m: "(?q + 1) * i = ?q * i + i" by (simp add: algebra_simps)
  have "in_i64 (?q + 1)" "in_i64 ((?q + 1) * i)" "in_i64 m"
    using l q qi pos lo assms(3,4) unfolding m_def m
    by (simp_all add: in_i64_def i64_min_def i64_max_def MIN_INSTANT_MS_def MAX_INSTANT_MS_def)
  then have "every_next r accepted = Some (map_option (\<lambda>s. r\<lparr>sr_scheduled_ms := m, sr_scheduled_at := s\<rparr>) (format_instant m))"
    using i assms(3)
    by (simp add: every_next_def Let_def checked_mul_i64_def checked_add_i64_def m_def split: option.splits)
  then show ?thesis using l by (simp add: m_def m)
qed

lemma every_next_ok:
  assumes "record_ok r" "sr_kind r = Every" "every_next r accepted = Some (Some r')"
  shows "record_ok r' \<and> sr_kind r' = Every \<and> sr_id r' = sr_id r"
  using assms
  by (auto simp: every_next_def Let_def bind_eq_Some_conv record_ok_def seconds_ok_def split: if_splits option.splits)

section \<open>Invariant of the projection\<close>

definition schedules_ok :: "schedule_fold \<Rightarrow> bool" where
  "schedules_ok fs \<longleftrightarrow>
     bt_sorted (sf_active fs) \<and> distinct (sf_order fs) \<and> distinct (sf_seen fs) \<and> sorted (sf_seen fs)
     \<and> set (sf_seen fs) = set (sf_order fs)
     \<and> (\<forall>k r. map_of (sf_active fs) k = Some r \<longrightarrow> k \<in> set (sf_order fs) \<and> sr_id r = k \<and> record_ok r)"

lemma schedules_okD:
  assumes "schedules_ok fs" "map_of (sf_active fs) k = Some r"
  shows "record_ok r" "sr_id r = k" "k \<in> set (sf_order fs)" "trimmed k"
  using assms unfolding schedules_ok_def record_ok_def by blast+

lemma schedules_ok_none: "schedules_ok no_schedules"
  by (simp add: schedules_ok_def no_schedules_def bt_sorted_def)

lemma decode_record_id: "decode_record v = Inr r \<Longrightarrow> get_str ''id'' v = Some (sr_id r)"
  by (auto simp: decode_record_def Let_def get_str_def json_get_def bind_eq_Some_conv)

lemma fold_create_Inr:
  "fold_create fs kvs = Inr fs' \<longleftrightarrow>
     length kvs = 3 \<and> (\<exists>v r. map_of kvs ''schedule'' = Some v \<and> decode_record v = Inr r
       \<and> sr_id r \<notin> set (sf_seen fs) \<and> map_of (sf_active fs) (sr_id r) = None
       \<and> fs' = \<lparr>sf_active = bt_insert (sr_id r) r (sf_active fs), sf_order = sf_order fs @ [sr_id r],
               sf_seen = insort_insert (sr_id r) (sf_seen fs)\<rparr>)"
  by (auto simp: fold_create_def decode_record_id)

lemma fold_delete_Inr:
  "fold_delete fs kvs = Inr fs' \<longleftrightarrow>
     length kvs = 3 \<and> (\<exists>x r. get_str ''id'' (JObj kvs) = Some x \<and> trimmed x
       \<and> map_of (sf_active fs) x = Some r \<and> fs' = fs\<lparr>sf_active := bt_remove x (sf_active fs)\<rparr>)"
  by (auto simp: fold_delete_def)

lemma fold_dispatch_Inr:
  "fold_dispatch fs kvs = Inr fs' \<longleftrightarrow>
     (\<exists>x r. get_str ''id'' (JObj kvs) = Some x \<and> trimmed x \<and> map_of (sf_active fs) x = Some r
       \<and> (if sr_kind r = Every
          then length kvs = 4 \<and> (\<exists>s a nxt. get_str ''acceptedAt'' (JObj kvs) = Some s \<and> parse_instant s = Some a
                 \<and> every_next r a = Some nxt
                 \<and> fs' = fs\<lparr>sf_active := (case nxt of None \<Rightarrow> bt_remove x (sf_active fs)
                                        | Some r' \<Rightarrow> bt_insert x r' (bt_remove x (sf_active fs)))\<rparr>)
          else length kvs = 3 \<and> fs' = fs\<lparr>sf_active := bt_remove x (sf_active fs)\<rparr>))"
proof (cases "get_str ''id'' (JObj kvs)")
  case (Some x)
  then show ?thesis by (cases "map_of (sf_active fs) x") (auto simp: fold_dispatch_def Let_def)
qed (simp add: fold_dispatch_def)

lemma distinct_insort_insert [simp]: "distinct xs \<Longrightarrow> distinct (insort_insert x xs)"
  by (simp add: insort_insert_key_def distinct_insort)

lemma fold_create_ok:
  assumes "schedules_ok fs" "fold_create fs kvs = Inr fs'"
  shows "schedules_ok fs'"
proof -
  from assms(2) obtain v r where v: "decode_record v = Inr r" "sr_id r \<notin> set (sf_seen fs)"
    and fs': "fs' = \<lparr>sf_active = bt_insert (sr_id r) r (sf_active fs), sf_order = sf_order fs @ [sr_id r],
               sf_seen = insort_insert (sr_id r) (sf_seen fs)\<rparr>"
    by (auto simp: fold_create_Inr)
  with decode_record_ok [OF v(1)] assms(1) show ?thesis
    by (auto simp: schedules_ok_def fs' set_insort_insert bt_sorted_insert sorted_insort_insert)
qed

lemma schedules_ok_remove: "schedules_ok fs \<Longrightarrow> schedules_ok (fs\<lparr>sf_active := bt_remove x (sf_active fs)\<rparr>)"
  by (simp add: schedules_ok_def bt_sorted_remove)

lemma fold_delete_ok: "schedules_ok fs \<Longrightarrow> fold_delete fs kvs = Inr fs' \<Longrightarrow> schedules_ok fs'"
  by (auto simp: fold_delete_Inr intro: schedules_ok_remove)

lemma fold_dispatch_ok:
  assumes "schedules_ok fs" "fold_dispatch fs kvs = Inr fs'"
  shows "schedules_ok fs'"
proof -
  from assms(2) obtain x r nxt where x: "map_of (sf_active fs) x = Some r"
    and fs': "fs' = fs\<lparr>sf_active := (case nxt of None \<Rightarrow> bt_remove x (sf_active fs)
                                     | Some r' \<Rightarrow> bt_insert x r' (bt_remove x (sf_active fs)))\<rparr>"
    and nxt: "\<And>r'. nxt = Some r' \<Longrightarrow> sr_kind r = Every \<and> (\<exists>a. every_next r a = Some (Some r'))"
    unfolding fold_dispatch_Inr by (metis option.distinct(1) option.simps(4))
  from assms(1) x have r: "record_ok r" "sr_id r = x" "x \<in> set (sf_order fs)" by (auto simp: schedules_ok_def)
  show ?thesis
  proof (cases nxt)
    case None
    with assms(1) fs' show ?thesis by (simp add: schedules_ok_remove)
  next
    case (Some r')
    with nxt obtain a where a: "sr_kind r = Every" "every_next r a = Some (Some r')" by blast
    from every_next_ok [OF r(1) a] assms(1) r(2,3) Some show ?thesis
      by (simp add: schedules_ok_def fs' bt_sorted_insert bt_sorted_remove)
  qed
qed

lemma schedule_step_ok: "schedules_ok fs \<Longrightarrow> schedule_step fs e = Inr fs' \<Longrightarrow> schedules_ok fs'"
  by (auto simp: schedule_step_def intro: fold_create_ok fold_delete_ok fold_dispatch_ok split: if_splits)

lemma schedules_ok_fold: "try_fold schedule_step no_schedules es = Inr fs \<Longrightarrow> schedules_ok fs"
  by (erule try_fold_invariant [where P = schedules_ok]) (auto intro: schedules_ok_none schedule_step_ok)

text \<open>The collected list reads the final map in creation order.\<close>

lemma map_filter_cong: "(\<And>x. x \<in> set xs \<Longrightarrow> f x = g x) \<Longrightarrow> List.map_filter f xs = List.map_filter g xs"
  by (induction xs) (simp_all add: List.map_filter_simps split: option.split)

lemma map_filter_set: "set (List.map_filter f xs) = {y. \<exists>x\<in>set xs. f x = Some y}"
  by (induction xs) (auto simp: List.map_filter_simps split: option.splits)

lemma collect_active_filter: "distinct xs \<Longrightarrow> collect_active xs active = List.map_filter (map_of active) xs"
proof (induction xs arbitrary: active)
  case (Cons x xs)
  have "List.map_filter (map_of (bt_remove x active)) xs = List.map_filter (map_of active) xs"
    using Cons.prems by (intro map_filter_cong) auto
  with Cons show ?case by (simp add: List.map_filter_simps del: map_of_bt_remove split: option.split)
qed (simp add: List.map_filter_simps)

lemma fo_active_finish: "schedules_ok fs \<Longrightarrow> fo_active (finish_fold fs) = List.map_filter (map_of (sf_active fs)) (sf_order fs)"
  by (simp add: finish_fold_def schedules_ok_def collect_active_filter)

lemma fo_seen_finish [simp]: "fo_seen (finish_fold fs) = sf_seen fs"
  by (simp add: finish_fold_def)

lemma active_records:
  assumes "schedules_ok fs"
  shows "(r \<in> set (fo_active (finish_fold fs))) = (map_of (sf_active fs) (sr_id r) = Some r)"
  using assms unfolding fo_active_finish [OF assms] map_filter_set by (auto simp: schedules_ok_def)

lemma active_distinct:
  assumes "schedules_ok fs"
  shows "distinct (map sr_id (fo_active (finish_fold fs)))"
proof -
  have "distinct (map sr_id (List.map_filter (map_of (sf_active fs)) xs))" if "distinct xs" for xs
    using that
  proof (induction xs)
    case (Cons x xs)
    show ?case
    proof (cases "map_of (sf_active fs) x")
      case (Some r)
      then have "sr_id r = x" using assms by (auto simp: schedules_ok_def)
      moreover have "sr_id r' \<noteq> x" if "r' \<in> set (List.map_filter (map_of (sf_active fs)) xs)" for r'
        using that assms Cons.prems unfolding map_filter_set by (auto simp: schedules_ok_def)
      ultimately show ?thesis using Cons Some by (force simp: List.map_filter_simps)
    qed (use Cons in \<open>simp add: List.map_filter_simps\<close>)
  qed (simp add: List.map_filter_simps)
  then show ?thesis using assms unfolding fo_active_finish [OF assms] by (simp add: schedules_ok_def)
qed

section \<open>Appending a change\<close>

text \<open>The payloads the tools and the driver append.\<close>

definition create_change :: "schedule \<Rightarrow> json" where
  "create_change r = obj [(''version'', jnat 1), (''operation'', JStr ''create''), (''schedule'', record_value r)]"

definition delete_change :: "string \<Rightarrow> json" where
  "delete_change x = obj [(''version'', jnat 1), (''operation'', JStr ''delete''), (''id'', JStr x)]"

definition dispatch_change :: "string \<Rightarrow> json" where
  "dispatch_change x = obj [(''version'', jnat 1), (''operation'', JStr ''dispatch''), (''id'', JStr x)]"

definition dispatch_every_change :: "string \<Rightarrow> string \<Rightarrow> json" where
  "dispatch_every_change x accepted_at =
     obj [(''version'', jnat 1), (''operation'', JStr ''dispatch''), (''id'', JStr x), (''acceptedAt'', JStr accepted_at)]"

lemmas change_defs = create_change_def delete_change_def dispatch_change_def dispatch_every_change_def obj_def
  get_str_def get_u64_def json_get_def

interpretation schedule_fold: durable_fold schedule_step "\<lambda>e. ev_type e = ''schedule/change''"
  by unfold_locales (simp add: schedule_step_def)

definition seed_of :: "session_header \<Rightarrow> nat" where
  "seed_of h = (case hd_seed_length h of None \<Rightarrow> 0 | Some n \<Rightarrow> n)"

lemma fold_schedules_Inr:
  "fold_schedules h es = Inr f \<longleftrightarrow>
     seed_of h \<le> length es
     \<and> (\<exists>fs. try_fold schedule_step no_schedules (drop (seed_of h) es) = Inr fs \<and> f = finish_fold fs)"
  by (auto simp: fold_schedules_def seed_of_def Let_def)

lemma fold_schedules_snoc:
  assumes "fold_schedules h es = Inr f"
  obtains fs where "schedules_ok fs" "f = finish_fold fs"
    "fold_schedules h (es @ [e]) = and_then (schedule_step fs e) (\<lambda>fs'. Inr (finish_fold fs'))"
proof -
  from assms obtain fs where seed: "seed_of h \<le> length es" and f: "f = finish_fold fs"
    and fs: "try_fold schedule_step no_schedules (drop (seed_of h) es) = Inr fs"
    by (auto simp: fold_schedules_Inr)
  have "try_fold schedule_step no_schedules (drop (seed_of h) (es @ [e])) = schedule_step fs e"
    using seed fs by (simp add: schedule_fold.fold_snoc)
  then have "fold_schedules h (es @ [e]) = and_then (schedule_step fs e) (\<lambda>fs'. Inr (finish_fold fs'))"
    using seed unfolding fold_schedules_def seed_of_def [symmetric] by (simp add: ensure_def Let_def)
  with schedules_ok_fold [OF fs] f that show ?thesis by blast
qed

lemma fold_other_event:
  assumes "ev_type e \<noteq> ''schedule/change''" and "fold_schedules h es = Inr f"
  shows "fold_schedules h (es @ [e]) = Inr f"
proof -
  obtain fs where "f = finish_fold fs"
    and "fold_schedules h (es @ [e]) = and_then (schedule_step fs e) (\<lambda>fs'. Inr (finish_fold fs'))"
    using fold_schedules_snoc [OF assms(2)] .
  with schedule_fold.skip [OF assms(1)] show ?thesis by simp
qed

lemma fold_created:
  assumes "fold_schedules h es = Inr f" "record_ok r" "sr_id r \<notin> set (fo_seen f)"
    and "ev_type e = ''schedule/change''" "ev_data e = create_change r"
  shows "fold_schedules h (es @ [e])
    = Inr \<lparr>fo_active = fo_active f @ [r], fo_seen = insort_insert (sr_id r) (fo_seen f)\<rparr>"
proof -
  obtain fs where ok: "schedules_ok fs" and f: "f = finish_fold fs"
    and step: "fold_schedules h (es @ [e]) = and_then (schedule_step fs e) (\<lambda>fs'. Inr (finish_fold fs'))"
    using fold_schedules_snoc [OF assms(1)] .
  have new: "sr_id r \<notin> set (sf_seen fs)" "sr_id r \<notin> set (sf_order fs)" "map_of (sf_active fs) (sr_id r) = None"
    using assms(3) ok unfolding f schedules_ok_def by (simp, simp, metis fo_seen_finish not_None_eq)
  let ?fs' = "\<lparr>sf_active = bt_insert (sr_id r) r (sf_active fs), sf_order = sf_order fs @ [sr_id r],
               sf_seen = insort_insert (sr_id r) (sf_seen fs)\<rparr>"
  have "schedule_step fs e = Inr ?fs'"
    using assms(4,5) new decode_record_value [OF assms(2)]
    by (simp add: schedule_step_def change_defs fold_create_Inr)
  moreover have "schedules_ok ?fs'" using schedule_step_ok [OF ok calculation] .
  moreover have "List.map_filter ((map_of (sf_active fs))(sr_id r \<mapsto> r)) (sf_order fs)
      = List.map_filter (map_of (sf_active fs)) (sf_order fs)"
    using new(2) by (intro map_filter_cong) auto
  then have "List.map_filter (map_of (sf_active ?fs')) (sf_order ?fs')
      = List.map_filter (map_of (sf_active fs)) (sf_order fs) @ [r]"
    by (simp add: List.map_filter_def)
  ultimately show ?thesis
    using ok by (intro trans [OF step]) (simp add: f fo_active_finish folded.equality)
qed

lemma map_filter_removed:
  assumes "\<And>k r. m k = Some r \<Longrightarrow> sr_id r = k"
  shows "List.map_filter (m(x := None)) xs = filter (\<lambda>r. sr_id r \<noteq> x) (List.map_filter m xs)"
  using assms by (induction xs) (auto simp: List.map_filter_simps split: option.splits)

lemma map_filter_replaced:
  assumes "\<And>k r. m k = Some r \<Longrightarrow> sr_id r = k" and "m x \<noteq> None"
  shows "List.map_filter (m(x \<mapsto> r')) xs = map (\<lambda>r. if sr_id r = x then r' else r) (List.map_filter m xs)"
  using assms by (induction xs) (auto simp: List.map_filter_simps split: option.splits)

lemma fold_removed:
  assumes ok: "schedules_ok fs"
  shows "finish_fold (fs\<lparr>sf_active := bt_remove x (sf_active fs)\<rparr>)
    = (finish_fold fs)\<lparr>fo_active := filter (\<lambda>r. sr_id r \<noteq> x) (fo_active (finish_fold fs))\<rparr>"
proof -
  have ids: "\<And>k r. map_of (sf_active fs) k = Some r \<Longrightarrow> sr_id r = k" using ok by (auto simp: schedules_ok_def)
  show ?thesis
    using map_filter_removed [OF ids] fo_active_finish [OF ok] fo_active_finish [OF schedules_ok_remove [OF ok, of x]]
    by (intro folded.equality) simp_all
qed

lemma fold_deleted:
  assumes "fold_schedules h es = Inr f" "x \<in> sr_id ` set (fo_active f)"
    and "ev_type e = ''schedule/change''" "ev_data e = delete_change x"
  shows "fold_schedules h (es @ [e]) = Inr (f\<lparr>fo_active := filter (\<lambda>r. sr_id r \<noteq> x) (fo_active f)\<rparr>)"
proof -
  obtain fs where ok: "schedules_ok fs" and f: "f = finish_fold fs"
    and step: "fold_schedules h (es @ [e]) = and_then (schedule_step fs e) (\<lambda>fs'. Inr (finish_fold fs'))"
    using fold_schedules_snoc [OF assms(1)] .
  from assms(2) obtain r where r: "map_of (sf_active fs) x = Some r"
    using active_records [OF ok] f by auto
  then have "trimmed x" by (rule schedules_okD(4) [OF ok])
  then have "schedule_step fs e = Inr (fs\<lparr>sf_active := bt_remove x (sf_active fs)\<rparr>)"
    using assms(3,4) r by (simp add: schedule_step_def change_defs fold_delete_Inr)
  then show ?thesis by (simp add: step f fold_removed [OF ok])
qed

lemma fold_dispatched_once:
  assumes "fold_schedules h es = Inr f" "r \<in> set (fo_active f)" "sr_kind r \<noteq> Every"
    and "ev_type e = ''schedule/change''" "ev_data e = dispatch_change (sr_id r)"
  shows "fold_schedules h (es @ [e]) = Inr (f\<lparr>fo_active := filter (\<lambda>r'. sr_id r' \<noteq> sr_id r) (fo_active f)\<rparr>)"
proof -
  obtain fs where ok: "schedules_ok fs" and f: "f = finish_fold fs"
    and step: "fold_schedules h (es @ [e]) = and_then (schedule_step fs e) (\<lambda>fs'. Inr (finish_fold fs'))"
    using fold_schedules_snoc [OF assms(1)] .
  from assms(2) have r: "map_of (sf_active fs) (sr_id r) = Some r"
    using active_records [OF ok] f by auto
  then have "valid_id (sr_id r) = Inr (sr_id r)" using schedules_okD(4) [OF ok] by simp
  then have "schedule_step fs e = Inr (fs\<lparr>sf_active := bt_remove (sr_id r) (sf_active fs)\<rparr>)"
    using assms(3-5) r by (simp add: schedule_step_def change_defs fold_dispatch_def)
  then show ?thesis by (simp add: step f fold_removed [OF ok])
qed

text \<open>A repeating reminder that is dispatched keeps its place with its next occurrence, or ends when
  that has no four-digit year.\<close>

lemma fold_dispatched_every:
  assumes "fold_schedules h es = Inr f" "r \<in> set (fo_active f)" "sr_kind r = Every"
    and "format_instant accepted = Some stamp" "every_next r accepted = Some nxt"
    and "ev_type e = ''schedule/change''" "ev_data e = dispatch_every_change (sr_id r) stamp"
  shows "fold_schedules h (es @ [e])
    = Inr (f\<lparr>fo_active := (case nxt of
                None \<Rightarrow> filter (\<lambda>r'. sr_id r' \<noteq> sr_id r) (fo_active f)
              | Some s \<Rightarrow> map (\<lambda>r'. if sr_id r' = sr_id r then s else r') (fo_active f))\<rparr>)"
proof -
  obtain fs where ok: "schedules_ok fs" and f: "f = finish_fold fs"
    and step: "fold_schedules h (es @ [e]) = and_then (schedule_step fs e) (\<lambda>fs'. Inr (finish_fold fs'))"
    using fold_schedules_snoc [OF assms(1)] .
  from assms(2) have r: "map_of (sf_active fs) (sr_id r) = Some r"
    using active_records [OF ok] f by auto
  then have t: "valid_id (sr_id r) = Inr (sr_id r)" using schedules_okD(4) [OF ok] by simp
  let ?fs' = "fs\<lparr>sf_active := (case nxt of None \<Rightarrow> bt_remove (sr_id r) (sf_active fs)
                            | Some s \<Rightarrow> bt_insert (sr_id r) s (bt_remove (sr_id r) (sf_active fs)))\<rparr>"
  have fs': "schedule_step fs e = Inr ?fs'"
    using assms(3-7) r t
    by (simp add: schedule_step_def change_defs fold_dispatch_def Let_def parse_instant_Some [THEN iffD2])
  show ?thesis
  proof (cases nxt)
    case None
    with fs' show ?thesis by (simp add: step f fold_removed [OF ok])
  next
    case (Some s)
    have ids: "\<And>k r. map_of (sf_active fs) k = Some r \<Longrightarrow> sr_id r = k" using ok by (auto simp: schedules_ok_def)
    have "finish_fold ?fs' = (finish_fold fs)\<lparr>fo_active := map (\<lambda>r'. if sr_id r' = sr_id r then s else r') (fo_active (finish_fold fs))\<rparr>"
      using map_filter_replaced [where m = "map_of (sf_active fs)" and x = "sr_id r", OF ids] r fo_active_finish [OF ok]
        fo_active_finish [OF schedule_step_ok [OF ok fs']]
      by (intro folded.equality) (simp_all add: Some)
    with fs' Some show ?thesis by (simp add: step f)
  qed
qed

section \<open>Ids\<close>

lemma strip_one_first_byte:
  assumes "list_all (\<lambda>w. w \<noteq> [] \<and> hd w \<noteq> c) ws"
  shows "strip_one ws (c # s) = None"
proof -
  have "filter (\<lambda>w. w \<noteq> [] \<and> take (length w) (c # s) = w) ws = []"
    unfolding filter_empty_conv
  proof (intro ballI notI)
    fix w
    assume w: "w \<in> set ws" "w \<noteq> [] \<and> take (length w) (c # s) = w"
    from w(2) have "hd w = c" by (cases w) auto
    with w assms show False by (auto simp: list_all_iff)
  qed
  then show ?thesis by (simp add: strip_one_def)
qed

lemma show_nat_last_digit: "\<exists>p k. show_nat n = p @ [char_of (48 + k :: nat)] \<and> k < 10"
  by (subst show_nat.simps) (auto intro: exI [of _ "n mod 10"])

lemma trimmed_schedule_name: "trimmed (schedule_name n)"
proof -
  obtain p k where s: "schedule_name n = CHR ''s'' # (p @ [char_of (48 + k :: nat)])" and k: "k < 10"
    using show_nat_last_digit [of n] by (auto simp: schedule_name_def)
  have first: "strip_one white_space (schedule_name n) = None"
    unfolding s by (rule strip_one_first_byte) code_simp
  have digits: "list_all (\<lambda>w. w \<noteq> [] \<and> list_all (\<lambda>j. hd w \<noteq> char_of (48 + j :: nat)) [0..<10]) (map rev white_space)"
    by code_simp
  have "list_all (\<lambda>w. w \<noteq> [] \<and> hd w \<noteq> char_of (48 + k)) (map rev white_space)"
    by (rule list.pred_mono_strong [OF digits]) (use k in \<open>auto simp: list_all_iff\<close>)
  from strip_one_first_byte [OF this] have "strip_one (map rev white_space) (rev (schedule_name n)) = None"
    by (simp add: s)
  with first show ?thesis
    by (simp add: trimmed_def trim_def trim_start_def trim_end_def trim_left_id) (simp add: s)
qed

lemma schedule_name_inject [simp]: "(schedule_name a = schedule_name b) = (a = b)"
  by (simp add: schedule_name_def)

text \<open>The loop looks at no more names than there are ids in use, plus one.\<close>

lemma allocate_from_returns:
  assumes "number + k \<le> u64_max" and "schedule_name (number + k) \<notin> set seen"
  shows "\<exists>j \<le> k. allocate_from seen number = Some (schedule_name (number + j)) \<and> schedule_name (number + j) \<notin> set seen"
  using assms
proof (induction k arbitrary: number)
  case 0
  then show ?case by (simp add: allocate_from.simps)
next
  case (Suc k)
  show ?case
  proof (cases "schedule_name number \<in> set seen")
    case False
    then show ?thesis by (intro exI [of _ 0]) (simp add: allocate_from.simps)
  next
    case True
    have "saturating_succ number = Suc number" using Suc.prems(1) by (simp add: saturating_succ_def)
    with True have "allocate_from seen number = allocate_from seen (Suc number)"
      by (subst allocate_from.simps) simp
    with Suc.IH [of "Suc number"] Suc.prems show ?thesis by (metis Suc_le_mono add_Suc_right add_Suc_shift)
  qed
qed

lemma unused_name: "\<exists>k \<le> length seen. schedule_name (number + k) \<notin> set seen"
proof (rule ccontr)
  assume "\<not> ?thesis"
  then have "(\<lambda>k. schedule_name (number + k)) ` {..length seen} \<subseteq> set seen" by auto
  then have "card ((\<lambda>k. schedule_name (number + k)) ` {..length seen}) \<le> card (set seen)"
    by (rule card_mono [rotated]) simp
  moreover have "card ((\<lambda>k. schedule_name (number + k)) ` {..length seen}) = Suc (length seen)"
    by (subst card_image) (auto simp: inj_on_def)
  ultimately show False using card_length [of seen] by simp
qed

lemma allocate_id_fresh:
  assumes "2 * length (fo_seen f) < u64_max"
  shows "\<exists>x. allocate_id f = Some x \<and> x \<notin> set (fo_seen f) \<and> trimmed x"
proof -
  let ?n = "saturating_succ (length (fo_seen f))"
  have n: "?n = Suc (length (fo_seen f))" using assms by (simp add: saturating_succ_def)
  obtain k where k: "k \<le> length (fo_seen f)" "schedule_name (?n + k) \<notin> set (fo_seen f)"
    using unused_name by blast
  with assms n have "?n + k \<le> u64_max" by simp
  from allocate_from_returns [OF this k(2)] show ?thesis
    by (auto simp: allocate_id_def trimmed_schedule_name)
qed

section \<open>What is due\<close>

lemma set_due: "set (due b now f) = {r \<in> set (fo_active f). (sr_kind r = Every) = b \<and> sr_scheduled_ms r \<le> now}"
  by (auto simp: due_def)

lemma sorted_due: "sorted (map sr_scheduled_ms (due b now f))"
  by (simp add: due_def)

lemma foldl_min_le: "foldl min x ys \<le> (x :: int)"
proof (induction ys arbitrary: x)
  case (Cons y ys)
  from Cons [of "min x y"] show ?case by simp
qed simp

lemma earliest_Some: "earliest xs = Some m \<Longrightarrow> m \<in> set xs \<and> (\<forall>x\<in>set xs. m \<le> x)"
proof -
  have "foldl min x ys \<in> set (x # ys) \<and> (\<forall>z\<in>set (x # ys). foldl min x ys \<le> z)" for x :: int and ys
  proof (induction ys arbitrary: x)
    case (Cons y ys)
    from Cons [of "min x y"] foldl_min_le [of "min x y" ys] show ?case by (auto simp: min_def split: if_splits)
  qed simp
  then show "earliest xs = Some m \<Longrightarrow> m \<in> set xs \<and> (\<forall>x\<in>set xs. m \<le> x)"
    by (cases xs) (auto simp: earliest_def)
qed

lemma earliest_None [simp]: "(earliest xs = None) = (xs = [])"
  by (simp add: earliest_def split: list.split)

lemma decide_cases:
  shows "decide f now = OneShot r \<Longrightarrow>
      r \<in> set (fo_active f) \<and> sr_kind r \<noteq> Every \<and> sr_scheduled_ms r \<le> now
      \<and> (\<forall>r'\<in>set (fo_active f). sr_kind r' \<noteq> Every \<longrightarrow> sr_scheduled_ms r \<le> sr_scheduled_ms r')"
    and "decide f now = EveryDue rs \<Longrightarrow>
      rs \<noteq> [] \<and> sorted (map sr_scheduled_ms rs)
      \<and> set rs = {r \<in> set (fo_active f). sr_scheduled_ms r \<le> now} \<and> (\<forall>r\<in>set rs. sr_kind r = Every)"
    and "decide f now = Wait t \<Longrightarrow>
      (\<forall>r\<in>set (fo_active f). now < sr_scheduled_ms r) \<and> (t = None) = (fo_active f = [])
      \<and> (\<forall>m. t = Some m \<longrightarrow> m \<in> sr_scheduled_ms ` set (fo_active f)
             \<and> (\<forall>r\<in>set (fo_active f). m \<le> sr_scheduled_ms r))"
proof -
  have none: "(due b now f = []) = (\<forall>r\<in>set (fo_active f). (sr_kind r = Every) = b \<longrightarrow> now < sr_scheduled_ms r)" for b
    using set_due [of b now f] by (auto simp flip: set_empty)
  {
    assume "decide f now = OneShot r"
    then obtain rs where d: "due False now f = r # rs"
      by (auto simp: decide_def Let_def split: list.splits if_splits)
    with set_due [of False now f] have r: "r \<in> set (fo_active f)" "sr_kind r \<noteq> Every" "sr_scheduled_ms r \<le> now" by auto
    have "sr_scheduled_ms r \<le> sr_scheduled_ms r'" if "r' \<in> set (fo_active f)" "sr_kind r' \<noteq> Every" for r'
    proof (cases "sr_scheduled_ms r' \<le> now")
      case True
      with that have "r' \<in> set (r # rs)" using set_due [of False now f] d by auto
      then show ?thesis using sorted_due [of False now f] d by auto
    qed (use r in simp)
    with r show "r \<in> set (fo_active f) \<and> sr_kind r \<noteq> Every \<and> sr_scheduled_ms r \<le> now
      \<and> (\<forall>r'\<in>set (fo_active f). sr_kind r' \<noteq> Every \<longrightarrow> sr_scheduled_ms r \<le> sr_scheduled_ms r')" by blast
  next
    assume "decide f now = EveryDue rs"
    then have "due False now f = []" and rs: "due True now f = rs" "rs \<noteq> []"
      by (auto simp: decide_def Let_def split: list.splits if_splits)
    then show "rs \<noteq> [] \<and> sorted (map sr_scheduled_ms rs)
      \<and> set rs = {r \<in> set (fo_active f). sr_scheduled_ms r \<le> now} \<and> (\<forall>r\<in>set rs. sr_kind r = Every)"
      using set_due [of True now f] sorted_due [of True now f] none [of False] by fastforce
  next
    assume "decide f now = Wait t"
    then have d: "due False now f = []" "due True now f = []"
      and t: "t = earliest (map sr_scheduled_ms (filter (\<lambda>r. sr_scheduled_ms r > now) (fo_active f)))"
      by (auto simp: decide_def Let_def split: list.splits if_splits)
    have all: "\<forall>r\<in>set (fo_active f). now < sr_scheduled_ms r" using d none [of False] none [of True] by blast
    then have t': "t = earliest (map sr_scheduled_ms (fo_active f))" unfolding t by (simp add: filter_id_conv)
    with all earliest_Some [of "map sr_scheduled_ms (fo_active f)"]
    show "(\<forall>r\<in>set (fo_active f). now < sr_scheduled_ms r) \<and> (t = None) = (fo_active f = [])
      \<and> (\<forall>m. t = Some m \<longrightarrow> m \<in> sr_scheduled_ms ` set (fo_active f)
             \<and> (\<forall>r\<in>set (fo_active f). m \<le> sr_scheduled_ms r))" by auto
  }
qed

section \<open>Properties\<close>

text \<open>A fixed-rate reminder never drifts, never repeats and never overflows. For a stored repeating
  reminder that is due at a printable instant, the occurrence delivered is the latest one not
  after the acceptance, the next one is strictly later and less than one interval ahead, both lie a
  whole number of intervals after the scheduled time, and the 64-bit arithmetic of both computations
  succeeds; the rule ends only when its next occurrence has no four-digit year.\<close>

theorem fixed_rate_stays_aligned:
  assumes "record_ok r" "sr_kind r = Every" "sr_scheduled_ms r \<le> accepted" "accepted \<le> MAX_INSTANT_MS"
  shows "\<exists>i k. sr_every_seconds r = Some (i div 1000) \<and> i mod 1000 = 0 \<and> 300000 \<le> i \<and> 0 \<le> k
    \<and> sr_scheduled_ms r + k * i \<le> accepted \<and> accepted < sr_scheduled_ms r + (k + 1) * i
    \<and> (\<exists>s. every_occurrence r accepted = Some s \<and> parse_instant s = Some (sr_scheduled_ms r + k * i))
    \<and> (case every_next r accepted of
         None \<Rightarrow> False
       | Some None \<Rightarrow> MAX_INSTANT_MS < sr_scheduled_ms r + (k + 1) * i
       | Some (Some r') \<Rightarrow> record_ok r' \<and> sr_scheduled_ms r' = sr_scheduled_ms r + (k + 1) * i
           \<and> r' = r\<lparr>sr_scheduled_ms := sr_scheduled_ms r', sr_scheduled_at := sr_scheduled_at r'\<rparr>)"
proof -
  obtain i where i: "every_interval r = Some i" "300000 \<le> i" "sr_every_seconds r = Some (i div 1000)" "i mod 1000 = 0"
    using every_interval_ok [OF assms(1,2)] by metis
  define k where "k = (accepted - sr_scheduled_ms r) div i"
  have k: "0 \<le> k" using i(2) assms(3) by (simp add: k_def pos_imp_zdiv_nonneg_iff)
  note occ = every_occurrence_value [OF assms i(1), folded k_def]
  note nxt = every_next_value [OF assms i(1), folded k_def]
  have lo: "MIN_INSTANT_MS \<le> sr_scheduled_ms r"
    using assms(1) format_instant_Some_iff [of "sr_scheduled_ms r"] by (auto simp: record_ok_def)
  obtain s where s: "format_instant (sr_scheduled_ms r + k * i) = Some s" using occ by auto
  have occ_s: "every_occurrence r accepted = Some s" "parse_instant s = Some (sr_scheduled_ms r + k * i)"
    using occ s by (simp_all add: parse_instant_Some)
  have succ: "case every_next r accepted of
         None \<Rightarrow> False
       | Some None \<Rightarrow> MAX_INSTANT_MS < sr_scheduled_ms r + (k + 1) * i
       | Some (Some r') \<Rightarrow> record_ok r' \<and> sr_scheduled_ms r' = sr_scheduled_ms r + (k + 1) * i
           \<and> r' = r\<lparr>sr_scheduled_ms := sr_scheduled_ms r', sr_scheduled_at := sr_scheduled_at r'\<rparr>"
  proof (cases "format_instant (sr_scheduled_ms r + (k + 1) * i)")
    case None
    then have "\<not> (MIN_INSTANT_MS \<le> sr_scheduled_ms r + (k + 1) * i \<and> sr_scheduled_ms r + (k + 1) * i \<le> MAX_INSTANT_MS)"
      by (simp add: format_instant_fields split: if_splits)
    with nxt None assms(3) lo show ?thesis by auto
  next
    case (Some s')
    with nxt assms(1,2) show ?thesis by (simp add: record_ok_def seconds_ok_def)
  qed
  have le: "sr_scheduled_ms r + k * i \<le> accepted" "accepted < sr_scheduled_ms r + (k + 1) * i"
    using occ nxt by simp_all
  show ?thesis
    by (rule exI [of _ i], rule exI [of _ k]) (intro conjI i(2-4) k le succ exI [of _ s] occ_s)
qed

definition sample_rule :: schedule where
  "sample_rule = \<lparr>sr_id = ''schedule-1'', sr_kind = Every, sr_prompt = ''stand up'',
     sr_scheduled_at = ''1970-01-01T00:10:00.000Z'', sr_scheduled_ms = 600000, sr_after_seconds = None,
     sr_every_seconds = Some 300\<rparr>"

theorem fixed_rate_stays_aligned_witness:
  "record_ok sample_rule \<and> (\<exists>i k. sr_every_seconds sample_rule = Some (i div 1000) \<and> 300000 \<le> i
     \<and> sr_scheduled_ms sample_rule + k * i \<le> 1600000 \<and> 1600000 < sr_scheduled_ms sample_rule + (k + 1) * i
     \<and> (\<exists>s. every_occurrence sample_rule 1600000 = Some s
            \<and> parse_instant s = Some (sr_scheduled_ms sample_rule + k * i)))"
proof -
  have "decode_record (record_value sample_rule) = Inr sample_rule" by code_simp
  then have ok: "record_ok sample_rule" by (rule decode_record_ok)
  moreover have "sr_kind sample_rule = Every" "sr_scheduled_ms sample_rule \<le> 1600000"
    "1600000 \<le> MAX_INSTANT_MS"
    by (simp_all add: sample_rule_def MAX_INSTANT_MS_def)
  note fixed_rate_stays_aligned [OF ok this]
  ultimately show ?thesis by blast
qed

text \<open>Ids are never reused: with fewer than \<open>2 ^ 63 - 1\<close> ids in the log the search for a new one ends,
  and its result is an id no reminder of the session, active or finished, ever had; it is one the log
  accepts.\<close>

theorem allocate_id_terminates_fresh:
  assumes "2 * length (fo_seen f) < u64_max"
  shows "\<exists>x. allocate_id f = Some x \<and> x \<notin> set (fo_seen f) \<and> valid_id x = Inr x"
  using allocate_id_fresh [OF assms] by simp

theorem allocate_id_terminates_fresh_witness:
  "\<exists>x. allocate_id \<lparr>fo_active = [], fo_seen = [''schedule-1'', ''schedule-3'']\<rparr> = Some x
     \<and> x \<notin> set [''schedule-1'', ''schedule-3''] \<and> valid_id x = Inr x"
  using allocate_id_terminates_fresh [of "\<lparr>fo_active = [], fo_seen = [''schedule-1'', ''schedule-3'']\<rparr>"]
  by (simp add: u64_max_def)

end
