(* ===== verification/Agent_Inbox.thy ===== *)
theory Agent_Inbox
  imports Session_Base "HOL-Library.Multiset"
begin

text \<open>
  The process-local inbox of an agent (\<open>Inbox\<close> in \<open>src/src/agent.rs\<close>): three FIFO queues, the combined
  arrival order of the next-step messages, and the two kinds of reservation that hold a message back
  until its durable event has committed. Every method takes the inbox lock for its whole body, so it is
  one step on the state. The notifications that follow a step carry no data; the two revisions
  they announce are part of the state. Where the sources \<open>expect\<close> a value the result is an option whose
  \<open>None\<close> is the panic.
\<close>

section \<open>Data\<close>

datatype agent_target = TFollowup | TSteer | TInject

datatype agent_error =
    DuplicateFactory | FactoryNotRegistered | AgentNotFound string | DuplicateInboxMessage string
  | AgentSetupCancelled | AgentDisposed | InvalidOptions string | SetupReservationLost
  | RuntimeFailed string | AgentSession session_error | AgentMessage tessivum_error

datatype inbox_update = EditContent "content_block list" | RemoveItem | SteerItem

datatype inbox_update_result = Updated agent_target message | NotPending | SteerUnavailable

record inbox_state =
  ib_followups :: "message list"
  ib_steers :: "message list"
  ib_injections :: "message list"
  ib_reservations :: "string set"
  ib_step_order :: "(agent_target \<times> string) list"
  ib_changes :: u64
  ib_wakes :: u64

record inbox_claim =
  cl_target :: string
  cl_entries :: "(agent_target \<times> string) list"
  cl_messages :: "message list"

record inbox_reservation =
  rv_item :: string
  rv_update :: inbox_update
  rv_target :: agent_target
  rv_message :: message
  rv_source :: agent_target
  rv_start :: nat
  rv_destination_start :: "nat option"
  rv_wakes :: bool

datatype reservation_result = Reserved inbox_reservation | ReserveNotPending | ReserveSteerUnavailable

section \<open>Queues\<close>

definition bump :: "u64 \<Rightarrow> u64" where
  "bump v = (case checked_add_u64 v 1 of None \<Rightarrow> 1 | Some n \<Rightarrow> n)"

definition pending_index :: "message list \<Rightarrow> string \<Rightarrow> nat option" where
  "pending_index queue item = position (\<lambda>m. msg_id m = item) queue"

definition pending_contains :: "inbox_state \<Rightarrow> string \<Rightarrow> bool" where
  "pending_contains st item \<longleftrightarrow>
     pending_index (ib_followups st) item \<noteq> None \<or> pending_index (ib_steers st) item \<noteq> None
     \<or> pending_index (ib_injections st) item \<noteq> None"

fun queue_of :: "agent_target \<Rightarrow> inbox_state \<Rightarrow> message list" where
  "queue_of TFollowup st = ib_followups st"
| "queue_of TSteer st = ib_steers st"
| "queue_of TInject st = ib_injections st"

fun put_queue :: "agent_target \<Rightarrow> message list \<Rightarrow> inbox_state \<Rightarrow> inbox_state" where
  "put_queue TFollowup q st = st\<lparr>ib_followups := q\<rparr>"
| "put_queue TSteer q st = st\<lparr>ib_steers := q\<rparr>"
| "put_queue TInject q st = st\<lparr>ib_injections := q\<rparr>"

definition bump_changes :: "inbox_state \<Rightarrow> inbox_state" where
  "bump_changes st = st\<lparr>ib_changes := bump (ib_changes st)\<rparr>"

definition bump_wakes :: "bool \<Rightarrow> inbox_state \<Rightarrow> inbox_state" where
  "bump_wakes wakes st = (if wakes then st\<lparr>ib_wakes := bump (ib_wakes st)\<rparr> else st)"

definition drop_order :: "(agent_target \<times> string \<Rightarrow> bool) \<Rightarrow> inbox_state \<Rightarrow> inbox_state" where
  "drop_order P st = st\<lparr>ib_step_order := filter (\<lambda>x. \<not> P x) (ib_step_order st)\<rparr>"

section \<open>Operations\<close>

definition inbox_new :: inbox_state where
  "inbox_new = \<lparr>ib_followups = [], ib_steers = [], ib_injections = [], ib_reservations = {},
     ib_step_order = [], ib_changes = 0, ib_wakes = 0\<rparr>"

definition inbox_enqueue :: "message \<Rightarrow> agent_target \<Rightarrow> inbox_state \<Rightarrow> inbox_state" where
  "inbox_enqueue m target st =
     put_queue target (queue_of target st @ [m])
       (if target = TFollowup then st else st\<lparr>ib_step_order := ib_step_order st @ [(target, msg_id m)]\<rparr>)"

definition inbox_send :: "message \<Rightarrow> agent_target \<Rightarrow> bool \<Rightarrow> inbox_state \<Rightarrow> agent_error + inbox_state" where
  "inbox_send m target wakeup st =
     and_then (map_err AgentMessage (message_validate m)) (\<lambda>_.
     if pending_contains st (msg_id m) then Inl (DuplicateInboxMessage (msg_id m))
     else Inr (bump_wakes wakeup (bump_changes (inbox_enqueue m target st))))"

definition inbox_take :: "agent_target \<Rightarrow> inbox_state \<Rightarrow> message option \<times> inbox_state" where
  "inbox_take target st =
     (case queue_of target st of
        [] \<Rightarrow> (None, st)
      | m # rest \<Rightarrow>
          if msg_id m \<in> ib_reservations st then (None, st)
          else
            (let st' = put_queue target rest st
             in (Some m,
                 bump_changes
                   (if target = TFollowup then st' else drop_order (\<lambda>(t, i). t = target \<and> i = msg_id m) st'))))"

definition has_next_step :: "inbox_state \<Rightarrow> bool" where
  "has_next_step st \<longleftrightarrow> ib_step_order st \<noteq> []"

fun batch_from ::
  "(agent_target \<times> string) list \<Rightarrow> message list \<Rightarrow> message list \<Rightarrow> message list \<times> message list \<times> message list" where
  "batch_from [] steers injections = ([], steers, injections)"
| "batch_from ((TFollowup, item) # order) steers injections = batch_from order steers injections"
| "batch_from ((TSteer, item) # order) steers injections =
     (case pending_index steers item of
        None \<Rightarrow> batch_from order steers injections
      | Some i \<Rightarrow>
          (case batch_from order (remove_at i steers) injections of (ms, q, r) \<Rightarrow> (steers ! i # ms, q, r)))"
| "batch_from ((TInject, item) # order) steers injections =
     (case pending_index injections item of
        None \<Rightarrow> batch_from order steers injections
      | Some i \<Rightarrow>
          (case batch_from order steers (remove_at i injections) of (ms, q, r) \<Rightarrow> (injections ! i # ms, q, r)))"

definition take_step_batch :: "inbox_state \<Rightarrow> message list \<times> inbox_state" where
  "take_step_batch st =
     (case batch_from (ib_step_order st) (ib_steers st) (ib_injections st) of
        (messages, steers, injections) \<Rightarrow>
          (let st' = st\<lparr>ib_step_order := [], ib_steers := steers, ib_injections := injections\<rparr>
           in (messages, if messages = [] then st' else bump_changes st')))"

definition reserve_next_turn_claim :: "inbox_state \<Rightarrow> inbox_claim option \<times> inbox_state" where
  "reserve_next_turn_claim st =
     (case ib_followups st of
        [] \<Rightarrow> (None, st)
      | m # _ \<Rightarrow>
          if msg_id m \<in> ib_reservations st then (None, st)
          else (Some \<lparr>cl_target = ''next-turn'', cl_entries = [(TFollowup, msg_id m)], cl_messages = [m]\<rparr>,
                st\<lparr>ib_reservations := insert (msg_id m) (ib_reservations st)\<rparr>))"

fun step_message :: "inbox_state \<Rightarrow> agent_target \<times> string \<Rightarrow> message option" where
  "step_message st (TFollowup, item) = None"
| "step_message st (t, item) = find_first (\<lambda>m. msg_id m = item) (queue_of t st)"

definition reserve_step_batch_claim :: "inbox_state \<Rightarrow> inbox_claim option \<times> inbox_state" where
  "reserve_step_batch_claim st =
     (if ib_step_order st = [] \<or> list_ex (\<lambda>(t, item). item \<in> ib_reservations st) (ib_step_order st)
      then (None, st)
      else
        case those (map (step_message st) (ib_step_order st)) of
          None \<Rightarrow> (None, st)
        | Some messages \<Rightarrow>
            (Some \<lparr>cl_target = ''next-step'', cl_entries = ib_step_order st, cl_messages = messages\<rparr>,
             st\<lparr>ib_reservations := set (map snd (ib_step_order st)) \<union> ib_reservations st\<rparr>))"

definition inbox_pending :: "inbox_state \<Rightarrow> (agent_target \<times> message) list" where
  "inbox_pending st =
     map (\<lambda>m. (TFollowup, m)) (ib_followups st)
     @ List.map_filter (\<lambda>(t, item). map_option (\<lambda>m. (t, m)) (step_message st (t, item))) (ib_step_order st)"

text \<open>Where a reservable message is: the next-turn queue first, then the steers, whose place is the one
  in the combined order. The outer option is the \<open>expect\<close>.\<close>

definition locate :: "inbox_state \<Rightarrow> string \<Rightarrow> (agent_target \<times> nat \<times> message) option option" where
  "locate st item =
     (case pending_index (ib_followups st) item of
        Some i \<Rightarrow> Some (Some (TFollowup, i, ib_followups st ! i))
      | None \<Rightarrow>
          (case pending_index (ib_steers st) item of
             Some j \<Rightarrow>
               map_option (\<lambda>start. Some (TSteer, start, ib_steers st ! j))
                 (position (\<lambda>(t, i). i = item) (ib_step_order st))
           | None \<Rightarrow> Some None))"

text \<open>The target, message and wake flag an update leads to, or why it is refused.\<close>

definition plan_update ::
  "inbox_update \<Rightarrow> agent_target \<Rightarrow> message \<Rightarrow> bool \<Rightarrow> reservation_result + agent_target \<times> message \<times> bool" where
  "plan_update update target original steer_enabled =
     (case update of
        EditContent content \<Rightarrow>
          (let m = original\<lparr>msg_content := content\<rparr>
           in if is_ok (message_validate m) then Inr (target, m, False) else Inl ReserveNotPending)
      | RemoveItem \<Rightarrow> Inr (target, original, False)
      | SteerItem \<Rightarrow>
          if target = TFollowup \<and> steer_enabled then Inr (TSteer, original, True)
          else Inl ReserveSteerUnavailable)"

definition reserve_update ::
  "string \<Rightarrow> inbox_update \<Rightarrow> bool \<Rightarrow> inbox_state \<Rightarrow> (reservation_result \<times> inbox_state) option" where
  "reserve_update item update steer_enabled st =
     (if item \<in> ib_reservations st then Some (ReserveNotPending, st)
      else
        case locate st item of
          None \<Rightarrow> None
        | Some None \<Rightarrow> Some (ReserveNotPending, st)
        | Some (Some (source, start, original)) \<Rightarrow>
            (case plan_update update source original steer_enabled of
               Inl refused \<Rightarrow> Some (refused, st)
             | Inr (target, m, wakes) \<Rightarrow>
                 Some (Reserved \<lparr>rv_item = item, rv_update = update, rv_target = target, rv_message = m,
                         rv_source = source, rv_start = start,
                         rv_destination_start = (if update = SteerItem then Some (length (ib_step_order st)) else None),
                         rv_wakes = wakes\<rparr>,
                       st\<lparr>ib_reservations := insert item (ib_reservations st)\<rparr>)))"

definition commit_reservation :: "inbox_reservation \<Rightarrow> inbox_state \<Rightarrow> bool \<times> inbox_state" where
  "commit_reservation rv st =
     (if rv_item rv \<notin> ib_reservations st then (False, st)
      else
        let st1 = st\<lparr>ib_reservations := ib_reservations st - {rv_item rv}\<rparr>;
            queue = (if rv_update rv = SteerItem then TFollowup else rv_target rv);
            index = (if queue = TInject then None else pending_index (queue_of queue st1) (rv_item rv))
        in case index of
             None \<Rightarrow> (False, st1)
           | Some i \<Rightarrow>
               let q = queue_of queue st1;
                   st2 = (case rv_update rv of
                            EditContent _ \<Rightarrow> put_queue queue (q[i := rv_message rv]) st1
                          | RemoveItem \<Rightarrow>
                              (if queue = TFollowup then put_queue queue (remove_at i q) st1
                               else drop_order (\<lambda>(t, item). item = msg_id (q ! i)) (put_queue queue (remove_at i q) st1))
                          | SteerItem \<Rightarrow>
                              inbox_enqueue (q ! i) TSteer (put_queue TFollowup (remove_at i q) st1))
               in (True, bump_wakes (rv_wakes rv) (bump_changes st2)))"

fun claim_loop :: "(agent_target \<times> string) list \<Rightarrow> inbox_state \<Rightarrow> inbox_state option" where
  "claim_loop [] st = Some st"
| "claim_loop ((t, item) # entries) st =
     (case pending_index (queue_of t st) item of
        None \<Rightarrow> None
      | Some i \<Rightarrow>
          claim_loop entries
            ((put_queue t (remove_at i (queue_of t st)) st)\<lparr>ib_reservations := ib_reservations st - {item}\<rparr>))"

definition commit_claim :: "inbox_claim \<Rightarrow> inbox_state \<Rightarrow> (bool \<times> inbox_state) option" where
  "commit_claim cl st =
     (if \<not> list_all (\<lambda>(t, item). item \<in> ib_reservations st) (cl_entries cl) then Some (False, st)
      else if \<not> list_all (\<lambda>(t, item). pending_index (queue_of t st) item \<noteq> None) (cl_entries cl)
      then Some (False, st)
      else
        map_option (\<lambda>st1.
            (True, bump_changes
                     (if cl_target cl = ''next-step''
                      then drop_order (\<lambda>(t, item). item \<in> set (map snd (cl_entries cl))) st1
                      else st1)))
          (claim_loop (cl_entries cl) st))"

definition abort_claim :: "inbox_claim \<Rightarrow> inbox_state \<Rightarrow> inbox_state" where
  "abort_claim cl st = st\<lparr>ib_reservations := ib_reservations st - set (map snd (cl_entries cl))\<rparr>"

text \<open>Committing a claim consumes it: a refused commit drops it while still active, which aborts it.\<close>

definition claim_commit :: "inbox_claim \<Rightarrow> inbox_state \<Rightarrow> (message list option \<times> inbox_state) option" where
  "claim_commit cl st =
     map_option (\<lambda>(committed, st').
         if committed then (Some (cl_messages cl), st') else (None, abort_claim cl st'))
       (commit_claim cl st)"

definition abort_reservation :: "string \<Rightarrow> inbox_state \<Rightarrow> inbox_state" where
  "abort_reservation item st =
     (let st1 = st\<lparr>ib_reservations := ib_reservations st - {item}\<rparr>
      in if item \<notin> ib_reservations st \<or> \<not> pending_contains st1 item then st1 else bump_wakes True st1)"

definition inbox_update_item :: "string \<Rightarrow> inbox_update \<Rightarrow> inbox_state \<Rightarrow> inbox_update_result \<times> inbox_state" where
  "inbox_update_item item update st =
     (if item \<in> ib_reservations st then (NotPending, st)
      else
        case (case pending_index (ib_followups st) item of
                Some i \<Rightarrow> Some (TFollowup, i)
              | None \<Rightarrow> map_option (Pair TSteer) (pending_index (ib_steers st) item)) of
          None \<Rightarrow> (NotPending, st)
        | Some (target, i) \<Rightarrow>
            (let q = queue_of target st; original = q ! i
             in case update of
                  EditContent content \<Rightarrow>
                    (let m = original\<lparr>msg_content := content\<rparr>
                     in if is_ok (message_validate m)
                        then (Updated target m, bump_changes (put_queue target (q[i := m]) st))
                        else (NotPending, st))
                | RemoveItem \<Rightarrow>
                    (let st' = put_queue target (remove_at i q) st
                     in (Updated target original,
                         bump_changes (if target = TFollowup then st'
                           else drop_order (\<lambda>(t, x). t = target \<and> x = msg_id original) st')))
                | SteerItem \<Rightarrow>
                    (if target \<noteq> TFollowup then (SteerUnavailable, st)
                     else
                       (Updated TSteer original,
                        bump_wakes True (bump_changes
                          (inbox_enqueue original TSteer (put_queue TFollowup (remove_at i q) st)))))))"

definition inbox_len :: "inbox_state \<Rightarrow> nat" where
  "inbox_len st = length (ib_followups st) + length (ib_steers st) + length (ib_injections st)"

definition inbox_clear :: "inbox_state \<Rightarrow> inbox_state" where
  "inbox_clear st =
     (if ib_followups st = [] \<and> ib_steers st = [] \<and> ib_injections st = [] then st
      else bump_changes (st\<lparr>ib_followups := [], ib_steers := [], ib_injections := [], ib_reservations := {},
                            ib_step_order := []\<rparr>))"

section \<open>Invariant\<close>

definition ids_of :: "agent_target \<Rightarrow> (agent_target \<times> string) list \<Rightarrow> string list" where
  "ids_of t order = map snd (filter (\<lambda>(u, i). u = t) order)"

definition waiting_ids :: "inbox_state \<Rightarrow> string list" where
  "waiting_ids st = map msg_id (ib_followups st @ ib_steers st @ ib_injections st)"

text \<open>No id is pending twice, every pending message is valid, and the combined order lists exactly the
  steers and the injections, each in the order of its own queue.\<close>

definition inbox_ok :: "inbox_state \<Rightarrow> bool" where
  "inbox_ok st \<longleftrightarrow>
     distinct (waiting_ids st)
     \<and> (\<forall>m\<in>set (ib_followups st @ ib_steers st @ ib_injections st). message_validate m = Inr ())
     \<and> ids_of TSteer (ib_step_order st) = map msg_id (ib_steers st)
     \<and> ids_of TInject (ib_step_order st) = map msg_id (ib_injections st)
     \<and> ids_of TFollowup (ib_step_order st) = []"

lemma inbox_ok_new: "inbox_ok inbox_new"
  by (simp add: inbox_ok_def inbox_new_def waiting_ids_def ids_of_def)

lemma ids_of_append [simp]: "ids_of t (xs @ ys) = ids_of t xs @ ids_of t ys"
  by (simp add: ids_of_def)

lemma ids_of_Cons [simp]: "ids_of t ((u, i) # xs) = (if u = t then i # ids_of t xs else ids_of t xs)"
  by (simp add: ids_of_def)

lemma ids_of_Nil [simp]: "ids_of t [] = []"
  by (simp add: ids_of_def)

lemma set_ids_of: "set (ids_of t order) = {i. (t, i) \<in> set order}"
  by (force simp: ids_of_def)

text \<open>The record fields an operation leaves alone.\<close>

lemma put_queue_simps [simp]:
  "queue_of t (put_queue t q st) = q"
  "t \<noteq> u \<Longrightarrow> queue_of u (put_queue t q st) = queue_of u st"
  "ib_step_order (put_queue t q st) = ib_step_order st"
  "ib_reservations (put_queue t q st) = ib_reservations st"
  by (cases t; cases u; simp)+

lemma queue_of_reservations [simp]: "queue_of t (st\<lparr>ib_reservations := R\<rparr>) = queue_of t st"
  by (cases t) simp_all

lemma bump_simps [simp]:
  "ib_followups (bump_changes st) = ib_followups st" "ib_steers (bump_changes st) = ib_steers st"
  "ib_injections (bump_changes st) = ib_injections st" "ib_step_order (bump_changes st) = ib_step_order st"
  "ib_reservations (bump_changes st) = ib_reservations st"
  "ib_followups (bump_wakes w st) = ib_followups st" "ib_steers (bump_wakes w st) = ib_steers st"
  "ib_injections (bump_wakes w st) = ib_injections st" "ib_step_order (bump_wakes w st) = ib_step_order st"
  "ib_reservations (bump_wakes w st) = ib_reservations st"
  by (simp_all add: bump_changes_def bump_wakes_def)

lemma drop_order_simps [simp]:
  "ib_followups (drop_order P st) = ib_followups st" "ib_steers (drop_order P st) = ib_steers st"
  "ib_injections (drop_order P st) = ib_injections st" "ib_reservations (drop_order P st) = ib_reservations st"
  "ib_step_order (drop_order P st) = filter (\<lambda>x. \<not> P x) (ib_step_order st)"
  by (simp_all add: drop_order_def)

lemma waiting_cong:
  assumes "ib_followups st = ib_followups st'" "ib_steers st = ib_steers st'" "ib_injections st = ib_injections st'"
    "ib_step_order st = ib_step_order st'"
  shows "waiting_ids st = waiting_ids st'" "inbox_ok st = inbox_ok st'"
  using assms by (simp_all add: waiting_ids_def inbox_ok_def)

lemma waiting_bump [simp]:
  "waiting_ids (bump_changes st) = waiting_ids st" "waiting_ids (bump_wakes w st) = waiting_ids st"
  "waiting_ids (drop_order P st) = waiting_ids st" "waiting_ids (st\<lparr>ib_reservations := R\<rparr>) = waiting_ids st"
  by (simp_all add: waiting_ids_def)

lemma inbox_ok_bump [simp]:
  "inbox_ok (bump_changes st) = inbox_ok st" "inbox_ok (bump_wakes w st) = inbox_ok st"
  "inbox_ok (st\<lparr>ib_reservations := R\<rparr>) = inbox_ok st"
  by (rule waiting_cong(2); simp)+

lemma pending_index_None: "(pending_index q x = None) = (x \<notin> set (map msg_id q))"
  by (auto simp: pending_index_def position_None)

lemma pending_index_Some: "pending_index q x = Some i \<Longrightarrow> i < length q \<and> msg_id (q ! i) = x"
  unfolding pending_index_def by (drule position_Some) simp

lemma queue_waiting: "m \<in> set (queue_of t st) \<Longrightarrow> msg_id m \<in> set (waiting_ids st)"
  by (cases t) (auto simp: waiting_ids_def)

lemma filter_foreign: "x \<notin> set (map msg_id q) \<Longrightarrow> filter (\<lambda>m. msg_id m \<noteq> x) q = q"
  by (force simp: filter_id_conv)

lemma remove_pending:
  assumes "pending_index q x = Some i" "distinct (map msg_id q)"
  shows "remove_at i q = filter (\<lambda>m. msg_id m \<noteq> x) q"
  using assms
proof (induction q arbitrary: i)
  case (Cons m q)
  show ?case
  proof (cases "msg_id m = x")
    case True
    then have "filter (\<lambda>m. msg_id m \<noteq> x) q = q" using Cons.prems(2) by (intro filter_foreign) auto
    with True Cons.prems(1) show ?thesis by (simp add: pending_index_def remove_at_def)
  next
    case False
    then obtain j where "pending_index q x = Some j" "i = Suc j" using Cons.prems(1) by (auto simp: pending_index_def)
    with Cons False show ?thesis by (simp add: remove_at_def)
  qed
qed (simp add: pending_index_def)

lemma pending_contains_iff: "pending_contains st x = (x \<in> set (waiting_ids st))"
  by (auto simp: pending_contains_def pending_index_None waiting_ids_def)

lemma ids_of_filter: "ids_of t (filter P order) = map snd (filter (\<lambda>x. fst x = t \<and> P x) order)"
  by (simp add: ids_of_def case_prod_unfold conj_commute)

lemma ids_of_drop: "ids_of t (filter (\<lambda>x. \<not> P x) order) = filter (\<lambda>i. \<not> P (t, i)) (ids_of t order)"
  by (induction order) auto

text \<open>Taking a set of ids out of the queues and out of the order together.\<close>

definition without :: "string set \<Rightarrow> inbox_state \<Rightarrow> inbox_state" where
  "without X st =
     st\<lparr>ib_followups := filter (\<lambda>m. msg_id m \<notin> X) (ib_followups st),
        ib_steers := filter (\<lambda>m. msg_id m \<notin> X) (ib_steers st),
        ib_injections := filter (\<lambda>m. msg_id m \<notin> X) (ib_injections st),
        ib_step_order := filter (\<lambda>(t, i). i \<notin> X) (ib_step_order st)\<rparr>"

lemma waiting_without: "waiting_ids (without X st) = filter (\<lambda>i. i \<notin> X) (waiting_ids st)"
  by (simp add: waiting_ids_def without_def filter_map comp_def)

lemma inbox_ok_without: "inbox_ok st \<Longrightarrow> inbox_ok (without X st)"
proof -
  have f: "filter (\<lambda>(t, i). i \<notin> X) order = filter (\<lambda>x. \<not> (snd x \<in> X)) order" for order :: "(agent_target \<times> string) list"
    by (simp add: case_prod_unfold)
  show "inbox_ok st \<Longrightarrow> inbox_ok (without X st)"
    unfolding inbox_ok_def waiting_without
    by (auto simp: without_def f ids_of_drop filter_map comp_def)
qed

text \<open>Agreement up to reservations and revisions.\<close>

definition same_queues :: "inbox_state \<Rightarrow> inbox_state \<Rightarrow> bool" where
  "same_queues st st' \<longleftrightarrow>
     ib_followups st = ib_followups st' \<and> ib_steers st = ib_steers st' \<and> ib_injections st = ib_injections st'
     \<and> ib_step_order st = ib_step_order st'"

lemma same_queuesD:
  assumes "same_queues st st'"
  shows "inbox_ok st = inbox_ok st'" "waiting_ids st = waiting_ids st'"
  by (rule waiting_cong; use assms in \<open>simp add: same_queues_def\<close>)+

section \<open>The operations on the queues\<close>

lemma inbox_ok_distinct:
  assumes "inbox_ok st"
  shows "distinct (map msg_id (queue_of t st))"
  using assms by (cases t) (simp_all add: inbox_ok_def waiting_ids_def)

lemma inbox_ok_other:
  assumes "inbox_ok st" "m \<in> set (queue_of t st)" "m' \<in> set (queue_of u st)" "msg_id m = msg_id m'"
  shows "t = u"
  using assms by (cases t; cases u) (force simp: inbox_ok_def waiting_ids_def)+

lemma inbox_ok_order:
  assumes "inbox_ok st"
  shows "((t, i) \<in> set (ib_step_order st)) = (t \<noteq> TFollowup \<and> i \<in> set (map msg_id (queue_of t st)))"
proof -
  have "((t, i) \<in> set (ib_step_order st)) = (i \<in> set (ids_of t (ib_step_order st)))" by (simp add: set_ids_of)
  then show ?thesis using assms by (cases t) (simp_all add: inbox_ok_def)
qed

text \<open>Removing one pending message of a queue, and its entry in the order.\<close>

lemma without_one:
  assumes ok: "inbox_ok st" and x: "x \<in> set (map msg_id (queue_of t st))"
  shows "same_queues (without {x} st)
    ((put_queue t (filter (\<lambda>m. msg_id m \<noteq> x) (queue_of t st)) st)
       \<lparr>ib_step_order := filter (\<lambda>(u, i). \<not> (u = t \<and> i = x)) (ib_step_order st)\<rparr>)"
proof -
  have other: "x \<notin> set (map msg_id (queue_of u st))" if "u \<noteq> t" for u
    using inbox_ok_other [OF ok] x that by fastforce
  have "filter (\<lambda>(u, i). i \<noteq> x) (ib_step_order st) = filter (\<lambda>(u, i). \<not> (u = t \<and> i = x)) (ib_step_order st)"
    using inbox_ok_order [OF ok] other by (intro filter_cong) auto
  then show ?thesis
    using filter_foreign [OF other, of TFollowup] filter_foreign [OF other, of TSteer] filter_foreign [OF other, of TInject]
    by (cases t) (simp_all add: same_queues_def without_def)
qed

lemma order_has_no_followup:
  assumes "inbox_ok st" "x \<in> set (map msg_id (ib_followups st))"
  shows "filter (\<lambda>(u, i). \<not> (u = TFollowup \<and> i = x)) (ib_step_order st) = ib_step_order st"
  using inbox_ok_order [OF assms(1), of TFollowup] by (auto simp: filter_id_conv)

lemma waiting_enqueue: "mset (waiting_ids (inbox_enqueue m t st)) = add_mset (msg_id m) (mset (waiting_ids st))"
  by (cases t) (simp_all add: inbox_enqueue_def waiting_ids_def)

lemma inbox_ok_enqueue:
  assumes "inbox_ok st" "msg_id m \<notin> set (waiting_ids st)" "message_validate m = Inr ()"
  shows "inbox_ok (inbox_enqueue m t st)"
  using assms by (cases t) (auto simp: inbox_ok_def inbox_enqueue_def waiting_ids_def)

lemma inbox_enqueue_reservations [simp]: "ib_reservations (inbox_enqueue m t st) = ib_reservations st"
  by (simp add: inbox_enqueue_def)

lemma inbox_send_Inr:
  assumes "inbox_send m t w st = Inr st'"
  shows "message_validate m = Inr ()" "msg_id m \<notin> set (waiting_ids st)" "same_queues st' (inbox_enqueue m t st)"
    "ib_reservations st' = ib_reservations st"
  using assms by (auto simp: inbox_send_def pending_contains_iff same_queues_def split: if_splits)

lemma inbox_take_Some:
  assumes "inbox_take t st = (Some m, st')" "inbox_ok st"
  shows "m \<in> set (queue_of t st)" "msg_id m \<notin> ib_reservations st" "same_queues st' (without {msg_id m} st)"
    "ib_reservations st' = ib_reservations st"
proof -
  from assms(1) obtain rest where q: "queue_of t st = m # rest" and m: "msg_id m \<notin> ib_reservations st"
    and st': "st' = bump_changes (if t = TFollowup then put_queue t rest st
               else drop_order (\<lambda>(u, i). u = t \<and> i = msg_id m) (put_queue t rest st))"
    by (auto simp: inbox_take_def Let_def split: list.splits if_splits)
  have in_q: "msg_id m \<in> set (map msg_id (queue_of t st))" by (simp add: q)
  have rest: "filter (\<lambda>m'. msg_id m' \<noteq> msg_id m) (queue_of t st) = rest"
    using inbox_ok_distinct [OF assms(2), of t] by (simp add: q filter_foreign)
  show "m \<in> set (queue_of t st)" "msg_id m \<notin> ib_reservations st" "ib_reservations st' = ib_reservations st"
    using q m by (simp_all add: st')
  show "same_queues st' (without {msg_id m} st)"
    using without_one [OF assms(2) in_q, unfolded rest] order_has_no_followup [OF assms(2), of "msg_id m"] in_q
    by (cases t) (auto simp: same_queues_def st' case_prod_unfold)
qed

section \<open>The next-step batch\<close>

definition step_messages :: "inbox_state \<Rightarrow> message list" where
  "step_messages st = map (\<lambda>e. the (step_message st e)) (ib_step_order st)"

lemma find_first_pending:
  assumes "distinct (map msg_id q)" "m \<in> set q"
  shows "find_first (\<lambda>m'. msg_id m' = msg_id m) q = Some m"
proof -
  obtain m' where m': "find_first (\<lambda>m'. msg_id m' = msg_id m) q = Some m'"
    using assms(2) find_first_None [of "\<lambda>m'. msg_id m' = msg_id m" q] by fastforce
  with find_first_Some [OF m'] assms show ?thesis by (metis distinct_map inj_onD)
qed

lemma step_message_Some:
  assumes "inbox_ok st" "(t, i) \<in> set (ib_step_order st)"
  obtains m where "step_message st (t, i) = Some m" "m \<in> set (queue_of t st)" "msg_id m = i"
proof -
  from assms obtain m where m: "m \<in> set (queue_of t st)" "msg_id m = i" "t \<noteq> TFollowup"
    using inbox_ok_order [OF assms(1)] by auto
  then have "step_message st (t, i) = Some m"
    using find_first_pending [OF inbox_ok_distinct [OF assms(1)] m(1)] by (cases t) simp_all
  with m that show ?thesis by blast
qed

lemma step_messages_ids: "inbox_ok st \<Longrightarrow> map msg_id (step_messages st) = map snd (ib_step_order st)"
proof -
  assume ok: "inbox_ok st"
  have "msg_id (the (step_message st e)) = snd e" if "e \<in> set (ib_step_order st)" for e
  proof (cases e)
    case (Pair t i)
    with that ok show ?thesis by (metis option.sel snd_conv step_message_Some)
  qed
  then show ?thesis by (simp add: step_messages_def)
qed

lemma those_map_the: "(\<And>x. x \<in> set xs \<Longrightarrow> f x \<noteq> None) \<Longrightarrow> those (map f xs) = Some (map (\<lambda>x. the (f x)) xs)"
  by (induction xs) fastforce+

lemma those_step_messages: "inbox_ok st \<Longrightarrow> those (map (step_message st) (ib_step_order st)) = Some (step_messages st)"
  unfolding step_messages_def by (rule those_map_the) (metis option.distinct(1) prod.exhaust step_message_Some)

lemma mset_step_order: "inbox_ok st \<Longrightarrow> mset (map snd (ib_step_order st)) = mset (map msg_id (ib_steers st @ ib_injections st))"
proof -
  have "ids_of TFollowup order = [] \<Longrightarrow> mset (map snd order) = mset (ids_of TSteer order) + mset (ids_of TInject order)" for order
  proof (induction order)
    case (Cons e order)
    then show ?case by (cases e; cases "fst e") (simp_all split: if_splits)
  qed simp
  then show "inbox_ok st \<Longrightarrow> mset (map snd (ib_step_order st)) = mset (map msg_id (ib_steers st @ ib_injections st))"
    by (simp add: inbox_ok_def)
qed

lemma step_order_distinct: "inbox_ok st \<Longrightarrow> distinct (map snd (ib_step_order st))"
  using mset_step_order [of st] by (metis distinct_append inbox_ok_def map_append mset_eq_imp_distinct_iff waiting_ids_def)

lemma step_messages_set: "inbox_ok st \<Longrightarrow> set (step_messages st) = set (ib_steers st) \<union> set (ib_injections st)"
proof -
  assume ok: "inbox_ok st"
  have "m \<in> set (step_messages st)" if "m \<in> set (queue_of t st)" "t \<noteq> TFollowup" for m t
  proof -
    have o: "(t, msg_id m) \<in> set (ib_step_order st)" using inbox_ok_order [OF ok] that by simp
    from step_message_Some [OF ok o] obtain m' where m': "step_message st (t, msg_id m) = Some m'" "m' \<in> set (queue_of t st)"
      "msg_id m' = msg_id m" .
    with inbox_ok_distinct [OF ok, of t] that(1) have "m' = m" by (metis distinct_map inj_onD)
    with m'(1) o show ?thesis by (force simp: step_messages_def)
  qed
  moreover have "m \<in> set (ib_steers st) \<union> set (ib_injections st)" if "m \<in> set (step_messages st)" for m
  proof -
    from that obtain t i where o: "(t, i) \<in> set (ib_step_order st)" "m = the (step_message st (t, i))"
      by (auto simp: step_messages_def)
    from step_message_Some [OF ok o(1)] o(2) have "m \<in> set (queue_of t st)" by (metis option.sel)
    moreover have "t \<noteq> TFollowup" using inbox_ok_order [OF ok, of t i] o(1) by simp
    ultimately show ?thesis by (cases t) simp_all
  qed
  ultimately show ?thesis by (metis agent_target.distinct(1,3) queue_of.simps(2,3) subsetI subset_antisym UnE)
qed

lemma step_messages_mset:
  assumes "inbox_ok st"
  shows "mset (step_messages st) = mset (ib_steers st @ ib_injections st)"
proof -
  have "distinct (map msg_id (step_messages st))" "distinct (map msg_id (ib_steers st @ ib_injections st))"
    using step_order_distinct [OF assms] step_messages_ids [OF assms] assms
    by (auto simp: inbox_ok_def waiting_ids_def)
  then show ?thesis
    using step_messages_set [OF assms] by (intro set_eq_iff_mset_eq_distinct [THEN iffD1]) (auto simp: distinct_map)
qed

lemma batch_from_all:
  assumes "ids_of TSteer order = map msg_id steers" "ids_of TInject order = map msg_id injections"
    "ids_of TFollowup order = []"
  shows "\<exists>ms. batch_from order steers injections = (ms, [], []) \<and> map msg_id ms = map snd order
    \<and> set ms = set steers \<union> set injections"
  using assms
proof (induction order steers injections rule: batch_from.induct)
  case (3 item order steers injections)
  then obtain m rest where s: "steers = m # rest" "msg_id m = item" by (cases steers) auto
  then have i: "pending_index steers item = Some 0" by (simp add: pending_index_def)
  have r: "remove_at 0 steers = rest" by (simp add: remove_at_def s)
  from "3.IH"(2) [OF i, unfolded r] "3.prems" s obtain ms where "batch_from order rest injections = (ms, [], [])"
    "map msg_id ms = map snd order" "set ms = set rest \<union> set injections" by auto
  with s i r show ?case by auto
next
  case (4 item order steers injections)
  then obtain m rest where s: "injections = m # rest" "msg_id m = item" by (cases injections) auto
  then have i: "pending_index injections item = Some 0" by (simp add: pending_index_def)
  have r: "remove_at 0 injections = rest" by (simp add: remove_at_def s)
  from "4.IH"(2) [OF i, unfolded r] "4.prems" s obtain ms where "batch_from order steers rest = (ms, [], [])"
    "map msg_id ms = map snd order" "set ms = set steers \<union> set rest" by auto
  with s i r show ?case by auto
qed auto

lemma take_step_batch_ok:
  assumes "inbox_ok st" "take_step_batch st = (ms, st')"
  shows "map msg_id ms = map snd (ib_step_order st)" "ib_reservations st' = ib_reservations st"
    "same_queues st' (st\<lparr>ib_steers := [], ib_injections := [], ib_step_order := []\<rparr>)"
proof -
  from batch_from_all [of "ib_step_order st" "ib_steers st" "ib_injections st"] assms(1)
  obtain ms' where b: "batch_from (ib_step_order st) (ib_steers st) (ib_injections st) = (ms', [], [])"
    "map msg_id ms' = map snd (ib_step_order st)" by (auto simp: inbox_ok_def)
  with assms(2) show "map msg_id ms = map snd (ib_step_order st)" "ib_reservations st' = ib_reservations st"
    "same_queues st' (st\<lparr>ib_steers := [], ib_injections := [], ib_step_order := []\<rparr>)"
    by (auto simp: take_step_batch_def Let_def same_queues_def split: if_splits)
qed

section \<open>Claims\<close>

definition claim_ids :: "inbox_claim \<Rightarrow> string list" where
  "claim_ids cl = map snd (cl_entries cl)"

definition claim_ok :: "inbox_claim \<Rightarrow> bool" where
  "claim_ok cl \<longleftrightarrow>
     distinct (claim_ids cl) \<and> map msg_id (cl_messages cl) = claim_ids cl
     \<and> (cl_target cl = ''next-step'' \<or> list_all (\<lambda>(t, i). t = TFollowup) (cl_entries cl))"

lemma next_turn_claim_ok: "reserve_next_turn_claim st = (Some cl, st') \<Longrightarrow> claim_ok cl"
  by (auto simp: reserve_next_turn_claim_def claim_ok_def claim_ids_def split: list.splits if_splits)

lemma step_batch_claim_ok:
  assumes "inbox_ok st" "reserve_step_batch_claim st = (Some cl, st')"
  shows "claim_ok cl" "cl_messages cl = step_messages st" "cl_entries cl = ib_step_order st"
  using assms step_order_distinct [OF assms(1)] step_messages_ids [OF assms(1)] those_step_messages [OF assms(1)]
  by (auto simp: reserve_step_batch_claim_def claim_ok_def claim_ids_def split: if_splits)

lemma reserve_claim_queues:
  "reserve_next_turn_claim st = (c, st') \<Longrightarrow> same_queues st' st"
  "reserve_step_batch_claim st = (c, st') \<Longrightarrow> same_queues st' st"
  by (auto simp: reserve_next_turn_claim_def reserve_step_batch_claim_def same_queues_def
      split: list.splits if_splits option.splits)

lemma claim_loop_all:
  assumes "distinct (waiting_ids st)" "distinct (map snd es)"
    "\<And>t i. (t, i) \<in> set es \<Longrightarrow> i \<in> set (map msg_id (queue_of t st))"
  shows "claim_loop es st =
    Some (st\<lparr>ib_followups := filter (\<lambda>m. msg_id m \<notin> set (map snd es)) (ib_followups st),
             ib_steers := filter (\<lambda>m. msg_id m \<notin> set (map snd es)) (ib_steers st),
             ib_injections := filter (\<lambda>m. msg_id m \<notin> set (map snd es)) (ib_injections st),
             ib_reservations := ib_reservations st - set (map snd es)\<rparr>)"
  using assms
proof (induction es arbitrary: st)
  case (Cons e es)
  obtain t x where e: "e = (t, x)" by (metis prod.exhaust)
  have x: "x \<in> set (map msg_id (queue_of t st))" using Cons.prems(3) e by simp
  have dist: "distinct (map msg_id (queue_of u st))" for u
    using Cons.prems(1) by (cases u) (simp_all add: waiting_ids_def)
  obtain i where i: "pending_index (queue_of t st) x = Some i" using x pending_index_None by fastforce
  let ?st = "st\<lparr>ib_followups := filter (\<lambda>m. msg_id m \<noteq> x) (ib_followups st),
      ib_steers := filter (\<lambda>m. msg_id m \<noteq> x) (ib_steers st),
      ib_injections := filter (\<lambda>m. msg_id m \<noteq> x) (ib_injections st),
      ib_reservations := ib_reservations st - {x}\<rparr>"
  have other: "filter (\<lambda>m. msg_id m \<noteq> x) (queue_of u st) = queue_of u st" if "u \<noteq> t" for u
  proof (rule filter_foreign)
    show "x \<notin> set (map msg_id (queue_of u st))"
      using x that Cons.prems(1) by (cases t; cases u) (auto simp: waiting_ids_def)
  qed
  have st: "(put_queue t (remove_at i (queue_of t st)) st)\<lparr>ib_reservations := ib_reservations st - {x}\<rparr> = ?st"
    unfolding remove_pending [OF i dist]
    using other [of TFollowup] other [of TSteer] other [of TInject] by (cases t) simp_all
  have "distinct (waiting_ids ?st)"
    using Cons.prems(1) by (simp add: waiting_ids_def distinct_map_filter) (auto simp: distinct_map_filter)
  moreover have "i \<in> set (map msg_id (queue_of u ?st))" if "(u, i) \<in> set es" for u i
  proof -
    have "i \<noteq> x" using Cons.prems(2) that e by force
    then show ?thesis using Cons.prems(3) [of u i] that by (cases u) auto
  qed
  moreover have "distinct (map snd es)" using Cons.prems(2) by simp
  ultimately have IH: "claim_loop es ?st = Some (?st\<lparr>ib_followups := filter (\<lambda>m. msg_id m \<notin> set (map snd es)) (ib_followups ?st),
             ib_steers := filter (\<lambda>m. msg_id m \<notin> set (map snd es)) (ib_steers ?st),
             ib_injections := filter (\<lambda>m. msg_id m \<notin> set (map snd es)) (ib_injections ?st),
             ib_reservations := ib_reservations ?st - set (map snd es)\<rparr>)"
    by (intro Cons.IH)
  have sets: "set (map snd (e # es)) = insert x (set (map snd es))" by (simp add: e)
  have two: "filter (\<lambda>m. msg_id m \<notin> X) (filter (\<lambda>m. msg_id m \<noteq> x) q) = filter (\<lambda>m. msg_id m \<notin> insert x X) q" for X q
    by (induction q) auto
  have dif: "R - {x} - X = R - insert x X" for R X :: "string set" by auto
  have "claim_loop (e # es) st = claim_loop es ?st" by (simp only: e claim_loop.simps i option.case st)
  then show ?case
    unfolding IH sets by (simp add: two dif del: filter_filter insert_iff)
qed simp

lemma commit_claim_cases:
  assumes ok: "inbox_ok st" and cl: "claim_ok cl"
  obtains (refused) "commit_claim cl st = Some (False, st)"
  | (committed) st' where "commit_claim cl st = Some (True, st')" "same_queues st' (without (set (claim_ids cl)) st)"
      "ib_reservations st' = ib_reservations st - set (claim_ids cl)" "set (claim_ids cl) \<subseteq> set (waiting_ids st)"
      "set (claim_ids cl) \<subseteq> ib_reservations st"
proof (cases "list_all (\<lambda>(t, i). i \<in> ib_reservations st) (cl_entries cl)
    \<and> list_all (\<lambda>(t, i). pending_index (queue_of t st) i \<noteq> None) (cl_entries cl)")
  case False
  then have "commit_claim cl st = Some (False, st)" by (auto simp: commit_claim_def)
  then show ?thesis by (rule refused)
next
  case True
  let ?X = "set (map snd (cl_entries cl))"
  have in_q: "i \<in> set (map msg_id (queue_of t st))" if "(t, i) \<in> set (cl_entries cl)" for t i
    using True that pending_index_None by (fastforce simp: list_all_iff)
  have "distinct (waiting_ids st)" using ok by (simp add: inbox_ok_def)
  moreover have "distinct (map snd (cl_entries cl))" using cl by (simp add: claim_ok_def claim_ids_def)
  ultimately obtain st1 where loop: "claim_loop (cl_entries cl) st = Some st1"
    and st1: "st1 = st\<lparr>ib_followups := filter (\<lambda>m. msg_id m \<notin> ?X) (ib_followups st),
             ib_steers := filter (\<lambda>m. msg_id m \<notin> ?X) (ib_steers st),
             ib_injections := filter (\<lambda>m. msg_id m \<notin> ?X) (ib_injections st),
             ib_reservations := ib_reservations st - ?X\<rparr>"
    using claim_loop_all [OF _ _ in_q] by blast
  have order: "filter (\<lambda>(t, i). i \<notin> ?X) (ib_step_order st) = ib_step_order st" if "cl_target cl \<noteq> ''next-step''"
  proof -
    have "t = TFollowup" if "(t, i) \<in> set (cl_entries cl)" for t i
      using cl that \<open>cl_target cl \<noteq> ''next-step''\<close> by (auto simp: claim_ok_def list_all_iff)
    with in_q have "?X \<subseteq> set (map msg_id (ib_followups st))" by fastforce
    moreover have "set (map snd (ib_step_order st)) \<inter> set (map msg_id (ib_followups st)) = {}"
      using mset_eq_setD [OF mset_step_order [OF ok]] ok by (auto simp: inbox_ok_def waiting_ids_def)
    ultimately have "snd e \<notin> ?X" if "e \<in> set (ib_step_order st)" for e
      using that by (metis disjoint_iff image_eqI set_map subsetD)
    then show ?thesis by (auto simp: filter_id_conv case_prod_unfold)
  qed
  let ?st' = "bump_changes (if cl_target cl = ''next-step'' then drop_order (\<lambda>(t, i). i \<in> ?X) st1 else st1)"
  have "?X \<subseteq> set (waiting_ids st)"
  proof
    fix i
    assume "i \<in> ?X"
    then obtain t where "(t, i) \<in> set (cl_entries cl)" by force
    from in_q [OF this] show "i \<in> set (waiting_ids st)" by (cases t) (auto simp: waiting_ids_def)
  qed
  moreover have "?X \<subseteq> ib_reservations st" using True by (fastforce simp: list_all_iff)
  moreover have "commit_claim cl st = Some (True, ?st')" using True loop by (simp add: commit_claim_def)
  moreover have "same_queues ?st' (without ?X st)"
    using order by (simp add: same_queues_def without_def st1 case_prod_unfold)
  ultimately show ?thesis using committed [of ?st'] by (simp add: claim_ids_def st1)
qed

section \<open>Updates\<close>

definition reservation_ok :: "inbox_reservation \<Rightarrow> bool" where
  "reservation_ok rv \<longleftrightarrow> msg_id (rv_message rv) = rv_item rv \<and> message_validate (rv_message rv) = Inr ()"

lemma inbox_ok_valid: "inbox_ok st \<Longrightarrow> m \<in> set (queue_of t st) \<Longrightarrow> message_validate m = Inr ()"
  by (cases t) (auto simp: inbox_ok_def)

lemma locate_total: "inbox_ok st \<Longrightarrow> locate st x \<noteq> None"
proof
  assume ok: "inbox_ok st" and "locate st x = None"
  then obtain j where j: "pending_index (ib_steers st) x = Some j"
    and none: "position (\<lambda>(t, i). i = x) (ib_step_order st) = None"
    by (auto simp: locate_def split: option.splits)
  from pending_index_Some [OF j] have "x \<in> set (map msg_id (queue_of TSteer st))" by (auto intro: rev_image_eqI)
  with inbox_ok_order [OF ok, of TSteer x] have "(TSteer, x) \<in> set (ib_step_order st)" by simp
  with none show False by (auto simp: position_None)
qed

lemma locate_Some:
  assumes "inbox_ok st" "locate st x = Some (Some (t, n, m))"
  shows "msg_id m = x" "m \<in> set (queue_of t st)" "message_validate m = Inr ()" "t \<noteq> TInject"
proof -
  from assms(2) obtain i where "pending_index (queue_of t st) x = Some i" "m = queue_of t st ! i" "t \<noteq> TInject"
    by (auto simp: locate_def split: option.splits)
  with pending_index_Some show "msg_id m = x" "m \<in> set (queue_of t st)" "t \<noteq> TInject" by auto
  with inbox_ok_valid [OF assms(1)] show "message_validate m = Inr ()" by blast
qed

lemma plan_update_refused: "plan_update u t m b \<noteq> Inl (Reserved rv)"
  by (cases u) (simp_all add: plan_update_def Let_def)

lemma plan_update_Inr:
  "plan_update u t m b = Inr (t', m', w) \<Longrightarrow>
     msg_id m' = msg_id m \<and> (message_validate m = Inr () \<longrightarrow> message_validate m' = Inr ())"
  by (auto simp: plan_update_def Let_def is_ok_ex split: inbox_update.splits if_splits)

lemma reserve_update_ok:
  assumes "inbox_ok st"
  shows "reserve_update x u b st \<noteq> None"
    and "reserve_update x u b st = Some (r, st') \<Longrightarrow> same_queues st' st"
    and "reserve_update x u b st = Some (Reserved rv, st') \<Longrightarrow> reservation_ok rv \<and> rv_item rv = x \<and> x \<in> set (waiting_ids st)"
proof -
  show "reserve_update x u b st \<noteq> None"
    using locate_total [OF assms, of x] by (auto simp: reserve_update_def split: option.splits sum.splits prod.splits)
  show "reserve_update x u b st = Some (r, st') \<Longrightarrow> same_queues st' st"
    by (auto simp: reserve_update_def same_queues_def split: if_splits option.splits sum.splits prod.splits)
  assume "reserve_update x u b st = Some (Reserved rv, st')"
  then obtain t n m where l: "locate st x = Some (Some (t, n, m))" and rv: "rv_item rv = x"
    and p: "\<exists>t' w. plan_update u t m b = Inr (t', rv_message rv, w)"
    by (auto simp: reserve_update_def plan_update_refused split: if_splits option.splits sum.splits prod.splits)
  note m = locate_Some [OF assms l]
  from p m(1,3) have "msg_id (rv_message rv) = x" "message_validate (rv_message rv) = Inr ()"
    by (auto dest!: plan_update_Inr)
  moreover have "x \<in> set (waiting_ids st)" using m(1,2) by (cases t) (auto simp: waiting_ids_def)
  ultimately show "reservation_ok rv \<and> rv_item rv = x \<and> x \<in> set (waiting_ids st)"
    using rv by (simp add: reservation_ok_def)
qed

text \<open>What an update does to the queues: replace a message by one with its id, remove it, or move it from the
  next-turn queue to the end of the next-step order.\<close>

lemma put_same_ids:
  assumes "inbox_ok st" "i < length (queue_of t st)" "msg_id m = msg_id (queue_of t st ! i)" "message_validate m = Inr ()"
  shows "inbox_ok (put_queue t ((queue_of t st)[i := m]) st)"
    and "waiting_ids (put_queue t ((queue_of t st)[i := m]) st) = waiting_ids st"
proof -
  have "map msg_id ((queue_of t st)[i := m]) = map msg_id (queue_of t st)"
    using assms(2,3) by (metis length_map list_update_id map_update nth_map)
  moreover have "\<forall>m'\<in>set ((queue_of t st)[i := m]). message_validate m' = Inr ()"
    using inbox_ok_valid [OF assms(1), of _ t] assms(4) set_update_subset_insert [of "queue_of t st" i m] by auto
  ultimately show "inbox_ok (put_queue t ((queue_of t st)[i := m]) st)"
    and "waiting_ids (put_queue t ((queue_of t st)[i := m]) st) = waiting_ids st"
    using assms(1) by (cases t; auto simp: inbox_ok_def waiting_ids_def)+
qed

lemma put_removed:
  assumes "inbox_ok st" "pending_index (queue_of t st) x = Some i"
  shows "t = TFollowup \<Longrightarrow> same_queues (put_queue TFollowup (remove_at i (ib_followups st)) st) (without {x} st)"
    and "same_queues (drop_order (\<lambda>(u, j). j = x) (put_queue t (remove_at i (queue_of t st)) st)) (without {x} st)"
    and "same_queues (drop_order (\<lambda>(u, j). u = t \<and> j = x) (put_queue t (remove_at i (queue_of t st)) st)) (without {x} st)"
proof -
  have in_q: "x \<in> set (map msg_id (queue_of t st))" using pending_index_Some [OF assms(2)] by (auto intro: rev_image_eqI)
  note r = remove_pending [OF assms(2) inbox_ok_distinct [OF assms(1)]]
  note w = without_one [OF assms(1) in_q]
  show "t = TFollowup \<Longrightarrow> same_queues (put_queue TFollowup (remove_at i (ib_followups st)) st) (without {x} st)"
    using w r order_has_no_followup [OF assms(1), of x] in_q
    by (auto simp: same_queues_def case_prod_unfold)
  show s: "same_queues (drop_order (\<lambda>(u, j). u = t \<and> j = x) (put_queue t (remove_at i (queue_of t st)) st)) (without {x} st)"
    using w r by (auto simp: same_queues_def case_prod_unfold)
  show "same_queues (drop_order (\<lambda>(u, j). j = x) (put_queue t (remove_at i (queue_of t st)) st)) (without {x} st)"
    using s unfolding same_queues_def by (simp add: without_def case_prod_unfold)
qed

lemma moved_ok:
  assumes "inbox_ok st" "m \<in> set (ib_followups st)" "same_queues st' (without {msg_id m} st)"
  shows "inbox_ok (inbox_enqueue m TSteer st')"
    and "mset (waiting_ids (inbox_enqueue m TSteer st')) = mset (waiting_ids st)"
proof -
  note w = same_queuesD [OF assms(3)]
  have "message_validate m = Inr ()" using inbox_ok_valid [OF assms(1), of m TFollowup] assms(2) by simp
  then show "inbox_ok (inbox_enqueue m TSteer st')"
    using w inbox_ok_without [OF assms(1), of "{msg_id m}"] by (intro inbox_ok_enqueue) (simp_all add: waiting_without)
  have "msg_id m \<in> set (waiting_ids st)" "distinct (waiting_ids st)"
    using assms(1,2) by (auto simp: waiting_ids_def inbox_ok_def)
  then show "mset (waiting_ids (inbox_enqueue m TSteer st')) = mset (waiting_ids st)"
  proof -
    let ?x = "msg_id m" and ?w = "waiting_ids st"
    assume x: "?x \<in> set ?w" and d: "distinct ?w"
    have "filter (\<lambda>i. i \<notin> {?x}) ?w = remove1 ?x ?w"
      using distinct_remove1_removeAll [OF d, of ?x] by (simp add: removeAll_filter_not_eq eq_commute)
    then show ?thesis using x by (simp add: waiting_enqueue w(2) waiting_without)
  qed
qed

definition updated_queue :: "inbox_reservation \<Rightarrow> agent_target \<Rightarrow> nat \<Rightarrow> inbox_state \<Rightarrow> inbox_state" where
  "updated_queue rv queue i st =
     (let q = queue_of queue st
      in case rv_update rv of
           EditContent _ \<Rightarrow> put_queue queue (q[i := rv_message rv]) st
         | RemoveItem \<Rightarrow>
             (if queue = TFollowup then put_queue queue (remove_at i q) st
              else drop_order (\<lambda>(t, item). item = msg_id (q ! i)) (put_queue queue (remove_at i q) st))
         | SteerItem \<Rightarrow> inbox_enqueue (q ! i) TSteer (put_queue TFollowup (remove_at i q) st))"

lemma commit_reservation_cases:
  assumes "commit_reservation rv st = (b, st')"
  defines "st1 \<equiv> st\<lparr>ib_reservations := ib_reservations st - {rv_item rv}\<rparr>"
    and "queue \<equiv> (if rv_update rv = SteerItem then TFollowup else rv_target rv)"
  obtains "rv_item rv \<notin> ib_reservations st" "b = False" "st' = st"
  | "rv_item rv \<in> ib_reservations st" "b = False" "st' = st1"
  | i where "rv_item rv \<in> ib_reservations st" "b = True" "queue \<noteq> TInject"
      "pending_index (queue_of queue st1) (rv_item rv) = Some i"
      "st' = bump_wakes (rv_wakes rv) (bump_changes (updated_queue rv queue i st1))"
proof (cases "rv_item rv \<in> ib_reservations st")
  case True
  show ?thesis
  proof (cases "if queue = TInject then None else pending_index (queue_of queue st1) (rv_item rv)")
    case None
    with True assms(1) have "b = False" "st' = st1"
      unfolding commit_reservation_def Let_def st1_def [symmetric] queue_def [symmetric] by simp_all
    with True that(2) show ?thesis by blast
  next
    case (Some i)
    with True assms(1) have "b = True" "st' = bump_wakes (rv_wakes rv) (bump_changes (updated_queue rv queue i st1))"
      unfolding commit_reservation_def updated_queue_def Let_def st1_def [symmetric] queue_def [symmetric] by simp_all
    moreover from Some have "queue \<noteq> TInject" "pending_index (queue_of queue st1) (rv_item rv) = Some i"
      by (simp_all split: if_splits)
    ultimately show ?thesis using True that(3) by blast
  qed
next
  case False
  with assms(1) have "b = False" "st' = st" by (simp_all add: commit_reservation_def)
  with False that(1) show ?thesis by blast
qed

lemma updated_queue_effect:
  assumes ok: "inbox_ok st" and rv: "reservation_ok rv" and i: "pending_index (queue_of queue st) (rv_item rv) = Some i"
    and queue: "rv_update rv = SteerItem \<Longrightarrow> queue = TFollowup"
  shows "inbox_ok (updated_queue rv queue i st) \<and> mset (waiting_ids (updated_queue rv queue i st)) \<subseteq># mset (waiting_ids st)
    \<and> ib_reservations (updated_queue rv queue i st) = ib_reservations st"
proof (cases "rv_update rv")
  case (EditContent content)
  have "i < length (queue_of queue st)" "msg_id (rv_message rv) = msg_id (queue_of queue st ! i)"
    "message_validate (rv_message rv) = Inr ()"
    using pending_index_Some [OF i] rv by (simp_all add: reservation_ok_def)
  from put_same_ids [OF ok this] EditContent show ?thesis by (simp add: updated_queue_def)
next
  case RemoveItem
  have x: "msg_id (queue_of queue st ! i) = rv_item rv" using pending_index_Some [OF i] by simp
  have "same_queues (updated_queue rv queue i st) (without {rv_item rv} st)"
    using put_removed(1,2) [OF ok i] by (simp add: updated_queue_def RemoveItem x Let_def)
  from same_queuesD [OF this] inbox_ok_without [OF ok, of "{rv_item rv}"] show ?thesis
    by (simp add: waiting_without updated_queue_def RemoveItem Let_def)
next
  case SteerItem
  with queue have q: "queue = TFollowup" by simp
  have m: "ib_followups st ! i \<in> set (ib_followups st)" "msg_id (ib_followups st ! i) = rv_item rv"
    using pending_index_Some [OF i] q by simp_all
  have "same_queues (put_queue TFollowup (remove_at i (ib_followups st)) st) (without {msg_id (ib_followups st ! i)} st)"
    using put_removed(1) [OF ok i q] m(2) by simp
  from moved_ok [OF ok m(1) this] show ?thesis by (simp add: updated_queue_def SteerItem q Let_def)
qed

lemma commit_reservation_effect:
  assumes ok: "inbox_ok st" and rv: "reservation_ok rv" and run: "commit_reservation rv st = (b, st')"
  shows "inbox_ok st'" "mset (waiting_ids st') \<subseteq># mset (waiting_ids st)"
    "ib_reservations st' = ib_reservations st - {rv_item rv}"
proof -
  let ?st1 = "st\<lparr>ib_reservations := ib_reservations st - {rv_item rv}\<rparr>"
  have ok1: "inbox_ok ?st1" using ok by simp
  note u = updated_queue_effect [OF ok1 rv]
  have "inbox_ok st' \<and> mset (waiting_ids st') \<subseteq># mset (waiting_ids st)
      \<and> ib_reservations st' = ib_reservations st - {rv_item rv}"
    using run by (rule commit_reservation_cases) (use ok u in auto)
  then show "inbox_ok st'" "mset (waiting_ids st') \<subseteq># mset (waiting_ids st)"
    "ib_reservations st' = ib_reservations st - {rv_item rv}" by simp_all
qed

lemma update_item_effect:
  assumes ok: "inbox_ok st" and run: "inbox_update_item x u st = (r, st')"
  shows "inbox_ok st'" "mset (waiting_ids st') \<subseteq># mset (waiting_ids st)"
proof -
  have "st' = st \<or> (\<exists>t i. t \<noteq> TInject \<and> pending_index (queue_of t st) x = Some i
      \<and> ((\<exists>m. message_validate m = Inr () \<and> msg_id m = msg_id (queue_of t st ! i)
              \<and> same_queues st' (put_queue t ((queue_of t st)[i := m]) st))
         \<or> same_queues st' (if t = TFollowup then put_queue TFollowup (remove_at i (ib_followups st)) st
              else drop_order (\<lambda>(u, j). u = t \<and> j = msg_id (queue_of t st ! i)) (put_queue t (remove_at i (queue_of t st)) st))
         \<or> t = TFollowup \<and> same_queues st' (inbox_enqueue (ib_followups st ! i) TSteer
              (put_queue TFollowup (remove_at i (ib_followups st)) st))))"
    using run unfolding inbox_update_item_def Let_def same_queues_def
    by (cases u) (force simp: is_ok_ex split: if_splits option.splits prod.splits)+
  then have "inbox_ok st' \<and> mset (waiting_ids st') \<subseteq># mset (waiting_ids st)"
  proof (elim disjE exE conjE)
    fix t i m
    assume i: "pending_index (queue_of t st) x = Some i" and m: "message_validate m = Inr ()" "msg_id m = msg_id (queue_of t st ! i)"
      and s: "same_queues st' (put_queue t ((queue_of t st)[i := m]) st)"
    from put_same_ids [OF ok _ m(2,1)] pending_index_Some [OF i] same_queuesD [OF s] show ?thesis by simp
  next
    fix t i
    assume i: "pending_index (queue_of t st) x = Some i"
      and s: "same_queues st' (if t = TFollowup then put_queue TFollowup (remove_at i (ib_followups st)) st
              else drop_order (\<lambda>(u, j). u = t \<and> j = msg_id (queue_of t st ! i)) (put_queue t (remove_at i (queue_of t st)) st))"
    have "same_queues st' (without {x} st)"
      using s put_removed(1,3) [OF ok i] pending_index_Some [OF i] by (auto simp: same_queues_def split: if_splits)
    from same_queuesD [OF this] inbox_ok_without [OF ok, of "{x}"] show ?thesis by (simp add: waiting_without)
  next
    fix t i
    assume t: "t = TFollowup" and i: "pending_index (queue_of t st) x = Some i"
      and s: "same_queues st' (inbox_enqueue (ib_followups st ! i) TSteer (put_queue TFollowup (remove_at i (ib_followups st)) st))"
    have m: "ib_followups st ! i \<in> set (ib_followups st)" "msg_id (ib_followups st ! i) = x"
      using pending_index_Some [OF i] t by simp_all
    have "same_queues (put_queue TFollowup (remove_at i (ib_followups st)) st) (without {x} st)"
      using put_removed(1) [OF ok i t] .
    from moved_ok [OF ok m(1)] this m(2) same_queuesD [OF s] show ?thesis by simp
  qed (use ok in simp)
  then show "inbox_ok st'" "mset (waiting_ids st') \<subseteq># mset (waiting_ids st)" by simp_all
qed

end
