(* ===== verification/Agent_Registry.thy ===== *)
theory Agent_Registry
  imports Agent_Inbox Session_Store
begin

text \<open>
  The process-local agents (\<open>src/src/agent.rs\<close>): one agent with its first-wins cancellation, its guarded
  inbox and its disposal, and the registry that owns all live agents, with the reservation of a session
  during setup, the generations and the authority derived from them. An \<open>Arc<AgentInner>\<close> is an address
  in an arena, so that pointer equality is equality of addresses; the same holds for the setup
  completions and the disposals. A critical section is one step; a method that awaits in the middle is
  the composition of the steps before and after. The driver behind \<open>AgentRuntime\<close> is a parameter: the
  results of its calls are arguments and the calls made to it are recorded.
\<close>

section \<open>One agent\<close>

datatype agent_status = AgentIdle | AgentRunning

record agent_options =
  ao_provider :: string
  ao_model :: string
  ao_reasoning_effort :: "string option"
  ao_max_tokens :: "u64 option"

definition options_validate :: "agent_options \<Rightarrow> agent_error + unit" where
  "options_validate opt =
     (if blank (ao_provider opt) then Inl (InvalidOptions ''provider must not be empty'')
      else if blank (ao_model opt) then Inl (InvalidOptions ''model must not be empty'')
      else if (case ao_reasoning_effort opt of None \<Rightarrow> False | Some effort \<Rightarrow> blank effort)
      then Inl (InvalidOptions ''reasoning_effort must not be blank when present'')
      else if ao_max_tokens opt = Some 0 then Inl (InvalidOptions ''max_tokens must be positive when present'')
      else Inr ())"

record agent_cancel_options =
  co_cause :: agent_cancel_cause
  co_keep_inbox :: bool

datatype runtime_call = RtWake | RtCancel agent_cancel_cause | RtDispose

record agent_inner =
  ai_id :: string
  ai_mode :: "string option"
  ai_options :: agent_options
  ai_inbox :: inbox_state
  ai_token :: bool
  ai_completion :: nat
  ai_cancellation :: "agent_cancel_options option"
  ai_disposed :: bool
  ai_cleanup_complete :: bool
  ai_generation :: u64
  ai_calls :: "runtime_call list"

text \<open>\<open>cancel\<close> of a token reports as the parameter says for a token that was or was not cancelled before.\<close>

definition cancel_including_idle ::
  "(bool \<Rightarrow> bool) \<Rightarrow> agent_cancel_options \<Rightarrow> agent_inner \<Rightarrow> bool \<times> agent_inner" where
  "cancel_including_idle report opt a =
     (if ai_disposed a \<or> ai_cancellation a \<noteq> None then (False, a)
      else
        (report (ai_token a),
         a\<lparr>ai_cancellation := Some opt,
           ai_inbox := (if co_keep_inbox opt then ai_inbox a else inbox_clear (ai_inbox a)),
           ai_calls := ai_calls a @ [RtCancel (co_cause opt)],
           ai_token := True\<rparr>))"

definition agent_cancel ::
  "(bool \<Rightarrow> bool) \<Rightarrow> agent_status \<Rightarrow> bool \<Rightarrow> agent_cancel_options \<Rightarrow> agent_inner \<Rightarrow> bool \<times> agent_inner" where
  "agent_cancel report status execution_free opt a =
     (if status = AgentIdle \<and> execution_free then (False, a) else cancel_including_idle report opt a)"

text \<open>A creation handle cancels when it is dropped; a query handle does not.\<close>

definition handle_drop :: "(bool \<Rightarrow> bool) \<Rightarrow> agent_status \<Rightarrow> bool \<Rightarrow> bool \<Rightarrow> agent_inner \<Rightarrow> agent_inner" where
  "handle_drop report status execution_free drop_cancels a =
     (if drop_cancels
      then snd (agent_cancel report status execution_free \<lparr>co_cause = CancelDisposed, co_keep_inbox = False\<rparr> a)
      else a)"

definition agent_open :: "agent_inner \<Rightarrow> agent_error + unit" where
  "agent_open a =
     (if ai_disposed a then Inl AgentDisposed
      else if ai_cancellation a \<noteq> None then Inl AgentSetupCancelled else Inr ())"

definition call_wake :: "agent_inner \<Rightarrow> agent_inner" where
  "call_wake a = a\<lparr>ai_calls := ai_calls a @ [RtWake]\<rparr>"

definition agent_send ::
  "agent_error + unit \<Rightarrow> message \<Rightarrow> agent_target \<Rightarrow> bool \<Rightarrow> agent_inner \<Rightarrow> (agent_error + unit) \<times> agent_inner" where
  "agent_send wake m target wakeup a =
     (case and_then (agent_open a) (\<lambda>_. inbox_send m target wakeup (ai_inbox a)) of
        Inl e \<Rightarrow> (Inl e, a)
      | Inr st \<Rightarrow>
          (let a' = a\<lparr>ai_inbox := st\<rparr> in if wakeup then (wake, call_wake a') else (Inr (), a')))"

definition agent_update_inbox ::
  "agent_error + unit \<Rightarrow> agent_status \<Rightarrow> string \<Rightarrow> inbox_update \<Rightarrow> agent_inner
     \<Rightarrow> (agent_error + inbox_update_result) \<times> agent_inner" where
  "agent_update_inbox wake status item update a =
     (let wakes = (update = SteerItem)
      in case agent_open a of
           Inl e \<Rightarrow> (Inl e, a)
         | Inr _ \<Rightarrow>
             if wakes \<and> status \<noteq> AgentRunning then (Inr SteerUnavailable, a)
             else
               (case inbox_update_item item update (ai_inbox a) of (result, st) \<Rightarrow>
                  let a' = a\<lparr>ai_inbox := st\<rparr>
                  in if wakes \<and> (case result of Updated _ _ \<Rightarrow> True | _ \<Rightarrow> False)
                     then (map_sum id (\<lambda>_. result) wake, call_wake a')
                     else (Inr result, a')))"

text \<open>The option is the \<open>expect\<close> of the inbox's reservation.\<close>

definition agent_reserve_update ::
  "agent_status \<Rightarrow> string \<Rightarrow> inbox_update \<Rightarrow> agent_inner \<Rightarrow> ((agent_error + reservation_result) \<times> agent_inner) option" where
  "agent_reserve_update status item update a =
     (case agent_open a of
        Inl e \<Rightarrow> Some (Inl e, a)
      | Inr _ \<Rightarrow>
          map_option (\<lambda>(r, st). (Inr r, a\<lparr>ai_inbox := st\<rparr>))
            (reserve_update item update (status = AgentRunning) (ai_inbox a)))"

definition agent_commit_update ::
  "agent_error + unit \<Rightarrow> inbox_reservation \<Rightarrow> agent_inner \<Rightarrow> (agent_error + bool) \<times> agent_inner" where
  "agent_commit_update wake rv a =
     (case commit_reservation rv (ai_inbox a) of (committed, st) \<Rightarrow>
        let a' = a\<lparr>ai_inbox := st\<rparr>
        in if committed \<and> rv_wakes rv then (map_sum id (\<lambda>_. committed) wake, call_wake a')
           else (Inr committed, a'))"

text \<open>The rounds of \<open>when_idle\<close>: each driver result with the agent as it is found afterwards. \<open>None\<close> is
  still waiting.\<close>

fun when_idle :: "((agent_error + unit) \<times> agent_inner) list \<Rightarrow> agent_inner \<Rightarrow> (agent_error + unit) option" where
  "when_idle [] a = None"
| "when_idle ((Inl e, a') # rounds) a = Some (Inl e)"
| "when_idle ((Inr _, a') # rounds) a =
     (if ai_token a' \<or> ai_disposed a' then Some (Inr ())
      else if ib_wakes (ai_inbox a') = ib_wakes (ai_inbox a) then Some (Inr ())
      else when_idle rounds a')"

text \<open>Disposal up to the call of the driver; \<open>None\<close> when an earlier call has completed it.\<close>

definition dispose_begin :: "agent_inner \<Rightarrow> agent_inner option" where
  "dispose_begin a =
     (if ai_cleanup_complete a then None
      else
        let first = (\<not> ai_disposed a \<and> ai_cancellation a = None);
            a1 = (if ai_disposed a then a
                  else a\<lparr>ai_disposed := True,
                         ai_cancellation := (if ai_cancellation a = None
                           then Some \<lparr>co_cause = CancelDisposed, co_keep_inbox = False\<rparr> else ai_cancellation a)\<rparr>);
            a2 = (if first
                  then a1\<lparr>ai_inbox := inbox_clear (ai_inbox a1), ai_calls := ai_calls a1 @ [RtCancel CancelDisposed]\<rparr>
                  else a1)
        in Some (a2\<lparr>ai_token := True, ai_calls := ai_calls a2 @ [RtDispose]\<rparr>))"

section \<open>The registry\<close>

record starting_setup =
  sg_token :: nat
  sg_completion :: nat
  sg_cleanup_error :: "agent_error option"

record registry =
  rg_next_generation :: u64
  rg_factory :: "(u64 \<times> nat) option"
  rg_starting :: "(string \<times> starting_setup) list"
  rg_live :: "(string \<times> u64 \<times> nat) list"
  rg_disposal :: "nat option"
  rg_agents :: "agent_inner list"
  rg_finished :: "bool list"
  rg_disposals :: "(agent_error + unit) option list"
  rg_tokens :: "nat set"

text \<open>The four last fields are the heap: agents, setup completions and disposals by address, and the
  cancelled setup tokens.\<close>

definition registry_new :: registry where
  "registry_new = \<lparr>rg_next_generation = 0, rg_factory = None, rg_starting = [], rg_live = [], rg_disposal = None,
     rg_agents = [], rg_finished = [], rg_disposals = [], rg_tokens = {}\<rparr>"

definition next_generation :: "registry \<Rightarrow> u64 \<times> registry" where
  "next_generation r =
     (let g = bump (rg_next_generation r) in (g, r\<lparr>rg_next_generation := g\<rparr>))"

record factory_registration =
  fr_generation :: u64
  fr_closed :: bool

definition register_factory :: "nat \<Rightarrow> registry \<Rightarrow> (agent_error + factory_registration) \<times> registry" where
  "register_factory f r =
     (if rg_factory r \<noteq> None then (Inl DuplicateFactory, r)
      else
        case next_generation r of (g, r') \<Rightarrow>
          (Inr \<lparr>fr_generation = g, fr_closed = False\<rparr>, r'\<lparr>rg_factory := Some (g, f)\<rparr>))"

definition factory_active :: "factory_registration \<Rightarrow> registry \<Rightarrow> bool" where
  "factory_active fr r \<longleftrightarrow>
     \<not> fr_closed fr \<and> (case rg_factory r of None \<Rightarrow> False | Some (g, _) \<Rightarrow> g = fr_generation fr)"

definition factory_close :: "factory_registration \<Rightarrow> registry \<Rightarrow> bool \<times> factory_registration \<times> registry" where
  "factory_close fr r =
     (if fr_closed fr then (False, fr, r)
      else
        let fr' = fr\<lparr>fr_closed := True\<rparr>
        in case rg_factory r of
             None \<Rightarrow> (False, fr', r)
           | Some (g, _) \<Rightarrow>
               if g = fr_generation fr then (True, fr', r\<lparr>rg_factory := None\<rparr>) else (False, fr', r))"

definition registry_get :: "string \<Rightarrow> registry \<Rightarrow> nat option" where
  "registry_get x r = map_option snd (map_of (rg_live r) x)"

definition registry_list :: "registry \<Rightarrow> nat list" where
  "registry_list r = map (\<lambda>(x, g, a). a) (rg_live r)"

definition live_inner :: "string \<Rightarrow> registry \<Rightarrow> agent_error + nat" where
  "live_inner x r = ok_or (AgentNotFound x) (registry_get x r)"

text \<open>The reservation of a session for setup, and what its holder does to it: give it up, note a failed
  cleanup, or turn it into a live agent.\<close>

definition registry_reserve :: "string \<Rightarrow> nat \<Rightarrow> registry \<Rightarrow> (agent_error + nat \<times> nat) \<times> registry" where
  "registry_reserve x token r =
     (if rg_disposal r \<noteq> None then (Inl AgentDisposed, r)
      else
        case rg_factory r of
          None \<Rightarrow> (Inl FactoryNotRegistered, r)
        | Some (_, factory) \<Rightarrow>
            if map_of (rg_live r) x \<noteq> None then (Inl (AgentSession (DuplicateLive x)), r)
            else
              case map_of (rg_starting r) x of
                Some sg \<Rightarrow>
                  (Inl (case sg_cleanup_error sg of Some e \<Rightarrow> e | None \<Rightarrow> AgentSession (DuplicateLive x)), r)
              | None \<Rightarrow>
                  (let completion = length (rg_finished r)
                   in (Inr (factory, completion),
                       r\<lparr>rg_finished := rg_finished r @ [False],
                         rg_starting := bt_insert x
                           \<lparr>sg_token = token, sg_completion = completion, sg_cleanup_error = None\<rparr> (rg_starting r)\<rparr>)))"

definition own_setup :: "string \<Rightarrow> nat \<Rightarrow> registry \<Rightarrow> bool" where
  "own_setup x completion r =
     (case map_of (rg_starting r) x of None \<Rightarrow> False | Some sg \<Rightarrow> sg_completion sg = completion)"

definition drop_reservation :: "string \<Rightarrow> nat \<Rightarrow> registry \<Rightarrow> registry" where
  "drop_reservation x completion r =
     r\<lparr>rg_starting := (if own_setup x completion r then bt_remove x (rg_starting r) else rg_starting r),
       rg_finished := (rg_finished r)[completion := True]\<rparr>"

definition note_cleanup :: "string \<Rightarrow> agent_error option \<Rightarrow> registry \<Rightarrow> registry" where
  "note_cleanup x e r =
     (case map_of (rg_starting r) x of
        None \<Rightarrow> r
      | Some sg \<Rightarrow> r\<lparr>rg_starting := bt_insert x (sg\<lparr>sg_cleanup_error := e\<rparr>) (rg_starting r)\<rparr>)"

text \<open>The retries of \<open>dispose_abandoned_runtime\<close>: the driver's answers in order. The flag says whether it
  has returned.\<close>

fun dispose_abandoned :: "string \<Rightarrow> (agent_error + unit) list \<Rightarrow> registry \<Rightarrow> bool \<times> registry" where
  "dispose_abandoned x [] r = (False, r)"
| "dispose_abandoned x (Inr _ # answers) r = (True, note_cleanup x None r)"
| "dispose_abandoned x (Inl e # answers) r = dispose_abandoned x answers (note_cleanup x (Some e) r)"

record setup_ready =
  sr_session :: string
  sr_options :: agent_options
  sr_inbox :: inbox_state
  sr_mode :: "string option"

definition agent_of :: "setup_ready \<Rightarrow> nat \<Rightarrow> u64 \<Rightarrow> agent_inner" where
  "agent_of ready completion g =
     \<lparr>ai_id = sr_session ready, ai_mode = sr_mode ready, ai_options = sr_options ready, ai_inbox = sr_inbox ready,
      ai_token = False, ai_completion = completion, ai_cancellation = None, ai_disposed = False,
      ai_cleanup_complete = False, ai_generation = g, ai_calls = []\<rparr>"

text \<open>\<open>heard\<close> is whether the setup task still waits for the acceptance.\<close>

definition accept_setup ::
  "setup_ready \<Rightarrow> bool \<Rightarrow> nat \<Rightarrow> bool \<Rightarrow> registry \<Rightarrow> (agent_error + nat) \<times> registry" where
  "accept_setup ready cancelled completion heard r =
     (let x = sr_session ready
      in if cancelled \<or> rg_disposal r \<noteq> None then (Inl AgentSetupCancelled, r)
         else if \<not> own_setup x completion r then (Inl SetupReservationLost, r)
         else if map_of (rg_live r) x \<noteq> None then (Inl SetupReservationLost, r)
         else if \<not> heard then (Inl SetupReservationLost, r)
         else
           case next_generation r of (g, r') \<Rightarrow>
             (let a = length (rg_agents r')
              in (Inr a,
                  r'\<lparr>rg_agents := rg_agents r' @ [agent_of ready completion g],
                     rg_live := bt_insert x (g, a) (rg_live r'),
                     rg_starting := bt_remove x (rg_starting r')\<rparr>)))"

definition put_agent :: "nat \<Rightarrow> agent_inner \<Rightarrow> registry \<Rightarrow> registry" where
  "put_agent a inner r = r\<lparr>rg_agents := (rg_agents r)[a := inner]\<rparr>"

definition remove_from_registry :: "nat \<Rightarrow> registry \<Rightarrow> registry" where
  "remove_from_registry a r =
     (let inner = rg_agents r ! a
      in case map_of (rg_live r) (ai_id inner) of
           None \<Rightarrow> r
         | Some (g, _) \<Rightarrow>
             if g = ai_generation inner then r\<lparr>rg_live := bt_remove (ai_id inner) (rg_live r)\<rparr> else r)"

text \<open>Disposal after the driver has answered, and the whole call. The setup of the agent has finished and
  the disposal gate is held.\<close>

definition dispose_end :: "nat \<Rightarrow> agent_error + unit \<Rightarrow> registry \<Rightarrow> (agent_error + unit) \<times> registry" where
  "dispose_end a answer r =
     (case answer of
        Inl e \<Rightarrow> (Inl e, r)
      | Inr _ \<Rightarrow>
          (Inr (), remove_from_registry a (put_agent a ((rg_agents r ! a)\<lparr>ai_cleanup_complete := True\<rparr>) r)))"

definition agent_dispose :: "nat \<Rightarrow> agent_error + unit \<Rightarrow> registry \<Rightarrow> (agent_error + unit) \<times> registry" where
  "agent_dispose a answer r =
     (case dispose_begin (rg_agents r ! a) of
        None \<Rightarrow> (Inr (), r)
      | Some inner \<Rightarrow> dispose_end a answer (put_agent a inner r))"

definition registry_send ::
  "agent_error + unit \<Rightarrow> string \<Rightarrow> message \<Rightarrow> agent_target \<Rightarrow> bool \<Rightarrow> registry \<Rightarrow> (agent_error + unit) \<times> registry" where
  "registry_send wake x m target wakeup r =
     (case live_inner x r of
        Inl e \<Rightarrow> (Inl e, r)
      | Inr a \<Rightarrow> (case agent_send wake m target wakeup (rg_agents r ! a) of (result, inner) \<Rightarrow> (result, put_agent a inner r)))"

definition registry_cancel ::
  "(bool \<Rightarrow> bool) \<Rightarrow> agent_status \<Rightarrow> bool \<Rightarrow> string \<Rightarrow> agent_cancel_options \<Rightarrow> registry \<Rightarrow> (agent_error + bool) \<times> registry" where
  "registry_cancel report status execution_free x opt r =
     (case live_inner x r of
        Inl e \<Rightarrow> (Inl e, r)
      | Inr a \<Rightarrow>
          (case agent_cancel report status execution_free opt (rg_agents r ! a) of (hit, inner) \<Rightarrow>
             (Inr hit, put_agent a inner r)))"

fun cancel_each :: "(bool \<Rightarrow> bool) \<Rightarrow> agent_cancel_options \<Rightarrow> nat list \<Rightarrow> registry \<Rightarrow> nat \<times> registry" where
  "cancel_each report opt [] r = (0, r)"
| "cancel_each report opt (a # as) r =
     (case cancel_including_idle report opt (rg_agents r ! a) of (hit, inner) \<Rightarrow>
        case cancel_each report opt as (put_agent a inner r) of (n, r') \<Rightarrow>
          ((if hit then Suc n else n), r'))"

definition cancel_all :: "(bool \<Rightarrow> bool) \<Rightarrow> agent_cancel_options \<Rightarrow> registry \<Rightarrow> nat \<times> registry" where
  "cancel_all report opt r = cancel_each report opt (registry_list r) r"

text \<open>\<open>dispose_all\<close>: join the running disposal or start one; the disposal cancels the setups, then disposes
  every live agent with the answers of their drivers and reports the first error. Dropping the guard ends
  the disposal, also when its task did not complete.\<close>

definition dispose_all_start :: "registry \<Rightarrow> (nat \<times> bool) \<times> registry" where
  "dispose_all_start r =
     (case rg_disposal r of
        Some d \<Rightarrow> ((d, False), r)
      | None \<Rightarrow>
          (let d = length (rg_disposals r)
           in ((d, True), r\<lparr>rg_disposal := Some d, rg_disposals := rg_disposals r @ [None]\<rparr>)))"

definition cancel_setups :: "registry \<Rightarrow> nat list \<times> registry" where
  "cancel_setups r =
     (map (\<lambda>(x, sg). sg_completion sg) (rg_starting r) @ map (\<lambda>a. ai_completion (rg_agents r ! a)) (registry_list r),
      r\<lparr>rg_tokens := set (map (\<lambda>(x, sg). sg_token sg) (rg_starting r)) \<union> rg_tokens r\<rparr>)"

fun dispose_each :: "(nat \<Rightarrow> agent_error + unit) \<Rightarrow> nat list \<Rightarrow> registry \<Rightarrow> (agent_error + unit) list \<times> registry" where
  "dispose_each answers [] r = ([], r)"
| "dispose_each answers (a # as) r =
     (case agent_dispose a (answers a) r of (result, r') \<Rightarrow>
        case dispose_each answers as r' of (results, r'') \<Rightarrow> (result # results, r''))"

definition first_error :: "(agent_error + unit) list \<Rightarrow> agent_error + unit" where
  "first_error results = (case find_first (\<lambda>x. \<not> is_ok x) results of None \<Rightarrow> Inr () | Some e \<Rightarrow> e)"

definition dispose_live :: "(nat \<Rightarrow> agent_error + unit) \<Rightarrow> registry \<Rightarrow> (agent_error + unit) \<times> registry" where
  "dispose_live answers r =
     (case dispose_each answers (registry_list r) r of (results, r') \<Rightarrow> (first_error results, r'))"

definition drop_disposal :: "nat \<Rightarrow> (agent_error + unit) option \<Rightarrow> registry \<Rightarrow> registry" where
  "drop_disposal d result r =
     r\<lparr>rg_disposal := (if rg_disposal r = Some d then None else rg_disposal r),
       rg_disposals := (rg_disposals r)[d := Some (case result of
          Some x \<Rightarrow> x | None \<Rightarrow> Inl (RuntimeFailed ''agent registry disposal ended before completion''))]\<rparr>"

section \<open>Authority\<close>

record agent_authority =
  au_inner :: nat
  au_id :: string
  au_generation :: u64

definition authority_of :: "nat \<Rightarrow> registry \<Rightarrow> agent_authority" where
  "authority_of a r = \<lparr>au_inner = a, au_id = ai_id (rg_agents r ! a), au_generation = ai_generation (rg_agents r ! a)\<rparr>"

definition authority_live :: "agent_authority \<Rightarrow> registry \<Rightarrow> bool" where
  "authority_live au r \<longleftrightarrow>
     (let inner = rg_agents r ! au_inner au
      in ai_id inner = au_id au \<and> ai_generation inner = au_generation au
         \<and> (case map_of (rg_live r) (au_id au) of
              None \<Rightarrow> False
            | Some (g, a) \<Rightarrow> g = au_generation au \<and> a = au_inner au \<and> \<not> ai_disposed inner))"

section \<open>Setup\<close>

datatype setup_kind = SetupCreate session_header | SetupResume string | SetupCreateOrResume session_header

definition check_setup_cancellation :: "bool \<Rightarrow> agent_error + unit" where
  "check_setup_cancellation cancelled = (if cancelled then Inl AgentSetupCancelled else Inr ())"

fun setup_id :: "setup_kind \<Rightarrow> string" where
  "setup_id (SetupCreate h) = hd_id h"
| "setup_id (SetupResume x) = x"
| "setup_id (SetupCreateOrResume h) = hd_id h"

text \<open>What \<open>create\<close>, \<open>resume\<close> and \<open>create_or_resume\<close> do before they hand over to the setup task.\<close>

definition setup_admission ::
  "setup_kind \<Rightarrow> agent_options \<Rightarrow> bool \<Rightarrow> nat \<Rightarrow> registry \<Rightarrow> (agent_error + nat \<times> nat) \<times> registry" where
  "setup_admission kind opt cancelled token r =
     (case and_then (options_validate opt) (\<lambda>_. check_setup_cancellation cancelled) of
        Inl e \<Rightarrow> (Inl e, r)
      | Inr _ \<Rightarrow> registry_reserve (setup_id kind) token r)"

definition setup_session ::
  "codec \<Rightarrow> 'p persistence \<Rightarrow> live_sessions \<Rightarrow> setup_kind \<Rightarrow> ('p, session \<times> live_sessions) io" where
  "setup_session cdc ops live kind =
     (case kind of
        SetupCreate h \<Rightarrow> store_create cdc ops live h
      | SetupResume x \<Rightarrow>
          (case store_get live x of
             Some s \<Rightarrow> io_return (s, live)
           | None \<Rightarrow> store_restore cdc ops live x RestoreLive)
      | SetupCreateOrResume h \<Rightarrow>
          (case store_get live (hd_id h) of
             Some s \<Rightarrow> io_return (s, live)
           | None \<Rightarrow> (\<lambda>w.
               case store_restore cdc ops live (hd_id h) RestoreLive w of
                 (Inl (NotFound _), w') \<Rightarrow> store_create cdc ops live h w'
               | other \<Rightarrow> other)))"

fun enqueue_all :: "message list \<Rightarrow> inbox_state \<Rightarrow> agent_error + inbox_state" where
  "enqueue_all [] st = Inr st"
| "enqueue_all (m # ms) st = and_then (inbox_send m TFollowup False st) (enqueue_all ms)"

datatype setup_outcome = SetupFailed agent_error | SetupAbandoned agent_error | SetupDone setup_ready

text \<open>The setup task from the result of the session setup on. The four flags are what the task observes of
  the setup token: whether it wins the first selection, is seen after it, wins the second selection, and
  is seen after that. An abandoned setup has a driver to dispose of.\<close>

record setup_view =
  sv_first :: bool
  sv_after :: bool
  sv_second :: bool
  sv_last :: bool

definition run_setup ::
  "codec \<Rightarrow> setup_view \<Rightarrow> agent_options \<Rightarrow> (session \<Rightarrow> inbox_state \<Rightarrow> agent_error + unit)
     \<Rightarrow> session_error + session \<Rightarrow> setup_outcome" where
  "run_setup cdc view opt factory session_result =
     (case session_result of
        Inl e \<Rightarrow> SetupFailed (if sv_first view then AgentSetupCancelled else AgentSession e)
      | Inr s \<Rightarrow>
          if sv_first view \<or> sv_after view then SetupFailed AgentSetupCancelled
          else
            case pending_next_turn_inbox cdc s of
              Inl e \<Rightarrow> SetupFailed (AgentSession e)
            | Inr pending \<Rightarrow>
                (case enqueue_all pending inbox_new of
                   Inl e \<Rightarrow> SetupFailed e
                 | Inr inbox \<Rightarrow>
                     (case factory s inbox of
                        Inl e \<Rightarrow> SetupFailed e
                      | Inr _ \<Rightarrow>
                          if sv_second view \<or> sv_last view then SetupAbandoned AgentSetupCancelled
                          else SetupDone \<lparr>sr_session = session_id s, sr_options = opt, sr_inbox = inbox,
                                 sr_mode = hd_agent_mode (ss_header s)\<rparr>)))"

section \<open>Steps\<close>

text \<open>Everything that happens to one agent apart from its disposal: the calls of its holders and the driver
  taking from its inbox.\<close>

inductive agent_step :: "agent_inner \<Rightarrow> agent_inner \<Rightarrow> bool" where
  cancel: "agent_cancel report status free opt a = (hit, a') \<Longrightarrow> agent_step a a'"
| cancel_idle: "cancel_including_idle report opt a = (hit, a') \<Longrightarrow> agent_step a a'"
| drop_handle: "agent_step a (handle_drop report status free drop_cancels a)"
| send: "agent_send wake m t w a = (res, a') \<Longrightarrow> agent_step a a'"
| update: "agent_update_inbox wake status x u a = (upd, a') \<Longrightarrow> agent_step a a'"
| reserve: "agent_reserve_update status x u a = Some (rsv, a') \<Longrightarrow> agent_step a a'"
| publish: "reserve_update x u b st0 = Some (Reserved rv, st1) \<Longrightarrow> agent_commit_update wake rv a = (done, a')
    \<Longrightarrow> agent_step a a'"
| withdraw: "agent_step a (a\<lparr>ai_inbox := abort_reservation x (ai_inbox a)\<rparr>)"
| claim_turn: "reserve_next_turn_claim (ai_inbox a) = (cl, st) \<Longrightarrow> agent_step a (a\<lparr>ai_inbox := st\<rparr>)"
| claim_step: "reserve_step_batch_claim (ai_inbox a) = (cl, st) \<Longrightarrow> agent_step a (a\<lparr>ai_inbox := st\<rparr>)"
| commit: "claim_commit c (ai_inbox a) = Some (ms, st) \<Longrightarrow> agent_step a (a\<lparr>ai_inbox := st\<rparr>)"
| abandon: "agent_step a (a\<lparr>ai_inbox := abort_claim c (ai_inbox a)\<rparr>)"

text \<open>Everything that happens to the registry. A process does not live to allocate the last generation.\<close>

inductive agents_step :: "registry \<Rightarrow> registry \<Rightarrow> bool" where
  register: "register_factory f r = (reg, r') \<Longrightarrow> rg_next_generation r < u64_max \<Longrightarrow> agents_step r r'"
| close: "factory_close fr r = (hit, fr', r') \<Longrightarrow> agents_step r r'"
| admit: "setup_admission kind opt cancelled token r = (slot, r') \<Longrightarrow> agents_step r r'"
| accept: "accept_setup ready cancelled completion heard r = (acc, r') \<Longrightarrow> rg_next_generation r < u64_max
    \<Longrightarrow> agents_step r r'"
| give_up: "agents_step r (drop_reservation x completion r)"
| cleanup: "agents_step r (note_cleanup x e r)"
| agent: "a < length (rg_agents r) \<Longrightarrow> agent_step (rg_agents r ! a) inner \<Longrightarrow> agents_step r (put_agent a inner r)"
| dispose_begin: "a < length (rg_agents r) \<Longrightarrow> dispose_begin (rg_agents r ! a) = Some inner
    \<Longrightarrow> agents_step r (put_agent a inner r)"
| dispose_end: "a < length (rg_agents r) \<Longrightarrow> ai_disposed (rg_agents r ! a) \<Longrightarrow> dispose_end a answer r = (res, r')
    \<Longrightarrow> agents_step r r'"
| dispose_all: "dispose_all_start r = (d, r') \<Longrightarrow> agents_step r r'"
| cancel_setups: "cancel_setups r = (cs, r') \<Longrightarrow> agents_step r r'"
| disposal_over: "agents_step r (drop_disposal d result r)"

inductive agents_reachable :: "registry \<Rightarrow> bool" where
  start: "agents_reachable registry_new"
| step: "agents_reachable r \<Longrightarrow> agents_step r r' \<Longrightarrow> agents_reachable r'"

section \<open>What a step does to one agent\<close>

text \<open>Identity and generation never change, a recorded cancellation and a disposal are final, and once the
  cancellation is recorded nothing enters the inbox.\<close>

definition agent_grows :: "agent_inner \<Rightarrow> agent_inner \<Rightarrow> bool" where
  "agent_grows a a' \<longleftrightarrow>
     ai_id a' = ai_id a \<and> ai_generation a' = ai_generation a
     \<and> (ai_disposed a \<longrightarrow> ai_disposed a')
     \<and> (ai_cancellation a \<noteq> None \<longrightarrow>
          ai_cancellation a' = ai_cancellation a \<and> set (waiting_ids (ai_inbox a')) \<subseteq> set (waiting_ids (ai_inbox a)))"

lemma agent_grows_refl: "agent_grows a a"
  by (simp add: agent_grows_def)

lemma agent_grows_trans: "agent_grows a b \<Longrightarrow> agent_grows b c \<Longrightarrow> agent_grows a c"
  by (auto simp: agent_grows_def)

lemma agent_grows_inbox:
  "set (waiting_ids st) \<subseteq> set (waiting_ids (ai_inbox a)) \<Longrightarrow> agent_grows a (a\<lparr>ai_inbox := st\<rparr>)"
  by (simp add: agent_grows_def)

lemma agent_grows_wake: "agent_grows a a' \<Longrightarrow> agent_grows a (call_wake a')"
  by (simp add: agent_grows_def call_wake_def)

text \<open>The inbox operations that bring no new id.\<close>

lemma waiting_put:
  "msg_id ` set q \<subseteq> msg_id ` set (queue_of t st) \<Longrightarrow> set (waiting_ids (put_queue t q st)) \<subseteq> set (waiting_ids st)"
  by (cases t) (auto simp: waiting_ids_def)

lemma waiting_remove: "set (waiting_ids (put_queue t (remove_at i (queue_of t st)) st)) \<subseteq> set (waiting_ids st)"
  by (rule waiting_put) (use remove_at_set in \<open>fastforce\<close>)

lemma waiting_replace:
  assumes "i < length (queue_of t st)" "msg_id m = msg_id (queue_of t st ! i)"
  shows "set (waiting_ids (put_queue t ((queue_of t st)[i := m]) st)) \<subseteq> set (waiting_ids st)"
proof (rule waiting_put)
  have "msg_id m \<in> msg_id ` set (queue_of t st)" using assms by (metis imageI nth_mem)
  then show "msg_id ` set ((queue_of t st)[i := m]) \<subseteq> msg_id ` set (queue_of t st)"
    using set_update_subset_insert [of "queue_of t st" i m] by auto
qed

lemma waiting_move:
  assumes "i < length (ib_followups st)"
  shows "set (waiting_ids (inbox_enqueue (ib_followups st ! i) TSteer (put_queue TFollowup (remove_at i (ib_followups st)) st)))
    \<subseteq> set (waiting_ids st)"
proof -
  have "set (waiting_ids (put_queue TFollowup (remove_at i (ib_followups st)) st)) \<subseteq> set (waiting_ids st)"
    using waiting_remove [of TFollowup i st] by simp
  moreover have "msg_id (ib_followups st ! i) \<in> set (waiting_ids st)"
    using assms queue_waiting [of _ TFollowup st] by simp
  ultimately show ?thesis
    using mset_eq_setD [of "waiting_ids (inbox_enqueue (ib_followups st ! i) TSteer (put_queue TFollowup (remove_at i (ib_followups st)) st))"
        "msg_id (ib_followups st ! i) # waiting_ids (put_queue TFollowup (remove_at i (ib_followups st)) st)"]
    by (simp add: waiting_enqueue)
qed

lemma waiting_clear: "set (waiting_ids (inbox_clear st)) \<subseteq> set (waiting_ids st)"
  by (simp add: inbox_clear_def waiting_ids_def)

lemma waiting_update_item:
  assumes "inbox_update_item x u st = (res, st')"
  shows "set (waiting_ids st') \<subseteq> set (waiting_ids st)"
proof (cases "x \<in> ib_reservations st")
  case True
  with assms show ?thesis by (simp add: inbox_update_item_def)
next
  case False
  define found where "found = (case pending_index (ib_followups st) x of Some i \<Rightarrow> Some (TFollowup, i)
     | None \<Rightarrow> map_option (Pair TSteer) (pending_index (ib_steers st) x))"
  show ?thesis
  proof (cases found)
    case None
    with assms False show ?thesis by (simp add: inbox_update_item_def found_def [symmetric])
  next
    case (Some ti)
    obtain t i where ti: "ti = (t, i)" by fastforce
    have i: "i < length (queue_of t st)"
      using Some pending_index_Some unfolding ti found_def by (auto split: option.splits)
    have t: "t = TFollowup \<or> t = TSteer" using Some unfolding ti found_def by (auto split: option.splits)
    note run = assms [unfolded inbox_update_item_def found_def [symmetric] Some ti Let_def]
    show ?thesis
    proof (cases u)
      case (EditContent content)
      with run False waiting_replace [OF i, of "(queue_of t st ! i)\<lparr>msg_content := content\<rparr>"] show ?thesis
        by (auto split: if_splits)
    next
      case RemoveItem
      with run False waiting_remove [of t i st] show ?thesis by (auto split: if_splits)
    next
      case SteerItem
      with run False waiting_move [of i st] i show ?thesis by (auto split: if_splits)
    qed
  qed
qed

lemma reserved_message_id:
  assumes "reserve_update x u b st = Some (Reserved rv, st')"
  shows "msg_id (rv_message rv) = rv_item rv"
proof -
  have located: "msg_id m = x" if "locate st x = Some (Some (t, n, m))" for t n m
    using that pending_index_Some by (auto simp: locate_def split: option.splits)
  have "msg_id m' = msg_id m" if "plan_update u t m b = Inr (t', m', w)" for t m t' m' w
    using that by (auto simp: plan_update_def Let_def split: inbox_update.splits if_splits)
  with assms located show ?thesis
    by (auto simp: reserve_update_def plan_update_refused split: if_splits option.splits sum.splits prod.splits)
qed

lemma waiting_reserve: "reserve_update x u b st = Some (res, st') \<Longrightarrow> waiting_ids st' = waiting_ids st"
  by (auto simp: reserve_update_def split: if_splits option.splits sum.splits prod.splits)

lemma waiting_commit:
  assumes "commit_reservation rv st = (b, st')" "msg_id (rv_message rv) = rv_item rv"
  shows "set (waiting_ids st') \<subseteq> set (waiting_ids st)"
proof (rule commit_reservation_cases [OF assms(1)])
  fix i
  let ?st = "st\<lparr>ib_reservations := ib_reservations st - {rv_item rv}\<rparr>"
  let ?q = "if rv_update rv = SteerItem then TFollowup else rv_target rv"
  assume i: "pending_index (queue_of ?q ?st) (rv_item rv) = Some i"
    and st': "st' = bump_wakes (rv_wakes rv) (bump_changes (updated_queue rv ?q i ?st))"
  note at = pending_index_Some [OF i]
  have "set (waiting_ids (updated_queue rv ?q i ?st)) \<subseteq> set (waiting_ids ?st)"
  proof (cases "rv_update rv")
    case (EditContent content)
    then show ?thesis
      using waiting_replace [of i ?q ?st "rv_message rv"] at assms(2) by (simp add: updated_queue_def Let_def)
  next
    case RemoveItem
    then show ?thesis
      using waiting_remove [of ?q i ?st] by (cases "rv_target rv = TFollowup") (simp_all add: updated_queue_def Let_def)
  next
    case SteerItem
    then show ?thesis using waiting_move [of i ?st] at by (simp add: updated_queue_def Let_def)
  qed
  then show ?thesis by (simp add: st')
qed auto

lemma waiting_claims:
  "reserve_next_turn_claim st = (cl, st') \<Longrightarrow> waiting_ids st' = waiting_ids st"
  "reserve_step_batch_claim st = (cl, st') \<Longrightarrow> waiting_ids st' = waiting_ids st"
  "waiting_ids (abort_claim c st) = waiting_ids st"
  "waiting_ids (abort_reservation x st) = waiting_ids st"
  by (auto simp: reserve_next_turn_claim_def reserve_step_batch_claim_def abort_claim_def abort_reservation_def Let_def
      split: list.splits if_splits option.splits)

lemma waiting_claim_loop: "claim_loop es st = Some st' \<Longrightarrow> set (waiting_ids st') \<subseteq> set (waiting_ids st)"
proof (induction es st rule: claim_loop.induct)
  case (2 t item es st)
  then obtain i where "pending_index (queue_of t st) item = Some i"
    and loop: "claim_loop es ((put_queue t (remove_at i (queue_of t st)) st)\<lparr>ib_reservations := ib_reservations st - {item}\<rparr>) = Some st'"
    by (auto split: option.splits)
  from 2(1) [OF this] waiting_remove [of t i st] show ?case by simp
qed simp

lemma waiting_claim_commit: "claim_commit c st = Some (ms, st') \<Longrightarrow> set (waiting_ids st') \<subseteq> set (waiting_ids st)"
  by (auto simp: claim_commit_def commit_claim_def waiting_claims split: if_splits prod.splits dest!: waiting_claim_loop)

lemma cancel_grows: "cancel_including_idle report opt a = (hit, a') \<Longrightarrow> agent_grows a a'"
  using waiting_clear by (auto simp: cancel_including_idle_def agent_grows_def split: if_splits)

lemma agent_cancel_grows: "agent_cancel report status free opt a = (hit, a') \<Longrightarrow> agent_grows a a'"
  by (auto simp: agent_cancel_def cancel_grows agent_grows_refl split: if_splits)

lemma agent_open_Inr: "(agent_open a = Inr u) = (\<not> ai_disposed a \<and> ai_cancellation a = None)"
  by (simp add: agent_open_def)

lemma agent_grows_open: "agent_open a = Inr u \<Longrightarrow> agent_grows a (a\<lparr>ai_inbox := st\<rparr>)"
  by (simp add: agent_open_Inr agent_grows_def)

lemma agent_step_grows: "agent_step a a' \<Longrightarrow> agent_grows a a'"
proof (induction rule: agent_step.induct)
  case (send wake m t w a res a')
  then show ?case
    by (auto simp: agent_send_def Let_def agent_grows_refl agent_grows_open agent_grows_wake split: sum.splits if_splits)
next
  case (update wake status x u a upd a')
  then show ?case
    by (auto simp: agent_update_inbox_def Let_def agent_grows_refl agent_grows_open agent_grows_wake
        split: sum.splits if_splits prod.splits)
next
  case (reserve status x u a rsv a')
  then show ?case
    by (auto simp: agent_reserve_update_def agent_grows_refl agent_grows_open split: sum.splits)
next
  case (publish x u b st0 rv st1 wake a "done" a')
  obtain k st where run: "commit_reservation rv (ai_inbox a) = (k, st)" by fastforce
  have "agent_grows a (a\<lparr>ai_inbox := st\<rparr>)"
    using waiting_commit [OF run reserved_message_id [OF publish(1)]] by (rule agent_grows_inbox)
  with publish(2) run show ?case
    by (auto simp: agent_commit_update_def Let_def agent_grows_wake split: if_splits)
next
  case (drop_handle a report status free drop_cancels)
  then show ?case
    by (simp add: handle_drop_def agent_grows_refl agent_cancel_grows [OF prod.collapse [symmetric]])
next
  case (claim_turn a cl st)
  from waiting_claims(1) [OF this] show ?case by (simp add: agent_grows_inbox)
next
  case (claim_step a cl st)
  from waiting_claims(2) [OF this] show ?case by (simp add: agent_grows_inbox)
qed (auto intro: agent_cancel_grows cancel_grows agent_grows_inbox dest: waiting_claim_commit simp: waiting_claims(3,4))

section \<open>What a step does to the registry\<close>

text \<open>Agents keep their address, and an address that has left the registry does not come back.\<close>

definition registry_grows :: "registry \<Rightarrow> registry \<Rightarrow> bool" where
  "registry_grows r r' \<longleftrightarrow>
     length (rg_agents r) \<le> length (rg_agents r')
     \<and> (\<forall>a<length (rg_agents r). agent_grows (rg_agents r ! a) (rg_agents r' ! a))
     \<and> (\<forall>a<length (rg_agents r). \<forall>x g. map_of (rg_live r') x = Some (g, a) \<longrightarrow> map_of (rg_live r) x = Some (g, a))"

lemma registry_grows_refl: "registry_grows r r"
  by (simp add: registry_grows_def agent_grows_refl)

lemma registry_grows_trans: "registry_grows r s \<Longrightarrow> registry_grows s t \<Longrightarrow> registry_grows r t"
  unfolding registry_grows_def by (meson agent_grows_trans less_le_trans le_trans)

lemma registry_grows_same:
  "rg_agents r' = rg_agents r \<Longrightarrow> rg_live r' = rg_live r \<Longrightarrow> registry_grows r r'"
  by (simp add: registry_grows_def agent_grows_refl)

lemma registry_grows_put:
  assumes "agent_grows (rg_agents r ! a) inner"
  shows "registry_grows r (put_agent a inner r)"
  using assms by (cases "a < length (rg_agents r)") (auto simp: registry_grows_def put_agent_def nth_list_update agent_grows_refl)

lemma registry_grows_remove: "registry_grows r (remove_from_registry a r)"
  by (auto simp: remove_from_registry_def Let_def registry_grows_refl split: option.splits if_splits)
    (auto simp: registry_grows_def agent_grows_refl split: if_splits)

lemma dispose_end_grows: "dispose_end a answer r = (res, r') \<Longrightarrow> registry_grows r r'"
proof (cases answer)
  case (Inr u)
  assume run: "dispose_end a answer r = (res, r')"
  have "agent_grows (rg_agents r ! a) ((rg_agents r ! a)\<lparr>ai_cleanup_complete := True\<rparr>)" by (simp add: agent_grows_def)
  from registry_grows_trans [OF registry_grows_put [OF this] registry_grows_remove] run Inr show ?thesis
    by (auto simp: dispose_end_def)
qed (simp add: dispose_end_def registry_grows_refl)

lemma accept_grows: "accept_setup ready cancelled completion heard r = (acc, r') \<Longrightarrow> registry_grows r r'"
  by (auto simp: accept_setup_def next_generation_def Let_def registry_grows_refl split: if_splits)
    (auto simp: registry_grows_def agent_grows_refl nth_append split: if_splits)

lemma agents_step_grows: "agents_step r r' \<Longrightarrow> registry_grows r r'"
proof (induction rule: agents_step.induct)
  case (agent a r inner)
  then show ?case by (auto intro: registry_grows_put agent_step_grows)
next
  case (dispose_begin a r inner)
  then show ?case by (intro registry_grows_put) (auto simp: dispose_begin_def Let_def agent_grows_def split: if_splits
      dest: waiting_clear [THEN subsetD])
next
  case (admit kind opt cancelled token r slot r')
  then show ?case
    by (intro registry_grows_same) (auto simp: setup_admission_def registry_reserve_def Let_def split: sum.splits if_splits option.splits)
next
  case (register f r reg r')
  then show ?case
    by (intro registry_grows_same) (auto simp: register_factory_def next_generation_def Let_def split: if_splits)
next
  case (close fr r hit fr' r')
  then show ?case
    by (intro registry_grows_same) (auto simp: factory_close_def Let_def split: if_splits option.splits)
next
  case (cleanup r x e)
  then show ?case by (intro registry_grows_same) (auto simp: note_cleanup_def split: option.splits)
next
  case (dispose_all r d r')
  then show ?case by (intro registry_grows_same) (auto simp: dispose_all_start_def Let_def split: option.splits)
next
  case (cancel_setups r cs r')
  then show ?case by (intro registry_grows_same) (auto simp: cancel_setups_def)
qed (auto intro: accept_grows dispose_end_grows registry_grows_same simp: drop_reservation_def drop_disposal_def)

lemma registry_steps_grow: "agents_step\<^sup>*\<^sup>* r r' \<Longrightarrow> registry_grows r r'"
  by (induction rule: rtranclp_induct) (auto intro: registry_grows_refl registry_grows_trans agents_step_grows)

section \<open>The invariant of the registry\<close>

definition agent_ok :: "agent_inner \<Rightarrow> bool" where
  "agent_ok a \<longleftrightarrow> (ai_disposed a \<longrightarrow> ai_cancellation a \<noteq> None) \<and> (ai_cleanup_complete a \<longrightarrow> ai_disposed a)"

text \<open>A live entry is the agent it names, not yet cleaned up; a session in setup is not live and owns its
  completion; generations grow with the addresses.\<close>

definition live_entries_ok :: "registry \<Rightarrow> bool" where
  "live_entries_ok r \<longleftrightarrow>
     (\<forall>x g a. map_of (rg_live r) x = Some (g, a) \<longrightarrow>
        a < length (rg_agents r) \<and> ai_id (rg_agents r ! a) = x \<and> ai_generation (rg_agents r ! a) = g
        \<and> \<not> ai_cleanup_complete (rg_agents r ! a))"

definition starting_ok :: "registry \<Rightarrow> bool" where
  "starting_ok r \<longleftrightarrow>
     (\<forall>x sg. map_of (rg_starting r) x = Some sg \<longrightarrow>
        sg_completion sg < length (rg_finished r) \<and> map_of (rg_live r) x = None
        \<and> (\<forall>y sh. map_of (rg_starting r) y = Some sh \<longrightarrow> sg_completion sh = sg_completion sg \<longrightarrow> y = x))"

definition generations_ok :: "registry \<Rightarrow> bool" where
  "generations_ok r \<longleftrightarrow>
     sorted_wrt (<) (map ai_generation (rg_agents r))
     \<and> list_all (\<lambda>a. ai_generation a \<le> rg_next_generation r \<and> agent_ok a) (rg_agents r)"

definition agents_ok :: "registry \<Rightarrow> bool" where
  "agents_ok r \<longleftrightarrow>
     bt_sorted (rg_live r) \<and> bt_sorted (rg_starting r) \<and> live_entries_ok r \<and> starting_ok r \<and> generations_ok r"

lemma agents_ok_new: "agents_ok registry_new"
  by (simp add: agents_ok_def registry_new_def bt_sorted_def live_entries_ok_def starting_ok_def generations_ok_def)

text \<open>Replacing one agent by a later state of it.\<close>

lemma map_update_same: "i < length xs \<Longrightarrow> f y = f (xs ! i) \<Longrightarrow> map f (xs[i := y]) = map f xs"
  by (metis length_map list_update_id map_update nth_map)

lemma agents_ok_put:
  assumes ok: "agents_ok r" and a: "a < length (rg_agents r)" and g: "agent_grows (rg_agents r ! a) inner" and i: "agent_ok inner"
    and c: "ai_cleanup_complete inner = ai_cleanup_complete (rg_agents r ! a)"
  shows "agents_ok (put_agent a inner r)"
proof -
  have g': "ai_id inner = ai_id (rg_agents r ! a)" "ai_generation inner = ai_generation (rg_agents r ! a)"
    using g by (simp_all add: agent_grows_def)
  have "live_entries_ok (put_agent a inner r)"
    using ok a g' c by (auto simp: agents_ok_def live_entries_ok_def put_agent_def nth_list_update)
  moreover have "generations_ok (put_agent a inner r)"
    using ok a g'(2) i set_update_subset_insert [of "rg_agents r" a inner]
    by (auto simp: agents_ok_def generations_ok_def put_agent_def map_update_same list_all_iff)
  moreover have "starting_ok (put_agent a inner r)" using ok by (simp add: agents_ok_def starting_ok_def put_agent_def)
  ultimately show ?thesis using ok by (simp add: agents_ok_def put_agent_def)
qed

lemma cancel_keeps:
  "cancel_including_idle report opt a = (hit, a') \<Longrightarrow> agent_ok a \<Longrightarrow> agent_ok a' \<and> ai_cleanup_complete a' = ai_cleanup_complete a"
  by (auto simp: cancel_including_idle_def agent_ok_def split: if_splits)

lemma agent_step_keeps: "agent_step a a' \<Longrightarrow> agent_ok a \<Longrightarrow> agent_ok a' \<and> ai_cleanup_complete a' = ai_cleanup_complete a"
proof (induction rule: agent_step.induct)
  case (cancel report status free opt a hit a')
  then show ?case using cancel_keeps by (auto simp: agent_cancel_def split: if_splits)
next
  case (cancel_idle report opt a hit a')
  then show ?case using cancel_keeps by blast
next
  case (drop_handle a report status free drop_cancels)
  then show ?case
    using cancel_keeps [of report _ a, OF prod.collapse [symmetric]] by (auto simp: handle_drop_def agent_cancel_def)
next
  case (send wake m t w a res a')
  then show ?case by (auto simp: agent_send_def Let_def agent_ok_def call_wake_def split: sum.splits if_splits)
next
  case (update wake status x u a upd a')
  then show ?case
    by (auto simp: agent_update_inbox_def Let_def agent_ok_def call_wake_def split: sum.splits if_splits prod.splits)
next
  case (reserve status x u a rsv a')
  then show ?case by (auto simp: agent_reserve_update_def agent_ok_def split: sum.splits)
next
  case (publish x u b st0 rv st1 wake a "done" a')
  then show ?case by (auto simp: agent_commit_update_def Let_def agent_ok_def call_wake_def split: if_splits prod.splits)
qed (simp_all add: agent_ok_def)

lemma dispose_begin_keeps:
  "dispose_begin a = Some a' \<Longrightarrow> agent_ok a \<Longrightarrow>
     agent_grows a a' \<and> agent_ok a' \<and> ai_disposed a' \<and> ai_cleanup_complete a' = ai_cleanup_complete a"
  by (auto simp: dispose_begin_def Let_def agent_grows_def agent_ok_def split: if_splits dest: waiting_clear [THEN subsetD])

lemma agent_ok_nth: "agents_ok r \<Longrightarrow> a < length (rg_agents r) \<Longrightarrow> agent_ok (rg_agents r ! a)"
  by (simp add: agents_ok_def generations_ok_def list_all_length)

text \<open>Only its own entry leaves with a disposed agent.\<close>

lemma generation_address:
  assumes "agents_ok r" "a < length (rg_agents r)" "b < length (rg_agents r)"
    "ai_generation (rg_agents r ! a) = ai_generation (rg_agents r ! b)"
  shows "a = b"
proof -
  have "distinct (map ai_generation (rg_agents r))"
    using assms(1) by (simp add: agents_ok_def generations_ok_def strict_sorted_iff)
  with assms(2-4) show ?thesis by (metis distinct_conv_nth length_map nth_map)
qed

lemma dispose_end_Inr:
  assumes ok: "agents_ok r" and a: "a < length (rg_agents r)" and run: "dispose_end a (Inr u) r = (res, r')"
  shows "res = Inr ()"
    and "rg_agents r' = (rg_agents r)[a := (rg_agents r ! a)\<lparr>ai_cleanup_complete := True\<rparr>]"
    and "map_of (rg_live r') x = (case map_of (rg_live r) x of Some (g, b) \<Rightarrow> if b = a then None else Some (g, b) | None \<Rightarrow> None)"
    and "rg_starting r' = rg_starting r" "rg_finished r' = rg_finished r" "rg_next_generation r' = rg_next_generation r"
    and "bt_sorted (rg_live r')"
proof -
  let ?inner = "rg_agents r ! a" and ?agents = "(rg_agents r)[a := (rg_agents r ! a)\<lparr>ai_cleanup_complete := True\<rparr>]"
  have live: "b < length (rg_agents r) \<and> ai_id (rg_agents r ! b) = y \<and> ai_generation (rg_agents r ! b) = g"
    if "map_of (rg_live r) y = Some (g, b)" for y g b
    using ok that by (simp add: agents_ok_def live_entries_ok_def)
  have r': "r' = remove_from_registry a (r\<lparr>rg_agents := ?agents\<rparr>)" and res: "res = Inr ()"
    using run by (auto simp: dispose_end_def put_agent_def)
  have rm: "r' = (case map_of (rg_live r) (ai_id ?inner) of None \<Rightarrow> r\<lparr>rg_agents := ?agents\<rparr>
      | Some (g, _) \<Rightarrow> if g = ai_generation ?inner
          then r\<lparr>rg_agents := ?agents, rg_live := bt_remove (ai_id ?inner) (rg_live r)\<rparr> else r\<lparr>rg_agents := ?agents\<rparr>)"
    unfolding r' using a by (simp add: remove_from_registry_def Let_def split: option.split)
  show "res = Inr ()" by (rule res)
  show "rg_agents r' = ?agents" "rg_starting r' = rg_starting r" "rg_finished r' = rg_finished r"
    "rg_next_generation r' = rg_next_generation r"
    unfolding rm by (simp_all split: option.split)
  have "bt_sorted (rg_live r)" using ok by (simp add: agents_ok_def)
  then show "bt_sorted (rg_live r')" unfolding rm by (simp add: bt_sorted_remove split: option.split)
  have own: "b = a" if "map_of (rg_live r) (ai_id ?inner) = Some (ai_generation ?inner, b)" for b
    using live [OF that] generation_address [OF ok _ a] by blast
  show "map_of (rg_live r') x = (case map_of (rg_live r) x of Some (g, b) \<Rightarrow> if b = a then None else Some (g, b) | None \<Rightarrow> None)"
  proof -
    have live': "map_of (rg_live r') x = (if x = ai_id ?inner \<and> (\<exists>b. map_of (rg_live r) x = Some (ai_generation ?inner, b)) then None
        else map_of (rg_live r) x)"
      unfolding rm by (auto split: option.split)
    show ?thesis
    proof (cases "map_of (rg_live r) x")
      case None
      then show ?thesis by (simp add: live')
    next
      case (Some gb)
      obtain g b where gb: "gb = (g, b)" by fastforce
      note l = live [OF Some [unfolded gb]]
      have "(x = ai_id ?inner \<and> g = ai_generation ?inner) = (b = a)" using l own Some gb by auto
      then show ?thesis by (auto simp: live' Some gb)
    qed
  qed
qed

lemma dispose_end_keeps:
  assumes ok: "agents_ok r" and a: "a < length (rg_agents r)" and d: "ai_disposed (rg_agents r ! a)"
    and run: "dispose_end a answer r = (res, r')"
  shows "agents_ok r'"
proof (cases answer)
  case (Inr u)
  note e = dispose_end_Inr [OF ok a run [unfolded Inr]]
  have i: "agent_ok ((rg_agents r ! a)\<lparr>ai_cleanup_complete := True\<rparr>)"
    using agent_ok_nth [OF ok a] d by (simp add: agent_ok_def)
  have "live_entries_ok r'"
    using ok unfolding live_entries_ok_def agents_ok_def e(2,3)
    by (auto simp: nth_list_update split: option.splits if_splits)
  moreover have "generations_ok r'"
    using ok a i set_update_subset_insert [of "rg_agents r" a "(rg_agents r ! a)\<lparr>ai_cleanup_complete := True\<rparr>"]
    by (auto simp: agents_ok_def generations_ok_def e(2,6) map_update_same list_all_iff)
  moreover have "starting_ok r'"
    using ok by (simp add: agents_ok_def starting_ok_def e(3,4,5))
  ultimately show ?thesis using ok e(4,7) by (simp add: agents_ok_def)
next
  case (Inl err)
  with run ok show ?thesis by (simp add: dispose_end_def)
qed

lemma bump_fresh: "g < u64_max \<Longrightarrow> bump g = g + 1"
  by (auto simp: bump_def checked_add_u64_def)

lemma accept_keeps:
  assumes ok: "agents_ok r" and run: "accept_setup ready cancelled completion heard r = (acc, r')"
    and g: "rg_next_generation r < u64_max"
  shows "agents_ok r'"
proof (cases acc)
  case (Inl e)
  then have "r' = r" using run by (auto simp: accept_setup_def next_generation_def Let_def split: if_splits)
  with ok show ?thesis by simp
next
  case (Inr a)
  let ?x = "sr_session ready" and ?g = "rg_next_generation r + 1"
  from run Inr have r': "r' = r\<lparr>rg_next_generation := ?g, rg_agents := rg_agents r @ [agent_of ready completion ?g],
        rg_live := bt_insert ?x (?g, length (rg_agents r)) (rg_live r), rg_starting := bt_remove ?x (rg_starting r)\<rparr>"
    and free: "map_of (rg_live r) ?x = None"
    by (auto simp: accept_setup_def next_generation_def Let_def bump_fresh [OF g] simp del: not_None_eq split: if_splits)
  have "live_entries_ok r'"
    using ok by (auto simp: agents_ok_def live_entries_ok_def r' nth_append agent_of_def intro: less_SucI split: if_splits)
  moreover have "starting_ok r'"
    using ok by (auto simp: agents_ok_def starting_ok_def r' split: if_splits)
  moreover have "generations_ok r'"
    using ok by (auto simp: agents_ok_def generations_ok_def r' sorted_wrt_append list_all_iff agent_of_def agent_ok_def)
  ultimately show ?thesis using ok by (simp add: agents_ok_def r' bt_sorted_insert bt_sorted_remove)
qed

lemma admit_keeps:
  assumes ok: "agents_ok r" and run: "setup_admission kind opt cancelled token r = (slot, r')"
  shows "agents_ok r'"
proof (cases slot)
  case (Inl e)
  then have "r' = r"
    using run by (auto simp: setup_admission_def registry_reserve_def Let_def split: sum.splits if_splits option.splits)
  with ok show ?thesis by simp
next
  case (Inr fc)
  let ?x = "setup_id kind" and ?c = "length (rg_finished r)"
  from run Inr have r': "r' = r\<lparr>rg_finished := rg_finished r @ [False],
      rg_starting := bt_insert ?x \<lparr>sg_token = token, sg_completion = ?c, sg_cleanup_error = None\<rparr> (rg_starting r)\<rparr>"
    and free: "map_of (rg_live r) ?x = None"
    by (auto simp: setup_admission_def registry_reserve_def Let_def simp del: not_None_eq split: sum.splits if_splits option.splits)
  have st: "starting_ok r" using ok by (simp add: agents_ok_def)
  have "starting_ok r'"
    unfolding starting_ok_def
  proof (intro allI impI conjI)
    fix y sg
    assume y: "map_of (rg_starting r') y = Some sg"
    then show "sg_completion sg < length (rg_finished r')" "map_of (rg_live r') y = None"
      using st free by (auto simp: starting_ok_def r' intro: less_SucI split: if_splits)
    fix z sh
    assume "map_of (rg_starting r') z = Some sh" "sg_completion sh = sg_completion sg"
    with y st show "z = y"
      by (auto simp: starting_ok_def r' split: if_splits) (metis less_irrefl)+
  qed
  then show ?thesis
    using ok by (simp add: agents_ok_def live_entries_ok_def generations_ok_def r' bt_sorted_insert)
qed

lemma cleanup_keeps: "agents_ok r \<Longrightarrow> agents_ok (note_cleanup x e r)"
proof (cases "map_of (rg_starting r) x")
  case (Some sg)
  assume ok: "agents_ok r"
  let ?r = "r\<lparr>rg_starting := bt_insert x (sg\<lparr>sg_cleanup_error := e\<rparr>) (rg_starting r)\<rparr>"
  have "starting_ok ?r"
    using ok Some by (auto simp: agents_ok_def starting_ok_def)
  then show ?thesis
    using ok by (simp add: note_cleanup_def Some agents_ok_def live_entries_ok_def generations_ok_def bt_sorted_insert)
qed (simp add: note_cleanup_def)

lemma give_up_keeps: "agents_ok r \<Longrightarrow> agents_ok (drop_reservation x completion r)"
  by (auto simp: drop_reservation_def agents_ok_def live_entries_ok_def starting_ok_def generations_ok_def bt_sorted_remove)

lemma agents_step_keeps: "agents_step r r' \<Longrightarrow> agents_ok r \<Longrightarrow> agents_ok r'"
proof (induction rule: agents_step.induct)
  case (register f r reg r')
  then show ?case
    by (auto simp: register_factory_def next_generation_def Let_def bump_fresh split: if_splits)
      (auto simp: agents_ok_def live_entries_ok_def starting_ok_def generations_ok_def list_all_iff)
next
  case (close fr r hit fr' r')
  then show ?case
    by (auto simp: factory_close_def Let_def split: if_splits option.splits)
      (auto simp: agents_ok_def live_entries_ok_def starting_ok_def generations_ok_def)
next
  case (agent a r inner)
  then show ?case using agent_step_keeps [OF agent(2)] agent_ok_nth agent_step_grows by (intro agents_ok_put) auto
next
  case (dispose_begin a r inner)
  then show ?case using dispose_begin_keeps [OF dispose_begin(2)] agent_ok_nth by (intro agents_ok_put) auto
next
  case (dispose_all r d r')
  then show ?case
    by (auto simp: dispose_all_start_def Let_def split: option.splits)
      (auto simp: agents_ok_def live_entries_ok_def starting_ok_def generations_ok_def)
next
  case (cancel_setups r cs r')
  then show ?case
    by (auto simp: cancel_setups_def agents_ok_def live_entries_ok_def starting_ok_def generations_ok_def)
next
  case (disposal_over r d result)
  then show ?case
    by (auto simp: drop_disposal_def agents_ok_def live_entries_ok_def starting_ok_def generations_ok_def)
qed (auto intro: accept_keeps admit_keeps cleanup_keeps give_up_keeps dispose_end_keeps)

lemma agents_reachable_ok: "agents_reachable r \<Longrightarrow> agents_ok r"
  by (induction rule: agents_reachable.induct) (auto intro: agents_ok_new agents_step_keeps)

end
