(* ===== verification/Inbox_Delivery.thy ===== *)
theory Inbox_Delivery
  imports Agent_Inbox
begin

text \<open>
  The inbox in use: one inbox with the claims and update reservations that are outstanding, stepped by
  every operation of \<open>src/src/agent.rs\<close> in any order, with a record of what was accepted and what was
  handed out.
\<close>

section \<open>Interleavings\<close>

record inbox_system =
  sy_inbox :: inbox_state
  sy_claims :: "inbox_claim list"
  sy_updates :: "inbox_reservation list"
  sy_sent :: "string list"
  sy_delivered :: "string list"

definition system_start :: inbox_system where
  "system_start = \<lparr>sy_inbox = inbox_new, sy_claims = [], sy_updates = [], sy_sent = [], sy_delivered = []\<rparr>"

inductive inbox_step :: "inbox_system \<Rightarrow> inbox_system \<Rightarrow> bool" where
  send: "inbox_send m t w (sy_inbox s) = Inr st
    \<Longrightarrow> inbox_step s (s\<lparr>sy_inbox := st, sy_sent := msg_id m # sy_sent s\<rparr>)"
| take: "inbox_take t (sy_inbox s) = (Some m, st)
    \<Longrightarrow> inbox_step s (s\<lparr>sy_inbox := st, sy_delivered := msg_id m # sy_delivered s\<rparr>)"
| take_batch: "take_step_batch (sy_inbox s) = (ms, st)
    \<Longrightarrow> inbox_step s (s\<lparr>sy_inbox := st, sy_delivered := map msg_id ms @ sy_delivered s\<rparr>)"
| claim_turn: "reserve_next_turn_claim (sy_inbox s) = (Some cl, st)
    \<Longrightarrow> inbox_step s (s\<lparr>sy_inbox := st, sy_claims := cl # sy_claims s\<rparr>)"
| claim_step: "reserve_step_batch_claim (sy_inbox s) = (Some cl, st)
    \<Longrightarrow> inbox_step s (s\<lparr>sy_inbox := st, sy_claims := cl # sy_claims s\<rparr>)"
| commit: "cl \<in> set (sy_claims s) \<Longrightarrow> claim_commit cl (sy_inbox s) = Some (Some ms, st)
    \<Longrightarrow> inbox_step s (s\<lparr>sy_inbox := st, sy_claims := remove1 cl (sy_claims s),
                         sy_delivered := map msg_id ms @ sy_delivered s\<rparr>)"
| refuse: "cl \<in> set (sy_claims s) \<Longrightarrow> claim_commit cl (sy_inbox s) = Some (None, st)
    \<Longrightarrow> inbox_step s (s\<lparr>sy_inbox := st, sy_claims := remove1 cl (sy_claims s)\<rparr>)"
| abandon: "cl \<in> set (sy_claims s)
    \<Longrightarrow> inbox_step s (s\<lparr>sy_inbox := abort_claim cl (sy_inbox s), sy_claims := remove1 cl (sy_claims s)\<rparr>)"
| reserve: "reserve_update x u b (sy_inbox s) = Some (Reserved rv, st)
    \<Longrightarrow> inbox_step s (s\<lparr>sy_inbox := st, sy_updates := rv # sy_updates s\<rparr>)"
| publish: "rv \<in> set (sy_updates s) \<Longrightarrow> commit_reservation rv (sy_inbox s) = (b, st)
    \<Longrightarrow> inbox_step s (s\<lparr>sy_inbox := st, sy_updates := remove1 rv (sy_updates s)\<rparr>)"
| withdraw: "rv \<in> set (sy_updates s)
    \<Longrightarrow> inbox_step s (s\<lparr>sy_inbox := abort_reservation (rv_item rv) (sy_inbox s),
                         sy_updates := remove1 rv (sy_updates s)\<rparr>)"
| update: "inbox_update_item x u (sy_inbox s) = (r, st)
    \<Longrightarrow> inbox_step s (s\<lparr>sy_inbox := st\<rparr>)"
| clear: "inbox_step s (s\<lparr>sy_inbox := inbox_clear (sy_inbox s)\<rparr>)"

inductive inbox_reachable :: "inbox_system \<Rightarrow> bool" where
  start: "inbox_reachable system_start"
| step: "inbox_reachable s \<Longrightarrow> inbox_step s s' \<Longrightarrow> inbox_reachable s'"

definition delivery_ok :: "inbox_system \<Rightarrow> bool" where
  "delivery_ok s \<longleftrightarrow>
     inbox_ok (sy_inbox s) \<and> list_all claim_ok (sy_claims s) \<and> list_all reservation_ok (sy_updates s)
     \<and> mset (sy_delivered s) + mset (waiting_ids (sy_inbox s)) \<subseteq># mset (sy_sent s)"

lemma delivery_ok_start: "delivery_ok system_start"
  by (simp add: delivery_ok_def system_start_def inbox_ok_new) (simp add: inbox_new_def waiting_ids_def)

lemma list_all_remove1: "list_all P xs \<Longrightarrow> list_all P (remove1 x xs)"
  by (auto simp: list_all_iff dest: notin_set_remove1)

text \<open>Every operation trades pending ids for delivered ones.\<close>

lemma delivery_trade:
  assumes "mset D + mset W \<subseteq># S" "mset D' + mset W' \<subseteq># mset W"
  shows "mset (D' @ D) + mset W' \<subseteq># S"
proof -
  have "mset (D' @ D) + mset W' = mset D + (mset D' + mset W')" by simp
  also have "\<dots> \<subseteq># mset D + mset W" using assms(2) by (rule subset_mset.add_left_mono)
  finally show ?thesis using assms(1) by (rule subset_mset.trans)
qed

lemma delivered_without:
  assumes "distinct ids" "set ids \<subseteq> set w" "distinct w"
  shows "mset ids + mset (filter (\<lambda>i. i \<notin> set ids) w) \<subseteq># mset w"
proof -
  have "mset (filter (\<lambda>i. i \<in> set ids) w) = mset ids"
    using assms by (intro set_eq_iff_mset_eq_distinct [THEN iffD1]) auto
  then have "mset ids + mset (filter (\<lambda>i. i \<notin> set ids) w) = mset w"
    by (metis mset_filter multiset_partition)
  then show ?thesis by simp
qed

lemma claim_commit_effect:
  assumes "inbox_ok st" "claim_ok cl"
  shows "claim_commit cl st \<noteq> None"
    and "claim_commit cl st = Some (None, st') \<Longrightarrow> same_queues st' st"
    and "claim_commit cl st = Some (Some ms, st') \<Longrightarrow>
      map msg_id ms = claim_ids cl \<and> same_queues st' (without (set (claim_ids cl)) st)
      \<and> set (claim_ids cl) \<subseteq> set (waiting_ids st) \<and> set (claim_ids cl) \<subseteq> ib_reservations st"
  using assms(2)
  by (cases rule: commit_claim_cases [OF assms];
      auto simp: claim_commit_def claim_ok_def abort_claim_def same_queues_def)+

lemma delivery_step:
  assumes "inbox_step s s'" "delivery_ok s"
  shows "delivery_ok s'"
proof -
  let ?st = "sy_inbox s"
  have ok: "inbox_ok ?st" and cls: "list_all claim_ok (sy_claims s)" and rvs: "list_all reservation_ok (sy_updates s)"
    and acc: "mset (sy_delivered s) + mset (waiting_ids ?st) \<subseteq># mset (sy_sent s)"
    using assms(2) by (simp_all add: delivery_ok_def)
  have dist: "distinct (waiting_ids ?st)" using ok by (simp add: inbox_ok_def)
  have keep: "delivery_ok (s\<lparr>sy_inbox := st, sy_claims := C, sy_updates := U\<rparr>)"
    if "inbox_ok st" "mset (waiting_ids st) \<subseteq># mset (waiting_ids ?st)" "list_all claim_ok C" "list_all reservation_ok U" for st C U
    using that delivery_trade [OF acc, of "[]" "waiting_ids st"] by (simp add: delivery_ok_def)
  have deliver: "delivery_ok (s\<lparr>sy_inbox := st, sy_claims := C, sy_delivered := ids @ sy_delivered s\<rparr>)"
    if "inbox_ok st" "list_all claim_ok C" "mset ids + mset (waiting_ids st) \<subseteq># mset (waiting_ids ?st)" for st C ids
    using that delivery_trade [OF acc that(3)] rvs by (simp add: delivery_ok_def)
  from assms(1) show ?thesis
  proof cases
    case (send m t w st)
    note e = inbox_send_Inr [OF send(2)]
    have "mset (waiting_ids st) = add_mset (msg_id m) (mset (waiting_ids ?st))"
      using same_queuesD(2) [OF e(3)] by (simp add: waiting_enqueue)
    with inbox_ok_enqueue [OF ok e(2,1), of t] same_queuesD(1) [OF e(3)] cls rvs acc show ?thesis
      by (simp add: send(1) delivery_ok_def)
  next
    case (take t m st)
    note e = inbox_take_Some [OF take(2) ok]
    have "mset [msg_id m] + mset (waiting_ids st) \<subseteq># mset (waiting_ids ?st)"
      using delivered_without [of "[msg_id m]" "waiting_ids ?st"] dist queue_waiting [OF e(1)] same_queuesD(2) [OF e(3)]
      by (simp add: waiting_without)
    from deliver [OF _ cls this] inbox_ok_without [OF ok] same_queuesD(1) [OF e(3)] show ?thesis by (simp add: take(1))
  next
    case (take_batch ms st)
    note e = take_step_batch_ok [OF ok take_batch(2)]
    let ?empty = "?st\<lparr>ib_steers := [], ib_injections := [], ib_step_order := []\<rparr>"
    have "inbox_ok ?empty" using ok by (auto simp: inbox_ok_def waiting_ids_def)
    moreover have "mset (map msg_id ms) + mset (waiting_ids ?empty) = mset (waiting_ids ?st)"
      unfolding e(1) mset_step_order [OF ok] by (simp add: waiting_ids_def ac_simps)
    ultimately show ?thesis
      using deliver [OF _ cls, of st "map msg_id ms"] same_queuesD [OF e(3)] by (simp add: take_batch(1))
  next
    case (claim_turn cl st)
    from keep [of st "cl # sy_claims s" "sy_updates s"] next_turn_claim_ok [OF claim_turn(2)]
      same_queuesD [OF reserve_claim_queues(1) [OF claim_turn(2)]] ok cls rvs
    show ?thesis by (simp add: claim_turn(1))
  next
    case (claim_step cl st)
    from keep [of st "cl # sy_claims s" "sy_updates s"] step_batch_claim_ok(1) [OF ok claim_step(2)]
      same_queuesD [OF reserve_claim_queues(2) [OF claim_step(2)]] ok cls rvs
    show ?thesis by (simp add: claim_step(1))
  next
    case (commit cl ms st)
    have cl: "claim_ok cl" using commit(2) cls by (simp add: list_all_iff)
    from claim_commit_effect(3) [OF ok cl commit(3)] have e: "map msg_id ms = claim_ids cl"
      "same_queues st (without (set (claim_ids cl)) ?st)" "set (claim_ids cl) \<subseteq> set (waiting_ids ?st)" by simp_all
    have "mset (map msg_id ms) + mset (waiting_ids st) \<subseteq># mset (waiting_ids ?st)"
      using delivered_without [of "claim_ids cl" "waiting_ids ?st"] cl dist e(3) same_queuesD(2) [OF e(2)]
      unfolding e(1) by (simp add: claim_ok_def waiting_without)
    from deliver [OF _ list_all_remove1 [OF cls] this] inbox_ok_without [OF ok] same_queuesD(1) [OF e(2)] show ?thesis
      by (simp add: commit(1))
  next
    case (refuse cl st)
    have cl: "claim_ok cl" using refuse(2) cls by (simp add: list_all_iff)
    from keep [of st "remove1 cl (sy_claims s)" "sy_updates s"] same_queuesD [OF claim_commit_effect(2) [OF ok cl refuse(3)]]
      ok list_all_remove1 [OF cls] rvs show ?thesis by (simp add: refuse(1))
  next
    case (abandon cl)
    from keep [of "abort_claim cl ?st" "remove1 cl (sy_claims s)" "sy_updates s"] ok list_all_remove1 [OF cls] rvs
    show ?thesis by (simp add: abandon(1) abort_claim_def)
  next
    case (reserve x u b rv st)
    from keep [of st "sy_claims s" "rv # sy_updates s"] reserve_update_ok(2,3) [OF ok] reserve(2)
      same_queuesD [of st ?st] ok cls rvs show ?thesis by (auto simp: reserve(1))
  next
    case (publish rv b st)
    have "reservation_ok rv" using publish(2) rvs by (simp add: list_all_iff)
    from keep [of st "sy_claims s" "remove1 rv (sy_updates s)"] commit_reservation_effect(1,2) [OF ok this publish(3)]
      cls list_all_remove1 [OF rvs] show ?thesis by (simp add: publish(1))
  next
    case (withdraw rv)
    have "same_queues (abort_reservation (rv_item rv) ?st) ?st"
      by (simp add: abort_reservation_def same_queues_def Let_def)
    from keep [of "abort_reservation (rv_item rv) ?st" "sy_claims s" "remove1 rv (sy_updates s)"] same_queuesD [OF this]
      ok cls list_all_remove1 [OF rvs] show ?thesis by (simp add: withdraw(1))
  next
    case (update x u r st)
    from keep [of st "sy_claims s" "sy_updates s"] update_item_effect [OF ok update(2)] cls rvs
    show ?thesis by (simp add: update(1))
  next
    case clear
    have "inbox_ok (inbox_clear ?st)" "waiting_ids (inbox_clear ?st) = []"
      using ok by (auto simp: inbox_clear_def inbox_ok_def waiting_ids_def)
    from keep [of "inbox_clear ?st" "sy_claims s" "sy_updates s"] this cls rvs show ?thesis by (simp add: clear)
  qed
qed

lemma delivery_reachable: "inbox_reachable s \<Longrightarrow> delivery_ok s"
  by (induction rule: inbox_reachable.induct) (auto intro: delivery_ok_start delivery_step)

section \<open>Properties\<close>

definition note_to :: "string \<Rightarrow> message" where
  "note_to i = \<lparr>msg_id = i, msg_role = User, msg_content = [Text ''hi''], msg_source = SrcUser None\<rparr>"

text \<open>C37: whatever the order in which messages are sent, taken, claimed, edited, removed, steered and
  cleared, the inbox hands out only messages it accepted and each acceptance at most once, none of the
  ids it holds is pending twice, and neither the \<open>expect\<close> of a reservation nor the one of a claim's commit
  can fail.\<close>

theorem inbox_delivers_at_most_once:
  assumes "inbox_reachable s"
  shows "mset (sy_delivered s) + mset (waiting_ids (sy_inbox s)) \<subseteq># mset (sy_sent s)
    \<and> distinct (waiting_ids (sy_inbox s))
    \<and> reserve_update x u b (sy_inbox s) \<noteq> None
    \<and> list_all (\<lambda>cl. claim_commit cl (sy_inbox s) \<noteq> None) (sy_claims s)"
proof -
  from delivery_reachable [OF assms] have ok: "inbox_ok (sy_inbox s)" and cls: "list_all claim_ok (sy_claims s)"
    and acc: "mset (sy_delivered s) + mset (waiting_ids (sy_inbox s)) \<subseteq># mset (sy_sent s)"
    by (simp_all add: delivery_ok_def)
  have "list_all (\<lambda>cl. claim_commit cl (sy_inbox s) \<noteq> None) (sy_claims s)"
    using cls claim_commit_effect(1) [OF ok] by (auto simp: list_all_iff)
  with acc ok reserve_update_ok(1) [OF ok] show ?thesis by (simp add: inbox_ok_def)
qed

definition claimed_note :: inbox_claim where
  "claimed_note = \<lparr>cl_target = ''next-turn'', cl_entries = [(TFollowup, ''a'')], cl_messages = [note_to ''a'']\<rparr>"

definition claimed_system :: inbox_system where
  "claimed_system =
     \<lparr>sy_inbox = \<lparr>ib_followups = [note_to ''a''], ib_steers = [], ib_injections = [], ib_reservations = {''a''},
                  ib_step_order = [], ib_changes = 1, ib_wakes = 1\<rparr>,
      sy_claims = [claimed_note], sy_updates = [], sy_sent = [''a''], sy_delivered = []\<rparr>"

lemma claimed_system_reachable: "inbox_reachable claimed_system"
proof -
  let ?st = "\<lparr>ib_followups = [note_to ''a''], ib_steers = [], ib_injections = [], ib_reservations = {},
                  ib_step_order = [], ib_changes = 1, ib_wakes = 1\<rparr>"
  let ?s = "system_start\<lparr>sy_inbox := ?st, sy_sent := [''a'']\<rparr>"
  have "inbox_send (note_to ''a'') TFollowup True (sy_inbox system_start) = Inr ?st" by code_simp
  from inbox_step.send [OF this] have "inbox_step system_start ?s" by (simp add: note_to_def system_start_def)
  then have 1: "inbox_reachable ?s" by (rule inbox_reachable.step [OF inbox_reachable.start])
  have "reserve_next_turn_claim (sy_inbox ?s) = (Some claimed_note, ?st\<lparr>ib_reservations := {''a''}\<rparr>)" by code_simp
  from inbox_reachable.step [OF 1 inbox_step.claim_turn [OF this]] show ?thesis
    by (simp add: claimed_system_def system_start_def)
qed

theorem inbox_delivers_at_most_once_witness:
  "inbox_reachable claimed_system \<and> claim_commit claimed_note (sy_inbox claimed_system) \<noteq> None
    \<and> reserve_update ''a'' RemoveItem True (sy_inbox claimed_system) \<noteq> None"
  using inbox_delivers_at_most_once [OF claimed_system_reachable, of "''a''" RemoveItem True] claimed_system_reachable
  by (simp add: claimed_system_def)

text \<open>A claim of the next step takes every pending next-step message, steers and injections in their
  common order of arrival. Committed, it hands out exactly them and leaves the next-turn queue as it was;
  dropped instead, it leaves the inbox as it found it.\<close>

theorem step_claim_takes_the_batch:
  assumes "inbox_reachable s" "reserve_step_batch_claim (sy_inbox s) = (Some cl, st)"
  shows "map msg_id (cl_messages cl) = map snd (ib_step_order (sy_inbox s))
    \<and> mset (cl_messages cl) = mset (ib_steers (sy_inbox s) @ ib_injections (sy_inbox s))
    \<and> (\<exists>st'. claim_commit cl st = Some (Some (cl_messages cl), st') \<and> \<not> has_next_step st'
        \<and> ib_followups st' = ib_followups (sy_inbox s) \<and> ib_reservations st' = ib_reservations (sy_inbox s))
    \<and> abort_claim cl st = sy_inbox s"
proof -
  let ?st = "sy_inbox s"
  from delivery_reachable [OF assms(1)] have ok: "inbox_ok ?st" by (simp add: delivery_ok_def)
  note cl = step_batch_claim_ok [OF ok assms(2)]
  have ids: "set (claim_ids cl) = set (map msg_id (ib_steers ?st @ ib_injections ?st))"
    using mset_eq_setD [OF mset_step_order [OF ok]] by (simp add: claim_ids_def cl(3))
  have st: "st = ?st\<lparr>ib_reservations := set (claim_ids cl) \<union> ib_reservations ?st\<rparr>"
    and free: "set (claim_ids cl) \<inter> ib_reservations ?st = {}"
    using assms(2) cl(3)
    by (auto simp: reserve_step_batch_claim_def claim_ids_def list_ex_iff split: if_splits option.splits)
  have "\<forall>i\<in>set (claim_ids cl). i \<notin> set (map msg_id (ib_followups ?st))"
    using ok unfolding ids by (auto simp: inbox_ok_def waiting_ids_def)
  then have keep: "filter (\<lambda>m. msg_id m \<notin> set (claim_ids cl)) (ib_followups ?st) = ib_followups ?st"
    by (force simp: filter_id_conv)
  have none: "filter (\<lambda>(t, i). i \<notin> set (claim_ids cl)) (ib_step_order ?st) = []"
    by (force simp: filter_empty_conv claim_ids_def cl(3))
  have "list_all (\<lambda>(t, i). i \<in> ib_reservations st) (cl_entries cl)"
    by (auto simp: st list_all_iff claim_ids_def rev_image_eqI)
  moreover have "list_all (\<lambda>(t, i). pending_index (queue_of t st) i \<noteq> None) (cl_entries cl)"
    using inbox_ok_order [OF ok] by (auto simp: list_all_iff pending_index_None cl(3) st)
  moreover have ok': "inbox_ok st" using ok by (simp add: st)
  ultimately obtain st' where c: "commit_claim cl st = Some (True, st')"
    "same_queues st' (without (set (claim_ids cl)) st)" "ib_reservations st' = ib_reservations st - set (claim_ids cl)"
    by (cases rule: commit_claim_cases [OF ok' cl(1)]) (auto simp: commit_claim_def split: if_splits)
  have "claim_commit cl st = Some (Some (cl_messages cl), st')" by (simp add: claim_commit_def c(1))
  moreover have "\<not> has_next_step st'" "ib_followups st' = ib_followups ?st" "ib_reservations st' = ib_reservations ?st"
    using c(2,3) keep none free by (auto simp: has_next_step_def same_queues_def without_def st)
  moreover have "mset (cl_messages cl) = mset (ib_steers ?st @ ib_injections ?st)"
    unfolding cl(2) by (rule step_messages_mset [OF ok])
  moreover have "map msg_id (cl_messages cl) = map snd (ib_step_order ?st)"
    unfolding cl(2) by (rule step_messages_ids [OF ok])
  moreover have "abort_claim cl st = ?st"
  proof -
    have "(set (claim_ids cl) \<union> ib_reservations ?st) - set (map snd (cl_entries cl)) = ib_reservations ?st"
      using free by (auto simp: claim_ids_def)
    then show ?thesis by (simp only: abort_claim_def st) simp
  qed
  ultimately show ?thesis by blast
qed

definition batch_system :: inbox_system where
  "batch_system =
     \<lparr>sy_inbox = \<lparr>ib_followups = [], ib_steers = [note_to ''b''], ib_injections = [note_to ''a''], ib_reservations = {},
                  ib_step_order = [(TInject, ''a''), (TSteer, ''b'')], ib_changes = 2, ib_wakes = 1\<rparr>,
      sy_claims = [], sy_updates = [], sy_sent = [''b'', ''a''], sy_delivered = []\<rparr>"

definition batch_claim :: inbox_claim where
  "batch_claim = \<lparr>cl_target = ''next-step'', cl_entries = [(TInject, ''a''), (TSteer, ''b'')],
     cl_messages = [note_to ''a'', note_to ''b'']\<rparr>"

lemma batch_system_reachable: "inbox_reachable batch_system"
proof -
  let ?st = "\<lparr>ib_followups = [], ib_steers = [], ib_injections = [note_to ''a''], ib_reservations = {},
                  ib_step_order = [(TInject, ''a'')], ib_changes = 1, ib_wakes = 0\<rparr>"
  let ?s = "system_start\<lparr>sy_inbox := ?st, sy_sent := [''a'']\<rparr>"
  have "inbox_send (note_to ''a'') TInject False (sy_inbox system_start) = Inr ?st" by code_simp
  from inbox_step.send [OF this] have "inbox_step system_start ?s" by (simp add: note_to_def system_start_def)
  then have 1: "inbox_reachable ?s" by (rule inbox_reachable.step [OF inbox_reachable.start])
  have "inbox_send (note_to ''b'') TSteer True (sy_inbox ?s) = Inr (sy_inbox batch_system)" by code_simp
  from inbox_reachable.step [OF 1 inbox_step.send [OF this]] show ?thesis
    by (simp add: batch_system_def system_start_def note_to_def)
qed

theorem step_claim_takes_the_batch_witness:
  "reserve_step_batch_claim (sy_inbox batch_system)
     = (Some batch_claim, (sy_inbox batch_system)\<lparr>ib_reservations := {''a'', ''b''}\<rparr>)
   \<and> abort_claim batch_claim ((sy_inbox batch_system)\<lparr>ib_reservations := {''a'', ''b''}\<rparr>) = sy_inbox batch_system"
proof -
  have r: "reserve_step_batch_claim (sy_inbox batch_system)
     = (Some batch_claim, (sy_inbox batch_system)\<lparr>ib_reservations := {''a'', ''b''}\<rparr>)" by code_simp
  show ?thesis using r step_claim_takes_the_batch [OF batch_system_reachable r] by blast
qed

end
