(* ===== verification/Inbox_Durable.thy ===== *)
theory Inbox_Durable
  imports Inbox_Delivery Inbox_Replay Wire_Codec
begin

text \<open>
  The durable side of the inbox: the events the host and the agent loop append for each inbox mutation
  (\<open>src/src/host.rs\<close>, \<open>src/src/agent_loop.rs\<close>), and that the session's inbox projection, replaying
  them, holds the live queues.
\<close>

section \<open>The recorded events\<close>

fun queue_target_name :: "agent_target \<Rightarrow> string" where
  "queue_target_name TFollowup = ''next-turn''"
| "queue_target_name TSteer = ''next-step''"
| "queue_target_name TInject = ''next-step''"

definition inbox_enqueued_event :: "codec \<Rightarrow> u64 \<Rightarrow> u64 \<Rightarrow> agent_target \<Rightarrow> message \<Rightarrow> session_event" where
  "inbox_enqueued_event cdc now n target m =
     \<lparr>ev_type = ''agent/inbox/enqueued'', ev_seq = n, ev_time = now,
      ev_data = obj [(''target'', JStr (queue_target_name target)), (''message'', cd_message_to cdc m)],
      ev_ignorable = Some True, ev_sources = None, ev_surface_op = None\<rparr>"

definition claim_splice :: "inbox_claim \<Rightarrow> json" where
  "claim_splice cl =
     obj [(''target'', JStr (cl_target cl)), (''start'', jnat 0), (''removedCount'', jnat (length (cl_messages cl))),
          (''inserted'', JArr [])]"

definition queue_splice :: "codec \<Rightarrow> inbox_reservation \<Rightarrow> json option" where
  "queue_splice cdc rv =
     (let m = cd_message_to cdc (rv_message rv)
      in if rv_update rv = SteerItem
         then map_option (\<lambda>start.
                obj [(''target'', JStr ''next-step''), (''start'', jnat start), (''removedCount'', jnat 0),
                     (''inserted'', JArr [m]), (''itemId'', JStr (rv_item rv)), (''action'', JStr ''steer''),
                     (''message'', m)])
              (rv_destination_start rv)
         else Some (obj [(''target'', JStr (queue_target_name (rv_source rv))), (''start'', jnat (rv_start rv)),
                (''removedCount'', jnat 1),
                (''inserted'', JArr (case rv_update rv of EditContent _ \<Rightarrow> [m] | _ \<Rightarrow> []))]))"

definition spliced_event :: "u64 \<Rightarrow> u64 \<Rightarrow> json \<Rightarrow> session_event" where
  "spliced_event now n data =
     \<lparr>ev_type = ''agent/inbox/spliced'', ev_seq = n, ev_time = now, ev_data = data, ev_ignorable = Some True,
      ev_sources = None, ev_surface_op = None\<rparr>"

text \<open>The loop records the splice of a claim with its own append, without the mark that readers may ignore it.\<close>

definition claim_event :: "u64 \<Rightarrow> u64 \<Rightarrow> inbox_claim \<Rightarrow> session_event" where
  "claim_event now n cl = (spliced_event now n (claim_splice cl))\<lparr>ev_ignorable := None\<rparr>"

text \<open>A message whose JSON form serde reads back: an absent and a null replay state are the same on the wire.\<close>

definition readable :: "message \<Rightarrow> bool" where
  "readable m \<longleftrightarrow> (case msg_source m of SrcModel _ _ r \<Rightarrow> r \<noteq> Some JNull | _ \<Rightarrow> True)"

locale message_codec = tool_message_codec +
  assumes message_roundtrip: "readable m \<Longrightarrow> cd_message_from cdc (cd_message_to cdc m) = Some m"
begin

lemma decode_written:
  "readable m \<Longrightarrow> message_validate m = Inr () \<Longrightarrow> decode_message cdc reason (cd_message_to cdc m) = Inr m"
  by (simp add: decode_message_def message_roundtrip)

end

lemma dec_enc_section: "dec_section (enc_section x) = Some x"
  by (simp add: dec_section_def enc_section_def get_str_def)

lemma dec_enc_sections: "dec_sections (JArr (map enc_section xs)) = Some xs"
  using those_map_Some [of xs dec_section enc_section] by (simp add: dec_sections_def dec_enc_section del: map_map)

lemma opt_field_if:
  "opt_field dec k v = (case json_get k v of None \<Rightarrow> Some None
     | Some w \<Rightarrow> if w = JNull then Some None else map_option Some (dec w))"
  by (simp add: opt_field_def split: option.split json.split)

lemma dec_enc_source_plugin: "dec_source (enc_source (SrcPlugin p c f ss s)) = Some (SrcPlugin p c f ss s)"
  by (cases c; cases f; cases ss; cases s)
    (simp_all add: dec_source_def get_str_def Wire_Codec.fields_def opt_field_if dec_enc_sections)

lemma dec_enc_source: "readable m \<Longrightarrow> dec_source (enc_source (msg_source m)) = Some (msg_source m)"
proof (cases "msg_source m")
  case (SrcUser z)
  then show ?thesis by (cases z) (simp_all add: dec_source_def get_str_def Wire_Codec.fields_def opt_field_def)
next
  case (SrcModel p n r)
  assume "readable m"
  with SrcModel show ?thesis
    by (cases r) (simp_all add: readable_def dec_source_def get_str_def Wire_Codec.fields_def opt_field_if)
next
  case (SrcPlugin p c f ss t)
  then show ?thesis by (simp only: dec_enc_source_plugin)
qed (simp_all add: dec_source_def get_str_def get_u64_def)

lemma dec_enc_message: "readable m \<Longrightarrow> dec_message (enc_message m) = Some m"
  using those_map_Some [of "msg_content m" dec_block enc_block] dec_enc_source [of m]
  by (simp add: dec_message_def enc_message_def get_str_def dec_enc_block del: map_map)

interpretation wire_messages: message_codec wire_codec
  by unfold_locales (simp add: wire_codec_def dec_enc_message)

section \<open>The live queues as the replay sees them\<close>

definition replay_of :: "inbox_state \<Rightarrow> inbox_replay" where
  "replay_of st = \<lparr>followups = ib_followups st, steps = step_messages st\<rparr>"

text \<open>The next-step messages are the only list of pending steers and injections in the combined order.\<close>

lemma step_messages_unique:
  assumes "inbox_ok st" "map msg_id ms = map snd (ib_step_order st)" "set ms \<subseteq> set (ib_steers st) \<union> set (ib_injections st)"
  shows "ms = step_messages st"
proof -
  have inj: "inj_on msg_id (set (ib_steers st) \<union> set (ib_injections st))"
    using assms(1) by (auto simp: inbox_ok_def waiting_ids_def distinct_map inj_on_Un)
  show ?thesis
  proof (rule map_inj_on)
    show "map msg_id ms = map msg_id (step_messages st)" using assms(2) step_messages_ids [OF assms(1)] by simp
    show "inj_on msg_id (set ms \<union> set (step_messages st))"
      using inj assms(3) step_messages_set [OF assms(1)] by (metis Un_absorb1)
  qed
qed

lemma replay_of_cong: "same_queues st st' \<Longrightarrow> replay_of st = replay_of st'"
proof -
  assume s: "same_queues st st'"
  then have "queue_of t st = queue_of t st'" for t by (cases t) (simp_all add: same_queues_def)
  then have "step_message st e = step_message st' e" for e by (cases "(st, e)" rule: step_message.cases) simp_all
  with s show ?thesis by (simp add: replay_of_def step_messages_def same_queues_def)
qed

lemma step_messages_enqueue:
  assumes "inbox_ok st" "msg_id m \<notin> set (waiting_ids st)" "message_validate m = Inr ()"
  shows "step_messages (inbox_enqueue m t st) = (if t = TFollowup then step_messages st else step_messages st @ [m])"
  using step_messages_ids [OF assms(1)] step_messages_set [OF assms(1)]
  by (intro step_messages_unique [symmetric] inbox_ok_enqueue assms) (cases t; auto simp: inbox_enqueue_def)+

lemma step_messages_without:
  assumes "inbox_ok st"
  shows "step_messages (without X st) = filter (\<lambda>m. msg_id m \<notin> X) (step_messages st)"
proof (rule step_messages_unique [symmetric])
  have "map msg_id (filter (\<lambda>m. msg_id m \<notin> X) (step_messages st)) = filter (\<lambda>i. i \<notin> X) (map snd (ib_step_order st))"
    using step_messages_ids [OF assms] by (metis (mono_tags, lifting) comp_apply filter_cong filter_map)
  then show "map msg_id (filter (\<lambda>m. msg_id m \<notin> X) (step_messages st)) = map snd (ib_step_order (without X st))"
    by (simp add: without_def filter_map comp_def case_prod_unfold)
  show "set (filter (\<lambda>m. msg_id m \<notin> X) (step_messages st)) \<subseteq> set (ib_steers (without X st)) \<union> set (ib_injections (without X st))"
    using step_messages_set [OF assms] by (auto simp: without_def)
qed (rule inbox_ok_without [OF assms])

lemma replay_of_without:
  "inbox_ok st \<Longrightarrow> replay_of (without X st)
     = \<lparr>followups = filter (\<lambda>m. msg_id m \<notin> X) (ib_followups st), steps = filter (\<lambda>m. msg_id m \<notin> X) (step_messages st)\<rparr>"
  by (simp add: replay_of_def step_messages_without) (simp add: without_def)

lemma replay_mset: "inbox_ok st \<Longrightarrow> mset (pending_ids (replay_of st)) = mset (waiting_ids st)"
  using mset_step_order [of st] step_messages_ids [of st] by (simp add: pending_ids_def replay_of_def waiting_ids_def)

lemma replay_wf: "inbox_ok st \<Longrightarrow> inbox_wf (replay_of st)"
  using mset_eq_imp_distinct_iff [OF replay_mset, of st] by (simp add: inbox_ok_def inbox_wf_def)

lemma replay_pending: "inbox_ok st \<Longrightarrow> set (pending_ids (replay_of st)) = set (waiting_ids st)"
  using mset_eq_setD [OF replay_mset] .

text \<open>Positions in the combined order are positions among the next-step messages.\<close>

lemma position_map_eq: "position (\<lambda>x. f x = y) xs = position (\<lambda>z. z = y) (map f xs)"
  by (induction xs) simp_all

lemma position_step:
  assumes "inbox_ok st"
  shows "position (\<lambda>(t, i). i = x) (ib_step_order st) = pending_index (step_messages st) x"
proof -
  have "(\<lambda>(t, i). i = x) = (\<lambda>e :: agent_target \<times> string. snd e = x)" by auto
  then show ?thesis
    unfolding pending_index_def using step_messages_ids [OF assms]
    by (simp add: position_map_eq [of snd] position_map_eq [of msg_id])
qed

section \<open>Mutations with their events\<close>

text \<open>What the callers do when nothing disturbs them: record a message and admit it; claim the next turn or the next step, record the splice,
  then commit; reserve an update, record the splice, then commit. These are the successful paths as one step each,
  for messages that are all recorded; the code takes the parts one by one, and others may act in between. The result
  is the recorded event and the new inbox; \<open>None\<close> when the operation is refused.\<close>

datatype inbox_mutation =
    MSend message agent_target bool | MClaimTurn | MClaimStep | MUpdate string inbox_update bool

definition claimed :: "inbox_claim option \<times> inbox_state \<Rightarrow> (inbox_claim \<times> inbox_state) option" where
  "claimed r =
     (case r of
        (None, _) \<Rightarrow> None
      | (Some cl, st) \<Rightarrow>
          (case claim_commit cl st of
             Some (Some _, st') \<Rightarrow> Some (cl, st')
           | _ \<Rightarrow> None))"

definition reserved_update :: "codec \<Rightarrow> (reservation_result \<times> inbox_state) option \<Rightarrow> (json \<times> inbox_state) option" where
  "reserved_update cdc r =
     (case r of
        Some (Reserved rv, st) \<Rightarrow>
          Option.bind (queue_splice cdc rv) (\<lambda>data.
          case commit_reservation rv st of (True, st') \<Rightarrow> Some (data, st') | _ \<Rightarrow> None)
      | _ \<Rightarrow> None)"

fun mutate :: "codec \<Rightarrow> u64 \<Rightarrow> u64 \<Rightarrow> inbox_mutation \<Rightarrow> inbox_state \<Rightarrow> (session_event \<times> inbox_state) option" where
  "mutate cdc now n (MSend m t w) st =
     (case inbox_send m t w st of
        Inl _ \<Rightarrow> None
      | Inr st' \<Rightarrow> Some (inbox_enqueued_event cdc now n t m, st'))"
| "mutate cdc now n MClaimTurn st =
     map_option (\<lambda>(cl, st'). (claim_event now n cl, st')) (claimed (reserve_next_turn_claim st))"
| "mutate cdc now n MClaimStep st =
     map_option (\<lambda>(cl, st'). (claim_event now n cl, st')) (claimed (reserve_step_batch_claim st))"
| "mutate cdc now n (MUpdate x u b) st =
     map_option (\<lambda>(data, st'). (spliced_event now n data, st')) (reserved_update cdc (reserve_update x u b st))"

lemma target_of_name:
  "get_str ''target'' (ev_data e) = Some (queue_target_name t)
     \<Longrightarrow> inbox_target_of e = Inr (if t = TFollowup then Followup else Step)"
  by (cases t) (simp_all add: inbox_target_of_def)

lemma inbox_queue_replay:
  "inbox_queue (if t = TFollowup then Followup else Step) (replay_of st) = (if t = TFollowup then ib_followups st else step_messages st)"
  by (simp add: replay_of_def)

lemma splice_one: "start < length xs \<Longrightarrow> splice_at start (start + 1) [y] xs = xs[start := y]"
  by (simp add: splice_at_def upd_conv_take_nth_drop)

lemma splice_none: "splice_at start (start + 1) [] xs = remove_at start xs"
  by (simp add: splice_at_def remove_at_def)

text \<open>A claim removes a prefix of its queue.\<close>

lemma claim_splice_apply:
  assumes "cl_target cl = queue_target_name t" "length (cl_messages cl) \<le> length (inbox_queue (if t = TFollowup then Followup else Step) i)"
  shows "inbox_apply cdc i (claim_event now n cl)
    = Inr (set_queue (if t = TFollowup then Followup else Step)
        (drop (length (cl_messages cl)) (inbox_queue (if t = TFollowup then Followup else Step) i)) i)"
proof -
  let ?e = "claim_event now n cl"
  have "inbox_target_of ?e = Inr (if t = TFollowup then Followup else Step)"
    by (rule target_of_name) (simp add: claim_event_def spliced_event_def claim_splice_def get_str_def assms(1))
  then have "apply_range_splice cdc i ?e = Inr (set_queue (if t = TFollowup then Followup else Step)
        (drop (length (cl_messages cl)) (inbox_queue (if t = TFollowup then Followup else Step) i)) i)"
    using assms(2)
    by (simp add: apply_range_splice_def Let_def claim_event_def spliced_event_def claim_splice_def get_u64_def splice_at_def)
  then show ?thesis
    by (simp add: inbox_apply_def INBOX_ENQUEUED_EVENT_def INBOX_SPLICED_EVENT_def claim_event_def spliced_event_def claim_splice_def)
qed

lemma claim_turn_simulates:
  assumes ok: "inbox_ok st" and run: "mutate cdc now n MClaimTurn st = Some (e, st')"
  shows "inbox_apply cdc (replay_of st) e = Inr (replay_of st')"
proof -
  from run obtain m rest where q: "ib_followups st = m # rest" by (auto simp: claimed_def reserve_next_turn_claim_def split: list.splits)
  let ?cl = "\<lparr>cl_target = ''next-turn'', cl_entries = [(TFollowup, msg_id m)], cl_messages = [m]\<rparr>"
  from run q obtain st1 where r: "reserve_next_turn_claim st = (Some ?cl, st1)"
    and c: "\<exists>ms. claim_commit ?cl st1 = Some (Some ms, st')" and e: "e = claim_event now n ?cl"
    by (auto simp: claimed_def reserve_next_turn_claim_def split: if_splits option.splits)
  have s1: "same_queues st1 st" by (rule reserve_claim_queues(1) [OF r])
  then have ok1: "inbox_ok st1" using same_queuesD(1) ok by blast
  from c obtain ms where "claim_commit ?cl st1 = Some (Some ms, st')" ..
  from claim_commit_effect(3) [OF ok1 next_turn_claim_ok [OF r] this]
  have "same_queues st' (without {msg_id m} st1)" by (simp add: claim_ids_def)
  then have "replay_of st' = replay_of (without {msg_id m} st1)" by (rule replay_of_cong)
  also have "\<dots> = \<lparr>followups = rest, steps = step_messages st\<rparr>"
  proof -
    have "msg_id m \<notin> set (map msg_id rest)" "msg_id m \<notin> set (map msg_id (step_messages st))"
      using replay_wf [OF ok] by (auto simp: inbox_wf_def pending_ids_def replay_of_def q)
    then show ?thesis
      using replay_of_without [OF ok1, of "{msg_id m}"] replay_of_cong [OF s1] q s1
      by (simp add: filter_foreign replay_of_def same_queues_def)
  qed
  finally show ?thesis
    unfolding e using claim_splice_apply [of ?cl TFollowup "replay_of st" cdc now n] by (simp add: q replay_of_def)
qed

lemma claim_step_simulates:
  assumes ok: "inbox_ok st" and run: "mutate cdc now n MClaimStep st = Some (e, st')"
  shows "inbox_apply cdc (replay_of st) e = Inr (replay_of st')"
proof -
  from run obtain cl st1 ms where r: "reserve_step_batch_claim st = (Some cl, st1)"
    and c: "claim_commit cl st1 = Some (Some ms, st')" and e: "e = claim_event now n cl"
    by (auto simp: claimed_def split: prod.splits option.splits)
  note cl = step_batch_claim_ok [OF ok r]
  have t: "cl_target cl = ''next-step''" using r by (auto simp: reserve_step_batch_claim_def split: if_splits option.splits)
  have s1: "same_queues st1 st" by (rule reserve_claim_queues(2) [OF r])
  then have ok1: "inbox_ok st1" using same_queuesD(1) ok by blast
  have ids: "claim_ids cl = map msg_id (step_messages st)"
    using cl(3) step_messages_ids [OF ok] by (simp add: claim_ids_def)
  from claim_commit_effect(3) [OF ok1 cl(1) c] have "same_queues st' (without (set (claim_ids cl)) st1)" by simp
  then have "replay_of st' = replay_of (without (set (claim_ids cl)) st1)" by (rule replay_of_cong)
  also have "\<dots> = \<lparr>followups = ib_followups st, steps = []\<rparr>"
  proof -
    have "msg_id m \<notin> set (claim_ids cl)" if "m \<in> set (ib_followups st)" for m
      using replay_wf [OF ok] that unfolding ids by (force simp: inbox_wf_def pending_ids_def replay_of_def)
    then have "filter (\<lambda>m. msg_id m \<notin> set (claim_ids cl)) (ib_followups st) = ib_followups st"
      by (simp add: filter_id_conv)
    moreover have "filter (\<lambda>m. msg_id m \<notin> set (claim_ids cl)) (step_messages st) = []"
      unfolding ids by (auto simp: filter_empty_conv)
    ultimately show ?thesis
      using replay_of_without [OF ok1, of "set (claim_ids cl)"] replay_of_cong [OF s1]
      by (simp add: replay_of_def)
  qed
  finally show ?thesis
    unfolding e using claim_splice_apply [of cl TSteer "replay_of st" cdc now n] t cl(2) by (simp add: replay_of_def)
qed

text \<open>A located message is where the replay finds it.\<close>

abbreviation replay_target :: "agent_target \<Rightarrow> inbox_target" where
  "replay_target t \<equiv> (if t = TFollowup then Followup else Step)"

lemma locate_find:
  assumes ok: "inbox_ok st" and l: "locate st x = Some (Some (t, start, m))"
  shows "inbox_find (replay_of st) x = Some (replay_target t, start)"
    and "start < length (inbox_queue (replay_target t) (replay_of st))"
    and "inbox_queue (replay_target t) (replay_of st) ! start = m"
proof -
  note m = locate_Some [OF ok l]
  show f: "inbox_find (replay_of st) x = Some (replay_target t, start)"
    using l position_step [OF ok, of x]
    by (auto simp: locate_def inbox_find_def replay_of_def pending_index_def split: option.splits)
  from inbox_find_Some [OF f] show b: "start < length (inbox_queue (replay_target t) (replay_of st))" by simp
  have "m \<in> set (inbox_queue (replay_target t) (replay_of st))"
    using m(2,4) step_messages_set [OF ok] by (cases t) (simp_all add: replay_of_def)
  moreover have "distinct (map msg_id (inbox_queue (replay_target t) (replay_of st)))"
    using replay_wf [OF ok] by (simp add: inbox_wf_iff [of _ "replay_target t"])
  ultimately show "inbox_queue (replay_target t) (replay_of st) ! start = m"
    using inbox_find_Some [OF f] m(1) b by (metis distinct_map inj_onD nth_mem)
qed

lemma step_messages_edit:
  assumes ok: "inbox_ok st" and l: "locate st x = Some (Some (TSteer, start, m))"
    and i: "pending_index (ib_steers st) x = Some i" and m': "msg_id m' = x" "message_validate m' = Inr ()"
  shows "step_messages (put_queue TSteer ((ib_steers st)[i := m']) st) = (step_messages st)[start := m']"
proof (rule step_messages_unique [symmetric])
  note pos = locate_find [OF ok l]
  have i': "i < length (ib_steers st)" "msg_id (ib_steers st ! i) = x" using pending_index_Some [OF i] by simp_all
  have start: "start < length (step_messages st)" "step_messages st ! start = m" using pos(2,3) by (simp_all add: replay_of_def)
  have d: "distinct (map msg_id (ib_steers st))" using inbox_ok_distinct [OF ok, of TSteer] by simp
  show "inbox_ok (put_queue TSteer ((ib_steers st)[i := m']) st)"
    using put_same_ids(1) [OF ok, of i TSteer m'] i' m' by simp
  have "msg_id m = x" using locate_Some(1) [OF ok l] .
  then have "map msg_id ((step_messages st)[start := m']) = map msg_id (step_messages st)"
    using start m'(1) by (metis length_map list_update_id map_update nth_map)
  then show "map msg_id ((step_messages st)[start := m']) = map snd (ib_step_order (put_queue TSteer ((ib_steers st)[i := m']) st))"
    using step_messages_ids [OF ok] by simp
  show "set ((step_messages st)[start := m']) \<subseteq> set (ib_steers (put_queue TSteer ((ib_steers st)[i := m']) st))
      \<union> set (ib_injections (put_queue TSteer ((ib_steers st)[i := m']) st))"
  proof
    fix y
    assume "y \<in> set ((step_messages st)[start := m'])"
    then obtain k where k: "k < length (step_messages st)" "y = (step_messages st)[start := m'] ! k"
      by (metis in_set_conv_nth length_list_update)
    show "y \<in> set (ib_steers (put_queue TSteer ((ib_steers st)[i := m']) st)) \<union> set (ib_injections (put_queue TSteer ((ib_steers st)[i := m']) st))"
    proof (cases "k = start")
      case True
      with k i'(1) show ?thesis by (simp add: set_update_memI)
    next
      case False
      with k have y: "y = step_messages st ! k" by simp
      have "distinct (map msg_id (step_messages st))" using step_order_distinct [OF ok] step_messages_ids [OF ok] by simp
      then have "msg_id y \<noteq> x"
        using False k(1) start y \<open>msg_id m = x\<close> by (metis distinct_conv_nth length_map nth_map)
      moreover have "y \<in> set (ib_steers st) \<union> set (ib_injections st)" using y k(1) step_messages_set [OF ok] nth_mem by blast
      moreover have "y \<in> set ((ib_steers st)[i := m'])" if "y \<in> set (ib_steers st)" "msg_id y \<noteq> x"
        using that i' by (metis in_set_conv_nth length_list_update nth_list_update_neq)
      ultimately show ?thesis by auto
    qed
  qed
qed

lemma check_replaced:
  "inbox_find i x = Some (t, start) \<Longrightarrow> msg_id m = x \<Longrightarrow> check_inserted i t start 1 [] [m] = Inr ()"
  by simp

context message_codec
begin

lemma send_simulates:
  assumes "inbox_ok st" "readable m" "mutate cdc now n (MSend m t w) st = Some (e, st')"
  shows "inbox_apply cdc (replay_of st) e = Inr (replay_of st')"
proof -
  from assms(3) have run: "inbox_send m t w st = Inr st'" and e: "e = inbox_enqueued_event cdc now n t m"
    by (auto split: sum.splits)
  note s = inbox_send_Inr [OF run]
  have "inbox_target_of e = Inr (replay_target t)"
    by (rule target_of_name) (simp add: e inbox_enqueued_event_def get_str_def)
  moreover have "inbox_message cdc e = Inr m"
    using decode_written [OF assms(2) s(1)] by (simp add: e inbox_message_def inbox_enqueued_event_def)
  ultimately have "apply_enqueued cdc (replay_of st) e
      = Inr (set_queue (replay_target t) (inbox_queue (replay_target t) (replay_of st) @ [m]) (replay_of st))"
    using s(2) replay_pending [OF assms(1)] by (simp add: apply_enqueued_def)
  moreover have "replay_of st' = set_queue (replay_target t) (inbox_queue (replay_target t) (replay_of st) @ [m]) (replay_of st)"
    unfolding replay_of_cong [OF s(3)] using step_messages_enqueue [OF assms(1) s(2,1), of t]
    by (cases t) (simp_all add: replay_of_def, simp_all add: inbox_enqueue_def)
  ultimately show ?thesis by (simp add: inbox_apply_def e inbox_enqueued_event_def INBOX_ENQUEUED_EVENT_def)
qed

text \<open>The range splice of an edit or a removal.\<close>

lemma range_splice_apply:
  assumes ok: "inbox_ok st" and l: "locate st x = Some (Some (t, start, m))"
    and ins: "ins = [] \<or> (\<exists>m'. ins = [m'] \<and> msg_id m' = x \<and> message_validate m' = Inr () \<and> readable m')"
    and data: "data = obj [(''target'', JStr (queue_target_name t)), (''start'', jnat start), (''removedCount'', jnat 1),
       (''inserted'', JArr (map (cd_message_to cdc) ins))]"
  shows "inbox_apply cdc (replay_of st) (spliced_event now n data)
    = Inr (set_queue (replay_target t) (splice_at start (start + 1) ins (inbox_queue (replay_target t) (replay_of st))) (replay_of st))"
proof -
  let ?e = "spliced_event now n data"
  note pos = locate_find [OF ok l]
  have "inbox_target_of ?e = Inr (replay_target t)"
    by (rule target_of_name) (simp add: spliced_event_def data get_str_def)
  moreover have "try_map (decode_message cdc ''splice inserted message is invalid'') (map (cd_message_to cdc) ins) = Inr ins"
    using ins decode_written by auto
  moreover have "check_inserted (replay_of st) (replay_target t) start 1 [] ins = Inr ()"
    using ins
  proof (elim disjE exE conjE)
    fix m'
    assume "ins = [m']" "msg_id m' = x"
    then show ?thesis by (simp only: check_replaced [OF pos(1)])
  qed simp
  ultimately have "apply_range_splice cdc (replay_of st) ?e
      = Inr (set_queue (replay_target t) (splice_at start (start + 1) ins (inbox_queue (replay_target t) (replay_of st))) (replay_of st))"
    using pos(2) by (simp add: apply_range_splice_def Let_def spliced_event_def data get_u64_def)
  then show ?thesis
    by (simp add: inbox_apply_def INBOX_ENQUEUED_EVENT_def INBOX_SPLICED_EVENT_def spliced_event_def data)
qed

text \<open>The item splice that steers a next-turn message.\<close>

lemma steer_splice_apply:
  assumes ok: "inbox_ok st" and l: "locate st x = Some (Some (TFollowup, start, m))" and "readable m"
    and data: "data = obj [(''target'', JStr ''next-step''), (''start'', jnat k), (''removedCount'', jnat 0),
                     (''inserted'', JArr [cd_message_to cdc m]), (''itemId'', JStr x), (''action'', JStr ''steer''),
                     (''message'', cd_message_to cdc m)]"
  shows "inbox_apply cdc (replay_of st) (spliced_event now n data)
    = Inr \<lparr>followups = remove_at start (ib_followups st), steps = step_messages st @ [m]\<rparr>"
proof -
  let ?e = "spliced_event now n data"
  note pos = locate_find [OF ok l] and m = locate_Some [OF ok l]
  have "inbox_target_of ?e = Inr Step" using target_of_name [of ?e TSteer] by (simp add: spliced_event_def data get_str_def)
  moreover have "inbox_message cdc ?e = Inr m"
    using decode_written [OF assms(3) m(3)] by (simp add: inbox_message_def spliced_event_def data)
  moreover have "inbox_item_id ?e = Inr x" by (simp add: inbox_item_id_def spliced_event_def data)
  moreover have "get_str ''action'' (ev_data ?e) = Some ''steer''" by (simp add: spliced_event_def data get_str_def)
  moreover have "splice_item (replay_of st) x Step m ''steer''
      = Inr \<lparr>followups = remove_at start (ib_followups st), steps = step_messages st @ [m]\<rparr>"
    using pos by (simp add: splice_item_def replay_of_def)
  ultimately have "apply_item_splice cdc (replay_of st) ?e
      = Inr \<lparr>followups = remove_at start (ib_followups st), steps = step_messages st @ [m]\<rparr>"
    using m(1) by (simp add: apply_item_splice_def)
  then show ?thesis
    by (simp add: inbox_apply_def INBOX_ENQUEUED_EVENT_def INBOX_SPLICED_EVENT_def spliced_event_def data)
qed

end

text \<open>What a reserved update is.\<close>

lemma reserve_update_Reserved:
  assumes "inbox_ok st" "reserve_update x u b st = Some (Reserved rv, st1)"
  obtains t start m t' m' w where "locate st x = Some (Some (t, start, m))" "plan_update u t m b = Inr (t', m', w)"
    "rv = \<lparr>rv_item = x, rv_update = u, rv_target = t', rv_message = m', rv_source = t, rv_start = start,
       rv_destination_start = (if u = SteerItem then Some (length (ib_step_order st)) else None), rv_wakes = w\<rparr>"
    "same_queues st1 st" "ib_reservations st1 = insert x (ib_reservations st)"
  using assms(2)
  by (auto simp: reserve_update_def plan_update_refused same_queues_def split: if_splits option.splits sum.splits prod.splits)

lemma readable_content [simp]: "readable (m\<lparr>msg_content := c\<rparr>) = readable m"
  by (simp add: readable_def)

lemma update_commit_queues:
  assumes "commit_reservation rv st1 = (True, st')" "queue = (if rv_update rv = SteerItem then TFollowup else rv_target rv)"
  obtains i where "pending_index (queue_of queue st1) (rv_item rv) = Some i"
    "same_queues st' (updated_queue rv queue i (st1\<lparr>ib_reservations := ib_reservations st1 - {rv_item rv}\<rparr>))"
proof (rule commit_reservation_cases [OF assms(1)])
  fix i
  let ?st = "st1\<lparr>ib_reservations := ib_reservations st1 - {rv_item rv}\<rparr>"
  assume "pending_index (queue_of (if rv_update rv = SteerItem then TFollowup else rv_target rv) ?st) (rv_item rv) = Some i"
    and "st' = bump_wakes (rv_wakes rv) (bump_changes (updated_queue rv (if rv_update rv = SteerItem then TFollowup else rv_target rv) i ?st))"
  then have "pending_index (queue_of queue st1) (rv_item rv) = Some i" "same_queues st' (updated_queue rv queue i ?st)"
    unfolding assms(2) [symmetric] by (cases queue; simp add: same_queues_def)+
  then show thesis by (rule that)
qed auto

lemma reserved_update_Some:
  assumes "reserved_update cdc r = Some (data, st')"
  obtains rv st1 where "r = Some (Reserved rv, st1)" "queue_splice cdc rv = Some data" "commit_reservation rv st1 = (True, st')"
proof -
  from assms obtain rv st1 where r: "r = Some (Reserved rv, st1)"
    and b: "Option.bind (queue_splice cdc rv) (\<lambda>data. case commit_reservation rv st1 of (True, st') \<Rightarrow> Some (data, st') | _ \<Rightarrow> None) = Some (data, st')"
    by (auto simp: reserved_update_def split: option.splits reservation_result.splits)
  obtain k st2 where c: "commit_reservation rv st1 = (k, st2)" by fastforce
  from b have "queue_splice cdc rv = Some data" "k" "st2 = st'"
    by (auto simp: c bind_eq_Some_conv split: bool.splits)
  with r c that show thesis by simp
qed

lemma locate_cong: "same_queues st st' \<Longrightarrow> locate st x = locate st' x"
  by (simp only: locate_def same_queues_def)

text \<open>What the committed update leaves in the replay's terms.\<close>

lemma edited_replay:
  assumes ok: "inbox_ok st" and l: "locate st x = Some (Some (t, start, m))"
    and i: "pending_index (queue_of t st) x = Some i" and m': "msg_id m' = x" "message_validate m' = Inr ()"
  shows "replay_of (put_queue t ((queue_of t st)[i := m']) st)
    = set_queue (replay_target t) ((inbox_queue (replay_target t) (replay_of st))[start := m']) (replay_of st)"
proof (cases t)
  case TFollowup
  then have "i = start" using l i by (simp add: locate_def split: option.splits)
  moreover have "step_messages (st\<lparr>ib_followups := q\<rparr>) = step_messages st" for q
  proof -
    have "step_message (st\<lparr>ib_followups := q\<rparr>) e = step_message st e" for e
      by (cases "(st, e)" rule: step_message.cases) simp_all
    then show ?thesis by (simp add: step_messages_def)
  qed
  ultimately show ?thesis using TFollowup by (simp add: replay_of_def)
next
  case TSteer
  then show ?thesis using step_messages_edit [OF ok _ _ m', of start m i] l i by (simp add: replay_of_def)
next
  case TInject
  then show ?thesis using locate_Some(4) [OF ok l] by simp
qed

lemma removed_replay:
  assumes ok: "inbox_ok st" and l: "locate st x = Some (Some (t, start, m))"
  shows "replay_of (without {x} st)
    = set_queue (replay_target t) (remove_at start (inbox_queue (replay_target t) (replay_of st))) (replay_of st)"
proof -
  note pos = locate_find [OF ok l]
  have wf: "inbox_wf (replay_of st)" by (rule replay_wf [OF ok])
  have "x \<notin> set (map msg_id (inbox_queue t' (replay_of st)))" if "t' \<noteq> replay_target t" for t'
  proof -
    have "x \<in> set (map msg_id (inbox_queue (replay_target t) (replay_of st)))"
      using pos locate_Some(1) [OF ok l] by (metis nth_mem image_eqI set_map)
    then show ?thesis
      using wf that by (cases t'; cases "t = TFollowup") (auto simp: inbox_wf_def pending_ids_def)
  qed
  moreover have "pending_index (inbox_queue (replay_target t) (replay_of st)) x = Some start"
    using pos(1) by (auto simp: inbox_find_def pending_index_def split: option.splits if_splits)
  moreover have "distinct (map msg_id (inbox_queue (replay_target t) (replay_of st)))"
    using wf by (simp add: inbox_wf_iff [of _ "replay_target t"])
  ultimately show ?thesis
    using replay_of_without [OF ok, of "{x}"] remove_pending [of "inbox_queue (replay_target t) (replay_of st)" x start]
      filter_foreign [of x "ib_followups st"] filter_foreign [of x "step_messages st"]
    by (cases "t = TFollowup") (force simp: replay_of_def)+
qed

lemma steered_replay:
  assumes ok: "inbox_ok st" and l: "locate st x = Some (Some (TFollowup, start, m))"
    and s: "same_queues st' (without {x} st)"
  shows "replay_of (inbox_enqueue m TSteer st') = \<lparr>followups = remove_at start (ib_followups st), steps = step_messages st @ [m]\<rparr>"
proof -
  note m = locate_Some [OF ok l]
  have r: "replay_of st' = \<lparr>followups = remove_at start (ib_followups st), steps = step_messages st\<rparr>"
    using removed_replay [OF ok l] replay_of_cong [OF s] by (simp add: replay_of_def)
  have "inbox_ok st'" using same_queuesD(1) [OF s] inbox_ok_without [OF ok] by blast
  moreover have "msg_id m \<notin> set (waiting_ids st')" using same_queuesD(2) [OF s] m(1) by (simp add: waiting_without)
  ultimately have "step_messages (inbox_enqueue m TSteer st') = step_messages st' @ [m]"
    using step_messages_enqueue [of st' m TSteer] m(3) by simp
  with r show ?thesis by (simp add: replay_of_def inbox_enqueue_def)
qed

context message_codec
begin

lemma update_simulates:
  assumes ok: "inbox_ok st" and read: "\<forall>m\<in>set (ib_followups st @ ib_steers st @ ib_injections st). readable m"
    and run: "mutate cdc now n (MUpdate x u b) st = Some (e, st')"
  shows "inbox_apply cdc (replay_of st) e = Inr (replay_of st')"
proof -
  from run obtain rv st1 data where r: "reserve_update x u b st = Some (Reserved rv, st1)"
    and data: "queue_splice cdc rv = Some data" and c: "commit_reservation rv st1 = (True, st')"
    and e: "e = spliced_event now n data"
    by (auto elim: reserved_update_Some)
  from reserve_update_Reserved [OF ok r] obtain t start m t' m' w where l: "locate st x = Some (Some (t, start, m))"
    and p: "plan_update u t m b = Inr (t', m', w)"
    and rv: "rv = \<lparr>rv_item = x, rv_update = u, rv_target = t', rv_message = m', rv_source = t, rv_start = start,
       rv_destination_start = (if u = SteerItem then Some (length (ib_step_order st)) else None), rv_wakes = w\<rparr>"
    and s1: "same_queues st1 st" .
  note m = locate_Some [OF ok l]
  have readable: "readable m" using m(2) read by (cases t) auto
  let ?st = "st1\<lparr>ib_reservations := ib_reservations st1 - {x}\<rparr>"
  have s: "same_queues ?st st" using s1 by (simp add: same_queues_def)
  have ok1: "inbox_ok ?st" using same_queuesD(1) [OF s] ok by blast
  have l1: "locate ?st x = Some (Some (t, start, m))" using l locate_cong [OF s] by simp
  have r1: "replay_of ?st = replay_of st" by (rule replay_of_cong [OF s])
  let ?q = "if u = SteerItem then TFollowup else t'"
  from update_commit_queues [OF c, of ?q] obtain i where i: "pending_index (queue_of ?q st1) x = Some i"
    and q: "same_queues st' (updated_queue rv ?q i ?st)" unfolding rv by (simp only: inbox_reservation.simps) blast
  have i1: "pending_index (queue_of ?q ?st) x = Some i" using i by (cases ?q) simp_all
  show ?thesis
  proof (cases u)
    case (EditContent content)
    with p have t: "t' = t" "m' = m\<lparr>msg_content := content\<rparr>" "message_validate m' = Inr ()"
      by (auto simp: plan_update_def Let_def is_ok_def split: if_splits sum.splits)
    have m': "msg_id m' = x" "readable m'" using m(1) readable t(2) by simp_all
    have "replay_of st' = replay_of (put_queue t ((queue_of t ?st)[i := m']) ?st)"
      using replay_of_cong [OF q] EditContent t(1) by (simp add: rv updated_queue_def Let_def)
    also have "\<dots> = set_queue (replay_target t) ((inbox_queue (replay_target t) (replay_of st))[start := m']) (replay_of st)"
      using edited_replay [OF ok1 l1 _ m'(1) t(3), of i] i1 EditContent t(1) r1 by simp
    also have "\<dots> = set_queue (replay_target t) (splice_at start (start + 1) [m'] (inbox_queue (replay_target t) (replay_of st))) (replay_of st)"
      by (simp only: splice_one [OF locate_find(2) [OF ok l]])
    finally show ?thesis
      unfolding e using range_splice_apply [OF ok l, of "[m']" data now n] m' t(3) data
      by (simp add: rv queue_splice_def EditContent Let_def)
  next
    case RemoveItem
    with p have t: "t' = t" by (simp add: plan_update_def)
    have "same_queues (updated_queue rv t i ?st) (without {x} ?st)"
      using put_removed(1,2) [OF ok1, of t x i] i1 t RemoveItem pending_index_Some [OF i1]
      by (cases "t = TFollowup") (simp_all add: rv updated_queue_def Let_def)
    then have "replay_of st' = replay_of (without {x} ?st)"
      using replay_of_cong [OF q] replay_of_cong t RemoveItem by simp
    also have "\<dots> = set_queue (replay_target t) (splice_at start (start + 1) [] (inbox_queue (replay_target t) (replay_of st))) (replay_of st)"
      unfolding removed_replay [OF ok1 l1] r1 by (simp only: splice_none)
    finally show ?thesis
      unfolding e using range_splice_apply [OF ok l, of "[]" data now n] data
      by (simp add: rv queue_splice_def RemoveItem Let_def)
  next
    case SteerItem
    with p have t: "t = TFollowup" "t' = TSteer" "m' = m" by (auto simp: plan_update_def split: if_splits)
    have l2: "locate st x = Some (Some (TFollowup, start, m))" and l3: "locate ?st x = Some (Some (TFollowup, start, m))"
      using l l1 t(1) by simp_all
    have "same_queues (put_queue TFollowup (remove_at i (ib_followups ?st)) ?st) (without {x} ?st)"
      using put_removed(1) [OF ok1, of TFollowup x i] i1 SteerItem by simp
    moreover have "ib_followups ?st ! i = m"
      using l3 i1 SteerItem by (auto simp: locate_def split: option.splits)
    ultimately have "replay_of st' = \<lparr>followups = remove_at start (ib_followups st), steps = step_messages st @ [m]\<rparr>"
      using replay_of_cong [OF q] steered_replay [OF ok1 l3] SteerItem r1
      by (simp add: rv updated_queue_def Let_def replay_of_def)
    then show ?thesis
      unfolding e using steer_splice_apply [OF ok l2 readable, of data "length (ib_step_order st)" now n] data t(3)
      by (simp add: rv queue_splice_def SteerItem Let_def)
  qed
qed

end

section \<open>Runs\<close>

definition pending_messages :: "inbox_state \<Rightarrow> message list" where
  "pending_messages st = ib_followups st @ ib_steers st @ ib_injections st"

definition inbox_durable_ok :: "inbox_state \<Rightarrow> bool" where
  "inbox_durable_ok st \<longleftrightarrow> inbox_ok st \<and> list_all readable (pending_messages st)"

fun admissible :: "inbox_mutation \<Rightarrow> bool" where
  "admissible (MSend m t w) = readable m"
| "admissible _ = True"

lemma inbox_durable_ok_cong: "same_queues st st' \<Longrightarrow> inbox_durable_ok st = inbox_durable_ok st'"
  using same_queuesD(1) [of st st'] by (simp add: inbox_durable_ok_def pending_messages_def same_queues_def)

lemma inbox_durable_ok_without: "inbox_durable_ok st \<Longrightarrow> inbox_durable_ok (without X st)"
  by (auto simp: inbox_durable_ok_def inbox_ok_without) (auto simp: pending_messages_def without_def list_all_iff)

lemma messages_updated:
  assumes "i < length (queue_of queue st)" "rv_update rv = SteerItem \<Longrightarrow> queue = TFollowup"
  shows "set (pending_messages (updated_queue rv queue i st)) \<subseteq> insert (rv_message rv) (set (pending_messages st))"
proof -
  have "set ((queue_of queue st)[i := rv_message rv]) \<subseteq> insert (rv_message rv) (set (queue_of queue st))"
    by (rule set_update_subset_insert)
  moreover have "set (remove_at i (queue_of queue st)) \<subseteq> set (queue_of queue st)"
    by (auto simp: remove_at_def dest: in_set_takeD in_set_dropD)
  moreover have "queue_of queue st ! i \<in> set (queue_of queue st)" using assms(1) by simp
  ultimately show ?thesis
    using assms(2) unfolding updated_queue_def Let_def pending_messages_def
    by (cases queue; cases "rv_update rv") (auto simp: inbox_enqueue_def)
qed

lemma reserved_readable:
  assumes ok: "inbox_durable_ok st" and r: "reserve_update x u b st = Some (Reserved rv, st1)"
  shows "readable (rv_message rv)"
proof -
  have iok: "inbox_ok st" using ok by (simp add: inbox_durable_ok_def)
  show ?thesis
  proof (rule reserve_update_Reserved [OF iok r])
    fix t start m t' m' w
    assume l: "locate st x = Some (Some (t, start, m))" and p: "plan_update u t m b = Inr (t', m', w)"
      and rv: "rv = \<lparr>rv_item = x, rv_update = u, rv_target = t', rv_message = m', rv_source = t, rv_start = start,
       rv_destination_start = (if u = SteerItem then Some (length (ib_step_order st)) else None), rv_wakes = w\<rparr>"
    have "m \<in> set (pending_messages st)" using locate_Some(2) [OF iok l] by (cases t) (simp_all add: pending_messages_def)
    with ok have "readable m" by (simp add: inbox_durable_ok_def list_all_iff)
    with p show ?thesis unfolding rv by (auto simp: plan_update_def Let_def split: inbox_update.splits if_splits)
  qed
qed

lemma update_keeps:
  assumes ok: "inbox_durable_ok st" and r: "reserve_update x u b st = Some (Reserved rv, st1)"
    and k: "commit_reservation rv st1 = (True, st')"
  shows "inbox_durable_ok st'"
proof -
  have iok: "inbox_ok st" using ok by (simp add: inbox_durable_ok_def)
  note rv = reserve_update_ok(2,3) [OF iok, OF r]
  let ?st = "st1\<lparr>ib_reservations := ib_reservations st1 - {rv_item rv}\<rparr>"
  let ?q = "if rv_update rv = SteerItem then TFollowup else rv_target rv"
  from update_commit_queues [OF k refl] obtain i where i: "pending_index (queue_of ?q st1) (rv_item rv) = Some i"
    and q: "same_queues st' (updated_queue rv ?q i ?st)" .
  have "i < length (queue_of ?q ?st)" using pending_index_Some [OF i] by (cases ?q) simp_all
  from messages_updated [OF this] have "set (pending_messages (updated_queue rv ?q i ?st)) \<subseteq> insert (rv_message rv) (set (pending_messages ?st))"
    by simp
  moreover have "list_all readable (pending_messages ?st)"
    using ok rv(1) by (simp add: inbox_durable_ok_def pending_messages_def same_queues_def)
  moreover have "inbox_ok st'"
    using commit_reservation_effect(1) [OF _ _ k] rv(2) same_queuesD(1) [OF rv(1)] iok by blast
  moreover have "pending_messages st' = pending_messages (updated_queue rv ?q i ?st)"
    using q by (simp only: pending_messages_def same_queues_def)
  ultimately show ?thesis
    using reserved_readable [OF ok r] unfolding inbox_durable_ok_def list_all_iff by auto
qed

lemma mutate_keeps:
  assumes ok: "inbox_durable_ok st" and adm: "admissible c" and run: "mutate cdc now n c st = Some (e, st')"
  shows "inbox_durable_ok st'"
proof (cases c)
  case (MSend m t w)
  with run have s: "inbox_send m t w st = Inr st'" by (auto split: sum.splits)
  note i = inbox_send_Inr [OF s]
  have "inbox_durable_ok (inbox_enqueue m t st)"
    using ok adm MSend inbox_ok_enqueue [OF _ i(2,1), of t]
    by (cases t) (auto simp: inbox_durable_ok_def pending_messages_def inbox_enqueue_def)
  then show ?thesis using inbox_durable_ok_cong [OF i(3)] by simp
next
  case MClaimTurn
  with run obtain cl st1 ms where r: "reserve_next_turn_claim st = (Some cl, st1)" and k: "claim_commit cl st1 = Some (Some ms, st')"
    by (auto simp: claimed_def split: prod.splits option.splits)
  have ok1: "inbox_durable_ok st1" using inbox_durable_ok_cong [OF reserve_claim_queues(1) [OF r]] ok by simp
  then have "inbox_ok st1" by (simp add: inbox_durable_ok_def)
  from claim_commit_effect(3) [OF this next_turn_claim_ok [OF r] k] show ?thesis
    using inbox_durable_ok_without [OF ok1] inbox_durable_ok_cong by blast
next
  case MClaimStep
  with run obtain cl st1 ms where r: "reserve_step_batch_claim st = (Some cl, st1)" and k: "claim_commit cl st1 = Some (Some ms, st')"
    by (auto simp: claimed_def split: prod.splits option.splits)
  have ok1: "inbox_durable_ok st1" using inbox_durable_ok_cong [OF reserve_claim_queues(2) [OF r]] ok by simp
  then have "inbox_ok st1" by (simp add: inbox_durable_ok_def)
  from claim_commit_effect(3) [OF this step_batch_claim_ok(1) [OF _ r] k] ok show ?thesis
    using inbox_durable_ok_without [OF ok1] inbox_durable_ok_cong unfolding inbox_durable_ok_def by blast
next
  case (MUpdate x u b)
  from run [unfolded MUpdate] obtain rv st1 data where "reserve_update x u b st = Some (Reserved rv, st1)"
    "commit_reservation rv st1 = (True, st')"
    by (auto elim: reserved_update_Some)
  then show ?thesis by (rule update_keeps [OF ok])
qed

text \<open>A sequence of mutations, each recorded at the next sequence number; refused ones record nothing.\<close>

fun run_mutations ::
  "codec \<Rightarrow> u64 \<Rightarrow> u64 \<Rightarrow> inbox_mutation list \<Rightarrow> inbox_state \<Rightarrow> session_event list \<times> inbox_state" where
  "run_mutations cdc now n [] st = ([], st)"
| "run_mutations cdc now n (c # cs) st =
     (case mutate cdc now n c st of
        None \<Rightarrow> run_mutations cdc now n cs st
      | Some (e, st') \<Rightarrow> (case run_mutations cdc now (n + 1) cs st' of (es, st'') \<Rightarrow> (e # es, st'')))"

context message_codec
begin

lemma mutate_simulates:
  assumes "inbox_durable_ok st" "admissible c" "mutate cdc now n c st = Some (e, st')"
  shows "inbox_apply cdc (replay_of st) e = Inr (replay_of st')"
proof (cases c)
  case (MSend m t w)
  then show ?thesis using send_simulates [of st m now n t w e st'] assms by (simp add: inbox_durable_ok_def)
next
  case MClaimTurn
  then show ?thesis using claim_turn_simulates [of st cdc now n e st'] assms by (simp add: inbox_durable_ok_def)
next
  case MClaimStep
  then show ?thesis using claim_step_simulates [of st cdc now n e st'] assms by (simp add: inbox_durable_ok_def)
next
  case (MUpdate x u b)
  then show ?thesis
    using update_simulates [of st now n x u b e st'] assms by (simp add: inbox_durable_ok_def pending_messages_def list_all_iff)
qed

lemma run_simulates:
  assumes "inbox_durable_ok st" "list_all admissible cs" "run_mutations cdc now n cs st = (es, st')"
  shows "try_fold (inbox_apply cdc) (replay_of st) es = Inr (replay_of st') \<and> inbox_durable_ok st'"
  using assms
proof (induction cs arbitrary: n st es)
  case (Cons c cs)
  show ?case
  proof (cases "mutate cdc now n c st")
    case None
    with Cons show ?thesis by simp
  next
    case (Some r)
    obtain e st1 where r: "r = (e, st1)" by fastforce
    obtain es1 where es: "es = e # es1" "run_mutations cdc now (n + 1) cs st1 = (es1, st')"
      using Cons.prems(3) by (auto simp: Some r split: prod.splits)
    from Cons.prems Some r have "inbox_durable_ok st1" "inbox_apply cdc (replay_of st) e = Inr (replay_of st1)"
      using mutate_keeps mutate_simulates by auto
    with Cons.IH [OF _ _ es(2)] Cons.prems(2) es(1) show ?thesis by simp
  qed
qed simp

end

section \<open>Properties\<close>

text \<open>With a message codec that reads back what it writes, the durable inbox refines the live one as long as no two operations overlap:
  after any sequence of admitted messages, claims and queue updates, each done before the next begins, replaying
  the recorded events gives exactly the live queues, next turn and next step, in order, and no recorded event is rejected.\<close>

theorem durable_inbox_refines_live:
  assumes "message_codec cdc" "list_all admissible cs"
  shows "replay_inbox cdc (fst (run_mutations cdc now n cs inbox_new))
    = Inr (replay_of (snd (run_mutations cdc now n cs inbox_new)))"
proof -
  have "inbox_durable_ok inbox_new" "replay_of inbox_new = empty_inbox"
    by (simp_all add: inbox_durable_ok_def inbox_ok_new)
      (simp_all add: pending_messages_def inbox_new_def replay_of_def step_messages_def empty_inbox_def)
  then show ?thesis
    using message_codec.run_simulates [OF assms(1) _ assms(2), of inbox_new now n]
    by (simp add: replay_inbox_def prod.collapse)
qed

definition note_run :: "inbox_mutation list" where
  "note_run = [MSend (note_to ''a'') TFollowup True, MSend (note_to ''b'') TFollowup True, MSend (note_to ''c'') TInject False,
     MUpdate ''b'' SteerItem True, MClaimTurn, MUpdate ''b'' (EditContent [Text ''new'']) True]"

theorem durable_inbox_refines_live_witness:
  "replay_inbox wire_codec (fst (run_mutations wire_codec 0 0 note_run inbox_new))
     = Inr (replay_of (snd (run_mutations wire_codec 0 0 note_run inbox_new)))
   \<and> length (fst (run_mutations wire_codec 0 0 note_run inbox_new)) = 6
   \<and> step_messages (snd (run_mutations wire_codec 0 0 note_run inbox_new))
       = [note_to ''c'', (note_to ''b'')\<lparr>msg_content := [Text ''new'']\<rparr>]"
proof -
  have "list_all admissible note_run" by code_simp
  from durable_inbox_refines_live [OF wire_messages.message_codec_axioms this]
  have "replay_inbox wire_codec (fst (run_mutations wire_codec 0 0 note_run inbox_new))
     = Inr (replay_of (snd (run_mutations wire_codec 0 0 note_run inbox_new)))" .
  moreover have "length (fst (run_mutations wire_codec 0 0 note_run inbox_new)) = 6" by code_simp
  moreover have "step_messages (snd (run_mutations wire_codec 0 0 note_run inbox_new))
       = [note_to ''c'', (note_to ''b'')\<lparr>msg_content := [Text ''new'']\<rparr>]" by code_simp
  ultimately show ?thesis by blast
qed

text \<open>The order the run above assumes is not enforced by the code: a queue update and a claim of the loop
  may overlap. The update's position in its queue is read when it is reserved and written into the
  recorded splice later; a claim of the front message that records its own splice in between shifts the
  queue under it.\<close>

definition overlapped :: "inbox_state \<Rightarrow> (session_event list \<times> inbox_state) option" where
  "overlapped st =
     (case reserve_update ''b'' RemoveItem True st of
        Some (Reserved rv, st1) \<Rightarrow>
          (case reserve_next_turn_claim st1 of
             (Some cl, st2) \<Rightarrow>
               (case (claim_commit cl st2, queue_splice wire_codec rv) of
                  (Some (Some _, st3), Some data) \<Rightarrow>
                    Some ([claim_event 0 3 cl, spliced_event 0 4 data],
                          snd (commit_reservation rv st3))
                | _ \<Rightarrow> None)
           | _ \<Rightarrow> None)
      | _ \<Rightarrow> None)"

definition three_notes :: "session_event list \<times> inbox_state" where
  "three_notes = run_mutations wire_codec 0 0
     [MSend (note_to ''a'') TFollowup True, MSend (note_to ''b'') TFollowup True, MSend (note_to ''c'') TFollowup True]
     inbox_new"

text \<open>With a, b and c queued for the next turn, a removal of b that is reserved before and recorded after
  the loop claims a removes c from the durable queue and keeps b there, while the live queue keeps c.\<close>

theorem overlapping_removal_diverges:
  "case overlapped (snd three_notes) of
     None \<Rightarrow> False
   | Some (es, st) \<Rightarrow>
       replay_inbox wire_codec (fst three_notes @ es) = Inr \<lparr>followups = [note_to ''b''], steps = []\<rparr>
       \<and> replay_of st = \<lparr>followups = [note_to ''c''], steps = []\<rparr>"
  by code_simp

end
