(* ===== verification/Agent_Properties.thy ===== *)
theory Agent_Properties
  imports Agent_Registry Inbox_Durable Session_Samples
begin

text \<open>
  What the agents promise their callers: the authority of an agent is exclusive and never revives, the
  first cancellation wins and closes the inbox, a failed disposal can be retried, and an agent set up over
  a durable session starts with exactly the session's pending next-turn messages.
\<close>

section \<open>The restored inbox\<close>

definition replay_valid :: "inbox_replay \<Rightarrow> bool" where
  "replay_valid i \<longleftrightarrow> (\<forall>m\<in>set (followups i) \<union> set (steps i). message_validate m = Inr ())"

lemma decode_message_valid: "decode_message cdc reason v = Inr m \<Longrightarrow> message_validate m = Inr ()"
  by (auto simp: decode_message_def)

lemma try_map_decoded:
  "try_map (decode_message cdc reason) vs = Inr ms \<Longrightarrow> m \<in> set ms \<Longrightarrow> message_validate m = Inr ()"
  by (induction vs arbitrary: ms) (auto dest: decode_message_valid)

lemma inbox_message_valid: "inbox_message cdc e = Inr m \<Longrightarrow> message_validate m = Inr ()"
  by (auto simp: inbox_message_def dest: decode_message_valid)

lemma set_queue_valid:
  "replay_valid i \<Longrightarrow> (\<forall>m\<in>set q. message_validate m = Inr ()) \<Longrightarrow> replay_valid (set_queue t q i)"
  by (cases t) (auto simp: replay_valid_def)

lemma queue_valid: "replay_valid i \<Longrightarrow> m \<in> set (inbox_queue t i) \<Longrightarrow> message_validate m = Inr ()"
  by (cases t) (auto simp: replay_valid_def)

lemma splice_item_valid:
  assumes "replay_valid i" "message_validate m = Inr ()" "splice_item i x t m action = Inr i'"
  shows "replay_valid i'"
proof -
  have r: "set (remove_at n q) \<subseteq> set q" for n and q :: "message list" by (rule remove_at_set)
  have u: "set (q[n := m]) \<subseteq> insert m (set q)" for n q by (rule set_update_subset_insert)
  have "replay_valid (i\<lparr>followups := remove_at n (followups i), steps := steps i @ [m]\<rparr>)" for n
    using assms(1,2) r by (auto simp: replay_valid_def)
  moreover have "replay_valid (set_queue t ((inbox_queue t i)[n := m]) i)" for n
    using assms(1,2) u queue_valid [OF assms(1)] by (intro set_queue_valid) blast+
  moreover have "replay_valid (set_queue t (remove_at n (inbox_queue t i)) i)" for n
    using assms(1) r queue_valid [OF assms(1)] by (intro set_queue_valid) blast+
  ultimately show ?thesis
    using assms(3) by (auto simp: splice_item_def split: option.splits if_splits)
qed

lemma range_splice_valid:
  assumes "replay_valid i" "apply_range_splice cdc i e = Inr i'"
  shows "replay_valid i'"
proof -
  from assms(2) obtain t a b vs ms where d: "try_map (decode_message cdc ''splice inserted message is invalid'') vs = Inr ms"
    and i': "i' = set_queue t (splice_at a b ms (inbox_queue t i)) i"
    by (auto simp: apply_range_splice_def Let_def split: if_splits)
  have "message_validate m = Inr ()" if "m \<in> set (splice_at a b ms (inbox_queue t i))" for m
    using that try_map_decoded [OF d] queue_valid [OF assms(1)]
    by (auto simp: splice_at_def dest: in_set_takeD in_set_dropD)
  then show ?thesis unfolding i' by (intro set_queue_valid assms(1)) blast
qed

lemma inbox_apply_valid: "replay_valid i \<Longrightarrow> inbox_apply cdc i e = Inr i' \<Longrightarrow> replay_valid i'"
proof -
  assume ok: "replay_valid i" and run: "inbox_apply cdc i e = Inr i'"
  have rm: "replay_valid (inbox_remove x i)" for x
    using ok remove_at_set by (fastforce simp: replay_valid_def inbox_remove_def remove_first_def split: option.splits)
  have "replay_valid i'" if "apply_enqueued cdc i e = Inr i'"
    using that ok queue_valid [OF ok]
    by (auto simp: apply_enqueued_def split: if_splits intro!: set_queue_valid dest: inbox_message_valid)
  moreover have "replay_valid i'" if "apply_item_splice cdc i e = Inr i'"
    using that splice_item_valid [OF ok] by (auto simp: apply_item_splice_def split: if_splits dest: inbox_message_valid)
  ultimately show ?thesis
    using run rm ok range_splice_valid [OF ok] by (auto simp: inbox_apply_def split: if_splits option.splits)
qed

lemma replay_valid_empty: "replay_valid empty_inbox"
  by (simp add: replay_valid_def empty_inbox_def)

lemma replay_inbox_valid: "replay_inbox cdc events = Inr i \<Longrightarrow> replay_valid i"
  unfolding replay_inbox_def
  by (erule try_fold_invariant [where P = replay_valid]) (auto intro: inbox_apply_valid simp: replay_valid_empty)

text \<open>Sending valid messages with fresh distinct ids cannot fail, and queues them in order.\<close>

lemma enqueue_all_valid:
  assumes "\<forall>m\<in>set ms. message_validate m = Inr ()" "distinct (map msg_id ms)"
    "set (map msg_id ms) \<inter> set (waiting_ids st) = {}" "inbox_ok st"
  obtains st' where "enqueue_all ms st = Inr st'" "ib_followups st' = ib_followups st @ ms"
    "ib_steers st' = ib_steers st" "ib_injections st' = ib_injections st" "ib_wakes st' = ib_wakes st"
    "ib_reservations st' = ib_reservations st" "inbox_ok st'"
  using assms
proof (induction ms arbitrary: st thesis)
  case (Cons m ms)
  let ?st = "bump_wakes False (bump_changes (inbox_enqueue m TFollowup st))"
  have send: "inbox_send m TFollowup False st = Inr ?st"
    using Cons.prems by (simp add: inbox_send_def pending_contains_iff)
  have ok: "inbox_ok ?st" using Cons.prems inbox_ok_enqueue [of st m TFollowup] by simp
  have "set (waiting_ids ?st) = insert (msg_id m) (set (waiting_ids st))"
    by (simp add: inbox_enqueue_def waiting_ids_def)
  then have "set (map msg_id ms) \<inter> set (waiting_ids ?st) = {}" using Cons.prems by auto
  from Cons.IH [OF _ _ _ this ok] Cons.prems(2,3) obtain st' where "enqueue_all ms ?st = Inr st'"
    "ib_followups st' = ib_followups ?st @ ms" "ib_steers st' = ib_steers ?st" "ib_injections st' = ib_injections ?st"
    "ib_wakes st' = ib_wakes ?st" "ib_reservations st' = ib_reservations ?st" "inbox_ok st'" by auto
  then show ?case by (intro Cons.prems(1) [of st']) (auto simp: send inbox_enqueue_def bump_wakes_def bump_changes_def)
qed auto

lemma restored_inbox:
  assumes "replay_inbox cdc events = Inr i"
  obtains st where "enqueue_all (followups i) inbox_new = Inr st" "ib_followups st = followups i"
    "ib_steers st = []" "ib_injections st = []" "ib_reservations st = {}" "ib_wakes st = 0" "inbox_ok st"
proof -
  have "distinct (map msg_id (followups i))"
    using replay_inbox_wf [OF assms] by (simp add: inbox_wf_def pending_ids_def)
  moreover have "\<forall>m\<in>set (followups i). message_validate m = Inr ()"
    using replay_inbox_valid [OF assms] by (simp add: replay_valid_def)
  ultimately show thesis
    using enqueue_all_valid [of "followups i" inbox_new, OF _ _ _ inbox_ok_new] that
    by (auto simp: inbox_new_def waiting_ids_def)
qed

section \<open>A registry in use\<close>

definition sample_options :: agent_options where
  "sample_options = \<lparr>ao_provider = ''p'', ao_model = ''m'', ao_reasoning_effort = None, ao_max_tokens = None\<rparr>"

definition sample_ready :: setup_ready where
  "sample_ready = \<lparr>sr_session = ''s1'', sr_options = sample_options, sr_inbox = inbox_new, sr_mode = None\<rparr>"

text \<open>A factory, one agent set up for a session, its disposal, and a second agent for the same session.\<close>

definition set_up :: "nat \<Rightarrow> registry \<Rightarrow> registry" where
  "set_up n r = snd (accept_setup sample_ready False n True (snd (setup_admission (SetupResume ''s1'') sample_options False 0 r)))"

definition registry_one :: registry where
  "registry_one = set_up 0 (snd (register_factory 0 registry_new))"

definition registry_disposing :: registry where
  "registry_disposing = put_agent 0 (the (dispose_begin (rg_agents registry_one ! 0))) registry_one"

definition registry_two :: registry where
  "registry_two = set_up 1 (snd (dispose_end 0 (Inr ()) registry_disposing))"

lemma set_up_steps:
  assumes "rg_next_generation (snd (setup_admission (SetupResume ''s1'') sample_options False 0 r)) < u64_max"
  shows "agents_step\<^sup>*\<^sup>* r (set_up n r)"
  unfolding set_up_def
  by (rule rtranclp.rtrancl_into_rtrancl [OF r_into_rtranclp])
    (rule agents_step.admit [OF prod.collapse [symmetric]],
     rule agents_step.accept [OF prod.collapse [symmetric] assms])

lemma agents_reachable_steps: "agents_step\<^sup>*\<^sup>* r r' \<Longrightarrow> agents_reachable r \<Longrightarrow> agents_reachable r'"
  by (induction rule: rtranclp_induct) (auto intro: agents_reachable.step)

lemma registry_one_reachable: "agents_reachable registry_one"
proof -
  have "agents_step registry_new (snd (register_factory 0 registry_new))"
    by (rule agents_step.register [OF prod.collapse [symmetric]]) code_simp
  then have 1: "agents_reachable (snd (register_factory 0 registry_new))"
    by (rule agents_reachable.step [OF agents_reachable.start])
  have "rg_next_generation (snd (setup_admission (SetupResume ''s1'') sample_options False 0 (snd (register_factory 0 registry_new)))) < u64_max"
    by code_simp
  from agents_reachable_steps [OF set_up_steps [OF this] 1] show ?thesis by (simp add: registry_one_def)
qed

lemma registry_one_disposing: "agents_step registry_one registry_disposing"
proof -
  have "0 < length (rg_agents registry_one)" "dispose_begin (rg_agents registry_one ! 0) \<noteq> None" by code_simp+
  then show ?thesis unfolding registry_disposing_def by (intro agents_step.dispose_begin) auto
qed

lemma registry_disposing_two: "agents_step\<^sup>*\<^sup>* registry_disposing registry_two"
proof -
  let ?r = "snd (dispose_end 0 (Inr ()) registry_disposing)"
  have "0 < length (rg_agents registry_disposing)" "ai_disposed (rg_agents registry_disposing ! 0)" by code_simp+
  then have "agents_step registry_disposing ?r"
    by (intro agents_step.dispose_end [OF _ _ prod.collapse [symmetric]])
  moreover have "rg_next_generation (snd (setup_admission (SetupResume ''s1'') sample_options False 0 ?r)) < u64_max" by code_simp
  ultimately show ?thesis unfolding registry_two_def by (meson converse_rtranclp_into_rtranclp set_up_steps)
qed

section \<open>Properties\<close>

text \<open>C39: an authority stands for one exact agent. In every reachable registry two live authorities of one
  session are the same, their session is not in setup, and ending the disposal of another agent leaves them
  live; and an authority that is dead stays dead whatever happens afterwards, also when a new agent is
  set up for the same session.\<close>

theorem authority_exclusive_and_final:
  assumes "agents_reachable r"
  shows "(authority_live au r \<longrightarrow> authority_live au' r \<longrightarrow> au_id au' = au_id au \<longrightarrow> au' = au)
    \<and> (authority_live au r \<longrightarrow> map_of (rg_starting r) (au_id au) = None)
    \<and> (authority_live au r \<longrightarrow> a < length (rg_agents r) \<longrightarrow> a \<noteq> au_inner au
         \<longrightarrow> authority_live au (snd (dispose_end a answer r)))
    \<and> (\<not> authority_live au r \<longrightarrow> au_inner au < length (rg_agents r) \<longrightarrow> agents_step\<^sup>*\<^sup>* r r' \<longrightarrow> \<not> authority_live au r')"
proof (intro conjI impI)
  have ok: "agents_ok r" by (rule agents_reachable_ok [OF assms])
  show "au' = au" if "authority_live au r" "authority_live au' r" "au_id au' = au_id au"
    using that by (cases au; cases au') (auto simp: authority_live_def Let_def split: option.splits)
  show "map_of (rg_starting r) (au_id au) = None" if "authority_live au r"
  proof (rule ccontr)
    assume "map_of (rg_starting r) (au_id au) \<noteq> None"
    then obtain sg where "map_of (rg_starting r) (au_id au) = Some sg" by auto
    then have "map_of (rg_live r) (au_id au) = None" using ok by (simp add: agents_ok_def starting_ok_def)
    with that show False by (simp add: authority_live_def)
  qed
  show "authority_live au (snd (dispose_end a answer r))"
    if live: "authority_live au r" and a: "a < length (rg_agents r)" and other: "a \<noteq> au_inner au"
  proof (cases answer)
    case (Inr u)
    obtain res r2 where run: "dispose_end a answer r = (res, r2)" by fastforce
    note e = dispose_end_Inr [OF ok a run [unfolded Inr]]
    from live other show ?thesis
      by (auto simp: run authority_live_def Let_def e(2,3) split: option.splits)
  qed (use live in \<open>simp add: dispose_end_def\<close>)
  show "\<not> authority_live au r'"
    if dead: "\<not> authority_live au r" and known: "au_inner au < length (rg_agents r)" and run: "agents_step\<^sup>*\<^sup>* r r'"
  proof
    assume live: "authority_live au r'"
    from registry_steps_grow [OF run] known
    have g: "agent_grows (rg_agents r ! au_inner au) (rg_agents r' ! au_inner au)"
      and same: "map_of (rg_live r') (au_id au) = Some (x, au_inner au) \<Longrightarrow> map_of (rg_live r) (au_id au) = Some (x, au_inner au)" for x
      by (auto simp: registry_grows_def)
    from live obtain x where "map_of (rg_live r') (au_id au) = Some (x, au_inner au)"
      by (auto simp: authority_live_def Let_def split: option.splits)
    from same [OF this] this g live dead show False
      by (auto simp: authority_live_def Let_def agent_grows_def)
  qed
qed

theorem authority_exclusive_and_final_witness:
  "authority_live (authority_of 0 registry_one) registry_one
   \<and> \<not> authority_live (authority_of 0 registry_one) registry_two
   \<and> authority_live (authority_of 1 registry_two) registry_two
   \<and> au_id (authority_of 1 registry_two) = au_id (authority_of 0 registry_one)"
proof -
  have "\<not> authority_live (authority_of 0 registry_one) registry_disposing"
    "au_inner (authority_of 0 registry_one) < length (rg_agents registry_disposing)" by code_simp+
  moreover have "agents_reachable registry_disposing"
    by (rule agents_reachable.step [OF registry_one_reachable registry_one_disposing])
  ultimately have "\<not> authority_live (authority_of 0 registry_one) registry_two"
    using authority_exclusive_and_final registry_disposing_two by blast
  moreover have "authority_live (authority_of 0 registry_one) registry_one \<and> authority_live (authority_of 1 registry_two) registry_two
    \<and> au_id (authority_of 1 registry_two) = au_id (authority_of 0 registry_one)" by code_simp
  ultimately show ?thesis by blast
qed

text \<open>The first cancellation wins. Once an agent has a recorded cancellation no later cancel, send, queue
  update, claim or disposal changes it, no message enters its inbox any more, and every send is refused.\<close>

theorem first_cancellation_wins:
  assumes "agents_step\<^sup>*\<^sup>* r r'" "a < length (rg_agents r)" "ai_cancellation (rg_agents r ! a) = Some opt"
  shows "ai_cancellation (rg_agents r' ! a) = Some opt
    \<and> set (waiting_ids (ai_inbox (rg_agents r' ! a))) \<subseteq> set (waiting_ids (ai_inbox (rg_agents r ! a)))
    \<and> \<not> is_ok (fst (agent_send wake m t w (rg_agents r' ! a)))
    \<and> cancel_including_idle report opt' (rg_agents r' ! a) = (False, rg_agents r' ! a)"
proof -
  from registry_steps_grow [OF assms(1)] assms(2) have "agent_grows (rg_agents r ! a) (rg_agents r' ! a)"
    by (simp add: registry_grows_def)
  with assms(3) have "ai_cancellation (rg_agents r' ! a) = Some opt"
    "set (waiting_ids (ai_inbox (rg_agents r' ! a))) \<subseteq> set (waiting_ids (ai_inbox (rg_agents r ! a)))"
    by (simp_all add: agent_grows_def)
  then show ?thesis
    by (auto simp: agent_send_def agent_open_def cancel_including_idle_def is_ok_def split: sum.splits)
qed

theorem first_cancellation_wins_witness:
  "ai_cancellation (rg_agents registry_disposing ! 0) = Some \<lparr>co_cause = CancelDisposed, co_keep_inbox = False\<rparr>
   \<and> ai_cancellation (rg_agents registry_two ! 0) = Some \<lparr>co_cause = CancelDisposed, co_keep_inbox = False\<rparr>
   \<and> \<not> is_ok (fst (agent_send (Inr ()) (note_to ''a'') TFollowup True (rg_agents registry_two ! 0)))"
proof -
  have c: "0 < length (rg_agents registry_disposing)"
    "ai_cancellation (rg_agents registry_disposing ! 0) = Some \<lparr>co_cause = CancelDisposed, co_keep_inbox = False\<rparr>" by code_simp+
  from first_cancellation_wins [OF registry_disposing_two c] c(2) show ?thesis by blast
qed

text \<open>Setting up an agent over a session whose log replays cannot fail at the inbox: unless the setup is
  cancelled or the driver refuses, it ends with the pending next-turn messages of the log queued in
  order, nothing queued for the next step, nothing reserved and no wake recorded. So if the log is the one
  a previous process recorded for its inbox, the new agent has that process's next-turn queue.\<close>

theorem setup_restores_next_turn_queue:
  assumes "replay_inbox cdc (session_events s) = Inr i" "\<forall>inbox. is_ok (factory s inbox)"
    "\<not> sv_first view" "\<not> sv_after view" "\<not> sv_second view" "\<not> sv_last view"
  shows "\<exists>inbox. run_setup cdc view opt factory (Inr s)
      = SetupDone \<lparr>sr_session = session_id s, sr_options = opt, sr_inbox = inbox, sr_mode = hd_agent_mode (ss_header s)\<rparr>
    \<and> replay_of inbox = i\<lparr>steps := []\<rparr> \<and> inbox_ok inbox \<and> ib_reservations inbox = {} \<and> ib_wakes inbox = 0"
proof -
  obtain st where st: "enqueue_all (followups i) inbox_new = Inr st" "ib_followups st = followups i"
    "ib_steers st = []" "ib_injections st = []" "ib_reservations st = {}" "ib_wakes st = 0" "inbox_ok st"
    by (rule restored_inbox [OF assms(1)])
  have "step_messages st = []" using step_messages_set [OF st(7)] st(3,4) by simp
  then have "replay_of st = i\<lparr>steps := []\<rparr>" using st(2) by (simp add: replay_of_def)
  moreover have "is_ok (factory s st)" using assms(2) by blast
  ultimately show ?thesis
    using assms st(1,5,6,7) by (auto simp: run_setup_def pending_next_turn_inbox_def is_ok_ex split: sum.splits)
qed

definition calm :: setup_view where
  "calm = \<lparr>sv_first = False, sv_after = False, sv_second = False, sv_last = False\<rparr>"

definition resumed_session :: session where
  "resumed_session = projr (from_committed wire_codec (sample_header\<lparr>hd_seed_length := None\<rparr>) (fst three_notes))"

theorem setup_restores_next_turn_queue_witness:
  "\<exists>inbox. run_setup wire_codec calm sample_options (\<lambda>_ _. Inr ()) (Inr resumed_session)
      = SetupDone \<lparr>sr_session = ''s1'', sr_options = sample_options, sr_inbox = inbox, sr_mode = None\<rparr>
    \<and> followups (replay_of inbox) = [note_to ''a'', note_to ''b'', note_to ''c'']"
proof -
  have r: "replay_inbox wire_codec (session_events resumed_session)
      = Inr \<lparr>followups = [note_to ''a'', note_to ''b'', note_to ''c''], steps = []\<rparr>" by code_simp
  have "session_id resumed_session = ''s1''" "hd_agent_mode (ss_header resumed_session) = None" by code_simp+
  with setup_restores_next_turn_queue [OF r, of "\<lambda>_ _. Inr ()" calm sample_options] show ?thesis
    by (auto simp: calm_def)
qed

text \<open>The next-step messages of the log are left behind on purpose, but they stay pending in the replay, so
  positions in the new agent's queue are not positions in the durable one.\<close>

definition leftover_log :: "session_event list" where
  "leftover_log = [inbox_enqueued_event wire_codec 0 0 TSteer (note_to ''old''),
     inbox_enqueued_event wire_codec 0 1 TSteer (note_to ''new'')]"

definition new_process_inbox :: inbox_state where
  "new_process_inbox = snd (run_mutations wire_codec 0 1 [MSend (note_to ''new'') TSteer True] inbox_new)"

text \<open>With a next-step message left behind by an earlier process, the next steer of the new process cannot
  be edited and is not the one removed: the recorded edit of the first queued steer is rejected by the
  replay, and the recorded removal takes the left-behind message and keeps the steer.\<close>

theorem leftover_step_misplaces_splices:
  "(case mutate wire_codec 0 2 (MUpdate ''new'' (EditContent [Text ''hm'']) True) new_process_inbox of
      None \<Rightarrow> False
    | Some (e, _) \<Rightarrow> \<not> is_ok (replay_inbox wire_codec (leftover_log @ [e])))
   \<and> (case mutate wire_codec 0 2 (MUpdate ''new'' RemoveItem True) new_process_inbox of
      None \<Rightarrow> False
    | Some (e, st) \<Rightarrow>
        replay_inbox wire_codec (leftover_log @ [e]) = Inr \<lparr>followups = [], steps = [note_to ''new'']\<rparr>
        \<and> replay_of st = empty_inbox)"
  by code_simp

end
