(* ===== verification/Schedule_Properties.thy ===== *)
theory Schedule_Properties
  imports Schedule_Tools Agent_Properties
begin

text \<open>
  What the reminders of a session promise: the tools change the stored reminders exactly as they report,
  and the drive delivers every due reminder before it records the dispatch and comes to an end.
\<close>

section \<open>A session with reminders\<close>

definition reminder_header :: session_header where
  "reminder_header = sample_header\<lparr>hd_seed_length := None\<rparr>"

definition reminder_env :: schedule_env where
  "reminder_env = \<lparr>en_clock = (\<lambda>_. 1000), en_host_clock = (\<lambda>_. 1000), en_render = (\<lambda>_. ''{}''), en_fresh = ''m1'', en_wake = Inr ()\<rparr>"

definition no_oracle :: "unit time_oracle" where
  "no_oracle = \<lparr>or_offset = (\<lambda>_. None), or_date = (\<lambda>_. None), or_time = (\<lambda>_. None), or_zone = (\<lambda>_. None),
     or_datetime = (\<lambda>_. False), or_reading = (\<lambda>_ _. Gap)\<rparr>"

definition reminder_owners :: schedule_owners where
  "reminder_owners = [(''s1'', owner_new (projr (from_committed wire_codec reminder_header [])))]"

definition reminder_memory :: memory where
  "reminder_memory = [(''s1'', \<lparr>ms_header = reminder_header, ms_events = [], ms_flush_count = 0\<rparr>)]"

definition reminder_args :: json where
  "reminder_args = obj [(''prompt'', JStr '' tea ''), (''after_seconds'', jnat 60)]"

definition reminder_run :: "memory tool_run option" where
  "reminder_run = create_run no_oracle wire_codec (memory_persistence wire_codec) reminder_env True (1000, 1000) ''s1'' reminder_args
     reminder_owners (None, reminder_memory)"

section \<open>Properties\<close>

text \<open>C40: the drive of a session's reminders. With a readable log and a clock in the printable range a drive
  never panics. One that is superseded, stopped, without its agent or with a busy agent changes nothing. What a
  drive adds to the log begins with the delivered message, so a dispatch is never recorded without its
  delivery. A drive that asks for another has strictly fewer due reminders left, so the drives at one
  instant come to an end; and a timer is armed, for at most a day, only when nothing is due.\<close>

theorem drive_delivers_and_progresses:
  assumes f: "schedules_of s = Inr f" and now: "MIN_INSTANT_MS \<le> dv_now view" "dv_now view \<le> MAX_INSTANT_MS"
  shows "\<exists>fu s' agent' w'. drive cdc ops env view (s, agent) w = Some (fu, (s', agent'), w')
    \<and> drive_good f view s fu s' \<and> (\<not> drive_allowed view \<longrightarrow> s' = s \<and> agent' = agent)"
proof (cases "drive_allowed view")
  case False
  obtain c1 c2 c3 where c: "dv_current view = (c1, c2, c3)" by (metis prod.exhaust)
  obtain k w1 where fl: "try_flush ops s w = (k, w1)" by (rule prod.exhaust)
  have "\<exists>fu w'. drive cdc ops env view (s, agent) w = Some (fu, (s, agent), w') \<and> (fu = NoFollowup \<or> fu = WaitForIdle)"
    using False c fl by (auto simp: drive_allowed_def drive_def)
  then show ?thesis by (elim exE conjE disjE) (auto intro: drive_good_same)
next
  case True
  then have c: "dv_current view = (True, True, True)" "dv_found view" "dv_status view = AgentIdle"
    by (auto simp: drive_allowed_def split: prod.splits)
  obtain k w1 where fl: "try_flush ops s w = (k, w1)" by (rule prod.exhaust)
  show ?thesis
  proof (cases k)
    case False
    then have "drive cdc ops env view (s, agent) w = Some (NoFollowup, (s, agent), w1)" using c fl by (simp add: drive_def)
    with True show ?thesis by (auto intro: drive_good_same)
  next
    case k: True
    have run: "drive cdc ops env view (s, agent) w = (case decide f (dv_now view) of
         Wait target \<Rightarrow> Some (case target of None \<Rightarrow> NoFollowup | Some t \<Rightarrow> arm t (dv_now view), (s, agent), w1)
       | OneShot r \<Rightarrow> Some (case dispatch cdc ops env r (s, agent) w1 of (ok, sa', w'') \<Rightarrow> (if ok then DriveAgain else NoFollowup, sa', w''))
       | EveryDue rs \<Rightarrow> map_option (\<lambda>(ok, sa', w''). (if ok then DriveAgain else NoFollowup, sa', w''))
                         (dispatch_batch cdc ops env (dv_now view) rs (s, agent) w1))"
      using c fl k f by (simp add: drive_def)
    show ?thesis
    proof (cases "decide f (dv_now view)")
      case (Wait target)
      have "drive_good f view s (case target of None \<Rightarrow> NoFollowup | Some t \<Rightarrow> arm t (dv_now view)) s"
        using decide_cases(3) [OF Wait]
        by (intro drive_good_same) (auto simp: arm_def due_count_none split: option.splits)
      with run Wait True show ?thesis by auto
    next
      case (OneShot r)
      obtain ok s' a' w' where d: "dispatch cdc ops env r (s, agent) w1 = (ok, (s', a'), w')" by (metis prod.exhaust)
      from drive_one_shot [OF f OneShot d] run OneShot d True show ?thesis by auto
    next
      case (EveryDue rs)
      have "\<forall>r\<in>set rs. record_ok r \<and> sr_kind r = Every \<and> sr_scheduled_ms r \<le> dv_now view"
        using decide_cases(2) [OF EveryDue] active_ok [OF f] by auto
      moreover have "format_instant (dv_now view) \<noteq> None" using now by (simp add: format_instant_fields)
      ultimately obtain res where "dispatch_batch cdc ops env (dv_now view) rs (s, agent) w1 = Some res"
        using dispatch_batch_returns by blast
      moreover obtain ok s' a' w' where "res = (ok, (s', a'), w')" by (metis prod.exhaust)
      ultimately have d: "dispatch_batch cdc ops env (dv_now view) rs (s, agent) w1 = Some (ok, (s', a'), w')" by simp
      from drive_batch [OF f EveryDue now(2) d] run EveryDue d True show ?thesis by auto
    qed
  qed
qed

text \<open>The owner after the reminder was created, and a drive at the instant it is due.\<close>

definition reminded :: schedule_owner where
  "reminded = (case reminder_run of Some (_, owners, _) \<Rightarrow> the (schedule_owner_of owners ''s1'') | None \<Rightarrow> snd (hd reminder_owners))"

definition due_view :: drive_view where
  "due_view = \<lparr>dv_current = (True, True, True), dv_found = True, dv_status = AgentIdle, dv_now = 61000\<rparr>"

definition due_drive :: "(drive_followup \<times> (session \<times> agent_inner) \<times> cancel \<times> memory) option" where
  "due_drive = (case reminder_run of
       Some (_, _, w) \<Rightarrow> drive wire_codec (memory_persistence wire_codec) reminder_env due_view
                          (so_session reminded, agent_of sample_ready 0 1) w
     | None \<Rightarrow> None)"

theorem drive_delivers_and_progresses_witness:
  "\<exists>s' agent' w' f'. due_drive = Some (DriveAgain, (s', agent'), w') \<and> schedules_of s' = Inr f'
    \<and> due_count f' 61000 < due_count (projr (schedules_of (so_session reminded))) 61000"
proof -
  let ?f = "projr (schedules_of (so_session reminded))"
  have "is_ok (schedules_of (so_session reminded)) \<and> reminder_run \<noteq> None \<and> map_option fst due_drive = Some DriveAgain" by code_simp
  then have f: "schedules_of (so_session reminded) = Inr ?f" and r: "reminder_run \<noteq> None" and a: "map_option fst due_drive = Some DriveAgain"
    by (auto simp: is_ok_ex)
  then obtain x os w where run: "reminder_run = Some (x, os, w)" by (cases reminder_run) auto
  have now: "MIN_INSTANT_MS \<le> dv_now due_view" "dv_now due_view \<le> MAX_INSTANT_MS"
    by (simp_all add: due_view_def MIN_INSTANT_MS_def MAX_INSTANT_MS_def)
  from drive_delivers_and_progresses [OF f now, of wire_codec "memory_persistence wire_codec" reminder_env "agent_of sample_ready 0 1" w]
  obtain fu s' agent' w' where d: "due_drive = Some (fu, (s', agent'), w')" and g: "drive_good ?f due_view (so_session reminded) fu s'"
    by (auto simp: due_drive_def run)
  have "fu = DriveAgain" using a unfolding d by simp
  with g obtain f' where "schedules_of s' = Inr f'" "due_count f' 61000 < due_count ?f 61000"
    by (auto simp: drive_good_def due_view_def)
  with d \<open>fu = DriveAgain\<close> show ?thesis by blast
qed

text \<open>The tools report what they did. For a session with a readable log, \<open>schedule_create\<close> without an
  \<open>at\<close> selector always returns; an answer that shows a reminder means the log now folds to the old
  reminders and that one, valid, in the future and with an id never used before, and otherwise the log is
  unchanged or the answer says that persistence is uncertain. \<open>schedule_delete\<close> reports a deletion only
  when exactly the named reminder has left the log, and changes nothing when it refuses.\<close>

theorem schedule_tools_report_the_log:
  assumes own: "schedule_owner_of owners x = Some ow" and f: "schedules_of (so_session ow) = Inr f"
    and n: "2 * length (fo_seen f) < u64_max"
  shows "(json_get ''at'' args = None \<longrightarrow> create_run oc cdc ops env alive clocks x args owners w \<noteq> None)
    \<and> (create_run oc cdc ops env alive clocks x args owners w = Some (answer, owners', w') \<longrightarrow>
        (\<exists>ow'. schedule_owner_of owners' x = Some ow'
          \<and> (so_session ow' = so_session ow
             \<or> (\<exists>r. created f r (so_session ow') \<and> fst clocks < sr_scheduled_ms r))
          \<and> (\<forall>v. answer = Inr (schedule_output env v) \<longrightarrow> \<not> refusal v \<longrightarrow>
               (\<exists>r. v = record_view r (snd clocks) \<and> created f r (so_session ow')))))
    \<and> (delete_run cdc ops env alive x args owners w = (answer, owners', w') \<longrightarrow>
        (\<exists>ow'. schedule_owner_of owners' x = Some ow'
          \<and> (let ident = (case get_str ''id'' args of None \<Rightarrow> [] | Some s \<Rightarrow> s);
                 gone = (ident \<in> sr_id ` set (fo_active f)
                   \<and> schedules_of (so_session ow') = Inr (f\<lparr>fo_active := filter (\<lambda>r. sr_id r \<noteq> ident) (fo_active f)\<rparr>))
             in (so_session ow' = so_session ow \<or> gone)
                \<and> (answer = Inr (schedule_output env (obj [(''id'', JStr ident), (''deleted'', JBool True)])) \<longrightarrow> gone))))"
proof (intro conjI impI)
  show "create_run oc cdc ops env alive clocks x args owners w \<noteq> None" if "json_get ''at'' args = None"
    by (rule create_run_returns [OF own f n that])
next
  assume run: "create_run oc cdc ops env alive clocks x args owners w = Some (answer, owners', w')"
  show "\<exists>ow'. schedule_owner_of owners' x = Some ow'
          \<and> (so_session ow' = so_session ow
             \<or> (\<exists>r. created f r (so_session ow') \<and> fst clocks < sr_scheduled_ms r))
          \<and> (\<forall>v. answer = Inr (schedule_output env v) \<longrightarrow> \<not> refusal v \<longrightarrow>
               (\<exists>r. v = record_view r (snd clocks) \<and> created f r (so_session ow')))"
    using own view_no_refusal
    by (cases rule: create_run_cases [OF own f n run]) (auto simp: schedule_owner_of_def)
next
  assume run: "delete_run cdc ops env alive x args owners w = (answer, owners', w')"
  show "\<exists>ow'. schedule_owner_of owners' x = Some ow'
          \<and> (let ident = (case get_str ''id'' args of None \<Rightarrow> [] | Some s \<Rightarrow> s);
                 gone = (ident \<in> sr_id ` set (fo_active f)
                   \<and> schedules_of (so_session ow') = Inr (f\<lparr>fo_active := filter (\<lambda>r. sr_id r \<noteq> ident) (fo_active f)\<rparr>))
             in (so_session ow' = so_session ow \<or> gone)
                \<and> (answer = Inr (schedule_output env (obj [(''id'', JStr ident), (''deleted'', JBool True)])) \<longrightarrow> gone))"
    using own by (cases rule: delete_run_cases [OF own f run refl]) (auto simp: schedule_owner_of_def Let_def)
qed

theorem schedule_tools_report_the_log_witness:
  "\<exists>answer owners' w' ow' r. reminder_run = Some (answer, owners', w') \<and> schedule_owner_of owners' ''s1'' = Some ow'
    \<and> answer = Inr (schedule_output reminder_env (record_view r 1000)) \<and> created \<lparr>fo_active = [], fo_seen = []\<rparr> r (so_session ow')"
proof -
  have own: "schedule_owner_of reminder_owners ''s1'' = Some (snd (hd reminder_owners))" by code_simp
  have f: "schedules_of (so_session (snd (hd reminder_owners))) = Inr \<lparr>fo_active = [], fo_seen = []\<rparr>" by code_simp
  have n: "2 * length (fo_seen \<lparr>fo_active = [], fo_seen = []\<rparr>) < u64_max" by (simp add: u64_max_def)
  have ok: "(case reminder_run of Some (Inr out, _) \<Rightarrow> out = schedule_output reminder_env (to_meta out) \<and> \<not> refusal (to_meta out) | _ \<Rightarrow> False)"
    by code_simp
  then obtain out owners' w' where run: "reminder_run = Some (Inr out, owners', w')"
    by (auto split: option.splits sum.splits)
  have o: "out = schedule_output reminder_env (to_meta out)" "\<not> refusal (to_meta out)" using ok unfolding run by simp_all
  from schedule_tools_report_the_log [OF own f n, of reminder_args no_oracle wire_codec "memory_persistence wire_codec" reminder_env
      True "(1000, 1000)" "(None, reminder_memory)" "Inr out" owners' w'] run
  obtain ow' where "schedule_owner_of owners' ''s1'' = Some ow'"
    "\<forall>v. Inr out = (Inr (schedule_output reminder_env v) :: tessivum_error + tool_output) \<longrightarrow> \<not> refusal v \<longrightarrow>
       (\<exists>r. v = record_view r 1000 \<and> created \<lparr>fo_active = [], fo_seen = []\<rparr> r (so_session ow'))"
    by (auto simp: reminder_run_def)
  with o run show ?thesis by (metis (no_types, lifting))
qed

section \<open>Defects\<close>

text \<open>A single \<open>after_seconds\<close> that is not a safe integer is answered with the selector error; the message
  that exists for it is reached only when another selector is given too.\<close>

lemma fractional_seconds_blame_the_selector:
  assumes "json_get ''after_seconds'' args = Some v" "safe_integer v = None"
    "json_get ''every_seconds'' args = None" "json_get ''at'' args = None"
  shows "create_arguments args = Inl (schedule_error ''invalid_selector''
    ''schedule_create accepts exactly one of after_seconds, at, or every_seconds.'')"
  using assms by (simp add: create_arguments_def some_count_def)

text \<open>The class of digits in the expressions is not restricted to ASCII; a fraction with another decimal
  digit matches and then fails to parse, which panics the handler.\<close>

lemma foreign_fraction_panics:
  assumes "or_offset oc value = Some groups" "group_at groups 7 = Some fraction" "parse_i64 (fraction @ replicate (3 - char_count fraction) (CHR ''0'')) = None"
  shows "parse_offset_instant oc value = None"
  using assms by (simp add: parse_offset_instant_def fraction_millis_def)

end
