(* ===== verification/Goals.thy ===== *)
theory Goals
  imports Durable_Fold Wire_Codec
begin

text \<open>
  The durable goal ledger (\<open>src/src/goal.rs\<close>): revisioned goal snapshots, the \<open>goal/change\<close> payload with its
  shape checks, and the fold that rebuilds the goals, their counters and block reasons, and the armed
  activation from the log. The serde codec of the payload is the record \<open>goal_codec\<close>; \<open>goal_payloads\<close> is what
  the ledger relies on, interpreted by the wire format.
\<close>

section \<open>Data\<close>

record goal_ref =
  gr_id :: string
  gr_revision :: u64

datatype goal_phase = GoalActive | GoalPaused | GoalBlocked | GoalComplete

definition phase_permits :: "goal_phase \<Rightarrow> goal_phase \<Rightarrow> bool" where
  "phase_permits p next_phase \<longleftrightarrow> p \<noteq> GoalComplete \<or> next_phase = GoalComplete"

record goal_block_reason =
  br_code :: string
  br_message :: string

record goal_snapshot =
  gs_reference :: goal_ref
  gs_phase :: goal_phase
  gs_title :: string
  gs_max_rounds :: u64
  gs_tombstone :: bool

record goal_snapshot_wire =
  gw_id :: string
  gw_revision :: u64
  gw_objective :: string
  gw_phase :: goal_phase
  gw_blocked_reason :: "goal_block_reason option"
  gw_max_rounds :: u64

datatype goal_operation = OpCreate | OpEdit | OpPause | OpResume | OpComplete | OpBlock | OpClear

record goal_change =
  gc_kind :: string
  gc_version :: nat
  gc_operation :: goal_operation
  gc_goal :: "goal_snapshot_wire option"
  gc_rounds_started :: "u64 option"
  gc_created_at :: "u64 option"
  gc_updated_at :: "u64 option"
  gc_cleared :: "goal_ref option"
  gc_cleared_at :: "u64 option"

datatype goal_error =
    GoalInvalid string | GoalAlreadyExists | GoalNotFound string | GoalStale | GoalTombstoned
  | GoalInvalidTransition | GoalInactive | GoalInvalidRound | GoalRoundCap | GoalNotLive
  | GoalCancelled | GoalSession session_error

fun goal_error_code :: "goal_error \<Rightarrow> string" where
  "goal_error_code (GoalInvalid _) = ''INVALID_GOAL''"
| "goal_error_code GoalAlreadyExists = ''GOAL_ALREADY_EXISTS''"
| "goal_error_code (GoalNotFound _) = ''GOAL_NOT_FOUND''"
| "goal_error_code GoalStale = ''GOAL_STALE_REVISION''"
| "goal_error_code GoalTombstoned = ''GOAL_NOT_FOUND''"
| "goal_error_code GoalInvalidTransition = ''GOAL_INVALID_TRANSITION''"
| "goal_error_code GoalInactive = ''INACTIVE_GOAL''"
| "goal_error_code GoalInvalidRound = ''INVALID_GOAL_ROUND''"
| "goal_error_code GoalRoundCap = ''GOAL_ROUND_CAP''"
| "goal_error_code GoalNotLive = ''GOAL_AGENT_NOT_LIVE''"
| "goal_error_code GoalCancelled = ''CANCELLED''"
| "goal_error_code (GoalSession _) = ''GOAL_EVENT_APPEND_FAILED''"

record goal_times =
  gt_created_at :: u64
  gt_updated_at :: u64
  gt_rounds_started :: u64

record activation =
  ac_id :: u64
  ac_reference :: goal_ref
  ac_max_rounds :: u64
  ac_rounds :: u64
  ac_first_seq :: u64
  ac_last_user_seq :: "u64 option"
  ac_queued_round :: "u64 option"

record goal_state =
  gl_goals :: "(string \<times> goal_snapshot) list"
  gl_times :: "(string \<times> goal_times) list"
  gl_reasons :: "(string \<times> goal_block_reason) list"
  gl_activation :: "activation option"
  gl_next_activation :: u64
  gl_observed :: nat
  gl_current :: "string option"

definition goal_state_default :: goal_state where
  "goal_state_default =
     \<lparr>gl_goals = [], gl_times = [], gl_reasons = [], gl_activation = None, gl_next_activation = 0,
      gl_observed = 0, gl_current = None\<rparr>"

record goal_codec =
  gd_change_from :: "json \<Rightarrow> goal_change option"
  gd_change_to :: "goal_change \<Rightarrow> json"

section \<open>Checks\<close>

definition goal_ref_validate :: "goal_ref \<Rightarrow> goal_error + unit" where
  "goal_ref_validate r =
     (if blank (gr_id r) \<or> length (gr_id r) > 256
      then Inl (GoalInvalid ''goal id must be 1 through 256 non-whitespace bytes'')
      else if gr_revision r = 0 then Inl (GoalInvalid ''goal revision must be positive'')
      else Inr ())"

fun split_dash :: "string \<Rightarrow> string list" where
  "split_dash [] = [[]]"
| "split_dash (c # cs) =
     (if c = CHR ''-'' then [] # split_dash cs
      else case split_dash cs of [] \<Rightarrow> [[c]] | part # parts \<Rightarrow> (c # part) # parts)"

definition is_lower_or_digit :: "char \<Rightarrow> bool" where
  "is_lower_or_digit c \<longleftrightarrow>
     (let n = of_char c :: nat in (97 \<le> n \<and> n \<le> 122) \<or> (48 \<le> n \<and> n \<le> 57))"

definition block_reason_validate :: "goal_block_reason \<Rightarrow> goal_error + unit" where
  "block_reason_validate r =
     ensure (br_code r \<noteq> [] \<and> list_all (\<lambda>part. part \<noteq> [] \<and> list_all is_lower_or_digit part) (split_dash (br_code r))
             \<and> \<not> blank (br_message r))
       (GoalInvalid ''goal block reason requires a lower-kebab-case code and non-empty message'')"

definition block_reason_normalized :: "goal_block_reason \<Rightarrow> goal_error + goal_block_reason" where
  "block_reason_normalized r =
     (let r' = r\<lparr>br_message := trim (br_message r)\<rparr>
      in and_then (block_reason_validate r') (\<lambda>_. Inr r'))"

definition goal_snapshot_validate :: "goal_snapshot \<Rightarrow> goal_error + unit" where
  "goal_snapshot_validate g =
     and_then (goal_ref_validate (gs_reference g)) (\<lambda>_.
     if blank (gs_title g) then Inl (GoalInvalid ''goal title must be non-whitespace'')
     else if \<not> (1 \<le> gs_max_rounds g \<and> gs_max_rounds g \<le> MAX_SAFE_INTEGER)
     then Inl (GoalInvalid ''goal round cap must be a positive safe integer'')
     else Inr ())"

definition wire_from_snapshot :: "goal_snapshot \<Rightarrow> goal_block_reason option \<Rightarrow> goal_snapshot_wire" where
  "wire_from_snapshot g reason =
     \<lparr>gw_id = gr_id (gs_reference g), gw_revision = gr_revision (gs_reference g), gw_objective = gs_title g,
      gw_phase = gs_phase g, gw_blocked_reason = reason, gw_max_rounds = gs_max_rounds g\<rparr>"

definition check_blocked_reason :: "goal_phase \<Rightarrow> goal_block_reason option \<Rightarrow> goal_error + unit" where
  "check_blocked_reason phase reason =
     (case (phase, reason) of
        (GoalBlocked, Some r) \<Rightarrow> block_reason_validate r
      | (GoalBlocked, None) \<Rightarrow> Inl (GoalInvalid ''blocked goal lacks blockedReason'')
      | (_, Some _) \<Rightarrow> Inl (GoalInvalid ''non-blocked goal has blockedReason'')
      | (_, None) \<Rightarrow> Inr ())"

definition wire_snapshot :: "goal_snapshot_wire \<Rightarrow> goal_error + (goal_snapshot \<times> goal_block_reason option)" where
  "wire_snapshot w =
     and_then (check_blocked_reason (gw_phase w) (gw_blocked_reason w)) (\<lambda>_.
     let g = \<lparr>gs_reference = \<lparr>gr_id = gw_id w, gr_revision = gw_revision w\<rparr>, gs_phase = gw_phase w,
              gs_title = gw_objective w, gs_max_rounds = gw_max_rounds w, gs_tombstone = False\<rparr>
     in and_then (goal_snapshot_validate g) (\<lambda>_. Inr (g, gw_blocked_reason w)))"

definition change_snapshot :: "goal_operation \<Rightarrow> goal_snapshot \<Rightarrow> goal_times \<Rightarrow> goal_block_reason option \<Rightarrow> goal_change" where
  "change_snapshot op g t reason =
     \<lparr>gc_kind = ''goal/change'', gc_version = 1, gc_operation = op, gc_goal = Some (wire_from_snapshot g reason),
      gc_rounds_started = Some (gt_rounds_started t), gc_created_at = Some (gt_created_at t),
      gc_updated_at = Some (gt_updated_at t), gc_cleared = None, gc_cleared_at = None\<rparr>"

definition change_clear :: "goal_ref \<Rightarrow> u64 \<Rightarrow> goal_change" where
  "change_clear cleared cleared_at =
     \<lparr>gc_kind = ''goal/change'', gc_version = 1, gc_operation = OpClear, gc_goal = None,
      gc_rounds_started = None, gc_created_at = None, gc_updated_at = None,
      gc_cleared = Some cleared, gc_cleared_at = Some cleared_at\<rparr>"

definition validate_shape :: "goal_change \<Rightarrow> goal_error + unit" where
  "validate_shape ch =
     (if gc_kind ch \<noteq> ''goal/change'' \<or> gc_version ch \<noteq> 1
      then Inl (GoalInvalid ''durable goal/change payload is invalid'')
      else if gc_operation ch = OpClear then
        (case gc_cleared ch of
           None \<Rightarrow> Inl (GoalInvalid ''durable goal clear lacks ref'')
         | Some cleared \<Rightarrow>
             if gc_goal ch \<noteq> None \<or> gc_rounds_started ch \<noteq> None \<or> gc_created_at ch \<noteq> None
                \<or> gc_updated_at ch \<noteq> None \<or> gc_cleared_at ch = None
                \<or> (case gc_cleared_at ch of None \<Rightarrow> False | Some t \<Rightarrow> t > MAX_SAFE_INTEGER)
             then Inl (GoalInvalid ''durable goal clear payload is invalid'')
             else goal_ref_validate cleared)
      else
        (case (gc_rounds_started ch, gc_created_at ch, gc_updated_at ch) of
           (Some started, Some created, Some updated) \<Rightarrow>
             if gc_goal ch = None \<or> gc_cleared ch \<noteq> None \<or> gc_cleared_at ch \<noteq> None
                \<or> started > MAX_SAFE_INTEGER \<or> created > MAX_SAFE_INTEGER \<or> updated > MAX_SAFE_INTEGER
                \<or> updated < created
             then Inl (GoalInvalid ''durable goal change payload is invalid'')
             else
               (case gc_goal ch of
                  None \<Rightarrow> Inr ()
                | Some g \<Rightarrow> check_blocked_reason (gw_phase g) (gw_blocked_reason g))
         | _ \<Rightarrow> Inl (GoalInvalid ''durable goal change lacks counters or timestamps'')))"

definition next_ref :: "goal_ref \<Rightarrow> goal_error + goal_ref" where
  "next_ref r =
     and_then (ok_or (GoalInvalid ''goal revision overflow'') (checked_add_u64 (gr_revision r) 1)) (\<lambda>n.
     Inr (r\<lparr>gr_revision := n\<rparr>))"

definition operation_permits :: "goal_operation \<Rightarrow> goal_snapshot \<Rightarrow> goal_snapshot \<Rightarrow> bool" where
  "operation_permits op current next_goal =
     (let same = (gs_title current = gs_title next_goal \<and> gs_max_rounds current = gs_max_rounds next_goal);
          kept = \<not> gs_tombstone next_goal; now = gs_phase current; then_phase = gs_phase next_goal
      in case op of
           OpCreate \<Rightarrow> False
         | OpEdit \<Rightarrow> kept \<and> then_phase = now
         | OpPause \<Rightarrow> kept \<and> same \<and> now = GoalActive \<and> then_phase = GoalPaused
         | OpResume \<Rightarrow> kept \<and> same \<and> now \<in> {GoalActive, GoalPaused, GoalBlocked} \<and> then_phase = GoalActive
         | OpComplete \<Rightarrow> kept \<and> same \<and> now \<noteq> GoalComplete \<and> then_phase = GoalComplete
         | OpBlock \<Rightarrow> kept \<and> same \<and> now = GoalActive \<and> then_phase = GoalBlocked
         | OpClear \<Rightarrow> gs_tombstone next_goal \<and> same \<and> then_phase = now)"

definition validate_goal_operation ::
  "(string \<times> goal_snapshot) list \<Rightarrow> goal_operation \<Rightarrow> goal_snapshot \<Rightarrow> goal_error + unit" where
  "validate_goal_operation goals op next_goal =
     (if op = OpCreate then
        ensure (\<not> gs_tombstone next_goal \<and> gr_revision (gs_reference next_goal) = 1 \<and> gs_phase next_goal = GoalActive)
          GoalInvalidTransition
      else
        and_then (ok_or (GoalNotFound (gr_id (gs_reference next_goal))) (map_of goals (gr_id (gs_reference next_goal)))) (\<lambda>current.
        if gs_tombstone current then Inl GoalTombstoned
        else
          and_then (next_ref (gs_reference current)) (\<lambda>r.
          if gs_reference next_goal \<noteq> r then Inl GoalStale
          else ensure (operation_permits op current next_goal) GoalInvalidTransition)))"

definition validate_goal_times ::
  "(string \<times> goal_times) list \<Rightarrow> goal_operation \<Rightarrow> goal_snapshot \<Rightarrow> goal_times \<Rightarrow> goal_error + unit" where
  "validate_goal_times counters op g t =
     (if op = OpCreate then ensure (gt_rounds_started t = 0) (GoalInvalid ''goal create roundsStarted must be zero'')
      else
        and_then (ok_or (GoalInvalid ''durable goal change lacks prior timestamps'')
                    (map_of counters (gr_id (gs_reference g)))) (\<lambda>current.
        ensure (gt_created_at t = gt_created_at current \<and> gt_updated_at t \<ge> gt_updated_at current
                \<and> gt_rounds_started t = gt_rounds_started current)
          (GoalInvalid ''goal change does not preserve counters or timestamps'')))"

definition saturating_inc :: "u64 \<Rightarrow> u64" where
  "saturating_inc n = min u64_max (n + 1)"

definition apply_snapshot ::
  "(string \<times> goal_snapshot) list \<Rightarrow> goal_ref option \<Rightarrow> goal_snapshot \<Rightarrow> bool
     \<Rightarrow> goal_error + (string \<times> goal_snapshot) list" where
  "apply_snapshot goals expected g replay =
     and_then (goal_snapshot_validate g) (\<lambda>_.
     let ident = gr_id (gs_reference g)
     in and_then
          (case map_of goals ident of
             None \<Rightarrow> ensure (expected = None \<and> gr_revision (gs_reference g) = 1 \<and> \<not> gs_tombstone g) GoalStale
           | Some current \<Rightarrow>
               if gs_tombstone current then Inl GoalTombstoned
               else
                 (case (case expected of Some r \<Rightarrow> Some r | None \<Rightarrow> if replay then Some (gs_reference current) else None) of
                    None \<Rightarrow> Inl GoalStale
                  | Some r \<Rightarrow>
                      if r \<noteq> gs_reference current
                         \<or> gr_revision (gs_reference g) \<noteq> saturating_inc (gr_revision (gs_reference current))
                      then Inl GoalStale
                      else ensure (phase_permits (gs_phase current) (gs_phase g)) GoalInvalidTransition)) (\<lambda>_.
        Inr (bt_insert ident g goals)))"

section \<open>The fold\<close>

definition cleared_snapshot :: "goal_ref \<Rightarrow> goal_snapshot \<Rightarrow> goal_snapshot" where
  "cleared_snapshot r current = current\<lparr>gs_reference := r, gs_tombstone := True\<rparr>"

definition apply_clear :: "goal_state \<Rightarrow> goal_change \<Rightarrow> goal_error + goal_state" where
  "apply_clear st ch =
     and_then (ok_or (GoalInvalid ''durable goal clear lacks ref'') (gc_cleared ch)) (\<lambda>r.
     and_then (ok_or (GoalNotFound (gr_id r)) (map_of (gl_goals st) (gr_id r))) (\<lambda>current.
     let g = cleared_snapshot r current
     in and_then (validate_goal_operation (gl_goals st) OpClear g) (\<lambda>_.
        and_then (apply_snapshot (gl_goals st) None g True) (\<lambda>goals.
        Inr (st\<lparr>gl_goals := goals, gl_times := bt_remove (gr_id r) (gl_times st),
                gl_reasons := bt_remove (gr_id r) (gl_reasons st), gl_current := None, gl_activation := None\<rparr>)))))"

definition change_times :: "goal_change \<Rightarrow> goal_error + goal_times" where
  "change_times ch =
     and_then (ok_or (GoalInvalid ''goal change lacks createdAt'') (gc_created_at ch)) (\<lambda>created.
     and_then (ok_or (GoalInvalid ''goal change lacks updatedAt'') (gc_updated_at ch)) (\<lambda>updated.
     and_then (ok_or (GoalInvalid ''goal change lacks roundsStarted'') (gc_rounds_started ch)) (\<lambda>started.
     Inr \<lparr>gt_created_at = created, gt_updated_at = updated, gt_rounds_started = started\<rparr>)))"

definition retarget :: "goal_operation \<Rightarrow> goal_snapshot \<Rightarrow> activation option \<Rightarrow> activation option" where
  "retarget op g active =
     (if gs_phase g \<noteq> GoalActive then None
      else if op = OpEdit then
        map_option (\<lambda>a. if gr_id (ac_reference a) = gr_id (gs_reference g)
                        then a\<lparr>ac_reference := gs_reference g, ac_max_rounds := gs_max_rounds g\<rparr> else a) active
      else active)"

definition set_reason ::
  "string \<Rightarrow> goal_block_reason option \<Rightarrow> (string \<times> goal_block_reason) list \<Rightarrow> (string \<times> goal_block_reason) list" where
  "set_reason ident reason reasons =
     (case reason of Some r \<Rightarrow> bt_insert ident r reasons | None \<Rightarrow> bt_remove ident reasons)"

definition apply_written :: "goal_state \<Rightarrow> goal_change \<Rightarrow> goal_error + goal_state" where
  "apply_written st ch =
     and_then (ok_or (GoalInvalid ''durable goal change lacks goal'') (gc_goal ch)) (\<lambda>wire.
     and_then (wire_snapshot wire) (\<lambda>(g, reason).
     and_then (change_times ch) (\<lambda>t.
     and_then (validate_goal_operation (gl_goals st) (gc_operation ch) g) (\<lambda>_.
     and_then (validate_goal_times (gl_times st) (gc_operation ch) g t) (\<lambda>_.
     and_then (apply_snapshot (gl_goals st) None g True) (\<lambda>goals.
     let ident = gr_id (gs_reference g)
     in Inr (st\<lparr>gl_goals := goals, gl_activation := retarget (gc_operation ch) g (gl_activation st),
                gl_reasons := set_reason ident reason (gl_reasons st),
                gl_times := bt_insert ident t (gl_times st), gl_current := Some ident\<rparr>)))))))"

definition apply_change :: "goal_codec \<Rightarrow> goal_state \<Rightarrow> session_event \<Rightarrow> goal_error + goal_state" where
  "apply_change gk st e =
     (if ev_type e = ''goal/change'' then
        and_then (ok_or (GoalInvalid ''durable goal/change payload is invalid'') (gd_change_from gk (ev_data e))) (\<lambda>ch.
        and_then (validate_shape ch) (\<lambda>_.
        if gc_operation ch = OpClear then apply_clear st ch else apply_written st ch))
      else Inr st)"

definition bump_activation :: "u64 \<Rightarrow> u64" where
  "bump_activation n = (case checked_add_u64 n 1 of Some k \<Rightarrow> k | None \<Rightarrow> 1)"

definition arm_round :: "goal_snapshot \<Rightarrow> u64 \<Rightarrow> u64 \<Rightarrow> goal_state \<Rightarrow> goal_state" where
  "arm_round g n seq st =
     (case gl_activation st of
        Some a \<Rightarrow>
          if gr_id (ac_reference a) = gr_id (gs_reference g)
          then st\<lparr>gl_activation := Some (a\<lparr>ac_reference := gs_reference g, ac_max_rounds := gs_max_rounds g,
                    ac_rounds := n, ac_last_user_seq := Some seq, ac_queued_round := None\<rparr>)\<rparr>
          else (let k = bump_activation (gl_next_activation st)
                in st\<lparr>gl_next_activation := k, gl_activation :=
                    Some \<lparr>ac_id = k, ac_reference = gs_reference g, ac_max_rounds = gs_max_rounds g, ac_rounds = n,
                      ac_first_seq = seq, ac_last_user_seq = Some seq, ac_queued_round = None\<rparr>\<rparr>)
      | None \<Rightarrow>
          (let k = bump_activation (gl_next_activation st)
           in st\<lparr>gl_next_activation := k, gl_activation :=
                Some \<lparr>ac_id = k, ac_reference = gs_reference g, ac_max_rounds = gs_max_rounds g, ac_rounds = n,
                  ac_first_seq = seq, ac_last_user_seq = Some seq, ac_queued_round = None\<rparr>\<rparr>))"

definition admit_round :: "goal_state \<Rightarrow> message \<Rightarrow> u64 \<Rightarrow> goal_error + goal_state" where
  "admit_round st m seq =
     (case msg_source m of
        SrcGoal ident revision n \<Rightarrow>
          if msg_role m \<noteq> User then Inl (GoalInvalid ''goal round must be a user message'')
          else
            and_then (ok_or GoalInactive
                (case map_of (gl_goals st) ident of
                   Some g \<Rightarrow> if \<not> gs_tombstone g \<and> gs_phase g = GoalActive then Some g else None
                 | None \<Rightarrow> None)) (\<lambda>g.
            if gr_revision (gs_reference g) \<noteq> revision then Inl GoalStale
            else
              and_then (ok_or (GoalInvalid ''goal lacks round counter'') (map_of (gl_times st) ident)) (\<lambda>t.
              if n \<noteq> saturating_inc (gt_rounds_started t) \<or> n > gs_max_rounds g then Inl GoalRoundCap
              else
                Inr (arm_round g n seq (st\<lparr>gl_times := bt_insert ident (t\<lparr>gt_rounds_started := n\<rparr>) (gl_times st)\<rparr>))))
      | _ \<Rightarrow> Inr st)"

definition apply_goal_round :: "codec \<Rightarrow> goal_state \<Rightarrow> session_event \<Rightarrow> goal_error + goal_state" where
  "apply_goal_round cdc st e =
     (if ev_type e \<noteq> ''user/message'' then Inr st
      else
        and_then (ok_or (GoalInvalid ''durable goal round message is invalid'') (cd_message_from cdc (ev_data e))) (\<lambda>m.
        admit_round st m (ev_seq e)))"

definition apply_goal_event :: "codec \<Rightarrow> goal_codec \<Rightarrow> goal_state \<Rightarrow> session_event \<Rightarrow> goal_error + goal_state" where
  "apply_goal_event cdc gk st e =
     and_then (apply_change gk st e) (\<lambda>st'. apply_goal_round cdc st' e)"

definition replay_goals :: "codec \<Rightarrow> goal_codec \<Rightarrow> session_event list \<Rightarrow> goal_error + goal_state" where
  "replay_goals cdc gk es = try_fold (apply_goal_event cdc gk) goal_state_default es"

section \<open>The ledger\<close>

text \<open>What the log determines: everything but the armed activation and the cursor, which belong to the
  process.\<close>

definition ledger ::
  "goal_state \<Rightarrow> (string \<times> goal_snapshot) list \<times> (string \<times> goal_times) list \<times> (string \<times> goal_block_reason) list \<times> string option" where
  "ledger st = (gl_goals st, gl_times st, gl_reasons st, gl_current st)"

lemma ledger_eq:
  "ledger st = ledger st' \<longleftrightarrow>
     gl_goals st = gl_goals st' \<and> gl_times st = gl_times st' \<and> gl_reasons st = gl_reasons st' \<and> gl_current st = gl_current st'"
  by (simp add: ledger_def)

lemma ledger_process [simp]:
  "ledger (st\<lparr>gl_activation := a\<rparr>) = ledger st" "ledger (st\<lparr>gl_next_activation := k\<rparr>) = ledger st"
  "ledger (st\<lparr>gl_observed := n\<rparr>) = ledger st"
  by (simp_all add: ledger_def)

lemma ledger_arm_round [simp]: "ledger (arm_round g n seq st) = ledger st"
  by (simp add: arm_round_def Let_def ledger_def split: option.split)

lemma map_sum_and_then:
  "(\<And>x. r = Inr x \<Longrightarrow> map_sum id f (k x) = map_sum id f (k' x)) \<Longrightarrow>
     map_sum id f (and_then r k) = map_sum id f (and_then r k')"
  by (cases r) simp_all

lemma and_then_related:
  assumes "map_sum id f r = map_sum id f r'"
    and "\<And>x y. f x = f y \<Longrightarrow> map_sum id f (k x) = map_sum id f (k y)"
  shows "map_sum id f (and_then r k) = map_sum id f (and_then r' k)"
proof (cases r)
  case (Inl e)
  with assms(1) show ?thesis by (cases r') simp_all
next
  case (Inr x)
  with assms(1) obtain y where "r' = Inr y" "f x = f y" by (cases r') simp_all
  with assms(2) [of x y] Inr show ?thesis by simp
qed

lemma apply_clear_ledger:
  assumes "ledger st = ledger st'"
  shows "map_sum id ledger (apply_clear st ch) = map_sum id ledger (apply_clear st' ch)"
  using assms unfolding apply_clear_def Let_def ledger_eq
  by (auto intro!: map_sum_and_then simp: ledger_def)

lemma apply_written_ledger:
  assumes "ledger st = ledger st'"
  shows "map_sum id ledger (apply_written st ch) = map_sum id ledger (apply_written st' ch)"
  using assms unfolding apply_written_def Let_def ledger_eq
  by (auto intro!: map_sum_and_then simp: ledger_def split: prod.split)

lemma apply_change_ledger:
  assumes "ledger st = ledger st'"
  shows "map_sum id ledger (apply_change gk st e) = map_sum id ledger (apply_change gk st' e)"
proof (cases "gd_change_from gk (ev_data e)")
  case None
  then show ?thesis by (simp add: apply_change_def assms)
next
  case (Some ch)
  with apply_clear_ledger [OF assms, of ch] apply_written_ledger [OF assms, of ch] show ?thesis
    by (cases "validate_shape ch") (simp_all add: apply_change_def assms)
qed

lemma apply_round_ledger:
  assumes "ledger st = ledger st'"
  shows "map_sum id ledger (apply_goal_round cdc st e) = map_sum id ledger (apply_goal_round cdc st' e)"
proof -
  have "map_sum id ledger (admit_round st m n) = map_sum id ledger (admit_round st' m n)" for m n
    using assms unfolding ledger_eq admit_round_def
    by (auto split: message_source.split intro!: map_sum_and_then) (simp_all add: ledger_def)
  then show ?thesis
    by (cases "cd_message_from cdc (ev_data e)") (simp_all add: apply_goal_round_def assms)
qed

lemma apply_event_ledger:
  assumes "ledger st = ledger st'"
  shows "map_sum id ledger (apply_goal_event cdc gk st e) = map_sum id ledger (apply_goal_event cdc gk st' e)"
  unfolding apply_goal_event_def
  by (rule and_then_related [OF apply_change_ledger [OF assms] apply_round_ledger])

lemma fold_ledger:
  "ledger st = ledger st' \<Longrightarrow>
     map_sum id ledger (try_fold (apply_goal_event cdc gk) st es) = map_sum id ledger (try_fold (apply_goal_event cdc gk) st' es)"
proof (induction es arbitrary: st st')
  case (Cons e es)
  show ?case
    unfolding try_fold.simps by (rule and_then_related [OF apply_event_ledger [OF Cons.prems] Cons.IH])
qed simp

lemma fold_ledger_Inr:
  assumes "ledger st = ledger st'" and "try_fold (apply_goal_event cdc gk) st es = Inr x"
  obtains y where "try_fold (apply_goal_event cdc gk) st' es = Inr y" "ledger y = ledger x"
  using fold_ledger [OF assms(1), of cdc gk es] assms(2)
  by (cases "try_fold (apply_goal_event cdc gk) st' es") auto

section \<open>Inversion\<close>

lemma next_ref_Inr [simp]:
  "(next_ref r = Inr r') = (gr_revision r + 1 \<le> u64_max \<and> r' = r\<lparr>gr_revision := gr_revision r + 1\<rparr>)"
  by (auto simp: next_ref_def)

lemma goal_snapshot_validate_Inr:
  "goal_snapshot_validate g = Inr () \<longleftrightarrow>
     goal_ref_validate (gs_reference g) = Inr () \<and> \<not> blank (gs_title g) \<and> 1 \<le> gs_max_rounds g \<and> gs_max_rounds g \<le> MAX_SAFE_INTEGER"
  by (auto simp: goal_snapshot_validate_def)

lemma valid_revision: "goal_snapshot_validate g = Inr () \<Longrightarrow> 0 < gr_revision (gs_reference g)"
  by (auto simp: goal_snapshot_validate_def goal_ref_validate_def split: if_splits)

definition succeeds :: "goal_ref option \<Rightarrow> bool \<Rightarrow> goal_snapshot \<Rightarrow> goal_snapshot option \<Rightarrow> bool" where
  "succeeds expected replay g old =
     (case old of
        None \<Rightarrow> expected = None \<and> gr_revision (gs_reference g) = 1 \<and> \<not> gs_tombstone g
      | Some current \<Rightarrow>
          \<not> gs_tombstone current \<and> (expected = Some (gs_reference current) \<or> (expected = None \<and> replay))
          \<and> gr_revision (gs_reference g) = saturating_inc (gr_revision (gs_reference current))
          \<and> phase_permits (gs_phase current) (gs_phase g))"

lemma apply_snapshot_Inr:
  "apply_snapshot goals expected g replay = Inr goals' \<longleftrightarrow>
     goal_snapshot_validate g = Inr () \<and> goals' = bt_insert (gr_id (gs_reference g)) g goals
     \<and> succeeds expected replay g (map_of goals (gr_id (gs_reference g)))"
  unfolding apply_snapshot_def succeeds_def Let_def
  by (cases expected; auto split: option.split if_splits)

lemma operation_Inr:
  assumes "validate_goal_operation goals op g = Inr ()" and "op \<noteq> OpCreate"
  obtains current where "map_of goals (gr_id (gs_reference g)) = Some current" "\<not> gs_tombstone current"
    "gr_revision (gs_reference current) + 1 \<le> u64_max"
    "gs_reference g = (gs_reference current)\<lparr>gr_revision := gr_revision (gs_reference current) + 1\<rparr>"
    "operation_permits op current g"
  using assms by (auto simp: validate_goal_operation_def split: if_splits)

lemma operation_create:
  "validate_goal_operation goals OpCreate g = Inr () \<longleftrightarrow>
     \<not> gs_tombstone g \<and> gr_revision (gs_reference g) = 1 \<and> gs_phase g = GoalActive"
  by (simp add: validate_goal_operation_def)

lemma operation_keeps:
  assumes "validate_goal_operation goals op g = Inr ()"
  shows "gs_tombstone g = (op = OpClear)"
proof (cases "op = OpCreate")
  case True
  with assms show ?thesis by (simp add: operation_create)
next
  case False
  from assms False obtain current where "operation_permits op current g" by (elim operation_Inr)
  then show ?thesis by (cases op) (simp_all add: operation_permits_def Let_def)
qed

text \<open>A change that replays: which goal it writes, and what becomes of the counters and reasons.\<close>

lemma apply_change_cases:
  assumes "apply_change gk st e = Inr st'"
  obtains (Other) "ev_type e \<noteq> ''goal/change''" "st' = st"
  | (Cleared) g current where
      "map_of (gl_goals st) (gr_id (gs_reference g)) = Some current"
      "validate_goal_operation (gl_goals st) OpClear g = Inr ()"
      "apply_snapshot (gl_goals st) None g True = Inr (gl_goals st')"
      "ledger st' = (gl_goals st', bt_remove (gr_id (gs_reference g)) (gl_times st),
                     bt_remove (gr_id (gs_reference g)) (gl_reasons st), None)"
  | (Written) g op t reason where
      "op \<noteq> OpClear" "validate_goal_operation (gl_goals st) op g = Inr ()"
      "validate_goal_times (gl_times st) op g t = Inr ()"
      "apply_snapshot (gl_goals st) None g True = Inr (gl_goals st')"
      "check_blocked_reason (gs_phase g) reason = Inr ()"
      "gt_created_at t \<le> gt_updated_at t" "gt_updated_at t \<le> MAX_SAFE_INTEGER" "gt_rounds_started t \<le> MAX_SAFE_INTEGER"
      "ledger st' = (gl_goals st', bt_insert (gr_id (gs_reference g)) t (gl_times st),
                     set_reason (gr_id (gs_reference g)) reason (gl_reasons st), Some (gr_id (gs_reference g)))"
proof (cases "ev_type e = ''goal/change''")
  case False
  with assms Other show ?thesis by (simp add: apply_change_def)
next
  case True
  with assms obtain ch where ch: "gd_change_from gk (ev_data e) = Some ch" and shape: "validate_shape ch = Inr ()"
    and r: "(if gc_operation ch = OpClear then apply_clear st ch else apply_written st ch) = Inr st'"
    by (auto simp: apply_change_def)
  show ?thesis
  proof (cases "gc_operation ch = OpClear")
    case clear: True
    with r obtain r current where "map_of (gl_goals st) (gr_id r) = Some current"
      "validate_goal_operation (gl_goals st) OpClear (cleared_snapshot r current) = Inr ()"
      "apply_snapshot (gl_goals st) None (cleared_snapshot r current) True = Inr (gl_goals st')"
      "ledger st' = (gl_goals st', bt_remove (gr_id r) (gl_times st), bt_remove (gr_id r) (gl_reasons st), None)"
      by (auto simp: apply_clear_def Let_def ledger_def)
    then show ?thesis using Cleared [of "cleared_snapshot r current" current] by (simp add: cleared_snapshot_def)
  next
    case written: False
    from r written obtain wire g reason t where
      parts: "gc_goal ch = Some wire" "wire_snapshot wire = Inr (g, reason)" "change_times ch = Inr t"
      and steps: "validate_goal_operation (gl_goals st) (gc_operation ch) g = Inr ()"
      "validate_goal_times (gl_times st) (gc_operation ch) g t = Inr ()"
      "apply_snapshot (gl_goals st) None g True = Inr (gl_goals st')"
      "ledger st' = (gl_goals st', bt_insert (gr_id (gs_reference g)) t (gl_times st),
                     set_reason (gr_id (gs_reference g)) reason (gl_reasons st), Some (gr_id (gs_reference g)))"
      by (auto simp: apply_written_def Let_def ledger_def)
    have "check_blocked_reason (gs_phase g) reason = Inr ()"
      using parts(2) by (auto simp: wire_snapshot_def Let_def)
    moreover have "gt_created_at t \<le> gt_updated_at t" "gt_updated_at t \<le> MAX_SAFE_INTEGER" "gt_rounds_started t \<le> MAX_SAFE_INTEGER"
      using parts(3) shape written by (auto simp: change_times_def validate_shape_def split: if_splits)
    ultimately show ?thesis using Written written steps by blast
  qed
qed

section \<open>The type of the ledger\<close>

definition goal_ok :: "goal_state \<Rightarrow> string \<Rightarrow> goal_snapshot \<Rightarrow> bool" where
  "goal_ok st ident g \<longleftrightarrow>
     gr_id (gs_reference g) = ident \<and> goal_snapshot_validate g = Inr ()
     \<and> (case map_of (gl_times st) ident of
          None \<Rightarrow> gs_tombstone g
        | Some t \<Rightarrow> \<not> gs_tombstone g \<and> gt_created_at t \<le> gt_updated_at t \<and> gt_updated_at t \<le> MAX_SAFE_INTEGER
            \<and> gt_rounds_started t \<le> MAX_SAFE_INTEGER)
     \<and> (case map_of (gl_reasons st) ident of
          None \<Rightarrow> gs_tombstone g \<or> gs_phase g \<noteq> GoalBlocked
        | Some r \<Rightarrow> \<not> gs_tombstone g \<and> gs_phase g = GoalBlocked \<and> block_reason_validate r = Inr ())"

definition goal_state_ok :: "goal_state \<Rightarrow> bool" where
  "goal_state_ok st \<longleftrightarrow>
     bt_sorted (gl_goals st) \<and> bt_sorted (gl_times st) \<and> bt_sorted (gl_reasons st)
     \<and> (\<forall>ident g. map_of (gl_goals st) ident = Some g \<longrightarrow> goal_ok st ident g)
     \<and> (\<forall>ident. map_of (gl_goals st) ident = None \<longrightarrow> map_of (gl_times st) ident = None \<and> map_of (gl_reasons st) ident = None)
     \<and> (\<forall>ident. gl_current st = Some ident \<longrightarrow> (\<exists>g. map_of (gl_goals st) ident = Some g \<and> \<not> gs_tombstone g))"

lemma goal_state_okD:
  assumes "goal_state_ok st"
  shows "map_of (gl_goals st) ident = Some g \<Longrightarrow> goal_ok st ident g"
    "map_of (gl_goals st) ident = None \<Longrightarrow> map_of (gl_times st) ident = None"
    "map_of (gl_goals st) ident = None \<Longrightarrow> map_of (gl_reasons st) ident = None"
  using assms by (auto simp: goal_state_ok_def)

lemma goal_state_ok_ledger: "ledger st = ledger st' \<Longrightarrow> goal_state_ok st = goal_state_ok st'"
  by (auto simp: ledger_eq goal_state_ok_def goal_ok_def)

lemma goal_state_ok_default: "goal_state_ok goal_state_default"
  by (simp add: goal_state_ok_def goal_state_default_def bt_sorted_def)

lemma admit_round_cases:
  assumes "admit_round st m seq = Inr st'" and "goal_state_ok st"
  obtains (NoRound) "st' = st" "\<And>i r n. msg_source m \<noteq> SrcGoal i r n"
  | (Round) ident g t where
      "msg_source m = SrcGoal ident (gr_revision (gs_reference g)) (gt_rounds_started t + 1)"
      "map_of (gl_goals st) ident = Some g" "\<not> gs_tombstone g" "gs_phase g = GoalActive"
      "map_of (gl_times st) ident = Some t" "gt_rounds_started t + 1 \<le> gs_max_rounds g"
      "ledger st' = (gl_goals st, bt_insert ident (t\<lparr>gt_rounds_started := gt_rounds_started t + 1\<rparr>) (gl_times st),
                     gl_reasons st, gl_current st)"
proof (cases "\<exists>i r n. msg_source m = SrcGoal i r n")
  case False
  with assms NoRound show ?thesis by (auto simp: admit_round_def split: message_source.splits)
next
  case True
  then obtain i r n where src: "msg_source m = SrcGoal i r n" by blast
  from assms(1) obtain g t where g: "map_of (gl_goals st) i = Some g" "\<not> gs_tombstone g" "gs_phase g = GoalActive"
    and t: "map_of (gl_times st) i = Some t" and rev: "gr_revision (gs_reference g) = r"
    and n: "n = saturating_inc (gt_rounds_started t)" "n \<le> gs_max_rounds g"
    and st': "st' = arm_round g n seq (st\<lparr>gl_times := bt_insert i (t\<lparr>gt_rounds_started := n\<rparr>) (gl_times st)\<rparr>)"
    by (auto simp: admit_round_def src split: if_splits option.splits)
  from goal_state_okD(1) [OF assms(2) g(1)] have "gs_max_rounds g \<le> MAX_SAFE_INTEGER"
    by (simp add: goal_ok_def goal_snapshot_validate_Inr)
  with n have "n = gt_rounds_started t + 1" by (auto simp: saturating_inc_def MAX_SAFE_INTEGER_def u64_max_def min_def split: if_splits)
  with src g t rev n st' show ?thesis
    by (intro Round [of i g t]) (simp_all add: ledger_def [of "st\<lparr>gl_times := _\<rparr>"])
qed

lemma goal_ok_cong:
  "map_of (gl_times st) ident = map_of (gl_times st') ident \<Longrightarrow> map_of (gl_reasons st) ident = map_of (gl_reasons st') ident \<Longrightarrow>
     goal_ok st ident g = goal_ok st' ident g"
  by (simp add: goal_ok_def)

lemma written_ok:
  assumes ok: "goal_state_ok st" and goals: "gl_goals st' = bt_insert ident g (gl_goals st)"
    and others: "\<And>i. i \<noteq> ident \<Longrightarrow> map_of (gl_times st') i = map_of (gl_times st) i"
      "\<And>i. i \<noteq> ident \<Longrightarrow> map_of (gl_reasons st') i = map_of (gl_reasons st) i"
    and sorted: "bt_sorted (gl_times st')" "bt_sorted (gl_reasons st')"
    and entry: "goal_ok st' ident g" and current: "gl_current st' = (if gs_tombstone g then None else Some ident)"
  shows "goal_state_ok st'"
proof -
  have "goal_ok st' i h" if "map_of (gl_goals st') i = Some h" for i h
  proof (cases "i = ident")
    case True
    with that entry show ?thesis by (simp add: goals)
  next
    case False
    with that goal_state_okD(1) [OF ok, of i h] show ?thesis
      by (simp add: goals goal_ok_cong [OF others(1) others(2), OF False False])
  qed
  moreover have "map_of (gl_times st') i = None \<and> map_of (gl_reasons st') i = None" if "map_of (gl_goals st') i = None" for i
    using that goal_state_okD(2,3) [OF ok, of i] others [of i] by (auto simp: goals split: if_splits)
  ultimately show ?thesis
    using ok sorted current by (auto simp: goal_state_ok_def goals bt_sorted_insert split: if_splits)
qed

lemma check_blocked_reason_Inr:
  "check_blocked_reason phase reason = Inr () \<longleftrightarrow>
     (case reason of None \<Rightarrow> phase \<noteq> GoalBlocked | Some r \<Rightarrow> phase = GoalBlocked \<and> block_reason_validate r = Inr ())"
  by (cases phase; cases reason) (simp_all add: check_blocked_reason_def)

lemma bt_sorted_set_reason: "bt_sorted rs \<Longrightarrow> bt_sorted (set_reason i r rs)"
  by (auto simp: set_reason_def bt_sorted_insert bt_sorted_remove split: option.split)

lemma map_of_set_reason [simp]: "map_of (set_reason i r rs) = (map_of rs)(i := r)"
  by (auto simp: set_reason_def split: option.split)

lemma apply_change_ok:
  assumes "apply_change gk st e = Inr st'" and ok: "goal_state_ok st"
  shows "goal_state_ok st'"
  using assms(1)
proof (cases rule: apply_change_cases)
  case Other
  with ok show ?thesis by simp
next
  case (Cleared g current)
  from Cleared(3) have g: "goal_snapshot_validate g = Inr ()" "gl_goals st' = bt_insert (gr_id (gs_reference g)) g (gl_goals st)"
    by (simp_all add: apply_snapshot_Inr)
  have "gs_tombstone g" using operation_keeps [OF Cleared(2)] by simp
  with g Cleared(4) ok show ?thesis
    by (intro written_ok [OF ok g(2)]) (auto simp: ledger_def goal_ok_def goal_state_ok_def bt_sorted_remove)
next
  case (Written g op t reason)
  from Written(4) have g: "goal_snapshot_validate g = Inr ()" "gl_goals st' = bt_insert (gr_id (gs_reference g)) g (gl_goals st)"
    by (simp_all add: apply_snapshot_Inr)
  have "\<not> gs_tombstone g" using operation_keeps [OF Written(2)] Written(1) by simp
  with g Written ok show ?thesis
    by (intro written_ok [OF ok g(2)])
      (auto simp: ledger_def goal_ok_def goal_state_ok_def bt_sorted_insert bt_sorted_set_reason check_blocked_reason_Inr split: option.splits)
qed

lemma apply_round_ok:
  assumes "apply_goal_round cdc st e = Inr st'" and ok: "goal_state_ok st"
  shows "goal_state_ok st'"
proof (cases "ev_type e = ''user/message''")
  case False
  with assms show ?thesis by (simp add: apply_goal_round_def)
next
  case True
  with assms obtain m where "admit_round st m (ev_seq e) = Inr st'" by (auto simp: apply_goal_round_def)
  then show ?thesis using ok
  proof (cases rule: admit_round_cases)
    case NoRound
    with ok show ?thesis by simp
  next
    case (Round ident g t)
    from goal_state_okD(1) [OF ok Round(2)] Round(5,6)
    have "goal_ok (st\<lparr>gl_times := bt_insert ident (t\<lparr>gt_rounds_started := gt_rounds_started t + 1\<rparr>) (gl_times st)\<rparr>) ident g"
      by (auto simp: goal_ok_def goal_snapshot_validate_Inr)
    with ok Round(2,5) have "goal_state_ok (st\<lparr>gl_times := bt_insert ident (t\<lparr>gt_rounds_started := gt_rounds_started t + 1\<rparr>) (gl_times st)\<rparr>)"
      unfolding goal_state_ok_def by (auto simp: bt_sorted_insert goal_ok_def split: if_splits)
    then show ?thesis using Round(7) by (subst goal_state_ok_ledger) (auto simp: ledger_def)
  qed
qed

lemma apply_event_ok:
  "apply_goal_event cdc gk st e = Inr st' \<Longrightarrow> goal_state_ok st \<Longrightarrow> goal_state_ok st'"
  by (auto simp: apply_goal_event_def intro: apply_round_ok apply_change_ok)

lemma fold_goals_ok:
  "try_fold (apply_goal_event cdc gk) st es = Inr st' \<Longrightarrow> goal_state_ok st \<Longrightarrow> goal_state_ok st'"
  by (induction es arbitrary: st) (auto intro: apply_event_ok)

lemma replay_goals_ok: "replay_goals cdc gk es = Inr st \<Longrightarrow> goal_state_ok st"
  unfolding replay_goals_def by (erule fold_goals_ok) (rule goal_state_ok_default)

section \<open>The life of a goal\<close>

text \<open>What a later state of the ledger may make of a goal: its revision counts up, a cleared goal stays as it
  was cleared, a complete goal stays complete, and nothing changes without a new revision.\<close>

definition goal_follows :: "goal_snapshot \<Rightarrow> goal_snapshot \<Rightarrow> bool" where
  "goal_follows g g' \<longleftrightarrow>
     gr_revision (gs_reference g) \<le> gr_revision (gs_reference g')
     \<and> (gr_revision (gs_reference g) = gr_revision (gs_reference g') \<longrightarrow> g' = g)
     \<and> (gs_tombstone g \<longrightarrow> g' = g) \<and> (gs_phase g = GoalComplete \<longrightarrow> gs_phase g' = GoalComplete)"

lemma goal_follows_refl [simp]: "goal_follows g g"
  by (simp add: goal_follows_def)

lemma goal_follows_trans: "goal_follows g h \<Longrightarrow> goal_follows h k \<Longrightarrow> goal_follows g k"
  by (auto simp: goal_follows_def)

lemma created_is_new:
  assumes "validate_goal_operation goals OpCreate g = Inr ()" and "apply_snapshot goals expected g replay = Inr goals'"
    and valid: "\<And>h. map_of goals (gr_id (gs_reference g)) = Some h \<Longrightarrow> goal_snapshot_validate h = Inr ()"
  shows "map_of goals (gr_id (gs_reference g)) = None"
proof (rule ccontr)
  assume "map_of goals (gr_id (gs_reference g)) \<noteq> None"
  then obtain h where h: "map_of goals (gr_id (gs_reference g)) = Some h" by blast
  from assms(1,2) h have "saturating_inc (gr_revision (gs_reference h)) = 1"
    by (simp add: operation_create apply_snapshot_Inr succeeds_def)
  with valid_revision [OF valid [OF h]] show False by (simp add: saturating_inc_def u64_max_def min_def split: if_splits)
qed

lemma applied_follows:
  assumes "validate_goal_operation goals op g = Inr ()" and "apply_snapshot goals None g True = Inr goals'"
    and "map_of goals i = Some h" and "goal_snapshot_validate h = Inr ()"
  obtains h' where "map_of goals' i = Some h'" "goal_follows h h'"
proof (cases "i = gr_id (gs_reference g)")
  case False
  with assms that [of h] show ?thesis by (simp add: apply_snapshot_Inr)
next
  case True
  have s: "succeeds None True g (Some h)" using assms(2,3) True by (simp add: apply_snapshot_Inr)
  have "op \<noteq> OpCreate" using created_is_new [of goals g None True goals'] assms True by auto
  from operation_Inr [OF assms(1) this] assms(3) True
  have "gr_revision (gs_reference g) = gr_revision (gs_reference h) + 1" by (metis goal_ref.ext_inject goal_ref.surjective goal_ref.update_convs(2) option.inject)
  with s have "goal_follows h g" by (auto simp: goal_follows_def succeeds_def phase_permits_def)
  with that [of g] assms(2) True show ?thesis by (simp add: apply_snapshot_Inr)
qed

lemma apply_event_follows:
  assumes "apply_goal_event cdc gk st e = Inr st'" and ok: "goal_state_ok st" and g: "map_of (gl_goals st) i = Some g"
  obtains g' where "map_of (gl_goals st') i = Some g'" "goal_follows g g'"
proof -
  from assms(1) obtain st1 where c: "apply_change gk st e = Inr st1" and r: "apply_goal_round cdc st1 e = Inr st'"
    by (auto simp: apply_goal_event_def)
  have v: "goal_snapshot_validate g = Inr ()" using goal_state_okD(1) [OF ok g] by (simp add: goal_ok_def)
  from c obtain g' where g': "map_of (gl_goals st1) i = Some g'" "goal_follows g g'"
  proof (cases rule: apply_change_cases)
    case Other
    with that g show ?thesis by simp
  next
    case (Cleared h current)
    show ?thesis by (rule applied_follows [OF Cleared(2,3) g v]) (rule that)
  next
    case (Written h op t reason)
    show ?thesis by (rule applied_follows [OF Written(2,4) g v]) (rule that)
  qed
  have "gl_goals st' = gl_goals st1"
  proof (cases "ev_type e = ''user/message''")
    case False
    with r show ?thesis by (simp add: apply_goal_round_def)
  next
    case True
    with r obtain m where "admit_round st1 m (ev_seq e) = Inr st'" by (auto simp: apply_goal_round_def)
    then show ?thesis using apply_change_ok [OF c ok] by (cases rule: admit_round_cases) (simp_all add: ledger_def)
  qed
  with g' that show ?thesis by simp
qed

lemma fold_follows:
  assumes "try_fold (apply_goal_event cdc gk) st es = Inr st'" and "goal_state_ok st" and "map_of (gl_goals st) i = Some g"
  shows "\<exists>g'. map_of (gl_goals st') i = Some g' \<and> goal_follows g g'"
  using assms
proof (induction es arbitrary: st g)
  case (Cons e es)
  from Cons.prems(1) obtain st1 where s: "apply_goal_event cdc gk st e = Inr st1"
    and f: "try_fold (apply_goal_event cdc gk) st1 es = Inr st'" by auto
  from apply_event_follows [OF s Cons.prems(2,3)] obtain g1 where "map_of (gl_goals st1) i = Some g1" "goal_follows g g1" .
  with Cons.IH [OF f apply_event_ok [OF s Cons.prems(2)]] show ?case by (blast intro: goal_follows_trans)
qed simp

section \<open>Rounds\<close>

text \<open>The round numbers of the goal-sourced user messages of a log.\<close>

definition round_of :: "codec \<Rightarrow> string \<Rightarrow> session_event \<Rightarrow> u64 option" where
  "round_of cdc ident e =
     (if ev_type e = ''user/message''
      then Option.bind (cd_message_from cdc (ev_data e)) (\<lambda>m.
        case msg_source m of SrcGoal i r n \<Rightarrow> if i = ident then Some n else None | _ \<Rightarrow> None)
      else None)"

definition rounds_in :: "codec \<Rightarrow> string \<Rightarrow> session_event list \<Rightarrow> u64 list" where
  "rounds_in cdc ident es = List.map_filter (round_of cdc ident) es"

definition rounds_counted :: "codec \<Rightarrow> session_event list \<Rightarrow> goal_state \<Rightarrow> bool" where
  "rounds_counted cdc es st \<longleftrightarrow>
     (\<forall>i. (map_of (gl_goals st) i = None \<longrightarrow> rounds_in cdc i es = [])
        \<and> (\<forall>t. map_of (gl_times st) i = Some t \<longrightarrow> rounds_in cdc i es = [1..<gt_rounds_started t + 1]))"

lemma rounds_in_snoc: "rounds_in cdc i (es @ [e]) = rounds_in cdc i es @ (case round_of cdc i e of None \<Rightarrow> [] | Some n \<Rightarrow> [n])"
  by (auto simp: rounds_in_def List.map_filter_def split: option.split)

lemma change_keeps_rounds:
  assumes "apply_change gk st e = Inr st'" and ok: "goal_state_ok st" and rc: "rounds_counted cdc es st"
  shows "rounds_counted cdc es st'"
  using assms(1)
proof (cases rule: apply_change_cases)
  case Other
  with rc show ?thesis by simp
next
  case (Cleared g current)
  with rc show ?thesis by (auto simp: rounds_counted_def ledger_def apply_snapshot_Inr split: if_splits)
next
  case (Written g op t reason)
  let ?i = "gr_id (gs_reference g)"
  have "rounds_in cdc ?i es = [1..<gt_rounds_started t + 1]"
  proof (cases "op = OpCreate")
    case True
    have "goal_snapshot_validate h = Inr ()" if "map_of (gl_goals st) ?i = Some h" for h
      using goal_state_okD(1) [OF ok that] by (simp add: goal_ok_def)
    from created_is_new [OF Written(2) [unfolded True] Written(4) this] Written(3) True
    have "map_of (gl_goals st) ?i = None" "gt_rounds_started t = 0" by (simp_all add: validate_goal_times_def)
    with rc show ?thesis by (simp add: rounds_counted_def)
  next
    case False
    with Written(3) obtain t0 where "map_of (gl_times st) ?i = Some t0" "gt_rounds_started t = gt_rounds_started t0"
      by (auto simp: validate_goal_times_def)
    with rc show ?thesis by (simp add: rounds_counted_def)
  qed
  with rc Written(4,9) show ?thesis by (auto simp: rounds_counted_def ledger_def apply_snapshot_Inr split: if_splits)
qed

lemma round_counts:
  assumes "apply_goal_round cdc st e = Inr st'" and ok: "goal_state_ok st" and rc: "rounds_counted cdc es st"
  shows "rounds_counted cdc (es @ [e]) st'"
proof (cases "ev_type e = ''user/message''")
  case False
  with assms show ?thesis by (simp add: apply_goal_round_def rounds_counted_def rounds_in_snoc round_of_def)
next
  case True
  with assms(1) obtain m where m: "cd_message_from cdc (ev_data e) = Some m" and a: "admit_round st m (ev_seq e) = Inr st'"
    by (auto simp: apply_goal_round_def)
  from a ok show ?thesis
  proof (cases rule: admit_round_cases)
    case NoRound
    then have "round_of cdc i e = None" for i by (auto simp: round_of_def m split: message_source.split)
    with rc NoRound show ?thesis by (simp add: rounds_counted_def rounds_in_snoc)
  next
    case (Round ident g t)
    then have "round_of cdc i e = (if i = ident then Some (gt_rounds_started t + 1) else None)" for i
      using True by (auto simp: round_of_def m)
    with rc Round show ?thesis by (auto simp: rounds_counted_def rounds_in_snoc ledger_def split: if_splits)
  qed
qed

lemma replay_counts_rounds: "replay_goals cdc gk es = Inr st \<Longrightarrow> rounds_counted cdc es st"
proof (induction es arbitrary: st rule: rev_induct)
  case Nil
  then show ?case by (auto simp: replay_goals_def rounds_counted_def rounds_in_def goal_state_default_def List.map_filter_def)
next
  case (snoc e es)
  from snoc.prems obtain st0 st1 where r: "replay_goals cdc gk es = Inr st0" and c: "apply_change gk st0 e = Inr st1"
    and a: "apply_goal_round cdc st1 e = Inr st"
    by (auto simp: replay_goals_def try_fold_append apply_goal_event_def)
  note ok = replay_goals_ok [OF r]
  from round_counts [OF a apply_change_ok [OF c ok] change_keeps_rounds [OF c ok snoc.IH [OF r]]] show ?case .
qed

section \<open>The wire format\<close>

lemma json_get_fields:
  assumes "distinct (map fst kvs)"
  shows "json_get k (Wire_Codec.fields kvs) = Option.bind (map_of kvs k) id"
proof -
  let ?kept = "map (\<lambda>(k, v). (k, the v)) (filter (\<lambda>(k, v). v \<noteq> None) kvs)"
  have "map fst ?kept = map fst (filter (\<lambda>(k, v). v \<noteq> None) kvs)" by (simp add: case_prod_beta)
  then have "distinct (map fst ?kept)" using assms by (simp only: distinct_map_filter)
  moreover have "map_of ?kept k = Option.bind (map_of kvs k) id"
    using assms
  proof (induction kvs)
    case (Cons kv kvs)
    then have "map_of kvs (fst kv) = None" by (auto simp: map_of_eq_None_iff)
    with Cons show ?case by (cases kv; cases "snd kv") auto
  qed simp
  ultimately show ?thesis by (simp add: Wire_Codec.fields_def)
qed

lemma only_keys_fields: "fst ` set kvs \<subseteq> set ks \<Longrightarrow> only_keys ks (Wire_Codec.fields kvs)"
  by (auto simp: Wire_Codec.fields_def)

lemma opt_field_written:
  assumes "json_get k v = map_option enc x" and "\<And>y. dec (enc y) = Some y" and "\<And>y. enc y \<noteq> JNull"
  shows "opt_field dec k v = Some x"
proof (cases x)
  case None
  with assms(1) show ?thesis by (simp add: opt_field_def)
next
  case (Some a)
  with assms(1) assms(2,3) [of a] show ?thesis by (cases "enc a") (simp_all add: opt_field_def)
qed

definition enc_phase :: "goal_phase \<Rightarrow> json" where
  "enc_phase p = JStr (case p of GoalActive \<Rightarrow> ''active'' | GoalPaused \<Rightarrow> ''paused'' | GoalBlocked \<Rightarrow> ''blocked'' | GoalComplete \<Rightarrow> ''complete'')"

definition dec_phase :: "json \<Rightarrow> goal_phase option" where
  "dec_phase v = find_first (\<lambda>p. enc_phase p = v) [GoalActive, GoalPaused, GoalBlocked, GoalComplete]"

definition enc_operation :: "goal_operation \<Rightarrow> json" where
  "enc_operation op = JStr (case op of OpCreate \<Rightarrow> ''create'' | OpEdit \<Rightarrow> ''edit'' | OpPause \<Rightarrow> ''pause'' | OpResume \<Rightarrow> ''resume''
     | OpComplete \<Rightarrow> ''complete'' | OpBlock \<Rightarrow> ''block'' | OpClear \<Rightarrow> ''clear'')"

definition dec_operation :: "json \<Rightarrow> goal_operation option" where
  "dec_operation v = find_first (\<lambda>p. enc_operation p = v) [OpCreate, OpEdit, OpPause, OpResume, OpComplete, OpBlock, OpClear]"

definition enc_reason :: "goal_block_reason \<Rightarrow> json" where
  "enc_reason r = obj [(''code'', JStr (br_code r)), (''message'', JStr (br_message r))]"

definition dec_reason :: "json \<Rightarrow> goal_block_reason option" where
  "dec_reason v =
     (if only_keys [''code'', ''message''] v
      then Option.bind (get_str ''code'' v) (\<lambda>c. map_option (\<lambda>m. \<lparr>br_code = c, br_message = m\<rparr>) (get_str ''message'' v))
      else None)"

definition enc_ref :: "goal_ref \<Rightarrow> json" where
  "enc_ref r = obj [(''id'', JStr (gr_id r)), (''revision'', jnat (gr_revision r))]"

definition dec_ref :: "json \<Rightarrow> goal_ref option" where
  "dec_ref v =
     (if only_keys [''id'', ''revision''] v
      then Option.bind (get_str ''id'' v) (\<lambda>i. map_option (\<lambda>n. \<lparr>gr_id = i, gr_revision = n\<rparr>) (get_u64 ''revision'' v))
      else None)"

definition enc_goal :: "goal_snapshot_wire \<Rightarrow> json" where
  "enc_goal g = Wire_Codec.fields
     [(''id'', Some (JStr (gw_id g))), (''revision'', Some (jnat (gw_revision g))), (''objective'', Some (JStr (gw_objective g))),
      (''phase'', Some (enc_phase (gw_phase g))), (''blockedReason'', map_option enc_reason (gw_blocked_reason g)),
      (''maxGoalRounds'', Some (jnat (gw_max_rounds g)))]"

definition dec_goal :: "json \<Rightarrow> goal_snapshot_wire option" where
  "dec_goal v =
     (if only_keys [''id'', ''revision'', ''objective'', ''phase'', ''blockedReason'', ''maxGoalRounds''] v
      then Option.bind (get_str ''id'' v) (\<lambda>i. Option.bind (get_u64 ''revision'' v) (\<lambda>n.
           Option.bind (get_str ''objective'' v) (\<lambda>t. Option.bind (Option.bind (json_get ''phase'' v) dec_phase) (\<lambda>p.
           Option.bind (opt_field dec_reason ''blockedReason'' v) (\<lambda>b. map_option (\<lambda>cap.
             \<lparr>gw_id = i, gw_revision = n, gw_objective = t, gw_phase = p, gw_blocked_reason = b, gw_max_rounds = cap\<rparr>)
             (get_u64 ''maxGoalRounds'' v))))))
      else None)"

definition enc_change :: "goal_change \<Rightarrow> json" where
  "enc_change ch = Wire_Codec.fields
     [(''kind'', Some (JStr (gc_kind ch))), (''version'', Some (jnat (gc_version ch))), (''operation'', Some (enc_operation (gc_operation ch))),
      (''goal'', map_option enc_goal (gc_goal ch)), (''roundsStarted'', map_option jnat (gc_rounds_started ch)),
      (''createdAt'', map_option jnat (gc_created_at ch)), (''updatedAt'', map_option jnat (gc_updated_at ch)),
      (''cleared'', map_option enc_ref (gc_cleared ch)), (''clearedAt'', map_option jnat (gc_cleared_at ch))]"

definition dec_change :: "json \<Rightarrow> goal_change option" where
  "dec_change v =
     (if only_keys [''kind'', ''version'', ''operation'', ''goal'', ''roundsStarted'', ''createdAt'', ''updatedAt'', ''cleared'', ''clearedAt''] v
      then Option.bind (get_str ''kind'' v) (\<lambda>k. Option.bind (get_u64 ''version'' v) (\<lambda>ver. if ver > 255 then None else
           Option.bind (Option.bind (json_get ''operation'' v) dec_operation) (\<lambda>op.
           Option.bind (opt_field dec_goal ''goal'' v) (\<lambda>g. Option.bind (opt_field as_u64 ''roundsStarted'' v) (\<lambda>n.
           Option.bind (opt_field as_u64 ''createdAt'' v) (\<lambda>c. Option.bind (opt_field as_u64 ''updatedAt'' v) (\<lambda>u.
           Option.bind (opt_field dec_ref ''cleared'' v) (\<lambda>r. map_option (\<lambda>t.
             \<lparr>gc_kind = k, gc_version = ver, gc_operation = op, gc_goal = g, gc_rounds_started = n, gc_created_at = c,
              gc_updated_at = u, gc_cleared = r, gc_cleared_at = t\<rparr>)
             (opt_field as_u64 ''clearedAt'' v)))))))))
      else None)"

lemma dec_enc_phase: "dec_phase (enc_phase p) = Some p"
  by (cases p) (simp_all add: dec_phase_def enc_phase_def find_first_def)

lemma dec_enc_operation: "dec_operation (enc_operation op) = Some op"
  by (cases op) (simp_all add: dec_operation_def enc_operation_def find_first_def)

lemma dec_enc_reason: "dec_reason (enc_reason r) = Some r" "enc_reason r \<noteq> JNull"
  by (simp add: dec_reason_def enc_reason_def get_str_def) (simp add: enc_reason_def obj_def)

lemma dec_enc_ref: "dec_ref (enc_ref r) = Some r" "enc_ref r \<noteq> JNull"
  by (simp add: dec_ref_def enc_ref_def get_str_def get_u64_def) (simp add: enc_ref_def obj_def)

lemma dec_enc_goal: "dec_goal (enc_goal g) = Some g" "enc_goal g \<noteq> JNull"
proof -
  have "opt_field dec_reason ''blockedReason'' (enc_goal g) = Some (gw_blocked_reason g)"
    by (rule opt_field_written [where enc = enc_reason]) (simp_all add: enc_goal_def json_get_fields dec_enc_reason)
  moreover have "json_get ''id'' (enc_goal g) = Some (JStr (gw_id g))" "json_get ''revision'' (enc_goal g) = Some (jnat (gw_revision g))"
    "json_get ''objective'' (enc_goal g) = Some (JStr (gw_objective g))" "json_get ''phase'' (enc_goal g) = Some (enc_phase (gw_phase g))"
    "json_get ''maxGoalRounds'' (enc_goal g) = Some (jnat (gw_max_rounds g))"
    by (simp_all add: enc_goal_def json_get_fields)
  moreover have "only_keys [''id'', ''revision'', ''objective'', ''phase'', ''blockedReason'', ''maxGoalRounds''] (enc_goal g)"
    unfolding enc_goal_def by (rule only_keys_fields) simp
  ultimately show "dec_goal (enc_goal g) = Some g" by (simp add: dec_goal_def get_str_def get_u64_def dec_enc_phase)
qed (simp add: enc_goal_def Wire_Codec.fields_def obj_def)

lemma dec_enc_change:
  assumes "gc_version ch \<le> 255"
  shows "dec_change (enc_change ch) = Some ch"
proof -
  have o: "opt_field dec_goal ''goal'' (enc_change ch) = Some (gc_goal ch)"
    by (rule opt_field_written [where enc = enc_goal]) (simp_all add: enc_change_def json_get_fields dec_enc_goal)
  have r: "opt_field dec_ref ''cleared'' (enc_change ch) = Some (gc_cleared ch)"
    by (rule opt_field_written [where enc = enc_ref]) (simp_all add: enc_change_def json_get_fields dec_enc_ref)
  have n: "opt_field as_u64 ''roundsStarted'' (enc_change ch) = Some (gc_rounds_started ch)"
    "opt_field as_u64 ''createdAt'' (enc_change ch) = Some (gc_created_at ch)"
    "opt_field as_u64 ''updatedAt'' (enc_change ch) = Some (gc_updated_at ch)"
    "opt_field as_u64 ''clearedAt'' (enc_change ch) = Some (gc_cleared_at ch)"
    by (rule opt_field_written [where enc = jnat]; simp add: enc_change_def json_get_fields)+
  have g: "json_get ''kind'' (enc_change ch) = Some (JStr (gc_kind ch))" "json_get ''version'' (enc_change ch) = Some (jnat (gc_version ch))"
    "json_get ''operation'' (enc_change ch) = Some (enc_operation (gc_operation ch))"
    by (simp_all add: enc_change_def json_get_fields)
  have k: "only_keys [''kind'', ''version'', ''operation'', ''goal'', ''roundsStarted'', ''createdAt'', ''updatedAt'', ''cleared'', ''clearedAt''] (enc_change ch)"
    unfolding enc_change_def by (rule only_keys_fields) simp
  show ?thesis using assms by (simp add: dec_change_def k g o r n get_str_def get_u64_def dec_enc_operation)
qed

definition goal_wire :: goal_codec where
  "goal_wire = \<lparr>gd_change_from = dec_change, gd_change_to = enc_change\<rparr>"

text \<open>What the ledger relies on: a payload that was written is read back.\<close>

locale goal_payloads =
  fixes gk :: goal_codec
  assumes change_roundtrip: "gc_version ch \<le> 255 \<Longrightarrow> gd_change_from gk (gd_change_to gk ch) = Some ch"

interpretation goal_wire: goal_payloads goal_wire
  by unfold_locales (simp add: goal_wire_def dec_enc_change)

end
