(* ===== verification/Goal_Service.thy ===== *)
theory Goal_Service
  imports Goals Agent_Registry Tool_Runtime
begin

text \<open>
  The goal service of one live agent (\<open>GoalService\<close> in \<open>src/src/goal.rs\<close>) and its model tools. The service
  lock serialises its operations, but the session belongs to other writers too: \<open>go_moves\<close> are what they do at
  the moments an operation gives way (before an append takes the write gate, and before the session is
  read again), so a theorem for every list of moves is a theorem for every interleaving. The clock is
  a function of the number of readings. An operation may not return, since the compare-and-swap loop
  retries; not returning is \<open>None\<close>.
\<close>

section \<open>The world of an operation\<close>

record 'p goal_world =
  go_state :: goal_state
  go_session :: session
  go_agent :: agent_inner
  go_moves :: "(session \<times> 'p \<Rightarrow> session \<times> 'p) list"
  go_cancel :: cancel
  go_disk :: 'p
  go_ticks :: nat

text \<open>The codecs, the clock, the random identifiers, serde's rendering and the driver's answer to a wake.\<close>

record 'p goal_env =
  ge_ops :: "'p persistence"
  ge_codec :: codec
  ge_goals :: goal_codec
  ge_clock :: "nat \<Rightarrow> nat"
  ge_uuid :: string
  ge_message_id :: string
  ge_render :: "json \<Rightarrow> string"
  ge_show :: "session_error \<Rightarrow> string"
  ge_wake :: "agent_error + unit"

type_synonym ('p, 'a) goal_io = "'p goal_world \<Rightarrow> ((goal_error + 'a) \<times> 'p goal_world) option"

definition go_bind :: "('p, 'a) goal_io \<Rightarrow> ('a \<Rightarrow> ('p, 'b) goal_io) \<Rightarrow> ('p, 'b) goal_io" where
  "go_bind m k w =
     Option.bind (m w) (\<lambda>(r, w'). case r of Inl e \<Rightarrow> Some (Inl e, w') | Inr x \<Rightarrow> k x w')"

definition go_lift :: "goal_error + 'a \<Rightarrow> ('p, 'a) goal_io" where
  "go_lift r w = Some (r, w)"

definition go_read :: "('p goal_world \<Rightarrow> 'a) \<Rightarrow> ('p, 'a) goal_io" where
  "go_read f w = Some (Inr (f w), w)"

definition go_change :: "('p goal_world \<Rightarrow> 'p goal_world) \<Rightarrow> ('p, unit) goal_io" where
  "go_change f w = Some (Inr (), f w)"

definition interfere :: "'p goal_world \<Rightarrow> 'p goal_world" where
  "interfere w =
     (case go_moves w of
        [] \<Rightarrow> w
      | f # fs \<Rightarrow>
          (case f (go_session w, go_disk w) of (s, p) \<Rightarrow> w\<lparr>go_session := s, go_disk := p, go_moves := fs\<rparr>))"

definition goal_now :: "'p goal_env \<Rightarrow> 'p goal_world \<Rightarrow> u64 \<times> 'p goal_world" where
  "goal_now env w = (min (ge_clock env (go_ticks w)) MAX_SAFE_INTEGER, w\<lparr>go_ticks := go_ticks w + 1\<rparr>)"

definition poll_goal :: "'p goal_world \<Rightarrow> (goal_error + unit) \<times> 'p goal_world" where
  "poll_goal w =
     (case check_cancellation (go_cancel w) of
        Inl _ \<Rightarrow> (Inl GoalCancelled, w)
      | Inr c \<Rightarrow> (Inr (), w\<lparr>go_cancel := c\<rparr>))"

definition goal_live :: "'p goal_world \<Rightarrow> goal_error + unit" where
  "goal_live w = ensure (\<not> ai_disposed (go_agent w) \<and> ai_id (go_agent w) = session_id (go_session w)) GoalNotLive"

definition sync_locked :: "codec \<Rightarrow> goal_codec \<Rightarrow> session_event list \<Rightarrow> goal_state \<Rightarrow> goal_error + goal_state" where
  "sync_locked cdc gk es st =
     (if gl_observed st > length es then Inl (GoalInvalid ''durable goal event cursor regressed'')
      else if gl_observed st = length es then Inr st
      else
        and_then (try_fold (apply_goal_event cdc gk) st (drop (gl_observed st) es)) (\<lambda>candidate.
        Inr (candidate\<lparr>gl_observed := length es\<rparr>)))"

definition sync_world :: "'p goal_env \<Rightarrow> 'p goal_world \<Rightarrow> (goal_error + unit) \<times> 'p goal_world" where
  "sync_world env w =
     (case sync_locked (ge_codec env) (ge_goals env) (session_events (go_session w)) (go_state w) of
        Inl e \<Rightarrow> (Inl e, w)
      | Inr st \<Rightarrow> (Inr (), w\<lparr>go_state := st\<rparr>))"

text \<open>How an operation begins: a live agent, an uncancelled token, a state that has seen the whole log.\<close>

definition go_enter :: "'p goal_env \<Rightarrow> ('p, unit) goal_io" where
  "go_enter env w =
     (case goal_live w of
        Inl e \<Rightarrow> Some (Inl e, w)
      | Inr _ \<Rightarrow>
          (case poll_goal w of
             (Inl e, w') \<Rightarrow> Some (Inl e, w')
           | (Inr _, w') \<Rightarrow> Some (sync_world env w')))"

section \<open>Construction and reading\<close>

definition live_goal :: "goal_state \<Rightarrow> goal_snapshot option" where
  "live_goal st =
     (case gl_current st of
        None \<Rightarrow> None
      | Some ident \<Rightarrow>
          (case map_of (gl_goals st) ident of
             Some g \<Rightarrow> if gs_tombstone g then None else Some g
           | None \<Rightarrow> None))"

text \<open>A loaded service arms its active goal.\<close>

definition arm_loaded :: "goal_state \<Rightarrow> goal_state" where
  "arm_loaded st =
     (case live_goal st of
        None \<Rightarrow> st
      | Some g \<Rightarrow>
          if gs_phase g \<noteq> GoalActive then st
          else
            st\<lparr>gl_next_activation := 1,
               gl_activation := Some \<lparr>ac_id = 1, ac_reference = gs_reference g, ac_max_rounds = gs_max_rounds g,
                 ac_rounds = (case map_of (gl_times st) (gr_id (gs_reference g)) of
                                None \<Rightarrow> 0 | Some t \<Rightarrow> gt_rounds_started t),
                 ac_first_seq = 1, ac_last_user_seq = None, ac_queued_round = None\<rparr>\<rparr>)"

definition goal_service_new :: "codec \<Rightarrow> goal_codec \<Rightarrow> agent_inner \<Rightarrow> session \<Rightarrow> goal_error + goal_state" where
  "goal_service_new cdc gk agent s =
     (if ai_id agent \<noteq> session_id s \<or> ai_disposed agent then Inl GoalNotLive
      else
        and_then (replay_goals cdc gk (session_events s)) (\<lambda>st.
        Inr (arm_loaded (st\<lparr>gl_observed := length (session_events s)\<rparr>))))"

definition goal_view :: "goal_state \<Rightarrow> goal_error + json" where
  "goal_view st =
     (case live_goal st of
        None \<Rightarrow> Inr (obj [(''goal'', JNull)])
      | Some g \<Rightarrow>
          and_then (ok_or (GoalInvalid ''goal lacks round counter'') (map_of (gl_times st) (gr_id (gs_reference g)))) (\<lambda>t.
          let armed = (case gl_activation st of
                         None \<Rightarrow> False
                       | Some a \<Rightarrow> ac_reference a = gs_reference g \<and> gs_phase g = GoalActive \<and> \<not> gs_tombstone g);
              reason = map_of (gl_reasons st) (gr_id (gs_reference g))
          in Inr (obj [(''goal'', obj ([(''id'', JStr (gr_id (gs_reference g))), (''revision'', jnat (gr_revision (gs_reference g))),
                    (''objective'', JStr (gs_title g)), (''phase'', enc_phase (gs_phase g)),
                    (''roundsStarted'', jnat (gt_rounds_started t)), (''maxGoalRounds'', jnat (gs_max_rounds g))]
                    @ (case reason of None \<Rightarrow> [] | Some r \<Rightarrow> [(''blockedReason'', enc_reason r)]))),
                  (''activation'', JStr (if armed then ''armed'' else ''disarmed''))])))"

definition model_value :: "'p goal_env \<Rightarrow> ('p, json) goal_io" where
  "model_value env =
     go_bind (\<lambda>w. Some (sync_world env w)) (\<lambda>_.
     go_bind (go_read go_state) (\<lambda>st. go_lift (goal_view st)))"

definition current_goal :: "'p goal_env \<Rightarrow> ('p, goal_snapshot option) goal_io" where
  "current_goal env =
     go_bind (\<lambda>w. Some (sync_world env w)) (\<lambda>_. go_read (\<lambda>w. live_goal (go_state w)))"

section \<open>The compare-and-swap write\<close>

definition current_locked :: "goal_state \<Rightarrow> goal_ref \<Rightarrow> goal_error + goal_snapshot" where
  "current_locked st r =
     and_then (ok_or (GoalNotFound (gr_id r)) (map_of (gl_goals st) (gr_id r))) (\<lambda>g.
     if gs_tombstone g then Inl GoalTombstoned
     else if gs_reference g \<noteq> r then Inl GoalStale
     else Inr g)"

definition change_event_of :: "goal_codec \<Rightarrow> goal_change \<Rightarrow> u64 \<Rightarrow> u64 \<Rightarrow> session_event" where
  "change_event_of gk ch seq time =
     \<lparr>ev_type = ''goal/change'', ev_seq = seq, ev_time = time, ev_data = gd_change_to gk ch,
      ev_ignorable = None, ev_sources = None, ev_surface_op = None\<rparr>"

definition goal_append ::
  "'p goal_env \<Rightarrow> (u64 \<Rightarrow> session_event) \<Rightarrow> 'p goal_world \<Rightarrow> (session_error + unit) \<times> 'p goal_world" where
  "goal_append env build w0 =
     (case goal_now env w0 of (t, w1) \<Rightarrow>
        let w = interfere w1
        in case session_append (ge_codec env) (ge_ops env) (go_session w) (build t) (go_cancel w, go_disk w) of
             (Inl e, c, p) \<Rightarrow> (Inl e, w\<lparr>go_cancel := c, go_disk := p\<rparr>)
           | (Inr s, c, p) \<Rightarrow> (Inr (), w\<lparr>go_session := s, go_cancel := c, go_disk := p\<rparr>))"

definition write_times :: "u64 \<Rightarrow> goal_times option \<Rightarrow> goal_times" where
  "write_times now old =
     (case old of
        None \<Rightarrow> \<lparr>gt_created_at = now, gt_updated_at = now, gt_rounds_started = 0\<rparr>
      | Some t \<Rightarrow> t\<lparr>gt_updated_at := max now (gt_updated_at t)\<rparr>)"

definition written_change :: "goal_operation \<Rightarrow> goal_snapshot \<Rightarrow> goal_times \<Rightarrow> goal_block_reason option \<Rightarrow> goal_change" where
  "written_change op g t reason =
     (if op = OpClear then change_clear (gs_reference g) (gt_updated_at t) else change_snapshot op g t reason)"

definition commit_write ::
  "goal_operation \<Rightarrow> goal_snapshot \<Rightarrow> goal_times \<Rightarrow> goal_block_reason option \<Rightarrow> (string \<times> goal_snapshot) list
     \<Rightarrow> goal_state \<Rightarrow> goal_state" where
  "commit_write op g t reason candidate st =
     (let ident = gr_id (gs_reference g); n = min u64_max (gl_observed st + 1)
      in if op = OpClear
         then st\<lparr>gl_goals := candidate, gl_times := bt_remove ident (gl_times st),
                 gl_reasons := bt_remove ident (gl_reasons st), gl_current := None, gl_observed := n\<rparr>
         else st\<lparr>gl_goals := candidate, gl_times := bt_insert ident t (gl_times st),
                 gl_reasons := set_reason ident reason (gl_reasons st), gl_current := Some ident, gl_observed := n\<rparr>)"

text \<open>After a sequence gap: another writer was first; the state catches up and the write is tried again. \<open>None\<close>
  is the retry.\<close>

definition after_gap ::
  "'p goal_env \<Rightarrow> u64 \<Rightarrow> u64 \<Rightarrow> 'p goal_world \<Rightarrow> (goal_error + goal_snapshot) option \<times> 'p goal_world" where
  "after_gap env expected actual w0 =
     (let w = interfere w0
      in if actual \<ge> expected then (Some (Inl (GoalSession (SequenceGap expected actual))), w)
         else case next_seq (session_events (go_session w)) of
           Inl e \<Rightarrow> (Some (Inl (GoalSession e)), w)
         | Inr n \<Rightarrow>
             if n \<noteq> expected then (Some (Inl (GoalSession (SequenceGap expected actual))), w)
             else
               (case poll_goal w of
                  (Inl e, w') \<Rightarrow> (Some (Inl e), w')
                | (Inr _, w') \<Rightarrow>
                    (case sync_world env (interfere w') of
                       (Inl e, w'') \<Rightarrow> (Some (Inl e), w'')
                     | (Inr _, w'') \<Rightarrow> (None, w''))))"

definition write_attempt ::
  "'p goal_env \<Rightarrow> goal_ref option \<Rightarrow> goal_snapshot \<Rightarrow> goal_operation \<Rightarrow> goal_block_reason option \<Rightarrow> 'p goal_world
     \<Rightarrow> (goal_error + goal_snapshot) option \<times> 'p goal_world" where
  "write_attempt env expected g op reason w =
     (case and_then (validate_goal_operation (gl_goals (go_state w)) op g) (\<lambda>_.
                     apply_snapshot (gl_goals (go_state w)) expected g False) of
        Inl e \<Rightarrow> (Some (Inl e), w)
      | Inr candidate \<Rightarrow>
          (case goal_now env w of (now, w1) \<Rightarrow>
             let t = write_times now (map_of (gl_times (go_state w)) (gr_id (gs_reference g)));
                 ch = written_change op g t reason
             in case goal_append env (change_event_of (ge_goals env) ch (gl_observed (go_state w))) w1 of
                  (Inr _, w2) \<Rightarrow>
                    (Some (Inr g), w2\<lparr>go_state := commit_write op g t reason candidate (go_state w2)\<rparr>)
                | (Inl (SequenceGap a b), w2) \<Rightarrow> after_gap env a b w2
                | (Inl e, w2) \<Rightarrow> (Some (Inl (GoalSession e)), w2)))"

partial_function (option) write_loop ::
  "'p goal_env \<Rightarrow> goal_ref option \<Rightarrow> goal_snapshot \<Rightarrow> goal_operation \<Rightarrow> goal_block_reason option \<Rightarrow> ('p, goal_snapshot) goal_io" where
  "write_loop env expected g op reason w =
     (case write_attempt env expected g op reason w of
        (Some r, w') \<Rightarrow> Some (r, w')
      | (None, w') \<Rightarrow> write_loop env expected g op reason w')"

declare write_loop.simps [code]

definition blocked_reason_for ::
  "goal_state \<Rightarrow> goal_snapshot \<Rightarrow> goal_block_reason option \<Rightarrow> goal_error + goal_block_reason option" where
  "blocked_reason_for st g reason =
     (if gs_phase g = GoalBlocked then
        and_then (ok_or (GoalInvalid ''blocked goal lacks blockedReason'')
            (case reason of Some r \<Rightarrow> Some r | None \<Rightarrow> map_of (gl_reasons st) (gr_id (gs_reference g)))) (\<lambda>r.
        and_then (block_reason_normalized r) (\<lambda>r'. Inr (Some r')))
      else Inr None)"

definition write_locked ::
  "'p goal_env \<Rightarrow> goal_ref option \<Rightarrow> goal_snapshot \<Rightarrow> goal_operation \<Rightarrow> goal_block_reason option \<Rightarrow> ('p, goal_snapshot) goal_io" where
  "write_locked env expected g op reason =
     go_bind (\<lambda>w. Some (poll_goal w)) (\<lambda>_.
     go_bind (go_lift (goal_snapshot_validate g)) (\<lambda>_.
     go_bind (\<lambda>w. Some (blocked_reason_for (go_state w) g reason, w)) (\<lambda>why.
     write_loop env expected g op why)))"

definition arm_locked :: "goal_ref \<Rightarrow> u64 \<Rightarrow> ('p, u64) goal_io" where
  "arm_locked r cap w =
     (if \<not> (1 \<le> cap \<and> cap \<le> MAX_SAFE_INTEGER)
      then Some (Inl (GoalInvalid ''goal round cap must be a positive safe integer''), w)
      else case map_of (gl_goals (go_state w)) (gr_id r) of
        None \<Rightarrow> Some (Inl (GoalNotFound (gr_id r)), w)
      | Some g \<Rightarrow>
          if gs_reference g \<noteq> r then Some (Inl GoalStale, w)
          else if gs_tombstone g \<or> gs_phase g \<noteq> GoalActive then Some (Inl GoalInactive, w)
          else
            let k = bump_activation (gl_next_activation (go_state w));
                w1 = w\<lparr>go_state := (go_state w)\<lparr>gl_next_activation := k\<rparr>\<rparr>
            in case next_seq (session_events (go_session w1)) of
                 Inl e \<Rightarrow> Some (Inl (GoalSession e), w1)
               | Inr seq \<Rightarrow>
                   Some (Inr k, w1\<lparr>go_state := (go_state w1)\<lparr>gl_activation :=
                     Some \<lparr>ac_id = k, ac_reference = r, ac_max_rounds = cap, ac_rounds = 0, ac_first_seq = seq,
                       ac_last_user_seq = None, ac_queued_round = None\<rparr>\<rparr>\<rparr>))"

definition disarm_all :: "('p, unit) goal_io" where
  "disarm_all = go_change (\<lambda>w. w\<lparr>go_state := (go_state w)\<lparr>gl_activation := None\<rparr>\<rparr>)"

section \<open>Operations\<close>

definition DEFAULT_MAX_GOAL_ROUNDS :: u64 where
  "DEFAULT_MAX_GOAL_ROUNDS = 256"

definition normalize_objective :: "string \<Rightarrow> goal_error + string" where
  "normalize_objective objective =
     (if blank objective then Inl (GoalInvalid ''goal objective must be non-empty'') else Inr (trim objective))"

definition new_goal :: "string \<Rightarrow> string \<Rightarrow> u64 option \<Rightarrow> goal_snapshot" where
  "new_goal uuid title cap =
     \<lparr>gs_reference = \<lparr>gr_id = ''goal-'' @ uuid, gr_revision = 1\<rparr>, gs_phase = GoalActive, gs_title = title,
      gs_max_rounds = (case cap of None \<Rightarrow> DEFAULT_MAX_GOAL_ROUNDS | Some n \<Rightarrow> n), gs_tombstone = False\<rparr>"

definition goal_open :: "goal_state \<Rightarrow> bool" where
  "goal_open st \<longleftrightarrow> list_ex (\<lambda>(_, g). \<not> gs_tombstone g \<and> gs_phase g \<noteq> GoalComplete) (gl_goals st)"

definition goal_create :: "'p goal_env \<Rightarrow> string \<Rightarrow> u64 option \<Rightarrow> ('p, goal_snapshot) goal_io" where
  "goal_create env objective cap =
     go_bind (\<lambda>w. Some (goal_live w, w)) (\<lambda>_.
     go_bind (\<lambda>w. Some (poll_goal w)) (\<lambda>_.
     go_bind (go_lift (normalize_objective objective)) (\<lambda>title.
     let g = new_goal (ge_uuid env) title cap in
     go_bind (go_lift (goal_snapshot_validate g)) (\<lambda>_.
     go_bind (\<lambda>w. Some (sync_world env w)) (\<lambda>_.
     go_bind (\<lambda>w. Some (ensure (\<not> goal_open (go_state w)) GoalAlreadyExists, w)) (\<lambda>_.
     go_bind (write_locked env None g OpCreate None) (\<lambda>written.
     go_bind (\<lambda>w. Some (poll_goal w)) (\<lambda>_.
     go_bind (arm_locked (gs_reference written) (gs_max_rounds written)) (\<lambda>_.
     go_lift (Inr written))))))))))"

text \<open>The revision after the one the caller names, with the changes of an operation.\<close>

definition revised ::
  "'p goal_env \<Rightarrow> goal_ref \<Rightarrow> (goal_snapshot \<Rightarrow> 'p goal_world \<Rightarrow> goal_error + goal_snapshot) \<Rightarrow> ('p, goal_snapshot) goal_io" where
  "revised env r change =
     go_bind (go_enter env) (\<lambda>_.
     go_bind (\<lambda>w. Some (current_locked (go_state w) r, w)) (\<lambda>current.
     \<lambda>w. Some (change current w, w)))"

definition edited :: "string option \<Rightarrow> u64 option \<Rightarrow> goal_snapshot \<Rightarrow> goal_error + goal_snapshot" where
  "edited objective cap current =
     and_then (next_ref (gs_reference current)) (\<lambda>r.
     and_then (case objective of None \<Rightarrow> Inr (gs_title current) | Some text \<Rightarrow> normalize_objective text) (\<lambda>title.
     Inr (current\<lparr>gs_reference := r, gs_title := title,
                  gs_max_rounds := (case cap of None \<Rightarrow> gs_max_rounds current | Some n \<Rightarrow> n), gs_tombstone := False\<rparr>)))"

definition follow_edit :: "goal_ref \<Rightarrow> goal_snapshot \<Rightarrow> goal_state \<Rightarrow> goal_state" where
  "follow_edit r g st =
     st\<lparr>gl_activation := map_option (\<lambda>a. if ac_reference a = r
          then a\<lparr>ac_reference := gs_reference g, ac_max_rounds := gs_max_rounds g\<rparr> else a) (gl_activation st)\<rparr>"

definition goal_edit ::
  "'p goal_env \<Rightarrow> goal_ref \<Rightarrow> string option \<Rightarrow> u64 option \<Rightarrow> ('p, goal_snapshot) goal_io" where
  "goal_edit env r objective cap =
     (if objective = None \<and> cap = None
      then go_lift (Inl (GoalInvalid ''goal edit requires objective or maxGoalRounds''))
      else
        go_bind (revised env r (\<lambda>current _. edited objective cap current)) (\<lambda>g.
        go_bind (write_locked env (Some r) g OpEdit None) (\<lambda>written.
        go_bind (go_change (\<lambda>w. w\<lparr>go_state := follow_edit r written (go_state w)\<rparr>)) (\<lambda>_.
        go_lift (Inr written)))))"

definition moved_to :: "goal_phase \<Rightarrow> bool \<Rightarrow> goal_snapshot \<Rightarrow> goal_error + goal_snapshot" where
  "moved_to phase tombstone current =
     and_then (next_ref (gs_reference current)) (\<lambda>r.
     Inr (current\<lparr>gs_reference := r, gs_phase := phase, gs_tombstone := tombstone\<rparr>))"

definition phase_operation :: "goal_phase \<Rightarrow> goal_operation" where
  "phase_operation phase =
     (case phase of GoalPaused \<Rightarrow> OpPause | GoalActive \<Rightarrow> OpResume | GoalComplete \<Rightarrow> OpComplete | GoalBlocked \<Rightarrow> OpBlock)"

definition goal_transition ::
  "'p goal_env \<Rightarrow> goal_ref \<Rightarrow> goal_phase list \<Rightarrow> goal_phase \<Rightarrow> ('p, goal_snapshot) goal_io" where
  "goal_transition env r allowed phase =
     go_bind (revised env r (\<lambda>current _.
        and_then (ensure (gs_phase current \<in> set allowed) GoalInvalidTransition) (\<lambda>_. moved_to phase False current))) (\<lambda>g.
     go_bind (write_locked env (Some r) g (phase_operation phase) None) (\<lambda>written.
     go_bind disarm_all (\<lambda>_. go_lift (Inr written))))"

definition goal_pause :: "'p goal_env \<Rightarrow> goal_ref \<Rightarrow> ('p, goal_snapshot) goal_io" where
  "goal_pause env r = goal_transition env r [GoalActive] GoalPaused"

definition goal_complete :: "'p goal_env \<Rightarrow> goal_ref \<Rightarrow> ('p, goal_snapshot) goal_io" where
  "goal_complete env r = goal_transition env r [GoalActive, GoalPaused, GoalBlocked] GoalComplete"

definition goal_block :: "'p goal_env \<Rightarrow> goal_ref \<Rightarrow> goal_block_reason \<Rightarrow> ('p, goal_snapshot) goal_io" where
  "goal_block env r reason =
     go_bind (revised env r (\<lambda>current _.
        and_then (ensure (gs_phase current = GoalActive) GoalInvalidTransition) (\<lambda>_. moved_to GoalBlocked False current))) (\<lambda>g.
     go_bind (write_locked env (Some r) g OpBlock (Some reason)) (\<lambda>written.
     go_bind disarm_all (\<lambda>_. go_lift (Inr written))))"

definition may_resume :: "goal_state \<Rightarrow> goal_snapshot \<Rightarrow> bool" where
  "may_resume st current \<longleftrightarrow>
     gs_phase current \<in> {GoalActive, GoalPaused, GoalBlocked}
     \<and> \<not> (gs_phase current = GoalActive \<and> gl_activation st \<noteq> None)
     \<and> (case map_of (gl_times st) (gr_id (gs_reference current)) of
          None \<Rightarrow> True | Some t \<Rightarrow> gt_rounds_started t < gs_max_rounds current)"

definition goal_resume :: "'p goal_env \<Rightarrow> goal_ref \<Rightarrow> ('p, goal_snapshot) goal_io" where
  "goal_resume env r =
     go_bind (revised env r (\<lambda>current w.
        and_then (ensure (may_resume (go_state w) current) GoalInvalidTransition) (\<lambda>_. moved_to GoalActive False current))) (\<lambda>g.
     go_bind (write_locked env (Some r) g OpResume None) (\<lambda>written.
     go_bind (arm_locked (gs_reference written) (gs_max_rounds written)) (\<lambda>_.
     go_lift (Inr written))))"

definition goal_clear :: "'p goal_env \<Rightarrow> goal_ref \<Rightarrow> ('p, goal_snapshot) goal_io" where
  "goal_clear env r =
     go_bind (revised env r (\<lambda>current _. moved_to (gs_phase current) True current)) (\<lambda>g.
     go_bind (write_locked env (Some r) g OpClear None) (\<lambda>written.
     go_bind disarm_all (\<lambda>_. go_lift (Inr written))))"

definition goal_activate :: "'p goal_env \<Rightarrow> goal_ref \<Rightarrow> u64 \<Rightarrow> ('p, u64) goal_io" where
  "goal_activate env r cap = go_bind (go_enter env) (\<lambda>_. arm_locked r cap)"

definition inferred_operation :: "goal_state \<Rightarrow> goal_snapshot \<Rightarrow> goal_operation" where
  "inferred_operation st g =
     (if gs_tombstone g then OpClear
      else if gr_revision (gs_reference g) = 1 then OpCreate
      else case map_of (gl_goals st) (gr_id (gs_reference g)) of
        None \<Rightarrow> OpEdit
      | Some current \<Rightarrow>
          if gs_phase current = GoalActive \<and> gs_phase g = GoalPaused then OpPause
          else if gs_phase current \<noteq> GoalComplete \<and> gs_phase g = GoalComplete then OpComplete
          else if gs_phase current = GoalActive \<and> gs_phase g = GoalBlocked then OpBlock
          else if gs_phase current \<in> {GoalPaused, GoalBlocked} \<and> gs_phase g = GoalActive then OpResume
          else OpEdit)"

definition goal_write :: "'p goal_env \<Rightarrow> goal_ref option \<Rightarrow> goal_snapshot \<Rightarrow> ('p, goal_snapshot) goal_io" where
  "goal_write env expected g =
     go_bind (go_enter env) (\<lambda>_.
     go_bind (go_read (\<lambda>w. inferred_operation (go_state w) g)) (\<lambda>op.
     write_locked env expected g op None))"

section \<open>Rounds\<close>

definition attributed_user :: "session_event \<Rightarrow> bool" where
  "attributed_user e \<longleftrightarrow>
     ev_type e = ''user/message''
     \<and> Option.bind (Option.bind (json_get ''source'' (ev_data e)) (json_get ''kind'')) as_str = Some ''user''"

definition admitted_seq :: "activation \<Rightarrow> session_event list \<Rightarrow> u64 option" where
  "admitted_seq a es =
     (let after = (case ac_last_user_seq a of Some n \<Rightarrow> n | None \<Rightarrow> ac_first_seq a - 1)
      in map_option ev_seq (find_first (\<lambda>e. ac_first_seq a \<le> ev_seq e \<and> after < ev_seq e \<and> attributed_user e) es))"

definition admit_user_round :: "u64 \<Rightarrow> u64 \<Rightarrow> ('p, u64) goal_io" where
  "admit_user_round ident user_seq =
     go_bind (\<lambda>w. Some (poll_goal w)) (\<lambda>_.
     go_bind (\<lambda>w. Some (goal_live w, w)) (\<lambda>_.
     go_bind (\<lambda>w. Some (ok_or GoalInactive (gl_activation (go_state w)), w)) (\<lambda>a.
     if ac_id a \<noteq> ident then go_lift (Inl GoalInactive)
     else if ac_rounds a \<ge> ac_max_rounds a then go_lift (Inl GoalRoundCap)
     else
       go_bind (\<lambda>w. Some (ok_or (GoalNotFound (gr_id (ac_reference a)))
                            (map_of (gl_goals (go_state w)) (gr_id (ac_reference a))), w)) (\<lambda>g.
       if gs_reference g \<noteq> ac_reference a \<or> gs_phase g \<noteq> GoalActive \<or> gs_tombstone g then go_lift (Inl GoalInactive)
       else
         go_bind (\<lambda>w. Some (ok_or GoalInvalidRound (admitted_seq a (session_events (go_session w))), w)) (\<lambda>expected.
         if expected \<noteq> user_seq then go_lift (Inl GoalInvalidRound)
         else
           go_bind (go_change (\<lambda>w. w\<lparr>go_state := (go_state w)\<lparr>gl_activation :=
              Some (a\<lparr>ac_last_user_seq := Some user_seq, ac_rounds := ac_rounds a + 1\<rparr>)\<rparr>\<rparr>)) (\<lambda>_.
           go_lift (Inr (ac_rounds a + 1))))))))"

definition disarm :: "u64 \<Rightarrow> ('p, unit) goal_io" where
  "disarm ident =
     go_change (\<lambda>w. case gl_activation (go_state w) of
        Some a \<Rightarrow> if ac_id a = ident then w\<lparr>go_state := (go_state w)\<lparr>gl_activation := None\<rparr>\<rparr> else w
      | None \<Rightarrow> w)"

section \<open>The drive\<close>

datatype next_round = QueueRound goal_ref u64 string u64 | BlockAtCap goal_ref u64

definition reserve_round :: "u64 \<Rightarrow> goal_state \<Rightarrow> goal_state" where
  "reserve_round n st = st\<lparr>gl_activation := map_option (\<lambda>a. a\<lparr>ac_queued_round := Some n\<rparr>) (gl_activation st)\<rparr>"

text \<open>What a drive decides under the lock; \<open>None\<close> is the return without work.\<close>

definition plan_round :: "goal_state \<Rightarrow> goal_error + (next_round \<times> goal_state) option" where
  "plan_round st =
     (case gl_activation st of
        None \<Rightarrow> Inr None
      | Some a \<Rightarrow>
          if ac_queued_round a \<noteq> None then Inr None
          else
            and_then (ok_or (GoalNotFound (gr_id (ac_reference a))) (map_of (gl_goals st) (gr_id (ac_reference a)))) (\<lambda>g.
            if gs_reference g \<noteq> ac_reference a \<or> gs_tombstone g \<or> gs_phase g \<noteq> GoalActive then Inr None
            else
              and_then (ok_or (GoalInvalid ''goal lacks round counter'') (map_of (gl_times st) (gr_id (gs_reference g)))) (\<lambda>t.
              let n = gt_rounds_started t
              in Inr (Some (if n \<ge> gs_max_rounds g then (BlockAtCap (gs_reference g) (gs_max_rounds g), st)
                            else (QueueRound (gs_reference g) (n + 1) (gs_title g) (gs_max_rounds g), reserve_round (n + 1) st))))))"

definition round_text :: "(json \<Rightarrow> string) \<Rightarrow> string \<Rightarrow> u64 \<Rightarrow> u64 \<Rightarrow> string" where
  "round_text render objective n cap =
     ''<goal_round>'' @ [CHR 0x0A] @ ''Objective: '' @ render (JStr objective) @ [CHR 0x0A]
     @ ''Round: '' @ show_nat n @ ''/'' @ show_nat cap @ [CHR 0x0A, CHR 0x0A]
     @ ''Continue working toward the objective in this same session. Treat the current workspace, tool results, and durable session state as authoritative; inspect them instead of assuming earlier narration is still current. Make concrete progress and verify the result. Before claiming completion, gather evidence that the whole objective is achieved, read the current goal, and mark it complete. If work remains, leave the goal active for the next round. Follow the configured goal-tool policy before reporting a blocker.''
     @ [CHR 0x0A] @ ''</goal_round>''"

definition round_message :: "'p goal_env \<Rightarrow> goal_ref \<Rightarrow> u64 \<Rightarrow> string \<Rightarrow> u64 \<Rightarrow> message" where
  "round_message env r n objective cap =
     \<lparr>msg_id = ge_message_id env, msg_role = User, msg_content = [Text (round_text (ge_render env) objective n cap)],
      msg_source = SrcGoal (gr_id r) (gr_revision r) n\<rparr>"

definition queued_event :: "codec \<Rightarrow> message \<Rightarrow> u64 \<Rightarrow> u64 \<Rightarrow> session_event" where
  "queued_event cdc m seq time =
     \<lparr>ev_type = ''agent/inbox/enqueued'', ev_seq = seq, ev_time = time,
      ev_data = obj [(''target'', JStr ''next-turn''), (''message'', cd_message_to cdc m)],
      ev_ignorable = Some True, ev_sources = None, ev_surface_op = None\<rparr>"

definition clear_queued_round :: "goal_ref \<Rightarrow> u64 \<Rightarrow> ('p, unit) goal_io" where
  "clear_queued_round r n =
     go_change (\<lambda>w. case gl_activation (go_state w) of
        Some a \<Rightarrow>
          if ac_reference a = r \<and> ac_queued_round a = Some n
          then w\<lparr>go_state := (go_state w)\<lparr>gl_activation := Some (a\<lparr>ac_queued_round := None\<rparr>)\<rparr>\<rparr> else w
      | None \<Rightarrow> w)"

definition limit_reason :: "u64 \<Rightarrow> goal_block_reason" where
  "limit_reason cap =
     \<lparr>br_code = ''round-limit'', br_message = ''Goal reached its configured limit of '' @ show_nat cap @ '' rounds.''\<rparr>"

definition queue_failure :: "u64 \<Rightarrow> string \<Rightarrow> goal_block_reason" where
  "queue_failure n what =
     \<lparr>br_code = ''queue-failed'', br_message = ''Could not queue goal round '' @ show_nat n @ '': '' @ what @ '' failed.''\<rparr>"

definition give_up_round :: "'p goal_env \<Rightarrow> goal_ref \<Rightarrow> u64 \<Rightarrow> string \<Rightarrow> string \<Rightarrow> ('p, unit) goal_io" where
  "give_up_round env r n what message =
     go_bind (clear_queued_round r n) (\<lambda>_.
     go_bind (goal_block env r (queue_failure n what)) (\<lambda>_.
     go_lift (Inl (GoalInvalid message))))"

definition send_round :: "'p goal_env \<Rightarrow> message \<Rightarrow> 'p goal_world \<Rightarrow> (agent_error + unit) \<times> 'p goal_world" where
  "send_round env m w =
     (case agent_send (ge_wake env) m TFollowup True (go_agent w) of (r, a) \<Rightarrow> (r, w\<lparr>go_agent := a\<rparr>))"

text \<open>\<open>next_seq\<close> is read before the append takes the gate, so the append may find a gap.\<close>

definition queue_round :: "'p goal_env \<Rightarrow> goal_ref \<Rightarrow> u64 \<Rightarrow> message \<Rightarrow> ('p, unit) goal_io" where
  "queue_round env r n m =
     go_bind (\<lambda>w. Some (map_err GoalSession (next_seq (session_events (go_session w))), w)) (\<lambda>seq.
     \<lambda>w. case goal_append env (queued_event (ge_codec env) m seq) w of
        (Inl _, w') \<Rightarrow> give_up_round env r n ''durable queue append'' ''goal continuation queue append failed'' w'
      | (Inr _, w') \<Rightarrow>
          (case send_round env m w' of
             (Inl _, w'') \<Rightarrow> give_up_round env r n ''agent delivery'' ''goal continuation queue delivery failed'' w''
           | (Inr _, w'') \<Rightarrow> Some (Inr (), w'')))"

definition run_plan :: "'p goal_env \<Rightarrow> (next_round \<times> goal_state) option \<Rightarrow> ('p, unit) goal_io" where
  "run_plan env plan =
     (case plan of
        None \<Rightarrow> go_lift (Inr ())
      | Some (BlockAtCap r cap, _) \<Rightarrow> go_bind (goal_block env r (limit_reason cap)) (\<lambda>_. go_lift (Inr ()))
      | Some (QueueRound r n objective cap, st) \<Rightarrow>
          go_bind (go_change (\<lambda>w. w\<lparr>go_state := st\<rparr>)) (\<lambda>_.
          queue_round env r n (round_message env r n objective cap)))"

definition goal_drive :: "'p goal_env \<Rightarrow> agent_status \<Rightarrow> ('p, unit) goal_io" where
  "goal_drive env status =
     go_bind (\<lambda>w. Some (goal_live w, w)) (\<lambda>_.
     if status \<noteq> AgentIdle then go_lift (Inr ())
     else
       go_bind (\<lambda>w. Some (sync_world env w)) (\<lambda>_.
       go_bind (\<lambda>w. Some (plan_round (go_state w), w)) (run_plan env)))"

end
