(* ===== verification/Goal_Proofs.thy ===== *)
theory Goal_Proofs
  imports Goal_Service
begin

text \<open>
  The goal service against the log. \<open>world_ok\<close> says that the state of the service is the replay of the prefix
  of the log it has seen; \<open>safe_io\<close> that an operation returns and keeps it, whatever the other writers of the
  session do meanwhile. The compare-and-swap write is shown to replay to the state it commits.
\<close>

section \<open>A written change replays\<close>

text \<open>What the service relies on from its environment: payloads are read back, and a backend that reports a
  gap names the sequence number it was given.\<close>

locale goal_backend = goal_payloads "ge_goals env" for env :: "'p goal_env" +
  assumes append_gap: "pe_append (ge_ops env) x e (c, p) = (Inl (SequenceGap a b), c', p') \<Longrightarrow> b = ev_seq e"

lemma write_times_ok:
  assumes "goal_state_ok st" and "now \<le> MAX_SAFE_INTEGER"
  shows "gt_created_at (write_times now (map_of (gl_times st) i)) \<le> gt_updated_at (write_times now (map_of (gl_times st) i))
    \<and> gt_updated_at (write_times now (map_of (gl_times st) i)) \<le> MAX_SAFE_INTEGER
    \<and> gt_rounds_started (write_times now (map_of (gl_times st) i)) \<le> MAX_SAFE_INTEGER"
proof (cases "map_of (gl_times st) i")
  case None
  with assms(2) show ?thesis by (simp add: write_times_def)
next
  case (Some t)
  then obtain g where "map_of (gl_goals st) i = Some g" using goal_state_okD(2) [OF assms(1), of i] by force
  from goal_state_okD(1) [OF assms(1) this] Some assms(2) show ?thesis by (auto simp: write_times_def goal_ok_def)
qed

lemma wire_snapshot_written:
  assumes "goal_snapshot_validate g = Inr ()" "\<not> gs_tombstone g" "check_blocked_reason (gs_phase g) reason = Inr ()"
  shows "wire_snapshot (wire_from_snapshot g reason) = Inr (g, reason)"
proof -
  have "\<lparr>gs_reference = \<lparr>gr_id = gr_id (gs_reference g), gr_revision = gr_revision (gs_reference g)\<rparr>, gs_phase = gs_phase g,
      gs_title = gs_title g, gs_max_rounds = gs_max_rounds g, gs_tombstone = False\<rparr> = g"
    using assms(2) by simp
  with assms(1,3) show ?thesis by (simp add: wire_snapshot_def wire_from_snapshot_def Let_def)
qed

lemma succeeds_replay: "succeeds expected False g old \<Longrightarrow> succeeds None True g old"
  by (auto simp: succeeds_def split: option.splits)

lemma written_times_valid:
  assumes ok: "goal_state_ok st" and vo: "validate_goal_operation (gl_goals st) op g = Inr ()"
    and ap: "apply_snapshot (gl_goals st) expected g False = Inr cand" and "op \<noteq> OpClear"
  shows "validate_goal_times (gl_times st) op g (write_times now (map_of (gl_times st) (gr_id (gs_reference g)))) = Inr ()"
proof (cases "op = OpCreate")
  case True
  have "map_of (gl_goals st) (gr_id (gs_reference g)) = None"
    using created_is_new [OF vo [unfolded True] ap] goal_state_okD(1) [OF ok] by (simp add: goal_ok_def)
  from goal_state_okD(2) [OF ok this] True show ?thesis by (simp add: validate_goal_times_def write_times_def)
next
  case False
  from vo False obtain current where c: "map_of (gl_goals st) (gr_id (gs_reference g)) = Some current" "\<not> gs_tombstone current"
    by (elim operation_Inr)
  from goal_state_okD(1) [OF ok c(1)] c(2) obtain t where "map_of (gl_times st) (gr_id (gs_reference g)) = Some t"
    by (auto simp: goal_ok_def split: option.splits)
  with False show ?thesis by (simp add: validate_goal_times_def write_times_def)
qed

context goal_payloads
begin

lemma written_change_applies:
  assumes ok: "goal_state_ok st" and vo: "validate_goal_operation (gl_goals st) op g = Inr ()"
    and ap: "apply_snapshot (gl_goals st) expected g False = Inr cand"
    and why: "check_blocked_reason (gs_phase g) reason = Inr ()" and now: "now \<le> MAX_SAFE_INTEGER"
    and t: "t = write_times now (map_of (gl_times st) (gr_id (gs_reference g)))"
    and e: "ev_type e = ''goal/change''" "ev_data e = gd_change_to gk (written_change op g t reason)"
  obtains st' where "apply_goal_event cdc gk st e = Inr st'" "ledger st' = ledger (commit_write op g t reason cand st)"
proof -
  have dec: "gd_change_from gk (ev_data e) = Some (written_change op g t reason)"
    unfolding e(2) by (rule change_roundtrip) (simp add: written_change_def change_clear_def change_snapshot_def)
  have g: "goal_snapshot_validate g = Inr ()" and cand: "cand = bt_insert (gr_id (gs_reference g)) g (gl_goals st)"
    and replay: "apply_snapshot (gl_goals st) None g True = Inr cand"
    using ap succeeds_replay by (auto simp: apply_snapshot_Inr)
  note times = write_times_ok [OF ok now, of "gr_id (gs_reference g)", folded t]
  have "\<exists>st'. apply_change gk st e = Inr st' \<and> ledger st' = ledger (commit_write op g t reason cand st)"
  proof (cases "op = OpClear")
    case True
    with vo obtain current where c: "map_of (gl_goals st) (gr_id (gs_reference g)) = Some current"
      "operation_permits OpClear current g" by (metis goal_operation.distinct(11) operation_Inr)
    then have "cleared_snapshot (gs_reference g) current = g"
      by (auto simp: operation_permits_def cleared_snapshot_def Let_def)
    moreover have "validate_shape (written_change op g t reason) = Inr ()"
      using True g times by (simp add: validate_shape_def written_change_def change_clear_def goal_snapshot_validate_Inr)
    ultimately show ?thesis
      using e(1) dec c vo replay True
      by (simp add: apply_change_def apply_clear_def written_change_def change_clear_def commit_write_def Let_def ledger_def)
  next
    case False
    have kept: "\<not> gs_tombstone g" using operation_keeps [OF vo] False by simp
    have shape: "validate_shape (written_change op g t reason) = Inr ()"
      using False times why by (simp add: validate_shape_def written_change_def change_snapshot_def wire_from_snapshot_def)
    have tm: "change_times (written_change op g t reason) = Inr t"
      using False by (simp add: change_times_def written_change_def change_snapshot_def)
    show ?thesis
      using e(1) dec shape tm wire_snapshot_written [OF g kept why] vo written_times_valid [OF ok vo ap False, of now, folded t] replay False
      by (simp add: apply_change_def apply_written_def written_change_def change_snapshot_def commit_write_def Let_def ledger_def)
  qed
  then show ?thesis using that e(1) by (auto simp: apply_goal_event_def apply_goal_round_def)
qed

end

section \<open>The state tracks the log\<close>

definition tracks :: "codec \<Rightarrow> goal_codec \<Rightarrow> session_event list \<Rightarrow> goal_state \<Rightarrow> bool" where
  "tracks cdc gk es st \<longleftrightarrow>
     gl_observed st \<le> length es
     \<and> (\<exists>st0. replay_goals cdc gk (take (gl_observed st) es) = Inr st0 \<and> ledger st0 = ledger st)"

lemma tracks_ok: "tracks cdc gk es st \<Longrightarrow> goal_state_ok st"
  unfolding tracks_def using goal_state_ok_ledger replay_goals_ok by blast

lemma tracks_append: "tracks cdc gk es st \<Longrightarrow> tracks cdc gk (es @ added) st"
  by (auto simp: tracks_def)

lemma tracks_cong:
  "ledger st = ledger st' \<Longrightarrow> gl_observed st = gl_observed st' \<Longrightarrow> tracks cdc gk es st = tracks cdc gk es st'"
  by (simp add: tracks_def)

text \<open>Catching up with the log gives what reading the whole log from the start gives, error for error.\<close>

lemma sync_is_replay:
  assumes "tracks cdc gk es st"
  shows "map_sum id ledger (sync_locked cdc gk es st) = map_sum id ledger (replay_goals cdc gk es)"
proof -
  from assms obtain st0 where r: "replay_goals cdc gk (take (gl_observed st) es) = Inr st0" and l: "ledger st0 = ledger st"
    and n: "gl_observed st \<le> length es" by (auto simp: tracks_def)
  have "replay_goals cdc gk es = try_fold (apply_goal_event cdc gk) st0 (drop (gl_observed st) es)"
    using r by (metis and_then.simps(2) append_take_drop_id replay_goals_def try_fold_append)
  then have "map_sum id ledger (replay_goals cdc gk es) =
      map_sum id ledger (try_fold (apply_goal_event cdc gk) st (drop (gl_observed st) es))"
    by (simp only: fold_ledger [OF l])
  moreover have "map_sum id ledger (and_then x (\<lambda>c. Inr (c\<lparr>gl_observed := k\<rparr>))) = map_sum id ledger x" for x :: "goal_error + goal_state" and k
    by (cases x) simp_all
  ultimately show ?thesis using n by (auto simp: sync_locked_def)
qed

lemma sync_tracks:
  assumes "tracks cdc gk es st" and "sync_locked cdc gk es st = Inr st'"
  shows "tracks cdc gk es st'" "gl_observed st' = length es"
proof -
  show o: "gl_observed st' = length es" using assms(2) by (auto simp: sync_locked_def split: if_splits)
  from sync_is_replay [OF assms(1)] assms(2) obtain x where "replay_goals cdc gk es = Inr x" "ledger x = ledger st'"
    by (cases "replay_goals cdc gk es") auto
  with o show "tracks cdc gk es st'" by (simp add: tracks_def)
qed

section \<open>Worlds\<close>

text \<open>Another writer extends the session, which stays well-formed.\<close>

definition foreign :: "codec \<Rightarrow> (session \<times> 'p \<Rightarrow> session \<times> 'p) \<Rightarrow> bool" where
  "foreign cdc f \<longleftrightarrow>
     (\<forall>s p s' p'. session_ok cdc s \<longrightarrow> f (s, p) = (s', p') \<longrightarrow>
        session_ok cdc s' \<and> ss_header s' = ss_header s \<and> (\<exists>added. session_events s' = session_events s @ added))"

definition world_ok :: "'p goal_env \<Rightarrow> 'p goal_world \<Rightarrow> bool" where
  "world_ok env w \<longleftrightarrow>
     session_ok (ge_codec env) (go_session w) \<and> list_all (foreign (ge_codec env)) (go_moves w)
     \<and> tracks (ge_codec env) (ge_goals env) (session_events (go_session w)) (go_state w)"

definition evolves :: "'p goal_env \<Rightarrow> 'p goal_world \<Rightarrow> 'p goal_world \<Rightarrow> bool" where
  "evolves env w w' \<longleftrightarrow>
     world_ok env w' \<and> ss_header (go_session w') = ss_header (go_session w)
     \<and> length (go_moves w') \<le> length (go_moves w)
     \<and> (\<exists>added. session_events (go_session w') = session_events (go_session w) @ added)"

lemma evolves_refl: "world_ok env w \<Longrightarrow> evolves env w w"
  by (simp add: evolves_def)

lemma evolves_trans: "evolves env w1 w2 \<Longrightarrow> evolves env w2 w3 \<Longrightarrow> evolves env w1 w3"
  by (auto simp: evolves_def)

lemma evolves_ok: "evolves env w w' \<Longrightarrow> world_ok env w'"
  by (simp add: evolves_def)

lemma evolves_same:
  assumes "world_ok env w" "go_session w' = go_session w" "go_moves w' = go_moves w"
    "ledger (go_state w') = ledger (go_state w)" "gl_observed (go_state w') = gl_observed (go_state w)"
  shows "evolves env w w'"
  using assms tracks_cong [OF assms(4,5)] by (simp add: evolves_def world_ok_def)

lemma evolves_interfere:
  assumes "world_ok env w"
  shows "evolves env w (interfere w)"
proof (cases "go_moves w")
  case Nil
  with assms show ?thesis by (simp add: interfere_def evolves_refl)
next
  case (Cons f fs)
  obtain s p where f: "f (go_session w, go_disk w) = (s, p)" by (rule prod.exhaust)
  from assms Cons have "foreign (ge_codec env) f" "session_ok (ge_codec env) (go_session w)" by (simp_all add: world_ok_def)
  with f obtain added where "session_ok (ge_codec env) s" "ss_header s = ss_header (go_session w)"
    "session_events s = session_events (go_session w) @ added"
    unfolding foreign_def by blast
  with assms Cons f show ?thesis by (auto simp: interfere_def evolves_def world_ok_def intro: tracks_append)
qed

lemma interfere_moves: "length (go_moves (interfere w)) = length (go_moves w) - 1"
  by (simp add: interfere_def split: list.split prod.split)

lemma interfere_same [simp]:
  "go_state (interfere w) = go_state w" "go_moves w = [] \<Longrightarrow> interfere w = w"
  by (simp_all add: interfere_def split: list.split prod.split)

lemma poll_goal_same:
  assumes "poll_goal w = (r, w')"
  shows "go_session w' = go_session w" "go_state w' = go_state w" "go_moves w' = go_moves w"
  using assms by (auto simp: poll_goal_def split: sum.splits)

lemma evolves_poll: "poll_goal w = (r, w') \<Longrightarrow> world_ok env w \<Longrightarrow> evolves env w w'"
  by (rule evolves_same) (simp_all add: poll_goal_same)

lemma evolves_sync:
  assumes "sync_world env w = (r, w')" and "world_ok env w"
  shows "evolves env w w'" and "r = Inr () \<Longrightarrow> gl_observed (go_state w') = length (session_events (go_session w'))"
    and "go_moves w' = go_moves w"
proof -
  let ?sync = "sync_locked (ge_codec env) (ge_goals env) (session_events (go_session w)) (go_state w)"
  have "evolves env w w' \<and> (r = Inr () \<longrightarrow> gl_observed (go_state w') = length (session_events (go_session w'))) \<and> go_moves w' = go_moves w"
  proof (cases ?sync)
    case (Inl e)
    with assms show ?thesis by (auto simp: sync_world_def evolves_refl)
  next
    case (Inr st)
    from assms(2) have "tracks (ge_codec env) (ge_goals env) (session_events (go_session w)) (go_state w)" by (simp add: world_ok_def)
    from sync_tracks [OF this Inr] assms Inr show ?thesis by (auto simp: sync_world_def evolves_def world_ok_def)
  qed
  then show "evolves env w w'" "r = Inr () \<Longrightarrow> gl_observed (go_state w') = length (session_events (go_session w'))"
    "go_moves w' = go_moves w" by simp_all
qed

lemma next_seq_length:
  assumes "session_ok cdc s" and "next_seq (session_events s) = Inr n"
  shows "n = length (session_events s)"
proof (cases "session_events s = []")
  case True
  with assms(2) show ?thesis by (simp add: next_seq_def)
next
  case False
  have "seqs_contiguous (session_events s)" using session_ok_wf [OF assms(1)] by (simp add: session_wf_def)
  with False next_seq_Inr [OF assms(2)] show ?thesis by (simp add: last_conv_nth seqs_contiguous_nth)
qed

lemma append_length:
  assumes "session_append cdc ops s e (c, p) = (Inr s', c', p')" and "session_ok cdc s"
  shows "ev_seq e = length (session_events s)" "session_ok cdc s'" "ss_header s' = ss_header s"
    "session_events s' = session_events s @ [e]" "ev_seq e \<le> MAX_SAFE_INTEGER"
proof -
  from assms(1) obtain c1 where a: "append_under_gate cdc ops s e None (c1, p) = (Inr s', c', p')"
    unfolding session_append_def by (elim append_inner_cases) auto
  then obtain pr where "append_checks cdc (ss_header s) (ss_state s) e None = Inr pr" by (elim append_under_gate_Inr)
  then have ac: "admission_checks cdc (ss_header s) (ss_state s) e = Inr pr" by (simp add: append_checks_def)
  from event_validate_seq [OF admission_checks_Inr(1) [OF ac]] show "ev_seq e \<le> MAX_SAFE_INTEGER" .
  note ac
  moreover have "seqs_contiguous (session_events s)" using session_ok_wf [OF assms(2)] by (simp add: session_wf_def)
  ultimately show "ev_seq e = length (session_events s)" by (rule admission_seq)
  show "session_ok cdc s'" "ss_header s' = ss_header s" "session_events s' = session_events s @ [e]"
    using append_under_gate_ok [OF a assms(2)] append_under_gate_extends [OF a] by simp_all
qed

lemma append_cases:
  assumes "goal_append env build w = (r, w')" and "world_ok env w"
  obtains (Refused) e c p w1 t where "r = Inl e" "evolves env w w1" "go_state w1 = go_state w"
      "length (go_moves w1) = length (go_moves w) - 1" "w' = w1\<lparr>go_cancel := c, go_disk := p\<rparr>"
      "session_append (ge_codec env) (ge_ops env) (go_session w1) (build t) (go_cancel w1, go_disk w1) = (Inl e, c, p)"
      "go_moves w = [] \<longrightarrow> go_session w1 = go_session w"
  | (Done) w1 t where "r = Inr ()" "evolves env w w1" "go_state w1 = go_state w" "go_state w' = go_state w"
      "go_moves w' = go_moves w1" "session_ok (ge_codec env) (go_session w')"
      "ss_header (go_session w') = ss_header (go_session w)" "ev_seq (build t) = length (session_events (go_session w1))"
      "session_events (go_session w') = session_events (go_session w1) @ [build t]" "ev_seq (build t) \<le> MAX_SAFE_INTEGER"
proof -
  obtain t w0 where n: "goal_now env w = (t, w0)" by (rule prod.exhaust)
  have w0: "evolves env w w0" "go_state w0 = go_state w" "go_moves w0 = go_moves w" "go_session w0 = go_session w" "t \<le> MAX_SAFE_INTEGER"
    using n assms(2) by (auto simp: goal_now_def intro: evolves_same)
  let ?w = "interfere w0"
  have w1: "evolves env w ?w" "go_state ?w = go_state w" "length (go_moves ?w) = length (go_moves w) - 1"
    "go_moves w = [] \<longrightarrow> go_session ?w = go_session w"
    using evolves_trans [OF w0(1) evolves_interfere [OF evolves_ok [OF w0(1)]]] w0 by (simp_all add: interfere_moves)
  obtain x c p where a: "session_append (ge_codec env) (ge_ops env) (go_session ?w) (build t) (go_cancel ?w, go_disk ?w) = (x, c, p)"
    by (metis prod.exhaust)
  show ?thesis
  proof (cases x)
    case (Inl e)
    with a assms(1) n w1 show ?thesis by (intro Refused [where e = e and c = c and p = p and ?w1.0 = ?w and t = t]) (simp_all add: goal_append_def)
  next
    case (Inr s)
    have "session_ok (ge_codec env) (go_session ?w)" using w1(1) by (simp add: evolves_def world_ok_def)
    from append_length [OF a [unfolded Inr] this] a Inr assms(1) n w1 show ?thesis
      by (intro Done [of ?w t]) (auto simp: goal_append_def evolves_def)
  qed
qed

section \<open>The write\<close>

text \<open>A successful write extended the log by one event that swapped exactly the expected revision for the new one,
  at the moment it was appended.\<close>

definition swapped :: "'p goal_env \<Rightarrow> goal_ref option \<Rightarrow> goal_snapshot \<Rightarrow> 'p goal_world \<Rightarrow> 'p goal_world \<Rightarrow> bool" where
  "swapped env expected g w w' \<longleftrightarrow>
     (\<exists>log e st st'. session_events (go_session w') = log @ [e] \<and> (\<exists>added. log = session_events (go_session w) @ added)
        \<and> replay_goals (ge_codec env) (ge_goals env) log = Inr st
        \<and> succeeds expected False g (map_of (gl_goals st) (gr_id (gs_reference g)))
        \<and> replay_goals (ge_codec env) (ge_goals env) (log @ [e]) = Inr st'
        \<and> map_of (gl_goals st') (gr_id (gs_reference g)) = Some g)"

definition write_rank :: "'p goal_world \<Rightarrow> nat" where
  "write_rank w = 2 * length (go_moves w) + (if gl_observed (go_state w) = length (session_events (go_session w)) then 0 else 1)"

text \<open>An operation that returns and keeps \<open>world_ok\<close>, for every behaviour of the other writers.\<close>

definition safe_io :: "'p goal_env \<Rightarrow> ('p, 'a) goal_io \<Rightarrow> bool" where
  "safe_io env m \<longleftrightarrow> (\<forall>w. world_ok env w \<longrightarrow> (\<exists>r w'. m w = Some (r, w') \<and> evolves env w w'))"

context goal_backend
begin

lemma append_reports_seq:
  assumes "session_append cdc (ge_ops env) s e (c, p) = (Inl (SequenceGap a b), c', p')"
    and e: "ev_type e = ''goal/change''" "ev_sources e = None"
  shows "b = ev_seq e"
proof -
  from assms(1) obtain c1 where "append_under_gate cdc (ge_ops env) s e None (c1, p) = (Inl (SequenceGap a b), c', p')"
    unfolding session_append_def by (elim append_inner_cases) auto
  then consider "append_checks cdc (ss_header s) (ss_state s) e None = Inl (SequenceGap a b)"
    | c2 where "pe_append (ge_ops env) (session_id s) e (c2, p) = (Inl (SequenceGap a b), c', p')"
    by (cases c1 rule: check_cancellation.cases) (auto simp: append_under_gate_def io_inversion io_poll_def)
  then show ?thesis
  proof cases
    case 1
    then show ?thesis
      by (auto simp: append_checks_def admission_checks_def and_then_Inl map_err_Inl validate_seed_boundary_def validate_sources_def
            decode_surface_event_def surface_role_def validate_surface_operation_def is_inbox_event_def next_seq_def e
            INBOX_ENQUEUED_EVENT_def INBOX_SPLICED_EVENT_def split: if_splits)
  next
    case 2
    then show ?thesis by (rule append_gap)
  qed
qed

lemma after_gap_cases:
  assumes "after_gap env a b w = (r, w')" and "world_ok env w"
  obtains (Failed) e where "r = Some (Inl e)" "evolves env w w'"
  | (Again) w1 where "r = None" "evolves env w w1" "evolves env w w'" "b < a" "next_seq (session_events (go_session w1)) = Inr a"
      "gl_observed (go_state w') = length (session_events (go_session w'))" "go_moves w = [] \<Longrightarrow> go_session w1 = go_session w"
proof -
  let ?w = "interfere w"
  note ev = evolves_interfere [OF assms(2)]
  obtain x w2 where p: "poll_goal ?w = (x, w2)" by (rule prod.exhaust)
  note ev2 = evolves_trans [OF ev evolves_poll [OF p evolves_ok [OF ev]]]
  note ev3 = evolves_trans [OF ev2 evolves_interfere [OF evolves_ok [OF ev2]]]
  obtain y w3 where s: "sync_world env (interfere w2) = (y, w3)" by (rule prod.exhaust)
  note sync = evolves_sync [OF s evolves_ok [OF ev3]]
  note ev4 = evolves_trans [OF ev3 sync(1)]
  consider "r \<noteq> None" | "r = None" "x = Inr ()" "y = Inr ()" "w' = w3" "b < a" "next_seq (session_events (go_session ?w)) = Inr a"
    using assms(1) p s by (cases x; cases y) (auto simp: after_gap_def Let_def split: if_splits sum.splits)
  then show ?thesis
  proof cases
    case 1
    with assms(1) p s ev ev2 ev4 show ?thesis
      by (intro Failed [of "projl (the r)"])
        (auto simp: after_gap_def Let_def split: if_splits sum.splits)
  next
    case 2
    with ev ev4 sync(2) show ?thesis by (intro Again [of ?w]) simp_all
  qed
qed

lemma attempt_cases:
  assumes a: "write_attempt env expected g op reason w = (r, w')" and w: "world_ok env w"
    and why: "check_blocked_reason (gs_phase g) reason = Inr ()"
  obtains (Failed) e where "r = Some (Inl e)" "evolves env w w'"
  | (Again) "r = None" "evolves env w w'" "gl_observed (go_state w') = length (session_events (go_session w'))"
      "go_moves w = [] \<Longrightarrow> gl_observed (go_state w) \<noteq> length (session_events (go_session w))"
      "go_moves w \<noteq> [] \<Longrightarrow> length (go_moves w') < length (go_moves w)"
  | (Written) e where "r = Some (Inr g)" "evolves env w w'" "gl_observed (go_state w) = length (session_events (go_session w))"
      "session_events (go_session w') = session_events (go_session w) @ [e]"
      "gl_observed (go_state w') = length (session_events (go_session w'))"
      "validate_goal_operation (gl_goals (go_state w)) op g = Inr ()"
      "succeeds expected False g (map_of (gl_goals (go_state w)) (gr_id (gs_reference g)))"
      "map_of (gl_goals (go_state w')) (gr_id (gs_reference g)) = Some g"
      "gl_activation (go_state w') = gl_activation (go_state w)"
proof (cases "and_then (validate_goal_operation (gl_goals (go_state w)) op g) (\<lambda>_. apply_snapshot (gl_goals (go_state w)) expected g False)")
  case (Inl e)
  with a have "r = Some (Inl e)" "w' = w" by (simp_all add: write_attempt_def)
  with evolves_refl [OF w] Failed show ?thesis by blast
next
  case (Inr cand)
  then have vo: "validate_goal_operation (gl_goals (go_state w)) op g = Inr ()"
    and ap: "apply_snapshot (gl_goals (go_state w)) expected g False = Inr cand" by auto
  obtain now w1 where n: "goal_now env w = (now, w1)" by (rule prod.exhaust)
  have w1: "evolves env w w1" "go_state w1 = go_state w" "go_moves w1 = go_moves w" "go_session w1 = go_session w" "now \<le> MAX_SAFE_INTEGER"
    using n w by (auto simp: goal_now_def intro: evolves_same)
  define t where "t = write_times now (map_of (gl_times (go_state w)) (gr_id (gs_reference g)))"
  let ?build = "change_event_of (ge_goals env) (written_change op g t reason) (gl_observed (go_state w))"
  obtain x w2 where ga: "goal_append env ?build w1 = (x, w2)" by (rule prod.exhaust)
  have run: "write_attempt env expected g op reason w =
      (case x of Inr _ \<Rightarrow> (Some (Inr g), w2\<lparr>go_state := commit_write op g t reason cand (go_state w2)\<rparr>)
       | Inl (SequenceGap a b) \<Rightarrow> after_gap env a b w2 | Inl e \<Rightarrow> (Some (Inl (GoalSession e)), w2))"
    using Inr n ga by (simp add: write_attempt_def t_def split: sum.split session_error.split)
  from ga evolves_ok [OF w1(1)] show ?thesis
  proof (cases rule: append_cases)
    case (Refused e c p w1' time)
    have ev: "evolves env w w2"
      using Refused(2,5) w1(1) by (intro evolves_trans [OF w1(1)] evolves_trans [OF Refused(2)] evolves_same) (simp_all add: evolves_def)
    show ?thesis
    proof (cases "\<exists>k l. e = SequenceGap k l")
      case False
      with a run Refused(1) have "r = Some (Inl (GoalSession e))" "w' = w2" by (cases e; simp)+
      with Failed ev show ?thesis by blast
    next
      case True
      then obtain k l where e: "e = SequenceGap k l" by blast
      have l: "l = gl_observed (go_state w)"
        using append_reports_seq [OF Refused(6) [unfolded e]] by (simp add: change_event_of_def)
      from a run Refused(1) e have "after_gap env k l w2 = (r, w')" by simp
      then show ?thesis using evolves_ok [OF ev]
      proof (cases rule: after_gap_cases)
        case (Failed err)
        with that(1) evolves_trans [OF ev] show ?thesis by blast
      next
        case (Again w3)
        have len: "length (go_moves w2) = length (go_moves w) - 1" using Refused(4,5) w1(3) by simp
        have "gl_observed (go_state w) \<noteq> length (session_events (go_session w))" if none: "go_moves w = []"
        proof -
          have "go_moves w2 = []" "go_session w2 = go_session w" using none len Refused(5,7) w1(3,4) by simp_all
          then have "go_session w3 = go_session w" using Again(7) by simp
          moreover have "session_ok (ge_codec env) (go_session w)" using w by (simp add: world_ok_def)
          ultimately have "k = length (session_events (go_session w))" using next_seq_length Again(5) by metis
          with Again(4) l show ?thesis by simp
        qed
        moreover have "length (go_moves w') < length (go_moves w)" if "go_moves w \<noteq> []"
          using that len Again(3) by (cases "go_moves w") (auto simp: evolves_def)
        ultimately show ?thesis using that(2) Again evolves_trans [OF ev Again(3)] by blast
      qed
    qed
  next
    case (Done w1' time)
    from Done(8) have len: "length (session_events (go_session w1')) = gl_observed (go_state w)" by (simp add: change_event_of_def)
    have tr: "tracks (ge_codec env) (ge_goals env) (session_events (go_session w)) (go_state w)" using w by (simp add: world_ok_def)
    from Done(2) w1(4) obtain added where added: "session_events (go_session w1') = session_events (go_session w) @ added"
      by (auto simp: evolves_def)
    have "gl_observed (go_state w) \<le> length (session_events (go_session w))" using tr by (simp add: tracks_def)
    moreover have "length (session_events (go_session w1')) = length (session_events (go_session w)) + length added" using added by simp
    ultimately have "length added = 0" using len by linarith
    with added len have same: "session_events (go_session w1') = session_events (go_session w)"
      and obs: "gl_observed (go_state w) = length (session_events (go_session w))" by simp_all
    let ?e = "?build time" and ?st = "commit_write op g t reason cand (go_state w)"
    have ev: "session_events (go_session w2) = session_events (go_session w) @ [?e]" using Done(9) same by simp
    obtain st' where ape: "apply_goal_event (ge_codec env) (ge_goals env) (go_state w) ?e = Inr st'" and led: "ledger st' = ledger ?st"
      by (rule written_change_applies [OF tracks_ok [OF tr] vo ap why w1(5) t_def, of ?e]) (simp_all add: change_event_of_def)
    have obs': "gl_observed ?st = length (session_events (go_session w2))"
      using obs ev Done(10) by (simp add: commit_write_def Let_def change_event_of_def MAX_SAFE_INTEGER_def u64_max_def)
    from tr obs obtain st0 where "replay_goals (ge_codec env) (ge_goals env) (session_events (go_session w)) = Inr st0"
      "ledger st0 = ledger (go_state w)" by (auto simp: tracks_def)
    with apply_event_ledger [of st0 "go_state w" "ge_codec env" "ge_goals env" ?e] ape led obtain st1 where
      "replay_goals (ge_codec env) (ge_goals env) (session_events (go_session w) @ [?e]) = Inr st1" "ledger st1 = ledger ?st"
      by (cases "apply_goal_event (ge_codec env) (ge_goals env) st0 ?e") (auto simp: replay_goals_def try_fold_append)
    with obs' ev have tr': "tracks (ge_codec env) (ge_goals env) (session_events (go_session w2)) ?st" by (simp add: tracks_def)
    have w': "r = Some (Inr g)" "w' = w2\<lparr>go_state := ?st\<rparr>" using a run Done(1,4) w1(2) by simp_all
    have "evolves env w w'"
      using Done(2,5,6,7) w1 ev tr' w' by (auto simp: evolves_def world_ok_def)
    moreover have "map_of (gl_goals ?st) (gr_id (gs_reference g)) = Some g" "gl_activation ?st = gl_activation (go_state w)"
      using ap by (simp_all add: commit_write_def Let_def apply_snapshot_Inr)
    ultimately show ?thesis
      using that(3) [of ?e] w' obs obs' ev vo ap by (simp add: apply_snapshot_Inr)
  qed
qed

lemma tracks_synced:
  assumes "world_ok env w" "gl_observed (go_state w) = length (session_events (go_session w))"
  obtains st where "replay_goals (ge_codec env) (ge_goals env) (session_events (go_session w)) = Inr st" "gl_goals st = gl_goals (go_state w)"
  using assms by (auto simp: world_ok_def tracks_def ledger_eq)

lemma write_loop_returns:
  assumes "world_ok env w" and why: "check_blocked_reason (gs_phase g) reason = Inr ()"
  shows "\<exists>r w'. write_loop env expected g op reason w = Some (r, w') \<and> evolves env w w'
    \<and> (\<forall>x. r = Inr x \<longrightarrow> x = g \<and> swapped env expected g w w' \<and> gl_observed (go_state w') = length (session_events (go_session w')))"
  using assms(1)
proof (induction w rule: measure_induct_rule [of write_rank])
  case (less w)
  obtain r w' where a: "write_attempt env expected g op reason w = (r, w')" by (rule prod.exhaust)
  from a less.prems why show ?case
  proof (cases rule: attempt_cases)
    case (Failed e)
    with a show ?thesis by (simp add: write_loop.simps [of env expected g op reason w])
  next
    case Again
    then have "write_rank w' < write_rank w" by (cases "go_moves w = []") (auto simp: write_rank_def evolves_def)
    from less.IH [OF this evolves_ok [OF Again(2)]] obtain r2 w2 where
      "write_loop env expected g op reason w' = Some (r2, w2)" "evolves env w' w2"
      "\<forall>x. r2 = Inr x \<longrightarrow> x = g \<and> swapped env expected g w' w2 \<and> gl_observed (go_state w2) = length (session_events (go_session w2))"
      by blast
    moreover have "swapped env expected g w' w2 \<Longrightarrow> swapped env expected g w w2"
      using Again(2) by (fastforce simp: swapped_def evolves_def)
    ultimately show ?thesis
      using a Again(1) evolves_trans [OF Again(2)] by (auto simp: write_loop.simps [of env expected g op reason w])
  next
    case (Written e)
    from tracks_synced [OF less.prems Written(3)] obtain st where st:
      "replay_goals (ge_codec env) (ge_goals env) (session_events (go_session w)) = Inr st" "gl_goals st = gl_goals (go_state w)" .
    from tracks_synced [OF evolves_ok [OF Written(2)] Written(5)] obtain st' where st':
      "replay_goals (ge_codec env) (ge_goals env) (session_events (go_session w')) = Inr st'" "gl_goals st' = gl_goals (go_state w')" .
    have "swapped env expected g w w'"
      unfolding swapped_def using st st' Written(4,7,8)
      by (intro exI [of _ "session_events (go_session w)"] exI [of _ e] exI [of _ st] exI [of _ st']) simp
    with a Written show ?thesis by (simp add: write_loop.simps [of env expected g op reason w])
  qed
qed

text \<open>Operations keep the log.\<close>

lemma safe_ioE:
  assumes "safe_io env m" and "world_ok env w"
  obtains r w' where "m w = Some (r, w')" "evolves env w w'"
  using assms by (auto simp: safe_io_def)

lemma safe_bind:
  assumes "safe_io env m" and "\<And>x. safe_io env (k x)"
  shows "safe_io env (go_bind m k)"
  unfolding safe_io_def
proof (intro allI impI)
  fix w assume "world_ok env w"
  with assms(1) obtain r w1 where m: "m w = Some (r, w1)" "evolves env w w1" by (rule safe_ioE)
  show "\<exists>r w'. go_bind m k w = Some (r, w') \<and> evolves env w w'"
  proof (cases r)
    case (Inl e)
    with m show ?thesis by (simp add: go_bind_def)
  next
    case (Inr x)
    from assms(2) evolves_ok [OF m(2)] obtain r2 w2 where "k x w1 = Some (r2, w2)" "evolves env w1 w2" by (rule safe_ioE)
    with m Inr evolves_trans [OF m(2)] show ?thesis by (simp add: go_bind_def)
  qed
qed

lemma safe_lift: "safe_io env (go_lift r)"
  by (simp add: safe_io_def go_lift_def evolves_refl)

lemma safe_read: "safe_io env (go_read f)" "safe_io env (\<lambda>w. Some (h w, w))"
  by (simp_all add: safe_io_def go_read_def evolves_refl)

lemma safe_poll: "safe_io env (\<lambda>w. Some (poll_goal w))"
  unfolding safe_io_def by (metis evolves_poll surj_pair)

lemma safe_sync: "safe_io env (\<lambda>w. Some (sync_world env w))"
  unfolding safe_io_def by (metis evolves_sync(1) surj_pair)

lemma safe_change:
  "(\<And>w. go_session (f w) = go_session w \<and> go_moves (f w) = go_moves w \<and> ledger (go_state (f w)) = ledger (go_state w)
      \<and> gl_observed (go_state (f w)) = gl_observed (go_state w)) \<Longrightarrow> safe_io env (go_change f)"
  by (auto simp: safe_io_def go_change_def intro: evolves_same)

lemma safe_enter: "safe_io env (go_enter env)"
proof -
  have "go_enter env = go_bind (\<lambda>w. Some (goal_live w, w)) (\<lambda>_. go_bind (\<lambda>w. Some (poll_goal w)) (\<lambda>_ w. Some (sync_world env w)))"
    by (auto simp: fun_eq_iff go_enter_def go_bind_def split: sum.split prod.split)
  then show ?thesis by (simp add: safe_bind safe_read safe_poll safe_sync)
qed

lemma blocked_reason_ok: "blocked_reason_for st g reason = Inr why \<Longrightarrow> check_blocked_reason (gs_phase g) why = Inr ()"
  by (auto simp: blocked_reason_for_def check_blocked_reason_Inr block_reason_normalized_def Let_def split: if_splits option.split)

lemma write_locked_returns:
  assumes "world_ok env w"
  shows "\<exists>r w'. write_locked env expected g op reason w = Some (r, w') \<and> evolves env w w'
    \<and> (\<forall>x. r = Inr x \<longrightarrow> x = g \<and> swapped env expected g w w' \<and> gl_observed (go_state w') = length (session_events (go_session w')))"
proof -
  obtain p w1 where p: "poll_goal w = (p, w1)" by (rule prod.exhaust)
  note ev = evolves_poll [OF p assms]
  have same: "go_session w1 = go_session w" by (rule poll_goal_same [OF p])
  show ?thesis
  proof (cases "p = Inr () \<and> goal_snapshot_validate g = Inr () \<and> is_ok (blocked_reason_for (go_state w1) g reason)")
    case False
    then show ?thesis
      using p ev by (cases p; cases "goal_snapshot_validate g"; cases "blocked_reason_for (go_state w1) g reason")
        (auto simp: write_locked_def go_bind_def go_lift_def)
  next
    case True
    then obtain why where why: "blocked_reason_for (go_state w1) g reason = Inr why" by (auto simp: is_ok_ex)
    have run: "write_locked env expected g op reason w = write_loop env expected g op why w1"
      using p True why by (simp add: write_locked_def go_bind_def go_lift_def)
    from write_loop_returns [OF evolves_ok [OF ev] blocked_reason_ok [OF why], of expected op] evolves_trans [OF ev]
    show ?thesis unfolding run swapped_def same by blast
  qed
qed

lemma safe_write: "safe_io env (write_locked env expected g op reason)"
  using write_locked_returns unfolding safe_io_def by blast

lemma safe_arm: "safe_io env (arm_locked r cap)"
  unfolding safe_io_def arm_locked_def Let_def
  by (auto split: option.split sum.split intro: evolves_same evolves_refl)

lemma safe_disarm_all: "safe_io env disarm_all"
  unfolding disarm_all_def by (rule safe_change) simp

lemmas safe_intros = safe_bind safe_lift safe_read safe_poll safe_sync safe_enter safe_write safe_arm safe_disarm_all

lemma safe_revised: "safe_io env (revised env r change)"
  unfolding revised_def by (intro safe_intros)

lemma safe_create: "safe_io env (goal_create env objective cap)"
  unfolding goal_create_def Let_def by (intro safe_intros)

lemma safe_edit: "safe_io env (goal_edit env r objective cap)"
  unfolding goal_edit_def by (auto intro!: safe_intros safe_revised safe_change simp: follow_edit_def)

lemma safe_transition: "safe_io env (goal_transition env r allowed phase)"
  unfolding goal_transition_def by (intro safe_intros safe_revised)

lemma safe_block: "safe_io env (goal_block env r reason)"
  unfolding goal_block_def by (intro safe_intros safe_revised)

lemma safe_resume: "safe_io env (goal_resume env r)"
  unfolding goal_resume_def by (intro safe_intros safe_revised)

lemma safe_clear: "safe_io env (goal_clear env r)"
  unfolding goal_clear_def by (intro safe_intros safe_revised)

lemma safe_activate: "safe_io env (goal_activate env r cap)"
  unfolding goal_activate_def by (intro safe_intros)

lemma safe_goal_write: "safe_io env (goal_write env expected g)"
  unfolding goal_write_def by (intro safe_intros)

lemma safe_model_value: "safe_io env (model_value env)"
  unfolding model_value_def by (intro safe_intros)

lemma safe_admit: "safe_io env (admit_user_round ident seq)"
  unfolding admit_user_round_def by (auto intro!: safe_intros safe_change)

lemma safe_disarm: "safe_io env (disarm ident)"
  unfolding disarm_def by (rule safe_change) (simp split: option.split)

lemma safe_clear_queued: "safe_io env (clear_queued_round r n)"
  unfolding clear_queued_round_def by (rule safe_change) (simp split: option.split)

lemma safe_give_up: "safe_io env (give_up_round env r n what message)"
  unfolding give_up_round_def by (intro safe_intros safe_clear_queued safe_block)

lemma append_evolves:
  assumes "goal_append env build w = (r, w')" and "world_ok env w"
  shows "evolves env w w'"
  using assms
proof (cases rule: append_cases)
  case (Refused e c p w1 t)
  have "evolves env w1 w'" using Refused(5) evolves_ok [OF Refused(2)] by (intro evolves_same) simp_all
  with Refused(2) show ?thesis by (rule evolves_trans)
next
  case (Done w1 t)
  have "world_ok env w1" using Done(2) by (simp add: evolves_def)
  with Done have "evolves env w1 w'" by (auto simp: evolves_def world_ok_def intro: tracks_append)
  with Done(2) show ?thesis by (rule evolves_trans)
qed

lemma evolves_send:
  assumes "send_round env m w = (r, w')" and "world_ok env w"
  shows "evolves env w w'"
  using assms(1) by (intro evolves_same [OF assms(2)]) (auto simp: send_round_def split: prod.splits)

lemma safe_queue: "safe_io env (queue_round env r n m)"
  unfolding queue_round_def
proof (intro safe_bind safe_read)
  fix seq
  let ?k = "\<lambda>w. case goal_append env (queued_event (ge_codec env) m seq) w of
        (Inl _, w') \<Rightarrow> give_up_round env r n ''durable queue append'' ''goal continuation queue append failed'' w'
      | (Inr _, w') \<Rightarrow>
          (case send_round env m w' of
             (Inl _, w'') \<Rightarrow> give_up_round env r n ''agent delivery'' ''goal continuation queue delivery failed'' w''
           | (Inr _, w'') \<Rightarrow> Some (Inr (), w''))"
  show "safe_io env ?k"
    unfolding safe_io_def
  proof (intro allI impI)
    fix w assume w: "world_ok env w"
    obtain x w1 where a: "goal_append env (queued_event (ge_codec env) m seq) w = (x, w1)" by (rule prod.exhaust)
    note e1 = append_evolves [OF a w]
    obtain y w2 where b: "send_round env m w1 = (y, w2)" by (rule prod.exhaust)
    note e2 = evolves_trans [OF e1 evolves_send [OF b evolves_ok [OF e1]]]
    have give: "\<exists>q w3. give_up_round env r n s t v = Some (q, w3) \<and> evolves env w w3" if "evolves env w v" for s t v
      using safe_ioE [OF safe_give_up evolves_ok [OF that]] evolves_trans [OF that] by metis
    show "\<exists>q w'. ?k w = Some (q, w') \<and> evolves env w w'"
      using a b give [OF e1] give [OF e2] e2 by (cases x; cases y) simp_all
  qed
qed

lemma plan_round_ledger:
  assumes "plan_round st = Inr (Some (nr, st'))"
  shows "ledger st' = ledger st" "gl_observed st' = gl_observed st"
  using assms by (auto simp: plan_round_def Let_def reserve_round_def split: option.splits if_splits)

lemma safe_bind_read:
  assumes "\<And>w x. world_ok env w \<Longrightarrow> h w = Inr x \<Longrightarrow> \<exists>r w'. k x w = Some (r, w') \<and> evolves env w w'"
  shows "safe_io env (go_bind (\<lambda>w. Some (h w, w)) k)"
  unfolding safe_io_def
proof (intro allI impI)
  fix w assume "world_ok env w"
  with assms [of w] show "\<exists>r w'. go_bind (\<lambda>w. Some (h w, w)) k w = Some (r, w') \<and> evolves env w w'"
    by (cases "h w") (auto simp: go_bind_def evolves_refl)
qed

lemma run_plan_safe:
  assumes w: "world_ok env w" and plan: "plan_round (go_state w) = Inr plan"
  shows "\<exists>r w'. run_plan env plan w = Some (r, w') \<and> evolves env w w'"
proof (cases plan)
  case None
  with w show ?thesis by (simp add: run_plan_def go_lift_def evolves_refl)
next
  case (Some ns)
  obtain nr st where ns: "ns = (nr, st)" by (rule prod.exhaust)
  show ?thesis
  proof (cases nr)
    case (BlockAtCap r cap)
    have "safe_io env (go_bind (goal_block env r (limit_reason cap)) (\<lambda>_. go_lift (Inr ())))"
      by (intro safe_intros safe_block)
    with w Some ns BlockAtCap show ?thesis by (simp add: run_plan_def safe_io_def)
  next
    case (QueueRound r n objective cap)
    let ?w = "w\<lparr>go_state := st\<rparr>"
    have ev: "evolves env w ?w"
      using plan_round_ledger [of "go_state w" nr st] plan Some ns w by (intro evolves_same) simp_all
    from safe_queue evolves_ok [OF ev] obtain x w' where
      "queue_round env r n (round_message env r n objective cap) ?w = Some (x, w')" "evolves env ?w w'" by (rule safe_ioE)
    with evolves_trans [OF ev] Some ns QueueRound show ?thesis by (simp add: run_plan_def go_bind_def go_change_def)
  qed
qed

lemma safe_drive: "safe_io env (goal_drive env status)"
proof -
  have "safe_io env (go_bind (\<lambda>w. Some (plan_round (go_state w), w)) (run_plan env))"
    by (intro safe_bind_read run_plan_safe)
  then show ?thesis unfolding goal_drive_def by (auto intro!: safe_intros)
qed

end

end
