(* ===== verification/Goal_Tools.thy ===== *)
theory Goal_Tools
  imports Goal_Proofs
begin

text \<open>
  The model's view of the goals (\<open>GoalToolRouter\<close> and the handlers of \<open>src/src/goal.rs\<close>): the tools
  \<open>create_goal\<close>, \<open>get_goal\<close> and \<open>update_goal\<close>, routed to the service of the calling session, and the
  compare-and-swap tool \<open>goal\<close>. The decoders serde derives for their arguments are the fields of
  \<open>goal_tool_codec\<close>. The last section is the transition system of a service with all its operations.
\<close>

section \<open>Arguments and answers\<close>

datatype model_goal_action = ActEdit | ActPause | ActResume | ActComplete | ActBlocked

record model_goal_update =
  mu_goal_id :: string
  mu_revision :: u64
  mu_action :: model_goal_action
  mu_objective :: "string option"
  mu_max_rounds :: "u64 option"
  mu_blocked_reason :: "string option"

record goal_tool_codec =
  gt_create_from :: "json \<Rightarrow> (string \<times> u64 option) option"
  gt_empty_from :: "json \<Rightarrow> unit option"
  gt_update_from :: "json \<Rightarrow> model_goal_update option"
  gt_write_from :: "json \<Rightarrow> (goal_ref option \<times> goal_snapshot) option"
  gt_debug :: "string \<Rightarrow> string"

fun goal_error_text :: "(string \<Rightarrow> string) \<Rightarrow> (session_error \<Rightarrow> string) \<Rightarrow> goal_error \<Rightarrow> string" where
  "goal_error_text debug show (GoalInvalid m) = ''invalid goal: '' @ m"
| "goal_error_text debug show GoalAlreadyExists = ''an active goal already exists''"
| "goal_error_text debug show (GoalNotFound i) = ''goal '' @ debug i @ '' was not found''"
| "goal_error_text debug show GoalStale = ''goal compare-and-swap reference is stale''"
| "goal_error_text debug show GoalTombstoned = ''a tombstoned goal cannot be changed''"
| "goal_error_text debug show GoalInvalidTransition = ''a complete goal cannot leave the complete phase''"
| "goal_error_text debug show GoalInactive = ''goal activation is invalid or has been disarmed''"
| "goal_error_text debug show GoalInvalidRound = ''goal user rounds must be consecutive attributed user messages''"
| "goal_error_text debug show GoalRoundCap = ''goal user-round cap was reached''"
| "goal_error_text debug show GoalNotLive = ''goal service is not owned by its live agent''"
| "goal_error_text debug show GoalCancelled = ''goal operation was cancelled''"
| "goal_error_text debug show (GoalSession e) = show e"

definition goal_tool_error :: "goal_tool_codec \<Rightarrow> 'p goal_env \<Rightarrow> goal_error \<Rightarrow> tessivum_error" where
  "goal_tool_error tc env e =
     tessivum_error_new (goal_error_code e) (goal_error_text (gt_debug tc) (ge_show env) e) ''goals'' JNull"

definition model_goal_error :: "string \<Rightarrow> tessivum_error" where
  "model_goal_error message = tessivum_error_new ''INVALID_GOAL'' message ''goals'' JNull"

definition model_goal_output :: "'p goal_env \<Rightarrow> json \<Rightarrow> tool_output" where
  "model_goal_output env v = \<lparr>to_content = [Text (ge_render env v)], to_is_error = False, to_meta = JNull\<rparr>"

section \<open>The router\<close>

type_synonym 'p goal_router = "(string \<times> 'p goal_world) list"

definition router_goal_insert :: "'p goal_world \<Rightarrow> 'p goal_router \<Rightarrow> 'p goal_router" where
  "router_goal_insert w router = bt_insert (ai_id (go_agent w)) w router"

definition router_goal_remove :: "string \<Rightarrow> 'p goal_router \<Rightarrow> 'p goal_router" where
  "router_goal_remove x router = bt_remove x router"

definition router_goal_service :: "string \<Rightarrow> 'p goal_router \<Rightarrow> tessivum_error + 'p goal_world" where
  "router_goal_service x router =
     ok_or (tessivum_error_new ''GOAL_AGENT_NOT_LIVE'' ''goal tools require a live owning agent'' ''goals'' JNull) (map_of router x)"

type_synonym 'p goal_answer = "((tessivum_error + tool_output) \<times> 'p goal_router) option"

text \<open>One call on a service; the router keeps the service in its new state.\<close>

definition goal_tool_call ::
  "goal_tool_codec \<Rightarrow> 'p goal_env \<Rightarrow> string \<Rightarrow> 'p goal_router \<Rightarrow> ('p, 'a) goal_io \<Rightarrow> ('a \<Rightarrow> tool_output) \<Rightarrow> 'p goal_world
     \<Rightarrow> 'p goal_answer" where
  "goal_tool_call tc env x router m out w =
     map_option (\<lambda>(r, w'). (map_sum (goal_tool_error tc env) out r, bt_insert x w' router)) (m w)"

section \<open>The tools\<close>

definition create_goal_run :: "goal_tool_codec \<Rightarrow> 'p goal_env \<Rightarrow> string \<Rightarrow> json \<Rightarrow> 'p goal_router \<Rightarrow> 'p goal_answer" where
  "create_goal_run tc env x args router =
     (case gt_create_from tc args of
        None \<Rightarrow> Some (Inl (model_goal_error ''create_goal input is invalid''), router)
      | Some (objective, cap) \<Rightarrow>
          if blank objective \<or> cap = Some 0
          then Some (Inl (model_goal_error ''objective must be non-empty and max_goal_rounds must be positive''), router)
          else case router_goal_service x router of
            Inl e \<Rightarrow> Some (Inl e, router)
          | Inr w \<Rightarrow>
              goal_tool_call tc env x router (go_bind (goal_create env objective cap) (\<lambda>_. model_value env))
                (model_goal_output env) w)"

definition get_goal_run :: "goal_tool_codec \<Rightarrow> 'p goal_env \<Rightarrow> string \<Rightarrow> json \<Rightarrow> 'p goal_router \<Rightarrow> 'p goal_answer" where
  "get_goal_run tc env x args router =
     (case gt_empty_from tc args of
        None \<Rightarrow> Some (Inl (model_goal_error ''get_goal input is invalid''), router)
      | Some _ \<Rightarrow>
          (case router_goal_service x router of
             Inl e \<Rightarrow> Some (Inl e, router)
           | Inr w \<Rightarrow> goal_tool_call tc env x router (model_value env) (model_goal_output env) w))"

definition update_operation :: "'p goal_env \<Rightarrow> model_goal_update \<Rightarrow> tessivum_error + ('p, goal_snapshot) goal_io" where
  "update_operation env input =
     (let r = \<lparr>gr_id = mu_goal_id input, gr_revision = mu_revision input\<rparr>;
          objective = (if mu_objective input = Some [] then None else mu_objective input);
          cap = (if mu_max_rounds input = Some 0 then None else mu_max_rounds input);
          why = (case mu_blocked_reason input of None \<Rightarrow> None | Some m \<Rightarrow> if blank m then None else Some m);
          bare = (objective = None \<and> cap = None \<and> why = None);
          extra = model_goal_error ''objective and max_goal_rounds are valid only with action edit; blocked_reason is valid only with action blocked''
      in case mu_action input of
           ActEdit \<Rightarrow>
             if why \<noteq> None then Inl (model_goal_error ''blocked_reason is valid only with action blocked'')
             else Inr (goal_edit env r objective cap)
         | ActPause \<Rightarrow> if bare then Inr (goal_pause env r) else Inl extra
         | ActResume \<Rightarrow> if bare then Inr (goal_resume env r) else Inl extra
         | ActComplete \<Rightarrow> if bare then Inr (goal_complete env r) else Inl extra
         | ActBlocked \<Rightarrow>
             if objective \<noteq> None \<or> cap \<noteq> None
             then Inl (model_goal_error ''objective and max_goal_rounds are valid only with action edit'')
             else case why of
               None \<Rightarrow> Inl (model_goal_error ''blocked_reason is required with action blocked'')
             | Some m \<Rightarrow> Inr (goal_block env r \<lparr>br_code = ''model-reported'', br_message = m\<rparr>))"

definition view_objective :: "json \<Rightarrow> string" where
  "view_objective v =
     (case Option.bind (json_get ''goal'' v) (get_str ''objective'') of None \<Rightarrow> ''the current goal'' | Some t \<Rightarrow> t)"

definition closing_text :: "bool \<Rightarrow> string \<Rightarrow> string" where
  "closing_text finished objective =
     (if finished
      then ''<goal_complete>'' @ [CHR 0x0A] @ ''Goal: '' @ objective @ [CHR 0x0A]
        @ ''The goal is marked complete and this autonomous run is ending. Write the closing message to the user now: state the outcome, summarize what was done and how it was verified, and point to concrete results. Do not call any more tools in this run.''
        @ [CHR 0x0A] @ ''</goal_complete>''
      else ''<goal_blocked>'' @ [CHR 0x0A] @ ''Goal: '' @ objective @ [CHR 0x0A]
        @ ''The goal is marked blocked and this autonomous run is ending. Write the closing message to the user now, including the concrete blocker and what is needed to continue. Do not call any more tools in this run.''
        @ [CHR 0x0A] @ ''</goal_blocked>'')"

definition update_output :: "'p goal_env \<Rightarrow> model_goal_action \<Rightarrow> json \<Rightarrow> tool_output" where
  "update_output env action v =
     (if action \<in> {ActComplete, ActBlocked}
      then
        (let objective = view_objective v; name = (if action = ActComplete then ''complete'' else ''blocked'')
         in (model_goal_output env v)\<lparr>to_meta := obj [(''deferredContext'', obj [(''plugin'', JStr ''tool-goal''),
              (''summary'', JStr (name @ '': '' @ objective)), (''text'', JStr (closing_text (action = ActComplete) objective))])]\<rparr>)
      else model_goal_output env v)"

definition update_goal_run :: "goal_tool_codec \<Rightarrow> 'p goal_env \<Rightarrow> string \<Rightarrow> json \<Rightarrow> 'p goal_router \<Rightarrow> 'p goal_answer" where
  "update_goal_run tc env x args router =
     (case gt_update_from tc args of
        None \<Rightarrow> Some (Inl (model_goal_error ''update_goal input is invalid''), router)
      | Some input \<Rightarrow>
          if mu_goal_id input = [] \<or> mu_goal_id input \<noteq> trim (mu_goal_id input) \<or> mu_revision input = 0
          then Some (Inl (model_goal_error ''goal_id must be non-empty and revision must be positive''), router)
          else case router_goal_service x router of
            Inl e \<Rightarrow> Some (Inl e, router)
          | Inr w \<Rightarrow>
              (case update_operation env input of
                 Inl e \<Rightarrow> Some (Inl e, router)
               | Inr op \<Rightarrow>
                   goal_tool_call tc env x router (go_bind op (\<lambda>_. model_value env)) (update_output env (mu_action input)) w))"

definition enc_snapshot :: "goal_snapshot \<Rightarrow> json" where
  "enc_snapshot g =
     obj [(''reference'', enc_ref (gs_reference g)), (''phase'', enc_phase (gs_phase g)), (''title'', JStr (gs_title g)),
          (''maxGoalRounds'', jnat (gs_max_rounds g)), (''tombstone'', JBool (gs_tombstone g))]"

text \<open>The tool \<open>goal\<close> belongs to one service and refuses any other session.\<close>

definition goal_tool_run ::
  "goal_tool_codec \<Rightarrow> 'p goal_env \<Rightarrow> string \<Rightarrow> json \<Rightarrow> 'p goal_world \<Rightarrow> ((tessivum_error + tool_output) \<times> 'p goal_world) option" where
  "goal_tool_run tc env x args w =
     (case gt_write_from tc args of
        None \<Rightarrow> Some (Inl (model_goal_error ''goal tool input is invalid''), w)
      | Some (expected, g) \<Rightarrow>
          if x \<noteq> ai_id (go_agent w) then Some (Inl (goal_tool_error tc env GoalNotLive), w)
          else map_option (\<lambda>(r, w'). (map_sum (goal_tool_error tc env) (\<lambda>s. model_goal_output env (enc_snapshot s)) r, w'))
                 (goal_write env expected g w))"

section \<open>All operations of a service\<close>

datatype goal_command =
    CreateGoal string "u64 option" | EditGoal goal_ref "string option" "u64 option" | PauseGoal goal_ref
  | BlockGoal goal_ref goal_block_reason | ResumeGoal goal_ref | CompleteGoal goal_ref | ClearGoal goal_ref
  | WriteGoal "goal_ref option" goal_snapshot | ActivateGoal goal_ref u64 | AdmitRound u64 u64 | Disarm u64
  | DriveGoal agent_status | ReadGoal

definition silently :: "('p, 'a) goal_io \<Rightarrow> ('p, unit) goal_io" where
  "silently m = go_bind m (\<lambda>_. go_lift (Inr ()))"

fun run_goal :: "'p goal_env \<Rightarrow> goal_command \<Rightarrow> ('p, unit) goal_io" where
  "run_goal env (CreateGoal objective cap) = silently (goal_create env objective cap)"
| "run_goal env (EditGoal r objective cap) = silently (goal_edit env r objective cap)"
| "run_goal env (PauseGoal r) = silently (goal_pause env r)"
| "run_goal env (BlockGoal r reason) = silently (goal_block env r reason)"
| "run_goal env (ResumeGoal r) = silently (goal_resume env r)"
| "run_goal env (CompleteGoal r) = silently (goal_complete env r)"
| "run_goal env (ClearGoal r) = silently (goal_clear env r)"
| "run_goal env (WriteGoal expected g) = silently (goal_write env expected g)"
| "run_goal env (ActivateGoal r cap) = silently (goal_activate env r cap)"
| "run_goal env (AdmitRound i n) = silently (admit_user_round i n)"
| "run_goal env (Disarm i) = disarm i"
| "run_goal env (DriveGoal status) = goal_drive env status"
| "run_goal env ReadGoal = silently (model_value env)"

text \<open>A service is built from the log of its session; every operation runs with a token and interference of its
  own; between operations other writers extend the session and the agent changes.\<close>

inductive goal_reachable :: "'p goal_env \<Rightarrow> 'p goal_world \<Rightarrow> bool" for env where
  opened: "session_ok (ge_codec env) s \<Longrightarrow> goal_service_new (ge_codec env) (ge_goals env) agent s = Inr st \<Longrightarrow>
     goal_reachable env \<lparr>go_state = st, go_session = s, go_agent = agent, go_moves = [], go_cancel = c, go_disk = p, go_ticks = 0\<rparr>"
| called: "goal_reachable env w \<Longrightarrow> list_all (foreign (ge_codec env)) moves \<Longrightarrow>
     run_goal env cmd (w\<lparr>go_moves := moves, go_cancel := c\<rparr>) = Some (r, w') \<Longrightarrow> goal_reachable env w'"
| moved: "goal_reachable env w \<Longrightarrow> foreign (ge_codec env) f \<Longrightarrow> f (go_session w, go_disk w) = (s, p) \<Longrightarrow>
     goal_reachable env (w\<lparr>go_session := s, go_disk := p\<rparr>)"
| changed: "goal_reachable env w \<Longrightarrow> goal_reachable env (w\<lparr>go_agent := a\<rparr>)"

lemma arm_loaded_same [simp]: "ledger (arm_loaded st) = ledger st" "gl_observed (arm_loaded st) = gl_observed st"
  by (simp_all add: arm_loaded_def split: option.split)

lemma goal_service_new_Inr:
  assumes "goal_service_new cdc gk agent s = Inr st"
  shows "tracks cdc gk (session_events s) st" "gl_observed st = length (session_events s)"
  using assms by (auto simp: goal_service_new_def tracks_def split: if_splits)

lemma world_ok_moves [simp]:
  "world_ok env (w\<lparr>go_cancel := c\<rparr>) = world_ok env w" "world_ok env (w\<lparr>go_agent := a\<rparr>) = world_ok env w"
  by (simp_all add: world_ok_def)

context goal_backend
begin

lemma safe_silently: "safe_io env m \<Longrightarrow> safe_io env (silently m)"
  unfolding silently_def by (intro safe_intros)

lemma safe_run_goal: "safe_io env (run_goal env cmd)"
  by (cases cmd)
    (simp_all add: safe_silently safe_create safe_edit safe_transition goal_pause_def goal_complete_def safe_block safe_resume
      safe_clear safe_goal_write safe_activate safe_admit safe_disarm safe_drive safe_model_value)

lemma goal_reachable_ok: "goal_reachable env w \<Longrightarrow> world_ok env w"
proof (induction rule: goal_reachable.induct)
  case (opened s agent st c p)
  then show ?case using goal_service_new_Inr by (simp add: world_ok_def)
next
  case (called w moves cmd c r w')
  then have "world_ok env (w\<lparr>go_moves := moves, go_cancel := c\<rparr>)" by (simp add: world_ok_def)
  from safe_ioE [OF safe_run_goal this, of cmd] called(3) show ?case by (metis evolves_ok option.inject prod.inject)
next
  case (moved w f s p)
  then obtain added where "session_ok (ge_codec env) s" "session_events s = session_events (go_session w) @ added"
    unfolding foreign_def world_ok_def by blast
  with moved show ?case by (simp add: world_ok_def tracks_append)
qed simp

end

end
