(* ===== verification/Goal_Properties.thy ===== *)
theory Goal_Properties
  imports Goal_Tools Agent_Properties
begin

text \<open>The theorems about goals, over the in-memory backend and the wire format of the payloads.\<close>

section \<open>The environment\<close>

definition memory_goal_env :: "memory goal_env \<Rightarrow> memory goal_env" where
  "memory_goal_env base = base\<lparr>ge_ops := memory_persistence (ge_codec base), ge_goals := goal_wire\<rparr>"

lemma memory_goal_env_simps [simp]:
  "ge_codec (memory_goal_env base) = ge_codec base" "ge_goals (memory_goal_env base) = goal_wire"
  "ge_ops (memory_goal_env base) = memory_persistence (ge_codec base)"
  by (simp_all add: memory_goal_env_def)

lemma mem_append_gap:
  assumes "mem_append cdc x e (c, p) = (Inl (SequenceGap a b), c', p')"
  shows "b = ev_seq e"
  using assms
  by (cases c rule: check_cancellation.cases)
    (auto simp: mem_append_def io_bind_def io_poll_def io_lift_def io_get_def io_put_def next_seq_def map_err_Inl split: sum.splits if_splits)

interpretation goal_mem: goal_backend "memory_goal_env base" for base
proof unfold_locales
  show "gd_change_from (ge_goals (memory_goal_env base)) (gd_change_to (ge_goals (memory_goal_env base)) ch) = Some ch"
    if "gc_version ch \<le> 255" for ch
    using goal_wire.change_roundtrip [OF that] by simp
  show "b = ev_seq e" if "pe_append (ge_ops (memory_goal_env base)) x e (c, p) = (Inl (SequenceGap a b), c', p')" for x e c p a b c' p'
    using that mem_append_gap by (simp add: memory_persistence_def)
qed

section \<open>Swapping revisions\<close>

text \<open>The log grew by one event; just before it the goal stood exactly at the named revision, and with it the
  goal is the new snapshot at the next revision.\<close>

definition replaces_revision :: "'p goal_env \<Rightarrow> goal_ref \<Rightarrow> goal_snapshot \<Rightarrow> 'p goal_world \<Rightarrow> 'p goal_world \<Rightarrow> bool" where
  "replaces_revision env r g w w' \<longleftrightarrow>
     (\<exists>log e st st' current. session_events (go_session w') = log @ [e] \<and> (\<exists>added. log = session_events (go_session w) @ added)
        \<and> replay_goals (ge_codec env) (ge_goals env) log = Inr st \<and> map_of (gl_goals st) (gr_id r) = Some current
        \<and> gs_reference current = r \<and> \<not> gs_tombstone current
        \<and> replay_goals (ge_codec env) (ge_goals env) (log @ [e]) = Inr st' \<and> map_of (gl_goals st') (gr_id r) = Some g
        \<and> gs_reference g = r\<lparr>gr_revision := gr_revision r + 1\<rparr>)"

lemma go_bind_Inr:
  "go_bind m k w = Some (Inr y, w') \<longleftrightarrow> (\<exists>x w1. m w = Some (Inr x, w1) \<and> k x w1 = Some (Inr y, w'))"
proof (cases "m w")
  case (Some rw)
  obtain r w1 where "rw = (r, w1)" by (rule prod.exhaust)
  with Some show ?thesis by (cases r) (simp_all add: go_bind_def)
qed (simp add: go_bind_def)

lemma revised_Inr:
  assumes "revised env r change w = Some (Inr g, w1)" and "world_ok env w"
  obtains current where "current_locked (go_state w1) r = Inr current" "change current w1 = Inr g" "evolves env w w1"
proof -
  from assms(1) obtain u w2 current w3 where e: "go_enter env w = Some (Inr u, w2)"
    and c: "current_locked (go_state w2) r = Inr current" "w3 = w2" "change current w3 = Inr g" "w1 = w3"
    unfolding revised_def go_bind_Inr by auto
  obtain p w4 where p: "poll_goal w = (p, w4)" by (rule prod.exhaust)
  with e have s: "sync_world env w4 = (Inr u, w2)" by (auto simp: go_enter_def split: sum.splits)
  from evolves_trans [OF evolves_poll [OF p assms(2)] evolves_sync(1) [OF s evolves_ok [OF evolves_poll [OF p assms(2)]]]]
  show ?thesis using that c by simp
qed

context goal_backend
begin

lemma revision_written:
  assumes run: "go_bind (revised env r change) (\<lambda>g. go_bind (write_locked env (Some r) g op why) (\<lambda>written.
      go_bind (finish written) (\<lambda>_. go_lift (Inr written)))) w = Some (Inr g, w')"
    and w: "world_ok env w"
    and step: "\<And>current w h. change current w = Inr h \<Longrightarrow> gs_reference current = r \<Longrightarrow> gs_reference h = r\<lparr>gr_revision := gr_revision r + 1\<rparr>"
    and finish: "\<And>x w u w'. finish x w = Some (u, w') \<Longrightarrow> go_session w' = go_session w"
  shows "replaces_revision env r g w w'"
proof -
  from run obtain h w1 x w2 u w3 where rev: "revised env r change w = Some (Inr h, w1)"
    and wr: "write_locked env (Some r) h op why w1 = Some (Inr x, w2)"
    and fin: "finish x w2 = Some (Inr u, w3)" and g: "g = x" "w' = w3"
    unfolding go_bind_Inr by (auto simp: go_lift_def)
  from rev w obtain current where c: "current_locked (go_state w1) r = Inr current" "change current w1 = Inr h" and ev: "evolves env w w1"
    by (rule revised_Inr)
  have ref: "gs_reference h = r\<lparr>gr_revision := gr_revision r + 1\<rparr>"
    using step [OF c(2)] c(1) by (auto simp: current_locked_def split: if_splits)
  from write_locked_returns [OF evolves_ok [OF ev], of "Some r" h op why] wr
  have "x = h" "swapped env (Some r) h w1 w2" by auto
  then obtain log e st st' where "session_events (go_session w2) = log @ [e]" "\<exists>added. log = session_events (go_session w1) @ added"
    "replay_goals (ge_codec env) (ge_goals env) log = Inr st" "succeeds (Some r) False h (map_of (gl_goals st) (gr_id r))"
    "replay_goals (ge_codec env) (ge_goals env) (log @ [e]) = Inr st'" "map_of (gl_goals st') (gr_id r) = Some h"
    using ref by (auto simp: swapped_def)
  moreover have "\<exists>added. log = session_events (go_session w) @ added" if "\<exists>added. log = session_events (go_session w1) @ added"
    using that ev by (auto simp: evolves_def)
  ultimately show ?thesis
    using ref g \<open>x = h\<close> finish [OF fin] unfolding replaces_revision_def succeeds_def by (auto split: option.splits)
qed

lemma next_reference:
  "moved_to phase b current = Inr h \<Longrightarrow> gs_reference h = (gs_reference current)\<lparr>gr_revision := gr_revision (gs_reference current) + 1\<rparr>"
  "edited objective cap current = Inr h \<Longrightarrow> gs_reference h = (gs_reference current)\<lparr>gr_revision := gr_revision (gs_reference current) + 1\<rparr>"
  by (auto simp: moved_to_def edited_def)

lemma arm_session: "arm_locked r cap w = Some (u, w') \<Longrightarrow> go_session w' = go_session w"
  by (auto simp: arm_locked_def Let_def split: if_splits option.splits sum.splits)

lemma swap_edit: "goal_edit env r objective cap w = Some (Inr g, w') \<Longrightarrow> world_ok env w \<Longrightarrow> replaces_revision env r g w w'"
  unfolding goal_edit_def
  by (auto split: if_splits simp: go_lift_def [of "Inl _"] go_change_def dest: next_reference(2)
        intro: revision_written [where finish = "\<lambda>x. go_change (\<lambda>w. w\<lparr>go_state := follow_edit r x (go_state w)\<rparr>)"])

lemma swap_transition: "goal_transition env r allowed phase w = Some (Inr g, w') \<Longrightarrow> world_ok env w \<Longrightarrow> replaces_revision env r g w w'"
  unfolding goal_transition_def
  by (erule revision_written) (auto simp: disarm_all_def go_change_def dest: next_reference(1))

lemma swap_block: "goal_block env r reason w = Some (Inr g, w') \<Longrightarrow> world_ok env w \<Longrightarrow> replaces_revision env r g w w'"
  unfolding goal_block_def
  by (erule revision_written) (auto simp: disarm_all_def go_change_def dest: next_reference(1))

lemma swap_clear: "goal_clear env r w = Some (Inr g, w') \<Longrightarrow> world_ok env w \<Longrightarrow> replaces_revision env r g w w'"
  unfolding goal_clear_def
  by (erule revision_written) (auto simp: disarm_all_def go_change_def dest: next_reference(1))

lemma swap_resume: "goal_resume env r w = Some (Inr g, w') \<Longrightarrow> world_ok env w \<Longrightarrow> replaces_revision env r g w w'"
  unfolding goal_resume_def
  by (erule revision_written [where finish = "\<lambda>x. arm_locked (gs_reference x) (gs_max_rounds x)"])
    (auto dest: next_reference(1) arm_session)

end

section \<open>A session with a goal\<close>

definition goal_base :: "memory goal_env" where
  "goal_base = \<lparr>ge_ops = memory_persistence wire_codec, ge_codec = wire_codec, ge_goals = goal_wire, ge_clock = (\<lambda>n. 1000 + n),
     ge_uuid = ''u1'', ge_message_id = ''m1'', ge_render = (\<lambda>_. ''{}''), ge_show = session_error_code, ge_wake = Inr ()\<rparr>"

definition goal_header :: session_header where
  "goal_header =
     \<lparr>hd_version = 0, hd_id = ''s1'', hd_created_at = 1, hd_cwd = None, hd_parent_session = None,
      hd_seed_length = None, hd_origin = None, hd_delegation_depth = None, hd_agent_mode = None\<rparr>"

definition first_ref :: goal_ref where
  "first_ref = \<lparr>gr_id = ''g1'', gr_revision = 1\<rparr>"

definition first_goal :: goal_snapshot where
  "first_goal = \<lparr>gs_reference = \<lparr>gr_id = ''g1'', gr_revision = 1\<rparr>, gs_phase = GoalActive, gs_title = ''ship it'', gs_max_rounds = 3,
     gs_tombstone = False\<rparr>"

definition first_event :: session_event where
  "first_event = \<lparr>ev_type = ''goal/change'', ev_seq = 0, ev_time = 1001,
     ev_data = JObj [(''createdAt'', jnat 1000),
       (''goal'', JObj [(''id'', JStr ''g1''), (''maxGoalRounds'', jnat 3), (''objective'', JStr ''ship it''),
          (''phase'', JStr ''active''), (''revision'', jnat 1)]),
       (''kind'', JStr ''goal/change''), (''operation'', JStr ''create''), (''roundsStarted'', jnat 0),
       (''updatedAt'', jnat 1000), (''version'', jnat 1)],
     ev_ignorable = None, ev_sources = None, ev_surface_op = None\<rparr>"

definition first_session :: session where
  "first_session = \<lparr>ss_header = goal_header,
     ss_state = \<lparr>st_events = [first_event], st_surface = [], st_seed_length = 0, st_end_seed_seen = False\<rparr>, ss_updates = []\<rparr>"

definition first_state :: goal_state where
  "first_state = \<lparr>gl_goals = [(''g1'', first_goal)],
     gl_times = [(''g1'', \<lparr>gt_created_at = 1000, gt_updated_at = 1000, gt_rounds_started = 0\<rparr>)], gl_reasons = [],
     gl_activation = Some \<lparr>ac_id = 1, ac_reference = \<lparr>gr_id = ''g1'', gr_revision = 1\<rparr>, ac_max_rounds = 3, ac_rounds = 0,
       ac_first_seq = 1, ac_last_user_seq = None, ac_queued_round = None\<rparr>,
     gl_next_activation = 1, gl_observed = 1, gl_current = Some ''g1''\<rparr>"

definition goal_made :: "memory goal_world" where
  "goal_made = \<lparr>go_state = first_state, go_session = first_session, go_agent = agent_of sample_ready 0 1, go_moves = [],
     go_cancel = None, go_disk = [(''s1'', \<lparr>ms_header = goal_header, ms_events = [first_event], ms_flush_count = 0\<rparr>)], go_ticks = 0\<rparr>"

text \<open>Operations in sequence, each undisturbed; \<open>None\<close> when one fails.\<close>

fun play :: "'p goal_env \<Rightarrow> goal_command list \<Rightarrow> 'p goal_world \<Rightarrow> 'p goal_world option" where
  "play env [] w = Some w"
| "play env (cmd # cmds) w =
     (case run_goal env cmd (w\<lparr>go_moves := [], go_cancel := None\<rparr>) of
        Some (Inr _, w') \<Rightarrow> play env cmds w'
      | _ \<Rightarrow> None)"

lemma play_reachable: "goal_reachable env w \<Longrightarrow> play env cmds w = Some w' \<Longrightarrow> goal_reachable env w'"
proof (induction cmds arbitrary: w)
  case (Cons cmd cmds)
  from Cons.prems(2) obtain u w1 where "run_goal env cmd (w\<lparr>go_moves := [], go_cancel := None\<rparr>) = Some (Inr u, w1)"
    and "play env cmds w1 = Some w'" by (auto split: option.splits prod.splits sum.splits)
  moreover from this goal_reachable.called [OF Cons.prems(1), of "[]" cmd None "Inr u" w1] have "goal_reachable env w1" by simp
  ultimately show ?case by (intro Cons.IH)
qed simp

text \<open>Another writer of the session.\<close>

definition other_append :: "codec \<Rightarrow> 'p persistence \<Rightarrow> (u64 \<Rightarrow> session_event) \<Rightarrow> session \<times> 'p \<Rightarrow> session \<times> 'p" where
  "other_append cdc ops build = (\<lambda>(s, p).
     case append_next cdc ops s build (None, p) of (Inr (_, s'), _, p') \<Rightarrow> (s', p') | (Inl _, _, p') \<Rightarrow> (s, p'))"

lemma foreign_other_append: "foreign cdc (other_append cdc ops build)"
  unfolding foreign_def
proof (intro allI impI)
  fix s :: session and p s' p'
  assume ok: "session_ok cdc s" and o: "other_append cdc ops build (s, p) = (s', p')"
  show "session_ok cdc s' \<and> ss_header s' = ss_header s \<and> (\<exists>added. session_events s' = session_events s @ added)"
  proof (cases "\<exists>n c. append_next cdc ops s build (None, p) = (Inr (n, s'), c, p')")
    case True
    then obtain n c where "append_next cdc ops s build (None, p) = (Inr (n, s'), c, p')" by blast
    then obtain c1 where "append_under_gate cdc ops s (build n) None (c1, p) = (Inr s', c, p')"
      unfolding append_next_def by (rule append_next_cases)
    from append_under_gate_ok [OF this ok] append_under_gate_extends [OF this] show ?thesis by simp
  next
    case False
    with o have "s' = s" by (auto simp: other_append_def split: prod.splits sum.splits)
    with ok show ?thesis by simp
  qed
qed

definition note_event :: "u64 \<Rightarrow> session_event" where
  "note_event n = \<lparr>ev_type = ''other/note'', ev_seq = n, ev_time = 1, ev_data = JNull, ev_ignorable = Some True,
     ev_sources = None, ev_surface_op = None\<rparr>"

abbreviation goal_env_sample :: "memory goal_env" where
  "goal_env_sample \<equiv> memory_goal_env goal_base"

lemma goal_made_reachable: "goal_reachable goal_env_sample goal_made"
proof -
  have "session_ok wire_codec first_session" unfolding session_ok_def by code_simp
  moreover have "goal_service_new wire_codec goal_wire (agent_of sample_ready 0 1) first_session = Inr first_state" by code_simp
  moreover have "ge_codec goal_base = wire_codec" by (simp add: goal_base_def)
  ultimately show ?thesis
    unfolding goal_made_def by (intro goal_reachable.opened) simp_all
qed

section \<open>Properties\<close>

text \<open>C18: warm and cold goals agree. Whatever operations a goal service has performed, with whatever events other
  writers put between them, catching up with the log gives the same goals, counters, block reasons and
  current goal as a service newly built from the whole log, or fails with the same error.\<close>

theorem warm_goals_equal_cold:
  assumes "goal_reachable (memory_goal_env base) w"
  shows "map_sum id ledger (sync_locked (ge_codec base) goal_wire (session_events (go_session w)) (go_state w))
      = map_sum id ledger (replay_goals (ge_codec base) goal_wire (session_events (go_session w)))
    \<and> (ai_id agent = session_id (go_session w) \<and> \<not> ai_disposed agent \<longrightarrow>
        map_sum id ledger (goal_service_new (ge_codec base) goal_wire agent (go_session w))
        = map_sum id ledger (replay_goals (ge_codec base) goal_wire (session_events (go_session w))))"
proof -
  have "tracks (ge_codec base) goal_wire (session_events (go_session w)) (go_state w)"
    using goal_mem.goal_reachable_ok [OF assms] by (simp add: world_ok_def)
  moreover have "map_sum id ledger (goal_service_new (ge_codec base) goal_wire agent (go_session w))
      = map_sum id ledger (replay_goals (ge_codec base) goal_wire (session_events (go_session w)))"
    if "ai_id agent = session_id (go_session w) \<and> \<not> ai_disposed agent"
    using that by (cases "replay_goals (ge_codec base) goal_wire (session_events (go_session w))") (simp_all add: goal_service_new_def)
  ultimately show ?thesis using sync_is_replay by blast
qed

theorem warm_goals_equal_cold_witness:
  "\<exists>st st'. sync_locked wire_codec goal_wire (session_events (go_session goal_made)) (go_state goal_made) = Inr st
     \<and> replay_goals wire_codec goal_wire (session_events (go_session goal_made)) = Inr st' \<and> ledger st = ledger st' \<and> gl_goals st \<noteq> []"
proof -
  have ok: "is_ok (sync_locked wire_codec goal_wire (session_events (go_session goal_made)) (go_state goal_made))"
    "gl_goals (projr (sync_locked wire_codec goal_wire (session_events (go_session goal_made)) (go_state goal_made))) \<noteq> []" by code_simp+
  then obtain st where st: "sync_locked wire_codec goal_wire (session_events (go_session goal_made)) (go_state goal_made) = Inr st"
    by (auto simp: is_ok_ex)
  have "ge_codec goal_base = wire_codec" by (simp add: goal_base_def)
  with warm_goals_equal_cold [OF goal_made_reachable] st ok(2) show ?thesis
    by (cases "replay_goals wire_codec goal_wire (session_events (go_session goal_made))") auto
qed

text \<open>C19: the type of the ledger. In every reachable state of a goal service every goal is valid and stored under its
  own id; exactly the goals that are not cleared have counters, in the safe range and ordered in time; exactly
  the blocked ones have a well-formed reason; and the current goal exists and is not cleared.\<close>

theorem goal_ledger_well_typed:
  assumes "goal_reachable (memory_goal_env base) w"
  shows "goal_state_ok (go_state w)"
  using goal_mem.goal_reachable_ok [OF assms] tracks_ok by (auto simp: world_ok_def)

theorem goal_ledger_well_typed_witness:
  "goal_state_ok (go_state goal_made) \<and> map_of (gl_goals (go_state goal_made)) ''g1'' \<noteq> None"
proof
  show "goal_state_ok (go_state goal_made)" by (rule goal_ledger_well_typed [OF goal_made_reachable])
  show "map_of (gl_goals (go_state goal_made)) ''g1'' \<noteq> None" by code_simp
qed

text \<open>C20: goal operations come to an end. The compare-and-swap loop retries when another writer was first; with any
  finite interference of other writers every operation of the service returns, the log has only grown, and
  the service still tracks it.\<close>

theorem goal_operations_return:
  assumes "goal_reachable (memory_goal_env base) w" and "list_all (foreign (ge_codec base)) moves"
  shows "\<exists>r w' added. run_goal (memory_goal_env base) cmd (w\<lparr>go_moves := moves, go_cancel := c\<rparr>) = Some (r, w')
    \<and> session_events (go_session w') = session_events (go_session w) @ added
    \<and> tracks (ge_codec base) goal_wire (session_events (go_session w')) (go_state w')"
proof -
  have "world_ok (memory_goal_env base) (w\<lparr>go_moves := moves, go_cancel := c\<rparr>)"
    using goal_mem.goal_reachable_ok [OF assms(1)] assms(2) by (simp add: world_ok_def)
  from goal_mem.safe_ioE [OF goal_mem.safe_run_goal this, of cmd] obtain r w' where
    "run_goal (memory_goal_env base) cmd (w\<lparr>go_moves := moves, go_cancel := c\<rparr>) = Some (r, w')"
    "evolves (memory_goal_env base) (w\<lparr>go_moves := moves, go_cancel := c\<rparr>) w'" .
  then show ?thesis by (auto simp: evolves_def world_ok_def)
qed

theorem goal_operations_return_witness:
  "\<exists>w'. run_goal goal_env_sample (PauseGoal first_ref)
      (goal_made\<lparr>go_moves := [other_append wire_codec (memory_persistence wire_codec) note_event], go_cancel := None\<rparr>) = Some (Inr (), w')
    \<and> tracks wire_codec goal_wire (session_events (go_session w')) (go_state w') \<and> length (session_events (go_session w')) = 3"
proof -
  let ?moves = "[other_append wire_codec (memory_persistence wire_codec) note_event]"
  let ?run = "run_goal goal_env_sample (PauseGoal first_ref) (goal_made\<lparr>go_moves := ?moves, go_cancel := None\<rparr>)"
  have c: "ge_codec goal_base = wire_codec" by (simp add: goal_base_def)
  have "list_all (foreign (ge_codec goal_base)) ?moves" by (simp add: c foreign_other_append)
  from goal_operations_return [OF goal_made_reachable this, of "PauseGoal first_ref" None] c obtain r w' where
    run: "?run = Some (r, w')" and t: "tracks wire_codec goal_wire (session_events (go_session w')) (go_state w')" by auto
  have "map_option (\<lambda>(r, w). (r, length (session_events (go_session w)))) ?run = Some (Inr (), 3)" by code_simp
  with run t show ?thesis by auto
qed

lemma revision_replaced:
  assumes "goal_reachable (memory_goal_env base) w0" and "list_all (foreign (ge_codec base)) moves"
    and "w = w0\<lparr>go_moves := moves, go_cancel := c\<rparr>"
    and "op \<in> {goal_edit (memory_goal_env base) r objective cap, goal_pause (memory_goal_env base) r,
               goal_complete (memory_goal_env base) r, goal_block (memory_goal_env base) r reason,
               goal_resume (memory_goal_env base) r, goal_clear (memory_goal_env base) r}"
    and "op w = Some (Inr g, w')"
  shows "replaces_revision (memory_goal_env base) r g w0 w'"
proof -
  have w: "world_ok (memory_goal_env base) w"
    using goal_mem.goal_reachable_ok [OF assms(1)] assms(2,3) by (simp add: world_ok_def)
  have "replaces_revision (memory_goal_env base) r g w w'"
    using assms(4,5) goal_mem.swap_edit [OF _ w] goal_mem.swap_transition [OF _ w] goal_mem.swap_block [OF _ w]
      goal_mem.swap_resume [OF _ w] goal_mem.swap_clear [OF _ w]
    by (auto simp: goal_pause_def goal_complete_def)
  then show ?thesis by (simp add: replaces_revision_def assms(3))
qed

text \<open>C21: compare and swap. An edit, pause, completion, block, resume or clear that names a revision succeeds only if
  the log, at the moment its event was appended, held the goal at exactly that revision; the event makes it the
  returned snapshot at the next revision. So of two writers that name the same revision at most one succeeds,
  however they interleave.\<close>

theorem goal_compare_and_swap:
  assumes "goal_reachable (memory_goal_env base) w0" and "list_all (foreign (ge_codec base)) moves"
    and "w = w0\<lparr>go_moves := moves, go_cancel := c\<rparr>"
    and "op \<in> {goal_edit (memory_goal_env base) r objective cap, goal_pause (memory_goal_env base) r,
               goal_complete (memory_goal_env base) r, goal_block (memory_goal_env base) r reason,
               goal_resume (memory_goal_env base) r, goal_clear (memory_goal_env base) r}"
    and "op w = Some (Inr g, w')"
  shows "replaces_revision (memory_goal_env base) r g w0 w'"
  using revision_replaced [OF assms] .

theorem goal_compare_and_swap_witness:
  "\<exists>g w'. goal_pause goal_env_sample first_ref (goal_made\<lparr>go_moves := [], go_cancel := None\<rparr>) = Some (Inr g, w')
     \<and> replaces_revision goal_env_sample first_ref g goal_made w'"
proof -
  let ?w = "goal_made\<lparr>go_moves := [], go_cancel := None\<rparr>"
  have "(case goal_pause goal_env_sample first_ref ?w of Some (Inr _, _) \<Rightarrow> True | _ \<Rightarrow> False)" by code_simp
  then obtain g w' where run: "goal_pause goal_env_sample first_ref ?w = Some (Inr g, w')"
    by (auto split: option.splits prod.splits sum.splits)
  have "replaces_revision goal_env_sample first_ref g goal_made w'"
    by (rule goal_compare_and_swap [OF goal_made_reachable, where op = "goal_pause goal_env_sample first_ref" and moves = "[]" and c = None and w = ?w])
      (simp_all add: run)
  with run show ?thesis by blast
qed

text \<open>C36: the life of a goal. Reading more of the log never takes a goal back: its revision only grows, it changes
  only with its revision, a cleared goal stays exactly as it was cleared and a complete goal stays complete.
  The counter of a goal is the number of its rounds in the log, which are numbered from one without a gap.\<close>

theorem goal_life_is_monotone:
  assumes "replay_goals cdc gk es = Inr st" and "replay_goals cdc gk (es @ added) = Inr st'" and "map_of (gl_goals st) i = Some g"
  shows "(\<exists>g'. map_of (gl_goals st') i = Some g' \<and> goal_follows g g')
    \<and> (\<forall>t. map_of (gl_times st) i = Some t \<longrightarrow> rounds_in cdc i es = [1..<gt_rounds_started t + 1])"
proof -
  from assms(1,2) have "try_fold (apply_goal_event cdc gk) st added = Inr st'"
    by (simp add: replay_goals_def try_fold_append)
  from fold_follows [OF this replay_goals_ok [OF assms(1)] assms(3)] replay_counts_rounds [OF assms(1)]
  show ?thesis by (simp add: rounds_counted_def)
qed

definition goal_log :: "session_event list" where
  "goal_log = [first_event, change_event_of goal_wire (change_snapshot OpPause
      (first_goal\<lparr>gs_reference := first_ref\<lparr>gr_revision := 2\<rparr>, gs_phase := GoalPaused\<rparr>)
      \<lparr>gt_created_at = 1000, gt_updated_at = 1002, gt_rounds_started = 0\<rparr> None) 1 1003]"

theorem goal_life_is_monotone_witness:
  "\<exists>st st' g g'. replay_goals wire_codec goal_wire (take 1 goal_log) = Inr st \<and> replay_goals wire_codec goal_wire goal_log = Inr st'
     \<and> map_of (gl_goals st) ''g1'' = Some g \<and> map_of (gl_goals st') ''g1'' = Some g' \<and> goal_follows g g'
     \<and> gr_revision (gs_reference g') = 2"
proof -
  let ?st = "projr (replay_goals wire_codec goal_wire (take 1 goal_log))" and ?st' = "projr (replay_goals wire_codec goal_wire goal_log)"
  have "is_ok (replay_goals wire_codec goal_wire (take 1 goal_log)) \<and> is_ok (replay_goals wire_codec goal_wire goal_log)
    \<and> map_of (gl_goals ?st) ''g1'' \<noteq> None
    \<and> map_option (\<lambda>g. gr_revision (gs_reference g)) (map_of (gl_goals ?st') ''g1'') = Some 2" by code_simp
  then have ok: "is_ok (replay_goals wire_codec goal_wire (take 1 goal_log))" "is_ok (replay_goals wire_codec goal_wire goal_log)"
    "map_of (gl_goals ?st) ''g1'' \<noteq> None"
    "map_option (\<lambda>g. gr_revision (gs_reference g)) (map_of (gl_goals ?st') ''g1'') = Some 2" by blast+
  then have st: "replay_goals wire_codec goal_wire (take 1 goal_log) = Inr ?st"
    and st': "replay_goals wire_codec goal_wire (take 1 goal_log @ drop 1 goal_log) = Inr ?st'" by (auto simp: is_ok_ex)
  from ok(3) obtain g where g: "map_of (gl_goals ?st) ''g1'' = Some g" by blast
  from goal_life_is_monotone [OF st st' g] obtain g' where "map_of (gl_goals ?st') ''g1'' = Some g'" "goal_follows g g'" by blast
  moreover from this ok(4) have "gr_revision (gs_reference g') = 2" by simp
  ultimately show ?thesis using st st' g unfolding append_take_drop_id by blast
qed

section \<open>A defect\<close>

text \<open>The user message the agent loop records when it takes a queued message up.\<close>

definition taken_event :: "codec \<Rightarrow> message \<Rightarrow> u64 \<Rightarrow> session_event" where
  "taken_event cdc m n = \<lparr>ev_type = ''user/message'', ev_seq = n, ev_time = 1, ev_data = cd_message_to cdc m, ev_ignorable = None,
     ev_sources = None, ev_surface_op = Some SurfaceAppend\<rparr>"

definition driven_world :: "memory goal_world" where
  "driven_world = the (play goal_env_sample [DriveGoal AgentIdle] goal_made)"

definition edit_sample :: "memory goal_world \<Rightarrow> ((goal_error + goal_snapshot) \<times> memory goal_world) option" where
  "edit_sample w = goal_edit goal_env_sample first_ref (Some ''ship'') None (w\<lparr>go_moves := [], go_cancel := None\<rparr>)"

definition edited_world :: "memory goal_world" where
  "edited_world = snd (the (edit_sample driven_world))"

definition queued_messages :: "'p goal_world \<Rightarrow> message list" where
  "queued_messages w = ib_followups (ai_inbox (go_agent w))"

definition take_up :: "memory goal_world \<Rightarrow> memory goal_world" where
  "take_up w = (case other_append wire_codec (memory_persistence wire_codec) (taken_event wire_codec (hd (queued_messages w)))
      (go_session w, go_disk w) of (s, p) \<Rightarrow> w\<lparr>go_session := s, go_disk := p\<rparr>)"

lemma failed_replay_stays:
  "replay_goals cdc gk es = Inl e \<Longrightarrow> replay_goals cdc gk (es @ added) = Inl e"
  by (simp add: replay_goals_def try_fold_append)

abbreviation taken_log :: "session_event list" where
  "taken_log \<equiv> session_events (go_session (take_up edited_world))"

definition stale_round :: "session_event list \<Rightarrow> session_event list \<Rightarrow> bool" where
  "stale_round es es' \<longleftrightarrow> es' \<noteq> [] \<and> butlast es' = es \<and> ev_type (last es') = ''user/message''
     \<and> map_option msg_source (cd_message_from wire_codec (ev_data (last es'))) = Some (SrcGoal (gr_id first_ref) (gr_revision first_ref) 1)"

lemma stale_run:
  "Option.bind (play goal_env_sample [DriveGoal AgentIdle] goal_made) (\<lambda>w. map_option (\<lambda>(r, w'). (is_ok r,
      stale_round (session_events (go_session w')) (session_events (go_session (take_up w'))))) (edit_sample w)) = Some (True, True)"
  by code_simp

lemma edited_facts:
  "play goal_env_sample [DriveGoal AgentIdle] goal_made = Some driven_world"
  "\<exists>g. edit_sample driven_world = Some (Inr g, edited_world)" "stale_round (session_events (go_session edited_world)) taken_log"
proof -
  from stale_run obtain w r w' where run: "play goal_env_sample [DriveGoal AgentIdle] goal_made = Some w" "edit_sample w = Some (r, w')"
    "is_ok r" "stale_round (session_events (go_session w')) (session_events (go_session (take_up w')))"
    by (auto simp: Option.bind_eq_Some_conv)
  have w: "w = driven_world" using run(1) by (simp add: driven_world_def)
  then have "w' = edited_world" using run(2) by (simp add: edited_world_def)
  then show "play goal_env_sample [DriveGoal AgentIdle] goal_made = Some driven_world" "\<exists>g. edit_sample driven_world = Some (Inr g, edited_world)"
    "stale_round (session_events (go_session edited_world)) taken_log" using run w by (auto simp: is_ok_ex)
qed

lemma edited_world_reachable: "goal_reachable goal_env_sample driven_world" "goal_reachable goal_env_sample edited_world"
proof -
  show driven: "goal_reachable goal_env_sample driven_world" by (rule play_reachable [OF goal_made_reachable edited_facts(1)])
  from edited_facts(2) have "run_goal goal_env_sample (EditGoal first_ref (Some ''ship'') None) (driven_world\<lparr>go_moves := [], go_cancel := None\<rparr>)
      = Some (Inr (), edited_world)"
    by (auto simp: edit_sample_def silently_def go_bind_def go_lift_def)
  from goal_reachable.called [OF driven _ this] show "goal_reachable goal_env_sample edited_world" by simp
qed

lemma take_up_reachable: "goal_reachable goal_env_sample (take_up edited_world)"
proof -
  let ?f = "other_append wire_codec (memory_persistence wire_codec) (taken_event wire_codec (hd (queued_messages edited_world)))"
  obtain s p where o: "?f (go_session edited_world, go_disk edited_world) = (s, p)" by (rule prod.exhaust)
  from edited_world_reachable(2) have "goal_reachable goal_env_sample (edited_world\<lparr>go_session := s, go_disk := p\<rparr>)"
    by (rule goal_reachable.moved [where f = ?f]) (simp_all add: o goal_base_def foreign_other_append)
  then show ?thesis by (simp add: take_up_def o)
qed

lemma replaced_round_fails:
  assumes "replay_goals cdc gk es = Inr st" "map_of (gl_goals st) i = Some g" "k < gr_revision (gs_reference g)"
    and "ev_type e = ''user/message''" "cd_message_from cdc (ev_data e) = Some m" "msg_source m = SrcGoal i k n"
  shows "\<exists>err. replay_goals cdc gk (es @ mid @ e # added) = Inl err"
proof (cases "replay_goals cdc gk (es @ mid)")
  case (Inl err)
  then show ?thesis using failed_replay_stays [OF Inl, of "e # added"] by simp
next
  case (Inr st2)
  have "try_fold (apply_goal_event cdc gk) st mid = Inr st2" using assms(1) Inr by (simp add: replay_goals_def try_fold_append)
  from fold_follows [OF this replay_goals_ok [OF assms(1)] assms(2)] obtain g2 where
    g2: "map_of (gl_goals st2) i = Some g2" "gr_revision (gs_reference g) \<le> gr_revision (gs_reference g2)" by (auto simp: goal_follows_def)
  have "apply_change gk st2 e = Inr st2" using assms(4) by (simp add: apply_change_def)
  moreover have "\<exists>err. admit_round st2 m (ev_seq e) = Inl err"
    using assms(3, 6) g2 by (auto simp: admit_round_def split: if_splits)
  ultimately obtain err where "apply_goal_event cdc gk st2 e = Inl err" using assms(4, 5) by (auto simp: apply_goal_event_def apply_goal_round_def)
  then have "replay_goals cdc gk ((es @ mid) @ e # added) = Inl err" using Inr unfolding replay_goals_def by (subst try_fold_append) simp
  then show ?thesis by simp
qed

text \<open>C22: a queued round outlives its revision. Once an edit of a revision has been accepted, a round that was queued under that revision
  ruins the goals of the session when it is taken up: no log that goes on from the edit and contains the user message of
  such a round, whatever other events come between and after, can be replayed, so that the goal service of
  that session can never be built again.\<close>

theorem queued_round_outlives_its_revision:
  assumes "goal_reachable (memory_goal_env base) w0" and "list_all (foreign (ge_codec base)) moves"
    and "goal_edit (memory_goal_env base) r objective cap (w0\<lparr>go_moves := moves, go_cancel := c\<rparr>) = Some (Inr g, w)"
    and "ev_type e = ''user/message''" "cd_message_from (ge_codec base) (ev_data e) = Some m" "msg_source m = SrcGoal (gr_id r) (gr_revision r) n"
    and "session_events s = session_events (go_session w) @ mid @ e # added"
  shows "(\<exists>err. replay_goals (ge_codec base) goal_wire (session_events s) = Inl err)
    \<and> (\<forall>agent. \<not> is_ok (goal_service_new (ge_codec base) goal_wire agent s))"
proof -
  have "replaces_revision (memory_goal_env base) r g w0 w" 
    by (rule revision_replaced [where op = "goal_edit (memory_goal_env base) r objective cap", OF assms(1, 2) refl _ assms(3)]) (rule insertI1)
  then obtain st where "replay_goals (ge_codec base) goal_wire (session_events (go_session w)) = Inr st"
    "map_of (gl_goals st) (gr_id r) = Some g" "gs_reference g = r\<lparr>gr_revision := gr_revision r + 1\<rparr>" by (auto simp: replaces_revision_def)
  then obtain err where "replay_goals (ge_codec base) goal_wire (session_events s) = Inl err"
    using replaced_round_fails [OF _ _ _ assms(4-6)] assms(7) by force
  then show ?thesis by (simp add: goal_service_new_def)
qed

theorem queued_round_outlives_its_revision_witness:
  "play goal_env_sample [DriveGoal AgentIdle] goal_made = Some driven_world \<and> edit_sample driven_world \<noteq> None
   \<and> goal_reachable goal_env_sample (take_up edited_world) \<and> (\<exists>err. replay_goals wire_codec goal_wire taken_log = Inl err)"
proof -
  obtain g where edit: "goal_edit goal_env_sample first_ref (Some ''ship'') None (driven_world\<lparr>go_moves := [], go_cancel := None\<rparr>)
      = Some (Inr g, edited_world)" using edited_facts(2) by (auto simp: edit_sample_def)
  note stale = edited_facts(3)[unfolded stale_round_def]
  have log: "session_events (go_session (take_up edited_world)) = session_events (go_session edited_world) @ [] @ last taken_log # []"
    using stale append_butlast_last_id [of taken_log] by auto
  obtain m where m: "cd_message_from (ge_codec goal_base) (ev_data (last taken_log)) = Some m" "msg_source m = SrcGoal (gr_id first_ref) (gr_revision first_ref) 1"
    using stale by (auto simp: goal_base_def)
  have "ev_type (last taken_log) = ''user/message''" using stale by blast
  from queued_round_outlives_its_revision [OF edited_world_reachable(1) _ edit this m log]
  have "\<exists>err. replay_goals wire_codec goal_wire taken_log = Inl err" by (simp add: goal_base_def)
  then show ?thesis using edited_facts(1, 2) take_up_reachable by blast
qed

section \<open>The drive\<close>

lemma goal_block_phase:
  assumes "goal_block (memory_goal_env base) r reason w = Some (Inr g, w')" and "world_ok (memory_goal_env base) w"
  shows "gs_phase g = GoalBlocked"
proof -
  from assms(1) obtain current h w1 x w2 where rev: "revised (memory_goal_env base) r (\<lambda>current _. and_then
      (ensure (gs_phase current = GoalActive) GoalInvalidTransition) (\<lambda>_. moved_to GoalBlocked False current)) w = Some (Inr h, w1)"
    and wr: "write_locked (memory_goal_env base) (Some r) h OpBlock (Some reason) w1 = Some (Inr x, w2)" and g: "g = x"
    unfolding goal_block_def go_bind_Inr by (auto simp: go_lift_def)
  from revised_Inr [OF rev assms(2)] obtain current where "moved_to GoalBlocked False current = Inr h" and ev: "evolves (memory_goal_env base) w w1"
    by auto
  with goal_mem.write_locked_returns [OF evolves_ok [OF ev], of "Some r" h OpBlock "Some reason"] wr g
  show ?thesis by (auto simp: moved_to_def)
qed

lemma send_round_Inr:
  assumes "send_round env m w = (Inr u, w')"
  shows "queued_messages w' = queued_messages w @ [m]" "go_session w' = go_session w"
  using assms
  by (auto simp: send_round_def agent_send_def queued_messages_def inbox_send_def inbox_enqueue_def bump_wakes_def bump_changes_def
      call_wake_def Let_def split: prod.splits sum.splits if_splits)

lemma queue_round_Inr:
  assumes "queue_round env r n m w = Some (Inr u, w')" and "world_ok env w"
  obtains log seq t where "session_events (go_session w') = log @ [queued_event (ge_codec env) m seq t]"
    "\<exists>added. log = session_events (go_session w) @ added" "queued_messages w' = queued_messages w @ [m]"
proof -
  from assms(1) obtain seq where run: "(case goal_append env (queued_event (ge_codec env) m seq) w of
        (Inl _, w1) \<Rightarrow> give_up_round env r n ''durable queue append'' ''goal continuation queue append failed'' w1
      | (Inr _, w1) \<Rightarrow>
          (case send_round env m w1 of
             (Inl _, w2) \<Rightarrow> give_up_round env r n ''agent delivery'' ''goal continuation queue delivery failed'' w2
           | (Inr _, w2) \<Rightarrow> Some (Inr (), w2))) = Some (Inr u, w')"
    unfolding queue_round_def go_bind_Inr by auto
  have never: "give_up_round env r n s t v \<noteq> Some (Inr u, w')" for s t v
    by (simp add: give_up_round_def go_bind_Inr go_lift_def)
  obtain x w1 where a: "goal_append env (queued_event (ge_codec env) m seq) w = (x, w1)" by (rule prod.exhaust)
  obtain y w2 where b: "send_round env m w1 = (y, w2)" by (rule prod.exhaust)
  from run a b never obtain v z where x: "x = Inr v" and y: "y = Inr z" and w': "w' = w2"
    by (cases x; cases y) auto
  have agent: "go_agent w1 = go_agent w"
    using a by (auto simp: goal_append_def goal_now_def interfere_def Let_def split: prod.splits sum.splits list.splits)
  from a assms(2) show ?thesis
  proof (cases rule: append_cases)
    case (Refused e c p w3 t)
    with x show ?thesis by simp
  next
    case (Done w3 t)
    from Done(2) obtain added where "session_events (go_session w3) = session_events (go_session w) @ added" by (auto simp: evolves_def)
    with Done(9) send_round_Inr [OF b [unfolded y]] agent w' that [of "session_events (go_session w3)" seq t] show ?thesis
      by (simp add: queued_messages_def)
  qed
qed

text \<open>The drive of a goal. A drive that succeeds either leaves the log as it is, or found the agent idle, read a log with
  an active goal, and then: below the round limit it recorded the next round, numbered one above the counter, and
  handed exactly that message to the agent; at the limit it blocked the goal at the revision it had read.\<close>

theorem drive_queues_next_round:
  assumes reach: "goal_reachable (memory_goal_env base) w0" and moves: "list_all (foreign (ge_codec base)) moves"
    and w: "w = w0\<lparr>go_moves := moves, go_cancel := c\<rparr>"
    and run: "goal_drive (memory_goal_env base) status w = Some (Inr u, w')"
  shows "session_events (go_session w') = session_events (go_session w0)
    \<or> (\<exists>st ident g t. status = AgentIdle \<and> replay_goals (ge_codec base) goal_wire (session_events (go_session w0)) = Inr st
         \<and> map_of (gl_goals st) ident = Some g \<and> gs_phase g = GoalActive \<and> \<not> gs_tombstone g \<and> map_of (gl_times st) ident = Some t
         \<and> (let m = round_message (memory_goal_env base) (gs_reference g) (gt_rounds_started t + 1) (gs_title g) (gs_max_rounds g)
            in (gt_rounds_started t < gs_max_rounds g \<and> queued_messages w' = queued_messages w0 @ [m]
                \<and> (\<exists>added seq time. session_events (go_session w') =
                     session_events (go_session w0) @ added @ [queued_event (ge_codec base) m seq time]))
             \<or> (gs_max_rounds g \<le> gt_rounds_started t
                \<and> (\<exists>g'. gs_phase g' = GoalBlocked \<and> replaces_revision (memory_goal_env base) (gs_reference g) g' w0 w'))))"
proof (cases "status = AgentIdle")
  case False
  with run w show ?thesis by (auto simp: goal_drive_def go_bind_Inr go_lift_def)
next
  case True
  let ?env = "memory_goal_env base"
  have ok: "world_ok ?env w" using goal_mem.goal_reachable_ok [OF reach] moves w by (simp add: world_ok_def)
  from run True obtain v w1 plan where s: "sync_world ?env w = (Inr v, w1)" and p: "plan_round (go_state w1) = Inr plan"
    and r: "run_plan ?env plan w1 = Some (Inr u, w')" by (auto simp: goal_drive_def go_bind_Inr)
  have same: "go_session w1 = go_session w0" "go_agent w1 = go_agent w0"
    using s w by (auto simp: sync_world_def split: sum.splits)
  note ok1 = evolves_ok [OF evolves_sync(1) [OF s ok]]
  from evolves_sync(2) [OF s ok] ok1 same obtain st where
    st: "replay_goals (ge_codec base) goal_wire (session_events (go_session w0)) = Inr st" "ledger st = ledger (go_state w1)"
    by (auto simp: world_ok_def tracks_def)
  show ?thesis
  proof (cases plan)
    case None
    with r same show ?thesis by (simp add: run_plan_def go_lift_def)
  next
    case (Some ns)
    obtain nr st1 where ns: "ns = (nr, st1)" by (rule prod.exhaust)
    from p Some ns obtain g t ident where g: "map_of (gl_goals (go_state w1)) ident = Some g" "\<not> gs_tombstone g" "gs_phase g = GoalActive"
      "gr_id (gs_reference g) = ident" "map_of (gl_times (go_state w1)) ident = Some t"
      and nr: "nr = (if gt_rounds_started t \<ge> gs_max_rounds g then BlockAtCap (gs_reference g) (gs_max_rounds g)
                     else QueueRound (gs_reference g) (gt_rounds_started t + 1) (gs_title g) (gs_max_rounds g))"
      by (auto simp: plan_round_def Let_def split: option.splits if_splits)
    let ?m = "round_message ?env (gs_reference g) (gt_rounds_started t + 1) (gs_title g) (gs_max_rounds g)"
    have fin: "(gt_rounds_started t < gs_max_rounds g \<and> queued_messages w' = queued_messages w0 @ [?m]
          \<and> (\<exists>added seq time. session_events (go_session w') = session_events (go_session w0) @ added @ [queued_event (ge_codec base) ?m seq time]))
        \<or> (gs_max_rounds g \<le> gt_rounds_started t \<and> (\<exists>g'. gs_phase g' = GoalBlocked \<and> replaces_revision ?env (gs_reference g) g' w0 w'))"
    proof (cases "gt_rounds_started t \<ge> gs_max_rounds g")
      case capped: True
      with r Some ns nr obtain g' where b: "goal_block ?env (gs_reference g) (limit_reason (gs_max_rounds g)) w1 = Some (Inr g', w')"
        by (auto simp: run_plan_def go_bind_Inr go_lift_def)
      from goal_mem.swap_block [OF b ok1] goal_block_phase [OF b ok1] capped same show ?thesis by (auto simp: replaces_revision_def)
    next
      case False
      let ?w = "w1\<lparr>go_state := st1\<rparr>"
      have "evolves ?env w1 ?w" using goal_mem.plan_round_ledger [of "go_state w1" nr st1] p Some ns ok1 by (intro evolves_same) simp_all
      note ok2 = evolves_ok [OF this]
      from False r Some ns nr have "queue_round ?env (gs_reference g) (gt_rounds_started t + 1) ?m ?w = Some (Inr u, w')"
        by (auto simp: run_plan_def go_bind_Inr go_change_def)
      then show ?thesis using False ok2 same by (elim queue_round_Inr) (auto simp: queued_messages_def)
    qed
    have l: "gl_goals st = gl_goals (go_state w1)" "gl_times st = gl_times (go_state w1)" using st(2) by (simp_all add: ledger_eq)
    show ?thesis
      unfolding Let_def
      by (rule disjI2, rule exI [of _ st], rule exI [of _ ident], rule exI [of _ g], rule exI [of _ t])
        (use True st(1) g l fin in simp)
  qed
qed

theorem drive_queues_next_round_witness:
  "\<exists>w' m. goal_drive goal_env_sample AgentIdle (goal_made\<lparr>go_moves := [], go_cancel := None\<rparr>) = Some (Inr (), w')
     \<and> queued_messages w' = queued_messages goal_made @ [m]"
proof -
  let ?w = "goal_made\<lparr>go_moves := [], go_cancel := None\<rparr>"
  let ?run = "goal_drive goal_env_sample AgentIdle ?w"
  have q: "map_option (\<lambda>(r, w). (r, length (session_events (go_session w)))) ?run = Some (Inr (), 2)" by code_simp
  then obtain w' where run: "?run = Some (Inr (), w')" and n: "length (session_events (go_session w')) = 2" by auto
  have "length (session_events (go_session goal_made)) = 1" by (simp add: goal_made_def first_session_def)
  with n have differ: "session_events (go_session w') \<noteq> session_events (go_session goal_made)" by auto
  have "\<not> gs_max_rounds g \<le> gt_rounds_started t"
    if "replay_goals wire_codec goal_wire (session_events (go_session goal_made)) = Inr st" "map_of (gl_goals st) i = Some g"
      "map_of (gl_times st) i = Some t" for st i g t
  proof -
    have "replay_goals wire_codec goal_wire (session_events (go_session goal_made)) = Inr (first_state\<lparr>gl_activation := None, gl_next_activation := 0, gl_observed := 0\<rparr>)"
      by code_simp
    with that show ?thesis by (auto simp: first_state_def first_goal_def split: if_splits)
  qed
  with drive_queues_next_round [OF goal_made_reachable _ refl run] differ run show ?thesis
    by (auto simp: Let_def goal_base_def)
qed

section \<open>The tools\<close>

lemma model_value_Inr:
  assumes "model_value env w = Some (Inr v, w')" and "world_ok env w"
  shows "goal_view (go_state w') = Inr v" "world_ok env w'"
    "gl_observed (go_state w') = length (session_events (go_session w'))" "go_session w' = go_session w"
proof -
  from assms(1) obtain u where s: "sync_world env w = (Inr u, w')" and "goal_view (go_state w') = Inr v"
    by (auto simp: model_value_def go_bind_Inr go_read_def go_lift_def)
  with evolves_sync [OF s assms(2)] show "goal_view (go_state w') = Inr v" "world_ok env w'"
    "gl_observed (go_state w') = length (session_events (go_session w'))" by (auto simp: evolves_def)
  from s show "go_session w' = go_session w" by (auto simp: sync_world_def split: sum.splits)
qed

text \<open>What a goal tool answers: the view of a state that has read the whole log.\<close>

definition answers_from_log :: "'p goal_env \<Rightarrow> string \<Rightarrow> tool_output \<Rightarrow> 'p goal_router \<Rightarrow> bool" where
  "answers_from_log env x out router \<longleftrightarrow>
     (\<exists>w st v. map_of router x = Some w \<and> replay_goals (ge_codec env) (ge_goals env) (session_events (go_session w)) = Inr st
        \<and> ledger (go_state w) = ledger st \<and> goal_view (go_state w) = Inr v \<and> to_content out = [Text (ge_render env v)] \<and> \<not> to_is_error out)"

lemma goal_tool_call_Inr:
  assumes "goal_tool_call tc env x router m out w = Some (Inr answer, router')"
  shows "\<exists>v w'. m w = Some (Inr v, w') \<and> answer = out v \<and> router' = bt_insert x w' router"
proof (cases "m w")
  case None
  with assms show ?thesis by (simp add: goal_tool_call_def)
next
  case (Some p)
  obtain r w' where "p = (r, w')" by (cases p)
  with assms Some show ?thesis by (cases r) (simp_all add: goal_tool_call_def)
qed

lemma tool_call_answers:
  assumes call: "goal_tool_call tc env x router m out w = Some (Inr answer, router')" and w: "world_ok env w"
    and m: "\<And>v w'. m w = Some (Inr v, w') \<Longrightarrow> \<exists>w1. world_ok env w1 \<and> model_value env w1 = Some (Inr v, w')"
    and out: "\<And>v. to_content (out v) = [Text (ge_render env v)] \<and> \<not> to_is_error (out v)"
  shows "answers_from_log env x answer router'"
proof -
  from goal_tool_call_Inr [OF call] obtain v w'
    where run: "m w = Some (Inr v, w')" and a: "answer = out v" "router' = bt_insert x w' router" by blast
  from m [OF run] obtain w1 where w1: "world_ok env w1" "model_value env w1 = Some (Inr v, w')" by blast
  from model_value_Inr [OF w1(2,1)] have v: "goal_view (go_state w') = Inr v" "world_ok env w'"
    and o: "gl_observed (go_state w') = length (session_events (go_session w'))" by simp_all
  from v(2) o obtain st where "replay_goals (ge_codec env) (ge_goals env) (session_events (go_session w')) = Inr st"
    "ledger st = ledger (go_state w')" by (auto simp: world_ok_def tracks_def)
  with v(1) a out [of v] show ?thesis by (auto simp: answers_from_log_def)
qed

context goal_backend
begin

lemma after_operation:
  assumes "go_bind op (\<lambda>_. model_value env) w = Some (Inr v, w')" and "safe_io env op" and "world_ok env w"
  shows "\<exists>w1. world_ok env w1 \<and> model_value env w1 = Some (Inr v, w')"
proof -
  from assms(1) obtain x w1 where "op w = Some (Inr x, w1)" "model_value env w1 = Some (Inr v, w')" by (auto simp: go_bind_Inr)
  moreover from safe_ioE [OF assms(2,3)] this(1) have "world_ok env w1" by (metis evolves_ok option.inject prod.inject)
  ultimately show ?thesis by blast
qed

lemma update_operation_safe: "update_operation env input = Inr op \<Longrightarrow> safe_io env op"
  by (auto simp: update_operation_def Let_def goal_pause_def goal_complete_def safe_edit safe_transition safe_resume safe_block
      split: model_goal_action.splits if_splits option.splits)

end

text \<open>The goal tools answer from the log. A successful \<open>create_goal\<close>, \<open>get_goal\<close> or \<open>update_goal\<close> answers with the view of a
  state whose goals are those of the complete log of the session; reading a goal appends nothing.\<close>

theorem goal_tools_answer_from_log:
  assumes "map_of router x = Some w" and "world_ok (memory_goal_env base) w"
    and run: "tool \<in> {create_goal_run tc (memory_goal_env base), get_goal_run tc (memory_goal_env base), update_goal_run tc (memory_goal_env base)}"
      "tool x args router = Some (Inr out, router')"
  shows "answers_from_log (memory_goal_env base) x out router'
    \<and> (tool x args router = get_goal_run tc (memory_goal_env base) x args router \<longrightarrow>
        map_option (\<lambda>w. session_events (go_session w)) (map_of router' x) = Some (session_events (go_session w)))"
proof -
  let ?env = "memory_goal_env base"
  have svc: "router_goal_service x router = Inr w" using assms(1) by (simp add: router_goal_service_def)
  have plain: "to_content (model_goal_output ?env v) = [Text (ge_render ?env v)] \<and> \<not> to_is_error (model_goal_output ?env v)" for v
    by (simp add: model_goal_output_def)
  have closing: "to_content (update_output ?env a v) = [Text (ge_render ?env v)] \<and> \<not> to_is_error (update_output ?env a v)" for a v
    by (simp add: update_output_def Let_def model_goal_output_def)
  have read: "answers_from_log ?env x out router' \<and> map_option (\<lambda>w. session_events (go_session w)) (map_of router' x) = Some (session_events (go_session w))"
    if g: "get_goal_run tc ?env x args router = Some (Inr out, router')"
  proof -
    from g svc have call: "goal_tool_call tc ?env x router (model_value ?env) (model_goal_output ?env) w = Some (Inr out, router')"
      by (auto simp: get_goal_run_def split: option.splits)
    from goal_tool_call_Inr [OF call] obtain v w' where run: "model_value ?env w = Some (Inr v, w')" "router' = bt_insert x w' router" by blast
    have "answers_from_log ?env x out router'"
      by (rule tool_call_answers [OF call assms(2) _ plain]) (use assms(2) in blast)
    with run model_value_Inr(4) [OF run(1) assms(2)] show ?thesis by simp
  qed
  have "answers_from_log ?env x out router'"
  proof (cases "tool x args router = get_goal_run tc ?env x args router")
    case True
    with read run(2) show ?thesis by simp
  next
    case False
    with run consider (Create) "create_goal_run tc ?env x args router = Some (Inr out, router')"
      | (Update) "update_goal_run tc ?env x args router = Some (Inr out, router')" by auto
    then show ?thesis
    proof cases
      case Create
      with svc obtain objective cap where "goal_tool_call tc ?env x router
          (go_bind (goal_create ?env objective cap) (\<lambda>_. model_value ?env)) (model_goal_output ?env) w = Some (Inr out, router')"
        by (auto simp: create_goal_run_def split: option.splits if_splits)
      then show ?thesis
        by (rule tool_call_answers [OF _ assms(2) _ plain]) (rule goal_mem.after_operation [OF _ goal_mem.safe_create assms(2)])
    next
      case Update
      with svc obtain input op where op: "update_operation ?env input = Inr op" and "goal_tool_call tc ?env x router
          (go_bind op (\<lambda>_. model_value ?env)) (update_output ?env (mu_action input)) w = Some (Inr out, router')"
        by (auto simp: update_goal_run_def split: option.splits if_splits sum.splits)
      then show ?thesis
        by (intro tool_call_answers [OF _ assms(2) _ closing])
          (auto intro: goal_mem.after_operation [OF _ goal_mem.update_operation_safe [OF op] assms(2)])
    qed
  qed
  with read run(2) show ?thesis by auto
qed

definition plain_tools :: goal_tool_codec where
  "plain_tools = \<lparr>gt_create_from = (\<lambda>_. None), gt_empty_from = (\<lambda>_. Some ()), gt_update_from = (\<lambda>_. None), gt_write_from = (\<lambda>_. None), gt_debug = id\<rparr>"

theorem goal_tools_answer_from_log_witness:
  "\<exists>out router'. get_goal_run plain_tools goal_env_sample ''s1'' (obj []) [(''s1'', goal_made)] = Some (Inr out, router')
     \<and> answers_from_log goal_env_sample ''s1'' out router'"
proof -
  let ?run = "get_goal_run plain_tools goal_env_sample ''s1'' (obj []) [(''s1'', goal_made)]"
  have "(case ?run of Some (Inr _, _) \<Rightarrow> True | _ \<Rightarrow> False)" by code_simp
  then obtain out router' where run: "?run = Some (Inr out, router')" by (auto split: option.splits prod.splits sum.splits)
  have w: "map_of [(''s1'', goal_made)] ''s1'' = Some goal_made" by simp
  have "answers_from_log goal_env_sample ''s1'' out router'"
    using goal_tools_answer_from_log [OF w goal_mem.goal_reachable_ok [OF goal_made_reachable],
        of "get_goal_run plain_tools goal_env_sample" plain_tools "obj []" out router'] run by simp
  with run show ?thesis by blast
qed

end
