(* ===== verification/Projection.thy ===== *)
theory Projection
  imports Sessions
begin

text \<open>
  The projection registry of \<open>src/src/projection.rs\<close>: named pure folds over the log of a session, kept up to date
  by an observer of the session's broadcast, with snapshots at any past event and checkpoints. Callbacks are
  fields of a definition. \<open>apply_gate\<close> serialises every fold step, so a replay, one delivered event and a
  restore are single steps; attaching takes the session twice, as it is when the subscription is made and as it
  is when the events are read. A failed \<open>expect\<close> is \<open>None\<close>.
\<close>

section \<open>Data\<close>

datatype projection_error =
    PjEmptyKey
  | PjAlreadyRegistered string
  | PjNotRegistered string
  | PjNotAttached string string
  | PjCallback string
  | PjFullRereadRequired string string u64
  | PjShutdown

fun projection_error_code :: "projection_error \<Rightarrow> string" where
  "projection_error_code PjEmptyKey = ''INVALID_PROJECTION_KEY''"
| "projection_error_code (PjAlreadyRegistered _) = ''PROJECTION_ALREADY_REGISTERED''"
| "projection_error_code (PjNotRegistered _) = ''PROJECTION_NOT_REGISTERED''"
| "projection_error_code (PjNotAttached _ _) = ''PROJECTION_NOT_ATTACHED''"
| "projection_error_code (PjCallback _) = ''PROJECTION_CALLBACK_FAILED''"
| "projection_error_code (PjFullRereadRequired _ _ _) = ''PROJECTION_FULL_REREAD_REQUIRED''"
| "projection_error_code PjShutdown = ''PROJECTION_SHUTDOWN''"

record projection_definition =
  pd_key :: string
  pd_version :: u64
  pd_init :: "session_header \<Rightarrow> projection_error + json"
  pd_apply :: "json \<Rightarrow> session_event \<Rightarrow> projection_error + json"
  pd_view :: "json \<Rightarrow> projection_error + json"

record projection_checkpoint =
  pk_session :: string
  pk_key :: string
  pk_version :: u64
  pk_as_of :: "u64 option"
  pk_state :: json

record projection_snapshot =
  pn_session :: string
  pn_key :: string
  pn_version :: u64
  pn_as_of :: "u64 option"
  pn_state :: json
  pn_view :: json

record state_frame =
  sf_as_of :: "u64 option"
  sf_state :: json

record projection_state =
  ps_version :: u64
  ps_state :: json
  ps_last_seq :: "u64 option"
  ps_frames :: "state_frame list"
  ps_last_error :: "projection_error option"

record attached_session =
  at_header :: session_header
  at_projections :: "(string \<times> projection_state) list"

text \<open>An observer is the session it reads and its position in the broadcast.\<close>

record projection_registry =
  pj_definitions :: "(string \<times> projection_definition) list"
  pj_sessions :: "(string \<times> attached_session) list"
  pj_observers :: "(string \<times> nat) list"
  pj_shutdown :: bool

type_synonym 'a projection_run = "(projection_error + 'a) \<times> projection_registry"

definition projection_registry_new :: projection_registry where
  "projection_registry_new = \<lparr>pj_definitions = [], pj_sessions = [], pj_observers = [], pj_shutdown = False\<rparr>"

section \<open>Folding\<close>

definition projection_state_at :: "u64 \<Rightarrow> u64 option \<Rightarrow> json \<Rightarrow> projection_state" where
  "projection_state_at version seq v =
     \<lparr>ps_version = version, ps_state = v, ps_last_seq = seq, ps_frames = [\<lparr>sf_as_of = seq, sf_state = v\<rparr>], ps_last_error = None\<rparr>"

definition set_projection :: "string \<Rightarrow> string \<Rightarrow> projection_state \<Rightarrow> projection_registry \<Rightarrow> projection_registry" where
  "set_projection x key st reg =
     (case map_of (pj_sessions reg) x of
        None \<Rightarrow> reg
      | Some att \<Rightarrow>
          reg\<lparr>pj_sessions := bt_insert x (att\<lparr>at_projections := bt_insert key st (at_projections att)\<rparr>) (pj_sessions reg)\<rparr>)"

definition is_new :: "session_event \<Rightarrow> projection_state \<Rightarrow> bool" where
  "is_new e st = (case ps_last_seq st of None \<Rightarrow> True | Some seq \<Rightarrow> ev_seq e > seq)"

definition projection_work ::
  "projection_registry \<Rightarrow> attached_session \<Rightarrow> session_event \<Rightarrow> (projection_definition \<times> json) list" where
  "projection_work reg att e =
     List.map_filter (\<lambda>(key, d). case map_of (at_projections att) key of
         None \<Rightarrow> None
       | Some st \<Rightarrow> if is_new e st then Some (d, ps_state st) else None) (pj_definitions reg)"

definition record_state :: "session_event \<Rightarrow> json \<Rightarrow> projection_state \<Rightarrow> projection_state" where
  "record_state e next st =
     (if \<not> is_new e st then st
      else let st' = st\<lparr>ps_last_seq := Some (ev_seq e)\<rparr> in
        if ps_state st \<noteq> next
        then st'\<lparr>ps_state := next, ps_frames := ps_frames st @ [\<lparr>sf_as_of = Some (ev_seq e), sf_state = next\<rparr>]\<rparr>
        else st')"

definition apply_one ::
  "string \<Rightarrow> session_event \<Rightarrow> projection_definition \<times> json \<Rightarrow> projection_registry \<Rightarrow> unit projection_run" where
  "apply_one x e work reg =
     (case pd_apply (fst work) (snd work) e of
        Inl err \<Rightarrow> (Inl err, reg)
      | Inr next \<Rightarrow>
          (case map_of (pj_sessions reg) x of
             None \<Rightarrow> (Inl (PjNotAttached x (pd_key (fst work))), reg)
           | Some att \<Rightarrow>
               (case map_of (at_projections att) (pd_key (fst work)) of
                  None \<Rightarrow> (Inl (PjNotAttached x (pd_key (fst work))), reg)
                | Some st \<Rightarrow> (Inr (), set_projection x (pd_key (fst work)) (record_state e next st) reg))))"

fun apply_each ::
  "string \<Rightarrow> session_event \<Rightarrow> (projection_definition \<times> json) list \<Rightarrow> projection_registry \<Rightarrow> unit projection_run" where
  "apply_each x e [] reg = (Inr (), reg)"
| "apply_each x e (work # rest) reg =
     (case apply_one x e work reg of
        (Inl err, reg') \<Rightarrow> (Inl err, reg')
      | (Inr _, reg') \<Rightarrow> apply_each x e rest reg')"

definition apply_event_locked :: "string \<Rightarrow> session_event \<Rightarrow> projection_registry \<Rightarrow> unit projection_run" where
  "apply_event_locked x e reg =
     (case map_of (pj_sessions reg) x of
        None \<Rightarrow> (Inl (PjNotAttached x ''*''), reg)
      | Some att \<Rightarrow> apply_each x e (projection_work reg att e) reg)"

fun replay_events :: "string \<Rightarrow> session_event list \<Rightarrow> projection_registry \<Rightarrow> unit projection_run" where
  "replay_events x [] reg = (Inr (), reg)"
| "replay_events x (e # es) reg =
     (case apply_event_locked x e reg of
        (Inl err, reg') \<Rightarrow> (Inl err, reg')
      | (Inr _, reg') \<Rightarrow> replay_events x es reg')"

definition replay_locked :: "session \<Rightarrow> projection_registry \<Rightarrow> unit projection_run" where
  "replay_locked s reg = replay_events (session_id s) (session_events s) reg"

section \<open>Registration and attachment\<close>

definition projection_register :: "projection_definition \<Rightarrow> projection_registry \<Rightarrow> unit projection_run" where
  "projection_register d reg =
     (if blank (pd_key d) then (Inl PjEmptyKey, reg)
      else if map_of (pj_definitions reg) (pd_key d) \<noteq> None then (Inl (PjAlreadyRegistered (pd_key d)), reg)
      else (Inr (), reg\<lparr>pj_definitions := bt_insert (pd_key d) d (pj_definitions reg)\<rparr>))"

definition initial_projections ::
  "session_header \<Rightarrow> (string \<times> projection_definition) list \<Rightarrow> projection_error + (string \<times> projection_state) list" where
  "initial_projections h defs =
     try_fold (\<lambda>ps (key, d). and_then (pd_init d h) (\<lambda>v.
       Inr (bt_insert (pd_key d) (projection_state_at (pd_version d) None v) ps))) [] defs"

definition projection_attach :: "session \<Rightarrow> session \<Rightarrow> projection_registry \<Rightarrow> unit projection_run" where
  "projection_attach subscribed s reg =
     (if pj_shutdown reg then (Inl PjShutdown, reg)
      else if map_of (pj_sessions reg) (session_id subscribed) \<noteq> None then (Inr (), reg)
      else case initial_projections (ss_header subscribed) (pj_definitions reg) of
        Inl err \<Rightarrow> (Inl err, reg)
      | Inr ps \<Rightarrow>
          (case replay_locked s (reg\<lparr>pj_sessions := bt_insert (session_id subscribed)
               \<lparr>at_header = ss_header subscribed, at_projections = ps\<rparr> (pj_sessions reg)\<rparr>) of
             (Inl err, reg') \<Rightarrow> (Inl err, reg')
           | (Inr _, reg') \<Rightarrow>
               (Inr (), reg'\<lparr>pj_observers := pj_observers reg' @ [(session_id subscribed, length (ss_updates subscribed))]\<rparr>)))"

fun attach_store :: "session list \<Rightarrow> projection_registry \<Rightarrow> unit projection_run" where
  "attach_store [] reg = (Inr (), reg)"
| "attach_store (s # ss) reg =
     (case projection_attach s s reg of
        (Inl err, reg') \<Rightarrow> (Inl err, reg')
      | (Inr _, reg') \<Rightarrow> attach_store ss reg')"

definition projection_shutdown :: "projection_registry \<Rightarrow> projection_registry" where
  "projection_shutdown reg = reg\<lparr>pj_shutdown := True, pj_observers := []\<rparr>"

section \<open>The observer\<close>

definition record_error :: "string \<Rightarrow> projection_error \<Rightarrow> projection_registry \<Rightarrow> projection_registry" where
  "record_error x err reg =
     (case map_of (pj_sessions reg) x of
        None \<Rightarrow> reg
      | Some att \<Rightarrow> reg\<lparr>pj_sessions := bt_insert x
          (att\<lparr>at_projections := map (\<lambda>(k, st). (k, st\<lparr>ps_last_error := Some err\<rparr>)) (at_projections att)\<rparr>) (pj_sessions reg)\<rparr>)"

definition contained :: "string \<Rightarrow> unit projection_run \<Rightarrow> projection_registry" where
  "contained x r = (case r of (Inl err, reg) \<Rightarrow> record_error x err reg | (Inr _, reg) \<Rightarrow> reg)"

text \<open>The observer at position \<open>i\<close> of the list receives the next event of the broadcast, or learns that it has
  fallen behind: the receiver then stands at a later position and the whole log is read again.\<close>

definition observe_event :: "nat \<Rightarrow> session \<Rightarrow> projection_registry \<Rightarrow> projection_registry" where
  "observe_event i s reg =
     (let cursor = snd (pj_observers reg ! i) in
      contained (session_id s) (apply_event_locked (session_id s) (ss_updates s ! cursor)
        (reg\<lparr>pj_observers := (pj_observers reg)[i := (session_id s, Suc cursor)]\<rparr>)))"

definition observe_lag :: "nat \<Rightarrow> nat \<Rightarrow> session \<Rightarrow> projection_registry \<Rightarrow> projection_registry" where
  "observe_lag i cursor s reg =
     contained (session_id s) (replay_locked s (reg\<lparr>pj_observers := (pj_observers reg)[i := (session_id s, cursor)]\<rparr>))"

section \<open>Reading\<close>

definition registered_definition :: "projection_registry \<Rightarrow> string \<Rightarrow> projection_error + projection_definition" where
  "registered_definition reg key = ok_or (PjNotRegistered key) (map_of (pj_definitions reg) key)"

definition frame_as_of :: "u64 option \<Rightarrow> state_frame list \<Rightarrow> state_frame option" where
  "frame_as_of as_of frames =
     (case as_of of
        None \<Rightarrow> if frames = [] then None else Some (last frames)
      | Some seq \<Rightarrow> List.find (\<lambda>f. case sf_as_of f of None \<Rightarrow> True | Some n \<Rightarrow> n \<le> seq) (rev frames))"

definition snapshot_as_of ::
  "projection_registry \<Rightarrow> string \<Rightarrow> string \<Rightarrow> u64 option \<Rightarrow> (projection_error + projection_snapshot) option" where
  "snapshot_as_of reg x key as_of =
     (case map_of (pj_sessions reg) x of
        None \<Rightarrow> Some (Inl (PjNotAttached x key))
      | Some att \<Rightarrow>
          (case map_of (at_projections att) key of
             None \<Rightarrow> Some (Inl (PjNotAttached x key))
           | Some st \<Rightarrow>
               (case frame_as_of as_of (ps_frames st) of
                  None \<Rightarrow> None
                | Some frame \<Rightarrow>
                    Some (and_then (registered_definition reg key) (\<lambda>d.
                      and_then (pd_view d (sf_state frame)) (\<lambda>v.
                      Inr \<lparr>pn_session = hd_id (at_header att), pn_key = key, pn_version = ps_version st,
                        pn_as_of = sf_as_of frame, pn_state = sf_state frame, pn_view = v\<rparr>))))))"

fun collect_snapshots ::
  "(string \<Rightarrow> (projection_error + projection_snapshot) option) \<Rightarrow> string list \<Rightarrow> (projection_error + projection_snapshot list) option" where
  "collect_snapshots f [] = Some (Inr [])"
| "collect_snapshots f (key # keys) =
     (case f key of
        None \<Rightarrow> None
      | Some (Inl err) \<Rightarrow> Some (Inl err)
      | Some (Inr snap) \<Rightarrow>
          map_option (\<lambda>r. and_then r (\<lambda>snaps. Inr (snap # snaps))) (collect_snapshots f keys))"

definition snapshots ::
  "projection_registry \<Rightarrow> string \<Rightarrow> u64 option \<Rightarrow> (projection_error + projection_snapshot list) option" where
  "snapshots reg x as_of = collect_snapshots (\<lambda>key. snapshot_as_of reg x key as_of) (map fst (pj_definitions reg))"

definition projection_last_error ::
  "projection_registry \<Rightarrow> string \<Rightarrow> string \<Rightarrow> projection_error + projection_error option" where
  "projection_last_error reg x key =
     map_sum (\<lambda>e. e) ps_last_error
       (ok_or (PjNotAttached x key) (Option.bind (map_of (pj_sessions reg) x) (\<lambda>att. map_of (at_projections att) key)))"

section \<open>Checkpoints\<close>

definition take_checkpoint :: "projection_registry \<Rightarrow> string \<Rightarrow> string \<Rightarrow> (projection_error + projection_checkpoint) option" where
  "take_checkpoint reg x key =
     map_option (map_sum (\<lambda>e. e) (\<lambda>n. \<lparr>pk_session = pn_session n, pk_key = pn_key n, pk_version = pn_version n,
       pk_as_of = pn_as_of n, pk_state = pn_state n\<rparr>)) (snapshot_as_of reg x key None)"

definition saturating_next :: "u64 option \<Rightarrow> u64" where
  "saturating_next seq = (case seq of None \<Rightarrow> 0 | Some n \<Rightarrow> if n < u64_max then n + 1 else u64_max)"

definition place_projection ::
  "session \<Rightarrow> projection_definition \<Rightarrow> projection_state \<Rightarrow> projection_registry \<Rightarrow> unit projection_run" where
  "place_projection s d st reg =
     (if map_of (pj_sessions reg) (session_id s) = None then (Inl (PjNotAttached (session_id s) (pd_key d)), reg)
      else (Inr (), set_projection (session_id s) (pd_key d) st reg))"

definition reset_projection :: "session \<Rightarrow> projection_definition \<Rightarrow> projection_registry \<Rightarrow> unit projection_run" where
  "reset_projection s d reg =
     (case pd_init d (ss_header s) of
        Inl err \<Rightarrow> (Inl err, reg)
      | Inr v \<Rightarrow> place_projection s d (projection_state_at (pd_version d) None v) reg)"

definition then_replay :: "session \<Rightarrow> unit projection_run \<Rightarrow> unit projection_run" where
  "then_replay s r = (case r of (Inl err, reg) \<Rightarrow> (Inl err, reg) | (Inr _, reg) \<Rightarrow> replay_locked s reg)"

definition restore_floor ::
  "session \<Rightarrow> projection_checkpoint \<Rightarrow> u64 \<Rightarrow> projection_registry \<Rightarrow> unit projection_run" where
  "restore_floor s ck base reg =
     (case registered_definition reg (pk_key ck) of
        Inl err \<Rightarrow> (Inl err, reg)
      | Inr d \<Rightarrow>
          if pk_session ck \<noteq> session_id s \<or> pk_version ck \<noteq> pd_version d then
            if base \<noteq> 0 then (Inl (PjFullRereadRequired (session_id s) (pk_key ck) base), reg)
            else then_replay s (reset_projection s d reg)
          else if saturating_next (pk_as_of ck) < base
          then (Inl (PjFullRereadRequired (session_id s) (pk_key ck) base), reg)
          else then_replay s (place_projection s d (projection_state_at (pd_version d) (pk_as_of ck) (pk_state ck)) reg))"

definition projection_restore :: "session \<Rightarrow> projection_checkpoint \<Rightarrow> projection_registry \<Rightarrow> unit projection_run" where
  "projection_restore s ck reg = restore_floor s ck (saturating_next (pk_as_of ck)) reg"

end
