(* ===== verification/Session_Growth.thy ===== *)
theory Session_Growth
  imports Sessions
begin

text \<open>
  A session between two moments: how it grows by appends, how the positions of its broadcast correspond to those of its
  log, and that every event carries its position as its number.
\<close>

section \<open>Growth\<close>

inductive later :: "codec \<Rightarrow> 'p persistence \<Rightarrow> session \<Rightarrow> session \<Rightarrow> bool" for cdc ops where
  same: "later cdc ops s s"
| admitted: "later cdc ops s t \<Longrightarrow> append_under_gate cdc ops t e y cp = (Inr u, cp') \<Longrightarrow> later cdc ops s u"

section \<open>Numbering\<close>

definition log_numbered :: "session_event list \<Rightarrow> bool" where
  "log_numbered es \<longleftrightarrow> (\<forall>k < length es. ev_seq (es ! k) = k)"

text \<open>The position in the log of a position in the broadcast.\<close>

definition log_position :: "session \<Rightarrow> nat \<Rightarrow> nat" where
  "log_position s c = length (session_events s) - length (ss_updates s) + c"

definition running_ok :: "codec \<Rightarrow> session \<Rightarrow> bool" where
  "running_ok cdc s \<longleftrightarrow> session_ok cdc s \<and> (\<exists>old. session_events s = old @ ss_updates s)"

lemma running_numbered: "running_ok cdc s \<Longrightarrow> log_numbered (session_events s)"
  using session_ok_wf seqs_contiguous_nth by (auto simp: running_ok_def log_numbered_def session_wf_def)

lemma running_nth: "running_ok cdc s \<Longrightarrow> c < length (ss_updates s) \<Longrightarrow>
    ss_updates s ! c = session_events s ! log_position s c \<and> log_position s c < length (session_events s)"
  by (auto simp: running_ok_def log_position_def)

lemma append_running:
  assumes "append_under_gate cdc ops s e y cp = (Inr s', cp')" and "running_ok cdc s"
  shows "running_ok cdc s'" "ss_header s' = ss_header s" "session_events s' = session_events s @ [e]" "log_position s' c = log_position s c"
proof -
  obtain cn p where cp: "cp = (cn, p)" by (cases cp)
  obtain cn' p' where cp': "cp' = (cn', p')" by (cases cp')
  from assms(1)[unfolded cp cp'] have e: "ss_header s' = ss_header s" "session_events s' = session_events s @ [e]" "ss_updates s' = ss_updates s @ [e]"
    by (rule append_under_gate_extends)+
  moreover from assms(1)[unfolded cp cp'] assms(2) have "session_ok cdc s'" by (auto simp: running_ok_def intro: append_under_gate_ok)
  ultimately show "running_ok cdc s'" "ss_header s' = ss_header s" "session_events s' = session_events s @ [e]" "log_position s' c = log_position s c"
    using assms(2) by (auto simp: running_ok_def log_position_def)
qed

lemma later_running:
  assumes "later cdc ops s s'" and "running_ok cdc s"
  shows "running_ok cdc s' \<and> ss_header s' = ss_header s \<and> (\<exists>added. session_events s' = session_events s @ added)
    \<and> (\<forall>c. log_position s' c = log_position s c)"
  using assms by induction (auto dest: append_running)

end
