(* ===== verification/Projection_Proofs.thy ===== *)
theory Projection_Proofs
  imports Projection Session_Growth
begin

text \<open>
  What a projection of a session means: the fold of its definition over a prefix of the log, remembered at every
  event that changed it. The lemmas go up from the state of one projection over one event to the registry over
  the whole log.
\<close>

section \<open>One projection\<close>

definition seq_count :: "u64 option \<Rightarrow> nat" where
  "seq_count seq = (case seq of None \<Rightarrow> 0 | Some n \<Rightarrow> Suc n)"

lemma seq_count_simps [simp]: "seq_count None = 0" "seq_count (Some n) = Suc n"
  by (simp_all add: seq_count_def)

lemma is_new_count: "is_new e st \<longleftrightarrow> seq_count (ps_last_seq st) \<le> ev_seq e"
  by (auto simp: is_new_def seq_count_def split: option.splits)

text \<open>The specification: the value of a projection after the first \<open>n\<close> events of a log.\<close>

definition value_at :: "projection_definition \<Rightarrow> session_header \<Rightarrow> session_event list \<Rightarrow> nat \<Rightarrow> projection_error + json" where
  "value_at d h es n = and_then (pd_init d h) (\<lambda>v. try_fold (pd_apply d) v (take n es))"

lemma value_at_append: "n \<le> length es \<Longrightarrow> value_at d h (es @ added) n = value_at d h es n"
  by (simp add: value_at_def)

lemma value_at_Suc: "n < length es \<Longrightarrow> value_at d h es (Suc n) = and_then (value_at d h es n) (\<lambda>v. pd_apply d v (es ! n))"
  by (simp add: value_at_def take_Suc_conv_app_nth try_fold_append and_then_assoc)

definition frame_at :: "state_frame list \<Rightarrow> nat \<Rightarrow> state_frame option" where
  "frame_at fs m = List.find (\<lambda>f. seq_count (sf_as_of f) \<le> m) (rev fs)"

lemma frame_as_of_Some: "frame_as_of (Some n) fs = frame_at fs (Suc n)"
proof -
  have "(\<lambda>f :: state_frame. case sf_as_of f of None \<Rightarrow> True | Some k \<Rightarrow> k \<le> n) = (\<lambda>f. seq_count (sf_as_of f) \<le> Suc n)"
    by (auto simp: fun_eq_iff seq_count_def split: option.splits)
  then show ?thesis by (simp add: frame_as_of_def frame_at_def)
qed

lemma frame_at_snoc:
  "frame_at (fs @ [f]) m = (if seq_count (sf_as_of f) \<le> m then Some f else frame_at fs m)"
  by (simp add: frame_at_def)

lemma frame_at_last:
  assumes "fs \<noteq> []" and "\<forall>f\<in>set fs. seq_count (sf_as_of f) \<le> m"
  shows "frame_at fs m = Some (last fs)"
  using assms by (cases fs rule: rev_cases) (simp_all add: frame_at_def)

definition history_ok :: "projection_definition \<Rightarrow> session_header \<Rightarrow> session_event list \<Rightarrow> projection_state \<Rightarrow> bool" where
  "history_ok d h es st \<longleftrightarrow>
     ps_version st = pd_version d \<and> seq_count (ps_last_seq st) \<le> length es
     \<and> value_at d h es (seq_count (ps_last_seq st)) = Inr (ps_state st)
     \<and> ps_frames st \<noteq> [] \<and> sf_state (last (ps_frames st)) = ps_state st
     \<and> (\<forall>f\<in>set (ps_frames st). seq_count (sf_as_of f) \<le> seq_count (ps_last_seq st))
     \<and> (\<forall>m f. m \<le> seq_count (ps_last_seq st) \<longrightarrow> frame_at (ps_frames st) m = Some f \<longrightarrow> value_at d h es m = Inr (sf_state f))
     \<and> value_at d h es (seq_count (sf_as_of (last (ps_frames st)))) = Inr (ps_state st)"

lemma history_ok_append:
  assumes "history_ok d h es st"
  shows "history_ok d h (es @ added) st"
proof -
  have len: "seq_count (ps_last_seq st) \<le> length es" using assms by (simp add: history_ok_def)
  have "seq_count (sf_as_of (last (ps_frames st))) \<le> length es"
    using assms len by (metis history_ok_def last_in_set le_trans)
  with assms len show ?thesis by (simp add: history_ok_def value_at_append)
qed

lemma history_ok_placed:
  assumes "value_at d h es (seq_count seq) = Inr v" and "seq_count seq \<le> length es"
  shows "history_ok d h es (projection_state_at (pd_version d) seq v)"
  using assms by (auto simp: history_ok_def projection_state_at_def frame_at_def)

lemma record_state_count:
  "seq_count (ps_last_seq (record_state e v st)) = max (seq_count (ps_last_seq st)) (Suc (ev_seq e))
     \<or> \<not> is_new e st \<and> record_state e v st = st"
  by (auto simp: record_state_def is_new_count Let_def max_def)

lemma history_ok_record:
  assumes h: "history_ok d h es st" and k: "k < length es" "ev_seq (es ! k) = k" "seq_count (ps_last_seq st) = k"
    and v: "pd_apply d (ps_state st) (es ! k) = Inr v"
  shows "history_ok d h es (record_state (es ! k) v st)"
proof -
  let ?fs = "ps_frames st"
  have new: "is_new (es ! k) st" using k by (simp add: is_new_count)
  have at: "value_at d h es (Suc k) = Inr v"
    using h k v by (simp add: value_at_Suc history_ok_def)
  have bound: "\<forall>f\<in>set ?fs. seq_count (sf_as_of f) \<le> k" and ne: "?fs \<noteq> []" and l: "sf_state (last ?fs) = ps_state st"
    and old: "\<And>m f. m \<le> k \<Longrightarrow> frame_at ?fs m = Some f \<Longrightarrow> value_at d h es m = Inr (sf_state f)"
    and lst: "value_at d h es (seq_count (sf_as_of (last ?fs))) = Inr (ps_state st)"
    using h k(3) by (auto simp: history_ok_def)
  show ?thesis
  proof (cases "ps_state st = v")
    case True
    have "value_at d h es m = Inr (sf_state f)" if "m \<le> Suc k" "frame_at ?fs m = Some f" for m f
    proof (cases "m \<le> k")
      case False
      with that have "m = Suc k" by simp
      moreover from frame_at_last [OF ne, of m] bound this have "frame_at ?fs m = Some (last ?fs)" by fastforce
      ultimately show ?thesis using that(2) at l True by simp
    qed (use old that in blast)
    with True new h k at bound ne l lst show ?thesis
      by (auto simp: history_ok_def record_state_def Let_def le_Suc_eq)
  next
    case False
    have "value_at d h es m = Inr (sf_state f)"
      if "m \<le> Suc k" "frame_at (?fs @ [\<lparr>sf_as_of = Some k, sf_state = v\<rparr>]) m = Some f" for m f
      using that at old by (auto simp: frame_at_snoc le_Suc_eq split: if_splits)
    with False new h k at bound show ?thesis
      by (auto simp: history_ok_def record_state_def Let_def le_Suc_eq)
  qed
qed

section \<open>One event over the registry\<close>

definition advance ::
  "(string \<times> projection_definition) list \<Rightarrow> session_event \<Rightarrow> string \<Rightarrow> projection_state \<Rightarrow> projection_state" where
  "advance defs e key st =
     (case map_of defs key of
        None \<Rightarrow> st
      | Some d \<Rightarrow> record_state e (projr (pd_apply d (ps_state st) e)) st)"

definition total_projection :: "projection_definition \<Rightarrow> bool" where
  "total_projection d \<longleftrightarrow> (\<forall>v e. is_ok (pd_apply d v e))"

definition definitions_ok :: "(string \<times> projection_definition) list \<Rightarrow> bool" where
  "definitions_ok defs \<longleftrightarrow> distinct (map fst defs) \<and> (\<forall>(k, d)\<in>set defs. pd_key d = k \<and> total_projection d)"

definition with_projections ::
  "projection_registry \<Rightarrow> string \<Rightarrow> attached_session \<Rightarrow> (string \<rightharpoonup> projection_state) \<Rightarrow> projection_registry \<Rightarrow> bool" where
  "with_projections reg x att ps reg' \<longleftrightarrow>
     (\<exists>att'. map_of (pj_sessions reg') = (map_of (pj_sessions reg))(x \<mapsto> att') \<and> at_header att' = at_header att
        \<and> map_of (at_projections att') = ps)
     \<and> pj_definitions reg' = pj_definitions reg \<and> pj_observers reg' = pj_observers reg \<and> pj_shutdown reg' = pj_shutdown reg"

lemma set_projection_with:
  assumes "map_of (pj_sessions reg) x = Some att"
  shows "with_projections reg x att ((map_of (at_projections att))(k \<mapsto> st)) (set_projection x k st reg)"
  using assms by (auto simp: with_projections_def set_projection_def)

lemma with_projections_refl:
  "map_of (pj_sessions reg) x = Some att \<Longrightarrow> with_projections reg x att (map_of (at_projections att)) reg"
  unfolding with_projections_def by (metis fun_upd_triv)

lemma with_projections_trans:
  assumes "with_projections reg x att ps reg'" and "map_of (pj_sessions reg') x = Some att'"
    and "with_projections reg' x att' ps' reg''"
  shows "with_projections reg x att ps' reg''"
  using assms by (auto simp: with_projections_def)

lemma apply_each_advance:
  assumes "definitions_ok ds" and "map_of (pj_sessions reg) x = Some att1"
    and "\<And>k. k \<in> fst ` set ds \<Longrightarrow> map_of (at_projections att1) k = map_of (at_projections att) k"
  shows "\<exists>reg'. apply_each x e (projection_work (reg\<lparr>pj_definitions := ds\<rparr>) att e) reg = (Inr (), reg')
    \<and> with_projections reg x att1 (\<lambda>k. if k \<in> fst ` set ds then map_option (advance ds e k) (map_of (at_projections att) k)
        else map_of (at_projections att1) k) reg'"
  using assms
proof (induction ds arbitrary: reg att1)
  case Nil
  then show ?case by (simp add: projection_work_def map_filter_simps with_projections_refl)
next
  case (Cons kd ds)
  obtain k d where kd: "kd = (k, d)" by (cases kd)
  have key: "pd_key d = k" and tot: "total_projection d" and fresh: "k \<notin> fst ` set ds" and ds: "definitions_ok ds"
    using Cons.prems(1) kd by (auto simp: definitions_ok_def)
  have adv: "advance ((k, d) # ds) e j = advance ds e j" if "j \<noteq> k" for j
    using that by (simp add: advance_def fun_eq_iff)
  have none: "map_of ds k = None" using fresh by (simp add: map_of_eq_None_iff)
  consider (Skip) "projection_work (reg\<lparr>pj_definitions := kd # ds\<rparr>) att e = projection_work (reg\<lparr>pj_definitions := ds\<rparr>) att e"
      "map_option (advance (kd # ds) e k) (map_of (at_projections att) k) = map_of (at_projections att1) k"
    | (Work) st where "map_of (at_projections att) k = Some st" "is_new e st"
      "projection_work (reg\<lparr>pj_definitions := kd # ds\<rparr>) att e = (d, ps_state st) # projection_work (reg\<lparr>pj_definitions := ds\<rparr>) att e"
  proof (cases "map_of (at_projections att) k")
    case None
    with that(1) Cons.prems(3) [of k] kd show thesis by (simp add: projection_work_def map_filter_simps)
  next
    case (Some st)
    with that Cons.prems(3) [of k] kd show thesis
      by (cases "is_new e st") (simp_all add: projection_work_def map_filter_simps advance_def record_state_def)
  qed
  then show ?case
  proof cases
    case Skip
    have same: "\<And>j. j \<in> fst ` set ds \<Longrightarrow> map_of (at_projections att1) j = map_of (at_projections att) j" using Cons.prems(3) by simp
    from Cons.IH [OF ds Cons.prems(2) same] obtain reg' where
      run: "apply_each x e (projection_work (reg\<lparr>pj_definitions := ds\<rparr>) att e) reg = (Inr (), reg')"
      and w: "with_projections reg x att1 (\<lambda>j. if j \<in> fst ` set ds then map_option (advance ds e j) (map_of (at_projections att) j)
        else map_of (at_projections att1) j) reg'" by blast
    have "(\<lambda>j. if j \<in> fst ` set ds then map_option (advance ds e j) (map_of (at_projections att) j) else map_of (at_projections att1) j)
      = (\<lambda>j. if j \<in> fst ` set (kd # ds) then map_option (advance (kd # ds) e j) (map_of (at_projections att) j) else map_of (at_projections att1) j)"
      by (rule ext, rename_tac j, case_tac "j = k") (use Skip(2) fresh kd adv in auto)
    with run w Skip(1) show ?thesis by simp
  next
    case Work
    obtain v where v: "pd_apply d (ps_state st) e = Inr v" using tot by (auto simp: total_projection_def is_ok_ex)
    let ?reg1 = "set_projection x k (record_state e v st) reg"
    have st1: "map_of (at_projections att1) k = Some st" using Cons.prems(3) [of k] kd Work(1) by simp
    have one: "apply_one x e (d, ps_state st) reg = (Inr (), ?reg1)"
      using v Cons.prems(2) st1 key by (simp add: apply_one_def)
    from set_projection_with [OF Cons.prems(2), of k "record_state e v st"] obtain att2 where
      w1: "with_projections reg x att1 (map_of (at_projections att2)) ?reg1"
      and a2: "map_of (pj_sessions ?reg1) x = Some att2" "map_of (at_projections att2) = (map_of (at_projections att1))(k \<mapsto> record_state e v st)"
      by (auto simp: with_projections_def)
    have wk: "projection_work (?reg1\<lparr>pj_definitions := ds\<rparr>) att e = projection_work (reg\<lparr>pj_definitions := ds\<rparr>) att e"
      by (simp add: projection_work_def)
    have same: "map_of (at_projections att2) j = map_of (at_projections att) j" if "j \<in> fst ` set ds" for j
      using that a2(2) Cons.prems(3) [of j] fresh by auto
    from Cons.IH [OF ds a2(1) same] obtain reg' where
      run: "apply_each x e (projection_work (?reg1\<lparr>pj_definitions := ds\<rparr>) att e) ?reg1 = (Inr (), reg')"
      and w: "with_projections ?reg1 x att2 (\<lambda>j. if j \<in> fst ` set ds then map_option (advance ds e j) (map_of (at_projections att) j)
        else map_of (at_projections att2) j) reg'" by blast
    have "(\<lambda>j. if j \<in> fst ` set ds then map_option (advance ds e j) (map_of (at_projections att) j) else map_of (at_projections att2) j)
      = (\<lambda>j. if j \<in> fst ` set (kd # ds) then map_option (advance (kd # ds) e j) (map_of (at_projections att) j) else map_of (at_projections att1) j)"
      by (rule ext, rename_tac j, case_tac "j = k") (use a2(2) Work(1) v fresh kd adv in \<open>auto simp: advance_def\<close>)
    with with_projections_trans [OF w1 a2(1) w] run one Work(3) wk show ?thesis by simp
  qed
qed

lemma apply_event_advance:
  assumes "definitions_ok (pj_definitions reg)" and "map_of (pj_sessions reg) x = Some att"
  shows "\<exists>reg'. apply_event_locked x e reg = (Inr (), reg')
    \<and> with_projections reg x att (\<lambda>k. map_option (advance (pj_definitions reg) e k) (map_of (at_projections att) k)) reg'"
proof -
  let ?ds = "pj_definitions reg"
  have "(\<lambda>k. if k \<in> fst ` set ?ds then map_option (advance ?ds e k) (map_of (at_projections att) k) else map_of (at_projections att) k)
    = (\<lambda>k. map_option (advance ?ds e k) (map_of (at_projections att) k))"
  proof
    fix k
    show "(if k \<in> fst ` set ?ds then map_option (advance ?ds e k) (map_of (at_projections att) k) else map_of (at_projections att) k)
      = map_option (advance ?ds e k) (map_of (at_projections att) k)"
    proof (cases "k \<in> fst ` set ?ds")
      case False
      then have "map_of ?ds k = None" by (simp add: map_of_eq_None_iff)
      then have "advance ?ds e k = (\<lambda>st. st)" by (simp add: advance_def fun_eq_iff)
      then show ?thesis using False by (simp add: option.map_ident)
    qed simp
  qed
  with apply_each_advance [OF assms, of att e] assms(2) show ?thesis by (simp add: apply_event_locked_def)
qed

section \<open>A log over the registry\<close>

text \<open>The projections of one attached session, each the fold of a prefix that reaches at least position \<open>n\<close>.\<close>

definition attached_ok ::
  "(string \<times> projection_definition) list \<Rightarrow> session_header \<Rightarrow> session_event list \<Rightarrow> nat \<Rightarrow> (string \<rightharpoonup> projection_state) \<Rightarrow> bool" where
  "attached_ok defs h es n ps \<longleftrightarrow>
     (\<forall>k st. ps k = Some st \<longrightarrow> (\<exists>d. map_of defs k = Some d \<and> history_ok d h es st) \<and> n \<le> seq_count (ps_last_seq st))"

lemma attached_okD:
  assumes "attached_ok defs h es n ps" and "ps k = Some st"
  obtains d where "map_of defs k = Some d" "history_ok d h es st" "n \<le> seq_count (ps_last_seq st)"
  using assms by (auto simp: attached_ok_def)

lemma attached_ok_append: "attached_ok defs h es n ps \<Longrightarrow> attached_ok defs h (es @ added) n ps"
  unfolding attached_ok_def using history_ok_append by blast

lemma attached_ok_weaken: "attached_ok defs h es n ps \<Longrightarrow> m \<le> n \<Longrightarrow> attached_ok defs h es m ps"
  unfolding attached_ok_def using le_trans by blast

lemma advance_ok:
  assumes "definitions_ok defs" and "log_numbered es" and "map_of defs key = Some d" and "history_ok d h es st"
    and "k < length es" and "k \<le> seq_count (ps_last_seq st)"
  shows "history_ok d h es (advance defs (es ! k) key st)"
    and "seq_count (ps_last_seq (advance defs (es ! k) key st)) = max (seq_count (ps_last_seq st)) (Suc k)"
proof -
  have k: "ev_seq (es ! k) = k" using assms(2,5) by (simp add: log_numbered_def)
  have "total_projection d" using assms(1,3) by (auto simp: definitions_ok_def dest: map_of_SomeD)
  then obtain v where v: "pd_apply d (ps_state st) (es ! k) = Inr v" by (auto simp: total_projection_def is_ok_ex)
  have adv: "advance defs (es ! k) key st = record_state (es ! k) v st" using assms(3) v by (simp add: advance_def)
  show "history_ok d h es (advance defs (es ! k) key st)"
  proof (cases "is_new (es ! k) st")
    case True
    with k assms(6) have "seq_count (ps_last_seq st) = k" by (simp add: is_new_count)
    with history_ok_record [OF assms(4,5) k _ v] adv show ?thesis by simp
  qed (simp add: adv record_state_def assms(4))
  show "seq_count (ps_last_seq (advance defs (es ! k) key st)) = max (seq_count (ps_last_seq st)) (Suc k)"
    using record_state_count [of "es ! k" v st] adv k by (auto simp: is_new_count)
qed

lemma attached_ok_advance:
  assumes "definitions_ok defs" and "log_numbered es" and "attached_ok defs h es n ps" and "k < length es" and "k \<le> n"
  shows "attached_ok defs h es (max n (Suc k)) (\<lambda>key. map_option (advance defs (es ! k) key) (ps key))"
  using assms(3) advance_ok [OF assms(1,2) _ _ assms(4)] assms(5) le_trans
  unfolding attached_ok_def by fastforce

lemma replay_events_ok:
  assumes "definitions_ok (pj_definitions reg)" and "log_numbered es" and "map_of (pj_sessions reg) x = Some att"
    and "attached_ok (pj_definitions reg) h es n (map_of (at_projections att))" and "j \<le> n"
  shows "\<exists>reg' ps. replay_events x (drop j es) reg = (Inr (), reg') \<and> with_projections reg x att ps reg'
    \<and> attached_ok (pj_definitions reg) h es (max n (length es)) ps \<and> dom ps = dom (map_of (at_projections att))"
  using assms
proof (induction "length es - j" arbitrary: j n reg att)
  case 0
  then have "drop j es = []" "max n (length es) = n" by simp_all
  with 0 with_projections_refl [OF 0(4)] show ?case by auto
next
  case (Suc r)
  then have j: "j < length es" by simp
  let ?defs = "pj_definitions reg" and ?ps = "map_of (at_projections att)"
  from apply_event_advance [OF Suc(3,5), of "es ! j"] obtain reg1 where run: "apply_event_locked x (es ! j) reg = (Inr (), reg1)"
    and w: "with_projections reg x att (\<lambda>k. map_option (advance ?defs (es ! j) k) (?ps k)) reg1" by blast
  from w obtain att1 where a1: "map_of (pj_sessions reg1) x = Some att1"
    "map_of (at_projections att1) = (\<lambda>k. map_option (advance ?defs (es ! j) k) (?ps k))" and d1: "pj_definitions reg1 = ?defs"
    by (auto simp: with_projections_def)
  have "attached_ok ?defs h es (max n (Suc j)) (map_of (at_projections att1))"
    unfolding a1(2) by (rule attached_ok_advance [OF Suc(3,4,6) j Suc(7)])
  with Suc(1) [of "Suc j" reg1 att1 "max n (Suc j)"] Suc(2-4) a1(1) d1 j obtain reg' ps where
    "replay_events x (drop (Suc j) es) reg1 = (Inr (), reg')" "with_projections reg1 x att1 ps reg'"
    "attached_ok ?defs h es (max (max n (Suc j)) (length es)) ps" "dom ps = dom (map_of (at_projections att1))" by fastforce
  moreover have "drop j es = es ! j # drop (Suc j) es" using j by (simp add: Cons_nth_drop_Suc)
  moreover have "max (max n (Suc j)) (length es) = max n (length es)" using j by auto
  moreover have "dom (map_of (at_projections att1)) = dom ?ps" by (auto simp: a1(2) dom_def)
  ultimately show ?case using run with_projections_trans [OF w a1(1), of ps reg'] by auto
qed

end
