(* ===== verification/Projection_Properties.thy ===== *)
theory Projection_Properties
  imports Projection_Proofs Session_Samples
begin

text \<open>
  The projection registry over running sessions: sessions are opened and appended to, projections registered,
  sessions attached, events delivered to the observers one by one or lost to them, checkpoints taken and
  restored, the registry replaced by a new one. The host's relay of session events
  (\<open>ensure_relay\<close> in \<open>src/src/host.rs\<close>) also hands events to the registry and is modelled after it.
\<close>

section \<open>The system\<close>

record projection_world =
  pw_registry :: projection_registry
  pw_sessions :: "string \<rightharpoonup> session"
  pw_checkpoints :: "projection_checkpoint list"

text \<open>An event that is no further than the next one for every projection of the session. The registry does not check it: the relay may hand
  over any event of the log at any moment. The flag of a run tells whether every event handed over so far was in step.\<close>

definition in_step :: "projection_registry \<Rightarrow> string \<Rightarrow> nat \<Rightarrow> bool" where
  "in_step reg x k \<longleftrightarrow>
     (case map_of (pj_sessions reg) x of
        None \<Rightarrow> True
      | Some att \<Rightarrow> list_all (\<lambda>(key, st). k \<le> seq_count (ps_last_seq st)) (at_projections att))"

inductive projection_reachable ::
  "codec \<Rightarrow> 'p persistence \<Rightarrow> projection_definition list \<Rightarrow> bool \<Rightarrow> projection_world \<Rightarrow> bool" for cdc ops catalog where
  start: "projection_reachable cdc ops catalog True \<lparr>pw_registry = projection_registry_new, pw_sessions = Map.empty, pw_checkpoints = []\<rparr>"
| opened: "projection_reachable cdc ops catalog b w \<Longrightarrow> pw_sessions w (session_id s) = None \<Longrightarrow> session_ok cdc s \<Longrightarrow> ss_updates s = []
    \<Longrightarrow> projection_reachable cdc ops catalog b (w\<lparr>pw_sessions := (pw_sessions w)(session_id s \<mapsto> s)\<rparr>)"
| appended: "projection_reachable cdc ops catalog b w \<Longrightarrow> pw_sessions w x = Some s \<Longrightarrow> append_under_gate cdc ops s e y cp = (Inr s', cp')
    \<Longrightarrow> projection_reachable cdc ops catalog b (w\<lparr>pw_sessions := (pw_sessions w)(x \<mapsto> s')\<rparr>)"
| registered: "projection_reachable cdc ops catalog b w \<Longrightarrow> d \<in> set catalog \<Longrightarrow> projection_register d (pw_registry w) = (r, reg')
    \<Longrightarrow> projection_reachable cdc ops catalog b (w\<lparr>pw_registry := reg'\<rparr>)"
| attached: "projection_reachable cdc ops catalog b w \<Longrightarrow> pw_sessions w x = Some s \<Longrightarrow> later cdc ops s s'
    \<Longrightarrow> projection_attach s s' (pw_registry w) = (r, reg')
    \<Longrightarrow> projection_reachable cdc ops catalog b (w\<lparr>pw_registry := reg', pw_sessions := (pw_sessions w)(x \<mapsto> s')\<rparr>)"
| observed: "projection_reachable cdc ops catalog b w \<Longrightarrow> i < length (pj_observers (pw_registry w)) \<Longrightarrow> pj_observers (pw_registry w) ! i = (x, c)
    \<Longrightarrow> pw_sessions w x = Some s \<Longrightarrow> c < length (ss_updates s)
    \<Longrightarrow> projection_reachable cdc ops catalog b (w\<lparr>pw_registry := observe_event i s (pw_registry w)\<rparr>)"
| lagged: "projection_reachable cdc ops catalog b w \<Longrightarrow> i < length (pj_observers (pw_registry w)) \<Longrightarrow> pj_observers (pw_registry w) ! i = (x, c)
    \<Longrightarrow> pw_sessions w x = Some s \<Longrightarrow> c < c' \<Longrightarrow> c' \<le> length (ss_updates s)
    \<Longrightarrow> projection_reachable cdc ops catalog b (w\<lparr>pw_registry := observe_lag i c' s (pw_registry w)\<rparr>)"
| applied: "projection_reachable cdc ops catalog b w \<Longrightarrow> pw_sessions w x = Some s \<Longrightarrow> k < length (session_events s)
    \<Longrightarrow> apply_event_locked x (session_events s ! k) (pw_registry w) = (r, reg')
    \<Longrightarrow> projection_reachable cdc ops catalog (b \<and> in_step (pw_registry w) x k) (w\<lparr>pw_registry := reg'\<rparr>)"
| saved: "projection_reachable cdc ops catalog b w \<Longrightarrow> take_checkpoint (pw_registry w) x key = Some (Inr ck)
    \<Longrightarrow> projection_reachable cdc ops catalog b (w\<lparr>pw_checkpoints := ck # pw_checkpoints w\<rparr>)"
| restored: "projection_reachable cdc ops catalog b w \<Longrightarrow> ck \<in> set (pw_checkpoints w) \<Longrightarrow> pw_sessions w x = Some s
    \<Longrightarrow> restore_floor s ck base (pw_registry w) = (r, reg')
    \<Longrightarrow> projection_reachable cdc ops catalog b (w\<lparr>pw_registry := reg'\<rparr>)"
| stopped: "projection_reachable cdc ops catalog b w \<Longrightarrow> projection_reachable cdc ops catalog b (w\<lparr>pw_registry := projection_shutdown (pw_registry w)\<rparr>)"
| replaced: "projection_reachable cdc ops catalog b w \<Longrightarrow> projection_reachable cdc ops catalog b (w\<lparr>pw_registry := projection_registry_new\<rparr>)"

text \<open>What the callbacks promise: they never fail, and a key with a version names one definition.\<close>

definition catalog_ok :: "projection_definition list \<Rightarrow> bool" where
  "catalog_ok catalog \<longleftrightarrow>
     (\<forall>d\<in>set catalog. total_projection d)
     \<and> (\<forall>d\<in>set catalog. \<forall>d'\<in>set catalog. pd_key d = pd_key d' \<and> pd_version d = pd_version d' \<longrightarrow> d = d')"

section \<open>The invariant\<close>

definition follows_session ::
  "(string \<times> projection_definition) list \<Rightarrow> (string \<times> nat) list \<Rightarrow> string \<Rightarrow> session \<Rightarrow> attached_session \<Rightarrow> bool" where
  "follows_session defs observers x s att \<longleftrightarrow>
     at_header att = ss_header s
     \<and> attached_ok defs (ss_header s) (session_events s) 0 (map_of (at_projections att))
     \<and> (\<forall>c. (x, c) \<in> set observers \<longrightarrow> log_position s c \<le> length (session_events s) \<and>
          attached_ok defs (ss_header s) (session_events s) (log_position s c) (map_of (at_projections att)))"

definition projections_ok :: "projection_definition list \<Rightarrow> (string \<rightharpoonup> session) \<Rightarrow> projection_registry \<Rightarrow> bool" where
  "projections_ok catalog ss reg \<longleftrightarrow>
     definitions_ok (pj_definitions reg) \<and> snd ` set (pj_definitions reg) \<subseteq> set catalog
     \<and> (\<forall>x att. map_of (pj_sessions reg) x = Some att \<longrightarrow>
          (\<exists>s. ss x = Some s \<and> follows_session (pj_definitions reg) (pj_observers reg) x s att))
     \<and> fst ` set (pj_observers reg) \<subseteq> dom (map_of (pj_sessions reg))"

definition checkpoint_ok :: "projection_definition list \<Rightarrow> (string \<rightharpoonup> session) \<Rightarrow> projection_checkpoint \<Rightarrow> bool" where
  "checkpoint_ok catalog ss ck \<longleftrightarrow>
     (\<exists>s d. ss (pk_session ck) = Some s \<and> d \<in> set catalog \<and> pd_key d = pk_key ck \<and> pd_version d = pk_version ck
        \<and> seq_count (pk_as_of ck) \<le> length (session_events s)
        \<and> value_at d (ss_header s) (session_events s) (seq_count (pk_as_of ck)) = Inr (pk_state ck))"

definition projection_world_ok :: "codec \<Rightarrow> projection_definition list \<Rightarrow> projection_world \<Rightarrow> bool" where
  "projection_world_ok cdc catalog w \<longleftrightarrow>
     (\<forall>x s. pw_sessions w x = Some s \<longrightarrow> session_id s = x \<and> running_ok cdc s)
     \<and> projections_ok catalog (pw_sessions w) (pw_registry w)
     \<and> (\<forall>ck\<in>set (pw_checkpoints w). checkpoint_ok catalog (pw_sessions w) ck)"

lemma projections_okD:
  assumes "projections_ok catalog ss reg" and "map_of (pj_sessions reg) x = Some att"
  obtains s where "ss x = Some s" "follows_session (pj_definitions reg) (pj_observers reg) x s att"
  using assms unfolding projections_ok_def by blast

text \<open>Growing a session keeps everything; changing the projections of one session keeps the invariant when the
  new ones are folds of prefixes that reach every observer.\<close>

lemma follows_session_grow:
  assumes "follows_session defs obs x s att" and "ss_header s' = ss_header s"
    and "session_events s' = session_events s @ added" and "\<And>c. log_position s' c = log_position s c"
  shows "follows_session defs obs x s' att"
  using assms by (auto simp: follows_session_def intro: attached_ok_append)

lemma projections_ok_grow:
  assumes "projections_ok catalog ss reg" and "ss x = Some s" and "ss_header s' = ss_header s"
    and "session_events s' = session_events s @ added" and "\<And>c. log_position s' c = log_position s c"
  shows "projections_ok catalog (ss(x \<mapsto> s')) reg"
  using assms(1,2) follows_session_grow [OF _ assms(3-5)] unfolding projections_ok_def by fastforce

lemma checkpoint_ok_grow:
  assumes "checkpoint_ok catalog ss ck" and "ss x = Some s" and "ss_header s' = ss_header s"
    and "session_events s' = session_events s @ added"
  shows "checkpoint_ok catalog (ss(x \<mapsto> s')) ck"
proof -
  from assms(1) obtain t d where t: "ss (pk_session ck) = Some t" "d \<in> set catalog" "pd_key d = pk_key ck" "pd_version d = pk_version ck"
    "seq_count (pk_as_of ck) \<le> length (session_events t)"
    "value_at d (ss_header t) (session_events t) (seq_count (pk_as_of ck)) = Inr (pk_state ck)"
    by (auto simp: checkpoint_ok_def)
  show ?thesis
  proof (cases "pk_session ck = x")
    case True
    with t assms(2) have "t = s" by simp
    with True t assms(3,4) show ?thesis unfolding checkpoint_ok_def
      by (intro exI [of _ s'] exI [of _ d]) (simp add: value_at_append)
  next
    case False
    with t show ?thesis unfolding checkpoint_ok_def by auto
  qed
qed

lemma projections_ok_with:
  assumes "projections_ok catalog ss reg" and "with_projections (reg\<lparr>pj_observers := obs\<rparr>) x att ps reg'" and "ss x = Some s"
    and "at_header att = ss_header s" and "attached_ok (pj_definitions reg) (ss_header s) (session_events s) n ps"
    and here: "\<And>c. (x, c) \<in> set obs \<Longrightarrow> log_position s c \<le> length (session_events s) \<and>
      attached_ok (pj_definitions reg) (ss_header s) (session_events s) (log_position s c) ps"
    and else: "\<And>y c. y \<noteq> x \<Longrightarrow> (y, c) \<in> set obs \<Longrightarrow> (y, c) \<in> set (pj_observers reg)"
  shows "projections_ok catalog ss reg'"
proof -
  from assms(2) obtain att' where a: "map_of (pj_sessions reg') = (map_of (pj_sessions reg))(x \<mapsto> att')" "at_header att' = at_header att"
    "map_of (at_projections att') = ps" and eq: "pj_definitions reg' = pj_definitions reg" "pj_observers reg' = obs"
    by (auto simp: with_projections_def)
  have own: "follows_session (pj_definitions reg) obs x s att'"
    using a assms(4,5) here attached_ok_weaken by (auto simp: follows_session_def)
  have other: "follows_session (pj_definitions reg) obs y t b"
    if "y \<noteq> x" "follows_session (pj_definitions reg) (pj_observers reg) y t b" for y t b
    using that else by (auto simp: follows_session_def)
  have "\<exists>s. ss y = Some s \<and> follows_session (pj_definitions reg) obs y s b"
    if y: "map_of (pj_sessions reg') y = Some b" for y b
  proof (cases "y = x")
    case False
    with y a(1) have "map_of (pj_sessions reg) y = Some b" by simp
    from projections_okD [OF assms(1) this] False other show ?thesis by metis
  qed (use y a(1) assms(3) own in auto)
  moreover have "fst ` set obs \<subseteq> dom (map_of (pj_sessions reg'))"
  proof
    fix y assume "y \<in> fst ` set obs"
    then obtain c where c: "(y, c) \<in> set obs" by auto
    show "y \<in> dom (map_of (pj_sessions reg'))"
    proof (cases "y = x")
      case False
      from else [OF this c] have "y \<in> fst ` set (pj_observers reg)" by force
      then have "y \<in> dom (map_of (pj_sessions reg))" using assms(1) unfolding projections_ok_def by blast
      then show ?thesis by (simp add: a(1))
    qed (simp add: a(1))
  qed
  ultimately show ?thesis
    using assms(1) unfolding projections_ok_def eq by blast
qed

lemma attached_ok_max:
  "attached_ok defs h es m ps \<Longrightarrow> attached_ok defs h es n ps \<Longrightarrow> attached_ok defs h es (max m n) ps"
  by (cases "m \<le> n") (simp_all add: max_def)

text \<open>One event, at a position no projection has yet to reach.\<close>

lemma apply_keeps:
  assumes ok: "projections_ok catalog ss reg" and x: "ss x = Some s" "running_ok cdc s" and att: "map_of (pj_sessions reg) x = Some att"
    and k: "k < length (session_events s)" "attached_ok (pj_definitions reg) (ss_header s) (session_events s) k (map_of (at_projections att))"
    and here: "\<And>c. (x, c) \<in> set obs \<Longrightarrow> (x, c) \<in> set (pj_observers reg) \<or> log_position s c = Suc k"
    and else: "\<And>y c. y \<noteq> x \<Longrightarrow> (y, c) \<in> set obs \<Longrightarrow> (y, c) \<in> set (pj_observers reg)"
  shows "\<exists>reg'. apply_event_locked x (session_events s ! k) (reg\<lparr>pj_observers := obs\<rparr>) = (Inr (), reg') \<and> projections_ok catalog ss reg'"
proof -
  let ?defs = "pj_definitions reg" and ?h = "ss_header s" and ?es = "session_events s" and ?ps = "map_of (at_projections att)"
  have defs: "definitions_ok ?defs" using ok by (simp add: projections_ok_def)
  from projections_okD [OF ok att] x(1) have f: "follows_session ?defs (pj_observers reg) x s att" by auto
  from apply_event_advance [of "reg\<lparr>pj_observers := obs\<rparr>" x att "?es ! k"] defs att obtain reg' where
    run: "apply_event_locked x (?es ! k) (reg\<lparr>pj_observers := obs\<rparr>) = (Inr (), reg')"
    and w: "with_projections (reg\<lparr>pj_observers := obs\<rparr>) x att (\<lambda>key. map_option (advance ?defs (?es ! k) key) (?ps key)) reg'" by auto
  note adv = attached_ok_advance [OF defs running_numbered [OF x(2)] _ k(1)]
  have now: "attached_ok ?defs ?h ?es (Suc k) (\<lambda>key. map_option (advance ?defs (?es ! k) key) (?ps key))"
    using adv [OF k(2)] by simp
  have "log_position s c \<le> length ?es \<and> attached_ok ?defs ?h ?es (log_position s c) (\<lambda>key. map_option (advance ?defs (?es ! k) key) (?ps key))"
    if c: "(x, c) \<in> set obs" for c
    using here [OF c]
  proof
    assume "(x, c) \<in> set (pj_observers reg)"
    with f have "log_position s c \<le> length ?es" "attached_ok ?defs ?h ?es (log_position s c) ?ps" by (auto simp: follows_session_def)
    with adv [OF attached_ok_max [OF k(2)], of "log_position s c"] show ?thesis by (auto intro: attached_ok_weaken)
  qed (use now k(1) in auto)
  with projections_ok_with [OF ok w x(1) _ now _ else] f run show ?thesis by (auto simp: follows_session_def)
qed

text \<open>The whole log, from projections anywhere in it: afterwards all of them have read all of it.\<close>

lemma replay_keeps:
  assumes ok: "projections_ok catalog ss reg" and x: "ss x = Some s" "running_ok cdc s" "session_id s = x"
    and reg1: "with_projections (reg\<lparr>pj_observers := obs\<rparr>) x att ps reg1" "at_header att = ss_header s"
      "attached_ok (pj_definitions reg) (ss_header s) (session_events s) 0 ps"
    and here: "\<And>c. (x, c) \<in> set obs \<Longrightarrow> log_position s c \<le> length (session_events s)"
    and else: "\<And>y c. y \<noteq> x \<Longrightarrow> (y, c) \<in> set obs \<Longrightarrow> (y, c) \<in> set (pj_observers reg)"
  shows "\<exists>reg' ps'. replay_locked s reg1 = (Inr (), reg') \<and> projections_ok catalog ss reg'
    \<and> with_projections (reg\<lparr>pj_observers := obs\<rparr>) x att ps' reg' \<and> dom ps' = dom ps
    \<and> attached_ok (pj_definitions reg) (ss_header s) (session_events s) (length (session_events s)) ps'"
proof -
  let ?es = "session_events s" and ?defs = "pj_definitions reg" and ?h = "ss_header s"
  from reg1(1) obtain att1 where att1: "map_of (pj_sessions reg1) x = Some att1" "map_of (at_projections att1) = ps"
    and d1: "pj_definitions reg1 = ?defs" by (auto simp: with_projections_def)
  have "\<exists>reg' ps'. replay_events x (drop 0 ?es) reg1 = (Inr (), reg') \<and> with_projections reg1 x att1 ps' reg'
    \<and> attached_ok (pj_definitions reg1) ?h ?es (max 0 (length ?es)) ps' \<and> dom ps' = dom (map_of (at_projections att1))"
    by (rule replay_events_ok) (use ok d1 att1 reg1(3) running_numbered [OF x(2)] in \<open>simp_all add: projections_ok_def\<close>)
  then obtain reg' ps' where run: "replay_locked s reg1 = (Inr (), reg')" and w: "with_projections reg1 x att1 ps' reg'"
    and full: "attached_ok ?defs ?h ?es (length ?es) ps'" and dom: "dom ps' = dom ps"
    using x(3) d1 att1(2) by (auto simp: replay_locked_def)
  have w': "with_projections (reg\<lparr>pj_observers := obs\<rparr>) x att ps' reg'" by (rule with_projections_trans [OF reg1(1) att1(1) w])
  have "projections_ok catalog ss reg'"
    by (rule projections_ok_with [OF ok w' x(1) reg1(2) full _ else]) (use here full attached_ok_weaken in blast)
  with run w' full dom show ?thesis by blast
qed

lemma initial_projections_Inr:
  assumes "initial_projections h defs = Inr ps" and "definitions_ok defs" and "map_of ps k = Some st"
  obtains d v where "map_of defs k = Some d" "pd_init d h = Inr v" "st = projection_state_at (pd_version d) None v"
proof -
  let ?P = "\<lambda>ps :: (string \<times> projection_state) list. \<forall>k st. map_of ps k = Some st \<longrightarrow>
    (\<exists>d v. (k, d) \<in> set defs \<and> pd_init d h = Inr v \<and> st = projection_state_at (pd_version d) None v)"
  have "?P ps"
  proof (rule try_fold_invariant [where P = ?P, OF assms(1)[unfolded initial_projections_def]])
    fix ps' :: "(string \<times> projection_state) list" and kd and ps2
    assume kd: "kd \<in> set defs" and P: "?P ps'"
      and step: "(\<lambda>ps (key, d). and_then (pd_init d h) (\<lambda>v. Inr (bt_insert (pd_key d) (projection_state_at (pd_version d) None v) ps))) ps' kd = Inr ps2"
    obtain k d where k: "kd = (k, d)" by (cases kd)
    from step k obtain v where v: "pd_init d h = Inr v" "ps2 = bt_insert (pd_key d) (projection_state_at (pd_version d) None v) ps'" by auto
    moreover from kd k assms(2) have "(pd_key d, d) \<in> set defs" by (auto simp: definitions_ok_def)
    ultimately show "?P ps2" using P by (metis (no_types, lifting) fun_upd_apply map_of_bt_insert option.inject)
  qed simp
  then obtain d v where "(k, d) \<in> set defs" "pd_init d h = Inr v" "st = projection_state_at (pd_version d) None v"
    using assms(3) by blast
  with assms(2) that show thesis by (metis definitions_ok_def map_of_is_SomeI)
qed

lemma attach_keeps:
  assumes ok: "projections_ok catalog ss reg" and x: "ss x = Some s'" "running_ok cdc s'" "session_id s' = x"
    and s: "ss_header s = ss_header s'" "session_events s' = session_events s @ added"
      "log_position s' (length (ss_updates s)) = length (session_events s)"
    and run: "projection_attach s s' reg = (r, reg')"
  shows "projections_ok catalog ss reg'"
proof (cases "pj_shutdown reg \<or> map_of (pj_sessions reg) x \<noteq> None \<or> \<not> is_ok (initial_projections (ss_header s) (pj_definitions reg))")
  case True
  with run s(1) x(3) ok show ?thesis
    by (auto simp: projection_attach_def is_ok_ex split: if_splits sum.splits)
next
  case False
  then obtain ps where ps: "initial_projections (ss_header s) (pj_definitions reg) = Inr ps" and free: "map_of (pj_sessions reg) x = None"
    and running: "\<not> pj_shutdown reg" by (auto simp: is_ok_ex)
  let ?att = "\<lparr>at_header = ss_header s, at_projections = ps\<rparr>" and ?obs = "pj_observers reg" and ?c = "length (ss_updates s)"
  let ?reg1 = "reg\<lparr>pj_sessions := bt_insert x ?att (pj_sessions reg)\<rparr>"
  have defs: "definitions_ok (pj_definitions reg)" using ok by (simp add: projections_ok_def)
  have unobserved: "(x, c) \<notin> set ?obs" for c using ok free by (force simp: projections_ok_def)
  have w: "with_projections (reg\<lparr>pj_observers := ?obs\<rparr>) x ?att (map_of ps) ?reg1" by (auto simp: with_projections_def)
  have init: "attached_ok (pj_definitions reg) (ss_header s') (session_events s') 0 (map_of ps)"
    unfolding attached_ok_def using s(1)
    by (auto elim!: initial_projections_Inr [OF ps defs] intro!: history_ok_placed simp: value_at_def)
  from replay_keeps [OF ok x w _ init] unobserved s(1) obtain reg2 ps' where
    rep: "replay_locked s' ?reg1 = (Inr (), reg2)" "projections_ok catalog ss reg2"
    and w2: "with_projections (reg\<lparr>pj_observers := ?obs\<rparr>) x ?att ps' reg2"
    and full: "attached_ok (pj_definitions reg) (ss_header s') (session_events s') (length (session_events s')) ps'" by auto
  have obs2: "pj_observers reg2 = ?obs" and defs2: "pj_definitions reg2 = pj_definitions reg" and att2: "\<exists>att2. map_of (pj_sessions reg2) x = Some att2 \<and> at_header att2 = ss_header s \<and> map_of (at_projections att2) = ps'"
    using w2 by (auto simp: with_projections_def)
  from att2 obtain att2 where a2: "map_of (pj_sessions reg2) x = Some att2" "at_header att2 = ss_header s" "map_of (at_projections att2) = ps'" by blast
  have reg': "reg' = reg2\<lparr>pj_observers := ?obs @ [(x, ?c)]\<rparr>"
    using run running free ps rep(1) obs2 s(1) x(3) by (simp add: projection_attach_def)
  have w3: "with_projections (reg2\<lparr>pj_observers := ?obs @ [(x, ?c)]\<rparr>) x att2 ps' reg'"
    using with_projections_refl [of reg' x att2] a2 reg' by simp
  show ?thesis
    by (rule projections_ok_with [OF rep(2) w3 x(1) _ full [folded defs2]])
      (use a2 s unobserved obs2 defs2 full in \<open>auto intro: attached_ok_weaken\<close>)
qed

lemma place_then_replay_keeps:
  assumes ok: "projections_ok catalog ss reg" and x: "ss x = Some s" "running_ok cdc s" "session_id s = x"
    and d: "map_of (pj_definitions reg) (pd_key d) = Some d" "history_ok d (ss_header s) (session_events s) st"
    and run: "then_replay s (place_projection s d st reg) = (r, reg')"
  shows "projections_ok catalog ss reg'"
    and "map_of (pj_sessions reg) x \<noteq> None \<Longrightarrow> r = Inr () \<and> (\<exists>att st'. map_of (pj_sessions reg') x = Some att
      \<and> map_of (at_projections att) (pd_key d) = Some st' \<and> history_ok d (ss_header s) (session_events s) st'
      \<and> seq_count (ps_last_seq st') = length (session_events s))"
proof -
  have "projections_ok catalog ss reg' \<and> (map_of (pj_sessions reg) x \<noteq> None \<longrightarrow> r = Inr () \<and> (\<exists>att st'. map_of (pj_sessions reg') x = Some att
      \<and> map_of (at_projections att) (pd_key d) = Some st' \<and> history_ok d (ss_header s) (session_events s) st'
      \<and> seq_count (ps_last_seq st') = length (session_events s)))"
proof (cases "map_of (pj_sessions reg) x")
  case None
  with run ok x(3) show ?thesis by (auto simp: then_replay_def place_projection_def)
next
  case (Some att)
  let ?ps = "(map_of (at_projections att))(pd_key d \<mapsto> st)" and ?obs = "pj_observers reg"
  from projections_okD [OF ok Some] x(1) have f: "follows_session (pj_definitions reg) ?obs x s att" by auto
  have w: "with_projections (reg\<lparr>pj_observers := ?obs\<rparr>) x att ?ps (set_projection x (pd_key d) st reg)"
    using set_projection_with [OF Some] by simp
  have "attached_ok (pj_definitions reg) (ss_header s) (session_events s) 0 ?ps"
    using f d by (auto simp: follows_session_def attached_ok_def)
  from replay_keeps [OF ok x w _ this] f obtain reg2 ps' where
    rep: "replay_locked s (set_projection x (pd_key d) st reg) = (Inr (), reg2)" "projections_ok catalog ss reg2"
    and w2: "with_projections (reg\<lparr>pj_observers := ?obs\<rparr>) x att ps' reg2" "dom ps' = dom ?ps"
    and full: "attached_ok (pj_definitions reg) (ss_header s) (session_events s) (length (session_events s)) ps'"
    by (auto simp: follows_session_def)
  have "reg' = reg2" "r = Inr ()" using run Some rep(1) x(3) by (simp_all add: then_replay_def place_projection_def)
  moreover from w2(2) obtain st' where st': "ps' (pd_key d) = Some st'" by auto
  moreover from full st' d(1) have "history_ok d (ss_header s) (session_events s) st'" "length (session_events s) \<le> seq_count (ps_last_seq st')"
    unfolding attached_ok_def by (metis option.inject)+
  moreover from this have "seq_count (ps_last_seq st') = length (session_events s)" by (simp add: history_ok_def)
  ultimately show ?thesis using rep(2) w2(1) by (auto simp: with_projections_def)
qed
  then show "projections_ok catalog ss reg'"
    and "map_of (pj_sessions reg) x \<noteq> None \<Longrightarrow> r = Inr () \<and> (\<exists>att st'. map_of (pj_sessions reg') x = Some att
      \<and> map_of (at_projections att) (pd_key d) = Some st' \<and> history_ok d (ss_header s) (session_events s) st'
      \<and> seq_count (ps_last_seq st') = length (session_events s))" by simp_all
qed

lemma fresh_bt_insert:
  assumes "k \<notin> fst ` set kvs"
  shows "set (bt_insert k v kvs) = insert (k, v) (set kvs)" "distinct (map fst kvs) \<Longrightarrow> distinct (map fst (bt_insert k v kvs))"
  using assms by (induction k v kvs rule: bt_insert.induct) auto

lemma register_keeps:
  assumes ok: "projections_ok catalog ss reg" and d: "d \<in> set catalog" "total_projection d" and run: "projection_register d reg = (r, reg')"
  shows "projections_ok catalog ss reg'"
proof (cases "blank (pd_key d) \<or> map_of (pj_definitions reg) (pd_key d) \<noteq> None")
  case True
  with run ok show ?thesis by (auto simp: projection_register_def split: if_splits)
next
  case False
  let ?defs = "pj_definitions reg" and ?defs' = "bt_insert (pd_key d) d (pj_definitions reg)"
  have fresh: "pd_key d \<notin> fst ` set ?defs" using False by (simp add: map_of_eq_None_iff)
  have reg': "reg' = reg\<lparr>pj_definitions := ?defs'\<rparr>" using False run by (simp add: projection_register_def)
  have "definitions_ok ?defs'"
    using ok d(2) fresh_bt_insert [OF fresh, of d] by (auto simp: projections_ok_def definitions_ok_def)
  moreover have "attached_ok ?defs' h es n ps" if "attached_ok ?defs h es n ps" for h es n ps
    unfolding attached_ok_def
  proof (intro allI impI)
    fix k st assume "ps k = Some st"
    from attached_okD [OF that this] obtain d0 where "map_of ?defs k = Some d0" "history_ok d0 h es st" "n \<le> seq_count (ps_last_seq st)" .
    moreover from this(1) False have "k \<noteq> pd_key d" by auto
    ultimately show "(\<exists>d. map_of ?defs' k = Some d \<and> history_ok d h es st) \<and> n \<le> seq_count (ps_last_seq st)" by simp
  qed
  then have lift: "follows_session ?defs' obs y s att" if "follows_session ?defs obs y s att" for obs y s att
    using that by (simp add: follows_session_def)
  have "\<exists>s. ss y = Some s \<and> follows_session ?defs' (pj_observers reg) y s att" if "map_of (pj_sessions reg) y = Some att" for y att
    using projections_okD [OF ok that] lift by metis
  moreover have "snd ` set ?defs' \<subseteq> set catalog"
    using ok d(1) fresh_bt_insert(1) [OF fresh, of d] by (auto simp: projections_ok_def)
  ultimately show ?thesis
    using ok unfolding reg' projections_ok_def by simp
qed

lemma projections_ok_opened:
  assumes "projections_ok catalog ss reg" and "ss x = None"
  shows "projections_ok catalog (ss(x \<mapsto> s)) reg"
proof -
  have "\<exists>t. (ss(x \<mapsto> s)) y = Some t \<and> follows_session (pj_definitions reg) (pj_observers reg) y t att"
    if "map_of (pj_sessions reg) y = Some att" for y att
    using projections_okD [OF assms(1) that] assms(2) by (metis fun_upd_other option.distinct(1))
  then show ?thesis using assms(1) unfolding projections_ok_def by simp
qed

lemma checkpoint_ok_opened:
  assumes "checkpoint_ok catalog ss ck" and "ss x = None"
  shows "checkpoint_ok catalog (ss(x \<mapsto> s)) ck"
proof -
  from assms obtain t where "ss (pk_session ck) = Some t" by (auto simp: checkpoint_ok_def)
  with assms(2) have "pk_session ck \<noteq> x" by auto
  with assms(1) show ?thesis by (simp add: checkpoint_ok_def)
qed

lemma projections_ok_new: "projections_ok catalog ss projection_registry_new"
  by (simp add: projections_ok_def projection_registry_new_def definitions_ok_def)

lemma shutdown_keeps: "projections_ok catalog ss reg \<Longrightarrow> projections_ok catalog ss (projection_shutdown reg)"
  by (simp add: projections_ok_def projection_shutdown_def follows_session_def) blast

lemma snapshot_reads:
  assumes "projections_ok catalog ss reg" and "snapshot_as_of reg x key q = Some (Inr n)"
  obtains s att d st f where "ss x = Some s" "map_of (pj_sessions reg) x = Some att" "map_of (at_projections att) key = Some st"
    "map_of (pj_definitions reg) key = Some d" "d \<in> set catalog" "pd_key d = key" "history_ok d (ss_header s) (session_events s) st"
    "frame_as_of q (ps_frames st) = Some f"
    "n = \<lparr>pn_session = session_id s, pn_key = key, pn_version = pd_version d, pn_as_of = sf_as_of f, pn_state = sf_state f,
       pn_view = projr (pd_view d (sf_state f))\<rparr>" "is_ok (pd_view d (sf_state f))"
    "\<And>c. (x, c) \<in> set (pj_observers reg) \<Longrightarrow> log_position s c \<le> seq_count (ps_last_seq st)"
proof -
  from assms(2) obtain att st f where a: "map_of (pj_sessions reg) x = Some att" "map_of (at_projections att) key = Some st"
    "frame_as_of q (ps_frames st) = Some f"
    and n: "and_then (registered_definition reg key) (\<lambda>d. and_then (pd_view d (sf_state f)) (\<lambda>v.
        Inr \<lparr>pn_session = hd_id (at_header att), pn_key = key, pn_version = ps_version st,
          pn_as_of = sf_as_of f, pn_state = sf_state f, pn_view = v\<rparr>)) = Inr n"
    by (auto simp: snapshot_as_of_def split: option.splits)
  from projections_okD [OF assms(1) a(1)] obtain s where s: "ss x = Some s" "follows_session (pj_definitions reg) (pj_observers reg) x s att" by metis
  from s(2) a(2) obtain d where d: "map_of (pj_definitions reg) key = Some d" "history_ok d (ss_header s) (session_events s) st"
    by (auto simp: follows_session_def elim: attached_okD)
  from d(1) assms(1) have "d \<in> set catalog" "pd_key d = key"
    by (auto simp: projections_ok_def definitions_ok_def dest!: map_of_SomeD)
  moreover have "log_position s c \<le> seq_count (ps_last_seq st)" if "(x, c) \<in> set (pj_observers reg)" for c
    using s(2) a(2) that by (auto simp: follows_session_def attached_ok_def)
  ultimately show thesis
    using that [OF s(1) a(1,2) d(1) _ _ d(2) a(3)] n d s(2) by (auto simp: registered_definition_def history_ok_def follows_session_def)
qed

lemma frame_as_of_value:
  assumes "history_ok d h es st" and "frame_as_of q (ps_frames st) = Some f"
  shows "q = None \<Longrightarrow> f = last (ps_frames st)"
    and "q = Some k \<Longrightarrow> k < seq_count (ps_last_seq st) \<Longrightarrow> value_at d h es (Suc k) = Inr (sf_state f)"
  using assms frame_as_of_Some [of k "ps_frames st"]
  by (auto simp: history_ok_def frame_as_of_def split: if_splits)

lemma checkpoint_taken:
  assumes "projections_ok catalog ss reg" and "take_checkpoint reg x key = Some (Inr ck)" and "\<And>y s. ss y = Some s \<Longrightarrow> session_id s = y"
  shows "checkpoint_ok catalog ss ck"
proof -
  from assms(2) obtain n where n: "snapshot_as_of reg x key None = Some (Inr n)"
    and ck: "ck = \<lparr>pk_session = pn_session n, pk_key = pn_key n, pk_version = pn_version n, pk_as_of = pn_as_of n, pk_state = pn_state n\<rparr>"
    unfolding take_checkpoint_def by (cases "snapshot_as_of reg x key None"; cases "the (snapshot_as_of reg x key None)") auto
  from snapshot_reads [OF assms(1) n] obtain s d st f where s: "ss x = Some s" "d \<in> set catalog" "pd_key d = key"
    "history_ok d (ss_header s) (session_events s) st" "frame_as_of None (ps_frames st) = Some f"
    and nn: "n = \<lparr>pn_session = session_id s, pn_key = key, pn_version = pd_version d, pn_as_of = sf_as_of f, pn_state = sf_state f,
       pn_view = projr (pd_view d (sf_state f))\<rparr>" by metis
  from frame_as_of_value(1) [OF s(4,5)] have f: "f = last (ps_frames st)" by simp
  have "value_at d (ss_header s) (session_events s) (seq_count (sf_as_of f)) = Inr (sf_state f)"
    "seq_count (sf_as_of f) \<le> length (session_events s)"
    using s(4) f by (auto simp: history_ok_def) (meson last_in_set le_trans)
  with s(1-3) assms(3) [OF s(1)] nn ck show ?thesis unfolding checkpoint_ok_def by auto
qed

lemma checkpoint_history:
  assumes "checkpoint_ok catalog ss ck" and "catalog_ok catalog" and "ss (pk_session ck) = Some s"
    and "d \<in> set catalog" "pd_key d = pk_key ck" "pd_version d = pk_version ck"
  shows "history_ok d (ss_header s) (session_events s) (projection_state_at (pd_version d) (pk_as_of ck) (pk_state ck))"
proof -
  from assms(1,3) obtain d' where d': "d' \<in> set catalog" "pd_key d' = pk_key ck" "pd_version d' = pk_version ck"
    "seq_count (pk_as_of ck) \<le> length (session_events s)"
    "value_at d' (ss_header s) (session_events s) (seq_count (pk_as_of ck)) = Inr (pk_state ck)" by (auto simp: checkpoint_ok_def)
  from d'(1-3) assms(2,4-6) have "d' = d" unfolding catalog_ok_def by auto
  with d'(4,5) show ?thesis by (metis history_ok_placed)
qed

lemma registered_in_catalog:
  assumes "projections_ok catalog ss reg" and "map_of (pj_definitions reg) key = Some d"
  shows "d \<in> set catalog" "pd_key d = key"
  using assms by (auto simp: projections_ok_def definitions_ok_def dest!: map_of_SomeD)

lemma restore_keeps:
  assumes ok: "projections_ok catalog ss reg" and x: "ss x = Some s" "running_ok cdc s" "session_id s = x"
    and ck: "checkpoint_ok catalog ss ck" and cat: "catalog_ok catalog" and run: "restore_floor s ck base reg = (r, reg')"
  shows "projections_ok catalog ss reg'"
proof (cases "registered_definition reg (pk_key ck)")
  case (Inl err)
  with run ok show ?thesis by (auto simp: restore_floor_def)
next
  case (Inr d)
  then have d: "map_of (pj_definitions reg) (pk_key ck) = Some d" by (simp add: registered_definition_def)
  note cd = registered_in_catalog [OF ok d]
  note place = place_then_replay_keeps(1) [OF ok x, of d, unfolded cd(2), OF d]
  have reset: ?thesis if "then_replay s (reset_projection s d reg) = (r, reg')"
  proof (cases "pd_init d (ss_header s)")
    case (Inr v)
    then have "history_ok d (ss_header s) (session_events s) (projection_state_at (pd_version d) None v)"
      by (intro history_ok_placed) (simp_all add: value_at_def)
    with place that Inr show ?thesis by (simp add: reset_projection_def)
  qed (use that ok in \<open>auto simp: reset_projection_def then_replay_def\<close>)
  have resume: ?thesis
    if "pk_session ck = session_id s" "pk_version ck = pd_version d"
      "then_replay s (place_projection s d (projection_state_at (pd_version d) (pk_as_of ck) (pk_state ck)) reg) = (r, reg')"
    using place checkpoint_history [OF ck cat _ cd] that x by simp
  from run Inr ok show ?thesis
    unfolding restore_floor_def using reset resume by (auto split: if_splits)
qed

lemma observer_attached:
  assumes "projections_ok catalog ss reg" and "i < length (pj_observers reg)" and "pj_observers reg ! i = (x, c)" and "ss x = Some s"
  obtains att where "map_of (pj_sessions reg) x = Some att" "follows_session (pj_definitions reg) (pj_observers reg) x s att"
    "(x, c) \<in> set (pj_observers reg)"
proof -
  from assms(2,3) have c: "(x, c) \<in> set (pj_observers reg)" by (metis nth_mem)
  then have "x \<in> fst ` set (pj_observers reg)" by force
  with assms(1) obtain att where "map_of (pj_sessions reg) x = Some att" unfolding projections_ok_def by blast
  with projections_okD [OF assms(1) this] assms(4) c that show thesis by (metis option.inject)
qed

lemma observe_event_keeps:
  assumes ok: "projections_ok catalog ss reg" and i: "i < length (pj_observers reg)" "pj_observers reg ! i = (x, c)"
    and x: "ss x = Some s" "running_ok cdc s" "session_id s = x" and c: "c < length (ss_updates s)"
  shows "projections_ok catalog ss (observe_event i s reg)"
proof -
  let ?obs = "(pj_observers reg)[i := (x, Suc c)]" and ?k = "log_position s c"
  from observer_attached [OF ok i x(1)] obtain att where att: "map_of (pj_sessions reg) x = Some att"
    "follows_session (pj_definitions reg) (pj_observers reg) x s att" "(x, c) \<in> set (pj_observers reg)" .
  have "\<exists>reg'. apply_event_locked x (session_events s ! ?k) (reg\<lparr>pj_observers := ?obs\<rparr>) = (Inr (), reg') \<and> projections_ok catalog ss reg'"
  proof (rule apply_keeps [OF ok x(1,2) att(1)])
    show "?k < length (session_events s)" using running_nth [OF x(2) c] by simp
    show "attached_ok (pj_definitions reg) (ss_header s) (session_events s) ?k (map_of (at_projections att))"
      using att(2,3) by (simp add: follows_session_def)
  qed (auto dest!: set_update_subset_insert [THEN subsetD] simp: log_position_def)
  with running_nth [OF x(2) c] i x(3) show ?thesis by (auto simp: observe_event_def contained_def)
qed

lemma observe_lag_keeps:
  assumes ok: "projections_ok catalog ss reg" and i: "i < length (pj_observers reg)" "pj_observers reg ! i = (x, c)"
    and x: "ss x = Some s" "running_ok cdc s" "session_id s = x" and c: "c' \<le> length (ss_updates s)"
  shows "projections_ok catalog ss (observe_lag i c' s reg)"
proof -
  let ?obs = "(pj_observers reg)[i := (x, c')]"
  from observer_attached [OF ok i x(1)] obtain att where att: "map_of (pj_sessions reg) x = Some att"
    "follows_session (pj_definitions reg) (pj_observers reg) x s att" .
  have w: "with_projections (reg\<lparr>pj_observers := ?obs\<rparr>) x att (map_of (at_projections att)) (reg\<lparr>pj_observers := ?obs\<rparr>)"
    by (rule with_projections_refl) (simp add: att(1))
  have pos: "log_position s c' \<le> length (session_events s)" using c x(2) by (auto simp: log_position_def running_ok_def)
  have here: "log_position s e \<le> length (session_events s)" if "(x, e) \<in> set ?obs" for e
    using set_update_subset_insert [THEN subsetD, OF that] pos att(2) by (auto simp: follows_session_def)
  have else: "(y, e) \<in> set (pj_observers reg)" if "y \<noteq> x" "(y, e) \<in> set ?obs" for y e
    using set_update_subset_insert [THEN subsetD, OF that(2)] that(1) by auto
  from replay_keeps [OF ok x w _ _ here else] att(2) obtain reg' where
    "replay_locked s (reg\<lparr>pj_observers := ?obs\<rparr>) = (Inr (), reg')" "projections_ok catalog ss reg'" by (auto simp: follows_session_def)
  with x(3) show ?thesis by (simp add: observe_lag_def contained_def)
qed

lemma applied_keeps:
  assumes ok: "projections_ok catalog ss reg" and x: "ss x = Some s" "running_ok cdc s" and k: "k < length (session_events s)" "in_step reg x k"
    and run: "apply_event_locked x (session_events s ! k) reg = (r, reg')"
  shows "projections_ok catalog ss reg'"
proof (cases "map_of (pj_sessions reg) x")
  case None
  with run ok show ?thesis by (simp add: apply_event_locked_def)
next
  case (Some att)
  from projections_okD [OF ok Some] x(1) have f: "follows_session (pj_definitions reg) (pj_observers reg) x s att" by auto
  with k(2) Some have "attached_ok (pj_definitions reg) (ss_header s) (session_events s) k (map_of (at_projections att))"
    by (auto simp: follows_session_def attached_ok_def in_step_def list_all_iff dest!: map_of_SomeD)
  from apply_keeps [OF ok x Some k(1) this, of "pj_observers reg"] run show ?thesis by auto
qed

lemma projection_reachable_ok:
  assumes "projection_reachable cdc ops catalog b w" and cat: "catalog_ok catalog" and "b"
  shows "projection_world_ok cdc catalog w"
  using assms(1, 3)
proof induction
  case start
  then show ?case by (simp add: projection_world_ok_def projections_ok_new)
next
  case (opened b w s)
  have reg: "projections_ok catalog ((pw_sessions w)(session_id s \<mapsto> s)) (pw_registry w)"
    using opened.IH [OF opened.prems] opened.hyps(2) projections_ok_opened by (simp add: projection_world_ok_def)
  have "checkpoint_ok catalog ((pw_sessions w)(session_id s \<mapsto> s)) ck" if "ck \<in> set (pw_checkpoints w)" for ck
    using opened.IH [OF opened.prems] opened.hyps(2) that checkpoint_ok_opened by (simp add: projection_world_ok_def)
  with reg opened.IH [OF opened.prems] opened.hyps(3,4) show ?case by (auto simp: projection_world_ok_def running_ok_def)
next
  case (appended b w x s e y cp s' cp')
  then have s: "session_id s = x" "running_ok cdc s" by (auto simp: projection_world_ok_def)
  note ap = append_running [OF appended.hyps(3) s(2)]
  have "projections_ok catalog ((pw_sessions w)(x \<mapsto> s')) (pw_registry w)"
    by (rule projections_ok_grow [where s = s and added = "[e]"]) (use appended.IH [OF appended.prems] appended.hyps(2) ap in \<open>auto simp: projection_world_ok_def\<close>)
  with appended.IH [OF appended.prems] ap s checkpoint_ok_grow [where ss = "pw_sessions w" and x = x, OF _ appended.hyps(2) ap(2,3)] show ?case by (auto simp: projection_world_ok_def)
next
  case (registered b w d r reg')
  then have "projections_ok catalog (pw_sessions w) reg'"
    using register_keeps [of catalog "pw_sessions w" "pw_registry w" d r reg'] cat by (auto simp: projection_world_ok_def catalog_ok_def)
  with registered.IH [OF registered.prems] show ?case by (simp add: projection_world_ok_def)
next
  case (attached b w x s s' r reg')
  then have s: "session_id s = x" "running_ok cdc s" by (auto simp: projection_world_ok_def)
  from later_running [OF attached.hyps(3) s(2)] obtain added where l: "running_ok cdc s'" "ss_header s' = ss_header s"
    "session_events s' = session_events s @ added" "\<And>c. log_position s' c = log_position s c" by auto
  have pos: "log_position s' (length (ss_updates s)) = length (session_events s)"
    using s(2) l(4) by (auto simp: log_position_def running_ok_def)
  have "projections_ok catalog ((pw_sessions w)(x \<mapsto> s')) (pw_registry w)"
    by (rule projections_ok_grow [where s = s and added = added]) (use attached.IH [OF attached.prems] attached.hyps(2) l in \<open>auto simp: projection_world_ok_def\<close>)
  from attach_keeps [OF this _ l(1) _ l(2)[symmetric] l(3) pos attached.hyps(4)] s(1) l(2)
  have "projections_ok catalog ((pw_sessions w)(x \<mapsto> s')) reg'" by simp
  with attached.IH [OF attached.prems] l s checkpoint_ok_grow [where ss = "pw_sessions w" and x = x, OF _ attached.hyps(2) l(2,3)] show ?case by (auto simp: projection_world_ok_def)
next
  case (observed b w i x c s)
  with observe_event_keeps [of catalog "pw_sessions w" "pw_registry w" i x c s cdc] show ?case by (auto simp: projection_world_ok_def)
next
  case (lagged b w i x c s c')
  with observe_lag_keeps [of catalog "pw_sessions w" "pw_registry w" i x c s cdc c'] show ?case by (auto simp: projection_world_ok_def)
next
  case (applied b w x s k r reg')
  with applied_keeps [of catalog "pw_sessions w" "pw_registry w" x s cdc k r reg'] show ?case by (auto simp: projection_world_ok_def)
next
  case (saved b w x key ck)
  with checkpoint_taken [of catalog "pw_sessions w" "pw_registry w" x key ck] show ?case by (auto simp: projection_world_ok_def)
next
  case (restored b w ck x s base r reg')
  with restore_keeps [of catalog "pw_sessions w" "pw_registry w" x s cdc ck base r reg'] cat show ?case by (auto simp: projection_world_ok_def)
next
  case (stopped b w)
  then show ?case by (auto simp: projection_world_ok_def shutdown_keeps)
next
  case (replaced b w)
  then show ?case by (auto simp: projection_world_ok_def projections_ok_new)
qed

section \<open>A running example\<close>

text \<open>The kinds of the events so far, over a small session; it is attached, checkpointed and gets a third event.\<close>

definition kinds_projection :: projection_definition where
  "kinds_projection = \<lparr>pd_key = ''kinds'', pd_version = 1, pd_init = (\<lambda>_. Inr (JArr [])),
     pd_apply = (\<lambda>v e. Inr (case v of JArr xs \<Rightarrow> JArr (xs @ [JStr (ev_type e)]) | _ \<Rightarrow> v)), pd_view = Inr\<rparr>"

definition kinds_registry :: projection_registry where
  "kinds_registry = snd (projection_register kinds_projection projection_registry_new)"

abbreviation opened_session :: session where
  "opened_session \<equiv> plain_session plain_log []"

abbreviation grown_session :: session where
  "grown_session \<equiv> plain_session plain_log [sample_note 2]"

definition attached_registry :: projection_registry where
  "attached_registry = snd (projection_attach opened_session opened_session kinds_registry)"

definition kinds_checkpoint :: projection_checkpoint where
  "kinds_checkpoint = projr (the (take_checkpoint attached_registry ''s1'' ''kinds''))"

definition kinds_world :: projection_world where
  "kinds_world = \<lparr>pw_registry = observe_event 0 grown_session attached_registry, pw_sessions = [''s1'' \<mapsto> grown_session],
     pw_checkpoints = [kinds_checkpoint]\<rparr>"

lemma kinds_catalog: "catalog_ok [kinds_projection]"
  by (simp add: catalog_ok_def total_projection_def kinds_projection_def)

lemma grown_session_appended:
  "\<exists>cp'. append_under_gate wire_codec (memory_persistence wire_codec) opened_session (sample_note 2) None (None, plain_memory)
     = (Inr grown_session, cp')"
proof -
  have "fst (append_under_gate wire_codec (memory_persistence wire_codec) opened_session (sample_note 2) None (None, plain_memory))
    = Inr grown_session" by code_simp
  then show ?thesis by (metis prod.collapse)
qed

lemma opened_session_ok: "session_ok wire_codec opened_session"
  by code_simp

lemma kinds_world_reachable: "projection_reachable wire_codec (memory_persistence wire_codec) [kinds_projection] True kinds_world"
proof -
  let ?R = "projection_reachable wire_codec (memory_persistence wire_codec) [kinds_projection] True" and ?s = opened_session
  let ?w0 = "\<lparr>pw_registry = projection_registry_new, pw_sessions = Map.empty, pw_checkpoints = []\<rparr>"
  have s: "session_id ?s = ''s1''" "ss_updates ?s = []" by (simp_all add: plain_session_def sample_header_def)
  have "?R (?w0\<lparr>pw_sessions := (pw_sessions ?w0)(session_id ?s \<mapsto> ?s)\<rparr>)"
    by (rule projection_reachable.opened [OF projection_reachable.start]) (simp_all add: s(2) opened_session_ok)
  then have "?R \<lparr>pw_registry = projection_registry_new, pw_sessions = [''s1'' \<mapsto> ?s], pw_checkpoints = []\<rparr>" using s(1) by simp
  from projection_reachable.registered [OF this, of kinds_projection]
  have "?R \<lparr>pw_registry = kinds_registry, pw_sessions = [''s1'' \<mapsto> ?s], pw_checkpoints = []\<rparr>"
    by (simp add: kinds_registry_def) (metis prod.collapse)
  moreover obtain r where "projection_attach ?s ?s kinds_registry = (r, attached_registry)"
    by (metis attached_registry_def prod.collapse)
  ultimately have att: "?R \<lparr>pw_registry = attached_registry, pw_sessions = [''s1'' \<mapsto> ?s], pw_checkpoints = []\<rparr>"
    using projection_reachable.attached [OF _ _ later.same, of wire_codec "memory_persistence wire_codec" "[kinds_projection]" True
        "\<lparr>pw_registry = kinds_registry, pw_sessions = [''s1'' \<mapsto> ?s], pw_checkpoints = []\<rparr>" "''s1''" ?s r attached_registry] by simp
  have "take_checkpoint attached_registry ''s1'' ''kinds'' = Some (Inr kinds_checkpoint)" by code_simp
  with projection_reachable.saved [OF att, of "''s1''" "''kinds''" kinds_checkpoint]
  have ck: "?R \<lparr>pw_registry = attached_registry, pw_sessions = [''s1'' \<mapsto> ?s], pw_checkpoints = [kinds_checkpoint]\<rparr>" by simp
  from grown_session_appended obtain cp' where ap: "append_under_gate wire_codec (memory_persistence wire_codec) ?s (sample_note 2) None
     (None, plain_memory) = (Inr grown_session, cp')" by blast
  from projection_reachable.appended [OF ck _ ap, of "''s1''"]
  have up: "?R \<lparr>pw_registry = attached_registry, pw_sessions = [''s1'' \<mapsto> grown_session], pw_checkpoints = [kinds_checkpoint]\<rparr>" by simp
  have "pj_observers attached_registry = [(''s1'', 0)]" "0 < length (ss_updates grown_session)" by code_simp+
  with projection_reachable.observed [OF up, of 0 "''s1''" 0 grown_session] show ?thesis by (simp add: kinds_world_def)
qed

section \<open>Theorems\<close>

text \<open>C23: a projection is the fold of the log as long as the relay does not overtake the observer. In every state of a run in which every
  event that the relay handed over was at most the next one for each projection, with callbacks that never fail and one definition
  per key and version, a snapshot shows the fold of the registered definition over a prefix of the log, whatever was
  delivered, lost, replayed or restored before, and the whole log once the observer has received everything. A snapshot as
  of an event is the fold up to that event, as it was then. The code does not ensure that the relay stays in step.\<close>

theorem snapshots_are_log_folds:
  assumes "projection_reachable cdc ops catalog True w" and "catalog_ok catalog"
    and "snapshot_as_of (pw_registry w) x key q = Some (Inr n)"
  shows "\<exists>s d seen. pw_sessions w x = Some s \<and> d \<in> set catalog \<and> pd_key d = key \<and> pn_version n = pd_version d
    \<and> pd_view d (pn_state n) = Inr (pn_view n) \<and> seen \<le> length (session_events s)
    \<and> ((x, length (ss_updates s)) \<in> set (pj_observers (pw_registry w)) \<longrightarrow> seen = length (session_events s))
    \<and> (case q of None \<Rightarrow> value_at d (ss_header s) (session_events s) seen = Inr (pn_state n)
        | Some k \<Rightarrow> k < seen \<longrightarrow> value_at d (ss_header s) (session_events s) (Suc k) = Inr (pn_state n))"
proof -
  from projection_reachable_ok [OF assms(1,2) TrueI] have ok: "projections_ok catalog (pw_sessions w) (pw_registry w)"
    and run: "\<And>s. pw_sessions w x = Some s \<Longrightarrow> running_ok cdc s" by (auto simp: projection_world_ok_def)
  from snapshot_reads [OF ok assms(3)] obtain s d st f where s: "pw_sessions w x = Some s" "d \<in> set catalog" "pd_key d = key"
    and h: "history_ok d (ss_header s) (session_events s) st" and f: "frame_as_of q (ps_frames st) = Some f"
    and n: "n = \<lparr>pn_session = session_id s, pn_key = key, pn_version = pd_version d, pn_as_of = sf_as_of f, pn_state = sf_state f,
       pn_view = projr (pd_view d (sf_state f))\<rparr>" "is_ok (pd_view d (sf_state f))"
    and pos: "\<And>c. (x, c) \<in> set (pj_observers (pw_registry w)) \<Longrightarrow> log_position s c \<le> seq_count (ps_last_seq st)" by metis
  have "log_position s (length (ss_updates s)) = length (session_events s)"
    using run [OF s(1)] by (auto simp: running_ok_def log_position_def)
  with pos h have "(x, length (ss_updates s)) \<in> set (pj_observers (pw_registry w)) \<longrightarrow> seq_count (ps_last_seq st) = length (session_events s)"
    by (fastforce simp: history_ok_def)
  moreover have v: "pn_state n = sf_state f" "pn_version n = pd_version d" "pd_view d (pn_state n) = Inr (pn_view n)"
    using n by (auto simp: is_ok_ex)
  moreover have "case q of None \<Rightarrow> value_at d (ss_header s) (session_events s) (seq_count (ps_last_seq st)) = Inr (pn_state n)
        | Some k \<Rightarrow> k < seq_count (ps_last_seq st) \<longrightarrow> value_at d (ss_header s) (session_events s) (Suc k) = Inr (pn_state n)"
    using frame_as_of_value [OF h f] h by (cases q) (auto simp: history_ok_def v(1))
  ultimately show ?thesis
    using s h by (intro exI [of _ s] exI [of _ d] exI [of _ "seq_count (ps_last_seq st)"] conjI) (simp_all add: history_ok_def del: split_paired_Ex)
qed

theorem snapshots_are_log_folds_witness:
  "\<exists>n. snapshot_as_of (pw_registry kinds_world) ''s1'' ''kinds'' (Some 1) = Some (Inr n)
     \<and> value_at kinds_projection (ss_header grown_session) (session_events grown_session) 2 = Inr (pn_state n)"
proof -
  let ?n = "projr (the (snapshot_as_of (pw_registry kinds_world) ''s1'' ''kinds'' (Some 1)))"
  have n: "snapshot_as_of (pw_registry kinds_world) ''s1'' ''kinds'' (Some 1) = Some (Inr ?n)" by code_simp
  have obs: "(''s1'', length (ss_updates grown_session)) \<in> set (pj_observers (pw_registry kinds_world))" "1 < length (session_events grown_session)"
    by code_simp+
  from snapshots_are_log_folds [OF kinds_world_reachable kinds_catalog n] obs
  have "value_at kinds_projection (ss_header grown_session) (session_events grown_session) (Suc 1) = Inr (pn_state ?n)"
    by (auto simp: kinds_world_def split: if_splits)
  with n show ?thesis by (metis Suc_1)
qed

text \<open>C24: a checkpoint restores. In a run in which every event that the relay handed over was at most the next one for each projection, with
  callbacks that never fail and one definition per key and version, a checkpoint taken in any earlier state and restored
  into a registry that has the session attached and the projection registered at the same version is accepted and
  followed by the rest of the log: the projection then shows the fold over the whole log.\<close>

theorem checkpoint_restores_whole_fold:
  assumes "projection_reachable cdc ops catalog True w" and "catalog_ok catalog" and "ck \<in> set (pw_checkpoints w)"
    and "pw_sessions w (pk_session ck) = Some s" and "map_of (pj_sessions (pw_registry w)) (pk_session ck) \<noteq> None"
    and "map_of (pj_definitions (pw_registry w)) (pk_key ck) = Some d" and "pd_version d = pk_version ck"
  shows "\<exists>reg' att st. projection_restore s ck (pw_registry w) = (Inr (), reg')
    \<and> map_of (pj_sessions reg') (pk_session ck) = Some att \<and> map_of (at_projections att) (pk_key ck) = Some st
    \<and> value_at d (ss_header s) (session_events s) (length (session_events s)) = Inr (ps_state st)
    \<and> frame_as_of None (ps_frames st) = Some (last (ps_frames st)) \<and> sf_state (last (ps_frames st)) = ps_state st"
proof -
  from projection_reachable_ok [OF assms(1,2) TrueI] have ok: "projections_ok catalog (pw_sessions w) (pw_registry w)"
    and run: "running_ok cdc s" "session_id s = pk_session ck" and ck: "checkpoint_ok catalog (pw_sessions w) ck"
    using assms(3,4) by (auto simp: projection_world_ok_def)
  note d = registered_in_catalog [OF ok assms(6)]
  let ?st = "projection_state_at (pd_version d) (pk_as_of ck) (pk_state ck)"
  obtain r reg' where run': "then_replay s (place_projection s d ?st (pw_registry w)) = (r, reg')" by (rule prod.exhaust)
  have res: "projection_restore s ck (pw_registry w) = (r, reg')"
    using run' assms(6,7) run(2) by (simp add: projection_restore_def restore_floor_def registered_definition_def)
  from place_then_replay_keeps(2) [OF ok assms(4) run _ checkpoint_history [OF ck assms(2,4) d assms(7)] run' assms(5)] d(2) assms(6)
  obtain att st where "r = Inr ()" "map_of (pj_sessions reg') (pk_session ck) = Some att" "map_of (at_projections att) (pk_key ck) = Some st"
    "history_ok d (ss_header s) (session_events s) st" "seq_count (ps_last_seq st) = length (session_events s)" by auto
  with res show ?thesis by (auto simp: history_ok_def frame_as_of_def)
qed

theorem checkpoint_restores_whole_fold_witness:
  "\<exists>reg'. projection_restore grown_session kinds_checkpoint (pw_registry kinds_world) = (Inr (), reg')"
proof -
  have ck: "kinds_checkpoint \<in> set (pw_checkpoints kinds_world)" by (simp add: kinds_world_def)
  have id: "pk_session kinds_checkpoint = ''s1''" "pd_version kinds_projection = pk_version kinds_checkpoint" by code_simp+
  have "\<not> Option.is_none (map_of (pj_sessions (pw_registry kinds_world)) ''s1'')"
    "\<not> Option.is_none (map_of (pj_definitions (pw_registry kinds_world)) (pk_key kinds_checkpoint))" by code_simp+
  then obtain d where att: "map_of (pj_sessions (pw_registry kinds_world)) (pk_session kinds_checkpoint) \<noteq> None"
    and d: "map_of (pj_definitions (pw_registry kinds_world)) (pk_key kinds_checkpoint) = Some d"
    using id(1) by (auto simp: Option.is_none_def)
  have "projections_ok [kinds_projection] (pw_sessions kinds_world) (pw_registry kinds_world)"
    using projection_reachable_ok [OF kinds_world_reachable kinds_catalog TrueI] by (simp add: projection_world_ok_def)
  from registered_in_catalog(1) [OF this d] have "d = kinds_projection" by simp
  with checkpoint_restores_whole_fold [OF kinds_world_reachable kinds_catalog ck _ att d] id show ?thesis
    by (auto simp: kinds_world_def)
qed

end
