(* ===== verification/Event_Relay.thy ===== *)
theory Event_Relay
  imports Projection_Properties
begin

text \<open>
  The host's relay of a session (\<open>ensure_relay\<close>, \<open>relay_missing_events\<close> and the notices of \<open>relay_event\<close> in
  \<open>src/src/host.rs\<close>): every event becomes a notice, is applied to the projections, and a projection that changed at it
  becomes a notice too. The relay keeps the next sequence number it owes; the session is taken as it is when that
  number is read and as it is when the broadcast is subscribed to. A panic is \<open>None\<close>.
\<close>

section \<open>The relay\<close>

datatype host_notice =
    SessionEventNotice string session_event
  | SessionProjectionNotice string string json u64

record relay =
  rl_next_seq :: u64
  rl_cursor :: nat

type_synonym relay_run = "(host_notice list \<times> projection_registry) option"

definition projection_notices :: "string \<Rightarrow> session_event \<Rightarrow> projection_snapshot list \<Rightarrow> host_notice list" where
  "projection_notices x e snaps =
     map (\<lambda>n. SessionProjectionNotice x (pn_key n) (pn_view n) (ev_seq e)) (filter (\<lambda>n. pn_as_of n = Some (ev_seq e)) snaps)"

definition relay_event :: "string \<Rightarrow> session_event \<Rightarrow> projection_registry \<Rightarrow> relay_run" where
  "relay_event x e reg =
     (case apply_event_locked x e reg of
        (Inl _, reg') \<Rightarrow> Some ([SessionEventNotice x e], reg')
      | (Inr _, reg') \<Rightarrow>
          (case snapshots reg' x None of
             None \<Rightarrow> None
           | Some (Inl _) \<Rightarrow> Some ([SessionEventNotice x e], reg')
           | Some (Inr snaps) \<Rightarrow> Some (SessionEventNotice x e # projection_notices x e snaps, reg')))"

fun relay_events :: "string \<Rightarrow> session_event list \<Rightarrow> projection_registry \<Rightarrow> relay_run" where
  "relay_events x [] reg = Some ([], reg)"
| "relay_events x (e # es) reg =
     (case relay_event x e reg of
        None \<Rightarrow> None
      | Some (ns, reg') \<Rightarrow> map_option (\<lambda>(ms, reg''). (ns @ ms, reg'')) (relay_events x es reg'))"

definition owed :: "u64 \<Rightarrow> session_event list \<Rightarrow> session_event list" where
  "owed start es = filter (\<lambda>e. ev_seq e \<ge> start) es"

definition next_owed :: "u64 \<Rightarrow> session_event list \<Rightarrow> u64" where
  "next_owed start es = foldl (\<lambda>_ e. saturating_next (Some (ev_seq e))) start (owed start es)"

definition relay_missing_events :: "session \<Rightarrow> relay \<Rightarrow> projection_registry \<Rightarrow> (host_notice list \<times> relay \<times> projection_registry) option" where
  "relay_missing_events s rl reg =
     map_option (\<lambda>(ns, reg'). (ns, rl\<lparr>rl_next_seq := next_owed (rl_next_seq rl) (session_events s)\<rparr>, reg'))
       (relay_events (session_id s) (owed (rl_next_seq rl) (session_events s)) reg)"

definition ensure_relay :: "session \<Rightarrow> session \<Rightarrow> relay" where
  "ensure_relay s subscribed =
     \<lparr>rl_next_seq = (case next_seq (session_events s) of Inl _ \<Rightarrow> u64_max | Inr n \<Rightarrow> n), rl_cursor = length (ss_updates subscribed)\<rparr>"

definition relay_one :: "string \<Rightarrow> session_event \<Rightarrow> relay \<Rightarrow> projection_registry \<Rightarrow> (host_notice list \<times> relay \<times> projection_registry) option" where
  "relay_one x e rl reg =
     (if ev_seq e \<ge> rl_next_seq rl
      then map_option (\<lambda>(ns, reg'). (ns, rl\<lparr>rl_next_seq := saturating_next (Some (ev_seq e))\<rparr>, reg')) (relay_event x e reg)
      else Some ([], rl, reg))"

definition relay_received :: "session \<Rightarrow> relay \<Rightarrow> projection_registry \<Rightarrow> (host_notice list \<times> relay \<times> projection_registry) option" where
  "relay_received s rl reg =
     (let e = ss_updates s ! rl_cursor rl; rl' = rl\<lparr>rl_cursor := Suc (rl_cursor rl)\<rparr> in
      if ev_seq e > rl_next_seq rl then
        (case relay_missing_events s rl' reg of
           None \<Rightarrow> None
         | Some (ns, rl'', reg') \<Rightarrow> map_option (\<lambda>(ms, r). (ns @ ms, r)) (relay_one (session_id s) e rl'' reg'))
      else relay_one (session_id s) e rl' reg)"

definition relay_lagged :: "session \<Rightarrow> nat \<Rightarrow> relay \<Rightarrow> projection_registry \<Rightarrow> (host_notice list \<times> relay \<times> projection_registry) option" where
  "relay_lagged s cursor rl reg = relay_missing_events s (rl\<lparr>rl_cursor := cursor\<rparr>) reg"

section \<open>What is relayed\<close>

text \<open>The events among the notices.\<close>

fun relayed :: "host_notice list \<Rightarrow> session_event list" where
  "relayed [] = []"
| "relayed (SessionEventNotice x e # ns) = e # relayed ns"
| "relayed (SessionProjectionNotice _ _ _ _ # ns) = relayed ns"

lemma relayed_append [simp]: "relayed (xs @ ys) = relayed xs @ relayed ys"
  by (induction xs rule: relayed.induct) simp_all

lemma relayed_projections [simp]: "relayed (projection_notices x e snaps) = []"
proof -
  have "relayed (map (\<lambda>n. SessionProjectionNotice x (f n) (g n) k) ns) = []" for f g k and ns :: "projection_snapshot list"
    by (induction ns) simp_all
  then show ?thesis by (simp add: projection_notices_def)
qed

lemma relayed_event: "relay_event x e reg = Some (ns, reg') \<Longrightarrow> relayed ns = [e]"
  by (auto simp: relay_event_def split: prod.splits sum.splits option.splits)

lemma relayed_events: "relay_events x es reg = Some (ns, reg') \<Longrightarrow> relayed ns = es"
proof (induction es arbitrary: reg ns reg')
  case (Cons e es)
  from Cons.prems obtain ns1 reg1 where one: "relay_event x e reg = Some (ns1, reg1)" by (auto split: option.splits)
  with Cons.prems obtain ms reg2 where "relay_events x es reg1 = Some (ms, reg2)" "ns = ns1 @ ms" by auto
  with Cons.IH relayed_event [OF one] show ?case by auto
qed simp

lemma owed_drop:
  assumes "log_numbered es"
  shows "owed start es = drop start es"
  using assms
proof (induction es rule: rev_induct)
  case (snoc e es)
  from snoc.prems have n: "log_numbered es" unfolding log_numbered_def by (metis less_SucI length_append_singleton nth_append)
  from snoc.prems have "ev_seq e = length es" unfolding log_numbered_def by (metis length_append_singleton lessI nth_append_length)
  with snoc.IH [OF n] show ?case by (auto simp: owed_def)
qed (simp add: owed_def)

lemma next_owed_length:
  assumes "log_numbered es" and "start \<le> length es" and "length es \<le> u64_max"
  shows "next_owed start es = length es"
proof (cases "start = length es")
  case True
  with owed_drop [OF assms(1)] show ?thesis by (simp add: next_owed_def)
next
  case False
  then have "drop start es \<noteq> []" using assms(2) by simp
  then have "drop start es = butlast (drop start es) @ [last es]"
    by (metis append_butlast_last_id last_drop drop_eq_Nil not_le)
  moreover from False assms(2) have "length es > 0" by auto
  moreover from this assms(1) have "ev_seq (last es) = length es - 1" by (simp add: log_numbered_def last_conv_nth)
  ultimately have "next_owed start es = saturating_next (Some (length es - 1))"
    unfolding next_owed_def owed_drop [OF assms(1)] by (metis (no_types, lifting) foldl_Cons foldl_Nil foldl_append)
  with \<open>length es > 0\<close> assms(3) show ?thesis by (cases es) (auto simp: saturating_next_def)
qed

lemma numbered_next_seq:
  assumes "log_numbered es" and "length es \<le> u64_max"
  shows "next_seq es = Inr (length es)"
proof (cases "es = []")
  case False
  with assms(1) have "ev_seq (last es) = length es - 1" by (simp add: log_numbered_def last_conv_nth)
  with False assms(2) show ?thesis by (cases es) (auto simp: next_seq_def)
qed (simp add: next_seq_def)

section \<open>The relay of a running session\<close>

text \<open>The relay between appends to the session, whatever else happens to the registry in between.\<close>

inductive relaying :: "codec \<Rightarrow> 'p persistence \<Rightarrow> session \<Rightarrow> session \<Rightarrow> relay \<Rightarrow> host_notice list \<Rightarrow> bool" for cdc ops s0 where
  begun: "later cdc ops s0 s1 \<Longrightarrow> later cdc ops s1 s \<Longrightarrow> relay_missing_events s (ensure_relay s0 s1) reg = Some (ns, rl, reg')
    \<Longrightarrow> relaying cdc ops s0 s rl ns"
| grew: "relaying cdc ops s0 s rl ns \<Longrightarrow> append_under_gate cdc ops s e y cp = (Inr s', cp') \<Longrightarrow> relaying cdc ops s0 s' rl ns"
| received: "relaying cdc ops s0 s rl ns \<Longrightarrow> rl_cursor rl < length (ss_updates s) \<Longrightarrow> relay_received s rl reg = Some (ms, rl', reg')
    \<Longrightarrow> relaying cdc ops s0 s rl' (ns @ ms)"
| lagged: "relaying cdc ops s0 s rl ns \<Longrightarrow> cursor \<le> length (ss_updates s) \<Longrightarrow> relay_lagged s cursor rl reg = Some (ms, rl', reg')
    \<Longrightarrow> relaying cdc ops s0 s rl' (ns @ ms)"

definition relay_ok :: "session \<Rightarrow> nat \<Rightarrow> relay \<Rightarrow> host_notice list \<Rightarrow> bool" where
  "relay_ok s n rl ns \<longleftrightarrow>
     n \<le> rl_next_seq rl \<and> rl_next_seq rl \<le> length (session_events s) \<and> log_position s (rl_cursor rl) \<le> rl_next_seq rl
     \<and> relayed ns = drop n (take (rl_next_seq rl) (session_events s))"

lemma append_under_gate_grows:
  assumes "append_under_gate cdc ops s e y cp = (Inr s', cp')"
  shows "length (session_events s') = Suc (length (session_events s))"
  using assms append_under_gate_extends(2) by (cases cp; cases cp') fastforce

lemma relay_missing_ok:
  assumes "relay_missing_events s rl reg = Some (ms, rl', reg')" and "running_ok cdc s" and "length (session_events s) \<le> u64_max"
    and "rl_next_seq rl \<le> length (session_events s)" and "n \<le> rl_next_seq rl"
    and "relayed ns = drop n (take (rl_next_seq rl) (session_events s))"
    and "log_position s (rl_cursor rl) \<le> length (session_events s)"
  shows "relay_ok s n rl' (ns @ ms)"
proof -
  let ?es = "session_events s" and ?k = "rl_next_seq rl"
  note num = running_numbered [OF assms(2)]
  from assms(1) obtain reg2 where run: "relay_events (session_id s) (owed ?k ?es) reg = Some (ms, reg2)"
    and rl': "rl' = rl\<lparr>rl_next_seq := next_owed ?k ?es\<rparr>" by (auto simp: relay_missing_events_def)
  have "relayed ms = drop ?k ?es" using relayed_events [OF run] owed_drop [OF num] by simp
  moreover have "drop n ?es = drop n (take ?k ?es) @ drop ?k ?es"
    using assms(4,5) by (metis append_take_drop_id diff_is_0_eq drop_0 drop_append length_take min.absorb2)
  ultimately show ?thesis
    using assms(4-7) rl' next_owed_length [OF num assms(4,3)] by (simp add: relay_ok_def)
qed

lemma relay_received_ok:
  assumes "relay_received s rl reg = Some (ms, rl', reg')" and ok: "relay_ok s n rl ns" and s: "running_ok cdc s"
    and "length (session_events s) \<le> u64_max" and c: "rl_cursor rl < length (ss_updates s)"
  shows "relay_ok s n rl' (ns @ ms)"
proof -
  let ?es = "session_events s" and ?p = "log_position s (rl_cursor rl)" and ?k = "rl_next_seq rl"
  from running_nth [OF s c] have e: "ss_updates s ! rl_cursor rl = ?es ! ?p" "?p < length ?es" by simp_all
  then have seq: "ev_seq (ss_updates s ! rl_cursor rl) = ?p" using running_numbered [OF s] by (simp add: log_numbered_def)
  have k: "?p \<le> ?k" "n \<le> ?k" "?k \<le> length ?es" and ns: "relayed ns = drop n (take ?k ?es)" using ok by (auto simp: relay_ok_def)
  have pos: "log_position s (Suc (rl_cursor rl)) = Suc ?p" by (simp add: log_position_def)
  show ?thesis
  proof (cases "?p = ?k")
    case True
    with assms(1) seq obtain reg2 where run: "relay_event (session_id s) (?es ! ?p) reg = Some (ms, reg2)"
      and rl': "rl' = rl\<lparr>rl_cursor := Suc (rl_cursor rl), rl_next_seq := saturating_next (Some ?p)\<rparr>"
      using e(1) by (auto simp: relay_received_def relay_one_def Let_def)
    have "saturating_next (Some ?p) = Suc ?k" using True e(2) assms(4) by (simp add: saturating_next_def)
    moreover have "drop n (take (Suc ?k) ?es) = drop n (take ?k ?es) @ [?es ! ?k]"
      using True e(2) k(2) by (simp add: take_Suc_conv_app_nth)
    ultimately show ?thesis using relayed_event [OF run] rl' True e(2) k ns pos by (simp add: relay_ok_def)
  next
    case False
    with k(1) have "?p < ?k" by simp
    with assms(1) seq have "ms = []" "rl' = rl\<lparr>rl_cursor := Suc (rl_cursor rl)\<rparr>"
      by (auto simp: relay_received_def relay_one_def Let_def)
    with \<open>?p < ?k\<close> k ns pos show ?thesis by (simp add: relay_ok_def)
  qed
qed

text \<open>C25: the relay neither loses, repeats nor reorders. From the moment it is set up, whatever the interleaving of appends,
  deliveries and lags, the events it has announced are those of the log after the starting point, in order and
  each once; when it has received the whole broadcast they are all of them.\<close>

theorem relay_announces_log_in_order:
  assumes "relaying cdc ops s0 s rl ns" and "running_ok cdc s0" and "length (session_events s) \<le> u64_max"
  shows "relayed ns = drop (length (session_events s0)) (take (rl_next_seq rl) (session_events s))
    \<and> length (session_events s0) \<le> rl_next_seq rl
    \<and> (rl_cursor rl = length (ss_updates s) \<longrightarrow> relayed ns = drop (length (session_events s0)) (session_events s))"
proof -
  let ?n = "length (session_events s0)"
  have "running_ok cdc s \<and> relay_ok s ?n rl ns"
    using assms(1,3)
  proof induction
    case (begun s1 s reg ns rl reg')
    from later_running [OF begun.hyps(1) assms(2)] obtain a where s1: "running_ok cdc s1" "session_events s1 = session_events s0 @ a" by auto
    from later_running [OF begun.hyps(2) s1(1)] obtain b where s: "running_ok cdc s" "session_events s = session_events s1 @ b"
      "\<And>c. log_position s c = log_position s1 c" by auto
    have "next_seq (session_events s0) = Inr ?n"
      by (rule numbered_next_seq [OF running_numbered [OF assms(2)]]) (use begun.prems s s1 in simp)
    then have "rl_next_seq (ensure_relay s0 s1) = ?n" by (simp add: ensure_relay_def)
    moreover have "log_position s (rl_cursor (ensure_relay s0 s1)) = length (session_events s1)"
      using s1(1) s(3) by (auto simp: ensure_relay_def log_position_def running_ok_def)
    ultimately have "relay_ok s ?n rl ([] @ ns)"
      by (intro relay_missing_ok [OF begun.hyps(3) s(1) begun.prems]) (use s s1 in simp_all)
    with s(1) show ?case by simp
  next
    case (grew s rl ns e y cp s' cp')
    from grew have s: "running_ok cdc s" "relay_ok s ?n rl ns"
      using append_under_gate_grows [OF grew.hyps(2)] by auto
    with append_running [OF grew.hyps(2) s(1)] show ?case by (auto simp: relay_ok_def)
  next
    case (received s rl ns reg ms rl' reg')
    then show ?case using relay_received_ok by blast
  next
    case (lagged s rl ns cursor reg ms rl' reg')
    then have ok: "running_ok cdc s" "relay_ok s ?n rl ns" by auto
    have "log_position s cursor \<le> length (session_events s)" using ok(1) lagged.hyps(2) by (auto simp: log_position_def running_ok_def)
    with relay_missing_ok [OF lagged.hyps(3)[unfolded relay_lagged_def] ok(1) lagged.prems, of ?n ns] ok show ?case
      by (auto simp: relay_ok_def)
  qed
  then show ?thesis by (auto simp: relay_ok_def running_ok_def log_position_def)
qed

definition opened_relay :: "host_notice list \<times> relay \<times> projection_registry" where
  "opened_relay = the (relay_missing_events opened_session (ensure_relay opened_session opened_session) attached_registry)"

definition grown_relay :: "host_notice list \<times> relay \<times> projection_registry" where
  "grown_relay = the (relay_received grown_session (fst (snd opened_relay)) (snd (snd opened_relay)))"

theorem relay_announces_log_in_order_witness:
  "relaying wire_codec (memory_persistence wire_codec) opened_session grown_session (fst (snd grown_relay)) (fst opened_relay @ fst grown_relay)
   \<and> relayed (fst opened_relay @ fst grown_relay) = [sample_note 2]"
proof -
  let ?R = "relaying wire_codec (memory_persistence wire_codec) opened_session"
  have some: "\<not> Option.is_none (relay_missing_events opened_session (ensure_relay opened_session opened_session) attached_registry)"
    "\<not> Option.is_none (relay_received grown_session (fst (snd opened_relay)) (snd (snd opened_relay)))"
    "rl_cursor (fst (snd opened_relay)) < length (ss_updates grown_session)"
    "rl_cursor (fst (snd grown_relay)) = length (ss_updates grown_session)" by code_simp+
  have one: "relay_missing_events opened_session (ensure_relay opened_session opened_session) attached_registry
      = Some (fst opened_relay, fst (snd opened_relay), snd (snd opened_relay))"
    using some(1) by (simp add: opened_relay_def Option.is_none_def)
  have two: "relay_received grown_session (fst (snd opened_relay)) (snd (snd opened_relay))
      = Some (fst grown_relay, fst (snd grown_relay), snd (snd grown_relay))"
    using some(2) by (simp add: grown_relay_def Option.is_none_def)
  from grown_session_appended obtain cp' where ap: "append_under_gate wire_codec (memory_persistence wire_codec) opened_session (sample_note 2) None
     (None, plain_memory) = (Inr grown_session, cp')" by blast
  have run: "?R grown_session (fst (snd grown_relay)) (fst opened_relay @ fst grown_relay)"
    by (rule relaying.received [OF relaying.grew [OF relaying.begun [OF later.same later.same one] ap] some(3) two])
  have "running_ok wire_codec opened_session" using opened_session_ok by (simp add: running_ok_def plain_session_def)
  moreover have "length (session_events grown_session) \<le> u64_max" by (simp add: plain_session_def plain_log_def u64_max_def)
  ultimately have "relayed (fst opened_relay @ fst grown_relay) = drop (length (session_events opened_session)) (session_events grown_session)"
    using relay_announces_log_in_order [OF run] some(4) by blast
  also have "\<dots> = [sample_note 2]" by (simp add: plain_session_def plain_log_def)
  finally show ?thesis using run by blast
qed

section \<open>Defects\<close>

abbreviation twice_grown :: session where
  "twice_grown \<equiv> plain_session plain_log [sample_note 2, sample_note 3]"

definition overtaken :: projection_registry where
  "overtaken = observe_event 0 twice_grown (observe_event 0 twice_grown
     (snd (snd (the (relay_received twice_grown (ensure_relay grown_session grown_session) attached_registry)))))"

text \<open>The relay can overtake the observer of the projections. The session is attached and an event is admitted before the relay
  reads its starting number; the next event reaches the relay first, which applies it. The observer then finds the
  first one already passed: with both broadcasts read to the end and no error recorded, the projection has the later event and
  lacks the earlier one, now and in every later state.\<close>

theorem relay_overtakes_observer:
  "fst (append_under_gate wire_codec (memory_persistence wire_codec) opened_session (sample_note 2) None (None, plain_memory)) = Inr grown_session
   \<and> pj_observers overtaken = [(''s1'', length (ss_updates twice_grown))]
   \<and> projection_last_error overtaken ''s1'' ''kinds'' = Inr None
   \<and> map_option (map_sum (\<lambda>e. e) (\<lambda>n. (pn_as_of n, pn_state n))) (snapshot_as_of overtaken ''s1'' ''kinds'' None)
       = Some (Inr (Some 3, JArr [JStr ''turn/start'', JStr ''step/start'', JStr ''step/end'']))
   \<and> value_at kinds_projection (ss_header twice_grown) (session_events twice_grown) 4
       = Inr (JArr [JStr ''turn/start'', JStr ''step/start'', JStr ''step/end'', JStr ''step/end''])"
  by (intro conjI; code_simp)

text \<open>A projection whose callback rejects the end of a step, registered under a key before \<open>kinds\<close>.\<close>

definition strict_projection :: projection_definition where
  "strict_projection = \<lparr>pd_key = ''a'', pd_version = 1, pd_init = (\<lambda>_. Inr JNull),
     pd_apply = (\<lambda>v e. if ev_type e = ''step/end'' then Inl (PjCallback ''rejected'') else Inr v), pd_view = Inr\<rparr>"

abbreviation reopened :: session where
  "reopened \<equiv> plain_session plain_log [sample_note 2, sample_event ''step/start'' 3 JNull]"

definition strict_registry :: projection_registry where
  "strict_registry = observe_event 0 reopened (observe_event 0 reopened (snd (projection_attach opened_session opened_session
     (snd (projection_register strict_projection kinds_registry)))))"

text \<open>One failing callback damages the others. An event rejected by the projection \<open>a\<close> is not applied to \<open>kinds\<close>,
  whose callback never fails; the event after it is. The projection \<open>kinds\<close> has skipped an event for good.\<close>

theorem failing_callback_skips_others:
  "pj_observers strict_registry = [(''s1'', length (ss_updates reopened))]
   \<and> map_option (map_sum (\<lambda>e. e) (\<lambda>n. (pn_as_of n, pn_state n))) (snapshot_as_of strict_registry ''s1'' ''kinds'' None)
       = Some (Inr (Some 3, JArr [JStr ''turn/start'', JStr ''step/start'', JStr ''step/start'']))
   \<and> value_at kinds_projection (ss_header reopened) (session_events reopened) 4
       = Inr (JArr [JStr ''turn/start'', JStr ''step/start'', JStr ''step/end'', JStr ''step/start''])"
  by (intro conjI; code_simp)

text \<open>A projection restored from a checkpoint has no frame before it: the snapshot as of an earlier event panics.\<close>

theorem earlier_snapshot_panics:
  "fst (projection_restore grown_session kinds_checkpoint (pw_registry kinds_world)) = Inr ()
   \<and> snapshot_as_of (snd (projection_restore grown_session kinds_checkpoint (pw_registry kinds_world))) ''s1'' ''kinds'' (Some 0) = None"
proof
  show "fst (projection_restore grown_session kinds_checkpoint (pw_registry kinds_world)) = Inr ()" by code_simp
  have "Option.is_none (snapshot_as_of (snd (projection_restore grown_session kinds_checkpoint (pw_registry kinds_world))) ''s1'' ''kinds'' (Some 0))"
    by code_simp
  then show "snapshot_as_of (snd (projection_restore grown_session kinds_checkpoint (pw_registry kinds_world))) ''s1'' ''kinds'' (Some 0) = None"
    by (simp add: Option.is_none_def)
qed

end
