(* ===== verification/Questions.thy ===== *)
theory Questions
  imports Planning Agent_Registry
begin

text \<open>
  The question registry of \<open>src/src/question.rs\<close>: the slots of the live agents, the pending requests, the browser's
  answers and cancellations, and the tool call that asks. A call is a process: it is cut at the points where it waits or
  where another thread may run, and its phase is what it has still to do. The one-shot channel of a request is the
  value its sender has left; the receiver is gone once the call has stopped waiting. Durable events are written
  through the session; the number of an event is read before the append.
\<close>

section \<open>Data\<close>

datatype question_outcome = QuestionAnswered | QuestionCancelled

datatype question_reply = ReplyAnswered "answer_item list" | ReplyCancelled

record question_asked =
  qa_rpc_id :: string
  qa_session :: string
  qa_turn :: u64
  qa_call :: string
  qa_questions :: "question_item list"

record question_resolved =
  qr_rpc_id :: string
  qr_turn :: u64
  qr_outcome :: question_outcome
  qr_answer :: "answer_item list option"

record question_requested =
  qq_rpc_id :: string
  qq_session :: string
  qq_questions :: "question_item list"

datatype question_notification =
    QuestionRequestedNotice question_requested
  | QuestionResolvedNotice string string question_outcome

record pending_question =
  pq_requested :: question_requested
  pq_authority :: agent_authority
  pq_turn :: u64

datatype rpc_receipt = Accepted | NotPending | BadResponse

text \<open>The phases of a call: the slot has been read, the request is registered, the request is recorded and awaited, the
  outcome is decided, and the call has returned.\<close>

datatype ask_phase =
    AskChecked
  | AskRegistered
  | AskWaiting
  | AskDecided question_outcome "answer_item list option"
  | AskReturned "tessivum_error + answer_item list"

record ask =
  ak_session :: string
  ak_call :: string
  ak_questions :: "question_item list"
  ak_authority :: agent_authority
  ak_turn :: u64
  ak_channel :: "question_reply option"
  ak_cancelled :: bool
  ak_phase :: ask_phase

record 'p question_world =
  qw_agents :: registry
  qw_sessions :: "string \<rightharpoonup> session"
  qw_disk :: 'p
  qw_slots :: "(string \<times> agent_authority) list"
  qw_entries :: "(string \<times> pending_question) list"
  qw_order :: "string list"
  qw_asks :: "(string \<times> ask) list"
  qw_notices :: "question_notification list"

record question_codec =
  qc_asked_to :: "question_asked \<Rightarrow> json"
  qc_resolved_to :: "question_resolved \<Rightarrow> json"
  qc_arguments_from :: "json \<Rightarrow> string + question_item list"
  qc_answer_text :: "answer_item list \<Rightarrow> string"
  qc_show :: "session_error \<Rightarrow> string"

definition question_error :: "string \<Rightarrow> string \<Rightarrow> json \<Rightarrow> tessivum_error" where
  "question_error code message details = tessivum_error_new code message ''question'' details"

section \<open>Checks\<close>

definition option_labels :: "question_item \<Rightarrow> string list" where
  "option_labels q = (case qi_options q of None \<Rightarrow> [] | Some os \<Rightarrow> map qo_label os)"

fun validate_intents :: "question_item list \<Rightarrow> tessivum_error option" where
  "validate_intents [] = None"
| "validate_intents (q # qs) =
     (case qi_intent_approve q of
        None \<Rightarrow> validate_intents qs
      | Some approve \<Rightarrow>
          if approve \<notin> set (option_labels q) \<or> qi_detail q = None
          then Some (question_error ''BAD_INTENT'' ''question intent must name one of its options and include detail''
                 (obj [(''questionId'', JStr (qi_id q))]))
          else validate_intents qs)"

definition matches_one :: "answer_item \<Rightarrow> question_item \<Rightarrow> bool" where
  "matches_one a q \<longleftrightarrow>
     an_id a = qi_id q
     \<and> card (set (an_selected a)) = length (an_selected a)
     \<and> (case an_custom a of None \<Rightarrow> True | Some custom \<Rightarrow> \<not> blank custom)
     \<and> (qi_multi_select q = Some True
        \<or> length (an_selected a) \<le> 1 \<and> (an_custom a = None \<or> an_selected a = []))
     \<and> list_all (\<lambda>s. s \<in> set (option_labels q)) (an_selected a)"

definition matches_answer :: "answer_item list \<Rightarrow> question_item list \<Rightarrow> bool" where
  "matches_answer answers qs \<longleftrightarrow> length answers = length qs \<and> list_all (\<lambda>(a, q). matches_one a q) (zip answers qs)"

definition active_turn :: "session_event list \<Rightarrow> u64 option" where
  "active_turn es = foldl (\<lambda>active e.
     if ev_type e = ''turn/start'' then get_u64 ''turn'' (ev_data e)
     else if ev_type e = ''turn/end'' then None else active) None es"

definition session_turn :: "'p question_world \<Rightarrow> string \<Rightarrow> u64 option" where
  "session_turn w x = Option.bind (qw_sessions w x) (\<lambda>s. active_turn (session_events s))"

section \<open>Slots\<close>

definition caller_not_live :: tessivum_error where
  "caller_not_live = question_error ''CALLER_NOT_LIVE'' ''human interaction requires the exact live calling agent'' JNull"

definition question_install :: "agent_authority \<Rightarrow> string \<Rightarrow> 'p question_world \<Rightarrow> (tessivum_error + unit) \<times> 'p question_world" where
  "question_install au x w =
     (if \<not> authority_live au (qw_agents w) \<or> au_id au \<noteq> x then (Inl caller_not_live, w)
      else if map_of (qw_slots w) x \<noteq> None
      then (Inl (question_error ''DUPLICATE_PROVIDER'' ''a user-questions provider is already registered for this session'' JNull), w)
      else (Inr (), w\<lparr>qw_slots := bt_insert x au (qw_slots w)\<rparr>))"

definition is_live_owner :: "string \<Rightarrow> 'p question_world \<Rightarrow> bool" where
  "is_live_owner x w = (case map_of (qw_slots w) x of None \<Rightarrow> False | Some au \<Rightarrow> authority_live au (qw_agents w))"

section \<open>Pending requests\<close>

definition requests :: "'p question_world \<Rightarrow> question_requested list" where
  "requests w = map pq_requested (List.map_filter (map_of (qw_entries w)) (qw_order w))"

definition question_is_pending :: "string \<Rightarrow> 'p question_world \<Rightarrow> bool" where
  "question_is_pending rpc w \<longleftrightarrow> map_of (qw_entries w) rpc \<noteq> None"

definition remove_pending :: "string \<Rightarrow> 'p question_world \<Rightarrow> 'p question_world" where
  "remove_pending rpc w = w\<lparr>qw_entries := bt_remove rpc (qw_entries w), qw_order := filter (\<lambda>r. r \<noteq> rpc) (qw_order w)\<rparr>"

definition set_ask :: "string \<Rightarrow> (ask \<Rightarrow> ask) \<Rightarrow> 'p question_world \<Rightarrow> 'p question_world" where
  "set_ask rpc f w =
     (case map_of (qw_asks w) rpc of None \<Rightarrow> w | Some a \<Rightarrow> w\<lparr>qw_asks := bt_insert rpc (f a) (qw_asks w)\<rparr>)"

text \<open>Sending fails when the receiver is gone.\<close>

definition listening :: "ask \<Rightarrow> bool" where
  "listening a \<longleftrightarrow> ak_phase a = AskRegistered \<or> ak_phase a = AskWaiting"

definition send_reply :: "string \<Rightarrow> question_reply \<Rightarrow> 'p question_world \<Rightarrow> bool \<times> 'p question_world" where
  "send_reply rpc reply w =
     (case map_of (qw_asks w) rpc of
        None \<Rightarrow> (False, w)
      | Some a \<Rightarrow> if listening a then (True, set_ask rpc (\<lambda>a. a\<lparr>ak_channel := Some reply\<rparr>) w) else (False, w))"

definition claim_and_send :: "string \<Rightarrow> question_reply \<Rightarrow> 'p question_world \<Rightarrow> rpc_receipt \<times> 'p question_world" where
  "claim_and_send rpc reply w =
     (case send_reply rpc reply (remove_pending rpc w) of
        (sent, w') \<Rightarrow> (if sent then Accepted else NotPending, w'))"

definition respond_answer :: "string \<Rightarrow> string \<Rightarrow> answer_item list \<Rightarrow> 'p question_world \<Rightarrow> rpc_receipt \<times> 'p question_world" where
  "respond_answer rpc x answer w =
     (case map_of (qw_entries w) rpc of
        None \<Rightarrow> (NotPending, w)
      | Some entry \<Rightarrow>
          if qq_session (pq_requested entry) \<noteq> x \<or> \<not> matches_answer answer (qq_questions (pq_requested entry))
          then (BadResponse, w)
          else claim_and_send rpc (ReplyAnswered answer) w)"

definition respond_cancelled :: "string \<Rightarrow> 'p question_world \<Rightarrow> rpc_receipt \<times> 'p question_world" where
  "respond_cancelled rpc w =
     (if map_of (qw_entries w) rpc = None then (NotPending, w) else claim_and_send rpc ReplyCancelled w)"

fun send_each :: "string list \<Rightarrow> 'p question_world \<Rightarrow> 'p question_world" where
  "send_each [] w = w"
| "send_each (rpc # rpcs) w = send_each rpcs (snd (send_reply rpc ReplyCancelled w))"

definition questions_cancel_where :: "(pending_question \<Rightarrow> bool) \<Rightarrow> 'p question_world \<Rightarrow> 'p question_world" where
  "questions_cancel_where P w =
     (let ids = filter (\<lambda>rpc. case map_of (qw_entries w) rpc of None \<Rightarrow> False | Some e \<Rightarrow> P e) (qw_order w);
          entries = filter (\<lambda>(rpc, e). rpc \<notin> set ids) (qw_entries w)
      in send_each ids (w\<lparr>qw_entries := entries, qw_order := filter (\<lambda>rpc. rpc \<in> fst ` set entries) (qw_order w)\<rparr>))"

definition questions_cancel_session :: "string \<Rightarrow> 'p question_world \<Rightarrow> 'p question_world" where
  "questions_cancel_session x = questions_cancel_where (\<lambda>e. qq_session (pq_requested e) = x)"

definition questions_cancel_turn :: "string \<Rightarrow> u64 \<Rightarrow> 'p question_world \<Rightarrow> 'p question_world" where
  "questions_cancel_turn x turn = questions_cancel_where (\<lambda>e. qq_session (pq_requested e) = x \<and> pq_turn e = turn)"

definition questions_cancel_all :: "'p question_world \<Rightarrow> 'p question_world" where
  "questions_cancel_all = questions_cancel_where (\<lambda>_. True)"

text \<open>The registration of a slot; \<open>closed\<close> is its flag.\<close>

definition question_close :: "agent_authority \<Rightarrow> bool \<Rightarrow> 'p question_world \<Rightarrow> bool \<times> 'p question_world" where
  "question_close au already w =
     (if already then (False, w)
      else if map_of (qw_slots w) (au_id au) = Some au
      then (True, questions_cancel_where (\<lambda>e. pq_authority e = au) (w\<lparr>qw_slots := bt_remove (au_id au) (qw_slots w)\<rparr>))
      else (False, w))"

section \<open>A call\<close>

definition ask_check ::
  "string \<Rightarrow> string \<Rightarrow> question_item list \<Rightarrow> bool \<Rightarrow> 'p question_world \<Rightarrow> tessivum_error + (agent_authority \<times> u64)" where
  "ask_check x call qs cancelled w =
     and_then (ensure (qs \<noteq> []) (question_error ''EMPTY_QUESTIONS'' ''ask_user_question requires at least one question'' JNull)) (\<lambda>_.
     and_then (case validate_intents qs of None \<Rightarrow> Inr () | Some e \<Rightarrow> Inl e) (\<lambda>_.
     and_then (ensure (\<not> cancelled) (question_error ''ASK_ABORTED'' ''ask_user_question was aborted before the user answered'' JNull)) (\<lambda>_.
     and_then (ok_or (question_error ''ASK_MISSING_AGENT'' ''web user interaction requires an agent-owned session'' JNull)
                 (map_of (qw_slots w) x)) (\<lambda>au.
     and_then (ensure (authority_live au (qw_agents w)) caller_not_live) (\<lambda>_.
     and_then (ok_or (question_error ''NO_ACTIVE_TURN'' ''ask_user_question requires an active turn'' JNull) (session_turn w x)) (\<lambda>turn.
     Inr (au, turn)))))))"

definition ask_begin ::
  "string \<Rightarrow> string \<Rightarrow> string \<Rightarrow> question_item list \<Rightarrow> bool \<Rightarrow> 'p question_world \<Rightarrow> (tessivum_error + unit) \<times> 'p question_world" where
  "ask_begin rpc x call qs cancelled w =
     (case ask_check x call qs cancelled w of
        Inl e \<Rightarrow> (Inl e, w)
      | Inr (au, turn) \<Rightarrow>
          (Inr (), w\<lparr>qw_asks := bt_insert rpc \<lparr>ak_session = x, ak_call = call, ak_questions = qs, ak_authority = au, ak_turn = turn,
             ak_channel = None, ak_cancelled = cancelled, ak_phase = AskChecked\<rparr> (qw_asks w)\<rparr>))"

definition return_ask :: "string \<Rightarrow> tessivum_error + answer_item list \<Rightarrow> 'p question_world \<Rightarrow> 'p question_world" where
  "return_ask rpc r w = set_ask rpc (\<lambda>a. a\<lparr>ak_phase := AskReturned r\<rparr>) w"

definition ask_requested :: "string \<Rightarrow> ask \<Rightarrow> question_requested" where
  "ask_requested rpc a = \<lparr>qq_rpc_id = rpc, qq_session = ak_session a, qq_questions = ak_questions a\<rparr>"

definition ask_register :: "string \<Rightarrow> ask \<Rightarrow> 'p question_world \<Rightarrow> 'p question_world" where
  "ask_register rpc a w =
     (case map_of (qw_slots w) (ak_session a) of
        None \<Rightarrow> return_ask rpc (Inl (question_error ''ASK_MISSING_AGENT'' ''web user interaction requires an agent-owned session'' JNull)) w
      | Some au \<Rightarrow>
          if au \<noteq> ak_authority a \<or> \<not> authority_live (ak_authority a) (qw_agents w) \<or> session_turn w (ak_session a) \<noteq> Some (ak_turn a)
          then return_ask rpc (Inl caller_not_live) w
          else set_ask rpc (\<lambda>a. a\<lparr>ak_phase := AskRegistered\<rparr>)
            (w\<lparr>qw_order := qw_order w @ [rpc],
               qw_entries := bt_insert rpc \<lparr>pq_requested = ask_requested rpc a, pq_authority = ak_authority a, pq_turn = ak_turn a\<rparr> (qw_entries w)\<rparr>))"

definition question_event :: "string \<Rightarrow> u64 \<Rightarrow> json \<Rightarrow> session_event" where
  "question_event t seq data = \<lparr>ev_type = t, ev_seq = seq, ev_time = 0, ev_data = data, ev_ignorable = Some True, ev_sources = None,
     ev_surface_op = None\<rparr>"

text \<open>\<open>read\<close> is the session as it was when the number of the event was taken.\<close>

definition question_append ::
  "codec \<Rightarrow> 'p persistence \<Rightarrow> string \<Rightarrow> session \<Rightarrow> session \<Rightarrow> json \<Rightarrow> cancel \<Rightarrow> 'p question_world
     \<Rightarrow> (session_error + unit) \<times> 'p question_world" where
  "question_append cdc ops t read s data c w =
     (case next_seq (session_events read) of
        Inl e \<Rightarrow> (Inl e, w)
      | Inr n \<Rightarrow>
          (case session_append cdc ops s (question_event t n data) (c, qw_disk w) of
             (Inl e, _, p) \<Rightarrow> (Inl e, w\<lparr>qw_disk := p\<rparr>)
           | (Inr s', _, p) \<Rightarrow> (Inr (), w\<lparr>qw_disk := p, qw_sessions := (qw_sessions w)(session_id s \<mapsto> s')\<rparr>)))"

definition persistence_failed :: "question_codec \<Rightarrow> string \<Rightarrow> session_error \<Rightarrow> tessivum_error" where
  "persistence_failed qc what e = question_error ''QUESTION_PERSISTENCE_FAILED'' what (obj [(''cause'', JStr (qc_show qc e))])"

definition ask_record ::
  "codec \<Rightarrow> 'p persistence \<Rightarrow> question_codec \<Rightarrow> string \<Rightarrow> ask \<Rightarrow> session \<Rightarrow> session \<Rightarrow> cancel \<Rightarrow> 'p question_world \<Rightarrow> 'p question_world" where
  "ask_record cdc ops qc rpc a read s c w =
     (case question_append cdc ops ''question/asked'' read s (qc_asked_to qc \<lparr>qa_rpc_id = rpc, qa_session = ak_session a,
         qa_turn = ak_turn a, qa_call = ak_call a, qa_questions = ak_questions a\<rparr>) c w of
        (Inl e, w') \<Rightarrow> return_ask rpc (Inl (persistence_failed qc ''could not persist ask_user_question'' e)) (remove_pending rpc w')
      | (Inr _, w') \<Rightarrow>
          set_ask rpc (\<lambda>a. a\<lparr>ak_phase := AskWaiting\<rparr>)
            (w'\<lparr>qw_notices := qw_notices w' @ [QuestionRequestedNotice (ask_requested rpc a)]\<rparr>))"

text \<open>What the call finds when it wakes: cancellation first, then the channel, which is closed when its sender is gone from the
  pending requests unused; it stays asleep as long as both are silent.\<close>

definition ask_reply :: "string \<Rightarrow> ask \<Rightarrow> 'p question_world \<Rightarrow> question_reply option" where
  "ask_reply rpc a w =
     (if ak_cancelled a then Some ReplyCancelled
      else case ak_channel a of
        Some reply \<Rightarrow> Some reply
      | None \<Rightarrow> if question_is_pending rpc w then None else Some ReplyCancelled)"

definition decide_outcome :: "ask \<Rightarrow> question_reply \<Rightarrow> 'p question_world \<Rightarrow> question_outcome \<times> answer_item list option" where
  "decide_outcome a reply w =
     (case reply of
        ReplyAnswered answer \<Rightarrow>
          if \<not> ak_cancelled a \<and> session_turn w (ak_session a) = Some (ak_turn a) \<and> is_live_owner (ak_session a) w
          then (QuestionAnswered, Some answer) else (QuestionCancelled, None)
      | ReplyCancelled \<Rightarrow> (QuestionCancelled, None))"

definition ask_wake :: "string \<Rightarrow> ask \<Rightarrow> 'p question_world \<Rightarrow> 'p question_world option" where
  "ask_wake rpc a w =
     map_option (\<lambda>reply. case decide_outcome a reply w of (outcome, answer) \<Rightarrow>
       set_ask rpc (\<lambda>a. a\<lparr>ak_phase := AskDecided outcome answer\<rparr>) w) (ask_reply rpc a w)"

definition ask_resolve ::
  "codec \<Rightarrow> 'p persistence \<Rightarrow> question_codec \<Rightarrow> string \<Rightarrow> ask \<Rightarrow> question_outcome \<Rightarrow> answer_item list option
     \<Rightarrow> session \<Rightarrow> session \<Rightarrow> 'p question_world \<Rightarrow> 'p question_world" where
  "ask_resolve cdc ops qc rpc a outcome answer read s w =
     (case question_append cdc ops ''question/resolved'' read s (qc_resolved_to qc \<lparr>qr_rpc_id = rpc, qr_turn = ak_turn a,
         qr_outcome = outcome, qr_answer = answer\<rparr>) None w of
        (Inl e, w') \<Rightarrow>
          return_ask rpc (Inl (persistence_failed qc ''could not persist ask_user_question resolution'' e)) (remove_pending rpc w')
      | (Inr _, w') \<Rightarrow>
          return_ask rpc (ok_or (question_error ''ASK_CANCELLED'' ''the user cancelled ask_user_question'' JNull) answer)
            (let w2 = remove_pending rpc w' in w2\<lparr>qw_notices := qw_notices w2 @ [QuestionResolvedNotice rpc (ak_session a) outcome]\<rparr>))"

text \<open>The tool around the call.\<close>

definition question_arguments :: "question_codec \<Rightarrow> json \<Rightarrow> tessivum_error + question_item list" where
  "question_arguments qc args =
     map_err (\<lambda>cause. question_error ''INVALID_TOOL_ARGUMENTS'' ''ask_user_question arguments are invalid'' (obj [(''cause'', JStr cause)]))
       (qc_arguments_from qc args)"

definition question_output :: "question_codec \<Rightarrow> answer_item list \<Rightarrow> tool_output" where
  "question_output qc answer = \<lparr>to_content = [Text (qc_answer_text qc answer)], to_is_error = False, to_meta = JNull\<rparr>"

end
