(* ===== verification/Question_Properties.thy ===== *)
theory Question_Properties
  imports Questions Session_Growth
begin

text \<open>
  All interleavings of calls, browser responses, cancellations, slots and other writers of the sessions. A run collects the
  responses that were receipted as accepted.
\<close>

section \<open>The system\<close>

definition accept_if :: "rpc_receipt \<Rightarrow> string \<Rightarrow> question_reply \<Rightarrow> (string \<times> question_reply) list" where
  "accept_if receipt rpc reply = (if receipt = Accepted then [(rpc, reply)] else [])"

inductive question_run ::
  "codec \<Rightarrow> 'p persistence \<Rightarrow> question_codec \<Rightarrow> (string \<times> question_reply) list \<Rightarrow> 'p question_world \<Rightarrow> bool" for cdc ops qc where
  start: "question_run cdc ops qc [] \<lparr>qw_agents = r, qw_sessions = Map.empty, qw_disk = p, qw_slots = [], qw_entries = [], qw_order = [],
    qw_asks = [], qw_notices = []\<rparr>"
| agents: "question_run cdc ops qc acc w \<Longrightarrow> question_run cdc ops qc acc (w\<lparr>qw_agents := r\<rparr>)"
| opened: "question_run cdc ops qc acc w \<Longrightarrow> qw_sessions w (session_id s) = None \<Longrightarrow> session_ok cdc s
    \<Longrightarrow> question_run cdc ops qc acc (w\<lparr>qw_sessions := (qw_sessions w)(session_id s \<mapsto> s)\<rparr>)"
| grew: "question_run cdc ops qc acc w \<Longrightarrow> qw_sessions w x = Some s \<Longrightarrow> append_under_gate cdc ops s e y (c, qw_disk w) = (Inr s', c', p)
    \<Longrightarrow> question_run cdc ops qc acc (w\<lparr>qw_sessions := (qw_sessions w)(x \<mapsto> s'), qw_disk := p\<rparr>)"
| installed: "question_run cdc ops qc acc w \<Longrightarrow> question_install au x w = (r, w') \<Longrightarrow> question_run cdc ops qc acc w'"
| closed_slot: "question_run cdc ops qc acc w \<Longrightarrow> question_close au already w = (b, w') \<Longrightarrow> question_run cdc ops qc acc w'"
| answered: "question_run cdc ops qc acc w \<Longrightarrow> respond_answer rpc x answer w = (receipt, w')
    \<Longrightarrow> question_run cdc ops qc (acc @ accept_if receipt rpc (ReplyAnswered answer)) w'"
| dismissed: "question_run cdc ops qc acc w \<Longrightarrow> respond_cancelled rpc w = (receipt, w')
    \<Longrightarrow> question_run cdc ops qc (acc @ accept_if receipt rpc ReplyCancelled) w'"
| swept: "question_run cdc ops qc acc w \<Longrightarrow> question_run cdc ops qc acc (questions_cancel_where P w)"
| aborted: "question_run cdc ops qc acc w \<Longrightarrow> question_run cdc ops qc acc (set_ask rpc (\<lambda>a. a\<lparr>ak_cancelled := True\<rparr>) w)"
| began: "question_run cdc ops qc acc w \<Longrightarrow> map_of (qw_asks w) rpc = None \<Longrightarrow> ask_begin rpc x call qs cancelled w = (r, w')
    \<Longrightarrow> question_run cdc ops qc acc w'"
| registered: "question_run cdc ops qc acc w \<Longrightarrow> map_of (qw_asks w) rpc = Some a \<Longrightarrow> ak_phase a = AskChecked
    \<Longrightarrow> question_run cdc ops qc acc (ask_register rpc a w)"
| recorded: "question_run cdc ops qc acc w \<Longrightarrow> map_of (qw_asks w) rpc = Some a \<Longrightarrow> ak_phase a = AskRegistered
    \<Longrightarrow> qw_sessions w (ak_session a) = Some s \<Longrightarrow> later cdc ops read s \<Longrightarrow> question_run cdc ops qc acc (ask_record cdc ops qc rpc a read s c w)"
| woken: "question_run cdc ops qc acc w \<Longrightarrow> map_of (qw_asks w) rpc = Some a \<Longrightarrow> ak_phase a = AskWaiting \<Longrightarrow> ask_wake rpc a w = Some w'
    \<Longrightarrow> question_run cdc ops qc acc w'"
| resolved: "question_run cdc ops qc acc w \<Longrightarrow> map_of (qw_asks w) rpc = Some a \<Longrightarrow> ak_phase a = AskDecided outcome answer
    \<Longrightarrow> qw_sessions w (ak_session a) = Some s \<Longrightarrow> later cdc ops read s
    \<Longrightarrow> question_run cdc ops qc acc (ask_resolve cdc ops qc rpc a outcome answer read s w)"

section \<open>The invariant\<close>

text \<open>The durable record of a request and of its resolution.\<close>

definition asked_in :: "question_codec \<Rightarrow> string \<Rightarrow> ask \<Rightarrow> session_event \<Rightarrow> bool" where
  "asked_in qc rpc a e \<longleftrightarrow> ev_type e = ''question/asked'' \<and> ev_data e = qc_asked_to qc \<lparr>qa_rpc_id = rpc, qa_session = ak_session a,
     qa_turn = ak_turn a, qa_call = ak_call a, qa_questions = ak_questions a\<rparr>"

definition resolved_in :: "question_codec \<Rightarrow> string \<Rightarrow> ask \<Rightarrow> answer_item list option \<Rightarrow> session_event \<Rightarrow> bool" where
  "resolved_in qc rpc a answer e \<longleftrightarrow> ev_type e = ''question/resolved'' \<and> ev_data e = qc_resolved_to qc \<lparr>qr_rpc_id = rpc, qr_turn = ak_turn a,
     qr_outcome = (if answer = None then QuestionCancelled else QuestionAnswered), qr_answer = answer\<rparr>"

definition log_of :: "'p question_world \<Rightarrow> string \<Rightarrow> session_event list" where
  "log_of w x = (case qw_sessions w x of None \<Rightarrow> [] | Some s \<Rightarrow> session_events s)"

definition recorded_pair :: "question_codec \<Rightarrow> string \<Rightarrow> ask \<Rightarrow> answer_item list option \<Rightarrow> session_event list \<Rightarrow> bool" where
  "recorded_pair qc rpc a answer es \<longleftrightarrow> (\<exists>before between after e f. es = before @ e # between @ f # after
     \<and> asked_in qc rpc a e \<and> resolved_in qc rpc a answer f)"

definition channel_ok :: "(string \<times> question_reply) list \<Rightarrow> string \<Rightarrow> ask \<Rightarrow> bool" where
  "channel_ok acc rpc a \<longleftrightarrow>
     (\<forall>answer. ak_channel a = Some (ReplyAnswered answer) \<longrightarrow>
        matches_answer answer (ak_questions a) \<and> (rpc, ReplyAnswered answer) \<in> set acc)"

definition entry_of :: "string \<Rightarrow> ask \<Rightarrow> pending_question" where
  "entry_of rpc a = \<lparr>pq_requested = ask_requested rpc a, pq_authority = ak_authority a, pq_turn = ak_turn a\<rparr>"

fun phase_ok :: "question_codec \<Rightarrow> string \<Rightarrow> ask \<Rightarrow> bool \<Rightarrow> session_event list \<Rightarrow> ask_phase \<Rightarrow> bool" where
  "phase_ok qc rpc a pending es AskChecked \<longleftrightarrow> \<not> pending \<and> ak_channel a = None"
| "phase_ok qc rpc a pending es AskRegistered \<longleftrightarrow> pending = (ak_channel a = None)"
| "phase_ok qc rpc a pending es AskWaiting \<longleftrightarrow> pending = (ak_channel a = None) \<and> (\<exists>e\<in>set es. asked_in qc rpc a e)"
| "phase_ok qc rpc a pending es (AskDecided outcome answer) \<longleftrightarrow>
     (outcome = (if answer = None then QuestionCancelled else QuestionAnswered))
     \<and> (answer \<noteq> None \<longrightarrow> ak_channel a = map_option ReplyAnswered answer) \<and> (\<exists>e\<in>set es. asked_in qc rpc a e)"
| "phase_ok qc rpc a pending es (AskReturned r) \<longleftrightarrow>
     \<not> pending \<and> (\<forall>answer. r = Inr answer \<longrightarrow> ak_channel a = Some (ReplyAnswered answer) \<and> recorded_pair qc rpc a (Some answer) es)"

definition ask_ok :: "question_codec \<Rightarrow> (string \<times> question_reply) list \<Rightarrow> 'p question_world \<Rightarrow> string \<Rightarrow> ask \<Rightarrow> bool" where
  "ask_ok qc acc w rpc a \<longleftrightarrow>
     channel_ok acc rpc a \<and> phase_ok qc rpc a (map_of (qw_entries w) rpc \<noteq> None) (log_of w (ak_session a)) (ak_phase a)
     \<and> (map_of (qw_entries w) rpc \<noteq> None \<longrightarrow> map_of (qw_entries w) rpc = Some (entry_of rpc a))"

definition questions_ok :: "codec \<Rightarrow> question_codec \<Rightarrow> (string \<times> question_reply) list \<Rightarrow> 'p question_world \<Rightarrow> bool" where
  "questions_ok cdc qc acc w \<longleftrightarrow>
     distinct (qw_order w) \<and> set (qw_order w) = dom (map_of (qw_entries w)) \<and> distinct (map fst acc)
     \<and> (\<forall>rpc e. map_of (qw_entries w) rpc = Some e \<longrightarrow> (\<exists>a. map_of (qw_asks w) rpc = Some a))
     \<and> (\<forall>rpc a. map_of (qw_asks w) rpc = Some a \<longrightarrow> ask_ok qc acc w rpc a)
     \<and> (\<forall>rpc. rpc \<in> fst ` set acc \<longrightarrow>
          map_of (qw_entries w) rpc = None \<and> (\<exists>a. map_of (qw_asks w) rpc = Some a \<and> ak_phase a \<noteq> AskChecked))
     \<and> (\<forall>x s. qw_sessions w x = Some s \<longrightarrow> session_id s = x)"

section \<open>Frame\<close>

lemma recorded_pair_grow: "recorded_pair qc rpc a ans es \<Longrightarrow> recorded_pair qc rpc a ans (es @ added)"
  unfolding recorded_pair_def by (metis append.assoc append_Cons)

lemma phase_ok_grow: "phase_ok qc rpc a b es ph \<Longrightarrow> phase_ok qc rpc a b (es @ added) ph"
  by (cases ph) (auto intro: recorded_pair_grow)

lemma ask_ok_frame:
  assumes "ask_ok qc acc w rpc a" and "map_of (qw_entries w') rpc = map_of (qw_entries w) rpc"
    and "log_of w' (ak_session a) = log_of w (ak_session a) @ added" and "set acc \<subseteq> set acc'"
  shows "ask_ok qc acc' w' rpc a"
  using assms phase_ok_grow by (auto simp: ask_ok_def channel_ok_def)

definition logs_extend :: "'p question_world \<Rightarrow> 'p question_world \<Rightarrow> bool" where
  "logs_extend w w' \<longleftrightarrow> (\<forall>x. \<exists>added. log_of w' x = log_of w x @ added) \<and> (\<forall>x s. qw_sessions w' x = Some s \<longrightarrow> session_id s = x)"

lemma questions_okD:
  assumes "questions_ok cdc qc acc w"
  shows "distinct (qw_order w)" "set (qw_order w) = dom (map_of (qw_entries w))"
    "map_of (qw_entries w) rpc = Some e \<Longrightarrow> \<exists>a. map_of (qw_asks w) rpc = Some a"
    "map_of (qw_asks w) rpc = Some a \<Longrightarrow> ask_ok qc acc w rpc a"
    "distinct (map fst acc)" "rpc \<in> fst ` set acc \<Longrightarrow> map_of (qw_entries w) rpc = None \<and> (\<exists>a. map_of (qw_asks w) rpc = Some a \<and> ak_phase a \<noteq> AskChecked)"
    "qw_sessions w x = Some s \<Longrightarrow> session_id s = x"
  using assms unfolding questions_ok_def by simp_all

lemma questions_okI:
  assumes "distinct (qw_order w)" "set (qw_order w) = dom (map_of (qw_entries w))" "distinct (map fst acc)"
    "\<And>rpc e. map_of (qw_entries w) rpc = Some e \<Longrightarrow> \<exists>a. map_of (qw_asks w) rpc = Some a"
    "\<And>rpc a. map_of (qw_asks w) rpc = Some a \<Longrightarrow> ask_ok qc acc w rpc a"
    "\<And>rpc. rpc \<in> fst ` set acc \<Longrightarrow> map_of (qw_entries w) rpc = None \<and> (\<exists>a. map_of (qw_asks w) rpc = Some a \<and> ak_phase a \<noteq> AskChecked)"
    "\<And>x s. qw_sessions w x = Some s \<Longrightarrow> session_id s = x"
  shows "questions_ok cdc qc acc w"
  unfolding questions_ok_def by (intro conjI allI impI) (use assms in blast)+

text \<open>A step that changes one call and the entry of that call.\<close>

lemma questions_ok_update:
  assumes ok: "questions_ok cdc qc acc w" and ext: "logs_extend w w'"
    and asks: "map_of (qw_asks w') = (map_of (qw_asks w))(rpc \<mapsto> a')"
    and entries: "\<And>r. r \<noteq> rpc \<Longrightarrow> map_of (qw_entries w') r = map_of (qw_entries w) r"
    and order: "distinct (qw_order w')" "set (qw_order w') = dom (map_of (qw_entries w'))"
    and this_ask: "ask_ok qc acc w' rpc a'"
    and accepted: "rpc \<in> fst ` set acc \<Longrightarrow> map_of (qw_entries w') rpc = None \<and> ak_phase a' \<noteq> AskChecked"
  shows "questions_ok cdc qc acc w'"
proof (rule questions_okI)
  fix r a assume r: "map_of (qw_asks w') r = Some a"
  show "ask_ok qc acc w' r a"
  proof (cases "r = rpc")
    case False
    with r asks have "map_of (qw_asks w) r = Some a" by simp
    from questions_okD(4) [OF ok this] obtain added where "ask_ok qc acc w r a" "log_of w' (ak_session a) = log_of w (ak_session a) @ added"
      using ext unfolding logs_extend_def by blast
    with ask_ok_frame entries [OF False] show ?thesis by blast
  qed (use r asks this_ask in simp)
next
  fix r e assume r: "map_of (qw_entries w') r = Some e"
  show "\<exists>a. map_of (qw_asks w') r = Some a"
    using questions_okD(3) [OF ok, of r e] r entries asks by (cases "r = rpc") auto
next
  fix r assume r: "r \<in> fst ` set acc"
  show "map_of (qw_entries w') r = None \<and> (\<exists>a. map_of (qw_asks w') r = Some a \<and> ak_phase a \<noteq> AskChecked)"
    using questions_okD(6) [OF ok r] accepted r entries asks by (cases "r = rpc") auto
qed (use ext order questions_okD(5) [OF ok] in \<open>auto simp: logs_extend_def\<close>)

lemma questions_ok_same:
  assumes "questions_ok cdc qc acc w" and "logs_extend w w'" and "qw_asks w' = qw_asks w" and "qw_entries w' = qw_entries w" and "qw_order w' = qw_order w"
  shows "questions_ok cdc qc acc w'"
proof (rule questions_okI)
  fix r a assume "map_of (qw_asks w') r = Some a"
  with assms(3) questions_okD(4) [OF assms(1), of r a] have "ask_ok qc acc w r a" by simp
  moreover obtain added where "log_of w' (ak_session a) = log_of w (ak_session a) @ added" using assms(2) unfolding logs_extend_def by blast
  ultimately show "ask_ok qc acc w' r a" using ask_ok_frame assms(4) by (metis order_refl)
qed (use assms questions_okD [OF assms(1)] in \<open>auto simp: logs_extend_def\<close>)

section \<open>Withdrawing requests\<close>

definition leave_reply :: "question_reply \<Rightarrow> ask \<Rightarrow> ask" where
  "leave_reply reply a = (if listening a then a\<lparr>ak_channel := Some reply\<rparr> else a)"

definition withdraws :: "string set \<Rightarrow> question_reply \<Rightarrow> 'p question_world \<Rightarrow> 'p question_world \<Rightarrow> bool" where
  "withdraws I reply w w' \<longleftrightarrow>
     map_of (qw_entries w') = map_of (qw_entries w) |` (- I) \<and> qw_order w' = filter (\<lambda>r. r \<notin> I) (qw_order w)
     \<and> map_of (qw_asks w') = (\<lambda>r. if r \<in> I then map_option (leave_reply reply) (map_of (qw_asks w) r) else map_of (qw_asks w) r)
     \<and> qw_sessions w' = qw_sessions w"

lemma phase_ok_leave:
  "phase_ok qc rpc a True es (ak_phase a) \<Longrightarrow> phase_ok qc rpc (leave_reply reply a) False es (ak_phase (leave_reply reply a))"
  by (cases "ak_phase a") (auto simp: leave_reply_def listening_def asked_in_def)

lemma leave_reply_fields [simp]:
  "ak_session (leave_reply reply a) = ak_session a" "ak_questions (leave_reply reply a) = ak_questions a" "ak_phase (leave_reply reply a) = ak_phase a"
  by (simp_all add: leave_reply_def)

lemma withdraw_ok:
  assumes ok: "questions_ok cdc qc acc w" and w': "withdraws I reply w w'" and I: "I \<subseteq> dom (map_of (qw_entries w))"
    and new: "distinct (map fst new)" "fst ` set new \<subseteq> I"
    and answers: "\<And>rpc a answer. rpc \<in> I \<Longrightarrow> reply = ReplyAnswered answer \<Longrightarrow> map_of (qw_asks w) rpc = Some a \<Longrightarrow> listening a \<Longrightarrow>
      matches_answer answer (ak_questions a) \<and> (rpc, reply) \<in> set new"
  shows "questions_ok cdc qc (acc @ new) w'"
proof (rule questions_okI)
  have log: "log_of w' = log_of w" using w' by (simp add: withdraws_def log_of_def fun_eq_iff)
  have fresh: "r \<notin> fst ` set acc" if "r \<in> I" for r using questions_okD(6) [OF ok, of r] I that by auto
  show "distinct (qw_order w')" "set (qw_order w') = dom (map_of (qw_entries w'))"
    using w' questions_okD(1,2) [OF ok] by (auto simp: withdraws_def)
  show "distinct (map fst (acc @ new))" using new fresh questions_okD(5) [OF ok] by auto
  show "\<exists>a. map_of (qw_asks w') r = Some a" if "map_of (qw_entries w') r = Some e" for r e
    using that w' questions_okD(3) [OF ok, of r] by (auto simp: withdraws_def restrict_map_def split: if_splits)
  show "session_id s = x" if "qw_sessions w' x = Some s" for x s using that w' questions_okD(7) [OF ok] by (simp add: withdraws_def)
  show "map_of (qw_entries w') r = None \<and> (\<exists>a. map_of (qw_asks w') r = Some a \<and> ak_phase a \<noteq> AskChecked)" if "r \<in> fst ` set (acc @ new)" for r
  proof (cases "r \<in> I")
    case True
    with I obtain e where e: "map_of (qw_entries w) r = Some e" by blast
    from questions_okD(3) [OF ok e] obtain a where a: "map_of (qw_asks w) r = Some a" by blast
    from questions_okD(4) [OF ok a] e have "ak_phase a \<noteq> AskChecked" by (auto simp: ask_ok_def)
    with True a w' show ?thesis by (auto simp: withdraws_def)
  next
    case False
    with that new(2) have "r \<in> fst ` set acc" by auto
    from questions_okD(6) [OF ok this] False w' show ?thesis by (auto simp: withdraws_def)
  qed
  show "ask_ok qc (acc @ new) w' r b" if b: "map_of (qw_asks w') r = Some b" for r b
  proof (cases "r \<in> I")
    case False
    with b w' have "map_of (qw_asks w) r = Some b" "map_of (qw_entries w') r = map_of (qw_entries w) r" by (auto simp: withdraws_def)
    with questions_okD(4) [OF ok this(1)] ask_ok_frame [of qc acc w r b w' "[]" "acc @ new"] log show ?thesis by simp
  next
    case True
    with b w' obtain a where a: "map_of (qw_asks w) r = Some a" and b': "b = leave_reply reply a" by (auto simp: withdraws_def)
    from questions_okD(4) [OF ok a] True I have p: "phase_ok qc r a True (log_of w (ak_session a)) (ak_phase a)" and c: "channel_ok acc r a"
      by (auto simp: ask_ok_def)
    have "map_of (qw_entries w') r = None" using True w' by (simp add: withdraws_def)
    moreover have "channel_ok (acc @ new) r b"
      using c b' answers [OF True _ a] by (auto simp: channel_ok_def leave_reply_def split: if_splits)
    ultimately show ?thesis using phase_ok_leave [OF p, of reply] b' log by (simp add: ask_ok_def)
  qed
qed

section \<open>The operations\<close>

lemma map_of_set_ask:
  "map_of (qw_asks (set_ask rpc f w)) = (case map_of (qw_asks w) rpc of None \<Rightarrow> map_of (qw_asks w) | Some a \<Rightarrow> (map_of (qw_asks w))(rpc \<mapsto> f a))"
  by (simp add: set_ask_def split: option.splits)

lemma set_ask_fields [simp]:
  "qw_entries (set_ask rpc f w) = qw_entries w" "qw_order (set_ask rpc f w) = qw_order w" "qw_sessions (set_ask rpc f w) = qw_sessions w"
  "qw_notices (set_ask rpc f w) = qw_notices w" "qw_slots (set_ask rpc f w) = qw_slots w" "qw_disk (set_ask rpc f w) = qw_disk w"
  by (simp_all add: set_ask_def split: option.splits)

lemma send_reply_asks:
  "map_of (qw_asks (snd (send_reply rpc reply w))) = (\<lambda>r. if r = rpc then map_option (leave_reply reply) (map_of (qw_asks w) r) else map_of (qw_asks w) r)"
  by (auto simp: send_reply_def map_of_set_ask leave_reply_def fun_eq_iff split: option.splits)

lemma send_reply_fields [simp]:
  "qw_entries (snd (send_reply rpc reply w)) = qw_entries w" "qw_order (snd (send_reply rpc reply w)) = qw_order w"
  "qw_sessions (snd (send_reply rpc reply w)) = qw_sessions w"
  by (simp_all add: send_reply_def split: option.splits)

lemma claim_withdraws:
  assumes "claim_and_send rpc reply w = (receipt, w')"
  shows "withdraws {rpc} reply w w'" "receipt = Accepted \<Longrightarrow> \<exists>a. map_of (qw_asks w) rpc = Some a \<and> listening a"
    "map_of (qw_asks w) rpc = Some a \<Longrightarrow> listening a \<Longrightarrow> receipt = Accepted"
proof -
  have w': "w' = snd (send_reply rpc reply (remove_pending rpc w))" and r: "receipt = (if fst (send_reply rpc reply (remove_pending rpc w)) then Accepted else NotPending)"
    using assms by (auto simp: claim_and_send_def split: prod.splits)
  show "withdraws {rpc} reply w w'"
    unfolding w' by (auto simp: withdraws_def send_reply_asks remove_pending_def restrict_map_def fun_eq_iff)
  show "receipt = Accepted \<Longrightarrow> \<exists>a. map_of (qw_asks w) rpc = Some a \<and> listening a"
    "map_of (qw_asks w) rpc = Some a \<Longrightarrow> listening a \<Longrightarrow> receipt = Accepted"
    using r by (auto simp: send_reply_def remove_pending_def split: option.splits if_splits)
qed

lemma leave_reply_idem [simp]: "leave_reply r (leave_reply r a) = leave_reply r a"
  by (simp add: leave_reply_def listening_def)

lemma send_each_asks:
  "map_of (qw_asks (send_each ids w)) = (\<lambda>r. if r \<in> set ids then map_option (leave_reply ReplyCancelled) (map_of (qw_asks w) r) else map_of (qw_asks w) r)"
proof (induction ids arbitrary: w)
  case (Cons rpc ids)
  show ?case
    by (rule ext) (simp add: Cons.IH send_reply_asks option.map_comp comp_def)
qed simp

lemma send_each_fields [simp]:
  "qw_entries (send_each ids w) = qw_entries w" "qw_order (send_each ids w) = qw_order w" "qw_sessions (send_each ids w) = qw_sessions w"
  by (induction ids arbitrary: w) simp_all

lemma map_of_filter_keys: "map_of (filter (\<lambda>(k, v). k \<notin> S) kvs) = map_of kvs |` (- S)"
  by (induction kvs) (auto simp: restrict_map_def fun_eq_iff)

lemma cancel_where_withdraws:
  assumes "set (qw_order w) = dom (map_of (qw_entries w))" and I_def: "I = {rpc. \<exists>e. map_of (qw_entries w) rpc = Some e \<and> P e}"
  shows "withdraws I ReplyCancelled w (questions_cancel_where P w)"
proof -
  let ?ids = "filter (\<lambda>rpc. case map_of (qw_entries w) rpc of None \<Rightarrow> False | Some e \<Rightarrow> P e) (qw_order w)"
  let ?entries = "filter (\<lambda>(rpc, e). rpc \<notin> I) (qw_entries w)"
  have ids: "set ?ids = I" using assms by (auto split: option.splits)
  have es: "map_of ?entries = map_of (qw_entries w) |` (- I)" by (rule map_of_filter_keys)
  then have "fst ` set ?entries = dom (map_of (qw_entries w)) - I" by (metis Diff_eq dom_map_of_conv_image_fst dom_restrict)
  then have "filter (\<lambda>rpc. rpc \<in> fst ` set ?entries) (qw_order w) = filter (\<lambda>rpc. rpc \<notin> I) (qw_order w)"
    using assms(1) by (intro filter_cong) auto
  then have run: "questions_cancel_where P w = send_each ?ids (w\<lparr>qw_entries := ?entries, qw_order := filter (\<lambda>rpc. rpc \<notin> I) (qw_order w)\<rparr>)"
    unfolding questions_cancel_where_def Let_def ids by simp
  show ?thesis unfolding withdraws_def run send_each_asks ids by (auto simp: es fun_eq_iff)
qed

lemma cancel_where_ok: "questions_ok cdc qc acc w \<Longrightarrow> questions_ok cdc qc acc (questions_cancel_where P w)"
  using withdraw_ok [where new = "[]" and acc = acc, OF _ cancel_where_withdraws [OF _ refl]] questions_okD(2) by fastforce

lemma respond_answer_ok:
  assumes ok: "questions_ok cdc qc acc w" and run: "respond_answer rpc x answer w = (receipt, w')"
  shows "questions_ok cdc qc (acc @ accept_if receipt rpc (ReplyAnswered answer)) w'"
proof (cases "map_of (qw_entries w) rpc")
  case None
  with run ok show ?thesis by (simp add: respond_answer_def accept_if_def)
next
  case (Some e)
  show ?thesis
  proof (cases "qq_session (pq_requested e) \<noteq> x \<or> \<not> matches_answer answer (qq_questions (pq_requested e))")
    case True
    with run ok Some show ?thesis by (auto simp: respond_answer_def accept_if_def)
  next
    case False
    with run Some have c: "claim_and_send rpc (ReplyAnswered answer) w = (receipt, w')" by (simp add: respond_answer_def)
    have "matches_answer answer (ak_questions a)" if "map_of (qw_asks w) rpc = Some a" for a
      using questions_okD(4) [OF ok that] Some False by (auto simp: ask_ok_def entry_of_def ask_requested_def)
    with claim_withdraws(3) [OF c] Some show ?thesis
      by (intro withdraw_ok [OF ok claim_withdraws(1) [OF c]]) (auto simp: accept_if_def dom_def split: if_splits)
  qed
qed

lemma respond_cancelled_ok:
  assumes ok: "questions_ok cdc qc acc w" and run: "respond_cancelled rpc w = (receipt, w')"
  shows "questions_ok cdc qc (acc @ accept_if receipt rpc ReplyCancelled) w'"
proof (cases "map_of (qw_entries w) rpc")
  case None
  with run ok show ?thesis by (simp add: respond_cancelled_def accept_if_def)
next
  case (Some e)
  with run have c: "claim_and_send rpc ReplyCancelled w = (receipt, w')" by (simp add: respond_cancelled_def)
  with Some show ?thesis
    by (intro withdraw_ok [OF ok claim_withdraws(1) [OF c]]) (auto simp: accept_if_def dom_def split: if_splits)
qed

lemma logs_extend_refl: "questions_ok cdc qc acc w \<Longrightarrow> qw_sessions w' = qw_sessions w \<Longrightarrow> logs_extend w w'"
  using questions_okD(7) by (auto simp: logs_extend_def log_of_def)

lemma question_append_log:
  assumes ok: "questions_ok cdc qc acc w" and s: "qw_sessions w x = Some s" and run: "question_append cdc ops t read s data c w = (r, w')"
  shows "logs_extend w w'" "qw_asks w' = qw_asks w" "qw_entries w' = qw_entries w" "qw_order w' = qw_order w" "qw_notices w' = qw_notices w"
    "r = Inr () \<Longrightarrow> \<exists>n. log_of w' x = log_of w x @ [question_event t n data]"
proof -
  have x: "session_id s = x" by (rule questions_okD(7) [OF ok s])
  consider (Failed) e p where "r = Inl e" "w' = w\<lparr>qw_disk := p\<rparr> \<or> w' = w"
    | (Done) n s' c' p where "session_append cdc ops s (question_event t n data) (c, qw_disk w) = (Inr s', c', p)" "r = Inr ()"
      "w' = w\<lparr>qw_disk := p, qw_sessions := (qw_sessions w)(x \<mapsto> s')\<rparr>"
  proof (cases "next_seq (session_events read)")
    case (Inl e)
    with run that(1) [of e] show thesis by (auto simp: question_append_def)
  next
    case (Inr n)
    obtain q c' p where q: "session_append cdc ops s (question_event t n data) (c, qw_disk w) = (q, c', p)" by (metis prod.exhaust)
    with run Inr x that(1) [of _ p] that(2) [OF _ _ , of n _ c' p] show thesis by (cases q) (auto simp: question_append_def)
  qed
  then have "logs_extend w w' \<and> qw_asks w' = qw_asks w \<and> qw_entries w' = qw_entries w \<and> qw_order w' = qw_order w \<and> qw_notices w' = qw_notices w
    \<and> (r = Inr () \<longrightarrow> (\<exists>n. log_of w' x = log_of w x @ [question_event t n data]))"
  proof cases
    case Failed
    then have "qw_sessions w' = qw_sessions w" by auto
    with Failed logs_extend_refl [OF ok] show ?thesis by auto
  next
    case Done
    from Done(1) obtain c1 where "append_under_gate cdc ops s (question_event t n data) None (c1, qw_disk w) = (Inr s', c', p)"
      unfolding session_append_def by (elim append_inner_cases) auto
    from append_under_gate_extends [OF this] have e: "ss_header s' = ss_header s" "session_events s' = session_events s @ [question_event t n data]" by simp_all
    with Done s have log: "log_of w' y = (if y = x then log_of w x @ [question_event t n data] else log_of w y)" for y by (simp add: log_of_def)
    have "session_id u = y" if "qw_sessions w' y = Some u" for y u
      using that Done(3) e(1) x questions_okD(7) [OF ok] by (auto split: if_splits)
    with log Done show ?thesis by (auto simp: logs_extend_def)
  qed
  then show "logs_extend w w'" "qw_asks w' = qw_asks w" "qw_entries w' = qw_entries w" "qw_order w' = qw_order w" "qw_notices w' = qw_notices w"
    "r = Inr () \<Longrightarrow> \<exists>n. log_of w' x = log_of w x @ [question_event t n data]" by blast+
qed

text \<open>The steps of a call.\<close>

lemma phase_ok_cancelled [simp]: "phase_ok qc rpc (a\<lparr>ak_cancelled := b\<rparr>) pend es ph = phase_ok qc rpc a pend es ph"
  by (cases ph) (simp_all add: asked_in_def resolved_in_def recorded_pair_def)

lemma phase_ok_phase [simp]: "phase_ok qc rpc (a\<lparr>ak_phase := p\<rparr>) pend es ph = phase_ok qc rpc a pend es ph"
  by (cases ph) (simp_all add: asked_in_def resolved_in_def recorded_pair_def)

lemma ask_ok_phase:
  "ask_ok qc acc w rpc (a\<lparr>ak_phase := p\<rparr>) \<longleftrightarrow> channel_ok acc rpc a \<and> phase_ok qc rpc a (map_of (qw_entries w) rpc \<noteq> None) (log_of w (ak_session a)) p
     \<and> (map_of (qw_entries w) rpc \<noteq> None \<longrightarrow> map_of (qw_entries w) rpc = Some (entry_of rpc a))"
  by (simp add: ask_ok_def channel_ok_def entry_of_def ask_requested_def)

lemma log_of_set_ask [simp]: "log_of (set_ask rpc f w) = log_of w"
  by (simp add: log_of_def fun_eq_iff)

lemma set_phase_ok:
  assumes ok: "questions_ok cdc qc acc w" and a: "map_of (qw_asks w) rpc = Some a" and ph: "p \<noteq> AskChecked"
    and w': "logs_extend w w'" "qw_asks w' = qw_asks w" "\<And>r. r \<noteq> rpc \<Longrightarrow> map_of (qw_entries w') r = map_of (qw_entries w) r"
      "distinct (qw_order w')" "set (qw_order w') = dom (map_of (qw_entries w'))"
    and entry: "map_of (qw_entries w') rpc = None \<or> map_of (qw_entries w') rpc = Some (entry_of rpc a) \<and> rpc \<notin> fst ` set acc"
    and p: "phase_ok qc rpc a (map_of (qw_entries w') rpc \<noteq> None) (log_of w' (ak_session a)) p"
  shows "questions_ok cdc qc acc (set_ask rpc (\<lambda>a. a\<lparr>ak_phase := p\<rparr>) w')"
proof (rule questions_ok_update [OF ok, where rpc = rpc and a' = "a\<lparr>ak_phase := p\<rparr>"])
  show "logs_extend w (set_ask rpc (\<lambda>a. a\<lparr>ak_phase := p\<rparr>) w')" using w'(1) by (simp add: logs_extend_def)
  show "map_of (qw_asks (set_ask rpc (\<lambda>a. a\<lparr>ak_phase := p\<rparr>) w')) = (map_of (qw_asks w))(rpc \<mapsto> a\<lparr>ak_phase := p\<rparr>)"
    using a w'(2) by (simp add: map_of_set_ask)
  show "ask_ok qc acc (set_ask rpc (\<lambda>a. a\<lparr>ak_phase := p\<rparr>) w') rpc (a\<lparr>ak_phase := p\<rparr>)"
    using questions_okD(4) [OF ok a] p entry by (auto simp: ask_ok_phase) (simp_all add: ask_ok_def)
qed (use w' entry ph in auto)

lemma remove_pending_fields:
  "qw_asks (remove_pending rpc w) = qw_asks w" "qw_sessions (remove_pending rpc w) = qw_sessions w" "log_of (remove_pending rpc w) = log_of w"
  "map_of (qw_entries (remove_pending rpc w)) = (map_of (qw_entries w))(rpc := None)" "qw_order (remove_pending rpc w) = filter (\<lambda>r. r \<noteq> rpc) (qw_order w)"
  by (simp_all add: remove_pending_def log_of_def fun_eq_iff)

lemma return_ok:
  assumes ok: "questions_ok cdc qc acc w" and a: "map_of (qw_asks w) rpc = Some a"
    and w': "logs_extend w w'" "qw_asks w' = qw_asks w" "qw_entries w' = qw_entries w" "qw_order w' = qw_order w"
    and r: "\<And>answer. r = Inr answer \<Longrightarrow> ak_channel a = Some (ReplyAnswered answer) \<and> recorded_pair qc rpc a (Some answer) (log_of w' (ak_session a))"
  shows "questions_ok cdc qc acc (return_ask rpc r (remove_pending rpc w'))"
  unfolding return_ask_def
  by (rule set_phase_ok [OF ok a])
    (use w' r questions_okD(1,2) [OF ok] in \<open>auto simp: remove_pending_fields logs_extend_def\<close>)

lemma ask_register_ok:
  assumes ok: "questions_ok cdc qc acc w" and a: "map_of (qw_asks w) rpc = Some a" "ak_phase a = AskChecked"
  shows "questions_ok cdc qc acc (ask_register rpc a w)"
proof -
  from questions_okD(4) [OF ok a(1)] a(2) have free: "map_of (qw_entries w) rpc = None" "ak_channel a = None" by (auto simp: ask_ok_def)
  have facc: "rpc \<notin> fst ` set acc" using questions_okD(6) [OF ok, of rpc] a by auto
  have same: "questions_ok cdc qc acc (return_ask rpc (Inl e) w)" for e
    unfolding return_ask_def
    by (rule set_phase_ok [OF ok a(1)]) (use free questions_okD(1,2) [OF ok] logs_extend_refl [OF ok refl] in auto)
  let ?w = "w\<lparr>qw_order := qw_order w @ [rpc], qw_entries := bt_insert rpc (entry_of rpc a) (qw_entries w)\<rparr>"
  have "questions_ok cdc qc acc (set_ask rpc (\<lambda>a. a\<lparr>ak_phase := AskRegistered\<rparr>) ?w)"
    by (rule set_phase_ok [OF ok a(1)])
      (use free facc questions_okD(1,2) [OF ok] logs_extend_refl [OF ok, of ?w] in auto)
  with same show ?thesis by (auto simp: ask_register_def entry_of_def split: option.splits)
qed

lemma ask_record_ok:
  assumes ok: "questions_ok cdc qc acc w" and a: "map_of (qw_asks w) rpc = Some a" "ak_phase a = AskRegistered" and s: "qw_sessions w (ak_session a) = Some s"
  shows "questions_ok cdc qc acc (ask_record cdc ops qc rpc a read s c w)"
proof -
  let ?data = "qc_asked_to qc \<lparr>qa_rpc_id = rpc, qa_session = ak_session a, qa_turn = ak_turn a, qa_call = ak_call a, qa_questions = ak_questions a\<rparr>"
  obtain r w1 where run: "question_append cdc ops ''question/asked'' read s ?data c w = (r, w1)" by (metis prod.exhaust)
  note ap = question_append_log [OF ok s run]
  show ?thesis
  proof (cases r)
    case (Inl e)
    have "questions_ok cdc qc acc (return_ask rpc (Inl m) (remove_pending rpc w1))" for m
      by (rule return_ok [OF ok a(1) ap(1-4)]) simp
    with run Inl show ?thesis by (simp add: ask_record_def)
  next
    case (Inr u)
    with ap(6) obtain n where log: "log_of w1 (ak_session a) = log_of w (ak_session a) @ [question_event ''question/asked'' n ?data]" by auto
    let ?w = "w1\<lparr>qw_notices := qw_notices w1 @ [QuestionRequestedNotice (ask_requested rpc a)]\<rparr>"
    have aok: "ask_ok qc acc w rpc a" by (rule questions_okD(4) [OF ok a(1)])
    have "questions_ok cdc qc acc (set_ask rpc (\<lambda>a. a\<lparr>ak_phase := AskWaiting\<rparr>) ?w)"
    proof (rule set_phase_ok [OF ok a(1)])
      show "logs_extend w ?w" using ap(1) by (simp add: logs_extend_def log_of_def)
      show "map_of (qw_entries ?w) rpc = None \<or> map_of (qw_entries ?w) rpc = Some (entry_of rpc a) \<and> rpc \<notin> fst ` set acc"
        using aok questions_okD(6) [OF ok, of rpc] ap(3) by (auto simp: ask_ok_def simp del: not_None_eq) (force+)
      show "phase_ok qc rpc a (map_of (qw_entries ?w) rpc \<noteq> None) (log_of ?w (ak_session a)) AskWaiting"
        using aok a(2) ap(3) log by (auto simp: ask_ok_def log_of_def asked_in_def question_event_def)
    qed (use ap questions_okD(1,2) [OF ok] in auto)
    with run Inr show ?thesis by (simp add: ask_record_def)
  qed
qed

lemma ask_wake_ok:
  assumes ok: "questions_ok cdc qc acc w" and a: "map_of (qw_asks w) rpc = Some a" "ak_phase a = AskWaiting" and run: "ask_wake rpc a w = Some w'"
  shows "questions_ok cdc qc acc w'"
proof -
  from run obtain reply where reply: "ask_reply rpc a w = Some reply" by (auto simp: ask_wake_def)
  obtain outcome answer where d: "decide_outcome a reply w = (outcome, answer)" by (rule prod.exhaust)
  have w': "w' = set_ask rpc (\<lambda>a. a\<lparr>ak_phase := AskDecided outcome answer\<rparr>) w" using run reply d by (simp add: ask_wake_def)
  have aok: "ask_ok qc acc w rpc a" by (rule questions_okD(4) [OF ok a(1)])
  have "outcome = (if answer = None then QuestionCancelled else QuestionAnswered)" "answer \<noteq> None \<longrightarrow> ak_channel a = map_option ReplyAnswered answer"
    using d reply by (auto simp: decide_outcome_def ask_reply_def split: question_reply.splits if_splits option.splits)
  with aok a(2) have "phase_ok qc rpc a (map_of (qw_entries w) rpc \<noteq> None) (log_of w (ak_session a)) (AskDecided outcome answer)"
    by (auto simp: ask_ok_def)
  then show ?thesis unfolding w'
    by (intro set_phase_ok [OF ok a(1)])
      (use aok questions_okD(1,2) [OF ok] questions_okD(6) [OF ok, of rpc] logs_extend_refl [OF ok refl] in \<open>auto simp: ask_ok_def\<close>)
qed

lemma ask_resolve_ok:
  assumes ok: "questions_ok cdc qc acc w" and a: "map_of (qw_asks w) rpc = Some a" "ak_phase a = AskDecided outcome answer"
    and s: "qw_sessions w (ak_session a) = Some s"
  shows "questions_ok cdc qc acc (ask_resolve cdc ops qc rpc a outcome answer read s w)"
proof -
  let ?data = "qc_resolved_to qc \<lparr>qr_rpc_id = rpc, qr_turn = ak_turn a, qr_outcome = outcome, qr_answer = answer\<rparr>"
  obtain r w1 where run: "question_append cdc ops ''question/resolved'' read s ?data None w = (r, w1)" by (metis prod.exhaust)
  note ap = question_append_log [OF ok s run]
  show ?thesis
  proof (cases r)
    case (Inl e)
    have "questions_ok cdc qc acc (return_ask rpc (Inl m) (remove_pending rpc w1))" for m
      by (rule return_ok [OF ok a(1) ap(1-4)]) simp
    with run Inl show ?thesis by (simp add: ask_resolve_def)
  next
    case (Inr u)
    with ap(6) obtain n where log: "log_of w1 (ak_session a) = log_of w (ak_session a) @ [question_event ''question/resolved'' n ?data]" by auto
    from questions_okD(4) [OF ok a(1)] a(2) have o: "outcome = (if answer = None then QuestionCancelled else QuestionAnswered)"
      and c: "answer \<noteq> None \<Longrightarrow> ak_channel a = map_option ReplyAnswered answer" and e: "\<exists>e\<in>set (log_of w (ak_session a)). asked_in qc rpc a e"
      by (auto simp: ask_ok_def)
    from e obtain e0 before between where "log_of w (ak_session a) = before @ e0 # between" "asked_in qc rpc a e0" by (meson split_list)
    with log o have pair: "recorded_pair qc rpc a answer (log_of w1 (ak_session a))"
      unfolding recorded_pair_def resolved_in_def
      by (intro exI [of _ before] exI [of _ between] exI [of _ "[]"] exI [of _ e0] exI [of _ "question_event ''question/resolved'' n ?data"])
        (simp add: question_event_def)
    let ?w = "w1\<lparr>qw_notices := qw_notices w1 @ [QuestionResolvedNotice rpc (ak_session a) outcome]\<rparr>"
    have "(let w2 = remove_pending rpc w1 in w2\<lparr>qw_notices := qw_notices w2 @ [QuestionResolvedNotice rpc (ak_session a) outcome]\<rparr>) = remove_pending rpc ?w"
      by (simp add: Let_def remove_pending_def)
    moreover have "questions_ok cdc qc acc (return_ask rpc (ok_or m answer) (remove_pending rpc ?w))" for m
      by (rule return_ok [OF ok a(1)]) (use ap c pair in \<open>auto simp: logs_extend_def log_of_def\<close>)
    ultimately show ?thesis using run Inr by (simp add: ask_resolve_def)
  qed
qed

lemma ask_begin_ok:
  assumes ok: "questions_ok cdc qc acc w" and fresh: "map_of (qw_asks w) rpc = None" and run: "ask_begin rpc x call qs cancelled w = (r, w')"
  shows "questions_ok cdc qc acc w'"
proof (cases "ask_check x call qs cancelled w")
  case (Inl e)
  with run ok show ?thesis by (simp add: ask_begin_def)
next
  case (Inr p)
  obtain au turn where p: "p = (au, turn)" by (cases p)
  let ?a = "\<lparr>ak_session = x, ak_call = call, ak_questions = qs, ak_authority = au, ak_turn = turn, ak_channel = None, ak_cancelled = cancelled,
    ak_phase = AskChecked\<rparr>"
  have w': "w' = w\<lparr>qw_asks := bt_insert rpc ?a (qw_asks w)\<rparr>" using run Inr p by (simp add: ask_begin_def)
  have free: "map_of (qw_entries w) rpc = None" using questions_okD(3) [OF ok, of rpc] fresh by (cases "map_of (qw_entries w) rpc") auto
  have facc: "rpc \<notin> fst ` set acc" using questions_okD(6) [OF ok, of rpc] fresh by auto
  show ?thesis
    by (rule questions_ok_update [OF ok, where rpc = rpc and a' = ?a])
      (use w' free facc questions_okD(1,2) [OF ok] logs_extend_refl [OF ok, of w'] in \<open>auto simp: ask_ok_def channel_ok_def\<close>)
qed

lemma aborted_ok:
  assumes ok: "questions_ok cdc qc acc w"
  shows "questions_ok cdc qc acc (set_ask rpc (\<lambda>a. a\<lparr>ak_cancelled := True\<rparr>) w)"
proof (cases "map_of (qw_asks w) rpc")
  case None
  then have "set_ask rpc (\<lambda>a. a\<lparr>ak_cancelled := True\<rparr>) w = w" by (simp add: set_ask_def)
  with ok show ?thesis by simp
next
  case (Some a)
  have aok: "ask_ok qc acc w rpc a" by (rule questions_okD(4) [OF ok Some])
  show ?thesis
    by (rule questions_ok_update [OF ok, where rpc = rpc and a' = "a\<lparr>ak_cancelled := True\<rparr>"])
      (use Some aok questions_okD(1,2) [OF ok] questions_okD(6) [OF ok, of rpc] logs_extend_refl [OF ok, of "set_ask rpc (\<lambda>a. a\<lparr>ak_cancelled := True\<rparr>) w"]
        in \<open>auto simp: map_of_set_ask ask_ok_def channel_ok_def entry_of_def ask_requested_def\<close>)
qed

lemma question_run_ok:
  assumes "question_run cdc ops qc acc w"
  shows "questions_ok cdc qc acc w"
  using assms
proof induction
  case start
  then show ?case by (simp add: questions_ok_def)
next
  case (agents acc w r)
  then show ?case by (intro questions_ok_same [OF agents.IH]) (auto intro: logs_extend_refl)
next
  case (opened acc w s)
  have "logs_extend w (w\<lparr>qw_sessions := (qw_sessions w)(session_id s \<mapsto> s)\<rparr>)"
    using opened.hyps(2) questions_okD(7) [OF opened.IH] by (auto simp: logs_extend_def log_of_def)
  then show ?case by (intro questions_ok_same [OF opened.IH]) simp_all
next
  case (grew acc w x s e y c s' c' p)
  from append_under_gate_extends [OF grew.hyps(3)] grew.hyps(2) questions_okD(7) [OF grew.IH]
  have "logs_extend w (w\<lparr>qw_sessions := (qw_sessions w)(x \<mapsto> s'), qw_disk := p\<rparr>)" by (auto simp: logs_extend_def log_of_def)
  then show ?case by (intro questions_ok_same [OF grew.IH]) simp_all
next
  case (installed acc w au x r w')
  then have "w' = w \<or> w' = w\<lparr>qw_slots := bt_insert x au (qw_slots w)\<rparr>" by (auto simp: question_install_def split: if_splits)
  with installed.IH questions_ok_same [OF installed.IH logs_extend_refl [OF installed.IH], of w'] show ?case by auto
next
  case (closed_slot acc w au already b w')
  let ?w = "w\<lparr>qw_slots := bt_remove (au_id au) (qw_slots w)\<rparr>"
  have "questions_ok cdc qc acc ?w"
    by (rule questions_ok_same [OF closed_slot.IH logs_extend_refl [OF closed_slot.IH]]) simp_all
  with closed_slot show ?case by (auto simp: question_close_def cancel_where_ok split: if_splits)
next
  case (answered acc w rpc x answer receipt w')
  then show ?case by (blast intro: respond_answer_ok)
next
  case (dismissed acc w rpc receipt w')
  then show ?case by (blast intro: respond_cancelled_ok)
next
  case (swept acc w P)
  then show ?case by (blast intro: cancel_where_ok)
next
  case (aborted acc w rpc)
  then show ?case by (blast intro: aborted_ok)
next
  case (began acc w rpc x call qs cancelled r w')
  then show ?case by (blast intro: ask_begin_ok)
next
  case (registered acc w rpc a)
  then show ?case by (blast intro: ask_register_ok)
next
  case (recorded acc w rpc a s read c)
  then show ?case by (blast intro: ask_record_ok)
next
  case (woken acc w rpc a w')
  then show ?case by (blast intro: ask_wake_ok)
next
  case (resolved acc w rpc a outcome answer s read)
  then show ?case by (blast intro: ask_resolve_ok)
qed

end
