(* ===== verification/Agent_Samples.thy ===== *)
theory Agent_Samples
  imports Agent_Properties Session_Samples
begin

text \<open>
  A live agent that owns the small session of \<open>Session_Samples\<close>, for the witnesses of the components that act for an agent.
\<close>

abbreviation sample_owner :: agent_authority where
  "sample_owner \<equiv> authority_of 0 registry_one"

definition memory_of :: "session_event list \<Rightarrow> memory" where
  "memory_of es = [(''s1'', \<lparr>ms_header = sample_header\<lparr>hd_seed_length := None\<rparr>, ms_events = plain_log @ es, ms_flush_count = 0\<rparr>)]"

lemma sample_owner_facts:
  "authority_live sample_owner registry_one" "au_id sample_owner = ''s1''"
  by code_simp+

lemma plain_session_id: "session_id (plain_session old es) = ''s1''"
  by (simp add: plain_session_def sample_header_def)

lemma plain_session_ok: "session_ok wire_codec (plain_session plain_log [])"
  by code_simp

end
