(* ===== verification/Question_Theorems.thy ===== *)
theory Question_Theorems
  imports Question_Properties Agent_Samples
begin

text \<open>
  What a call of \<open>ask_user_question\<close> returns and which requests the browser is shown, over every interleaving; a
  concrete call from its start to its answer, and the same call with another writer between the number of its last
  event and its append.
\<close>

section \<open>A call\<close>

definition sample_question :: question_item where
  "sample_question = \<lparr>qi_id = ''q'', qi_question = ''Which?'', qi_detail = None, qi_header = None,
     qi_options = Some [\<lparr>qo_label = ''left'', qo_description = None\<rparr>, \<lparr>qo_label = ''right'', qo_description = None\<rparr>],
     qi_multi_select = None, qi_intent_approve = None\<rparr>"

definition sample_answer :: "answer_item list" where
  "sample_answer = [\<lparr>an_id = ''q'', an_selected = [''left''], an_custom = None\<rparr>]"

definition sample_questions :: question_codec where
  "sample_questions = \<lparr>qc_asked_to = (\<lambda>q. obj [(''rpcId'', JStr (qa_rpc_id q))]),
     qc_resolved_to = (\<lambda>q. obj [(''rpcId'', JStr (qr_rpc_id q)), (''answered'', JBool (qr_outcome q = QuestionAnswered))]),
     qc_arguments_from = (\<lambda>_. Inl ''arguments''), qc_answer_text = (\<lambda>_. ''answer''), qc_show = (\<lambda>_. ''stale'')\<rparr>"

definition sample_ask :: "question_reply option \<Rightarrow> ask_phase \<Rightarrow> ask" where
  "sample_ask channel phase = \<lparr>ak_session = ''s1'', ak_call = ''c1'', ak_questions = [sample_question], ak_authority = sample_owner,
     ak_turn = 1, ak_channel = channel, ak_cancelled = False, ak_phase = phase\<rparr>"

definition sample_world :: "session_event list \<Rightarrow> bool \<Rightarrow> (string \<times> ask) list \<Rightarrow> question_notification list \<Rightarrow> memory question_world" where
  "sample_world es pending asks notices = \<lparr>qw_agents = registry_one, qw_sessions = [''s1'' \<mapsto> plain_session plain_log es], qw_disk = memory_of es,
     qw_slots = [(''s1'', sample_owner)], qw_entries = (if pending then [(''r1'', entry_of ''r1'' (sample_ask None AskChecked))] else []),
     qw_order = (if pending then [''r1''] else []), qw_asks = asks, qw_notices = notices\<rparr>"

abbreviation asked_event :: session_event where
  "asked_event \<equiv> question_event ''question/asked'' 2 (obj [(''rpcId'', JStr ''r1'')])"

abbreviation resolved_event :: session_event where
  "resolved_event \<equiv> question_event ''question/resolved'' 3 (obj [(''rpcId'', JStr ''r1''), (''answered'', JBool True)])"

abbreviation asked_notice :: question_notification where
  "asked_notice \<equiv> QuestionRequestedNotice \<lparr>qq_rpc_id = ''r1'', qq_session = ''s1'', qq_questions = [sample_question]\<rparr>"

abbreviation sample_run :: "(string \<times> question_reply) list \<Rightarrow> memory question_world \<Rightarrow> bool" where
  "sample_run \<equiv> question_run wire_codec (memory_persistence wire_codec) sample_questions"

lemma plain_turn:
  "active_turn (session_events (plain_session plain_log [])) = Some 1"
  "active_turn (session_events (plain_session plain_log [asked_event])) = Some 1"
  by code_simp+

lemma plain_appends:
  "session_append wire_codec (memory_persistence wire_codec) (plain_session plain_log []) asked_event (None, memory_of [])
     = (Inr (plain_session plain_log [asked_event]), None, memory_of [asked_event])"
  "session_append wire_codec (memory_persistence wire_codec) (plain_session plain_log [asked_event]) resolved_event (None, memory_of [asked_event])
     = (Inr (plain_session plain_log [asked_event, resolved_event]), None, memory_of [asked_event, resolved_event])"
  by code_simp+

lemma plain_next_seq:
  "next_seq (session_events (plain_session plain_log [])) = Inr 2"
  "next_seq (session_events (plain_session plain_log [asked_event])) = Inr 3"
  by code_simp+


lemma sample_start: "sample_run [] (sample_world [] False [] [])"
proof -
  let ?w = "\<lparr>qw_agents = registry_one, qw_sessions = Map.empty, qw_disk = memory_of [], qw_slots = [], qw_entries = [], qw_order = [],
    qw_asks = [], qw_notices = []\<rparr> :: memory question_world"
  have "sample_run [] (?w\<lparr>qw_sessions := (qw_sessions ?w)(session_id (plain_session plain_log []) \<mapsto> plain_session plain_log [])\<rparr>)"
    by (rule question_run.opened [OF question_run.start]) (simp_all add: plain_session_ok)
  then have w: "sample_run [] (?w\<lparr>qw_sessions := [''s1'' \<mapsto> plain_session plain_log []]\<rparr>)" by (simp add: plain_session_id)
  show ?thesis
    by (rule question_run.installed [OF w, of sample_owner "''s1''" "Inr ()"])
      (simp add: question_install_def sample_world_def sample_owner_facts)
qed

lemma sample_asked: "sample_run [] (sample_world [asked_event] True [(''r1'', sample_ask None AskWaiting)] [asked_notice])"
proof -
  have "sample_run [] (sample_world [] False [(''r1'', sample_ask None AskChecked)] [])"
    by (rule question_run.began [OF sample_start, of "''r1''" "''s1''" "''c1''" "[sample_question]" False "Inr ()"])
      (simp_all add: ask_begin_def ask_check_def ensure_def ok_or_def sample_world_def session_turn_def plain_turn sample_owner_facts sample_ask_def
        sample_question_def)
  then have "sample_run [] (ask_register ''r1'' (sample_ask None AskChecked) (sample_world [] False [(''r1'', sample_ask None AskChecked)] []))"
    by (rule question_run.registered) (simp_all add: sample_world_def sample_ask_def)
  moreover have "ask_register ''r1'' (sample_ask None AskChecked) (sample_world [] False [(''r1'', sample_ask None AskChecked)] [])
      = sample_world [] True [(''r1'', sample_ask None AskRegistered)] []"
    by (simp add: ask_register_def sample_world_def session_turn_def plain_turn sample_owner_facts sample_ask_def entry_of_def ask_requested_def set_ask_def)
  ultimately have 1: "sample_run [] (sample_world [] True [(''r1'', sample_ask None AskRegistered)] [])" by simp
  have "ask_record wire_codec (memory_persistence wire_codec) sample_questions ''r1'' (sample_ask None AskRegistered) (plain_session plain_log [])
      (plain_session plain_log []) None (sample_world [] True [(''r1'', sample_ask None AskRegistered)] [])
    = sample_world [asked_event] True [(''r1'', sample_ask None AskWaiting)] [asked_notice]"
    by (simp add: ask_record_def question_append_def plain_next_seq sample_questions_def plain_appends sample_world_def plain_session_id set_ask_def
        ask_requested_def sample_ask_def)
  moreover have "sample_run [] (ask_record wire_codec (memory_persistence wire_codec) sample_questions ''r1'' (sample_ask None AskRegistered)
      (plain_session plain_log []) (plain_session plain_log []) None (sample_world [] True [(''r1'', sample_ask None AskRegistered)] []))"
    by (rule question_run.recorded [OF 1 _ _ _ later.same]) (simp_all add: sample_world_def sample_ask_def)
  ultimately show ?thesis by simp
qed

abbreviation sample_accepted :: "(string \<times> question_reply) list" where
  "sample_accepted \<equiv> [(''r1'', ReplyAnswered sample_answer)]"

abbreviation decided_phase :: ask_phase where
  "decided_phase \<equiv> AskDecided QuestionAnswered (Some sample_answer)"

lemma sample_decided:
  "sample_run sample_accepted (sample_world [asked_event] False [(''r1'', sample_ask (Some (ReplyAnswered sample_answer)) decided_phase)] [asked_notice])"
proof -
  let ?w = "sample_world [asked_event] True [(''r1'', sample_ask None AskWaiting)] [asked_notice]"
  let ?a = "sample_ask (Some (ReplyAnswered sample_answer)) AskWaiting" and ?w' = "\<lambda>a. sample_world [asked_event] False [(''r1'', a)] [asked_notice]"
  have "matches_answer sample_answer [sample_question]" by code_simp
  then have "respond_answer ''r1'' ''s1'' sample_answer ?w = (Accepted, ?w' ?a)"
    by (simp add: respond_answer_def claim_and_send_def send_reply_def remove_pending_def bt_remove_def listening_def set_ask_def sample_world_def sample_ask_def
        entry_of_def ask_requested_def)
  from question_run.answered [OF sample_asked this] have run: "sample_run sample_accepted (?w' ?a)" by (simp add: accept_if_def)
  have wake: "ask_wake ''r1'' ?a (?w' ?a) = Some (?w' (sample_ask (Some (ReplyAnswered sample_answer)) decided_phase))"
    by (simp add: ask_wake_def ask_reply_def decide_outcome_def is_live_owner_def session_turn_def plain_turn sample_owner_facts set_ask_def
        sample_world_def sample_ask_def)
  show ?thesis
    by (rule question_run.woken [OF run _ _ wake]) (simp_all add: sample_world_def sample_ask_def)
qed

lemma sample_resolved:
  "sample_run sample_accepted (sample_world [asked_event, resolved_event] False
     [(''r1'', sample_ask (Some (ReplyAnswered sample_answer)) (AskReturned (Inr sample_answer)))] [asked_notice, QuestionResolvedNotice ''r1'' ''s1'' QuestionAnswered])"
proof -
  let ?a = "sample_ask (Some (ReplyAnswered sample_answer)) decided_phase" and ?s = "plain_session plain_log [asked_event]"
  let ?w = "sample_world [asked_event] False [(''r1'', ?a)] [asked_notice]"
  have "sample_run sample_accepted (ask_resolve wire_codec (memory_persistence wire_codec) sample_questions ''r1'' ?a QuestionAnswered (Some sample_answer) ?s ?s ?w)"
    by (rule question_run.resolved [OF sample_decided _ _ _ later.same]) (simp_all add: sample_world_def sample_ask_def)
  then show ?thesis
    by (simp add: ask_resolve_def question_append_def plain_next_seq sample_questions_def plain_appends plain_session_id return_ask_def set_ask_def
        remove_pending_def bt_remove_def ok_or_def sample_world_def sample_ask_def)
qed

section \<open>Theorems\<close>

text \<open>C31: a call returns only what the user sent, once. When a call returns an answer, that answer fits the questions that were
  asked, it is the one response the request ever got receipted, and the session's log has the question and, after it,
  its resolution with that answer, whatever calls, responses, cancellations, closed slots and other writers ran in between.\<close>

theorem returned_answer_was_accepted:
  assumes "question_run cdc ops qc acc w" and "map_of (qw_asks w) rpc = Some a" and "ak_phase a = AskReturned (Inr answer)"
  shows "matches_answer answer (ak_questions a) \<and> filter (\<lambda>(r, _). r = rpc) acc = [(rpc, ReplyAnswered answer)]
    \<and> recorded_pair qc rpc a (Some answer) (log_of w (ak_session a))"
proof -
  have ok: "questions_ok cdc qc acc w" by (rule question_run_ok [OF assms(1)])
  from questions_okD(4) [OF ok assms(2)] assms(3) have "matches_answer answer (ak_questions a)" "(rpc, ReplyAnswered answer) \<in> set acc"
    "recorded_pair qc rpc a (Some answer) (log_of w (ak_session a))" by (auto simp: ask_ok_def channel_ok_def)
  with filter_fst_unique [OF questions_okD(5) [OF ok]] show ?thesis by simp
qed

theorem returned_answer_was_accepted_witness:
  "matches_answer sample_answer [sample_question] \<and> filter (\<lambda>(r, _). r = ''r1'') sample_accepted = sample_accepted
   \<and> recorded_pair sample_questions ''r1'' (sample_ask (Some (ReplyAnswered sample_answer)) (AskReturned (Inr sample_answer))) (Some sample_answer)
       (plain_log @ [asked_event, resolved_event])"
  using returned_answer_was_accepted [OF sample_resolved, of "''r1''" "sample_ask (Some (ReplyAnswered sample_answer)) (AskReturned (Inr sample_answer))" sample_answer]
  by (simp add: sample_world_def sample_ask_def log_of_def plain_session_def)

text \<open>C32: the browser is shown exactly the open requests. The requests listed have distinct identifiers, each is the request
  of a call that has been registered, has not returned and has had no response receipted; a call that waits without a reply is
  listed; and a request that has had a response receipted refuses every further one.\<close>

theorem requests_listed_are_open:
  assumes "question_run cdc ops qc acc w"
  shows "distinct (map qq_rpc_id (requests w))
    \<and> (\<forall>q \<in> set (requests w). qq_rpc_id q \<notin> fst ` set acc \<and> (\<exists>a. map_of (qw_asks w) (qq_rpc_id q) = Some a \<and> q = ask_requested (qq_rpc_id q) a
         \<and> ak_phase a \<noteq> AskChecked \<and> (\<forall>r. ak_phase a \<noteq> AskReturned r)))
    \<and> (\<forall>rpc a. map_of (qw_asks w) rpc = Some a \<longrightarrow> listening a \<longrightarrow> ak_channel a = None \<longrightarrow> ask_requested rpc a \<in> set (requests w))
    \<and> (\<forall>rpc x answer. rpc \<in> fst ` set acc \<longrightarrow> respond_answer rpc x answer w = (NotPending, w) \<and> respond_cancelled rpc w = (NotPending, w))"
proof -
  have ok: "questions_ok cdc qc acc w" by (rule question_run_ok [OF assms])
  have entry: "\<exists>a. map_of (qw_asks w) rpc = Some a \<and> e = entry_of rpc a \<and> ak_phase a \<noteq> AskChecked \<and> (\<forall>r. ak_phase a \<noteq> AskReturned r) \<and> rpc \<notin> fst ` set acc"
    if "map_of (qw_entries w) rpc = Some e" for rpc e
  proof -
    from questions_okD(3) [OF ok that] obtain a where a: "map_of (qw_asks w) rpc = Some a" by blast
    from questions_okD(4) [OF ok a] that questions_okD(6) [OF ok, of rpc] a show ?thesis by (fastforce simp: ask_ok_def)
  qed
  have ids: "map qq_rpc_id (map pq_requested (List.map_filter (map_of (qw_entries w)) rs)) = rs" if "set rs \<subseteq> dom (map_of (qw_entries w))" for rs
    using that
  proof (induction rs)
    case (Cons r rs)
    then obtain e where e: "map_of (qw_entries w) r = Some e" by auto
    with entry [OF e] Cons show ?case by (auto simp: List.map_filter_simps entry_of_def ask_requested_def)
  qed (simp add: List.map_filter_simps)
  have mem: "q \<in> set (requests w) \<longleftrightarrow> (\<exists>rpc e. map_of (qw_entries w) rpc = Some e \<and> q = pq_requested e)" for q
    using questions_okD(2) [OF ok] by (auto simp: requests_def List.map_filter_def dom_def) (force+)
  have "ask_requested rpc a \<in> set (requests w)" if "map_of (qw_asks w) rpc = Some a" "listening a" "ak_channel a = None" for rpc a
  proof -
    from questions_okD(4) [OF ok that(1)] that(2,3) have "map_of (qw_entries w) rpc = Some (entry_of rpc a)" by (auto simp: ask_ok_def listening_def)
    then show ?thesis unfolding mem by (intro exI conjI) (assumption, simp add: entry_of_def)
  qed
  moreover have "distinct (map qq_rpc_id (requests w))" using ids [of "qw_order w"] questions_okD(1,2) [OF ok] by (simp add: requests_def)
  moreover have "qq_rpc_id q \<notin> fst ` set acc \<and> (\<exists>a. map_of (qw_asks w) (qq_rpc_id q) = Some a \<and> q = ask_requested (qq_rpc_id q) a
         \<and> ak_phase a \<noteq> AskChecked \<and> (\<forall>r. ak_phase a \<noteq> AskReturned r))" if "q \<in> set (requests w)" for q
  proof -
    from that obtain rpc e where e: "map_of (qw_entries w) rpc = Some e" and q: "q = pq_requested e" unfolding mem by blast
    from entry [OF e] obtain a where "map_of (qw_asks w) rpc = Some a" "ak_phase a \<noteq> AskChecked" "\<forall>r. ak_phase a \<noteq> AskReturned r" "rpc \<notin> fst ` set acc"
      and "e = entry_of rpc a" by blast
    moreover from this(5) q have "q = ask_requested rpc a" "qq_rpc_id q = rpc" by (simp_all add: entry_of_def ask_requested_def)
    ultimately show ?thesis by simp
  qed
  ultimately show ?thesis using questions_okD(6) [OF ok] by (simp add: respond_answer_def respond_cancelled_def)
qed

theorem requests_listed_are_open_witness:
  "requests (sample_world [asked_event] True [(''r1'', sample_ask None AskWaiting)] [asked_notice]) \<noteq> []
   \<and> distinct (map qq_rpc_id (requests (sample_world [asked_event] True [(''r1'', sample_ask None AskWaiting)] [asked_notice])))"
proof
  show "requests (sample_world [asked_event] True [(''r1'', sample_ask None AskWaiting)] [asked_notice]) \<noteq> []"
    by (simp add: requests_def sample_world_def List.map_filter_simps)
qed (use requests_listed_are_open [OF sample_asked] in blast)

text \<open>An accepted answer can be lost. The number of the resolution is read before it is appended and the append is not retried:
  when another writer of the session appends an event in between, the user's answer has been receipted as accepted and the call
  returns a persistence error; the log has the question and no resolution of it.\<close>

theorem accepted_answer_can_be_lost:
  "\<exists>w a e. sample_run sample_accepted w \<and> map_of (qw_asks w) ''r1'' = Some a \<and> ak_phase a = AskReturned (Inl e)
     \<and> e_code e = ''QUESTION_PERSISTENCE_FAILED'' \<and> log_of w ''s1'' = plain_log @ [asked_event, sample_note 3]"
proof -
  let ?a = "sample_ask (Some (ReplyAnswered sample_answer)) decided_phase" and ?s = "plain_session plain_log [asked_event]"
  let ?s' = "plain_session plain_log [asked_event, sample_note 3]"
  let ?w = "\<lambda>es. sample_world es False [(''r1'', ?a)] [asked_notice]"
  let ?event = "question_event ''question/resolved'' 3 (obj [(''rpcId'', JStr ''r1''), (''answered'', JBool True)])"
  have ap: "append_under_gate wire_codec (memory_persistence wire_codec) ?s (sample_note 3) None (None, memory_of [asked_event])
    = (Inr ?s', None, memory_of [asked_event, sample_note 3])" by code_simp
  have "sample_run sample_accepted ((?w [asked_event])\<lparr>qw_sessions := (qw_sessions (?w [asked_event]))(''s1'' \<mapsto> ?s'), qw_disk := memory_of [asked_event, sample_note 3]\<rparr>)"
    by (rule question_run.grew [OF sample_decided]) (use ap in \<open>simp_all add: sample_world_def\<close>)
  then have 1: "sample_run sample_accepted (?w [asked_event, sample_note 3])" by (simp add: sample_world_def)
  have "later wire_codec (memory_persistence wire_codec) ?s ?s'" by (rule later.admitted [OF later.same ap])
  then have tried: "sample_run sample_accepted (ask_resolve wire_codec (memory_persistence wire_codec) sample_questions ''r1'' ?a QuestionAnswered (Some sample_answer) ?s ?s'
    (?w [asked_event, sample_note 3]))"
    by (intro question_run.resolved [OF 1]) (simp_all add: sample_world_def sample_ask_def)
  have "\<not> is_ok (fst (session_append wire_codec (memory_persistence wire_codec) ?s' ?event (None, memory_of [asked_event, sample_note 3])))"
    by code_simp
  then obtain e c p where failed: "session_append wire_codec (memory_persistence wire_codec) ?s' ?event (None, memory_of [asked_event, sample_note 3]) = (Inl e, c, p)"
    by (cases "session_append wire_codec (memory_persistence wire_codec) ?s' ?event (None, memory_of [asked_event, sample_note 3])"; cases "fst (session_append wire_codec (memory_persistence wire_codec) ?s' ?event (None, memory_of [asked_event, sample_note 3]))") auto
  let ?err = "persistence_failed sample_questions ''could not persist ask_user_question resolution'' e"
  let ?b = "sample_ask (Some (ReplyAnswered sample_answer)) (AskReturned (Inl ?err))"
  let ?w' = "(?w [asked_event, sample_note 3])\<lparr>qw_disk := p, qw_asks := [(''r1'', ?b)]\<rparr>"
  from failed have "ask_resolve wire_codec (memory_persistence wire_codec) sample_questions ''r1'' ?a QuestionAnswered (Some sample_answer) ?s ?s' (?w [asked_event, sample_note 3])
    = ?w'"
    by (simp add: ask_resolve_def question_append_def plain_next_seq sample_questions_def remove_pending_def bt_remove_def return_ask_def set_ask_def
        sample_world_def sample_ask_def)
  with tried have "sample_run sample_accepted ?w'" by simp
  moreover have "e_code ?err = ''QUESTION_PERSISTENCE_FAILED''" by (simp add: persistence_failed_def question_error_def tessivum_error_new_def)
  moreover have "ak_phase ?b = AskReturned (Inl ?err)" by (simp add: sample_ask_def)
  moreover have "map_of (qw_asks ?w') ''r1'' = Some ?b" by simp
  moreover have "log_of ?w' ''s1'' = plain_log @ [asked_event, sample_note 3]" by (simp add: sample_world_def log_of_def plain_session_def)
  ultimately show ?thesis by blast
qed

end
