(* ===== verification/Approvals.thy ===== *)
theory Approvals
  imports Permissions Questions
begin

text \<open>
  The approval service of one agent in \<open>src/src/approval.rs\<close>: the durable policy, the registered answerers and deny-only hooks,
  and a call of \<open>approve_with_audit\<close> as a process. A call is cut where it waits for the write gate, for an append or for
  an answerer, and where another thread may run. Answerers are code of other components: an answerer is its identity and what it says
  is an argument of the step in which the call hears it. A hook is a function of the request.
\<close>

section \<open>Data\<close>

datatype approval_outcome = AllowedOnce | Rejected | Cancelled | Unavailable

definition allows :: "approval_outcome \<Rightarrow> bool" where
  "allows out \<longleftrightarrow> out = AllowedOnce"

record approval_request =
  aq_action :: string
  aq_details :: json

definition request_valid :: "approval_request \<Rightarrow> bool" where
  "request_valid q \<longleftrightarrow> \<not> (blank (aq_action q) \<or> length (aq_action q) > 256)"

record approval_asked =
  ad_approval_id :: string
  ad_session :: string
  ad_turn :: u64
  ad_policy :: approval_policy
  ad_action :: string
  ad_tool_name :: string
  ad_call_id :: "string option"
  ad_reason :: "string option"

record approval_decision =
  dc_approval_id :: string
  dc_turn :: u64
  dc_outcome :: approval_outcome

datatype answer = Said bool | Declined | AnswerFailed

datatype hook_result = HookSilent | HookDenies string | HookPanics

type_synonym approval_hook = "approval_request \<Rightarrow> hook_result"

datatype approval_error = ApNotLive | ApNoActiveTurn | ApInvalidRequest | ApCancelled | ApInvalidReplay | ApSession session_error

text \<open>Answerers are the trusted local ones and the one the host installs for the browser.\<close>

datatype answerer = LocalAnswerer nat | HostAnswerer agent_authority

record approval_service =
  sv_authority :: agent_authority
  sv_policy :: approval_policy
  sv_next_id :: u64
  sv_pending :: "u64 list"
  sv_answerers :: "(u64 \<times> answerer) list"
  sv_host_answerers :: "(u64 \<times> answerer) list"
  sv_hooks :: "(u64 \<times> approval_hook) list"

record approval_codec =
  ac_policy_from :: "json \<Rightarrow> approval_policy option"
  ac_policy_to :: "approval_policy \<Rightarrow> json"
  ac_asked_to :: "approval_asked \<Rightarrow> json"
  ac_decision_to :: "approval_decision \<Rightarrow> json"

section \<open>The service\<close>

definition policy_step :: "approval_codec \<Rightarrow> approval_policy \<Rightarrow> session_event \<Rightarrow> approval_error + approval_policy" where
  "policy_step pc p e = (if ev_type e = ''approval/policy'' then ok_or ApInvalidReplay (ac_policy_from pc (ev_data e)) else Inr p)"

definition replay_policy :: "approval_codec \<Rightarrow> session_event list \<Rightarrow> approval_error + approval_policy" where
  "replay_policy pc es = try_fold (policy_step pc) Ask es"

definition approval_service_new :: "approval_codec \<Rightarrow> agent_authority \<Rightarrow> session \<Rightarrow> registry \<Rightarrow> approval_error + approval_service" where
  "approval_service_new pc au s agents =
     (if \<not> authority_live au agents \<or> au_id au \<noteq> session_id s then Inl ApNotLive
      else and_then (replay_policy pc (session_events s)) (\<lambda>p.
        Inr \<lparr>sv_authority = au, sv_policy = p, sv_next_id = 0, sv_pending = [], sv_answerers = [], sv_host_answerers = [], sv_hooks = []\<rparr>))"

definition approval_next_id :: "approval_service \<Rightarrow> u64 \<times> approval_service" where
  "approval_next_id sv =
     (let n = (case checked_add_u64 (sv_next_id sv) 1 of None \<Rightarrow> 1 | Some n \<Rightarrow> n) in (n, sv\<lparr>sv_next_id := n\<rparr>))"

definition require_owner :: "agent_authority \<Rightarrow> registry \<Rightarrow> approval_service \<Rightarrow> bool" where
  "require_owner owner agents sv \<longleftrightarrow> authority_live (sv_authority sv) agents \<and> authority_live owner agents \<and> owner = sv_authority sv"

datatype registration_kind = KindAnswerer | KindHostAnswerer | KindHook

definition approval_register_answerer ::
  "agent_authority \<Rightarrow> answerer \<Rightarrow> registry \<Rightarrow> approval_service \<Rightarrow> (approval_error + u64) \<times> approval_service" where
  "approval_register_answerer owner a agents sv =
     (if require_owner owner agents sv
      then case approval_next_id sv of (n, sv') \<Rightarrow> (Inr n, sv'\<lparr>sv_answerers := bt_insert n a (sv_answerers sv')\<rparr>)
      else (Inl ApNotLive, sv))"

definition approval_register_host ::
  "agent_authority \<Rightarrow> answerer \<Rightarrow> registry \<Rightarrow> approval_service \<Rightarrow> (approval_error + u64) \<times> approval_service" where
  "approval_register_host owner a agents sv =
     (if require_owner owner agents sv
      then case approval_next_id sv of (n, sv') \<Rightarrow> (Inr n, sv'\<lparr>sv_host_answerers := bt_insert n a (sv_host_answerers sv')\<rparr>)
      else (Inl ApNotLive, sv))"

definition approval_register_hook ::
  "agent_authority \<Rightarrow> approval_hook \<Rightarrow> registry \<Rightarrow> approval_service \<Rightarrow> (approval_error + u64) \<times> approval_service" where
  "approval_register_hook owner h agents sv =
     (if require_owner owner agents sv
      then case approval_next_id sv of (n, sv') \<Rightarrow> (Inr n, sv'\<lparr>sv_hooks := bt_insert n h (sv_hooks sv')\<rparr>)
      else (Inl ApNotLive, sv))"

text \<open>Closing a registration, given its flag.\<close>

definition approval_close :: "registration_kind \<Rightarrow> u64 \<Rightarrow> bool \<Rightarrow> approval_service \<Rightarrow> approval_service" where
  "approval_close kind n already sv =
     (if already then sv
      else case kind of
        KindAnswerer \<Rightarrow> sv\<lparr>sv_answerers := bt_remove n (sv_answerers sv)\<rparr>
      | KindHostAnswerer \<Rightarrow> sv\<lparr>sv_host_answerers := bt_remove n (sv_host_answerers sv)\<rparr>
      | KindHook \<Rightarrow> sv\<lparr>sv_hooks := bt_remove n (sv_hooks sv)\<rparr>)"

definition service_answerers :: "approval_service \<Rightarrow> answerer list" where
  "service_answerers sv = map snd (sv_answerers sv) @ map snd (sv_host_answerers sv)"

section \<open>The world of one service\<close>

text \<open>What a call has taken from the service when it passed the gate.\<close>

record reservation =
  rv_turn :: u64
  rv_generation :: u64
  rv_policy :: approval_policy
  rv_hooks :: "approval_hook list"
  rv_answerers :: "answerer list"

datatype approval_phase =
    ApChecked u64
  | ApReserved reservation
  | ApRecorded reservation
  | ApAsking reservation "answerer list"
  | ApSettling reservation approval_outcome
  | ApFinal reservation approval_outcome
  | ApReturned approval_outcome

record approval_call =
  cl_request :: approval_request
  cl_tool_name :: string
  cl_call_id :: "string option"
  cl_reason :: "string option"
  cl_cancelled :: bool
  cl_phase :: approval_phase

text \<open>The write gate is free, held by a call, or held by a change of the policy before and after its append.\<close>

datatype approval_gate = GateFree | GateCall string | GatePolicy approval_policy | GatePolicyWritten approval_policy

record 'p approval_world =
  aw_agents :: registry
  aw_session :: session
  aw_disk :: 'p
  aw_service :: approval_service
  aw_gate :: approval_gate
  aw_calls :: "(string \<times> approval_call) list"

definition service_live :: "'p approval_world \<Rightarrow> bool" where
  "service_live w = authority_live (sv_authority (aw_service w)) (aw_agents w)"

definition approval_turn :: "'p approval_world \<Rightarrow> u64 option" where
  "approval_turn w = active_turn (session_events (aw_session w))"

definition approval_event :: "string \<Rightarrow> u64 \<Rightarrow> json \<Rightarrow> session_event" where
  "approval_event t n data = \<lparr>ev_type = t, ev_seq = n, ev_time = 0, ev_data = data, ev_ignorable = Some True, ev_sources = None,
     ev_surface_op = None\<rparr>"

text \<open>\<open>read\<close> is the session as it was when the number of the event was taken.\<close>

definition approval_append ::
  "codec \<Rightarrow> 'p persistence \<Rightarrow> string \<Rightarrow> session \<Rightarrow> json \<Rightarrow> cancel \<Rightarrow> 'p approval_world \<Rightarrow> (approval_error + unit) \<times> 'p approval_world" where
  "approval_append cdc ops t read data c w =
     (case next_seq (session_events read) of
        Inl e \<Rightarrow> (Inl (ApSession e), w)
      | Inr n \<Rightarrow>
          (case session_append cdc ops (aw_session w) (approval_event t n data) (c, aw_disk w) of
             (Inl e, _, p) \<Rightarrow> (Inl (ApSession e), w\<lparr>aw_disk := p\<rparr>)
           | (Inr s', _, p) \<Rightarrow> (Inr (), w\<lparr>aw_disk := p, aw_session := s'\<rparr>)))"

section \<open>Changing the policy\<close>

definition policy_check :: "bool \<Rightarrow> 'p approval_world \<Rightarrow> approval_error + unit" where
  "policy_check cancelled w = and_then (ensure (service_live w) ApNotLive) (\<lambda>_. ensure (\<not> cancelled) ApCancelled)"

text \<open>The checks after the gate come in the other order.\<close>

definition policy_enter :: "approval_policy \<Rightarrow> bool \<Rightarrow> 'p approval_world \<Rightarrow> (approval_error + unit) \<times> 'p approval_world" where
  "policy_enter p cancelled w =
     (case and_then (ensure (\<not> cancelled) ApCancelled) (\<lambda>_. ensure (service_live w) ApNotLive) of
        Inl e \<Rightarrow> (Inl e, w)
      | Inr _ \<Rightarrow> (Inr (), w\<lparr>aw_gate := GatePolicy p\<rparr>))"

definition policy_write ::
  "codec \<Rightarrow> 'p persistence \<Rightarrow> approval_codec \<Rightarrow> approval_policy \<Rightarrow> session \<Rightarrow> cancel \<Rightarrow> 'p approval_world \<Rightarrow> (approval_error + unit) \<times> 'p approval_world" where
  "policy_write cdc ops pc p read c w =
     (case approval_append cdc ops ''approval/policy'' read (ac_policy_to pc p) c w of
        (Inl e, w') \<Rightarrow> (Inl e, w'\<lparr>aw_gate := GateFree\<rparr>)
      | (Inr _, w') \<Rightarrow> (Inr (), w'\<lparr>aw_gate := GatePolicyWritten p\<rparr>))"

definition policy_commit :: "approval_policy \<Rightarrow> 'p approval_world \<Rightarrow> 'p approval_world" where
  "policy_commit p w = w\<lparr>aw_service := (aw_service w)\<lparr>sv_policy := p\<rparr>, aw_gate := GateFree\<rparr>"

section \<open>A call\<close>

definition set_call :: "string \<Rightarrow> approval_phase \<Rightarrow> 'p approval_world \<Rightarrow> 'p approval_world" where
  "set_call i ph w = (case map_of (aw_calls w) i of None \<Rightarrow> w | Some cl \<Rightarrow> w\<lparr>aw_calls := bt_insert i (cl\<lparr>cl_phase := ph\<rparr>) (aw_calls w)\<rparr>)"

definition approve_begin ::
  "string \<Rightarrow> approval_request \<Rightarrow> string \<Rightarrow> string option \<Rightarrow> string option \<Rightarrow> bool \<Rightarrow> 'p approval_world \<Rightarrow> 'p approval_world" where
  "approve_begin i q tool call_id reason cancelled w =
     (let ph = (if \<not> service_live w \<or> \<not> request_valid q then ApReturned Unavailable
                else if cancelled then ApReturned Cancelled
                else case approval_turn w of None \<Rightarrow> ApReturned Unavailable | Some turn \<Rightarrow> ApChecked turn)
      in w\<lparr>aw_calls := bt_insert i \<lparr>cl_request = q, cl_tool_name = tool, cl_call_id = call_id, cl_reason = reason, cl_cancelled = cancelled,
             cl_phase = ph\<rparr> (aw_calls w)\<rparr>)"

definition reservation_of :: "u64 \<Rightarrow> u64 \<Rightarrow> approval_service \<Rightarrow> reservation" where
  "reservation_of turn generation sv = \<lparr>rv_turn = turn, rv_generation = generation, rv_policy = sv_policy sv, rv_hooks = map snd (sv_hooks sv),
     rv_answerers = service_answerers sv\<rparr>"

text \<open>With the gate: \<open>None\<close> when the call has returned.\<close>

definition approve_reserve :: "string \<Rightarrow> approval_call \<Rightarrow> u64 \<Rightarrow> 'p approval_world \<Rightarrow> reservation option \<times> 'p approval_world" where
  "approve_reserve i cl turn w =
     (if cl_cancelled cl then (None, set_call i (ApReturned Cancelled) w)
      else if \<not> service_live w \<or> approval_turn w \<noteq> Some turn then (None, set_call i (ApReturned Rejected) w)
      else case approval_next_id (aw_service w) of (generation, sv) \<Rightarrow>
        let rv = reservation_of turn generation sv
        in (Some rv, set_call i (ApReserved rv) (w\<lparr>aw_service := sv, aw_gate := GateCall i\<rparr>)))"

definition asked_of :: "string \<Rightarrow> approval_call \<Rightarrow> reservation \<Rightarrow> approval_service \<Rightarrow> approval_asked" where
  "asked_of i cl rv sv = \<lparr>ad_approval_id = i, ad_session = au_id (sv_authority sv), ad_turn = rv_turn rv, ad_policy = rv_policy rv,
     ad_action = aq_action (cl_request cl), ad_tool_name = cl_tool_name cl, ad_call_id = cl_call_id cl, ad_reason = cl_reason cl\<rparr>"

definition approve_record ::
  "codec \<Rightarrow> 'p persistence \<Rightarrow> approval_codec \<Rightarrow> string \<Rightarrow> approval_call \<Rightarrow> reservation \<Rightarrow> session \<Rightarrow> cancel \<Rightarrow> 'p approval_world \<Rightarrow> 'p approval_world" where
  "approve_record cdc ops pc i cl rv read c w =
     (case approval_append cdc ops ''approval/asked'' read (ac_asked_to pc (asked_of i cl rv (aw_service w))) c w of
        (Inl e, w') \<Rightarrow> set_call i (ApReturned Rejected) (w'\<lparr>aw_gate := GateFree\<rparr>)
      | (Inr _, w') \<Rightarrow>
          set_call i (ApRecorded rv)
            (w'\<lparr>aw_gate := GateFree, aw_service := (aw_service w')\<lparr>sv_pending := List.insert (rv_generation rv) (sv_pending (aw_service w'))\<rparr>\<rparr>))"

definition hooks_deny :: "approval_hook list \<Rightarrow> approval_request \<Rightarrow> bool" where
  "hooks_deny hs q = list_ex (\<lambda>h. case h q of HookSilent \<Rightarrow> False | HookDenies _ \<Rightarrow> True | HookPanics \<Rightarrow> True) hs"

definition approve_hooks :: "string \<Rightarrow> approval_call \<Rightarrow> reservation \<Rightarrow> 'p approval_world \<Rightarrow> 'p approval_world" where
  "approve_hooks i cl rv w =
     set_call i
       (if cl_cancelled cl then ApSettling rv Cancelled
        else if hooks_deny (rv_hooks rv) (cl_request cl) then ApSettling rv Rejected
        else case rv_policy rv of Never \<Rightarrow> ApSettling rv Rejected | Ask \<Rightarrow> ApAsking rv (rv_answerers rv)) w"

text \<open>One round of the waterfall: the cancellation is polled first, then the answerer in front, when there is one, is heard.\<close>

definition approve_answer :: "string \<Rightarrow> approval_call \<Rightarrow> reservation \<Rightarrow> answerer list \<Rightarrow> answer \<Rightarrow> 'p approval_world \<Rightarrow> 'p approval_world" where
  "approve_answer i cl rv asking r w =
     set_call i
       (if cl_cancelled cl then ApSettling rv Cancelled
        else case asking of
          [] \<Rightarrow> ApSettling rv Unavailable
        | _ # rest \<Rightarrow>
            (case r of
               Said True \<Rightarrow> ApSettling rv AllowedOnce
             | Said False \<Rightarrow> ApSettling rv Rejected
             | Declined \<Rightarrow> ApAsking rv rest
             | AnswerFailed \<Rightarrow> ApSettling rv Unavailable)) w"

definition approve_settle :: "string \<Rightarrow> approval_call \<Rightarrow> reservation \<Rightarrow> approval_outcome \<Rightarrow> 'p approval_world \<Rightarrow> 'p approval_world" where
  "approve_settle i cl rv out w =
     (let sv = aw_service w;
          final = (if rv_generation rv \<notin> set (sv_pending sv) then Rejected
                   else if out = AllowedOnce \<and> cl_cancelled cl then Cancelled
                   else if out = AllowedOnce \<and> (\<not> service_live w \<or> approval_turn w \<noteq> Some (rv_turn rv)) then Rejected
                   else out)
      in set_call i (ApFinal rv final) (w\<lparr>aw_gate := GateCall i, aw_service := sv\<lparr>sv_pending := removeAll (rv_generation rv) (sv_pending sv)\<rparr>\<rparr>))"

definition approve_decide ::
  "codec \<Rightarrow> 'p persistence \<Rightarrow> approval_codec \<Rightarrow> string \<Rightarrow> reservation \<Rightarrow> approval_outcome \<Rightarrow> session \<Rightarrow> 'p approval_world \<Rightarrow> 'p approval_world" where
  "approve_decide cdc ops pc i rv out read w =
     (case approval_append cdc ops ''approval/decided'' read
         (ac_decision_to pc \<lparr>dc_approval_id = i, dc_turn = rv_turn rv, dc_outcome = out\<rparr>) None w of
        (Inl e, w') \<Rightarrow> set_call i (ApReturned Rejected) (w'\<lparr>aw_gate := GateFree\<rparr>)
      | (Inr _, w') \<Rightarrow> set_call i (ApReturned out) (w'\<lparr>aw_gate := GateFree\<rparr>))"

text \<open>The two adapters to the tool runtime: the gate of one service, and the host's, which looks the service up first.\<close>

definition tool_gate_request :: "tool_schema \<Rightarrow> json \<Rightarrow> approval_request" where
  "tool_gate_request schema args = \<lparr>aq_action = ts_name schema, aq_details = args\<rparr>"

definition tool_gate_admits :: "string \<Rightarrow> approval_service \<Rightarrow> bool" where
  "tool_gate_admits x sv \<longleftrightarrow> x = au_id (sv_authority sv)"

definition tool_gate_result :: "approval_outcome option \<Rightarrow> tessivum_error + bool option" where
  "tool_gate_result out = Inr (Some (case out of None \<Rightarrow> False | Some out \<Rightarrow> allows out))"

section \<open>The policy and the log\<close>

locale approval_payloads =
  fixes pc :: approval_codec
  assumes policy_roundtrip: "ac_policy_from pc (ac_policy_to pc p) = Some p"
    and policy_field: "ac_policy_from pc d = Some p \<Longrightarrow> Option.bind (get_str ''policy'' d) approval_policy_of = Some p"
begin

lemma replay_is_effective:
  assumes "replay_policy pc es = Inr p"
  shows "effective_approval (permission_fold es) = p"
  using assms
proof (induction es arbitrary: p rule: rev_induct)
  case (snoc e es)
  from snoc.prems obtain q where q: "replay_policy pc es = Inr q" and s: "policy_step pc q e = Inr p"
    by (auto simp: replay_policy_def try_fold_append)
  show ?case
  proof (cases "ev_type e = ''approval/policy''")
    case True
    with s have "ac_policy_from pc (ev_data e) = Some p" by (auto simp: policy_step_def ok_or_def split: option.splits)
    from policy_field [OF this] True show ?thesis by (simp add: permission_fold_def permission_apply_def effective_approval_def)
  next
    case False
    with s have "p = q" by (simp add: policy_step_def)
    with snoc.IH [OF q] False show ?thesis
      by (auto simp: permission_fold_def permission_apply_def effective_approval_def split: option.splits)
  qed
qed (simp add: replay_policy_def permission_fold_def effective_approval_def no_knobs_def)

lemma replay_written: "ev_type e = ''approval/policy'' \<Longrightarrow> ev_data e = ac_policy_to pc p \<Longrightarrow> replay_policy pc es = Inr q \<Longrightarrow> replay_policy pc (es @ [e]) = Inr p"
  by (simp add: replay_policy_def try_fold_append policy_step_def policy_roundtrip ok_or_def)

end

interpretation policy_fold: whole_value_fold "policy_step pc" "\<lambda>e. ev_type e = ''approval/policy''" for pc
  by unfold_locales (auto simp: policy_step_def)

lemma replay_other: "ev_type e \<noteq> ''approval/policy'' \<Longrightarrow> replay_policy pc (es @ [e]) = replay_policy pc es"
  unfolding replay_policy_def by (rule policy_fold.fold_skip)

text \<open>The wire format of a change of the policy, which admits no other field.\<close>

definition policy_name :: "approval_policy \<Rightarrow> string" where
  "policy_name p = (case p of Ask \<Rightarrow> ''ask'' | Never \<Rightarrow> ''never'')"

definition approval_wire :: approval_codec where
  "approval_wire = \<lparr>ac_policy_from = (\<lambda>d. case d of
       JObj kvs \<Rightarrow> if map fst kvs = [''policy''] then Option.bind (get_str ''policy'' d) approval_policy_of else None | _ \<Rightarrow> None),
     ac_policy_to = (\<lambda>p. obj [(''policy'', JStr (policy_name p))]),
     ac_asked_to = (\<lambda>q. obj [(''action'', JStr (ad_action q)), (''approvalId'', JStr (ad_approval_id q)), (''turn'', jnat (ad_turn q))]),
     ac_decision_to = (\<lambda>d. obj [(''allowed'', JBool (allows (dc_outcome d))), (''approvalId'', JStr (dc_approval_id d)), (''turn'', jnat (dc_turn d))])\<rparr>"

interpretation approval_wire: approval_payloads approval_wire
proof
  have "ac_policy_from approval_wire (ac_policy_to approval_wire Ask) = Some Ask"
    "ac_policy_from approval_wire (ac_policy_to approval_wire Never) = Some Never" by code_simp+
  then show "ac_policy_from approval_wire (ac_policy_to approval_wire p) = Some p" for p by (cases p) simp_all
  show "Option.bind (get_str ''policy'' d) approval_policy_of = Some p" if "ac_policy_from approval_wire d = Some p" for d p
    using that by (auto simp: approval_wire_def split: json.splits if_splits)
qed

end
