(* ===== verification/Approval_Properties.thy ===== *)
theory Approval_Properties
  imports Approvals Session_Growth
begin

text \<open>
  All interleavings of calls, changes of the policy, registrations, cancellations and other writers of the session. A run
  collects what its theorem speaks of: the service as a call found it at the gate and what each answerer said.
\<close>

section \<open>The system\<close>

datatype moment = Passed string approval_service | Heard string answerer answer

text \<open>The flag of a run tells whether the service is the only one that writes the policy while it runs. The host's own other writer of it,
  \<open>pin_initial_permission\<close>, runs before the service is built, but a tool may name an \<open>approval/policy\<close> event in the
  \<open>codeDispatches\<close> of its output, which the agent loop appends; a run without the flag has such events too. An answerer is heard in the round in which it is in front. The number of an event may have been read at any earlier
  moment.\<close>

definition heard_now :: "string \<Rightarrow> approval_call \<Rightarrow> answerer list \<Rightarrow> answer \<Rightarrow> moment list" where
  "heard_now i cl asking r = (case asking of [] \<Rightarrow> [] | a # _ \<Rightarrow> if cl_cancelled cl then [] else [Heard i a r])"

inductive approval_run ::
  "codec \<Rightarrow> 'p persistence \<Rightarrow> approval_codec \<Rightarrow> bool \<Rightarrow> moment list \<Rightarrow> 'p approval_world \<Rightarrow> bool" for cdc ops pc own where
  start: "approval_service_new pc au s agents = Inr sv \<Longrightarrow> approval_run cdc ops pc own []
    \<lparr>aw_agents = agents, aw_session = s, aw_disk = p, aw_service = sv, aw_gate = GateFree, aw_calls = []\<rparr>"
| agents: "approval_run cdc ops pc own hist w \<Longrightarrow> approval_run cdc ops pc own hist (w\<lparr>aw_agents := r\<rparr>)"
| grew: "approval_run cdc ops pc own hist w \<Longrightarrow> append_under_gate cdc ops (aw_session w) e y (c, aw_disk w) = (Inr s', c', p)
    \<Longrightarrow> (own \<longrightarrow> ev_type e \<noteq> ''approval/policy'') \<Longrightarrow> approval_run cdc ops pc own hist (w\<lparr>aw_session := s', aw_disk := p\<rparr>)"
| answerer: "approval_run cdc ops pc own hist w \<Longrightarrow> approval_register_answerer owner a (aw_agents w) (aw_service w) = (r, sv)
    \<Longrightarrow> approval_run cdc ops pc own hist (w\<lparr>aw_service := sv\<rparr>)"
| host: "approval_run cdc ops pc own hist w \<Longrightarrow> approval_register_host owner a (aw_agents w) (aw_service w) = (r, sv)
    \<Longrightarrow> approval_run cdc ops pc own hist (w\<lparr>aw_service := sv\<rparr>)"
| hook: "approval_run cdc ops pc own hist w \<Longrightarrow> approval_register_hook owner h (aw_agents w) (aw_service w) = (r, sv)
    \<Longrightarrow> approval_run cdc ops pc own hist (w\<lparr>aw_service := sv\<rparr>)"
| closed_handle: "approval_run cdc ops pc own hist w
    \<Longrightarrow> approval_run cdc ops pc own hist (w\<lparr>aw_service := approval_close kind n already (aw_service w)\<rparr>)"
| entered: "approval_run cdc ops pc own hist w \<Longrightarrow> aw_gate w = GateFree \<Longrightarrow> policy_enter p cancelled w = (r, w')
    \<Longrightarrow> approval_run cdc ops pc own hist w'"
| written: "approval_run cdc ops pc own hist w \<Longrightarrow> aw_gate w = GatePolicy p \<Longrightarrow> policy_write cdc ops pc p read c w = (r, w')
    \<Longrightarrow> approval_run cdc ops pc own hist w'"
| committed: "approval_run cdc ops pc own hist w \<Longrightarrow> aw_gate w = GatePolicyWritten p \<Longrightarrow> approval_run cdc ops pc own hist (policy_commit p w)"
| aborted: "approval_run cdc ops pc own hist w \<Longrightarrow> map_of (aw_calls w) i = Some cl
    \<Longrightarrow> approval_run cdc ops pc own hist (w\<lparr>aw_calls := bt_insert i (cl\<lparr>cl_cancelled := True\<rparr>) (aw_calls w)\<rparr>)"
| began: "approval_run cdc ops pc own hist w \<Longrightarrow> map_of (aw_calls w) i = None
    \<Longrightarrow> approval_run cdc ops pc own hist (approve_begin i q tool call_id reason cancelled w)"
| reserved: "approval_run cdc ops pc own hist w \<Longrightarrow> map_of (aw_calls w) i = Some cl \<Longrightarrow> cl_phase cl = ApChecked turn \<Longrightarrow> aw_gate w = GateFree
    \<Longrightarrow> approve_reserve i cl turn w = (r, w') \<Longrightarrow> approval_run cdc ops pc own (hist @ (if r = None then [] else [Passed i (aw_service w)])) w'"
| recorded: "approval_run cdc ops pc own hist w \<Longrightarrow> map_of (aw_calls w) i = Some cl \<Longrightarrow> cl_phase cl = ApReserved rv
    \<Longrightarrow> approval_run cdc ops pc own hist (approve_record cdc ops pc i cl rv read c w)"
| hooked: "approval_run cdc ops pc own hist w \<Longrightarrow> map_of (aw_calls w) i = Some cl \<Longrightarrow> cl_phase cl = ApRecorded rv
    \<Longrightarrow> approval_run cdc ops pc own hist (approve_hooks i cl rv w)"
| heard: "approval_run cdc ops pc own hist w \<Longrightarrow> map_of (aw_calls w) i = Some cl \<Longrightarrow> cl_phase cl = ApAsking rv asking
    \<Longrightarrow> approval_run cdc ops pc own (hist @ heard_now i cl asking r) (approve_answer i cl rv asking r w)"
| settled: "approval_run cdc ops pc own hist w \<Longrightarrow> map_of (aw_calls w) i = Some cl \<Longrightarrow> cl_phase cl = ApSettling rv out \<Longrightarrow> aw_gate w = GateFree
    \<Longrightarrow> approval_run cdc ops pc own hist (approve_settle i cl rv out w)"
| decided: "approval_run cdc ops pc own hist w \<Longrightarrow> map_of (aw_calls w) i = Some cl \<Longrightarrow> cl_phase cl = ApFinal rv out
    \<Longrightarrow> approval_run cdc ops pc own hist (approve_decide cdc ops pc i rv out read w)"

section \<open>The invariant\<close>

text \<open>The records of a call: the request, under the policy of the log before it when only the service writes that, a moment at which the turn of the request was active,
  and the decision.\<close>

definition asked_at :: "bool \<Rightarrow> approval_codec \<Rightarrow> agent_authority \<Rightarrow> string \<Rightarrow> approval_call \<Rightarrow> approval_policy \<Rightarrow> u64 \<Rightarrow> session_event list \<Rightarrow> session_event \<Rightarrow> bool" where
  "asked_at own pc au i cl p turn before e \<longleftrightarrow> (own \<longrightarrow> replay_policy pc before = Inr p) \<and> ev_type e = ''approval/asked'' \<and> ev_data e = ac_asked_to pc
     \<lparr>ad_approval_id = i, ad_session = au_id au, ad_turn = turn, ad_policy = p, ad_action = aq_action (cl_request cl), ad_tool_name = cl_tool_name cl,
      ad_call_id = cl_call_id cl, ad_reason = cl_reason cl\<rparr>"

definition decided_as :: "approval_codec \<Rightarrow> string \<Rightarrow> u64 \<Rightarrow> approval_outcome \<Rightarrow> session_event \<Rightarrow> bool" where
  "decided_as pc i turn out e \<longleftrightarrow> ev_type e = ''approval/decided'' \<and>
     ev_data e = ac_decision_to pc \<lparr>dc_approval_id = i, dc_turn = turn, dc_outcome = out\<rparr>"

definition has_asked where
  "has_asked own pc au i cl p turn es \<longleftrightarrow> (\<exists>before e after. es = before @ e # after \<and> asked_at own pc au i cl p turn before e)"

definition has_moment where
  "has_moment own pc au i cl p turn es \<longleftrightarrow> (\<exists>before e until after. es = before @ e # until @ after \<and> asked_at own pc au i cl p turn before e
     \<and> active_turn (before @ e # until) = Some turn)"

definition has_decision where
  "has_decision own pc au i cl p turn out es \<longleftrightarrow> (\<exists>before e until between f after. es = before @ e # until @ between @ f # after
     \<and> asked_at own pc au i cl p turn before e \<and> (out = AllowedOnce \<longrightarrow> active_turn (before @ e # until) = Some turn) \<and> decided_as pc i turn out f)"

text \<open>Nobody denied and somebody allowed.\<close>

definition silent :: "approval_service \<Rightarrow> approval_call \<Rightarrow> bool" where
  "silent sv cl \<longleftrightarrow> (\<forall>h \<in> snd ` set (sv_hooks sv). h (cl_request cl) = HookSilent)"

definition granted :: "moment list \<Rightarrow> string \<Rightarrow> approval_call \<Rightarrow> approval_service \<Rightarrow> bool" where
  "granted hist i cl sv \<longleftrightarrow> sv_policy sv = Ask \<and> silent sv cl \<and> (\<exists>a \<in> set (service_answerers sv). Heard i a (Said True) \<in> set hist)"

definition from_service :: "moment list \<Rightarrow> string \<Rightarrow> reservation \<Rightarrow> approval_service \<Rightarrow> bool" where
  "from_service hist i rv sv \<longleftrightarrow> Passed i sv \<in> set hist \<and> rv_policy rv = sv_policy sv \<and> rv_hooks rv = map snd (sv_hooks sv)
     \<and> rv_answerers rv = service_answerers sv"

fun call_phase_ok :: "bool \<Rightarrow> approval_codec \<Rightarrow> agent_authority \<Rightarrow> moment list \<Rightarrow> string \<Rightarrow> approval_call \<Rightarrow> session_event list \<Rightarrow> approval_phase \<Rightarrow> bool" where
  "call_phase_ok own pc au hist i cl es (ApChecked turn) \<longleftrightarrow> True"
| "call_phase_ok own pc au hist i cl es (ApReserved rv) \<longleftrightarrow> (\<exists>sv. from_service hist i rv sv)"
| "call_phase_ok own pc au hist i cl es (ApRecorded rv) \<longleftrightarrow> (\<exists>sv. from_service hist i rv sv) \<and> has_asked own pc au i cl (rv_policy rv) (rv_turn rv) es"
| "call_phase_ok own pc au hist i cl es (ApAsking rv asking) \<longleftrightarrow> (\<exists>sv. from_service hist i rv sv \<and> sv_policy sv = Ask \<and> silent sv cl \<and> set asking \<subseteq> set (service_answerers sv))
     \<and> has_asked own pc au i cl (rv_policy rv) (rv_turn rv) es"
| "call_phase_ok own pc au hist i cl es (ApSettling rv out) \<longleftrightarrow> has_asked own pc au i cl (rv_policy rv) (rv_turn rv) es
     \<and> (out = AllowedOnce \<longrightarrow> (\<exists>sv. from_service hist i rv sv \<and> granted hist i cl sv))"
| "call_phase_ok own pc au hist i cl es (ApFinal rv out) \<longleftrightarrow> has_asked own pc au i cl (rv_policy rv) (rv_turn rv) es
     \<and> (out = AllowedOnce \<longrightarrow> has_moment own pc au i cl (rv_policy rv) (rv_turn rv) es \<and> (\<exists>sv. from_service hist i rv sv \<and> granted hist i cl sv))"
| "call_phase_ok own pc au hist i cl es (ApReturned out) \<longleftrightarrow> (out = AllowedOnce \<longrightarrow>
     (\<exists>sv turn. Passed i sv \<in> set hist \<and> granted hist i cl sv \<and> has_decision own pc au i cl Ask turn AllowedOnce es))"

text \<open>A call between its two steps under the gate holds it, with the policy it has read.\<close>

definition holds_gate :: "approval_gate \<Rightarrow> approval_policy \<Rightarrow> string \<Rightarrow> approval_phase \<Rightarrow> bool" where
  "holds_gate g p i ph \<longleftrightarrow> (\<forall>rv. ph = ApReserved rv \<longrightarrow> g = GateCall i \<and> rv_policy rv = p) \<and> (\<forall>rv out. ph = ApFinal rv out \<longrightarrow> g = GateCall i)"

definition enforced :: "approval_gate \<Rightarrow> approval_policy \<Rightarrow> approval_policy" where
  "enforced g p = (case g of GatePolicyWritten q \<Rightarrow> q | _ \<Rightarrow> p)"

definition approvals_ok :: "bool \<Rightarrow> approval_codec \<Rightarrow> moment list \<Rightarrow> 'p approval_world \<Rightarrow> bool" where
  "approvals_ok own pc hist w \<longleftrightarrow>
     (own \<longrightarrow> replay_policy pc (session_events (aw_session w)) = Inr (enforced (aw_gate w) (sv_policy (aw_service w))))
     \<and> (\<forall>i cl. map_of (aw_calls w) i = Some cl \<longrightarrow>
          call_phase_ok own pc (sv_authority (aw_service w)) hist i cl (session_events (aw_session w)) (cl_phase cl)
          \<and> holds_gate (aw_gate w) (sv_policy (aw_service w)) i (cl_phase cl))"

section \<open>Frame\<close>

abbreviation approval_log :: "'p approval_world \<Rightarrow> session_event list" where
  "approval_log w \<equiv> session_events (aw_session w)"

lemma approval_append_log:
  assumes "approval_append cdc ops t read data c w = (r, w')"
  shows "aw_agents w' = aw_agents w \<and> aw_service w' = aw_service w \<and> aw_gate w' = aw_gate w \<and> aw_calls w' = aw_calls w"
    "r = Inl e \<Longrightarrow> approval_log w' = approval_log w" "r = Inr () \<Longrightarrow> \<exists>n. approval_log w' = approval_log w @ [approval_event t n data]"
proof -
  show "aw_agents w' = aw_agents w \<and> aw_service w' = aw_service w \<and> aw_gate w' = aw_gate w \<and> aw_calls w' = aw_calls w"
    "r = Inl e \<Longrightarrow> approval_log w' = approval_log w"
    using assms by (auto simp: approval_append_def split: sum.splits prod.splits)
  assume "r = Inr ()"
  with assms obtain n s' c' p where "session_append cdc ops (aw_session w) (approval_event t n data) (c, aw_disk w) = (Inr s', c', p)"
    and w': "w' = w\<lparr>aw_disk := p, aw_session := s'\<rparr>" by (auto simp: approval_append_def split: sum.splits prod.splits)
  then obtain c1 where "append_under_gate cdc ops (aw_session w) (approval_event t n data) None (c1, aw_disk w) = (Inr s', c', p)"
    unfolding session_append_def by (elim append_inner_cases) auto
  from append_under_gate_extends [OF this] w' show "\<exists>n. approval_log w' = approval_log w @ [approval_event t n data]" by auto
qed

lemma has_asked_grow: "has_asked own pc au i cl p turn es \<Longrightarrow> has_asked own pc au i cl p turn (es @ added)"
  unfolding has_asked_def by (metis append.assoc append_Cons)

lemma has_moment_grow: "has_moment own pc au i cl p turn es \<Longrightarrow> has_moment own pc au i cl p turn (es @ added)"
  unfolding has_moment_def by (metis append.assoc append_Cons)

lemma has_decision_grow: "has_decision own pc au i cl p turn out es \<Longrightarrow> has_decision own pc au i cl p turn out (es @ added)"
  unfolding has_decision_def by (metis append.assoc append_Cons)

lemma from_service_grow: "from_service hist i rv sv \<Longrightarrow> set hist \<subseteq> set hist' \<Longrightarrow> from_service hist' i rv sv"
  by (auto simp: from_service_def)

lemma granted_grow: "granted hist i cl sv \<Longrightarrow> set hist \<subseteq> set hist' \<Longrightarrow> granted hist' i cl sv"
  by (auto simp: granted_def)

lemma call_phase_ok_grow:
  assumes "call_phase_ok own pc au hist i cl es ph" and "set hist \<subseteq> set hist'"
  shows "call_phase_ok own pc au hist' i cl (es @ added) ph"
  using assms(1) from_service_grow [OF _ assms(2)] granted_grow [OF _ assms(2)] assms(2) has_asked_grow has_moment_grow has_decision_grow
  by (cases ph) (simp_all, (metis subsetD)+)

text \<open>The records of a call do not depend on its phase and its token.\<close>

lemma records_ignore [simp]:
  "asked_at own pc au i (cl\<lparr>cl_phase := ph\<rparr>) = asked_at own pc au i cl" "asked_at own pc au i (cl\<lparr>cl_cancelled := b\<rparr>) = asked_at own pc au i cl"
  "silent sv (cl\<lparr>cl_phase := ph\<rparr>) = silent sv cl" "silent sv (cl\<lparr>cl_cancelled := b\<rparr>) = silent sv cl"
  by (simp_all add: asked_at_def silent_def fun_eq_iff)

lemma call_phase_ok_ignore [simp]:
  "call_phase_ok own pc au hist i (cl\<lparr>cl_phase := ph\<rparr>) es ph' = call_phase_ok own pc au hist i cl es ph'"
  "call_phase_ok own pc au hist i (cl\<lparr>cl_cancelled := b\<rparr>) es ph' = call_phase_ok own pc au hist i cl es ph'"
  by (cases ph'; simp add: has_asked_def has_moment_def has_decision_def granted_def)+

lemma holds_gate_other: "holds_gate g p j ph \<Longrightarrow> g \<noteq> GateCall j \<Longrightarrow> holds_gate g' p' j ph"
  by (auto simp: holds_gate_def)

lemma approvals_okD:
  assumes "approvals_ok own pc hist w"
  shows "own \<Longrightarrow> replay_policy pc (approval_log w) = Inr (enforced (aw_gate w) (sv_policy (aw_service w)))"
    "map_of (aw_calls w) i = Some cl \<Longrightarrow> call_phase_ok own pc (sv_authority (aw_service w)) hist i cl (approval_log w) (cl_phase cl)"
    "map_of (aw_calls w) i = Some cl \<Longrightarrow> holds_gate (aw_gate w) (sv_policy (aw_service w)) i (cl_phase cl)"
  using assms by (auto simp: approvals_ok_def)

text \<open>A step of one call, and a step of none.\<close>

lemma approvals_ok_step:
  assumes ok: "approvals_ok own pc hist w" and log: "approval_log w' = approval_log w @ added" and hist: "set hist \<subseteq> set hist'"
    and au: "sv_authority (aw_service w') = sv_authority (aw_service w)"
    and replay: "own \<Longrightarrow> replay_policy pc (approval_log w') = Inr (enforced (aw_gate w') (sv_policy (aw_service w')))"
    and calls: "\<And>j. j \<noteq> i \<Longrightarrow> map_of (aw_calls w') j = map_of (aw_calls w) j"
    and gate: "\<And>j. j \<noteq> i \<Longrightarrow> aw_gate w \<noteq> GateCall j \<or> aw_gate w' = aw_gate w \<and> sv_policy (aw_service w') = sv_policy (aw_service w)"
    and this_call: "\<And>cl. map_of (aw_calls w') i = Some cl \<Longrightarrow>
      call_phase_ok own pc (sv_authority (aw_service w)) hist' i cl (approval_log w') (cl_phase cl) \<and> holds_gate (aw_gate w') (sv_policy (aw_service w')) i (cl_phase cl)"
  shows "approvals_ok own pc hist' w'"
  unfolding approvals_ok_def au
proof (intro conjI allI impI)
  fix j cl assume j: "map_of (aw_calls w') j = Some cl"
  show "call_phase_ok own pc (sv_authority (aw_service w)) hist' j cl (approval_log w') (cl_phase cl)"
    "holds_gate (aw_gate w') (sv_policy (aw_service w')) j (cl_phase cl)"
    using this_call [of cl] j calls [of j] approvals_okD(2,3) [OF ok, of j cl] call_phase_ok_grow [OF _ hist] log gate [of j] holds_gate_other
    by (cases "j = i"; metis)+
qed (use replay in blast)

lemma approvals_ok_frame:
  assumes ok: "approvals_ok own pc hist w" and log: "approval_log w' = approval_log w @ added" and calls: "aw_calls w' = aw_calls w"
    and au: "sv_authority (aw_service w') = sv_authority (aw_service w)"
    and replay: "own \<Longrightarrow> replay_policy pc (approval_log w') = Inr (enforced (aw_gate w') (sv_policy (aw_service w')))"
    and gate: "(\<forall>j. aw_gate w \<noteq> GateCall j) \<or> aw_gate w' = aw_gate w \<and> sv_policy (aw_service w') = sv_policy (aw_service w)"
  shows "approvals_ok own pc hist w'"
proof (rule approvals_ok_step [OF ok log order_refl au replay, where i = "[]"])
  fix cl assume "map_of (aw_calls w') [] = Some cl"
  then have cl: "map_of (aw_calls w) [] = Some cl" by (simp add: calls)
  show "call_phase_ok own pc (sv_authority (aw_service w)) hist [] cl (approval_log w') (cl_phase cl) \<and>
      holds_gate (aw_gate w') (sv_policy (aw_service w')) [] (cl_phase cl)"
    using call_phase_ok_grow [OF approvals_okD(2) [OF ok cl] order_refl] approvals_okD(3) [OF ok cl] holds_gate_other gate log by metis
qed (use calls gate in auto)

lemma map_of_set_call:
  "map_of (aw_calls w) i = Some cl \<Longrightarrow> map_of (aw_calls (set_call i ph w)) = (map_of (aw_calls w))(i \<mapsto> cl\<lparr>cl_phase := ph\<rparr>)"
  by (simp add: set_call_def)

lemma set_call_fields [simp]:
  "aw_session (set_call i ph w) = aw_session w" "aw_service (set_call i ph w) = aw_service w" "aw_gate (set_call i ph w) = aw_gate w"
  "aw_agents (set_call i ph w) = aw_agents w"
  by (simp_all add: set_call_def split: option.splits)

section \<open>The steps\<close>

lemma set_call_ok:
  assumes ok: "approvals_ok own pc hist w" and cl: "map_of (aw_calls w) i = Some cl" and hist: "set hist \<subseteq> set hist'"
    and w1: "approval_log w1 = approval_log w @ added" "aw_calls w1 = aw_calls w" "sv_authority (aw_service w1) = sv_authority (aw_service w)"
    and replay: "own \<Longrightarrow> replay_policy pc (approval_log w1) = Inr (enforced (aw_gate w1) (sv_policy (aw_service w1)))"
    and gate: "\<And>j. j \<noteq> i \<Longrightarrow> aw_gate w \<noteq> GateCall j \<or> aw_gate w1 = aw_gate w \<and> sv_policy (aw_service w1) = sv_policy (aw_service w)"
    and ph: "call_phase_ok own pc (sv_authority (aw_service w)) hist' i cl (approval_log w1) ph" "holds_gate (aw_gate w1) (sv_policy (aw_service w1)) i ph"
  shows "approvals_ok own pc hist' (set_call i ph w1)"
proof (rule approvals_ok_step [OF ok _ hist, where i = i])
  have calls: "map_of (aw_calls (set_call i ph w1)) = (map_of (aw_calls w))(i \<mapsto> cl\<lparr>cl_phase := ph\<rparr>)"
    using map_of_set_call [of w1 i cl ph] cl w1(2) by simp
  then show "map_of (aw_calls (set_call i ph w1)) j = map_of (aw_calls w) j" if "j \<noteq> i" for j using that by simp
  show "call_phase_ok own pc (sv_authority (aw_service w)) hist' i c (approval_log (set_call i ph w1)) (cl_phase c) \<and>
      holds_gate (aw_gate (set_call i ph w1)) (sv_policy (aw_service (set_call i ph w1))) i (cl_phase c)"
    if "map_of (aw_calls (set_call i ph w1)) i = Some c" for c
    using that calls ph by auto
qed (use w1 replay gate in auto)

lemma replay_others: "\<forall>e\<in>set added. ev_type e \<noteq> ''approval/policy'' \<Longrightarrow> replay_policy pc (es @ added) = replay_policy pc es"
proof (induction added rule: rev_induct)
  case (snoc e added)
  with replay_other [of e pc "es @ added"] show ?case by simp
qed simp

text \<open>A call that writes while it holds the gate, and lets it go.\<close>

lemma call_write_ok:
  assumes ok: "approvals_ok own pc hist w" and cl: "map_of (aw_calls w) i = Some cl" and gate: "aw_gate w = GateCall i" and t: "t \<noteq> ''approval/policy''"
    and run: "approval_append cdc ops t read data c w = (r, w1)"
    and sv: "sv_authority sv = sv_authority (aw_service w)" "sv_policy sv = sv_policy (aw_service w)"
    and ph: "call_phase_ok own pc (sv_authority (aw_service w)) hist i cl (approval_log w1) ph"
      "\<And>rv. ph \<noteq> ApReserved rv" "\<And>rv out. ph \<noteq> ApFinal rv out"
  shows "approvals_ok own pc hist (set_call i ph (w1\<lparr>aw_gate := GateFree, aw_service := sv\<rparr>))"
proof -
  note ap = approval_append_log [OF run]
  obtain added where log: "approval_log w1 = approval_log w @ added" and new: "\<forall>e\<in>set added. ev_type e \<noteq> ''approval/policy''"
  proof (cases r)
    case (Inl e)
    with ap(2) that [of "[]"] show thesis by simp
  next
    case (Inr u)
    with ap(3) that t show thesis by (auto simp: approval_event_def)
  qed
  have "replay_policy pc (approval_log w1) = replay_policy pc (approval_log w)"
    unfolding log using new by (rule replay_others)
  with approvals_okD(1) [OF ok] gate sv(2) have "own \<Longrightarrow> replay_policy pc (approval_log w1) = Inr (sv_policy sv)" by (simp add: enforced_def)
  note replay = this
  show ?thesis
  proof (rule set_call_ok [OF ok cl order_refl, where added = added])
    show "replay_policy pc (approval_log (w1\<lparr>aw_gate := GateFree, aw_service := sv\<rparr>)) =
        Inr (enforced (aw_gate (w1\<lparr>aw_gate := GateFree, aw_service := sv\<rparr>)) (sv_policy (aw_service (w1\<lparr>aw_gate := GateFree, aw_service := sv\<rparr>))))" if own
      using replay [OF that] by (simp add: enforced_def)
    show "call_phase_ok own pc (sv_authority (aw_service w)) hist i cl (approval_log (w1\<lparr>aw_gate := GateFree, aw_service := sv\<rparr>)) ph"
      using ph(1) by simp
    show "holds_gate (aw_gate (w1\<lparr>aw_gate := GateFree, aw_service := sv\<rparr>)) (sv_policy (aw_service (w1\<lparr>aw_gate := GateFree, aw_service := sv\<rparr>))) i ph"
      using ph(2,3) by (simp add: holds_gate_def)
  qed (simp_all add: log ap(1) sv(1) gate)
qed

lemma approve_record_ok:
  assumes ok: "approvals_ok own pc hist w" and cl: "map_of (aw_calls w) i = Some cl" "cl_phase cl = ApReserved rv"
  shows "approvals_ok own pc hist (approve_record cdc ops pc i cl rv read c w)"
proof -
  let ?data = "ac_asked_to pc (asked_of i cl rv (aw_service w))"
  obtain r w1 where run: "approval_append cdc ops ''approval/asked'' read ?data c w = (r, w1)" by (rule prod.exhaust)
  note ap = approval_append_log [OF run]
  have g: "aw_gate w = GateCall i" "rv_policy rv = sv_policy (aw_service w)" and f: "\<exists>sv. from_service hist i rv sv"
    using approvals_okD(2,3) [OF ok cl(1)] cl(2) by (auto simp: holds_gate_def)
  note put = call_write_ok [OF ok cl(1) g(1) _ run]
  show ?thesis
  proof (cases r)
    case (Inl e)
    have "approvals_ok own pc hist (set_call i (ApReturned Rejected) (w1\<lparr>aw_gate := GateFree, aw_service := aw_service w1\<rparr>))"
      by (rule put) (use ap(1) in simp_all)
    with run Inl show ?thesis by (simp add: approve_record_def)
  next
    case (Inr u)
    with ap(3) obtain n where log: "approval_log w1 = approval_log w @ [approval_event ''approval/asked'' n ?data]" by auto
    have "asked_at own pc (sv_authority (aw_service w)) i cl (rv_policy rv) (rv_turn rv) (approval_log w) (approval_event ''approval/asked'' n ?data)"
      using approvals_okD(1) [OF ok] g by (simp add: asked_at_def approval_event_def asked_of_def enforced_def)
    with log have "has_asked own pc (sv_authority (aw_service w)) i cl (rv_policy rv) (rv_turn rv) (approval_log w1)" unfolding has_asked_def by blast
    with f have "approvals_ok own pc hist (set_call i (ApRecorded rv) (w1\<lparr>aw_gate := GateFree,
        aw_service := (aw_service w1)\<lparr>sv_pending := List.insert (rv_generation rv) (sv_pending (aw_service w1))\<rparr>\<rparr>))"
      by (intro put) (use ap(1) in simp_all)
    with run Inr show ?thesis by (simp add: approve_record_def)
  qed
qed

lemma approve_decide_ok:
  assumes ok: "approvals_ok own pc hist w" and cl: "map_of (aw_calls w) i = Some cl" "cl_phase cl = ApFinal rv out"
  shows "approvals_ok own pc hist (approve_decide cdc ops pc i rv out read w)"
proof -
  let ?au = "sv_authority (aw_service w)" and ?data = "ac_decision_to pc \<lparr>dc_approval_id = i, dc_turn = rv_turn rv, dc_outcome = out\<rparr>"
  obtain r w1 where run: "approval_append cdc ops ''approval/decided'' read ?data None w = (r, w1)" by (rule prod.exhaust)
  note ap = approval_append_log [OF run]
  have g: "aw_gate w = GateCall i" using approvals_okD(3) [OF ok cl(1)] cl(2) by (simp add: holds_gate_def)
  note put = call_write_ok [OF ok cl(1) g _ run]
  show ?thesis
  proof (cases r)
    case (Inl e)
    have "approvals_ok own pc hist (set_call i (ApReturned Rejected) (w1\<lparr>aw_gate := GateFree, aw_service := aw_service w1\<rparr>))"
      by (rule put) (use ap(1) in simp_all)
    with run Inl show ?thesis by (simp add: approve_decide_def)
  next
    case (Inr u)
    with ap(3) obtain n where log: "approval_log w1 = approval_log w @ [approval_event ''approval/decided'' n ?data]" by auto
    have "call_phase_ok own pc ?au hist i cl (approval_log w1) (ApReturned out)"
    proof (cases "out = AllowedOnce")
      case True
      with approvals_okD(2) [OF ok cl(1)] cl(2) obtain sv where sv: "from_service hist i rv sv" "granted hist i cl sv"
        and m: "has_moment own pc ?au i cl (rv_policy rv) (rv_turn rv) (approval_log w)" by auto
      then have p: "rv_policy rv = Ask" "Passed i sv \<in> set hist" by (simp_all add: from_service_def granted_def)
      have d: "decided_as pc i (rv_turn rv) AllowedOnce (approval_event ''approval/decided'' n ?data)"
        using True by (simp add: decided_as_def approval_event_def)
      from m p(1) obtain before e until between where "approval_log w = before @ e # until @ between"
        "asked_at own pc ?au i cl Ask (rv_turn rv) before e" "active_turn (before @ e # until) = Some (rv_turn rv)" unfolding has_moment_def by auto
      with log d have "has_decision own pc ?au i cl Ask (rv_turn rv) AllowedOnce (approval_log w1)"
        unfolding has_decision_def by (metis append.assoc append_Cons)
      with p(2) sv(2) show ?thesis by auto
    qed simp
    then have "approvals_ok own pc hist (set_call i (ApReturned out) (w1\<lparr>aw_gate := GateFree, aw_service := aw_service w1\<rparr>))"
      by (intro put) (use ap(1) in simp_all)
    with run Inr show ?thesis by (simp add: approve_decide_def)
  qed
qed

text \<open>A step of a call that touches neither the log nor the policy.\<close>

lemma call_quiet_ok:
  assumes ok: "approvals_ok own pc hist w" and cl: "map_of (aw_calls w) i = Some cl" and hist: "set hist \<subseteq> set hist'"
    and w1: "aw_session w1 = aw_session w" "aw_calls w1 = aw_calls w" "sv_authority (aw_service w1) = sv_authority (aw_service w)"
      "sv_policy (aw_service w1) = sv_policy (aw_service w)"
    and gate: "aw_gate w1 = aw_gate w \<or> aw_gate w = GateFree \<and> aw_gate w1 = GateCall i"
    and ph: "call_phase_ok own pc (sv_authority (aw_service w)) hist' i cl (approval_log w) ph" "holds_gate (aw_gate w1) (sv_policy (aw_service w)) i ph"
  shows "approvals_ok own pc hist' (set_call i ph w1)"
proof (rule set_call_ok [OF ok cl hist, where added = "[]"])
  have "enforced (aw_gate w1) (sv_policy (aw_service w)) = enforced (aw_gate w) (sv_policy (aw_service w))" using gate by (auto simp: enforced_def)
  with approvals_okD(1) [OF ok] show "own \<Longrightarrow> replay_policy pc (approval_log w1) = Inr (enforced (aw_gate w1) (sv_policy (aw_service w1)))" by (simp add: w1)
qed (use w1 gate ph in auto)

lemma approve_reserve_ok:
  assumes ok: "approvals_ok own pc hist w" and cl: "map_of (aw_calls w) i = Some cl" and gate: "aw_gate w = GateFree"
    and run: "approve_reserve i cl turn w = (r, w')"
  shows "approvals_ok own pc (hist @ (if r = None then [] else [Passed i (aw_service w)])) w'"
proof -
  have quiet: "approvals_ok own pc hist (set_call i (ApReturned out) w)" if "out \<noteq> AllowedOnce" for out
    by (rule call_quiet_ok [OF ok cl order_refl]) (use that in \<open>simp_all add: holds_gate_def\<close>)
  show ?thesis
  proof (cases "cl_cancelled cl \<or> \<not> service_live w \<or> approval_turn w \<noteq> Some turn")
    case True
    with run quiet show ?thesis by (auto simp: approve_reserve_def split: if_splits)
  next
    case False
    obtain n sv where sv: "approval_next_id (aw_service w) = (n, sv)" by (rule prod.exhaust)
    then have sv': "sv = (aw_service w)\<lparr>sv_next_id := n\<rparr>" by (auto simp: approval_next_id_def Let_def)
    let ?rv = "reservation_of turn n sv"
    have "approvals_ok own pc (hist @ [Passed i (aw_service w)]) (set_call i (ApReserved ?rv) (w\<lparr>aw_service := sv, aw_gate := GateCall i\<rparr>))"
      by (rule call_quiet_ok [OF ok cl]) (auto simp: sv' gate holds_gate_def reservation_of_def from_service_def service_answerers_def)
    with run False sv show ?thesis by (auto simp: approve_reserve_def Let_def)
  qed
qed

lemma hooks_silent:
  assumes "rv_hooks rv = map snd (sv_hooks sv)" and "\<not> hooks_deny (rv_hooks rv) (cl_request cl)"
  shows "silent sv cl"
  unfolding silent_def
proof
  fix h assume "h \<in> snd ` set (sv_hooks sv)"
  with assms show "h (cl_request cl) = HookSilent" by (cases "h (cl_request cl)") (auto simp: hooks_deny_def list_ex_iff)
qed

lemma approve_hooks_ok:
  assumes ok: "approvals_ok own pc hist w" and cl: "map_of (aw_calls w) i = Some cl" "cl_phase cl = ApRecorded rv"
  shows "approvals_ok own pc hist (approve_hooks i cl rv w)"
proof -
  from approvals_okD(2) [OF ok cl(1)] cl(2) obtain sv where sv: "from_service hist i rv sv"
    and a: "has_asked own pc (sv_authority (aw_service w)) i cl (rv_policy rv) (rv_turn rv) (approval_log w)" by auto
  show ?thesis unfolding approve_hooks_def
    by (rule call_quiet_ok [OF ok cl(1) order_refl])
      (use sv a hooks_silent [of rv sv cl] in \<open>auto simp: holds_gate_def from_service_def split: approval_policy.splits\<close>)
qed

lemma approve_answer_ok:
  assumes ok: "approvals_ok own pc hist w" and cl: "map_of (aw_calls w) i = Some cl" "cl_phase cl = ApAsking rv asking"
  shows "approvals_ok own pc (hist @ heard_now i cl asking r) (approve_answer i cl rv asking r w)"
proof -
  let ?hist = "hist @ heard_now i cl asking r" and ?au = "sv_authority (aw_service w)"
  from approvals_okD(2) [OF ok cl(1)] cl(2) obtain sv where sv: "from_service ?hist i rv sv" "sv_policy sv = Ask" "silent sv cl"
    "set asking \<subseteq> set (service_answerers sv)"
    and a: "has_asked own pc ?au i cl (rv_policy rv) (rv_turn rv) (approval_log w)" using from_service_grow [of hist i rv _ ?hist] by auto
  have quiet: "approvals_ok own pc ?hist (set_call i ph w)" if "call_phase_ok own pc ?au ?hist i cl (approval_log w) ph"
      "\<And>rv. ph \<noteq> ApReserved rv" "\<And>rv out. ph \<noteq> ApFinal rv out" for ph
    by (rule call_quiet_ok [OF ok cl(1)]) (use that in \<open>auto simp: holds_gate_def\<close>)
  have grant: "granted ?hist i cl sv" if "asking = b # rest" "r = Said True" "\<not> cl_cancelled cl" for b rest
    using that sv by (auto simp: granted_def heard_now_def)
  show ?thesis unfolding approve_answer_def
    by (rule quiet) (use sv a grant in \<open>auto split: list.splits answer.splits bool.splits\<close>)
qed

lemma has_moment_now:
  assumes "has_asked own pc au i cl p turn es" and "active_turn es = Some turn"
  shows "has_moment own pc au i cl p turn es"
  using assms unfolding has_asked_def has_moment_def by (metis append_Nil2 append_assoc append_Cons)

lemma approve_settle_ok:
  assumes ok: "approvals_ok own pc hist w" and cl: "map_of (aw_calls w) i = Some cl" "cl_phase cl = ApSettling rv out" and gate: "aw_gate w = GateFree"
  shows "approvals_ok own pc hist (approve_settle i cl rv out w)"
proof -
  from approvals_okD(2) [OF ok cl(1)] cl(2) have a: "has_asked own pc (sv_authority (aw_service w)) i cl (rv_policy rv) (rv_turn rv) (approval_log w)"
    and g: "out = AllowedOnce \<longrightarrow> (\<exists>sv. from_service hist i rv sv \<and> granted hist i cl sv)" by auto
  show ?thesis unfolding approve_settle_def Let_def
    by (rule call_quiet_ok [OF ok cl(1) order_refl])
      (use a g gate has_moment_now [OF a] in \<open>auto simp: holds_gate_def approval_turn_def\<close>)
qed

lemma approve_begin_ok:
  assumes ok: "approvals_ok own pc hist w" and new: "map_of (aw_calls w) i = None"
  shows "approvals_ok own pc hist (approve_begin i q tool call_id reason cancelled w)"
  unfolding approve_begin_def Let_def
  by (rule approvals_ok_step [OF ok, where added = "[]" and i = i])
    (use approvals_okD(1) [OF ok] in \<open>auto simp: holds_gate_def split: option.splits\<close>)

lemma approve_abort_ok:
  assumes ok: "approvals_ok own pc hist w" and cl: "map_of (aw_calls w) i = Some cl"
  shows "approvals_ok own pc hist (w\<lparr>aw_calls := bt_insert i (cl\<lparr>cl_cancelled := True\<rparr>) (aw_calls w)\<rparr>)"
  by (rule approvals_ok_step [OF ok, where added = "[]" and i = i])
    (use approvals_okD(1) [OF ok] approvals_okD(2,3) [OF ok cl] in auto)

lemma registration_frame:
  "approval_register_answerer owner a agents sv = (r, sv') \<Longrightarrow> sv_authority sv' = sv_authority sv \<and> sv_policy sv' = sv_policy sv"
  "approval_register_host owner a agents sv = (r, sv') \<Longrightarrow> sv_authority sv' = sv_authority sv \<and> sv_policy sv' = sv_policy sv"
  "approval_register_hook owner h agents sv = (r, sv') \<Longrightarrow> sv_authority sv' = sv_authority sv \<and> sv_policy sv' = sv_policy sv"
  "sv_authority (approval_close kind n already sv) = sv_authority sv \<and> sv_policy (approval_close kind n already sv) = sv_policy sv"
  by (auto simp: approval_register_answerer_def approval_register_host_def approval_register_hook_def approval_next_id_def approval_close_def Let_def
    split: if_splits registration_kind.splits)

lemma service_change_ok:
  assumes "approvals_ok own pc hist w" and "sv_authority sv = sv_authority (aw_service w) \<and> sv_policy sv = sv_policy (aw_service w)"
  shows "approvals_ok own pc hist (w\<lparr>aw_service := sv\<rparr>)"
  by (rule approvals_ok_frame [OF assms(1), where added = "[]"]) (use assms approvals_okD(1) [OF assms(1)] in auto)

lemma policy_enter_ok:
  assumes ok: "approvals_ok own pc hist w" and gate: "aw_gate w = GateFree" and run: "policy_enter p cancelled w = (r, w')"
  shows "approvals_ok own pc hist w'"
proof -
  have "approvals_ok own pc hist (w\<lparr>aw_gate := GatePolicy p\<rparr>)"
    by (rule approvals_ok_frame [OF ok, where added = "[]"]) (use gate approvals_okD(1) [OF ok] in \<open>auto simp: enforced_def\<close>)
  with run ok show ?thesis by (auto simp: policy_enter_def split: sum.splits)
qed

lemma policy_write_ok:
  assumes "approval_payloads pc" and ok: "approvals_ok own pc hist w" and gate: "aw_gate w = GatePolicy p"
    and run: "policy_write cdc ops pc p read c w = (r, w')"
  shows "approvals_ok own pc hist w'"
proof -
  obtain q w1 where ap: "approval_append cdc ops ''approval/policy'' read (ac_policy_to pc p) c w = (q, w1)" by (rule prod.exhaust)
  note ap' = approval_append_log [OF ap]
  show ?thesis
  proof (cases q)
    case (Inl e)
    have "approvals_ok own pc hist (w1\<lparr>aw_gate := GateFree\<rparr>)"
      by (rule approvals_ok_frame [OF ok, where added = "[]"])
        (use Inl ap'(1) ap'(2) [OF Inl] gate approvals_okD(1) [OF ok] in \<open>auto simp: enforced_def\<close>)
    with run ap Inl show ?thesis by (auto simp: policy_write_def)
  next
    case (Inr u)
    with ap'(3) obtain n where log: "approval_log w1 = approval_log w @ [approval_event ''approval/policy'' n (ac_policy_to pc p)]" by auto
    have "approvals_ok own pc hist (w1\<lparr>aw_gate := GatePolicyWritten p\<rparr>)"
      by (rule approvals_ok_frame [OF ok, where added = "[approval_event ''approval/policy'' n (ac_policy_to pc p)]"])
        (use ap'(1) log gate approval_payloads.replay_written [OF assms(1) _ _ approvals_okD(1) [OF ok],
            of "approval_event ''approval/policy'' n (ac_policy_to pc p)" p] in \<open>simp_all add: enforced_def approval_event_def\<close>)
    with run ap Inr show ?thesis by (auto simp: policy_write_def)
  qed
qed

lemma policy_commit_ok:
  assumes ok: "approvals_ok own pc hist w" and gate: "aw_gate w = GatePolicyWritten p"
  shows "approvals_ok own pc hist (policy_commit p w)"
  unfolding policy_commit_def
  by (rule approvals_ok_frame [OF ok, where added = "[]"]) (use gate approvals_okD(1) [OF ok] in \<open>auto simp: enforced_def\<close>)

lemma approval_run_ok:
  assumes "approval_run cdc ops pc own hist w" and pay: "approval_payloads pc"
  shows "approvals_ok own pc hist w"
  using assms(1)
proof induction
  case (start au s agents sv p)
  then show ?case by (auto simp: approvals_ok_def approval_service_new_def enforced_def split: if_splits)
next
  case (agents hist w r)
  show ?case by (rule approvals_ok_frame [OF agents.IH, where added = "[]"]) (use approvals_okD(1) [OF agents.IH] in simp_all)
next
  case (grew hist w e y c s' c' p)
  have "session_events s' = approval_log w @ [e]" by (rule append_under_gate_extends [OF grew.hyps(2)])
  with grew.hyps(3) approvals_okD(1) [OF grew.IH] show ?case
    by (intro approvals_ok_frame [OF grew.IH, where added = "[e]"]) (simp_all add: replay_other)
next
  case (answerer hist w owner a r sv)
  show ?case by (rule service_change_ok [OF answerer.IH registration_frame(1) [OF answerer.hyps(2)]])
next
  case (host hist w owner a r sv)
  show ?case by (rule service_change_ok [OF host.IH registration_frame(2) [OF host.hyps(2)]])
next
  case (hook hist w owner h r sv)
  show ?case by (rule service_change_ok [OF hook.IH registration_frame(3) [OF hook.hyps(2)]])
next
  case (closed_handle hist w kind n already)
  show ?case by (rule service_change_ok [OF closed_handle.IH registration_frame(4)])
next
  case (entered hist w p cancelled r w')
  then show ?case by (blast intro: policy_enter_ok)
next
  case (written hist w p read c r w')
  then show ?case by (blast intro: policy_write_ok [OF pay])
next
  case (committed hist w p)
  then show ?case by (blast intro: policy_commit_ok)
next
  case (aborted hist w i cl)
  then show ?case by (blast intro: approve_abort_ok)
next
  case (began hist w i q tool call_id reason cancelled)
  then show ?case by (blast intro: approve_begin_ok)
next
  case (reserved hist w i cl turn r w')
  then show ?case by (blast intro: approve_reserve_ok)
next
  case (recorded hist w i cl rv read c)
  then show ?case by (blast intro: approve_record_ok)
next
  case (hooked hist w i cl rv)
  then show ?case by (blast intro: approve_hooks_ok)
next
  case (heard hist w i cl rv asking r)
  then show ?case by (blast intro: approve_answer_ok)
next
  case (settled hist w i cl rv out)
  then show ?case by (blast intro: approve_settle_ok)
next
  case (decided hist w i cl rv out read)
  then show ?case by (blast intro: approve_decide_ok)
qed

end
