(* ===== verification/Approval_Theorems.thy ===== *)
theory Approval_Theorems
  imports Approval_Properties Agent_Samples
begin

text \<open>
  What a call that may proceed has gone through and which policy is in force, over every interleaving; and a concrete
  call from its start to its decision.
\<close>

section \<open>A call\<close>

abbreviation approval_sample :: "moment list \<Rightarrow> memory approval_world \<Rightarrow> bool" where
  "approval_sample \<equiv> approval_run wire_codec (memory_persistence wire_codec) approval_wire True"

definition sample_service :: "u64 \<Rightarrow> u64 list \<Rightarrow> approval_service" where
  "sample_service n waiting = \<lparr>sv_authority = sample_owner, sv_policy = Ask, sv_next_id = n, sv_pending = waiting, sv_answerers = [(1, LocalAnswerer 7)],
     sv_host_answerers = [], sv_hooks = []\<rparr>"

definition approval_sample_call :: "approval_phase \<Rightarrow> approval_call" where
  "approval_sample_call ph = \<lparr>cl_request = \<lparr>aq_action = ''bash'', aq_details = JNull\<rparr>, cl_tool_name = ''bash'', cl_call_id = Some ''c1'', cl_reason = None,
     cl_cancelled = False, cl_phase = ph\<rparr>"

definition approval_sample_world :: "session_event list \<Rightarrow> approval_service \<Rightarrow> approval_gate \<Rightarrow> (string \<times> approval_call) list \<Rightarrow> memory approval_world" where
  "approval_sample_world es sv g calls = \<lparr>aw_agents = registry_one, aw_session = plain_session plain_log es, aw_disk = memory_of es, aw_service = sv,
     aw_gate = g, aw_calls = calls\<rparr>"

abbreviation sample_reservation :: reservation where
  "sample_reservation \<equiv> \<lparr>rv_turn = 1, rv_generation = 2, rv_policy = Ask, rv_hooks = [], rv_answerers = [LocalAnswerer 7]\<rparr>"

abbreviation approval_asked_event :: session_event where
  "approval_asked_event \<equiv> approval_event ''approval/asked'' 2 (obj [(''action'', JStr ''bash''), (''approvalId'', JStr ''a1''), (''turn'', jnat 1)])"

abbreviation approval_decided_event :: session_event where
  "approval_decided_event \<equiv> approval_event ''approval/decided'' 3 (obj [(''allowed'', JBool True), (''approvalId'', JStr ''a1''), (''turn'', jnat 1)])"

lemma approval_sample_facts:
  "active_turn (session_events (plain_session plain_log [])) = Some 1"
  "active_turn (session_events (plain_session plain_log [approval_asked_event])) = Some 1"
  "next_seq (session_events (plain_session plain_log [])) = Inr 2"
  "next_seq (session_events (plain_session plain_log [approval_asked_event])) = Inr 3"
  "replay_policy approval_wire (session_events (plain_session plain_log [])) = Inr Ask"
  "request_valid \<lparr>aq_action = ''bash'', aq_details = JNull\<rparr>"
  by code_simp+

lemma approval_sample_appends:
  "session_append wire_codec (memory_persistence wire_codec) (plain_session plain_log []) approval_asked_event (None, memory_of [])
     = (Inr (plain_session plain_log [approval_asked_event]), None, memory_of [approval_asked_event])"
  "session_append wire_codec (memory_persistence wire_codec) (plain_session plain_log [approval_asked_event]) approval_decided_event
      (None, memory_of [approval_asked_event])
     = (Inr (plain_session plain_log [approval_asked_event, approval_decided_event]), None, memory_of [approval_asked_event, approval_decided_event])"
  by code_simp+

lemmas approval_sample_defs = approval_sample_world_def approval_sample_call_def sample_service_def sample_owner_facts service_live_def approval_turn_def
  approval_sample_facts approval_append_def approval_sample_appends set_call_def

lemma approval_sample_checked: "approval_sample [] (approval_sample_world [] (sample_service 1 []) GateFree [(''a1'', approval_sample_call (ApChecked 1))])"
proof -
  let ?sv = "(sample_service 0 [])\<lparr>sv_answerers := []\<rparr>" and ?s = "plain_session plain_log []"
  have "approval_service_new approval_wire sample_owner ?s registry_one = Inr ?sv"
    by (simp add: approval_service_new_def approval_sample_defs plain_session_id)
  then have "approval_sample [] (approval_sample_world [] ?sv GateFree [])"
    unfolding approval_sample_world_def by (rule approval_run.start)
  moreover have "approval_register_answerer sample_owner (LocalAnswerer 7) registry_one ?sv = (Inr 1, sample_service 1 [])"
    by (simp add: approval_register_answerer_def require_owner_def approval_next_id_def checked_add_u64_def u64_max_def approval_sample_defs)
  ultimately have "approval_sample [] ((approval_sample_world [] ?sv GateFree [])\<lparr>aw_service := sample_service 1 []\<rparr>)"
    by (intro approval_run.answerer [where owner = sample_owner and a = "LocalAnswerer 7" and r = "Inr 1"]) (simp_all add: approval_sample_world_def)
  then have w: "approval_sample [] (approval_sample_world [] (sample_service 1 []) GateFree [])" by (simp add: approval_sample_world_def)
  have "approve_begin ''a1'' \<lparr>aq_action = ''bash'', aq_details = JNull\<rparr> ''bash'' (Some ''c1'') None False (approval_sample_world [] (sample_service 1 []) GateFree [])
    = approval_sample_world [] (sample_service 1 []) GateFree [(''a1'', approval_sample_call (ApChecked 1))]"
    by (simp add: approve_begin_def approval_sample_defs)
  with approval_run.began [OF w, of "''a1''" "\<lparr>aq_action = ''bash'', aq_details = JNull\<rparr>" "''bash''" "Some ''c1''" None False] show ?thesis
    by (simp add: approval_sample_world_def)
qed

text \<open>The call passes the gate, is recorded, asks the answerer, which allows it, and is decided.\<close>

abbreviation sample_passed :: "moment list" where
  "sample_passed \<equiv> [Passed ''a1'' (sample_service 1 [])]"

abbreviation sample_history :: "moment list" where
  "sample_history \<equiv> sample_passed @ [Heard ''a1'' (LocalAnswerer 7) (Said True)]"

lemma approval_sample_asking:
  "approval_sample sample_passed (approval_sample_world [approval_asked_event] (sample_service 2 [2]) GateFree
     [(''a1'', approval_sample_call (ApAsking sample_reservation [LocalAnswerer 7]))])"
proof -
  let ?w = "\<lambda>es sv g ph. approval_sample_world es sv g [(''a1'', approval_sample_call ph)]"
  have call: "map_of (aw_calls (?w es sv g ph)) ''a1'' = Some (approval_sample_call ph)" "cl_phase (approval_sample_call ph) = ph" for es sv g ph
    by (simp_all add: approval_sample_world_def approval_sample_call_def)
  have "approve_reserve ''a1'' (approval_sample_call (ApChecked 1)) 1 (?w [] (sample_service 1 []) GateFree (ApChecked 1))
    = (Some sample_reservation, ?w [] (sample_service 2 []) (GateCall ''a1'') (ApReserved sample_reservation))"
    by (simp add: approve_reserve_def approval_next_id_def checked_add_u64_def u64_max_def reservation_of_def service_answerers_def approval_sample_defs Let_def del: One_nat_def)
  from approval_run.reserved [OF approval_sample_checked call _ this]
  have 1: "approval_sample sample_passed (?w [] (sample_service 2 []) (GateCall ''a1'') (ApReserved sample_reservation))" by (simp add: approval_sample_world_def)
  have "approve_record wire_codec (memory_persistence wire_codec) approval_wire ''a1'' (approval_sample_call (ApReserved sample_reservation)) sample_reservation
      (plain_session plain_log []) None (?w [] (sample_service 2 []) (GateCall ''a1'') (ApReserved sample_reservation))
    = ?w [approval_asked_event] (sample_service 2 [2]) GateFree (ApRecorded sample_reservation)"
    by (simp add: approve_record_def asked_of_def approval_wire_def approval_sample_defs del: One_nat_def)
  with approval_run.recorded [OF 1 call, of "plain_session plain_log []" None]
  have 2: "approval_sample sample_passed (?w [approval_asked_event] (sample_service 2 [2]) GateFree (ApRecorded sample_reservation))" by simp
  have "approve_hooks ''a1'' (approval_sample_call (ApRecorded sample_reservation)) sample_reservation
      (?w [approval_asked_event] (sample_service 2 [2]) GateFree (ApRecorded sample_reservation))
    = ?w [approval_asked_event] (sample_service 2 [2]) GateFree (ApAsking sample_reservation [LocalAnswerer 7])"
    by (simp add: approve_hooks_def hooks_deny_def approval_sample_defs del: One_nat_def)
  with approval_run.hooked [OF 2 call] show ?thesis by simp
qed

lemma approval_sample_decided:
  "approval_sample sample_history (approval_sample_world [approval_asked_event, approval_decided_event] (sample_service 2 []) GateFree
     [(''a1'', approval_sample_call (ApReturned AllowedOnce))])"
proof -
  let ?w = "\<lambda>es sv g ph. approval_sample_world es sv g [(''a1'', approval_sample_call ph)]" and ?rv = sample_reservation
  have call: "map_of (aw_calls (?w es sv g ph)) ''a1'' = Some (approval_sample_call ph)" "cl_phase (approval_sample_call ph) = ph" for es sv g ph
    by (simp_all add: approval_sample_world_def approval_sample_call_def)
  have "approve_answer ''a1'' (approval_sample_call (ApAsking ?rv [LocalAnswerer 7])) ?rv [LocalAnswerer 7] (Said True)
      (?w [approval_asked_event] (sample_service 2 [2]) GateFree (ApAsking ?rv [LocalAnswerer 7]))
    = ?w [approval_asked_event] (sample_service 2 [2]) GateFree (ApSettling ?rv AllowedOnce)"
    by (simp add: approve_answer_def approval_sample_defs del: One_nat_def)
  moreover have "heard_now ''a1'' (approval_sample_call (ApAsking ?rv [LocalAnswerer 7])) [LocalAnswerer 7] (Said True) = [Heard ''a1'' (LocalAnswerer 7) (Said True)]"
    by (simp add: heard_now_def approval_sample_call_def)
  ultimately have 1: "approval_sample sample_history (?w [approval_asked_event] (sample_service 2 [2]) GateFree (ApSettling ?rv AllowedOnce))"
    using approval_run.heard [OF approval_sample_asking call, of "Said True"] by simp
  have "approve_settle ''a1'' (approval_sample_call (ApSettling ?rv AllowedOnce)) ?rv AllowedOnce
      (?w [approval_asked_event] (sample_service 2 [2]) GateFree (ApSettling ?rv AllowedOnce))
    = ?w [approval_asked_event] (sample_service 2 []) (GateCall ''a1'') (ApFinal ?rv AllowedOnce)"
    by (simp add: approve_settle_def Let_def approval_sample_defs del: One_nat_def)
  with approval_run.settled [OF 1 call]
  have 2: "approval_sample sample_history (?w [approval_asked_event] (sample_service 2 []) (GateCall ''a1'') (ApFinal ?rv AllowedOnce))"
    by (simp add: approval_sample_world_def)
  have "approve_decide wire_codec (memory_persistence wire_codec) approval_wire ''a1'' ?rv AllowedOnce (plain_session plain_log [approval_asked_event])
      (?w [approval_asked_event] (sample_service 2 []) (GateCall ''a1'') (ApFinal ?rv AllowedOnce))
    = ?w [approval_asked_event, approval_decided_event] (sample_service 2 []) GateFree (ApReturned AllowedOnce)"
    by (simp add: approve_decide_def approval_wire_def allows_def approval_sample_defs del: One_nat_def)
  with approval_run.decided [OF 2 call, of "plain_session plain_log [approval_asked_event]"] show ?thesis by simp
qed

section \<open>Theorems\<close>

text \<open>C26: approvals fail closed. When a call returns that the action may proceed, then at the gate the policy was to ask, no hook registered there
  denied the request, a registered answerer said yes, and the session's log has the request, then a moment at which
  the turn of the request was active, and then the recorded decision. No interleaving of calls, changes of the policy, registrations,
  cancellations, panicking hooks, failing appends and other writers, writers of policy events included, gives it otherwise. When
  only the service writes the policy, the request was also recorded while the policy of the log was to ask.\<close>

theorem allowed_only_when_granted:
  assumes "approval_run cdc ops pc own hist w" and "approval_payloads pc" and "map_of (aw_calls w) i = Some cl" and "cl_phase cl = ApReturned AllowedOnce"
  shows "\<exists>sv turn. Passed i sv \<in> set hist \<and> sv_policy sv = Ask \<and> (\<forall>h \<in> snd ` set (sv_hooks sv). h (cl_request cl) = HookSilent)
    \<and> (\<exists>a \<in> set (service_answerers sv). Heard i a (Said True) \<in> set hist)
    \<and> has_decision own pc (sv_authority (aw_service w)) i cl Ask turn AllowedOnce (session_events (aw_session w))"
  using approvals_okD(2) [OF approval_run_ok [OF assms(1,2)] assms(3)] assms(4) by (auto simp: granted_def silent_def)

theorem allowed_only_when_granted_witness:
  "\<exists>sv turn. Passed ''a1'' sv \<in> set sample_history
    \<and> has_decision True approval_wire sample_owner ''a1'' (approval_sample_call (ApReturned AllowedOnce)) Ask turn AllowedOnce
        (session_events (plain_session plain_log [approval_asked_event, approval_decided_event]))"
  using allowed_only_when_granted [OF approval_sample_decided approval_wire.approval_payloads_axioms, of "''a1''" "approval_sample_call (ApReturned AllowedOnce)"]
  by (auto simp: approval_sample_world_def approval_sample_call_def sample_service_def)



end
