(* ===== verification/Host_Approvals.thy ===== *)
theory Host_Approvals
  imports Approvals
begin

text \<open>
  The host's registry of browser approvals in \<open>src/src/approval.rs\<close>: the slots of the live agents, the pending requests, the browser's
  responses, cancellations, what the session relay reports, and the answerer that waits for a response. A waiting answerer is a
  process with the one-shot channel of its request; its clock is the registry's, in ticks.
\<close>

section \<open>Data\<close>

record approval_requested =
  ar_rpc_id :: string
  ar_session :: string
  ar_approval_id :: string
  ar_tool_name :: string
  ar_call_id :: "string option"
  ar_reason :: "string option"

datatype approval_notice =
    ApprovalRequestedNotice approval_requested
  | ApprovalResolvedNotice string string string approval_outcome

type_synonym pending_key = "string \<times> string"

definition key_of_requested :: "approval_requested \<Rightarrow> pending_key" where
  "key_of_requested r = (ar_session r, ar_approval_id r)"

definition key_of_asked :: "approval_asked \<Rightarrow> pending_key" where
  "key_of_asked a = (ad_session a, ad_approval_id a)"

text \<open>\<open>in_sender\<close>: the entry still has the sending half of its channel.\<close>

record interaction =
  in_requested :: approval_requested
  in_generation :: agent_authority
  in_turn :: u64
  in_sender :: bool
  in_deadline :: nat
  in_claimed :: bool

record host_slot =
  hs_authority :: agent_authority
  hs_answerer :: u64

text \<open>A waiting answerer: what its channel holds, its cancellation token, and its answer once it has one.\<close>

record host_wait =
  hw_key :: pending_key
  hw_channel :: "approval_outcome option"
  hw_cancelled :: bool
  hw_deadline :: nat
  hw_answer :: "answer option"

record host_approvals =
  ha_agents :: registry
  ha_now :: nat
  ha_slots :: "(string \<times> host_slot) list"
  ha_entries :: "(string \<times> interaction) list"
  ha_relayed_asked :: "pending_key list"
  ha_relayed_order :: "pending_key list"
  ha_notices :: "approval_notice list"
  ha_max_pending :: nat
  ha_deadline :: nat
  ha_waits :: "(string \<times> host_wait) list"

datatype host_approval_error = HaNotLive | HaOwnerMismatch | HaAlreadyInstalled | HaApproval approval_error

definition host_approvals_with_limits :: "registry \<Rightarrow> nat \<Rightarrow> nat \<Rightarrow> nat \<Rightarrow> host_approvals" where
  "host_approvals_with_limits agents now limit deadline = \<lparr>ha_agents = agents, ha_now = now, ha_slots = [], ha_entries = [], ha_relayed_asked = [],
     ha_relayed_order = [], ha_notices = [], ha_max_pending = limit, ha_deadline = deadline, ha_waits = []\<rparr>"

section \<open>Slots\<close>

text \<open>The answerer is registered before the slot is taken; when the slot is occupied its registration is dropped.\<close>

definition host_install ::
  "agent_authority \<Rightarrow> approval_service \<Rightarrow> host_approvals \<Rightarrow> (host_approval_error + unit) \<times> approval_service \<times> host_approvals" where
  "host_install owner sv w =
     (if \<not> authority_live owner (ha_agents w) then (Inl HaNotLive, sv, w)
      else if owner \<noteq> sv_authority sv then (Inl HaOwnerMismatch, sv, w)
      else case approval_register_host owner (HostAnswerer owner) (ha_agents w) sv of
        (Inl e, sv') \<Rightarrow> (Inl (HaApproval e), sv', w)
      | (Inr n, sv') \<Rightarrow>
          if map_of (ha_slots w) (au_id owner) \<noteq> None then (Inl HaAlreadyInstalled, approval_close KindHostAnswerer n False sv', w)
          else (Inr (), sv', w\<lparr>ha_slots := bt_insert (au_id owner) \<lparr>hs_authority = owner, hs_answerer = n\<rparr> (ha_slots w)\<rparr>))"

definition host_lookup :: "string \<Rightarrow> host_approvals \<Rightarrow> agent_authority option" where
  "host_lookup x w =
     (case map_of (ha_slots w) x of
        None \<Rightarrow> None
      | Some slot \<Rightarrow> if authority_live (hs_authority slot) (ha_agents w) then Some (hs_authority slot) else None)"

text \<open>\<open>sv\<close> is the service in the slot.\<close>

definition host_register_answerer ::
  "string \<Rightarrow> answerer \<Rightarrow> approval_service \<Rightarrow> host_approvals \<Rightarrow> (host_approval_error + u64) \<times> approval_service" where
  "host_register_answerer x a sv w =
     (case host_lookup x w of
        None \<Rightarrow> (Inl HaNotLive, sv)
      | Some au \<Rightarrow> (case approval_register_answerer au a (ha_agents w) sv of (r, sv') \<Rightarrow> (map_err HaApproval r, sv')))"

section \<open>Requests and responses\<close>

definition open_entry :: "nat \<Rightarrow> interaction \<Rightarrow> bool" where
  "open_entry now e \<longleftrightarrow> \<not> in_claimed e \<and> in_deadline e > now"

definition host_snapshots :: "host_approvals \<Rightarrow> approval_requested list" where
  "host_snapshots w = map (\<lambda>(rpc, e). in_requested e) (filter (\<lambda>(rpc, e). open_entry (ha_now w) e) (ha_entries w))"

definition host_is_pending :: "string \<Rightarrow> host_approvals \<Rightarrow> bool" where
  "host_is_pending rpc w = (case map_of (ha_entries w) rpc of None \<Rightarrow> False | Some e \<Rightarrow> open_entry (ha_now w) e)"

definition set_wait :: "string \<Rightarrow> (host_wait \<Rightarrow> host_wait) \<Rightarrow> host_approvals \<Rightarrow> host_approvals" where
  "set_wait rpc f w = (case map_of (ha_waits w) rpc of None \<Rightarrow> w | Some h \<Rightarrow> w\<lparr>ha_waits := bt_insert rpc (f h) (ha_waits w)\<rparr>)"

text \<open>Sending fails when the answerer no longer waits.\<close>

definition host_send :: "string \<Rightarrow> approval_outcome \<Rightarrow> host_approvals \<Rightarrow> bool \<times> host_approvals" where
  "host_send rpc out w =
     (case map_of (ha_waits w) rpc of
        None \<Rightarrow> (False, w)
      | Some h \<Rightarrow> if hw_answer h = None then (True, set_wait rpc (\<lambda>h. h\<lparr>hw_channel := Some out\<rparr>) w) else (False, w))"

definition host_respond :: "string \<Rightarrow> string \<Rightarrow> string \<Rightarrow> approval_outcome \<Rightarrow> host_approvals \<Rightarrow> rpc_receipt \<times> host_approvals" where
  "host_respond rpc x approval out w =
     (if out \<noteq> AllowedOnce \<and> out \<noteq> Rejected then (BadResponse, w)
      else case map_of (ha_entries w) rpc of
        None \<Rightarrow> (NotPending, w)
      | Some e \<Rightarrow>
          if in_claimed e \<or> in_deadline e \<le> ha_now w then (NotPending, w)
          else if ar_session (in_requested e) \<noteq> x \<or> ar_approval_id (in_requested e) \<noteq> approval then (BadResponse, w)
          else
            let w1 = w\<lparr>ha_entries := bt_insert rpc (e\<lparr>in_claimed := True, in_sender := False\<rparr>) (ha_entries w)\<rparr>
            in if in_sender e then (case host_send rpc out w1 of (sent, w2) \<Rightarrow> (if sent then Accepted else NotPending, w2))
               else (Accepted, w1))"

section \<open>The relay\<close>

fun trim_relayed :: "nat \<Rightarrow> pending_key list \<Rightarrow> pending_key list \<Rightarrow> pending_key list \<times> pending_key list" where
  "trim_relayed limit asked [] = (asked, [])"
| "trim_relayed limit asked (k # ks) =
     (if length (k # ks) > limit then trim_relayed limit (removeAll k asked) ks else (asked, k # ks))"

definition remember_relayed_asked :: "pending_key \<Rightarrow> host_approvals \<Rightarrow> host_approvals" where
  "remember_relayed_asked k w =
     (if ha_max_pending w = 0 \<or> k \<in> set (ha_relayed_asked w) then w
      else case trim_relayed (ha_max_pending w) (k # ha_relayed_asked w) (ha_relayed_order w @ [k]) of
        (asked, order) \<Rightarrow> w\<lparr>ha_relayed_asked := asked, ha_relayed_order := order\<rparr>)"

definition observe_asked :: "approval_asked \<Rightarrow> host_approvals \<Rightarrow> host_approvals" where
  "observe_asked a w =
     (let w1 = remember_relayed_asked (key_of_asked a) w
      in case List.find (\<lambda>(rpc, e). key_of_requested (in_requested e) = key_of_asked a \<and> \<not> in_claimed e) (ha_entries w1) of
           None \<Rightarrow> w1
         | Some (rpc, e) \<Rightarrow> w1\<lparr>ha_notices := ha_notices w1 @ [ApprovalRequestedNotice (in_requested e)]\<rparr>)"

definition observe_decided :: "string \<Rightarrow> approval_decision \<Rightarrow> host_approvals \<Rightarrow> host_approvals" where
  "observe_decided x d w =
     (case List.find (\<lambda>(rpc, e). key_of_requested (in_requested e) = (x, dc_approval_id d)) (ha_entries w) of
        None \<Rightarrow> w
      | Some (rpc, e) \<Rightarrow>
          w\<lparr>ha_entries := bt_remove rpc (ha_entries w),
            ha_notices := ha_notices w @ [ApprovalResolvedNotice (ar_rpc_id (in_requested e)) (ar_session (in_requested e))
              (ar_approval_id (in_requested e)) (dc_outcome d)]\<rparr>)"

section \<open>Cancellation\<close>

definition claim_entry :: "interaction \<Rightarrow> interaction" where
  "claim_entry e = e\<lparr>in_claimed := True, in_sender := False\<rparr>"

text \<open>An entry that is withdrawn also cancels the token of its answerer.\<close>

definition cancel_pending :: "(interaction \<Rightarrow> bool) \<Rightarrow> host_approvals \<Rightarrow> host_approvals" where
  "cancel_pending P w =
     (let hit = (\<lambda>e. P e \<and> \<not> in_claimed e);
          ids = map fst (filter (\<lambda>(rpc, e). hit e) (ha_entries w))
      in w\<lparr>ha_entries := map (\<lambda>(rpc, e). (rpc, if hit e then claim_entry e else e)) (ha_entries w),
           ha_waits := map (\<lambda>(rpc, h). (rpc, if rpc \<in> set ids then h\<lparr>hw_cancelled := True\<rparr> else h)) (ha_waits w)\<rparr>)"

definition host_cancel_session :: "string \<Rightarrow> host_approvals \<Rightarrow> host_approvals" where
  "host_cancel_session x = cancel_pending (\<lambda>e. ar_session (in_requested e) = x)"

definition host_cancel_turn :: "string \<Rightarrow> u64 \<Rightarrow> host_approvals \<Rightarrow> host_approvals" where
  "host_cancel_turn x turn = cancel_pending (\<lambda>e. ar_session (in_requested e) = x \<and> in_turn e = turn)"

definition host_cancel_all :: "host_approvals \<Rightarrow> host_approvals" where
  "host_cancel_all = cancel_pending (\<lambda>_. True)"

definition host_close :: "agent_authority \<Rightarrow> bool \<Rightarrow> host_approvals \<Rightarrow> bool \<times> host_approvals" where
  "host_close au already w =
     (if already then (False, w)
      else if map_option hs_authority (map_of (ha_slots w) (au_id au)) = Some au
      then (True, cancel_pending (\<lambda>e. in_generation e = au) (w\<lparr>ha_slots := bt_remove (au_id au) (ha_slots w)\<rparr>))
      else (False, w))"

section \<open>The answerer\<close>

text \<open>\<open>None\<close> when the request is not admitted: the answerer then declines at once.\<close>

definition register_pending ::
  "string \<Rightarrow> string \<Rightarrow> agent_authority \<Rightarrow> approval_asked \<Rightarrow> bool \<Rightarrow> host_approvals \<Rightarrow> host_approvals option" where
  "register_pending rpc x au a cancelled w =
     (if ad_session a \<noteq> x \<or> ad_approval_id a = [] then None
      else case map_of (ha_slots w) x of
        None \<Rightarrow> None
      | Some slot \<Rightarrow>
          if hs_authority slot \<noteq> au \<or> \<not> authority_live au (ha_agents w) then None
          else if ha_max_pending w = 0 \<or> length (ha_entries w) \<ge> ha_max_pending w then None
          else
            let requested = \<lparr>ar_rpc_id = rpc, ar_session = x, ar_approval_id = ad_approval_id a, ar_tool_name = ad_tool_name a,
                  ar_call_id = ad_call_id a, ar_reason = ad_reason a\<rparr>;
                deadline = ha_now w + ha_deadline w;
                emit = key_of_asked a \<in> set (ha_relayed_asked w)
            in Some (w\<lparr>ha_entries := bt_insert rpc \<lparr>in_requested = requested, in_generation = au, in_turn = ad_turn a, in_sender = True,
                          in_deadline = deadline, in_claimed = False\<rparr> (ha_entries w),
                       ha_waits := bt_insert rpc \<lparr>hw_key = key_of_asked a, hw_channel = None, hw_cancelled = cancelled, hw_deadline = deadline,
                          hw_answer = None\<rparr> (ha_waits w),
                       ha_notices := ha_notices w @ (if emit then [ApprovalRequestedNotice requested] else [])\<rparr>))"

fun claim_first :: "pending_key \<Rightarrow> (string \<times> interaction) list \<Rightarrow> (string \<times> interaction) list" where
  "claim_first k [] = []"
| "claim_first k ((rpc, e) # es) = (if key_of_requested (in_requested e) = k then (rpc, claim_entry e) # es else (rpc, e) # claim_first k es)"

definition claim_timeout :: "pending_key \<Rightarrow> host_approvals \<Rightarrow> host_approvals" where
  "claim_timeout k w = w\<lparr>ha_entries := claim_first k (ha_entries w)\<rparr>"

definition answer_of :: "approval_outcome \<Rightarrow> answer" where
  "answer_of out = (case out of AllowedOnce \<Rightarrow> Said True | Rejected \<Rightarrow> Said False | _ \<Rightarrow> Declined)"

text \<open>One poll of a waiting answerer: its token first, then the channel, which is closed when its sender is gone unused, then the clock.
  \<open>None\<close>: it goes on waiting.\<close>

definition answer_poll :: "string \<Rightarrow> host_wait \<Rightarrow> host_approvals \<Rightarrow> (answer \<times> host_approvals) option" where
  "answer_poll rpc h w =
     (if hw_cancelled h then Some (Declined, w)
      else case hw_channel h of
        Some out \<Rightarrow> Some (answer_of out, w)
      | None \<Rightarrow>
          (case map_of (ha_entries w) rpc of
             None \<Rightarrow> Some (Declined, w)
           | Some e \<Rightarrow>
               if \<not> in_sender e then Some (Declined, w)
               else if hw_deadline h \<le> ha_now w then Some (Declined, claim_timeout (hw_key h) w)
               else None))"

definition answer_step :: "string \<Rightarrow> host_wait \<Rightarrow> host_approvals \<Rightarrow> host_approvals option" where
  "answer_step rpc h w = map_option (\<lambda>(r, w'). set_wait rpc (\<lambda>h. h\<lparr>hw_answer := Some r\<rparr>) w') (answer_poll rpc h w)"

end
