(* ===== verification/Host_Approval_Properties.thy ===== *)
theory Host_Approval_Properties
  imports Host_Approvals Agent_Samples
begin

text \<open>
  All interleavings of browser responses, waiting answerers, the clock, slots, cancellations and reports of the relay. A run
  collects the responses that were receipted as accepted; the label of a step is the key of a decision that the relay reports.
\<close>

section \<open>The system\<close>

type_synonym accepted = "(string \<times> pending_key \<times> approval_outcome) list"

definition receipt_of :: "rpc_receipt \<Rightarrow> string \<Rightarrow> pending_key \<Rightarrow> approval_outcome \<Rightarrow> accepted" where
  "receipt_of receipt rpc k out = (if receipt = Accepted then [(rpc, k, out)] else [])"

inductive host_step :: "pending_key option \<Rightarrow> accepted \<times> host_approvals \<Rightarrow> accepted \<times> host_approvals \<Rightarrow> bool" where
  agents: "host_step None (acc, w) (acc, w\<lparr>ha_agents := r\<rparr>)"
| tick: "host_step None (acc, w) (acc, w\<lparr>ha_now := ha_now w + n\<rparr>)"
| installed: "host_install owner sv w = (r, sv', w') \<Longrightarrow> host_step None (acc, w) (acc, w')"
| closed_slot: "host_close au already w = (b, w') \<Longrightarrow> host_step None (acc, w) (acc, w')"
| withdrawn: "host_step None (acc, w) (acc, cancel_pending P w)"
| aborted: "host_step None (acc, w) (acc, set_wait rpc (\<lambda>h. h\<lparr>hw_cancelled := True\<rparr>) w)"
| responded: "host_respond rpc x approval out w = (receipt, w') \<Longrightarrow> host_step None (acc, w) (acc @ receipt_of receipt rpc (x, approval) out, w')"
| relayed: "host_step None (acc, w) (acc, observe_asked a w)"
| decision: "host_step (Some (x, dc_approval_id d)) (acc, w) (acc, observe_decided x d w)"
| admitted: "map_of (ha_waits w) rpc = None \<Longrightarrow> register_pending rpc x au a cancelled w = Some w' \<Longrightarrow> host_step None (acc, w) (acc, w')"
| polled: "map_of (ha_waits w) rpc = Some h \<Longrightarrow> hw_answer h = None \<Longrightarrow> answer_step rpc h w = Some w' \<Longrightarrow> host_step None (acc, w) (acc, w')"

inductive host_run :: "accepted \<Rightarrow> host_approvals \<Rightarrow> bool" where
  start: "host_run [] (host_approvals_with_limits agents now limit deadline)"
| step: "host_run acc w \<Longrightarrow> host_step l (acc, w) (acc', w') \<Longrightarrow> host_run acc' w'"

section \<open>The invariant\<close>

definition wait_ok :: "accepted \<Rightarrow> string \<Rightarrow> host_wait \<Rightarrow> bool" where
  "wait_ok acc rpc h \<longleftrightarrow>
     (\<forall>out. hw_channel h = Some out \<longrightarrow> (rpc, hw_key h, out) \<in> set acc \<and> (out = AllowedOnce \<or> out = Rejected))
     \<and> (\<forall>b. hw_answer h = Some (Said b) \<longrightarrow> (rpc, hw_key h, if b then AllowedOnce else Rejected) \<in> set acc)"

definition entry_ok :: "accepted \<Rightarrow> host_approvals \<Rightarrow> string \<Rightarrow> interaction \<Rightarrow> bool" where
  "entry_ok acc w rpc e \<longleftrightarrow>
     in_claimed e = (\<not> in_sender e) \<and> (\<not> in_claimed e \<longrightarrow> rpc \<notin> fst ` set acc)
     \<and> (\<exists>h. map_of (ha_waits w) rpc = Some h \<and> hw_key h = key_of_requested (in_requested e))"

definition relayed_ok :: "host_approvals \<Rightarrow> bool" where
  "relayed_ok w \<longleftrightarrow> set (ha_relayed_asked w) = set (ha_relayed_order w) \<and> distinct (ha_relayed_order w) \<and> length (ha_relayed_order w) \<le> ha_max_pending w"

definition host_ok :: "accepted \<Rightarrow> host_approvals \<Rightarrow> bool" where
  "host_ok acc w \<longleftrightarrow>
     bt_sorted (ha_entries w) \<and> length (ha_entries w) \<le> ha_max_pending w \<and> relayed_ok w \<and> distinct (map fst acc)
     \<and> (\<forall>rpc \<in> fst ` set acc. map_of (ha_waits w) rpc \<noteq> None)
     \<and> (\<forall>rpc h. map_of (ha_waits w) rpc = Some h \<longrightarrow> wait_ok acc rpc h)
     \<and> (\<forall>rpc e. map_of (ha_entries w) rpc = Some e \<longrightarrow> entry_ok acc w rpc e)"

section \<open>Association lists\<close>

lemma length_bt_insert: "bt_sorted kvs \<Longrightarrow> length (bt_insert k v kvs) = (if k \<in> fst ` set kvs then length kvs else Suc (length kvs))"
  by (induction k v kvs rule: bt_insert.induct) (auto simp: bt_sorted_def)

lemma map_of_map_values: "map_of (map (\<lambda>(k, v). (k, f k v)) kvs) k = map_option (f k) (map_of kvs k)"
  by (induction kvs) auto

lemma fst_map_values: "map fst (map (\<lambda>(k, v). (k, f k v)) kvs) = map fst kvs"
  by (induction kvs) auto

lemma fst_claim_first: "map fst (claim_first k kvs) = map fst kvs"
  by (induction k kvs rule: claim_first.induct) auto

lemma map_of_claim_first:
  "map_of (claim_first k kvs) rpc = map_of kvs rpc \<or> map_of (claim_first k kvs) rpc = map_option claim_entry (map_of kvs rpc)"
  by (induction k kvs rule: claim_first.induct) auto

lemma trim_relayed_ok:
  assumes "trim_relayed limit asked order = (asked', order')" and "distinct order" and "set asked = set order"
  shows "set asked' = set order' \<and> distinct order' \<and> length order' \<le> limit"
  using assms
proof (induction limit asked order arbitrary: asked' order' rule: trim_relayed.induct)
  case (2 limit asked k ks)
  show ?case
  proof (cases "length (k # ks) > limit")
    case True
    with 2 show ?thesis by (intro "2.IH") auto
  qed (use 2 in auto)
qed simp

section \<open>The steps\<close>

lemma host_okI:
  assumes "bt_sorted (ha_entries w)" "length (ha_entries w) \<le> ha_max_pending w" "relayed_ok w" "distinct (map fst acc)"
    "\<And>rpc. rpc \<in> fst ` set acc \<Longrightarrow> map_of (ha_waits w) rpc \<noteq> None"
    "\<And>rpc h. map_of (ha_waits w) rpc = Some h \<Longrightarrow> wait_ok acc rpc h"
    "\<And>rpc e. map_of (ha_entries w) rpc = Some e \<Longrightarrow> entry_ok acc w rpc e"
  shows "host_ok acc w"
  using assms unfolding host_ok_def by blast

lemma host_okD:
  assumes "host_ok acc w"
  shows "bt_sorted (ha_entries w)" "length (ha_entries w) \<le> ha_max_pending w" "relayed_ok w" "distinct (map fst acc)"
    "rpc \<in> fst ` set acc \<Longrightarrow> \<exists>h. map_of (ha_waits w) rpc = Some h"
    "map_of (ha_waits w) rpc = Some h \<Longrightarrow> wait_ok acc rpc h"
    "map_of (ha_entries w) rpc = Some e \<Longrightarrow> entry_ok acc w rpc e"
  using assms unfolding host_ok_def by auto

lemma bt_sorted_keys: "map fst kvs' = map fst kvs \<Longrightarrow> bt_sorted kvs' = bt_sorted kvs \<and> length kvs' = length kvs"
  by (metis bt_sorted_def length_map)

text \<open>A step that only claims entries and changes no key, channel or answer of a waiting answerer.\<close>

lemma host_ok_claims:
  assumes ok: "host_ok acc w" and keys: "map fst (ha_entries w') = map fst (ha_entries w)"
    and entries: "\<And>rpc. map_of (ha_entries w') rpc = map_of (ha_entries w) rpc \<or> map_of (ha_entries w') rpc = map_option claim_entry (map_of (ha_entries w) rpc)"
    and waits: "\<And>rpc. map_of (ha_waits w') rpc = map_of (ha_waits w) rpc
      \<or> map_of (ha_waits w') rpc = map_option (\<lambda>h. h\<lparr>hw_cancelled := True\<rparr>) (map_of (ha_waits w) rpc)
      \<or> map_of (ha_waits w') rpc = map_option (\<lambda>h. h\<lparr>hw_answer := Some Declined\<rparr>) (map_of (ha_waits w) rpc)"
    and rest: "ha_max_pending w' = ha_max_pending w" "ha_relayed_asked w' = ha_relayed_asked w" "ha_relayed_order w' = ha_relayed_order w"
  shows "host_ok acc w'"
proof (rule host_okI)
  show "bt_sorted (ha_entries w')" "length (ha_entries w') \<le> ha_max_pending w'"
    using bt_sorted_keys [OF keys] host_okD(1,2) [OF ok] rest by simp_all
  show "relayed_ok w'" using host_okD(3) [OF ok] rest by (simp add: relayed_ok_def)
  show "map_of (ha_waits w') rpc \<noteq> None" if "rpc \<in> fst ` set acc" for rpc
    using host_okD(5) [OF ok that] waits [of rpc] by auto
  show "wait_ok acc rpc h" if "map_of (ha_waits w') rpc = Some h" for rpc h
  proof -
    from that waits [of rpc] obtain g where g: "map_of (ha_waits w) rpc = Some g" and
      h: "h = g \<or> h = g\<lparr>hw_cancelled := True\<rparr> \<or> h = g\<lparr>hw_answer := Some Declined\<rparr>" by (cases "map_of (ha_waits w) rpc") auto
    from host_okD(6) [OF ok g] h show ?thesis by (auto simp: wait_ok_def)
  qed
  show "entry_ok acc w' rpc e" if "map_of (ha_entries w') rpc = Some e" for rpc e
  proof -
    from that entries [of rpc] obtain d where d: "map_of (ha_entries w) rpc = Some d" "e = d \<or> e = claim_entry d"
      by (cases "map_of (ha_entries w) rpc") auto
    from host_okD(7) [OF ok d(1)] obtain h where h: "map_of (ha_waits w) rpc = Some h" "hw_key h = key_of_requested (in_requested d)"
      and c: "in_claimed d = (\<not> in_sender d)" "\<not> in_claimed d \<longrightarrow> rpc \<notin> fst ` set acc" by (auto simp: entry_ok_def)
    from h waits [of rpc] obtain h' where "map_of (ha_waits w') rpc = Some h'" "hw_key h' = hw_key h" by auto
    with d(2) h(2) c show ?thesis by (auto simp: entry_ok_def claim_entry_def)
  qed
qed (rule host_okD(4) [OF ok])

lemma map_option_if: "map_option (\<lambda>v. if c v then f v else v) x = x \<or> map_option (\<lambda>v. if c v then f v else v) x = map_option f x"
  by (cases x) auto

lemma cancel_pending_ok:
  assumes "host_ok acc w"
  shows "host_ok acc (cancel_pending P w)"
proof (rule host_ok_claims [OF assms])
  fix rpc
  show "map_of (ha_entries (cancel_pending P w)) rpc = map_of (ha_entries w) rpc
      \<or> map_of (ha_entries (cancel_pending P w)) rpc = map_option claim_entry (map_of (ha_entries w) rpc)"
    unfolding cancel_pending_def Let_def by (simp add: map_of_map_values) (rule map_option_if)
  have "map_of (ha_waits (cancel_pending P w)) rpc = map_of (ha_waits w) rpc
      \<or> map_of (ha_waits (cancel_pending P w)) rpc = map_option (\<lambda>h. h\<lparr>hw_cancelled := True\<rparr>) (map_of (ha_waits w) rpc)"
    unfolding cancel_pending_def Let_def by (simp add: map_of_map_values) (rule map_option_if)
  then show "map_of (ha_waits (cancel_pending P w)) rpc = map_of (ha_waits w) rpc
      \<or> map_of (ha_waits (cancel_pending P w)) rpc = map_option (\<lambda>h. h\<lparr>hw_cancelled := True\<rparr>) (map_of (ha_waits w) rpc)
      \<or> map_of (ha_waits (cancel_pending P w)) rpc = map_option (\<lambda>h. h\<lparr>hw_answer := Some Declined\<rparr>) (map_of (ha_waits w) rpc)"
    by blast
qed (auto simp: cancel_pending_def Let_def)

lemma set_wait_frame [simp]:
  "ha_entries (set_wait rpc f w) = ha_entries w" "ha_max_pending (set_wait rpc f w) = ha_max_pending w"
  "ha_relayed_asked (set_wait rpc f w) = ha_relayed_asked w" "ha_relayed_order (set_wait rpc f w) = ha_relayed_order w"
  by (simp_all add: set_wait_def split: option.splits)

lemma map_of_set_wait: "map_of (ha_waits (set_wait rpc f w)) r = (if r = rpc then map_option f (map_of (ha_waits w) r) else map_of (ha_waits w) r)"
  by (simp add: set_wait_def split: option.splits)

lemma remember_ok:
  assumes "relayed_ok w"
  shows "relayed_ok (remember_relayed_asked k w)"
proof (cases "ha_max_pending w = 0 \<or> k \<in> set (ha_relayed_asked w)")
  case False
  obtain asked order where t: "trim_relayed (ha_max_pending w) (k # ha_relayed_asked w) (ha_relayed_order w @ [k]) = (asked, order)" by (rule prod.exhaust)
  from trim_relayed_ok [OF t] assms False have "set asked = set order \<and> distinct order \<and> length order \<le> ha_max_pending w"
    by (auto simp: relayed_ok_def)
  with False t show ?thesis by (simp add: remember_relayed_asked_def relayed_ok_def)
qed (use assms in \<open>auto simp: remember_relayed_asked_def\<close>)

lemma observe_asked_frame:
  "ha_entries (observe_asked a w) = ha_entries w" "ha_waits (observe_asked a w) = ha_waits w" "ha_max_pending (observe_asked a w) = ha_max_pending w"
  "relayed_ok (observe_asked a w) = relayed_ok (remember_relayed_asked (key_of_asked a) w)"
  by (auto simp: observe_asked_def remember_relayed_asked_def relayed_ok_def Let_def split: option.splits prod.splits)

lemma observe_asked_ok: "host_ok acc w \<Longrightarrow> host_ok acc (observe_asked a w)"
  using remember_ok [of w "key_of_asked a"]
  by (auto simp: host_ok_def observe_asked_frame entry_ok_def)

lemma observe_decided_ok:
  assumes ok: "host_ok acc w"
  shows "host_ok acc (observe_decided x d w)"
proof (cases "List.find (\<lambda>(rpc, e). key_of_requested (in_requested e) = (x, dc_approval_id d)) (ha_entries w)")
  case (Some p)
  obtain rpc e where p: "p = (rpc, e)" by (cases p)
  have "length (bt_remove rpc (ha_entries w)) \<le> length (ha_entries w)" by (simp add: bt_remove_def)
  with ok have "length (bt_remove rpc (ha_entries w)) \<le> ha_max_pending w" by (auto simp: host_ok_def)
  with ok Some p show ?thesis by (auto simp: host_ok_def observe_decided_def bt_sorted_remove relayed_ok_def entry_ok_def)
qed (use ok in \<open>simp add: observe_decided_def\<close>)

lemma register_pending_ok:
  assumes ok: "host_ok acc w" and fresh: "map_of (ha_waits w) rpc = None" and run: "register_pending rpc x au a cancelled w = Some w'"
  shows "host_ok acc w'"
proof -
  have new: "rpc \<notin> fst ` set acc" "map_of (ha_entries w) rpc = None"
    using host_okD(5) [OF ok, of rpc] host_okD(7) [OF ok, of rpc] fresh by (auto simp: entry_ok_def) (metis not_Some_eq)
  from run have full: "length (ha_entries w) < ha_max_pending w" and x: "ad_session a = x"
    by (auto simp: register_pending_def Let_def split: if_splits option.splits)
  let ?q = "\<lparr>ar_rpc_id = rpc, ar_session = x, ar_approval_id = ad_approval_id a, ar_tool_name = ad_tool_name a, ar_call_id = ad_call_id a,
    ar_reason = ad_reason a\<rparr>"
  let ?e = "\<lparr>in_requested = ?q, in_generation = au, in_turn = ad_turn a, in_sender = True, in_deadline = ha_now w + ha_deadline w, in_claimed = False\<rparr>"
  let ?h = "\<lparr>hw_key = key_of_asked a, hw_channel = None, hw_cancelled = cancelled, hw_deadline = ha_now w + ha_deadline w, hw_answer = None\<rparr>"
  have w': "w' = w\<lparr>ha_entries := bt_insert rpc ?e (ha_entries w), ha_waits := bt_insert rpc ?h (ha_waits w),
      ha_notices := ha_notices w @ (if key_of_asked a \<in> set (ha_relayed_asked w) then [ApprovalRequestedNotice ?q] else [])\<rparr>" using run
    by (auto simp: register_pending_def Let_def split: if_splits option.splits)
  have key: "key_of_requested ?q = key_of_asked a" using x by (simp add: key_of_requested_def key_of_asked_def)
  show ?thesis
  proof (rule host_okI)
    show "length (ha_entries w') \<le> ha_max_pending w'" using full by (simp add: w' length_bt_insert [OF host_okD(1) [OF ok]])
    show "wait_ok acc r h" if "map_of (ha_waits w') r = Some h" for r h
      using that host_okD(6) [OF ok, of r] by (auto simp: w' wait_ok_def split: if_splits)
    show "entry_ok acc w' r d" if "map_of (ha_entries w') r = Some d" for r d
      using that host_okD(7) [OF ok, of r] key new by (auto simp: w' entry_ok_def split: if_splits)
  qed (use host_okD(1-5) [OF ok] in \<open>auto simp: w' bt_sorted_insert relayed_ok_def\<close>)
qed

lemma answer_step_ok:
  assumes ok: "host_ok acc w" and h: "map_of (ha_waits w) rpc = Some h" and run: "answer_step rpc h w = Some w'"
  shows "host_ok acc w'"
proof -
  from run obtain r w1 where poll: "answer_poll rpc h w = Some (r, w1)" and w': "w' = set_wait rpc (\<lambda>h. h\<lparr>hw_answer := Some r\<rparr>) w1"
    by (auto simp: answer_step_def)
  consider (Declined) "r = Declined" "w1 = w \<or> w1 = claim_timeout (hw_key h) w" | (Said) out where "hw_channel h = Some out" "r = answer_of out" "w1 = w"
    using poll by (auto simp: answer_poll_def split: if_splits option.splits)
  then show ?thesis
  proof cases
    case Declined
    have "map fst (ha_entries w1) = map fst (ha_entries w)" "ha_waits w1 = ha_waits w" "ha_max_pending w1 = ha_max_pending w"
      "ha_relayed_asked w1 = ha_relayed_asked w" "ha_relayed_order w1 = ha_relayed_order w"
      using Declined(2) by (auto simp: claim_timeout_def fst_claim_first)
    moreover have "map_of (ha_entries w1) s = map_of (ha_entries w) s \<or> map_of (ha_entries w1) s = map_option claim_entry (map_of (ha_entries w) s)" for s
      using Declined(2) map_of_claim_first [of "hw_key h" "ha_entries w" s] by (auto simp: claim_timeout_def)
    ultimately show ?thesis unfolding w' by (intro host_ok_claims [OF ok]) (auto simp: map_of_set_wait Declined(1))
  next
    case Said
    from host_okD(6) [OF ok h] Said(1) have "(rpc, hw_key h, out) \<in> set acc" "out = AllowedOnce \<or> out = Rejected" by (auto simp: wait_ok_def)
    then have "wait_ok acc rpc (h\<lparr>hw_answer := Some r\<rparr>)" using host_okD(6) [OF ok h] Said(2) by (auto simp: wait_ok_def answer_of_def)
    note this_wait = this
    show ?thesis unfolding w' Said(3)
    proof (rule host_okI)
      let ?w = "set_wait rpc (\<lambda>h. h\<lparr>hw_answer := Some r\<rparr>) w"
      show "wait_ok acc s g" if "map_of (ha_waits ?w) s = Some g" for s g
        using that this_wait h host_okD(6) [OF ok, of s] by (auto simp: map_of_set_wait split: if_splits)
      show "entry_ok acc ?w s e" if "map_of (ha_entries ?w) s = Some e" for s e
        using that host_okD(7) [OF ok, of s e] by (auto simp: map_of_set_wait entry_ok_def)
      show "map_of (ha_waits ?w) s \<noteq> None" if "s \<in> fst ` set acc" for s using host_okD(5) [OF ok that] by (auto simp: map_of_set_wait)
    qed (use host_okD(1-4) [OF ok] in \<open>auto simp: relayed_ok_def\<close>)
  qed
qed

lemma map_fst_bt_insert: "bt_sorted kvs \<Longrightarrow> k \<in> fst ` set kvs \<Longrightarrow> map fst (bt_insert k v kvs) = map fst kvs"
  by (induction k v kvs rule: bt_insert.induct) (auto simp: bt_sorted_def)

lemma claimed_ok:
  assumes ok: "host_ok acc w" and e: "map_of (ha_entries w) rpc = Some e"
  shows "host_ok acc (w\<lparr>ha_entries := bt_insert rpc (claim_entry e) (ha_entries w)\<rparr>)"
proof (rule host_ok_claims [OF ok])
  have "rpc \<in> fst ` set (ha_entries w)" using e by (metis map_of_SomeD fst_conv image_eqI)
  with host_okD(1) [OF ok] show "map fst (ha_entries (w\<lparr>ha_entries := bt_insert rpc (claim_entry e) (ha_entries w)\<rparr>)) = map fst (ha_entries w)"
    by (simp add: map_fst_bt_insert)
qed (use e in auto)

text \<open>A response reaches the channel of an answerer whose request it claims for the first time.\<close>

lemma sent_ok:
  assumes ok: "host_ok acc w" and fresh: "rpc \<notin> fst ` set acc" and h: "map_of (ha_waits w) rpc = Some h"
    and claimed: "\<And>e. map_of (ha_entries w) rpc = Some e \<Longrightarrow> in_claimed e" and out: "out = AllowedOnce \<or> out = Rejected"
  shows "host_ok (acc @ [(rpc, hw_key h, out)]) (set_wait rpc (\<lambda>h. h\<lparr>hw_channel := Some out\<rparr>) w)"
proof (rule host_okI)
  let ?w = "set_wait rpc (\<lambda>h. h\<lparr>hw_channel := Some out\<rparr>) w" and ?acc = "acc @ [(rpc, hw_key h, out)]"
  show "distinct (map fst ?acc)" using host_okD(4) [OF ok] fresh by auto
  show "map_of (ha_waits ?w) r \<noteq> None" if "r \<in> fst ` set ?acc" for r
    using that host_okD(5) [OF ok, of r] h by (auto simp: map_of_set_wait)
  show "wait_ok ?acc r g" if "map_of (ha_waits ?w) r = Some g" for r g
    using that h host_okD(6) [OF ok, of r] out by (auto simp: map_of_set_wait wait_ok_def split: if_splits)
  show "entry_ok ?acc ?w r e" if "map_of (ha_entries ?w) r = Some e" for r e
    using that host_okD(7) [OF ok, of r e] claimed [of e] by (cases "r = rpc") (auto simp: map_of_set_wait entry_ok_def)
qed (use host_okD(1-3) [OF ok] in \<open>auto simp: relayed_ok_def\<close>)

lemma host_respond_ok:
  assumes ok: "host_ok acc w" and run: "host_respond rpc x approval out w = (receipt, w')"
  shows "host_ok (acc @ receipt_of receipt rpc (x, approval) out) w'"
proof (cases "(out = AllowedOnce \<or> out = Rejected) \<and> (\<exists>e. map_of (ha_entries w) rpc = Some e \<and> \<not> in_claimed e \<and> ha_now w < in_deadline e
    \<and> ar_session (in_requested e) = x \<and> ar_approval_id (in_requested e) = approval)")
  case False
  with run have "w' = w" "receipt \<noteq> Accepted" by (auto simp: host_respond_def split: if_splits option.splits)
  with ok show ?thesis by (simp add: receipt_of_def)
next
  case True
  then obtain e where e: "map_of (ha_entries w) rpc = Some e" "\<not> in_claimed e" "ha_now w < in_deadline e" and k: "key_of_requested (in_requested e) = (x, approval)"
    and out: "out = AllowedOnce \<or> out = Rejected" by (auto simp: key_of_requested_def)
  let ?w = "w\<lparr>ha_entries := bt_insert rpc (claim_entry e) (ha_entries w)\<rparr>"
  from host_okD(7) [OF ok e(1)] e(2) k obtain h where h: "map_of (ha_waits w) rpc = Some h" "hw_key h = (x, approval)"
    and fresh: "rpc \<notin> fst ` set acc" and s: "in_sender e" by (auto simp: entry_ok_def)
  have c: "host_ok acc ?w" by (rule claimed_ok [OF ok e(1)])
  have r: "(receipt, w') = (case host_send rpc out ?w of (sent, w2) \<Rightarrow> (if sent then Accepted else NotPending, w2))"
    using run e k out s by (auto simp: host_respond_def key_of_requested_def claim_entry_def Let_def)
  show ?thesis
  proof (cases "hw_answer h")
    case None
    with r h have "receipt = Accepted" "w' = set_wait rpc (\<lambda>h. h\<lparr>hw_channel := Some out\<rparr>) ?w" by (simp_all add: host_send_def)
    with sent_ok [OF c fresh, of h out] h out show ?thesis by (simp add: receipt_of_def claim_entry_def)
  next
    case (Some q)
    with r h have "receipt = NotPending" "w' = ?w" by (simp_all add: host_send_def)
    with c show ?thesis by (simp add: receipt_of_def)
  qed
qed

lemma host_ok_same: "host_ok acc w \<Longrightarrow> ha_entries w' = ha_entries w \<Longrightarrow> ha_waits w' = ha_waits w \<Longrightarrow> ha_max_pending w' = ha_max_pending w
    \<Longrightarrow> ha_relayed_asked w' = ha_relayed_asked w \<Longrightarrow> ha_relayed_order w' = ha_relayed_order w \<Longrightarrow> host_ok acc w'"
  by (rule host_ok_claims) auto

lemma host_install_frame:
  "host_install owner sv w = (r, sv', w') \<Longrightarrow> \<exists>slots. w' = w\<lparr>ha_slots := slots\<rparr>"
proof -
  assume "host_install owner sv w = (r, sv', w')"
  then have "w' = w \<or> (\<exists>slots. w' = w\<lparr>ha_slots := slots\<rparr>)" by (auto simp: host_install_def split: if_splits prod.splits sum.splits)
  moreover have "w = w\<lparr>ha_slots := ha_slots w\<rparr>" by simp
  ultimately show ?thesis by blast
qed

lemma host_step_ok:
  assumes "host_step l (acc, w) (acc', w')" and ok: "host_ok acc w"
  shows "host_ok acc' w'"
  using assms(1)
proof cases
  case (installed owner sv r sv')
  with host_install_frame [OF installed(3)] ok show ?thesis by (auto intro: host_ok_same)
next
  case (closed_slot au already b)
  have "host_ok acc (w\<lparr>ha_slots := s\<rparr>)" for s by (rule host_ok_same [OF ok]) simp_all
  with closed_slot ok show ?thesis by (auto simp: host_close_def cancel_pending_ok split: if_splits)
next
  case (aborted rpc)
  show ?thesis unfolding aborted(2,3) by (rule host_ok_claims [OF ok]) (auto simp: map_of_set_wait)
qed (use ok in \<open>auto intro: host_ok_same host_respond_ok cancel_pending_ok observe_asked_ok observe_decided_ok register_pending_ok answer_step_ok\<close>)

lemma host_run_ok: "host_run acc w \<Longrightarrow> host_ok acc w"
proof (induction rule: host_run.induct)
  case (start agents now limit deadline)
  then show ?case by (simp add: host_ok_def host_approvals_with_limits_def relayed_ok_def bt_sorted_def)
next
  case (step acc w l acc' w')
  then show ?case by (blast intro: host_step_ok)
qed

section \<open>Entries leave by decisions only\<close>

text \<open>A step in which the relay reports no decision about a request of the registry.\<close>

definition undecided_step :: "accepted \<times> host_approvals \<Rightarrow> accepted \<times> host_approvals \<Rightarrow> bool" where
  "undecided_step s s' \<longleftrightarrow> (\<exists>l. host_step l s s' \<and> (\<forall>k. l = Some k \<longrightarrow> k \<notin> (\<lambda>(rpc, e). key_of_requested (in_requested e)) ` set (ha_entries (snd s))))"

lemma sorted_keys_length:
  assumes "bt_sorted kvs" "bt_sorted kvs'" "fst ` set kvs \<subseteq> fst ` set kvs'"
  shows "length kvs \<le> length kvs'"
proof -
  have "card (fst ` set xs) = length xs" if "bt_sorted xs" for xs :: "('a \<times> 'c) list"
    using bt_sorted_distinct [OF that] by (metis distinct_card length_map set_map)
  moreover have "card (fst ` set xs) = length xs" if "bt_sorted xs" for xs :: "('a \<times> 'b) list"
    using bt_sorted_distinct [OF that] by (metis distinct_card length_map set_map)
  ultimately show ?thesis using assms card_mono [OF _ assms(3)] by (metis List.finite_set finite_imageI)
qed

lemma undecided_keeps_entries:
  assumes "undecided_step (acc, w) (acc', w')"
  shows "dom (map_of (ha_entries w)) \<subseteq> dom (map_of (ha_entries w')) \<and> ha_max_pending w' = ha_max_pending w"
proof -
  from assms obtain l where step: "host_step l (acc, w) (acc', w')"
    and l: "\<And>k. l = Some k \<Longrightarrow> k \<notin> (\<lambda>(rpc, e). key_of_requested (in_requested e)) ` set (ha_entries w)" by (auto simp: undecided_step_def)
  have cancel: "dom (map_of (ha_entries (cancel_pending P v))) = dom (map_of (ha_entries v))" "ha_max_pending (cancel_pending P v) = ha_max_pending v" for P v
    unfolding dom_map_of_conv_image_fst by (force simp: cancel_pending_def Let_def)+
  from step show ?thesis
  proof cases
    case (installed owner sv r sv')
    with host_install_frame [OF installed(3)] show ?thesis by auto
  next
    case (closed_slot au already b)
    then have "w' = w \<or> (\<exists>P s. w' = cancel_pending P (w\<lparr>ha_slots := s\<rparr>))" by (auto simp: host_close_def split: if_splits)
    then show ?thesis by (elim disjE exE) (simp_all add: cancel)
  next
    case (responded rpc x approval out receipt)
    then show ?thesis
      by (auto simp: host_respond_def host_send_def Let_def split: if_splits option.splits prod.splits)
  next
    case (decision x d)
    with l [of "(x, dc_approval_id d)"] have "List.find (\<lambda>(rpc, e). key_of_requested (in_requested e) = (x, dc_approval_id d)) (ha_entries w) = None"
      by (auto simp: find_None_iff image_iff)
    with decision show ?thesis by (simp add: observe_decided_def)
  next
    case (admitted rpc x au a cancelled)
    then show ?thesis by (auto simp: register_pending_def Let_def split: if_splits option.splits)
  next
    case (polled rpc h)
    then obtain q where w': "w' = set_wait rpc (\<lambda>h. h\<lparr>hw_answer := Some q\<rparr>) w \<or> w' = set_wait rpc (\<lambda>h. h\<lparr>hw_answer := Some q\<rparr>) (claim_timeout (hw_key h) w)"
      by (auto simp: answer_step_def answer_poll_def split: if_splits option.splits)
    have "dom (map_of (claim_first (hw_key h) (ha_entries w))) = dom (map_of (ha_entries w))"
      unfolding dom_map_of_conv_image_fst using fst_claim_first [of "hw_key h" "ha_entries w"] by (metis image_set)
    with w' show ?thesis by (elim disjE) (simp_all add: claim_timeout_def)
  qed (auto simp: cancel observe_asked_frame)
qed

section \<open>A request that runs out of time\<close>

definition sample_asked_request :: "string \<Rightarrow> approval_asked" where
  "sample_asked_request i = \<lparr>ad_approval_id = i, ad_session = ''s1'', ad_turn = 1, ad_policy = Ask, ad_action = ''bash'', ad_tool_name = ''bash'',
     ad_call_id = None, ad_reason = None\<rparr>"

definition sample_entry :: "bool \<Rightarrow> interaction" where
  "sample_entry taken = \<lparr>in_requested = \<lparr>ar_rpc_id = ''r1'', ar_session = ''s1'', ar_approval_id = ''a1'', ar_tool_name = ''bash'', ar_call_id = None,
     ar_reason = None\<rparr>, in_generation = sample_owner, in_turn = 1, in_sender = \<not> taken, in_deadline = 60, in_claimed = taken\<rparr>"

definition sample_wait :: "approval_outcome option \<Rightarrow> answer option \<Rightarrow> host_wait" where
  "sample_wait channel r = \<lparr>hw_key = (''s1'', ''a1''), hw_channel = channel, hw_cancelled = False, hw_deadline = 60, hw_answer = r\<rparr>"

definition sample_host :: "nat \<Rightarrow> (string \<times> interaction) list \<Rightarrow> (string \<times> host_wait) list \<Rightarrow> host_approvals" where
  "sample_host now entries waits = \<lparr>ha_agents = registry_one, ha_now = now, ha_slots = [(''s1'', \<lparr>hs_authority = sample_owner, hs_answerer = 1\<rparr>)],
     ha_entries = entries, ha_relayed_asked = [], ha_relayed_order = [], ha_notices = [], ha_max_pending = 1, ha_deadline = 60, ha_waits = waits\<rparr>"

lemma sample_installed: "host_run [] (sample_host 0 [] [])"
proof -
  let ?sv = "\<lparr>sv_authority = sample_owner, sv_policy = Ask, sv_next_id = 0, sv_pending = [], sv_answerers = [], sv_host_answerers = [], sv_hooks = []\<rparr>"
  have "\<exists>sv'. host_install sample_owner ?sv (host_approvals_with_limits registry_one 0 1 60) = (Inr (), sv', sample_host 0 [] [])"
    by (simp add: host_install_def host_approvals_with_limits_def approval_register_host_def require_owner_def approval_next_id_def checked_add_u64_def
        u64_max_def sample_owner_facts sample_host_def Let_def)
  then obtain sv' where "host_install sample_owner ?sv (host_approvals_with_limits registry_one 0 1 60) = (Inr (), sv', sample_host 0 [] [])" by blast
  from host_run.step [OF host_run.start host_step.installed [OF this]] show ?thesis .
qed

lemma sample_admitted: "host_run [] (sample_host 0 [(''r1'', sample_entry False)] [(''r1'', sample_wait None None)])"
proof -
  have "register_pending ''r1'' ''s1'' sample_owner (sample_asked_request ''a1'') False (sample_host 0 [] [])
    = Some (sample_host 0 [(''r1'', sample_entry False)] [(''r1'', sample_wait None None)])"
    by (simp add: register_pending_def sample_host_def sample_asked_request_def sample_entry_def sample_wait_def sample_owner_facts key_of_asked_def Let_def)
  from host_run.step [OF sample_installed host_step.admitted [OF _ this]] show ?thesis by (simp add: sample_host_def)
qed

lemma sample_allowed:
  "host_run [(''r1'', (''s1'', ''a1''), AllowedOnce)] (sample_host 0 [(''r1'', sample_entry True)] [(''r1'', sample_wait (Some AllowedOnce) (Some (Said True)))])"
proof -
  have "host_respond ''r1'' ''s1'' ''a1'' AllowedOnce (sample_host 0 [(''r1'', sample_entry False)] [(''r1'', sample_wait None None)])
    = (Accepted, sample_host 0 [(''r1'', sample_entry True)] [(''r1'', sample_wait (Some AllowedOnce) None)])"
    by (simp add: host_respond_def host_send_def set_wait_def sample_host_def sample_entry_def sample_wait_def Let_def)
  from host_run.step [OF sample_admitted host_step.responded [OF this]]
  have 1: "host_run [(''r1'', (''s1'', ''a1''), AllowedOnce)] (sample_host 0 [(''r1'', sample_entry True)] [(''r1'', sample_wait (Some AllowedOnce) None)])"
    by (simp add: receipt_of_def)
  have "answer_step ''r1'' (sample_wait (Some AllowedOnce) None) (sample_host 0 [(''r1'', sample_entry True)] [(''r1'', sample_wait (Some AllowedOnce) None)])
    = Some (sample_host 0 [(''r1'', sample_entry True)] [(''r1'', sample_wait (Some AllowedOnce) (Some (Said True)))])"
    by (simp add: answer_step_def answer_poll_def answer_of_def set_wait_def sample_host_def sample_wait_def)
  from host_run.step [OF 1 host_step.polled [OF _ _ this]] show ?thesis by (simp add: sample_host_def sample_wait_def)
qed

lemma sample_timed_out:
  "undecided_step\<^sup>*\<^sup>* ([], sample_host 0 [(''r1'', sample_entry False)] [(''r1'', sample_wait None None)])
     ([], sample_host 61 [(''r1'', sample_entry True)] [(''r1'', sample_wait None (Some Declined))])"
proof -
  let ?w = "\<lambda>now. sample_host now [(''r1'', sample_entry False)] [(''r1'', sample_wait None None)]"
  have "host_step None ([], ?w 0) ([], (?w 0)\<lparr>ha_now := ha_now (?w 0) + 61\<rparr>)" by (rule host_step.tick)
  then have 1: "undecided_step ([], ?w 0) ([], ?w 61)" unfolding undecided_step_def by (auto simp: sample_host_def)
  have "answer_step ''r1'' (sample_wait None None) (?w 61) = Some (sample_host 61 [(''r1'', sample_entry True)] [(''r1'', sample_wait None (Some Declined))])"
    by (simp add: answer_step_def answer_poll_def claim_timeout_def claim_entry_def key_of_requested_def set_wait_def sample_host_def sample_wait_def sample_entry_def)
  from host_step.polled [OF _ _ this, of "[]"] have "undecided_step ([], ?w 61) ([], sample_host 61 [(''r1'', sample_entry True)] [(''r1'', sample_wait None (Some Declined))])"
    unfolding undecided_step_def by (auto simp: sample_host_def sample_wait_def)
  with 1 show ?thesis by (meson converse_rtranclp_into_rtranclp r_into_rtranclp)
qed

section \<open>Theorems\<close>

text \<open>C28: the browser decides each request at most once, and only its own. When the host's answerer answers, it says what the one response says that
  was ever receipted as accepted for its request, and that response named the session and the approval of the request, over every
  interleaving of responses, time-outs, cancellations, closed slots and reports of the relay.\<close>

theorem browser_answer_was_receipted:
  assumes "host_run acc w" and "map_of (ha_waits w) rpc = Some h" and "hw_answer h = Some (Said b)"
  shows "filter (\<lambda>(r, _). r = rpc) acc = [(rpc, hw_key h, if b then AllowedOnce else Rejected)]"
  using host_okD(6) [OF host_run_ok [OF assms(1)] assms(2)] assms(3)
  by (intro filter_fst_unique host_okD(4) [OF host_run_ok [OF assms(1)]]) (simp add: wait_ok_def)

theorem browser_answer_was_receipted_witness:
  "filter (\<lambda>(r, _). r = ''r1'') [(''r1'', (''s1'', ''a1''), AllowedOnce)] = [(''r1'', (''s1'', ''a1''), AllowedOnce)]"
  using browser_answer_was_receipted [OF sample_allowed, of "''r1''" "sample_wait (Some AllowedOnce) (Some (Said True))" True]
  by (simp add: sample_host_def sample_wait_def)

text \<open>C29: the registry's memory is bounded. In every reachable state it holds at most the configured number of pending requests and
  remembers at most as many relayed requests, and the set of these is exactly the queue by which the oldest is forgotten.\<close>

theorem host_approvals_bounded:
  assumes "host_run acc w"
  shows "length (ha_entries w) \<le> ha_max_pending w \<and> length (ha_relayed_order w) \<le> ha_max_pending w
    \<and> distinct (ha_relayed_order w) \<and> set (ha_relayed_asked w) = set (ha_relayed_order w)"
  using host_okD(2,3) [OF host_run_ok [OF assms]] by (simp add: relayed_ok_def)

theorem host_approvals_bounded_witness:
  "length (ha_entries (sample_host 0 [(''r1'', sample_entry False)] [(''r1'', sample_wait None None)])) \<le> 1"
  using host_approvals_bounded [OF sample_admitted] by (simp add: sample_host_def)

text \<open>C30: a request leaves the registry only by its recorded decision. Once the registry is full, it refuses every new request for as long as the relay
  reports no decision about one it holds, although the requests it holds may long have been answered, cancelled or timed out. When the
  decision of a call cannot be recorded, its place is never freed.\<close>

theorem full_registry_refuses_until_decision:
  assumes "host_run acc w" and "length (ha_entries w) = ha_max_pending w" and "undecided_step\<^sup>*\<^sup>* (acc, w) (acc', w')"
  shows "register_pending rpc x au a cancelled w' = None"
proof -
  from assms(3) have "host_ok acc' w' \<and> length (ha_entries w') = ha_max_pending w'"
  proof (induction rule: rtranclp_induct2)
    case refl
    then show ?case using assms(2) host_run_ok [OF assms(1)] by simp
  next
    case (step acc1 w1 acc2 w2)
    then have ok: "host_ok acc2 w2" using host_step_ok by (auto simp: undecided_step_def)
    have "length (ha_entries w1) \<le> length (ha_entries w2)"
      by (rule sorted_keys_length)
        (use step ok host_okD(1) undecided_keeps_entries [OF step.hyps(2)] in \<open>auto simp only: dom_map_of_conv_image_fst\<close>)
    with step.IH undecided_keeps_entries [OF step.hyps(2)] host_okD(2) [OF ok] ok show ?case by simp
  qed
  then show ?thesis by (auto simp: register_pending_def split: option.splits)
qed

theorem full_registry_refuses_until_decision_witness:
  "host_snapshots (sample_host 61 [(''r1'', sample_entry True)] [(''r1'', sample_wait None (Some Declined))]) = []
   \<and> register_pending ''r2'' ''s1'' sample_owner (sample_asked_request ''a2'') False
       (sample_host 61 [(''r1'', sample_entry True)] [(''r1'', sample_wait None (Some Declined))]) = None"
  using full_registry_refuses_until_decision [OF sample_admitted _ sample_timed_out]
  by (simp add: host_snapshots_def open_entry_def sample_host_def sample_entry_def)

end
