(* ===== verification/Agent_Loop.thy ===== *)
theory Agent_Loop
  imports Inbox_Durable Permissions Tool_Runtime Agent_Registry
begin

text \<open>
  The turn of an agent in \<open>src/src/agent_loop.rs\<close>: claiming messages, the context messages, the model call with its retries, the
  tool calls and the ends of steps and turns. A turn is a function of a world that holds the session, the agent's cancellation token,
  the live inbox and the moves that everything else (senders, other writers of the session, running tools) makes: one move
  before every append of the loop and every look at the inbox. The model, the prompt, skills, compaction and tools are
  parameters; the token is the number of polls that still succeed. A turn that does not return is \<open>None\<close>: so is the answer of a
  model call whose stream never ends, of a compaction or of a tool that never returns or panics.
\<close>

section \<open>World\<close>

type_synonym 'p surroundings = "session \<times> 'p \<times> inbox_state"

record generation =
  gn_message :: message
  gn_usage :: "json option"
  gn_finish :: finish_reason

text \<open>What a stream of the model gives: an error, or a chunk with what the assembler makes of it.\<close>

type_synonym stream_item = "tessivum_error + json \<times> (tessivum_error + generation option)"

record retry_policy =
  rp_permits :: "string \<Rightarrow> bool"
  rp_key :: string
  rp_max_retries :: "u64 option"
  rp_above_max :: "u64 \<Rightarrow> bool"
  rp_local_delay :: "u64 \<Rightarrow> json"
  rp_given_delay :: "u64 \<Rightarrow> json"
  rp_mode :: json

record skill_catalog =
  sk_complete :: bool
  sk_entries :: "(string \<times> bool \<times> bool) list"
  sk_text :: string

record skill_source =
  sk_catalog :: "session_event list \<Rightarrow> agent_error + skill_catalog"
  sk_get :: "string \<Rightarrow> session_event list \<Rightarrow> agent_error + string"

record 'p loop_env =
  le_codec :: codec
  le_ops :: "'p persistence"
  le_options :: agent_options
  le_max_steps :: u64
  le_clock :: "session_event list \<Rightarrow> u64"
  le_quote :: "string \<Rightarrow> string"
  le_reason_to :: "turn_end_reason \<Rightarrow> json"
  le_header_to :: "epoch_header \<Rightarrow> json"
  le_failure_to :: "llm_failure \<Rightarrow> json"
  le_instructions :: "session_event list \<Rightarrow> string option"
  le_skills :: "skill_source option"
  le_prompt :: "session_event list \<Rightarrow> string + (string option \<times> tool_schema list)"
  le_context_window :: "(string \<Rightarrow> string \<Rightarrow> u64 option) option"
  le_compact :: "(generate_request \<Rightarrow> bool \<Rightarrow> session \<times> 'p \<Rightarrow> ((string \<times> string + bool) \<times> session \<times> 'p) option) option"
  le_generate :: "generate_request \<Rightarrow> session_event list \<Rightarrow> (tessivum_error + stream_item list) option"
  le_retry_policy :: "string \<Rightarrow> retry_policy option"
  le_fresh_id :: "session_event list \<Rightarrow> string"
  le_parse :: "string \<Rightarrow> string + json"
  le_execute :: "string \<Rightarrow> string \<Rightarrow> json \<Rightarrow> session_event list \<Rightarrow> tool_output option"
  le_completion :: "nat \<Rightarrow> session_event list \<Rightarrow> nat list"
  le_show :: "agent_error \<Rightarrow> string"

record 'p loop_world =
  lw_session :: session
  lw_disk :: 'p
  lw_inbox :: inbox_state
  lw_token :: cancel
  lw_cause :: "agent_cancel_cause option"
  lw_last_header :: "json option"
  lw_header_reason :: "string option"
  lw_moves :: "('p surroundings \<Rightarrow> 'p surroundings) list"

abbreviation loop_log :: "'p loop_world \<Rightarrow> session_event list" where
  "loop_log w \<equiv> session_events (lw_session w)"

definition interfere :: "'p loop_world \<Rightarrow> 'p loop_world" where
  "interfere w =
     (case lw_moves w of
        [] \<Rightarrow> w
      | f # fs \<Rightarrow> (case f (lw_session w, lw_disk w, lw_inbox w) of (s, p, ib) \<Rightarrow>
          w\<lparr>lw_session := s, lw_disk := p, lw_inbox := ib, lw_moves := fs\<rparr>))"

type_synonym ('p, 'a) turn = "'p loop_world \<Rightarrow> ((agent_error + 'a) \<times> 'p loop_world) option"

definition turn_return :: "'a \<Rightarrow> ('p, 'a) turn" where
  "turn_return x = (\<lambda>w. Some (Inr x, w))"

definition turn_fail :: "agent_error \<Rightarrow> ('p, 'a) turn" where
  "turn_fail e = (\<lambda>w. Some (Inl e, w))"

definition turn_lift :: "agent_error + 'a \<Rightarrow> ('p, 'a) turn" where
  "turn_lift r = (\<lambda>w. Some (r, w))"

definition turn_stuck :: "('p, 'a) turn" where
  "turn_stuck = (\<lambda>w. None)"

definition turn_bind :: "('p, 'a) turn \<Rightarrow> ('a \<Rightarrow> ('p, 'b) turn) \<Rightarrow> ('p, 'b) turn" where
  "turn_bind m f = (\<lambda>w. case m w of
     None \<Rightarrow> None
   | Some (Inl e, w') \<Rightarrow> Some (Inl e, w')
   | Some (Inr x, w') \<Rightarrow> f x w')"

definition turn_get :: "('p loop_world \<Rightarrow> 'a) \<Rightarrow> ('p, 'a) turn" where
  "turn_get f = (\<lambda>w. Some (Inr (f w), w))"

fun turn_each :: "('a \<Rightarrow> ('p, unit) turn) \<Rightarrow> 'a list \<Rightarrow> ('p, unit) turn" where
  "turn_each f [] = turn_return ()"
| "turn_each f (x # xs) = turn_bind (f x) (\<lambda>_. turn_each f xs)"

fun turn_map :: "('a \<Rightarrow> ('p, 'b) turn) \<Rightarrow> 'a list \<Rightarrow> ('p, 'b list) turn" where
  "turn_map f [] = turn_return []"
| "turn_map f (x # xs) = turn_bind (f x) (\<lambda>y. turn_bind (turn_map f xs) (\<lambda>ys. turn_return (y # ys)))"

definition turn_cancelled :: "('p, bool) turn" where
  "turn_cancelled = (\<lambda>w. case is_cancelled (lw_token w) of (stop, c) \<Rightarrow> Some (Inr stop, w\<lparr>lw_token := c\<rparr>))"

section \<open>Appends\<close>

text \<open>The event is written under the agent's token unless that is cancelled already; then nothing cancels the append.\<close>

definition loop_event :: "'p loop_env \<Rightarrow> string \<Rightarrow> json \<Rightarrow> u64 list option \<Rightarrow> surface_op option \<Rightarrow> session_event list \<Rightarrow> u64 \<Rightarrow> session_event" where
  "loop_event env t data sources op es seq = \<lparr>ev_type = t, ev_seq = seq, ev_time = le_clock env es, ev_data = data, ev_ignorable = None,
     ev_sources = sources, ev_surface_op = op\<rparr>"

definition loop_append :: "'p loop_env \<Rightarrow> string \<Rightarrow> json \<Rightarrow> u64 list option \<Rightarrow> surface_op option \<Rightarrow> ('p, u64) turn" where
  "loop_append env t data sources op w0 =
     (let w = interfere w0; s = lw_session w; build = loop_event env t data sources op (loop_log w) in
      case is_cancelled (lw_token w) of (stop, c) \<Rightarrow>
      case append_next (le_codec env) (le_ops env) s build (if stop then None else c, lw_disk w) of
        (Inl e, c', p) \<Rightarrow> Some (Inl (AgentSession e), w\<lparr>lw_disk := p, lw_token := if stop then c else c'\<rparr>)
      | (Inr (seq, s'), c', p) \<Rightarrow> Some (Inr seq, w\<lparr>lw_session := s', lw_disk := p, lw_token := if stop then c else c'\<rparr>))"

definition json_put :: "string \<Rightarrow> json \<Rightarrow> json \<Rightarrow> json" where
  "json_put k v d = (case d of JObj kvs \<Rightarrow> JObj (bt_insert k v kvs) | _ \<Rightarrow> d)"

definition append_unit :: "'p loop_env \<Rightarrow> string \<Rightarrow> json \<Rightarrow> ('p, unit) turn" where
  "append_unit env t data = turn_bind (loop_append env t data None None) (\<lambda>_. turn_return ())"

definition append_message ::
  "'p loop_env \<Rightarrow> string \<Rightarrow> u64 \<Rightarrow> u64 \<Rightarrow> message \<Rightarrow> u64 list option \<Rightarrow> json option \<Rightarrow> ('p, unit) turn" where
  "append_message env t turn step m sources meta =
     (let data = (if t = ''user/message'' then cd_message_to (le_codec env) m
                  else obj [(''turn'', jnat turn), (''step'', jnat step), (''message'', cd_message_to (le_codec env) m)]);
          data' = (case meta of None \<Rightarrow> data | Some v \<Rightarrow> json_put ''meta'' v data)
      in turn_bind (loop_append env t data' sources (Some SurfaceAppend)) (\<lambda>_. turn_return ()))"

definition append_assistant :: "'p loop_env \<Rightarrow> u64 \<Rightarrow> u64 \<Rightarrow> message \<Rightarrow> json option \<Rightarrow> u64 list \<Rightarrow> ('p, unit) turn" where
  "append_assistant env turn step m usage sources =
     (let data = obj [(''turn'', jnat turn), (''step'', jnat step), (''message'', cd_message_to (le_codec env) m)];
          data' = (case usage of None \<Rightarrow> data | Some u \<Rightarrow> json_put ''usage'' u data)
      in turn_bind (loop_append env ''assistant/message'' data' (Some sources) (Some SurfaceAppend)) (\<lambda>_. turn_return ()))"

definition next_turn :: "session_event list \<Rightarrow> u64" where
  "next_turn es =
     (let ts = List.map_filter (\<lambda>e. if ev_type e = ''turn/start'' then get_u64 ''turn'' (ev_data e) else None) es
      in min u64_max ((if ts = [] then 0 else Max (set ts)) + 1))"

definition turn_step :: "u64 \<Rightarrow> u64 \<Rightarrow> json" where
  "turn_step turn step = obj [(''turn'', jnat turn), (''step'', jnat step)]"

definition close_step :: "'p loop_env \<Rightarrow> u64 \<Rightarrow> u64 \<Rightarrow> ('p, unit) turn" where
  "close_step env turn step = append_unit env ''step/end'' (turn_step turn step)"

definition aborted :: "'p loop_world \<Rightarrow> turn_end_reason" where
  "aborted w = TurnAborted (case lw_cause w of None \<Rightarrow> EndLegacy | Some c \<Rightarrow> turn_end_cause_of c)"

definition end_turn :: "'p loop_env \<Rightarrow> u64 \<Rightarrow> turn_end_reason \<Rightarrow> ('p, unit) turn" where
  "end_turn env turn reason =
     turn_bind turn_cancelled (\<lambda>stop.
     turn_bind (turn_get (\<lambda>w. if stop then aborted w else reason)) (\<lambda>r.
     append_unit env ''turn/end'' (obj [(''turn'', jnat turn), (''reason'', le_reason_to env r)])))"

definition end_aborted :: "'p loop_env \<Rightarrow> u64 \<Rightarrow> ('p, unit) turn" where
  "end_aborted env turn = turn_bind (turn_get aborted) (\<lambda>r. end_turn env turn r)"

definition close_cancelled_step :: "'p loop_env \<Rightarrow> u64 \<Rightarrow> u64 \<Rightarrow> ('p, unit) turn" where
  "close_cancelled_step env turn step = turn_bind (close_step env turn step) (\<lambda>_. end_aborted env turn)"

section \<open>Claims\<close>

definition pointer_str :: "string \<Rightarrow> string \<Rightarrow> json \<Rightarrow> string option" where
  "pointer_str a b d = Option.bind (json_get a d) (get_str b)"

definition durable_inbox_claim :: "session_event list \<Rightarrow> message list \<Rightarrow> bool" where
  "durable_inbox_claim es ms \<longleftrightarrow> ms \<noteq> [] \<and> list_all (\<lambda>m. list_ex (\<lambda>e. ev_type e = ''agent/inbox/enqueued''
     \<and> pointer_str ''message'' ''id'' (ev_data e) = Some (msg_id m)) es) ms"

text \<open>The claim is dropped, and with it its reservation, when its record cannot be written.\<close>

definition commit_inbox_claim :: "'p loop_env \<Rightarrow> inbox_claim \<Rightarrow> ('p, message list) turn" where
  "commit_inbox_claim env cl w =
     (let record = (if durable_inbox_claim (loop_log w) (cl_messages cl) then append_unit env ''agent/inbox/spliced'' (claim_splice cl)
                    else turn_return ())
      in case record w of
           None \<Rightarrow> None
         | Some (Inl e, w') \<Rightarrow> Some (Inl e, w'\<lparr>lw_inbox := abort_claim cl (lw_inbox w')\<rparr>)
         | Some (Inr _, w') \<Rightarrow>
             (case claim_commit cl (lw_inbox w') of
                None \<Rightarrow> None
              | Some (None, ib) \<Rightarrow> Some (Inl (RuntimeFailed ''inbox claim reservation was lost''), w'\<lparr>lw_inbox := ib\<rparr>)
              | Some (Some ms, ib) \<Rightarrow> Some (Inr ms, w'\<lparr>lw_inbox := ib\<rparr>)))"

definition claim_next_turn :: "'p loop_env \<Rightarrow> ('p, message option) turn" where
  "claim_next_turn env w0 =
     (let w = interfere w0 in
      case reserve_next_turn_claim (lw_inbox w) of
        (None, ib) \<Rightarrow> Some (Inr None, w\<lparr>lw_inbox := ib\<rparr>)
      | (Some cl, ib) \<Rightarrow> turn_bind (commit_inbox_claim env cl) (\<lambda>ms. turn_return (if ms = [] then None else Some (last ms))) (w\<lparr>lw_inbox := ib\<rparr>))"

definition claim_step_batch :: "'p loop_env \<Rightarrow> ('p, message list) turn" where
  "claim_step_batch env w0 =
     (let w = interfere w0 in
      case reserve_step_batch_claim (lw_inbox w) of
        (None, ib) \<Rightarrow> Some (Inr [], w\<lparr>lw_inbox := ib\<rparr>)
      | (Some cl, ib) \<Rightarrow> commit_inbox_claim env cl (w\<lparr>lw_inbox := ib\<rparr>))"

definition more_steps :: "('p, bool) turn" where
  "more_steps w0 = (let w = interfere w0 in Some (Inr (has_next_step (lw_inbox w)), w))"

section \<open>Skills\<close>

text \<open>A name after a slash at the start of a word, in words of lower-case letters and digits joined by single hyphens, up to white space.
  Only the bytes of the name and the two characters around it are looked at; white space outside ASCII around a name is not modelled.\<close>

definition name_byte :: "char \<Rightarrow> bool" where
  "name_byte c \<longleftrightarrow> (CHR ''a'' \<le> c \<and> c \<le> CHR ''z'') \<or> (CHR ''0'' \<le> c \<and> c \<le> CHR ''9'')"

fun name_segments :: "nat \<Rightarrow> string \<Rightarrow> string \<times> string" where
  "name_segments 0 rest = ([], rest)"
| "name_segments (Suc n) rest =
     (case rest of
        h # c # more' \<Rightarrow>
          if h = CHR ''-'' \<and> name_byte c
          then (case name_segments n (dropWhile name_byte more') of (segs, left) \<Rightarrow> (h # c # takeWhile name_byte more' @ segs, left))
          else ([], rest)
      | _ \<Rightarrow> ([], rest))"

definition gesture_at :: "char option \<Rightarrow> string \<Rightarrow> string option" where
  "gesture_at prev rest =
     (if (case prev of None \<Rightarrow> False | Some c \<Rightarrow> \<not> blank [c]) \<or> takeWhile name_byte rest = [] then None
      else case name_segments (length rest) (dropWhile name_byte rest) of (segs, left) \<Rightarrow>
        (case left of
           [] \<Rightarrow> Some (takeWhile name_byte rest @ segs)
         | c # _ \<Rightarrow> if blank [c] then Some (takeWhile name_byte rest @ segs) else None))"

fun gestures_from :: "char option \<Rightarrow> string \<Rightarrow> string list" where
  "gestures_from prev [] = []"
| "gestures_from prev (c # rest) =
     (if c = CHR ''/'' then (case gesture_at prev rest of None \<Rightarrow> [] | Some name \<Rightarrow> [name]) else []) @ gestures_from (Some c) rest"

definition skill_gestures :: "string \<Rightarrow> string list" where
  "skill_gestures text = gestures_from None text"

definition user_texts :: "message list \<Rightarrow> string list" where
  "user_texts ms = concat (map (\<lambda>m. case msg_source m of
     SrcUser _ \<Rightarrow> List.map_filter (\<lambda>b. case b of Text t \<Rightarrow> Some t | _ \<Rightarrow> None) (msg_content m) | _ \<Rightarrow> []) ms)"

definition invoked_skill_names :: "message list \<Rightarrow> string list \<Rightarrow> string list" where
  "invoked_skill_names ms available =
     foldl (\<lambda>names name. if name \<in> set available \<and> name \<notin> set names then names @ [name] else names) []
       (concat (map skill_gestures (user_texts ms)))"

definition skill_plugin :: string where
  "skill_plugin = ''@deepseek-ai/dsh-tool-skill''"

fun is_catalog :: "message_source \<Rightarrow> bool" where
  "is_catalog (SrcPlugin plugin _ form _ _) = (plugin = skill_plugin \<and> form = Some Catalog)"
| "is_catalog _ = False"

definition hyphen_id :: "string \<Rightarrow> nat list \<Rightarrow> string" where
  "hyphen_id prefix ns = prefix @ concat (map (\<lambda>n. ''-'' @ show_nat n) ns)"

definition append_skill_context :: "'p loop_env \<Rightarrow> u64 \<Rightarrow> u64 \<Rightarrow> message list \<Rightarrow> ('p, unit) turn" where
  "append_skill_context env turn step ms =
     (case le_skills env of
        None \<Rightarrow> turn_return ()
      | Some src \<Rightarrow>
          turn_bind (turn_get loop_log) (\<lambda>es.
          turn_bind (turn_lift (sk_catalog src es)) (\<lambda>cat.
          turn_bind (turn_get (\<lambda>w. list_ex (\<lambda>m. is_catalog (msg_source m)) (derive_messages (lw_session w)))) (\<lambda>shown.
          turn_bind
            (if sk_complete cat \<and> list_ex (\<lambda>(name, model, user). model) (sk_entries cat) \<and> \<not> shown
             then append_message env ''user/message'' turn step \<lparr>msg_id = hyphen_id ''skill-catalog'' [turn, step], msg_role = User,
                    msg_content = [Text (sk_text cat)], msg_source = SrcPlugin skill_plugin None (Some Catalog) None None\<rparr> None None
             else turn_return ()) (\<lambda>_.
          turn_each (\<lambda>(index, name).
              turn_bind (turn_get loop_log) (\<lambda>es.
              turn_bind (turn_lift (sk_get src name es)) (\<lambda>text.
              append_message env ''user/message'' turn step \<lparr>msg_id = hyphen_id ''skill-invocation'' [turn, step, index], msg_role = User,
                msg_content = [Text text], msg_source = SrcSkillInvocation name Instructions\<rparr> None None)))
            (enumerate 0 (invoked_skill_names ms (map fst (filter (\<lambda>(name, model, user). user) (sk_entries cat))))))))))"

section \<open>Context\<close>

definition runtime_source :: string where
  "runtime_source = ''tessivum/runtime-context''"

fun from_plugin :: "string \<Rightarrow> message_source \<Rightarrow> bool" where
  "from_plugin p (SrcPlugin plugin _ _ _ _) = (plugin = p)"
| "from_plugin p _ = False"

definition append_runtime_context :: "'p loop_env \<Rightarrow> u64 \<Rightarrow> u64 \<Rightarrow> ('p, unit) turn" where
  "append_runtime_context env turn step w =
     (let es = loop_log w;
          text = runtime_context (le_quote env) es (hd_cwd (ss_header (lw_session w)));
          unchanged = (case find_first (\<lambda>m. from_plugin runtime_source (msg_source m)) (rev (derive_messages (lw_session w))) of
                         None \<Rightarrow> False | Some m \<Rightarrow> msg_content m = [Text text]);
          ordinal = length (filter (\<lambda>e. ev_type e = ''user/message'' \<and> pointer_str ''source'' ''plugin'' (ev_data e) = Some runtime_source) es) + 1
      in if unchanged then Some (Inr (), w)
         else append_message env ''user/message'' turn step \<lparr>msg_id = hyphen_id ''runtime-context'' [turn, step, ordinal], msg_role = User,
                msg_content = [Text text], msg_source = SrcPlugin runtime_source None None None None\<rparr> None None w)"

definition instructions_source :: string where
  "instructions_source = ''tessivum-workspace-instructions''"

definition instructions_text :: "string \<Rightarrow> string" where
  "instructions_text instructions =
     ''<system-reminder>'' @ [CHR 0x0A] @ ''The following workspace instructions may be relevant to your work. Use them as guidance when applicable. More specific instructions take precedence over broader ones. They do not override system, developer, or direct user instructions.''
     @ [CHR 0x0A, CHR 0x0A] @ ''Instructions from: AGENTS.md'' @ [CHR 0x0A, CHR 0x0A] @ instructions @ [CHR 0x0A, CHR 0x0A] @ ''</system-reminder>''"

definition append_workspace_instructions :: "'p loop_env \<Rightarrow> u64 \<Rightarrow> u64 \<Rightarrow> ('p, unit) turn" where
  "append_workspace_instructions env turn step w =
     (if hd_cwd (ss_header (lw_session w)) = None then Some (Inr (), w)
      else case le_instructions env (loop_log w) of
        None \<Rightarrow> Some (Inr (), w)
      | Some file \<Rightarrow>
          if trim file = [] then Some (Inr (), w)
          else
            let text = instructions_text (trim file)
            in if list_ex (\<lambda>m. from_plugin instructions_source (msg_source m) \<and> msg_content m = [Text text]) (derive_messages (lw_session w))
               then Some (Inr (), w)
               else append_message env ''user/message'' turn step \<lparr>msg_id = hyphen_id ''workspace-instructions'' [turn], msg_role = User,
                      msg_content = [Text text], msg_source = SrcPlugin instructions_source None (Some Instructions) None (Some ''AGENTS.md'')\<rparr> None None w)"

definition request_messages :: "'p loop_env \<Rightarrow> session \<Rightarrow> message list" where
  "request_messages env s =
     (let ms = derive_messages s;
          found = List.map_filter (\<lambda>e.
            if ev_type e = ''user/message'' \<and> pointer_str ''source'' ''kind'' (ev_data e) = Some ''plugin''
               \<and> pointer_str ''source'' ''plugin'' (ev_data e) = Some instructions_source
            then cd_message_from (le_codec env) (ev_data e) else None) (rev (session_events s))
      in case found of
           [] \<Rightarrow> ms
         | m # _ \<Rightarrow> if list_ex (\<lambda>n. msg_id n = msg_id m) ms then ms else ms @ [m])"

end
