(* ===== verification/Agent_Turn.thy ===== *)
theory Agent_Turn
  imports Agent_Loop
begin

text \<open>
  The model call, its retries, the tool calls and the steps of a turn (\<open>run_turn\<close> in \<open>src/src/agent_loop.rs\<close>). The loop over the
  attempts of one model call may run forever under a policy without a limit; it is a \<open>partial_function\<close>.
\<close>

section \<open>Model calls\<close>

definition is_context_overflow :: "string \<Rightarrow> bool" where
  "is_context_overflow code \<longleftrightarrow> code \<in> {''CONTEXT_OVERFLOW'', ''CONTEXT_WINDOW_EXCEEDED'', ''CONTEXT_LENGTH_EXCEEDED''}"

definition compaction_failure :: "string \<times> string \<Rightarrow> llm_failure" where
  "compaction_failure e = \<lparr>lf_message = fst e, lf_code = snd e, lf_status = None, lf_provider_retry_after_ms = None, lf_request_id = None\<rparr>"

definition failure_of :: "tessivum_error \<Rightarrow> llm_failure" where
  "failure_of e = \<lparr>lf_message = e_message e, lf_code = e_code e, lf_status = None, lf_provider_retry_after_ms = None, lf_request_id = None\<rparr>"

definition turn_compact :: "'p loop_env \<Rightarrow> generate_request \<Rightarrow> bool \<Rightarrow> ('p, string \<times> string + bool) turn" where
  "turn_compact env rq overflow w =
     (case le_compact env of
        None \<Rightarrow> Some (Inr (Inr False), w)
      | Some f \<Rightarrow> map_option (\<lambda>(r, s, p). (Inr r, w\<lparr>lw_session := s, lw_disk := p\<rparr>)) (f rq overflow (lw_session w, lw_disk w)))"

fun consume_chunks ::
  "'p loop_env \<Rightarrow> u64 \<Rightarrow> u64 \<Rightarrow> stream_item list \<Rightarrow> generation option \<Rightarrow> u64 list \<Rightarrow> ('p, tessivum_error + generation \<times> u64 list) turn" where
  "consume_chunks env turn step [] gen seqs =
     turn_return (case gen of
        None \<Rightarrow> Inl (tessivum_error_new ''LLM_STREAM_ENDED_EARLY'' ''the LLM stream ended before a finish chunk'' ''llm'' JNull)
      | Some g \<Rightarrow> Inr (g, seqs))"
| "consume_chunks env turn step (Inl e # items) gen seqs = turn_return (Inl e)"
| "consume_chunks env turn step (Inr (chunk, Inl e) # items) gen seqs = turn_return (Inl e)"
| "consume_chunks env turn step (Inr (chunk, Inr completed) # items) gen seqs = (\<lambda>w.
     case loop_append env ''assistant/chunk'' (obj [(''turn'', jnat turn), (''step'', jnat step), (''chunk'', chunk)]) None None w of
       None \<Rightarrow> None
     | Some (Inl e, w') \<Rightarrow> Some (Inr (Inl (tessivum_error_new ''SESSION_APPEND_FAILED'' (le_show env e) ''agent-loop'' JNull)), w')
     | Some (Inr seq, w') \<Rightarrow>
         consume_chunks env turn step items (case completed of None \<Rightarrow> gen | Some g \<Rightarrow> Some g) (seqs @ [seq]) w')"

definition consume_generation_attempt :: "'p loop_env \<Rightarrow> u64 \<Rightarrow> u64 \<Rightarrow> generate_request \<Rightarrow> ('p, tessivum_error + generation \<times> u64 list) turn" where
  "consume_generation_attempt env turn step rq =
     turn_bind (turn_get loop_log) (\<lambda>es.
     case le_generate env rq es of
       None \<Rightarrow> turn_stuck
     | Some (Inl e) \<Rightarrow> turn_return (Inl e)
     | Some (Inr items) \<Rightarrow> consume_chunks env turn step items None [])"

definition is_retry_of :: "u64 \<Rightarrow> u64 \<Rightarrow> string \<Rightarrow> string \<Rightarrow> session_event \<Rightarrow> bool" where
  "is_retry_of turn step provider key e \<longleftrightarrow> ev_type e = ''llm/retry'' \<and> get_u64 ''turn'' (ev_data e) = Some turn
     \<and> get_u64 ''step'' (ev_data e) = Some step \<and> get_str ''provider'' (ev_data e) = Some provider \<and> get_str ''policyKey'' (ev_data e) = Some key"

definition prior_retry :: "session_event option \<Rightarrow> u64" where
  "prior_retry prior = (case Option.bind prior (\<lambda>e. get_u64 ''retry'' (ev_data e)) of None \<Rightarrow> 0 | Some n \<Rightarrow> n)"

text \<open>The delay; \<open>None\<close> when the provider asks for more than the policy allows.\<close>

definition retry_delay :: "retry_policy \<Rightarrow> u64 \<Rightarrow> u64 option \<Rightarrow> json option" where
  "retry_delay rp retry given =
     (case given of
        None \<Rightarrow> Some (rp_local_delay rp retry)
      | Some d \<Rightarrow>
          if rp_above_max rp d \<and> rp_max_retries rp \<noteq> None then None
          else if rp_above_max rp d then Some (rp_local_delay rp retry)
          else if d > 0 then Some (rp_given_delay rp d)
          else Some (rp_local_delay rp retry))"

definition retry_event :: "'p loop_env \<Rightarrow> retry_policy \<Rightarrow> string \<Rightarrow> u64 \<Rightarrow> u64 \<Rightarrow> string \<Rightarrow> u64 \<Rightarrow> json \<Rightarrow> llm_failure \<Rightarrow> json" where
  "retry_event env rp retry_id turn step provider retry delay f =
     obj ([(''retryId'', JStr retry_id), (''turn'', jnat turn), (''step'', jnat step), (''provider'', JStr provider), (''mode'', rp_mode rp),
           (''policyKey'', JStr (rp_key rp)), (''retry'', jnat retry), (''delayMs'', delay), (''failure'', le_failure_to env f)]
          @ (case rp_max_retries rp of None \<Rightarrow> [] | Some n \<Rightarrow> [(''maxRetries'', jnat n)]))"

text \<open>The sleep is the poll between the first and the last check of the token.\<close>

definition start_retry :: "'p loop_env \<Rightarrow> retry_policy \<Rightarrow> string \<Rightarrow> u64 \<Rightarrow> u64 \<Rightarrow> string \<Rightarrow> u64 \<Rightarrow> json \<Rightarrow> llm_failure \<Rightarrow> ('p, bool) turn" where
  "start_retry env rp retry_id turn step provider retry delay f =
     turn_bind (append_unit env ''llm/retry'' (retry_event env rp retry_id turn step provider retry delay f)) (\<lambda>_.
     turn_bind turn_cancelled (\<lambda>stop. if stop then turn_return False else
     turn_bind turn_cancelled (\<lambda>stop. if stop then turn_return False else
     turn_bind turn_cancelled (\<lambda>stop. if stop then turn_return False else
     turn_bind (append_unit env ''llm/retry-started''
         (obj [(''retryId'', JStr retry_id), (''turn'', jnat turn), (''step'', jnat step), (''retry'', jnat retry)])) (\<lambda>_.
     turn_bind turn_cancelled (\<lambda>stop. turn_return (\<not> stop)))))))"

text \<open>The count of retries is not bounded here; the code's would overflow only after an \<open>llm/retry\<close> event that claims the largest 64-bit number.\<close>

definition schedule_retry :: "'p loop_env \<Rightarrow> u64 \<Rightarrow> u64 \<Rightarrow> string \<Rightarrow> llm_failure \<Rightarrow> ('p, bool) turn" where
  "schedule_retry env turn step provider f =
     (case le_retry_policy env provider of
        None \<Rightarrow> turn_return False
      | Some rp \<Rightarrow>
          turn_bind turn_cancelled (\<lambda>stop.
          if stop \<or> \<not> rp_permits rp (lf_code f) then turn_return False
          else
            turn_bind (turn_get loop_log) (\<lambda>es.
            let prior = find_first (is_retry_of turn step provider (rp_key rp)) (rev es);
                done = prior_retry prior
            in if (case rp_max_retries rp of None \<Rightarrow> False | Some n \<Rightarrow> done \<ge> n) then turn_return False
               else case retry_delay rp (done + 1) (lf_provider_retry_after_ms f) of
                 None \<Rightarrow> turn_return False
               | Some delay \<Rightarrow>
                   start_retry env rp (case Option.bind prior (\<lambda>e. get_str ''retryId'' (ev_data e)) of None \<Rightarrow> le_fresh_id env es | Some i \<Rightarrow> i)
                     turn step provider (done + 1) delay f)))"

text \<open>What an attempt decides: another attempt, a generation to go on with, or the turn has been ended.\<close>

datatype gen_decision = GenAgain bool generate_request | GenDone generation "u64 list" | GenEnded

definition end_with_failure :: "'p loop_env \<Rightarrow> u64 \<Rightarrow> u64 \<Rightarrow> llm_failure \<Rightarrow> ('p, gen_decision) turn" where
  "end_with_failure env turn step f =
     turn_bind (close_step env turn step) (\<lambda>_.
     turn_bind (end_turn env turn (TurnError f)) (\<lambda>_. turn_return GenEnded))"

definition end_cancelled :: "'p loop_env \<Rightarrow> u64 \<Rightarrow> u64 \<Rightarrow> ('p, gen_decision) turn" where
  "end_cancelled env turn step = turn_bind (close_cancelled_step env turn step) (\<lambda>_. turn_return GenEnded)"

definition retry_or_end :: "'p loop_env \<Rightarrow> u64 \<Rightarrow> u64 \<Rightarrow> generate_request \<Rightarrow> bool \<Rightarrow> llm_failure \<Rightarrow> ('p, gen_decision) turn" where
  "retry_or_end env turn step rq recovered f =
     turn_bind (schedule_retry env turn step (gr_provider rq) f) (\<lambda>again.
     if again then turn_return (GenAgain recovered rq)
     else turn_bind turn_cancelled (\<lambda>stop.
       if stop then end_cancelled env turn step else end_with_failure env turn step f))"

definition generation_failed :: "'p loop_env \<Rightarrow> u64 \<Rightarrow> u64 \<Rightarrow> generate_request \<Rightarrow> bool \<Rightarrow> llm_failure \<Rightarrow> ('p, gen_decision) turn" where
  "generation_failed env turn step rq recovered f =
     (if \<not> recovered \<and> is_context_overflow (lf_code f)
      then turn_bind (turn_compact env rq True) (\<lambda>r.
        case r of
          Inl e \<Rightarrow> end_with_failure env turn step (compaction_failure e)
        | Inr True \<Rightarrow> turn_return (GenAgain True rq)
        | Inr False \<Rightarrow> retry_or_end env turn step rq recovered f)
      else retry_or_end env turn step rq recovered f)"

definition gen_attempt :: "'p loop_env \<Rightarrow> u64 \<Rightarrow> u64 \<Rightarrow> generate_request \<Rightarrow> bool \<Rightarrow> bool \<Rightarrow> ('p, gen_decision) turn" where
  "gen_attempt env turn step rq0 recovered first =
     turn_bind
       (if first then turn_return rq0
        else turn_bind (append_runtime_context env turn step) (\<lambda>_.
          turn_get (\<lambda>w. rq0\<lparr>gr_messages := request_messages env (lw_session w)\<rparr>))) (\<lambda>rq.
     turn_bind (consume_generation_attempt env turn step rq) (\<lambda>r.
     case r of
       Inr (g, seqs) \<Rightarrow>
         (case gn_finish g of
            FinishError f \<Rightarrow> generation_failed env turn step rq recovered f
          | FinishAborted _ \<Rightarrow> end_cancelled env turn step
          | _ \<Rightarrow> turn_return (GenDone g seqs))
     | Inl e \<Rightarrow>
         turn_bind turn_cancelled (\<lambda>stop.
         if stop then end_cancelled env turn step
         else generation_failed env turn step rq recovered (failure_of e))))"

partial_function (option) gen_loop ::
  "'p loop_env \<Rightarrow> u64 \<Rightarrow> u64 \<Rightarrow> generate_request \<Rightarrow> bool \<Rightarrow> bool \<Rightarrow> 'p loop_world \<Rightarrow> ((agent_error + gen_decision) \<times> 'p loop_world) option" where
  "gen_loop env turn step rq recovered first w =
     Option.bind (gen_attempt env turn step rq recovered first w) (\<lambda>(r, w').
       case r of
         Inl e \<Rightarrow> Some (Inl e, w')
       | Inr d \<Rightarrow>
           (case d of
              GenAgain recovered' rq' \<Rightarrow> gen_loop env turn step rq' recovered' False w'
            | GenDone g seqs \<Rightarrow> Some (Inr (GenDone g seqs), w')
            | GenEnded \<Rightarrow> Some (Inr GenEnded, w')))"

declare gen_loop.simps [code]

section \<open>Tool calls\<close>

definition tool_calls :: "message \<Rightarrow> (string \<times> string \<times> string) list" where
  "tool_calls m = List.map_filter (\<lambda>b. case b of ToolCall i n a \<Rightarrow> Some (i, n, a) | _ \<Rightarrow> None) (msg_content m)"

definition call_data :: "u64 \<Rightarrow> u64 \<Rightarrow> string \<times> string \<times> string \<Rightarrow> json" where
  "call_data turn step c = (case c of (i, n, a) \<Rightarrow>
     obj [(''turn'', jnat turn), (''step'', jnat step), (''callId'', JStr i), (''name'', JStr n), (''arguments'', JStr a)])"

definition call_output :: "'p loop_env \<Rightarrow> session_event list \<Rightarrow> string \<times> string \<times> string \<Rightarrow> tool_output option" where
  "call_output env es c = (case c of (i, n, a) \<Rightarrow>
     (case le_parse env a of
        Inl e \<Rightarrow> Some \<lparr>to_content = [Text ''tool arguments are not valid JSON''], to_is_error = True,
                       to_meta = obj [(''code'', JStr ''INVALID_TOOL_ARGUMENTS''), (''details'', JStr e)]\<rparr>
      | Inr args \<Rightarrow> le_execute env i n args es))"

text \<open>The outputs arrive in the order in which the calls complete and are sorted by the position of their call; there are none when
  one of the calls does not return.\<close>

definition tool_outputs :: "'p loop_env \<Rightarrow> session_event list \<Rightarrow> (string \<times> string \<times> string) list \<Rightarrow> (nat \<times> string \<times> tool_output) list option" where
  "tool_outputs env es calls =
     map_option (sort_key fst)
       (those (map (\<lambda>i. map_option (\<lambda>out. (i, fst (calls ! i), out)) (call_output env es (calls ! i))) (le_completion env (length calls) es)))"

definition code_dispatches :: "json \<Rightarrow> json list" where
  "code_dispatches meta = (case Option.bind (json_get ''codeDispatches'' meta) as_array of None \<Rightarrow> [] | Some ds \<Rightarrow> ds)"

definition append_dispatch :: "'p loop_env \<Rightarrow> json \<Rightarrow> ('p, unit) turn" where
  "append_dispatch env d =
     (case get_str ''type'' d of
        None \<Rightarrow> turn_return ()
      | Some t \<Rightarrow> (case json_get ''data'' d of None \<Rightarrow> turn_return () | Some data \<Rightarrow> append_unit env t data))"

definition strip_meta :: "json \<Rightarrow> json" where
  "strip_meta meta = (case meta of JObj kvs \<Rightarrow> JObj (bt_remove ''deferredContext'' (bt_remove ''deferredPlanExit'' kvs)) | _ \<Rightarrow> meta)"

definition deferred_exit :: "json \<Rightarrow> bool" where
  "deferred_exit meta = (Option.bind (json_get ''deferredPlanExit'' meta) as_bool = Some True)"

definition append_deferred :: "'p loop_env \<Rightarrow> u64 \<Rightarrow> u64 \<Rightarrow> u64 \<Rightarrow> json option \<Rightarrow> ('p, unit) turn" where
  "append_deferred env turn step seq ctx =
     (case Option.bind ctx (\<lambda>c. Option.bind (get_str ''plugin'' c) (\<lambda>plugin. Option.bind (get_str ''summary'' c) (\<lambda>summary.
             map_option (\<lambda>text. (plugin, summary, text)) (get_str ''text'' c)))) of
        None \<Rightarrow> turn_return ()
      | Some (plugin, summary, text) \<Rightarrow>
          append_message env ''user/message'' turn step \<lparr>msg_id = hyphen_id ''tool-context'' [turn, step, seq], msg_role = User,
            msg_content = [Text text], msg_source = SrcPlugin plugin None (Some Notice) None (Some summary)\<rparr> None None)"

definition append_result :: "'p loop_env \<Rightarrow> u64 \<Rightarrow> u64 \<Rightarrow> (nat \<times> string \<times> tool_output) \<times> u64 \<Rightarrow> ('p, unit) turn" where
  "append_result env turn step r = (case r of ((_, call, out), seq) \<Rightarrow>
     turn_bind (turn_each (append_dispatch env) (code_dispatches (to_meta out))) (\<lambda>_.
     turn_bind (turn_get loop_log) (\<lambda>es.
     turn_bind (append_message env ''tool/result'' turn step \<lparr>msg_id = le_fresh_id env es, msg_role = User,
         msg_content = [into_content_block out call], msg_source = SrcTool call\<rparr> (Some [seq]) (Some (strip_meta (to_meta out)))) (\<lambda>_.
     append_deferred env turn step seq (json_get ''deferredContext'' (to_meta out))))))"

definition run_tools :: "'p loop_env \<Rightarrow> u64 \<Rightarrow> u64 \<Rightarrow> message \<Rightarrow> ('p, bool) turn" where
  "run_tools env turn step m =
     (let calls = tool_calls m in
      turn_bind (turn_map (\<lambda>c. loop_append env ''tool/call'' (call_data turn step c) None None) calls) (\<lambda>seqs.
      turn_bind (turn_get loop_log) (\<lambda>es.
      case tool_outputs env es calls of
        None \<Rightarrow> turn_stuck
      | Some outputs \<Rightarrow>
          turn_bind (turn_each (append_result env turn step) (zip outputs seqs)) (\<lambda>_.
          turn_return (list_ex (\<lambda>((_, _, out), _). deferred_exit (to_meta out)) (zip outputs seqs))))))"

section \<open>Steps\<close>

definition request_header_reason :: "json \<Rightarrow> 'p loop_world \<Rightarrow> string option" where
  "request_header_reason h w =
     (case lw_header_reason w of
        Some r \<Rightarrow> Some r
      | None \<Rightarrow> if lw_last_header w \<noteq> Some h then Some ''change'' else None)"

definition record_request_header :: "json \<Rightarrow> ('p, unit) turn" where
  "record_request_header h w = Some (Inr (), w\<lparr>lw_last_header := Some h, lw_header_reason := None\<rparr>)"

definition step_open :: "'p loop_env \<Rightarrow> u64 \<Rightarrow> u64 \<Rightarrow> message option \<Rightarrow> ('p, unit) turn" where
  "step_open env turn step pending =
     turn_bind (append_unit env ''step/start'' (turn_step turn step)) (\<lambda>_.
     turn_bind (claim_step_batch env) (\<lambda>batch.
     let ms = batch @ (case pending of None \<Rightarrow> [] | Some m \<Rightarrow> [m]) in
     turn_bind (turn_each (\<lambda>m. append_message env ''user/message'' turn step m None None) ms) (\<lambda>_.
     turn_bind (append_skill_context env turn step ms) (\<lambda>_.
     if step = 1 then append_workspace_instructions env turn step else turn_return ()))))"

definition step_request :: "'p loop_env \<Rightarrow> ('p, generate_request) turn" where
  "step_request env =
     turn_bind (turn_get loop_log) (\<lambda>es.
     turn_bind (turn_lift (map_err RuntimeFailed (le_prompt env es))) (\<lambda>(system, tools).
     turn_get (\<lambda>w. \<lparr>gr_provider = ao_provider (le_options env), gr_model = ao_model (le_options env),
       gr_reasoning_effort = ao_reasoning_effort (le_options env), gr_messages = request_messages env (lw_session w), gr_system = system,
       gr_tools = (if tools = [] then None else Some tools), gr_temperature = None, gr_max_tokens = ao_max_tokens (le_options env), gr_stop = None,
       gr_session_id = Some (session_id (lw_session w)), gr_purpose = None\<rparr>)))"

definition epoch_of :: "generate_request \<Rightarrow> epoch_header" where
  "epoch_of rq = \<lparr>eh_config = \<lparr>cfg_provider = gr_provider rq, cfg_model = gr_model rq, cfg_reasoning_effort = gr_reasoning_effort rq,
     cfg_temperature = gr_temperature rq, cfg_max_tokens = gr_max_tokens rq, cfg_stop = gr_stop rq\<rparr>, eh_adapter_defaults = None,
     eh_system = gr_system rq, eh_tools = gr_tools rq\<rparr>"

definition append_request_header :: "'p loop_env \<Rightarrow> generate_request \<Rightarrow> ('p, unit) turn" where
  "append_request_header env rq =
     (let h = le_header_to env (epoch_of rq) in
      turn_bind (turn_get (request_header_reason h)) (\<lambda>reason.
      case reason of
        None \<Rightarrow> turn_return ()
      | Some r \<Rightarrow> turn_bind (append_unit env ''request/header'' (obj [(''header'', h), (''reason'', JStr r)])) (\<lambda>_. record_request_header h)))"

definition append_request_context :: "'p loop_env \<Rightarrow> generate_request \<Rightarrow> ('p, unit) turn" where
  "append_request_context env rq =
     (let ctx = obj ([(''provider'', JStr (gr_provider rq)), (''model'', JStr (gr_model rq))]
            @ (case Option.bind (le_context_window env) (\<lambda>f. f (gr_provider rq) (gr_model rq)) of None \<Rightarrow> [] | Some n \<Rightarrow> [(''contextWindow'', jnat n)]))
      in turn_bind (turn_get loop_log) (\<lambda>es.
         if map_option ev_data (find_first (\<lambda>e. ev_type e = ''request/context'') (rev es)) = Some ctx then turn_return ()
         else append_unit env ''request/context'' ctx))"

text \<open>The request after the pressure compaction; \<open>None\<close> when the turn has been ended.\<close>

definition step_compaction :: "'p loop_env \<Rightarrow> u64 \<Rightarrow> u64 \<Rightarrow> generate_request \<Rightarrow> ('p, generate_request option) turn" where
  "step_compaction env turn step rq =
     turn_bind (turn_compact env rq False) (\<lambda>r.
     case r of
       Inl e \<Rightarrow> turn_bind (end_with_failure env turn step (compaction_failure e)) (\<lambda>_. turn_return None)
     | Inr True \<Rightarrow> turn_get (\<lambda>w. Some (rq\<lparr>gr_messages := request_messages env (lw_session w)\<rparr>))
     | Inr False \<Rightarrow> turn_return (Some rq))"

definition step_generate :: "'p loop_env \<Rightarrow> u64 \<Rightarrow> u64 \<Rightarrow> ('p, (generation \<times> u64 list) option) turn" where
  "step_generate env turn step =
     turn_bind (append_runtime_context env turn step) (\<lambda>_.
     turn_bind (step_request env) (\<lambda>rq0.
     turn_bind (step_compaction env turn step rq0) (\<lambda>r.
     case r of
       None \<Rightarrow> turn_return None
     | Some rq \<Rightarrow>
         turn_bind (append_request_header env rq) (\<lambda>_.
         turn_bind (append_request_context env rq) (\<lambda>_.
         turn_bind (gen_loop env turn step rq False True) (\<lambda>d.
         case d of GenDone g seqs \<Rightarrow> turn_return (Some (g, seqs)) | _ \<Rightarrow> turn_return None))))))"

text \<open>The end of a step: whether the turn goes on.\<close>

definition step_finish :: "'p loop_env \<Rightarrow> u64 \<Rightarrow> u64 \<Rightarrow> generation \<Rightarrow> ('p, bool) turn" where
  "step_finish env turn step g =
     (let stop_at = (\<lambda>reason. turn_bind (end_turn env turn reason) (\<lambda>_. turn_return False)) in
      case gn_finish g of
        FinishToolCalls \<Rightarrow>
          turn_bind (run_tools env turn step (gn_message g)) (\<lambda>exit.
          turn_bind (close_step env turn step) (\<lambda>_.
          turn_bind (if exit then append_unit env ''plan/mode'' (obj [(''active'', JBool False)]) else turn_return ()) (\<lambda>_.
          turn_bind turn_cancelled (\<lambda>stop.
          if stop then turn_bind (end_aborted env turn) (\<lambda>_. turn_return False)
          else if step = le_max_steps env then stop_at TurnBlocked
          else turn_return True))))
      | FinishStop \<Rightarrow>
          turn_bind (close_step env turn step) (\<lambda>_.
          turn_bind turn_cancelled (\<lambda>stop.
          if stop then turn_bind (end_aborted env turn) (\<lambda>_. turn_return False)
          else turn_bind more_steps (\<lambda>waiting.
            if waiting then (if step = le_max_steps env then stop_at TurnBlocked else turn_return True)
            else stop_at TurnCompleted)))
      | FinishMaxTokens \<Rightarrow> turn_bind (close_step env turn step) (\<lambda>_. stop_at TurnMaxTokens)
      | FinishError f \<Rightarrow> turn_bind (close_step env turn step) (\<lambda>_. stop_at (TurnError f))
      | FinishAborted _ \<Rightarrow> turn_bind (close_step env turn step) (\<lambda>_. turn_bind (end_aborted env turn) (\<lambda>_. turn_return False)))"

definition run_step :: "'p loop_env \<Rightarrow> u64 \<Rightarrow> u64 \<Rightarrow> message option \<Rightarrow> ('p, bool) turn" where
  "run_step env turn step pending =
     turn_bind (step_open env turn step pending) (\<lambda>_.
     turn_bind turn_cancelled (\<lambda>stop.
     if stop then turn_bind (close_cancelled_step env turn step) (\<lambda>_. turn_return False)
     else turn_bind (step_generate env turn step) (\<lambda>r.
       case r of
         None \<Rightarrow> turn_return False
       | Some (g, seqs) \<Rightarrow>
           turn_bind turn_cancelled (\<lambda>stop.
           if stop then turn_bind (close_cancelled_step env turn step) (\<lambda>_. turn_return False)
           else turn_bind (append_assistant env turn step (gn_message g) (gn_usage g) seqs) (\<lambda>_.
             step_finish env turn step g)))))"

fun run_steps :: "'p loop_env \<Rightarrow> u64 \<Rightarrow> nat \<Rightarrow> u64 \<Rightarrow> message option \<Rightarrow> ('p, unit) turn" where
  "run_steps env turn 0 step pending = end_turn env turn TurnBlocked"
| "run_steps env turn (Suc n) step pending =
     turn_bind turn_cancelled (\<lambda>stop.
     if stop then end_aborted env turn
     else turn_bind (run_step env turn step pending) (\<lambda>again.
       if again then run_steps env turn n (step + 1) None else turn_return ()))"

definition run_turn :: "'p loop_env \<Rightarrow> message \<Rightarrow> ('p, unit) turn" where
  "run_turn env m =
     turn_bind turn_cancelled (\<lambda>stop.
     if stop then turn_return ()
     else turn_bind (turn_get (\<lambda>w. next_turn (loop_log w))) (\<lambda>turn.
       turn_bind (append_unit env ''turn/start'' (obj [(''turn'', jnat turn)])) (\<lambda>_.
       run_steps env turn (le_max_steps env) 1 (Some m))))"

end
