(* ===== verification/Agent_Worker.thy ===== *)
theory Agent_Worker
  imports Agent_Turn
begin

text \<open>
  The worker of an agent in \<open>src/src/agent_loop.rs\<close>: \<open>drive\<close> waits for wakes, claims the next message and runs its turn, while
  \<open>wake\<close>, \<open>when_idle\<close>, \<open>cancel\<close> and \<open>dispose\<close> come from other tasks. Every access to the shared state (the lock, the running flag, the
  inbox) is a step of its own, and everything else interleaves between any two of them. The permit is the one that
  \<open>Notify::notify_one\<close> keeps for a waiter that comes later.
\<close>

section \<open>State\<close>

datatype worker_pc =
    PcWait | PcNotified | PcSleep | PcWoken | PcLock | PcLocked | PcTurns | PcClaim | PcTurn message | PcNone | PcSettle u64 | PcRest
  | PcFailed agent_error | PcFailSettle agent_error u64 | PcExit | PcExitSettle | PcDone

record 'p worker =
  wk_world :: "'p loop_world"
  wk_disposed :: bool
  wk_wake :: u64
  wk_settled :: u64
  wk_error :: "agent_error option"
  wk_running :: bool
  wk_seen :: u64
  wk_permit :: bool
  wk_pc :: worker_pc

definition worker_spawn :: "'p loop_world \<Rightarrow> 'p worker" where
  "worker_spawn w = \<lparr>wk_world = w\<lparr>lw_cause := None, lw_last_header := None,
       lw_header_reason := Some (if list_ex (\<lambda>e. ev_type e = ''request/header'') (loop_log w) then ''resume'' else ''initial'')\<rparr>,
     wk_disposed = False, wk_wake = 0, wk_settled = 0, wk_error = None, wk_running = False, wk_seen = 0, wk_permit = False, wk_pc = PcWait\<rparr>"

section \<open>The operations of other tasks\<close>

abbreviation token_cancelled :: "'p worker \<Rightarrow> bool" where
  "token_cancelled w \<equiv> lw_token (wk_world w) = Some 0"

definition worker_status :: "'p worker \<Rightarrow> agent_status" where
  "worker_status w = (if wk_running w then AgentRunning else AgentIdle)"

definition worker_cancel :: "agent_cancel_cause \<Rightarrow> 'p worker \<Rightarrow> 'p worker" where
  "worker_cancel cause w = w\<lparr>wk_world := (wk_world w)\<lparr>lw_cause := (case lw_cause (wk_world w) of None \<Rightarrow> Some cause | Some c \<Rightarrow> Some c)\<rparr>\<rparr>"

definition cancel_token :: "'p worker \<Rightarrow> 'p worker" where
  "cancel_token w = w\<lparr>wk_world := (wk_world w)\<lparr>lw_token := Some 0\<rparr>\<rparr>"

definition worker_wake :: "'p worker \<Rightarrow> (agent_error + unit) \<times> 'p worker" where
  "worker_wake w =
     (if wk_disposed w then (Inl AgentDisposed, w)
      else if token_cancelled w then (Inl AgentSetupCancelled, w)
      else (Inr (), w\<lparr>wk_wake := (wk_wake w + 1) mod (u64_max + 1), wk_error := None, wk_permit := True\<rparr>))"

text \<open>What \<open>when_idle\<close> returns now; \<open>None\<close> when it goes on waiting.\<close>

definition worker_when_idle :: "'p worker \<Rightarrow> (agent_error + unit) option" where
  "worker_when_idle w =
     (if \<not> wk_running w \<and> wk_wake w = wk_settled w then Some (case wk_error w of None \<Rightarrow> Inr () | Some e \<Rightarrow> Inl e) else None)"

definition worker_dispose :: "'p worker \<Rightarrow> 'p worker" where
  "worker_dispose w = cancel_token (worker_cancel CancelDisposed (w\<lparr>wk_disposed := True\<rparr>))"

text \<open>The end of \<open>dispose\<close>, once the worker has ended, with the failures of its resources.\<close>

definition worker_disposed :: "string list \<Rightarrow> 'p worker \<Rightarrow> (agent_error + unit) option" where
  "worker_disposed failures w =
     (if wk_pc w \<noteq> PcDone then None
      else Some (if failures = [] then Inr ()
        else Inl (AgentMessage (tessivum_error_new ''AGENT_RESOURCE_DISPOSE_FAILED''
          ''the agent worker or one or more session resources could not be disposed cleanly'' ''agent-loop''
          (obj [(''sessionId'', JStr (session_id (lw_session (wk_world w)))), (''failures'', JArr (map JStr failures))])))))"

section \<open>The worker\<close>

definition worker_poll :: "(bool \<Rightarrow> worker_pc) \<Rightarrow> 'p worker \<Rightarrow> 'p worker" where
  "worker_poll next w = (case is_cancelled (lw_token (wk_world w)) of (stop, c) \<Rightarrow> w\<lparr>wk_world := (wk_world w)\<lparr>lw_token := c\<rparr>, wk_pc := next stop\<rparr>)"

definition worker_claim :: "'p loop_env \<Rightarrow> 'p worker \<Rightarrow> 'p worker option" where
  "worker_claim env w = map_option (\<lambda>(r, w'). w\<lparr>wk_world := w', wk_pc :=
     (case r of Inl e \<Rightarrow> PcFailed e | Inr None \<Rightarrow> PcNone | Inr (Some m) \<Rightarrow> PcTurn m)\<rparr>) (claim_next_turn env (wk_world w))"

definition worker_turn :: "'p loop_env \<Rightarrow> message \<Rightarrow> 'p worker \<Rightarrow> 'p worker option" where
  "worker_turn env m w = map_option (\<lambda>(r, w'). w\<lparr>wk_world := w', wk_error := (case r of Inl e \<Rightarrow> Some e | Inr _ \<Rightarrow> wk_error w), wk_pc := PcTurns\<rparr>)
     (run_turn env m (wk_world w))"

text \<open>One step; \<open>None\<close> when the worker has to wait or is done. The flag tells whether it gets the session's execution lock.\<close>

definition worker_next :: "'p loop_env \<Rightarrow> bool \<Rightarrow> 'p worker \<Rightarrow> 'p worker option" where
  "worker_next env locks w =
     (case wk_pc w of
        PcWait \<Rightarrow> Some (worker_poll (\<lambda>stop. if stop then PcWoken else PcNotified) w)
      | PcNotified \<Rightarrow> Some (if wk_wake w \<noteq> wk_seen w then w\<lparr>wk_seen := wk_wake w, wk_pc := PcWoken\<rparr> else w\<lparr>wk_pc := PcSleep\<rparr>)
      | PcSleep \<Rightarrow>
          if wk_permit w then Some (w\<lparr>wk_permit := False, wk_pc := PcWait\<rparr>)
          else if token_cancelled w then Some (w\<lparr>wk_pc := PcWoken\<rparr>)
          else None
      | PcWoken \<Rightarrow> Some (worker_poll (\<lambda>stop. if stop \<or> wk_disposed w then PcExit else PcLock) w)
      | PcLock \<Rightarrow> if locks then Some (w\<lparr>wk_pc := PcLocked\<rparr>) else if token_cancelled w then Some (w\<lparr>wk_pc := PcExit\<rparr>) else None
      | PcLocked \<Rightarrow> Some (w\<lparr>wk_running := True, wk_pc := PcTurns\<rparr>)
      | PcTurns \<Rightarrow> Some (worker_poll (\<lambda>stop. if stop then PcWait else PcClaim) w)
      | PcClaim \<Rightarrow> worker_claim env w
      | PcTurn m \<Rightarrow> worker_turn env m w
      | PcNone \<Rightarrow> Some (if wk_wake w \<noteq> wk_seen w then w\<lparr>wk_seen := wk_wake w, wk_pc := PcTurns\<rparr> else w\<lparr>wk_pc := PcSettle (wk_wake w)\<rparr>)
      | PcSettle r \<Rightarrow> Some (w\<lparr>wk_settled := r, wk_pc := PcRest\<rparr>)
      | PcRest \<Rightarrow> Some (w\<lparr>wk_running := False, wk_pc := PcWait\<rparr>)
      | PcFailed e \<Rightarrow> Some (w\<lparr>wk_pc := PcFailSettle e (wk_wake w)\<rparr>)
      | PcFailSettle e r \<Rightarrow> Some (w\<lparr>wk_error := Some e, wk_settled := r, wk_running := False, wk_pc := PcWait\<rparr>)
      | PcExit \<Rightarrow> Some (w\<lparr>wk_running := False, wk_pc := PcExitSettle\<rparr>)
      | PcExitSettle \<Rightarrow> Some (w\<lparr>wk_settled := wk_wake w, wk_pc := PcDone\<rparr>)
      | PcDone \<Rightarrow> None)"

section \<open>Interleavings\<close>

text \<open>A run with what matters of its history, the latest first: the wakes that were accepted and the looks at the inbox that found
  nothing to claim. Other tasks change the session and the inbox at any moment, and the moves of a later turn.\<close>

datatype worker_event = Woke | Looked

definition surrounded :: "('p surroundings \<Rightarrow> 'p surroundings) \<Rightarrow> ('p surroundings \<Rightarrow> 'p surroundings) list \<Rightarrow> 'p worker \<Rightarrow> 'p worker" where
  "surrounded f fs w = (case f (lw_session (wk_world w), lw_disk (wk_world w), lw_inbox (wk_world w)) of (s, p, ib) \<Rightarrow>
     w\<lparr>wk_world := (wk_world w)\<lparr>lw_session := s, lw_disk := p, lw_inbox := ib, lw_moves := fs\<rparr>\<rparr>)"

inductive worker_run :: "'p loop_env \<Rightarrow> worker_event list \<Rightarrow> 'p worker \<Rightarrow> bool" for env where
  spawned: "worker_run env [] (worker_spawn w)"
| works: "worker_run env tr w \<Longrightarrow> worker_next env locks w = Some w' \<Longrightarrow>
    worker_run env (if wk_pc w = PcClaim \<and> wk_pc w' = PcNone then Looked # tr else tr) w'"
| woken: "worker_run env tr w \<Longrightarrow> worker_wake w = (Inr (), w') \<Longrightarrow> worker_run env (Woke # tr) w'"
| cancelled: "worker_run env tr w \<Longrightarrow> worker_run env tr (cancel_token (worker_cancel cause w))"
| disposed: "worker_run env tr w \<Longrightarrow> worker_run env tr (worker_dispose w)"
| others: "worker_run env tr w \<Longrightarrow> worker_run env tr (surrounded f fs w)"

definition wakes :: "worker_event list \<Rightarrow> nat" where
  "wakes tr = length (filter (\<lambda>a. a = Woke) tr)"

text \<open>The worker has looked and found nothing after the first \<open>k\<close> wakes.\<close>

definition looked_after :: "nat \<Rightarrow> worker_event list \<Rightarrow> bool" where
  "looked_after k tr \<longleftrightarrow> k = 0 \<or> (\<exists>post pre. tr = post @ Looked # pre \<and> k \<le> wakes pre)"

lemma wakes_simps [simp]: "wakes [] = 0" "wakes (Woke # tr) = Suc (wakes tr)" "wakes (Looked # tr) = wakes tr" "wakes (tr @ tr') = wakes tr + wakes tr'"
  by (simp_all add: wakes_def)

lemma looked_now: "k \<le> wakes tr \<Longrightarrow> looked_after k (Looked # tr)"
  unfolding looked_after_def by (metis append_Nil)

lemma looked_later: "looked_after k tr \<Longrightarrow> looked_after k (a # tr)"
  unfolding looked_after_def by (metis append_Cons)

section \<open>The invariant\<close>

text \<open>As long as the 64-bit count of wakes has not wrapped around.\<close>

definition settled_ok :: "worker_event list \<Rightarrow> 'p worker \<Rightarrow> bool" where
  "settled_ok tr w \<longleftrightarrow> wk_settled w \<le> wakes tr
     \<and> (wk_pc w \<noteq> PcDone \<longrightarrow> wk_settled w = wakes tr \<longrightarrow> looked_after (wk_settled w) tr \<or> wk_error w \<noteq> None)"

definition worker_ok :: "worker_event list \<Rightarrow> 'p worker \<Rightarrow> bool" where
  "worker_ok tr w \<longleftrightarrow> wk_wake w = wakes tr \<and> wk_seen w \<le> wakes tr \<and> settled_ok tr w
     \<and> (case wk_pc w of PcNone \<Rightarrow> looked_after (wk_seen w) tr | PcSettle r \<Rightarrow> r \<le> wakes tr \<and> looked_after r tr
        | PcFailSettle e r \<Rightarrow> r \<le> wakes tr | PcSleep \<Rightarrow> wk_wake w = wk_seen w \<or> wk_permit w | _ \<Rightarrow> True)"

lemma surrounded_fields [simp]:
  "wk_wake (surrounded f fs w) = wk_wake w" "wk_settled (surrounded f fs w) = wk_settled w" "wk_error (surrounded f fs w) = wk_error w"
  "wk_seen (surrounded f fs w) = wk_seen w" "wk_permit (surrounded f fs w) = wk_permit w" "wk_pc (surrounded f fs w) = wk_pc w"
  "wk_running (surrounded f fs w) = wk_running w"
  by (simp_all add: surrounded_def split: prod.splits)

lemma cancel_fields [simp]:
  "wk_wake (cancel_token w) = wk_wake w" "wk_settled (cancel_token w) = wk_settled w" "wk_error (cancel_token w) = wk_error w"
  "wk_seen (cancel_token w) = wk_seen w" "wk_permit (cancel_token w) = wk_permit w" "wk_pc (cancel_token w) = wk_pc w"
  "wk_wake (worker_cancel c w) = wk_wake w" "wk_settled (worker_cancel c w) = wk_settled w" "wk_error (worker_cancel c w) = wk_error w"
  "wk_seen (worker_cancel c w) = wk_seen w" "wk_permit (worker_cancel c w) = wk_permit w" "wk_pc (worker_cancel c w) = wk_pc w"
  by (simp_all add: cancel_token_def worker_cancel_def)

lemma poll_fields [simp]:
  "wk_wake (worker_poll f w) = wk_wake w" "wk_settled (worker_poll f w) = wk_settled w" "wk_error (worker_poll f w) = wk_error w"
  "wk_seen (worker_poll f w) = wk_seen w" "wk_permit (worker_poll f w) = wk_permit w"
  "wk_pc (worker_poll f w) = f (fst (is_cancelled (lw_token (wk_world w))))"
  by (simp_all add: worker_poll_def split: prod.splits)

lemma worker_next_ok:
  assumes "worker_next env locks w = Some w'" "worker_ok tr w"
  shows "worker_ok (if wk_pc w = PcClaim \<and> wk_pc w' = PcNone then Looked # tr else tr) w'"
proof (cases "wk_pc w")
  case PcClaim
  then obtain r v where w': "w' = w\<lparr>wk_world := v, wk_pc := (case r of Inl e \<Rightarrow> PcFailed e | Inr None \<Rightarrow> PcNone | Inr (Some m) \<Rightarrow> PcTurn m)\<rparr>"
    using assms(1) by (auto simp: worker_next_def worker_claim_def)
  show ?thesis using assms(2) PcClaim
    by (cases r) (auto simp: w' worker_ok_def settled_ok_def looked_now looked_later split: option.splits)
next
  case (PcTurn m)
  then obtain r :: "agent_error + unit" and v where w': "w' = w\<lparr>wk_world := v, wk_error := (case r of Inl e \<Rightarrow> Some e | Inr _ \<Rightarrow> wk_error w), wk_pc := PcTurns\<rparr>"
    using assms(1) by (auto simp: worker_next_def worker_turn_def)
  show ?thesis using assms(2) PcTurn by (cases r) (auto simp: w' worker_ok_def settled_ok_def)
qed (use assms in \<open>auto simp: worker_next_def worker_ok_def settled_ok_def split: if_splits\<close>)

lemma worker_run_ok: "worker_run env tr w \<Longrightarrow> wakes tr \<le> u64_max \<Longrightarrow> worker_ok tr w"
proof (induction rule: worker_run.induct)
  case (spawned w)
  show ?case by (simp add: worker_spawn_def worker_ok_def settled_ok_def looked_after_def)
next
  case (works tr w locks w')
  then show ?case using worker_next_ok [OF works(2)] by (auto split: if_splits)
next
  case (woken tr w w')
  then have ok: "worker_ok tr w" by simp
  have "w' = w\<lparr>wk_wake := (wk_wake w + 1) mod (u64_max + 1), wk_error := None, wk_permit := True\<rparr>"
    using woken(2) by (auto simp: worker_wake_def split: if_splits)
  moreover have "(wk_wake w + 1) mod (u64_max + 1) = wakes (Woke # tr)" using ok woken.prems by (simp add: worker_ok_def)
  ultimately show ?case using ok
    by (auto simp: worker_ok_def settled_ok_def looked_later split: worker_pc.splits)
qed (auto simp: worker_ok_def settled_ok_def worker_dispose_def split: worker_pc.splits)

end
