(* ===== verification/Turn_Traces.thy ===== *)
theory Turn_Traces
  imports Agent_Turn
begin

text \<open>
  What a piece of a turn adds to the log. \<open>run_post\<close> is the postcondition of a run, total or partial as its flag says; \<open>adds\<close> says
  which events of the watched types a piece adds, provided that what surrounds the turn (other writers, compaction, the dispatches a
  tool reports) adds none of them and keeps the inbox well formed. The rules follow the structure of the turn, so that every
  operation has a lemma that is found by its shape.
\<close>

named_theorems silent_rules "operations that add no watched event"

section \<open>Postconditions\<close>

definition run_post :: "bool \<Rightarrow> ('p, 'a) turn \<Rightarrow> 'p loop_world \<Rightarrow> (agent_error + 'a \<Rightarrow> 'p loop_world \<Rightarrow> bool) \<Rightarrow> bool" where
  "run_post tot m w Q = (case m w of None \<Rightarrow> \<not> tot | Some (r, w') \<Rightarrow> Q r w')"

lemma run_post_Some: "m w = Some (r, w') \<Longrightarrow> run_post tot m w Q = Q r w'"
  by (simp add: run_post_def)

lemma run_postD: "run_post tot m w Q \<Longrightarrow> m w = Some (r, w') \<Longrightarrow> Q r w'"
  by (simp add: run_post_def)

lemma run_post_returns: "run_post True m w Q \<Longrightarrow> \<exists>r w'. m w = Some (r, w') \<and> Q r w'"
  by (auto simp: run_post_def split: option.splits)

lemma run_post_mono: "run_post tot m w Q \<Longrightarrow> (\<And>r w'. Q r w' \<Longrightarrow> Q' r w') \<Longrightarrow> run_post tot m w Q'"
  by (auto simp: run_post_def split: option.splits)

lemma run_post_bind:
  "run_post tot (turn_bind m f) w Q =
     run_post tot m w (\<lambda>r w'. case r of Inl e \<Rightarrow> Q (Inl e) w' | Inr x \<Rightarrow> run_post tot (f x) w' Q)"
  by (auto simp: run_post_def turn_bind_def split: option.splits sum.splits)

lemma turn_bind_assoc: "turn_bind (turn_bind m f) g = turn_bind m (\<lambda>x. turn_bind (f x) g)"
  by (auto simp: turn_bind_def fun_eq_iff split: option.splits sum.splits)

lemma turn_bind_return: "turn_bind (turn_return x) f = f x"
  by (simp add: turn_bind_def turn_return_def fun_eq_iff)

lemma turn_bind_cancelled: "is_cancelled (lw_token w) = (stop, c) \<Longrightarrow> turn_bind turn_cancelled f w = f stop (w\<lparr>lw_token := c\<rparr>)"
  by (simp add: turn_bind_def turn_cancelled_def)

lemma turn_bind_get: "turn_bind (turn_get h) f w = f (h w) w"
  by (simp add: turn_bind_def turn_get_def)

lemma run_post_simps [simp]:
  "run_post tot (turn_return x) w Q = Q (Inr x) w"
  "run_post tot (turn_fail e) w Q = Q (Inl e) w"
  "run_post tot (turn_lift r) w Q = Q r w"
  "run_post tot (turn_get h) w Q = Q (Inr (h w)) w"
  by (simp_all add: run_post_def turn_return_def turn_fail_def turn_lift_def turn_get_def)

section \<open>Watched events\<close>

definition seen :: "string set \<Rightarrow> session_event list \<Rightarrow> session_event list" where
  "seen W es = filter (\<lambda>e. ev_type e \<in> W) es"

lemma seen_append [simp]: "seen W (es @ fs) = seen W es @ seen W fs"
  by (simp add: seen_def)

lemma seen_simps [simp]: "seen W [] = []" "seen W (e # es) = (if ev_type e \<in> W then e # seen W es else seen W es)"
  by (simp_all add: seen_def)

text \<open>What the turn relies on: a move keeps the watched events and the invariant of the inbox; compaction and the events that a tool
  asks to be appended touch no watched type.\<close>

definition calm_move :: "string set \<Rightarrow> ('p surroundings \<Rightarrow> 'p surroundings) \<Rightarrow> bool" where
  "calm_move W f \<longleftrightarrow> (\<forall>s p ib. case f (s, p, ib) of (s', p', ib') \<Rightarrow>
     seen W (session_events s') = seen W (session_events s) \<and> (inbox_ok ib \<longrightarrow> inbox_ok ib'))"

definition calm_world :: "string set \<Rightarrow> 'p loop_world \<Rightarrow> bool" where
  "calm_world W w \<longleftrightarrow> inbox_ok (lw_inbox w) \<and> (\<forall>f \<in> set (lw_moves w). calm_move W f)"

definition calm_compaction :: "string set \<Rightarrow> 'p loop_env \<Rightarrow> bool" where
  "calm_compaction W env \<longleftrightarrow> (\<forall>f rq overflow s p r s' p'. le_compact env = Some f \<longrightarrow> f rq overflow (s, p) = Some (r, s', p') \<longrightarrow>
     seen W (session_events s') = seen W (session_events s))"

definition calm_tools :: "string set \<Rightarrow> 'p loop_env \<Rightarrow> bool" where
  "calm_tools W env \<longleftrightarrow> (\<forall>i n a es out d t. le_execute env i n a es = Some out \<longrightarrow> d \<in> set (code_dispatches (to_meta out)) \<longrightarrow>
     get_str ''type'' d = Some t \<longrightarrow> t \<notin> W)"

definition calm_env :: "string set \<Rightarrow> 'p loop_env \<Rightarrow> bool" where
  "calm_env W env \<longleftrightarrow> calm_compaction W env \<and> calm_tools W env"

lemma calm_envD: "calm_env W env \<Longrightarrow> calm_compaction W env" "calm_env W env \<Longrightarrow> calm_tools W env"
  by (simp_all add: calm_env_def)

text \<open>The model, compaction and the tools answer: every stream ends, and no call panics or runs forever.\<close>

definition answers :: "'p loop_env \<Rightarrow> bool" where
  "answers env \<longleftrightarrow> (\<forall>rq es. le_generate env rq es \<noteq> None) \<and> (\<forall>f rq overflow sp. le_compact env = Some f \<longrightarrow> f rq overflow sp \<noteq> None)
     \<and> (\<forall>i n a es. le_execute env i n a es \<noteq> None)"

lemma answersD:
  assumes "answers env"
  shows "le_generate env rq es \<noteq> None" "le_compact env = Some f \<Longrightarrow> f rq overflow sp \<noteq> None" "le_execute env i n a es \<noteq> None"
  using assms unfolding answers_def by blast+

definition grown :: "string set \<Rightarrow> 'p loop_world \<Rightarrow> (agent_error + 'a \<Rightarrow> session_event list \<Rightarrow> bool) \<Rightarrow> agent_error + 'a \<Rightarrow> 'p loop_world \<Rightarrow> bool" where
  "grown W w P r w' \<longleftrightarrow> calm_world W w' \<and> (\<exists>new. seen W (loop_log w') = seen W (loop_log w) @ new \<and> P r new)"

definition adds :: "bool \<Rightarrow> string set \<Rightarrow> ('p, 'a) turn \<Rightarrow> (agent_error + 'a \<Rightarrow> session_event list \<Rightarrow> bool) \<Rightarrow> bool" where
  "adds tot W m P \<longleftrightarrow> (\<forall>w. calm_world W w \<longrightarrow> run_post tot m w (grown W w P))"

definition silent :: "bool \<Rightarrow> string set \<Rightarrow> ('p, 'a) turn \<Rightarrow> bool" where
  "silent tot W m \<longleftrightarrow> adds tot W m (\<lambda>r new. new = [])"

lemma grown_self: "calm_world W w \<Longrightarrow> P r [] \<Longrightarrow> grown W w P r w"
  by (simp add: grown_def)

lemma grown_mono: "grown W w P r w' \<Longrightarrow> (\<And>new. P r new \<Longrightarrow> P' r' new) \<Longrightarrow> grown W w P' r' w'"
  by (auto simp: grown_def)

lemma grown_trans:
  assumes "grown W w P r w'" "grown W w' R r2 w2" "\<And>a b. P r a \<Longrightarrow> R r2 b \<Longrightarrow> Q r2 (a @ b)"
  shows "grown W w Q r2 w2"
  using assms by (auto simp: grown_def)

lemma addsI: "(\<And>w. calm_world W w \<Longrightarrow> run_post tot m w (grown W w P)) \<Longrightarrow> adds tot W m P"
  by (simp add: adds_def)

lemma adds_post: "adds tot W m P \<Longrightarrow> calm_world W w \<Longrightarrow> run_post tot m w (grown W w P)"
  by (simp add: adds_def)

lemma addsD:
  assumes "adds tot W m P" "calm_world W w" "m w = Some (r, w')"
  obtains new where "calm_world W w'" "seen W (loop_log w') = seen W (loop_log w) @ new" "P r new"
  using run_postD [OF adds_post [OF assms(1, 2)] assms(3)] by (auto simp: grown_def)

lemma adds_mono: "adds tot W m P \<Longrightarrow> (\<And>r new. P r new \<Longrightarrow> P' r new) \<Longrightarrow> adds tot W m P'"
  unfolding adds_def by (blast intro: run_post_mono grown_mono)

lemma silent_adds: "silent tot W m \<Longrightarrow> (\<And>r. P r []) \<Longrightarrow> adds tot W m P"
  unfolding silent_def by (erule adds_mono) simp

lemma adds_bind:
  fixes m :: "('p, 'a) turn" and f :: "'a \<Rightarrow> ('p, 'b) turn"
  assumes m: "adds tot W m P" and f: "\<And>x. adds tot W (f x) (R x)"
    and err: "\<And>e new. P (Inl e) new \<Longrightarrow> Q (Inl e) new"
    and seq: "\<And>x r a b. P (Inr x) a \<Longrightarrow> R x r b \<Longrightarrow> Q r (a @ b)"
  shows "adds tot W (turn_bind m f) Q"
proof (rule addsI)
  fix w :: "'p loop_world"
  assume w: "calm_world W w"
  show "run_post tot (turn_bind m f) w (grown W w Q)"
    unfolding run_post_bind
  proof (rule run_post_mono [OF adds_post [OF m w]])
    fix r w' assume a: "grown W w P r w'"
    show "case r of Inl e \<Rightarrow> grown W w Q (Inl e) w' | Inr x \<Rightarrow> run_post tot (f x) w' (grown W w Q)"
    proof (cases r)
      case (Inl e)
      then show ?thesis using a err by (auto intro: grown_mono)
    next
      case (Inr x)
      have "run_post tot (f x) w' (grown W w Q)"
      proof (rule run_post_mono [OF adds_post [OF f]])
        show "calm_world W w'" using a by (simp add: grown_def)
        show "grown W w Q r2 w2" if "grown W w' (R x) r2 w2" for r2 w2
          using a that by (rule grown_trans) (use seq Inr in simp)
      qed
      then show ?thesis using Inr by simp
    qed
  qed
qed

text \<open>The first or the last part of a sequence is silent.\<close>

lemma adds_after:
  assumes "silent tot W m" "\<And>x. adds tot W (f x) Q" "\<And>e. Q (Inl e) []"
  shows "adds tot W (turn_bind m f) Q"
  using assms(1) unfolding silent_def by (rule adds_bind [OF _ assms(2)]) (use assms(3) in simp_all)

lemma adds_before:
  assumes "adds tot W m P" "\<And>x. silent tot W (f x)"
    "\<And>e new. P (Inl e) new \<Longrightarrow> Q (Inl e) new" "\<And>x r new. P (Inr x) new \<Longrightarrow> Q r new"
  shows "adds tot W (turn_bind m f) Q"
  using assms(1) assms(2)[unfolded silent_def] by (rule adds_bind) (use assms(3,4) in simp_all)

lemma silent_bind [silent_rules]: "silent tot W m \<Longrightarrow> (\<And>x. silent tot W (f x)) \<Longrightarrow> silent tot W (turn_bind m f)"
  unfolding silent_def by (rule adds_bind [where P = "\<lambda>r new. new = []" and R = "\<lambda>x r new. new = []"]) simp_all

lemma silent_unchanged:
  assumes "\<And>w. \<exists>r w'. m w = Some (r, w') \<and> lw_session w' = lw_session w \<and> lw_inbox w' = lw_inbox w \<and> lw_moves w' = lw_moves w"
  shows "silent tot W m"
proof -
  have "run_post tot m w (grown W w (\<lambda>r new. new = []))" if "calm_world W w" for w
    using assms [of w] that by (auto simp: run_post_Some calm_world_def grown_def)
  then show ?thesis by (auto simp: silent_def adds_def)
qed

lemma silent_basic [silent_rules]:
  "silent tot W (turn_return x)" "silent tot W (turn_fail e)" "silent tot W (turn_lift r)" "silent tot W (turn_get h)"
  "silent tot W turn_cancelled" "silent tot W (record_request_header h')"
  by (auto intro!: silent_unchanged simp: turn_return_def turn_fail_def turn_lift_def turn_get_def turn_cancelled_def record_request_header_def
      split: prod.splits)

lemma adds_return: "adds tot W (turn_return x) (\<lambda>r new. r = Inr x \<and> new = [])"
  by (rule addsI) (simp add: grown_self)

lemma silent_if [silent_rules]: "(b \<Longrightarrow> silent tot W m) \<Longrightarrow> (\<not> b \<Longrightarrow> silent tot W m') \<Longrightarrow> silent tot W (if b then m else m')"
  by simp

lemma silent_option [silent_rules]:
  "(x = None \<Longrightarrow> silent tot W m) \<Longrightarrow> (\<And>y. x = Some y \<Longrightarrow> silent tot W (f y)) \<Longrightarrow> silent tot W (case x of None \<Rightarrow> m | Some y \<Rightarrow> f y)"
  by (cases x) simp_all

lemma silent_sum [silent_rules]:
  "(\<And>y. x = Inl y \<Longrightarrow> silent tot W (f y)) \<Longrightarrow> (\<And>y. x = Inr y \<Longrightarrow> silent tot W (g y)) \<Longrightarrow> silent tot W (case x of Inl y \<Rightarrow> f y | Inr y \<Rightarrow> g y)"
  by (cases x) simp_all

lemma silent_bool [silent_rules]:
  "(x \<Longrightarrow> silent tot W m) \<Longrightarrow> (\<not> x \<Longrightarrow> silent tot W m') \<Longrightarrow> silent tot W (case x of True \<Rightarrow> m | False \<Rightarrow> m')"
  by (cases x) simp_all

lemma silent_prod [silent_rules]: "(\<And>a b. x = (a, b) \<Longrightarrow> silent tot W (f a b)) \<Longrightarrow> silent tot W (case x of (a, b) \<Rightarrow> f a b)"
  by (cases x) simp

lemma silent_each: "(\<And>x. x \<in> set xs \<Longrightarrow> silent tot W (f x)) \<Longrightarrow> silent tot W (turn_each f xs)"
  by (induction xs) (simp_all add: silent_rules)

lemma silent_map: "(\<And>x. x \<in> set xs \<Longrightarrow> silent tot W (f x)) \<Longrightarrow> silent tot W (turn_map f xs)"
  by (induction xs) (simp_all add: silent_rules)

section \<open>Appends\<close>

lemma calm_interfere:
  assumes "calm_world W w"
  shows "calm_world W (interfere w)" "seen W (loop_log (interfere w)) = seen W (loop_log w)"
  using assms by (auto simp: interfere_def calm_world_def calm_move_def split: list.splits prod.splits; metis)+

text \<open>The event that a successful append leaves.\<close>

definition written :: "string \<Rightarrow> json \<Rightarrow> u64 list option \<Rightarrow> u64 \<Rightarrow> session_event \<Rightarrow> bool" where
  "written t data sources seq e \<longleftrightarrow> ev_type e = t \<and> ev_data e = data \<and> ev_sources e = sources \<and> ev_seq e = seq"

lemma loop_append_run:
  "\<exists>r w'. loop_append env t data sources op w = Some (r, w') \<and> lw_inbox w' = lw_inbox (interfere w) \<and> lw_moves w' = lw_moves (interfere w)
     \<and> (case r of Inl _ \<Rightarrow> loop_log w' = loop_log (interfere w)
        | Inr seq \<Rightarrow> \<exists>e. loop_log w' = loop_log (interfere w) @ [e] \<and> written t data sources seq e)"
proof -
  let ?w = "interfere w"
  obtain stop c where poll: "is_cancelled (lw_token ?w) = (stop, c)" by (rule prod.exhaust)
  obtain r c' p where ap: "append_next (le_codec env) (le_ops env) (lw_session ?w) (loop_event env t data sources op (loop_log ?w))
      (if stop then None else c, lw_disk ?w) = (r, c', p)" by (rule prod_cases3)
  show ?thesis
  proof (cases r)
    case (Inl e)
    then show ?thesis using poll ap by (simp add: loop_append_def Let_def)
  next
    case (Inr v)
    obtain seq s' where v: "v = (seq, s')" by (rule prod.exhaust)
    from ap[unfolded append_next_def Inr v] obtain c1 where
      "append_under_gate (le_codec env) (le_ops env) (lw_session ?w) (loop_event env t data sources op (loop_log ?w) seq) None (c1, lw_disk ?w)
        = (Inr s', c', p)" by (rule append_next_cases)
    then have "session_events s' = loop_log ?w @ [loop_event env t data sources op (loop_log ?w) seq]" by (rule append_under_gate_extends)
    then show ?thesis using poll ap Inr v by (simp add: loop_append_def Let_def written_def loop_event_def)
  qed
qed

lemma loop_append_effect:
  "adds tot W (loop_append env t data sources op) (\<lambda>r new. case r of Inl _ \<Rightarrow> new = []
     | Inr seq \<Rightarrow> if t \<in> W then \<exists>e. new = [e] \<and> written t data sources seq e else new = [])"
proof (rule addsI)
  fix w :: "'a loop_world" assume w: "calm_world W w"
  obtain r w' where r: "loop_append env t data sources op w = Some (r, w')" "calm_world W w'"
    "case r of Inl _ \<Rightarrow> loop_log w' = loop_log (interfere w)
       | Inr seq \<Rightarrow> \<exists>e. loop_log w' = loop_log (interfere w) @ [e] \<and> written t data sources seq e"
    using loop_append_run [of env t data sources op w] calm_interfere(1) [OF w] by (auto simp: calm_world_def)
  then show "run_post tot (loop_append env t data sources op) w
      (grown W w (\<lambda>r new. case r of Inl _ \<Rightarrow> new = [] | Inr seq \<Rightarrow> if t \<in> W then \<exists>e. new = [e] \<and> written t data sources seq e else new = []))"
    using calm_interfere(2) [OF w] by (auto simp: run_post_Some grown_def written_def split: sum.splits)
qed

lemma loop_append_adds:
  assumes "t \<in> W"
  shows "adds tot W (loop_append env t data sources op)
    (\<lambda>r new. case r of Inl _ \<Rightarrow> new = [] | Inr seq \<Rightarrow> \<exists>e. new = [e] \<and> written t data sources seq e)"
  by (rule adds_mono [OF loop_append_effect]) (use assms in \<open>auto split: sum.splits\<close>)

lemma loop_append_silent [silent_rules]: "t \<notin> W \<Longrightarrow> silent tot W (loop_append env t data sources op)"
  unfolding silent_def by (rule adds_mono [OF loop_append_effect]) (auto split: sum.splits)

lemma append_unit_silent [silent_rules]: "t \<notin> W \<Longrightarrow> silent tot W (append_unit env t data)"
  unfolding append_unit_def by (intro silent_rules)

lemma append_unit_adds:
  assumes "t \<in> W"
  shows "adds tot W (append_unit env t data) (\<lambda>r new. case r of Inl _ \<Rightarrow> new = [] | Inr _ \<Rightarrow> \<exists>e seq. new = [e] \<and> written t data None seq e)"
  unfolding append_unit_def
  by (rule adds_bind [OF loop_append_adds [OF assms] adds_return]) (auto split: sum.splits)

lemma append_message_silent [silent_rules]: "t \<notin> W \<Longrightarrow> silent tot W (append_message env t turn step m sources meta)"
  unfolding append_message_def Let_def by (intro silent_rules)

lemma append_assistant_silent [silent_rules]: "''assistant/message'' \<notin> W \<Longrightarrow> silent tot W (append_assistant env turn step m usage sources)"
  unfolding append_assistant_def Let_def by (intro silent_rules)

section \<open>Claims and context\<close>

lemma commit_inbox_ok:
  assumes "inbox_ok st" "claim_ok cl" "claim_commit cl st = Some (r, st')"
  shows "inbox_ok st'"
proof (cases r)
  case None
  then show ?thesis using claim_commit_effect(2) [OF assms(1, 2)] assms same_queuesD(1) by metis
next
  case (Some ms)
  then show ?thesis using claim_commit_effect(3) [OF assms(1, 2)] assms inbox_ok_without same_queuesD(1) by metis
qed

lemma commit_inbox_claim_silent:
  assumes "''agent/inbox/spliced'' \<notin> W" "claim_ok cl"
  shows "silent tot W (commit_inbox_claim env cl)"
proof -
  let ?note = "\<lambda>w. (if durable_inbox_claim (loop_log w) (cl_messages cl) then append_unit env ''agent/inbox/spliced'' (claim_splice cl)
                    else turn_return ()) w"
  have rcd: "silent True W ?note"
  proof -
    have "run_post True ?note w (grown W w (\<lambda>r new. new = []))" if "calm_world W w" for w
      using append_unit_silent [OF assms(1), of True env "claim_splice cl"] that silent_basic(1) [of True W "()"]
      by (auto simp: silent_def adds_def run_post_def)
    then show ?thesis by (simp add: silent_def adds_def)
  qed
  have "run_post tot (commit_inbox_claim env cl) w (grown W w (\<lambda>r new. new = []))" if w: "calm_world W w" for w
  proof -
    from run_post_returns [OF adds_post [OF rcd[unfolded silent_def] w]] obtain r w' where
      r: "?note w = Some (r, w')" and g: "grown W w (\<lambda>r new. new = []) r w'" by blast
    then have ok: "inbox_ok (lw_inbox w')" by (simp add: grown_def calm_world_def)
    obtain o' ib where c: "claim_commit cl (lw_inbox w') = Some (o', ib)" using claim_commit_effect(1) [OF ok assms(2)] by auto
    have "inbox_ok ib" using commit_inbox_ok [OF ok assms(2) c] .
    then show ?thesis using r g c
      by (cases r; cases o') (auto simp: run_post_def commit_inbox_claim_def Let_def grown_def calm_world_def abort_claim_def)
  qed
  then show ?thesis by (simp add: silent_def adds_def)
qed

lemma reserved_claim_silent:
  assumes r: "\<And>st. inbox_ok st \<Longrightarrow> case reserve st of (c, st') \<Rightarrow> inbox_ok st' \<and> (\<forall>cl. c = Some cl \<longrightarrow> claim_ok cl)"
    and f: "\<And>cl. claim_ok cl \<Longrightarrow> silent tot W (f cl)"
  shows "silent tot W (\<lambda>w0. let w = interfere w0 in case reserve (lw_inbox w) of
      (None, ib) \<Rightarrow> Some (Inr x, w\<lparr>lw_inbox := ib\<rparr>) | (Some cl, ib) \<Rightarrow> f cl (w\<lparr>lw_inbox := ib\<rparr>))" (is "silent tot W ?m")
proof -
  have "run_post tot ?m w (grown W w (\<lambda>r new. new = []))" if w: "calm_world W w" for w
  proof -
    let ?w = "interfere w"
    obtain c ib where c: "reserve (lw_inbox ?w) = (c, ib)" by (rule prod.exhaust)
    have calm: "calm_world W (?w\<lparr>lw_inbox := ib\<rparr>)" and cl: "\<And>cl. c = Some cl \<Longrightarrow> claim_ok cl"
      using r [of "lw_inbox ?w"] calm_interfere(1) [OF w] c by (auto simp: calm_world_def)
    show ?thesis
    proof (cases c)
      case None
      then show ?thesis using c calm calm_interfere(2) [OF w] by (simp add: run_post_def Let_def grown_def)
    next
      case (Some cl')
      have "run_post tot (f cl') (?w\<lparr>lw_inbox := ib\<rparr>) (grown W (?w\<lparr>lw_inbox := ib\<rparr>) (\<lambda>r new. new = []))"
        using f [OF cl [OF Some]] calm by (simp add: silent_def adds_def)
      then show ?thesis using c Some calm_interfere(2) [OF w]
        by (auto simp: run_post_def Let_def grown_def split: option.splits)
    qed
  qed
  then show ?thesis by (simp add: silent_def adds_def)
qed

lemma claim_step_batch_silent [silent_rules]:
  assumes "''agent/inbox/spliced'' \<notin> W"
  shows "silent tot W (claim_step_batch env)"
  unfolding claim_step_batch_def [abs_def]
  by (rule reserved_claim_silent [OF _ commit_inbox_claim_silent [OF assms]])
    (auto split: prod.splits dest: step_batch_claim_ok(1) reserve_claim_queues(2) same_queuesD(1))

lemma claim_next_turn_silent:
  assumes "''agent/inbox/spliced'' \<notin> W"
  shows "silent tot W (claim_next_turn env)"
  unfolding claim_next_turn_def [abs_def]
  by (rule reserved_claim_silent [OF _ silent_bind [OF commit_inbox_claim_silent [OF assms] silent_basic(1)]])
    (auto split: prod.splits dest: next_turn_claim_ok reserve_claim_queues(1) same_queuesD(1))

lemma more_steps_silent [silent_rules]: "silent tot W more_steps"
  using calm_interfere by (auto simp: silent_def adds_def run_post_def more_steps_def Let_def grown_def)

lemma silent_pointwise: "(\<And>w. \<exists>m'. silent tot W m' \<and> m w = m' w) \<Longrightarrow> silent tot W m"
  unfolding silent_def adds_def run_post_def by metis

lemma silent_here: "silent tot W (\<lambda>w. Some (Inr x, w))"
  using silent_basic(1) [of tot W x] by (simp add: turn_return_def)

lemma append_skill_context_silent [silent_rules]: "''user/message'' \<notin> W \<Longrightarrow> silent tot W (append_skill_context env turn step ms)"
  unfolding append_skill_context_def by (intro silent_rules silent_each)

lemma silent_optional_message:
  assumes "''user/message'' \<notin> W" "\<And>w. m w = Some (Inr (), w) \<or> (\<exists>msg. m w = append_message env ''user/message'' turn step msg None None w)"
  shows "silent tot W m"
  by (rule silent_pointwise) (metis assms silent_here append_message_silent)

lemma append_runtime_context_silent [silent_rules]: "''user/message'' \<notin> W \<Longrightarrow> silent tot W (append_runtime_context env turn step)"
  by (erule silent_optional_message) (simp only: append_runtime_context_def Let_def, split if_split, blast)

lemma append_workspace_instructions_silent [silent_rules]:
  "''user/message'' \<notin> W \<Longrightarrow> silent tot W (append_workspace_instructions env turn step)"
proof (erule silent_optional_message)
  fix w
  let ?m = "append_workspace_instructions env turn step w"
  show "?m = Some (Inr (), w) \<or> (\<exists>msg. ?m = append_message env ''user/message'' turn step msg None None w)"
    unfolding append_workspace_instructions_def Let_def
    by (cases "le_instructions env (loop_log w)") (simp_all only: option.case split: if_split, blast+)
qed

section \<open>The model call\<close>

lemma turn_compact_silent:
  assumes "calm_compaction W env" "tot \<Longrightarrow> answers env"
  shows "silent tot W (turn_compact env rq overflow)"
proof (cases "le_compact env")
  case None
  then have "turn_compact env rq overflow = (\<lambda>w. Some (Inr (Inr False), w))" by (simp add: turn_compact_def fun_eq_iff)
  then show ?thesis by (simp add: silent_here)
next
  case (Some f)
  have "run_post tot (turn_compact env rq overflow) w (grown W w (\<lambda>r new. new = []))" if w: "calm_world W w" for w
  proof -
    show ?thesis
    proof (cases "f rq overflow (lw_session w, lw_disk w)")
      case None
      then show ?thesis using Some answersD(2) [OF assms(2) Some, of rq overflow "(lw_session w, lw_disk w)"] by (auto simp: run_post_def turn_compact_def)
    next
      case result: (Some x)
      obtain r s p where f: "f rq overflow (lw_session w, lw_disk w) = Some (r, s, p)" using result by (metis prod_cases3)
      have "seen W (session_events s) = seen W (loop_log w)" using assms(1) Some f unfolding calm_compaction_def by blast
      then show ?thesis using Some f w by (simp add: run_post_def turn_compact_def grown_def calm_world_def)
    qed
  qed
  then show ?thesis by (simp add: silent_def adds_def)
qed

lemma consume_chunks_silent: "''assistant/chunk'' \<notin> W \<Longrightarrow> silent tot W (consume_chunks env turn step items gen seqs)"
proof (induction env turn step items gen seqs rule: consume_chunks.induct)
  case (4 env turn step chunk completed items gen seqs)
  let ?append = "loop_append env ''assistant/chunk'' (obj [(''turn'', jnat turn), (''step'', jnat step), (''chunk'', chunk)]) None None"
  have "run_post tot (consume_chunks env turn step (Inr (chunk, Inr completed) # items) gen seqs) w (grown W w (\<lambda>r new. new = []))"
    if w: "calm_world W w" for w
  proof -
    have "silent True W ?append" using 4(2) by (intro silent_rules)
    from run_post_returns [OF adds_post [OF this[unfolded silent_def] w]] obtain r w' where
      r: "?append w = Some (r, w')" and g: "grown W w (\<lambda>r new. new = []) r w'" by blast
    show ?thesis
    proof (cases r)
      case (Inl e)
      then show ?thesis using r g by (simp add: run_post_def grown_def)
    next
      case (Inr seq)
      have "run_post tot (consume_chunks env turn step items (case completed of None \<Rightarrow> gen | Some g \<Rightarrow> Some g) (seqs @ [seq])) w'
          (grown W w' (\<lambda>r new. new = []))"
        using 4(1) [OF r _ refl, of seq] 4(2) Inr g by (simp add: silent_def adds_def grown_def)
      then show ?thesis using r g Inr by (auto simp: run_post_def grown_def split: option.splits)
    qed
  qed
  then show ?case by (simp add: silent_def adds_def)
qed (simp_all add: silent_rules)

lemma adds_stuck: "adds False W turn_stuck P"
  by (simp add: adds_def run_post_def turn_stuck_def)

lemma silent_stuck: "(tot \<Longrightarrow> False) \<Longrightarrow> silent tot W turn_stuck"
  by (auto simp: silent_def adds_def run_post_def turn_stuck_def)

lemma consume_generation_attempt_silent:
  assumes "''assistant/chunk'' \<notin> W" "tot \<Longrightarrow> answers env"
  shows "silent tot W (consume_generation_attempt env turn step rq)"
proof -
  have answer: "silent tot W (case g of None \<Rightarrow> turn_stuck | Some (Inl e) \<Rightarrow> turn_return (Inl e)
      | Some (Inr items) \<Rightarrow> consume_chunks env turn step items None [])" if "g = le_generate env rq es" for g es
    using that assms(1) answersD(1) [OF assms(2), of rq es] by (auto simp: silent_rules consume_chunks_silent intro!: silent_stuck split: option.splits sum.splits)
  show ?thesis unfolding consume_generation_attempt_def by (rule silent_bind [OF silent_basic(4) answer [OF refl]])
qed

lemma start_retry_silent [silent_rules]:
  "''llm/retry'' \<notin> W \<Longrightarrow> ''llm/retry-started'' \<notin> W \<Longrightarrow> silent tot W (start_retry env rp i turn step provider retry delay f)"
  unfolding start_retry_def by (intro silent_rules)

lemma schedule_retry_silent [silent_rules]:
  "''llm/retry'' \<notin> W \<Longrightarrow> ''llm/retry-started'' \<notin> W \<Longrightarrow> silent tot W (schedule_retry env turn step provider f)"
  unfolding schedule_retry_def Let_def by (intro silent_rules)

text \<open>The loop over the attempts, when it ends, adds what its attempts add, and never ends with the wish for another one.\<close>

lemma gen_loop_adds:
  assumes attempt: "\<And>rq recovered first. adds False W (gen_attempt env turn step rq recovered first) P"
    and again: "\<And>b q a r c. P (Inr (GenAgain b q)) a \<Longrightarrow> P r c \<Longrightarrow> P r (a @ c)"
  shows "adds False W (gen_loop env turn step rq recovered first) (\<lambda>r new. P r new \<and> (\<forall>b q. r \<noteq> Inr (GenAgain b q)))"
proof -
  let ?P = "\<lambda>r new. P r new \<and> (\<forall>b q. r \<noteq> Inr (GenAgain b q))"
  let ?goal = "\<lambda>e t st w y. e = env \<longrightarrow> t = turn \<longrightarrow> st = step \<longrightarrow> calm_world W w \<longrightarrow> grown W w ?P (fst y) (snd y)"
  have "?goal env turn step w y" if "gen_loop env turn step rq recovered first w = Some y" for w y
    using that
  proof (rule gen_loop.raw_induct [where P = "\<lambda>e t st q rec fs w y. ?goal e t st w y", rotated])
    fix loop e t st q rc fs w y
    assume IH: "\<And>e t st q rc fs w y. loop e t st q rc fs w = Some y \<Longrightarrow> ?goal e t st w y"
      and run: "Option.bind (gen_attempt e t st q rc fs w) (\<lambda>(r, w'). case r of Inl e \<Rightarrow> Some (Inl e, w')
         | Inr (GenAgain rc' q') \<Rightarrow> loop e t st q' rc' False w' | Inr (GenDone g seqs) \<Rightarrow> Some (Inr (GenDone g seqs), w')
         | Inr GenEnded \<Rightarrow> Some (Inr GenEnded, w')) = Some y"
    show "?goal e t st w y"
    proof (intro impI)
      assume same: "e = env" "t = turn" "st = step" and w: "calm_world W w"
      obtain r w' where r: "gen_attempt env turn step q rc fs w = Some (r, w')" using run same by (auto simp: Option.bind_eq_Some_conv)
      have g: "grown W w P r w'" using run_postD [OF adds_post [OF attempt w] r] .
      show "grown W w ?P (fst y) (snd y)"
      proof (cases "\<exists>b q'. r = Inr (GenAgain b q')")
        case True
        then obtain b q' where b: "r = Inr (GenAgain b q')" by blast
        then have "loop env turn step q' b False w' = Some y" using run r same by simp
        then have "grown W w' ?P (fst y) (snd y)" using IH g by (simp add: grown_def)
        with g show ?thesis by (rule grown_trans) (use again b in blast)
      next
        case False
        then have "y = (r, w')" using run r same by (auto split: sum.splits gen_decision.splits)
        then show ?thesis using g False by (auto intro: grown_mono)
      qed
    qed
  qed
  then show ?thesis by (auto simp: adds_def run_post_def split: option.splits)
qed

section \<open>Requests and tools\<close>

lemma step_request_silent [silent_rules]: "silent tot W (step_request env)"
  unfolding step_request_def by (intro silent_rules)

lemma append_request_header_silent [silent_rules]: "''request/header'' \<notin> W \<Longrightarrow> silent tot W (append_request_header env rq)"
  unfolding append_request_header_def Let_def by (intro silent_rules)

lemma append_request_context_silent [silent_rules]: "''request/context'' \<notin> W \<Longrightarrow> silent tot W (append_request_context env rq)"
  unfolding append_request_context_def Let_def by (intro silent_rules)

lemma append_dispatch_silent:
  "(\<And>t. get_str ''type'' d = Some t \<Longrightarrow> t \<notin> W) \<Longrightarrow> silent tot W (append_dispatch env d)"
  unfolding append_dispatch_def by (intro silent_rules)

lemma append_deferred_silent [silent_rules]: "''user/message'' \<notin> W \<Longrightarrow> silent tot W (append_deferred env turn step seq ctx)"
  unfolding append_deferred_def by (intro silent_rules)

lemma call_output_dispatches:
  assumes "calm_tools W env" "call_output env es c = Some out" "d \<in> set (code_dispatches (to_meta out))" "get_str ''type'' d = Some t"
  shows "t \<notin> W"
proof -
  obtain i n a where c: "c = (i, n, a)" by (rule prod_cases3)
  show ?thesis
  proof (cases "le_parse env a")
    case (Inl e)
    then have "code_dispatches (to_meta out) = []" using assms(2) by (auto simp: c call_output_def code_dispatches_def)
    then show ?thesis using assms(3) by simp
  next
    case (Inr args)
    then show ?thesis using assms unfolding calm_tools_def by (auto simp: c call_output_def)
  qed
qed

lemma those_set: "those xs = Some ys \<Longrightarrow> set xs = Some ` set ys"
  by (induction xs arbitrary: ys) (auto split: option.splits)

lemma those_None: "those xs = None \<longleftrightarrow> None \<in> set xs"
  by (induction xs) (auto split: option.splits)

lemma tool_outputs_from:
  assumes "tool_outputs env es calls = Some outs" "(k, i, out) \<in> set outs"
  shows "call_output env es (calls ! k) = Some out" "i = fst (calls ! k)"
proof -
  let ?f = "\<lambda>i. map_option (\<lambda>out. (i, fst (calls ! i), out)) (call_output env es (calls ! i))"
  from assms obtain ys where "those (map ?f (le_completion env (length calls) es)) = Some ys" "(k, i, out) \<in> set ys"
    by (auto simp: tool_outputs_def)
  from those_set [OF this(1)] this(2) have "Some (k, i, out) \<in> set (map ?f (le_completion env (length calls) es))" by simp
  then show "call_output env es (calls ! k) = Some out" "i = fst (calls ! k)"
    by (auto simp: map_option_eq_Some eq_commute [of "Some _" "map_option _ _"])
qed

lemma tool_outputs_answered: "answers env \<Longrightarrow> tool_outputs env es calls \<noteq> None"
  by (auto simp: tool_outputs_def those_None call_output_def eq_commute [of None] answersD(3) split: sum.splits prod.splits)

lemma dispatches_silent:
  assumes "calm_tools W env" "tool_outputs env es calls = Some outs" "(k, i, out) \<in> set outs"
  shows "silent tot W (turn_each (append_dispatch env) (code_dispatches (to_meta out)))"
  using tool_outputs_from(1) [OF assms(2, 3)] call_output_dispatches [OF assms(1)]
  by (intro silent_each append_dispatch_silent) metis

lemma append_result_silent:
  assumes "calm_tools W env" "tool_outputs env es calls = Some outs" "(k, i, out) \<in> set outs" "''tool/result'' \<notin> W" "''user/message'' \<notin> W"
  shows "silent tot W (append_result env turn step ((k, i, out), seq))"
  unfolding append_result_def prod.case
  by (intro silent_rules dispatches_silent [OF assms(1-3)] assms(4, 5))

lemma run_tools_silent:
  assumes "calm_tools W env" "''tool/call'' \<notin> W" "''tool/result'' \<notin> W" "''user/message'' \<notin> W"
  shows "silent False W (run_tools env turn step m)"
proof -
  have "silent False W (turn_bind (turn_each (append_result env turn step) (zip outs seqs)) (\<lambda>_. turn_return b))"
    if "tool_outputs env es (tool_calls m) = Some outs" for es outs seqs b
    by (intro silent_rules silent_each) (auto dest!: set_zip_leftD intro: append_result_silent [OF assms(1) that _ assms(3, 4)])
  then show ?thesis unfolding run_tools_def Let_def
    by (intro silent_bind [OF silent_map [OF loop_append_silent [OF assms(2)]]] silent_bind [OF silent_basic(4)])
      (auto simp: silent_stuck split: option.split)
qed

end
