(* ===== verification/Turn_Frames.thy ===== *)
theory Turn_Frames
  imports Turn_Traces "HOL-Library.Sublist"
begin

text \<open>
  The brackets of a turn in the log: which \<open>turn/start\<close>, \<open>step/start\<close>, \<open>step/end\<close> and \<open>turn/end\<close> events each part of
  a turn adds, for a turn that returns normally and for one that an error cuts short.
\<close>

section \<open>Frames\<close>

type_synonym turn_frame = "string \<times> json option \<times> json option"

definition frame_types :: "string set" where
  "frame_types = {''turn/start'', ''step/start'', ''step/end'', ''turn/end''}"

definition frame_of :: "session_event \<Rightarrow> turn_frame" where
  "frame_of e = (ev_type e, json_get ''turn'' (ev_data e), json_get ''step'' (ev_data e))"

definition frames :: "session_event list \<Rightarrow> turn_frame list" where
  "frames es = map frame_of (seen frame_types es)"

definition turn_mark :: "string \<Rightarrow> u64 \<Rightarrow> turn_frame" where
  "turn_mark t turn = (t, Some (jnat turn), None)"

definition step_mark :: "string \<Rightarrow> u64 \<Rightarrow> u64 \<Rightarrow> turn_frame" where
  "step_mark t turn step = (t, Some (jnat turn), Some (jnat step))"

definition steps_frames :: "u64 \<Rightarrow> u64 list \<Rightarrow> turn_frame list" where
  "steps_frames turn ks = concat (map (\<lambda>k. [step_mark ''step/start'' turn k, step_mark ''step/end'' turn k]) ks)"

text \<open>A whole turn: its start, its steps from 1 on, each closed before the next is opened, and its end.\<close>

definition turn_frames :: "u64 \<Rightarrow> nat \<Rightarrow> turn_frame list" where
  "turn_frames turn n = turn_mark ''turn/start'' turn # steps_frames turn [1..<n + 1] @ [turn_mark ''turn/end'' turn]"

text \<open>A piece leaves the frames that its result calls for; when it fails, a beginning of \<open>L\<close>.\<close>

definition marks :: "('a \<Rightarrow> turn_frame list) \<Rightarrow> turn_frame list \<Rightarrow> agent_error + 'a \<Rightarrow> session_event list \<Rightarrow> bool" where
  "marks F L r new = (case r of Inl _ \<Rightarrow> prefix (map frame_of new) L | Inr x \<Rightarrow> map frame_of new = F x)"

lemma marks_simps [simp]:
  "marks F L (Inl e) new = prefix (map frame_of new) L" "marks F L (Inr x) new = (map frame_of new = F x)"
  by (simp_all add: marks_def)

lemma marks_silent: "silent tot W m \<Longrightarrow> (\<And>x. F x = []) \<Longrightarrow> adds tot W m (marks F L)"
  by (erule silent_adds) (auto simp: marks_def split: sum.splits)

lemma marks_weaken: "adds tot W m (marks F L) \<Longrightarrow> prefix L L' \<Longrightarrow> (\<And>x. F x = F' x) \<Longrightarrow> adds tot W m (marks F' L')"
  by (erule adds_mono) (auto simp: marks_def split: sum.splits)

lemma marks_bind:
  assumes m: "adds tot W m (marks F L)" and f: "\<And>x. adds tot W (f x) (marks (G x) (M x))"
    and "prefix L N" "\<And>x. prefix (F x @ M x) N" "\<And>x y. F x @ G x y = H y"
  shows "adds tot W (turn_bind m f) (marks H N)"
proof (rule adds_bind [OF m f])
  show "marks H N (Inl e) new" if "marks F L (Inl e) new" for e new
    using that assms(3) by (auto intro: prefix_order.trans)
  show "marks H N r (a @ b)" if "marks F L (Inr x) a" "marks (G x) (M x) r b" for x r a b
  proof (cases r)
    case (Inl e)
    then have "prefix (map frame_of (a @ b)) (F x @ M x)" using that by (simp add: same_prefix_prefix)
    then show ?thesis using Inl assms(4) by (auto intro: prefix_order.trans)
  next
    case (Inr y)
    then show ?thesis using that assms(5) by simp
  qed
qed

text \<open>Silence before, and a fixed result after.\<close>

lemma marks_after: "silent tot W m \<Longrightarrow> (\<And>x. adds tot W (f x) (marks F L)) \<Longrightarrow> adds tot W (turn_bind m f) (marks F L)"
  by (rule adds_after) auto

lemma marks_seq:
  "adds tot W m (marks (\<lambda>_. A) L) \<Longrightarrow> (\<And>x. adds tot W (f x) (marks (\<lambda>y. B y) M)) \<Longrightarrow> prefix L (A @ M) \<Longrightarrow>
   adds tot W (turn_bind m f) (marks (\<lambda>y. A @ B y) (A @ M))"
  by (rule marks_bind) auto

lemma marks_append:
  assumes "t \<in> W" "frame_of \<lparr>ev_type = t, ev_seq = 0, ev_time = 0, ev_data = data, ev_ignorable = None, ev_sources = None, ev_surface_op = None\<rparr> = fr"
  shows "adds tot W (append_unit env t data) (marks (\<lambda>_. [fr]) [])"
  by (rule adds_mono [OF append_unit_adds [OF assms(1)]])
    (use assms(2) in \<open>auto simp: marks_def written_def frame_of_def split: sum.splits\<close>)

section \<open>The ends of steps and turns\<close>

abbreviation step_end :: "u64 \<Rightarrow> u64 \<Rightarrow> turn_frame list" where
  "step_end turn step \<equiv> [step_mark ''step/end'' turn step]"

abbreviation turn_end :: "u64 \<Rightarrow> turn_frame list" where
  "turn_end turn \<equiv> [turn_mark ''turn/end'' turn]"

abbreviation closing :: "u64 \<Rightarrow> u64 \<Rightarrow> turn_frame list" where
  "closing turn step \<equiv> [step_mark ''step/end'' turn step, turn_mark ''turn/end'' turn]"

lemma frame_member [simp]:
  "''turn/start'' \<in> frame_types" "''step/start'' \<in> frame_types" "''step/end'' \<in> frame_types" "''turn/end'' \<in> frame_types"
  by (simp_all add: frame_types_def)

lemma frame_foreign:
  "''agent/inbox/spliced'' \<notin> frame_types" "''user/message'' \<notin> frame_types" "''assistant/chunk'' \<notin> frame_types"
  "''assistant/message'' \<notin> frame_types" "''llm/retry'' \<notin> frame_types" "''llm/retry-started'' \<notin> frame_types"
  "''request/header'' \<notin> frame_types" "''request/context'' \<notin> frame_types" "''tool/call'' \<notin> frame_types"
  "''tool/result'' \<notin> frame_types" "''plan/mode'' \<notin> frame_types"
  by (simp_all add: frame_types_def)

lemma close_step_marks: "adds tot frame_types (close_step env turn step) (marks (\<lambda>_. step_end turn step) [])"
  unfolding close_step_def by (rule marks_append) (simp_all add: frame_of_def turn_step_def step_mark_def)

lemma end_turn_marks: "adds tot frame_types (end_turn env turn reason) (marks (\<lambda>_. turn_end turn) [])"
  unfolding end_turn_def
  by (intro marks_after silent_rules marks_append) (simp_all add: frame_of_def turn_mark_def)

lemma end_aborted_marks: "adds tot frame_types (end_aborted env turn) (marks (\<lambda>_. turn_end turn) [])"
  unfolding end_aborted_def by (intro marks_after silent_rules end_turn_marks)

lemma close_and_end:
  assumes "\<And>x. adds tot frame_types (f x) (marks (\<lambda>_. turn_end turn) [])"
  shows "adds tot frame_types (turn_bind (close_step env turn step) f) (marks (\<lambda>_. closing turn step) (step_end turn step))"
  by (rule marks_bind [OF close_step_marks assms]) simp_all

lemma then_return:
  assumes "adds tot W m (marks (\<lambda>_. A) L)" "F x = A" "prefix L L'"
  shows "adds tot W (turn_bind m (\<lambda>_. turn_return x)) (marks F L')"
  by (rule adds_bind [OF assms(1) adds_return]) (use assms(2,3) in \<open>auto intro: prefix_order.trans\<close>)

section \<open>The model call\<close>

definition ended_frames :: "u64 \<Rightarrow> u64 \<Rightarrow> bool \<Rightarrow> turn_frame list" where
  "ended_frames turn step ended = (if ended then closing turn step else [])"

abbreviation gen_frames :: "u64 \<Rightarrow> u64 \<Rightarrow> gen_decision \<Rightarrow> turn_frame list" where
  "gen_frames turn step d \<equiv> ended_frames turn step (d = GenEnded)"

lemma ended_frames_simps [simp]: "ended_frames turn step True = closing turn step" "ended_frames turn step False = []"
  by (simp_all add: ended_frames_def)

text \<open>A step that is closed together with its turn, and then a fixed result.\<close>

lemma closed_then_return:
  assumes "\<And>x. adds tot frame_types (f x) (marks (\<lambda>_. turn_end turn) [])" "F y = closing turn step"
  shows "adds tot frame_types (turn_bind (close_step env turn step) (\<lambda>x. turn_bind (f x) (\<lambda>_. turn_return y)))
    (marks F (step_end turn step))"
  unfolding turn_bind_assoc [symmetric] by (rule then_return [OF close_and_end [OF assms(1)]]) (use assms(2) in simp_all)

lemma end_with_failure_marks:
  "adds tot frame_types (end_with_failure env turn step f) (marks (gen_frames turn step) (step_end turn step))"
  unfolding end_with_failure_def by (rule closed_then_return) (simp_all add: end_turn_marks)

lemma close_cancelled_step_marks:
  assumes "F y = closing turn step"
  shows "adds tot frame_types (turn_bind (close_cancelled_step env turn step) (\<lambda>_. turn_return y)) (marks F (step_end turn step))"
  unfolding close_cancelled_step_def turn_bind_assoc by (rule closed_then_return) (simp_all add: end_aborted_marks assms)

lemma end_cancelled_marks:
  "adds tot frame_types (end_cancelled env turn step) (marks (gen_frames turn step) (step_end turn step))"
  unfolding end_cancelled_def by (rule close_cancelled_step_marks) simp

lemma marks_return: "F x = [] \<Longrightarrow> adds tot W (turn_return x) (marks F L)"
  by (rule adds_mono [OF adds_return]) (auto simp: marks_def)

lemma marks_get: "(\<And>w. F (h w) = []) \<Longrightarrow> adds tot W (turn_get h) (marks F L)"
  by (rule addsI) (simp add: grown_self)

lemma retry_or_end_marks:
  "adds tot frame_types (retry_or_end env turn step rq recovered f) (marks (gen_frames turn step) (step_end turn step))"
  unfolding retry_or_end_def
  by (intro marks_after schedule_retry_silent frame_foreign silent_basic)
    (simp_all add: marks_return end_cancelled_marks end_with_failure_marks marks_after silent_basic)

lemma generation_failed_marks:
  assumes "calm_env frame_types env"
  shows "adds False frame_types (generation_failed env turn step rq recovered f) (marks (gen_frames turn step) (step_end turn step))"
  unfolding generation_failed_def
  by (auto intro!: marks_after turn_compact_silent [OF calm_envD(1) [OF assms]] simp: retry_or_end_marks end_with_failure_marks marks_return
      split: sum.splits bool.splits)

lemma gen_attempt_marks:
  assumes "calm_env frame_types env"
  shows "adds False frame_types (gen_attempt env turn step rq recovered first) (marks (gen_frames turn step) (step_end turn step))"
proof -
  have "adds False frame_types (case r of
       Inr (g, seqs) \<Rightarrow> (case gn_finish g of FinishError f \<Rightarrow> generation_failed env turn step rq' recovered f
          | FinishAborted _ \<Rightarrow> end_cancelled env turn step | _ \<Rightarrow> turn_return (GenDone g seqs))
     | Inl e \<Rightarrow> turn_bind turn_cancelled (\<lambda>stop. if stop then end_cancelled env turn step
         else generation_failed env turn step rq' recovered (failure_of e))) (marks (gen_frames turn step) (step_end turn step))"
    for r :: "tessivum_error + generation \<times> u64 list" and rq'
    by (auto intro!: marks_after silent_basic simp: generation_failed_marks [OF assms] end_cancelled_marks marks_return
        split: sum.splits finish_reason.splits)
  moreover have "silent False frame_types (if first then turn_return rq else turn_bind (append_runtime_context env turn step) (\<lambda>_.
      turn_get (\<lambda>w. rq\<lparr>gr_messages := request_messages env (lw_session w)\<rparr>)))"
    by (intro silent_rules frame_foreign)
  ultimately show ?thesis
    unfolding gen_attempt_def by (intro marks_after consume_generation_attempt_silent frame_foreign) simp_all
qed

lemma gen_loop_marks:
  assumes "calm_env frame_types env"
  shows "adds False frame_types (gen_loop env turn step rq recovered first)
    (\<lambda>r new. marks (gen_frames turn step) (step_end turn step) r new \<and> (\<forall>b q. r \<noteq> Inr (GenAgain b q)))"
  by (rule gen_loop_adds [OF gen_attempt_marks [OF assms]]) (auto simp: marks_def split: sum.splits)

section \<open>Steps\<close>

lemma step_compaction_marks:
  assumes "calm_env frame_types env"
  shows "adds False frame_types (step_compaction env turn step rq) (marks (\<lambda>r. ended_frames turn step (r = None)) (step_end turn step))"
proof -
  have "adds False frame_types (turn_bind (end_with_failure env turn step f) (\<lambda>_. turn_return None))
      (marks (\<lambda>r :: generate_request option. ended_frames turn step (r = None)) (step_end turn step))" for f
    unfolding end_with_failure_def turn_bind_assoc turn_bind_return
    by (rule closed_then_return [OF end_turn_marks]) simp
  then show ?thesis unfolding step_compaction_def
    by (auto intro!: marks_after turn_compact_silent [OF calm_envD(1) [OF assms]] marks_return marks_get split: sum.splits bool.splits)
qed

lemma step_generate_marks:
  assumes "calm_env frame_types env"
  shows "adds False frame_types (step_generate env turn step) (marks (\<lambda>r. ended_frames turn step (r = None)) (step_end turn step))"
proof -
  let ?F = "\<lambda>r :: (generation \<times> u64 list) option. ended_frames turn step (r = None)"
  have "adds False frame_types (turn_bind (gen_loop env turn step rq False True) (\<lambda>d.
         case d of GenDone g seqs \<Rightarrow> turn_return (Some (g, seqs)) | _ \<Rightarrow> turn_return None)) (marks ?F (step_end turn step))" for rq
  proof (rule adds_bind [OF gen_loop_marks [OF assms]])
    show "adds False frame_types (case d of GenDone g seqs \<Rightarrow> turn_return (Some (g, seqs)) | _ \<Rightarrow> turn_return None)
        (\<lambda>r new. r = Inr (case d of GenDone g seqs \<Rightarrow> Some (g, seqs) | _ \<Rightarrow> None) \<and> new = [])" for d
      by (cases d) (simp_all add: adds_return)
  qed (auto split: gen_decision.splits)
  then have "adds False frame_types (turn_bind (append_request_header env rq) (\<lambda>_. turn_bind (append_request_context env rq) (\<lambda>_.
       turn_bind (gen_loop env turn step rq False True) (\<lambda>d.
         case d of GenDone g seqs \<Rightarrow> turn_return (Some (g, seqs)) | _ \<Rightarrow> turn_return None)))) (marks ?F (step_end turn step))" for rq
    by (rule marks_after [OF append_request_header_silent [OF frame_foreign(7)] marks_after [OF append_request_context_silent [OF frame_foreign(8)]]])
  note later = this
  show ?thesis
    unfolding step_generate_def
  proof (rule marks_after [OF append_runtime_context_silent [OF frame_foreign(2)] marks_after [OF step_request_silent]])
    fix rq
    show "adds False frame_types (turn_bind (step_compaction env turn step rq) (\<lambda>r. case r of None \<Rightarrow> turn_return None | Some rq \<Rightarrow>
         turn_bind (append_request_header env rq) (\<lambda>_. turn_bind (append_request_context env rq) (\<lambda>_.
         turn_bind (gen_loop env turn step rq False True) (\<lambda>d.
         case d of GenDone g seqs \<Rightarrow> turn_return (Some (g, seqs)) | _ \<Rightarrow> turn_return None))))) (marks ?F (step_end turn step))"
    proof (rule adds_bind [OF step_compaction_marks [OF assms]])
      show "adds False frame_types (case r of None \<Rightarrow> turn_return None | Some rq \<Rightarrow>
         turn_bind (append_request_header env rq) (\<lambda>_. turn_bind (append_request_context env rq) (\<lambda>_.
         turn_bind (gen_loop env turn step rq False True) (\<lambda>d.
         case d of GenDone g seqs \<Rightarrow> turn_return (Some (g, seqs)) | _ \<Rightarrow> turn_return None))))
        (\<lambda>y new. case r of None \<Rightarrow> y = Inr None \<and> new = [] | Some _ \<Rightarrow> marks ?F (step_end turn step) y new)" for r
        using later by (cases r) (simp_all add: adds_return)
    qed (auto split: option.splits)
  qed
qed

text \<open>A step that has been closed: the turn goes on, or it is ended.\<close>

definition after_close :: "u64 \<Rightarrow> bool \<Rightarrow> turn_frame list" where
  "after_close turn again = (if again then [] else turn_end turn)"

lemma after_close_simps [simp]: "after_close turn True = []" "after_close turn False = turn_end turn"
  by (simp_all add: after_close_def)

lemma stop_marks: "adds tot frame_types m (marks (\<lambda>_. turn_end turn) []) \<Longrightarrow>
    adds tot frame_types (turn_bind m (\<lambda>_. turn_return False)) (marks (after_close turn) [])"
  by (erule then_return) simp_all

lemma close_and_go:
  assumes "\<And>x. adds tot frame_types (f x) (marks (after_close turn) [])"
  shows "adds tot frame_types (turn_bind (close_step env turn step) f) (marks (\<lambda>again. step_mark ''step/end'' turn step # after_close turn again) (step_end turn step))"
  by (rule marks_bind [OF close_step_marks assms]) simp_all

lemma step_finish_marks:
  assumes "calm_env frame_types env"
  shows "adds False frame_types (step_finish env turn step g) (marks (\<lambda>again. step_mark ''step/end'' turn step # after_close turn again) (step_end turn step))"
proof -
  note stops = stop_marks [OF end_turn_marks] stop_marks [OF end_aborted_marks]
  have tools: "adds False frame_types (turn_bind (if exit then append_unit env ''plan/mode'' (obj [(''active'', JBool False)]) else turn_return ()) (\<lambda>_.
          turn_bind turn_cancelled (\<lambda>stop.
          if stop then turn_bind (end_aborted env turn) (\<lambda>_. turn_return False)
          else if step = le_max_steps env then turn_bind (end_turn env turn TurnBlocked) (\<lambda>_. turn_return False)
          else turn_return True))) (marks (after_close turn) [])" for exit
    by (intro marks_after silent_rules frame_foreign) (simp_all add: stops marks_return)
  have stopped: "adds False frame_types (turn_bind turn_cancelled (\<lambda>stop.
          if stop then turn_bind (end_aborted env turn) (\<lambda>_. turn_return False)
          else turn_bind more_steps (\<lambda>waiting.
            if waiting then (if step = le_max_steps env then turn_bind (end_turn env turn TurnBlocked) (\<lambda>_. turn_return False) else turn_return True)
            else turn_bind (end_turn env turn TurnCompleted) (\<lambda>_. turn_return False)))) (marks (after_close turn) [])"
    by (rule marks_after [OF silent_basic(5)]) (auto simp: stops marks_return intro!: marks_after [OF more_steps_silent])
  show ?thesis
  proof (cases "gn_finish g")
    case FinishToolCalls
    show ?thesis unfolding step_finish_def Let_def FinishToolCalls finish_reason.case
      by (rule marks_after [OF run_tools_silent [OF calm_envD(2) [OF assms] frame_foreign(9, 10, 2)] close_and_go [OF tools]])
  next
    case FinishStop
    show ?thesis unfolding step_finish_def Let_def FinishStop finish_reason.case by (rule close_and_go [OF stopped])
  qed (simp_all add: step_finish_def close_and_go stops)
qed

text \<open>A whole step.\<close>

definition step_frames :: "u64 \<Rightarrow> u64 \<Rightarrow> bool \<Rightarrow> turn_frame list" where
  "step_frames turn step again = steps_frames turn [step] @ after_close turn again"

lemma step_open_marks:
  "adds tot frame_types (step_open env turn step pending) (marks (\<lambda>_. [step_mark ''step/start'' turn step]) [step_mark ''step/start'' turn step])"
  unfolding step_open_def
proof (rule marks_bind)
  show "adds tot frame_types (append_unit env ''step/start'' (turn_step turn step)) (marks (\<lambda>_. [step_mark ''step/start'' turn step]) [])"
    by (rule marks_append) (simp_all add: frame_of_def turn_step_def step_mark_def)
  show "adds tot frame_types (turn_bind (claim_step_batch env) (\<lambda>batch.
     let ms = batch @ (case pending of None \<Rightarrow> [] | Some m \<Rightarrow> [m]) in
     turn_bind (turn_each (\<lambda>m. append_message env ''user/message'' turn step m None None) ms) (\<lambda>_.
     turn_bind (append_skill_context env turn step ms) (\<lambda>_.
     if step = 1 then append_workspace_instructions env turn step else turn_return ())))) (marks (\<lambda>_. []) [])" for x :: unit
    unfolding Let_def by (rule marks_silent) (intro silent_rules silent_each frame_foreign, simp)
qed simp_all

lemma run_step_marks:
  assumes "calm_env frame_types env"
  shows "adds False frame_types (run_step env turn step pending) (marks (step_frames turn step) (steps_frames turn [step]))"
  unfolding run_step_def
proof (rule marks_bind [OF step_open_marks])
  let ?F = "\<lambda>again. step_mark ''step/end'' turn step # after_close turn again"
  have finish: "adds False frame_types (turn_bind turn_cancelled (\<lambda>stop.
           if stop then turn_bind (close_cancelled_step env turn step) (\<lambda>_. turn_return False)
           else turn_bind (append_assistant env turn step (gn_message g) (gn_usage g) seqs) (\<lambda>_. step_finish env turn step g)))
       (marks ?F (step_end turn step))" for g seqs
    by (rule marks_after [OF silent_basic(5)])
      (auto intro!: close_cancelled_step_marks marks_after [OF append_assistant_silent] step_finish_marks [OF assms] simp: frame_foreign)
  show "adds False frame_types (turn_bind turn_cancelled (\<lambda>stop.
     if stop then turn_bind (close_cancelled_step env turn step) (\<lambda>_. turn_return False)
     else turn_bind (step_generate env turn step) (\<lambda>r.
       case r of
         None \<Rightarrow> turn_return False
       | Some (g, seqs) \<Rightarrow>
           turn_bind turn_cancelled (\<lambda>stop.
           if stop then turn_bind (close_cancelled_step env turn step) (\<lambda>_. turn_return False)
           else turn_bind (append_assistant env turn step (gn_message g) (gn_usage g) seqs) (\<lambda>_. step_finish env turn step g)))))
      (marks ?F (step_end turn step))" for x :: unit
  proof (rule marks_after [OF silent_basic(5)])
    fix stop
    have "adds False frame_types (turn_bind (step_generate env turn step) (\<lambda>r.
       case r of
         None \<Rightarrow> turn_return False
       | Some (g, seqs) \<Rightarrow>
           turn_bind turn_cancelled (\<lambda>stop.
           if stop then turn_bind (close_cancelled_step env turn step) (\<lambda>_. turn_return False)
           else turn_bind (append_assistant env turn step (gn_message g) (gn_usage g) seqs) (\<lambda>_. step_finish env turn step g))))
      (marks ?F (step_end turn step))"
    proof (rule adds_bind [OF step_generate_marks [OF assms]])
      show "adds False frame_types (case r of None \<Rightarrow> turn_return False | Some (g, seqs) \<Rightarrow> turn_bind turn_cancelled (\<lambda>stop.
           if stop then turn_bind (close_cancelled_step env turn step) (\<lambda>_. turn_return False)
           else turn_bind (append_assistant env turn step (gn_message g) (gn_usage g) seqs) (\<lambda>_. step_finish env turn step g)))
        (\<lambda>y new. case r of None \<Rightarrow> y = Inr False \<and> new = [] | Some _ \<Rightarrow> marks ?F (step_end turn step) y new)" for r
        using finish by (cases r) (auto simp: adds_return)
    qed (auto split: option.splits)
    then show "adds False frame_types (if stop then turn_bind (close_cancelled_step env turn step) (\<lambda>_. turn_return False)
     else turn_bind (step_generate env turn step) (\<lambda>r.
       case r of
         None \<Rightarrow> turn_return False
       | Some (g, seqs) \<Rightarrow>
           turn_bind turn_cancelled (\<lambda>stop.
           if stop then turn_bind (close_cancelled_step env turn step) (\<lambda>_. turn_return False)
           else turn_bind (append_assistant env turn step (gn_message g) (gn_usage g) seqs) (\<lambda>_. step_finish env turn step g))))
      (marks ?F (step_end turn step))"
      by (auto intro!: close_cancelled_step_marks)
  qed
qed (simp_all add: step_frames_def steps_frames_def)

section \<open>Turns\<close>

lemma steps_frames_Cons: "steps_frames turn (k # ks) = steps_frames turn [k] @ steps_frames turn ks"
  by (simp add: steps_frames_def)

lemma steps_upt: "steps_frames turn [k..<k + Suc n] = steps_frames turn [k] @ steps_frames turn [Suc k..<Suc k + n]"
proof -
  have "[k..<k + Suc n] = k # [Suc k..<Suc k + n]" by (simp add: upt_conv_Cons)
  then show ?thesis by (simp only: steps_frames_Cons [of turn k "[Suc k..<Suc k + n]"])
qed

definition rest_frames :: "u64 \<Rightarrow> u64 \<Rightarrow> nat \<Rightarrow> turn_frame list" where
  "rest_frames turn step n = steps_frames turn [step..<step + n] @ turn_end turn"

lemma rest_frames_Suc: "rest_frames turn step (Suc n) = steps_frames turn [step] @ rest_frames turn (Suc step) n"
  unfolding rest_frames_def steps_upt by simp

lemma rest_frames_0: "rest_frames turn step 0 = turn_end turn"
  by (simp add: rest_frames_def steps_frames_def)

text \<open>At most \<open>n\<close> steps and the end of the turn; when it fails, a beginning of that without the end of the turn.\<close>

definition bracketed :: "(nat \<Rightarrow> turn_frame list) \<Rightarrow> nat \<Rightarrow> agent_error + unit \<Rightarrow> session_event list \<Rightarrow> bool" where
  "bracketed F n r new \<longleftrightarrow> (\<exists>k \<le> n. case r of Inl _ \<Rightarrow> strict_prefix (map frame_of new) (F k) | Inr _ \<Rightarrow> map frame_of new = F k)"

lemma strict_prefix_appendI: "prefix xs ys \<Longrightarrow> zs \<noteq> [] \<Longrightarrow> strict_prefix xs (ys @ zs)"
  by (auto simp: strict_prefix_def prefix_def)

lemma strict_prefix_Nil [simp]: "strict_prefix [] xs \<longleftrightarrow> xs \<noteq> []"
  by (auto simp: strict_prefix_def)

lemma strict_prefix_same [simp]: "strict_prefix (xs @ ys) (xs @ zs) = strict_prefix ys zs"
  by (simp add: strict_prefix_def)

lemma bracketed_fixed: "adds tot W m (marks (\<lambda>_. F 0) []) \<Longrightarrow> F 0 \<noteq> [] \<Longrightarrow> adds tot W m (bracketed F n)"
  by (erule adds_mono) (auto simp: bracketed_def marks_def split: sum.splits intro!: exI [of _ 0])

lemma bracketed_silent:
  assumes "silent tot W m" "\<And>x. adds tot W (f x) (bracketed F n)" "F 0 \<noteq> []"
  shows "adds tot W (turn_bind m f) (bracketed F n)"
  using assms(1, 2) by (rule adds_after) (use assms(3) in \<open>auto simp: bracketed_def intro!: exI [of _ 0]\<close>)

lemma run_steps_marks:
  assumes "calm_env frame_types env"
  shows "adds False frame_types (run_steps env turn n step pending) (bracketed (rest_frames turn step) n)"
proof (induction n arbitrary: step pending)
  case 0
  show ?case unfolding run_steps.simps
    by (rule bracketed_fixed) (simp_all add: rest_frames_0 end_turn_marks)
next
  case (Suc n)
  have "adds False frame_types (turn_bind (run_step env turn step pending) (\<lambda>again. if again then run_steps env turn n (step + 1) None else turn_return ()))
      (bracketed (rest_frames turn step) (Suc n))"
  proof (rule adds_bind [OF run_step_marks [OF assms]])
    show "adds False frame_types (if again then run_steps env turn n (step + 1) None else turn_return ())
        (\<lambda>r new. if again then bracketed (rest_frames turn (Suc step)) n r new else r = Inr () \<and> new = [])" for again
      using Suc [of "step + 1" None] by (cases again) (simp_all add: adds_return)
    show "bracketed (rest_frames turn step) (Suc n) (Inl e) new" if "marks (step_frames turn step) (steps_frames turn [step]) (Inl e) new" for e new
      using that by (auto simp: bracketed_def rest_frames_Suc rest_frames_0 intro!: exI [of _ "Suc 0"] strict_prefix_appendI)
    show "bracketed (rest_frames turn step) (Suc n) r (a @ b)"
      if a: "marks (step_frames turn step) (steps_frames turn [step]) (Inr again) a"
        and b: "if again then bracketed (rest_frames turn (Suc step)) n r b else r = Inr () \<and> b = []" for again r a b
    proof (cases again)
      case True
      then obtain k where k: "k \<le> n" "case r of Inl _ \<Rightarrow> strict_prefix (map frame_of b) (rest_frames turn (Suc step) k)
          | Inr _ \<Rightarrow> map frame_of b = rest_frames turn (Suc step) k"
        using b by (auto simp: bracketed_def)
      then show ?thesis using a True
        by (auto simp: bracketed_def step_frames_def rest_frames_Suc split: sum.splits intro!: exI [of _ "Suc k"])
    next
      case False
      then show ?thesis using a b
        by (auto simp: bracketed_def step_frames_def rest_frames_Suc rest_frames_0 intro!: exI [of _ "Suc 0"])
    qed
  qed
  moreover have "adds False frame_types (end_aborted env turn) (bracketed (rest_frames turn step) (Suc n))"
    by (rule bracketed_fixed) (simp_all add: rest_frames_0 end_aborted_marks)
  ultimately show ?case unfolding run_steps.simps by (intro bracketed_silent silent_basic) (simp_all add: rest_frames_0)
qed

lemma turn_frames_rest: "turn_frames turn n = turn_mark ''turn/start'' turn # rest_frames turn 1 n"
  by (simp add: turn_frames_def rest_frames_def)

lemma started_turn_marks:
  assumes "calm_env frame_types env"
  shows "adds False frame_types (turn_bind (append_unit env ''turn/start'' (obj [(''turn'', jnat turn)])) (\<lambda>_. run_steps env turn n 1 pending))
    (bracketed (turn_frames turn) n)"
proof (rule adds_bind)
  show "adds False frame_types (append_unit env ''turn/start'' (obj [(''turn'', jnat turn)])) (marks (\<lambda>_. [turn_mark ''turn/start'' turn]) [])"
    by (rule marks_append) (simp_all add: frame_of_def turn_mark_def)
  show "adds False frame_types (run_steps env turn n 1 pending) (bracketed (rest_frames turn 1) n)" for x :: unit
    by (rule run_steps_marks [OF assms])
  show "bracketed (turn_frames turn) n (Inl e) new" if "marks (\<lambda>_ :: unit. [turn_mark ''turn/start'' turn]) [] (Inl e) new" for e new
    using that by (auto simp: bracketed_def turn_frames_def intro!: exI [of _ 0])
  show "bracketed (turn_frames turn) n r (a @ b)"
    if "marks (\<lambda>_ :: unit. [turn_mark ''turn/start'' turn]) [] (Inr x) a" "bracketed (rest_frames turn 1) n r b" for x r a b
    using that by (auto simp: bracketed_def turn_frames_rest split: sum.splits)
qed

text \<open>The beginnings of a run of steps: whole steps, then at most one that is open.\<close>

definition open_steps :: "u64 \<Rightarrow> u64 \<Rightarrow> nat \<Rightarrow> turn_frame list \<Rightarrow> bool" where
  "open_steps turn step n xs \<longleftrightarrow> (\<exists>k \<le> n. xs = steps_frames turn [step..<step + k]
     \<or> k < n \<and> xs = steps_frames turn [step..<step + k] @ [step_mark ''step/start'' turn (step + k)])"

lemma steps_frames_single: "steps_frames turn [k] = [step_mark ''step/start'' turn k, step_mark ''step/end'' turn k]"
  by (simp add: steps_frames_def)

lemma prefix_steps: "prefix xs (steps_frames turn [step..<step + n]) \<Longrightarrow> open_steps turn step n xs"
proof (induction n arbitrary: step xs)
  case 0
  then show ?case by (simp add: open_steps_def steps_frames_def)
next
  case (Suc n)
  from Suc.prems have "prefix xs (step_mark ''step/start'' turn step # step_mark ''step/end'' turn step # steps_frames turn [Suc step..<Suc step + n])"
    unfolding steps_upt steps_frames_single by simp
  then consider "xs = []" | "xs = [step_mark ''step/start'' turn step]"
    | ys where "xs = steps_frames turn [step] @ ys" "prefix ys (steps_frames turn [Suc step..<Suc step + n])"
    by (auto simp: prefix_Cons steps_frames_single)
  then show ?case
  proof cases
    case 1
    then show ?thesis by (auto simp: open_steps_def steps_frames_def intro!: exI [of _ 0])
  next
    case 2
    then show ?thesis by (auto simp: open_steps_def steps_frames_def intro!: exI [of _ 0])
  next
    case 3
    from Suc.IH [OF 3(2)] obtain k where "k \<le> n" "ys = steps_frames turn [Suc step..<Suc step + k]
       \<or> k < n \<and> ys = steps_frames turn [Suc step..<Suc step + k] @ [step_mark ''step/start'' turn (Suc step + k)]"
      by (auto simp: open_steps_def)
    then show ?thesis unfolding open_steps_def by (intro exI [of _ "Suc k"], unfold steps_upt 3(1)) auto
  qed
qed

lemma strict_prefix_turn:
  assumes "strict_prefix xs (turn_frames turn n)"
  shows "xs = [] \<or> (\<exists>ys. xs = turn_mark ''turn/start'' turn # ys \<and> open_steps turn 1 n ys)"
proof (cases xs)
  case (Cons x ys)
  with assms have "x = turn_mark ''turn/start'' turn" "strict_prefix ys (steps_frames turn [1..<1 + n] @ [turn_mark ''turn/end'' turn])"
    by (simp_all add: turn_frames_def)
  then have "prefix ys (steps_frames turn [1..<1 + n])" by (auto simp: strict_prefix_def prefix_snoc)
  from prefix_steps [OF this] show ?thesis using Cons \<open>x = _\<close> by simp
qed simp

end
