(* ===== verification/Turn_Tools.thy ===== *)
theory Turn_Tools
  imports Turn_Traces
begin

text \<open>
  The tool calls of a step in the log: every call first, in the order of the message, then one result per call in the same order,
  whatever order the calls finish in.
\<close>

definition tool_types :: "string set" where
  "tool_types = {''tool/call'', ''tool/result''}"

definition is_call :: "u64 \<Rightarrow> u64 \<Rightarrow> string \<times> string \<times> string \<Rightarrow> session_event \<Rightarrow> bool" where
  "is_call turn step c e \<longleftrightarrow> ev_type e = ''tool/call'' \<and> ev_data e = call_data turn step c"

text \<open>The result of a call: it cites the event of its call and carries that call's output under that call's id.\<close>

definition is_result ::
  "'p loop_env \<Rightarrow> u64 \<Rightarrow> u64 \<Rightarrow> session_event list \<Rightarrow> (string \<times> string \<times> string) \<times> u64 \<Rightarrow> session_event \<Rightarrow> bool" where
  "is_result env turn step es cs e \<longleftrightarrow> (case cs of (c, seq) \<Rightarrow> ev_type e = ''tool/result'' \<and> ev_sources e = Some [seq]
     \<and> (\<exists>i out. call_output env es c = Some out \<and> ev_data e = json_put ''meta'' (strip_meta (to_meta out)) (obj [(''turn'', jnat turn),
          (''step'', jnat step), (''message'', cd_message_to (le_codec env) \<lparr>msg_id = i, msg_role = User,
             msg_content = [into_content_block out (fst c)], msg_source = SrcTool (fst c)\<rparr>)])))"

text \<open>The executor runs every call once; in which order they finish is open.\<close>

definition completes_all :: "'p loop_env \<Rightarrow> bool" where
  "completes_all env \<longleftrightarrow> (\<forall>n es. mset (le_completion env n es) = mset [0..<n])"

section \<open>Sequences of appends\<close>

text \<open>A beginning of what the whole sequence would add.\<close>

definition partly :: "('a \<Rightarrow> session_event \<Rightarrow> bool) \<Rightarrow> 'a list \<Rightarrow> session_event list \<Rightarrow> bool" where
  "partly S xs new \<longleftrightarrow> (\<exists>k. list_all2 S (take k xs) new)"

lemma partly_Nil: "partly S xs []"
  by (auto simp: partly_def intro: exI [of _ 0])

lemma partly_Cons: "S x e \<Longrightarrow> partly S xs new \<Longrightarrow> partly S (x # xs) (e # new)"
  unfolding partly_def by (metis list_all2_Cons take_Suc_Cons)

lemma partly_all: "list_all2 S xs new \<Longrightarrow> partly S xs new"
  unfolding partly_def by (metis list_all2_lengthD order_refl take_all)

lemma turn_map_adds:
  assumes "\<And>x. x \<in> set xs \<Longrightarrow> adds tot W (f x) (\<lambda>r new. case r of Inl _ \<Rightarrow> new = [] | Inr seq \<Rightarrow> \<exists>e. new = [e] \<and> S x e \<and> seq = ev_seq e)"
  shows "adds tot W (turn_map f xs) (\<lambda>r new. case r of Inl _ \<Rightarrow> partly S xs new | Inr seqs \<Rightarrow> list_all2 S xs new \<and> seqs = map ev_seq new)"
  using assms
proof (induction xs)
  case Nil
  show ?case unfolding turn_map.simps by (rule adds_mono [OF adds_return]) auto
next
  case (Cons x xs)
  have tl: "adds tot W (turn_bind (turn_map f xs) (\<lambda>ys. turn_return (y # ys)))
      (\<lambda>r new. case r of Inl _ \<Rightarrow> partly S xs new | Inr seqs \<Rightarrow> list_all2 S xs new \<and> seqs = y # map ev_seq new)" for y
    by (rule adds_bind [OF Cons.IH adds_return]) (use Cons.prems in \<open>auto split: sum.splits\<close>)
  show ?case unfolding turn_map.simps
    by (rule adds_bind [OF Cons.prems tl]) (auto simp: partly_Nil partly_Cons split: sum.splits)
qed

lemma turn_each_adds:
  assumes "\<And>x. x \<in> set xs \<Longrightarrow> adds tot W (f x) (\<lambda>r new. (\<exists>e. r = Inl e) \<and> new = [] \<or> (\<exists>e. new = [e] \<and> S x e))"
  shows "adds tot W (turn_each f xs) (\<lambda>r new. case r of Inl _ \<Rightarrow> partly S xs new | Inr _ \<Rightarrow> list_all2 S xs new)"
  using assms
proof (induction xs)
  case Nil
  show ?case unfolding turn_each.simps by (rule adds_mono [OF adds_return]) auto
next
  case (Cons x xs)
  have "adds tot W (f x) (\<lambda>r new. (\<exists>e. r = Inl e) \<and> new = [] \<or> (\<exists>e. new = [e] \<and> S x e))" using Cons.prems by simp
  moreover have "adds tot W (turn_each f xs) (\<lambda>r new. case r of Inl _ \<Rightarrow> partly S xs new | Inr _ \<Rightarrow> list_all2 S xs new)"
    using Cons by simp
  ultimately show ?case unfolding turn_each.simps
    by (rule adds_bind) (auto simp: partly_Nil partly_Cons split: sum.splits)
qed

section \<open>Outputs\<close>

lemma sort_key_map: "sort_key f (map g xs) = map g (sort_key (\<lambda>x. f (g x)) xs)"
proof -
  have "insort_key f (g x) (map g ys) = map g (insort_key (\<lambda>x. f (g x)) x ys)" for x ys by (induction ys) auto
  then show ?thesis by (induction xs) auto
qed

lemma those_Some: "those xs = Some ys \<longleftrightarrow> xs = map Some ys"
  by (induction xs arbitrary: ys) (auto split: option.splits)

lemma tool_outputs_in_order:
  assumes "completes_all env" "tool_outputs env es calls = Some outs"
  shows "map fst outs = [0..<length calls]"
proof -
  let ?ks = "le_completion env (length calls) es"
  let ?f = "\<lambda>i. map_option (\<lambda>out. (i, fst (calls ! i), out)) (call_output env es (calls ! i))"
  obtain ys where ys: "map ?f ?ks = map Some ys" "outs = sort_key fst ys" using assms(2) by (auto simp: tool_outputs_def those_Some)
  have "map fst ys = ?ks"
  proof (rule nth_equalityI)
    show len: "length (map fst ys) = length ?ks" using arg_cong [OF ys(1), of length] by simp
    fix k assume "k < length (map fst ys)"
    then have "map ?f ?ks ! k = map Some ys ! k" "k < length ?ks" "k < length ys" using ys(1) len by simp_all
    then have "?f (?ks ! k) = Some (ys ! k)" by simp
    then show "map fst ys ! k = ?ks ! k" using \<open>k < length ys\<close> by (cases "ys ! k") auto
  qed
  moreover have "mset ?ks = mset [0..<length calls]" using assms(1) by (simp add: completes_all_def)
  then have "sort ?ks = [0..<length calls]" by (intro properties_for_sort) simp_all
  ultimately show ?thesis using sort_key_map [of "\<lambda>x. x" fst ys] by (simp add: ys(2) id_def)
qed

lemma append_result_adds:
  assumes "calm_tools tool_types env" "tool_outputs env es calls = Some outs" "(k, i, out) \<in> set outs"
  shows "adds tot tool_types (append_result env turn step ((k, i, out), seq))
    (\<lambda>r new. (\<exists>e. r = Inl e) \<and> new = [] \<or> (\<exists>e. new = [e] \<and> is_result env turn step es (calls ! k, seq) e))"
proof -
  note out = tool_outputs_from [OF assms(2, 3)]
  have message: "adds tot tool_types (append_message env ''tool/result'' turn step \<lparr>msg_id = n, msg_role = User,
         msg_content = [into_content_block out i], msg_source = SrcTool i\<rparr> (Some [seq]) (Some (strip_meta (to_meta out))))
     (\<lambda>r new. case r of Inl _ \<Rightarrow> new = [] | Inr _ \<Rightarrow> \<exists>e. new = [e] \<and> is_result env turn step es (calls ! k, seq) e)" for n
    unfolding append_message_def Let_def
    by (rule adds_bind [OF loop_append_adds adds_return])
      (auto simp: tool_types_def is_result_def written_def out split: sum.splits)
  have deferred: "silent tot tool_types (append_deferred env turn step (seq) ctx)" for ctx
    by (rule append_deferred_silent) (simp add: tool_types_def)
  have "adds tot tool_types (turn_bind (append_message env ''tool/result'' turn step \<lparr>msg_id = n, msg_role = User,
         msg_content = [into_content_block out i], msg_source = SrcTool i\<rparr> (Some [seq]) (Some (strip_meta (to_meta out))))
      (\<lambda>_. append_deferred env turn step (seq) ctx))
     (\<lambda>r new. (\<exists>e. r = Inl e) \<and> new = [] \<or> (\<exists>e. new = [e] \<and> is_result env turn step es (calls ! k, seq) e))" for n ctx
    by (rule adds_before [OF message deferred]) auto
  then show ?thesis unfolding append_result_def prod.case
    by (intro adds_after [OF dispatches_silent [OF assms]] adds_after [OF silent_basic(4)]) auto
qed

section \<open>The tools of a step\<close>

lemma call_adds:
  "adds tot tool_types (loop_append env ''tool/call'' (call_data turn step c) None None)
     (\<lambda>r new. case r of Inl _ \<Rightarrow> new = [] | Inr seq \<Rightarrow> \<exists>e. new = [e] \<and> is_call turn step c e \<and> seq = ev_seq e)"
  by (rule adds_mono [OF loop_append_adds]) (auto simp: tool_types_def is_call_def written_def split: sum.splits)

lemma turn_each_map: "turn_each g (map h xs) = turn_each (\<lambda>x. g (h x)) xs"
  by (induction xs) simp_all

lemma results_add:
  assumes "calm_tools tool_types env" "completes_all env" "tool_outputs env es calls = Some outs"
  shows "adds tot tool_types (turn_each (append_result env turn step) (zip outs seqs))
    (\<lambda>r new. case r of Inl _ \<Rightarrow> partly (is_result env turn step es) (zip calls seqs) new
       | Inr _ \<Rightarrow> list_all2 (is_result env turn step es) (zip calls seqs) new)"
proof -
  let ?ks = "[0..<min (length calls) (length seqs)]"
  have len: "length outs = length calls" using arg_cong [OF tool_outputs_in_order [OF assms(2, 3)], of length] by simp
  have nth: "fst (outs ! k) = k" if "k < length calls" for k
    using arg_cong [OF tool_outputs_in_order [OF assms(2, 3)], of "\<lambda>xs. xs ! k"] that len by simp
  have items: "zip outs seqs = map (\<lambda>k. (outs ! k, seqs ! k)) ?ks"
    by (rule nth_equalityI) (simp_all add: len)
  have zips: "zip calls seqs = map (\<lambda>k. (calls ! k, seqs ! k)) ?ks"
    by (rule nth_equalityI) simp_all
  have one: "adds tot tool_types (append_result env turn step (outs ! k, seqs ! k))
      (\<lambda>r new. (\<exists>e. r = Inl e) \<and> new = [] \<or> (\<exists>e. new = [e] \<and> is_result env turn step es (calls ! k, seqs ! k) e))" if "k \<in> set ?ks" for k
  proof -
    have k: "k < length calls" using that by simp
    obtain i out where out: "outs ! k = (k, i, out)" using nth [OF k] by (cases "outs ! k") auto
    have "outs ! k \<in> set outs" using k len by simp
    then show ?thesis using append_result_adds [OF assms(1, 3), of k i out] by (simp add: out)
  qed
  have "adds tot tool_types (turn_each (\<lambda>k. append_result env turn step (outs ! k, seqs ! k)) ?ks)
    (\<lambda>r new. case r of Inl _ \<Rightarrow> partly (\<lambda>k. is_result env turn step es (calls ! k, seqs ! k)) ?ks new
       | Inr _ \<Rightarrow> list_all2 (\<lambda>k. is_result env turn step es (calls ! k, seqs ! k)) ?ks new)"
    by (rule turn_each_adds, rule one)
  then show ?thesis unfolding items zips turn_each_map partly_def take_map list_all2_map1 .
qed

text \<open>Together: the calls, then the results, each list complete when the step goes on.\<close>

definition tool_trace :: "'p loop_env \<Rightarrow> u64 \<Rightarrow> u64 \<Rightarrow> message \<Rightarrow> agent_error + bool \<Rightarrow> session_event list \<Rightarrow> bool" where
  "tool_trace env turn step m r new \<longleftrightarrow> (\<exists>es evs results. new = evs @ results \<and>
     (case r of
        Inr _ \<Rightarrow> list_all2 (is_call turn step) (tool_calls m) evs
          \<and> list_all2 (is_result env turn step es) (zip (tool_calls m) (map ev_seq evs)) results
      | Inl _ \<Rightarrow> partly (is_call turn step) (tool_calls m) evs
          \<and> partly (is_result env turn step es) (zip (tool_calls m) (map ev_seq evs)) results))"

lemma run_tools_adds:
  assumes "calm_tools tool_types env" "completes_all env"
  shows "adds False tool_types (run_tools env turn step m) (tool_trace env turn step m)"
  unfolding run_tools_def Let_def
proof (rule adds_bind [OF turn_map_adds [OF call_adds]])
  let ?calls = "tool_calls m"
  let ?P = "\<lambda>seqs r new. \<exists>es. case r of Inl _ \<Rightarrow> partly (is_result env turn step es) (zip ?calls seqs) new
      | Inr _ \<Rightarrow> list_all2 (is_result env turn step es) (zip ?calls seqs) new"
  have results: "adds False tool_types (turn_bind (turn_each (append_result env turn step) (zip outs seqs)) (\<lambda>_. turn_return b)) (?P seqs)"
    if "tool_outputs env es ?calls = Some outs" for es outs seqs b
    by (rule adds_bind [OF results_add [OF assms that] adds_return]) (auto split: sum.splits)
  have "adds False tool_types (case tool_outputs env es ?calls of None \<Rightarrow> turn_stuck | Some outs \<Rightarrow>
      turn_bind (turn_each (append_result env turn step) (zip outs seqs)) (\<lambda>_.
      turn_return (list_ex (\<lambda>((_, _, out), _). deferred_exit (to_meta out)) (zip outs seqs)))) (?P seqs)" for es seqs
    using results by (cases "tool_outputs env es ?calls") (simp_all add: adds_stuck)
  then show "adds False tool_types (turn_bind (turn_get loop_log) (\<lambda>es. case tool_outputs env es ?calls of None \<Rightarrow> turn_stuck | Some outs \<Rightarrow>
      turn_bind (turn_each (append_result env turn step) (zip outs seqs)) (\<lambda>_.
      turn_return (list_ex (\<lambda>((_, _, out), _). deferred_exit (to_meta out)) (zip outs seqs))))) (?P seqs)" for seqs
    by (intro adds_after [OF silent_basic(4)]) (auto simp: partly_Nil)
  show "tool_trace env turn step m (Inl e) new" if "case Inl e of Inl _ \<Rightarrow> partly (is_call turn step) ?calls new
      | Inr seqs \<Rightarrow> list_all2 (is_call turn step) ?calls new \<and> seqs = map ev_seq new" for e new
    unfolding tool_trace_def by (rule exI [of _ "[]"], rule exI [of _ new], rule exI [of _ "[]"]) (use that partly_Nil in simp)
  show "tool_trace env turn step m r (a @ b)"
    if "case Inr seqs of Inl _ \<Rightarrow> partly (is_call turn step) ?calls a
      | Inr seqs \<Rightarrow> list_all2 (is_call turn step) ?calls a \<and> seqs = map ev_seq a" "?P seqs r b" for seqs r a b
  proof -
    have a: "list_all2 (is_call turn step) ?calls a" "seqs = map ev_seq a" using that(1) by simp_all
    from that(2) obtain es where "case r of Inl _ \<Rightarrow> partly (is_result env turn step es) (zip ?calls seqs) b
        | Inr _ \<Rightarrow> list_all2 (is_result env turn step es) (zip ?calls seqs) b" by blast
    then show ?thesis unfolding tool_trace_def
      by (intro exI [of _ es] exI [of _ a] exI [of _ b]) (use a partly_all [OF a(1)] in \<open>auto split: sum.splits\<close>)
  qed
qed

end
