(* ===== verification/Turn_Grants.thy ===== *)
theory Turn_Grants
  imports Turn_Tools
begin

text \<open>
  What the tools of a step do to the sandbox of their session: the events that an output names in its \<open>codeDispatches\<close> are appended
  without a check of their type, so that the modes among them are facts of the permission fold.
\<close>

abbreviation mode_types :: "string set" where
  "mode_types \<equiv> {''sandbox/mode''}"

text \<open>The mode that one dispatch would set.\<close>

definition dispatched_mode :: "json \<Rightarrow> sandbox_mode option" where
  "dispatched_mode d =
     (if get_str ''type'' d = Some ''sandbox/mode''
      then Option.bind (json_get ''data'' d) (\<lambda>data. Option.bind (get_str ''mode'' data) sandbox_mode_of) else None)"

definition output_dispatches :: "(nat \<times> string \<times> tool_output) list \<Rightarrow> json list" where
  "output_dispatches outs = concat (map (\<lambda>(_, _, out). code_dispatches (to_meta out)) outs)"

text \<open>A piece that returns normally leaves exactly the modes of the given dispatches.\<close>

definition sets_modes :: "json list \<Rightarrow> agent_error + 'a \<Rightarrow> session_event list \<Rightarrow> bool" where
  "sets_modes ds r new \<longleftrightarrow> (\<forall>x. r = Inr x \<longrightarrow> List.map_filter sandbox_fact new = List.map_filter dispatched_mode ds)"

lemma map_filter_append: "List.map_filter f (xs @ ys) = List.map_filter f xs @ List.map_filter f ys"
  by (simp add: List.map_filter_def)

lemma sets_modes_simps [simp]:
  "sets_modes ds (Inl e) new" "sets_modes [] (Inr x) []"
  by (simp_all add: sets_modes_def)

lemma sets_modes_append: "sets_modes ds (Inr x) a \<Longrightarrow> sets_modes ds' r b \<Longrightarrow> sets_modes (ds @ ds') r (a @ b)"
  by (auto simp: sets_modes_def map_filter_append)

lemma append_dispatch_modes: "adds tot mode_types (append_dispatch env d) (sets_modes [d])"
proof (cases "get_str ''type'' d")
  case None
  then show ?thesis
    by (auto simp: append_dispatch_def sets_modes_def dispatched_mode_def List.map_filter_def intro: adds_mono [OF adds_return])
next
  case (Some t)
  show ?thesis
  proof (cases "json_get ''data'' d")
    case None
    then show ?thesis using Some
      by (auto simp: append_dispatch_def sets_modes_def dispatched_mode_def List.map_filter_def intro: adds_mono [OF adds_return])
  next
    case data: (Some data)
    have append: "append_dispatch env d = append_unit env t data" using Some data by (simp add: append_dispatch_def)
    show ?thesis
    proof (cases "t = ''sandbox/mode''")
      case True
      then have "t \<in> mode_types" by simp
      from append_unit_adds [OF this] show ?thesis unfolding append
        by (rule adds_mono) (use Some data True in \<open>auto simp: sets_modes_def written_def sandbox_fact_def dispatched_mode_def List.map_filter_def\<close>)
    next
      case False
      then have "t \<notin> mode_types" by simp
      from append_unit_silent [OF this] show ?thesis unfolding append
        by (rule silent_adds) (use Some False in \<open>auto simp: sets_modes_def dispatched_mode_def List.map_filter_def\<close>)
    qed
  qed
qed

lemma each_modes:
  assumes "\<And>x. x \<in> set xs \<Longrightarrow> adds tot W (f x) (sets_modes (g x))"
  shows "adds tot W (turn_each f xs) (sets_modes (concat (map g xs)))"
  using assms
proof (induction xs)
  case Nil
  show ?case unfolding turn_each.simps by (rule adds_mono [OF adds_return]) simp
next
  case (Cons x xs)
  have first: "adds tot W (f x) (sets_modes (g x))" and rest: "adds tot W (turn_each f xs) (sets_modes (concat (map g xs)))"
    using Cons by simp_all
  show ?case unfolding turn_each.simps by (rule adds_bind [OF first rest]) (simp_all add: sets_modes_append)
qed

lemma append_result_modes: "adds tot mode_types (append_result env turn step ((k, i, out), seq)) (sets_modes (code_dispatches (to_meta out)))"
proof -
  let ?ds = "code_dispatches (to_meta out)"
  have dispatches: "adds tot mode_types (turn_each (append_dispatch env) ?ds) (sets_modes ?ds)"
    using each_modes [where f = "append_dispatch env" and g = "\<lambda>d. [d]" and xs = ?ds, OF append_dispatch_modes] by (simp add: concat_map_singleton)
  have rest: "silent tot mode_types (turn_bind (turn_get loop_log) (\<lambda>es.
     turn_bind (append_message env ''tool/result'' turn step \<lparr>msg_id = le_fresh_id env es, msg_role = User,
         msg_content = [into_content_block out i], msg_source = SrcTool i\<rparr> (Some [seq]) (Some (strip_meta (to_meta out)))) (\<lambda>_.
     append_deferred env turn step seq (json_get ''deferredContext'' (to_meta out)))))"
    by (intro silent_rules) simp_all
  show ?thesis unfolding append_result_def prod.case
    by (rule adds_bind [OF dispatches rest[unfolded silent_def]]) (auto simp: sets_modes_def)
qed

lemma turn_map_silent:
  assumes "\<And>x. silent tot W (f x)"
  shows "adds tot W (turn_map f xs) (\<lambda>r new. new = [] \<and> (\<forall>ys. r = Inr ys \<longrightarrow> length ys = length xs))"
proof (induction xs)
  case Nil
  show ?case unfolding turn_map.simps by (rule adds_mono [OF adds_return]) simp
next
  case (Cons x xs)
  have rest: "adds tot W (turn_bind (turn_map f xs) (\<lambda>ys. turn_return (y # ys))) (\<lambda>r new. new = [] \<and> (\<forall>ys. r = Inr ys \<longrightarrow> length ys = Suc (length xs)))" for y
    by (rule adds_bind [OF Cons adds_return]) simp_all
  show ?case unfolding turn_map.simps by (rule adds_bind [OF assms[unfolded silent_def] rest]) simp_all
qed

lemma outputs_modes:
  "adds False mode_types (turn_bind (turn_each (append_result env turn step) (zip outs seqs)) (\<lambda>_. turn_return b))
     (sets_modes (output_dispatches (take (length seqs) outs)))"
proof -
  have "adds False mode_types (append_result env turn step x) (sets_modes (case fst x of (_, _, out) \<Rightarrow> code_dispatches (to_meta out)))" for x
    by (cases x) (auto simp: append_result_modes)
  from each_modes [OF this] have each: "adds False mode_types (turn_each (append_result env turn step) (zip outs seqs))
      (sets_modes (concat (map (\<lambda>x. case fst x of (_, _, out) \<Rightarrow> code_dispatches (to_meta out)) (zip outs seqs))))" .
  have "map (\<lambda>x. case fst x of (_, _, out) \<Rightarrow> code_dispatches (to_meta out)) (zip outs seqs) = map (\<lambda>(_, _, out). code_dispatches (to_meta out)) (take (length seqs) outs)"
    by (induction outs seqs rule: list_induct2') auto
  with each have "adds False mode_types (turn_each (append_result env turn step) (zip outs seqs))
      (sets_modes (output_dispatches (take (length seqs) outs)))"
    by (simp add: output_dispatches_def)
  then show ?thesis by (rule adds_bind [OF _ adds_return]) (auto simp: sets_modes_def)
qed

text \<open>The tools of a step that goes on leave the modes of their dispatches, in the order of their calls.\<close>

definition modes_of_tools :: "'p loop_env \<Rightarrow> message \<Rightarrow> agent_error + bool \<Rightarrow> session_event list \<Rightarrow> bool" where
  "modes_of_tools env m r new \<longleftrightarrow>
     (\<forall>b. r = Inr b \<longrightarrow> (\<exists>es outs. tool_outputs env es (tool_calls m) = Some outs \<and> sets_modes (output_dispatches outs) r new))"

lemma run_tools_modes:
  assumes "completes_all env"
  shows "adds False mode_types (run_tools env turn step m) (modes_of_tools env m)"
  unfolding run_tools_def Let_def
proof (rule adds_bind)
  let ?calls = "tool_calls m"
  show "adds False mode_types (turn_map (\<lambda>c. loop_append env ''tool/call'' (call_data turn step c) None None) ?calls)
      (\<lambda>r new. new = [] \<and> (\<forall>seqs. r = Inr seqs \<longrightarrow> length seqs = length ?calls))"
    by (rule turn_map_silent) (intro silent_rules, simp)
  let ?R = "\<lambda>seqs r new. \<forall>b. r = Inr b \<longrightarrow>
      (\<exists>es outs. tool_outputs env es ?calls = Some outs \<and> sets_modes (output_dispatches (take (length seqs) outs)) r new)"
  have outputs: "adds False mode_types (case tool_outputs env es ?calls of None \<Rightarrow> turn_stuck | Some outs \<Rightarrow>
      turn_bind (turn_each (append_result env turn step) (zip outs seqs)) (\<lambda>_.
      turn_return (list_ex (\<lambda>((_, _, out), _). deferred_exit (to_meta out)) (zip outs seqs)))) (?R seqs)" for es seqs
  proof (cases "tool_outputs env es ?calls")
    case None
    then show ?thesis by (simp add: adds_stuck)
  next
    case (Some outs)
    show ?thesis unfolding Some option.case by (intro adds_mono [OF outputs_modes]) (use Some in blast)
  qed
  show "adds False mode_types (turn_bind (turn_get loop_log) (\<lambda>es. case tool_outputs env es ?calls of None \<Rightarrow> turn_stuck | Some outs \<Rightarrow>
      turn_bind (turn_each (append_result env turn step) (zip outs seqs)) (\<lambda>_.
      turn_return (list_ex (\<lambda>((_, _, out), _). deferred_exit (to_meta out)) (zip outs seqs))))) (?R seqs)" for seqs
    by (rule adds_after [OF silent_basic(4) outputs]) simp
  show "modes_of_tools env m r (a @ b)"
    if a: "a = [] \<and> (\<forall>seqs'. Inr seqs = Inr seqs' \<longrightarrow> length seqs' = length ?calls)" and R: "?R seqs r b" for seqs :: "u64 list" and r a b
    unfolding modes_of_tools_def
  proof (intro allI impI)
    fix x assume r: "r = Inr x"
    from R r obtain es outs where outs: "tool_outputs env es ?calls = Some outs" "sets_modes (output_dispatches (take (length seqs) outs)) r b" by blast
    have "length outs = length seqs" using arg_cong [OF tool_outputs_in_order [OF assms outs(1)], of length] a by simp
    with outs a show "\<exists>es outs. tool_outputs env es ?calls = Some outs \<and> sets_modes (output_dispatches outs) r (a @ b)" by auto
  qed
qed (simp add: modes_of_tools_def)

section \<open>The sandbox afterwards\<close>

lemma last_fact_append: "last_fact f (xs @ ys) = (case last_fact f ys of None \<Rightarrow> last_fact f xs | Some y \<Rightarrow> Some y)"
  by (auto simp: last_fact_def map_filter_append split: list.splits)

lemma last_fact_cong: "List.map_filter f xs = List.map_filter g ys \<Longrightarrow> last_fact f xs = last_fact g ys"
  by (simp add: last_fact_def)

lemma sandbox_seen: "last_fact sandbox_fact (seen mode_types es) = last_fact sandbox_fact es"
  by (rule last_fact_cong) (induction es; simp add: sandbox_fact_def List.map_filter_def)

end
