(* ===== verification/Turn_Returns.thy ===== *)
theory Turn_Returns
  imports Turn_Traces
begin

text \<open>
  A turn returns. The only loop without a bound in the code is the one over the attempts of a model call; it ends because every attempt
  after the first either uses the one recovery from a context overflow or leaves an \<open>llm/retry\<close> event with the next number, which the
  policy of the provider limits.
\<close>

section \<open>Rules\<close>

abbreviation retry_types :: "string set" where
  "retry_types \<equiv> {''llm/retry''}"

definition returns :: "('p, 'a) turn \<Rightarrow> bool" where
  "returns m \<longleftrightarrow> (\<forall>w. calm_world retry_types w \<longrightarrow> run_post True m w (\<lambda>r w'. calm_world retry_types w'))"

lemma silent_returns: "silent True retry_types m \<Longrightarrow> returns m"
  unfolding returns_def silent_def adds_def by (blast intro: run_post_mono dest: grown_def [THEN iffD1])

lemma adds_returns: "adds True retry_types m P \<Longrightarrow> returns m"
  unfolding returns_def adds_def by (blast intro: run_post_mono dest: grown_def [THEN iffD1])

lemma returns_bind: "returns m \<Longrightarrow> (\<And>x. returns (f x)) \<Longrightarrow> returns (turn_bind m f)"
  unfolding returns_def run_post_bind by (auto elim!: run_post_mono split: sum.splits)

lemma returns_if: "returns m \<Longrightarrow> returns m' \<Longrightarrow> returns (if b then m else m')"
  by simp

lemma post_after:
  assumes "silent True W m" "calm_world W w"
    "\<And>e w'. calm_world W w' \<Longrightarrow> seen W (loop_log w') = seen W (loop_log w) \<Longrightarrow> Q (Inl e) w'"
    "\<And>x w'. calm_world W w' \<Longrightarrow> seen W (loop_log w') = seen W (loop_log w) \<Longrightarrow> run_post True (f x) w' Q"
  shows "run_post True (turn_bind m f) w Q"
  unfolding run_post_bind
  by (rule run_post_mono [OF adds_post [OF assms(1)[unfolded silent_def] assms(2)]])
    (use assms(3, 4) in \<open>auto simp: grown_def split: sum.splits\<close>)

lemma post_silent:
  assumes "silent True W m" "calm_world W w" "\<And>r w'. calm_world W w' \<Longrightarrow> seen W (loop_log w') = seen W (loop_log w) \<Longrightarrow> Q r w'"
  shows "run_post True m w Q"
  by (rule run_post_mono [OF adds_post [OF assms(1)[unfolded silent_def] assms(2)]]) (use assms(3) in \<open>auto simp: grown_def\<close>)

section \<open>The count of retries\<close>

text \<open>What the hypothesis of the theorem asks of the retry policies: a limit.\<close>

definition limited_retries :: "'p loop_env \<Rightarrow> bool" where
  "limited_retries env \<longleftrightarrow> (\<forall>provider rp. le_retry_policy env provider = Some rp \<longrightarrow> rp_max_retries rp \<noteq> None)"

definition spent :: "u64 \<Rightarrow> u64 \<Rightarrow> string \<Rightarrow> string \<Rightarrow> session_event list \<Rightarrow> u64" where
  "spent turn step provider key es = prior_retry (find_first (is_retry_of turn step provider key) (rev es))"

lemma find_first_filter: "(\<And>x. P x \<Longrightarrow> Q x) \<Longrightarrow> find_first P (filter Q xs) = find_first P xs"
  unfolding find_first_def filter_filter by (rule arg_cong [where f = "case_list None (\<lambda>x _. Some x)"], rule filter_cong) auto

lemma find_first_Cons: "find_first P (x # xs) = (if P x then Some x else find_first P xs)"
  by (simp add: find_first_def)

lemma spent_seen: "spent turn step provider key (seen retry_types es) = spent turn step provider key es"
  unfolding spent_def seen_def rev_filter by (subst find_first_filter) (auto simp: is_retry_of_def)

lemma spent_cong: "seen retry_types es = seen retry_types es' \<Longrightarrow> spent turn step provider key es = spent turn step provider key es'"
  using spent_seen by metis

lemma spent_retry:
  assumes "written ''llm/retry'' (retry_event env rp i turn step provider k delay f) None seq e" "seen retry_types es' = seen retry_types es @ [e]"
  shows "spent turn step provider (rp_key rp) es' = k"
proof -
  have d: "ev_data e = retry_event env rp i turn step provider k delay f" and t: "ev_type e = ''llm/retry''" using assms(1) by (auto simp: written_def)
  have "is_retry_of turn step provider (rp_key rp) e" "get_u64 ''retry'' (ev_data e) = Some k"
    by (cases "rp_max_retries rp"; simp add: is_retry_of_def d t retry_event_def get_u64_def get_str_def)+
  then have "spent turn step provider (rp_key rp) (seen retry_types es @ [e]) = k" by (simp add: spent_def prior_retry_def find_first_Cons)
  then show ?thesis using spent_seen [of turn step provider "rp_key rp" es'] assms(2) by simp
qed

lemma start_retry_adds:
  "adds True retry_types (start_retry env rp i turn step provider k delay f)
     (\<lambda>r new. r = Inr True \<longrightarrow> (\<exists>e seq. new = [e] \<and> written ''llm/retry'' (retry_event env rp i turn step provider k delay f) None seq e))"
proof -
  have rest: "silent True retry_types (turn_bind turn_cancelled (\<lambda>stop. if stop then turn_return False else
     turn_bind turn_cancelled (\<lambda>stop. if stop then turn_return False else
     turn_bind turn_cancelled (\<lambda>stop. if stop then turn_return False else
     turn_bind (append_unit env ''llm/retry-started''
         (obj [(''retryId'', JStr i), (''turn'', jnat turn), (''step'', jnat step), (''retry'', jnat k)])) (\<lambda>_.
     turn_bind turn_cancelled (\<lambda>stop. turn_return (\<not> stop))))))) "
    by (intro silent_rules) simp_all
  show ?thesis unfolding start_retry_def
    by (rule adds_before [OF append_unit_adds rest]) auto
qed

text \<open>When a retry is due, the count goes up and stays within the limit.\<close>

definition one_more :: "'p loop_env \<Rightarrow> u64 \<Rightarrow> u64 \<Rightarrow> string \<Rightarrow> session_event list \<Rightarrow> session_event list \<Rightarrow> bool" where
  "one_more env turn step provider es es' \<longleftrightarrow> (\<exists>rp n. le_retry_policy env provider = Some rp \<and> rp_max_retries rp = Some n
     \<and> spent turn step provider (rp_key rp) es < n \<and> spent turn step provider (rp_key rp) es' = spent turn step provider (rp_key rp) es + 1)"

lemma schedule_retry_post:
  fixes env :: "'p loop_env"
  assumes lim: "limited_retries env" and w: "calm_world retry_types w"
  shows "run_post True (schedule_retry env turn step provider f) w
    (\<lambda>r w'. calm_world retry_types w' \<and> (r = Inr True \<longrightarrow> one_more env turn step provider (loop_log w) (loop_log w')))" (is "run_post True _ _ ?Q")
proof (cases "le_retry_policy env provider")
  case None
  then show ?thesis using w by (simp add: schedule_retry_def)
next
  case (Some rp)
  obtain n where n: "rp_max_retries rp = Some n" using lim Some by (auto simp: limited_retries_def)
  show ?thesis
    unfolding schedule_retry_def Some option.case
  proof (rule post_after [OF silent_basic(5) w])
    fix stop and w1 :: "'p loop_world"
    assume w1: "calm_world retry_types w1" and same: "seen retry_types (loop_log w1) = seen retry_types (loop_log w)"
    define prior where "prior = find_first (is_retry_of turn step provider (rp_key rp)) (rev (loop_log w1))"
    have k: "prior_retry prior = spent turn step provider (rp_key rp) (loop_log w)"
      using spent_cong [OF same] by (simp add: prior_def spent_def)
    have start: "run_post True (start_retry env rp i turn step provider (prior_retry prior + 1) delay f) w1 ?Q"
      if lt: "prior_retry prior < n" for i delay
    proof (rule run_post_mono [OF adds_post [OF start_retry_adds w1]])
      fix r w'
      assume g: "grown retry_types w1 (\<lambda>r new. r = Inr True \<longrightarrow> (\<exists>e seq. new = [e]
        \<and> written ''llm/retry'' (retry_event env rp i turn step provider (prior_retry prior + 1) delay f) None seq e)) r w'"
      have "one_more env turn step provider (loop_log w) (loop_log w')" if "r = Inr True"
      proof -
        from g that obtain e seq where
          "written ''llm/retry'' (retry_event env rp i turn step provider (prior_retry prior + 1) delay f) None seq e"
          "seen retry_types (loop_log w') = seen retry_types (loop_log w1) @ [e]" by (auto simp: grown_def)
        from spent_retry [OF this] show ?thesis using Some n k lt by (auto simp: one_more_def)
      qed
      then show "?Q r w'" using g by (simp add: grown_def)
    qed
    show "run_post True (if stop \<or> \<not> rp_permits rp (lf_code f) then turn_return False
          else
            turn_bind (turn_get loop_log) (\<lambda>es.
            let prior = find_first (is_retry_of turn step provider (rp_key rp)) (rev es);
                done = prior_retry prior
            in if (case rp_max_retries rp of None \<Rightarrow> False | Some n \<Rightarrow> done \<ge> n) then turn_return False
               else case retry_delay rp (done + 1) (lf_provider_retry_after_ms f) of
                 None \<Rightarrow> turn_return False
               | Some delay \<Rightarrow>
                   start_retry env rp (case Option.bind prior (\<lambda>e. get_str ''retryId'' (ev_data e)) of None \<Rightarrow> le_fresh_id env es | Some i \<Rightarrow> i)
                     turn step provider (done + 1) delay f)) w1 ?Q"
      using start w1 by (simp add: run_post_bind n Let_def flip: prior_def split: option.splits)
  qed simp
qed

section \<open>The loop over the attempts\<close>

lemma ends_silently: "silent True W m \<Longrightarrow> adds True W (turn_bind m (\<lambda>_. turn_return x)) (\<lambda>r new. new = [] \<and> (\<forall>y. r = Inr y \<longrightarrow> y = x))"
  unfolding silent_def by (erule adds_bind [OF _ adds_return]) auto

lemma gen_ends:
  "adds True retry_types (end_with_failure env turn step f) (\<lambda>r new. new = [] \<and> (\<forall>d. r = Inr d \<longrightarrow> d = GenEnded))"
  "adds True retry_types (end_cancelled env turn step) (\<lambda>r new. new = [] \<and> (\<forall>d. r = Inr d \<longrightarrow> d = GenEnded))"
  unfolding end_with_failure_def end_cancelled_def close_cancelled_step_def close_step_def end_turn_def end_aborted_def turn_bind_assoc [symmetric]
  by (rule ends_silently; intro silent_rules; simp)+

text \<open>Another attempt for the same provider: the recovery from an overflow, or one more retry.\<close>

definition advances ::
  "'p loop_env \<Rightarrow> u64 \<Rightarrow> u64 \<Rightarrow> string \<Rightarrow> bool \<Rightarrow> session_event list \<Rightarrow> agent_error + gen_decision \<Rightarrow> 'p loop_world \<Rightarrow> bool" where
  "advances env turn step provider recovered es r w' \<longleftrightarrow> calm_world retry_types w' \<and>
     (\<forall>recovered' rq'. r = Inr (GenAgain recovered' rq') \<longrightarrow> gr_provider rq' = provider
        \<and> (recovered' \<and> \<not> recovered \<and> seen retry_types (loop_log w') = seen retry_types es
           \<or> recovered' = recovered \<and> one_more env turn step provider es (loop_log w')))"

lemma advances_cong:
  assumes "seen retry_types es = seen retry_types es'"
  shows "advances env turn step provider recovered es = advances env turn step provider recovered es'"
  unfolding advances_def one_more_def fun_eq_iff using spent_cong [OF assms] assms by simp

lemma gen_ends_advance:
  assumes "calm_world retry_types w"
  shows "run_post True (end_with_failure env turn step f) w (advances env turn step provider recovered es)"
    "run_post True (end_cancelled env turn step) w (advances env turn step provider recovered es)"
  by (rule run_post_mono [OF adds_post [OF gen_ends(1) assms]] run_post_mono [OF adds_post [OF gen_ends(2) assms]];
      auto simp: grown_def advances_def)+

lemma retry_or_end_advances:
  assumes "limited_retries env" "calm_world retry_types w"
  shows "run_post True (retry_or_end env turn step rq recovered f) w (advances env turn step (gr_provider rq) recovered (loop_log w))"
  unfolding retry_or_end_def run_post_bind
proof (rule run_post_mono [OF schedule_retry_post [OF assms]], elim conjE)
  fix r :: "agent_error + bool" and w' :: "'a loop_world"
  assume w': "calm_world retry_types w'" and more: "r = Inr True \<longrightarrow> one_more env turn step (gr_provider rq) (loop_log w) (loop_log w')"
  have "run_post True (turn_bind turn_cancelled (\<lambda>stop. if stop then end_cancelled env turn step else end_with_failure env turn step f)) w'
      (advances env turn step (gr_provider rq) recovered (loop_log w))"
    by (rule post_after [OF silent_basic(5) w']) (auto simp: gen_ends_advance advances_def)
  then show "case r of Inl e \<Rightarrow> advances env turn step (gr_provider rq) recovered (loop_log w) (Inl e) w'
      | Inr again \<Rightarrow> run_post True (if again then turn_return (GenAgain recovered rq)
           else turn_bind turn_cancelled (\<lambda>stop. if stop then end_cancelled env turn step else end_with_failure env turn step f)) w'
        (advances env turn step (gr_provider rq) recovered (loop_log w))"
    using more w' by (auto simp: advances_def split: sum.splits)
qed

lemma generation_failed_advances:
  fixes env :: "'p loop_env"
  assumes "limited_retries env" "calm_world retry_types w" "calm_compaction retry_types env" "answers env"
  shows "run_post True (generation_failed env turn step rq recovered f) w (advances env turn step (gr_provider rq) recovered (loop_log w))"
proof (cases "\<not> recovered \<and> is_context_overflow (lf_code f)")
  case False
  then have "generation_failed env turn step rq recovered f = retry_or_end env turn step rq recovered f" by (auto simp: generation_failed_def)
  then show ?thesis using retry_or_end_advances [OF assms(1, 2)] by simp
next
  case True
  have "run_post True (case x of Inl e \<Rightarrow> end_with_failure env turn step (compaction_failure e)
        | Inr True \<Rightarrow> turn_return (GenAgain True rq) | Inr False \<Rightarrow> retry_or_end env turn step rq recovered f) w'
      (advances env turn step (gr_provider rq) recovered (loop_log w))"
    if "calm_world retry_types w'" "seen retry_types (loop_log w') = seen retry_types (loop_log w)" for x :: "string \<times> string + bool" and w'
  proof (cases x)
    case (Inl e)
    then show ?thesis using gen_ends_advance(1) [OF that(1)] by simp
  next
    case (Inr b)
    have "advances env turn step (gr_provider rq) recovered (loop_log w) (Inr (GenAgain True rq)) w'"
      using that True by (simp add: advances_def)
    then show ?thesis using Inr retry_or_end_advances [OF assms(1) that(1), of turn step rq recovered f]
        advances_cong [OF that(2), of env turn step "gr_provider rq" recovered]
      by (cases b) simp_all
  qed
  note decide = this
  show ?thesis unfolding generation_failed_def if_P [OF True]
    by (rule post_after [OF turn_compact_silent [OF assms(3, 4)] assms(2) _ decide]) (auto simp: advances_def)
qed

lemma gen_attempt_advances:
  fixes env :: "'p loop_env"
  assumes lim: "limited_retries env" and env: "calm_compaction retry_types env" "answers env" and w: "calm_world retry_types w"
  shows "run_post True (gen_attempt env turn step rq recovered first) w (advances env turn step (gr_provider rq) recovered (loop_log w))"
proof -
  let ?adv = "advances env turn step (gr_provider rq) recovered (loop_log w)"
  have decide: "run_post True (case r of
       Inr (g, seqs) \<Rightarrow> (case gn_finish g of FinishError f \<Rightarrow> generation_failed env turn step q recovered f
          | FinishAborted _ \<Rightarrow> end_cancelled env turn step | _ \<Rightarrow> turn_return (GenDone g seqs))
     | Inl e \<Rightarrow> turn_bind turn_cancelled (\<lambda>stop. if stop then end_cancelled env turn step
         else generation_failed env turn step q recovered (failure_of e))) w1 ?adv"
    if q: "gr_provider q = gr_provider rq" and w1: "calm_world retry_types w1" and same: "seen retry_types (loop_log w1) = seen retry_types (loop_log w)"
    for r :: "tessivum_error + generation \<times> u64 list" and q w1
  proof -
    have failed: "run_post True (generation_failed env turn step q recovered f) w2 ?adv"
      if "calm_world retry_types w2" "seen retry_types (loop_log w2) = seen retry_types (loop_log w)" for f w2
      using generation_failed_advances [OF lim that(1) env, of turn step q recovered f]
        advances_cong [OF that(2), of env turn step "gr_provider rq" recovered] by (simp add: q)
    have "run_post True (turn_bind turn_cancelled (\<lambda>stop. if stop then end_cancelled env turn step
         else generation_failed env turn step q recovered (failure_of e))) w1 ?adv" for e
      by (rule post_after [OF silent_basic(5) w1]) (auto simp: gen_ends_advance failed same advances_def)
    then show ?thesis
      using failed [OF w1 same] gen_ends_advance(2) [OF w1] w1
      by (auto simp: advances_def split: sum.splits finish_reason.splits)
  qed
  have attempt: "run_post True (turn_bind (consume_generation_attempt env turn step q) (\<lambda>r. case r of
       Inr (g, seqs) \<Rightarrow> (case gn_finish g of FinishError f \<Rightarrow> generation_failed env turn step q recovered f
          | FinishAborted _ \<Rightarrow> end_cancelled env turn step | _ \<Rightarrow> turn_return (GenDone g seqs))
     | Inl e \<Rightarrow> turn_bind turn_cancelled (\<lambda>stop. if stop then end_cancelled env turn step
         else generation_failed env turn step q recovered (failure_of e)))) w1 ?adv"
    if "gr_provider q = gr_provider rq" "calm_world retry_types w1" "seen retry_types (loop_log w1) = seen retry_types (loop_log w)" for q w1
    by (rule post_after [OF consume_generation_attempt_silent [OF _ env(2)] that(2)]) (use that in \<open>auto intro!: decide simp: advances_def\<close>)
  show ?thesis
  proof (cases first)
    case True
    then show ?thesis using attempt [OF refl w refl] by (simp add: gen_attempt_def turn_bind_return)
  next
    case False
    have "run_post True (turn_bind (append_runtime_context env turn step) (\<lambda>_. turn_bind (turn_get (\<lambda>w. rq\<lparr>gr_messages := request_messages env (lw_session w)\<rparr>))
      (\<lambda>q. turn_bind (consume_generation_attempt env turn step q) (\<lambda>r. case r of
       Inr (g, seqs) \<Rightarrow> (case gn_finish g of FinishError f \<Rightarrow> generation_failed env turn step q recovered f
          | FinishAborted _ \<Rightarrow> end_cancelled env turn step | _ \<Rightarrow> turn_return (GenDone g seqs))
     | Inl e \<Rightarrow> turn_bind turn_cancelled (\<lambda>stop. if stop then end_cancelled env turn step
         else generation_failed env turn step q recovered (failure_of e)))))) w ?adv"
    proof (rule post_after [OF append_runtime_context_silent w])
      show "run_post True (turn_bind (turn_get (\<lambda>w. rq\<lparr>gr_messages := request_messages env (lw_session w)\<rparr>))
      (\<lambda>q. turn_bind (consume_generation_attempt env turn step q) (\<lambda>r. case r of
       Inr (g, seqs) \<Rightarrow> (case gn_finish g of FinishError f \<Rightarrow> generation_failed env turn step q recovered f
          | FinishAborted _ \<Rightarrow> end_cancelled env turn step | _ \<Rightarrow> turn_return (GenDone g seqs))
     | Inl e \<Rightarrow> turn_bind turn_cancelled (\<lambda>stop. if stop then end_cancelled env turn step
         else generation_failed env turn step q recovered (failure_of e))))) w' ?adv"
        if "calm_world retry_types w'" "seen retry_types (loop_log w') = seen retry_types (loop_log w)" for w'
        using attempt [OF _ that, of "rq\<lparr>gr_messages := request_messages env (lw_session w')\<rparr>"] by (subst run_post_bind) simp
    qed (auto simp: advances_def)
    then show ?thesis using False by (simp add: gen_attempt_def turn_bind_assoc)
  qed
qed

text \<open>How many attempts can still follow.\<close>

definition attempts_left :: "'p loop_env \<Rightarrow> u64 \<Rightarrow> u64 \<Rightarrow> string \<Rightarrow> bool \<Rightarrow> session_event list \<Rightarrow> nat" where
  "attempts_left env turn step provider recovered es =
     (case Option.bind (le_retry_policy env provider) (\<lambda>rp. map_option (\<lambda>n. n - spent turn step provider (rp_key rp) es) (rp_max_retries rp)) of
        None \<Rightarrow> 0 | Some k \<Rightarrow> k) + (if recovered then 0 else 1)"

lemma advances_less:
  assumes "advances env turn step provider recovered es (Inr (GenAgain recovered' rq')) w'"
  shows "attempts_left env turn step (gr_provider rq') recovered' (loop_log w') < attempts_left env turn step provider recovered es"
proof -
  have provider: "gr_provider rq' = provider" and
    "recovered' \<and> \<not> recovered \<and> seen retry_types (loop_log w') = seen retry_types es
     \<or> recovered' = recovered \<and> one_more env turn step provider es (loop_log w')"
    using assms by (auto simp: advances_def)
  then consider (overflow) "recovered'" "\<not> recovered" "\<And>key. spent turn step provider key (loop_log w') = spent turn step provider key es"
    | (retry) "recovered' = recovered" "one_more env turn step provider es (loop_log w')"
    using spent_cong by blast
  then show ?thesis
  proof cases
    case overflow
    then show ?thesis by (simp add: attempts_left_def provider)
  next
    case retry
    then show ?thesis by (auto simp: attempts_left_def provider one_more_def)
  qed
qed

lemma gen_loop_returns:
  assumes lim: "limited_retries env" and env: "calm_compaction retry_types env" "answers env"
  shows "calm_world retry_types w \<Longrightarrow> run_post True (gen_loop env turn step rq recovered first) w (\<lambda>r w'. calm_world retry_types w')"
proof (induction "attempts_left env turn step (gr_provider rq) recovered (loop_log w)" arbitrary: rq recovered first w rule: less_induct)
  case less
  from run_post_returns [OF gen_attempt_advances [OF lim env less.prems]] obtain r w' where
    r: "gen_attempt env turn step rq recovered first w = Some (r, w')" and
    adv: "advances env turn step (gr_provider rq) recovered (loop_log w) r w'" by blast
  show ?case
  proof (cases "\<exists>b q. r = Inr (GenAgain b q)")
    case True
    then obtain b q where b: "r = Inr (GenAgain b q)" by blast
    have "calm_world retry_types w'" using adv by (simp add: advances_def)
    with less.hyps [OF advances_less [OF adv[unfolded b]]]
    have "run_post True (gen_loop env turn step q b False) w' (\<lambda>r w'. calm_world retry_types w')" by blast
    then show ?thesis using r b by (simp add: run_post_def gen_loop.simps [of env turn step rq])
  next
    case False
    then have "gen_loop env turn step rq recovered first w = Some (r, w')" using r
      by (cases r) (auto simp: gen_loop.simps [of env turn step rq] split: gen_decision.splits)
    then show ?thesis using adv by (simp add: run_post_def advances_def)
  qed
qed

section \<open>Steps and turns\<close>

lemma returns_case_option: "(\<And>y. returns (f y)) \<Longrightarrow> returns m \<Longrightarrow> returns (case x of None \<Rightarrow> m | Some y \<Rightarrow> f y)"
  by (cases x) simp_all

lemma close_returns:
  "silent True retry_types (close_step env turn step)" "silent True retry_types (end_turn env turn reason)"
  "silent True retry_types (end_aborted env turn)" "silent True retry_types (close_cancelled_step env turn step)"
  "silent True retry_types (end_with_failure env turn step f)"
  unfolding close_step_def end_turn_def end_aborted_def close_cancelled_step_def end_with_failure_def by (intro silent_rules; simp)+

lemma step_open_returns: "silent True retry_types (step_open env turn step pending)"
  unfolding step_open_def Let_def by (intro silent_rules silent_each) simp_all

lemma step_compaction_returns:
  assumes "calm_compaction retry_types env" "answers env"
  shows "silent True retry_types (step_compaction env turn step rq)"
  unfolding step_compaction_def by (intro silent_rules turn_compact_silent [OF assms] close_returns)

lemma step_generate_returns:
  assumes "limited_retries env" "calm_compaction retry_types env" "answers env"
  shows "returns (step_generate env turn step)"
proof -
  have loop: "returns (gen_loop env turn step rq False True)" for rq
    unfolding returns_def using gen_loop_returns [OF assms] by blast
  have "returns (case d of GenDone g seqs \<Rightarrow> turn_return (Some (g, seqs)) | _ \<Rightarrow> turn_return None)" for d
    by (cases d) (simp_all add: silent_returns silent_rules)
  note rest = returns_bind [OF loop this]
  show ?thesis unfolding step_generate_def
    by (intro returns_bind returns_case_option rest)
      (intro silent_returns append_runtime_context_silent step_request_silent step_compaction_returns [OF assms(2, 3)] append_request_header_silent
        append_request_context_silent silent_basic; simp)+
qed

text \<open>The tools may ask for events of any type, retry events included: the attempts of their step are over by then.\<close>

lemma append_returns: "returns (loop_append env t data sources op)"
  by (rule adds_returns [OF loop_append_effect])

lemma returns_basic: "returns (turn_return x)" "returns (turn_get h)"
  by (intro silent_returns silent_basic)+

lemma append_unit_returns: "returns (append_unit env t data)"
  unfolding append_unit_def by (intro returns_bind append_returns returns_basic)

lemma append_message_returns: "returns (append_message env t turn step m sources meta)"
  unfolding append_message_def Let_def by (intro returns_bind append_returns returns_basic)

lemma returns_each: "(\<And>x. returns (f x)) \<Longrightarrow> returns (turn_each f xs)"
  by (induction xs) (simp_all add: returns_bind returns_basic)

lemma returns_map: "(\<And>x. returns (f x)) \<Longrightarrow> returns (turn_map f xs)"
  by (induction xs) (simp_all add: returns_bind returns_basic)

lemma append_result_returns: "returns (append_result env turn step x)"
  unfolding append_result_def append_dispatch_def append_deferred_def
  by (simp only: split: prod.split, intro allI impI)
    (intro returns_bind returns_each returns_case_option append_unit_returns append_message_returns returns_basic; simp split: prod.split add: append_message_returns)

lemma run_tools_returns:
  assumes "answers env"
  shows "returns (run_tools env turn step m)"
proof -
  have "returns (case tool_outputs env es calls of None \<Rightarrow> turn_stuck
      | Some outputs \<Rightarrow> turn_bind (turn_each (append_result env turn step) (zip outputs seqs)) (\<lambda>_. turn_return (f outputs)))" for es calls seqs f
    using tool_outputs_answered [OF assms, of es calls] by (auto intro!: returns_bind returns_each append_result_returns returns_basic)
  then show ?thesis unfolding run_tools_def Let_def by (intro returns_bind returns_map append_returns returns_basic)
qed

lemma step_finish_returns:
  assumes "answers env"
  shows "returns (step_finish env turn step g)"
proof -
  have tools: "returns (turn_bind (run_tools env turn step (gn_message g)) f)" if "\<And>x. silent True retry_types (f x)" for f :: "bool \<Rightarrow> ('a, 'b) turn"
    by (intro returns_bind run_tools_returns [OF assms] silent_returns that)
  show ?thesis
  proof (cases "gn_finish g")
    case FinishToolCalls
    show ?thesis unfolding step_finish_def Let_def FinishToolCalls finish_reason.case
      by (rule tools) (intro silent_rules close_returns; simp)
  qed (simp only: step_finish_def Let_def finish_reason.case, intro silent_returns silent_rules close_returns; simp)+
qed

lemma run_step_returns:
  assumes "limited_retries env" "calm_compaction retry_types env" "answers env"
  shows "returns (run_step env turn step pending)"
proof -
  have stop: "returns (turn_bind (close_cancelled_step env turn step) (\<lambda>_. turn_return False))"
    by (intro silent_returns silent_rules close_returns)
  have finish: "returns (turn_bind turn_cancelled (\<lambda>stop. if stop then turn_bind (close_cancelled_step env turn step) (\<lambda>_. turn_return False)
           else turn_bind (append_assistant env turn step (gn_message g) (gn_usage g) seqs) (\<lambda>_. step_finish env turn step g)))" for g seqs
    by (intro returns_bind returns_if stop silent_returns silent_basic append_assistant_silent step_finish_returns [OF assms(3)]) simp
  have "returns (case r of None \<Rightarrow> turn_return False | Some (g, seqs) \<Rightarrow>
           turn_bind turn_cancelled (\<lambda>stop. if stop then turn_bind (close_cancelled_step env turn step) (\<lambda>_. turn_return False)
           else turn_bind (append_assistant env turn step (gn_message g) (gn_usage g) seqs) (\<lambda>_. step_finish env turn step g)))" for r
    using finish by (cases r) (auto simp: silent_returns silent_rules)
  note generated = returns_bind [OF step_generate_returns [OF assms] this]
  show ?thesis unfolding run_step_def
    by (rule returns_bind [OF silent_returns [OF step_open_returns] returns_bind [OF silent_returns [OF silent_basic(5)] returns_if [OF stop generated]]])
qed

lemma run_steps_returns:
  assumes "limited_retries env" "calm_compaction retry_types env" "answers env"
  shows "returns (run_steps env turn n step pending)"
proof (induction n arbitrary: step pending)
  case 0
  show ?case unfolding run_steps.simps by (rule silent_returns [OF close_returns(2)])
next
  case (Suc n)
  show ?case unfolding run_steps.simps
    by (intro returns_bind returns_if run_step_returns [OF assms] Suc silent_returns silent_basic close_returns(3))
qed

lemma run_turn_returns:
  assumes "limited_retries env" "calm_compaction retry_types env" "answers env"
  shows "returns (run_turn env m)"
proof -
  have "silent True retry_types (append_unit env ''turn/start'' data)" for data by (intro silent_rules) simp
  then show ?thesis unfolding run_turn_def
    by (intro returns_bind returns_if run_steps_returns [OF assms] silent_returns silent_basic)
qed

end
