(* ===== verification/Turn_Theorems.thy ===== *)
theory Turn_Theorems
  imports Turn_Frames Turn_Grants Turn_Returns Agent_Samples
begin

text \<open>
  The properties of the agent's turn, over the lemmas of \<open>Turn_Frames\<close>, \<open>Turn_Tools\<close>, \<open>Turn_Grants\<close> and \<open>Turn_Returns\<close>, with a small agent
  that the witnesses run: an empty session in memory and a model that asks for two tool calls and then stops.
\<close>

section \<open>A small agent\<close>

definition model_says :: "content_block list \<Rightarrow> finish_reason \<Rightarrow> stream_item list" where
  "model_says content finish = [Inr (JStr ''chunk'', Inr (Some \<lparr>gn_message = \<lparr>msg_id = ''a1'', msg_role = Assistant, msg_content = content,
     msg_source = SrcModel ''p'' ''m'' None\<rparr>, gn_usage = None, gn_finish = finish\<rparr>))]"

definition two_calls :: "content_block list" where
  "two_calls = [ToolCall ''c1'' ''bash'' ''x'', ToolCall ''c2'' ''bash'' ''y'']"

definition calls_message :: message where
  "calls_message = \<lparr>msg_id = ''a1'', msg_role = Assistant, msg_content = two_calls, msg_source = SrcModel ''p'' ''m'' None\<rparr>"

definition two_steps :: "session_event list \<Rightarrow> stream_item list" where
  "two_steps es = (if list_ex (\<lambda>e. ev_type e = ''tool/result'') es then model_says [Text ''ok''] FinishStop else model_says two_calls FinishToolCalls)"

text \<open>The calls finish in the reverse order; every tool's output has the given meta data.\<close>

definition turn_env :: "json \<Rightarrow> memory loop_env" where
  "turn_env meta = \<lparr>le_codec = wire_codec, le_ops = memory_persistence wire_codec,
     le_options = \<lparr>ao_provider = ''p'', ao_model = ''m'', ao_reasoning_effort = None, ao_max_tokens = None\<rparr>, le_max_steps = 3,
     le_clock = length, le_quote = id, le_reason_to = (\<lambda>_. JNull), le_header_to = (\<lambda>_. JNull), le_failure_to = (\<lambda>_. JNull),
     le_instructions = (\<lambda>_. None), le_skills = None, le_prompt = (\<lambda>_. Inr (None, [])), le_context_window = None, le_compact = None,
     le_generate = (\<lambda>_ es. Some (Inr (two_steps es))), le_retry_policy = (\<lambda>_. None), le_fresh_id = (\<lambda>_. ''r''), le_parse = (\<lambda>a. Inr (JStr a)),
     le_execute = (\<lambda>i n a es. Some \<lparr>to_content = [Text i], to_is_error = False, to_meta = meta\<rparr>), le_completion = (\<lambda>n es. rev [0..<n]),
     le_show = (\<lambda>_. ''error'')\<rparr>"

definition turn_world :: "cancel \<Rightarrow> memory loop_world" where
  "turn_world c = \<lparr>lw_session = plain_session [] [],
     lw_disk = [(''s1'', \<lparr>ms_header = sample_header\<lparr>hd_seed_length := None\<rparr>, ms_events = [], ms_flush_count = 0\<rparr>)],
     lw_inbox = inbox_new, lw_token = c, lw_cause = None, lw_last_header = None, lw_header_reason = None,
     lw_moves = [\<lambda>(s, p, ib). (s, p, bump_changes ib)]\<rparr>"

definition grant_meta :: json where
  "grant_meta = obj [(''codeDispatches'', JArr [obj [(''type'', JStr ''sandbox/mode''), (''data'', obj [(''mode'', JStr ''danger-full-access'')])]])]"

lemma turn_env_calm: "calm_env W (turn_env JNull)" "limited_retries (turn_env meta)" "completes_all (turn_env meta)"
  by (simp_all add: calm_env_def calm_compaction_def calm_tools_def limited_retries_def completes_all_def turn_env_def code_dispatches_def json_get_def)

lemma turn_env_answers: "answers (turn_env meta)" "calm_compaction W (turn_env meta)"
  by (simp_all add: answers_def calm_compaction_def turn_env_def)

lemma turn_world_calm: "calm_world W (turn_world c)"
  by (simp add: calm_world_def calm_move_def turn_world_def inbox_ok_new)

lemma cancelled_between_run:
  "map_option (\<lambda>(r, w). (r, frames (loop_log w))) (run_turn (turn_env JNull) sample_inbox (turn_world (Some 12))) = Some (Inr (), turn_frames 1 1)"
  by code_simp

lemma cancelled_in_append_run:
  "map_option (\<lambda>(r, w). (r, frames (loop_log w))) (run_turn (turn_env JNull) sample_inbox (turn_world (Some 13)))
     = Some (Inl (AgentSession Cancelled), [turn_mark ''turn/start'' 1, step_mark ''step/start'' 1 1])"
  by code_simp

lemma tools_run:
  "map_option (\<lambda>(r, w). (r, map ev_sources (seen tool_types (loop_log w)))) (run_tools (turn_env JNull) 1 1 calls_message (turn_world None))
     = Some (Inr False, [None, None, Some [0], Some [1]])"
  by code_simp

lemma grant_run:
  "map_option (\<lambda>(r, w). (r, effective_sandbox (permission_fold (loop_log w)))) (run_tools (turn_env grant_meta) 1 1 calls_message (turn_world None))
     = Some (Inr False, DangerFullAccess)"
  by code_simp

section \<open>The brackets of a turn\<close>

lemma next_turn_above:
  assumes "turn_mark ''turn/start'' k \<in> set (frames es)" "k < u64_max"
  shows "k < next_turn es"
proof -
  let ?ts = "List.map_filter (\<lambda>e. if ev_type e = ''turn/start'' then get_u64 ''turn'' (ev_data e) else None) es"
  from assms(1) obtain e where "e \<in> set es" "ev_type e = ''turn/start''" "json_get ''turn'' (ev_data e) = Some (jnat k)"
    by (auto simp: frames_def seen_def frame_of_def turn_mark_def)
  then have "k \<in> set ?ts" by (force simp: List.map_filter_def get_u64_def)
  then have "?ts \<noteq> []" "k \<le> Max (set ?ts)" by auto
  then show ?thesis using assms(2) by (simp add: next_turn_def Let_def)
qed

text \<open>What a turn that starts leaves, in one place.\<close>

lemma run_turn_brackets:
  assumes "calm_env frame_types env" "calm_world frame_types w" "run_turn env m w = Some (r, w')"
  obtains "fst (is_cancelled (lw_token w))" "r = Inr ()" "frames (loop_log w') = frames (loop_log w)"
  | new n where "\<not> fst (is_cancelled (lw_token w))" "n \<le> le_max_steps env" "frames (loop_log w') = frames (loop_log w) @ new"
      "case r of Inr _ \<Rightarrow> new = turn_frames (next_turn (loop_log w)) n | Inl _ \<Rightarrow> strict_prefix new (turn_frames (next_turn (loop_log w)) n)"
proof -
  obtain stop c where poll: "is_cancelled (lw_token w) = (stop, c)" by (rule prod.exhaust)
  let ?turn = "next_turn (loop_log w)" and ?w = "w\<lparr>lw_token := c\<rparr>"
  show ?thesis
  proof (cases stop)
    case True
    then have "r = Inr ()" "w' = ?w" using assms(3) by (simp_all add: run_turn_def turn_bind_cancelled [OF poll] turn_return_def)
    then show ?thesis using poll True that(1) by simp
  next
    case False
    then have run: "turn_bind (append_unit env ''turn/start'' (obj [(''turn'', jnat ?turn)])) (\<lambda>_. run_steps env ?turn (le_max_steps env) 1 (Some m)) ?w
        = Some (r, w')"
      using assms(3) by (simp add: run_turn_def turn_bind_cancelled [OF poll] turn_bind_get)
    have "calm_world frame_types ?w" using assms(2) by (simp add: calm_world_def)
    from addsD [OF started_turn_marks [OF assms(1)] this run] obtain new where
      new: "seen frame_types (loop_log w') = seen frame_types (loop_log w) @ new" "bracketed (turn_frames ?turn) (le_max_steps env) r new" by auto
    then obtain n where "n \<le> le_max_steps env"
      "case r of Inl _ \<Rightarrow> strict_prefix (map frame_of new) (turn_frames ?turn n) | Inr _ \<Rightarrow> map frame_of new = turn_frames ?turn n"
      by (auto simp: bracketed_def)
    then show ?thesis using that(2) [of n "map frame_of new"] poll False new(1) by (cases r) (simp_all add: frames_def)
  qed
qed

text \<open>C8: A turn that starts opens with a turn number that no earlier turn of the log has, and leaves exactly its start, its steps numbered
  from 1 on, each closed before the next is opened, at most the limit of steps, and its end. A turn that an error cuts short
  leaves a beginning of such a sequence; a turn of an agent that is cancelled already leaves nothing. This holds
  whenever other writers, compaction and the events that tools ask for leave the brackets alone.
\<close>

theorem turn_is_bracketed:
  assumes "calm_env frame_types env" "calm_world frame_types w" "run_turn env m w = Some (r, w')"
  shows "\<exists>new. frames (loop_log w') = frames (loop_log w) @ new
    \<and> (if fst (is_cancelled (lw_token w)) then r = Inr () \<and> new = []
       else \<exists>n \<le> le_max_steps env. case r of
           Inr _ \<Rightarrow> new = turn_frames (next_turn (loop_log w)) n
         | Inl _ \<Rightarrow> prefix new (turn_frames (next_turn (loop_log w)) n))
    \<and> (\<forall>k < u64_max. turn_mark ''turn/start'' k \<in> set (frames (loop_log w)) \<longrightarrow> k < next_turn (loop_log w))"
  using assms
proof (cases rule: run_turn_brackets)
  case 1
  then show ?thesis using next_turn_above by auto
next
  case (2 new n)
  then show ?thesis using next_turn_above by (intro exI [of _ new]) (auto split: sum.splits)
qed

theorem turn_is_bracketed_witness:
  "\<exists>r w' new. run_turn (turn_env JNull) sample_inbox (turn_world (Some 12)) = Some (r, w') \<and> r = Inr () \<and> new \<noteq> []
    \<and> frames (loop_log w') = frames (loop_log (turn_world (Some 12))) @ new
    \<and> (\<exists>n \<le> 3. new = turn_frames (next_turn (loop_log (turn_world (Some 12)))) n)"
proof -
  obtain r w' where run: "run_turn (turn_env JNull) sample_inbox (turn_world (Some 12)) = Some (r, w')" "r = Inr ()"
    using cancelled_between_run by auto
  have "\<not> fst (is_cancelled (lw_token (turn_world (Some 12))))" "le_max_steps (turn_env JNull) = 3"
    by (simp_all add: turn_world_def turn_env_def eval_nat_numeral)
  with turn_is_bracketed [OF turn_env_calm(1) turn_world_calm run(1)] run show ?thesis
    by (auto simp: turn_frames_def)
qed

text \<open>C9: A turn returns: a result or an error, never a loop without end and never a panic of a claim. This holds for every model, every
  tool and every cancellation as long as four things do: every retry policy has a limit; every stream of the model ends, and
  compaction and the tools return; compaction and the other writers of the session write no \<open>llm/retry\<close> events; and the other
  users of the inbox keep it well formed. The tools may ask for any events at all, retry events included, and the model may fail as often as it likes.
\<close>

theorem turn_always_returns:
  assumes "limited_retries env" "answers env" "calm_compaction {''llm/retry''} env" "calm_world {''llm/retry''} w"
  shows "\<exists>r w'. run_turn env m w = Some (r, w')"
  using run_turn_returns [OF assms(1, 3, 2)] assms(4) run_post_returns unfolding returns_def by blast

theorem turn_always_returns_witness:
  "limited_retries (turn_env grant_meta) \<and> answers (turn_env grant_meta) \<and> calm_world {''llm/retry''} (turn_world None)
    \<and> (\<exists>r w'. run_turn (turn_env grant_meta) sample_inbox (turn_world None) = Some (r, w'))"
  using turn_always_returns [OF turn_env_calm(2) turn_env_answers(1, 2) turn_world_calm] turn_env_calm turn_env_answers turn_world_calm by blast

section \<open>Tool calls\<close>

text \<open>C10: The tool calls of a step are all recorded before any result, in the order of the model's message; then every call has exactly one
  result, in the same order although the calls run side by side and finish in any order, and each result cites the number of
  the event of its own call and carries that call's output. When an append fails, a beginning of this is left. Other
  writers and the events that the tools ask for are taken not to be tool calls or results themselves.
\<close>

theorem tool_results_follow_calls:
  assumes "calm_env tool_types env" "completes_all env" "calm_world tool_types w" "run_tools env turn step m w = Some (r, w')"
  shows "\<exists>new. seen tool_types (loop_log w') = seen tool_types (loop_log w) @ new \<and> tool_trace env turn step m r new"
  using addsD [OF run_tools_adds [OF calm_envD(2) [OF assms(1)] assms(2)] assms(3, 4)] by metis

theorem tool_results_follow_calls_witness:
  "\<exists>r w' new. run_tools (turn_env JNull) 1 1 calls_message (turn_world None) = Some (r, w') \<and> r = Inr False
    \<and> map ev_sources (seen tool_types (loop_log w')) = [None, None, Some [0], Some [1]]
    \<and> seen tool_types (loop_log w') = seen tool_types (loop_log (turn_world None)) @ new \<and> tool_trace (turn_env JNull) 1 1 calls_message r new"
proof -
  obtain r w' where run: "run_tools (turn_env JNull) 1 1 calls_message (turn_world None) = Some (r, w')" "r = Inr False"
    "map ev_sources (seen tool_types (loop_log w')) = [None, None, Some [0], Some [1]]"
    using tools_run by auto
  from tool_results_follow_calls [OF turn_env_calm(1, 3) turn_world_calm run(1)] obtain new where
    "seen tool_types (loop_log w') = seen tool_types (loop_log (turn_world None)) @ new" "tool_trace (turn_env JNull) 1 1 calls_message r new" by blast
  with run show ?thesis by (intro exI [of _ r] exI [of _ w'] exI [of _ new]) simp
qed

section \<open>What the code does not guard\<close>

text \<open>C12: A turn that returns an error leaves itself open. Whatever the error and wherever it arose, no \<open>turn/end\<close> is written: the log keeps
  the start of the turn, some whole steps and at most one open step, or nothing of the turn at all. A cancellation that arrives
  inside such an append, not between two of them, is one of these errors. This holds whenever other writers,
  compaction and the events that tools ask for leave the brackets alone.
\<close>

theorem failed_turn_is_left_open:
  assumes "calm_env frame_types env" "calm_world frame_types w" "run_turn env m w = Some (Inl e, w')"
  shows "\<exists>new. frames (loop_log w') = frames (loop_log w) @ new
    \<and> (new = [] \<or> (\<exists>k \<le> le_max_steps env. \<exists>ending. new = turn_mark ''turn/start'' (next_turn (loop_log w))
         # steps_frames (next_turn (loop_log w)) [1..<1 + k] @ ending
         \<and> (ending = [] \<or> ending = [step_mark ''step/start'' (next_turn (loop_log w)) (1 + k)])))"
  using assms
proof (cases rule: run_turn_brackets)
  case (2 new n)
  from strict_prefix_turn [of new "next_turn (loop_log w)" n] 2(4) consider "new = []"
    | ys where "new = turn_mark ''turn/start'' (next_turn (loop_log w)) # ys" "open_steps (next_turn (loop_log w)) 1 n ys" by auto
  then show ?thesis
  proof cases
    case 1
    then show ?thesis using 2(3) by auto
  next
    case (2 ys)
    then show ?thesis using \<open>n \<le> le_max_steps env\<close> \<open>frames (loop_log w') = _\<close>
      by (intro exI [of _ new]) (auto simp: open_steps_def intro: order_trans)
  qed
qed simp

theorem failed_turn_is_left_open_witness:
  "\<exists>w' new. run_turn (turn_env JNull) sample_inbox (turn_world (Some 13)) = Some (Inl (AgentSession Cancelled), w')
    \<and> frames (loop_log w') = frames (loop_log (turn_world (Some 13))) @ new
    \<and> new = [turn_mark ''turn/start'' 1, step_mark ''step/start'' 1 1] \<and> (\<forall>k. turn_mark ''turn/end'' k \<notin> set new)"
proof -
  obtain w' where run: "run_turn (turn_env JNull) sample_inbox (turn_world (Some 13)) = Some (Inl (AgentSession Cancelled), w')"
    "frames (loop_log w') = [turn_mark ''turn/start'' 1, step_mark ''step/start'' 1 1]"
    using cancelled_in_append_run by auto
  have "frames (loop_log (turn_world (Some 13))) = []" by (simp add: turn_world_def frames_def plain_session_def)
  with failed_turn_is_left_open [OF turn_env_calm(1) turn_world_calm run(1)] run show ?thesis
    by (auto simp: turn_mark_def step_mark_def)
qed

text \<open>C11: The tools of a step decide the sandbox of their session. When the tools of a step return and their results are appended, the
  sandbox mode in force is the last valid one among the \<open>sandbox/mode\<close> events that the outputs name in their \<open>codeDispatches\<close>,
  in the order of the calls, whatever the mode was before and without any approval; it is as before only when there is none. Other writers
  are taken not to change the mode meanwhile, and the executor to finish every call once.
\<close>

theorem tool_outputs_set_sandbox:
  assumes "completes_all env" "calm_world {''sandbox/mode''} w" "run_tools env turn step m w = Some (Inr b, w')"
  shows "\<exists>es outs. tool_outputs env es (tool_calls m) = Some outs
    \<and> effective_sandbox (permission_fold (loop_log w')) =
       (case last_fact dispatched_mode (output_dispatches outs) of
          Some mode \<Rightarrow> mode
        | None \<Rightarrow> effective_sandbox (permission_fold (loop_log w)))"
proof -
  from addsD [OF run_tools_modes [OF assms(1)] assms(2, 3)] obtain new where
    new: "seen {''sandbox/mode''} (loop_log w') = seen {''sandbox/mode''} (loop_log w) @ new" "modes_of_tools env m (Inr b) new" by auto
  then obtain es outs where outs: "tool_outputs env es (tool_calls m) = Some outs" "sets_modes (output_dispatches outs) (Inr b) new"
    by (auto simp: modes_of_tools_def)
  have "last_fact sandbox_fact new = last_fact dispatched_mode (output_dispatches outs)"
    using outs(2) by (intro last_fact_cong) (simp add: sets_modes_def)
  then have "last_fact sandbox_fact (loop_log w') = (case last_fact dispatched_mode (output_dispatches outs) of
      None \<Rightarrow> last_fact sandbox_fact (loop_log w) | Some mode \<Rightarrow> Some mode)"
    using arg_cong [OF new(1), of "last_fact sandbox_fact"] by (simp add: last_fact_append sandbox_seen split: option.split)
  with outs(1) show ?thesis
    by (intro exI [of _ es] exI [of _ outs]) (simp add: effective_sandbox_def permission_fold_facts split: option.split)
qed

theorem tool_outputs_set_sandbox_witness:
  "effective_sandbox (permission_fold (loop_log (turn_world None))) = WorkspaceWrite
   \<and> (\<exists>w' es outs. run_tools (turn_env grant_meta) 1 1 calls_message (turn_world None) = Some (Inr False, w')
        \<and> tool_outputs (turn_env grant_meta) es (tool_calls calls_message) = Some outs
        \<and> last_fact dispatched_mode (output_dispatches outs) = Some DangerFullAccess
        \<and> effective_sandbox (permission_fold (loop_log w')) = DangerFullAccess)"
proof
  show before_run: "effective_sandbox (permission_fold (loop_log (turn_world None))) = WorkspaceWrite" by code_simp
  obtain w' where run: "run_tools (turn_env grant_meta) 1 1 calls_message (turn_world None) = Some (Inr False, w')"
    "effective_sandbox (permission_fold (loop_log w')) = DangerFullAccess" using grant_run by auto
  from tool_outputs_set_sandbox [OF turn_env_calm(3) turn_world_calm run(1)] run before_run
  show "\<exists>w' es outs. run_tools (turn_env grant_meta) 1 1 calls_message (turn_world None) = Some (Inr False, w')
        \<and> tool_outputs (turn_env grant_meta) es (tool_calls calls_message) = Some outs
        \<and> last_fact dispatched_mode (output_dispatches outs) = Some DangerFullAccess
        \<and> effective_sandbox (permission_fold (loop_log w')) = DangerFullAccess"
    by (auto split: option.splits)
qed

end
