(* ===== verification/Worker_Theorems.thy ===== *)
theory Worker_Theorems
  imports Agent_Worker Turn_Theorems
begin

text \<open>
  The properties of the worker: no accepted wake is missed, and a queue update that overlaps the worker's look at the inbox
  leaves a message behind.
\<close>

section \<open>Wakes\<close>

lemma looked_after_all:
  assumes "looked_after (wakes tr) tr"
  shows "Woke \<notin> set tr \<or> (\<exists>post pre. tr = post @ Looked # pre \<and> Woke \<notin> set post)"
proof -
  have none: "Woke \<notin> set xs" if "wakes xs = 0" for xs using that by (auto simp: wakes_def filter_empty_conv)
  show ?thesis
  proof (cases "wakes tr = 0")
    case False
    then obtain post pre where tr: "tr = post @ Looked # pre" "wakes tr \<le> wakes pre" using assms by (auto simp: looked_after_def)
    then have "wakes post = 0" by simp
    then show ?thesis using tr none by blast
  qed (simp add: none)
qed

section \<open>A worker and an edit\<close>

fun worker_steps :: "'p loop_env \<Rightarrow> nat \<Rightarrow> 'p worker \<Rightarrow> 'p worker option" where
  "worker_steps env 0 w = Some w"
| "worker_steps env (Suc n) w = Option.bind (worker_next env True w) (worker_steps env n)"

lemma worker_steps_run: "worker_run env tr w \<Longrightarrow> worker_steps env n w = Some w' \<Longrightarrow> \<exists>tr'. worker_run env tr' w' \<and> wakes tr' = wakes tr"
proof (induction n arbitrary: tr w)
  case (Suc n)
  then obtain v where v: "worker_next env True w = Some v" "worker_steps env n v = Some w'" by (auto simp: Option.bind_eq_Some_conv)
  from Suc.IH [OF worker_run.works [OF Suc.prems(1) v(1)] v(2)] show ?case by (auto split: if_splits)
qed auto

abbreviation worker_inbox :: "'p worker \<Rightarrow> inbox_state" where
  "worker_inbox w \<equiv> lw_inbox (wk_world w)"

text \<open>The state after another task has changed the inbox.\<close>

definition with_inbox :: "inbox_state \<Rightarrow> 'p worker \<Rightarrow> 'p worker" where
  "with_inbox ib = surrounded (\<lambda>(s, p, _). (s, p, ib)) []"

lemma idle_with_inbox: "worker_when_idle (with_inbox ib w) = worker_when_idle w"
  by (simp add: worker_when_idle_def with_inbox_def)

text \<open>A worker whose look at the inbox finds nothing goes to sleep as idle, whatever wakes it has not seen yet.\<close>

definition asleep :: "inbox_state \<Rightarrow> 'p worker \<Rightarrow> 'p worker" where
  "asleep ib w = w\<lparr>wk_world := (wk_world w)\<lparr>lw_inbox := ib, lw_moves := []\<rparr>, wk_settled := wk_wake w, wk_seen := wk_wake w, wk_running := False,
     wk_permit := False, wk_pc := PcSleep\<rparr>"

lemma steps_first:
  assumes "worker_next env True w = Some v" "\<exists>k. worker_steps env k v = Some w'"
  shows "\<exists>k. worker_steps env k w = Some w'"
proof -
  from assms(2) obtain k where "worker_steps env k v = Some w'" by blast
  then have "worker_steps env (Suc k) w = Some w'" using assms(1) by simp
  then show ?thesis by blast
qed

lemma rests_without_wake:
  assumes "wk_pc w = PcNone" "lw_token (wk_world w) = None" "lw_moves (wk_world w) = []" "lw_inbox (wk_world w) = ib" "wk_seen w = wk_wake w"
  shows "\<exists>k. worker_steps env k w = Some (asleep ib w)"
proof -
  let ?rest = "w\<lparr>wk_settled := wk_wake w, wk_running := False, wk_pc := PcSleep\<rparr>"
  have "worker_steps env 3 ?rest = Some (asleep ib w)" if "wk_permit w"
    using that assms by (simp add: eval_nat_numeral worker_next_def worker_poll_def asleep_def)
  moreover have "worker_steps env 0 ?rest = Some (asleep ib w)" if "\<not> wk_permit w"
    using that assms by (simp add: asleep_def)
  ultimately have sleep: "\<exists>k. worker_steps env k ?rest = Some (asleep ib w)" by blast
  have steps: "worker_next env True w = Some (w\<lparr>wk_pc := PcSettle (wk_wake w)\<rparr>)"
    "worker_next env True (w\<lparr>wk_pc := PcSettle (wk_wake w)\<rparr>) = Some (w\<lparr>wk_settled := wk_wake w, wk_pc := PcRest\<rparr>)"
    "worker_next env True (w\<lparr>wk_settled := wk_wake w, wk_pc := PcRest\<rparr>) = Some (w\<lparr>wk_settled := wk_wake w, wk_running := False, wk_pc := PcWait\<rparr>)"
    "worker_next env True (w\<lparr>wk_settled := wk_wake w, wk_running := False, wk_pc := PcWait\<rparr>)
       = Some (w\<lparr>wk_settled := wk_wake w, wk_running := False, wk_pc := PcNotified\<rparr>)"
    "worker_next env True (w\<lparr>wk_settled := wk_wake w, wk_running := False, wk_pc := PcNotified\<rparr>) = Some ?rest"
    using assms by (simp_all add: worker_next_def worker_poll_def)
  show ?thesis by (intro steps_first [OF steps(1)] steps_first [OF steps(2)] steps_first [OF steps(3)] steps_first [OF steps(4)] steps_first [OF steps(5)] sleep)
qed

lemma finds_nothing:
  assumes "wk_pc w = PcClaim" "lw_moves (wk_world w) = []" "reserve_next_turn_claim (lw_inbox (wk_world w)) = (None, ib)"
  shows "worker_next env True w = Some (w\<lparr>wk_world := (wk_world w)\<lparr>lw_inbox := ib\<rparr>, wk_pc := PcNone\<rparr>)"
  using assms by (simp add: worker_next_def worker_claim_def claim_next_turn_def interfere_def)

lemma goes_to_sleep:
  assumes "wk_pc w = PcClaim" "lw_token (wk_world w) = None" "lw_moves (wk_world w) = []" "lw_inbox (wk_world w) = ib"
    "reserve_next_turn_claim ib = (None, ib)"
  shows "\<exists>k. worker_steps env k w = Some (asleep ib w)"
proof -
  let ?none = "w\<lparr>wk_pc := PcNone\<rparr>" and ?again = "w\<lparr>wk_seen := wk_wake w, wk_pc := PcNone\<rparr>"
  have world: "(wk_world w)\<lparr>lw_inbox := ib\<rparr> = wk_world w" using assms(4) by (cases "wk_world w") simp
  have first: "worker_next env True w = Some ?none" using finds_nothing [of w ib] assms world by simp
  show ?thesis
  proof (cases "wk_wake w = wk_seen w")
    case True
    then show ?thesis using steps_first [OF first] rests_without_wake [of ?none ib env] assms by (simp add: asleep_def)
  next
    case False
    let ?turns = "w\<lparr>wk_seen := wk_wake w, wk_pc := PcTurns\<rparr>" and ?claim = "w\<lparr>wk_seen := wk_wake w, wk_pc := PcClaim\<rparr>"
    have "worker_next env True ?none = Some ?turns" "worker_next env True ?turns = Some ?claim"
      using False assms(2) by (simp_all add: worker_next_def worker_poll_def)
    moreover have "worker_next env True ?claim = Some ?again" using finds_nothing [of ?claim ib] assms world by simp
    moreover have "\<exists>k. worker_steps env k ?again = Some (asleep ib w)" using rests_without_wake [of ?again ib env] assms by (simp add: asleep_def)
    ultimately show ?thesis using first by (blast intro: steps_first)
  qed
qed

text \<open>Reserving and committing an edit of the first follow-up message.\<close>

lemma edit_front:
  assumes "ib_followups st = m # ms" "reserve_update (msg_id m) (EditContent content) b st = Some (Reserved rv, ib)"
  shows "ib = st\<lparr>ib_reservations := insert (msg_id m) (ib_reservations st)\<rparr>" "\<not> rv_wakes rv" "reserve_next_turn_claim ib = (None, ib)"
    "\<exists>ib'. commit_reservation rv ib = (True, ib') \<and> ib_followups ib' = m\<lparr>msg_content := content\<rparr> # ms \<and> fst (reserve_next_turn_claim ib') \<noteq> None"
proof -
  have "pending_index (ib_followups st) (msg_id m) = Some 0" using assms(1) by (simp add: pending_index_def position_def)
  then have rv: "msg_id m \<notin> ib_reservations st" "rv = \<lparr>rv_item = msg_id m, rv_update = EditContent content, rv_target = TFollowup,
      rv_message = m\<lparr>msg_content := content\<rparr>, rv_source = TFollowup, rv_start = 0, rv_destination_start = None, rv_wakes = False\<rparr>"
    and ib: "ib = st\<lparr>ib_reservations := insert (msg_id m) (ib_reservations st)\<rparr>"
    using assms by (auto simp: reserve_update_def locate_def plan_update_def Let_def split: if_splits)
  show "ib = st\<lparr>ib_reservations := insert (msg_id m) (ib_reservations st)\<rparr>" "\<not> rv_wakes rv" "reserve_next_turn_claim ib = (None, ib)"
    using rv ib assms(1) by (simp_all add: reserve_next_turn_claim_def)
  show "\<exists>ib'. commit_reservation rv ib = (True, ib') \<and> ib_followups ib' = m\<lparr>msg_content := content\<rparr> # ms \<and> fst (reserve_next_turn_claim ib') \<noteq> None"
    using assms(1) \<open>pending_index _ _ = _\<close> by (simp add: rv ib commit_reservation_def Let_def reserve_next_turn_claim_def bump_wakes_def bump_changes_def)
qed

text \<open>A message is sent and the agent woken; the worker is about to claim; then an edit of the message is reserved.\<close>

definition message_sent :: "memory worker" where
  "message_sent = snd (worker_wake (with_inbox (inbox_enqueue sample_inbox TFollowup inbox_new) (worker_spawn (turn_world None))))"

definition about_to_claim :: "memory worker" where
  "about_to_claim = the (worker_steps (turn_env JNull) 6 message_sent)"

definition edit_reservation :: "inbox_reservation" where
  "edit_reservation = \<lparr>rv_item = ''q1'', rv_update = EditContent [Text ''later''], rv_target = TFollowup,
     rv_message = sample_inbox\<lparr>msg_content := [Text ''later'']\<rparr>, rv_source = TFollowup, rv_start = 0, rv_destination_start = None, rv_wakes = False\<rparr>"

definition edit_reserved :: inbox_state where
  "edit_reserved = (worker_inbox about_to_claim)\<lparr>ib_reservations := {''q1''}\<rparr>"

definition gone_to_sleep :: "memory worker" where
  "gone_to_sleep = the (worker_steps (turn_env JNull) 9 (with_inbox edit_reserved about_to_claim))"

lemma worker_evaluation:
  "\<not> Option.is_none (worker_steps (turn_env JNull) 6 message_sent) \<and> wk_pc about_to_claim = PcClaim
   \<and> reserve_update ''q1'' (EditContent [Text ''later'']) True (worker_inbox about_to_claim) = Some (Reserved edit_reservation, edit_reserved)
   \<and> ib_followups (worker_inbox about_to_claim) = [sample_inbox] \<and> lw_token (wk_world about_to_claim) = None \<and> Option.is_none (wk_error about_to_claim)
   \<and> msg_id sample_inbox = ''q1''
   \<and> \<not> Option.is_none (worker_steps (turn_env JNull) 9 (with_inbox edit_reserved about_to_claim))
   \<and> wk_pc gone_to_sleep = PcSleep \<and> \<not> wk_permit gone_to_sleep \<and> lw_token (wk_world gone_to_sleep) = None
   \<and> worker_when_idle gone_to_sleep = Some (Inr ()) \<and> worker_inbox gone_to_sleep = edit_reserved"
  by code_simp

lemma about_to_claim_facts:
  "\<not> Option.is_none (worker_steps (turn_env JNull) 6 message_sent)" "wk_pc about_to_claim = PcClaim"
  "ib_followups (worker_inbox about_to_claim) = [sample_inbox]" "lw_token (wk_world about_to_claim) = None" "wk_error about_to_claim = None"
  "msg_id sample_inbox = ''q1''"
  using worker_evaluation by (blast, blast, blast, blast, simp add: Option.is_none_def, blast)

lemma edit_facts:
  "reserve_update ''q1'' (EditContent [Text ''later'']) True (worker_inbox about_to_claim) = Some (Reserved edit_reservation, edit_reserved)"
  using worker_evaluation by blast

lemma gone_to_sleep_facts:
  "\<not> Option.is_none (worker_steps (turn_env JNull) 9 (with_inbox edit_reserved about_to_claim))"
  "wk_pc gone_to_sleep = PcSleep" "\<not> wk_permit gone_to_sleep" "lw_token (wk_world gone_to_sleep) = None"
  "worker_when_idle gone_to_sleep = Some (Inr ())" "worker_inbox gone_to_sleep = edit_reserved"
  using worker_evaluation by blast+

lemma message_sent_run: "worker_run (turn_env JNull) [Woke] message_sent"
proof -
  let ?w = "with_inbox (inbox_enqueue sample_inbox TFollowup inbox_new) (worker_spawn (turn_world None))"
  have "worker_run (turn_env JNull) [] ?w" unfolding with_inbox_def by (rule worker_run.others [OF worker_run.spawned])
  moreover have "worker_wake ?w = (Inr (), message_sent)"
    by (simp add: message_sent_def worker_wake_def with_inbox_def surrounded_def worker_spawn_def turn_world_def)
  ultimately show ?thesis by (rule worker_run.woken)
qed

lemma sample_runs:
  "\<exists>tr. worker_run (turn_env JNull) tr about_to_claim \<and> wakes tr = 1"
  "worker_steps (turn_env JNull) 9 (with_inbox edit_reserved about_to_claim) = Some gone_to_sleep"
  "\<exists>tr. worker_run (turn_env JNull) tr gone_to_sleep \<and> wakes tr = 1"
proof -
  have "worker_steps (turn_env JNull) 6 message_sent = Some about_to_claim"
    using about_to_claim_facts(1) by (auto simp: about_to_claim_def Option.is_none_def)
  from worker_steps_run [OF message_sent_run this] show first: "\<exists>tr. worker_run (turn_env JNull) tr about_to_claim \<and> wakes tr = 1" by simp
  show sleep: "worker_steps (turn_env JNull) 9 (with_inbox edit_reserved about_to_claim) = Some gone_to_sleep"
    using gone_to_sleep_facts(1) by (auto simp: gone_to_sleep_def Option.is_none_def)
  from first obtain tr where "worker_run (turn_env JNull) tr about_to_claim" "wakes tr = 1" by blast
  with worker_steps_run [OF worker_run.others sleep[unfolded with_inbox_def]] show "\<exists>tr. worker_run (turn_env JNull) tr gone_to_sleep \<and> wakes tr = 1" by metis
qed

text \<open>C13: No wake is missed. When \<open>when_idle\<close> returns without an error and the worker has not ended, either nobody ever woke the
  agent or the worker has, after the last wake, looked at the inbox and found nothing to claim. And a worker that sleeps while
  a wake is unseen can always go on.\<close>

theorem wakes_are_served:
  assumes "worker_run env tr w" "wakes tr \<le> u64_max"
  shows "(worker_when_idle w = Some (Inr ()) \<and> wk_pc w \<noteq> PcDone \<longrightarrow>
      Woke \<notin> set tr \<or> (\<exists>post pre. tr = post @ Looked # pre \<and> Woke \<notin> set post))
    \<and> (wk_pc w = PcSleep \<and> wk_wake w \<noteq> wk_seen w \<longrightarrow> worker_next env locks w \<noteq> None)"
proof -
  from worker_run_ok [OF assms] have ok: "worker_ok tr w" .
  have "looked_after (wakes tr) tr" if "worker_when_idle w = Some (Inr ())" "wk_pc w \<noteq> PcDone"
    using that ok by (auto simp: worker_when_idle_def worker_ok_def settled_ok_def split: if_splits option.splits)
  moreover have "worker_next env locks w \<noteq> None" if "wk_pc w = PcSleep" "wk_wake w \<noteq> wk_seen w"
    using that ok by (simp add: worker_next_def worker_ok_def)
  ultimately show ?thesis using looked_after_all by blast
qed

theorem wakes_are_served_witness:
  "\<exists>tr. worker_run (turn_env JNull) tr gone_to_sleep \<and> wakes tr = 1 \<and> worker_when_idle gone_to_sleep = Some (Inr ())
     \<and> (Woke \<notin> set tr \<or> (\<exists>post pre. tr = post @ Looked # pre \<and> Woke \<notin> set post))"
proof -
  obtain tr where tr: "worker_run (turn_env JNull) tr gone_to_sleep" "wakes tr = 1" using sample_runs(3) by blast
  then have "wakes tr \<le> u64_max" by (simp add: u64_max_def)
  from wakes_are_served [OF tr(1) this] tr gone_to_sleep_facts(2, 5) show ?thesis by auto
qed

text \<open>C14: An edit of the first queued message that holds it reserved while the worker looks at the inbox leaves the message behind. From
  every state in which the worker is about to claim, the agent is not cancelled and the edit has reserved the first
  follow-up message, the worker finds nothing to claim and, when nobody else acts, goes to sleep; the edit then commits without
  waking it, and the message is queued and free to be claimed while the worker has no step to take and \<open>when_idle\<close>
  reports that the agent is done.\<close>

theorem overlapping_edit_strands_message:
  assumes "wk_pc w = PcClaim" "lw_token (wk_world w) = None" "ib_followups (worker_inbox w) = m # ms"
    "reserve_update (msg_id m) (EditContent content) steer (worker_inbox w) = Some (Reserved rv, ib)"
  shows "\<exists>k w' ib'. worker_steps env k (with_inbox ib w) = Some w' \<and> worker_inbox w' = ib
     \<and> commit_reservation rv ib = (True, ib') \<and> \<not> rv_wakes rv
     \<and> ib_followups ib' = m\<lparr>msg_content := content\<rparr> # ms \<and> fst (reserve_next_turn_claim ib') \<noteq> None
     \<and> worker_when_idle (with_inbox ib' w') = Some (case wk_error w of None \<Rightarrow> Inr () | Some e \<Rightarrow> Inl e)
     \<and> (\<forall>locks. worker_next env locks (with_inbox ib' w') = None)"
proof -
  let ?w = "with_inbox ib w"
  note edit = edit_front [OF assms(3, 4)]
  have w: "wk_pc ?w = PcClaim" "lw_token (wk_world ?w) = None" "lw_moves (wk_world ?w) = []" "lw_inbox (wk_world ?w) = ib" "wk_error ?w = wk_error w"
    using assms(1, 2) by (simp_all add: with_inbox_def surrounded_def)
  from goes_to_sleep [OF w(1-4) edit(3)] obtain k where k: "worker_steps env k ?w = Some (asleep ib ?w)" by blast
  from edit(4) obtain ib' where ib': "commit_reservation rv ib = (True, ib')" "ib_followups ib' = m\<lparr>msg_content := content\<rparr> # ms"
    "fst (reserve_next_turn_claim ib') \<noteq> None" by blast
  have "worker_when_idle (with_inbox ib' (asleep ib ?w)) = Some (case wk_error w of None \<Rightarrow> Inr () | Some e \<Rightarrow> Inl e)"
    unfolding idle_with_inbox using w(5) by (simp add: worker_when_idle_def asleep_def)
  moreover have "worker_next env locks (with_inbox ib' (asleep ib ?w)) = None" for locks
    using w(2) by (simp add: worker_next_def with_inbox_def surrounded_def asleep_def)
  moreover have "worker_inbox (asleep ib ?w) = ib" by (simp add: asleep_def)
  ultimately show ?thesis using k edit(2) ib' by blast
qed

theorem overlapping_edit_strands_message_witness:
  "\<exists>tr k w' ib'. worker_run (turn_env JNull) tr about_to_claim \<and> wk_pc about_to_claim = PcClaim
     \<and> worker_steps (turn_env JNull) k (with_inbox edit_reserved about_to_claim) = Some w'
     \<and> commit_reservation edit_reservation edit_reserved = (True, ib') \<and> ib_followups ib' = [sample_inbox\<lparr>msg_content := [Text ''later'']\<rparr>]
     \<and> worker_when_idle (with_inbox ib' w') = Some (Inr ()) \<and> worker_next (turn_env JNull) True (with_inbox ib' w') = None"
proof -
  obtain tr where run: "worker_run (turn_env JNull) tr about_to_claim" using sample_runs(1) by blast
  have "ib_followups (worker_inbox about_to_claim) = sample_inbox # []" "lw_token (wk_world about_to_claim) = None" "wk_error about_to_claim = None"
    "msg_id sample_inbox = ''q1''" using about_to_claim_facts(3-6) by auto
  with overlapping_edit_strands_message [of about_to_claim sample_inbox "[]" "[Text ''later'']" True edit_reservation edit_reserved "turn_env JNull"]
    about_to_claim_facts(2) edit_facts run
  show ?thesis by fastforce
qed

end
