(* ===== verification/Spec2Isabelle.thy ===== *)
theory Spec2Isabelle
  imports Recovery_Properties Permissions Planning Schedule_Properties Goal_Properties Event_Relay Question_Theorems Approval_Theorems Host_Approval_Properties
    Worker_Theorems
begin

text \<open>
  A verification library for the core of Tessivum, an agent harness written in Rust. The program keeps
  every agent session as an append-only log of events; everything else (the model-visible surface, the
  inbox, plan mode, todos, permissions) is a projection of that log, rebuilt on start and extended on
  every append. Tools run through a registry that validates arguments and enforces an access scope.

  \<^bold>\<open>Parts and theories.\<close>
  \<^item> \<open>Prelude\<close>: the \<open>Result\<close> type with \<open>?\<close> as \<open>and_then\<close>, loops that stop at the first
    error, \<open>BTreeMap\<close> as sorted association lists, checked 64-bit arithmetic, byte strings with
    \<open>trim\<close>. \<open>Json\<close>: \<open>serde_json::Value\<close> with its accessors.
  \<^item> \<open>Protocol\<close>, \<open>Events\<close>: the records of \<open>src/src/protocol.rs\<close> and every \<open>validate\<close>
    function. \<open>Wire_Codec\<close>: the wire format of messages.
  \<^item> \<open>Session_Base\<close>, \<open>Inbox_Replay\<close>, \<open>Session_State\<close>, \<open>Session_Persistence\<close>,
    \<open>Sessions\<close>, \<open>Recovery\<close>, \<open>Session_Store\<close>: \<open>src/src/session.rs\<close> in the order of the file's
    dependencies: errors and decoding, the durable inbox, the projection \<open>SessionState\<close> with
    \<open>build_state\<close>, the persistence trait with its in-memory backend, the append family of one
    \<open>Session\<close>, the closers of an interrupted turn, and \<open>SessionStore\<close> with its transition system
    \<open>store_step\<close>. \<open>Session_Samples\<close> holds a concrete session, \<open>Session_Properties\<close> and
    \<open>Recovery_Properties\<close> the theorems.
  \<^item> \<open>Durable_Fold\<close>: the contract that the smaller projections share. \<open>Permissions\<close>:
    \<open>src/src/permissions.rs\<close> and the two host functions that write permission facts.
    \<open>Planning\<close>: \<open>src/src/planning.rs\<close>.
  \<^item> \<open>Tool_Scope\<close>, \<open>Tool_Schema\<close>, \<open>Tool_Runtime\<close>: \<open>src/src/tools.rs\<close>: access scopes and
    narrowing, the JSON-schema subset, and the registry with the execution of a call as the trace of
    what it calls; a handler or an approval may panic or never return, and then there is no output.

  \<^item> \<open>Calendar\<close>, \<open>Schedule\<close>: \<open>src/src/schedule.rs\<close>: instants and civil dates, the rules and the
    record codec of a reminder, the durable fold, id allocation and the decision what is due.
    \<open>Schedule_Tools\<close>: the owner of a session's reminders with its drives and timers, and the create, list
    and delete tools; \<open>Schedule_Properties\<close> holds their theorems.
  \<^item> \<open>Agent_Inbox\<close>: the live inbox of \<open>src/src/agent.rs\<close>, every method one step. \<open>Inbox_Delivery\<close>: all
    interleavings of its operations with outstanding claims and reservations. \<open>Inbox_Durable\<close>: the
    events the host and the agent loop record for it, against \<open>Inbox_Replay\<close>.
    \<open>Agent_Registry\<close>: the lifecycle of an agent and the registry with factories, setups, authorities and
    disposal, as the transition system \<open>agents_step\<close>; \<open>Agent_Properties\<close> holds its theorems.
  \<^item> \<open>Goals\<close>: the ledger of \<open>src/src/goal.rs\<close>: data, checks, the fold of one event, the wire format.
    \<open>Goal_Service\<close>: the service, every operation a function of a world that holds the session, the agent and
    the moves other writers make between an attempt and its retry; \<open>Goal_Proofs\<close> what each operation keeps of it;
    \<open>Goal_Tools\<close> the router, the tools and the transition system; \<open>Goal_Properties\<close> the theorems.
  \<^item> \<open>Projection\<close>: \<open>src/src/projection.rs\<close>: the registry of named folds with observers, snapshots and checkpoints;
    \<open>Projection_Proofs\<close> relates its states to the fold of the log, \<open>Projection_Properties\<close> holds the transition system
    and its theorems. \<open>Event_Relay\<close>: the host's relay of session events (\<open>ensure_relay\<close> in \<open>src/src/host.rs\<close>).
    \<open>Session_Growth\<close>: how a session grows between two moments.
  \<^item> \<open>Questions\<close>: \<open>src/src/question.rs\<close>: slots, pending requests, responses and the tool call as a process;
    \<open>Question_Properties\<close> its interleavings and their invariant, \<open>Question_Theorems\<close> the theorems.
  \<^item> \<open>Approvals\<close>, \<open>Host_Approvals\<close>: \<open>src/src/approval.rs\<close>: the approval service of an agent, whose call is a process of
    phases behind a write gate, and the host's registry of browser approvals. \<open>Approval_Properties\<close> holds the interleavings
    of the service and their invariant, \<open>Approval_Theorems\<close> and \<open>Host_Approval_Properties\<close> the theorems;
    \<open>Agent_Samples\<close> the agent that the witnesses of the last three components share.
  \<^item> \<open>Agent_Loop\<close>, \<open>Agent_Turn\<close>: a turn of \<open>src/src/agent_loop.rs\<close> as a function of a world that holds the session, the token,
    the inbox and the moves of everyone else. \<open>Turn_Traces\<close>: what each operation adds to the log, as rules over the structure of
    the turn; \<open>Turn_Frames\<close>, \<open>Turn_Tools\<close>, \<open>Turn_Grants\<close>, \<open>Turn_Returns\<close> apply them to the brackets of a turn, to the tool calls,
    to the sandbox modes that tool outputs write and to termination; \<open>Turn_Theorems\<close> holds the theorems. \<open>Agent_Worker\<close>: the worker that runs one turn after another, with the
    wakes, cancellations and disposals of other tasks, as a transition system; \<open>Worker_Theorems\<close> its theorems.

  \<^bold>\<open>State and effects.\<close> A \<open>struct\<close> is a record and an \<open>enum\<close> a datatype; an error is the
  left summand of a sum. An asynchronous operation on the persistence is a function of a cancellation
  token and the backend state, and returns both with its result; the token is the number of polls that
  still succeed, so a theorem for every token is a theorem for every moment of cancellation. The write
  gate of a session serialises appends, so an append is one step. A panic (\<open>expect\<close>) is a value, and so is the answer of a
  handler, a model call or a compaction that panics or never comes.

  \<^bold>\<open>Interfaces.\<close> \<open>atomic_persistence\<close> and \<open>live_persistence\<close> state what the store relies on
  from a backend and are interpreted by the in-memory backend (\<open>mem\<close>, \<open>mem_live\<close>);
  \<open>tool_message_codec\<close> and \<open>planning_payloads\<close> state the round trips relied on from serde and are
  interpreted by the wire formats, and \<open>message_codec\<close> extends the first to whole messages (\<open>wire_messages\<close>);
  \<open>durable_fold\<close> and \<open>whole_value_fold\<close> are interpreted by the
  permission, plan-mode, todo and schedule folds; \<open>goal_payloads\<close> states the round trip of a goal change and
  \<open>goal_backend\<close> extends it by what a goal operation relies on from an append (\<open>goal_wire\<close>, \<open>goal_mem\<close>); \<open>approval_payloads\<close>
  states the round trip of approval events (\<open>approval_wire\<close>), and the approval policy is a further interpretation of
  \<open>whole_value_fold\<close> (\<open>policy_fold\<close>).

  \<^bold>\<open>What is shown.\<close> Every reachable live session is the rebuild of its log and its log is durable; an
  append agrees with a rebuild, error for error, and is atomic under cancellation; a cold restore
  succeeds, closes the interrupted turn and changes no policy; a restart loses nothing; pending inbox
  identities are distinct; the effective permissions are what the last well-formed facts say; a derived
  tool scope never widens; every tool call settles once unless its own handler or approval panics or never returns, and its
  handler runs only with authority; argument validation against a registered schema decides conformance; todos written are
  todos read; the civil calendar is the Gregorian one, instants print and parse back, fixed-rate
  reminders keep their grid and the id allocation ends; the live inbox hands out each message at most
  once under every interleaving, and the events recorded by operations that do not overlap replay to the live queues; at most one agent
  holds the authority of a session and a lost authority stays lost; the first cancellation wins; a drive
  of the reminders delivers before it records and makes progress, and the schedule tools report what the
  log says; the goals a running service holds are those of the log it has read, a goal operation replaces
  exactly the revision it was given and returns in spite of other writers, revisions only grow, and the
  drive queues the next round; as long as the relay does not overtake the observer and no callback fails, a projection is the fold of the log it has read,
  at every event of it, and a checkpoint restores it; the relay announces the log in order; a call that asks the user returns only an answer that
  was receipted once and is recorded, and the requests shown are the open ones; an action is allowed only when the policy asks, no
  hook denies, a registered answerer agrees and both are recorded, the enforced policy is the one the log shows as long as nobody else writes policy events, and the browser's
  registry answers only with a receipted response and stays within its limits; a turn leaves properly nested brackets with a fresh
  number and answers its tool calls in order when nobody else writes such events, and it returns when retries are limited and the model,
  the tools and compaction answer; a worker misses no wake. Theorems also exhibit defects: a log that is admitted and can never be restored, a queue
  update that overlaps a claim, and a next-step message left over at a restart, which both make the
  durable queue differ from the live one, and a goal round queued under a revision that an edit has replaced: every log in which it is taken up
  replays no more; the relay that overtakes the observer of the
  projections and one failing callback, which both make a projection skip an event for good; a receipted
  answer that is lost to a concurrent append; a registry of approvals that stays full; turns that return an error, a
  cancellation inside an append among them, and are never closed; tool outputs that set the sandbox mode of their session; and edits that
  leave a queued message to an idle worker.

  \<^bold>\<open>Parameters.\<close> Code outside the repository is an argument: the codecs serde derives (records
  \<open>codec\<close> and \<open>planning_codec\<close>), the formatting of strings and JSON values (\<open>formats\<close>,
  \<open>debug\<close>, \<open>quote\<close>), tool handlers, approvals and the question registry. Recursion is structural or
  by a size measure; there is no fuel, and the three loops without a measure in the code, the id
  allocation of schedules, the retry of a goal write and the attempts of a model call, are \<open>partial_function\<close>s that are proved to
  return, the last under policies with a limit.

  \<^bold>\<open>Hypotheses on the surroundings.\<close> The theorems on turns name what they rely on: \<open>calm_env\<close> and \<open>calm_world\<close> say that other writers,
  compaction and the events that tools name in their outputs add no event of the watched types (the agent loop appends such
  events unchecked, so this is a condition on the tools), \<open>answers\<close> that the model, the tools and compaction return. The flag of
  \<open>projection_reachable\<close> says that the relay stayed in step, the flag of \<open>approval_run\<close> that only the service wrote the policy; runs
  without them are runs of the same systems.

  \<^bold>\<open>Not modelled.\<close> The interleaving of two store operations on one session at an await point, the file
  and SQL backends, and the parts of the program that are input and output: the HTTP host and API, the
  bridge, subprocesses, sandboxes, language servers, model adapters and plugin installation.
  Of \<open>src/src/agent_loop.rs\<close> the factory is left out that wires the tools, prompt, plugins and mode of a session, of
  \<open>src/src/host.rs\<close> everything but the relay, the queue updates and the permission commands. Subagents, workflows, skills,
  compaction, jobs, settings and the session query are left out: they supervise processes, read files or call a
  model, and what the modelled parts rely on from them is an argument.
\<close>

section \<open>Properties that span components\<close>

lemma closers_irrelevant:
  assumes "interrupted_turn_closers cdc es = Inr closers"
    and "\<And>e. relevant e \<Longrightarrow> ev_type e \<notin> {''tool/result'', ''step/end'', ''turn/end''}"
  shows "filter relevant closers = []"
  using closer_types [OF assms(1)] assms(2) by (auto simp: filter_empty_conv)

text \<open>C34: Repair changes no policy. The log a cold restore leaves folds to the same permission facts, the
  same plan mode and the same todo list as the log it found, so recovering an interrupted turn neither
  grants nor revokes anything.\<close>

theorem cold_restore_keeps_projections:
  assumes "store_restore cdc (memory_persistence cdc) live x RestoreCold (c, p) = (Inr (s, live'), c', p')"
    and "mem_log p x = Some (h, es)"
  shows "permission_fold (session_events s) = permission_fold es
    \<and> fold_plan_mode pc (session_events s) = fold_plan_mode pc es
    \<and> fold_todos pc (session_events s) = fold_todos pc es"
proof -
  from assms obtain closers where cl: "interrupted_turn_closers cdc es = Inr closers"
    and ev: "session_events s = es @ closers"
    by (auto elim: mem.restore_done)
  have "filter is_permission_event closers = []"
    by (rule closers_irrelevant [OF cl]) (auto simp: is_permission_event_def)
  from permissions.fold_untouched [OF this] have
    "permission_fold (es @ closers) = permission_fold es"
    by (simp add: permission_fold_try permission_fold_def)
  moreover have "filter (\<lambda>e. ev_type e = ''plan/mode'') closers = []"
    by (rule closers_irrelevant [OF cl]) auto
  from plan_mode_fold.fold_untouched [OF this] have
    "fold_plan_mode pc (es @ closers) = fold_plan_mode pc es"
    by (simp add: fold_plan_mode_def try_fold_append)
  moreover have "filter (\<lambda>e. ev_type e = ''todo/write'' \<or> ev_type e = ''turn/start'') closers = []"
    by (rule closers_irrelevant [OF cl]) auto
  from todos_fold.fold_untouched [OF this] have "fold_todos pc (es @ closers) = fold_todos pc es"
    by (simp add: fold_todos_def try_fold_append)
  ultimately show ?thesis by (simp add: ev)
qed

theorem cold_restore_keeps_projections_witness:
  "\<exists>s live' c' p'. store_restore wire_codec (memory_persistence wire_codec) [] ''s1'' RestoreCold
      (None, sample_memory ''c1'') = (Inr (s, live'), c', p')
    \<and> permission_fold (session_events s) = permission_fold (sample_log ''c1'')"
proof -
  let ?run = "store_restore wire_codec (memory_persistence wire_codec) [] ''s1'' RestoreCold
      (None, sample_memory ''c1'')"
  have "is_ok (fst ?run)" by code_simp
  then obtain s live' c' p' where run: "?run = (Inr (s, live'), c', p')"
    by (metis is_ok_ex prod.exhaust_sel)
  have "mem_log (sample_memory ''c1'') ''s1'' = Some (sample_header, sample_log ''c1'')" by code_simp
  from cold_restore_keeps_projections [OF run this] run show ?thesis by blast
qed

text \<open>C35: Delegation never widens authority. Whatever restrictions a child view is derived with, a handler
  that runs under the child's scope belongs to a tool its parent's scope does not deny; and where the
  parent only asks, the child's call was approved.\<close>

theorem child_scope_never_escalates:
  assumes "narrowed parent r = Inr child"
    and "runtime_execute fm child st cx c name args = (r', tr)"
    and "RunHandler n cx' a \<in> set tr"
  shows "scope_access parent name \<noteq> Deny
    \<and> (scope_access parent name = AskFirst \<longrightarrow>
         (\<exists>approve tool. rs_approval st = Some approve \<and> map_of (rs_tools st) name = Some tool
            \<and> approve cx (definition_schema (rt_definition tool)) args = Some (Inr (Some True))))"
  using assms(2)
proof (cases rule: execute_cases)
  case (refused pre out)
  with assms(3) show ?thesis by (auto simp: notify_result_def)
next
  case (stuck tool)
  with ask_approval_stuck [OF stuck(3)] assms(3) show ?thesis by simp
next
  case (panicked tool)
  with assms(3) show ?thesis by simp
next
  case (ran pre tool post)
  from narrowed_access [OF assms(1), of name] have le: "scope_access child name \<le> scope_access parent name"
    by simp
  show ?thesis
  proof (cases "scope_access child name = Allow")
    case True
    with le have "scope_access parent name = Allow"
      by (cases "scope_access parent name") (simp_all add: less_eq_tool_access_def)
    then show ?thesis by simp
  next
    case False
    with ran(3) have ask: "scope_access child name = AskFirst"
      "ask_approval st cx (rt_definition tool) args = (Some True, pre)" by auto
    from ask(1) le have "scope_access parent name \<noteq> Deny"
      by (auto simp: less_eq_tool_access_def)
    with ask(2) ran(1) show ?thesis by (auto simp: ask_approval_def split: option.splits)
  qed
qed

theorem child_scope_never_escalates_witness:
  "\<exists>child out tr. narrowed scope_root (allow_only [''plan'']) = Inr child
     \<and> runtime_execute sample_formats child sample_runtime \<lparr>cx_session = ''s'', cx_call = ''c''\<rparr> None
         ''plan'' (obj [(''plan'', JStr ''x'')]) = (Some out, tr)
     \<and> scope_access scope_root ''plan'' \<noteq> Deny"
proof -
  let ?cx = "\<lparr>cx_session = ''s'', cx_call = ''c''\<rparr>" and ?args = "obj [(''plan'', JStr ''x'')]"
  let ?child = "\<lparr>sp_default = Deny, sp_named = [(''plan'', Allow)]\<rparr>"
  let ?out = "\<lparr>to_content = [Text ''done''], to_is_error = False, to_meta = JNull\<rparr>"
  have n: "narrowed scope_root (allow_only [''plan'']) = Inr ?child" by code_simp
  have run: "runtime_execute sample_formats ?child sample_runtime ?cx None ''plan'' ?args
      = (Some ?out, [RunHandler ''plan'' ?cx ?args])"
    by code_simp
  from child_scope_never_escalates [OF n run, of "''plan''" ?cx ?args] n run
  show ?thesis by auto
qed

end
